(* ===== verification/Prelude.thy ===== *)
theory Prelude
  imports Main "HOL-Library.Word" "HOL-Library.Monad_Syntax"
begin

text \<open>
  Shared vocabulary of the development: the named theorem collections of the component
  theories and the generic lemmas on lists, options and functions that they use.

  Convention for faults. A C statement that dereferences a NULL pointer, indexes an array out
  of its bounds or reads an uninitialised object has no defined result. Every model function
  that can reach one returns an option, with None for this fault; the option monad threads the
  state through a handler, so that a fault anywhere makes the whole handler None. Error codes
  the program returns are ordinary values and never None.
\<close>

named_theorems list_ops \<open>characterisation of the intrusive list operations\<close>
named_theorems ring_ops \<open>characterisation of the circular fifo operations\<close>
named_theorems frame_simps \<open>fields an operation leaves alone\<close>

subsection \<open>Options and the fault monad\<close>

lemma bind_Some_iff [simp]: "Option.bind m f = Some y \<longleftrightarrow> (\<exists>x. m = Some x \<and> f x = Some y)"
  by (cases m) auto

lemma option_case_Some_iff:
  "(case m of None \<Rightarrow> None | Some x \<Rightarrow> f x) = Some y \<longleftrightarrow> (\<exists>x. m = Some x \<and> f x = Some y)"
  by (cases m) auto

text \<open>A guard of the fault monad: the C statement is defined only when the condition holds.\<close>

definition ensure :: "bool \<Rightarrow> unit option" where
  "ensure b = (if b then Some () else None)"

lemma ensure_Some [simp]: "ensure b = Some u \<longleftrightarrow> b"
  by (simp add: ensure_def)

lemma ensure_simps [simp]: "ensure True = Some ()" "ensure False = None"
  by (simp_all add: ensure_def)

text \<open>A loop of the program over a list of items, with a body that may fault.\<close>

fun foldM :: "('a \<Rightarrow> 's \<Rightarrow> 's option) \<Rightarrow> 'a list \<Rightarrow> 's \<Rightarrow> 's option" where
  "foldM f [] s = Some s"
| "foldM f (x # xs) s = (case f x s of None \<Rightarrow> None | Some s' \<Rightarrow> foldM f xs s')"

lemma foldM_append:
  "foldM f (xs @ ys) s = (case foldM f xs s of None \<Rightarrow> None | Some s' \<Rightarrow> foldM f ys s')"
  by (induction xs arbitrary: s) (auto split: option.splits)

lemma foldM_invariant:
  assumes "foldM f xs s = Some s'" and "I s"
    and "\<And>x t t'. x \<in> set xs \<Longrightarrow> I t \<Longrightarrow> f x t = Some t' \<Longrightarrow> I t'"
  shows "I s'"
  using assms
proof (induction xs arbitrary: s)
  case Nil
  then show ?case by simp
next
  case (Cons x xs)
  from Cons.prems(1) obtain t where t: "f x s = Some t" "foldM f xs t = Some s'"
    by (auto split: option.splits)
  have "I t" using Cons.prems(2) Cons.prems(3) [of x s t] t(1) by simp
  from t(2) this show ?case by (rule Cons.IH) (rule Cons.prems(3), auto)
qed

lemma foldM_const_field:
  assumes "foldM f xs s = Some s'" and "\<And>x t t'. x \<in> set xs \<Longrightarrow> f x t = Some t' \<Longrightarrow> g t' = g t"
  shows "g s' = g s"
  by (rule foldM_invariant [where I = "\<lambda>t. g t = g s", OF assms(1)]) (auto simp: assms(2))

lemma foldM_defined:
  assumes "I s" and "\<And>x t. x \<in> set xs \<Longrightarrow> I t \<Longrightarrow> \<exists>t'. f x t = Some t' \<and> I t'"
  shows "\<exists>s'. foldM f xs s = Some s' \<and> I s'"
  using assms
proof (induction xs arbitrary: s)
  case Nil
  then show ?case by simp
next
  case (Cons x xs)
  from Cons.prems(2) [of x s] Cons.prems(1) obtain t where t: "f x s = Some t" "I t" by auto
  from Cons.IH [OF t(2)] Cons.prems(2) show ?case using t by auto
qed

subsection \<open>Lists\<close>

lemma remove1_mid: "x \<notin> set as \<Longrightarrow> remove1 x (as @ x # bs) = as @ bs"
  by (induction as) auto

text \<open>A nonempty list in front of another one, split at its last element.\<close>

lemma cons_snoc: "a # xs @ zs = butlast (a # xs) @ last (a # xs) # zs"
  by (induction xs arbitrary: a) auto

lemma distinct_remove1_length: "x \<in> set xs \<Longrightarrow> Suc (length (remove1 x xs)) = length xs"
  by (simp add: length_remove1) (metis Suc_pred length_pos_if_in_set)

lemma count_filter_remove1:
  "x \<in> set xs \<Longrightarrow> P x \<Longrightarrow> Suc (length (filter P (remove1 x xs))) = length (filter P xs)"
  by (induction xs) auto

lemma filter_remove1_other:
  "\<not> P x \<Longrightarrow> filter P (remove1 x xs) = filter P xs"
  by (induction xs) auto

lemma filter_length_cong:
  "(\<And>x. x \<in> set xs \<Longrightarrow> P x = Q x) \<Longrightarrow> length (filter P xs) = length (filter Q xs)"
  by (metis filter_cong)

subsection \<open>Words\<close>

lemma unat_eqI: "unat v = unat w \<Longrightarrow> v = w"
  by (simp add: unsigned_word_eqI)

lemma unat_and_mask: "unat (and w (mask k) :: 32 word) = unat w mod 2 ^ k"
  unfolding take_bit_eq_mask [symmetric] unsigned_take_bit_eq by (rule take_bit_eq_mod)

end
