(* ===== verification/List_Head.thy ===== *)
theory List_Head
  imports Prelude
begin

text \<open>
  include/list.h: the cyclic doubly linked lists whose links are embedded in the listed
  structures. A heap maps the address of a struct list_head to its two pointers; None is the
  null pointer that list_del leaves behind. The operations are written on the heap, statement
  by statement. The predicate dlist relates a head to the HOL list of the linked nodes, and
  the lemmas of the list_ops collection say which list each operation produces and which
  nodes it touches. The locale linked_list is the contract the users of the lists rely on.
\<close>

subsection \<open>The operations\<close>

record 'n list_head =
  lh_next :: "'n option"
  lh_prev :: "'n option"

type_synonym 'n lheap = "'n \<Rightarrow> 'n list_head"

abbreviation set_next :: "'n \<Rightarrow> 'n option \<Rightarrow> 'n lheap \<Rightarrow> 'n lheap" where
  "set_next p v h \<equiv> h(p := (h p)\<lparr>lh_next := v\<rparr>)"

abbreviation set_prev :: "'n \<Rightarrow> 'n option \<Rightarrow> 'n lheap \<Rightarrow> 'n lheap" where
  "set_prev p v h \<equiv> h(p := (h p)\<lparr>lh_prev := v\<rparr>)"

definition init_list_head :: "'n \<Rightarrow> 'n lheap \<Rightarrow> 'n lheap" where
  "init_list_head p h = set_prev p (Some p) (set_next p (Some p) h)"

definition ll_add :: "'n \<Rightarrow> 'n \<Rightarrow> 'n \<Rightarrow> 'n lheap \<Rightarrow> 'n lheap" where
  "ll_add new prev next h =
     set_next prev (Some new)
       (set_prev new (Some prev)
         (set_next new (Some next)
           (set_prev next (Some new) h)))"

definition list_add :: "'n \<Rightarrow> 'n \<Rightarrow> 'n lheap \<Rightarrow> 'n lheap option" where
  "list_add new head h =
     (case lh_next (h head) of None \<Rightarrow> None | Some nx \<Rightarrow> Some (ll_add new head nx h))"

definition list_add_tail :: "'n \<Rightarrow> 'n \<Rightarrow> 'n lheap \<Rightarrow> 'n lheap option" where
  "list_add_tail new head h =
     (case lh_prev (h head) of None \<Rightarrow> None | Some pv \<Rightarrow> Some (ll_add new pv head h))"

definition ll_del :: "'n option \<Rightarrow> 'n option \<Rightarrow> 'n lheap \<Rightarrow> 'n lheap option" where
  "ll_del prev next h =
     (case (prev, next) of
        (Some p, Some n) \<Rightarrow> Some (set_next p (Some n) (set_prev n (Some p) h))
      | _ \<Rightarrow> None)"

definition list_del :: "'n \<Rightarrow> 'n lheap \<Rightarrow> 'n lheap option" where
  "list_del entry h =
     do { h1 \<leftarrow> ll_del (lh_prev (h entry)) (lh_next (h entry)) h;
          Some (set_prev entry None (set_next entry None h1)) }"

definition list_del_init :: "'n \<Rightarrow> 'n lheap \<Rightarrow> 'n lheap option" where
  "list_del_init entry h =
     do { h1 \<leftarrow> ll_del (lh_prev (h entry)) (lh_next (h entry)) h;
          Some (init_list_head entry h1) }"

definition list_move :: "'n \<Rightarrow> 'n \<Rightarrow> 'n lheap \<Rightarrow> 'n lheap option" where
  "list_move entry head h =
     do { h1 \<leftarrow> ll_del (lh_prev (h entry)) (lh_next (h entry)) h;
          list_add entry head h1 }"

definition list_move_tail :: "'n \<Rightarrow> 'n \<Rightarrow> 'n lheap \<Rightarrow> 'n lheap option" where
  "list_move_tail entry head h =
     do { h1 \<leftarrow> ll_del (lh_prev (h entry)) (lh_next (h entry)) h;
          list_add_tail entry head h1 }"

definition list_empty :: "'n \<Rightarrow> 'n lheap \<Rightarrow> bool" where
  "list_empty head h \<longleftrightarrow> lh_next (h head) = Some head"

definition ll_splice :: "'n \<Rightarrow> 'n \<Rightarrow> 'n lheap \<Rightarrow> 'n lheap option" where
  "ll_splice lst head h =
     do { first \<leftarrow> lh_next (h lst);
          last \<leftarrow> lh_prev (h lst);
          at \<leftarrow> lh_next (h head);
          Some (set_prev at (Some last) (set_next last (Some at)
            (set_next head (Some first) (set_prev first (Some head) h)))) }"

definition list_splice :: "'n \<Rightarrow> 'n \<Rightarrow> 'n lheap \<Rightarrow> 'n lheap option" where
  "list_splice lst head h = (if list_empty lst h then Some h else ll_splice lst head h)"

definition list_splice_init :: "'n \<Rightarrow> 'n \<Rightarrow> 'n lheap \<Rightarrow> 'n lheap option" where
  "list_splice_init lst head h =
     (if list_empty lst h then Some h
      else do { h1 \<leftarrow> ll_splice lst head h; Some (init_list_head lst h1) })"

text \<open>
  The iteration macros list_for_each and list_for_each_entry: the nodes visited, from pos until
  the head is met again. The walk need not end on a damaged list, so it is a partial function:
  None also stands for a walk that never returns.
\<close>

partial_function (option) list_walk :: "'n lheap \<Rightarrow> 'n \<Rightarrow> 'n option \<Rightarrow> 'n list option" where
  "list_walk h head pos =
     (case pos of
        None \<Rightarrow> None
      | Some p \<Rightarrow>
          if p = head then Some []
          else Option.bind (list_walk h head (lh_next (h p))) (\<lambda>ps. Some (p # ps)))"

definition list_for_each :: "'n lheap \<Rightarrow> 'n \<Rightarrow> 'n list option" where
  "list_for_each h head = list_walk h head (lh_next (h head))"

partial_function (option) list_walk_prev :: "'n lheap \<Rightarrow> 'n \<Rightarrow> 'n option \<Rightarrow> 'n list option" where
  "list_walk_prev h head pos =
     (case pos of
        None \<Rightarrow> None
      | Some p \<Rightarrow>
          if p = head then Some []
          else Option.bind (list_walk_prev h head (lh_prev (h p))) (\<lambda>ps. Some (p # ps)))"

definition list_for_each_prev :: "'n lheap \<Rightarrow> 'n \<Rightarrow> 'n list option" where
  "list_for_each_prev h head = list_walk_prev h head (lh_prev (h head))"

declare list_walk.simps [code]
declare list_walk_prev.simps [code]

subsection \<open>The abstraction\<close>

text \<open>A path whose neighbours point at each other.\<close>

fun linked :: "'n lheap \<Rightarrow> 'n list \<Rightarrow> bool" where
  "linked h (a # b # xs) \<longleftrightarrow>
     lh_next (h a) = Some b \<and> lh_prev (h b) = Some a \<and> linked h (b # xs)"
| "linked h _ \<longleftrightarrow> True"

definition dlist :: "'n lheap \<Rightarrow> 'n \<Rightarrow> 'n list \<Rightarrow> bool" where
  "dlist h head xs \<longleftrightarrow> distinct (head # xs) \<and> linked h (head # xs @ [head])"

lemma linked_append:
  "linked h (as @ x # bs) \<longleftrightarrow> linked h (as @ [x]) \<and> linked h (x # bs)"
proof (induction as)
  case Nil
  show ?case by simp
next
  case (Cons a as)
  then show ?case by (cases as) auto
qed

text \<open>Only the forward pointers of all but the last node and the backward pointers of all but
  the first one matter, so an update elsewhere leaves a path linked.\<close>

lemma linked_cong:
  assumes "\<And>n. n \<in> set (butlast xs) \<Longrightarrow> lh_next (h' n) = lh_next (h n)"
    and "\<And>n. n \<in> set (tl xs) \<Longrightarrow> lh_prev (h' n) = lh_prev (h n)"
  shows "linked h' xs \<longleftrightarrow> linked h xs"
  using assms
proof (induction h xs rule: linked.induct)
  case (1 h a b xs)
  then show ?case by (auto simp: ball_Un)
qed auto

lemma linked_frame:
  assumes "\<And>n. n \<in> set xs \<Longrightarrow> h' n = h n"
  shows "linked h' xs \<longleftrightarrow> linked h xs"
  by (intro linked_cong) (metis assms in_set_butlastD, metis assms list.sel(2) list.set_sel(2))

lemma dlist_frame:
  assumes "dlist h head xs" and "\<And>n. n \<in> insert head (set xs) \<Longrightarrow> h' n = h n"
  shows "dlist h' head xs"
  using assms linked_frame [of "head # xs @ [head]" h' h] unfolding dlist_def by simp

lemma dlist_distinct: "dlist h head xs \<Longrightarrow> distinct xs \<and> head \<notin> set xs"
  by (simp add: dlist_def)

lemma dlist_first: "dlist h head xs \<Longrightarrow> lh_next (h head) = Some (hd (xs @ [head]))"
  by (cases xs) (auto simp: dlist_def)

lemma dlist_last: "dlist h head xs \<Longrightarrow> lh_prev (h head) = Some (last (head # xs))"
  using linked_append [of h "butlast (head # xs)" "last (head # xs)" "[head]"]
  by (simp add: dlist_def cons_snoc [of head xs "[head]"] del: butlast.simps last.simps)

lemma list_empty_dlist [simp]: "dlist h head xs \<Longrightarrow> list_empty head h \<longleftrightarrow> xs = []"
  by (cases xs) (auto simp: list_empty_def dlist_first dlist_def)

lemma init_list_head_dlist: "dlist (init_list_head p h) p []"
  by (simp add: dlist_def init_list_head_def)

lemma init_list_head_frame: "n \<noteq> p \<Longrightarrow> init_list_head p h n = h n"
  by (simp add: init_list_head_def)

subsection \<open>Insertion\<close>

lemma list_add_dlist:
  assumes "dlist h head xs" and new: "new \<notin> insert head (set xs)"
  shows "\<exists>h'. list_add new head h = Some h' \<and> dlist h' head (new # xs)"
proof (cases xs)
  case Nil
  then show ?thesis using assms by (auto simp: dlist_def list_add_def ll_add_def)
next
  case (Cons y ys)
  let ?h' = "ll_add new head y h"
  have d: "distinct (head # new # y # ys)" and l: "linked h (y # ys @ [head])"
    using assms Cons by (auto simp: dlist_def)
  have "linked ?h' (y # ys @ [head]) \<longleftrightarrow> linked h (y # ys @ [head])"
    using d by (intro linked_cong) (auto simp: ll_add_def butlast_append)
  then have "linked ?h' (head # (new # y # ys) @ [head])"
    using d l by (auto simp: ll_add_def)
  with Cons d dlist_first [OF assms(1)] show ?thesis
    by (auto simp: dlist_def list_add_def)
qed

lemma list_add_tail_dlist:
  assumes "dlist h head xs" and new: "new \<notin> insert head (set xs)"
  shows "\<exists>h'. list_add_tail new head h = Some h' \<and> dlist h' head (xs @ [new])"
proof -
  define ps p where "ps = butlast (head # xs)" and "p = last (head # xs)"
  have hx: "head # xs = ps @ [p]" by (simp add: ps_def p_def)
  have eq: "head # xs @ zs = ps @ p # zs" for zs
    unfolding ps_def p_def by (rule cons_snoc)
  let ?h' = "ll_add new p head h"
  have "set (head # xs) = set (ps @ [p])" using hx by simp
  then have np: "new \<noteq> p" and nps: "new \<notin> set ps" using new by auto
  have "distinct (ps @ [p])" using assms(1) hx by (metis dlist_def)
  then have pps: "p \<notin> set ps" by simp
  have "tl (ps @ [p]) = xs" using hx by (metis list.sel(3))
  then have htl: "head \<notin> set (tl (ps @ [p]))" "new \<notin> set (tl (ps @ [p]))"
    using assms by (auto simp: dlist_def)
  have "linked h (ps @ [p])"
    using assms(1) eq [of "[head]"] by (metis dlist_def linked_append)
  moreover have "linked ?h' (ps @ [p]) \<longleftrightarrow> linked h (ps @ [p])"
    using np nps pps htl by (intro linked_cong) (auto simp: ll_add_def butlast_append)
  moreover have "linked ?h' (p # [new, head])"
    using np new by (auto simp: ll_add_def)
  ultimately have "linked ?h' (head # (xs @ [new]) @ [head])"
    unfolding append.assoc eq using linked_append [of ?h' ps p "[new, head]"] by simp
  moreover have "distinct (head # xs @ [new])" using assms by (auto simp: dlist_def)
  ultimately show ?thesis
    using dlist_last [OF assms(1)] by (simp add: dlist_def list_add_tail_def p_def)
qed

text \<open>An insertion writes the new node, the head and one neighbour that is on the list.\<close>

lemma ll_add_frame: "n \<notin> {new, p, q} \<Longrightarrow> ll_add new p q h n = h n"
  by (simp add: ll_add_def)

lemma list_add_frame:
  assumes "dlist h head xs" and "list_add new head h = Some h'"
    and "n \<notin> insert new (insert head (set xs))"
  shows "h' n = h n"
proof -
  have "hd (xs @ [head]) \<in> insert head (set xs)" by (cases xs) auto
  then show ?thesis
    using assms dlist_first [OF assms(1)] by (auto simp: list_add_def intro!: ll_add_frame)
qed

lemma list_add_tail_frame:
  assumes "dlist h head xs" and "list_add_tail new head h = Some h'"
    and "n \<notin> insert new (insert head (set xs))"
  shows "h' n = h n"
proof -
  have "last (head # xs) \<in> insert head (set xs)" using last_in_set by force
  then show ?thesis
    using assms dlist_last [OF assms(1)]
    by (auto simp: list_add_tail_def intro!: ll_add_frame)
qed

subsection \<open>Removal\<close>

lemma linked_unlink:
  assumes "linked h (ps @ p # x # q # qs)"
    and "p \<notin> set ps" and "q \<notin> set (tl (ps @ [p]))"
    and "p \<notin> set (butlast (q # qs))" and "q \<notin> set qs"
  shows "linked (set_next p (Some q) (set_prev q (Some p) h)) (ps @ p # q # qs)"
proof -
  let ?h' = "set_next p (Some q) (set_prev q (Some p) h)"
  have l: "linked h (ps @ [p])" "linked h (q # qs)"
    using assms(1) linked_append [of h ps p "x # q # qs"] by auto
  have "linked ?h' (ps @ [p]) \<longleftrightarrow> linked h (ps @ [p])"
    using assms(2,3) by (intro linked_cong) auto
  moreover have "linked ?h' (q # qs) \<longleftrightarrow> linked h (q # qs)"
    using assms(4,5) by (intro linked_cong) auto
  ultimately show ?thesis
    using l linked_append [of ?h' ps p "q # qs"] by auto
qed

text \<open>What the two pointers of a listed node are.\<close>

lemma dlist_neighbours:
  assumes "dlist h head (as @ x # bs)"
  shows "lh_prev (h x) = Some (last (head # as)) \<and> lh_next (h x) = Some (hd (bs @ [head]))"
proof -
  define ps p where "ps = butlast (head # as)" and "p = last (head # as)"
  have eq: "head # as @ zs = ps @ p # zs" for zs
    unfolding ps_def p_def by (rule cons_snoc)
  have "linked h (ps @ p # x # bs @ [head])"
    using assms by (simp add: dlist_def eq)
  then have "linked h (p # x # bs @ [head])" using linked_append [of h ps p "x # bs @ [head]"] by blast
  then show ?thesis unfolding p_def by (cases bs) (auto simp del: last.simps)
qed

lemma ll_del_dlist:
  assumes "dlist h head (as @ x # bs)"
  shows "\<exists>h'. ll_del (lh_prev (h x)) (lh_next (h x)) h = Some h' \<and> dlist h' head (as @ bs)
    \<and> (\<forall>n. n \<notin> insert head (set (as @ bs)) \<longrightarrow> h' n = h n)"
proof -
  define ps p q qs where d: "ps = butlast (head # as)" "p = last (head # as)"
    "q = hd (bs @ [head])" "qs = tl (bs @ [head])"
  have ha: "head # as @ zs = ps @ p # zs" for zs unfolding d by (rule cons_snoc)
  have bh: "bs @ [head] = q # qs" by (simp add: d)
  let ?h' = "set_next p (Some q) (set_prev q (Some p) h)"
  have dist: "distinct (head # as @ x # bs)" using assms by (simp add: dlist_def)
  have ptl: "tl (ps @ [p]) = as" using ha [of "[]"] by (metis append_Nil2 list.sel(3))
  have bb: "butlast (q # qs) = bs" using bh by (metis butlast_snoc)
  have "distinct (ps @ p # x # bs)" using dist unfolding ha .
  then have 1: "p \<notin> set ps" and 3: "p \<notin> set bs" by auto
  have 2: "q \<notin> set as" using dist by (cases bs) (auto simp: d)
  have 4: "q \<notin> set qs" using dist by (cases bs) (auto simp: d)
  have "linked h (ps @ p # x # q # qs)"
    using assms by (simp add: dlist_def ha bh)
  then have "linked ?h' (ps @ p # q # qs)"
    using 1 2 3 4 ptl bb by (intro linked_unlink) auto
  then have "linked ?h' (head # (as @ bs) @ [head])" by (simp add: ha bh)
  moreover have "distinct (head # as @ bs)" using dist by auto
  ultimately have "dlist ?h' head (as @ bs)" unfolding dlist_def by simp
  moreover have "p \<in> insert head (set as)" by (simp add: d)
  moreover have "q \<in> insert head (set bs)" by (cases bs) (auto simp: d)
  ultimately show ?thesis
    using dlist_neighbours [OF assms] by (auto simp: ll_del_def d)
qed

lemma list_del_dlist:
  assumes "dlist h head xs" and "x \<in> set xs"
  shows "\<exists>h'. list_del x h = Some h' \<and> dlist h' head (remove1 x xs)
    \<and> lh_next (h' x) = None \<and> lh_prev (h' x) = None
    \<and> (\<forall>n. n \<notin> insert head (set xs) \<longrightarrow> h' n = h n)"
proof -
  obtain as bs where xs: "xs = as @ x # bs" "x \<notin> set as"
    using split_list_first [OF assms(2)] by auto
  obtain h1 where h1: "ll_del (lh_prev (h x)) (lh_next (h x)) h = Some h1"
    "dlist h1 head (as @ bs)" "\<forall>n. n \<notin> insert head (set (as @ bs)) \<longrightarrow> h1 n = h n"
    using ll_del_dlist assms(1) xs by metis
  let ?h' = "set_prev x None (set_next x None h1)"
  have "x \<notin> insert head (set (as @ bs))" using assms(1) xs by (auto simp: dlist_def)
  then have "dlist ?h' head (as @ bs)" using h1(2) by (elim dlist_frame) auto
  then show ?thesis
    using h1 xs by (auto simp: list_del_def remove1_mid)
qed

text \<open>Deleting a node whose links were never set, or were already deleted, faults.\<close>

lemma list_del_unlinked: "lh_next (h x) = None \<or> lh_prev (h x) = None \<Longrightarrow> list_del x h = None"
  by (auto simp: list_del_def ll_del_def split: option.splits)

subsection \<open>Moving and splicing\<close>

lemma dlist_other:
  assumes "dlist h k ys" and "\<forall>n. n \<notin> A \<longrightarrow> h' n = h n" and "insert k (set ys) \<inter> A = {}"
  shows "dlist h' k ys"
  using assms by (intro dlist_frame [OF assms(1)]) auto

lemma list_move_same:
  assumes "dlist h head xs" and "x \<in> set xs"
  shows "\<exists>h'. list_move x head h = Some h' \<and> dlist h' head (x # remove1 x xs)
    \<and> (\<forall>n. n \<notin> insert head (set xs) \<longrightarrow> h' n = h n)"
proof -
  obtain as bs where xs: "xs = as @ x # bs" "x \<notin> set as"
    using split_list_first [OF assms(2)] by auto
  obtain h1 where h1: "ll_del (lh_prev (h x)) (lh_next (h x)) h = Some h1" "dlist h1 head (as @ bs)"
    "\<forall>n. n \<notin> insert head (set (as @ bs)) \<longrightarrow> h1 n = h n"
    using ll_del_dlist assms(1) xs by metis
  have "x \<notin> insert head (set (as @ bs))" using assms(1) xs by (auto simp: dlist_def)
  then obtain h' where h': "list_add x head h1 = Some h'" "dlist h' head (x # as @ bs)"
    using list_add_dlist [OF h1(2)] by auto
  have "\<forall>n. n \<notin> insert head (set xs) \<longrightarrow> h' n = h n"
    using list_add_frame [OF h1(2) h'(1)] h1(3) xs(1) by simp
  with h' h1(1) xs show ?thesis by (auto simp: list_move_def remove1_mid)
qed

lemma list_move_other:
  assumes "dlist h hd1 xs" and "x \<in> set xs" and "dlist h k ys"
    and disj: "insert hd1 (set xs) \<inter> insert k (set ys) = {}"
  shows "\<exists>h'. list_move x k h = Some h' \<and> dlist h' hd1 (remove1 x xs) \<and> dlist h' k (x # ys)
    \<and> (\<forall>n. n \<notin> insert hd1 (insert k (set xs \<union> set ys)) \<longrightarrow> h' n = h n)"
proof -
  obtain as bs where xs: "xs = as @ x # bs" "x \<notin> set as"
    using split_list_first [OF assms(2)] by auto
  obtain h1 where h1: "ll_del (lh_prev (h x)) (lh_next (h x)) h = Some h1" "dlist h1 hd1 (as @ bs)"
    "\<forall>n. n \<notin> insert hd1 (set (as @ bs)) \<longrightarrow> h1 n = h n"
    using ll_del_dlist assms(1) xs by metis
  have d2: "dlist h1 k ys" using dlist_other [OF assms(3) h1(3)] disj xs by auto
  have "x \<notin> insert k (set ys)" using disj assms(2) by auto
  then obtain h' where h': "list_add x k h1 = Some h'" "dlist h' k (x # ys)"
    using list_add_dlist [OF d2] by auto
  have "x \<notin> insert hd1 (set (as @ bs))" using assms(1) xs by (auto simp: dlist_def)
  then have "insert hd1 (set (as @ bs)) \<inter> insert x (insert k (set ys)) = {}"
    using disj xs by auto
  then have "dlist h' hd1 (as @ bs)"
    using list_add_frame [OF d2 h'(1)] by (intro dlist_other [OF h1(2)]) blast+
  moreover have "\<forall>n. n \<notin> insert hd1 (insert k (set xs \<union> set ys)) \<longrightarrow> h' n = h n"
    using list_add_frame [OF d2 h'(1)] h1(3) xs(1) by simp
  ultimately show ?thesis using h' h1(1) xs by (auto simp: list_move_def remove1_mid)
qed

lemma list_splice_dlist:
  assumes "dlist h lst xs" and "dlist h head ys"
    and disj: "insert lst (set xs) \<inter> insert head (set ys) = {}"
  shows "\<exists>h'. list_splice lst head h = Some h' \<and> dlist h' head (xs @ ys)
    \<and> (\<forall>n. n \<notin> insert head (set xs \<union> set ys) \<longrightarrow> h' n = h n)"
proof (cases xs)
  case Nil
  then show ?thesis using assms by (auto simp: list_splice_def)
next
  case (Cons x xs')
  define ps l a as where d: "ps = butlast (x # xs')" "l = last (x # xs')"
    "a = hd (ys @ [head])" "as = tl (ys @ [head])"
  have ex: "x # xs' @ zs = ps @ l # zs" for zs unfolding d by (rule cons_snoc)
  have ya: "ys @ [head] = a # as" by (simp add: d)
  let ?h' = "set_prev a (Some l) (set_next l (Some a) (set_next head (Some x) (set_prev x (Some head) h)))"
  have le: "list_empty lst h = False" "lh_next (h lst) = Some x" "lh_prev (h lst) = Some l"
    using assms(1) Cons dlist_first [OF assms(1)] dlist_last [OF assms(1)] by (auto simp: d)
  have "lh_next (h head) = Some a" using dlist_first [OF assms(2)] by (simp add: d)
  then have run: "list_splice lst head h = Some ?h'"
    using le by (simp add: list_splice_def ll_splice_def)
  have dist: "distinct (x # xs')" "distinct (head # ys)" using assms(1,2) Cons by (auto simp: dlist_def)
  have set_x: "set (ps @ [l]) = set xs" using ex [of "[]"] Cons by (metis append_Nil2)
  have l_in: "l \<in> set xs" and ps_in: "set ps \<subseteq> set xs" using set_x by auto
  have "distinct (ps @ [l])" using dist(1) ex [of "[]"] by (metis append_Nil2)
  then have l_ps: "l \<notin> set ps" by simp
  have a_in: "a \<in> insert head (set ys)" by (cases ys) (auto simp: d)
  have as_in: "set (butlast (a # as)) = set ys" using ya by (metis butlast_snoc)
  have a_as: "a \<notin> set as" using dist(2) by (cases ys) (auto simp: d)
  have "linked h (x # xs' @ [lst])" using assms(1) Cons by (simp add: dlist_def)
  then have "linked h (ps @ l # [lst])" unfolding ex .
  then have "linked h (ps @ [l])" using linked_append [of h ps l "[lst]"] by blast
  moreover have "linked ?h' (ps @ [l]) \<longleftrightarrow> linked h (ps @ [l])"
  proof (rule linked_cong)
    fix n assume "n \<in> set (butlast (ps @ [l]))"
    then show "lh_next (?h' n) = lh_next (h n)" using l_ps ps_in disj by auto
  next
    fix n assume "n \<in> set (tl (ps @ [l]))"
    moreover have "tl (ps @ [l]) = xs'" using ex [of "[]"] by (metis append_Nil2 list.sel(3))
    ultimately show "lh_prev (?h' n) = lh_prev (h n)"
      using dist(1) a_in disj Cons by auto
  qed
  moreover have "linked h (a # as)"
    using assms(2) ya by (cases as) (auto simp: dlist_def)
  moreover have "linked ?h' (a # as) \<longleftrightarrow> linked h (a # as)"
  proof (rule linked_cong)
    fix n assume "n \<in> set (butlast (a # as))"
    then have "n \<in> set ys" using as_in by simp
    then show "lh_next (?h' n) = lh_next (h n)" using l_in dist(2) disj by auto
  next
    fix n assume "n \<in> set (tl (a # as))"
    then have n: "n \<in> set as" by simp
    then have "n \<in> insert head (set ys)" by (cases ys) (auto simp: d)
    then show "lh_prev (?h' n) = lh_prev (h n)" using n a_as disj Cons by auto
  qed
  moreover have "head \<noteq> l" "l \<noteq> a" using l_in a_in disj by auto
  ultimately have "linked ?h' (x # xs' @ a # as)"
    using linked_append [of ?h' ps l "a # as"] by (simp add: ex)
  moreover have "lh_next (?h' head) = Some x" "lh_prev (?h' x) = Some head"
    using l_in a_in disj Cons by auto
  ultimately have "linked ?h' (head # (xs @ ys) @ [head])" by (simp add: Cons ya)
  moreover have "distinct (head # xs @ ys)" using dist disj Cons by auto
  moreover have "\<forall>n. n \<notin> insert head (set xs \<union> set ys) \<longrightarrow> ?h' n = h n"
    using l_in a_in Cons by auto
  ultimately show ?thesis using run by (auto simp: dlist_def)
qed

text \<open>After the reinitialising splice the source list is empty.\<close>

lemma list_splice_init_dlist:
  assumes "dlist h lst xs" and "dlist h head ys"
    and disj: "insert lst (set xs) \<inter> insert head (set ys) = {}"
  shows "\<exists>h'. list_splice_init lst head h = Some h' \<and> dlist h' head (xs @ ys) \<and> dlist h' lst []"
proof (cases "xs = []")
  case True
  then show ?thesis using assms by (auto simp: list_splice_init_def)
next
  case False
  obtain h1 where h1: "list_splice lst head h = Some h1" "dlist h1 head (xs @ ys)"
    using list_splice_dlist [OF assms] by auto
  have "lst \<notin> insert head (set (xs @ ys))" using assms(1) disj by (auto simp: dlist_def)
  then have "dlist (init_list_head lst h1) head (xs @ ys)"
    by (intro dlist_other [OF h1(2), of "{lst}"]) (auto simp: init_list_head_frame)
  then show ?thesis
    using h1 False assms(1) init_list_head_dlist [of lst h1]
    by (auto simp: list_splice_init_def list_splice_def)
qed

subsection \<open>Iteration\<close>

lemma list_walk_linked:
  assumes "linked h (x # ys @ [head])" and "head \<notin> set ys"
  shows "list_walk h head (lh_next (h x)) = Some ys"
  using assms
proof (induction ys arbitrary: x)
  case Nil
  then show ?case by (simp add: list_walk.simps)
next
  case (Cons y ys)
  then show ?case by (auto simp: list_walk.simps [of h head "Some y"])
qed

lemma list_for_each_dlist: "dlist h head xs \<Longrightarrow> list_for_each h head = Some xs"
  by (simp add: list_for_each_def dlist_def list_walk_linked)

lemma list_walk_prev_linked:
  assumes "linked h (head # ys @ [x])" and "head \<notin> set ys"
  shows "list_walk_prev h head (lh_prev (h x)) = Some (rev ys)"
  using assms
proof (induction ys arbitrary: x rule: rev_induct)
  case Nil
  then show ?case by (simp add: list_walk_prev.simps)
next
  case (snoc y ys)
  have "linked h (head # ys @ [y])" "lh_prev (h x) = Some y"
    using snoc.prems(1) linked_append [of h "head # ys" y "[x]"] by auto
  then show ?case
    using snoc by (auto simp: list_walk_prev.simps [of h head "Some y"])
qed

lemma list_for_each_prev_dlist: "dlist h head xs \<Longrightarrow> list_for_each_prev h head = Some (rev xs)"
  by (simp add: list_for_each_prev_def dlist_def list_walk_prev_linked)

subsection \<open>Other lists are left alone\<close>

lemma list_add_other:
  assumes "dlist h l xs" and "list_add n l h = Some h'" and "dlist h k ys"
    and "insert k (set ys) \<inter> insert n (insert l (set xs)) = {}"
  shows "dlist h' k ys"
proof (rule dlist_other [OF assms(3) _ assms(4)])
  show "\<forall>m. m \<notin> insert n (insert l (set xs)) \<longrightarrow> h' m = h m"
    using list_add_frame [OF assms(1,2)] by blast
qed

lemma list_add_tail_other:
  assumes "dlist h l xs" and "list_add_tail n l h = Some h'" and "dlist h k ys"
    and "insert k (set ys) \<inter> insert n (insert l (set xs)) = {}"
  shows "dlist h' k ys"
proof (rule dlist_other [OF assms(3) _ assms(4)])
  show "\<forall>m. m \<notin> insert n (insert l (set xs)) \<longrightarrow> h' m = h m"
    using list_add_tail_frame [OF assms(1,2)] by blast
qed

lemma list_del_other:
  assumes "dlist h l xs" and "n \<in> set xs" and "list_del n h = Some h'" and "dlist h k ys"
    and "insert k (set ys) \<inter> insert l (set xs) = {}"
  shows "dlist h' k ys"
proof (rule dlist_other [OF assms(4) _ assms(5)])
  show "\<forall>m. m \<notin> insert l (set xs) \<longrightarrow> h' m = h m"
    using list_del_dlist [OF assms(1,2)] assms(3) by simp
qed

subsection \<open>The contract of the lists\<close>

text \<open>
  What the users of the lists rely on: a relation between a heap, a head and a list, the four
  operations they call, and for each of them its effect on its own list and that it leaves any
  other list alone. The client lemmas below are proved from the contract only.
\<close>

locale linked_list =
  fixes isl :: "'h \<Rightarrow> 'n \<Rightarrow> 'n list \<Rightarrow> bool"
    and push :: "'n \<Rightarrow> 'n \<Rightarrow> 'h \<Rightarrow> 'h option"
    and snoc :: "'n \<Rightarrow> 'n \<Rightarrow> 'h \<Rightarrow> 'h option"
    and del :: "'n \<Rightarrow> 'h \<Rightarrow> 'h option"
    and walk :: "'h \<Rightarrow> 'n \<Rightarrow> 'n list option"
  assumes isl_distinct: "isl h l xs \<Longrightarrow> distinct (l # xs)"
    and push_ok: "isl h l xs \<Longrightarrow> n \<notin> insert l (set xs) \<Longrightarrow>
      \<exists>h'. push n l h = Some h' \<and> isl h' l (n # xs)"
    and push_other: "isl h l xs \<Longrightarrow> push n l h = Some h' \<Longrightarrow> isl h k ys \<Longrightarrow>
      insert k (set ys) \<inter> insert n (insert l (set xs)) = {} \<Longrightarrow> isl h' k ys"
    and snoc_ok: "isl h l xs \<Longrightarrow> n \<notin> insert l (set xs) \<Longrightarrow>
      \<exists>h'. snoc n l h = Some h' \<and> isl h' l (xs @ [n])"
    and snoc_other: "isl h l xs \<Longrightarrow> snoc n l h = Some h' \<Longrightarrow> isl h k ys \<Longrightarrow>
      insert k (set ys) \<inter> insert n (insert l (set xs)) = {} \<Longrightarrow> isl h' k ys"
    and del_ok: "isl h l xs \<Longrightarrow> n \<in> set xs \<Longrightarrow>
      \<exists>h'. del n h = Some h' \<and> isl h' l (remove1 n xs)"
    and del_other: "isl h l xs \<Longrightarrow> n \<in> set xs \<Longrightarrow> del n h = Some h' \<Longrightarrow> isl h k ys \<Longrightarrow>
      insert k (set ys) \<inter> insert l (set xs) = {} \<Longrightarrow> isl h' k ys"
    and walk_ok: "isl h l xs \<Longrightarrow> walk h l = Some xs"
begin

lemma isl_unique: "isl h l xs \<Longrightarrow> isl h l ys \<Longrightarrow> xs = ys"
  using walk_ok [of h l xs] walk_ok [of h l ys] by simp

lemma snoc_many:
  "isl h l xs \<Longrightarrow> distinct ys \<Longrightarrow> set ys \<inter> insert l (set xs) = {} \<Longrightarrow>
    \<exists>h'. foldM (\<lambda>n. snoc n l) ys h = Some h' \<and> isl h' l (xs @ ys)"
proof (induction ys arbitrary: h xs)
  case Nil
  then show ?case by simp
next
  case (Cons y ys)
  then obtain h1 where h1: "snoc y l h = Some h1" "isl h1 l (xs @ [y])"
    using snoc_ok [of h l xs y] by auto
  have "set ys \<inter> insert l (set (xs @ [y])) = {}" using Cons.prems by auto
  with Cons.IH [OF h1(2)] Cons.prems(2) h1(1) show ?case by auto
qed

lemma push_then_del:
  assumes "isl h l xs" and "n \<notin> insert l (set xs)"
  shows "\<exists>h1 h2. push n l h = Some h1 \<and> del n h1 = Some h2 \<and> isl h2 l xs"
proof -
  obtain h1 where h1: "push n l h = Some h1" "isl h1 l (n # xs)"
    using push_ok [OF assms] by auto
  with del_ok [OF h1(2), of n] show ?thesis by auto
qed

lemma snoc_then_del:
  assumes "isl h l xs" and "n \<notin> insert l (set xs)"
  shows "\<exists>h1 h2. snoc n l h = Some h1 \<and> del n h1 = Some h2 \<and> isl h2 l xs"
proof -
  obtain h1 where h1: "snoc n l h = Some h1" "isl h1 l (xs @ [n])"
    using snoc_ok [OF assms] by auto
  have "remove1 n (xs @ [n]) = xs" using assms(2) by (simp add: remove1_append)
  with h1 del_ok [OF h1(2), of n] show ?thesis by auto
qed

end

lemma list_del_remove1:
  "dlist h l xs \<Longrightarrow> n \<in> set xs \<Longrightarrow> \<exists>h'. list_del n h = Some h' \<and> dlist h' l (remove1 n xs)"
  using list_del_dlist [of h l xs n] by auto

interpretation ll: linked_list dlist list_add list_add_tail list_del list_for_each
  by (unfold_locales; (rule list_add_dlist list_add_tail_dlist list_del_remove1
        list_for_each_dlist list_add_other list_add_tail_other list_del_other
      | simp add: dlist_def); assumption)

end
