(* ===== verification/Queue.thy ===== *)
theory Queue
  imports List_Head
begin

text \<open>
  include/queue.h: the queue made of a list head, and the blocking queue that pairs it with a
  length under a mutex. A call of the blocking queue runs with the mutex held from its first
  statement to its last; where the code waits on the condition variable the model returns
  Blocked with the queue unchanged, which is the state the waiter releases the mutex in.
  The locale fifo_queue is the contract of a queue; it is interpreted on both.
\<close>

subsection \<open>The plain queue\<close>

definition enque :: "'n \<Rightarrow> 'n \<Rightarrow> 'n lheap \<Rightarrow> 'n lheap option" where
  "enque head p h = list_add_tail p head h"

definition deque :: "'n \<Rightarrow> 'n lheap \<Rightarrow> ('n option \<times> 'n lheap) option" where
  "deque head h =
     (if list_empty head h then Some (None, h)
      else do { p \<leftarrow> lh_next (h head);
                h' \<leftarrow> list_del p h;
                Some (Some p, h') })"

definition queue_get_front :: "'n \<Rightarrow> 'n lheap \<Rightarrow> 'n option" where
  "queue_get_front head h = (if list_empty head h then None else lh_next (h head))"

subsection \<open>The blocking queue\<close>

record 'n blocking_queue =
  bq_heap :: "'n lheap"
  bq_len :: int

datatype 'a blocking = Blocked | Done 'a

definition blocking_queue_init :: "'n \<Rightarrow> 'n lheap \<Rightarrow> 'n blocking_queue" where
  "blocking_queue_init head h = \<lparr>bq_heap = init_list_head head h, bq_len = 0\<rparr>"

definition blocking_enque :: "'n \<Rightarrow> 'n \<Rightarrow> 'n blocking_queue \<Rightarrow> 'n blocking_queue option" where
  "blocking_enque head p q =
     do { h \<leftarrow> enque head p (bq_heap q);
          Some (q\<lparr>bq_heap := h, bq_len := bq_len q + 1\<rparr>) }"

definition blocking_deque_min ::
    "'n \<Rightarrow> int \<Rightarrow> 'n blocking_queue \<Rightarrow> ('n option \<times> 'n blocking_queue) blocking option" where
  "blocking_deque_min head mn q =
     (if \<not> bq_len q > mn then Some Blocked
      else do { (p, h) \<leftarrow> deque head (bq_heap q);
                Some (Done (p, q\<lparr>bq_heap := h, bq_len := bq_len q - 1\<rparr>)) })"

definition blocking_deque ::
    "'n \<Rightarrow> 'n blocking_queue \<Rightarrow> ('n option \<times> 'n blocking_queue) blocking option" where
  "blocking_deque head q = blocking_deque_min head 0 q"

definition blocking_get_front :: "'n \<Rightarrow> 'n blocking_queue \<Rightarrow> 'n blocking" where
  "blocking_get_front head q =
     (case queue_get_front head (bq_heap q) of None \<Rightarrow> Blocked | Some p \<Rightarrow> Done p)"

definition bq_rep :: "'n \<Rightarrow> 'n blocking_queue \<Rightarrow> 'n list \<Rightarrow> bool" where
  "bq_rep head q xs \<longleftrightarrow> dlist (bq_heap q) head xs \<and> bq_len q = int (length xs)"

subsection \<open>The contract of a queue\<close>

text \<open>Taking out n items in a row.\<close>

fun drain :: "('q \<Rightarrow> ('n \<times> 'q) option) \<Rightarrow> nat \<Rightarrow> 'q \<Rightarrow> ('n list \<times> 'q) option" where
  "drain f 0 q = Some ([], q)"
| "drain f (Suc n) q =
     (case f q of None \<Rightarrow> None
      | Some (x, q1) \<Rightarrow>
          (case drain f n q1 of None \<Rightarrow> None | Some (xs, q2) \<Rightarrow> Some (x # xs, q2)))"

locale fifo_queue =
  fixes rep :: "'q \<Rightarrow> 'n list \<Rightarrow> bool"
    and fresh :: "'n \<Rightarrow> 'n list \<Rightarrow> bool"
    and enq :: "'n \<Rightarrow> 'q \<Rightarrow> 'q option"
    and deq :: "'q \<Rightarrow> ('n \<times> 'q) option"
  assumes enq_ok: "rep q xs \<Longrightarrow> fresh x xs \<Longrightarrow> \<exists>q'. enq x q = Some q' \<and> rep q' (xs @ [x])"
    and deq_ok: "rep q (x # xs) \<Longrightarrow> \<exists>q'. deq q = Some (x, q') \<and> rep q' xs"
    and fresh_snoc: "fresh y (xs @ [x]) \<longleftrightarrow> fresh y xs \<and> y \<noteq> x"
begin

lemma enq_all:
  "rep q xs \<Longrightarrow> distinct ys \<Longrightarrow> (\<forall>y \<in> set ys. fresh y xs) \<Longrightarrow>
    \<exists>q'. foldM enq ys q = Some q' \<and> rep q' (xs @ ys)"
proof (induction ys arbitrary: q xs)
  case Nil
  then show ?case by simp
next
  case (Cons y ys)
  have "fresh y xs" using Cons.prems(3) by simp
  then obtain q1 where q1: "enq y q = Some q1" "rep q1 (xs @ [y])"
    using enq_ok [OF Cons.prems(1)] by blast
  have "\<forall>z \<in> set ys. fresh z (xs @ [y])" using Cons.prems fresh_snoc by auto
  with Cons.IH [OF q1(2)] Cons.prems(2) q1(1) show ?case by auto
qed

text \<open>First in, first out: what is put in behind xs comes out after exactly xs.\<close>

lemma deq_all:
  "rep q (xs @ ys) \<Longrightarrow> \<exists>q'. drain deq (length xs) q = Some (xs, q') \<and> rep q' ys"
proof (induction xs arbitrary: q)
  case Nil
  then show ?case by simp
next
  case (Cons x xs)
  from Cons.prems obtain q1 where q1: "deq q = Some (x, q1)" "rep q1 (xs @ ys)"
    using deq_ok [of q x "xs @ ys"] by auto
  from Cons.IH [OF q1(2)] q1(1) show ?case by auto
qed

lemma enq_then_deq:
  assumes "rep q xs" and "fresh y xs"
  shows "\<exists>q1 z q2. enq y q = Some q1 \<and> deq q1 = Some (z, q2) \<and> z = hd (xs @ [y])
    \<and> rep q2 (tl (xs @ [y]))"
proof -
  obtain q1 where q1: "enq y q = Some q1" "rep q1 (xs @ [y])" using enq_ok [OF assms] by auto
  obtain x zs where "xs @ [y] = x # zs" by (cases "xs @ [y]") auto
  with q1 deq_ok [of q1 x zs] show ?thesis by auto
qed

end

lemma deque_Cons:
  assumes "dlist h head (x # xs)"
  shows "\<exists>h'. deque head h = Some (Some x, h') \<and> dlist h' head xs"
  using list_del_dlist [OF assms, of x] assms dlist_first [OF assms]
  by (auto simp: deque_def)

lemma deque_Nil: "dlist h head [] \<Longrightarrow> deque head h = Some (None, h)"
  by (simp add: deque_def)

lemma queue_get_front_dlist:
  "dlist h head xs \<Longrightarrow> queue_get_front head h = (case xs of [] \<Rightarrow> None | x # _ \<Rightarrow> Some x)"
  by (auto simp: queue_get_front_def dlist_first split: list.splits)

text \<open>The result of deque on a queue known not to be empty, as a pair.\<close>

definition deque_item :: "'n \<Rightarrow> 'n lheap \<Rightarrow> ('n \<times> 'n lheap) option" where
  "deque_item head h = do { (p, h') \<leftarrow> deque head h; x \<leftarrow> p; Some (x, h') }"

definition blocking_item :: "'n \<Rightarrow> 'n blocking_queue \<Rightarrow> ('n \<times> 'n blocking_queue) option" where
  "blocking_item head q =
     do { r \<leftarrow> blocking_deque head q;
          (case r of Blocked \<Rightarrow> None | Done (p, q') \<Rightarrow> do { x \<leftarrow> p; Some (x, q') }) }"

interpretation hq: fifo_queue "\<lambda>h xs. dlist h head xs" "\<lambda>x xs. x \<notin> insert head (set xs)"
  "enque head" "deque_item head" for head
proof unfold_locales
  fix q :: "'a lheap" and x xs
  show "dlist q head xs \<Longrightarrow> x \<notin> insert head (set xs) \<Longrightarrow>
      \<exists>q'. enque head x q = Some q' \<and> dlist q' head (xs @ [x])"
    unfolding enque_def by (rule list_add_tail_dlist)
  show "dlist q head (x # xs) \<Longrightarrow> \<exists>q'. deque_item head q = Some (x, q') \<and> dlist q' head xs"
    by (drule deque_Cons) (auto simp: deque_item_def)
qed auto

lemma blocking_enque_rep:
  assumes "bq_rep head q xs" and "x \<notin> insert head (set xs)"
  shows "\<exists>q'. blocking_enque head x q = Some q' \<and> bq_rep head q' (xs @ [x])"
  using assms hq.enq_ok [of "bq_heap q" head xs x]
  by (auto simp: bq_rep_def blocking_enque_def)

lemma blocking_deque_min_blocks:
  "bq_rep head q xs \<Longrightarrow> int (length xs) \<le> m \<Longrightarrow> blocking_deque_min head m q = Some Blocked"
  by (simp add: bq_rep_def blocking_deque_min_def)

lemma blocking_deque_min_takes:
  assumes "bq_rep head q (x # xs)" and "m < int (length (x # xs))"
  shows "\<exists>q'. blocking_deque_min head m q = Some (Done (Some x, q')) \<and> bq_rep head q' xs"
proof -
  obtain h' where h': "deque head (bq_heap q) = Some (Some x, h')" "dlist h' head xs"
    using deque_Cons [of "bq_heap q" head x xs] assms(1) by (auto simp: bq_rep_def)
  have "bq_len q > m" using assms by (simp add: bq_rep_def)
  then have "blocking_deque_min head m q
      = Some (Done (Some x, q\<lparr>bq_heap := h', bq_len := bq_len q - 1\<rparr>))"
    using h'(1) by (simp add: blocking_deque_min_def)
  moreover have "bq_rep head (q\<lparr>bq_heap := h', bq_len := bq_len q - 1\<rparr>) xs"
    using assms(1) h'(2) by (simp add: bq_rep_def)
  ultimately show ?thesis by blast
qed

interpretation bq: fifo_queue "bq_rep head" "\<lambda>x xs. x \<notin> insert head (set xs)"
  "blocking_enque head" "blocking_item head" for head
proof unfold_locales
  fix q :: "'a blocking_queue" and x xs
  show "bq_rep head q xs \<Longrightarrow> x \<notin> insert head (set xs) \<Longrightarrow>
      \<exists>q'. blocking_enque head x q = Some q' \<and> bq_rep head q' (xs @ [x])"
    by (rule blocking_enque_rep)
  show "bq_rep head q (x # xs) \<Longrightarrow> \<exists>q'. blocking_item head q = Some (x, q') \<and> bq_rep head q' xs"
    by (drule blocking_deque_min_takes [where m = 0])
      (auto simp: blocking_item_def blocking_deque_def)
qed auto

end
