(* ===== verification/Cfifo.thy ===== *)
theory Cfifo
  imports Prelude
begin

unbundle bit_operations_syntax

text \<open>
  include/cfifo.h: the circular fifo between one writer and one reader, on 32-bit unsigned
  indices that wrap under a mask. The data area is a map from slot numbers to elements; the
  slot that cfifo_get_in and cfifo_get_out point at is the one the indices name. The relation
  cf_rep says which list of elements a fifo holds; a fifo of order k holds fewer than 2 ^ k.
  The locale bounded_fifo is the contract of the two ends.
\<close>

record 'a cfifo =
  cf_in :: "32 word"
  cf_out :: "32 word"
  cf_mask :: "32 word"
  cf_eord :: "32 word"
  cf_data :: "32 word \<Rightarrow> 'a"

definition cfifo_init :: "(32 word \<Rightarrow> 'a) \<Rightarrow> nat \<Rightarrow> 32 word \<Rightarrow> 'a cfifo" where
  "cfifo_init mem size_order e_order =
     \<lparr>cf_in = 0, cf_out = 0, cf_mask = push_bit size_order 1 - 1, cf_eord = e_order, cf_data = mem\<rparr>"

definition cfifo_len :: "'a cfifo \<Rightarrow> int" where
  "cfifo_len c = uint ((cf_in c + (cf_mask c + 1) - cf_out c) AND cf_mask c)"

definition cfifo_full :: "'a cfifo \<Rightarrow> bool" where
  "cfifo_full c \<longleftrightarrow> (cf_in c + 1) AND cf_mask c = cf_out c"

definition cfifo_empty :: "'a cfifo \<Rightarrow> bool" where
  "cfifo_empty c \<longleftrightarrow> cf_out c = cf_in c"

definition cfifo_clear :: "'a cfifo \<Rightarrow> 'a cfifo" where
  "cfifo_clear c = c\<lparr>cf_out := cf_in c\<rparr>"

text \<open>The element at the write position is filled in through the pointer cfifo_get_in returns.\<close>

definition cfifo_get_in :: "'a cfifo \<Rightarrow> 32 word" where
  "cfifo_get_in c = cf_in c"

definition cfifo_store :: "32 word \<Rightarrow> 'a \<Rightarrow> 'a cfifo \<Rightarrow> 'a cfifo" where
  "cfifo_store p x c = c\<lparr>cf_data := (cf_data c)(p := x)\<rparr>"

definition cfifo__in :: "'a cfifo \<Rightarrow> 'a cfifo" where
  "cfifo__in c = c\<lparr>cf_in := (cf_in c + 1) AND cf_mask c\<rparr>"

definition cfifo_in :: "'a cfifo \<Rightarrow> int \<times> 'a cfifo" where
  "cfifo_in c = (0, cfifo__in c)"

definition cfifo_get_out :: "'a cfifo \<Rightarrow> 32 word" where
  "cfifo_get_out c = cf_out c"

definition cfifo_fetch :: "32 word \<Rightarrow> 'a cfifo \<Rightarrow> 'a" where
  "cfifo_fetch p c = cf_data c p"

definition cfifo__out :: "'a cfifo \<Rightarrow> 'a cfifo" where
  "cfifo__out c = c\<lparr>cf_out := (cf_out c + 1) AND cf_mask c\<rparr>"

definition cfifo_out :: "'a cfifo \<Rightarrow> int \<times> 'a cfifo" where
  "cfifo_out c = (if cfifo_empty c then (1, c) else (0, cfifo__out c))"

subsection \<open>The abstraction\<close>

definition slot :: "nat \<Rightarrow> 32 word \<Rightarrow> nat \<Rightarrow> 32 word" where
  "slot k p i = (p + of_nat i) AND mask k"

definition cf_rep :: "nat \<Rightarrow> 'a cfifo \<Rightarrow> 'a list \<Rightarrow> bool" where
  "cf_rep k c xs \<longleftrightarrow>
     k < 32 \<and> cf_mask c = mask k \<and> unat (cf_out c) < 2 ^ k \<and> length xs < 2 ^ k
     \<and> cf_in c = slot k (cf_out c) (length xs)
     \<and> (\<forall>i < length xs. cf_data c (slot k (cf_out c) i) = xs ! i)"

lemma unat_add_and_mask:
  assumes "k < 32"
  shows "unat (v + w AND mask k :: 32 word) = (unat v + unat w) mod 2 ^ k"
proof -
  have "(2::nat) ^ k dvd 2 ^ 32" by (rule le_imp_power_dvd) (use assms in simp)
  then have "(unat v + unat w) mod 2 ^ 32 mod 2 ^ k = (unat v + unat w) mod 2 ^ k"
    by (rule mod_mod_cancel)
  then show ?thesis by (simp add: unat_and_mask unat_word_ariths)
qed

lemma unat_slot:
  assumes "k < 32"
  shows "unat (slot k p i) = (unat p + i) mod 2 ^ k"
proof -
  have "(2::nat) ^ k dvd 2 ^ 32" by (rule le_imp_power_dvd) (use assms in simp)
  then have "i mod 2 ^ 32 mod 2 ^ k = i mod 2 ^ k" by (rule mod_mod_cancel)
  then have "(unat p + i mod 2 ^ 32) mod 2 ^ k = (unat p + i) mod 2 ^ k"
    by (metis mod_add_right_eq)
  then show ?thesis using assms by (simp add: slot_def unat_add_and_mask unat_of_nat)
qed

lemma slot_0: "k < 32 \<Longrightarrow> unat p < 2 ^ k \<Longrightarrow> slot k p 0 = p"
  by (rule unat_eqI) (simp add: unat_slot)

lemma slot_slot: "k < 32 \<Longrightarrow> slot k (slot k p i) j = slot k p (i + j)"
  by (rule unat_eqI) (simp add: unat_slot mod_add_left_eq add.assoc)

lemma slot_inj:
  assumes "k < 32" and "slot k p i = slot k p j" and "i < 2 ^ k" and "j < 2 ^ k"
  shows "i = j"
proof -
  have "(unat p + i) mod 2 ^ k = (unat p + j) mod 2 ^ k"
    using assms(1,2) by (metis unat_slot)
  then have "int ((unat p + i) mod 2 ^ k) = int ((unat p + j) mod 2 ^ k)" by simp
  then have "(int (unat p) + int i) mod 2 ^ k = (int (unat p) + int j) mod 2 ^ k"
    by (simp only: of_nat_mod of_nat_add of_nat_power of_nat_numeral)
  then have d: "(2::int) ^ k dvd int i - int j" by (simp add: mod_eq_dvd_iff)
  have "int i < 2 ^ k" "int j < 2 ^ k"
    using assms(3,4) by (metis of_nat_less_iff of_nat_numeral of_nat_power)+
  then have "\<bar>int i - int j\<bar> < 2 ^ k" by linarith
  with d show ?thesis using dvd_imp_le_int [of "int i - int j" "2 ^ k"] by fastforce
qed

subsection \<open>The operations on the represented list\<close>

lemma cfifo_init_rep: "k < 32 \<Longrightarrow> cf_rep k (cfifo_init mem k e) []"
  by (simp add: cf_rep_def cfifo_init_def slot_def mask_eq_decr_exp push_bit_eq_mult)

lemma cf_step: "k < 32 \<Longrightarrow> (w + 1) AND mask k = slot k w 1"
  by (simp add: slot_def)

lemma cf_next: "k < 32 \<Longrightarrow> slot k p n + 1 AND mask k = slot k p (Suc n)"
  using slot_slot [of k p n 1] by (simp add: slot_def [of k "slot k p n"])

lemma unat_exp_below: "k < 32 \<Longrightarrow> unat (2 ^ k :: 32 word) = 2 ^ k"
proof -
  assume "k < 32"
  then have "(2::nat) ^ k < 2 ^ 32" by (intro power_strict_increasing) auto
  moreover have "unat (of_nat (2 ^ k) :: 32 word) = 2 ^ k mod 2 ^ 32"
    by (subst unat_of_nat) simp
  ultimately show ?thesis by simp
qed

lemma slot_distance:
  assumes "k < 32" and "n < 2 ^ k"
  shows "unat ((slot k p n + (mask k + 1) - p) AND mask k) = n"
proof -
  have eq: "(slot k p n + (mask k + 1) - p) AND mask k = slot k p n + (2 ^ k - p) AND mask k"
    by (simp add: mask_eq_decr_exp algebra_simps)
  have "unat (slot k p n + (2 ^ k - p) AND mask k) = ((unat p + n) mod 2 ^ k + unat (2 ^ k - p)) mod 2 ^ k"
    using assms(1) by (simp add: unat_add_and_mask unat_slot)
  also have "\<dots> = (unat (2 ^ k - p) + unat p + n) mod 2 ^ k"
    by (simp add: mod_add_left_eq mod_add_right_eq ac_simps)
  also have "\<dots> = ((unat (2 ^ k - p) + unat p) mod 2 ^ k + n) mod 2 ^ k"
    by (simp add: mod_add_left_eq)
  also have "(unat (2 ^ k - p) + unat p) mod 2 ^ k = unat (2 ^ k - p + p AND mask k)"
    using assms(1) by (simp only: unat_add_and_mask)
  also have "\<dots> = unat (2 ^ k :: 32 word) mod 2 ^ k" by (simp add: unat_and_mask)
  also have "\<dots> = 0"
    using assms(1) by (simp add: unat_exp_below)
  finally show ?thesis using eq assms(2) by simp
qed

lemma cfifo_len_rep:
  assumes "cf_rep k c xs"
  shows "cfifo_len c = int (length xs)"
  using assms slot_distance [of k "length xs" "cf_out c"]
  by (simp add: cfifo_len_def cf_rep_def uint_nat)

lemma cfifo_empty_rep:
  assumes "cf_rep k c xs"
  shows "cfifo_empty c \<longleftrightarrow> xs = []"
proof -
  have k: "k < 32" "length xs < 2 ^ k" "slot k (cf_out c) 0 = cf_out c"
    using assms slot_0 by (auto simp: cf_rep_def)
  then have "cf_out c = cf_in c \<longleftrightarrow> length xs = 0"
    using assms slot_inj [of k "cf_out c" 0 "length xs"] by (auto simp: cf_rep_def)
  then show ?thesis by (simp add: cfifo_empty_def)
qed

lemma cfifo_full_rep:
  assumes "cf_rep k c xs"
  shows "cfifo_full c \<longleftrightarrow> Suc (length xs) = 2 ^ k"
proof -
  have k: "k < 32" "length xs < 2 ^ k" "unat (cf_out c) < 2 ^ k"
    using assms by (auto simp: cf_rep_def)
  have "cf_in c + 1 AND cf_mask c = slot k (cf_out c) (Suc (length xs))"
    using assms by (simp add: cf_rep_def cf_next)
  moreover have "slot k (cf_out c) (Suc (length xs)) = slot k (cf_out c) 0 \<longleftrightarrow> Suc (length xs) = 2 ^ k"
  proof
    assume eq: "slot k (cf_out c) (Suc (length xs)) = slot k (cf_out c) 0"
    show "Suc (length xs) = 2 ^ k"
    proof (rule ccontr)
      assume "Suc (length xs) \<noteq> 2 ^ k"
      then have "Suc (length xs) < 2 ^ k" using k(2) by linarith
      from slot_inj [OF k(1) eq this] show False by simp
    qed
  next
    assume "Suc (length xs) = 2 ^ k"
    then show "slot k (cf_out c) (Suc (length xs)) = slot k (cf_out c) 0"
      using k by (intro unat_eqI) (simp add: unat_slot)
  qed
  ultimately show ?thesis using slot_0 [OF k(1,3)] by (simp add: cfifo_full_def)
qed

lemma cfifo_clear_rep: "cf_rep k c xs \<Longrightarrow> cf_rep k (cfifo_clear c) []"
  using slot_0 [of k "cf_in c"] unat_slot [of k "cf_out c" "length xs"]
  by (simp add: cf_rep_def cfifo_clear_def)

text \<open>Writing an element and advancing the write index appends it, unless the fifo is full.\<close>

lemma cfifo_put_rep:
  assumes "cf_rep k c xs" and "\<not> cfifo_full c"
  shows "cf_rep k (cfifo__in (cfifo_store (cfifo_get_in c) x c)) (xs @ [x])"
proof -
  have k: "k < 32" "length xs < 2 ^ k" using assms by (auto simp: cf_rep_def)
  have n: "Suc (length xs) < 2 ^ k" using assms cfifo_full_rep [OF assms(1)] k by simp
  have "cf_in c + 1 AND mask k = slot k (cf_out c) (Suc (length xs))"
    using assms(1) by (simp add: cf_rep_def cf_next)
  moreover have "slot k (cf_out c) i \<noteq> cf_in c" if "i < length xs" for i
    using that assms(1) k slot_inj [of k "cf_out c" i "length xs"] by (auto simp: cf_rep_def)
  ultimately show ?thesis
    using assms(1) n
    by (auto simp: cf_rep_def cfifo__in_def cfifo_store_def cfifo_get_in_def nth_append less_Suc_eq)
qed

text \<open>Reading at the read index gives the oldest element; advancing the index drops it.\<close>

lemma cfifo_get_rep:
  assumes "cf_rep k c (x # xs)"
  shows "cfifo_fetch (cfifo_get_out c) c = x" and "cf_rep k (cfifo__out c) xs"
proof -
  have k: "k < 32" "Suc (length xs) < 2 ^ k" "slot k (cf_out c) 0 = cf_out c"
    using assms slot_0 by (auto simp: cf_rep_def)
  show "cfifo_fetch (cfifo_get_out c) c = x"
    using assms k(3) by (auto simp: cf_rep_def cfifo_fetch_def cfifo_get_out_def)
  have o: "cf_out c + 1 AND mask k = slot k (cf_out c) 1" by (simp add: slot_def)
  have "unat (slot k (cf_out c) 1) < 2 ^ k" using k(1) by (simp add: unat_slot)
  then show "cf_rep k (cfifo__out c) xs"
    using assms k(1,2) by (auto simp: cf_rep_def cfifo__out_def o slot_slot)
qed

text \<open>Clearing the slot that was read, as the server does, does not disturb what is left.\<close>

lemma cfifo_get_clear_rep:
  assumes "cf_rep k c (x # xs)"
  shows "cf_rep k (cfifo__out (cfifo_store (cfifo_get_out c) y c)) xs"
proof -
  have k: "k < 32" "Suc (length xs) < 2 ^ k" "slot k (cf_out c) 0 = cf_out c"
    using assms slot_0 by (auto simp: cf_rep_def)
  have o: "cf_out c + 1 AND mask k = slot k (cf_out c) 1" by (simp add: slot_def)
  have "slot k (cf_out c) (Suc i) \<noteq> cf_out c" if "i < length xs" for i
    using slot_inj [OF k(1), of "cf_out c" "Suc i" 0] that k by auto
  then show ?thesis
    using cfifo_get_rep(2) [OF assms] k(1)
    by (auto simp: cf_rep_def cfifo__out_def cfifo_store_def cfifo_get_out_def o slot_slot)
qed

subsection \<open>The contract of a bounded fifo\<close>

definition cf_put :: "'a \<Rightarrow> 'a cfifo \<Rightarrow> 'a cfifo" where
  "cf_put x c = cfifo__in (cfifo_store (cfifo_get_in c) x c)"

definition cf_get :: "'a cfifo \<Rightarrow> 'a \<times> 'a cfifo" where
  "cf_get c = (cfifo_fetch (cfifo_get_out c) c, cfifo__out c)"

locale bounded_fifo =
  fixes rep :: "'q \<Rightarrow> 'a list \<Rightarrow> bool"
    and cap :: nat
    and full empty :: "'q \<Rightarrow> bool"
    and put :: "'a \<Rightarrow> 'q \<Rightarrow> 'q"
    and get :: "'q \<Rightarrow> 'a \<times> 'q"
  assumes rep_bound: "rep q xs \<Longrightarrow> length xs \<le> cap"
    and full_iff: "rep q xs \<Longrightarrow> full q \<longleftrightarrow> length xs = cap"
    and empty_iff: "rep q xs \<Longrightarrow> empty q \<longleftrightarrow> xs = []"
    and put_ok: "rep q xs \<Longrightarrow> \<not> full q \<Longrightarrow> rep (put x q) (xs @ [x])"
    and get_ok: "rep q (x # xs) \<Longrightarrow> fst (get q) = x \<and> rep (snd (get q)) xs"
begin

lemma put_all:
  "rep q xs \<Longrightarrow> length xs + length ys \<le> cap \<Longrightarrow> rep (fold put ys q) (xs @ ys)"
proof (induction ys arbitrary: q xs)
  case Nil
  then show ?case by simp
next
  case (Cons y ys)
  have "\<not> full q" using full_iff [OF Cons.prems(1)] Cons.prems(2) by simp
  from Cons.IH [OF put_ok [OF Cons.prems(1) this]] Cons.prems(2) show ?case by simp
qed

lemma put_then_get_all:
  assumes "rep q []" and "length ys \<le> cap"
  shows "fst (((\<lambda>(zs, r). (zs @ [fst (get r)], snd (get r))) ^^ length ys) ([], fold put ys q)) = ys"
proof -
  have "rep r (us @ vs) \<Longrightarrow>
      \<exists>r'. ((\<lambda>(zs, r). (zs @ [fst (get r)], snd (get r))) ^^ length us) (ws, r) = (ws @ us, r') \<and> rep r' vs"
    for us vs ws r
  proof (induction us arbitrary: r ws)
    case Nil
    then show ?case by simp
  next
    case (Cons u us)
    have g: "fst (get r) = u" "rep (snd (get r)) (us @ vs)"
      using get_ok [of r u "us @ vs"] Cons.prems by auto
    from Cons.IH [OF g(2), of "ws @ [u]"] g(1) show ?case by (simp add: funpow_Suc_right del: funpow.simps)
  qed
  from this [of "fold put ys q" ys "[]" "[]"] put_all [OF assms(1), of ys] assms(2)
  show ?thesis by auto
qed

end

interpretation cf: bounded_fifo "cf_rep k" "2 ^ k - 1" cfifo_full cfifo_empty cf_put cf_get for k
proof unfold_locales
  fix q :: "'a cfifo" and xs x
  show "cf_rep k q xs \<Longrightarrow> length xs \<le> 2 ^ k - 1" by (auto simp: cf_rep_def)
  show "cf_rep k q xs \<Longrightarrow> cfifo_full q \<longleftrightarrow> length xs = 2 ^ k - 1"
    by (drule cfifo_full_rep) (metis One_nat_def Suc_pred diff_Suc_1 zero_less_numeral zero_less_power)
  show "cf_rep k q xs \<Longrightarrow> cfifo_empty q \<longleftrightarrow> xs = []" by (rule cfifo_empty_rep)
  show "cf_rep k q xs \<Longrightarrow> \<not> cfifo_full q \<Longrightarrow> cf_rep k (cf_put x q) (xs @ [x])"
    unfolding cf_put_def by (rule cfifo_put_rep)
  show "cf_rep k q (x # xs) \<Longrightarrow> fst (cf_get q) = x \<and> cf_rep k (snd (cf_get q)) xs"
    by (simp add: cf_get_def cfifo_get_rep)
qed

end
