(* ===== verification/Hash.thy ===== *)
theory Hash
  imports Prelude
begin

unbundle bit_operations_syntax

text \<open>
  include/hash.h and serv/strhash.h: chained hash tables whose links are embedded in the
  entries. hash_next points at the next entry of the bucket and hash_pprev at the pointer that
  points at the entry, which is a bucket slot or another entry's hash_next. The two macros
  hashfn and equal are the parameters hf and equality; the key of an entry is read by key.
  ht_rep relates a table to the list of entries of each bucket, and the locale keyed_table is
  what the users of a table rely on.
\<close>

definition HASH_SZ :: nat where
  "HASH_SZ = 1024"

definition hashfn :: "int \<Rightarrow> nat" where
  "hashfn x = nat ((drop_bit 8 x XOR x) AND 1023)"

text \<open>The string hash of strhash.h, on the bytes of the string.\<close>

fun djb_step :: "32 word \<Rightarrow> string \<Rightarrow> 32 word" where
  "djb_step hash [] = hash"
| "djb_step hash (c # cs) = djb_step (hash + (push_bit 5 hash + of_nat (of_char c))) cs"

definition djbhash :: "string \<Rightarrow> nat" where
  "djbhash str = unat (djb_step 5381 str AND 1023)"

lemma hashfn_bound: "hashfn x < HASH_SZ"
proof -
  have "(drop_bit 8 x XOR x) AND 1023 = take_bit 10 (drop_bit 8 x XOR x)"
    by (simp add: take_bit_eq_mask mask_eq_exp_minus_1)
  moreover have "take_bit 10 (drop_bit 8 x XOR x) < 1024"
    using take_bit_int_less_exp [of 10 "drop_bit 8 x XOR x"] by simp
  ultimately show ?thesis by (simp add: hashfn_def HASH_SZ_def nat_less_iff)
qed

lemma djbhash_bound: "djbhash s < HASH_SZ"
proof -
  have "djb_step 5381 s AND 1023 \<le> 1023" by (rule word_and_le1)
  then show ?thesis by (simp add: djbhash_def HASH_SZ_def word_le_nat_alt)
qed

subsection \<open>The operations\<close>

datatype 'n loc = Bucket nat | NextOf 'n

record 'n htab =
  ht_tbl :: "nat \<Rightarrow> 'n option"
  ht_next :: "'n \<Rightarrow> 'n option"
  ht_pprev :: "'n \<Rightarrow> 'n loc option"

definition ht_init :: "'n htab" where
  "ht_init = \<lparr>ht_tbl = (\<lambda>_. None), ht_next = (\<lambda>_. None), ht_pprev = (\<lambda>_. None)\<rparr>"

fun deref :: "'n htab \<Rightarrow> 'n loc \<Rightarrow> 'n option" where
  "deref t (Bucket b) = ht_tbl t b"
| "deref t (NextOf p) = ht_next t p"

fun assign :: "'n loc \<Rightarrow> 'n option \<Rightarrow> 'n htab \<Rightarrow> 'n htab" where
  "assign (Bucket b) v t = t\<lparr>ht_tbl := (ht_tbl t)(b := v)\<rparr>"
| "assign (NextOf p) v t = t\<lparr>ht_next := (ht_next t)(p := v)\<rparr>"

definition hash_memb :: "('k \<Rightarrow> nat) \<Rightarrow> ('n \<Rightarrow> 'k) \<Rightarrow> 'n \<Rightarrow> 'n htab \<Rightarrow> 'n htab" where
  "hash_memb hf key p t =
     (let htable = Bucket (hf (key p));
          first = deref t htable;
          t1 = assign (NextOf p) first t;
          t2 = (case first of None \<Rightarrow> t1
                | Some q \<Rightarrow> t1\<lparr>ht_pprev := (ht_pprev t1)(q := Some (NextOf p))\<rparr>);
          t3 = assign htable (Some p) t2
      in t3\<lparr>ht_pprev := (ht_pprev t3)(p := Some htable)\<rparr>)"

definition unhash :: "'n \<Rightarrow> 'n htab \<Rightarrow> 'n htab option" where
  "unhash p t =
     (let t1 = (case ht_next t p of None \<Rightarrow> t
                | Some q \<Rightarrow> t\<lparr>ht_pprev := (ht_pprev t)(q := ht_pprev t p)\<rparr>)
      in case ht_pprev t1 p of None \<Rightarrow> None
         | Some l \<Rightarrow> Some (assign l (ht_next t1 p) t1))"

text \<open>The search loop of find_by_memb. A damaged chain may be cyclic, hence partial.\<close>

partial_function (option) find_from ::
    "('n \<Rightarrow> 'k) \<Rightarrow> 'k \<Rightarrow> 'n htab \<Rightarrow> 'n option \<Rightarrow> 'n option option" where
  "find_from key val t pos =
     (case pos of
        None \<Rightarrow> Some None
      | Some p \<Rightarrow> if key p = val then Some (Some p) else find_from key val t (ht_next t p))"

definition find_by_memb :: "('k \<Rightarrow> nat) \<Rightarrow> ('n \<Rightarrow> 'k) \<Rightarrow> 'k \<Rightarrow> 'n htab \<Rightarrow> 'n option option" where
  "find_by_memb hf key val t = find_from key val t (ht_tbl t (hf val))"

declare find_from.simps [code]

subsection \<open>The abstraction\<close>

fun chain :: "'n htab \<Rightarrow> 'n loc \<Rightarrow> 'n list \<Rightarrow> bool" where
  "chain t l [] \<longleftrightarrow> deref t l = None"
| "chain t l (x # xs) \<longleftrightarrow> deref t l = Some x \<and> ht_pprev t x = Some l \<and> chain t (NextOf x) xs"

definition ht_rep :: "('k \<Rightarrow> nat) \<Rightarrow> ('n \<Rightarrow> 'k) \<Rightarrow> 'n htab \<Rightarrow> (nat \<Rightarrow> 'n list) \<Rightarrow> bool" where
  "ht_rep hf key t B \<longleftrightarrow>
     (\<forall>b. chain t (Bucket b) (B b) \<and> distinct (B b) \<and> (\<forall>x \<in> set (B b). hf (key x) = b))"

lemma ht_init_rep: "ht_rep hf key ht_init (\<lambda>_. [])"
  by (simp add: ht_rep_def ht_init_def)

lemma ht_rep_bucket: "ht_rep hf key t B \<Longrightarrow> x \<in> set (B b) \<Longrightarrow> b = hf (key x)"
  by (auto simp: ht_rep_def)

lemma chain_cong:
  "deref t' l = deref t l \<Longrightarrow> (\<forall>x \<in> set xs. ht_next t' x = ht_next t x \<and> ht_pprev t' x = ht_pprev t x) \<Longrightarrow>
    chain t' l xs \<longleftrightarrow> chain t l xs"
  by (induction t l xs rule: chain.induct) auto

lemma chain_find:
  "chain t l xs \<Longrightarrow> find_from key v t (deref t l) = Some (find (\<lambda>x. key x = v) xs)"
proof (induction t l xs rule: chain.induct)
  case (1 t l)
  then show ?case by (simp add: find_from.simps)
next
  case (2 t l x xs)
  then have "find_from key v t (ht_next t x) = Some (find (\<lambda>x. key x = v) xs)" by simp
  with 2 show ?case by (simp add: find_from.simps [of key v t "Some x"])
qed

lemma find_by_memb_rep:
  assumes "ht_rep hf key t B"
  shows "find_by_memb hf key v t = Some (find (\<lambda>x. key x = v) (B (hf v)))"
  using chain_find [of t "Bucket (hf v)" "B (hf v)" key v] assms
  by (simp add: find_by_memb_def ht_rep_def)

lemma hash_memb_rep:
  assumes rep: "ht_rep hf key t B" and new: "p \<notin> set (B (hf (key p)))"
  shows "ht_rep hf key (hash_memb hf key p t) (B(hf (key p) := p # B (hf (key p))))"
proof -
  let ?b = "hf (key p)" and ?t = "hash_memb hf key p t"
  have nin: "p \<notin> set (B b)" for b using rep new by (auto simp: ht_rep_def)
  have disj: "set (B b) \<inter> set (B ?b) = {}" if "b \<noteq> ?b" for b
    by (metis disjoint_iff ht_rep_bucket rep that)
  have nxt: "ht_next ?t = (ht_next t)(p := ht_tbl t ?b)" and tbl: "ht_tbl ?t = (ht_tbl t)(?b := Some p)"
    and pprev: "\<And>x. x \<noteq> p \<Longrightarrow> Some x \<noteq> ht_tbl t ?b \<Longrightarrow> ht_pprev ?t x = ht_pprev t x"
    and pp: "ht_pprev ?t p = Some (Bucket ?b)"
    by (auto simp: hash_memb_def Let_def split: option.splits)
  have first: "ht_tbl t ?b = (case B ?b of [] \<Rightarrow> None | x # _ \<Rightarrow> Some x)"
    using rep by (auto simp: ht_rep_def split: list.splits dest: spec [of _ ?b])
  have other: "chain ?t (Bucket b) (B b)" if "b \<noteq> ?b" for b
  proof -
    have "\<forall>x \<in> set (B b). ht_next ?t x = ht_next t x \<and> ht_pprev ?t x = ht_pprev t x"
      using nin [of b] disj [OF that] first nxt pprev by (auto split: list.splits)
    then have "chain ?t (Bucket b) (B b) \<longleftrightarrow> chain t (Bucket b) (B b)"
      using that tbl by (intro chain_cong) auto
    then show ?thesis using rep by (simp add: ht_rep_def)
  qed
  have "chain ?t (NextOf p) (B ?b)"
  proof (cases "B ?b")
    case Nil
    then show ?thesis using first nxt by simp
  next
    case (Cons y ys)
    have y: "y \<noteq> p" "p \<notin> set ys" "y \<notin> set ys" 
      using conjunct1 [OF conjunct2 [OF spec [OF rep [unfolded ht_rep_def], of ?b]]] nin [of ?b] Cons
      by auto
    have "ht_pprev ?t y = Some (NextOf p)"
      using first Cons y by (simp add: hash_memb_def Let_def)
    moreover have "chain ?t (NextOf y) ys \<longleftrightarrow> chain t (NextOf y) ys"
      using y nxt pprev first Cons by (intro chain_cong) auto
    moreover have "chain t (Bucket ?b) (y # ys)" using rep Cons by (metis ht_rep_def)
    ultimately show ?thesis using first nxt Cons by simp
  qed
  then have "chain ?t (Bucket ?b) (p # B ?b)" using tbl pp by simp
  with other rep nin show ?thesis by (simp add: ht_rep_def)
qed

lemma chain_unlink:
  assumes "chain t l (as @ p # bs)" and "distinct (as @ p # bs)" and "l \<notin> NextOf ` set (as @ p # bs)"
    and "ht_pprev t p = Some l'"
    and "deref t' l' = ht_next t p" and "\<And>m. m \<noteq> l' \<Longrightarrow> deref t' m = deref t m"
    and "\<And>x. ht_pprev t' x = (if Some x = ht_next t p then Some l' else ht_pprev t x)"
  shows "chain t' l (as @ bs)"
  using assms
proof (induction as arbitrary: l)
  case Nil
  then have l: "l' = l" by simp
  show ?case
  proof (cases bs)
    case Nil
    then show ?thesis using \<open>chain t l ([] @ p # bs)\<close> Nil.prems(5) l by simp
  next
    case (Cons y ys)
    have y: "ht_next t p = Some y" "chain t (NextOf y) ys" using Nil.prems(1) Cons by auto
    have "deref t' (NextOf x) = deref t (NextOf x)" if "x \<in> set (y # ys)" for x
      by (rule Nil.prems(6)) (use Nil.prems(3) l that Cons in auto)
    then have "chain t' (NextOf y) ys \<longleftrightarrow> chain t (NextOf y) ys"
      using Nil.prems(2,7) Cons y(1) by (intro chain_cong) auto
    then show ?thesis using Cons Nil.prems(5,7) l y by simp
  qed
next
  case (Cons a as)
  have c: "deref t l = Some a" "ht_pprev t a = Some l" "chain t (NextOf a) (as @ p # bs)"
    using Cons.prems(1) by auto
  have ne: "NextOf a \<notin> NextOf ` set (as @ p # bs)" using Cons.prems(2) by auto
  have l'_in: "l' \<in> insert (NextOf a) (NextOf ` set as)"
    using c(3) Cons.prems(4)
  proof (induction as arbitrary: a)
    case Nil
    then show ?case by simp
  next
    case (Cons b as)
    then show ?case by auto
  qed
  then have "l \<noteq> l'" using Cons.prems(3) by auto
  then have "deref t' l = Some a" using Cons.prems(6) c(1) by simp
  moreover have "Some a \<noteq> ht_next t p"
  proof
    assume "Some a = ht_next t p"
    moreover have "chain t (NextOf p) bs" using c(3)
      by (induction as arbitrary: a) auto
    ultimately show False using Cons.prems(2) by (cases bs) auto
  qed
  ultimately show ?case
    using Cons.IH [OF c(3) _ ne Cons.prems(4-7)] Cons.prems(2,7) c(2) by simp
qed

lemma unhash_rep:
  assumes rep: "ht_rep hf key t B" and p: "p \<in> set (B b)"
  shows "\<exists>t'. unhash p t = Some t' \<and> ht_rep hf key t' (B(b := remove1 p (B b)))"
proof -
  obtain as bs where B: "B b = as @ p # bs" "p \<notin> set as"
    using split_list_first [OF p] by auto
  have ch: "chain t (Bucket b) (as @ p # bs)" and dist: "distinct (as @ p # bs)"
    using rep B by (metis ht_rep_def)+
  have "\<exists>l. ht_pprev t p = Some l \<and> l \<in> insert m (NextOf ` set as)" if "chain t m (as @ p # bs)" for m
    using that by (induction as arbitrary: m) auto
  then obtain l where l: "ht_pprev t p = Some l" "l \<in> insert (Bucket b) (NextOf ` set as)"
    using ch by blast
  have pb: "chain t (NextOf p) bs" if "chain t m (as @ p # bs)" for m
    using that by (induction as arbitrary: m) auto
  have nx: "ht_next t p = (case bs of [] \<Rightarrow> None | y # _ \<Rightarrow> Some y)"
    using pb [OF ch] by (cases bs) auto
  then have np: "ht_next t p \<noteq> Some p" using dist by (auto split: list.splits)
  define t1 where "t1 = (case ht_next t p of None \<Rightarrow> t
                | Some q \<Rightarrow> t\<lparr>ht_pprev := (ht_pprev t)(q := ht_pprev t p)\<rparr>)"
  have t1: "ht_tbl t1 = ht_tbl t" "ht_next t1 = ht_next t"
    "ht_pprev t1 x = (if Some x = ht_next t p then Some l else ht_pprev t x)" for x
    using l(1) by (auto simp: t1_def split: option.splits)
  let ?t = "assign l (ht_next t p) t1"
  have run: "unhash p t = Some ?t"
    using t1 l(1) np by (simp add: unhash_def Let_def flip: t1_def)
  have d1: "deref t1 m = deref t m" for m using t1 by (cases m) auto
  have d: "deref ?t l = ht_next t p" "m \<noteq> l \<Longrightarrow> deref ?t m = deref t m" for m
    using d1 [of m] by (cases l; cases m; auto simp: t1)+
  have pv: "ht_pprev ?t x = (if Some x = ht_next t p then Some l else ht_pprev t x)" for x
    using t1(3) by (cases l) auto
  have "chain ?t (Bucket b) (as @ bs)"
    using chain_unlink [OF ch dist _ l(1) d pv] by auto
  moreover have "chain ?t (Bucket c) (B c)" if c: "c \<noteq> b" for c
  proof -
    have "set (B c) \<inter> set (B b) = {}" by (metis disjoint_iff ht_rep_bucket rep c)
    moreover have "deref ?t (NextOf x) = deref t (NextOf x)" if "x \<notin> set (B b)" for x
      using d(2) [of "NextOf x"] l(2) that B by auto
    moreover have "ht_pprev ?t x = ht_pprev t x" if "x \<notin> set (B b)" for x
      using pv [of x] nx that B by (auto split: list.splits)
    moreover have "deref ?t (Bucket c) = deref t (Bucket c)" using d(2) [of "Bucket c"] l(2) c by auto
    ultimately have "chain ?t (Bucket c) (B c) \<longleftrightarrow> chain t (Bucket c) (B c)"
      by (intro chain_cong) (auto simp flip: deref.simps(2))
    then show ?thesis using rep by (simp add: ht_rep_def)
  qed
  ultimately show ?thesis
    using run rep B dist unfolding ht_rep_def by (auto simp: remove1_mid)
qed

subsection \<open>The contract of a table\<close>

text \<open>
  The users see a table as the list of its entries, the most recent insertion first: a lookup
  finds the newest entry with the key, and a removal takes out one entry.
\<close>

locale keyed_table =
  fixes rep :: "'t \<Rightarrow> 'n list \<Rightarrow> bool"
    and key :: "'n \<Rightarrow> 'k"
    and ins :: "'n \<Rightarrow> 't \<Rightarrow> 't"
    and rem :: "'n \<Rightarrow> 't \<Rightarrow> 't option"
    and look :: "'k \<Rightarrow> 't \<Rightarrow> 'n option option"
  assumes ins_ok: "rep t xs \<Longrightarrow> n \<notin> set xs \<Longrightarrow> rep (ins n t) (n # xs)"
    and rem_ok: "rep t xs \<Longrightarrow> n \<in> set xs \<Longrightarrow> \<exists>t'. rem n t = Some t' \<and> rep t' (remove1 n xs)"
    and look_ok: "rep t xs \<Longrightarrow> look k t = Some (find (\<lambda>x. key x = k) xs)"
begin

lemma look_ins:
  "rep t xs \<Longrightarrow> n \<notin> set xs \<Longrightarrow> look k (ins n t) = (if key n = k then Some (Some n) else look k t)"
  using look_ok [OF ins_ok [of t xs n]] look_ok [of t xs] by auto

text \<open>With unique keys a table is a map from keys to entries.\<close>

lemma look_unique:
  assumes "rep t xs" and "inj_on key (set xs)" and "n \<in> set xs"
  shows "look (key n) t = Some (Some n)"
proof -
  have "find (\<lambda>x. key x = key n) xs = Some n"
    using assms(2,3) by (induction xs) (auto simp: inj_on_def)
  then show ?thesis using look_ok [OF assms(1)] by simp
qed

lemma look_absent:
  "rep t xs \<Longrightarrow> k \<notin> key ` set xs \<Longrightarrow> look k t = Some None"
  using look_ok [of t xs k] by (auto simp: find_None_iff)

lemma look_after_rem:
  assumes "rep t xs" and "inj_on key (set xs)" and "distinct xs" and "n \<in> set xs"
  shows "\<exists>t'. rem n t = Some t' \<and> look (key n) t' = Some None
    \<and> (\<forall>m \<in> set xs. m \<noteq> n \<longrightarrow> look (key m) t' = Some (Some m))"
proof -
  obtain t' where t': "rem n t = Some t'" "rep t' (remove1 n xs)" using rem_ok assms(1,4) by blast
  have s: "set (remove1 n xs) = set xs - {n}" using assms(3) by simp
  have "key n \<notin> key ` set (remove1 n xs)" using assms(2,4) s by (auto simp: inj_on_def)
  moreover have "inj_on key (set (remove1 n xs))"
    using assms(2) s by (auto intro: inj_on_subset)
  ultimately show ?thesis
    using t' look_absent [OF t'(2)] look_unique [OF t'(2)] s by auto
qed

end

text \<open>The entries of a table in the order of insertion, related to its buckets.\<close>

definition ht_list :: "('k \<Rightarrow> nat) \<Rightarrow> ('n \<Rightarrow> 'k) \<Rightarrow> 'n htab \<Rightarrow> 'n list \<Rightarrow> bool" where
  "ht_list hf key t xs \<longleftrightarrow> distinct xs \<and> ht_rep hf key t (\<lambda>b. filter (\<lambda>x. hf (key x) = b) xs)"

lemma find_filter: "(\<And>x. P x \<Longrightarrow> Q x) \<Longrightarrow> find P (filter Q xs) = find P xs"
  by (induction xs) auto

lemma ht_list_ins:
  assumes "ht_list hf key t xs" and "n \<notin> set xs"
  shows "ht_list hf key (hash_memb hf key n t) (n # xs)"
proof -
  have "(\<lambda>b. filter (\<lambda>x. hf (key x) = b) xs)
      (hf (key n) := n # filter (\<lambda>x. hf (key x) = hf (key n)) xs)
    = (\<lambda>b. filter (\<lambda>x. hf (key x) = b) (n # xs))"
    by auto
  then show ?thesis
    using assms hash_memb_rep [of hf key t "\<lambda>b. filter (\<lambda>x. hf (key x) = b) xs" n]
    by (simp add: ht_list_def)
qed

lemma ht_list_rem:
  assumes "ht_list hf key t xs" and "n \<in> set xs"
  shows "\<exists>t'. unhash n t = Some t' \<and> ht_list hf key t' (remove1 n xs)"
proof -
  have "(\<lambda>b. filter (\<lambda>x. hf (key x) = b) xs)
      (hf (key n) := remove1 n (filter (\<lambda>x. hf (key x) = hf (key n)) xs))
    = (\<lambda>b. filter (\<lambda>x. hf (key x) = b) (remove1 n xs))"
    using assms by (auto simp: ht_list_def filter_remove1 intro!: ext remove1_idem [symmetric])
  then show ?thesis
    using assms unhash_rep [of hf key t "\<lambda>b. filter (\<lambda>x. hf (key x) = b) xs" n "hf (key n)"]
    by (auto simp: ht_list_def)
qed

lemma ht_list_find:
  "ht_list hf key t xs \<Longrightarrow> find_by_memb hf key k t = Some (find (\<lambda>x. key x = k) xs)"
  using find_filter [of "\<lambda>x. key x = k" "\<lambda>x. hf (key x) = hf k" xs]
  by (auto simp: ht_list_def find_by_memb_rep)

interpretation ht: keyed_table "ht_list hf key" key "hash_memb hf key" unhash "find_by_memb hf key"
  for hf key
  by unfold_locales (auto intro: ht_list_ins ht_list_rem ht_list_find)

lemma ht_list_init: "ht_list hf key ht_init []"
  by (simp add: ht_list_def ht_init_rep)

end
