(* ===== verification/Sha.thy ===== *)
theory Sha
  imports Prelude
begin

text \<open>
  sha/sha128.c: the digest of the library (an SHA variant on four 32-bit words with its own
  expansion, sub-rounds and constants). The words are 32 word and wrap; the buffer data[16] is
  read and written both as words and as bytes, so the little endian layout of the machine the
  code is compiled for (LITTLE_ENDIAN is defined) is written out in le_words and le_bytes. The
  incremental code (shaInit, shaUpdate, shaFinal) is shown to compute the one-shot definition
  sha_spec: pad, cut into blocks of sixteen big endian words, compress block after block.
\<close>

unbundle bit_operations_syntax

type_synonym byte = "8 word"

subsection \<open>The byte layout of words\<close>

definition le4 :: "byte \<Rightarrow> byte \<Rightarrow> byte \<Rightarrow> byte \<Rightarrow> 32 word" where
  "le4 a b c d = ucast a OR push_bit 8 (ucast b) OR push_bit 16 (ucast c) OR push_bit 24 (ucast d)"

fun le_words :: "byte list \<Rightarrow> 32 word list" where
  "le_words (a # b # c # d # bs) = le4 a b c d # le_words bs"
| "le_words _ = []"

definition le4_bytes :: "32 word \<Rightarrow> byte list" where
  "le4_bytes w = [ucast w, ucast (drop_bit 8 w), ucast (drop_bit 16 w), ucast (drop_bit 24 w)]"

definition le_bytes :: "32 word list \<Rightarrow> byte list" where
  "le_bytes ws = concat (map le4_bytes ws)"

lemma le4_bytes_le4 [simp]: "le4_bytes (le4 a b c d) = [a, b, c, d]"
  by (auto simp: le4_bytes_def le4_def intro!: bit_word_eqI)
    (auto simp: bit_simps dest: bit_imp_le_length)

lemma le4_le4_bytes: "le4 (ucast w) (ucast (drop_bit 8 w)) (ucast (drop_bit 16 w)) (ucast (drop_bit 24 w)) = w"
proof (rule bit_word_eqI)
  fix n
  assume "n < LENGTH(32)"
  then consider "n < 8" | "8 \<le> n \<and> n < 16" | "16 \<le> n \<and> n < 24" | "24 \<le> n \<and> n < 32" by fastforce
  then show "bit (le4 (ucast w) (ucast (drop_bit 8 w)) (ucast (drop_bit 16 w))
      (ucast (drop_bit 24 w))) n \<longleftrightarrow> bit w n"
    by cases (auto simp: le4_def bit_simps)
qed

lemma le_words_cons [simp]: "le_words (le4_bytes w @ bs) = w # le_words bs"
  by (simp add: le4_bytes_def le4_le4_bytes)

lemma le_words_bytes [simp]: "le_words (le_bytes ws @ bs) = ws @ le_words bs"
  by (induction ws) (simp_all add: le_bytes_def)

lemma le_words_bytes0 [simp]: "le_words (le_bytes ws) = ws"
  using le_words_bytes [of ws "[]"] by simp

lemma length_le_bytes [simp]: "length (le_bytes ws) = 4 * length ws"
  by (induction ws) (simp_all add: le_bytes_def le4_bytes_def)

lemma length_le_words [simp]: "length (le_words bs) = length bs div 4"
  by (induction bs rule: le_words.induct) auto

lemma le_bytes_words: "4 dvd length bs \<Longrightarrow> le_bytes (le_words bs) = bs"
proof (induction bs rule: le_words.induct)
  case (1 a b c d bs)
  from 1(2) have "4 dvd length bs" by simp presburger
  with 1 have "le_bytes (le_words bs) = bs" by simp
  then show ?case by (simp add: le_bytes_def)
qed (auto simp: le_bytes_def dest: dvd_imp_le)

lemma le_words_append: "4 dvd length as \<Longrightarrow> le_words (as @ bs) = le_words as @ le_words bs"
  using le_words_bytes [of "le_words as" bs] by (simp add: le_bytes_words)

subsection \<open>The code\<close>

definition f1 :: "32 word \<Rightarrow> 32 word \<Rightarrow> 32 word \<Rightarrow> 32 word" where
  "f1 x y z = (x AND y) OR (NOT x AND z)"

definition f2 :: "32 word \<Rightarrow> 32 word \<Rightarrow> 32 word \<Rightarrow> 32 word" where
  "f2 x y z = (x AND y) OR (x AND NOT z) OR (y AND NOT z)"

definition f3 :: "32 word \<Rightarrow> 32 word \<Rightarrow> 32 word \<Rightarrow> 32 word" where
  "f3 x y z = (x AND NOT z) OR (y AND z)"

definition f4 :: "32 word \<Rightarrow> 32 word \<Rightarrow> 32 word \<Rightarrow> 32 word" where
  "f4 x y z = (x AND y) OR (x AND z) OR (y AND z)"

definition S :: "nat \<Rightarrow> 32 word \<Rightarrow> 32 word" where
  "S n x = push_bit n x OR drop_bit (32 - n) x"

definition sha_K :: "32 word list" where
  "sha_K =
    [0xE8C7B756, 0xC1BDCEEE, 0x4787C62A, 0xFD469501, 0x8B44F7AF, 0x895CD7BE, 0xFD987193,
     0x49B40821, 0xC040B340, 0xE9B6C7AA, 0x02441453, 0xE7D3FBC8, 0xC33707D6, 0x455A14ED,
     0xFCEFA3F8, 0x8D2A4C8A, 0x8771F681, 0xFDE5380C, 0x4BDECFA9, 0xBEBFBC70, 0xEAA127FA,
     0x04881D05, 0xE6DB99E5, 0xC4AC5665, 0x432AFF97, 0xFC93A039, 0x8F0CCC92, 0x85845DD1,
     0xFE2CE6E0, 0x4E0811A1, 0xBD3AF235, 0xEB86D391, 0x06CC0E72, 0xE5DE96A6, 0xC61DB31F,
     0x40FA9162, 0xFC328B9A, 0x90EC6E1A, 0x83941793, 0xFE6F7CA0, 0x502FC2F0, 0xBBB25C5E,
     0xEC67C5D5, 0x90FDCF8, 0xE4DCF720, 0xC78B169D, 0x3EC8D588, 0xFBCC680F, 0x92C92784,
     0x81A12DBC, 0xFEACF7F6, 0x5255D887, 0xBA2602C9, 0xED43FA42, 0xB537CF7, 0xE3D6C07E,
     0xC8F47989, 0x3C95D750, 0xFB6137A4, 0x94A2EF3F, 0x7FABAA4E, 0xFEE557A5, 0x547A475C,
     0xB895ED69, 0xEE1B6C6D, 0xD96E2CE, 0xE2CBF801, 0xCA59D4A4, 0x3A61A204, 0xFAF0FC7F,
     0x9679BBCC, 0x7DB39757, 0xFF189A8E, 0x569D046F, 0xB7022445, 0xEEEE1806, 0xFDA02DF,
     0xE1BCA303, 0xCBBB20C3, 0x382C40F4]"

text \<open>Only the first four words of digest[5] are ever used; data is data[16].\<close>

record sha_info =
  sha_digest :: "32 word list"
  sha_countLo :: "32 word"
  sha_countHi :: "32 word"
  sha_data :: "32 word list"

definition shaInit :: "sha_info" where
  "shaInit = \<lparr>sha_digest = [0x724d65f1, 0xec38a0b9, 0xd9de387f, 0x5c1602a4],
     sha_countLo = 0, sha_countHi = 0, sha_data = replicate 16 0\<rparr>"

text \<open>The initialised prefix of W[80] grows by one word at each expand.\<close>

definition expand :: "nat \<Rightarrow> 32 word list \<Rightarrow> 32 word list" where
  "expand count W =
     W @ [W ! (count - 4) XOR W ! (count - 5) XOR W ! (count - 13) XOR W ! (count - 16)]"

type_synonym sha_regs = "32 word \<times> 32 word \<times> 32 word \<times> 32 word"

definition sub_round ::
    "(32 word \<Rightarrow> 32 word \<Rightarrow> 32 word \<Rightarrow> 32 word) \<Rightarrow> 32 word list \<Rightarrow> nat \<Rightarrow> sha_regs \<Rightarrow> sha_regs" where
  "sub_round f W count = (\<lambda>(A, B, C, D).
     (S 5 A + f B C (W ! count) + S 7 D + sha_K ! count, A, S 30 B, C))"

definition sha_rounds :: "32 word list \<Rightarrow> sha_regs \<Rightarrow> sha_regs" where
  "sha_rounds W r =
     fold (sub_round f4 W) [60..<80] (fold (sub_round f3 W) [40..<60]
       (fold (sub_round f2 W) [20..<40] (fold (sub_round f1 W) [0..<20] r)))"

definition sha_expanded :: "32 word list \<Rightarrow> 32 word list" where
  "sha_expanded dat = fold expand [16..<80] dat"

definition shaTranform :: "sha_info \<Rightarrow> sha_info" where
  "shaTranform s =
     (let W = sha_expanded (sha_data s);
          dg = sha_digest s;
          (A, B, C, D) = sha_rounds W (dg ! 0, dg ! 1, dg ! 2, dg ! 3)
      in s\<lparr>sha_digest := [dg ! 0 + A, dg ! 1 + B, dg ! 2 + C, dg ! 3 + D]\<rparr>)"

definition byteReverse1 :: "32 word \<Rightarrow> 32 word" where
  "byteReverse1 w =
     (let v = push_bit 16 w OR drop_bit 16 w
      in drop_bit 8 (v AND 0xFF00FF00) OR push_bit 8 (v AND 0x00FF00FF))"

definition byteReverse :: "32 word list \<Rightarrow> 32 word list" where
  "byteReverse ws = map byteReverse1 ws"

definition sha_memcpy :: "nat \<Rightarrow> byte list \<Rightarrow> sha_info \<Rightarrow> sha_info" where
  "sha_memcpy n buf s = s\<lparr>sha_data := le_words (take n buf @ drop n (le_bytes (sha_data s)))\<rparr>"

function sha_update_loop :: "byte list \<Rightarrow> nat \<Rightarrow> sha_info \<Rightarrow> sha_info" where
  "sha_update_loop buf count s =
     (if count \<ge> 64
      then let s1 = sha_memcpy 64 buf s
           in sha_update_loop (drop 64 buf) (count - 64)
                (shaTranform (s1\<lparr>sha_data := byteReverse (sha_data s1)\<rparr>))
      else sha_memcpy count buf s)"
  by auto
termination by (relation "measure (\<lambda>(buf, count, s). count)") auto

declare sha_update_loop.simps [simp del]

definition shaUpdate :: "byte list \<Rightarrow> nat \<Rightarrow> sha_info \<Rightarrow> sha_info" where
  "shaUpdate buf count s =
     (let bits = push_bit 3 (of_nat count :: 32 word);
          s1 = (if sha_countLo s + bits < sha_countLo s
                then s\<lparr>sha_countHi := sha_countHi s + 1\<rparr> else s);
          s2 = s1\<lparr>sha_countLo := sha_countLo s1 + bits,
                  sha_countHi := sha_countHi s1 + drop_bit 29 (of_nat count)\<rparr>
      in sha_update_loop buf count s2)"

definition sha_memset0 :: "nat \<Rightarrow> nat \<Rightarrow> sha_info \<Rightarrow> sha_info" where
  "sha_memset0 from n s =
     (let bs = le_bytes (sha_data s)
      in s\<lparr>sha_data := le_words (take from bs @ replicate n 0 @ drop (from + n) bs)\<rparr>)"

definition shaFinal :: "sha_info \<Rightarrow> sha_info" where
  "shaFinal s =
     (let lowBitcount = sha_countLo s;
          highBitcount = sha_countHi s;
          count0 = unat (drop_bit 3 (sha_countLo s) AND 0x3f);
          s1 = s\<lparr>sha_data := le_words ((le_bytes (sha_data s))[count0 := 0x80])\<rparr>;
          count = count0 + 1;
          s2 = (if count > 56
                then let t = sha_memset0 count (64 - count) s1;
                         t1 = shaTranform (t\<lparr>sha_data := byteReverse (sha_data t)\<rparr>)
                     in sha_memset0 0 56 t1
                else sha_memset0 count (56 - count) s1);
          s3 = s2\<lparr>sha_data := (byteReverse (sha_data s2))[14 := highBitcount, 15 := lowBitcount]\<rparr>;
          s4 = shaTranform s3
      in s4\<lparr>sha_digest := byteReverse (sha_digest s4)\<rparr>)"

definition shaHashData :: "byte list \<Rightarrow> byte list" where
  "shaHashData data = le_bytes (sha_digest (shaFinal (shaUpdate data (length data) shaInit)))"

subsection \<open>The one-shot definition\<close>

fun be_words :: "byte list \<Rightarrow> 32 word list" where
  "be_words (a # b # c # d # bs) = le4 d c b a # be_words bs"
| "be_words _ = []"

fun blocks16 :: "32 word list \<Rightarrow> 32 word list list" where
  "blocks16 [] = []"
| "blocks16 (w # ws) = take 16 (w # ws) # blocks16 (drop 15 ws)"

definition compress :: "32 word list \<Rightarrow> 32 word list \<Rightarrow> 32 word list" where
  "compress dg block =
     (case sha_rounds (sha_expanded block) (dg ! 0, dg ! 1, dg ! 2, dg ! 3) of
        (A, B, C, D) \<Rightarrow> [dg ! 0 + A, dg ! 1 + B, dg ! 2 + C, dg ! 3 + D])"

definition pad_zeros :: "nat \<Rightarrow> nat" where
  "pad_zeros n = (119 - n mod 64) mod 64"

definition sha_pad :: "byte list \<Rightarrow> 32 word list" where
  "sha_pad msg =
     be_words (msg @ 0x80 # replicate (pad_zeros (length msg)) 0)
       @ [of_nat (8 * length msg div 2 ^ 32), of_nat (8 * length msg)]"

definition sha_spec :: "byte list \<Rightarrow> byte list" where
  "sha_spec msg =
     concat (map (\<lambda>w. rev (le4_bytes w)) (foldl compress (sha_digest shaInit) (blocks16 (sha_pad msg))))"

subsection \<open>Byte reversal\<close>

lemma bit_high_mask: "bit (0xFF00FF00 :: int) n \<longleftrightarrow> 8 \<le> n \<and> n < 16 \<or> 24 \<le> n \<and> n < 32"
proof -
  have eq: "(0xFF00FF00 :: int) = push_bit 8 (mask 8) OR push_bit 24 (mask 8)"
    by (simp add: mask_eq_exp_minus_1)
  show ?thesis unfolding eq by (auto simp: bit_simps)
qed

lemma bit_low_mask: "bit (0x00FF00FF :: int) n \<longleftrightarrow> n < 8 \<or> 16 \<le> n \<and> n < 24"
proof -
  have eq: "(0x00FF00FF :: int) = mask 8 OR push_bit 16 (mask 8)"
    by (simp add: mask_eq_exp_minus_1)
  show ?thesis unfolding eq by (auto simp: bit_simps)
qed

lemma byteReverse1_le4: "byteReverse1 (le4 a b c d) = le4 d c b a"
proof (rule bit_word_eqI)
  fix n
  assume "n < LENGTH(32)"
  then consider "n < 8" | "8 \<le> n \<and> n < 16" | "16 \<le> n \<and> n < 24" | "24 \<le> n \<and> n < 32" by fastforce
  then show "bit (byteReverse1 (le4 a b c d)) n \<longleftrightarrow> bit (le4 d c b a) n"
    by cases (auto simp: byteReverse1_def Let_def le4_def bit_simps bit_high_mask bit_low_mask
      dest: bit_imp_le_length)
qed

lemma byteReverse_le_words: "byteReverse (le_words bs) = be_words bs"
  by (induction bs rule: le_words.induct) (auto simp: byteReverse_def byteReverse1_le4)

subsection \<open>The incremental code computes the one-shot definition\<close>

lemma sha_digest_transform: "sha_digest (shaTranform s) = compress (sha_digest s) (sha_data s)"
  by (simp add: shaTranform_def compress_def Let_def split: prod.splits)

lemma shaTranform_frame [frame_simps]:
  "sha_data (shaTranform s) = sha_data s"
  "sha_countLo (shaTranform s) = sha_countLo s"
  "sha_countHi (shaTranform s) = sha_countHi s"
  by (simp_all add: shaTranform_def Let_def split: prod.splits)

text \<open>The digest after the whole blocks of a message, and the bytes left over.\<close>

function absorb :: "32 word list \<Rightarrow> byte list \<Rightarrow> 32 word list" where
  "absorb dg bs =
     (if length bs \<ge> 64 then absorb (compress dg (be_words (take 64 bs))) (drop 64 bs) else dg)"
  by auto
termination by (relation "measure (\<lambda>(dg, bs). length bs)") auto

declare absorb.simps [simp del]

definition left_over :: "byte list \<Rightarrow> byte list" where
  "left_over bs = drop (64 * (length bs div 64)) bs"

lemma length_left_over [simp]: "length (left_over bs) = length bs mod 64"
  by (simp add: left_over_def minus_mult_div_eq_mod)

lemma left_over_short: "length bs < 64 \<Longrightarrow> left_over bs = bs"
  by (simp add: left_over_def)

lemma left_over_long: "length bs \<ge> 64 \<Longrightarrow> left_over bs = left_over (drop 64 bs)"
proof -
  assume "length bs \<ge> 64"
  then have "length bs div 64 = Suc ((length bs - 64) div 64)"
    by (simp add: le_div_geq)
  then show ?thesis by (simp add: left_over_def add.commute)
qed

lemma sha_update_loop_absorb:
  assumes "length (sha_data s) = 16"
  shows "sha_digest (sha_update_loop buf (length buf) s) = absorb (sha_digest s) buf
    \<and> sha_countLo (sha_update_loop buf (length buf) s) = sha_countLo s
    \<and> sha_countHi (sha_update_loop buf (length buf) s) = sha_countHi s
    \<and> (\<exists>bs. length bs = 64 - length buf mod 64
          \<and> sha_data (sha_update_loop buf (length buf) s) = le_words (left_over buf @ bs))"
  using assms
proof (induction "sha_digest s" buf arbitrary: s rule: absorb.induct)
  case (1 buf)
  show ?case
  proof (cases "length buf \<ge> 64")
    case True
    let ?s1 = "sha_memcpy 64 buf s"
    let ?s2 = "shaTranform (?s1\<lparr>sha_data := byteReverse (sha_data ?s1)\<rparr>)"
    have d1: "sha_data ?s1 = le_words (take 64 buf)"
      using 1(2) by (simp add: sha_memcpy_def)
    then have dg: "compress (sha_digest s) (be_words (take 64 buf)) = sha_digest ?s2"
      by (simp add: sha_digest_transform byteReverse_le_words sha_memcpy_def)
    have len: "length (sha_data ?s2) = 16"
      using d1 True by (simp add: frame_simps byteReverse_def)
    have loop: "sha_update_loop buf (length buf) s = sha_update_loop (drop 64 buf) (length (drop 64 buf)) ?s2"
      using True by (simp add: sha_update_loop.simps [of buf] Let_def)
    have m: "(length buf - 64) mod 64 = length buf mod 64" using True by (simp add: le_mod_geq)
    show ?thesis
      using 1(1) [OF True dg len] True
      by (simp only: loop left_over_long [OF True] absorb.simps [of _ buf] dg if_True
          length_drop m) (simp add: frame_simps sha_memcpy_def)
  next
    case False
    then show ?thesis
      using 1(2)
      by (auto simp: sha_update_loop.simps [of buf] sha_memcpy_def absorb.simps [of _ buf] left_over_short
          intro!: exI [of _ "drop (length buf) (le_bytes (sha_data s))"])
  qed
qed

lemma length_be_words [simp]: "length (be_words bs) = length bs div 4"
  by (induction bs rule: be_words.induct) auto

lemma be_words_append: "4 dvd length as \<Longrightarrow> be_words (as @ bs) = be_words as @ be_words bs"
  using le_words_append [of as bs] by (simp flip: byteReverse_le_words add: byteReverse_def)

lemma blocks16_append: "length ws = 16 \<Longrightarrow> blocks16 (ws @ vs) = ws # blocks16 vs"
  by (cases ws) auto

lemma blocks16_one: "length ws = 16 \<Longrightarrow> blocks16 ws = [ws]"
  using blocks16_append [of ws "[]"] by simp

lemma absorb_blocks:
  "foldl compress dg (blocks16 (be_words (msg @ ts) @ vs))
     = foldl compress (absorb dg msg) (blocks16 (be_words (left_over msg @ ts) @ vs))"
proof (induction dg msg rule: absorb.induct)
  case (1 dg msg)
  show ?case
  proof (cases "length msg \<ge> 64")
    case True
    let ?m = "take 64 msg"
    have "be_words (msg @ ts) = be_words ?m @ be_words (drop 64 msg @ ts)"
      using be_words_append [of ?m "drop 64 msg @ ts"] True
      by (simp flip: append_assoc)
    then have "blocks16 (be_words (msg @ ts) @ vs) = be_words ?m # blocks16 (be_words (drop 64 msg @ ts) @ vs)"
      using True by (simp add: blocks16_append)
    then show ?thesis
      using 1 [OF True] True by (simp add: absorb.simps [of dg msg] left_over_long [of msg])
  next
    case False
    then show ?thesis by (simp add: absorb.simps [of dg msg] left_over_short)
  qed
qed

text \<open>The two paddings of shaFinal, for a block with n bytes left over.\<close>

lemma set_at_length: "length as = n \<Longrightarrow> bs \<noteq> [] \<Longrightarrow> (as @ bs)[n := x] = as @ x # tl bs"
  by (cases bs) auto

lemma set_1415:
  "length ws = 14 \<Longrightarrow> length vs = 2 \<Longrightarrow> (ws @ vs)[14 := a, 15 := b] = ws @ [a, b]"
  by (cases vs; cases "tl vs") (auto simp: list_update_append)

lemma be_words_short:
  "length r \<le> 55 \<Longrightarrow> length us = 8 \<Longrightarrow>
    (be_words (r @ 0x80 # replicate (55 - length r) 0 @ us))[14 := a, 15 := b]
      = be_words (r @ 0x80 # replicate (55 - length r) 0) @ [a, b]"
  using be_words_append [of "r @ 0x80 # replicate (55 - length r) 0" us]
  by (simp add: set_1415)

lemma be_words_zeros: "be_words (replicate (4 * n) 0) = replicate n 0"
proof (induction n)
  case (Suc n)
  have "replicate (4 * Suc n) 0 = 0 # 0 # 0 # 0 # replicate (4 * n) (0::byte)"
    by (simp add: numeral_eq_Suc)
  with Suc show ?case by (simp add: le4_def)
qed simp

lemma shaFinal_digest:
  assumes dat: "sha_data s = le_words (r @ bs)" and len: "length bs = 64 - length r"
    and r: "length r < 64" "length r = unat (and (drop_bit 3 (sha_countLo s)) 0x3f)"
    and z: "z = (119 - length r) mod 64"
  shows "sha_digest (shaFinal s) = byteReverse (foldl compress (sha_digest s)
    (blocks16 (be_words (r @ 0x80 # replicate z 0) @ [sha_countHi s, sha_countLo s])))"
proof -
  define n where "n = length r"
  define s1 where "s1 = s\<lparr>sha_data := le_words (r @ 0x80 # tl bs)\<rparr>"
  have bs: "bs \<noteq> []" using len r by auto
  have s1: "s\<lparr>sha_data := le_words ((le_bytes (sha_data s))[n := 0x80])\<rparr> = s1"
    using dat len r(1) bs by (simp add: s1_def le_bytes_words set_at_length n_def)
  have b1: "le_bytes (sha_data s1) = r @ 0x80 # tl bs"
    using len r(1) bs by (simp add: s1_def le_bytes_words)
  show ?thesis
  proof (cases "n + 1 > 56")
    case False
    then have "119 - length r = 64 + (55 - n)" by (simp add: n_def)
    then have zz: "z = 55 - n" by (simp add: z mod_add_self1)
    let ?t = "sha_memset0 (n + 1) (56 - (n + 1)) s1"
    have "sha_data ?t = le_words (r @ 0x80 # replicate (55 - n) 0 @ drop (55 - n) (tl bs))"
      using False b1 by (simp add: sha_memset0_def n_def drop_Cons')
    then have "(byteReverse (sha_data ?t))[14 := sha_countHi s, 15 := sha_countLo s]
        = be_words (r @ 0x80 # replicate z 0) @ [sha_countHi s, sha_countLo s]" (is "?d = ?b")
      using False len be_words_short [of r "drop (55 - n) (tl bs)"]
      by (simp add: byteReverse_le_words n_def zz)
    moreover have "sha_digest (shaFinal s) = byteReverse (compress (sha_digest s) ?d)"
      using False s1 r(2)
      by (simp add: shaFinal_def Let_def n_def sha_digest_transform sha_memset0_def s1_def)
    moreover have "length ?b = 16" using False zz by (simp add: n_def)
    ultimately show ?thesis by (simp add: blocks16_one)
  next
    case True
    then have zz: "z = 119 - n" using z r(1) by (simp add: n_def)
    let ?t = "sha_memset0 (n + 1) (64 - (n + 1)) s1"
    let ?t1 = "shaTranform (?t\<lparr>sha_data := byteReverse (sha_data ?t)\<rparr>)"
    let ?t2 = "sha_memset0 0 56 ?t1"
    have dt: "sha_data ?t = le_words (r @ 0x80 # replicate (63 - n) 0)"
      using True b1 len by (simp add: sha_memset0_def n_def)
    then have l1: "length (byteReverse (sha_data ?t)) = 16"
      using r(1) by (simp add: byteReverse_def n_def)
    have "(byteReverse (sha_data ?t2))[14 := sha_countHi s, 15 := sha_countLo s]
        = be_words (replicate 56 0) @ [sha_countHi s, sha_countLo s]" (is "?d = ?b")
      using l1 be_words_append [of "replicate 56 0"]
      by (simp add: sha_memset0_def Let_def byteReverse_le_words frame_simps set_1415)
    moreover have "sha_digest (shaFinal s) = byteReverse (compress (sha_digest ?t1) ?d)"
      using True s1 r(2)
      by (simp add: shaFinal_def Let_def n_def sha_digest_transform sha_memset0_def s1_def)
    moreover have "sha_digest ?t1 = compress (sha_digest s) (be_words (r @ 0x80 # replicate (63 - n) 0))"
      using dt by (simp add: sha_digest_transform byteReverse_le_words sha_memset0_def s1_def Let_def)
    moreover have "be_words (r @ 0x80 # replicate z 0)
        = be_words (r @ 0x80 # replicate (63 - n) 0) @ be_words (replicate 56 0)"
    proof -
      have "replicate z (0::byte) = replicate (63 - n) 0 @ replicate 56 0"
        using r(1) zz by (simp add: n_def flip: replicate_add)
      then show ?thesis
        using be_words_append [of "r @ 0x80 # replicate (63 - n) 0" "replicate 56 0"] r(1)
        by (simp add: n_def)
    qed
    moreover have "length (be_words (r @ 0x80 # replicate (63 - n) 0)) = 16"
      using r(1) by (simp add: n_def)
    ultimately show ?thesis by (simp add: blocks16_append blocks16_one)
  qed
qed

lemma bits_low: "push_bit 3 (of_nat n :: 32 word) = of_nat (8 * n)"
  by (simp add: push_bit_eq_mult)

lemma unat_drop_bit: "unat (drop_bit k w :: 32 word) = unat w div 2 ^ k"
  unfolding unsigned_drop_bit_eq using unsigned_less [of w, where 'a = nat]
  by (simp add: drop_bit_eq_div take_bit_nat_eq_self)

lemma bits_high: "n < 2 ^ 31 \<Longrightarrow> drop_bit 29 (of_nat n :: 32 word) = of_nat (8 * n div 2 ^ 32)"
  by (rule unat_eqI, unfold unat_drop_bit unat_of_nat) simp

lemma bits_left: "unat (drop_bit 3 (of_nat (8 * n) :: 32 word) AND 0x3f) = n mod 64"
proof -
  have m: "(0x3f :: 32 word) = mask 6" by (simp add: mask_eq_decr_exp)
  have "(8 * n) mod (8 * 2 ^ 29) div 8 mod 64 = n mod 2 ^ 29 mod (64 :: nat)"
    by (simp only: mult_mod_right [symmetric]) simp
  also have "\<dots> = n mod 64" by (rule mod_mod_cancel) simp
  finally show ?thesis
    unfolding m unat_and_mask unat_drop_bit unat_of_nat by simp
qed

lemma rev_le4_bytes: "le4_bytes (byteReverse1 w) = rev (le4_bytes w)"
proof -
  obtain a b c d where "w = le4 a b c d" using le4_le4_bytes [of w] by metis
  then show ?thesis by (simp add: byteReverse1_le4)
qed

lemma shaHashData_spec:
  assumes "length msg < 2 ^ 31"
  shows "shaHashData msg = sha_spec msg"
proof -
  let ?n = "length msg"
  define s0 where "s0 = shaInit\<lparr>sha_countLo := of_nat (8 * ?n), sha_countHi := of_nat (8 * ?n div 2 ^ 32)\<rparr>"
  define s where "s = sha_update_loop msg ?n s0"
  have upd: "shaUpdate msg ?n shaInit = s"
    using bits_high [OF assms] bits_low [of ?n]
    by (simp add: shaUpdate_def Let_def s_def s0_def shaInit_def)
  have "length (sha_data s0) = 16" by (simp add: s0_def shaInit_def)
  from sha_update_loop_absorb [OF this, of msg] obtain bs where
    s: "sha_digest s = absorb (sha_digest s0) msg" "sha_countLo s = sha_countLo s0"
    "sha_countHi s = sha_countHi s0" "length bs = 64 - ?n mod 64"
    "sha_data s = le_words (left_over msg @ bs)"
    by (auto simp: s_def)
  have lo: "sha_countLo s = of_nat (8 * ?n)" and hi: "sha_countHi s = of_nat (8 * ?n div 2 ^ 32)"
    and dg: "sha_digest s0 = sha_digest shaInit"
    using s by (simp_all add: s0_def)
  have "sha_digest (shaFinal s) = byteReverse (foldl compress (sha_digest s)
      (blocks16 (be_words (left_over msg @ 0x80 # replicate (pad_zeros ?n) 0)
        @ [sha_countHi s, sha_countLo s])))"
    by (rule shaFinal_digest [OF s(5)])
      (simp_all only: length_left_over lo bits_left pad_zeros_def s(4) mod_less_divisor zero_less_numeral)
  also have "\<dots> = byteReverse (foldl compress (sha_digest shaInit) (blocks16 (sha_pad msg)))"
    unfolding sha_pad_def absorb_blocks [of "sha_digest shaInit"] s(1) dg lo hi ..
  finally show ?thesis
    unfolding shaHashData_def upd sha_spec_def
    by (simp add: le_bytes_def byteReverse_def rev_le4_bytes o_def)
qed

end
