(* ===== verification/Encode.thy ===== *)
theory Encode
  imports Sha
begin

text \<open>
  include/encode.h and include/cksum.h. The salted xor coding of the enounced server address and
  the printable checksum of a buffer. rand() is a parameter (the salt byte it yields). decode is
  shown to undo encode for every salt; the checksum, computed in place by a loop that overwrites
  the buffer it reads, is shown to be the digits of the salted digest, to be a C string of 32
  printable characters and to lose nothing of the digest.
\<close>

subsection \<open>encode.h\<close>

definition KEY_LEN :: nat where
  "KEY_LEN = 16"

definition keydata :: "byte list list" where
  "keydata =
    [[0xd2,0x8f,0xed,0x4f,0x20,0x28,0xb5,0x64,0x47,0x0d,0x25,0xb0,0x84,0x11,0x6e,0xad],
     [0x7c,0x50,0x4f,0x29,0x8b,0x61,0x06,0x9c,0xf9,0xfa,0xfb,0xd0,0xca,0x0b,0x14,0x39],
     [0x39,0xe3,0x6b,0xe0,0xf2,0x48,0x1f,0xd4,0x28,0xcb,0x52,0x3e,0x93,0x61,0x3d,0xec],
     [0xe0,0x3d,0xf8,0x17,0xa7,0xb6,0x3d,0xad,0x62,0x53,0xc8,0x82,0xcc,0xc8,0x4f,0x45],
     [0xfb,0xfa,0x58,0x77,0xf1,0x81,0x35,0x4d,0x77,0x91,0x7e,0x5e,0x86,0xe7,0x25,0x0d],
     [0x1a,0xd1,0xd0,0x01,0xcb,0x71,0x42,0x30,0x99,0x6a,0x6b,0xe8,0x66,0xd6,0x88,0x1d],
     [0x05,0x36,0xee,0x70,0x70,0x1e,0x8d,0x2f,0x55,0xad,0xaa,0x2c,0xdb,0x60,0x96,0xd7],
     [0x61,0x4f,0x4a,0x76,0x76,0xd4,0x82,0x68,0xcb,0x0b,0x57,0x33,0xb7,0x85,0xa5,0x63]]"

text \<open>The loop of xor_crypt: k runs through the key and wraps under the mask.\<close>

fun xor_loop :: "byte list \<Rightarrow> nat \<Rightarrow> byte list \<Rightarrow> byte list option" where
  "xor_loop key k [] = Some []"
| "xor_loop key k (b # bs) =
     (if k < length key
      then do { r \<leftarrow> xor_loop key ((k + 1) AND (KEY_LEN - 1)) bs; Some ((b XOR key ! k) # r) }
      else None)"

definition xor_crypt :: "byte list \<Rightarrow> nat \<Rightarrow> byte list option" where
  "xor_crypt data keyindex =
     (if keyindex < length keydata then xor_loop (keydata ! keyindex) 0 data else None)"

definition salt_to_key :: "byte \<Rightarrow> nat" where
  "salt_to_key salt = unat (drop_bit 3 salt AND (8 - 1))"

definition encode :: "byte \<Rightarrow> byte list \<Rightarrow> byte list option" where
  "encode salt data = do { r \<leftarrow> xor_crypt data (salt_to_key salt); Some (salt # r) }"

definition decode :: "byte list \<Rightarrow> byte list option" where
  "decode data =
     (case data of [] \<Rightarrow> None | salt # rest \<Rightarrow> xor_crypt rest (salt_to_key salt))"

lemma salt_to_key_bound: "salt_to_key s < length keydata"
proof -
  have "drop_bit 3 s AND (8 - 1) = take_bit 3 (drop_bit 3 s)"
    by (simp add: take_bit_eq_mask mask_eq_decr_exp)
  then have "unat (drop_bit 3 s AND (8 - 1)) = take_bit 3 (unat (drop_bit 3 s))"
    by (simp add: unsigned_take_bit_eq)
  also have "\<dots> < 2 ^ 3" by (rule take_bit_nat_less_exp)
  finally show ?thesis by (simp add: salt_to_key_def keydata_def)
qed

lemma keydata_row: "i < length keydata \<Longrightarrow> length (keydata ! i) = KEY_LEN"
proof -
  have "\<forall>r \<in> set keydata. length r = KEY_LEN" by (simp add: keydata_def KEY_LEN_def)
  then show "i < length keydata \<Longrightarrow> length (keydata ! i) = KEY_LEN" by simp
qed

lemma key_next_bound: "(k + 1) AND (KEY_LEN - 1) < KEY_LEN"
proof -
  have "(k + 1) AND (KEY_LEN - 1) = take_bit 4 (k + 1)"
    by (simp add: KEY_LEN_def take_bit_eq_mask mask_eq_exp_minus_1)
  also have "\<dots> < 2 ^ 4" by (rule take_bit_nat_less_exp)
  finally show ?thesis by (simp add: KEY_LEN_def)
qed

lemma xor_loop_twice:
  assumes "length key = KEY_LEN" and "k < KEY_LEN"
  shows "\<exists>r. xor_loop key k bs = Some r \<and> length r = length bs \<and> xor_loop key k r = Some bs"
  using assms(2)
proof (induction bs arbitrary: k)
  case Nil
  then show ?case by simp
next
  case (Cons b bs)
  let ?k = "(k + 1) AND (KEY_LEN - 1)"
  from Cons.IH [OF key_next_bound] obtain r where
    "xor_loop key ?k bs = Some r" "length r = length bs" "xor_loop key ?k r = Some bs" by blast
  with assms(1) Cons.prems show ?case
    by (simp add: xor.assoc)
qed

lemma xor_crypt_twice:
  assumes "i < length keydata"
  shows "\<exists>r. xor_crypt bs i = Some r \<and> length r = length bs \<and> xor_crypt r i = Some bs"
  using assms xor_loop_twice [OF keydata_row [OF assms], of 0 bs]
  by (simp add: xor_crypt_def KEY_LEN_def)

lemma decode_encode:
  "\<exists>out. encode salt msg = Some out \<and> length out = length msg + 1 \<and> decode out = Some msg"
  using xor_crypt_twice [OF salt_to_key_bound, of msg salt]
  by (auto simp: encode_def decode_def)

subsection \<open>cksum.h\<close>

definition cksum_digit :: "byte \<Rightarrow> byte" where
  "cksum_digit t = (if t < 0xa then 35 + t else 58 + (t - 0xa))"

definition i2a :: "byte \<Rightarrow> byte list" where
  "i2a i = [cksum_digit (drop_bit 4 i), cksum_digit (i mod 16)]"

definition cksum_salt :: "byte list" where
  "cksum_salt =
    [0x29, 0x55, 0xba, 0xb3, 0x9e, 0xbc, 0xe4, 0xf3,
     0x5b, 0x71, 0x12, 0x45, 0xe8, 0xc6, 0x6f, 0xd5]"

text \<open>The loop over i = 15, ..., 0 that writes two characters at sum + 2 * i.\<close>

definition i2a_at :: "nat \<Rightarrow> byte list \<Rightarrow> byte list" where
  "i2a_at i sm = (let a = i2a (sm ! i) in sm[2 * i := a ! 0, 2 * i + 1 := a ! 1])"

fun cksum_digits :: "nat \<Rightarrow> byte list \<Rightarrow> byte list" where
  "cksum_digits 0 sm = sm"
| "cksum_digits (Suc i) sm = cksum_digits i (i2a_at i sm)"

text \<open>The buffer sum must have room for the 33 bytes the function writes.\<close>

definition cksum :: "byte list \<Rightarrow> byte list \<Rightarrow> byte list option" where
  "cksum data sm =
     (if length sm < 33 then None
      else let s1 = shaHashData data @ drop 16 sm;
               ps = le_words (take 16 s1);
               pu = le_words cksum_salt;
               s2 = le_bytes (map2 (XOR) ps pu) @ drop 16 s1;
               s3 = cksum_digits 16 s2
           in Some (s3[32 := 0]))"

definition salted_digest :: "byte list \<Rightarrow> byte list" where
  "salted_digest data = map2 (XOR) (shaHashData data) cksum_salt"

lemma length_i2a [simp]: "length (i2a b) = 2"
  by (simp add: i2a_def)

lemma i2a_at_append:
  assumes "length pre = 2 * i" and "length post \<ge> 2"
  shows "i2a_at i (pre @ post) = pre @ i2a ((pre @ post) ! i) @ drop 2 post"
proof -
  obtain x y zs where "post = x # y # zs" using assms(2) by (metis Suc_le_length_iff numeral_2_eq_2)
  then show ?thesis using assms(1) by (simp add: i2a_at_def Let_def list_update_append i2a_def)
qed

text \<open>The loop only writes at or beyond the byte it has just read, so it digests the original.\<close>

lemma cksum_digits_spec:
  assumes "2 * n \<le> length sm"
  shows "cksum_digits n sm = concat (map i2a (take n sm)) @ drop (2 * n) sm"
  using assms
proof (induction n arbitrary: sm)
  case 0
  then show ?case by simp
next
  case (Suc n)
  let ?sm = "i2a_at n sm"
  have split: "sm = take (2 * n) sm @ drop (2 * n) sm" by simp
  have at: "?sm = take (2 * n) sm @ i2a (sm ! n) @ drop (2 * Suc n) sm"
    using i2a_at_append [of "take (2 * n) sm" n "drop (2 * n) sm"] Suc.prems by simp
  have "cksum_digits n ?sm = concat (map i2a (take n ?sm)) @ drop (2 * n) ?sm"
    by (rule Suc.IH) (use Suc.prems at in simp)
  moreover have "take n ?sm = take n sm" using at Suc.prems by simp
  moreover have "drop (2 * n) ?sm = i2a (sm ! n) @ drop (2 * Suc n) sm" using at Suc.prems by simp
  moreover have "take (Suc n) sm = take n sm @ [sm ! n]"
    using Suc.prems by (simp add: take_Suc_conv_app_nth)
  ultimately show ?case by simp
qed

lemma le4_xor: "le4 a b c d XOR le4 a' b' c' d' = le4 (a XOR a') (b XOR b') (c XOR c') (d XOR d')"
proof (rule bit_word_eqI)
  fix n
  assume "n < LENGTH(32)"
  then consider "n < 8" | "8 \<le> n \<and> n < 16" | "16 \<le> n \<and> n < 24" | "24 \<le> n \<and> n < 32" by fastforce
  then show "bit (le4 a b c d XOR le4 a' b' c' d') n
      \<longleftrightarrow> bit (le4 (a XOR a') (b XOR b') (c XOR c') (d XOR d')) n"
    by cases (auto simp: le4_def bit_simps dest: bit_imp_le_length)
qed

lemma le_words_short: "length bs < 4 \<Longrightarrow> le_words bs = []"
  by (cases bs rule: le_words.cases) auto

lemma le_words_xor:
  "length as = length bs \<Longrightarrow> map2 (XOR) (le_words as) (le_words bs) = le_words (map2 (XOR) as bs)"
proof (induction "length as" arbitrary: as bs rule: less_induct)
  case less
  show ?case
  proof (cases "length as < 4")
    case True
    then show ?thesis using less(2) by (simp add: le_words_short)
  next
    case False
    then have "Suc (Suc (Suc (Suc 0))) \<le> length as" "Suc (Suc (Suc (Suc 0))) \<le> length bs"
      using less(2) by simp_all
    then obtain a b c d as' a' b' c' d' bs' where
      eq: "as = a # b # c # d # as'" "bs = a' # b' # c' # d' # bs'"
      unfolding Suc_le_length_iff by blast
    then have "map2 (XOR) (le_words as') (le_words bs') = le_words (map2 (XOR) as' bs')"
      using less(1) [of as' bs'] less(2) by simp
    with eq show ?thesis by (simp add: le4_xor)
  qed
qed

lemma length_compress: "length (compress dg b) = 4"
  by (simp add: compress_def split: prod.splits)

lemma length_shaHashData: "length (shaHashData data) = 16"
  by (simp add: shaHashData_def shaFinal_def Let_def byteReverse_def sha_digest_transform length_compress)

lemma cksum_spec:
  assumes "length sm \<ge> 33"
  shows "cksum data sm = Some (concat (map i2a (salted_digest data)) @ 0 # drop 33 sm)"
proof -
  have len: "length (salted_digest data) = 16"
    by (simp add: salted_digest_def length_shaHashData cksum_salt_def)
  have x: "le_bytes (map2 (XOR) (le_words (shaHashData data)) (le_words cksum_salt)) = salted_digest data"
  proof -
    have "length (shaHashData data) = length cksum_salt"
      by (simp add: length_shaHashData cksum_salt_def)
    from le_words_xor [OF this] show ?thesis
      using len by (simp add: le_bytes_words salted_digest_def)
  qed
  have "cksum_digits 16 (salted_digest data @ drop 16 sm)
      = concat (map i2a (salted_digest data)) @ drop 32 sm"
    using assms len by (simp add: cksum_digits_spec)
  moreover have "length (concat (map i2a (salted_digest data))) = 32"
    using len by (simp add: length_concat o_def sum_list_triv)
  moreover have "drop 32 sm \<noteq> []" "tl (drop 32 sm) = drop 33 sm"
    using assms by (auto simp: tl_drop drop_Suc [symmetric] simp flip: drop_Suc)
  ultimately show ?thesis
    using assms x by (simp add: cksum_def Let_def length_shaHashData set_at_length)
qed

lemma unat_cksum_digit:
  assumes "unat t < 16"
  shows "unat (cksum_digit t) = (if unat t < 10 then 35 + unat t else 48 + unat t)"
proof (cases "unat t < 10")
  case True
  then show ?thesis by (simp add: cksum_digit_def word_less_nat_alt unat_word_ariths)
next
  case False
  then have "0xa \<le> t" by (simp add: word_le_nat_alt)
  then have "unat (t - 0xa) = unat t - 10" by (simp add: unat_sub)
  with False assms show ?thesis by (simp add: cksum_digit_def word_less_nat_alt unat_word_ariths)
qed

lemma unat_nibbles: "unat (drop_bit 4 (i :: byte)) = unat i div 16" "unat (i mod 16) = unat i mod 16"
proof -
  show "unat (drop_bit 4 i) = unat i div 16"
    unfolding unsigned_drop_bit_eq using unsigned_less [of i, where 'a = nat]
    by (simp add: drop_bit_eq_div take_bit_nat_eq_self)
  show "unat (i mod 16) = unat i mod 16" by (simp add: unat_mod)
qed

lemma nibble_bound: "unat (i :: byte) div 16 < 16"
  using unsigned_less [of i, where 'a = nat] by simp

text \<open>The two digits as natural numbers.\<close>

lemma unat_i2a:
  "map unat (i2a i) =
     map (\<lambda>t. if t < 10 then 35 + t else 48 + t) [unat i div 16, unat i mod 16]"
proof -
  have "unat (cksum_digit h) = (if unat i div 16 < 10 then 35 + unat i div 16 else 48 + unat i div 16)"
    if "h = drop_bit 4 i" for h
    using unat_cksum_digit [of h] nibble_bound [of i] by (simp only: that unat_nibbles)
  moreover have "unat (cksum_digit (i mod 16))
      = (if unat i mod 16 < 10 then 35 + unat i mod 16 else 48 + unat i mod 16)"
    using unat_cksum_digit [of "i mod 16"] mod_less_divisor [of 16 "unat i"] by (simp only: unat_nibbles)
  ultimately show ?thesis by (simp only: i2a_def list.map refl)
qed

lemma i2a_range: "c \<in> set (i2a i) \<Longrightarrow> 35 \<le> unat c \<and> unat c \<le> 63"
proof -
  assume "c \<in> set (i2a i)"
  then have "unat c \<in> set (map unat (i2a i))" by simp
  moreover have "unat i mod 16 < 16" by simp
  ultimately show ?thesis
    unfolding unat_i2a using nibble_bound [of i] by (auto split: if_splits)
qed

lemma digit_nat_inj:
  "(if s < 10 then 35 + s else 48 + s) = (if t < 10 then 35 + t else 48 + t) \<Longrightarrow> s = (t :: nat)"
  by (auto split: if_splits)

lemma i2a_inj: "i2a a = i2a b \<Longrightarrow> a = b"
proof -
  assume "i2a a = i2a b"
  then have "map unat (i2a a) = map unat (i2a b)" by simp
  then have "unat a div 16 = unat b div 16" "unat a mod 16 = unat b mod 16"
    unfolding unat_i2a list.map list.inject by (blast intro: digit_nat_inj)+
  then have "unat a = unat b" by (metis div_mult_mod_eq)
  then show "a = b" by (rule unsigned_word_eqI)
qed

lemma concat_i2a_inj: "concat (map i2a xs) = concat (map i2a ys) \<Longrightarrow> xs = ys"
proof (induction xs arbitrary: ys)
  case Nil
  then show ?case by (cases ys) (auto simp: i2a_def)
next
  case (Cons x xs)
  then obtain y ys' where ys: "ys = y # ys'" by (cases ys) (auto simp: i2a_def)
  with Cons.prems have "i2a x = i2a y" "concat (map i2a xs) = concat (map i2a ys')"
    by (auto simp: append_eq_append_conv)
  with Cons.IH ys i2a_inj show ?case by blast
qed

lemma xor_list_inj:
  "length as = length cs \<Longrightarrow> length bs = length cs \<Longrightarrow>
    map2 (XOR) as cs = map2 (XOR) bs (cs :: byte list) \<Longrightarrow> as = bs"
proof (induction cs arbitrary: as bs)
  case Nil
  then show ?case by simp
next
  case (Cons c cs)
  then obtain a as' b bs' where "as = a # as'" "bs = b # bs'" by (auto simp: length_Suc_conv)
  moreover from this have "a = b"
    using Cons.prems(3) by simp (metis xor.assoc xor.right_neutral xor_self_eq)
  ultimately show ?case using Cons by simp
qed

lemma salted_digest_inj: "salted_digest a = salted_digest b \<Longrightarrow> shaHashData a = shaHashData b"
  unfolding salted_digest_def
  by (rule xor_list_inj) (simp_all add: length_shaHashData cksum_salt_def)

end
