(* ===== verification/Cstr.thy ===== *)
theory Cstr
  imports Prelude
begin

text \<open>
  The C string operations of the command code on HOL strings: printf "%d", atoi, strtok, the
  FOREACH_ID walk over a comma separated list (serv/cmd_handler.h) and the list building macros
  of serv/strutil.h and serv/cmd_handler.h. Numbers are printed and read back unchanged, and so
  are lists of numbers.
\<close>

subsection \<open>Numbers\<close>

definition digit_char :: "nat \<Rightarrow> char" where
  "digit_char n = char_of (48 + n)"

definition is_digit :: "char \<Rightarrow> bool" where
  "is_digit c \<longleftrightarrow> 48 \<le> (of_char c :: nat) \<and> (of_char c :: nat) \<le> 57"

definition digit_val :: "char \<Rightarrow> nat" where
  "digit_val c = of_char c - 48"

fun digits :: "nat \<Rightarrow> string" where
  "digits n = (if n < 10 then [digit_char n] else digits (n div 10) @ [digit_char (n mod 10)])"

declare digits.simps [simp del]

definition num_str :: "int \<Rightarrow> string" where
  "num_str i = (if i < 0 then CHR ''-'' # digits (nat (- i)) else digits (nat i))"

definition is_space :: "char \<Rightarrow> bool" where
  "is_space c \<longleftrightarrow> c = CHR '' '' \<or> (9 \<le> (of_char c :: nat) \<and> (of_char c :: nat) \<le> 13)"

fun read_digits :: "nat \<Rightarrow> string \<Rightarrow> nat" where
  "read_digits acc [] = acc"
| "read_digits acc (c # cs) = (if is_digit c then read_digits (10 * acc + digit_val c) cs else acc)"

definition atoi :: "string \<Rightarrow> int" where
  "atoi s =
     (case dropWhile is_space s of
        [] \<Rightarrow> 0
      | c # cs \<Rightarrow>
          if c = CHR ''-'' then - int (read_digits 0 cs)
          else if c = CHR ''+'' then int (read_digits 0 cs)
          else int (read_digits 0 (c # cs)))"

lemma of_char_digit: "n < 10 \<Longrightarrow> (of_char (digit_char n) :: nat) = 48 + n"
  by (simp add: digit_char_def of_char_of)

lemma is_digit_char [simp]: "n < 10 \<Longrightarrow> is_digit (digit_char n)"
  by (simp add: is_digit_def of_char_digit)

lemma digit_val_char [simp]: "n < 10 \<Longrightarrow> digit_val (digit_char n) = n"
  by (simp add: digit_val_def of_char_digit)

lemma digits_all: "c \<in> set (digits n) \<Longrightarrow> is_digit c"
  by (induction n rule: digits.induct) (subst (asm) (2) digits.simps, auto split: if_splits)

lemma digits_nonempty: "digits n \<noteq> []"
  by (subst digits.simps) auto

lemma read_digits_append:
  "\<forall>c \<in> set ds. is_digit c \<Longrightarrow> read_digits acc (ds @ cs) = read_digits (read_digits acc ds) cs"
  by (induction ds arbitrary: acc) auto

lemma read_digits_stop:
  "cs = [] \<or> \<not> is_digit (hd cs) \<Longrightarrow> read_digits acc cs = acc"
  by (cases cs) auto

lemma read_digits_digits: "read_digits 0 (digits n) = n"
proof (induction n rule: digits.induct)
  case (1 n)
  show ?case
  proof (cases "n < 10")
    case True
    then show ?thesis by (simp add: digits.simps [of n])
  next
    case False
    then have "digits n = digits (n div 10) @ [digit_char (n mod 10)]" by (simp add: digits.simps [of n])
    then show ?thesis
      using 1 [OF False] by (simp add: read_digits_append digits_all)
  qed
qed

lemma digit_not_special: "is_digit c \<Longrightarrow> \<not> is_space c \<and> c \<noteq> CHR ''-'' \<and> c \<noteq> CHR ''+'' \<and> c \<noteq> CHR '',''"
  by (auto simp: is_digit_def is_space_def)

text \<open>Whatever follows the number, as long as it is not a digit, is not read.\<close>

lemma atoi_num_str_append:
  assumes "cs = [] \<or> \<not> is_digit (hd cs)"
  shows "atoi (num_str i @ cs) = i"
proof -
  have read: "read_digits 0 (digits n @ cs) = n" for n
    using read_digits_append [of "digits n" 0 cs] digits_all read_digits_stop [OF assms]
    by (simp add: read_digits_digits)
  obtain d ds where d: "digits n = d # ds" "is_digit d" if "n = nat i" for n
    using digits_nonempty digits_all by (metis list.set_intros(1) neq_Nil_conv)
  show ?thesis
  proof (cases "i < 0")
    case True
    then show ?thesis using read [of "nat (- i)"] by (simp add: num_str_def atoi_def is_space_def)
  next
    case False
    then show ?thesis
      using d [OF refl] digit_not_special [of d] read [of "nat i"]
      by (simp add: num_str_def atoi_def)
  qed
qed

lemma atoi_num_str: "atoi (num_str i) = i"
  using atoi_num_str_append [of "[]" i] by simp

lemma num_str_inj: "num_str i = num_str j \<longleftrightarrow> i = j"
  using atoi_num_str by metis

lemma num_str_no_comma: "CHR '','' \<notin> set (num_str i)"
proof -
  have "\<not> is_digit (CHR '','')" by (simp add: is_digit_def)
  then have "CHR '','' \<notin> set (digits n)" for n using digits_all by blast
  then show ?thesis by (simp add: num_str_def)
qed

lemma num_str_nonempty: "num_str i \<noteq> []"
  by (simp add: num_str_def digits_nonempty)

lemma length_digits: "n < 10 ^ Suc k \<Longrightarrow> length (digits n) \<le> Suc k"
proof (induction k arbitrary: n)
  case (Suc k)
  show ?case
  proof (cases "n < 10")
    case True
    then show ?thesis by (subst digits.simps) simp
  next
    case False
    have "n div 10 < 10 ^ Suc k" using Suc.prems by (simp add: less_mult_imp_div_less mult.commute)
    then have "length (digits (n div 10)) \<le> Suc k" by (rule Suc.IH)
    then show ?thesis using False by (subst digits.simps) simp
  qed
qed (subst digits.simps, simp)

lemma length_digits_small: "n < 10000 \<Longrightarrow> length (digits n) \<le> 4"
  using length_digits [of n 3] by simp

lemma length_num_str_int:
  assumes "abs n < 2 ^ 31"
  shows "length (num_str n) \<le> 11"
proof -
  have "length (digits (nat (abs n))) \<le> 10" using length_digits [of "nat (abs n)" 9] assms by simp
  then show ?thesis by (auto simp: num_str_def abs_if split: if_splits)
qed

lemma length_num_str_small: "0 \<le> n \<Longrightarrow> n < 10000 \<Longrightarrow> length (num_str n) \<le> 4"
  using length_digits_small [of "nat n"] by (simp add: num_str_def)

subsection \<open>Tokens and lists\<close>

text \<open>strtok with a set of delimiters: the nonempty pieces between them.\<close>

fun strtok :: "(char \<Rightarrow> bool) \<Rightarrow> string \<Rightarrow> string \<Rightarrow> string list" where
  "strtok sep acc [] = (if acc = [] then [] else [rev acc])"
| "strtok sep acc (c # cs) =
     (if sep c then (if acc = [] then strtok sep [] cs else rev acc # strtok sep [] cs)
      else strtok sep (c # acc) cs)"

definition tokens :: "(char \<Rightarrow> bool) \<Rightarrow> string \<Rightarrow> string list" where
  "tokens sep s = strtok sep [] s"

text \<open>
  FOREACH_ID: p is the list, then the character after each comma in turn, until strchr finds
  none. The body reads atoi(p), which stops at the next comma.
\<close>

fun after_comma :: "string \<Rightarrow> string option" where
  "after_comma [] = None"
| "after_comma (c # cs) = (if c = CHR '','' then Some cs else after_comma cs)"

lemma after_comma_length: "after_comma s = Some r \<Longrightarrow> length r < length s"
  by (induction s) (auto split: if_splits)

function id_list :: "string \<Rightarrow> int list" where
  "id_list p = atoi p # (case after_comma p of None \<Rightarrow> [] | Some r \<Rightarrow> id_list r)"
  by auto
termination by (relation "measure length") (auto simp: after_comma_length)

declare id_list.simps [simp del]

text \<open>LIST_ADD and LIST_ADD_NUM: a comma only in front of what is not the first entry.\<close>

definition sep_add :: "string \<Rightarrow> string \<Rightarrow> string \<Rightarrow> string" where
  "sep_add sep s x = (if s = [] then x else s @ sep @ x)"

definition list_add_str :: "string \<Rightarrow> string \<Rightarrow> string" where
  "list_add_str s x = sep_add '','' s x"

definition list_add_num :: "string \<Rightarrow> int \<Rightarrow> string" where
  "list_add_num s n = list_add_str s (num_str n)"

text \<open>MAKE_STRLIST and list_TO_NUMLIST start from the empty buffer.\<close>

definition make_strlist :: "string list \<Rightarrow> string" where
  "make_strlist xs = foldl list_add_str [] xs"

definition num_list :: "int list \<Rightarrow> string" where
  "num_list ns = foldl list_add_num [] ns"

text \<open>ARRAY_TO_NUMLIST leaves "0" in the buffer when there is nothing to list.\<close>

definition array_num_list :: "int list \<Rightarrow> string" where
  "array_num_list ns = (if ns = [] then ''0'' else num_list ns)"

lemma after_comma_skip: "CHR '','' \<notin> set s \<Longrightarrow> after_comma (s @ r) = after_comma r"
  by (induction s) auto

lemma num_list_snoc: "num_list (ns @ [n]) = list_add_num (num_list ns) n"
  by (simp add: num_list_def)

lemma foldl_list_add_num:
  "s \<noteq> [] \<Longrightarrow> foldl list_add_num s ns = s @ concat (map (\<lambda>n. CHR '','' # num_str n) ns)"
  by (induction ns arbitrary: s) (auto simp: list_add_num_def list_add_str_def sep_add_def)

lemma num_list_Cons:
  "num_list (n # ns) = num_str n @ concat (map (\<lambda>n. CHR '','' # num_str n) ns)"
  using foldl_list_add_num [OF num_str_nonempty, of n ns]
  by (simp add: num_list_def list_add_num_def list_add_str_def sep_add_def)

lemma num_list_Nil_iff: "num_list ns = [] \<longleftrightarrow> ns = []"
proof (cases ns)
  case Nil
  then show ?thesis by (simp add: num_list_def)
next
  case (Cons n ns)
  then show ?thesis by (simp add: num_list_Cons num_str_nonempty)
qed

lemma id_list_num_list_Cons: "id_list (num_list (n # ns)) = n # ns"
proof (induction ns arbitrary: n)
  case Nil
  then show ?case
    using after_comma_skip [OF num_str_no_comma, of n "[]"]
    by (simp add: num_list_Cons id_list.simps atoi_num_str)
next
  case (Cons m ns)
  have eq: "num_list (n # m # ns) = num_str n @ CHR '','' # num_list (m # ns)"
    by (simp add: num_list_Cons)
  have "atoi (num_list (n # m # ns)) = n"
    unfolding eq by (rule atoi_num_str_append) (simp add: is_digit_def)
  moreover have "after_comma (num_list (n # m # ns)) = Some (num_list (m # ns))"
    unfolding eq using after_comma_skip [OF num_str_no_comma, of n "CHR '','' # num_list (m # ns)"] by simp
  ultimately show ?case using Cons.IH [of m] by (simp add: id_list.simps [of "num_list (n # m # ns)"])
qed

end
