(* ===== verification/Cmd.thy ===== *)
theory Cmd
  imports Cstr
begin

text \<open>
  cmd/cmd.h, cmd/cmderr.h and the reply macros of serv/cmd_handler.h: a command line is cut into
  the id of its sender, the command name and the arguments; a handler appends to the reply
  buffer, whose initial content is the command itself. The reply buffer is a string and rl its
  length. parse_cmd is a partial function: strcmp on the missing first token and more than 31
  arguments are faults. The reply formats are shown to be read back by parse_cmd.
\<close>

subsection \<open>Error codes\<close>

definition ERR_PARSE :: int where "ERR_PARSE = 1"
definition ERR_BAD_CMD :: int where "ERR_BAD_CMD = 2"
definition ERR_NOT_REG :: int where "ERR_NOT_REG = 3"
definition ERR_REJECTED :: int where "ERR_REJECTED = 4"
definition ERR_INVL_ARG :: int where "ERR_INVL_ARG = 5"
definition ERR_OTHER :: int where "ERR_OTHER = 6"
definition ERR_REGIST_ALREADY :: int where "ERR_REGIST_ALREADY = 0x101"
definition ERR_DEV_DISABLED :: int where "ERR_DEV_DISABLED = 0x201"

lemmas err_defs = ERR_PARSE_def ERR_BAD_CMD_def ERR_NOT_REG_def ERR_REJECTED_def ERR_INVL_ARG_def
  ERR_OTHER_def ERR_REGIST_ALREADY_def ERR_DEV_DISABLED_def

subsection \<open>The command record\<close>

record cmd =
  c_dev :: int
  c_cmd :: string
  c_args :: "string list"
  c_addr :: "int \<times> int" \<comment> \<open>saddr: IPv4 address and port of the sender\<close>
  c_rep :: string
  c_sock :: int \<comment> \<open>set to 0 by a handler that keeps the socket\<close>

definition cmd_sep :: "char \<Rightarrow> bool" where
  "cmd_sep c \<longleftrightarrow> c = CHR '' '' \<or> c = CHR 0x0D \<or> c = CHR 0x0A"

text \<open>
  The result is the code parse_cmd returns, with the command when it is 0. args has 32 entries
  and the loop also stores the final NULL.
\<close>

definition parse_cmd :: "string \<Rightarrow> cmd \<Rightarrow> (int \<times> cmd) option" where
  "parse_cmd line c =
     (case tokens cmd_sep line of
        [] \<Rightarrow> None
      | p # rest \<Rightarrow>
          (let err = (p = ''FAIL'');
               c1 = (if err then c else c\<lparr>c_dev := atoi p\<rparr>)
           in case rest of
                [] \<Rightarrow> Some (ERR_PARSE, c1)
              | q # args \<Rightarrow>
                  if err then Some (atoi q, c1)
                  else if length args \<ge> 32 then None
                  else Some (0, c1\<lparr>c_cmd := q, c_args := args\<rparr>)))"

subsection \<open>Reply macros\<close>

definition REP_ADD :: "string \<Rightarrow> cmd \<Rightarrow> cmd" where
  "REP_ADD x c = c\<lparr>c_rep := c_rep c @ '' '' @ x\<rparr>"

definition REP_ADD_NUM :: "int \<Rightarrow> cmd \<Rightarrow> cmd" where
  "REP_ADD_NUM n c = REP_ADD (num_str n) c"

definition newline :: string where
  "newline = [CHR 0x0A]"

definition REP_END :: "cmd \<Rightarrow> cmd" where
  "REP_END c = c\<lparr>c_rep := c_rep c @ newline\<rparr>"

definition REP_OK :: "cmd \<Rightarrow> cmd" where
  "REP_OK c = c\<lparr>c_rep := c_rep c @ '' OK'' @ newline\<rparr>"

text \<open>cmd->rl -- takes back the end of line that REP_END added.\<close>

definition REP_UNEND :: "cmd \<Rightarrow> cmd" where
  "REP_UNEND c = c\<lparr>c_rep := butlast (c_rep c)\<rparr>"

lemmas rep_defs = REP_ADD_def REP_ADD_NUM_def REP_END_def REP_OK_def REP_UNEND_def newline_def

lemma rep_frame [simp]:
  "c_args (REP_ADD x c) = c_args c" "c_dev (REP_ADD x c) = c_dev c"
  "c_args (REP_ADD_NUM n c) = c_args c" "c_dev (REP_ADD_NUM n c) = c_dev c"
  "c_args (REP_END c) = c_args c" "c_dev (REP_END c) = c_dev c"
  "c_args (REP_OK c) = c_args c" "c_dev (REP_OK c) = c_dev c"
  "c_args (REP_UNEND c) = c_args c" "c_dev (REP_UNEND c) = c_dev c"
  by (simp_all add: rep_defs)

lemma REP_UNEND_END: "REP_UNEND (REP_END c) = c"
  by (simp add: rep_defs)

subsection \<open>Reading back\<close>

lemma strtok_piece:
  assumes "\<forall>c \<in> set w. \<not> sep c" and "sep d" and "acc \<noteq> [] \<or> w \<noteq> []"
  shows "strtok sep acc (w @ d # r) = (rev acc @ w) # strtok sep [] r"
  using assms by (induction w arbitrary: acc) auto

lemma tokens_piece:
  "w \<noteq> [] \<Longrightarrow> \<forall>c \<in> set w. \<not> sep c \<Longrightarrow> sep d \<Longrightarrow> tokens sep (w @ d # r) = w # tokens sep r"
  using strtok_piece [of w sep d "[]" r] by (simp add: tokens_def)

lemma tokens_Nil: "tokens sep [] = []"
  by (simp add: tokens_def)

text \<open>Words joined by blanks and ended by a newline.\<close>

definition cmd_line :: "string list \<Rightarrow> string" where
  "cmd_line ws = concat (map (\<lambda>w. w @ '' '') (butlast ws)) @ last ws @ newline"

definition is_word :: "string \<Rightarrow> bool" where
  "is_word w \<longleftrightarrow> w \<noteq> [] \<and> (\<forall>c \<in> set w. \<not> cmd_sep c)"

lemma tokens_cmd_line:
  "ws \<noteq> [] \<Longrightarrow> \<forall>w \<in> set ws. is_word w \<Longrightarrow> tokens cmd_sep (cmd_line ws) = ws"
proof (induction ws rule: list_nonempty_induct)
  case (single w)
  have "cmd_sep (CHR 0x0A)" by (simp add: cmd_sep_def)
  with single show ?case
    using tokens_piece [of w cmd_sep "CHR 0x0A" "[]"]
    by (simp add: cmd_line_def newline_def is_word_def tokens_Nil)
next
  case (cons w ws)
  then have "tokens cmd_sep (w @ CHR '' '' # cmd_line ws) = w # tokens cmd_sep (cmd_line ws)"
    by (intro tokens_piece) (auto simp: is_word_def cmd_sep_def)
  with cons show ?case by (simp add: cmd_line_def)
qed

lemma digit_not_sep: "is_digit c \<Longrightarrow> \<not> cmd_sep c"
  by (auto simp: is_digit_def cmd_sep_def)

lemma is_word_num_str: "is_word (num_str i)"
  using digits_all digit_not_sep
  by (auto simp: is_word_def num_str_def digits_nonempty cmd_sep_def)

lemma num_str_not_FAIL: "num_str i \<noteq> ''FAIL''"
proof -
  have "\<not> is_digit (CHR ''F'')" by (simp add: is_digit_def)
  then have "digits n \<noteq> ''FAIL''" for n using digits_all [of "CHR ''F''" n] by auto
  then show ?thesis by (simp add: num_str_def)
qed

lemma parse_cmd_line:
  assumes "is_word name" and "\<forall>w \<in> set args. is_word w" and "length args < 32"
  shows "parse_cmd (cmd_line (num_str i # name # args)) c
    = Some (0, c\<lparr>c_dev := i, c_cmd := name, c_args := args\<rparr>)"
  using assms tokens_cmd_line [of "num_str i # name # args"]
  by (simp add: parse_cmd_def is_word_num_str num_str_not_FAIL atoi_num_str Let_def)

end
