(* ===== verification/Pcm.thy ===== *)
theory Pcm
  imports Prelude
begin

text \<open>
  serv/pcm.c: mixing up to eight buffers of 16-bit samples into the first one with saturation,
  and the detection of silence. Samples are 16 word read as signed; the accumulators are C ints,
  which eight 16-bit samples cannot overflow. Reading beyond a buffer is a fault.
\<close>

type_synonym sample = "16 word"

definition saturate :: "int \<Rightarrow> int" where
  "saturate mix =
     (let zero = 2 ^ 15
      in if mix > zero - 1 then zero - 1 else if mix < - zero then - zero else mix)"

text \<open>The inner loop over the buffers, at sample i.\<close>

fun mix_sum :: "sample list list \<Rightarrow> nat \<Rightarrow> int \<Rightarrow> int option" where
  "mix_sum [] i mix = Some mix"
| "mix_sum (b # bs) i mix = (if i < length b then mix_sum bs i (mix + sint (b ! i)) else None)"

text \<open>The outer loop writes buf0[i] after all buffers have been read at i.\<close>

fun pcm_mix_from :: "nat \<Rightarrow> nat \<Rightarrow> sample list list \<Rightarrow> sample list \<Rightarrow> sample list option" where
  "pcm_mix_from i 0 bufs buf0 = Some buf0"
| "pcm_mix_from i (Suc n) bufs buf0 =
     do { mix \<leftarrow> mix_sum bufs i 0;
          pcm_mix_from (Suc i) n bufs (buf0[i := word_of_int (saturate mix)]) }"

definition pcm_mix :: "sample list list \<Rightarrow> nat \<Rightarrow> sample list option" where
  "pcm_mix bufs samples =
     (case bufs of [] \<Rightarrow> None
      | b # bs \<Rightarrow> if length bufs \<le> 8 then pcm_mix_from 0 samples bufs b else None)"

fun pcm_silent_from :: "nat \<Rightarrow> nat \<Rightarrow> sample list \<Rightarrow> int \<Rightarrow> int \<Rightarrow> int option" where
  "pcm_silent_from i 0 pcm e thr = Some 1"
| "pcm_silent_from i (Suc n) pcm e thr =
     (if i < length pcm
      then (let e' = e + \<bar>sint (pcm ! i)\<bar>
            in if e' > thr then Some 0 else pcm_silent_from (Suc i) n pcm e' thr)
      else None)"

definition pcm_silent :: "sample list \<Rightarrow> nat \<Rightarrow> int \<Rightarrow> int option" where
  "pcm_silent buf len thr = pcm_silent_from 0 (len div 2) buf 0 thr"

subsection \<open>What they compute\<close>

definition sample_sum :: "sample list list \<Rightarrow> nat \<Rightarrow> int" where
  "sample_sum bufs i = (\<Sum>b \<leftarrow> bufs. sint (b ! i))"

lemma mix_sum_ok:
  "\<forall>b \<in> set bufs. i < length b \<Longrightarrow> mix_sum bufs i m = Some (m + sample_sum bufs i)"
  by (induction bufs arbitrary: m) (auto simp: sample_sum_def)

lemma saturate_range: "- 32768 \<le> saturate m \<and> saturate m \<le> 32767"
  by (simp add: saturate_def Let_def)

lemma sint_saturate: "sint (word_of_int (saturate m) :: sample) = saturate m"
  using saturate_range [of m] by (simp add: signed_of_int signed_take_bit_int_eq_self)

lemma pcm_mix_from_ok:
  assumes "\<forall>b \<in> set bufs. i + n \<le> length b" and "i + n \<le> length buf0"
  shows "\<exists>out. pcm_mix_from i n bufs buf0 = Some out \<and> length out = length buf0
    \<and> (\<forall>j < length buf0. out ! j =
         (if i \<le> j \<and> j < i + n then word_of_int (saturate (sample_sum bufs j)) else buf0 ! j))"
  using assms
proof (induction n arbitrary: i buf0)
  case 0
  then show ?case by auto
next
  case (Suc n)
  let ?b = "buf0[i := word_of_int (saturate (sample_sum bufs i))]"
  have "mix_sum bufs i 0 = Some (sample_sum bufs i)"
    using mix_sum_ok [of bufs i 0] Suc.prems by fastforce
  moreover obtain out where out: "pcm_mix_from (Suc i) n bufs ?b = Some out" "length out = length buf0"
    "\<forall>j < length buf0. out ! j =
       (if Suc i \<le> j \<and> j < Suc i + n then word_of_int (saturate (sample_sum bufs j)) else ?b ! j)"
    using Suc.IH [of "Suc i" ?b] Suc.prems by auto
  moreover have "out ! j = (if i \<le> j \<and> j < i + Suc n then word_of_int (saturate (sample_sum bufs j))
      else buf0 ! j)" if "j < length buf0" for j
    using out(3) that by (cases "j = i") auto
  ultimately show ?case by simp
qed

lemma pcm_mix_ok:
  assumes "bufs = b # bs" and "length bufs \<le> 8" and "\<forall>c \<in> set bufs. n \<le> length c"
  shows "\<exists>out. pcm_mix bufs n = Some out \<and> length out = length b
    \<and> (\<forall>j < length b. out ! j = (if j < n then word_of_int (saturate (sample_sum bufs j)) else b ! j))"
  using pcm_mix_from_ok [of bufs 0 n b] assms by (simp add: pcm_mix_def)

definition energy :: "sample list \<Rightarrow> int" where
  "energy pcm = (\<Sum>x \<leftarrow> pcm. \<bar>sint x\<bar>)"

lemma energy_nonneg: "0 \<le> energy xs"
  by (induction xs) (auto simp: energy_def)

lemma pcm_silent_from_ok:
  assumes "i + n \<le> length pcm" and "e \<le> thr"
  shows "pcm_silent_from i n pcm e thr
    = Some (if e + energy (take n (drop i pcm)) \<le> thr then 1 else 0)"
  using assms
proof (induction n arbitrary: i e)
  case 0
  then show ?case by (simp add: energy_def)
next
  case (Suc n)
  let ?e = "e + \<bar>sint (pcm ! i)\<bar>"
  have split: "energy (take (Suc n) (drop i pcm)) = \<bar>sint (pcm ! i)\<bar> + energy (take n (drop (Suc i) pcm))"
    using Suc.prems by (simp add: energy_def flip: Cons_nth_drop_Suc)
  show ?case
  proof (cases "?e > thr")
    case True
    then show ?thesis
      using Suc.prems energy_nonneg [of "take n (drop (Suc i) pcm)"] by (simp add: split Let_def)
  next
    case False
    then show ?thesis using Suc.IH [of "Suc i" ?e] Suc.prems by (simp add: split Let_def add.assoc)
  qed
qed

lemma pcm_silent_ok:
  assumes "len div 2 \<le> length buf" and "0 \<le> thr"
  shows "pcm_silent buf len thr = Some (if energy (take (len div 2) buf) \<le> thr then 1 else 0)"
  using pcm_silent_from_ok [of 0 "len div 2" buf 0 thr] assms by (simp add: pcm_silent_def)

text \<open>The mixed buffer is never louder than a sample can be, and one loud sample in silence is kept.\<close>

lemma saturate_id: "- 32768 \<le> m \<Longrightarrow> m \<le> 32767 \<Longrightarrow> saturate m = m"
  by (simp add: saturate_def)

lemma saturate_mono: "m \<le> n \<Longrightarrow> saturate m \<le> saturate n"
  by (simp add: saturate_def Let_def)

end
