(* ===== verification/Foundation_Props.thy ===== *)
theory Foundation_Props
  imports Queue Cfifo Hash Encode Cmd Pcm
begin

text \<open>
  The properties of the building blocks: lists, queues, the circular fifo, the hash table, the
  digest, the packet encoding, the command syntax and the sample mixer. The data structures are
  stated as trace refinements: whatever sequence of operations a user runs, the linked structure
  answers like the abstract list.
\<close>

subsection \<open>Lists\<close>

datatype 'n list_op = Push 'n | Snoc 'n | Unlink 'n | Front 'n

fun list_op_run :: "'n \<Rightarrow> 'n list_op \<Rightarrow> 'n lheap \<Rightarrow> 'n lheap option" where
  "list_op_run l (Push n) h = list_add n l h"
| "list_op_run l (Snoc n) h = list_add_tail n l h"
| "list_op_run l (Unlink n) h = list_del n h"
| "list_op_run l (Front n) h = list_move n l h"

fun list_op_abs :: "'n list_op \<Rightarrow> 'n list \<Rightarrow> 'n list" where
  "list_op_abs (Push n) xs = n # xs"
| "list_op_abs (Snoc n) xs = xs @ [n]"
| "list_op_abs (Unlink n) xs = remove1 n xs"
| "list_op_abs (Front n) xs = n # remove1 n xs"

fun list_ops_ok :: "'n \<Rightarrow> 'n list_op list \<Rightarrow> 'n list \<Rightarrow> bool" where
  "list_ops_ok l [] xs \<longleftrightarrow> True"
| "list_ops_ok l (p # ps) xs \<longleftrightarrow>
     (case p of Push n \<Rightarrow> n \<notin> insert l (set xs) | Snoc n \<Rightarrow> n \<notin> insert l (set xs)
      | Unlink n \<Rightarrow> n \<in> set xs | Front n \<Rightarrow> n \<in> set xs)
     \<and> list_ops_ok l ps (list_op_abs p xs)"

lemma list_ops_dlist:
  "dlist h l xs \<Longrightarrow> list_ops_ok l ps xs \<Longrightarrow>
    \<exists>h'. foldM (list_op_run l) ps h = Some h' \<and> dlist h' l (fold list_op_abs ps xs)"
proof (induction ps arbitrary: h xs)
  case Nil
  then show ?case by simp
next
  case (Cons p ps)
  have "\<exists>h1. list_op_run l p h = Some h1 \<and> dlist h1 l (list_op_abs p xs)"
    using Cons.prems ll.push_ok [of h l xs] ll.snoc_ok [of h l xs] ll.del_ok [of h l xs]
      list_move_same [of h l xs]
    by (cases p) (simp_all, blast+)
  then obtain h1 where h1: "list_op_run l p h = Some h1" "dlist h1 l (list_op_abs p xs)" by auto
  from Cons.IH [OF h1(2)] Cons.prems(2) h1(1) show ?case by simp
qed

text \<open>
  Starting from an empty list, any sequence of the list.h operations that links only nodes not
  on the list and unlinks or moves only nodes on it succeeds, and walking the list afterwards,
  forwards or backwards, visits exactly the nodes of the abstract list, in order.
\<close>

theorem list_ops_refine_list:
  assumes "list_ops_ok l ps []"
  shows "\<exists>h'. foldM (list_op_run l) ps (init_list_head l h) = Some h'
    \<and> list_for_each h' l = Some (fold list_op_abs ps [])
    \<and> list_for_each_prev h' l = Some (rev (fold list_op_abs ps []))
    \<and> (list_empty l h' \<longleftrightarrow> fold list_op_abs ps [] = [])"
proof -
  obtain h' where h': "foldM (list_op_run l) ps (init_list_head l h) = Some h'"
    "dlist h' l (fold list_op_abs ps [])"
    using list_ops_dlist [OF init_list_head_dlist assms] by blast
  moreover have "list_empty l h' \<longleftrightarrow> fold list_op_abs ps [] = []"
    using h'(2) by (rule list_empty_dlist)
  ultimately show ?thesis using ll.walk_ok [OF h'(2)] list_for_each_prev_dlist [OF h'(2)] by auto
qed

theorem list_ops_refine_list_witness:
  "\<exists>h'. foldM (list_op_run (0 :: nat)) [Push 1, Snoc 2, Push 3, Front 2, Unlink 1]
      (init_list_head 0 (\<lambda>_. \<lparr>lh_next = None, lh_prev = None\<rparr>)) = Some h'
    \<and> list_for_each h' 0 = Some [2, 3] \<and> list_for_each_prev h' 0 = Some [3, 2] \<and> \<not> list_empty 0 h'"
  using list_ops_refine_list [of "0 :: nat" "[Push 1, Snoc 2, Push 3, Front 2, Unlink 1]"
      "\<lambda>_. \<lparr>lh_next = None, lh_prev = None\<rparr>"]
  by simp

subsection \<open>Queues\<close>

datatype 'n queue_op = Enq 'n | DeqMin int

fun queue_run :: "'n \<Rightarrow> 'n queue_op list \<Rightarrow> 'n blocking_queue \<Rightarrow> 'n option list option" where
  "queue_run l [] q = Some []"
| "queue_run l (Enq x # ps) q =
     (case blocking_enque l x q of None \<Rightarrow> None | Some q1 \<Rightarrow> queue_run l ps q1)"
| "queue_run l (DeqMin m # ps) q =
     (case blocking_deque_min l m q of None \<Rightarrow> None
      | Some Blocked \<Rightarrow> map_option (\<lambda>rs. None # rs) (queue_run l ps q)
      | Some (Done (x, q1)) \<Rightarrow> map_option (\<lambda>rs. x # rs) (queue_run l ps q1))"

fun queue_abs :: "'n queue_op list \<Rightarrow> 'n list \<Rightarrow> 'n option list" where
  "queue_abs [] xs = []"
| "queue_abs (Enq x # ps) xs = queue_abs ps (xs @ [x])"
| "queue_abs (DeqMin m # ps) xs =
     (if int (length xs) \<le> m then None # queue_abs ps xs else Some (hd xs) # queue_abs ps (tl xs))"

fun queue_ok :: "'n \<Rightarrow> 'n queue_op list \<Rightarrow> 'n list \<Rightarrow> bool" where
  "queue_ok l [] xs \<longleftrightarrow> True"
| "queue_ok l (Enq x # ps) xs \<longleftrightarrow> x \<notin> insert l (set xs) \<and> queue_ok l ps (xs @ [x])"
| "queue_ok l (DeqMin m # ps) xs \<longleftrightarrow>
     0 \<le> m \<and> queue_ok l ps (if int (length xs) \<le> m then xs else tl xs)"

text \<open>
  The blocking queue of queue.h is a queue with a threshold: over any sequence of calls, a
  take with threshold m finds the queue too short exactly when at most m items are in it, and
  otherwise returns the items in the order in which they were put in.
\<close>

theorem blocking_queue_refines_list:
  assumes "bq_rep l q xs" and "queue_ok l ps xs"
  shows "queue_run l ps q = Some (queue_abs ps xs)"
  using assms
proof (induction ps xs arbitrary: q rule: queue_abs.induct)
  case (1 xs)
  then show ?case by simp
next
  case (2 x ps xs)
  then obtain q1 where q1: "blocking_enque l x q = Some q1" "bq_rep l q1 (xs @ [x])"
    using bq.enq_ok [of l q xs x] by auto
  from "2.IH" [OF q1(2)] 2 q1(1) show ?case by simp
next
  case (3 m ps xs)
  show ?case
  proof (cases "int (length xs) \<le> m")
    case True
    with 3 blocking_deque_min_blocks [of l q xs m] show ?thesis by simp
  next
    case False
    with "3.prems"(2) have "xs \<noteq> []" by auto
    then obtain y ys where y: "xs = y # ys" by (cases xs) auto
    with False "3.prems"(1) obtain q1 where q1:
      "blocking_deque_min l m q = Some (Done (Some y, q1))" "bq_rep l q1 ys"
      using blocking_deque_min_takes [of l q y ys m] by auto
    have "queue_run l ps q1 = Some (queue_abs ps (tl xs))"
      using "3.IH"(2) [OF False] q1(2) "3.prems"(2) False y by simp
    with q1(1) y False show ?thesis by simp
  qed
qed

theorem blocking_queue_refines_list_witness:
  "queue_run (0 :: nat) [Enq 4, Enq 6, DeqMin 1, DeqMin 1, DeqMin 0]
    (blocking_queue_init 0 (\<lambda>_. \<lparr>lh_next = None, lh_prev = None\<rparr>)) = Some [Some 4, None, Some 6]"
proof -
  have "bq_rep (0 :: nat) (blocking_queue_init 0 (\<lambda>_. \<lparr>lh_next = None, lh_prev = None\<rparr>)) []"
    by (simp add: bq_rep_def blocking_queue_init_def init_list_head_dlist)
  from blocking_queue_refines_list [OF this, of "[Enq 4, Enq 6, DeqMin 1, DeqMin 1, DeqMin 0]"]
  show ?thesis by simp
qed

subsection \<open>The circular fifo\<close>

datatype 'a fifo_op = In 'a | Out | Clear | Len

fun fifo_run :: "'a fifo_op list \<Rightarrow> 'a cfifo \<Rightarrow> (int \<times> 'a option) list" where
  "fifo_run [] c = []"
| "fifo_run (In x # ps) c = (let c1 = cfifo_store (cfifo_get_in c) x c in
     (fst (cfifo_in c1), None) # fifo_run ps (snd (cfifo_in c1)))"
| "fifo_run (Out # ps) c =
     (fst (cfifo_out c), if cfifo_empty c then None else Some (cfifo_fetch (cfifo_get_out c) c))
       # fifo_run ps (snd (cfifo_out c))"
| "fifo_run (Clear # ps) c = fifo_run ps (cfifo_clear c)"
| "fifo_run (Len # ps) c = (cfifo_len c, None) # fifo_run ps c"

fun fifo_abs :: "nat \<Rightarrow> 'a fifo_op list \<Rightarrow> 'a list \<Rightarrow> (int \<times> 'a option) list" where
  "fifo_abs n [] xs = []"
| "fifo_abs n (In x # ps) xs = (0, None) # fifo_abs n ps (if Suc (length xs) = n then [] else xs @ [x])"
| "fifo_abs n (Out # ps) xs =
     (case xs of [] \<Rightarrow> (1, None) # fifo_abs n ps [] | y # ys \<Rightarrow> (0, Some y) # fifo_abs n ps ys)"
| "fifo_abs n (Clear # ps) xs = fifo_abs n ps []"
| "fifo_abs n (Len # ps) xs = (int (length xs), None) # fifo_abs n ps xs"

lemma cfifo_in_rep:
  assumes "cf_rep k c xs"
  shows "cf_rep k (snd (cfifo_in (cfifo_store (cfifo_get_in c) x c)))
    (if Suc (length xs) = 2 ^ k then [] else xs @ [x])"
proof (cases "cfifo_full c")
  case True
  then have "cf_rep k (cfifo__in (cfifo_store (cfifo_get_in c) x c)) []"
    using assms slot_0 [of k "cf_out c"]
    by (simp add: cf_rep_def cfifo_full_def cfifo__in_def cfifo_store_def)
  with True assms show ?thesis by (simp add: cfifo_in_def cfifo_full_rep)
next
  case False
  with assms cfifo_put_rep [OF assms False, of x] show ?thesis by (simp add: cfifo_in_def cfifo_full_rep)
qed

lemma fifo_run_rep: "cf_rep k c xs \<Longrightarrow> fifo_run ps c = fifo_abs (2 ^ k) ps xs"
proof (induction ps arbitrary: c xs)
  case Nil
  then show ?case by simp
next
  case (Cons p ps)
  show ?case
  proof (cases p)
    case (In x)
    with Cons.IH [OF cfifo_in_rep [OF Cons.prems]] show ?thesis by (simp add: Let_def cfifo_in_def)
  next
    case Out
    show ?thesis
    proof (cases xs)
      case Nil
      with Cons Out show ?thesis by (simp add: cfifo_out_def cfifo_empty_rep)
    next
      case (Cons y ys)
      with Cons.prems have g: "cfifo_fetch (cfifo_get_out c) c = y" "cf_rep k (cfifo__out c) ys"
        using cfifo_get_rep [of k c y ys] by auto
      from Cons.IH [OF g(2)] g(1) Out Cons cfifo_empty_rep [OF Cons.prems] show ?thesis
        by (simp add: cfifo_out_def)
    qed
  next
    case Clear
    with Cons.IH [OF cfifo_clear_rep [OF Cons.prems]] show ?thesis by simp
  next
    case Len
    with Cons show ?thesis by (simp add: cfifo_len_rep)
  qed
qed

text \<open>
  The circular fifo of 2^k slots answers every sequence of operations like a list of at most
  2^k - 1 items: items come out in order, the length is right across the wrap-around of the
  indices, an empty fifo is reported, and writing into a full one empties it, as its comment says.
\<close>

theorem cfifo_refines_bounded_list:
  assumes "k < 32"
  shows "fifo_run ps (cfifo_init mem k e) = fifo_abs (2 ^ k) ps []"
  by (rule fifo_run_rep [OF cfifo_init_rep [OF assms]])

theorem cfifo_refines_bounded_list_witness:
  "fifo_run [In 7, In 8, In 9, Len, Out, In 5, Out, Out, In 1, In 2, In 3, Len, In 4, Len, Out]
      (cfifo_init (\<lambda>_. 0 :: int) 2 2)
    = [(0, None), (0, None), (0, None), (3, None), (0, Some 7), (0, None), (0, Some 8), (0, Some 9),
       (0, None), (0, None), (0, None), (0, None), (0, None), (1, None), (0, Some 4)]"
  using cfifo_refines_bounded_list [of 2 "[In 7, In 8, In 9, Len, Out, In 5, Out, Out, In 1, In 2, In 3, Len, In 4, Len, Out]"
      "\<lambda>_. 0 :: int" 2]
  by simp

subsection \<open>The hash table\<close>

datatype 'n table_op = Insert 'n | Remove 'n

fun table_run :: "('k \<Rightarrow> nat) \<Rightarrow> ('n \<Rightarrow> 'k) \<Rightarrow> 'n table_op list \<Rightarrow> 'n htab \<Rightarrow> 'n htab option" where
  "table_run hf key [] t = Some t"
| "table_run hf key (Insert n # ps) t = table_run hf key ps (hash_memb hf key n t)"
| "table_run hf key (Remove n # ps) t =
     (case unhash n t of None \<Rightarrow> None | Some t1 \<Rightarrow> table_run hf key ps t1)"

fun table_abs :: "'n table_op list \<Rightarrow> 'n list \<Rightarrow> 'n list" where
  "table_abs [] xs = xs"
| "table_abs (Insert n # ps) xs = table_abs ps (n # xs)"
| "table_abs (Remove n # ps) xs = table_abs ps (remove1 n xs)"

fun table_ok :: "'n table_op list \<Rightarrow> 'n list \<Rightarrow> bool" where
  "table_ok [] xs \<longleftrightarrow> True"
| "table_ok (Insert n # ps) xs \<longleftrightarrow> n \<notin> set xs \<and> table_ok ps (n # xs)"
| "table_ok (Remove n # ps) xs \<longleftrightarrow> n \<in> set xs \<and> table_ok ps (remove1 n xs)"

lemma table_run_rep:
  "ht_list hf key t xs \<Longrightarrow> table_ok ps xs \<Longrightarrow>
    \<exists>t'. table_run hf key ps t = Some t' \<and> ht_list hf key t' (table_abs ps xs)"
proof (induction ps arbitrary: t xs)
  case Nil
  then show ?case by simp
next
  case (Cons p ps)
  then show ?case
    using ht.ins_ok [of hf key t xs] ht.rem_ok [of hf key t xs] by (cases p) (auto, fastforce)
qed

text \<open>
  The hash table, for every hash function, finds after any sequence of insertions and removals
  the most recently inserted entry with the key that is still in the table, and nothing else; no
  operation of the sequence fails and no lookup runs into a cycle.
\<close>

theorem hash_table_finds_newest:
  assumes "table_ok ps []"
  shows "\<exists>t. table_run hf key ps ht_init = Some t
    \<and> (\<forall>v. find_by_memb hf key v t = Some (find (\<lambda>n. key n = v) (table_abs ps [])))"
proof -
  obtain t where "table_run hf key ps ht_init = Some t" "ht_list hf key t (table_abs ps [])"
    using table_run_rep [OF ht_list_init assms] by blast
  then show ?thesis using ht.look_ok [of hf key t] by auto
qed

theorem hash_table_finds_newest_witness:
  "\<exists>t. table_run hashfn (\<lambda>n. n) [Insert 1, Insert 1025, Insert 257, Remove 1025, Insert 2049] ht_init = Some t
    \<and> find_by_memb hashfn (\<lambda>n. n) 1025 t = Some None \<and> find_by_memb hashfn (\<lambda>n. n) 1 t = Some (Some 1)"
  using hash_table_finds_newest [of "[Insert 1, Insert 1025, Insert 257, Remove 1025, Insert 2049]"
      hashfn "\<lambda>n. n"]
  by auto

subsection \<open>Digest and encoding\<close>

lemma drop_9: "drop 33 (replicate 40 (9 :: byte)) = replicate 7 9"
  by (simp add: drop_replicate)

lemma length_3: "length [1, 2, 3 :: byte] < 2 ^ 31" and le_33: "33 \<le> length (replicate 40 (9 :: byte))"
  by simp_all

text \<open>
  C29. The checksum of include/cksum.h is the digest of sha128.c, computed over the message in one
  go, masked with the salt and written as 32 printable characters with a closing zero; the rest of
  the buffer is untouched. The block loop, the padding and the byte reversals of the code agree
  with the one-shot definition for every message shorter than 2^31 bytes.
\<close>

theorem cksum_is_salted_digest:
  assumes "length data < 2 ^ 31" and "33 \<le> length sm"
  shows "\<exists>txt. cksum data sm = Some (txt @ 0 # drop 33 sm) \<and> length txt = 32
    \<and> txt = concat (map i2a (map2 (XOR) (sha_spec data) cksum_salt))
    \<and> (\<forall>c \<in> set txt. 35 \<le> unat c \<and> unat c \<le> 63)"
proof -
  have d: "salted_digest data = map2 (XOR) (sha_spec data) cksum_salt"
    using assms(1) by (simp add: salted_digest_def shaHashData_spec)
  have "length (salted_digest data) = 16"
    by (simp add: salted_digest_def length_shaHashData cksum_salt_def)
  then have "length (concat (map i2a (salted_digest data))) = 32"
    by (simp add: length_concat comp_def sum_list_triv)
  with assms(2) cksum_spec [of sm data] i2a_range show ?thesis by (auto simp: d)
qed

theorem cksum_is_salted_digest_witness:
  "\<exists>txt. cksum [1, 2, 3] (replicate 40 9) = Some (txt @ 0 # replicate 7 9) \<and> length txt = 32
    \<and> txt = concat (map i2a (map2 (XOR) (sha_spec [1, 2, 3]) cksum_salt))
    \<and> (\<forall>c \<in> set txt. 35 \<le> unat c \<and> unat c \<le> 63)"
  by (rule cksum_is_salted_digest [OF length_3 le_33, unfolded drop_9])

text \<open>
  Checksums are equal exactly when the digests are: neither the salt nor the printable form
  loses anything of the digest.
\<close>

theorem cksum_keeps_digest:
  assumes "33 \<le> length sm"
  shows "cksum data sm = cksum data' sm \<longleftrightarrow> shaHashData data = shaHashData data'"
proof
  assume eq: "cksum data sm = cksum data' sm"
  have "length (salted_digest d) = 16" for d
    by (simp add: salted_digest_def length_shaHashData cksum_salt_def)
  then have "length (concat (map i2a (salted_digest d))) = 32" for d
    by (simp add: length_concat comp_def sum_list_triv)
  with assms eq cksum_spec [of sm]
  have "concat (map i2a (salted_digest data)) = concat (map i2a (salted_digest data'))" by simp
  then show "shaHashData data = shaHashData data'" by (rule salted_digest_inj [OF concat_i2a_inj])
next
  assume "shaHashData data = shaHashData data'"
  then show "cksum data sm = cksum data' sm"
    using cksum_spec [OF assms] by (simp add: salted_digest_def)
qed

theorem cksum_keeps_digest_witness:
  "cksum [5] (replicate 40 9) = cksum [6] (replicate 40 9) \<longleftrightarrow> shaHashData [5] = shaHashData [6]"
  by (rule cksum_keeps_digest [OF le_33])

text \<open>
  Whatever the salt, decode inverts encode on every message, and encoding adds one byte.
\<close>

theorem decode_encode_roundtrip:
  "\<exists>out. encode salt msg = Some out \<and> length out = length msg + 1 \<and> decode out = Some msg"
  by (rule decode_encode)

subsection \<open>Commands\<close>

lemma cmd_line_spaced:
  "cmd_line (w # ws) = w @ concat (map (\<lambda>v. CHR '' '' # v) ws) @ newline"
  by (induction ws arbitrary: w) (auto simp: cmd_line_def)

lemma REP_ADD_fold:
  "c_rep (fold REP_ADD ws c) = c_rep c @ concat (map (\<lambda>v. CHR '' '' # v) ws)"
  by (induction ws arbitrary: c) (auto simp: REP_ADD_def)

text \<open>
  A reply reads back: after any words are added to a reply that starts with a device id and a
  command name, and the reply is ended, parse_cmd returns 0 with that id, that name and exactly
  those words as its arguments.
\<close>

theorem reply_parses_back:
  assumes "c_rep c = num_str i @ CHR '' '' # name" and "is_word name" and "\<forall>w \<in> set ws. is_word w"
    and "length ws < 32"
  shows "parse_cmd (c_rep (REP_END (fold REP_ADD ws c))) r
    = Some (0, r\<lparr>c_dev := i, c_cmd := name, c_args := ws\<rparr>)"
proof -
  have "c_rep (REP_END (fold REP_ADD ws c)) = cmd_line (num_str i # name # ws)"
    using assms(1) by (simp add: REP_END_def REP_ADD_fold cmd_line_spaced)
  with parse_cmd_line [OF assms(2-4)] show ?thesis by simp
qed

theorem reply_parses_back_witness:
  "parse_cmd (c_rep (REP_END (fold REP_ADD [''OK'', ''7,8'']
      \<lparr>c_dev = 0, c_cmd = [], c_args = [], c_addr = (0, 0), c_rep = ''9 discctrl'', c_sock = 0\<rparr>)))
      \<lparr>c_dev = 0, c_cmd = [], c_args = [], c_addr = (0, 0), c_rep = [], c_sock = 0\<rparr>
    = Some (0, \<lparr>c_dev = 9, c_cmd = ''discctrl'', c_args = [''OK'', ''7,8''], c_addr = (0, 0), c_rep = [], c_sock = 0\<rparr>)"
proof -
  have "num_str 9 = ''9''" by code_simp
  then show ?thesis
    using reply_parses_back [of "\<lparr>c_dev = 0, c_cmd = [], c_args = [], c_addr = (0, 0), c_rep = ''9 discctrl'', c_sock = 0\<rparr>"
        9 "''discctrl''" "[''OK'', ''7,8'']" "\<lparr>c_dev = 0, c_cmd = [], c_args = [], c_addr = (0, 0), c_rep = [], c_sock = 0\<rparr>"]
    by (simp add: is_word_def cmd_sep_def)
qed

text \<open>
  The comma separated id lists the server builds read back: FOREACH_ID with atoi over the text
  made by LIST_ADD_NUM visits exactly the ids, in order.
\<close>

theorem id_list_reads_back:
  assumes "ids \<noteq> []"
  shows "id_list (num_list ids) = ids \<and> num_list ids \<noteq> []"
  using assms id_list_num_list_Cons num_list_Nil_iff by (cases ids) auto

theorem id_list_reads_back_witness:
  "id_list (num_list [12, -3, 400]) = [12, -3, 400] \<and> num_list [12, -3, 400] \<noteq> []"
  by (rule id_list_reads_back) simp

subsection \<open>Samples\<close>

text \<open>
  Mixing up to eight buffers writes, for every sample position, the sum of the samples clamped
  to 16 bits into the first buffer, and leaves what lies behind the mixed length alone.
\<close>

theorem pcm_mix_saturated_sum:
  assumes "bufs = b # bs" and "length bufs \<le> 8" and "\<forall>c \<in> set bufs. n \<le> length c"
  shows "\<exists>out. pcm_mix bufs n = Some out \<and> length out = length b
    \<and> (\<forall>j < n. sint (out ! j) = max (- 32768) (min 32767 (\<Sum>c \<leftarrow> bufs. sint (c ! j))))
    \<and> drop n out = drop n b"
proof -
  obtain out where out: "pcm_mix bufs n = Some out" "length out = length b"
    "\<forall>j < length b. out ! j = (if j < n then word_of_int (saturate (sample_sum bufs j)) else b ! j)"
    using pcm_mix_ok [OF assms] by blast
  have "sint (word_of_int (saturate m) :: sample) = max (- 32768) (min 32767 m)" for m
    unfolding sint_saturate by (simp add: saturate_def Let_def)
  moreover have "n \<le> length b" using assms by simp
  moreover have "drop n out = drop n b" by (rule nth_equalityI) (use out(2,3) in auto)
  ultimately show ?thesis using out by (auto simp: sample_sum_def)
qed

theorem pcm_mix_saturated_sum_witness:
  "\<exists>out. pcm_mix [[30000, -5, 1], [10000, 7, 2 :: sample]] 2 = Some out \<and> length out = length [30000, -5, 1 :: sample]
    \<and> (\<forall>j < 2. sint (out ! j) = max (- 32768) (min 32767 (\<Sum>c \<leftarrow> [[30000, -5, 1], [10000, 7, 2 :: sample]]. sint (c ! j))))
    \<and> drop 2 out = [1]"
  using pcm_mix_saturated_sum [of "[[30000, -5, 1], [10000, 7, 2]]" "[30000, -5, 1]" "[[10000, 7, 2]]" 2]
  by simp

text \<open>
  The silence test says yes exactly when the sum of the absolute sample values is at most the
  threshold, although the code leaves the loop as soon as the sum exceeds it.
\<close>

theorem pcm_silent_is_energy_test:
  assumes "len div 2 \<le> length buf" and "0 \<le> thr"
  shows "pcm_silent buf len thr
    = Some (if (\<Sum>x \<leftarrow> take (len div 2) buf. \<bar>sint x\<bar>) \<le> thr then 1 else 0)"
  using pcm_silent_ok [OF assms] by (simp add: energy_def)

theorem pcm_silent_is_energy_test_witness:
  "pcm_silent [3, -4, 900] 4 7 = Some 1"
  using pcm_silent_is_energy_test [of 4 "[3, -4, 900]" 7] by simp

end
