(* ===== verification/State.thy ===== *)
theory State
  imports List_Head Cfifo Cmd
begin

text \<open>
  The state of the server: the structures of serv/dev.h, serv/tag.h, serv/group.h, serv/vote.h
  and the database rows of serv/db, in one record that the operations pass along. Objects are
  named by what the program looks them up with: a device and its database row by the device id,
  a tag by its tuid, a group by its id. All list links of the program live in one heap of
  list.h, whose nodes are the list heads and the links embedded in the devices. What the server
  sends and saves is appended to a trace of outputs. malloc is taken not to fail.
\<close>

subsection \<open>List nodes\<close>

datatype node =
    GrpHead int | TagHead int | SubHead int | OpenHead int | VoteHead nat | PtcHead | VideoHead
  | DGrp int | DTag int | DSub int | DOpen int | DVote int | DPtc int | DVideo int

text \<open>list_entry: the device a link is embedded in. A head is embedded in none.\<close>

fun dev_of :: "node \<Rightarrow> int option" where
  "dev_of (DGrp d) = Some d"
| "dev_of (DTag d) = Some d"
| "dev_of (DSub d) = Some d"
| "dev_of (DOpen d) = Some d"
| "dev_of (DVote d) = Some d"
| "dev_of (DPtc d) = Some d"
| "dev_of (DVideo d) = Some d"
| "dev_of _ = None"

subsection \<open>Constants of include/types.h and serv/tag.h\<close>

definition DEVTYPE_NONE :: int where "DEVTYPE_NONE = 0"
definition DEVTYPE_NORMAL :: int where "DEVTYPE_NORMAL = 1"
definition DEVTYPE_CHAIR :: int where "DEVTYPE_CHAIR = 2"
definition DEVTYPE_INTERP :: int where "DEVTYPE_INTERP = 3"
definition DEVTYPE_OTHER :: int where "DEVTYPE_OTHER = 200"
definition DEVTYPE_UCAST_AUDIO :: int where "DEVTYPE_UCAST_AUDIO = 224"
definition DISCMODE_AUTO :: int where "DISCMODE_AUTO = 0"
definition DISCMODE_FIFO :: int where "DISCMODE_FIFO = 1"
definition INTERP_NO :: int where "INTERP_NO = 0"
definition INTERP_OR :: int where "INTERP_OR = 1"
definition INTERP_RE :: int where "INTERP_RE = 2"
definition VOTE_SCORE :: int where "VOTE_SCORE = 2"
definition REGIST_CARD_ID :: int where "REGIST_CARD_ID = 2"
definition MAX_MIX :: int where "MAX_MIX = 8"

lemmas type_defs = DEVTYPE_NONE_def DEVTYPE_NORMAL_def DEVTYPE_CHAIR_def DEVTYPE_INTERP_def
  DEVTYPE_OTHER_def DEVTYPE_UCAST_AUDIO_def DISCMODE_AUTO_def DISCMODE_FIFO_def
  INTERP_NO_def INTERP_OR_def INTERP_RE_def VOTE_SCORE_def REGIST_CARD_ID_def MAX_MIX_def

text \<open>TAGUID: gid << 16 xor tid, on C ints.\<close>

definition TAGUID :: "int \<Rightarrow> int \<Rightarrow> int" where
  "TAGUID gid tid = xor (push_bit 16 gid) tid"

subsection \<open>Structures\<close>

record db_device =
  dd_type :: int
  dd_ip :: string
  dd_port :: int
  dd_tagid :: int
  dd_user_id :: string
  dd_user_card :: int
  dd_user_name :: string
  dd_user_gender :: int
  dd_enabled :: int
  dd_online :: int
  dd_sub1 :: int
  dd_sub2 :: int
  dd_discuss_chair :: int
  dd_discuss_open :: int
  dd_regist_master :: int
  dd_regist_reg :: int
  dd_vote_master :: int
  dd_vote_choice :: int
  dd_ptc_id :: int
  dd_ptc_cmd :: string

record db_group =
  dg_discuss_mode :: int
  dg_discuss_maxuser :: int
  dg_discuss_id :: int
  dg_regist_start :: int
  dg_regist_mode :: int
  dg_regist_expect :: int
  dg_regist_arrive :: int
  dg_vote_id :: int
  dg_vote_results :: string

record db_discuss =
  ds_id :: int
  ds_name :: string
  ds_members :: string

record db_vote =
  dv_id :: int
  dv_name :: string
  dv_type :: int
  dv_options_count :: int
  dv_max_select :: int
  dv_options :: string
  dv_members :: string
  dv_expect :: int

record db_regist =
  dr_id :: int
  dr_members :: string
  dr_expect :: int

record db_tag =
  dt_id :: int
  dt_name :: string

record db_user =
  du_id :: int
  du_name :: string
  du_password :: string

record db_video =
  dm_id :: int
  dm_name :: string
  dm_path :: string

record db_file =
  df_id :: int
  df_path :: string

text \<open>A packet of serv/packet.h with the fields of its struct pack (include/pack.h). The payload
  is the list of its 16-bit samples.\<close>

record packet =
  pk_id :: "32 word"
  pk_seq :: "32 word"
  pk_type :: int
  pk_tag :: int
  pk_datalen :: nat
  pk_data :: "16 word list"
  pk_len :: nat
  pk_rep :: int

record device =
  d_ops :: bool \<comment> \<open>the operations are set; they are null for the manager device\<close>
  d_addr :: "int \<times> int"
  d_bcast :: "32 word" \<comment> \<open>bcast.sin_addr.s_addr\<close>
  d_type :: int
  d_active :: int
  d_audio_sock :: int
  d_hbeat :: int
  d_group :: "int option"
  d_tag :: "int option"
  d_sub :: "int option" \<comment> \<open>subscription[0]; MAX_SUB is 1\<close>
  d_fifo :: "nat option cfifo" \<comment> \<open>pack_fifo, of packet addresses\<close>
  d_mixbit :: "32 word"
  d_timeouts :: int
  d_highload :: int
  d_mixer_res :: int
  d_mixer_info :: "string option"
  d_flushed :: int
  d_vote_v :: "nat option"
  d_vote_choice :: int
  d_vote_forbidden :: int
  d_open :: int
  d_forbidden :: int
  d_reg :: int

datatype mixer = Soft | Net

record tag =
  t_id :: int
  t_mixer :: mixer
  t_mix_devs :: "int option list"
  t_mix_count :: int
  t_mix_ref :: nat
  t_mix_silence :: int
  t_rep_pack :: "nat option list"
  t_rep_pos :: nat
  t_rep_reqs :: "(int \<times> 32 word) cfifo"
  t_seq :: "32 word"
  t_mode :: int
  t_maxuser :: int
  t_openuser :: int
  t_interp_mode :: int
  t_interp_rep :: "int option"
  t_bcasts :: "int list" \<comment> \<open>the devices whose bcast address is listed, in order\<close>
  t_ucast :: "int option"

record group =
  g_cyctl :: "int option"
  g_chairman :: "int option"
  g_dev_count :: "int list"
  g_active_count :: "int list"
  g_disc_current :: "int option"
  g_disc_num :: int
  g_disc_members :: "int list"
  g_disc_names :: string
  g_disc_disabled :: int
  g_reg_mode :: int
  g_reg_members :: "int list"
  g_reg_expect :: int
  g_reg_arrive :: int
  g_reg_ids :: "int list" \<comment> \<open>arrive_ids[1024]\<close>
  g_reg_idstr :: "string option"
  g_vote_current :: "int option"
  g_vote_num :: int
  g_vote_expect :: int
  g_vote_nvoted :: int
  g_vote_members :: "int list"
  g_vote_names :: string
  g_vote_v :: "nat option"
  g_dev_ents :: "string option"
  g_dev_dirty :: int

record vote =
  v_type :: int
  v_cn_options :: int
  v_n_members :: int
  v_results :: "int list"

text \<open>What leaves the server: commands to a device, the broadcasts of serv/brcmd.c, the packets of
  audio and video to an address or a device, the freed packets and the rows written to the
  database.\<close>

datatype bmode = ModeAll | ModeTag int | ModeMulti "int list"

datatype payload = Text string | InterpRep int int

datatype out =
    CmdTo int string
  | Brcast int bmode payload
  | SubTo int int "int \<times> int" bool bool int \<comment> \<open>T2CMD_SUB to a device: id, address, active, subscribed, tag\<close>
  | CastAddr "32 word" packet \<comment> \<open>a datagram to a broadcast address\<close>
  | CastTo int packet
  | SendAudio int packet
  | Freed nat
  | SaveDev int
  | SaveGroup int
  | AddDev int
  | SaveUser int
  | Sent int string \<comment> \<open>text sent on a socket as it is\<close>
  | ServManage int \<comment> \<open>the thread serv_manage started on a socket\<close>

record srv =
  hp :: "node lheap"
  dev :: "int \<Rightarrow> device"
  devs :: "int list" \<comment> \<open>the device hash of sys.c, newest first\<close>
  tagm :: "int \<Rightarrow> tag"
  tags :: "int list"
  grp :: "int \<Rightarrow> group"
  grps :: "int list"
  dbdev :: "int \<Rightarrow> db_device"
  dbdevs :: "int list"
  dbgrp :: "int \<Rightarrow> db_group"
  dbgrps :: "int list"
  dbdisc :: "db_discuss list"
  dbvote :: "db_vote list"
  dbregist :: "db_regist list"
  dbtags :: "db_tag list"
  dbusers :: "db_user list"
  dbfile :: "db_file list"
  dbvideo :: "db_video list"
  snap_disc :: "int list" \<comment> \<open>db and dbl of cmd_discctrl.c: the discussions by id\<close>
  snap_vote :: "int list"
  snap_video :: "int list" \<comment> \<open>table of cmd_videoctrl.c\<close>
  snap_file :: "int list" \<comment> \<open>table of cmd_filectrl.c\<close>
  votem :: "nat \<Rightarrow> vote option" \<comment> \<open>None for a freed or not yet allocated vote\<close>
  vote_next :: nat
  pkts :: "nat \<Rightarrow> packet"
  ptcs :: "int list"
  ptc_curr :: "int option"
  bcast_dev :: "int option"
  chairs :: "int list"
  man_active :: int
  man_allow :: int
  net_avail :: "bool list"
  br_seq :: int
  outs :: "out list"

subsection \<open>Updates\<close>

definition upd_dev :: "int \<Rightarrow> (device \<Rightarrow> device) \<Rightarrow> srv \<Rightarrow> srv" where
  "upd_dev d f s = s\<lparr>dev := (dev s)(d := f (dev s d))\<rparr>"

definition upd_tag :: "int \<Rightarrow> (tag \<Rightarrow> tag) \<Rightarrow> srv \<Rightarrow> srv" where
  "upd_tag t f s = s\<lparr>tagm := (tagm s)(t := f (tagm s t))\<rparr>"

definition upd_grp :: "int \<Rightarrow> (group \<Rightarrow> group) \<Rightarrow> srv \<Rightarrow> srv" where
  "upd_grp g f s = s\<lparr>grp := (grp s)(g := f (grp s g))\<rparr>"

definition upd_dbdev :: "int \<Rightarrow> (db_device \<Rightarrow> db_device) \<Rightarrow> srv \<Rightarrow> srv" where
  "upd_dbdev d f s = s\<lparr>dbdev := (dbdev s)(d := f (dbdev s d))\<rparr>"

definition upd_dbgrp :: "int \<Rightarrow> (db_group \<Rightarrow> db_group) \<Rightarrow> srv \<Rightarrow> srv" where
  "upd_dbgrp g f s = s\<lparr>dbgrp := (dbgrp s)(g := f (dbgrp s g))\<rparr>"

definition emit :: "out \<Rightarrow> srv \<Rightarrow> srv" where
  "emit x s = s\<lparr>outs := outs s @ [x]\<rparr>"

text \<open>An operation of list.h on the heap of the server.\<close>

definition on_heap :: "(node lheap \<Rightarrow> node lheap option) \<Rightarrow> srv \<Rightarrow> srv option" where
  "on_heap f s = do { h \<leftarrow> f (hp s); Some (s\<lparr>hp := h\<rparr>) }"

text \<open>list_for_each_entry over the devices of a list.\<close>

definition list_devs :: "node \<Rightarrow> srv \<Rightarrow> int list option" where
  "list_devs l s = do { ns \<leftarrow> list_for_each (hp s) l; those (map dev_of ns) }"

lemma upd_dev_sel [simp, frame_simps]:
  "dev (upd_dev d f s) = (dev s)(d := f (dev s d))" "hp (upd_dev d f s) = hp s"
  "devs (upd_dev d f s) = devs s" "tagm (upd_dev d f s) = tagm s" "tags (upd_dev d f s) = tags s"
  "grp (upd_dev d f s) = grp s" "grps (upd_dev d f s) = grps s" "dbdev (upd_dev d f s) = dbdev s"
  "dbdevs (upd_dev d f s) = dbdevs s" "dbgrp (upd_dev d f s) = dbgrp s"
  "votem (upd_dev d f s) = votem s" "pkts (upd_dev d f s) = pkts s" "outs (upd_dev d f s) = outs s"
  "ptc_curr (upd_dev d f s) = ptc_curr s" "ptcs (upd_dev d f s) = ptcs s" "net_avail (upd_dev d f s) = net_avail s"
  by (simp_all add: upd_dev_def)

lemma upd_tag_sel [simp, frame_simps]:
  "tagm (upd_tag t f s) = (tagm s)(t := f (tagm s t))" "hp (upd_tag t f s) = hp s"
  "dev (upd_tag t f s) = dev s" "devs (upd_tag t f s) = devs s" "tags (upd_tag t f s) = tags s"
  "grp (upd_tag t f s) = grp s" "grps (upd_tag t f s) = grps s" "dbdev (upd_tag t f s) = dbdev s"
  "dbdevs (upd_tag t f s) = dbdevs s" "dbgrp (upd_tag t f s) = dbgrp s"
  "votem (upd_tag t f s) = votem s" "pkts (upd_tag t f s) = pkts s" "outs (upd_tag t f s) = outs s"
  "ptc_curr (upd_tag t f s) = ptc_curr s" "ptcs (upd_tag t f s) = ptcs s" "net_avail (upd_tag t f s) = net_avail s"
  by (simp_all add: upd_tag_def)

lemma upd_grp_sel [simp, frame_simps]:
  "grp (upd_grp g f s) = (grp s)(g := f (grp s g))" "hp (upd_grp g f s) = hp s"
  "dev (upd_grp g f s) = dev s" "devs (upd_grp g f s) = devs s" "tagm (upd_grp g f s) = tagm s"
  "tags (upd_grp g f s) = tags s" "grps (upd_grp g f s) = grps s" "dbdev (upd_grp g f s) = dbdev s"
  "dbdevs (upd_grp g f s) = dbdevs s" "dbgrp (upd_grp g f s) = dbgrp s"
  "votem (upd_grp g f s) = votem s" "pkts (upd_grp g f s) = pkts s" "outs (upd_grp g f s) = outs s"
  "ptc_curr (upd_grp g f s) = ptc_curr s" "ptcs (upd_grp g f s) = ptcs s" "net_avail (upd_grp g f s) = net_avail s"
  by (simp_all add: upd_grp_def)

lemma upd_dbdev_sel [simp, frame_simps]:
  "dbdev (upd_dbdev d f s) = (dbdev s)(d := f (dbdev s d))" "hp (upd_dbdev d f s) = hp s"
  "dev (upd_dbdev d f s) = dev s" "devs (upd_dbdev d f s) = devs s" "tagm (upd_dbdev d f s) = tagm s"
  "tags (upd_dbdev d f s) = tags s" "grp (upd_dbdev d f s) = grp s" "grps (upd_dbdev d f s) = grps s"
  "dbdevs (upd_dbdev d f s) = dbdevs s" "dbgrp (upd_dbdev d f s) = dbgrp s"
  "votem (upd_dbdev d f s) = votem s" "pkts (upd_dbdev d f s) = pkts s" "outs (upd_dbdev d f s) = outs s"
  "ptc_curr (upd_dbdev d f s) = ptc_curr s" "ptcs (upd_dbdev d f s) = ptcs s" "net_avail (upd_dbdev d f s) = net_avail s"
  by (simp_all add: upd_dbdev_def)

lemma upd_dbgrp_sel [simp, frame_simps]:
  "dbgrp (upd_dbgrp g f s) = (dbgrp s)(g := f (dbgrp s g))" "hp (upd_dbgrp g f s) = hp s"
  "dev (upd_dbgrp g f s) = dev s" "devs (upd_dbgrp g f s) = devs s" "tagm (upd_dbgrp g f s) = tagm s"
  "tags (upd_dbgrp g f s) = tags s" "grp (upd_dbgrp g f s) = grp s" "grps (upd_dbgrp g f s) = grps s"
  "dbdev (upd_dbgrp g f s) = dbdev s" "dbdevs (upd_dbgrp g f s) = dbdevs s"
  "votem (upd_dbgrp g f s) = votem s" "pkts (upd_dbgrp g f s) = pkts s" "outs (upd_dbgrp g f s) = outs s"
  "ptc_curr (upd_dbgrp g f s) = ptc_curr s" "ptcs (upd_dbgrp g f s) = ptcs s" "net_avail (upd_dbgrp g f s) = net_avail s"
  by (simp_all add: upd_dbgrp_def)

lemma emit_sel [simp, frame_simps]:
  "outs (emit x s) = outs s @ [x]" "hp (emit x s) = hp s"
  "dev (emit x s) = dev s" "devs (emit x s) = devs s" "tagm (emit x s) = tagm s"
  "tags (emit x s) = tags s" "grp (emit x s) = grp s" "grps (emit x s) = grps s"
  "dbdev (emit x s) = dbdev s" "dbdevs (emit x s) = dbdevs s" "dbgrp (emit x s) = dbgrp s"
  "votem (emit x s) = votem s" "pkts (emit x s) = pkts s"
  "ptc_curr (emit x s) = ptc_curr s" "ptcs (emit x s) = ptcs s" "net_avail (emit x s) = net_avail s"
  by (simp_all add: emit_def)

text \<open>The fields that none of these updates touch.\<close>

lemma upd_other_sel [simp, frame_simps]:
  "dbgrps (upd_dev d f s) = dbgrps s" "dbdisc (upd_dev d f s) = dbdisc s"
  "dbvote (upd_dev d f s) = dbvote s" "dbregist (upd_dev d f s) = dbregist s"
  "snap_disc (upd_dev d f s) = snap_disc s" "snap_vote (upd_dev d f s) = snap_vote s"
  "vote_next (upd_dev d f s) = vote_next s" "bcast_dev (upd_dev d f s) = bcast_dev s"
  "chairs (upd_dev d f s) = chairs s" "man_active (upd_dev d f s) = man_active s"
  "man_allow (upd_dev d f s) = man_allow s" "br_seq (upd_dev d f s) = br_seq s"
  "dbgrps (upd_tag d f1 s) = dbgrps s" "dbdisc (upd_tag d f1 s) = dbdisc s"
  "dbvote (upd_tag d f1 s) = dbvote s" "dbregist (upd_tag d f1 s) = dbregist s"
  "snap_disc (upd_tag d f1 s) = snap_disc s" "snap_vote (upd_tag d f1 s) = snap_vote s"
  "vote_next (upd_tag d f1 s) = vote_next s" "bcast_dev (upd_tag d f1 s) = bcast_dev s"
  "chairs (upd_tag d f1 s) = chairs s" "man_active (upd_tag d f1 s) = man_active s"
  "man_allow (upd_tag d f1 s) = man_allow s" "br_seq (upd_tag d f1 s) = br_seq s"
  "dbgrps (upd_grp d f2 s) = dbgrps s" "dbdisc (upd_grp d f2 s) = dbdisc s"
  "dbvote (upd_grp d f2 s) = dbvote s" "dbregist (upd_grp d f2 s) = dbregist s"
  "snap_disc (upd_grp d f2 s) = snap_disc s" "snap_vote (upd_grp d f2 s) = snap_vote s"
  "vote_next (upd_grp d f2 s) = vote_next s" "bcast_dev (upd_grp d f2 s) = bcast_dev s"
  "chairs (upd_grp d f2 s) = chairs s" "man_active (upd_grp d f2 s) = man_active s"
  "man_allow (upd_grp d f2 s) = man_allow s" "br_seq (upd_grp d f2 s) = br_seq s"
  "dbgrps (upd_dbdev d f3 s) = dbgrps s" "dbdisc (upd_dbdev d f3 s) = dbdisc s"
  "dbvote (upd_dbdev d f3 s) = dbvote s" "dbregist (upd_dbdev d f3 s) = dbregist s"
  "snap_disc (upd_dbdev d f3 s) = snap_disc s" "snap_vote (upd_dbdev d f3 s) = snap_vote s"
  "vote_next (upd_dbdev d f3 s) = vote_next s" "bcast_dev (upd_dbdev d f3 s) = bcast_dev s"
  "chairs (upd_dbdev d f3 s) = chairs s" "man_active (upd_dbdev d f3 s) = man_active s"
  "man_allow (upd_dbdev d f3 s) = man_allow s" "br_seq (upd_dbdev d f3 s) = br_seq s"
  "dbgrps (upd_dbgrp d f4 s) = dbgrps s" "dbdisc (upd_dbgrp d f4 s) = dbdisc s"
  "dbvote (upd_dbgrp d f4 s) = dbvote s" "dbregist (upd_dbgrp d f4 s) = dbregist s"
  "snap_disc (upd_dbgrp d f4 s) = snap_disc s" "snap_vote (upd_dbgrp d f4 s) = snap_vote s"
  "vote_next (upd_dbgrp d f4 s) = vote_next s" "bcast_dev (upd_dbgrp d f4 s) = bcast_dev s"
  "chairs (upd_dbgrp d f4 s) = chairs s" "man_active (upd_dbgrp d f4 s) = man_active s"
  "man_allow (upd_dbgrp d f4 s) = man_allow s" "br_seq (upd_dbgrp d f4 s) = br_seq s"
  "dbgrps (emit x s) = dbgrps s" "dbdisc (emit x s) = dbdisc s" "dbvote (emit x s) = dbvote s"
  "dbregist (emit x s) = dbregist s" "snap_disc (emit x s) = snap_disc s"
  "snap_vote (emit x s) = snap_vote s" "vote_next (emit x s) = vote_next s"
  "bcast_dev (emit x s) = bcast_dev s" "chairs (emit x s) = chairs s"
  "man_active (emit x s) = man_active s" "man_allow (emit x s) = man_allow s"
  "br_seq (emit x s) = br_seq s"
  by (simp_all add: upd_dev_def upd_tag_def upd_grp_def upd_dbdev_def upd_dbgrp_def emit_def)

lemma upd_tag_dev: "upd_tag t f (upd_dev d g s) = upd_dev d g (upd_tag t f s)"
  by (cases s) (simp add: upd_tag_def upd_dev_def)

lemma upd_tag_tag: "upd_tag t f (upd_tag t g s) = upd_tag t (\<lambda>T. f (g T)) s"
  by (simp add: upd_tag_def)

lemma upd_dev_dev: "upd_dev d f (upd_dev d g s) = upd_dev d (\<lambda>D. f (g D)) s"
  by (simp add: upd_dev_def)

lemma on_heap_Some:
  "on_heap f s = Some s' \<longleftrightarrow> (\<exists>h. f (hp s) = Some h \<and> s' = s\<lparr>hp := h\<rparr>)"
  by (auto simp: on_heap_def)

lemma those_dev_of [simp]:
  "those (map dev_of (map DGrp ds)) = Some ds" "those (map dev_of (map DTag ds)) = Some ds"
  "those (map dev_of (map DSub ds)) = Some ds" "those (map dev_of (map DOpen ds)) = Some ds"
  "those (map dev_of (map DVote ds)) = Some ds" "those (map dev_of (map DPtc ds)) = Some ds"
  "those (map dev_of (map DVideo ds)) = Some ds"
  by (induction ds) auto

subsection \<open>Lookups of serv/sys.c and serv/db/md.c\<close>

text \<open>The hash tables are the lists of their entries, newest first (see Hash).\<close>

definition get_device :: "srv \<Rightarrow> int \<Rightarrow> int option" where
  "get_device s i = find (\<lambda>d. d = i) (devs s)"

definition get_tag :: "srv \<Rightarrow> int \<Rightarrow> int option" where
  "get_tag s u = find (\<lambda>t. t = u) (tags s)"

definition get_group :: "srv \<Rightarrow> int \<Rightarrow> int option" where
  "get_group s i = find (\<lambda>g. g = i) (grps s)"

definition md_find_device :: "srv \<Rightarrow> int \<Rightarrow> int option" where
  "md_find_device s i = find (\<lambda>d. d = i) (dbdevs s)"

definition md_find_group :: "srv \<Rightarrow> int \<Rightarrow> int option" where
  "md_find_group s i = find (\<lambda>g. g = i) (dbgrps s)"

definition md_find_discuss :: "srv \<Rightarrow> int \<Rightarrow> db_discuss option" where
  "md_find_discuss s i = find (\<lambda>r. ds_id r = i) (dbdisc s)"

definition md_find_vote :: "srv \<Rightarrow> int \<Rightarrow> db_vote option" where
  "md_find_vote s i = find (\<lambda>r. dv_id r = i) (dbvote s)"

lemma find_eq: "find (\<lambda>x. x = a) xs = (if a \<in> set xs then Some a else None)"
  by (induction xs) auto

lemma get_device_iff [simp]: "get_device s i = (if i \<in> set (devs s) then Some i else None)"
  by (simp add: get_device_def find_eq)

lemma get_tag_iff [simp]: "get_tag s i = (if i \<in> set (tags s) then Some i else None)"
  by (simp add: get_tag_def find_eq)

lemma get_group_iff [simp]: "get_group s i = (if i \<in> set (grps s) then Some i else None)"
  by (simp add: get_group_def find_eq)

subsection \<open>Output operations of serv/devctl.c and serv/group.c\<close>

definition device_save :: "int \<Rightarrow> srv \<Rightarrow> srv" where
  "device_save d s = (if d_ops (dev s d) then emit (SaveDev d) s else s)"

definition device_cmd :: "int \<Rightarrow> string \<Rightarrow> srv \<Rightarrow> srv" where
  "device_cmd d x s = (if d_ops (dev s d) then emit (CmdTo d x) s else s)"

definition group_save :: "int \<Rightarrow> srv \<Rightarrow> srv" where
  "group_save g s = emit (SaveGroup g) s"

definition send_cmd_to_dev :: "cmd \<Rightarrow> int \<Rightarrow> srv \<Rightarrow> srv" where
  "send_cmd_to_dev c d s = device_cmd d (c_rep c) s"

definition send_cmd_to_dev_id :: "cmd \<Rightarrow> int \<Rightarrow> srv \<Rightarrow> srv" where
  "send_cmd_to_dev_id c i s =
     (case get_device s i of Some d \<Rightarrow> send_cmd_to_dev c d s | None \<Rightarrow> s)"

end
