(* ===== verification/Outstanding.thy ===== *)
theory Outstanding
  imports State
begin

text \<open>
  The mixing slots of a tag (tag_add_outstanding and tag_rm_outstanding of serv/tag.c), with the
  mixers of serv/mix.h: the software mixer has no open_dev and close_dev, the net mixer of
  serv/net_mixer.c gives a device one of eight hardware resources. The invariant mix_ok says that
  slots, mix bits, the count and the reference agree; both operations preserve it.
\<close>

subsection \<open>The net mixer's resources\<close>

definition net_addrs :: "string list" where
  "net_addrs = [''192.168.1.11'', ''192.168.1.12'', ''192.168.1.13'', ''192.168.1.14'',
     ''192.168.1.15'', ''192.168.1.16'', ''192.168.1.17'', ''192.168.1.18'']"

definition netmx_open_dev :: "int \<Rightarrow> srv \<Rightarrow> int \<times> srv" where
  "netmx_open_dev d s =
     (case find (\<lambda>i. net_avail s ! i) [0..<8] of
        None \<Rightarrow> (-1, s)
      | Some i \<Rightarrow>
          (0, upd_dev d (\<lambda>D. D\<lparr>d_mixer_res := int i + 1, d_mixer_info := Some (net_addrs ! i)\<rparr>)
                (s\<lparr>net_avail := (net_avail s)[i := False]\<rparr>)))"

definition netmx_close_dev :: "int \<Rightarrow> srv \<Rightarrow> int \<times> srv" where
  "netmx_close_dev d s =
     (let r = d_mixer_res (dev s d)
      in if r > 0 \<and> r \<le> 8
         then (0, upd_dev d (\<lambda>D. D\<lparr>d_mixer_res := 0, d_mixer_info := None\<rparr>)
                    (s\<lparr>net_avail := (net_avail s)[nat (r - 1) := True]\<rparr>))
         else (0, s))"

text \<open>The macros go through dev->tag, which must not be null.\<close>

definition MIX_OPEN_DEV :: "int \<Rightarrow> srv \<Rightarrow> srv option" where
  "MIX_OPEN_DEV d s =
     (case d_tag (dev s d) of None \<Rightarrow> None
      | Some t \<Rightarrow> Some (case t_mixer (tagm s t) of Soft \<Rightarrow> s | Net \<Rightarrow> snd (netmx_open_dev d s)))"

definition MIX_CLOSE_DEV :: "int \<Rightarrow> srv \<Rightarrow> srv option" where
  "MIX_CLOSE_DEV d s =
     (case d_tag (dev s d) of None \<Rightarrow> None
      | Some t \<Rightarrow> Some (case t_mixer (tagm s t) of Soft \<Rightarrow> s | Net \<Rightarrow> snd (netmx_close_dev d s)))"

subsection \<open>The slots\<close>

definition tag_add_outstanding :: "int \<Rightarrow> int \<Rightarrow> srv \<Rightarrow> srv option" where
  "tag_add_outstanding t d s =
     (if d_mixbit (dev s d) \<noteq> 0 then Some s
      else case find (\<lambda>i. t_mix_devs (tagm s t) ! i = None) [0..<8] of
        None \<Rightarrow> Some s
      | Some i \<Rightarrow>
          (let s1 = upd_tag t (\<lambda>T. T\<lparr>t_mix_devs := (t_mix_devs T)[i := Some d]\<rparr>) s;
               s2 = upd_dev d (\<lambda>D. D\<lparr>d_mixbit := push_bit i 1, d_timeouts := 0\<rparr>) s1;
               s3 = upd_tag t (\<lambda>T. if t_mix_devs T ! t_mix_ref T = None then T\<lparr>t_mix_ref := i\<rparr> else T) s2;
               s4 = upd_tag t (\<lambda>T. T\<lparr>t_mix_count := t_mix_count T + 1\<rparr>) s3
           in MIX_OPEN_DEV d s4))"

text \<open>The next reference when slot i is given up: the first other slot in use.\<close>

definition next_ref :: "int option list \<Rightarrow> nat \<Rightarrow> nat option" where
  "next_ref m i = find (\<lambda>j. j \<noteq> i \<and> m ! j \<noteq> None) [0..<8]"

definition tag_rm_outstanding :: "int \<Rightarrow> int \<Rightarrow> srv \<Rightarrow> srv option" where
  "tag_rm_outstanding t d s =
     (let s1 = (case find (\<lambda>i. t_mix_devs (tagm s t) ! i = Some d) [0..<8] of
                  None \<Rightarrow> s
                | Some i \<Rightarrow>
                    upd_tag t (\<lambda>T. T
                      \<lparr>t_mix_ref := (if t_mix_ref T = i
                         then (case next_ref (t_mix_devs T) i of None \<Rightarrow> t_mix_ref T | Some j \<Rightarrow> j)
                         else t_mix_ref T),
                       t_mix_devs := (t_mix_devs T)[i := None],
                       t_mix_count := t_mix_count T - 1\<rparr>) s)
      in MIX_CLOSE_DEV d (upd_dev d (\<lambda>D. D\<lparr>d_mixbit := 0\<rparr>) s1))"

subsection \<open>The invariant\<close>

definition used :: "int option list \<Rightarrow> nat" where
  "used m = length (filter (\<lambda>x. x \<noteq> None) m)"

definition mix_ok :: "int \<Rightarrow> srv \<Rightarrow> bool" where
  "mix_ok t s \<longleftrightarrow>
     (let T = tagm s t; m = t_mix_devs T
      in length m = 8 \<and> t_mix_ref T < 8 \<and> t_mix_count T = int (used m)
         \<and> (\<forall>i < 8. \<forall>d. m ! i = Some d \<longrightarrow> d_mixbit (dev s d) = push_bit i 1 \<and> d_tag (dev s d) = Some t)
         \<and> (used m > 0 \<longrightarrow> m ! t_mix_ref T \<noteq> None)
         \<and> (\<forall>d. d_tag (dev s d) = Some t \<longrightarrow> d_mixbit (dev s d) \<noteq> 0 \<longrightarrow> Some d \<in> set m))"

lemma find_upt:
  "find P [0..<n] = Some i \<Longrightarrow> i < n \<and> P i \<and> (\<forall>j < i. \<not> P j)"
  by (auto simp: find_Some_iff)

lemma find_upt_None: "find P [0..<n] = None \<longleftrightarrow> (\<forall>i < n. \<not> P i)"
  by (auto simp: find_None_iff)

lemma used_put: "i < length m \<Longrightarrow> m ! i = None \<Longrightarrow> used (m[i := Some d]) = Suc (used m)"
proof (induction m arbitrary: i)
  case (Cons x m)
  then show ?case by (cases i) (auto simp: used_def)
qed simp

lemma used_clear: "i < length m \<Longrightarrow> m ! i = Some d \<Longrightarrow> Suc (used (m[i := None])) = used m"
proof (induction m arbitrary: i)
  case (Cons x m)
  then show ?case by (cases i) (auto simp: used_def)
qed simp

lemma used_pos: "used m > 0 \<longleftrightarrow> (\<exists>i < length m. m ! i \<noteq> None)"
  unfolding used_def by (auto simp: filter_empty_conv in_set_conv_nth Ball_def)

lemma used_le: "used m \<le> length m"
  by (simp add: used_def)

lemma slot_bit_nonzero: "i < 8 \<Longrightarrow> (push_bit i 1 :: 32 word) \<noteq> 0"
proof
  assume i: "i < 8" and "(push_bit i 1 :: 32 word) = 0"
  then have "\<not> bit (push_bit i 1 :: 32 word) i" by simp
  then show False using i by (simp add: bit_simps del: push_bit_of_1)
qed

lemma slot_bit_inj:
  assumes "i < 8" and "j < 8" and "(push_bit i 1 :: 32 word) = push_bit j 1"
  shows "i = j"
proof -
  have "bit (push_bit i 1 :: 32 word) i" using assms(1) by (simp add: bit_simps del: push_bit_of_1)
  then have "bit (push_bit j 1 :: 32 word) i" by (simp only: assms(3))
  then show ?thesis using assms(1) by (simp add: bit_simps del: push_bit_of_1)
qed

text \<open>A mixing slot holds a device at most once.\<close>

lemma mix_ok_slots_distinct:
  assumes "mix_ok t s" and "i < 8" and "j < 8"
    and "t_mix_devs (tagm s t) ! i = Some d" and "t_mix_devs (tagm s t) ! j = Some d"
  shows "i = j"
  using assms(1-3) slot_bit_inj [of i j] assms(4,5) unfolding mix_ok_def Let_def by metis

subsection \<open>Frames\<close>

lemma netmx_frame [frame_simps]:
  "tagm (snd (netmx_open_dev d s)) = tagm s" "tagm (snd (netmx_close_dev d s)) = tagm s"
  "d_mixbit (dev (snd (netmx_open_dev d s)) e) = d_mixbit (dev s e)"
  "d_mixbit (dev (snd (netmx_close_dev d s)) e) = d_mixbit (dev s e)"
  "d_tag (dev (snd (netmx_open_dev d s)) e) = d_tag (dev s e)"
  "d_tag (dev (snd (netmx_close_dev d s)) e) = d_tag (dev s e)"
  "d_open (dev (snd (netmx_open_dev d s)) e) = d_open (dev s e)"
  "d_open (dev (snd (netmx_close_dev d s)) e) = d_open (dev s e)"
  "d_type (dev (snd (netmx_open_dev d s)) e) = d_type (dev s e)"
  "d_type (dev (snd (netmx_close_dev d s)) e) = d_type (dev s e)"
  "d_active (dev (snd (netmx_open_dev d s)) e) = d_active (dev s e)"
  "d_active (dev (snd (netmx_close_dev d s)) e) = d_active (dev s e)"
  "hp (snd (netmx_open_dev d s)) = hp s" "hp (snd (netmx_close_dev d s)) = hp s"
  "devs (snd (netmx_open_dev d s)) = devs s" "devs (snd (netmx_close_dev d s)) = devs s"
  by (auto simp: netmx_open_dev_def netmx_close_dev_def upd_dev_def Let_def split: option.splits)

lemma mix_ok_cong:
  assumes "tagm s' t = tagm s t" and "\<And>d. d_mixbit (dev s' d) = d_mixbit (dev s d)"
    and "\<And>d. d_tag (dev s' d) = d_tag (dev s d)"
  shows "mix_ok t s' \<longleftrightarrow> mix_ok t s"
  using assms by (simp add: mix_ok_def)

lemma mix_ok_cong_slots:
  assumes "t_mix_devs (tagm s' t) = t_mix_devs (tagm s t)" and "t_mix_ref (tagm s' t) = t_mix_ref (tagm s t)"
    and "t_mix_count (tagm s' t) = t_mix_count (tagm s t)"
    and "\<And>d. d_mixbit (dev s' d) = d_mixbit (dev s d)"
    and "\<And>d. d_tag (dev s' d) = d_tag (dev s d)"
  shows "mix_ok t s' \<longleftrightarrow> mix_ok t s"
  using assms by (simp add: mix_ok_def Let_def)

lemma MIX_OPEN_DEV_mix_ok: "MIX_OPEN_DEV d s = Some s' \<Longrightarrow> mix_ok t s' \<longleftrightarrow> mix_ok t s"
  by (rule mix_ok_cong) (auto simp: MIX_OPEN_DEV_def frame_simps split: option.splits mixer.splits)

lemma MIX_CLOSE_DEV_mix_ok: "MIX_CLOSE_DEV d s = Some s' \<Longrightarrow> mix_ok t s' \<longleftrightarrow> mix_ok t s"
  by (rule mix_ok_cong) (auto simp: MIX_CLOSE_DEV_def frame_simps split: option.splits mixer.splits)

subsection \<open>Preservation\<close>

text \<open>The state tag_add_outstanding reaches before it opens the mixer device.\<close>

definition take_slot :: "int \<Rightarrow> int \<Rightarrow> nat \<Rightarrow> srv \<Rightarrow> srv" where
  "take_slot t d i s =
     upd_dev d (\<lambda>D. D\<lparr>d_mixbit := push_bit i 1, d_timeouts := 0\<rparr>)
       (upd_tag t (\<lambda>T. T\<lparr>t_mix_devs := (t_mix_devs T)[i := Some d],
          t_mix_ref := (if (t_mix_devs T)[i := Some d] ! t_mix_ref T = None then i else t_mix_ref T),
          t_mix_count := t_mix_count T + 1\<rparr>) s)"

lemma tag_add_outstanding_alt:
  "tag_add_outstanding t d s =
     (if d_mixbit (dev s d) \<noteq> 0 then Some s
      else case find (\<lambda>i. t_mix_devs (tagm s t) ! i = None) [0..<8] of
        None \<Rightarrow> Some s
      | Some i \<Rightarrow> MIX_OPEN_DEV d (take_slot t d i s))"
proof -
  have eq: "take_slot t d i s = upd_tag t (\<lambda>T. T\<lparr>t_mix_count := t_mix_count T + 1\<rparr>)
    (upd_tag t (\<lambda>T. if t_mix_devs T ! t_mix_ref T = None then T\<lparr>t_mix_ref := i\<rparr> else T)
      (upd_dev d (\<lambda>D. D\<lparr>d_mixbit := push_bit i 1, d_timeouts := 0\<rparr>)
        (upd_tag t (\<lambda>T. T\<lparr>t_mix_devs := (t_mix_devs T)[i := Some d]\<rparr>) s)))" for i
    unfolding take_slot_def upd_tag_dev upd_tag_tag
    by (rule arg_cong [of _ _ "upd_dev d _"]) (simp add: upd_tag_def)
  show ?thesis unfolding tag_add_outstanding_def Let_def eq ..
qed

lemma take_slot_mix_ok:
  assumes ok: "mix_ok t s" and free: "i < 8" "t_mix_devs (tagm s t) ! i = None"
    and bit: "d_mixbit (dev s d) = 0" and tag: "d_tag (dev s d) = Some t"
  shows "mix_ok t (take_slot t d i s)"
proof -
  define m where "m = t_mix_devs (tagm s t)"
  have m: "length m = 8" "t_mix_ref (tagm s t) < 8" "t_mix_count (tagm s t) = int (used m)"
    "\<And>j e. j < 8 \<Longrightarrow> m ! j = Some e \<Longrightarrow> d_mixbit (dev s e) = push_bit j 1 \<and> d_tag (dev s e) = Some t"
    "used m > 0 \<Longrightarrow> m ! t_mix_ref (tagm s t) \<noteq> None"
    "\<And>e. d_tag (dev s e) = Some t \<Longrightarrow> d_mixbit (dev s e) \<noteq> 0 \<Longrightarrow> Some e \<in> set m"
    using ok by (auto simp: mix_ok_def m_def Let_def)
  have d: "Some d \<notin> set m"
    using m(1,4) bit slot_bit_nonzero by (metis in_set_conv_nth)
  have fr: "m ! i = None" "i < length m" using free m(1) by (simp_all add: m_def)
  have T: "t_mix_devs (tagm (take_slot t d i s) t) = m[i := Some d]"
    "t_mix_count (tagm (take_slot t d i s) t) = int (used m) + 1"
    "t_mix_ref (tagm (take_slot t d i s) t)
       = (if m[i := Some d] ! t_mix_ref (tagm s t) = None then i else t_mix_ref (tagm s t))"
    using m(3) by (simp_all add: take_slot_def m_def)
  have D: "d_mixbit (dev (take_slot t d i s) e) = (if e = d then push_bit i 1 else d_mixbit (dev s e))"
    "d_tag (dev (take_slot t d i s) e) = d_tag (dev s e)" for e
    by (simp_all add: take_slot_def)
  have 1: "d_mixbit (dev (take_slot t d i s) e) = push_bit j 1 \<and> d_tag (dev s e) = Some t"
    if "j < 8" "m[i := Some d] ! j = Some e" for j e
  proof (cases "j = i")
    case True
    then show ?thesis using that fr D(1) tag by simp
  next
    case False
    then have "m ! j = Some e" using that(2) by simp
    moreover from this have "e \<noteq> d" using d that(1) m(1) by (metis nth_mem)
    ultimately show ?thesis using m(4) that(1) D(1) by simp
  qed
  have 2: "Some e \<in> set (m[i := Some d])"
    if "d_tag (dev s e) = Some t" "d_mixbit (dev (take_slot t d i s) e) \<noteq> 0" for e
  proof (cases "e = d")
    case True
    then show ?thesis using fr by (simp add: set_update_memI)
  next
    case False
    then have "Some e \<in> set m" using m(6) that D(1) by simp
    then obtain j where "j < length m" "m ! j = Some e" by (auto simp: in_set_conv_nth)
    moreover from this fr have "j \<noteq> i" by auto
    ultimately show ?thesis by (metis length_list_update nth_list_update_neq nth_mem)
  qed
  have 3: "m[i := Some d] ! t_mix_ref (tagm (take_slot t d i s) t) \<noteq> None"
    using fr unfolding T by simp
  have 4: "t_mix_ref (tagm (take_slot t d i s) t) < 8"
    unfolding T using m(2) free(1) by simp
  show ?thesis
    unfolding mix_ok_def Let_def T(1,2) D(2) using 1 2 3 4 m(1) used_put [OF fr(2,1)] by auto
qed

lemma tag_add_outstanding_mix_ok:
  assumes "mix_ok t s" and "tag_add_outstanding t d s = Some s'" and "d_tag (dev s d) = Some t"
  shows "mix_ok t s'"
  using assms take_slot_mix_ok [OF assms(1) _ _ _ assms(3)] MIX_OPEN_DEV_mix_ok [of d _ s' t]
  by (auto simp: tag_add_outstanding_alt split: if_splits option.splits dest!: find_upt)

text \<open>With a slot free the device gets one.\<close>

lemma tag_add_outstanding_gets:
  assumes "mix_ok t s" and "t_mix_count (tagm s t) < 8" and "d_tag (dev s d) = Some t"
  shows "\<exists>s'. tag_add_outstanding t d s = Some s' \<and> d_mixbit (dev s' d) \<noteq> 0"
proof (cases "d_mixbit (dev s d) = 0")
  case True
  let ?m = "t_mix_devs (tagm s t)"
  have m: "length ?m = 8" "used ?m < 8" using assms(1,2) by (auto simp: mix_ok_def Let_def)
  have "find (\<lambda>i. ?m ! i = None) [0..<8] \<noteq> None"
  proof
    assume "find (\<lambda>i. ?m ! i = None) [0..<8] = None"
    then have "\<forall>x \<in> set ?m. x \<noteq> None" using m(1) unfolding find_upt_None by (metis in_set_conv_nth)
    then have "used ?m = 8" using m(1) by (simp add: used_def)
    with m(2) show False by simp
  qed
  then obtain i where i: "find (\<lambda>i. ?m ! i = None) [0..<8] = Some i" by auto
  have t: "d_tag (dev (take_slot t d i s) d) = Some t" using assms(3) by (simp add: take_slot_def)
  have "d_mixbit (dev (take_slot t d i s) d) = push_bit i 1" by (simp add: take_slot_def)
  moreover have "i < 8" using find_upt [OF i] by simp
  ultimately show ?thesis
    using i True t slot_bit_nonzero [of i]
    by (auto simp: tag_add_outstanding_alt MIX_OPEN_DEV_def frame_simps split: mixer.splits)
qed (simp add: tag_add_outstanding_def)

text \<open>The state tag_rm_outstanding reaches before it clears the mix bit.\<close>

definition give_slot :: "int \<Rightarrow> nat \<Rightarrow> srv \<Rightarrow> srv" where
  "give_slot t i s = upd_tag t (\<lambda>T. T
     \<lparr>t_mix_ref := (if t_mix_ref T = i
        then (case next_ref (t_mix_devs T) i of None \<Rightarrow> t_mix_ref T | Some j \<Rightarrow> j)
        else t_mix_ref T),
      t_mix_devs := (t_mix_devs T)[i := None],
      t_mix_count := t_mix_count T - 1\<rparr>) s"

lemma tag_rm_outstanding_alt:
  "tag_rm_outstanding t d s =
     MIX_CLOSE_DEV d (upd_dev d (\<lambda>D. D\<lparr>d_mixbit := 0\<rparr>)
       (case find (\<lambda>i. t_mix_devs (tagm s t) ! i = Some d) [0..<8] of
          None \<Rightarrow> s | Some i \<Rightarrow> give_slot t i s))"
  unfolding tag_rm_outstanding_def give_slot_def Let_def ..

lemma next_ref_Some: "next_ref m i = Some j \<Longrightarrow> j < 8 \<and> j \<noteq> i \<and> m ! j \<noteq> None"
  unfolding next_ref_def by (drule find_upt) simp

lemma next_ref_None: "next_ref m i = None \<longleftrightarrow> (\<forall>j < 8. j \<noteq> i \<longrightarrow> m ! j = None)"
  by (auto simp: next_ref_def find_upt_None)

lemma give_slot_mix_ok:
  assumes ok: "mix_ok t s" and i: "i < 8" "t_mix_devs (tagm s t) ! i = Some d"
  shows "mix_ok t (upd_dev d (\<lambda>D. D\<lparr>d_mixbit := 0\<rparr>) (give_slot t i s))"
    (is "mix_ok t ?s")
proof -
  define m r where "m = t_mix_devs (tagm s t)" and "r = t_mix_ref (tagm s t)"
  have m: "length m = 8" "r < 8" "t_mix_count (tagm s t) = int (used m)"
    "\<And>j e. j < 8 \<Longrightarrow> m ! j = Some e \<Longrightarrow> d_mixbit (dev s e) = push_bit j 1 \<and> d_tag (dev s e) = Some t"
    "used m > 0 \<Longrightarrow> m ! r \<noteq> None"
    "\<And>e. d_tag (dev s e) = Some t \<Longrightarrow> d_mixbit (dev s e) \<noteq> 0 \<Longrightarrow> Some e \<in> set m"
    using ok by (auto simp: mix_ok_def m_def r_def Let_def)
  have mi: "m ! i = Some d" "i < length m" using i m(1) by (simp_all add: m_def)
  have only: "j = i" if "j < 8" "m ! j = Some d" for j
    using mix_ok_slots_distinct [OF ok that(1) i(1)] that(2) i(2) by (simp add: m_def)
  define r' where "r' = (if r = i then (case next_ref m i of None \<Rightarrow> r | Some j \<Rightarrow> j) else r)"
  have T: "t_mix_devs (tagm ?s t) = m[i := None]" "t_mix_count (tagm ?s t) = int (used m) - 1"
    "t_mix_ref (tagm ?s t) = r'"
    using m(3) by (simp_all add: give_slot_def m_def r_def r'_def cong: option.case_cong)
  have D: "d_mixbit (dev ?s e) = (if e = d then 0 else d_mixbit (dev s e))"
    "d_tag (dev ?s e) = d_tag (dev s e)" for e
    by (simp_all add: give_slot_def)
  have 1: "d_mixbit (dev ?s e) = push_bit j 1 \<and> d_tag (dev s e) = Some t" if "j < 8" "m[i := None] ! j = Some e" for j e
  proof -
    have "j \<noteq> i" using that mi(2) by auto
    then have "m ! j = Some e" using that(2) by simp
    moreover from this have "e \<noteq> d" using only that(1) \<open>j \<noteq> i\<close> by blast
    ultimately show ?thesis unfolding D(1) using m(4) that(1) by simp
  qed
  have 2: "Some e \<in> set (m[i := None])"
    if "d_tag (dev s e) = Some t" "d_mixbit (dev ?s e) \<noteq> 0" for e
  proof -
    have e: "e \<noteq> d" "Some e \<in> set m" using m(6) that unfolding D(1) by (auto split: if_splits)
    then obtain j where "j < length m" "m ! j = Some e" by (auto simp: in_set_conv_nth)
    moreover from this e(1) mi have "j \<noteq> i" by auto
    ultimately show ?thesis by (metis length_list_update nth_list_update_neq nth_mem)
  qed
  have 3: "m[i := None] ! r' \<noteq> None" if "used (m[i := None]) > 0"
  proof -
    from that obtain j where j: "j < 8" "m[i := None] ! j \<noteq> None"
      using m(1) unfolding used_pos by auto
    have "j \<noteq> i" using j(2) mi(2) by auto
    moreover from this have "m ! j \<noteq> None" using j(2) by simp
    ultimately have "next_ref m i \<noteq> None" using j(1) by (auto simp: next_ref_None)
    moreover have "used m > 0" using mi m(1) unfolding used_pos by auto
    ultimately show ?thesis
      using m(5) next_ref_Some [of m i] by (auto simp: r'_def split: option.splits)
  qed
  have 4: "r' < 8" using m(2) next_ref_Some [of m i] by (auto simp: r'_def split: option.splits)
  show ?thesis
    unfolding mix_ok_def Let_def T D(2) using 1 2 3 4 m(1) used_clear [OF mi(2,1)] by auto
qed

text \<open>A device of the tag that is in no slot has no mix bit to clear.\<close>

lemma clear_bit_mix_ok:
  assumes "mix_ok t s" and "Some d \<notin> set (t_mix_devs (tagm s t))"
  shows "mix_ok t (upd_dev d (\<lambda>D. D\<lparr>d_mixbit := 0\<rparr>) s)"
  using assms unfolding mix_ok_def Let_def by (auto simp: in_set_conv_nth)

lemma tag_rm_outstanding_mix_ok:
  assumes "mix_ok t s" and "tag_rm_outstanding t d s = Some s'"
  shows "mix_ok t s'"
proof (cases "find (\<lambda>i. t_mix_devs (tagm s t) ! i = Some d) [0..<8]")
  case None
  have "length (t_mix_devs (tagm s t)) = 8" using assms(1) by (simp add: mix_ok_def Let_def)
  then have "Some d \<notin> set (t_mix_devs (tagm s t))"
    using None unfolding find_upt_None by (auto simp: in_set_conv_nth)
  from clear_bit_mix_ok [OF assms(1) this] assms(2) None MIX_CLOSE_DEV_mix_ok show ?thesis
    by (simp add: tag_rm_outstanding_alt)
next
  case (Some i)
  from give_slot_mix_ok [OF assms(1), of i d] find_upt [OF Some] assms(2) Some
    MIX_CLOSE_DEV_mix_ok show ?thesis
    by (simp add: tag_rm_outstanding_alt)
qed

text \<open>Afterwards the device is in no slot and has no mix bit.\<close>

lemma tag_rm_outstanding_gone:
  assumes "mix_ok t s" and "tag_rm_outstanding t d s = Some s'"
  shows "d_mixbit (dev s' d) = 0 \<and> Some d \<notin> set (t_mix_devs (tagm s' t))"
proof -
  have ok: "mix_ok t s'" by (rule tag_rm_outstanding_mix_ok [OF assms])
  have "d_mixbit (dev s' d) = 0"
    using assms(2)
    by (auto simp: tag_rm_outstanding_alt MIX_CLOSE_DEV_def frame_simps split: option.splits mixer.splits)
  moreover have "Some d \<notin> set (t_mix_devs (tagm s' t))"
  proof
    assume "Some d \<in> set (t_mix_devs (tagm s' t))"
    then obtain j where "j < 8" "t_mix_devs (tagm s' t) ! j = Some d"
      using ok by (auto simp: mix_ok_def Let_def in_set_conv_nth)
    then have "d_mixbit (dev s' d) = push_bit j 1" using ok by (simp add: mix_ok_def Let_def)
    then show False using calculation slot_bit_nonzero [OF \<open>j < 8\<close>] by simp
  qed
  ultimately show ?thesis by blast
qed

text \<open>Neither operation faults when the device has a tag.\<close>

lemma MIX_OPEN_DEV_defined: "d_tag (dev s d) \<noteq> None \<Longrightarrow> \<exists>s'. MIX_OPEN_DEV d s = Some s'"
  by (auto simp: MIX_OPEN_DEV_def)

lemma MIX_CLOSE_DEV_defined: "d_tag (dev s d) \<noteq> None \<Longrightarrow> \<exists>s'. MIX_CLOSE_DEV d s = Some s'"
  by (auto simp: MIX_CLOSE_DEV_def)

lemma tag_add_outstanding_defined:
  "d_tag (dev s d) \<noteq> None \<Longrightarrow> \<exists>s'. tag_add_outstanding t d s = Some s'"
  by (auto simp: tag_add_outstanding_alt take_slot_def split: option.splits
      intro!: MIX_OPEN_DEV_defined)

lemma tag_rm_outstanding_defined:
  "d_tag (dev s d) \<noteq> None \<Longrightarrow> \<exists>s'. tag_rm_outstanding t d s = Some s'"
  by (auto simp: tag_rm_outstanding_alt give_slot_def split: option.splits
      intro!: MIX_CLOSE_DEV_defined)

text \<open>What the two operations leave alone.\<close>

definition keeps :: "srv \<Rightarrow> srv \<Rightarrow> bool" where
  "keeps s s' \<longleftrightarrow>
     hp s' = hp s \<and> devs s' = devs s \<and> tags s' = tags s \<and> grp s' = grp s \<and> grps s' = grps s
     \<and> dbdev s' = dbdev s \<and> dbgrp s' = dbgrp s \<and> votem s' = votem s \<and> outs s' = outs s
     \<and> ptc_curr s' = ptc_curr s \<and> ptcs s' = ptcs s
     \<and> (\<forall>e. d_tag (dev s' e) = d_tag (dev s e) \<and> d_open (dev s' e) = d_open (dev s e)
          \<and> d_type (dev s' e) = d_type (dev s e) \<and> d_active (dev s' e) = d_active (dev s e)
          \<and> d_sub (dev s' e) = d_sub (dev s e) \<and> d_group (dev s' e) = d_group (dev s e)
          \<and> d_ops (dev s' e) = d_ops (dev s e) \<and> d_fifo (dev s' e) = d_fifo (dev s e)
          \<and> d_forbidden (dev s' e) = d_forbidden (dev s e))
     \<and> (\<forall>u. t_openuser (tagm s' u) = t_openuser (tagm s u) \<and> t_maxuser (tagm s' u) = t_maxuser (tagm s u)
          \<and> t_mode (tagm s' u) = t_mode (tagm s u) \<and> t_id (tagm s' u) = t_id (tagm s u)
          \<and> t_interp_mode (tagm s' u) = t_interp_mode (tagm s u) \<and> t_mixer (tagm s' u) = t_mixer (tagm s u))"

lemma keeps_refl [simp]: "keeps s s"
  by (simp add: keeps_def)

lemma keeps_trans: "keeps s t \<Longrightarrow> keeps t u \<Longrightarrow> keeps s u"
  by (simp add: keeps_def)

lemma keeps_netmx: "keeps s (snd (netmx_open_dev d s))" "keeps s (snd (netmx_close_dev d s))"
  by (auto simp: keeps_def netmx_open_dev_def netmx_close_dev_def upd_dev_def Let_def split: option.splits)

lemma keeps_MIX:
  "MIX_OPEN_DEV d s = Some s' \<Longrightarrow> keeps s s'" "MIX_CLOSE_DEV d s = Some s' \<Longrightarrow> keeps s s'"
  by (auto simp: MIX_OPEN_DEV_def MIX_CLOSE_DEV_def keeps_netmx split: option.splits mixer.splits)

lemma keeps_take_slot: "keeps s (take_slot t d i s)"
  by (simp add: keeps_def take_slot_def)

lemma keeps_tag_add_outstanding: "tag_add_outstanding t d s = Some s' \<Longrightarrow> keeps s s'"
  using keeps_trans [OF keeps_take_slot keeps_MIX(1)]
  by (auto simp: tag_add_outstanding_alt split: if_splits option.splits)

lemma keeps_tag_rm_outstanding: "tag_rm_outstanding t d s = Some s' \<Longrightarrow> keeps s s'"
proof -
  assume run: "tag_rm_outstanding t d s = Some s'"
  let ?s = "upd_dev d (\<lambda>D. D\<lparr>d_mixbit := 0\<rparr>)
       (case find (\<lambda>i. t_mix_devs (tagm s t) ! i = Some d) [0..<8] of
          None \<Rightarrow> s | Some i \<Rightarrow> give_slot t i s)"
  have "keeps s ?s" by (simp add: keeps_def give_slot_def split: option.splits)
  moreover have "keeps ?s s'" using run keeps_MIX(2) unfolding tag_rm_outstanding_alt by blast
  ultimately show ?thesis by (rule keeps_trans)
qed

text \<open>The slots of the other tags.\<close>

lemma mix_ok_other:
  assumes "mix_ok u s" and "d_tag (dev s d) = Some t" and "u \<noteq> t"
    and "tagm s' u = tagm s u" and "\<And>e. d_tag (dev s' e) = d_tag (dev s e)"
    and "\<And>e. e \<noteq> d \<Longrightarrow> d_mixbit (dev s' e) = d_mixbit (dev s e)"
  shows "mix_ok u s'"
proof -
  have ne: "e \<noteq> d" if "d_tag (dev s e) = Some u" for e using that assms(2,3) by auto
  have bits: "d_tag (dev s e) = Some u \<Longrightarrow> d_mixbit (dev s' e) = d_mixbit (dev s e)" for e
    using ne assms(6) by blast
  show ?thesis
    using assms(1) unfolding mix_ok_def Let_def assms(4,5) using bits by metis
qed

lemma MIX_sel:
  "MIX_OPEN_DEV d s = Some s' \<Longrightarrow> tagm s' = tagm s \<and> (\<forall>e. d_mixbit (dev s' e) = d_mixbit (dev s e))"
  "MIX_CLOSE_DEV d s = Some s' \<Longrightarrow> tagm s' = tagm s \<and> (\<forall>e. d_mixbit (dev s' e) = d_mixbit (dev s e))"
  by (auto simp: MIX_OPEN_DEV_def MIX_CLOSE_DEV_def frame_simps split: option.splits mixer.splits)

lemma tag_add_outstanding_other:
  assumes "tag_add_outstanding t d s = Some s'"
  shows "u \<noteq> t \<Longrightarrow> tagm s' u = tagm s u" and "e \<noteq> d \<Longrightarrow> d_mixbit (dev s' e) = d_mixbit (dev s e)"
  using assms MIX_sel(1) [of d "take_slot t d _ s" s']
  by (auto simp: tag_add_outstanding_alt take_slot_def split: if_splits option.splits)

lemma tag_rm_outstanding_other:
  assumes "tag_rm_outstanding t d s = Some s'"
  shows "u \<noteq> t \<Longrightarrow> tagm s' u = tagm s u" and "e \<noteq> d \<Longrightarrow> d_mixbit (dev s' e) = d_mixbit (dev s e)"
  using MIX_sel(2) [OF assms [unfolded tag_rm_outstanding_alt]]
  by (auto simp: give_slot_def split: option.splits)

lemma tag_add_outstanding_mix_all:
  assumes "\<forall>u \<in> set (tags s). mix_ok u s" and "tag_add_outstanding t d s = Some s'"
    and "d_tag (dev s d) = Some t"
  shows "\<forall>u \<in> set (tags s'). mix_ok u s'"
proof
  fix u assume "u \<in> set (tags s')"
  then have u: "mix_ok u s" using assms(1) keeps_tag_add_outstanding [OF assms(2)] by (simp add: keeps_def)
  show "mix_ok u s'"
  proof (cases "u = t")
    case True
    then show ?thesis using tag_add_outstanding_mix_ok assms(2,3) u by blast
  next
    case False
    show ?thesis
      by (rule mix_ok_other [OF u assms(3) False])
        (use tag_add_outstanding_other [OF assms(2)] False keeps_tag_add_outstanding [OF assms(2)]
          in \<open>auto simp: keeps_def\<close>)
  qed
qed

lemma tag_rm_outstanding_mix_all:
  assumes "\<forall>u \<in> set (tags s). mix_ok u s" and "tag_rm_outstanding t d s = Some s'"
    and "d_tag (dev s d) = Some t"
  shows "\<forall>u \<in> set (tags s'). mix_ok u s'"
proof
  fix u assume "u \<in> set (tags s')"
  then have u: "mix_ok u s" using assms(1) keeps_tag_rm_outstanding [OF assms(2)] by (simp add: keeps_def)
  show "mix_ok u s'"
  proof (cases "u = t")
    case True
    then show ?thesis using tag_rm_outstanding_mix_ok assms(2) u by blast
  next
    case False
    show ?thesis
      by (rule mix_ok_other [OF u assms(3) False])
        (use tag_rm_outstanding_other [OF assms(2)] False keeps_tag_rm_outstanding [OF assms(2)]
          in \<open>auto simp: keeps_def\<close>)
  qed
qed

end
