(* ===== verification/Brcmd.thy ===== *)
theory Brcmd
  imports State
begin

text \<open>
  serv/brcmd.c: broadcasting a command to everybody, to a tag or to a list of device ids. A
  datagram carries a 12 byte header, a sequence number of 16 bits, and the command with its
  ending zero; the multicast form puts the number of ids and the ids in front, at most 256 of
  them in one datagram. init_args refuses datagrams longer than CMD_MAX - 100. The sending
  thread (run_brcast) repeats each datagram ten times; the trace holds it once.
\<close>

definition CMD_MAX :: int where "CMD_MAX = 10240"

definition UCMD_HEAD :: int where "UCMD_HEAD = 12"

text \<open>async_brcast with the length check of init_args.\<close>

definition async_brcast :: "int \<Rightarrow> bmode \<Rightarrow> payload \<Rightarrow> srv \<Rightarrow> srv" where
  "async_brcast len mode p s =
     (let s1 = s\<lparr>br_seq := br_seq s + 1\<rparr>
      in if len > CMD_MAX - 100 then s1 else emit (Brcast (br_seq s1 mod 65536) mode p) s1)"

definition brcast_data_to_all :: "payload \<Rightarrow> int \<Rightarrow> srv \<Rightarrow> srv" where
  "brcast_data_to_all p len s = async_brcast (UCMD_HEAD + len) ModeAll p s"

definition brcast_cmd_to_all :: "cmd \<Rightarrow> srv \<Rightarrow> srv" where
  "brcast_cmd_to_all c s = brcast_data_to_all (Text (c_rep c)) (int (length (c_rep c)) + 1) s"

definition brcast_cmd_to_tag_all :: "cmd \<Rightarrow> int \<Rightarrow> srv \<Rightarrow> srv" where
  "brcast_cmd_to_tag_all c tagid s =
     async_brcast (UCMD_HEAD + int (length (c_rep c)) + 1) (ModeTag (tagid mod 256)) (Text (c_rep c)) s"

definition make_brcmd_multi :: "cmd \<Rightarrow> int list \<Rightarrow> srv \<Rightarrow> srv" where
  "make_brcmd_multi c ids s =
     async_brcast (UCMD_HEAD + (4 + 4 * int (length ids) + int (length (c_rep c)) + 1))
       (ModeMulti ids) (Text (c_rep c)) s"

definition BR_N :: nat where "BR_N = 256"

text \<open>The loop over the full chunks i = 0, ..., m - 1, then the rest.\<close>

fun brcast_chunks :: "nat \<Rightarrow> nat \<Rightarrow> cmd \<Rightarrow> int list \<Rightarrow> srv \<Rightarrow> srv" where
  "brcast_chunks i 0 c ids s = s"
| "brcast_chunks i (Suc m) c ids s =
     brcast_chunks (Suc i) m c ids (make_brcmd_multi c (take BR_N (drop (i * BR_N) ids)) s)"

definition brcast_cmd_to_multi :: "cmd \<Rightarrow> int list \<Rightarrow> srv \<Rightarrow> srv" where
  "brcast_cmd_to_multi c ids s =
     (let n = length ids;
          m = n div BR_N;
          s1 = brcast_chunks 0 m c ids s;
          r = n mod BR_N
      in if r \<noteq> 0 then make_brcmd_multi c (take r (drop (m * BR_N) ids)) s1 else s1)"

subsection \<open>Everybody on the list is addressed once, in order\<close>

fun addressed :: "out list \<Rightarrow> int list" where
  "addressed [] = []"
| "addressed (Brcast q (ModeMulti ids) p # xs) = ids @ addressed xs"
| "addressed (_ # xs) = addressed xs"

lemma addressed_append: "addressed (xs @ ys) = addressed xs @ addressed ys"
  by (induction xs rule: addressed.induct) auto

lemma async_brcast_outs:
  "len \<le> CMD_MAX - 100 \<Longrightarrow>
    outs (async_brcast len mode p s) = outs s @ [Brcast ((br_seq s + 1) mod 65536) mode p]"
  by (simp add: async_brcast_def Let_def)

text \<open>A reply of at most 9099 characters fits with any number of ids.\<close>

lemma make_brcmd_multi_outs:
  assumes "length ids \<le> BR_N" and "length (c_rep c) \<le> 9099"
  shows "\<exists>q. outs (make_brcmd_multi c ids s) = outs s @ [Brcast q (ModeMulti ids) (Text (c_rep c))]"
  using assms by (simp add: make_brcmd_multi_def async_brcast_outs CMD_MAX_def UCMD_HEAD_def BR_N_def)

lemma brcast_chunks_outs:
  assumes "length (c_rep c) \<le> 9099"
  shows "\<exists>xs. outs (brcast_chunks i m c ids s) = outs s @ xs
    \<and> addressed xs = take (m * BR_N) (drop (i * BR_N) ids)
    \<and> (\<forall>x \<in> set xs. \<exists>q js. x = Brcast q (ModeMulti js) (Text (c_rep c)) \<and> length js \<le> BR_N)"
proof (induction m arbitrary: i s)
  case 0
  then show ?case by simp
next
  case (Suc m)
  let ?js = "take BR_N (drop (i * BR_N) ids)"
  let ?s = "make_brcmd_multi c ?js s"
  obtain q where q: "outs ?s = outs s @ [Brcast q (ModeMulti ?js) (Text (c_rep c))]"
    using make_brcmd_multi_outs [of ?js c s] assms by auto
  obtain xs where xs: "outs (brcast_chunks (Suc i) m c ids ?s) = outs ?s @ xs"
    "addressed xs = take (m * BR_N) (drop (Suc i * BR_N) ids)"
    "\<forall>x \<in> set xs. \<exists>q js. x = Brcast q (ModeMulti js) (Text (c_rep c)) \<and> length js \<le> BR_N"
    using Suc.IH [of "Suc i" ?s] by auto
  have "?js @ addressed xs = take (Suc m * BR_N) (drop (i * BR_N) ids)"
    unfolding xs(2) by (simp add: take_add add.commute)
  with q xs show ?case
    by (intro exI [of _ "Brcast q (ModeMulti ?js) (Text (c_rep c)) # xs"]) auto
qed

lemma brcast_multi_outs:
  assumes "length (c_rep c) \<le> 9099"
  shows "\<exists>xs. outs (brcast_cmd_to_multi c ids s) = outs s @ xs \<and> addressed xs = ids
    \<and> (\<forall>x \<in> set xs. \<exists>q js. x = Brcast q (ModeMulti js) (Text (c_rep c)) \<and> length js \<le> BR_N)"
proof -
  let ?n = "length ids" let ?m = "?n div BR_N" let ?r = "?n mod BR_N"
  let ?s = "brcast_chunks 0 ?m c ids s"
  let ?js = "take ?r (drop (?m * BR_N) ids)"
  obtain xs where xs: "outs ?s = outs s @ xs" "addressed xs = take (?m * BR_N) ids"
    "\<forall>x \<in> set xs. \<exists>q js. x = Brcast q (ModeMulti js) (Text (c_rep c)) \<and> length js \<le> BR_N"
    using brcast_chunks_outs [OF assms, of 0 ?m ids s] by auto
  have r: "?r = ?n - ?m * BR_N" by (simp add: minus_div_mult_eq_mod)
  have js: "?js = drop (?m * BR_N) ids" using r by simp
  show ?thesis
  proof (cases "?r = 0")
    case True
    then have "?m * BR_N = ?n" using div_mult_mod_eq [of ?n BR_N] by simp
    then show ?thesis using xs True by (auto simp: brcast_cmd_to_multi_def Let_def)
  next
    case False
    have "?r \<le> BR_N" by (simp add: BR_N_def)
    then have lj: "length ?js \<le> BR_N" by simp
    obtain q where q: "outs (make_brcmd_multi c ?js ?s)
        = outs ?s @ [Brcast q (ModeMulti ?js) (Text (c_rep c))]"
      using make_brcmd_multi_outs [OF lj assms] by blast
    have "brcast_cmd_to_multi c ids s = make_brcmd_multi c ?js ?s"
      using False by (simp add: brcast_cmd_to_multi_def Let_def)
    with q xs lj js show ?thesis
      by (intro exI [of _ "xs @ [Brcast q (ModeMulti ?js) (Text (c_rep c))]"])
        (auto simp: addressed_append simp del: take_eq_Nil)
  qed
qed

subsection \<open>Frames\<close>

lemma async_brcast_frame [simp, frame_simps]:
  "hp (async_brcast l m p s) = hp s" "dev (async_brcast l m p s) = dev s"
  "devs (async_brcast l m p s) = devs s" "tagm (async_brcast l m p s) = tagm s"
  "tags (async_brcast l m p s) = tags s" "grp (async_brcast l m p s) = grp s"
  "grps (async_brcast l m p s) = grps s" "dbdev (async_brcast l m p s) = dbdev s"
  "dbgrp (async_brcast l m p s) = dbgrp s" "votem (async_brcast l m p s) = votem s"
  "ptc_curr (async_brcast l m p s) = ptc_curr s" "ptcs (async_brcast l m p s) = ptcs s"
  by (simp_all add: async_brcast_def Let_def)

lemma brcast_all_frame [simp, frame_simps]:
  "hp (brcast_cmd_to_all c s) = hp s" "dev (brcast_cmd_to_all c s) = dev s"
  "devs (brcast_cmd_to_all c s) = devs s" "tagm (brcast_cmd_to_all c s) = tagm s"
  "tags (brcast_cmd_to_all c s) = tags s" "grp (brcast_cmd_to_all c s) = grp s"
  "grps (brcast_cmd_to_all c s) = grps s" "dbdev (brcast_cmd_to_all c s) = dbdev s"
  "dbgrp (brcast_cmd_to_all c s) = dbgrp s" "votem (brcast_cmd_to_all c s) = votem s"
  by (simp_all add: brcast_cmd_to_all_def brcast_data_to_all_def)

lemma brcast_multi_frame [simp, frame_simps]:
  "hp (brcast_cmd_to_multi c ids s) = hp s" "dev (brcast_cmd_to_multi c ids s) = dev s"
  "devs (brcast_cmd_to_multi c ids s) = devs s" "tagm (brcast_cmd_to_multi c ids s) = tagm s"
  "tags (brcast_cmd_to_multi c ids s) = tags s" "grp (brcast_cmd_to_multi c ids s) = grp s"
  "grps (brcast_cmd_to_multi c ids s) = grps s" "dbdev (brcast_cmd_to_multi c ids s) = dbdev s"
  "dbgrp (brcast_cmd_to_multi c ids s) = dbgrp s" "votem (brcast_cmd_to_multi c ids s) = votem s"
proof -
  have ch: "f (brcast_chunks i m c ids s) = f s" if "\<And>js s. f (make_brcmd_multi c js s) = f s"
    for f :: "srv \<Rightarrow> 'z" and i m
    using that by (induction m arbitrary: i s) auto
  have all: "f (brcast_cmd_to_multi c ids s) = f s" if "\<And>l m p s. f (async_brcast l m p s) = f s"
    for f :: "srv \<Rightarrow> 'z"
    using that ch [of f] by (simp add: brcast_cmd_to_multi_def make_brcmd_multi_def Let_def)
  show "hp (brcast_cmd_to_multi c ids s) = hp s" "dev (brcast_cmd_to_multi c ids s) = dev s"
    "devs (brcast_cmd_to_multi c ids s) = devs s" "tagm (brcast_cmd_to_multi c ids s) = tagm s"
    "tags (brcast_cmd_to_multi c ids s) = tags s" "grp (brcast_cmd_to_multi c ids s) = grp s"
    "grps (brcast_cmd_to_multi c ids s) = grps s" "dbdev (brcast_cmd_to_multi c ids s) = dbdev s"
    "dbgrp (brcast_cmd_to_multi c ids s) = dbgrp s" "votem (brcast_cmd_to_multi c ids s) = votem s"
    by (simp_all add: all)
qed

end
