(* ===== verification/Ptc.thy ===== *)
theory Ptc
  imports Brcmd
begin

text \<open>
  serv/ptc.c: the pan-tilt cameras follow the speakers. The devices whose microphone is open are
  stacked on ptc_head, the last one on top; curr is the device the camera was last sent to. A
  camera that has been used is remembered in ptcs[32] and is sent to its default position when
  the stack becomes empty. The invariant ptc_inv says that curr is the top of the stack and that
  exactly the stacked devices have links, which is how the code tells whether a device is pushed.
\<close>

definition add_ptc :: "int \<Rightarrow> srv \<Rightarrow> srv" where
  "add_ptc p s =
     (if p \<in> set (ptcs s) \<or> length (ptcs s) \<ge> 32 then s else s\<lparr>ptcs := ptcs s @ [p]\<rparr>)"

text \<open>The message is printed into buf[256]; a longer one overruns it.\<close>

definition ptc_send :: "int \<Rightarrow> srv \<Rightarrow> srv option" where
  "ptc_send d s =
     (case get_device s (dd_ptc_id (dbdev s d)) of
        None \<Rightarrow> Some s
      | Some p \<Rightarrow>
          (let ptcmd = dd_ptc_cmd (dbdev s d);
               buf = num_str d @ '' ptc '' @ num_str p @ '' '' @ ptcmd @ newline
           in if ptcmd = [] then Some (add_ptc p s)
              else if length buf \<ge> 256 then None
              else Some (add_ptc p (device_cmd p buf s))))"

text \<open>The loop of ptc_default with n iterations left; ptc_send may extend the array on the way.\<close>

fun ptc_default_from :: "nat \<Rightarrow> nat \<Rightarrow> srv \<Rightarrow> srv option" where
  "ptc_default_from i 0 s = Some s"
| "ptc_default_from i (Suc n) s =
     (if i < length (ptcs s)
      then do { s1 \<leftarrow> ptc_send (ptcs s ! i) s; ptc_default_from (Suc i) n s1 }
      else Some s)"

definition ptc_default :: "srv \<Rightarrow> srv option" where
  "ptc_default s = ptc_default_from 0 32 s"

definition is_pushed :: "int \<Rightarrow> srv \<Rightarrow> bool" where
  "is_pushed d s \<longleftrightarrow> lh_prev (hp s (DPtc d)) \<noteq> None \<and> lh_next (hp s (DPtc d)) \<noteq> None"

definition ptc_put :: "int \<Rightarrow> srv \<Rightarrow> srv option" where
  "ptc_put d s =
     do { s1 \<leftarrow> (if \<not> is_pushed d s then on_heap (list_add (DPtc d) PtcHead) s
                else on_heap (list_move (DPtc d) PtcHead) s);
          Some (s1\<lparr>ptc_curr := Some d\<rparr>) }"

definition ptc_push :: "int \<Rightarrow> srv \<Rightarrow> srv option" where
  "ptc_push d s = do { s1 \<leftarrow> ptc_put d s; ptc_send d s1 }"

definition ptc_remove :: "int \<Rightarrow> srv \<Rightarrow> srv option" where
  "ptc_remove d s =
     (if \<not> is_pushed d s then Some s
      else do { s1 \<leftarrow> on_heap (list_del (DPtc d)) s;
                if list_empty PtcHead (hp s1)
                then do { s2 \<leftarrow> ptc_default s1; Some (s2\<lparr>ptc_curr := None\<rparr>) }
                else if ptc_curr s1 = Some d
                then do { n \<leftarrow> lh_next (hp s1 PtcHead);
                          k \<leftarrow> dev_of n;
                          ptc_send k (s1\<lparr>ptc_curr := Some k\<rparr>) }
                else Some s1 })"

definition ptc_go_current :: "srv \<Rightarrow> srv option" where
  "ptc_go_current s = (case ptc_curr s of Some d \<Rightarrow> ptc_send d s | None \<Rightarrow> ptc_default s)"

definition is_ptc :: "int \<Rightarrow> srv \<Rightarrow> bool" where
  "is_ptc d s \<longleftrightarrow> dd_ptc_id (dbdev s d) = d"

subsection \<open>The stack\<close>

definition ptc_inv :: "srv \<Rightarrow> int list \<Rightarrow> bool" where
  "ptc_inv s xs \<longleftrightarrow>
     dlist (hp s) PtcHead (map DPtc xs)
     \<and> (\<forall>d. d \<notin> set xs \<longrightarrow> lh_next (hp s (DPtc d)) = None)
     \<and> ptc_curr s = (case xs of [] \<Rightarrow> None | x # _ \<Rightarrow> Some x)"

text \<open>The messages to the cameras change nothing but the trace and the known cameras.\<close>

lemma device_cmd_frame [simp, frame_simps]:
  "hp (device_cmd d x s) = hp s" "dev (device_cmd d x s) = dev s" "devs (device_cmd d x s) = devs s"
  "tagm (device_cmd d x s) = tagm s" "tags (device_cmd d x s) = tags s" "grp (device_cmd d x s) = grp s"
  "grps (device_cmd d x s) = grps s" "dbdev (device_cmd d x s) = dbdev s" "dbgrp (device_cmd d x s) = dbgrp s"
  "votem (device_cmd d x s) = votem s" "ptc_curr (device_cmd d x s) = ptc_curr s" "ptcs (device_cmd d x s) = ptcs s"
  by (simp_all add: device_cmd_def)

lemma device_save_frame [simp, frame_simps]:
  "hp (device_save d s) = hp s" "dev (device_save d s) = dev s" "devs (device_save d s) = devs s"
  "tagm (device_save d s) = tagm s" "tags (device_save d s) = tags s" "grp (device_save d s) = grp s"
  "grps (device_save d s) = grps s" "dbdev (device_save d s) = dbdev s" "dbgrp (device_save d s) = dbgrp s"
  "votem (device_save d s) = votem s" "ptc_curr (device_save d s) = ptc_curr s" "ptcs (device_save d s) = ptcs s"
  by (simp_all add: device_save_def)

lemma group_save_frame [simp, frame_simps]:
  "hp (group_save d s) = hp s" "dev (group_save d s) = dev s" "devs (group_save d s) = devs s"
  "tagm (group_save d s) = tagm s" "tags (group_save d s) = tags s" "grp (group_save d s) = grp s"
  "grps (group_save d s) = grps s" "dbdev (group_save d s) = dbdev s" "dbgrp (group_save d s) = dbgrp s"
  "votem (group_save d s) = votem s" "ptc_curr (group_save d s) = ptc_curr s"
  by (simp_all add: group_save_def)

lemma send_cmd_frame [simp, frame_simps]:
  "hp (send_cmd_to_dev c d s) = hp s" "dev (send_cmd_to_dev c d s) = dev s"
  "devs (send_cmd_to_dev c d s) = devs s" "tagm (send_cmd_to_dev c d s) = tagm s"
  "grp (send_cmd_to_dev c d s) = grp s" "dbdev (send_cmd_to_dev c d s) = dbdev s"
  "dbgrp (send_cmd_to_dev c d s) = dbgrp s" "votem (send_cmd_to_dev c d s) = votem s"
  "tags (send_cmd_to_dev c d s) = tags s" "grps (send_cmd_to_dev c d s) = grps s"
  by (simp_all add: send_cmd_to_dev_def)

lemma send_cmd_id_frame [simp, frame_simps]:
  "hp (send_cmd_to_dev_id c d s) = hp s" "dev (send_cmd_to_dev_id c d s) = dev s"
  "devs (send_cmd_to_dev_id c d s) = devs s" "tagm (send_cmd_to_dev_id c d s) = tagm s"
  "grp (send_cmd_to_dev_id c d s) = grp s" "dbdev (send_cmd_to_dev_id c d s) = dbdev s"
  "dbgrp (send_cmd_to_dev_id c d s) = dbgrp s" "votem (send_cmd_to_dev_id c d s) = votem s"
  "tags (send_cmd_to_dev_id c d s) = tags s" "grps (send_cmd_to_dev_id c d s) = grps s"
  by (simp_all add: send_cmd_to_dev_id_def)

definition ptc_same :: "srv \<Rightarrow> srv \<Rightarrow> bool" where
  "ptc_same s s' \<longleftrightarrow> s'\<lparr>ptcs := [], outs := []\<rparr> = s\<lparr>ptcs := [], outs := []\<rparr>"

lemma ptc_same_refl: "ptc_same s s"
  by (simp add: ptc_same_def)

lemma ptc_same_trans: "ptc_same s t \<Longrightarrow> ptc_same t u \<Longrightarrow> ptc_same s u"
  by (simp add: ptc_same_def)

lemma ptc_same_frame:
  assumes "ptc_same s s'"
  shows "hp s' = hp s" "dev s' = dev s" "devs s' = devs s" "tagm s' = tagm s" "tags s' = tags s"
    "grp s' = grp s" "grps s' = grps s" "dbdev s' = dbdev s" "dbgrp s' = dbgrp s" "ptc_curr s' = ptc_curr s"
    "votem s' = votem s"
  using arg_cong [OF assms [unfolded ptc_same_def], of hp] arg_cong [OF assms [unfolded ptc_same_def], of dev]
    arg_cong [OF assms [unfolded ptc_same_def], of devs] arg_cong [OF assms [unfolded ptc_same_def], of tagm]
    arg_cong [OF assms [unfolded ptc_same_def], of tags] arg_cong [OF assms [unfolded ptc_same_def], of grp]
    arg_cong [OF assms [unfolded ptc_same_def], of grps] arg_cong [OF assms [unfolded ptc_same_def], of dbdev]
    arg_cong [OF assms [unfolded ptc_same_def], of dbgrp] arg_cong [OF assms [unfolded ptc_same_def], of ptc_curr]
    arg_cong [OF assms [unfolded ptc_same_def], of votem]
  by simp_all

lemma ptc_same_emit: "ptc_same s (emit x s)"
  by (simp add: ptc_same_def emit_def)

lemma add_ptc_same: "ptc_same s (add_ptc p s)"
  by (simp add: add_ptc_def ptc_same_def)

lemma ptc_send_same: "ptc_send d s = Some s' \<Longrightarrow> ptc_same s s'"
  by (auto simp: ptc_send_def Let_def device_cmd_def add_ptc_same ptc_same_refl split: if_splits
      intro: ptc_same_trans [OF ptc_same_emit add_ptc_same])

lemma ptc_default_from_same: "ptc_default_from i n s = Some s' \<Longrightarrow> ptc_same s s'"
proof (induction n arbitrary: i s)
  case 0
  then show ?case by (simp add: ptc_same_refl)
next
  case (Suc n)
  then show ?case
    by (auto simp: ptc_same_refl split: if_splits intro: ptc_same_trans ptc_send_same)
qed

lemma ptc_inv_pushed:
  assumes "ptc_inv s xs"
  shows "is_pushed d s \<longleftrightarrow> d \<in> set xs"
proof
  assume "is_pushed d s"
  then show "d \<in> set xs" using assms by (auto simp: is_pushed_def ptc_inv_def)
next
  assume "d \<in> set xs"
  then obtain as bs where "xs = as @ d # bs" by (auto simp: in_set_conv_decomp)
  then have "dlist (hp s) PtcHead (map DPtc as @ DPtc d # map DPtc bs)"
    using assms by (simp add: ptc_inv_def)
  from dlist_neighbours [OF this] show "is_pushed d s" by (simp add: is_pushed_def)
qed

lemma map_DPtc_remove1: "remove1 (DPtc d) (map DPtc xs) = map DPtc (remove1 d xs)"
  by (induction xs) auto

lemma ptc_inv_same: "ptc_same s s' \<Longrightarrow> ptc_inv s' xs \<longleftrightarrow> ptc_inv s xs"
  by (auto simp: ptc_inv_def ptc_same_frame)

text \<open>What the stack operations may change: the links of the stack and the trace.\<close>

definition off_ptc :: "srv \<Rightarrow> srv" where
  "off_ptc s = s\<lparr>ptcs := [], outs := []\<rparr>
     \<lparr>hp := \<lambda>_. \<lparr>lh_next = None, lh_prev = None\<rparr>, ptc_curr := None\<rparr>"

definition ptc_frame :: "srv \<Rightarrow> srv \<Rightarrow> bool" where
  "ptc_frame s s' \<longleftrightarrow> off_ptc s' = off_ptc s
     \<and> (\<forall>n. n \<notin> insert PtcHead (range DPtc) \<longrightarrow> hp s' n = hp s n)"

lemma ptc_frameI:
  assumes "s' = s\<lparr>hp := h, ptc_curr := c\<rparr>"
    and "\<And>n. n \<notin> insert PtcHead (range DPtc) \<Longrightarrow> h n = hp s n"
  shows "ptc_frame s s'"
proof -
  have "off_ptc s' = off_ptc s" unfolding assms(1) off_ptc_def by (cases s) simp
  then show ?thesis using assms by (simp add: ptc_frame_def)
qed

lemma ptc_frame_same: "ptc_frame s t \<Longrightarrow> ptc_same t u \<Longrightarrow> ptc_frame s u"
  using ptc_same_frame(1) [of t u] by (simp add: ptc_frame_def ptc_same_def off_ptc_def)

lemma ptc_frame_refl: "ptc_frame s s"
  by (simp add: ptc_frame_def)

lemma ptc_frame_sel:
  assumes "ptc_frame s s'"
  shows "dev s' = dev s" "devs s' = devs s" "tagm s' = tagm s" "tags s' = tags s"
    "grp s' = grp s" "grps s' = grps s" "dbdev s' = dbdev s" "dbgrp s' = dbgrp s" "votem s' = votem s"
    "dlist (hp s) k ns \<Longrightarrow> insert k (set ns) \<inter> insert PtcHead (range DPtc) = {} \<Longrightarrow> dlist (hp s') k ns"
proof -
  have off: "off_ptc s' = off_ptc s" using assms by (simp add: ptc_frame_def)
  show "dev s' = dev s" "devs s' = devs s" "tagm s' = tagm s" "tags s' = tags s"
    "grp s' = grp s" "grps s' = grps s" "dbdev s' = dbdev s" "dbgrp s' = dbgrp s" "votem s' = votem s"
    using arg_cong [OF off, of dev] arg_cong [OF off, of devs] arg_cong [OF off, of tagm]
      arg_cong [OF off, of tags] arg_cong [OF off, of grp] arg_cong [OF off, of grps]
      arg_cong [OF off, of dbdev] arg_cong [OF off, of dbgrp] arg_cong [OF off, of votem]
    by (simp_all add: off_ptc_def)
  have "\<forall>n. n \<notin> insert PtcHead (range DPtc) \<longrightarrow> hp s' n = hp s n"
    using assms by (simp add: ptc_frame_def)
  then show "dlist (hp s) k ns \<Longrightarrow> insert k (set ns) \<inter> insert PtcHead (range DPtc) = {} \<Longrightarrow> dlist (hp s') k ns"
    by (elim dlist_other)
qed

lemma ptc_put_inv:
  assumes inv: "ptc_inv s xs"
  shows "\<exists>s'. ptc_put d s = Some s' \<and> ptc_inv s' (d # remove1 d xs) \<and> ptc_frame s s'"
proof -
  have dl: "dlist (hp s) PtcHead (map DPtc xs)"
    and un: "\<And>e. e \<notin> set xs \<Longrightarrow> lh_next (hp s (DPtc e)) = None"
    using inv by (simp_all add: ptc_inv_def)
  obtain h where h: "(if \<not> is_pushed d s then list_add (DPtc d) PtcHead (hp s)
        else list_move (DPtc d) PtcHead (hp s)) = Some h"
    "dlist h PtcHead (map DPtc (d # remove1 d xs))"
    "\<And>n. n \<notin> insert PtcHead (DPtc ` insert d (set xs)) \<Longrightarrow> h n = hp s n"
  proof (cases "d \<in> set xs")
    case True
    with list_move_same [OF dl, of "DPtc d"] obtain h where
      "list_move (DPtc d) PtcHead (hp s) = Some h" "dlist h PtcHead (map DPtc (d # remove1 d xs))"
      "\<forall>n. n \<notin> insert PtcHead (set (map DPtc xs)) \<longrightarrow> h n = hp s n"
      by (auto simp: map_DPtc_remove1)
    then show ?thesis using that [of h] True ptc_inv_pushed [OF inv] by simp
  next
    case False
    with list_add_dlist [OF dl, of "DPtc d"] obtain h where
      h: "list_add (DPtc d) PtcHead (hp s) = Some h" "dlist h PtcHead (DPtc d # map DPtc xs)"
      by auto
    then show ?thesis
      using that [of h] False ptc_inv_pushed [OF inv] list_add_frame [OF dl h(1)]
      by (simp add: remove1_idem)
  qed
  let ?s = "s\<lparr>hp := h, ptc_curr := Some d\<rparr>"
  have "ptc_put d s = Some ?s" using h(1) by (auto simp: ptc_put_def on_heap_def split: if_splits)
  moreover have "lh_next (h (DPtc e)) = None" if "e \<notin> set (d # remove1 d xs)" for e
  proof -
    have "e \<noteq> d" "e \<notin> set xs" using that by (auto simp: in_set_remove1)
    then have "h (DPtc e) = hp s (DPtc e)" by (intro h(3)) auto
    then show ?thesis using un [OF \<open>e \<notin> set xs\<close>] by simp
  qed
  then have "ptc_inv ?s (d # remove1 d xs)"
    using h(2) by (simp add: ptc_inv_def)
  moreover have "ptc_frame s ?s" by (rule ptc_frameI [OF refl]) (use h(3) in auto)
  ultimately show ?thesis by blast
qed

lemma ptc_push_inv:
  assumes "ptc_inv s xs" and "ptc_push d s = Some s'"
  shows "ptc_inv s' (d # remove1 d xs) \<and> ptc_frame s s'"
proof -
  obtain s1 where s1: "ptc_put d s = Some s1" "ptc_inv s1 (d # remove1 d xs)" "ptc_frame s s1"
    using ptc_put_inv [OF assms(1)] by blast
  then have "ptc_send d s1 = Some s'" using assms(2) by (simp add: ptc_push_def)
  then have "ptc_same s1 s'" by (rule ptc_send_same)
  with s1 show ?thesis using ptc_inv_same ptc_frame_same by blast
qed

lemma ptc_remove_inv:
  assumes inv: "ptc_inv s xs" and run: "ptc_remove d s = Some s'"
  shows "ptc_inv s' (remove1 d xs) \<and> ptc_frame s s'"
proof (cases "d \<in> set xs")
  case False
  then show ?thesis
    using run ptc_inv_pushed [OF inv] inv by (simp add: ptc_remove_def remove1_idem ptc_frame_refl)
next
  case True
  have dl: "dlist (hp s) PtcHead (map DPtc xs)"
    and un: "\<And>e. e \<notin> set xs \<Longrightarrow> lh_next (hp s (DPtc e)) = None"
    and cu: "ptc_curr s = Some (hd xs)"
    using inv True by (auto simp: ptc_inv_def split: list.splits)
  have dist: "distinct xs" using dlist_distinct [OF dl] by (simp add: distinct_map)
  obtain h where h: "list_del (DPtc d) (hp s) = Some h" "dlist h PtcHead (map DPtc (remove1 d xs))"
    "lh_next (h (DPtc d)) = None" "\<forall>n. n \<notin> insert PtcHead (set (map DPtc xs)) \<longrightarrow> h n = hp s n"
    using list_del_dlist [OF dl, of "DPtc d"] True by (auto simp: map_DPtc_remove1)
  let ?s = "s\<lparr>hp := h\<rparr>"
  have un': "lh_next (h (DPtc e)) = None" if "e \<notin> set (remove1 d xs)" for e
  proof (cases "e = d")
    case False
    then have "e \<notin> set xs" using that dist by simp
    then have "h (DPtc e) = hp s (DPtc e)" using h(4) by auto
    then show ?thesis using un [OF \<open>e \<notin> set xs\<close>] by simp
  qed (simp add: h(3))
  have fr: "ptc_frame s (?s\<lparr>ptc_curr := c\<rparr>)" for c by (rule ptc_frameI [OF refl]) (use h(4) in auto)
  have inv': "ptc_inv (?s\<lparr>ptc_curr := c\<rparr>) (remove1 d xs)"
    if "c = (case remove1 d xs of [] \<Rightarrow> None | x # _ \<Rightarrow> Some x)" for c
    using that h(2) un' by (simp add: ptc_inv_def)
  have pushed: "is_pushed d s" using True ptc_inv_pushed [OF inv] by simp
  have del: "on_heap (list_del (DPtc d)) s = Some ?s" using h(1) by (simp add: on_heap_def)
  have emp: "list_empty PtcHead h \<longleftrightarrow> remove1 d xs = []" using h(2) by simp
  show ?thesis
  proof (cases "remove1 d xs")
    case Nil
    obtain s2 where s2: "ptc_default ?s = Some s2" "s' = s2\<lparr>ptc_curr := None\<rparr>"
      using run pushed del emp Nil by (auto simp: ptc_remove_def)
    have same: "ptc_same ?s s2" using s2(1) unfolding ptc_default_def by (rule ptc_default_from_same)
    then have same': "ptc_same (?s\<lparr>ptc_curr := None\<rparr>) s'"
      unfolding ptc_same_def s2(2) by (cases s2) (cases s, simp)
    have "ptc_inv (?s\<lparr>ptc_curr := None\<rparr>) (remove1 d xs)" by (rule inv') (simp add: Nil)
    then show ?thesis using ptc_inv_same [OF same'] ptc_frame_same [OF fr same'] by blast
  next
    case (Cons k ks)
    have first: "lh_next (h PtcHead) = Some (DPtc k)" using dlist_first [OF h(2)] Cons by simp
    show ?thesis
    proof (cases "hd xs = d")
      case True
      then have "ptc_send k (?s\<lparr>ptc_curr := Some k\<rparr>) = Some s'"
        using run pushed del emp Cons first cu by (simp add: ptc_remove_def)
      then have same: "ptc_same (?s\<lparr>ptc_curr := Some k\<rparr>) s'" by (rule ptc_send_same)
      have "ptc_inv (?s\<lparr>ptc_curr := Some k\<rparr>) (remove1 d xs)" by (rule inv') (simp add: Cons)
      then show ?thesis using ptc_inv_same [OF same] ptc_frame_same [OF fr same] by blast
    next
      case False
      then have "s' = ?s" using run pushed del emp Cons cu by (simp add: ptc_remove_def)
      then have s': "s' = ?s\<lparr>ptc_curr := Some (hd xs)\<rparr>" using cu by simp
      have "hd xs = k" using False Cons by (cases xs) auto
      then have "ptc_inv s' (remove1 d xs)" unfolding s' by (intro inv') (simp add: Cons)
      then show ?thesis using fr s' by blast
    qed
  qed
qed

subsection \<open>No fault\<close>

text \<open>Every camera message fits its buffer.\<close>

definition ptc_fits :: "srv \<Rightarrow> bool" where
  "ptc_fits s \<longleftrightarrow> (\<forall>d. dd_ptc_cmd (dbdev s d) \<noteq> [] \<longrightarrow>
     length (num_str d @ '' ptc '' @ num_str (dd_ptc_id (dbdev s d)) @ '' '' @ dd_ptc_cmd (dbdev s d)
       @ newline) < 256)"

lemma ptc_fits_cong:
  "(\<And>d. dd_ptc_cmd (dbdev s' d) = dd_ptc_cmd (dbdev s d) \<and> dd_ptc_id (dbdev s' d) = dd_ptc_id (dbdev s d)) \<Longrightarrow>
    ptc_fits s' \<longleftrightarrow> ptc_fits s"
  by (simp add: ptc_fits_def)

lemma ptc_fits_same: "ptc_same s s' \<Longrightarrow> ptc_fits s' \<longleftrightarrow> ptc_fits s"
  by (rule ptc_fits_cong) (simp add: ptc_same_frame)

lemma ptc_send_defined:
  assumes "ptc_fits s" shows "\<exists>s'. ptc_send d s = Some s'"
proof -
  have "\<not> 256 \<le> length (num_str d @ '' ptc '' @ num_str (dd_ptc_id (dbdev s d)) @ '' ''
      @ dd_ptc_cmd (dbdev s d) @ newline)" if "dd_ptc_cmd (dbdev s d) \<noteq> []"
    using assms that unfolding ptc_fits_def not_le by blast
  then show ?thesis
    by (cases "dd_ptc_cmd (dbdev s d) = []") (simp_all add: ptc_send_def Let_def)
qed

lemma ptc_default_from_defined: "ptc_fits s \<Longrightarrow> \<exists>s'. ptc_default_from i n s = Some s'"
proof (induction n arbitrary: i s)
  case 0
  then show ?case by simp
next
  case (Suc n)
  obtain s1 where "ptc_send (ptcs s ! i) s = Some s1" using ptc_send_defined [OF Suc.prems] by blast
  moreover from this have "ptc_fits s1" using ptc_fits_same [OF ptc_send_same] Suc.prems by blast
  ultimately show ?case using Suc.IH [of s1 "Suc i"] by simp
qed

lemma ptc_push_defined:
  assumes "ptc_inv s P" and "ptc_fits s" shows "\<exists>s'. ptc_push d s = Some s'"
proof -
  obtain s1 where s1: "ptc_put d s = Some s1" "ptc_frame s s1" using ptc_put_inv [OF assms(1)] by blast
  have "ptc_fits s1" using ptc_fits_cong [of s1 s] ptc_frame_sel(7) [OF s1(2)] assms(2) by simp
  then show ?thesis using s1(1) ptc_send_defined [of s1 d] by (simp add: ptc_push_def)
qed

lemma ptc_remove_defined:
  assumes inv: "ptc_inv s P" and fits: "ptc_fits s" shows "\<exists>s'. ptc_remove d s = Some s'"
proof (cases "is_pushed d s")
  case True
  then have d: "DPtc d \<in> set (map DPtc P)" using ptc_inv_pushed [OF inv] by simp
  have "dlist (hp s) PtcHead (map DPtc P)" using inv by (simp add: ptc_inv_def)
  from list_del_dlist [OF this d] obtain h where
    h: "list_del (DPtc d) (hp s) = Some h" "dlist h PtcHead (map DPtc (remove1 d P))"
    by (auto simp: map_DPtc_remove1)
  have f1: "ptc_fits (s\<lparr>hp := h, ptc_curr := c\<rparr>)" "ptc_fits (s\<lparr>hp := h\<rparr>)" for c
    using fits by (simp_all add: ptc_fits_def)
  obtain k where "lh_next (h PtcHead) = Some (DPtc k)" if "remove1 d P \<noteq> []"
    using dlist_first [OF h(2)] by (cases "remove1 d P") auto
  then show ?thesis
    using True h ptc_default_from_defined [OF f1(2), of 0 32] ptc_send_defined [OF f1(1)]
    by (auto simp: ptc_remove_def on_heap_def ptc_default_def)
qed (simp add: ptc_remove_def)

end
