(* ===== verification/Subscribe.thy ===== *)
theory Subscribe
  imports Ptc
begin

text \<open>
  Who receives a tag's audio: dev_subscribe and dev_unsubscribe of serv/cast.c, and the
  replication of an interpreter's tag (serv/interp.c and apply_interp_mode of
  serv/cmd_interp.c). With MAX_SUB = 1 a device is on at most one subscription list; the
  invariant sub_inv says the lists of the tags and the subscription fields agree.
\<close>

subsection \<open>Replication\<close>

text \<open>The broadcast carries the two ids as bytes; a type 2 command of two bytes is six long.\<close>

definition notify_interp_rep :: "int \<Rightarrow> srv \<Rightarrow> srv" where
  "notify_interp_rep t s =
     brcast_data_to_all
       (InterpRep (t_id (tagm s t) mod 256)
         (case t_interp_rep (tagm s t) of None \<Rightarrow> 0 | Some r \<Rightarrow> t_id (tagm s r) mod 256)) 6 s"

definition interp_set_rep_tag :: "int \<Rightarrow> int option \<Rightarrow> srv \<Rightarrow> srv" where
  "interp_set_rep_tag t r s = notify_interp_rep t (upd_tag t (\<lambda>T. T\<lparr>t_interp_rep := r\<rparr>) s)"

definition interp_del_rep :: "int \<Rightarrow> srv \<Rightarrow> srv" where
  "interp_del_rep t s = notify_interp_rep t (upd_tag t (\<lambda>T. T\<lparr>t_interp_rep := None\<rparr>) s)"

text \<open>In mode INTERP_RE a device without a subscription makes the code read subscription[1],
  which does not exist.\<close>

definition apply_interp_mode :: "int \<Rightarrow> int \<Rightarrow> srv \<Rightarrow> srv option" where
  "apply_interp_mode t d s =
     (let m = t_interp_mode (tagm s t)
      in if m = INTERP_NO then Some (interp_del_rep t s)
         else if m = INTERP_OR
         then (case d_group (dev s d) of None \<Rightarrow> None
               | Some g \<Rightarrow> Some (interp_set_rep_tag t (get_tag s (TAGUID g 1)) s))
         else if m = INTERP_RE
         then (case d_sub (dev s d) of None \<Rightarrow> None
               | Some r \<Rightarrow> Some (interp_set_rep_tag t (Some r) s))
         else Some s)"

subsection \<open>Subscriptions\<close>

definition dev_subscribe :: "int \<Rightarrow> int \<Rightarrow> srv \<Rightarrow> srv option" where
  "dev_subscribe d t s =
     (if d_sub (dev s d) = Some t then Some s
      else do { s1 \<leftarrow> (if d_sub (dev s d) \<noteq> None
                     then on_heap (list_move (DSub d) (SubHead t)) s
                     else on_heap (list_add (DSub d) (SubHead t)) s);
                let s2 = upd_dbdev d (\<lambda>D. D\<lparr>dd_sub1 := t_id (tagm s1 t)\<rparr>)
                           (upd_dev d (\<lambda>D. D\<lparr>d_sub := Some t\<rparr>) s1);
                u \<leftarrow> d_tag (dev s2 d);
                Some (if t_interp_mode (tagm s2 u) = INTERP_RE
                      then interp_set_rep_tag u (Some t) s2 else s2) })"

definition dev_unsubscribe :: "int \<Rightarrow> int \<Rightarrow> srv \<Rightarrow> srv option" where
  "dev_unsubscribe d t s =
     (if d_sub (dev s d) = Some t
      then do { s1 \<leftarrow> on_heap (list_del (DSub d)) (upd_dev d (\<lambda>D. D\<lparr>d_sub := None\<rparr>) s);
                Some (device_save d (upd_dbdev d (\<lambda>D. D\<lparr>dd_sub1 := 0\<rparr>) s1)) }
      else Some s)"

subsection \<open>Frames\<close>

lemma notify_frame [simp, frame_simps]:
  "hp (notify_interp_rep t s) = hp s" "dev (notify_interp_rep t s) = dev s"
  "devs (notify_interp_rep t s) = devs s" "tagm (notify_interp_rep t s) = tagm s"
  "tags (notify_interp_rep t s) = tags s" "grp (notify_interp_rep t s) = grp s"
  "grps (notify_interp_rep t s) = grps s" "dbdev (notify_interp_rep t s) = dbdev s"
  "dbgrp (notify_interp_rep t s) = dbgrp s" "votem (notify_interp_rep t s) = votem s"
  "ptc_curr (notify_interp_rep t s) = ptc_curr s" "ptcs (notify_interp_rep t s) = ptcs s"
  by (simp_all add: notify_interp_rep_def brcast_data_to_all_def)

lemma interp_set_frame [simp, frame_simps]:
  "hp (interp_set_rep_tag t r s) = hp s" "dev (interp_set_rep_tag t r s) = dev s"
  "devs (interp_set_rep_tag t r s) = devs s" "tags (interp_set_rep_tag t r s) = tags s"
  "grp (interp_set_rep_tag t r s) = grp s" "grps (interp_set_rep_tag t r s) = grps s"
  "dbdev (interp_set_rep_tag t r s) = dbdev s" "dbgrp (interp_set_rep_tag t r s) = dbgrp s"
  "votem (interp_set_rep_tag t r s) = votem s" "ptc_curr (interp_set_rep_tag t r s) = ptc_curr s"
  "tagm (interp_set_rep_tag t r s) = (tagm s)(t := (tagm s t)\<lparr>t_interp_rep := r\<rparr>)"
  by (simp_all add: interp_set_rep_tag_def)

lemma interp_del_frame [simp, frame_simps]:
  "hp (interp_del_rep t s) = hp s" "dev (interp_del_rep t s) = dev s"
  "devs (interp_del_rep t s) = devs s" "tags (interp_del_rep t s) = tags s"
  "grp (interp_del_rep t s) = grp s" "grps (interp_del_rep t s) = grps s"
  "dbdev (interp_del_rep t s) = dbdev s" "dbgrp (interp_del_rep t s) = dbgrp s"
  "votem (interp_del_rep t s) = votem s" "ptc_curr (interp_del_rep t s) = ptc_curr s"
  "tagm (interp_del_rep t s) = (tagm s)(t := (tagm s t)\<lparr>t_interp_rep := None\<rparr>)"
  by (simp_all add: interp_del_rep_def)

lemma apply_interp_frame:
  assumes "apply_interp_mode t d s = Some s'"
  shows "hp s' = hp s" "dev s' = dev s" "devs s' = devs s" "tags s' = tags s" "grp s' = grp s"
    "grps s' = grps s" "dbdev s' = dbdev s" "dbgrp s' = dbgrp s" "votem s' = votem s" "ptc_curr s' = ptc_curr s"
    "\<exists>r. tagm s' = (tagm s)(t := (tagm s t)\<lparr>t_interp_rep := r\<rparr>)"
proof -
  have "\<exists>r. tagm s = (tagm s)(t := (tagm s t)\<lparr>t_interp_rep := r\<rparr>)"
    by (intro exI [of _ "t_interp_rep (tagm s t)"]) simp
  then show "hp s' = hp s" "dev s' = dev s" "devs s' = devs s" "tags s' = tags s" "grp s' = grp s"
    "grps s' = grps s" "dbdev s' = dbdev s" "dbgrp s' = dbgrp s" "votem s' = votem s" "ptc_curr s' = ptc_curr s"
    "\<exists>r. tagm s' = (tagm s)(t := (tagm s t)\<lparr>t_interp_rep := r\<rparr>)"
    using assms by (auto simp: apply_interp_mode_def Let_def split: if_splits option.splits)
qed

subsection \<open>The invariant of the subscriptions\<close>

definition sub_inv :: "srv \<Rightarrow> (int \<Rightarrow> int list) \<Rightarrow> bool" where
  "sub_inv s S \<longleftrightarrow>
     (\<forall>t \<in> set (tags s). dlist (hp s) (SubHead t) (map DSub (S t)))
     \<and> (\<forall>t d. d \<in> set (S t) \<longleftrightarrow> d_sub (dev s d) = Some t)
     \<and> (\<forall>t. t \<notin> set (tags s) \<longrightarrow> S t = [])"

definition sub_to :: "int \<Rightarrow> int \<Rightarrow> (int \<Rightarrow> int list) \<Rightarrow> int \<Rightarrow> int list" where
  "sub_to d t S = (\<lambda>k. if k = t then d # S t else remove1 d (S k))"

lemma map_DSub_remove1: "remove1 (DSub d) (map DSub xs) = map DSub (remove1 d xs)"
  by (induction xs) auto

lemma sub_inv_distinct: "sub_inv s S \<Longrightarrow> distinct (S t)"
proof (cases "S t = []")
  case False
  assume inv: "sub_inv s S"
  then have "dlist (hp s) (SubHead t) (map DSub (S t))" using False by (auto simp: sub_inv_def)
  then show ?thesis using dlist_distinct by (metis distinct_map)
qed simp

lemma sub_inv_disjoint: "sub_inv s S \<Longrightarrow> t \<noteq> u \<Longrightarrow> set (S t) \<inter> set (S u) = {}"
  unfolding sub_inv_def by fastforce

text \<open>The heap part of a subscription, whichever of the two list operations does it.\<close>

lemma subscribe_heap:
  assumes inv: "sub_inv s S" and t: "t \<in> set (tags s)" and new: "d_sub (dev s d) \<noteq> Some t"
  shows "\<exists>h. (if d_sub (dev s d) \<noteq> None then list_move (DSub d) (SubHead t) (hp s)
              else list_add (DSub d) (SubHead t) (hp s)) = Some h
    \<and> (\<forall>k \<in> set (tags s). dlist h (SubHead k) (map DSub (sub_to d t S k)))"
proof -
  have mem: "\<And>k e. e \<in> set (S k) \<longleftrightarrow> d_sub (dev s e) = Some k"
    and dl: "\<And>k. k \<in> set (tags s) \<Longrightarrow> dlist (hp s) (SubHead k) (map DSub (S k))"
    using inv by (simp_all add: sub_inv_def)
  have dt: "dlist (hp s) (SubHead t) (map DSub (S t))" using dl t by simp
  show ?thesis
  proof (cases "d_sub (dev s d)")
    case None
    then have nd: "d \<notin> set (S k)" for k using mem by simp
    have nn: "DSub d \<notin> insert (SubHead t) (set (map DSub (S t)))" using nd by auto
    from list_add_dlist [OF dt nn] obtain h where
      h: "list_add (DSub d) (SubHead t) (hp s) = Some h" "dlist h (SubHead t) (DSub d # map DSub (S t))"
      by auto
    have "dlist h (SubHead k) (map DSub (sub_to d t S k))" if "k \<in> set (tags s)" for k
    proof (cases "k = t")
      case False
      have "set (S k) \<inter> set (S t) = {}" by (rule sub_inv_disjoint [OF inv False])
      then have "insert (SubHead k) (set (map DSub (S k)))
          \<inter> insert (DSub d) (insert (SubHead t) (set (map DSub (S t)))) = {}"
        using nd [of k] False by auto
      from ll.push_other [OF dt h(1) dl [OF that] this] False nd show ?thesis
        by (simp add: sub_to_def remove1_idem)
    qed (simp add: sub_to_def h)
    then show ?thesis using None h(1) by auto
  next
    case (Some u)
    then have u: "u \<noteq> t" "d \<in> set (S u)" "u \<in> set (tags s)"
      using new mem inv by (auto simp: sub_inv_def) (metis empty_iff empty_set)
    have du: "dlist (hp s) (SubHead u) (map DSub (S u))" using dl u(3) by simp
    have disj: "insert (SubHead u) (set (map DSub (S u))) \<inter> insert (SubHead t) (set (map DSub (S t))) = {}"
      using sub_inv_disjoint [OF inv u(1)] u(1) by auto
    have "DSub d \<in> set (map DSub (S u))" using u(2) by simp
    from list_move_other [OF du this dt disj] obtain h where
      h: "list_move (DSub d) (SubHead t) (hp s) = Some h"
      "dlist h (SubHead u) (remove1 (DSub d) (map DSub (S u)))"
      "dlist h (SubHead t) (DSub d # map DSub (S t))"
      "\<forall>n. n \<notin> insert (SubHead u) (insert (SubHead t) (set (map DSub (S u)) \<union> set (map DSub (S t)))) \<longrightarrow> h n = hp s n"
      by auto
    have "dlist h (SubHead k) (map DSub (sub_to d t S k))" if k: "k \<in> set (tags s)" for k
    proof -
      consider "k = t" | "k = u" | "k \<noteq> t" "k \<noteq> u" by blast
      then show ?thesis
      proof cases
        case 3
        have "insert (SubHead k) (set (map DSub (S k)))
          \<inter> insert (SubHead u) (insert (SubHead t) (set (map DSub (S u)) \<union> set (map DSub (S t)))) = {}"
          using sub_inv_disjoint [OF inv 3(1)] sub_inv_disjoint [OF inv 3(2)] 3 by auto
        from dlist_other [OF dl [OF k] h(4) this] have "dlist h (SubHead k) (map DSub (S k))" .
        moreover have "d \<notin> set (S k)" using sub_inv_disjoint [OF inv 3(2)] u(2) by auto
        ultimately show ?thesis using 3 by (simp add: sub_to_def remove1_idem)
      qed (use h u in \<open>simp_all add: sub_to_def map_DSub_remove1\<close>)
    qed
    then show ?thesis using Some h(1) by auto
  qed
qed

lemma dev_subscribe_inv:
  assumes inv: "sub_inv s S" and t: "t \<in> set (tags s)" and tag: "d_tag (dev s d) \<noteq> None"
  shows "\<exists>s'. dev_subscribe d t s = Some s' \<and> d_sub (dev s' d) = Some t
    \<and> sub_inv s' (if d_sub (dev s d) = Some t then S else sub_to d t S)"
proof (cases "d_sub (dev s d) = Some t")
  case True
  then show ?thesis using inv by (simp add: dev_subscribe_def)
next
  case False
  obtain h where h: "(if d_sub (dev s d) \<noteq> None then list_move (DSub d) (SubHead t) (hp s)
        else list_add (DSub d) (SubHead t) (hp s)) = Some h"
    "\<forall>k \<in> set (tags s). dlist h (SubHead k) (map DSub (sub_to d t S k))"
    using subscribe_heap [OF inv t False] by blast
  obtain u where u: "d_tag (dev s d) = Some u" using tag by auto
  define s2 where "s2 = upd_dbdev d (\<lambda>D. D\<lparr>dd_sub1 := t_id (tagm s t)\<rparr>)
    (upd_dev d (\<lambda>D. D\<lparr>d_sub := Some t\<rparr>) (s\<lparr>hp := h\<rparr>))"
  define s3 where "s3 = (if t_interp_mode (tagm s2 u) = INTERP_RE
                      then interp_set_rep_tag u (Some t) s2 else s2)"
  have "dev_subscribe d t s = Some s3"
    using False h(1) u
    by (cases "d_sub (dev s d)") (simp_all add: dev_subscribe_def on_heap_def s3_def s2_def Let_def)
  moreover have sel: "hp s3 = h" "tags s3 = tags s" "dev s3 = (dev s)(d := (dev s d)\<lparr>d_sub := Some t\<rparr>)"
    by (simp_all add: s3_def s2_def)
  moreover have "sub_inv s3 (sub_to d t S)"
    unfolding sub_inv_def sel
    using h(2) inv t sub_inv_distinct [OF inv]
    by (auto simp: sub_to_def sub_inv_def in_set_remove1 split: if_splits)
  ultimately show ?thesis using False by auto
qed

lemma dev_unsubscribe_inv:
  assumes inv: "sub_inv s S" and run: "dev_unsubscribe d t s = Some s'"
  shows "sub_inv s' (S(t := remove1 d (S t))) \<and> d_sub (dev s' d) \<noteq> Some t"
proof (cases "d_sub (dev s d) = Some t")
  case False
  then have "d \<notin> set (S t)" using inv by (simp add: sub_inv_def)
  then show ?thesis using False inv run by (simp add: dev_unsubscribe_def remove1_idem)
next
  case True
  then have d: "d \<in> set (S t)" and t: "t \<in> set (tags s)"
    using inv by (auto simp: sub_inv_def) (metis empty_iff empty_set)
  have dl: "\<And>k. k \<in> set (tags s) \<Longrightarrow> dlist (hp s) (SubHead k) (map DSub (S k))"
    using inv by (simp add: sub_inv_def)
  have dn: "DSub d \<in> set (map DSub (S t))" using d by simp
  obtain h where h: "list_del (DSub d) (hp s) = Some h" "dlist h (SubHead t) (map DSub (remove1 d (S t)))"
    using list_del_remove1 [OF dl [OF t] dn] by (auto simp: map_DSub_remove1)
  have other: "dlist h (SubHead k) (map DSub (S k))" if "k \<in> set (tags s)" "k \<noteq> t" for k
    by (rule ll.del_other [OF dl [OF t] dn h(1) dl [OF that(1)]])
      (use sub_inv_disjoint [OF inv that(2)] that(2) in auto)
  have sel: "hp s' = h" "tags s' = tags s" "dev s' = (dev s)(d := (dev s d)\<lparr>d_sub := None\<rparr>)"
    using run True h(1) by (auto simp: dev_unsubscribe_def on_heap_def)
  have "sub_inv s' (S(t := remove1 d (S t)))"
    unfolding sub_inv_def sel
    using h(2) other inv t sub_inv_distinct [OF inv, of t] True
    by (auto simp: sub_inv_def split: if_splits)
  then show ?thesis using sel by simp
qed

end
