(* ===== verification/Demo.thy ===== *)
theory Demo
  imports State
begin

text \<open>
  A small concrete server for the witnesses: group 1, its tag 1 (tuid 65537), the four devices
  5 (a chairman), 7, 8 and 9, and nothing open, subscribed or pushed.
\<close>

definition self_head :: "node \<Rightarrow> node list_head" where
  "self_head n = \<lparr>lh_next = Some n, lh_prev = Some n\<rparr>"

fun demo_heap :: "node lheap" where
  "demo_heap (GrpHead g) = self_head (GrpHead g)"
| "demo_heap (TagHead t) = self_head (TagHead t)"
| "demo_heap (SubHead t) = self_head (SubHead t)"
| "demo_heap (OpenHead t) = self_head (OpenHead t)"
| "demo_heap (VoteHead v) = self_head (VoteHead v)"
| "demo_heap PtcHead = self_head PtcHead"
| "demo_heap VideoHead = self_head VideoHead"
| "demo_heap _ = \<lparr>lh_next = None, lh_prev = None\<rparr>"

definition fresh_dev :: device where
  "fresh_dev =
     \<lparr>d_ops = True, d_addr = (0, 0), d_bcast = 0, d_type = 0, d_active = 0, d_audio_sock = 0,
      d_hbeat = 0, d_group = None, d_tag = None, d_sub = None,
      d_fifo = cfifo_init (\<lambda>_. None) 5 2, d_mixbit = 0, d_timeouts = 0, d_highload = 0,
      d_mixer_res = 0, d_mixer_info = None, d_flushed = 0, d_vote_v = None, d_vote_choice = 0,
      d_vote_forbidden = 0, d_open = 0, d_forbidden = 0, d_reg = 0\<rparr>"

definition demo_dev :: "int \<Rightarrow> device" where
  "demo_dev d =
     (if d = 5 then fresh_dev\<lparr>d_type := DEVTYPE_CHAIR, d_active := 1, d_group := Some 1, d_tag := Some 65537\<rparr>
      else if d = 7 \<or> d = 8 \<or> d = 9
      then fresh_dev\<lparr>d_type := DEVTYPE_NORMAL, d_active := 1, d_group := Some 1, d_tag := Some 65537\<rparr>
      else fresh_dev)"

definition demo_tag :: "int \<Rightarrow> tag" where
  "demo_tag t =
     \<lparr>t_id = 1, t_mixer = Soft, t_mix_devs = replicate 8 None, t_mix_count = 0, t_mix_ref = 0,
      t_mix_silence = 0, t_rep_pack = replicate 16 None, t_rep_pos = 0,
      t_rep_reqs = cfifo_init (\<lambda>_. (0, 0)) 4 6, t_seq = 0, t_mode = DISCMODE_FIFO, t_maxuser = 2,
      t_openuser = 0, t_interp_mode = 0, t_interp_rep = None, t_bcasts = [], t_ucast = None\<rparr>"

definition demo_grp :: "int \<Rightarrow> group" where
  "demo_grp g =
     \<lparr>g_cyctl = None, g_chairman = None, g_dev_count = replicate 8 0, g_active_count = replicate 8 0,
      g_disc_current = None, g_disc_num = 0, g_disc_members = [], g_disc_names = [], g_disc_disabled = 0,
      g_reg_mode = 0, g_reg_members = [], g_reg_expect = 0, g_reg_arrive = 0, g_reg_ids = replicate 1024 0,
      g_reg_idstr = None, g_vote_current = None, g_vote_num = 0, g_vote_expect = 0, g_vote_nvoted = 0,
      g_vote_members = [], g_vote_names = [], g_vote_v = None, g_dev_ents = None, g_dev_dirty = 0\<rparr>"

definition demo_dbdev :: "int \<Rightarrow> db_device" where
  "demo_dbdev d =
     \<lparr>dd_type = 1, dd_ip = ''10.0.0.1'', dd_port = 8000, dd_tagid = 1, dd_user_id = num_str d,
      dd_user_card = 100 + d, dd_user_name = ''?'', dd_user_gender = 1, dd_enabled = 1, dd_online = 1,
      dd_sub1 = 0, dd_sub2 = 0, dd_discuss_chair = 0, dd_discuss_open = 0, dd_regist_master = 0,
      dd_regist_reg = 0, dd_vote_master = 0, dd_vote_choice = -1, dd_ptc_id = -1, dd_ptc_cmd = []\<rparr>"

definition demo_dbgrp :: "int \<Rightarrow> db_group" where
  "demo_dbgrp g =
     \<lparr>dg_discuss_mode = 1, dg_discuss_maxuser = 2, dg_discuss_id = 0, dg_regist_start = 0,
      dg_regist_mode = 0, dg_regist_expect = 0, dg_regist_arrive = 0, dg_vote_id = 0,
      dg_vote_results = ''0''\<rparr>"

definition demo :: srv where
  "demo =
     \<lparr>hp = demo_heap, dev = demo_dev, devs = [9, 8, 7, 5], tagm = demo_tag, tags = [65537],
      grp = demo_grp, grps = [1], dbdev = demo_dbdev, dbdevs = [9, 8, 7, 5], dbgrp = demo_dbgrp,
      dbgrps = [1],
      dbdisc = [\<lparr>ds_id = 3, ds_name = ''first'', ds_members = ''5,7,8''\<rparr>],
      dbvote = [\<lparr>dv_id = 4, dv_name = ''v'', dv_type = 3, dv_options_count = 3, dv_max_select = 1,
                 dv_options = ''a,b,c'', dv_members = ''5,7,8'', dv_expect = 3\<rparr>],
      dbregist = [\<lparr>dr_id = 1, dr_members = ''5,7,8'', dr_expect = 3\<rparr>],
      dbtags = [\<lparr>dt_id = 1, dt_name = ''floor''\<rparr>, \<lparr>dt_id = 2, dt_name = ''english''\<rparr>],
      dbusers = [\<lparr>du_id = 1, du_name = ''admin'', du_password = ''secret''\<rparr>],
      dbfile = [],
      dbvideo = [\<lparr>dm_id = 1, dm_name = ''intro'', dm_path = ''/v/intro''\<rparr>],
      snap_disc = [], snap_vote = [], snap_video = [], snap_file = [], votem = (\<lambda>_. None), vote_next = 0,
      pkts = (\<lambda>_. \<lparr>pk_id = 0, pk_seq = 0, pk_type = 1, pk_tag = 0, pk_datalen = 4,
                    pk_data = [100, 200], pk_len = 16, pk_rep = 0\<rparr>),
      ptcs = [], ptc_curr = None, bcast_dev = None, chairs = [], man_active = 0, man_allow = 0,
      net_avail = replicate 8 True, br_seq = 0, outs = []\<rparr>"

definition demo_cmd :: "int \<Rightarrow> string list \<Rightarrow> cmd" where
  "demo_cmd d args = \<lparr>c_dev = d, c_cmd = [], c_args = args, c_addr = (0, 0), c_rep = [], c_sock = 4\<rparr>"

lemma demo_heads:
  "dlist (hp demo) (OpenHead t) []" "dlist (hp demo) (SubHead t) []" "dlist (hp demo) PtcHead []"
  "dlist (hp demo) (TagHead t) []" "dlist (hp demo) (GrpHead t) []" "dlist (hp demo) VideoHead []"
  by (simp_all add: demo_def dlist_def self_head_def)

lemma demo_sel:
  "devs demo = [9, 8, 7, 5]" "tags demo = [65537]" "dev demo = demo_dev" "tagm demo = demo_tag"
  "grps demo = [1]" "dbdev demo = demo_dbdev" "grp demo = demo_grp" "dbgrp demo = demo_dbgrp"
  "ptc_curr demo = None" "hp demo (DPtc d) = \<lparr>lh_next = None, lh_prev = None\<rparr>"
  "snap_disc demo = []"
  by (simp_all add: demo_def)

lemma demo_dev_sel:
  "d_open (demo_dev d) = 0" "d_sub (demo_dev d) = None" "d_mixbit (demo_dev d) = 0"
  "d_tag (demo_dev d) = (if d \<in> {5, 7, 8, 9} then Some 65537 else None)"
  "d_group (demo_dev d) = (if d \<in> {5, 7, 8, 9} then Some 1 else None)"
  "d_type (demo_dev d) = (if d = 5 then DEVTYPE_CHAIR else if d \<in> {7, 8, 9} then DEVTYPE_NORMAL else 0)"
  "d_active (demo_dev d) = (if d \<in> {5, 7, 8, 9} then 1 else 0)" "d_ops (demo_dev d)"
  by (auto simp: demo_dev_def fresh_dev_def)

end
