(* ===== verification/Server_Props.thy ===== *)
theory Server_Props
  imports Outstanding Subscribe Demo
begin

text \<open>
  The properties of the server's shared parts: the mixing slots of a tag, the camera stack, the
  subscriptions and the multicast of commands, each over arbitrary sequences of operations, with
  witnesses on the server of Demo.
\<close>

subsection \<open>The mixing slots\<close>

definition holders :: "int \<Rightarrow> srv \<Rightarrow> int set" where
  "holders t s = {d. Some d \<in> set (t_mix_devs (tagm s t))}"

lemma distinct_somes:
  "(\<And>i j d. i < length m \<Longrightarrow> j < length m \<Longrightarrow> m ! i = Some d \<Longrightarrow> m ! j = Some d \<Longrightarrow> i = j) \<Longrightarrow>
    distinct (filter (\<lambda>x. x \<noteq> None) m)"
proof (induction m)
  case (Cons x m)
  have "distinct (filter (\<lambda>x. x \<noteq> None) m)"
  proof (rule Cons.IH)
    fix i j d assume "i < length m" "j < length m" "m ! i = Some d" "m ! j = Some d"
    then show "i = j" using Cons.prems [of "Suc i" "Suc j" d] by simp
  qed
  moreover have "x \<notin> set m" if "x \<noteq> None"
  proof
    assume "x \<in> set m"
    then obtain j where "j < length m" "m ! j = x" by (auto simp: in_set_conv_nth)
    then show False using Cons.prems [of 0 "Suc j"] that by auto
  qed
  ultimately show ?case by simp
qed simp

lemma holders_card:
  assumes "mix_ok t s" shows "card (holders t s) = used (t_mix_devs (tagm s t))"
proof -
  let ?m = "t_mix_devs (tagm s t)"
  have "length ?m = 8" using assms by (simp add: mix_ok_def Let_def)
  then have d: "distinct (filter (\<lambda>x. x \<noteq> None) ?m)"
    using mix_ok_slots_distinct [OF assms] by (intro distinct_somes) auto
  have "Some ` holders t s = set (filter (\<lambda>x. x \<noteq> None) ?m)" by (auto simp: holders_def image_iff)
  then have "card (Some ` holders t s) = used ?m" using distinct_card [OF d] by (simp add: used_def)
  then show ?thesis by (simp add: card_image)
qed

lemma mix_ok_holds_bit:
  "mix_ok t s \<Longrightarrow> d_tag (dev s d) = Some t \<Longrightarrow> d \<in> holders t s \<longleftrightarrow> d_mixbit (dev s d) \<noteq> 0"
  using slot_bit_nonzero unfolding mix_ok_def Let_def holders_def
  by (auto simp: in_set_conv_nth)

lemma set_update_free:
  "i < length m \<Longrightarrow> m ! i = None \<Longrightarrow> {d. Some d \<in> set (m[i := Some e])} = insert e {d. Some d \<in> set m}"
  by (auto simp: in_set_conv_nth nth_list_update) (metis option.distinct(1))+

lemma set_update_gone:
  assumes i: "i < length m" "m ! i = Some d" and u: "\<And>j. j < length m \<Longrightarrow> m ! j = Some d \<Longrightarrow> j = i"
  shows "{e. Some e \<in> set (m[i := None])} = {e. Some e \<in> set m} - {d}"
proof -
  have "Some e \<in> set (m[i := None]) \<longleftrightarrow> Some e \<in> set m \<and> e \<noteq> d" for e
  proof
    assume "Some e \<in> set (m[i := None])"
    then obtain j where j: "j < length m" "m[i := None] ! j = Some e" by (auto simp: in_set_conv_nth)
    then have "j \<noteq> i" by auto
    with j have "m ! j = Some e" by simp
    then show "Some e \<in> set m \<and> e \<noteq> d" using j(1) \<open>j \<noteq> i\<close> u [of j] nth_mem [of j m] by auto
  next
    assume a: "Some e \<in> set m \<and> e \<noteq> d"
    then obtain j where j: "j < length m" "m ! j = Some e" by (auto simp: in_set_conv_nth)
    then have "j \<noteq> i" using a i by auto
    then have "m[i := None] ! j = Some e" using j by simp
    then show "Some e \<in> set (m[i := None])" using j(1) by (metis length_list_update nth_mem)
  qed
  then show ?thesis by auto
qed

lemma add_holders:
  assumes ok: "mix_ok t s" and tag: "d_tag (dev s d) = Some t" and run: "tag_add_outstanding t d s = Some s'"
  shows "holders t s' = (if d \<in> holders t s \<or> card (holders t s) = 8 then holders t s else insert d (holders t s))"
proof (cases "d \<in> holders t s")
  case True
  then show ?thesis using mix_ok_holds_bit [OF ok tag] run by (simp add: tag_add_outstanding_def)
next
  case False
  then have bit: "d_mixbit (dev s d) = 0" using mix_ok_holds_bit [OF ok tag] by simp
  let ?m = "t_mix_devs (tagm s t)"
  have len: "length ?m = 8" using ok by (simp add: mix_ok_def Let_def)
  show ?thesis
  proof (cases "find (\<lambda>i. ?m ! i = None) [0..<8]")
    case None
    then have "\<forall>x \<in> set ?m. x \<noteq> None" using len unfolding find_upt_None by (metis in_set_conv_nth)
    then have "used ?m = 8" using len by (simp add: used_def)
    then show ?thesis using None bit run holders_card [OF ok] by (simp add: tag_add_outstanding_alt)
  next
    case (Some i)
    have i: "i < 8" "?m ! i = None" using find_upt [OF Some] by auto
    have "MIX_OPEN_DEV d (take_slot t d i s) = Some s'" using run bit Some by (simp add: tag_add_outstanding_alt)
    then have "tagm s' = tagm (take_slot t d i s)" using MIX_sel(1) by blast
    then have h: "holders t s' = insert d (holders t s)"
      using set_update_free [of i ?m d] i len by (simp add: holders_def take_slot_def)
    have "used ?m < 8"
      using used_put [of i ?m d] i len used_le [of "?m[i := Some d]"] by simp
    then show ?thesis using h False holders_card [OF ok] by simp
  qed
qed

lemma rm_holders:
  assumes ok: "mix_ok t s" and run: "tag_rm_outstanding t d s = Some s'"
  shows "holders t s' = holders t s - {d}"
proof -
  let ?m = "t_mix_devs (tagm s t)"
  have len: "length ?m = 8" using ok by (simp add: mix_ok_def Let_def)
  have eq: "tagm s' = tagm (case find (\<lambda>i. ?m ! i = Some d) [0..<8] of None \<Rightarrow> s | Some i \<Rightarrow> give_slot t i s)"
    using MIX_sel(2) [OF run [unfolded tag_rm_outstanding_alt]] by simp
  show ?thesis
  proof (cases "find (\<lambda>i. ?m ! i = Some d) [0..<8]")
    case None
    then have "d \<notin> holders t s" using len unfolding find_upt_None by (auto simp: holders_def in_set_conv_nth)
    then show ?thesis using eq None by (simp add: holders_def)
  next
    case (Some i)
    then have i: "i < 8" "?m ! i = Some d" using find_upt [OF Some] by auto
    have "{e. Some e \<in> set (?m[i := None])} = {e. Some e \<in> set ?m} - {d}"
    proof (rule set_update_gone)
      show "i < length ?m" "?m ! i = Some d" using i len by simp_all
      fix j assume "j < length ?m" "?m ! j = Some d"
      then show "j = i" using mix_ok_slots_distinct [OF ok _ i(1) _ i(2)] len by simp
    qed
    then show ?thesis using eq Some by (simp add: holders_def give_slot_def)
  qed
qed

datatype slot_op = TakeSlot int | GiveSlot int

fun slot_run :: "int \<Rightarrow> slot_op \<Rightarrow> srv \<Rightarrow> srv option" where
  "slot_run t (TakeSlot d) s = tag_add_outstanding t d s"
| "slot_run t (GiveSlot d) s = tag_rm_outstanding t d s"

fun slot_abs :: "slot_op \<Rightarrow> int set \<Rightarrow> int set" where
  "slot_abs (TakeSlot d) H = (if d \<in> H \<or> card H = 8 then H else insert d H)"
| "slot_abs (GiveSlot d) H = H - {d}"

fun slot_dev :: "slot_op \<Rightarrow> int" where
  "slot_dev (TakeSlot d) = d"
| "slot_dev (GiveSlot d) = d"

lemma slot_run_step:
  assumes ok: "mix_ok t s" and tag: "d_tag (dev s (slot_dev p)) = Some t"
  shows "\<exists>s'. slot_run t p s = Some s' \<and> mix_ok t s' \<and> holders t s' = slot_abs p (holders t s)
    \<and> (\<forall>e. d_tag (dev s' e) = d_tag (dev s e))"
proof (cases p)
  case (TakeSlot d)
  then obtain s' where s': "tag_add_outstanding t d s = Some s'"
    using tag tag_add_outstanding_defined [of s d t] by auto
  then show ?thesis
    using TakeSlot tag tag_add_outstanding_mix_ok [OF ok s'] add_holders [OF ok _ s']
      keeps_tag_add_outstanding [OF s'] by (auto simp: keeps_def)
next
  case (GiveSlot d)
  then obtain s' where s': "tag_rm_outstanding t d s = Some s'"
    using tag tag_rm_outstanding_defined [of s d t] by auto
  then show ?thesis
    using GiveSlot tag_rm_outstanding_mix_ok [OF ok s'] rm_holders [OF ok s']
      keeps_tag_rm_outstanding [OF s'] by (auto simp: keeps_def)
qed

text \<open>
  C17. The eight mixing slots of a tag implement a set of at most eight devices. Over any sequence
  of taking and giving up slots by devices of the tag, no call fails; the devices in the slots are
  the abstract set, the counter is its size, every holder's mix bit is the bit of its slot, and
  the reference slot is in use whenever any slot is.
\<close>

theorem mixing_slots_refine_set:
  assumes "mix_ok t s" and "\<forall>p \<in> set ps. d_tag (dev s (slot_dev p)) = Some t"
  shows "\<exists>s'. foldM (slot_run t) ps s = Some s' \<and> mix_ok t s'
    \<and> holders t s' = fold slot_abs ps (holders t s)
    \<and> t_mix_count (tagm s' t) = int (card (holders t s')) \<and> card (holders t s') \<le> 8"
  using assms
proof (induction ps arbitrary: s)
  case Nil
  have "t_mix_count (tagm s t) = int (used (t_mix_devs (tagm s t)))" "length (t_mix_devs (tagm s t)) = 8"
    using Nil.prems(1) by (simp_all add: mix_ok_def Let_def)
  then show ?case
    using Nil holders_card [OF Nil.prems(1)] used_le [of "t_mix_devs (tagm s t)"] by simp
next
  case (Cons p ps)
  have "d_tag (dev s (slot_dev p)) = Some t" using Cons.prems(2) by simp
  from slot_run_step [OF Cons.prems(1) this] obtain s1 where
    s1: "slot_run t p s = Some s1" "mix_ok t s1" "holders t s1 = slot_abs p (holders t s)"
    "\<forall>e. d_tag (dev s1 e) = d_tag (dev s e)" by blast
  have "\<forall>q \<in> set ps. d_tag (dev s1 (slot_dev q)) = Some t" using Cons.prems(2) s1(4) by simp
  from Cons.IH [OF s1(2) this] s1 show ?case by simp
qed

lemma demo_mix_ok: "mix_ok 65537 demo"
  by (simp add: mix_ok_def Let_def demo_sel demo_dev_sel demo_tag_def used_def)

theorem mixing_slots_refine_set_witness:
  "\<exists>s'. foldM (slot_run 65537) [TakeSlot 7, TakeSlot 8, GiveSlot 7, TakeSlot 9, TakeSlot 9] demo = Some s'
    \<and> mix_ok 65537 s' \<and> holders 65537 s' = {8, 9}
    \<and> t_mix_count (tagm s' 65537) = int (card (holders 65537 s')) \<and> card (holders 65537 s') \<le> 8"
proof -
  have "holders 65537 demo = {}" by (simp add: holders_def demo_sel demo_tag_def)
  moreover have "fold slot_abs [TakeSlot 7, TakeSlot 8, GiveSlot 7, TakeSlot 9, TakeSlot 9] {} = {8, 9}"
    by auto
  ultimately show ?thesis
    using mixing_slots_refine_set [OF demo_mix_ok, of "[TakeSlot 7, TakeSlot 8, GiveSlot 7, TakeSlot 9, TakeSlot 9]"]
    by (simp add: demo_sel demo_dev_sel)
qed

subsection \<open>The camera stack\<close>

datatype ptc_op = PushDev int | RemoveDev int

fun ptc_run :: "ptc_op \<Rightarrow> srv \<Rightarrow> srv option" where
  "ptc_run (PushDev d) s = ptc_push d s"
| "ptc_run (RemoveDev d) s = ptc_remove d s"

fun ptc_abs :: "ptc_op \<Rightarrow> int list \<Rightarrow> int list" where
  "ptc_abs (PushDev d) xs = d # remove1 d xs"
| "ptc_abs (RemoveDev d) xs = remove1 d xs"

lemma ptc_run_step:
  assumes inv: "ptc_inv s xs" and fits: "ptc_fits s"
  shows "\<exists>s'. ptc_run p s = Some s' \<and> ptc_inv s' (ptc_abs p xs) \<and> ptc_fits s'"
proof -
  obtain s' where s': "ptc_run p s = Some s'" "ptc_inv s' (ptc_abs p xs)" "ptc_frame s s'"
    using ptc_push_defined [OF inv fits] ptc_push_inv [OF inv]
      ptc_remove_defined [OF inv fits] ptc_remove_inv [OF inv]
    by (cases p) (simp_all, blast+)
  have "ptc_fits s'" using ptc_fits_cong [of s' s] ptc_frame_sel(7) [OF s'(3)] fits by simp
  with s' show ?thesis by blast
qed

text \<open>
  C18. The camera follows a stack without duplicates: over any sequence of pushes and removals by
  any devices, no call fails while the camera messages fit their buffer, the device the camera is
  on is the one pushed last among those not removed, none when all are, and going back to the
  current position points the camera at that device.
\<close>

theorem camera_follows_stack:
  assumes "ptc_inv s xs" and "ptc_fits s"
  shows "\<exists>s'. foldM ptc_run ps s = Some s' \<and> ptc_inv s' (fold ptc_abs ps xs)
    \<and> ptc_curr s' = (case fold ptc_abs ps xs of [] \<Rightarrow> None | d # _ \<Rightarrow> Some d)
    \<and> (\<forall>d ds. fold ptc_abs ps xs = d # ds \<longrightarrow> ptc_go_current s' = ptc_send d s')"
  using assms
proof (induction ps arbitrary: s xs)
  case Nil
  then show ?case by (auto simp: ptc_inv_def ptc_go_current_def)
next
  case (Cons p ps)
  from ptc_run_step [OF Cons.prems] obtain s1 where
    "ptc_run p s = Some s1" "ptc_inv s1 (ptc_abs p xs)" "ptc_fits s1" by blast
  with Cons.IH show ?case by simp
qed

theorem camera_follows_stack_witness:
  "\<exists>s'. foldM ptc_run [PushDev 7, PushDev 8, PushDev 7, PushDev 9, RemoveDev 9] demo = Some s'
    \<and> ptc_inv s' [7, 8] \<and> ptc_curr s' = Some 7"
proof -
  have "ptc_inv demo []" using demo_heads(3) by (simp add: ptc_inv_def demo_sel)
  moreover have "ptc_fits demo" by (simp add: ptc_fits_def demo_sel demo_dbdev_def)
  ultimately show ?thesis
    using camera_follows_stack [of demo "[]" "[PushDev 7, PushDev 8, PushDev 7, PushDev 9, RemoveDev 9]"]
    by auto
qed

subsection \<open>Subscriptions\<close>

datatype sub_op = SubTag int int | UnsubTag int int

fun sub_run :: "sub_op \<Rightarrow> srv \<Rightarrow> srv option" where
  "sub_run (SubTag d t) s = dev_subscribe d t s"
| "sub_run (UnsubTag d t) s = dev_unsubscribe d t s"

fun sub_abs :: "sub_op \<Rightarrow> (int \<Rightarrow> int option) \<Rightarrow> int \<Rightarrow> int option" where
  "sub_abs (SubTag d t) f = f(d := Some t)"
| "sub_abs (UnsubTag d t) f = (if f d = Some t then f(d := None) else f)"

fun sub_op_ok :: "srv \<Rightarrow> sub_op \<Rightarrow> bool" where
  "sub_op_ok s (SubTag d t) \<longleftrightarrow> t \<in> set (tags s) \<and> d_tag (dev s d) \<noteq> None"
| "sub_op_ok s (UnsubTag d t) \<longleftrightarrow> True"

lemma dev_subscribe_frame:
  assumes "dev_subscribe d t s = Some s'"
  shows "tags s' = tags s" "d_tag (dev s' e) = d_tag (dev s e)"
    "d_sub (dev s' e) = (if e = d then Some t else d_sub (dev s e))"
  using assms by (auto simp: dev_subscribe_def on_heap_def Let_def split: if_splits)

lemma dev_unsubscribe_defined:
  assumes inv: "sub_inv s S" shows "\<exists>s'. dev_unsubscribe d t s = Some s'"
proof (cases "d_sub (dev s d) = Some t")
  case True
  then have "d \<in> set (S t)" "t \<in> set (tags s)"
    using inv by (auto simp: sub_inv_def) (metis empty_iff empty_set)
  then have "dlist (hp s) (SubHead t) (map DSub (S t))" "DSub d \<in> set (map DSub (S t))"
    using inv by (auto simp: sub_inv_def)
  from list_del_remove1 [OF this] True show ?thesis by (auto simp: dev_unsubscribe_def on_heap_def)
qed (simp add: dev_unsubscribe_def)

lemma dev_unsubscribe_frame:
  assumes "dev_unsubscribe d t s = Some s'"
  shows "tags s' = tags s" "d_tag (dev s' e) = d_tag (dev s e)"
    "d_sub (dev s' e) = (if e = d \<and> d_sub (dev s d) = Some t then None else d_sub (dev s e))"
  using assms by (auto simp: dev_unsubscribe_def on_heap_def split: if_splits)

lemma sub_run_step:
  assumes inv: "sub_inv s S" and ok: "sub_op_ok s p"
  shows "\<exists>s' S'. sub_run p s = Some s' \<and> sub_inv s' S' \<and> tags s' = tags s
    \<and> (\<forall>e. d_tag (dev s' e) = d_tag (dev s e))
    \<and> (\<lambda>e. d_sub (dev s' e)) = sub_abs p (\<lambda>e. d_sub (dev s e))"
proof (cases p)
  case (SubTag d t)
  with ok obtain s' S' where s': "dev_subscribe d t s = Some s'" "sub_inv s' S'"
    using dev_subscribe_inv [OF inv, of t d] by auto
  with SubTag dev_subscribe_frame [OF s'(1)] show ?thesis by (auto simp: fun_eq_iff)
next
  case (UnsubTag d t)
  obtain s' where s': "dev_unsubscribe d t s = Some s'" using dev_unsubscribe_defined [OF inv] by blast
  with UnsubTag dev_unsubscribe_inv [OF inv s'] dev_unsubscribe_frame [OF s'] show ?thesis
    by (auto simp: fun_eq_iff)
qed

text \<open>
  C19. Subscriptions form a map: over any sequence of subscribing and unsubscribing, no call fails,
  each device is subscribed to the tag it last subscribed to and has not left, and it is on the
  subscriber list of exactly that tag, on which it occurs once.
\<close>

theorem subscriptions_form_map:
  assumes "sub_inv s S" and "\<forall>p \<in> set ps. sub_op_ok s p"
  shows "\<exists>s' S'. foldM sub_run ps s = Some s' \<and> sub_inv s' S'
    \<and> (\<lambda>d. d_sub (dev s' d)) = fold sub_abs ps (\<lambda>d. d_sub (dev s d))
    \<and> (\<forall>t \<in> set (tags s). \<exists>ds. list_devs (SubHead t) s' = Some ds \<and> distinct ds
          \<and> set ds = {d. fold sub_abs ps (\<lambda>d. d_sub (dev s d)) d = Some t})"
  using assms
proof (induction ps arbitrary: s S)
  case Nil
  have "list_devs (SubHead t) s = Some (S t)" "set (S t) = {d. d_sub (dev s d) = Some t}"
    if "t \<in> set (tags s)" for t
    using Nil.prems(1) that ll.walk_ok [of "hp s" "SubHead t" "map DSub (S t)"]
    by (auto simp: sub_inv_def list_devs_def simp del: map_map)
  then show ?case using Nil.prems(1) sub_inv_distinct [OF Nil.prems(1)] by auto
next
  case (Cons p ps)
  have "sub_op_ok s p" using Cons.prems(2) by simp
  from sub_run_step [OF Cons.prems(1) this] obtain s1 S1 where
    s1: "sub_run p s = Some s1" "sub_inv s1 S1" "tags s1 = tags s"
    "\<forall>e. d_tag (dev s1 e) = d_tag (dev s e)"
    "(\<lambda>e. d_sub (dev s1 e)) = sub_abs p (\<lambda>e. d_sub (dev s e))" by blast
  have "sub_op_ok s1 q = sub_op_ok s q" for q using s1(3,4) by (cases q) auto
  then have "\<forall>q \<in> set ps. sub_op_ok s1 q" using Cons.prems(2) by simp
  from Cons.IH [OF s1(2) this] s1(1,3,5) show ?case by simp
qed

lemma demo_sub_inv: "sub_inv demo (\<lambda>_. [])"
  using demo_heads(2) by (simp add: sub_inv_def demo_sel demo_dev_sel)

theorem subscriptions_form_map_witness:
  "\<exists>s' ds. foldM sub_run [SubTag 7 65537, SubTag 8 65537, UnsubTag 7 65537] demo = Some s'
    \<and> list_devs (SubHead 65537) s' = Some ds \<and> set ds = {8} \<and> d_sub (dev s' 7) = None"
proof -
  let ?ps = "[SubTag 7 65537, SubTag 8 65537, UnsubTag 7 65537]"
  have f: "fold sub_abs ?ps (\<lambda>d. d_sub (dev demo d)) = (\<lambda>d. if d = 8 then Some 65537 else None)"
    by (simp add: demo_sel demo_dev_sel fun_eq_iff)
  have "\<forall>p \<in> set ?ps. sub_op_ok demo p" by (simp add: demo_sel demo_dev_sel)
  from subscriptions_form_map [OF demo_sub_inv this, unfolded f]
  obtain s' ds where s': "foldM sub_run ?ps demo = Some s'"
    "(\<lambda>d. d_sub (dev s' d)) = (\<lambda>d. if d = 8 then Some 65537 else None)"
    "list_devs (SubHead 65537) s' = Some ds" "set ds = {d. (if d = 8 then Some 65537 else None) = Some (65537 :: int)}"
    by (auto simp: demo_sel simp del: foldM.simps)
  moreover have "d_sub (dev s' 7) = None" using fun_cong [OF s'(2), of 7] by simp
  moreover have "set ds = {8}" using s'(4) by (auto split: if_splits)
  ultimately show ?thesis by blast
qed

subsection \<open>Multicast\<close>

text \<open>
  C20. A command sent to a list of ids, however long, goes out in datagrams of at most 256 ids that
  together address every id of the list once, in order, each carrying the whole reply; this holds
  for replies of up to 9099 characters, which is what the datagram limit leaves beside the ids.
\<close>

theorem multicast_addresses_all:
  assumes "length (c_rep c) \<le> 9099"
  shows "\<exists>xs. outs (brcast_cmd_to_multi c ids s) = outs s @ xs \<and> addressed xs = ids
    \<and> (\<forall>x \<in> set xs. \<exists>q js. x = Brcast q (ModeMulti js) (Text (c_rep c)) \<and> length js \<le> 256)"
  using brcast_multi_outs [OF assms, of ids s] by (simp add: BR_N_def)

theorem multicast_addresses_all_witness:
  "\<exists>xs. outs (brcast_cmd_to_multi (demo_cmd 7 []) [1..300] demo) = outs demo @ xs
    \<and> addressed xs = [1..300]
    \<and> (\<forall>x \<in> set xs. \<exists>q js. x = Brcast q (ModeMulti js) (Text (c_rep (demo_cmd 7 []))) \<and> length js \<le> 256)"
  by (rule multicast_addresses_all) (simp add: demo_cmd_def)

end
