(* ===== verification/Discuss.thy ===== *)
theory Discuss
  imports Outstanding Subscribe
begin

text \<open>
  serv/cmd_discctrl.c: the discussion. A tag keeps the list of the devices whose microphone is
  open; opening takes a mixing slot and sends the camera to the speaker. The request command
  decides who may open: a chairman while a slot is left, anybody below maxuser, otherwise by
  pushing out a dead device or, in fifo mode, the device that has been open longest.
\<close>

subsection \<open>Opening and closing\<close>

definition add_open :: "int \<Rightarrow> int \<Rightarrow> srv \<Rightarrow> srv option" where
  "add_open t d s =
     do { s1 \<leftarrow> on_heap (list_add_tail (DOpen d) (OpenHead t)) s;
          s2 \<leftarrow> tag_add_outstanding t d
                 (upd_dev d (\<lambda>D. D\<lparr>d_open := 1\<rparr>)
                   (upd_tag t (\<lambda>T. T\<lparr>t_openuser := t_openuser T + 1\<rparr>) s1));
          Some (device_save d (upd_dbdev d (\<lambda>D. D\<lparr>dd_discuss_open := 1\<rparr>) s2)) }"

definition del_open :: "int \<Rightarrow> int \<Rightarrow> srv \<Rightarrow> srv option" where
  "del_open t d s =
     do { s1 \<leftarrow> on_heap (list_del (DOpen d)) s;
          s2 \<leftarrow> tag_rm_outstanding t d
                 (upd_dev d (\<lambda>D. D\<lparr>d_open := 0\<rparr>)
                   (upd_tag t (\<lambda>T. T\<lparr>t_openuser := t_openuser T - 1\<rparr>) s1));
          Some (device_save d (upd_dbdev d (\<lambda>D. D\<lparr>dd_discuss_open := 0\<rparr>) s2)) }"

definition kick_user :: "int \<Rightarrow> int \<Rightarrow> srv \<Rightarrow> srv" where
  "kick_user d kick s =
     device_cmd kick (num_str d @ '' discctrl kick '' @ num_str kick @ newline) s"

subsection \<open>The request command\<close>

text \<open>The search for a device to push out, over the open list from the oldest entry. opened
  counts the open users less the chairmen met so far.\<close>

datatype scan = OpenIt | Kick "int option"

fun scan_open :: "srv \<Rightarrow> int \<Rightarrow> int list \<Rightarrow> int \<Rightarrow> int option \<Rightarrow> scan" where
  "scan_open s maxuser [] opened kick = Kick kick"
| "scan_open s maxuser (k # ks) opened kick =
     (if d_type (dev s k) = DEVTYPE_CHAIR
      then (if opened - 1 < maxuser then OpenIt else scan_open s maxuser ks (opened - 1) kick)
      else if d_active (dev s k) = 0 then Kick (Some k)
      else scan_open s maxuser ks opened (if kick = None then Some k else kick))"

definition open_it :: "int \<Rightarrow> int \<Rightarrow> srv \<Rightarrow> (int \<times> srv) option" where
  "open_it t d s =
     do { s1 \<leftarrow> add_open t d s; s2 \<leftarrow> ptc_push d s1; Some (0, s2) }"

text \<open>The code is 0 when control reaches the label post, else the code returned.\<close>

definition request_open :: "int \<Rightarrow> int \<Rightarrow> srv \<Rightarrow> (int \<times> srv) option" where
  "request_open t d s =
     (let T = tagm s t in
      if d_type (dev s d) = DEVTYPE_CHAIR \<and> t_openuser T < MAX_MIX then open_it t d s
      else if t_openuser T < t_maxuser T then open_it t d s
      else do { ks \<leftarrow> list_devs (OpenHead t) s;
                (case scan_open s (t_maxuser T) ks (t_openuser T) None of
                   OpenIt \<Rightarrow> open_it t d s
                 | Kick None \<Rightarrow> Some (ERR_REJECTED, s)
                 | Kick (Some k) \<Rightarrow>
                     if d_active (dev s k) = 0 \<or> t_mode T = DISCMODE_FIFO
                     then do { s1 \<leftarrow> del_open t k s;
                               s2 \<leftarrow> ptc_remove k s1;
                               open_it t d (kick_user d k s2) }
                     else Some (ERR_REJECTED, s)) })"

definition request_close :: "int \<Rightarrow> int \<Rightarrow> srv \<Rightarrow> (int \<times> srv) option" where
  "request_close t d s =
     do { s1 \<leftarrow> del_open t d s; s2 \<leftarrow> ptc_remove d s1; Some (0, s2) }"

definition request_same :: "int \<Rightarrow> int \<Rightarrow> int \<Rightarrow> srv \<Rightarrow> (int \<times> srv) option" where
  "request_same open t d s =
     (if open \<noteq> 0
      then do { s1 \<leftarrow> tag_add_outstanding t d s; s2 \<leftarrow> ptc_push d s1; Some (0, s2) }
      else Some (0, s))"

definition request_step :: "int \<Rightarrow> int \<Rightarrow> int \<Rightarrow> srv \<Rightarrow> (int \<times> srv) option" where
  "request_step open t d s =
     (if d_open (dev s d) = open then request_same open t d s
      else if open \<noteq> 0 then request_open t d s
      else request_close t d s)"

text \<open>The label post: an interpreter that opens stops the replication of its tag.\<close>

definition request_post :: "int \<Rightarrow> int \<Rightarrow> int \<Rightarrow> srv \<Rightarrow> srv option" where
  "request_post open t d s =
     (if d_type (dev s d) = DEVTYPE_INTERP \<and> t_interp_mode (tagm s t) > 0
      then (if open \<noteq> 0 then Some (interp_del_rep t s) else apply_interp_mode t d s)
      else Some s)"

type_synonym handled = "(int \<times> cmd \<times> srv) option"

definition discctrl_request :: "int \<Rightarrow> string list \<Rightarrow> cmd \<Rightarrow> srv \<Rightarrow> handled" where
  "discctrl_request d args c s =
     (case args of [] \<Rightarrow> Some (1, c, s)
      | p # _ \<Rightarrow>
          do { t \<leftarrow> d_tag (dev s d);
               let open = atoi p;
               let c1 = REP_ADD ''OK'' c;
               (r, s1) \<leftarrow> request_step open t d s;
               if r \<noteq> 0 then Some (r, c1, s1)
               else do { s2 \<leftarrow> request_post open t d s1;
                         let c2 = (case d_mixer_info (dev s2 d) of None \<Rightarrow> c1 | Some i \<Rightarrow> REP_ADD i c1);
                         Some (0, REP_END c2, s2) } })"

subsection \<open>The other commands\<close>

definition discctrl_setmode :: "int \<Rightarrow> string list \<Rightarrow> cmd \<Rightarrow> srv \<Rightarrow> handled" where
  "discctrl_setmode d args c s =
     (case args of [] \<Rightarrow> Some (1, c, s)
      | p # _ \<Rightarrow>
          do { t \<leftarrow> d_tag (dev s d);
               g \<leftarrow> d_group (dev s d);
               let i = atoi p;
               let s1 = upd_tag t (\<lambda>T. T\<lparr>t_mode := i\<rparr>) s;
               let c1 = REP_OK c;
               let s2 = brcast_cmd_to_tag_all c1 (t_id (tagm s1 t)) s1;
               let s3 = upd_dbgrp g (\<lambda>G. G\<lparr>dg_discuss_mode := i\<rparr>) s2;
               Some (0, c1, group_save g s3) })"

definition discctrl_set_maxuser :: "int \<Rightarrow> string list \<Rightarrow> cmd \<Rightarrow> srv \<Rightarrow> handled" where
  "discctrl_set_maxuser d args c s =
     (case args of [] \<Rightarrow> Some (1, c, s)
      | p # _ \<Rightarrow>
          do { g \<leftarrow> d_group (dev s d);
               t \<leftarrow> get_tag s (TAGUID g 1);
               let max = atoi p;
               let s1 = upd_tag t (\<lambda>T. T\<lparr>t_maxuser := max\<rparr>) s;
               let s2 = upd_dbgrp g (\<lambda>G. G\<lparr>dg_discuss_maxuser := max\<rparr>) s1;
               Some (0, REP_OK c, group_save g s2) })"

text \<open>md_get_array_discuss stores one entry more than there are rows into db[1024]; the list of
  names is built in buf[1024].\<close>

definition discctrl_query :: "int \<Rightarrow> string list \<Rightarrow> cmd \<Rightarrow> srv \<Rightarrow> handled" where
  "discctrl_query d args c s =
     do { ensure (length (dbdisc s) < 1024);
          let buf = make_strlist (map ds_name (dbdisc s));
          ensure (length buf < 1024);
          Some (0, REP_END (REP_ADD buf (REP_ADD ''OK'' c)), s\<lparr>snap_disc := map ds_id (dbdisc s)\<rparr>) }"

definition user_name_of :: "srv \<Rightarrow> int \<Rightarrow> string" where
  "user_name_of s mid = (case md_find_device s mid of Some d \<Rightarrow> dd_user_name (dbdev s d) | None \<Rightarrow> ''?'')"

definition group_setup_discuss :: "int \<Rightarrow> db_discuss \<Rightarrow> srv \<Rightarrow> srv option" where
  "group_setup_discuss g r s =
     do { let ids = id_list (ds_members r);
          ensure (length ids \<le> 1024);
          Some (upd_grp g (\<lambda>G. G\<lparr>g_disc_members := ids,
                  g_disc_names := make_strlist (map (user_name_of s) ids),
                  g_disc_current := Some (ds_id r)\<rparr>) s) }"

definition clear_forbidden :: "int list \<Rightarrow> srv \<Rightarrow> srv" where
  "clear_forbidden ids s =
     fold (\<lambda>i s. case get_device s i of None \<Rightarrow> s | Some m \<Rightarrow> upd_dev m (\<lambda>D. D\<lparr>d_forbidden := 0\<rparr>) s) ids s"

definition discctrl_select :: "int \<Rightarrow> string list \<Rightarrow> cmd \<Rightarrow> srv \<Rightarrow> handled" where
  "discctrl_select d args c s =
     do { g \<leftarrow> d_group (dev s d);
          if g_disc_current (grp s g) \<noteq> None then Some (ERR_OTHER, c, s)
          else case args of [] \<Rightarrow> Some (1, c, s)
          | p # _ \<Rightarrow>
             (let num = atoi p in
              if num \<ge> int (length (snap_disc s)) then Some (ERR_OTHER, c, s)
              else do {
                ensure (num \<ge> 0);
                r \<leftarrow> md_find_discuss s (snap_disc s ! nat num);
                s1 \<leftarrow> group_setup_discuss g r s;
                let s2 = upd_grp g (\<lambda>G. G\<lparr>g_disc_num := num\<rparr>) s1;
                let c1 = REP_END (REP_ADD (ds_name r) (REP_ADD ''OK'' c));
                let s3 = brcast_cmd_to_multi c1 (g_disc_members (grp s2 g)) s2;
                let c2 = REP_END (REP_ADD (g_disc_names (grp s2 g)) (REP_ADD (ds_members r) (REP_UNEND c1)));
                t \<leftarrow> d_tag (dev s d);
                let s4 = upd_tag t (\<lambda>T. T\<lparr>t_openuser := 0\<rparr>) (s3\<lparr>hp := init_list_head (OpenHead t) (hp s3)\<rparr>);
                let s5 = clear_forbidden (g_disc_members (grp s2 g)) s4;
                let s6 = send_cmd_to_dev_id c2 1 s5;
                let s7 = device_save d (upd_dbdev d (\<lambda>D. D\<lparr>dd_discuss_chair := 1\<rparr>) s6);
                let s8 = upd_grp g (\<lambda>G. G\<lparr>g_chairman := Some d\<rparr>) s7;
                let s9 = upd_dbgrp g (\<lambda>G. G\<lparr>dg_discuss_id := ds_id r\<rparr>) s8;
                Some (0, c2, group_save g s9) }) }"

definition discctrl_status :: "int \<Rightarrow> string list \<Rightarrow> cmd \<Rightarrow> srv \<Rightarrow> handled" where
  "discctrl_status d args c s =
     do { g \<leftarrow> d_group (dev s d);
          if g_disc_current (grp s g) = None then Some (ERR_OTHER, c, s)
          else do { t \<leftarrow> d_tag (dev s d);
                    ids \<leftarrow> list_devs (OpenHead t) s;
                    ensure (length (num_list ids) < 1024);
                    Some (0, REP_END (REP_ADD (num_list ids) (REP_ADD ''OK'' c)), s) } }"

definition discctrl_close :: "int \<Rightarrow> string list \<Rightarrow> cmd \<Rightarrow> srv \<Rightarrow> handled" where
  "discctrl_close d args c s =
     do { g \<leftarrow> d_group (dev s d);
          if g_disc_current (grp s g) = None then Some (ERR_OTHER, c, s)
          else do {
            let c1 = REP_OK c;
            t \<leftarrow> d_tag (dev s d);
            let s1 = upd_grp g (\<lambda>G. G\<lparr>g_disc_current := None\<rparr>) s;
            let s2 = upd_tag t (\<lambda>T. T\<lparr>t_openuser := 0\<rparr>) (s1\<lparr>hp := init_list_head (OpenHead t) (hp s1)\<rparr>);
            let s3 = brcast_cmd_to_all c1 s2;
            let s4 = device_save d (upd_dbdev d (\<lambda>D. D\<lparr>dd_discuss_chair := 0\<rparr>) s3);
            let s5 = upd_grp g (\<lambda>G. G\<lparr>g_chairman := None\<rparr>) s4;
            let s6 = upd_dbgrp g (\<lambda>G. G\<lparr>dg_discuss_id := 0\<rparr>) s5;
            Some (0, c1, group_save g s6) } }"

definition discctrl_forbid :: "int \<Rightarrow> string list \<Rightarrow> cmd \<Rightarrow> srv \<Rightarrow> handled" where
  "discctrl_forbid d args c s =
     (case args of [] \<Rightarrow> Some (1, c, s)
      | p # _ \<Rightarrow>
          (let c1 = REP_OK c
           in case get_device s (atoi p) of
                None \<Rightarrow> Some (0, c1, s)
              | Some e \<Rightarrow> Some (0, c1, send_cmd_to_dev c1 e (upd_dev e (\<lambda>D. D\<lparr>d_forbidden := 1\<rparr>) s))))"

definition discctrl_stop :: "int \<Rightarrow> string list \<Rightarrow> cmd \<Rightarrow> srv \<Rightarrow> handled" where
  "discctrl_stop d args c s =
     (let c1 = REP_OK c in Some (0, c1, (brcast_cmd_to_all c1 s)\<lparr>snap_disc := []\<rparr>))"

definition discctrl_disableall :: "int \<Rightarrow> string list \<Rightarrow> cmd \<Rightarrow> srv \<Rightarrow> handled" where
  "discctrl_disableall d args c s =
     (case args of [] \<Rightarrow> Some (1, c, s)
      | p # _ \<Rightarrow>
          do { g \<leftarrow> d_group (dev s d);
               let s1 = upd_grp g (\<lambda>G. G\<lparr>g_chairman := Some d, g_disc_disabled := atoi p\<rparr>) s;
               let c1 = REP_OK c;
               Some (0, c1, brcast_cmd_to_all c1 s1) })"

definition discctrl_demand :: "int \<Rightarrow> string list \<Rightarrow> cmd \<Rightarrow> srv \<Rightarrow> handled" where
  "discctrl_demand d args c s =
     (case args of
        p # _ # _ \<Rightarrow>
          if d \<noteq> 0 then Some (ERR_OTHER, c, s)
          else (let c1 = REP_OK c in Some (0, c1, send_cmd_to_dev_id c1 (atoi p) s))
      | _ \<Rightarrow> Some (1, c, s))"

definition cmd_discctrl :: "cmd \<Rightarrow> srv \<Rightarrow> handled" where
  "cmd_discctrl c s =
     (case get_device s (c_dev c) of None \<Rightarrow> Some (ERR_NOT_REG, c, s)
      | Some d \<Rightarrow>
          (case c_args c of [] \<Rightarrow> Some (1, c, s)
           | sub # args \<Rightarrow>
               if sub = ''setmode'' then discctrl_setmode d args c s
               else if sub = ''set_maxuser'' then discctrl_set_maxuser d args c s
               else if sub = ''query'' then discctrl_query d args c s
               else if sub = ''select'' then discctrl_select d args c s
               else if sub = ''request'' then discctrl_request d args c s
               else if sub = ''status'' then discctrl_status d args c s
               else if sub = ''close'' then discctrl_close d args c s
               else if sub = ''forbid'' then discctrl_forbid d args c s
               else if sub = ''stop'' then discctrl_stop d args c s
               else if sub = ''disableall'' then discctrl_disableall d args c s
               else if sub = ''demand'' then discctrl_demand d args c s
               else Some (2, c, s)))"

end
