(* ===== verification/Discuss_Inv.thy ===== *)
theory Discuss_Inv
  imports Discuss
begin

text \<open>
  The invariant of the discussion and its preservation. disc_inv says that the open list of every
  tag, its counter openuser and the open flags of the devices agree; room_inv adds the mixing
  slots of every tag and the camera stack. Opening, closing and the request command with the
  arguments 0 and 1 preserve room_inv, and request never lets more than maxuser devices that are
  not chairmen be open. staged and placed tie the three together: every open device is on the camera
  stack, and the mixing slots belong to open devices.
\<close>

subsection \<open>The invariants\<close>

definition disc_inv :: "srv \<Rightarrow> (int \<Rightarrow> int list) \<Rightarrow> bool" where
  "disc_inv s X \<longleftrightarrow>
     (\<forall>t \<in> set (tags s). dlist (hp s) (OpenHead t) (map DOpen (X t))
        \<and> t_openuser (tagm s t) = int (length (X t)))
     \<and> (\<forall>t d. d \<in> set (X t) \<longleftrightarrow> d_open (dev s d) = 1 \<and> d_tag (dev s d) = Some t)
     \<and> (\<forall>d. d_open (dev s d) = 0 \<or> d_open (dev s d) = 1)
     \<and> (\<forall>t. t \<notin> set (tags s) \<longrightarrow> X t = [])"

definition room_inv :: "srv \<Rightarrow> (int \<Rightarrow> int list) \<Rightarrow> int list \<Rightarrow> bool" where
  "room_inv s X P \<longleftrightarrow> disc_inv s X \<and> (\<forall>t \<in> set (tags s). mix_ok t s) \<and> ptc_inv s P"

text \<open>How the three hang together. Every open device is on the camera stack, and only open devices
  hold mixing slots (mix_ok says that the mix bits are those of the slots). A device that opens is
  seated when it has a slot or the eight slots of its tag are all taken.\<close>

definition speakers :: "srv \<Rightarrow> int set" where
  "speakers s = {d. d_open (dev s d) = 1}"

definition staged :: "srv \<Rightarrow> int list \<Rightarrow> bool" where
  "staged s P \<longleftrightarrow> speakers s \<subseteq> set P \<and> {d. d_mixbit (dev s d) \<noteq> 0} \<subseteq> speakers s"

definition seated :: "int \<Rightarrow> int \<Rightarrow> srv \<Rightarrow> bool" where
  "seated t d s \<longleftrightarrow> d_mixbit (dev s d) \<noteq> 0 \<or> t_mix_count (tagm s t) = 8"

text \<open>A step keeps that, and leaves no device on the camera stack that it closes.\<close>

definition follows :: "srv \<Rightarrow> int list \<Rightarrow> srv \<Rightarrow> int list \<Rightarrow> bool" where
  "follows s P s' P' \<longleftrightarrow> staged s P \<longrightarrow> staged s' P' \<and> set P' - speakers s' \<subseteq> set P - speakers s"

lemma follows_refl [simp]: "follows s P s P"
  by (simp add: follows_def)

lemma follows_trans: "follows s P t Q \<Longrightarrow> follows t Q u R \<Longrightarrow> follows s P u R"
  by (auto simp: follows_def)

lemma follows_dev: "dev s' = dev s \<Longrightarrow> follows s P s' P"
  by (simp add: follows_def staged_def speakers_def)

lemma follows_opened:
  assumes "d_open (dev s' d) = 1" and "\<And>e. e \<noteq> d \<Longrightarrow> d_open (dev s' e) = d_open (dev s e)"
    and "\<And>e. e \<noteq> d \<Longrightarrow> d_mixbit (dev s' e) = d_mixbit (dev s e)"
  shows "follows s P s' (d # remove1 d P)"
proof -
  have "e \<in> speakers s' \<longleftrightarrow> e \<in> insert d (speakers s)" for e
    using assms(1,2) by (cases "e = d") (simp_all add: speakers_def)
  then have o: "speakers s' = insert d (speakers s)" by blast
  have "{e. d_mixbit (dev s' e) \<noteq> 0} \<subseteq> insert d {e. d_mixbit (dev s e) \<noteq> 0}" using assms(3) by auto
  moreover have "set (d # remove1 d P) = insert d (set P)"
    by (induction P) auto
  ultimately show ?thesis unfolding follows_def staged_def o by blast
qed

lemma follows_closed:
  assumes "d_open (dev s' d) = 0" and "\<And>e. e \<noteq> d \<Longrightarrow> d_open (dev s' e) = d_open (dev s e)"
    and "\<And>e. e \<noteq> d \<Longrightarrow> d_mixbit (dev s' e) = d_mixbit (dev s e)" and "d_mixbit (dev s' d) = 0"
    and "distinct P"
  shows "follows s P s' (remove1 d P)"
proof -
  have "e \<in> speakers s' \<longleftrightarrow> e \<in> speakers s - {d}" for e
    using assms(1,2) by (cases "e = d") (simp_all add: speakers_def)
  then have o: "speakers s' = speakers s - {d}" by blast
  have "{e. d_mixbit (dev s' e) \<noteq> 0} \<subseteq> {e. d_mixbit (dev s e) \<noteq> 0} - {d}" using assms(3,4) by force
  moreover have "set (remove1 d P) = set P - {d}" using assms(5) by (rule set_remove1_eq)
  ultimately show ?thesis unfolding follows_def staged_def o by blast
qed

lemma ptc_inv_distinct: "ptc_inv s P \<Longrightarrow> distinct P"
  using dlist_distinct [of "hp s" PtcHead "map DPtc P"] by (simp add: ptc_inv_def distinct_map)

lemma slots_full:
  assumes "mix_ok t s" and "8 \<le> t_mix_count (tagm s t)"
  shows "find (\<lambda>i. t_mix_devs (tagm s t) ! i = None) [0..<8] = None" "t_mix_count (tagm s t) = 8"
proof -
  let ?m = "t_mix_devs (tagm s t)"
  have m: "length ?m = 8" "t_mix_count (tagm s t) = int (used ?m)" using assms(1) by (auto simp: mix_ok_def Let_def)
  then have u: "used ?m = length ?m" using used_le [of ?m] assms(2) by linarith
  then show "t_mix_count (tagm s t) = 8" using m by simp
  show "find (\<lambda>i. ?m ! i = None) [0..<8] = None"
  proof (cases "find (\<lambda>i. ?m ! i = None) [0..<8]")
    case (Some i)
    then have "i < length ?m" "?m ! i = None" using find_upt m(1) by auto
    then show ?thesis using used_put [of i ?m 0] used_le [of "?m[i := Some 0]"] u by simp
  qed simp
qed

lemma tag_add_outstanding_seats:
  assumes "mix_ok t s" and "tag_add_outstanding t d s = Some s'" and "d_tag (dev s d) = Some t"
  shows "seated t d s'"
proof (cases "t_mix_count (tagm s t) < 8")
  case True
  then show ?thesis using tag_add_outstanding_gets [OF assms(1) True assms(3)] assms(2) by (auto simp: seated_def)
next
  case False
  then show ?thesis
    using slots_full [OF assms(1)] assms(2) by (auto simp: seated_def tag_add_outstanding_def split: if_splits)
qed

lemma tag_add_outstanding_full:
  assumes "mix_ok t s" and "tag_add_outstanding t d s = Some s'" and "t_mix_count (tagm s u) = 8"
  shows "t_mix_count (tagm s' u) = 8"
  using assms tag_add_outstanding_other(1) [OF assms(2), of u] slots_full(1) [OF assms(1)]
  by (cases "u = t") (auto simp: tag_add_outstanding_def split: if_splits)

text \<open>Every device of the open lists is seated, and only open devices have slots.\<close>

definition placed :: "srv \<Rightarrow> (int \<Rightarrow> int list) \<Rightarrow> bool" where
  "placed s X \<longleftrightarrow> {d. d_mixbit (dev s d) \<noteq> 0} \<subseteq> speakers s \<and> (\<forall>t. \<forall>d \<in> set (X t). seated t d s)"

lemma placed_cong:
  assumes "placed s X" and "\<And>e. d_open (dev s' e) = d_open (dev s e)" and "\<And>e. d_mixbit (dev s' e) = d_mixbit (dev s e)"
    and "\<And>u. X u \<noteq> [] \<Longrightarrow> t_mix_count (tagm s' u) = t_mix_count (tagm s u)"
  shows "placed s' X"
proof -
  have "seated t d s'" if "d \<in> set (X t)" for t d
  proof -
    have "X t \<noteq> []" using that by auto
    moreover have "seated t d s" using assms(1) that by (simp add: placed_def)
    ultimately show ?thesis using assms(3,4) by (simp add: seated_def)
  qed
  then show ?thesis using assms(1-3) by (simp add: placed_def speakers_def)
qed

text \<open>What a request does not change.\<close>

definition same_conf :: "srv \<Rightarrow> srv \<Rightarrow> bool" where
  "same_conf s s' \<longleftrightarrow>
     tags s' = tags s \<and> devs s' = devs s \<and> grp s' = grp s \<and> grps s' = grps s
     \<and> (\<forall>e. d_tag (dev s' e) = d_tag (dev s e) \<and> d_type (dev s' e) = d_type (dev s e)
          \<and> d_active (dev s' e) = d_active (dev s e) \<and> d_group (dev s' e) = d_group (dev s e)
          \<and> d_sub (dev s' e) = d_sub (dev s e) \<and> d_ops (dev s' e) = d_ops (dev s e)
          \<and> dd_ptc_cmd (dbdev s' e) = dd_ptc_cmd (dbdev s e) \<and> dd_ptc_id (dbdev s' e) = dd_ptc_id (dbdev s e))
     \<and> (\<forall>u. t_maxuser (tagm s' u) = t_maxuser (tagm s u) \<and> t_mode (tagm s' u) = t_mode (tagm s u)
          \<and> t_interp_mode (tagm s' u) = t_interp_mode (tagm s u))"

lemma same_conf_refl [simp]: "same_conf s s"
  by (simp add: same_conf_def)

lemma same_conf_trans: "same_conf s t \<Longrightarrow> same_conf t u \<Longrightarrow> same_conf s u"
  by (simp add: same_conf_def)

lemma same_conf_keeps: "keeps s s' \<Longrightarrow> same_conf s s'"
  by (simp add: keeps_def same_conf_def)

lemma same_conf_ptc: "ptc_frame s s' \<Longrightarrow> same_conf s s'"
  using ptc_frame_sel [of s s'] by (simp add: same_conf_def)

lemma disc_inv_distinct: "disc_inv s X \<Longrightarrow> distinct (X t)"
proof (cases "t \<in> set (tags s)")
  case True
  assume "disc_inv s X"
  then have "dlist (hp s) (OpenHead t) (map DOpen (X t))" using True by (simp add: disc_inv_def)
  then show ?thesis using dlist_distinct by (metis distinct_map)
qed (simp add: disc_inv_def)

lemma disc_inv_disjoint: "disc_inv s X \<Longrightarrow> t \<noteq> u \<Longrightarrow> set (X t) \<inter> set (X u) = {}"
  unfolding disc_inv_def by fastforce

lemma disc_inv_closed:
  assumes "disc_inv s X" and "d_tag (dev s d) = Some t" and "d \<notin> set (X t)"
  shows "d_open (dev s d) = 0"
proof -
  have "d \<in> set (X t) \<longleftrightarrow> d_open (dev s d) = 1 \<and> d_tag (dev s d) = Some t"
    using assms(1) unfolding disc_inv_def by blast
  moreover have "d_open (dev s d) = 0 \<or> d_open (dev s d) = 1"
    using assms(1) unfolding disc_inv_def by blast
  ultimately show ?thesis using assms(2,3) by blast
qed

lemma disc_inv_cong:
  assumes "disc_inv s X" and "tags s' = tags s"
    and "\<And>e. d_open (dev s' e) = d_open (dev s e)" and "\<And>e. d_tag (dev s' e) = d_tag (dev s e)"
    and "\<And>u. t_openuser (tagm s' u) = t_openuser (tagm s u)"
    and "\<And>u xs. dlist (hp s) (OpenHead u) (map DOpen xs) \<Longrightarrow> dlist (hp s') (OpenHead u) (map DOpen xs)"
  shows "disc_inv s' X"
  using assms by (simp add: disc_inv_def)

lemma disc_inv_keeps: "disc_inv s X \<Longrightarrow> keeps s s' \<Longrightarrow> disc_inv s' X"
  by (erule disc_inv_cong) (auto simp: keeps_def)

lemma disc_inv_ptc:
  assumes "disc_inv s X" and "ptc_frame s s'"
  shows "disc_inv s' X"
proof (rule disc_inv_cong [OF assms(1)])
  show "dlist (hp s') (OpenHead u) (map DOpen xs)" if "dlist (hp s) (OpenHead u) (map DOpen xs)" for u xs
    by (rule ptc_frame_sel(10) [OF assms(2) that]) auto
qed (simp_all add: ptc_frame_sel [OF assms(2)])

lemma mix_all_ptc:
  assumes "\<forall>t \<in> set (tags s). mix_ok t s" and "ptc_frame s s'"
  shows "\<forall>t \<in> set (tags s'). mix_ok t s'"
  using assms(1) ptc_frame_sel [OF assms(2)] mix_ok_cong [of s' _ s] by simp

lemma ptc_inv_cong:
  assumes "ptc_inv s P" and "ptc_curr s' = ptc_curr s"
    and "\<And>n. n \<in> insert PtcHead (range DPtc) \<Longrightarrow> hp s' n = hp s n"
  shows "ptc_inv s' P"
proof -
  have "dlist (hp s') PtcHead (map DPtc P)"
    by (rule dlist_frame [where h = "hp s"]) (use assms in \<open>auto simp: ptc_inv_def\<close>)
  then show ?thesis using assms by (simp add: ptc_inv_def)
qed

subsection \<open>The heap\<close>

lemma map_DOpen_remove1: "remove1 (DOpen d) (map DOpen xs) = map DOpen (remove1 d xs)"
  by (induction xs) auto

lemma open_heap:
  assumes inv: "disc_inv s X" and t: "t \<in> set (tags s)" and new: "d_open (dev s d) \<noteq> 1"
  shows "\<exists>h. list_add_tail (DOpen d) (OpenHead t) (hp s) = Some h
    \<and> (\<forall>k \<in> set (tags s). dlist h (OpenHead k) (map DOpen ((X(t := X t @ [d])) k)))
    \<and> (\<forall>n. n \<notin> range OpenHead \<union> range DOpen \<longrightarrow> h n = hp s n)"
proof -
  have dl: "\<And>k. k \<in> set (tags s) \<Longrightarrow> dlist (hp s) (OpenHead k) (map DOpen (X k))"
    and nd: "d \<notin> set (X k)" for k
    using inv new by (auto simp: disc_inv_def)
  have nn: "DOpen d \<notin> insert (OpenHead t) (set (map DOpen (X t)))" using nd by auto
  from list_add_tail_dlist [OF dl [OF t] nn] obtain h where
    h: "list_add_tail (DOpen d) (OpenHead t) (hp s) = Some h" "dlist h (OpenHead t) (map DOpen (X t) @ [DOpen d])"
    by auto
  have "dlist h (OpenHead k) (map DOpen (X k))" if "k \<in> set (tags s)" "k \<noteq> t" for k
    by (rule ll.snoc_other [OF dl [OF t] h(1) dl [OF that(1)]])
      (use disc_inv_disjoint [OF inv that(2)] nd [of k] that(2) in auto)
  moreover have "h n = hp s n" if "n \<notin> range OpenHead \<union> range DOpen" for n
    by (rule list_add_tail_frame [OF dl [OF t] h(1)]) (use that in auto)
  ultimately show ?thesis using h by auto
qed

lemma close_heap:
  assumes inv: "disc_inv s X" and t: "t \<in> set (tags s)" and d: "d \<in> set (X t)"
  shows "\<exists>h. list_del (DOpen d) (hp s) = Some h
    \<and> (\<forall>k \<in> set (tags s). dlist h (OpenHead k) (map DOpen ((X(t := remove1 d (X t))) k)))
    \<and> (\<forall>n. n \<notin> range OpenHead \<union> range DOpen \<longrightarrow> h n = hp s n)"
proof -
  have dl: "\<And>k. k \<in> set (tags s) \<Longrightarrow> dlist (hp s) (OpenHead k) (map DOpen (X k))"
    using inv by (auto simp: disc_inv_def)
  have dn: "DOpen d \<in> set (map DOpen (X t))" using d by simp
  obtain h where h: "list_del (DOpen d) (hp s) = Some h" "dlist h (OpenHead t) (map DOpen (remove1 d (X t)))"
    "\<forall>n. n \<notin> insert (OpenHead t) (set (map DOpen (X t))) \<longrightarrow> h n = hp s n"
    using list_del_dlist [OF dl [OF t] dn] by (auto simp: map_DOpen_remove1)
  have "dlist h (OpenHead k) (map DOpen (X k))" if "k \<in> set (tags s)" "k \<noteq> t" for k
    by (rule ll.del_other [OF dl [OF t] dn h(1) dl [OF that(1)]])
      (use disc_inv_disjoint [OF inv that(2)] that(2) in auto)
  moreover have "h n = hp s n" if "n \<notin> range OpenHead \<union> range DOpen" for n
    using h(3) that by auto
  ultimately show ?thesis using h by auto
qed

subsection \<open>Opening and closing\<close>

lemma keeps_save: "hp (device_save d (upd_dbdev d f s)) = hp s" "tags (device_save d (upd_dbdev d f s)) = tags s"
  "dev (device_save d (upd_dbdev d f s)) = dev s" "tagm (device_save d (upd_dbdev d f s)) = tagm s"
  "ptc_curr (device_save d (upd_dbdev d f s)) = ptc_curr s" "devs (device_save d (upd_dbdev d f s)) = devs s"
  "grp (device_save d (upd_dbdev d f s)) = grp s" "grps (device_save d (upd_dbdev d f s)) = grps s"
  by simp_all

lemma add_open_room:
  assumes inv: "room_inv s X P" and t: "t \<in> set (tags s)" and d: "d_tag (dev s d) = Some t"
    and new: "d_open (dev s d) = 0"
  shows "\<exists>s'. add_open t d s = Some s' \<and> room_inv s' (X(t := X t @ [d])) P \<and> same_conf s s'
    \<and> d_open (dev s' d) = 1 \<and> seated t d s'
    \<and> (\<forall>e. e \<noteq> d \<longrightarrow> d_open (dev s' e) = d_open (dev s e) \<and> d_mixbit (dev s' e) = d_mixbit (dev s e))
    \<and> (\<forall>u. t_mix_count (tagm s u) = 8 \<longrightarrow> t_mix_count (tagm s' u) = 8)"
proof -
  have disc: "disc_inv s X" and mix: "\<forall>t \<in> set (tags s). mix_ok t s" and ptc: "ptc_inv s P"
    using inv by (simp_all add: room_inv_def)
  obtain h where h: "list_add_tail (DOpen d) (OpenHead t) (hp s) = Some h"
    "\<forall>k \<in> set (tags s). dlist h (OpenHead k) (map DOpen ((X(t := X t @ [d])) k))"
    "\<forall>n. n \<notin> range OpenHead \<union> range DOpen \<longrightarrow> h n = hp s n"
    using open_heap [OF disc t, of d] new by auto
  define s1 where "s1 = upd_dev d (\<lambda>D. D\<lparr>d_open := 1\<rparr>)
    (upd_tag t (\<lambda>T. T\<lparr>t_openuser := t_openuser T + 1\<rparr>) (s\<lparr>hp := h\<rparr>))"
  have mix1: "\<forall>u \<in> set (tags s1). mix_ok u s1"
    using mix by (simp add: s1_def mix_ok_def Let_def)
  have d1: "d_tag (dev s1 d) = Some t" using d by (simp add: s1_def)
  obtain s2 where s2: "tag_add_outstanding t d s1 = Some s2"
    using tag_add_outstanding_defined [of s1 d t] d1 by auto
  define s3 where "s3 = device_save d (upd_dbdev d (\<lambda>D. D\<lparr>dd_discuss_open := 1\<rparr>) s2)"
  have run: "add_open t d s = Some s3"
    using h(1) s2 by (simp add: add_open_def on_heap_def s1_def s3_def)
  have k: "keeps s1 s2" by (rule keeps_tag_add_outstanding [OF s2])
  have disc1: "disc_inv s1 (X(t := X t @ [d]))"
    using disc h(2) t d new unfolding disc_inv_def s1_def by auto
  have "disc_inv s2 (X(t := X t @ [d]))" by (rule disc_inv_keeps [OF disc1 k])
  then have disc3: "disc_inv s3 (X(t := X t @ [d]))"
    by (rule disc_inv_cong) (simp_all add: s3_def)
  have "\<forall>u \<in> set (tags s2). mix_ok u s2" by (rule tag_add_outstanding_mix_all [OF mix1 s2 d1])
  then have mix3: "\<forall>u \<in> set (tags s3). mix_ok u s3"
    using mix_ok_cong [of s3 _ s2] by (simp add: s3_def)
  have "hp s3 = h" "ptc_curr s3 = ptc_curr s" using k by (simp_all add: keeps_def s3_def s1_def)
  then have ptc3: "ptc_inv s3 P" using h(3) by (intro ptc_inv_cong [OF ptc]) auto
  have "same_conf s s1" by (simp add: same_conf_def s1_def)
  moreover have "same_conf s2 s3" by (simp add: same_conf_def s3_def)
  ultimately have "same_conf s s3" using same_conf_keeps [OF k] same_conf_trans by blast
  moreover have "d_open (dev s3 d) = 1" using k by (simp add: keeps_def s3_def s1_def)
  moreover have m1: "mix_ok t s1" using mix1 t by (simp add: s1_def)
  then have "seated t d s3" using tag_add_outstanding_seats [OF _ s2 d1] by (simp add: seated_def s3_def)
  moreover have "t_mix_count (tagm s3 u) = 8" if "t_mix_count (tagm s u) = 8" for u
    using tag_add_outstanding_full [OF m1 s2, of u] that by (cases "u = t") (simp_all add: s3_def s1_def)
  moreover have "d_open (dev s3 e) = d_open (dev s e) \<and> d_mixbit (dev s3 e) = d_mixbit (dev s e)" if "e \<noteq> d" for e
    using k tag_add_outstanding_other(2) [OF s2 that] that by (simp add: keeps_def s3_def s1_def)
  ultimately show ?thesis using run disc3 mix3 ptc3 by (auto simp: room_inv_def)
qed

lemma del_open_room:
  assumes inv: "room_inv s X P" and t: "t \<in> set (tags s)" and d: "d \<in> set (X t)"
  shows "\<exists>s'. del_open t d s = Some s' \<and> room_inv s' (X(t := remove1 d (X t))) P \<and> same_conf s s'
    \<and> d_open (dev s' d) = 0 \<and> (\<forall>e. e \<noteq> d \<longrightarrow> d_open (dev s' e) = d_open (dev s e))
    \<and> d_mixbit (dev s' d) = 0 \<and> (\<forall>e. e \<noteq> d \<longrightarrow> d_mixbit (dev s' e) = d_mixbit (dev s e))"
proof -
  have disc: "disc_inv s X" and mix: "\<forall>t \<in> set (tags s). mix_ok t s" and ptc: "ptc_inv s P"
    using inv by (simp_all add: room_inv_def)
  obtain h where h: "list_del (DOpen d) (hp s) = Some h"
    "\<forall>k \<in> set (tags s). dlist h (OpenHead k) (map DOpen ((X(t := remove1 d (X t))) k))"
    "\<forall>n. n \<notin> range OpenHead \<union> range DOpen \<longrightarrow> h n = hp s n"
    using close_heap [OF disc t d] by auto
  have dt: "d_tag (dev s d) = Some t" using d disc by (simp add: disc_inv_def)
  define s1 where "s1 = upd_dev d (\<lambda>D. D\<lparr>d_open := 0\<rparr>)
    (upd_tag t (\<lambda>T. T\<lparr>t_openuser := t_openuser T - 1\<rparr>) (s\<lparr>hp := h\<rparr>))"
  have mix1: "\<forall>u \<in> set (tags s1). mix_ok u s1"
    using mix by (simp add: s1_def mix_ok_def Let_def)
  have d1: "d_tag (dev s1 d) = Some t" using dt by (simp add: s1_def)
  obtain s2 where s2: "tag_rm_outstanding t d s1 = Some s2"
    using tag_rm_outstanding_defined [of s1 d t] d1 by auto
  define s3 where "s3 = device_save d (upd_dbdev d (\<lambda>D. D\<lparr>dd_discuss_open := 0\<rparr>) s2)"
  have run: "del_open t d s = Some s3"
    using h(1) s2 by (simp add: del_open_def on_heap_def s1_def s3_def)
  have k: "keeps s1 s2" by (rule keeps_tag_rm_outstanding [OF s2])
  have len: "int (length (remove1 d (X t))) = int (length (X t)) - 1"
    using distinct_remove1_length [OF d] by linarith
  have disc1: "disc_inv s1 (X(t := remove1 d (X t)))"
    using disc h(2) t dt len disc_inv_distinct [OF disc, of t] unfolding disc_inv_def s1_def by auto
  have "disc_inv s2 (X(t := remove1 d (X t)))" by (rule disc_inv_keeps [OF disc1 k])
  then have disc3: "disc_inv s3 (X(t := remove1 d (X t)))"
    by (rule disc_inv_cong) (simp_all add: s3_def)
  have "\<forall>u \<in> set (tags s2). mix_ok u s2" by (rule tag_rm_outstanding_mix_all [OF mix1 s2 d1])
  then have mix3: "\<forall>u \<in> set (tags s3). mix_ok u s3"
    using mix_ok_cong [of s3 _ s2] by (simp add: s3_def)
  have "hp s3 = h" "ptc_curr s3 = ptc_curr s" using k by (simp_all add: keeps_def s3_def s1_def)
  then have ptc3: "ptc_inv s3 P" using h(3) by (intro ptc_inv_cong [OF ptc]) auto
  have "same_conf s s1" by (simp add: same_conf_def s1_def)
  moreover have "same_conf s2 s3" by (simp add: same_conf_def s3_def)
  ultimately have "same_conf s s3" using same_conf_keeps [OF k] same_conf_trans by blast
  moreover have "d_open (dev s3 e) = (if e = d then 0 else d_open (dev s e))" for e
    using k by (simp add: keeps_def s3_def s1_def)
  moreover have "mix_ok t s1" using mix1 t by (simp add: s1_def)
  then have "d_mixbit (dev s3 d) = 0" using tag_rm_outstanding_gone [OF _ s2] by (simp add: s3_def)
  moreover have "d_mixbit (dev s3 e) = d_mixbit (dev s e)" if "e \<noteq> d" for e
    using tag_rm_outstanding_other(2) [OF s2 that] that by (simp add: s3_def s1_def)
  ultimately show ?thesis using run disc3 mix3 ptc3 by (auto simp: room_inv_def)
qed

lemma add_open_placed:
  assumes inv: "room_inv s X P" and t: "t \<in> set (tags s)" and d: "d_tag (dev s d) = Some t"
    and new: "d_open (dev s d) = 0" and pl: "placed s X" and run: "add_open t d s = Some s'"
  shows "placed s' (X(t := X t @ [d]))"
proof -
  have s': "d_open (dev s' d) = 1" "seated t d s'"
    "\<And>e. e \<noteq> d \<Longrightarrow> d_open (dev s' e) = d_open (dev s e) \<and> d_mixbit (dev s' e) = d_mixbit (dev s e)"
    "\<And>u. t_mix_count (tagm s u) = 8 \<Longrightarrow> t_mix_count (tagm s' u) = 8"
    using add_open_room [OF inv t d new] run by auto
  have "e \<in> speakers s'" if "d_mixbit (dev s' e) \<noteq> 0" for e
    using pl s'(1) s'(3) [of e] that by (cases "e = d") (auto simp: placed_def speakers_def)
  moreover have "seated u e s'" if "e \<in> set ((X(t := X t @ [d])) u)" for u e
  proof (cases "e = d")
    case True
    have nd: "d \<notin> set (X u)" using inv new by (simp add: room_inv_def disc_inv_def)
    then have "u = t" using True that by (auto split: if_splits)
    then show ?thesis using True s'(2) by simp
  next
    case False
    then have "e \<in> set (X u)" using that by (auto split: if_splits)
    then have "seated u e s" using pl by (simp add: placed_def)
    then show ?thesis using s'(3) [OF False] s'(4) by (auto simp: seated_def)
  qed
  ultimately show ?thesis by (auto simp: placed_def)
qed

subsection \<open>The request command\<close>

lemma list_devs_open:
  "disc_inv s X \<Longrightarrow> t \<in> set (tags s) \<Longrightarrow> list_devs (OpenHead t) s = Some (X t)"
  using list_for_each_dlist [of "hp s" "OpenHead t" "map DOpen (X t)"]
  by (simp add: list_devs_def disc_inv_def del: map_map)

definition nonchair :: "srv \<Rightarrow> int list \<Rightarrow> int" where
  "nonchair s xs = int (length (filter (\<lambda>e. d_type (dev s e) \<noteq> DEVTYPE_CHAIR) xs))"

lemma nonchair_simps [simp]:
  "nonchair s [] = 0"
  "nonchair s (x # xs) = (if d_type (dev s x) = DEVTYPE_CHAIR then 0 else 1) + nonchair s xs"
  "nonchair s (xs @ ys) = nonchair s xs + nonchair s ys"
  by (simp_all add: nonchair_def)

lemma nonchair_le: "nonchair s xs \<le> int (length xs)"
  by (simp add: nonchair_def)

lemma nonchair_remove1:
  "k \<in> set xs \<Longrightarrow> d_type (dev s k) \<noteq> DEVTYPE_CHAIR \<Longrightarrow> nonchair s (remove1 k xs) = nonchair s xs - 1"
  by (induction xs) auto

lemma nonchair_cong: "same_conf s s' \<Longrightarrow> nonchair s' xs = nonchair s xs"
  by (simp add: same_conf_def nonchair_def)

lemma scan_open_it:
  "scan_open s mx ks opened kick = OpenIt \<Longrightarrow> opened - (int (length ks) - nonchair s ks) < mx"
proof (induction ks arbitrary: opened kick)
  case Nil
  then show ?case by simp
next
  case (Cons k ks)
  then show ?case using nonchair_le [of s ks] by (force split: if_splits)
qed

lemma scan_kick:
  "scan_open s mx ks opened kick = Kick (Some k) \<Longrightarrow>
    (k \<in> set ks \<and> d_type (dev s k) \<noteq> DEVTYPE_CHAIR) \<or> kick = Some k"
  by (induction ks arbitrary: opened kick) (auto split: if_splits)

lemma open_it_room:
  assumes inv: "room_inv s X P" and t: "t \<in> set (tags s)" and d: "d_tag (dev s d) = Some t"
    and new: "d_open (dev s d) = 0" and run: "open_it t d s = Some (r, s')"
  shows "r = 0 \<and> room_inv s' (X(t := X t @ [d])) (d # remove1 d P) \<and> same_conf s s' \<and> d_open (dev s' d) = 1
    \<and> follows s P s' (d # remove1 d P) \<and> seated t d s'"
proof -
  obtain s1 where s1: "add_open t d s = Some s1" "room_inv s1 (X(t := X t @ [d])) P" "same_conf s s1"
    "d_open (dev s1 d) = 1" "seated t d s1"
    "\<forall>e. e \<noteq> d \<longrightarrow> d_open (dev s1 e) = d_open (dev s e) \<and> d_mixbit (dev s1 e) = d_mixbit (dev s e)"
    using add_open_room [OF inv t d new] by blast
  have push: "ptc_push d s1 = Some s'" and r: "r = 0" using run s1(1) by (auto simp: open_it_def)
  have "ptc_inv s1 P" using s1(2) by (simp add: room_inv_def)
  from ptc_push_inv [OF this push] have p: "ptc_inv s' (d # remove1 d P)" "ptc_frame s1 s'" by auto
  have "room_inv s' (X(t := X t @ [d])) (d # remove1 d P)"
    using s1(2) p disc_inv_ptc mix_all_ptc unfolding room_inv_def by blast
  moreover have "follows s P s' (d # remove1 d P)"
    by (rule follows_opened) (use s1(4,6) ptc_frame_sel(1) [OF p(2)] in auto)
  moreover have "seated t d s'" using s1(5) ptc_frame_sel(1,3) [OF p(2)] by (simp add: seated_def)
  ultimately show ?thesis
    using r s1(3,4) same_conf_ptc [OF p(2)] same_conf_trans ptc_frame_sel(1) [OF p(2)] by auto
qed

lemma device_cmd_room:
  assumes "room_inv s X P" shows "room_inv (device_cmd k x s) X P"
proof -
  have "disc_inv (device_cmd k x s) X"
    by (rule disc_inv_cong [of s]) (use assms in \<open>simp_all add: room_inv_def\<close>)
  moreover have "ptc_inv (device_cmd k x s) P"
    by (rule ptc_inv_cong [of s]) (use assms in \<open>simp_all add: room_inv_def\<close>)
  ultimately show ?thesis
    using assms mix_ok_cong [of "device_cmd k x s" _ s] by (simp add: room_inv_def)
qed

lemma same_conf_cmd: "same_conf s (device_cmd k x s)"
  by (simp add: same_conf_def)

text \<open>The device pushed out is not the one that asks.\<close>

lemma kick_room:
  assumes inv: "room_inv s X P" and t: "t \<in> set (tags s)" and d: "d_tag (dev s d) = Some t"
    and new: "d_open (dev s d) = 0" and k: "k \<in> set (X t)"
    and run: "(do { s1 \<leftarrow> del_open t k s; s2 \<leftarrow> ptc_remove k s1; open_it t d (kick_user d k s2) }) = Some (r, s')"
  shows "r = 0 \<and> room_inv s' (X(t := remove1 k (X t) @ [d])) (d # remove1 d (remove1 k P)) \<and> same_conf s s'
    \<and> d_open (dev s' d) = 1 \<and> follows s P s' (d # remove1 d (remove1 k P)) \<and> seated t d s'"
proof -
  have kd: "k \<noteq> d" using k new inv by (auto simp: room_inv_def disc_inv_def)
  obtain s1 where s1: "del_open t k s = Some s1" "room_inv s1 (X(t := remove1 k (X t))) P" "same_conf s s1"
    "\<forall>e. e \<noteq> k \<longrightarrow> d_open (dev s1 e) = d_open (dev s e)" "d_open (dev s1 k) = 0" "d_mixbit (dev s1 k) = 0"
    "\<forall>e. e \<noteq> k \<longrightarrow> d_mixbit (dev s1 e) = d_mixbit (dev s e)"
    using del_open_room [OF inv t k] by blast
  obtain s2 where s2: "ptc_remove k s1 = Some s2" "open_it t d (kick_user d k s2) = Some (r, s')"
    using run s1(1) by auto
  have ps1: "ptc_inv s1 P" using s1(2) by (simp add: room_inv_def)
  from ptc_remove_inv [OF this s2(1)] have p: "ptc_inv s2 (remove1 k P)" "ptc_frame s1 s2" by auto
  have room2: "room_inv s2 (X(t := remove1 k (X t))) (remove1 k P)"
    using s1(2) p disc_inv_ptc mix_all_ptc unfolding room_inv_def by blast
  let ?s3 = "kick_user d k s2"
  have room3: "room_inv ?s3 (X(t := remove1 k (X t))) (remove1 k P)"
    unfolding kick_user_def by (rule device_cmd_room [OF room2])
  have c3: "same_conf s ?s3"
    using s1(3) same_conf_ptc [OF p(2)] same_conf_cmd same_conf_trans unfolding kick_user_def by blast
  have "t \<in> set (tags ?s3)" "d_tag (dev ?s3 d) = Some t" using c3 t d by (simp_all add: same_conf_def)
  moreover have "d_open (dev ?s3 d) = 0"
    using s1(4) kd new ptc_frame_sel(1) [OF p(2)] by (simp add: kick_user_def)
  ultimately have "r = 0 \<and> room_inv s' ((X(t := remove1 k (X t)))(t := (X(t := remove1 k (X t))) t @ [d]))
      (d # remove1 d (remove1 k P)) \<and> same_conf ?s3 s' \<and> d_open (dev s' d) = 1
      \<and> follows ?s3 (remove1 k P) s' (d # remove1 d (remove1 k P)) \<and> seated t d s'"
    by (rule open_it_room [OF room3 _ _ _ s2(2)])
  moreover have "dev ?s3 = dev s1" using ptc_frame_sel(1) [OF p(2)] by (simp add: kick_user_def)
  then have "follows s P ?s3 (remove1 k P)"
    by (intro follows_closed) (use s1(4-7) ptc_inv_distinct [OF ps1] in auto)
  ultimately show ?thesis using c3 same_conf_trans follows_trans by auto
qed

text \<open>The four ways an open request can go.\<close>

lemma request_open_cases:
  assumes inv: "room_inv s X P" and t: "t \<in> set (tags s)" and d: "d_tag (dev s d) = Some t"
    and new: "d_open (dev s d) = 0" and run: "request_open t d s = Some (r, s')"
  obtains (rejected) "r = ERR_REJECTED" "s' = s" "t_maxuser (tagm s t) \<le> int (length (X t))"
    | (opened) "r = 0" "room_inv s' (X(t := X t @ [d])) (d # remove1 d P)" "same_conf s s'"
        "d_open (dev s' d) = 1" "follows s P s' (d # remove1 d P)" "seated t d s'"
        "d_type (dev s d) = DEVTYPE_CHAIR \<or> nonchair s (X t) < t_maxuser (tagm s t)"
    | (kicked) k where "r = 0" "k \<in> set (X t)" "d_type (dev s k) \<noteq> DEVTYPE_CHAIR"
        "d_active (dev s k) = 0 \<or> t_mode (tagm s t) = DISCMODE_FIFO"
        "room_inv s' (X(t := remove1 k (X t) @ [d])) (d # remove1 d (remove1 k P))" "same_conf s s'"
        "d_open (dev s' d) = 1" "follows s P s' (d # remove1 d (remove1 k P))" "seated t d s'"
proof -
  let ?T = "tagm s t"
  have disc: "disc_inv s X" using inv by (simp add: room_inv_def)
  have ou: "t_openuser ?T = int (length (X t))" using disc t by (simp add: disc_inv_def)
  have op: thesis if "open_it t d s = Some (r, s')"
      "d_type (dev s d) = DEVTYPE_CHAIR \<or> nonchair s (X t) < t_maxuser ?T"
    using open_it_room [OF inv t d new that(1)] that(2) opened by blast
  show thesis
  proof (cases "d_type (dev s d) = DEVTYPE_CHAIR \<and> t_openuser ?T < MAX_MIX")
    case True
    then show thesis using op run by (simp add: request_open_def Let_def)
  next
    case c1: False
    show thesis
    proof (cases "t_openuser ?T < t_maxuser ?T")
      case True
      then have "nonchair s (X t) < t_maxuser ?T" using ou nonchair_le [of s "X t"] by linarith
      moreover have "open_it t d s = Some (r, s')"
        using run c1 True unfolding request_open_def Let_def by (simp only: if_False if_True)
      ultimately show thesis using op by blast
    next
      case c2: False
      let ?scan = "scan_open s (t_maxuser ?T) (X t) (t_openuser ?T) None"
      have run': "(case ?scan of OpenIt \<Rightarrow> open_it t d s
          | Kick None \<Rightarrow> Some (ERR_REJECTED, s)
          | Kick (Some k) \<Rightarrow>
              if d_active (dev s k) = 0 \<or> t_mode ?T = DISCMODE_FIFO
              then do { s1 \<leftarrow> del_open t k s; s2 \<leftarrow> ptc_remove k s1; open_it t d (kick_user d k s2) }
              else Some (ERR_REJECTED, s)) = Some (r, s')"
        using run c1 c2 unfolding request_open_def Let_def list_devs_open [OF disc t]
        by (simp only: if_False bind.bind_lunit)
      show thesis
      proof (cases ?scan)
        case OpenIt
        then have "nonchair s (X t) < t_maxuser ?T" using scan_open_it [OF OpenIt] ou by linarith
        then show thesis using op run' OpenIt by simp
      next
        case (Kick kk)
        show thesis
        proof (cases kk)
          case None
          then show thesis using rejected run' Kick c2 ou by simp
        next
          case (Some k)
          have k: "k \<in> set (X t)" "d_type (dev s k) \<noteq> DEVTYPE_CHAIR"
            using scan_kick [of s _ "X t" _ None k] Kick Some by auto
          show thesis
          proof (cases "d_active (dev s k) = 0 \<or> t_mode ?T = DISCMODE_FIFO")
            case True
            have body: "(do { s1 \<leftarrow> del_open t k s; s2 \<leftarrow> ptc_remove k s1;
                open_it t d (kick_user d k s2) }) = Some (r, s')"
              using run' Kick Some True by (simp only: scan.case option.case if_True)
            show thesis using kick_room [OF inv t d new k(1) body] k True kicked by blast
          next
            case False
            then show thesis using rejected run' Kick Some c2 ou by simp
          qed
        qed
      qed
    qed
  qed
qed

lemma request_close_room:
  assumes inv: "room_inv s X P" and t: "t \<in> set (tags s)" and d: "d_tag (dev s d) = Some t"
    and op: "d_open (dev s d) = 1" and run: "request_close t d s = Some (r, s')"
  shows "r = 0 \<and> room_inv s' (X(t := remove1 d (X t))) (remove1 d P) \<and> same_conf s s'
    \<and> d_open (dev s' d) = 0 \<and> d_mixbit (dev s' d) = 0 \<and> follows s P s' (remove1 d P)"
proof -
  have "d \<in> set (X t)" using inv d op by (simp add: room_inv_def disc_inv_def)
  from del_open_room [OF inv t this] obtain s1 where
    s1: "del_open t d s = Some s1" "room_inv s1 (X(t := remove1 d (X t))) P" "same_conf s s1"
    "d_open (dev s1 d) = 0" "d_mixbit (dev s1 d) = 0"
    "\<forall>e. e \<noteq> d \<longrightarrow> d_open (dev s1 e) = d_open (dev s e)" "\<forall>e. e \<noteq> d \<longrightarrow> d_mixbit (dev s1 e) = d_mixbit (dev s e)"
    by blast
  have rm: "ptc_remove d s1 = Some s'" and r: "r = 0" using run s1(1) by (auto simp: request_close_def)
  have ps1: "ptc_inv s1 P" using s1(2) by (simp add: room_inv_def)
  from ptc_remove_inv [OF this rm] have p: "ptc_inv s' (remove1 d P)" "ptc_frame s1 s'" by auto
  have "room_inv s' (X(t := remove1 d (X t))) (remove1 d P)"
    using s1(2) p disc_inv_ptc mix_all_ptc unfolding room_inv_def by blast
  moreover have "follows s P s' (remove1 d P)"
    by (rule follows_closed) (use s1(4-7) ptc_inv_distinct [OF ps1] ptc_frame_sel(1) [OF p(2)] in auto)
  ultimately show ?thesis
    using r s1(3-5) same_conf_ptc [OF p(2)] same_conf_trans ptc_frame_sel(1) [OF p(2)] by auto
qed

lemma request_same_room:
  assumes inv: "room_inv s X P" and t: "t \<in> set (tags s)" and d: "d_tag (dev s d) = Some t"
    and op: "d_open (dev s d) = open" "open = 0 \<or> open = 1"
    and run: "request_same open t d s = Some (r, s')"
  shows "r = 0 \<and> same_conf s s' \<and> d_open (dev s' d) = open
    \<and> (\<exists>P'. room_inv s' X P' \<and> follows s P s' P' \<and> (open = 1 \<longrightarrow> take 1 P' = [d] \<and> seated t d s'))"
proof (cases "open = 0")
  case True
  then show ?thesis using inv run op(1) by (auto simp: request_same_def intro!: exI [of _ P])
next
  case False
  then obtain s1 where s1: "tag_add_outstanding t d s = Some s1" "ptc_push d s1 = Some s'" "r = 0"
    using run by (auto simp: request_same_def)
  have k: "keeps s s1" by (rule keeps_tag_add_outstanding [OF s1(1)])
  have "\<forall>t \<in> set (tags s1). mix_ok t s1"
    using tag_add_outstanding_mix_all [OF _ s1(1) d] inv by (simp add: room_inv_def)
  moreover have "disc_inv s1 X" using disc_inv_keeps [OF _ k] inv by (simp add: room_inv_def)
  moreover have p1: "ptc_inv s1 P"
    by (rule ptc_inv_cong [of s]) (use inv k in \<open>auto simp: room_inv_def keeps_def\<close>)
  moreover note ptc_push_inv [OF p1 s1(2)]
  ultimately have 1: "room_inv s' X (d # remove1 d P)" "ptc_frame s1 s'"
    using disc_inv_ptc mix_all_ptc unfolding room_inv_def by blast+
  have dev: "dev s' = dev s1" "tagm s' = tagm s1" using ptc_frame_sel(1,3) [OF 1(2)] by auto
  have open1: "d_open (dev s' e) = d_open (dev s e)" for e using k dev by (simp add: keeps_def)
  have "follows s P s' (d # remove1 d P)"
    by (rule follows_opened) (use open1 op False dev tag_add_outstanding_other(2) [OF s1(1)] in auto)
  moreover have "mix_ok t s" using inv t by (simp add: room_inv_def)
  then have "seated t d s'" using tag_add_outstanding_seats [OF _ s1(1) d] dev by (simp add: seated_def)
  moreover have "same_conf s s'" using same_conf_keeps [OF k] same_conf_ptc [OF 1(2)] same_conf_trans by blast
  ultimately show ?thesis using s1(3) open1 op(1) 1(1) by (auto intro!: exI [of _ "d # remove1 d P"])
qed

lemma nonchair_remove1_le: "nonchair s (remove1 d xs) \<le> nonchair s xs"
  by (induction xs) auto

lemma request_step_room:
  assumes inv: "room_inv s X P" and t: "t \<in> set (tags s)" and d: "d_tag (dev s d) = Some t"
    and op: "open = 0 \<or> open = 1" and run: "request_step open t d s = Some (r, s')"
  shows "\<exists>X' P'. room_inv s' X' P' \<and> same_conf s s'
    \<and> (nonchair s (X t) \<le> t_maxuser (tagm s t) \<longrightarrow> nonchair s' (X' t) \<le> t_maxuser (tagm s' t))
    \<and> (r = 0 \<longrightarrow> d_open (dev s' d) = open \<and> (open = 1 \<longrightarrow> take 1 P' = [d] \<and> seated t d s'))
    \<and> follows s P s' P' \<and> (r \<noteq> 0 \<longrightarrow> r = ERR_REJECTED \<and> s' = s)"
proof -
  have fl: "d_open (dev s d) = 0 \<or> d_open (dev s d) = 1" using inv by (simp add: room_inv_def disc_inv_def)
  have mu: "t_maxuser (tagm s' t) = t_maxuser (tagm s t)" if "same_conf s s'"
    using that by (simp add: same_conf_def)
  consider (unchanged) "d_open (dev s d) = open" "request_same open t d s = Some (r, s')"
    | (to_open) "d_open (dev s d) = 0" "open = 1" "request_open t d s = Some (r, s')"
    | (to_close) "d_open (dev s d) = 1" "open = 0" "request_close t d s = Some (r, s')"
    using run op fl by (auto simp: request_step_def split: if_splits)
  then show ?thesis
  proof cases
    case unchanged
    from request_same_room [OF inv t d unchanged(1) op unchanged(2)] obtain P' where
      c: "r = 0" "same_conf s s'" "d_open (dev s' d) = open" "room_inv s' X P'" "follows s P s' P'"
        "open = 1 \<longrightarrow> take 1 P' = [d] \<and> seated t d s'" by blast
    then show ?thesis using mu [OF c(2)] nonchair_cong [OF c(2)]
      by (intro exI [of _ X] exI [of _ P']) simp
  next
    case to_close
    from request_close_room [OF inv t d to_close(1,3)] have
      c: "room_inv s' (X(t := remove1 d (X t))) (remove1 d P)" "same_conf s s'" "d_open (dev s' d) = 0"
        "follows s P s' (remove1 d P)" "r = 0"
      by auto
    have "nonchair s (remove1 d (X t)) \<le> nonchair s (X t)" by (rule nonchair_remove1_le)
    with c to_close(2) mu [OF c(2)] nonchair_cong [OF c(2)] show ?thesis
      by (intro exI [of _ "X(t := remove1 d (X t))"] exI [of _ "remove1 d P"]) simp
  next
    case to_open
    from inv t d to_open(1,3) show ?thesis
    proof (cases rule: request_open_cases)
      case rejected
      then show ?thesis using inv by (intro exI [of _ X] exI [of _ P]) (simp add: err_defs)
    next
      case opened
      then have "nonchair s (X t) \<le> t_maxuser (tagm s t) \<longrightarrow> nonchair s (X t @ [d]) \<le> t_maxuser (tagm s t)"
        by auto
      with opened to_open(2) mu [OF opened(3)] nonchair_cong [OF opened(3)] show ?thesis
        by (intro exI [of _ "X(t := X t @ [d])"] exI [of _ "d # remove1 d P"]) (simp del: nonchair_simps)
    next
      case (kicked k)
      then have "nonchair s (remove1 k (X t) @ [d]) \<le> nonchair s (X t)"
        using nonchair_remove1 [OF kicked(2,3)] by simp
      with kicked to_open(2) mu [OF kicked(6)] nonchair_cong [OF kicked(6)] show ?thesis
        by (intro exI [of _ "X(t := remove1 k (X t) @ [d])"] exI [of _ "d # remove1 d (remove1 k P)"])
          (simp del: nonchair_simps)
    qed
  qed
qed

lemma request_post_room:
  assumes inv: "room_inv s X P" and run: "request_post open t d s = Some s'"
  shows "room_inv s' X P \<and> same_conf s s' \<and> dev s' = dev s \<and> seated u e s' = seated u e s"
proof -
  have *: "hp s' = hp s \<and> dev s' = dev s \<and> tags s' = tags s \<and> devs s' = devs s \<and> grp s' = grp s
      \<and> grps s' = grps s \<and> ptc_curr s' = ptc_curr s \<and> dbdev s' = dbdev s
      \<and> (\<exists>r. tagm s' = (tagm s)(t := (tagm s t)\<lparr>t_interp_rep := r\<rparr>) \<or> tagm s' = tagm s)"
    using run apply_interp_frame [of t d s s']
    by (auto simp: request_post_def split: if_splits)
  then obtain r where tm: "tagm s' = (tagm s)(t := (tagm s t)\<lparr>t_interp_rep := r\<rparr>) \<or> tagm s' = tagm s"
    by blast
  have "disc_inv s' X"
    by (rule disc_inv_cong [of s]) (use inv * tm in \<open>auto simp: room_inv_def\<close>)
  moreover have "ptc_inv s' P"
    by (rule ptc_inv_cong [of s]) (use inv * in \<open>auto simp: room_inv_def\<close>)
  moreover have "mix_ok u s' \<longleftrightarrow> mix_ok u s" for u
    by (rule mix_ok_cong_slots) (use * tm in auto)
  then have "\<forall>u \<in> set (tags s'). mix_ok u s'" using inv * by (simp add: room_inv_def)
  moreover have "same_conf s s'" using * tm by (auto simp: same_conf_def)
  moreover have "seated u e s' = seated u e s" using * tm by (auto simp: seated_def split: if_splits)
  ultimately show ?thesis using * by (simp add: room_inv_def)
qed

subsection \<open>No fault\<close>

lemma ptc_fits_conf: "same_conf s s' \<Longrightarrow> ptc_fits s' \<longleftrightarrow> ptc_fits s"
  by (rule ptc_fits_cong) (simp add: same_conf_def)

lemma open_it_defined:
  assumes inv: "room_inv s X P" and t: "t \<in> set (tags s)" and d: "d_tag (dev s d) = Some t"
    and new: "d_open (dev s d) = 0" and fits: "ptc_fits s"
  shows "\<exists>s'. open_it t d s = Some (0, s')"
proof -
  obtain s1 where s1: "add_open t d s = Some s1" "room_inv s1 (X(t := X t @ [d])) P" "same_conf s s1"
    using add_open_room [OF inv t d new] by blast
  have "ptc_fits s1" using ptc_fits_conf [OF s1(3)] fits by simp
  moreover have "ptc_inv s1 P" using s1(2) by (simp add: room_inv_def)
  ultimately obtain s2 where "ptc_push d s1 = Some s2" using ptc_push_defined by blast
  with s1(1) show ?thesis by (simp add: open_it_def)
qed

lemma kick_defined:
  assumes inv: "room_inv s X P" and t: "t \<in> set (tags s)" and d: "d_tag (dev s d) = Some t"
    and new: "d_open (dev s d) = 0" and fits: "ptc_fits s" and k: "k \<in> set (X t)"
  shows "\<exists>s'. (do { s1 \<leftarrow> del_open t k s; s2 \<leftarrow> ptc_remove k s1; open_it t d (kick_user d k s2) }) = Some (0, s')"
proof -
  have kd: "k \<noteq> d" using k new inv by (auto simp: room_inv_def disc_inv_def)
  obtain s1 where s1: "del_open t k s = Some s1" "room_inv s1 (X(t := remove1 k (X t))) P" "same_conf s s1"
    "\<forall>e. e \<noteq> k \<longrightarrow> d_open (dev s1 e) = d_open (dev s e)"
    using del_open_room [OF inv t k] by blast
  have f1: "ptc_fits s1" and i1: "ptc_inv s1 P"
    using ptc_fits_conf [OF s1(3)] fits s1(2) by (simp_all add: room_inv_def)
  obtain s2 where s2: "ptc_remove k s1 = Some s2" using ptc_remove_defined [OF i1 f1] by blast
  have p: "ptc_inv s2 (remove1 k P)" "ptc_frame s1 s2" using ptc_remove_inv [OF i1 s2] by auto
  let ?s3 = "kick_user d k s2"
  have room3: "room_inv ?s3 (X(t := remove1 k (X t))) (remove1 k P)"
    unfolding kick_user_def
    by (rule device_cmd_room) (use s1(2) p disc_inv_ptc mix_all_ptc in \<open>unfold room_inv_def, blast\<close>)
  have c3: "same_conf s ?s3"
    using s1(3) same_conf_ptc [OF p(2)] same_conf_cmd same_conf_trans unfolding kick_user_def by blast
  have "t \<in> set (tags ?s3)" "d_tag (dev ?s3 d) = Some t" "ptc_fits ?s3"
    using c3 t d ptc_fits_conf [OF c3] fits by (simp_all add: same_conf_def)
  moreover have "d_open (dev ?s3 d) = 0"
    using s1(4) kd new ptc_frame_sel(1) [OF p(2)] by (simp add: kick_user_def)
  ultimately obtain s4 where "open_it t d ?s3 = Some (0, s4)" using open_it_defined [OF room3] by blast
  with s1(1) s2 show ?thesis by simp
qed

lemma request_open_defined:
  assumes inv: "room_inv s X P" and t: "t \<in> set (tags s)" and d: "d_tag (dev s d) = Some t"
    and new: "d_open (dev s d) = 0" and fits: "ptc_fits s"
  shows "\<exists>r s'. request_open t d s = Some (r, s')"
proof -
  have disc: "disc_inv s X" using inv by (simp add: room_inv_def)
  obtain s' where o: "open_it t d s = Some (0, s')" using open_it_defined [OF assms] by blast
  let ?scan = "scan_open s (t_maxuser (tagm s t)) (X t) (t_openuser (tagm s t)) None"
  have "\<exists>r s'. (case ?scan of OpenIt \<Rightarrow> open_it t d s
          | Kick None \<Rightarrow> Some (ERR_REJECTED, s)
          | Kick (Some k) \<Rightarrow>
              if d_active (dev s k) = 0 \<or> t_mode (tagm s t) = DISCMODE_FIFO
              then do { s1 \<leftarrow> del_open t k s; s2 \<leftarrow> ptc_remove k s1; open_it t d (kick_user d k s2) }
              else Some (ERR_REJECTED, s)) = Some (r, s')"
  proof (cases ?scan)
    case (Kick kk)
    show ?thesis
    proof (cases kk)
      case (Some k)
      then have "k \<in> set (X t)" using scan_kick [of s _ "X t" _ None k] Kick by auto
      from kick_defined [OF assms this] show ?thesis using Kick Some by auto
    qed (use Kick in simp)
  qed (use o in simp)
  then show ?thesis
    using o unfolding request_open_def Let_def list_devs_open [OF disc t] by auto
qed

lemma request_step_defined:
  assumes inv: "room_inv s X P" and t: "t \<in> set (tags s)" and d: "d_tag (dev s d) = Some t"
    and fits: "ptc_fits s" and op: "open = 0 \<or> open = 1"
  shows "\<exists>r s'. request_step open t d s = Some (r, s')"
proof -
  have fl: "d_open (dev s d) = 0 \<or> d_open (dev s d) = 1" using inv by (simp add: room_inv_def disc_inv_def)
  obtain s1 where s1: "tag_add_outstanding t d s = Some s1" using tag_add_outstanding_defined [of s d t] d by auto
  have k: "keeps s s1" by (rule keeps_tag_add_outstanding [OF s1])
  have "ptc_inv s1 P" by (rule ptc_inv_cong [of s]) (use inv k in \<open>auto simp: room_inv_def keeps_def\<close>)
  moreover have "ptc_fits s1" using ptc_fits_conf [OF same_conf_keeps [OF k]] fits by simp
  ultimately obtain s2 where s2: "ptc_push d s1 = Some s2" using ptc_push_defined by blast
  have same: "\<exists>r s'. request_same open t d s = Some (r, s')" using s1 s2 by (simp add: request_same_def)
  have cl: "\<exists>r s'. request_close t d s = Some (r, s')" if "d_open (dev s d) = 1"
  proof -
    have "d \<in> set (X t)" using inv d that by (simp add: room_inv_def disc_inv_def)
    then obtain c1 where c1: "del_open t d s = Some c1" "room_inv c1 (X(t := remove1 d (X t))) P" "same_conf s c1"
      using del_open_room [OF inv t] by blast
    then obtain c2 where "ptc_remove d c1 = Some c2"
      using ptc_remove_defined [of c1 P d] ptc_fits_conf [OF c1(3)] fits by (auto simp: room_inv_def)
    with c1(1) show ?thesis by (simp add: request_close_def)
  qed
  show ?thesis
    using fl op same cl request_open_defined [OF inv t d _ fits] by (auto simp: request_step_def)
qed

lemma request_post_defined:
  assumes "d_type (dev s d) = DEVTYPE_INTERP \<longrightarrow> d_sub (dev s d) \<noteq> None" and "d_group (dev s d) \<noteq> None"
  shows "\<exists>s'. request_post open t d s = Some s'"
  using assms by (auto simp: request_post_def apply_interp_mode_def Let_def)

text \<open>A registered device: it has a known tag and a group.\<close>

definition registered :: "srv \<Rightarrow> int \<Rightarrow> bool" where
  "registered s d \<longleftrightarrow> d \<in> set (devs s) \<and> d_group (dev s d) \<noteq> None
     \<and> (\<exists>t \<in> set (tags s). d_tag (dev s d) = Some t)"

lemma discctrl_request_room:
  assumes inv: "room_inv s X P" and reg: "registered s d" and t: "d_tag (dev s d) = Some t"
    and fits: "ptc_fits s"
    and interp: "d_type (dev s d) = DEVTYPE_INTERP \<longrightarrow> d_sub (dev s d) \<noteq> None"
    and op: "atoi p = 0 \<or> atoi p = 1"
  shows "\<exists>r c' s' X' P'. discctrl_request d (p # args) c s = Some (r, c', s') \<and> room_inv s' X' P'
    \<and> same_conf s s'
    \<and> (r = 0 \<longrightarrow> d_open (dev s' d) = atoi p \<and> (atoi p = 1 \<longrightarrow> take 1 P' = [d] \<and> seated t d s'))
    \<and> (nonchair s (X t) \<le> t_maxuser (tagm s t) \<longrightarrow> nonchair s' (X' t) \<le> t_maxuser (tagm s' t))
    \<and> follows s P s' P' \<and> (r \<noteq> 0 \<longrightarrow> r = ERR_REJECTED \<and> s' = s)"
proof -
  have tt: "t \<in> set (tags s)" using reg t by (auto simp: registered_def)
  obtain r s1 where s1: "request_step (atoi p) t d s = Some (r, s1)"
    using request_step_defined [OF inv tt t fits op] by blast
  from request_step_room [OF inv tt t op s1] obtain X' P' where
    x: "room_inv s1 X' P'" "same_conf s s1"
    "r = 0 \<longrightarrow> d_open (dev s1 d) = atoi p \<and> (atoi p = 1 \<longrightarrow> take 1 P' = [d] \<and> seated t d s1)"
    "nonchair s (X t) \<le> t_maxuser (tagm s t) \<longrightarrow> nonchair s1 (X' t) \<le> t_maxuser (tagm s1 t)"
    "follows s P s1 P'" "r \<noteq> 0 \<longrightarrow> r = ERR_REJECTED \<and> s1 = s" by blast
  show ?thesis
  proof (cases "r = 0")
    case False
    then have "discctrl_request d (p # args) c s = Some (r, REP_ADD ''OK'' c, s1)"
      using s1 t by (simp add: discctrl_request_def Let_def)
    then show ?thesis using x False by blast
  next
    case True
    obtain s2 where s2: "request_post (atoi p) t d s1 = Some s2"
      using request_post_defined [of s1 d "atoi p" t] interp reg x(2) by (auto simp: same_conf_def registered_def)
    from request_post_room [OF x(1) s2, of t d] have
      y: "room_inv s2 X' P'" "same_conf s1 s2" "dev s2 = dev s1" "seated t d s2 = seated t d s1" by auto
    have "same_conf s s2" using x(2) y(2) same_conf_trans by blast
    moreover have "nonchair s (X t) \<le> t_maxuser (tagm s t) \<longrightarrow> nonchair s2 (X' t) \<le> t_maxuser (tagm s2 t)"
      using x(4) nonchair_cong [OF y(2)] y(2) by (simp add: same_conf_def)
    moreover have "follows s P s2 P'" using follows_trans [OF x(5) follows_dev [OF y(3)]] .
    moreover obtain c' where "discctrl_request d (p # args) c s = Some (0, c', s2)"
      using s1 s2 True t by (auto simp: discctrl_request_def Let_def)
    ultimately show ?thesis using x(3) y True by auto
  qed
qed

subsection \<open>The first in is the first out\<close>

definition grows :: "srv \<Rightarrow> srv \<Rightarrow> bool" where
  "grows s s' \<longleftrightarrow> (\<exists>xs. outs s' = outs s @ xs)"

lemma grows_refl [simp]: "grows s s"
  by (simp add: grows_def)

lemma grows_trans: "grows s t \<Longrightarrow> grows t u \<Longrightarrow> grows s u"
  by (auto simp: grows_def)

lemma grows_mem: "grows s s' \<Longrightarrow> x \<in> set (outs s) \<Longrightarrow> x \<in> set (outs s')"
  by (auto simp: grows_def)

lemma grows_cmd: "grows s (device_cmd d x s)"
  by (simp add: device_cmd_def grows_def)

lemma grows_add_ptc: "outs (add_ptc p s) = outs s"
  by (simp add: add_ptc_def)

lemma grows_ptc_send: "ptc_send d s = Some s' \<Longrightarrow> grows s s'"
  by (auto simp: ptc_send_def Let_def grows_def grows_add_ptc device_cmd_def split: if_splits)

lemma grows_on_heap: "on_heap f s = Some s' \<Longrightarrow> grows s s'"
  by (auto simp: on_heap_Some grows_def)

lemma grows_ptc_push: "ptc_push d s = Some s' \<Longrightarrow> grows s s'"
proof -
  assume "ptc_push d s = Some s'"
  then obtain f s0 where s0: "on_heap f s = Some s0" "ptc_send d (s0\<lparr>ptc_curr := Some d\<rparr>) = Some s'"
    unfolding ptc_push_def ptc_put_def bind_Some_iff by (auto split: if_splits)
  have "grows s s0" by (rule grows_on_heap [OF s0(1)])
  moreover have "grows s0 (s0\<lparr>ptc_curr := Some d\<rparr>)" by (simp add: grows_def)
  ultimately show ?thesis using grows_ptc_send [OF s0(2)] grows_trans by blast
qed

lemma grows_add_open: "add_open t d s = Some s' \<Longrightarrow> grows s s'"
  using keeps_tag_add_outstanding
  by (force simp: add_open_def on_heap_Some grows_def device_save_def keeps_def)

lemma grows_open_it: "open_it t d s = Some (r, s') \<Longrightarrow> grows s s'"
  using grows_add_open grows_ptc_push grows_trans by (fastforce simp: open_it_def)

lemma scan_fifo:
  "\<forall>e \<in> set ks. d_type (dev s e) \<noteq> DEVTYPE_CHAIR \<and> d_active (dev s e) \<noteq> 0 \<Longrightarrow>
    scan_open s mx ks opened (Some k) = Kick (Some k)"
  by (induction ks arbitrary: opened) auto

text \<open>The kicked device does not get its microphone back on the way.\<close>

lemma request_open_fifo:
  assumes inv: "room_inv s X P" and t: "t \<in> set (tags s)" and d: "d_tag (dev s d) = Some t"
    and new: "d_open (dev s d) = 0" and nch: "d_type (dev s d) \<noteq> DEVTYPE_CHAIR" and fits: "ptc_fits s"
    and X: "X t = k # ks" and full: "t_maxuser (tagm s t) \<le> int (length (X t))"
    and fifo: "t_mode (tagm s t) = DISCMODE_FIFO" and ops: "d_ops (dev s k)"
    and act: "\<forall>e \<in> set (X t). d_type (dev s e) \<noteq> DEVTYPE_CHAIR \<and> d_active (dev s e) \<noteq> 0"
  shows "\<exists>s' P'. request_open t d s = Some (0, s') \<and> room_inv s' (X(t := ks @ [d])) P'
    \<and> CmdTo k (num_str d @ '' discctrl kick '' @ num_str k @ newline) \<in> set (outs s')"
proof -
  have disc: "disc_inv s X" using inv by (simp add: room_inv_def)
  have k: "k \<in> set (X t)" by (simp add: X)
  have ou: "\<not> t_openuser (tagm s t) < t_maxuser (tagm s t)" using full disc t by (simp add: disc_inv_def)
  have scan: "scan_open s (t_maxuser (tagm s t)) (X t) (t_openuser (tagm s t)) None = Kick (Some k)"
    using act scan_fifo [of ks s _ _ k] by (simp add: X)
  let ?body = "do { s1 \<leftarrow> del_open t k s; s2 \<leftarrow> ptc_remove k s1; open_it t d (kick_user d k s2) }"
  obtain s' where s': "?body = Some (0, s')" using kick_defined [OF inv t d new fits k] by blast
  have run: "request_open t d s = Some (0, s')"
    using s' nch ou scan fifo list_devs_open [OF disc t] by (simp add: request_open_def Let_def)
  from kick_room [OF inv t d new k s'] have
    "room_inv s' (X(t := ks @ [d])) (d # remove1 d (remove1 k P))" by (simp add: X)
  moreover have "CmdTo k (num_str d @ '' discctrl kick '' @ num_str k @ newline) \<in> set (outs s')"
  proof -
    obtain s1 s2 where s12: "del_open t k s = Some s1" "ptc_remove k s1 = Some s2"
      "open_it t d (kick_user d k s2) = Some (0, s')"
      using s' by auto
    obtain s1' where "del_open t k s = Some s1'" "room_inv s1' (X(t := remove1 k (X t))) P"
      using del_open_room [OF inv t k] by blast
    then have "ptc_inv s1 P" using s12(1) by (simp add: room_inv_def)
    then have "dev s2 = dev s1" using ptc_remove_inv [OF _ s12(2)] ptc_frame_sel(1) by blast
    moreover have "d_ops (dev s1 k)"
      using s12(1) keeps_tag_rm_outstanding ops
      by (fastforce simp: del_open_def on_heap_Some keeps_def)
    ultimately have "CmdTo k (num_str d @ '' discctrl kick '' @ num_str k @ newline) \<in> set (outs (kick_user d k s2))"
      by (simp add: kick_user_def device_cmd_def)
    then show ?thesis using grows_mem [OF grows_open_it [OF s12(3)]] by blast
  qed
  ultimately show ?thesis using run by blast
qed

lemma discctrl_status_reply:
  assumes "disc_inv s X" and "registered s d" and "d_tag (dev s d) = Some t"
    and "d_group (dev s d) = Some g" and "g_disc_current (grp s g) \<noteq> None"
    and "length (num_list (X t)) < 1024"
  shows "discctrl_status d args c s = Some (0, REP_END (REP_ADD (num_list (X t)) (REP_ADD ''OK'' c)), s)"
proof -
  have "t \<in> set (tags s)" using assms(2,3) by (auto simp: registered_def)
  from list_devs_open [OF assms(1) this] show ?thesis using assms by (auto simp: discctrl_status_def)
qed

end
