(* ===== verification/Discuss_Props.thy ===== *)
theory Discuss_Props
  imports Discuss_Inv Demo
begin

text \<open>
  The properties of the discussion commands, with their witnesses on the concrete server of Demo,
  and the two command sequences that break the invariant.
\<close>

text \<open>A sequence of commands, each handled as cmd_discctrl does it.\<close>

definition run_disc :: "cmd list \<Rightarrow> srv \<Rightarrow> srv option" where
  "run_disc cs s = foldM (\<lambda>c s. map_option (\<lambda>(r, c, s). s) (cmd_discctrl c s)) cs s"

lemma demo_room: "room_inv demo (\<lambda>_. []) []"
proof -
  have "disc_inv demo (\<lambda>_. [])"
    using demo_heads(1) by (simp add: disc_inv_def demo_sel demo_dev_sel demo_tag_def)
  moreover have "mix_ok 65537 demo"
    by (simp add: mix_ok_def Let_def demo_sel demo_dev_sel demo_tag_def used_def)
  moreover have "ptc_inv demo []"
    using demo_heads(3) by (simp add: ptc_inv_def demo_sel)
  ultimately show ?thesis by (simp add: room_inv_def demo_sel)
qed

lemma demo_registered: "d \<in> {5, 7, 8, 9} \<Longrightarrow> registered demo d"
  by (auto simp: registered_def demo_sel demo_dev_sel)

lemma demo_fits: "ptc_fits demo"
  by (simp add: ptc_fits_def demo_sel demo_dbdev_def)

lemma atoi_01: "atoi ''0'' = 0" "atoi ''1'' = 1" "atoi ''2'' = 2"
  by code_simp+

lemma discctrl_request_eq:
  assumes "registered s (c_dev c)" and "c_args c = ''request'' # p # args"
  shows "cmd_discctrl c s = discctrl_request (c_dev c) (p # args) c s"
  using assms by (simp add: cmd_discctrl_def registered_def)

text \<open>
  C1. The request command with argument 0 or 1, of a registered device that has a subscription if
  it is an interpreter, returns and does not fault as long as the messages to the cameras fit
  their buffers (ptc_fits). It keeps the invariant of the discussion: the open list of every tag,
  its counter and the open flags agree (room_inv), every open device is on the camera stack, and
  only open devices hold mixing slots (staged); nor does it leave a device it closes on the
  camera stack. It is refused with nothing changed, or succeeds. When opening succeeds, the
  microphone is open, the device is in the list of its tag and on top of the camera stack, and it
  has a mixing slot unless all eight are taken; when closing succeeds, it is in neither and has
  no slot.
\<close>

theorem discctrl_request_keeps_room:
  assumes "room_inv s X P" and "staged s P" and "registered s (c_dev c)" and "ptc_fits s"
    and "d_type (dev s (c_dev c)) = DEVTYPE_INTERP \<longrightarrow> d_sub (dev s (c_dev c)) \<noteq> None"
    and "c_args c = ''request'' # p # args" and "atoi p = 0 \<or> atoi p = 1"
    and "d_tag (dev s (c_dev c)) = Some t"
  shows "\<exists>r c' s' X' P'. cmd_discctrl c s = Some (r, c', s') \<and> room_inv s' X' P' \<and> staged s' P'
    \<and> set P' - speakers s' \<subseteq> set P - speakers s
    \<and> (r = ERR_REJECTED \<and> s' = s \<or> r = 0)
    \<and> (r = 0 \<and> atoi p = 1 \<longrightarrow> d_open (dev s' (c_dev c)) = 1 \<and> c_dev c \<in> set (X' t)
        \<and> take 1 P' = [c_dev c] \<and> seated t (c_dev c) s')
    \<and> (r = 0 \<and> atoi p = 0 \<longrightarrow> d_open (dev s' (c_dev c)) = 0 \<and> c_dev c \<notin> set (X' t)
        \<and> (d_open (dev s (c_dev c)) = 1 \<longrightarrow> c_dev c \<notin> set P') \<and> d_mixbit (dev s' (c_dev c)) = 0)"
proof -
  let ?d = "c_dev c"
  from discctrl_request_room [OF assms(1,3,8,4,5,7), of args c] obtain r c' s' X' P' where
    x: "discctrl_request ?d (p # args) c s = Some (r, c', s')" "room_inv s' X' P'" "same_conf s s'"
    "r = 0 \<longrightarrow> d_open (dev s' ?d) = atoi p \<and> (atoi p = 1 \<longrightarrow> take 1 P' = [?d] \<and> seated t ?d s')"
    "follows s P s' P'" "r \<noteq> 0 \<longrightarrow> r = ERR_REJECTED \<and> s' = s" by blast
  have f: "staged s' P'" "set P' - speakers s' \<subseteq> set P - speakers s" using x(5) assms(2) by (auto simp: follows_def)
  have "d_tag (dev s' ?d) = Some t" using x(3) assms(8) by (simp add: same_conf_def)
  then have "?d \<in> set (X' t) \<longleftrightarrow> d_open (dev s' ?d) = 1" using x(2) by (simp add: room_inv_def disc_inv_def)
  moreover have "d_mixbit (dev s' ?d) = 0" if "d_open (dev s' ?d) = 0"
    using f(1) that by (auto simp: staged_def speakers_def)
  moreover have "?d \<notin> set P'" if "d_open (dev s' ?d) = 0" "d_open (dev s ?d) = 1"
    using f(2) that by (auto simp: speakers_def)
  ultimately show ?thesis using x(1,2,4,6) f unfolding discctrl_request_eq [OF assms(3,6)]
    by (intro exI [of _ r] exI [of _ c'] exI [of _ s'] exI [of _ X'] exI [of _ P']) auto
qed

lemma demo_staged: "staged demo []"
  by (simp add: staged_def speakers_def demo_sel demo_dev_sel)

lemma demo_open_runs:
  "(case cmd_discctrl (demo_cmd 7 [''request'', ''1'']) demo of Some (r, c, s) \<Rightarrow> r = 0 \<and> t_mix_count (tagm s 65537) = 1 | None \<Rightarrow> False)"
  by code_simp

text \<open>Device 7 opens: it is now heard, seen, and in the list.\<close>

theorem discctrl_request_keeps_room_witness:
  "\<exists>c' s' X' P'. cmd_discctrl (demo_cmd 7 [''request'', ''1'']) demo = Some (0, c', s')
    \<and> room_inv s' X' P' \<and> staged s' P' \<and> d_open (dev s' 7) = 1 \<and> 7 \<in> set (X' 65537)
    \<and> take 1 P' = [7] \<and> d_mixbit (dev s' 7) \<noteq> 0"
  using discctrl_request_keeps_room [OF demo_room demo_staged, of "demo_cmd 7 [''request'', ''1'']" "''1''" "[]" 65537]
    demo_registered [of 7] demo_fits demo_open_runs
  by (auto simp: demo_cmd_def demo_sel demo_dev_sel atoi_01 type_defs seated_def)

text \<open>
  C2. A request never raises the number of open devices that are not chairmen above maxuser: if
  it was at most maxuser before, it still is.
\<close>

theorem discctrl_request_maxuser:
  assumes "room_inv s X P" and "registered s (c_dev c)" and "ptc_fits s"
    and "d_type (dev s (c_dev c)) = DEVTYPE_INTERP \<longrightarrow> d_sub (dev s (c_dev c)) \<noteq> None"
    and "c_args c = ''request'' # p # args" and "atoi p = 0 \<or> atoi p = 1"
    and "d_tag (dev s (c_dev c)) = Some t" and "nonchair s (X t) \<le> t_maxuser (tagm s t)"
  shows "\<exists>r c' s' X' P'. cmd_discctrl c s = Some (r, c', s') \<and> room_inv s' X' P'
    \<and> nonchair s' (X' t) \<le> t_maxuser (tagm s' t)"
  using discctrl_request_room [OF assms(1,2,7,3,4,6), of args c] assms(8)
  unfolding discctrl_request_eq [OF assms(2,5)] by blast

theorem discctrl_request_maxuser_witness:
  "\<exists>r c' s' X' P'. cmd_discctrl (demo_cmd 7 [''request'', ''1'']) demo = Some (r, c', s')
    \<and> room_inv s' X' P' \<and> nonchair s' (X' 65537) \<le> t_maxuser (tagm s' 65537)"
  using discctrl_request_maxuser [of demo "\<lambda>_. []" "[]" "demo_cmd 7 [''request'', ''1'']" "''1''" "[]" 65537]
    demo_room demo_registered [of 7] demo_fits
  by (simp add: demo_cmd_def demo_sel demo_dev_sel atoi_01 type_defs demo_tag_def)

text \<open>A request below maxuser goes straight through.\<close>

lemma cmd_request_direct:
  assumes inv: "room_inv s X P" and reg: "registered s (c_dev c)" and fits: "ptc_fits s"
    and ty: "d_type (dev s (c_dev c)) = DEVTYPE_NORMAL" and args: "c_args c = ''request'' # ''1'' # args"
    and new: "d_open (dev s (c_dev c)) = 0" and t: "d_tag (dev s (c_dev c)) = Some t"
    and below: "int (length (X t)) < t_maxuser (tagm s t)"
  shows "\<exists>c' s'. cmd_discctrl c s = Some (0, c', s')
    \<and> room_inv s' (X(t := X t @ [c_dev c])) (c_dev c # remove1 (c_dev c) P) \<and> same_conf s s'"
proof -
  let ?d = "c_dev c"
  have tt: "t \<in> set (tags s)" using reg t by (auto simp: registered_def)
  have "t_openuser (tagm s t) < t_maxuser (tagm s t)"
    using inv tt below by (simp add: room_inv_def disc_inv_def)
  then have ro: "request_open t ?d s = open_it t ?d s" by (simp add: request_open_def Let_def)
  obtain s' where s': "open_it t ?d s = Some (0, s')" using open_it_defined [OF inv tt t new fits] by blast
  from open_it_room [OF inv tt t new this] have
    r: "room_inv s' (X(t := X t @ [?d])) (?d # remove1 ?d P)" "same_conf s s'" by auto
  have "request_post 1 t ?d s' = Some s'"
    using ty r(2) by (simp add: request_post_def same_conf_def type_defs)
  moreover have "request_step 1 t ?d s = Some (0, s')" using ro s' new by (simp add: request_step_def)
  ultimately show ?thesis
    using r t unfolding discctrl_request_eq [OF reg args]
    by (simp add: discctrl_request_def Let_def atoi_01)
qed

text \<open>
  C3. In fifo mode, when maxuser devices are open, all of them alive and none a chairman, a request
  of another device succeeds: the device that has been open longest is closed and told so with a
  kick command, and the asking device is appended to the open list.
\<close>

theorem discctrl_request_fifo:
  assumes "room_inv s X P" and "registered s (c_dev c)" and "ptc_fits s"
    and "d_type (dev s (c_dev c)) = DEVTYPE_NORMAL"
    and "c_args c = ''request'' # p # args" and "atoi p = 1" and "d_open (dev s (c_dev c)) = 0"
    and "d_tag (dev s (c_dev c)) = Some t" and "X t = k # ks"
    and "t_maxuser (tagm s t) \<le> int (length (X t))" and "t_mode (tagm s t) = DISCMODE_FIFO"
    and "d_ops (dev s k)"
    and "\<forall>e \<in> set (X t). d_type (dev s e) \<noteq> DEVTYPE_CHAIR \<and> d_active (dev s e) \<noteq> 0"
  shows "\<exists>c' s' P'. cmd_discctrl c s = Some (0, c', s') \<and> room_inv s' (X(t := ks @ [c_dev c])) P'
    \<and> CmdTo k (num_str (c_dev c) @ '' discctrl kick '' @ num_str k @ newline) \<in> set (outs s')"
proof -
  let ?d = "c_dev c"
  have t: "t \<in> set (tags s)" using assms(2,8) by (auto simp: registered_def)
  have nch: "d_type (dev s ?d) \<noteq> DEVTYPE_CHAIR" using assms(4) by (simp add: type_defs)
  obtain s' P' where s': "request_open t ?d s = Some (0, s')" "room_inv s' (X(t := ks @ [?d])) P'"
    "CmdTo k (num_str ?d @ '' discctrl kick '' @ num_str k @ newline) \<in> set (outs s')"
    using request_open_fifo [OF assms(1) t assms(8,7) nch assms(3,9-13)] by blast
  have step: "request_step 1 t ?d s = Some (0, s')" using s'(1) assms(7) by (simp add: request_step_def)
  have "same_conf s s'" using request_step_room [OF assms(1) t assms(8) _ step] by blast
  then have "request_post 1 t ?d s' = Some s'"
    using assms(4) by (simp add: request_post_def same_conf_def type_defs)
  then show ?thesis
    using step s'(2,3) assms(6,8) unfolding discctrl_request_eq [OF assms(2,5)]
    by (auto simp: discctrl_request_def Let_def)
qed

text \<open>The demo server with the devices 7 and 8 open, which is as many as may be.\<close>

definition demo78 :: srv where
  "demo78 = the (run_disc [demo_cmd 7 [''request'', ''1''], demo_cmd 8 [''request'', ''1'']] demo)"

lemma demo78_room:
  "room_inv demo78 ((\<lambda>_. [])(65537 := [7, 8])) [8, 7]" "same_conf demo demo78"
proof -
  from cmd_request_direct [of demo "\<lambda>_. []" "[]" "demo_cmd 7 [''request'', ''1'']" "[]" 65537]
  obtain c1 s1 where s1: "cmd_discctrl (demo_cmd 7 [''request'', ''1'']) demo = Some (0, c1, s1)"
    "room_inv s1 ((\<lambda>_. [])(65537 := [7])) [7]" "same_conf demo s1"
    using demo_room demo_registered [of 7] demo_fits
    by (auto simp: demo_cmd_def demo_sel demo_dev_sel demo_tag_def)
  have o: "d_open (dev s1 8) = 0"
    by (rule disc_inv_closed [where t = 65537])
      (use s1(2,3) in \<open>auto simp: room_inv_def same_conf_def demo_sel demo_dev_sel\<close>)
  have reg: "registered s1 8"
    using s1(3) demo_registered [of 8] by (simp add: registered_def same_conf_def)
  from cmd_request_direct [OF s1(2), of "demo_cmd 8 [''request'', ''1'']" "[]" 65537]
  obtain c2 s2 where s2: "cmd_discctrl (demo_cmd 8 [''request'', ''1'']) s1 = Some (0, c2, s2)"
    "room_inv s2 ((\<lambda>_. [])(65537 := [7, 8])) [8, 7]" "same_conf s1 s2"
    using s1(3) o reg ptc_fits_conf [OF s1(3)] demo_fits
    by (auto simp: demo_cmd_def demo_sel demo_dev_sel demo_tag_def same_conf_def)
  have "demo78 = s2" using s1(1) s2(1) by (simp add: demo78_def run_disc_def)
  then show "room_inv demo78 ((\<lambda>_. [])(65537 := [7, 8])) [8, 7]" "same_conf demo demo78"
    using s2(2,3) s1(3) same_conf_trans by blast+
qed

lemma demo78_sel:
  "registered demo78 9" "ptc_fits demo78" "d_open (dev demo78 9) = 0" "d_type (dev demo78 d) = d_type (demo_dev d)"
  "d_tag (dev demo78 d) = d_tag (demo_dev d)" "d_active (dev demo78 d) = d_active (demo_dev d)"
  "d_ops (dev demo78 d)" "t_maxuser (tagm demo78 65537) = 2" "t_mode (tagm demo78 65537) = DISCMODE_FIFO"
proof -
  show "registered demo78 9"
    using demo78_room(2) demo_registered [of 9] by (simp add: registered_def same_conf_def)
  show "ptc_fits demo78" using ptc_fits_conf [OF demo78_room(2)] demo_fits by simp
  show "d_open (dev demo78 9) = 0"
    by (rule disc_inv_closed [where t = 65537])
      (use demo78_room in \<open>auto simp: room_inv_def same_conf_def demo_sel demo_dev_sel\<close>)
qed (use demo78_room(2) in \<open>simp_all add: same_conf_def demo_sel demo_dev_sel demo_tag_def\<close>)

theorem discctrl_request_fifo_witness:
  "\<exists>c' s' P'. cmd_discctrl (demo_cmd 9 [''request'', ''1'']) demo78 = Some (0, c', s')
    \<and> room_inv s' ((\<lambda>_. [])(65537 := [8, 9])) P'
    \<and> CmdTo 7 (num_str 9 @ '' discctrl kick '' @ num_str 7 @ newline) \<in> set (outs s')"
  using discctrl_request_fifo [OF demo78_room(1), of "demo_cmd 9 [''request'', ''1'']" "''1''" "[]" 65537 7 "[8]"]
  by (simp add: demo_cmd_def demo78_sel demo_dev_sel atoi_01 type_defs)

text \<open>
  The status command answers with exactly the ids of the open devices of the sender's tag, in
  the order in which they were opened, in a form that reads back as that list, and changes nothing.
\<close>

theorem discctrl_status_lists_open:
  assumes "room_inv s X P" and "registered s (c_dev c)" and "d_tag (dev s (c_dev c)) = Some t"
    and "d_group (dev s (c_dev c)) = Some g" and "g_disc_current (grp s g) \<noteq> None"
    and "length (num_list (X t)) < 1024" and "c_args c = ''status'' # args" and "X t \<noteq> []"
  shows "\<exists>ids. cmd_discctrl c s = Some (0, REP_END (REP_ADD ids (REP_ADD ''OK'' c)), s) \<and> id_list ids = X t"
proof -
  have "cmd_discctrl c s = discctrl_status (c_dev c) args c s"
    using assms(2,7) by (simp add: cmd_discctrl_def registered_def)
  moreover have "disc_inv s X" using assms(1) by (simp add: room_inv_def)
  moreover have "id_list (num_list (X t)) = X t" using assms(8) id_list_num_list_Cons by (cases "X t") auto
  ultimately show ?thesis using discctrl_status_reply [where s = s and X = X and d = "c_dev c" and t = t and g = g] assms by auto
qed

lemma num_list_78: "length (num_list [7, 8]) < 1024"
  by code_simp

text \<open>The same server in a discussion.\<close>

definition demo78d :: srv where
  "demo78d = upd_grp 1 (\<lambda>G. G\<lparr>g_disc_current := Some 3\<rparr>) demo78"

lemma demo78d_room: "room_inv demo78d ((\<lambda>_. [])(65537 := [7, 8])) [8, 7]"
  using demo78_room(1)
  by (simp add: demo78d_def room_inv_def disc_inv_def ptc_inv_def mix_ok_def)

theorem discctrl_status_lists_open_witness:
  "\<exists>ids. cmd_discctrl (demo_cmd 9 [''status'']) demo78d
      = Some (0, REP_END (REP_ADD ids (REP_ADD ''OK'' (demo_cmd 9 [''status'']))), demo78d)
    \<and> id_list ids = [7, 8]"
proof -
  have "registered demo78d 9" "d_tag (dev demo78d 9) = Some 65537" "d_group (dev demo78d 9) = Some 1"
    using demo78_sel(1) demo78_room(2)
    by (simp_all add: demo78d_def registered_def demo78_sel demo_dev_sel same_conf_def demo_sel)
  then show ?thesis
    using discctrl_status_lists_open [OF demo78d_room, of "demo_cmd 9 [''status'']" 65537 1 "[]"] num_list_78
    by (simp add: demo_cmd_def demo78d_def)
qed

subsection \<open>Where the invariant breaks\<close>

text \<open>
  A device that repeats its open request with the argument 2 instead of 1 passes the check
  for an already open microphone, is linked into the open list a second time, and the counter says
  two; the list is then a cycle that does not contain its head, and the status command never
  returns.
\<close>

definition twice_open :: srv where
  "twice_open = the (run_disc [demo_cmd 7 [''request'', ''1''], demo_cmd 7 [''request'', ''2'']] demo)"

lemma twice_open_links:
  "t_openuser (tagm twice_open 65537) = 2"
  "lh_next (hp twice_open (OpenHead 65537)) = Some (DOpen 7)" "lh_next (hp twice_open (DOpen 7)) = Some (DOpen 7)"
  by code_simp+

lemma list_walk_self:
  assumes "lh_next (h n) = Some n" and "n \<noteq> head"
  shows "list_walk h head (Some n) = None"
proof (cases "list_walk h head (Some n)")
  case (Some ps)
  moreover have "list_walk h head (Some n) = Option.bind (list_walk h head (Some n)) (\<lambda>ps. Some (n # ps))"
    using assms by (subst list_walk.simps) simp
  ultimately show ?thesis by simp
qed

theorem discctrl_request_twice_hangs_status:
  "t_openuser (tagm twice_open 65537) = 2 \<and> list_devs (OpenHead 65537) twice_open = None"
  using twice_open_links list_walk_self [of "hp twice_open" "DOpen 7" "OpenHead 65537"]
  by (simp add: list_devs_def list_for_each_def)

text \<open>
  Selecting a discussion empties the open list without closing the devices on it: with the
  devices 7 and 8 open, the select command makes the counter 0 although both microphones are still
  open, and when 7 then closes, the counter is negative and 8 is found on the list again.
\<close>

definition after_select :: srv where
  "after_select = the (run_disc [demo_cmd 5 [''query''], demo_cmd 5 [''select'', ''0'']] demo78)"

definition after_close :: srv where
  "after_close = the (run_disc [demo_cmd 7 [''request'', ''0'']] after_select)"

theorem discctrl_select_leaves_links:
  "t_openuser (tagm after_select 65537) = 0 \<and> d_open (dev after_select 7) = 1
    \<and> d_open (dev after_select 8) = 1
    \<and> t_openuser (tagm after_close 65537) = -1 \<and> list_devs (OpenHead 65537) after_close = Some [8]"
  by code_simp

end
