(* ===== verification/Votectrl.thy ===== *)
theory Votectrl
  imports Discuss
begin

text \<open>
  serv/cmd_votectrl.c: the votes. Starting a vote allocates a vote object, links the registered
  members into it and points them at it; the result command adds a ballot to the counters; the
  showresult command reports, takes the members off and frees the object. A vote that was freed is
  None in votem, so that a use after the free is a fault.
\<close>

subsection \<open>The vote object\<close>

definition vote_new :: "srv \<Rightarrow> nat \<times> srv" where
  "vote_new s =
     (let v = vote_next s;
          s1 = s\<lparr>votem := (votem s)(v := Some \<lparr>v_type = 0, v_cn_options = 0, v_n_members = 0,
                                                v_results = replicate 40 0\<rparr>),
                 vote_next := v + 1\<rparr>
      in (v, s1\<lparr>hp := init_list_head (VoteHead v) (hp s1)\<rparr>))"

definition upd_vote :: "nat \<Rightarrow> (vote \<Rightarrow> vote) \<Rightarrow> srv \<Rightarrow> srv option" where
  "upd_vote v f s =
     (case votem s v of None \<Rightarrow> None | Some w \<Rightarrow> Some (s\<lparr>votem := (votem s)(v := Some (f w))\<rparr>))"

text \<open>The text of the first cn_options counters; there are 40 of them.\<close>

definition vote_results_to_str :: "vote \<Rightarrow> string option" where
  "vote_results_to_str w =
     do { ensure (v_cn_options w \<le> 40);
          Some (array_num_list (take (nat (v_cn_options w)) (v_results w))) }"

subsection \<open>Setting up\<close>

text \<open>add_vote_member, for all the ids: memberids has 1024 entries and membernames grows. Without
  any member the old names stay.\<close>

definition prepare_vote :: "int \<Rightarrow> db_vote \<Rightarrow> srv \<Rightarrow> srv option" where
  "prepare_vote g r s =
     do { ids \<leftarrow> (if dv_members r = ''all'' then list_devs (GrpHead g) s
                 else Some (id_list (dv_members r)));
          ensure (length ids \<le> 1024);
          Some (upd_grp g (\<lambda>G. G\<lparr>g_vote_members := ids, g_vote_nvoted := 0,
                  g_vote_names := (if ids = [] then g_vote_names G
                                   else make_strlist (map (user_name_of s) ids))\<rparr>) s) }"

definition group_setup_vote :: "int \<Rightarrow> db_vote \<Rightarrow> srv \<Rightarrow> srv option" where
  "group_setup_vote g r s =
     do { s1 \<leftarrow> prepare_vote g r s;
          Some (upd_grp g (\<lambda>G. G\<lparr>g_vote_current := Some (dv_id r)\<rparr>) s1) }"

definition device_vote_start :: "nat \<Rightarrow> int \<Rightarrow> srv \<Rightarrow> srv option" where
  "device_vote_start v m s =
     do { s1 \<leftarrow> on_heap (list_add_tail (DVote m) (VoteHead v)) s;
          Some (upd_dbdev m (\<lambda>D. D\<lparr>dd_vote_choice := -1\<rparr>)
                 (upd_dev m (\<lambda>D. D\<lparr>d_vote_v := Some v, d_vote_choice := -1\<rparr>) s1)) }"

definition vote_member :: "nat \<Rightarrow> int \<Rightarrow> srv \<Rightarrow> srv option" where
  "vote_member v i s =
     do { s1 \<leftarrow> (case get_device s i of None \<Rightarrow> Some s | Some m \<Rightarrow> device_vote_start v m s);
          upd_vote v (\<lambda>w. w\<lparr>v_n_members := v_n_members w + 1\<rparr>) s1 }"

subsection \<open>The commands\<close>

definition votectrl_query :: "int \<Rightarrow> string list \<Rightarrow> cmd \<Rightarrow> srv \<Rightarrow> handled" where
  "votectrl_query d args c s =
     do { ensure (length (dbvote s) < 1024);
          let buf = make_strlist (map dv_name (dbvote s));
          ensure (int (length buf) < CMD_MAX);
          Some (0, REP_END (REP_ADD buf (REP_ADD ''OK'' c)), s\<lparr>snap_vote := map dv_id (dbvote s)\<rparr>) }"

definition votectrl_select :: "int \<Rightarrow> string list \<Rightarrow> cmd \<Rightarrow> srv \<Rightarrow> handled" where
  "votectrl_select d args c s =
     (case args of [] \<Rightarrow> Some (1, c, s)
      | p # _ \<Rightarrow>
          (let i = atoi p in
           if i \<ge> int (length (snap_vote s)) then Some (1, c, s)
           else do { ensure (i \<ge> 0);
                     r \<leftarrow> md_find_vote s (snap_vote s ! nat i);
                     Some (0, REP_END (REP_ADD (dv_members r) (REP_ADD ''OK'' c)), s) }))"

definition start_reply :: "db_vote \<Rightarrow> cmd \<Rightarrow> cmd" where
  "start_reply r c =
     REP_END (REP_ADD (dv_options r) (REP_ADD_NUM (dv_max_select r) (REP_ADD_NUM (dv_options_count r)
       (REP_ADD (dv_name r) (REP_ADD_NUM (dv_type r) (REP_ADD ''OK'' c))))))"

definition vote_begin :: "int \<Rightarrow> int \<Rightarrow> int \<Rightarrow> db_vote \<Rightarrow> cmd \<Rightarrow> srv \<Rightarrow> handled" where
  "vote_begin g d num r c s =
     do { let s1 = upd_grp g (\<lambda>G. G\<lparr>g_vote_current := Some (dv_id r), g_vote_num := num,
                               g_vote_expect := dv_expect r\<rparr>) s;
          let c1 = start_reply r c;
          let (v, s2) = vote_new s1;
          s3 \<leftarrow> upd_vote v (\<lambda>w. w\<lparr>v_type := dv_type r, v_cn_options := dv_options_count r,
                             v_n_members := 0\<rparr>) s2;
          let s4 = upd_dev d (\<lambda>D. D\<lparr>d_vote_v := Some v\<rparr>) (upd_grp g (\<lambda>G. G\<lparr>g_vote_v := Some v\<rparr>) s3);
          let ids = g_vote_members (grp s4 g);
          s5 \<leftarrow> foldM (vote_member v) ids s4;
          let s6 = send_cmd_to_dev_id c1 1 (brcast_cmd_to_multi c1 ids s5);
          let s7 = device_save d (upd_dbdev d (\<lambda>D. D\<lparr>dd_vote_master := 1\<rparr>) s6);
          Some (0, c1, group_save g (upd_dbgrp g (\<lambda>G. G\<lparr>dg_vote_id := dv_id r\<rparr>) s7)) }"

definition votectrl_start :: "int \<Rightarrow> string list \<Rightarrow> cmd \<Rightarrow> srv \<Rightarrow> handled" where
  "votectrl_start d args c s =
     do { g \<leftarrow> d_group (dev s d);
          if g_vote_current (grp s g) \<noteq> None then Some (ERR_OTHER, c, s)
          else case args of [] \<Rightarrow> Some (1, c, s)
          | p # _ \<Rightarrow>
             (let num = atoi p in
              if num \<ge> int (length (snap_vote s)) then Some (1, c, s)
              else do { ensure (num \<ge> 0);
                        r \<leftarrow> md_find_vote s (snap_vote s ! nat num);
                        s1 \<leftarrow> prepare_vote g r s;
                        if d \<noteq> 0 \<and> \<not> list_ex (\<lambda>i. get_device s1 i = Some d) (g_vote_members (grp s1 g))
                        then Some (ERR_REJECTED, c, s1)
                        else vote_begin g d num r c s1 }) }"

text \<open>One ballot: the choices between the commas, the last of which is kept as the device's
  choice. An index below 40 is counted; a negative one is outside the array.\<close>

definition is_comma :: "char \<Rightarrow> bool" where
  "is_comma ch \<longleftrightarrow> ch = CHR '',''"

definition count_choice :: "int \<Rightarrow> nat \<Rightarrow> int \<Rightarrow> srv \<Rightarrow> srv option" where
  "count_choice d v i s =
     do { let s1 = upd_dev d (\<lambda>D. D\<lparr>d_vote_choice := i\<rparr>) s;
          w \<leftarrow> votem s1 v;
          if v_type w \<noteq> VOTE_SCORE \<and> i < 40
          then do { ensure (i \<ge> 0);
                    upd_vote v (\<lambda>w. w\<lparr>v_results := (v_results w)[nat i := v_results w ! nat i + 1]\<rparr>) s1 }
          else Some s1 }"

definition votectrl_result :: "int \<Rightarrow> string list \<Rightarrow> cmd \<Rightarrow> srv \<Rightarrow> handled" where
  "votectrl_result d args c s =
     do { g \<leftarrow> d_group (dev s d);
          if g_vote_current (grp s g) = None then Some (ERR_OTHER, c, s)
          else case args of
            _ # p # _ \<Rightarrow>
              (case d_vote_v (dev s d) of None \<Rightarrow> Some (1, c, s)
               | Some v \<Rightarrow>
                   do { let is = map atoi (tokens is_comma p);
                        s1 \<leftarrow> foldM (count_choice d v) is s;
                        let s2 = upd_grp g (\<lambda>G. G\<lparr>g_vote_nvoted := g_vote_nvoted G + 1\<rparr>) s1;
                        let s3 = upd_dbdev d (\<lambda>D. D\<lparr>dd_vote_choice := last (atoi p # is)\<rparr>) s2;
                        w \<leftarrow> votem s3 v;
                        s4 \<leftarrow> (if v_type w \<noteq> VOTE_SCORE
                              then do { x \<leftarrow> vote_results_to_str w;
                                        ensure (length x < 256);
                                        Some (upd_dbgrp g (\<lambda>G. G\<lparr>dg_vote_results := x\<rparr>) s3) }
                              else Some s3);
                        Some (0, REP_OK c, group_save g (device_save d s4)) })
          | _ \<Rightarrow> Some (1, c, s) }"

text \<open>The list id=choice of the members of a vote, built in buf[CMD_MAX].\<close>

definition choice_list :: "int list \<Rightarrow> srv \<Rightarrow> string" where
  "choice_list ms s =
     make_strlist (map (\<lambda>m. num_str m @ ''='' @ num_str (d_vote_choice (dev s m))) ms)"

definition votectrl_status :: "int \<Rightarrow> string list \<Rightarrow> cmd \<Rightarrow> srv \<Rightarrow> handled" where
  "votectrl_status d args c s =
     (case args of [] \<Rightarrow> Some (1, c, s)
      | p # _ \<Rightarrow>
          do { g \<leftarrow> d_group (dev s d);
               let c1 = REP_ADD_NUM (g_vote_nvoted (grp s g))
                          (REP_ADD_NUM (g_vote_expect (grp s g)) (REP_ADD ''OK'' c));
               c2 \<leftarrow> (if d \<noteq> 0 then Some c1
                     else case g_vote_v (grp s g) of None \<Rightarrow> Some c1
                     | Some v \<Rightarrow> do { ensure (votem s v \<noteq> None);
                                     ms \<leftarrow> list_devs (VoteHead v) s;
                                     let buf = choice_list ms s;
                                     ensure (int (length buf) < CMD_MAX);
                                     Some (REP_ADD buf c1) });
               Some (0, REP_END c2, s) })"

text \<open>The average of the choices that were made, and 0 without any.\<close>

definition average_score :: "int list \<Rightarrow> srv \<Rightarrow> int" where
  "average_score ms s =
     (let cs = filter (\<lambda>i. i \<ge> 0) (map (\<lambda>m. d_vote_choice (dev s m)) ms)
      in if cs = [] then 0 else sum_list cs div int (length cs))"

definition leave_vote :: "int \<Rightarrow> srv \<Rightarrow> srv" where
  "leave_vote m s = upd_dev m (\<lambda>D. D\<lparr>d_vote_v := None\<rparr>) s"

definition vote_finish :: "int \<Rightarrow> int \<Rightarrow> nat \<Rightarrow> int list \<Rightarrow> srv \<Rightarrow> srv" where
  "vote_finish g d v ms s =
     (let s1 = upd_dev d (\<lambda>D. D\<lparr>d_vote_v := None\<rparr>) (fold leave_vote ms s);
          s2 = upd_grp g (\<lambda>G. G\<lparr>g_vote_v := None\<rparr>) s1;
          s3 = s2\<lparr>votem := (votem s2)(v := None)\<rparr>;
          s4 = device_save d (upd_dbdev d (\<lambda>D. D\<lparr>dd_vote_master := 0\<rparr>) s3);
          s5 = upd_grp g (\<lambda>G. G\<lparr>g_vote_current := None, g_vote_members := []\<rparr>) s4
      in group_save g (upd_dbgrp g (\<lambda>G. G\<lparr>dg_vote_id := 0, dg_vote_results := ''0''\<rparr>) s5))"

definition votectrl_showresult :: "int \<Rightarrow> string list \<Rightarrow> cmd \<Rightarrow> srv \<Rightarrow> handled" where
  "votectrl_showresult d args c s =
     do { g \<leftarrow> d_group (dev s d);
          if g_vote_current (grp s g) = None then Some (ERR_OTHER, c, s)
          else case args of [] \<Rightarrow> Some (1, c, s)
          | p # _ \<Rightarrow>
             (case d_vote_v (dev s d) of None \<Rightarrow> Some (1, c, s)
              | Some v \<Rightarrow>
                  do { let c1 = REP_ADD_NUM (g_vote_expect (grp s g)) (REP_ADD ''OK'' c);
                       w \<leftarrow> votem s v;
                       ms \<leftarrow> list_devs (VoteHead v) s;
                       x \<leftarrow> (if v_type w = VOTE_SCORE then Some (num_str (average_score ms s))
                            else vote_results_to_str w);
                       let c2 = REP_END (REP_ADD x c1);
                       let s1 = brcast_cmd_to_multi c2 (g_vote_members (grp s g)) s;
                       let buf = choice_list ms s1;
                       ensure (int (length buf) < CMD_MAX);
                       let c3 = REP_END (REP_ADD buf (REP_UNEND c2));
                       Some (0, c3, vote_finish g d v ms (send_cmd_to_dev_id c3 1 s1)) }) }"

definition votectrl_stop :: "int \<Rightarrow> string list \<Rightarrow> cmd \<Rightarrow> srv \<Rightarrow> handled" where
  "votectrl_stop d args c s =
     do { g \<leftarrow> d_group (dev s d);
          let c1 = REP_OK c;
          let s1 = upd_grp g (\<lambda>G. G\<lparr>g_vote_current := None, g_vote_members := []\<rparr>) (brcast_cmd_to_all c1 s);
          let s2 = group_save g (upd_dbgrp g (\<lambda>G. G\<lparr>dg_vote_id := 0, dg_vote_results := ''0''\<rparr>) s1);
          Some (0, c1, s2\<lparr>snap_vote := []\<rparr>) }"

text \<open>REP_OK comes before the argument checks.\<close>

definition votectrl_remind :: "int \<Rightarrow> string list \<Rightarrow> cmd \<Rightarrow> srv \<Rightarrow> handled" where
  "votectrl_remind d args c s =
     (let c1 = REP_OK c in
      case args of [] \<Rightarrow> Some (1, c1, s)
      | p # _ \<Rightarrow>
          (case get_device s (atoi p) of None \<Rightarrow> Some (1, c1, s)
           | Some m \<Rightarrow> Some (0, c1, send_cmd_to_dev c1 m s)))"

definition votectrl_forbid :: "int \<Rightarrow> string list \<Rightarrow> cmd \<Rightarrow> srv \<Rightarrow> handled" where
  "votectrl_forbid d args c s =
     (let c1 = REP_OK c in
      case args of [] \<Rightarrow> Some (1, c1, s)
      | p # rest \<Rightarrow>
          (case get_device s (atoi p) of None \<Rightarrow> Some (1, c1, s)
           | Some m \<Rightarrow>
               (case rest of [] \<Rightarrow> Some (1, c1, s)
                | q # _ \<Rightarrow>
                    Some (0, c1, send_cmd_to_dev c1 m (upd_dev m (\<lambda>D. D\<lparr>d_vote_forbidden := atoi q\<rparr>) s)))))"

definition cmd_votectrl :: "cmd \<Rightarrow> srv \<Rightarrow> handled" where
  "cmd_votectrl c s =
     (case get_device s (c_dev c) of None \<Rightarrow> Some (ERR_NOT_REG, c, s)
      | Some d \<Rightarrow>
          (case c_args c of [] \<Rightarrow> Some (1, c, s)
           | sub # args \<Rightarrow>
               if sub = ''query'' then votectrl_query d args c s
               else if sub = ''select'' then votectrl_select d args c s
               else if sub = ''start'' then votectrl_start d args c s
               else if sub = ''result'' then votectrl_result d args c s
               else if sub = ''status'' then votectrl_status d args c s
               else if sub = ''showresult'' then votectrl_showresult d args c s
               else if sub = ''stop'' then votectrl_stop d args c s
               else if sub = ''remind'' then votectrl_remind d args c s
               else if sub = ''forbid'' then votectrl_forbid d args c s
               else Some (2, c, s)))"

end
