(* ===== verification/Votectrl_Props.thy ===== *)
theory Votectrl_Props
  imports Votectrl Discuss_Inv Demo
begin

text \<open>
  The properties of the vote commands: what starting a vote sets up, that ballots are counted
  exactly, what showing the result reports and cleans up, and the two faults of the code.
\<close>

subsection \<open>Counting\<close>

definition tally :: "int list \<Rightarrow> int list \<Rightarrow> int list" where
  "tally is rs = fold (\<lambda>i rs. if i < 40 then rs[nat i := rs ! nat i + 1] else rs) is rs"

lemma length_tally [simp]: "length (tally is rs) = length rs"
  by (induction "is" arbitrary: rs) (auto simp: tally_def)

lemma tally_Cons: "tally (i # is) rs = tally is (if i < 40 then rs[nat i := rs ! nat i + 1] else rs)"
  by (simp add: tally_def)

lemma tally_append: "tally (is @ js) rs = tally js (tally is rs)"
  by (simp add: tally_def)

lemma tally_nth:
  "length rs = 40 \<Longrightarrow> \<forall>i \<in> set is. 0 \<le> i \<Longrightarrow> k < 40 \<Longrightarrow>
    tally is rs ! k = rs ! k + int (count_list is (int k))"
proof (induction "is" arbitrary: rs)
  case Nil
  then show ?case by (simp add: tally_def)
next
  case (Cons i "is")
  let ?rs = "if i < 40 then rs[nat i := rs ! nat i + 1] else rs"
  have "tally is ?rs ! k = ?rs ! k + int (count_list is (int k))" using Cons by simp
  moreover have "?rs ! k = rs ! k + (if i = int k then 1 else 0)"
    using Cons.prems by (auto simp: nth_list_update)
  ultimately show ?case by (simp add: tally_Cons)
qed

text \<open>What counting a ballot leaves alone.\<close>

definition count_frame :: "int \<Rightarrow> nat \<Rightarrow> srv \<Rightarrow> srv \<Rightarrow> bool" where
  "count_frame d v s s' \<longleftrightarrow>
     hp s' = hp s \<and> devs s' = devs s \<and> grp s' = grp s \<and> dbgrp s' = dbgrp s \<and> outs s' = outs s
     \<and> (\<forall>u. u \<noteq> v \<longrightarrow> votem s' u = votem s u) \<and> (\<forall>e. e \<noteq> d \<longrightarrow> dev s' e = dev s e)
     \<and> d_vote_v (dev s' d) = d_vote_v (dev s d) \<and> d_group (dev s' d) = d_group (dev s d)
     \<and> d_ops (dev s' d) = d_ops (dev s d)"

lemma count_choice_ok:
  assumes "votem s v = Some w" and "0 \<le> i" and "v_type w \<noteq> VOTE_SCORE"
  shows "\<exists>s'. count_choice d v i s = Some s' \<and> count_frame d v s s' \<and> d_vote_choice (dev s' d) = i
    \<and> votem s' v = Some (w\<lparr>v_results := tally [i] (v_results w)\<rparr>)"
proof (cases "i < 40")
  case True
  with assms show ?thesis
    by (simp add: count_choice_def Let_def upd_vote_def count_frame_def tally_def)
next
  case False
  with assms show ?thesis by (simp add: count_choice_def Let_def count_frame_def tally_def)
qed

lemma count_frame_refl: "count_frame d v s s"
  by (simp add: count_frame_def)

lemma count_frame_trans: "count_frame d v s t \<Longrightarrow> count_frame d v t u \<Longrightarrow> count_frame d v s u"
  by (simp add: count_frame_def)

lemma count_choices_ok:
  assumes "votem s v = Some w" and "\<forall>i \<in> set is. 0 \<le> i" and "v_type w \<noteq> VOTE_SCORE"
  shows "\<exists>s'. foldM (count_choice d v) is s = Some s' \<and> count_frame d v s s'
    \<and> (is \<noteq> [] \<longrightarrow> d_vote_choice (dev s' d) = last is)
    \<and> votem s' v = Some (w\<lparr>v_results := tally is (v_results w)\<rparr>)"
  using assms
proof (induction "is" arbitrary: s w)
  case Nil
  then show ?case by (simp add: count_frame_refl tally_def)
next
  case (Cons i "is")
  from count_choice_ok [of s v w i d] Cons.prems obtain s1 where
    s1: "count_choice d v i s = Some s1" "count_frame d v s s1" "d_vote_choice (dev s1 d) = i"
      "votem s1 v = Some (w\<lparr>v_results := tally [i] (v_results w)\<rparr>)" by auto
  from Cons.IH [OF s1(4)] Cons.prems obtain s2 where
    s2: "foldM (count_choice d v) is s1 = Some s2" "count_frame d v s1 s2"
      "is \<noteq> [] \<longrightarrow> d_vote_choice (dev s2 d) = last is"
      "votem s2 v = Some (w\<lparr>v_results := tally is (tally [i] (v_results w))\<rparr>)" by auto
  have "is = [] \<Longrightarrow> s2 = s1" using s2(1) by simp
  then show ?case
    using s1 s2 count_frame_trans [OF s1(2) s2(2)] tally_append [of "[i]" "is" "v_results w"] by auto
qed

subsection \<open>The text of the counters\<close>

lemma length_num_list_small:
  "\<forall>n \<in> set ns. 0 \<le> n \<and> n < 10000 \<Longrightarrow> length (num_list ns) \<le> 5 * length ns"
proof (cases ns)
  case (Cons n ms)
  assume small: "\<forall>n \<in> set ns. 0 \<le> n \<and> n < 10000"
  have "\<forall>n \<in> set xs. 0 \<le> n \<and> n < 10000 \<Longrightarrow>
      length (concat (map (\<lambda>n. CHR '','' # num_str n) xs)) \<le> 5 * length xs" for xs
  proof (induction xs)
    case (Cons x xs)
    then show ?case using length_num_str_small [of x] by simp
  qed simp
  from this [of ms] show ?thesis
    using small length_num_str_small [of n] Cons by (simp add: num_list_Cons)
qed (simp add: num_list_def)

lemma vote_text_fits:
  assumes "length (v_results w) = 40" and "v_cn_options w \<le> 40"
    and "\<forall>k < 40. 0 \<le> v_results w ! k \<and> v_results w ! k < 10000"
  shows "\<exists>x. vote_results_to_str w = Some x \<and> length x < 256
    \<and> x = array_num_list (take (nat (v_cn_options w)) (v_results w))"
proof -
  let ?ns = "take (nat (v_cn_options w)) (v_results w)"
  have "\<forall>n \<in> set ?ns. 0 \<le> n \<and> n < 10000"
    using assms(1,3) set_take_subset [of "nat (v_cn_options w)" "v_results w"]
    by (auto simp: in_set_conv_nth)
  then have "length (num_list ?ns) \<le> 5 * length ?ns" by (rule length_num_list_small)
  also have "\<dots> \<le> 200" using assms(1) by simp
  finally show ?thesis using assms(2) by (simp add: vote_results_to_str_def array_num_list_def)
qed

subsection \<open>Ballots\<close>

definition choices :: "string \<Rightarrow> int list" where
  "choices p = map atoi (tokens is_comma p)"

text \<open>A vote that counts options is open in group g, with counters far from their limits.\<close>

definition counting :: "srv \<Rightarrow> int \<Rightarrow> nat \<Rightarrow> vote \<Rightarrow> nat \<Rightarrow> bool" where
  "counting s g v w n \<longleftrightarrow>
     g_vote_current (grp s g) \<noteq> None \<and> votem s v = Some w \<and> v_type w \<noteq> VOTE_SCORE
     \<and> v_cn_options w \<le> 40 \<and> length (v_results w) = 40
     \<and> (\<forall>k < 40. 0 \<le> v_results w ! k \<and> v_results w ! k + int n < 10000)"

definition voter :: "srv \<Rightarrow> int \<Rightarrow> nat \<Rightarrow> int \<Rightarrow> bool" where
  "voter s g v d \<longleftrightarrow> d \<in> set (devs s) \<and> d_group (dev s d) = Some g \<and> d_vote_v (dev s d) = Some v"

lemma counting_tally:
  assumes "counting s g v w (length is + n)" and "\<forall>i \<in> set is. 0 \<le> i"
  shows "\<forall>k < 40. 0 \<le> tally is (v_results w) ! k \<and> tally is (v_results w) ! k + int n < 10000"
proof (intro allI impI)
  fix k :: nat assume k: "k < 40"
  have len: "length (v_results w) = 40"
    and b: "0 \<le> v_results w ! k" "v_results w ! k + int (length is + n) < 10000"
    using assms(1) k unfolding counting_def by blast+
  have "tally is (v_results w) ! k = v_results w ! k + int (count_list is (int k))"
    by (rule tally_nth [OF len assms(2) k])
  then show "0 \<le> tally is (v_results w) ! k \<and> tally is (v_results w) ! k + int n < 10000"
    using b count_le_length [of "is" "int k"] by simp
qed

lemma votectrl_result_counts:
  assumes ok: "counting s g v w (length (choices p) + n)" and voter: "voter s g v d"
    and nn: "\<forall>i \<in> set (choices p). 0 \<le> i"
  shows "\<exists>s'. votectrl_result d (m # p # args) c s = Some (0, REP_OK c, s')
    \<and> counting s' g v (w\<lparr>v_results := tally (choices p) (v_results w)\<rparr>) n
    \<and> (\<forall>e. voter s' g v e = voter s g v e)
    \<and> g_vote_nvoted (grp s' g) = g_vote_nvoted (grp s g) + 1
    \<and> dg_vote_results (dbgrp s' g)
        = array_num_list (take (nat (v_cn_options w)) (tally (choices p) (v_results w)))"
proof -
  let ?is = "choices p"
  let ?w = "w\<lparr>v_results := tally ?is (v_results w)\<rparr>"
  have w: "votem s v = Some w" "v_type w \<noteq> VOTE_SCORE" "v_cn_options w \<le> 40" "length (v_results w) = 40"
    "g_vote_current (grp s g) \<noteq> None"
    using ok by (simp_all add: counting_def)
  have b: "\<forall>k < 40. 0 \<le> tally ?is (v_results w) ! k \<and> tally ?is (v_results w) ! k + int n < 10000"
    by (rule counting_tally [OF ok nn])
  then have "\<forall>k < 40. 0 \<le> v_results ?w ! k \<and> v_results ?w ! k < 10000" by fastforce
  then obtain x where x: "vote_results_to_str ?w = Some x" "length x < 256"
    "x = array_num_list (take (nat (v_cn_options w)) (tally ?is (v_results w)))"
    using vote_text_fits [of ?w] w by auto
  obtain s1 where s1: "foldM (count_choice d v) ?is s = Some s1" "count_frame d v s s1" "votem s1 v = Some ?w"
    using count_choices_ok [OF w(1) nn w(2), of d] by blast
  define s2 where "s2 = upd_dbdev d (\<lambda>D. D\<lparr>dd_vote_choice := last (atoi p # ?is)\<rparr>)
    (upd_grp g (\<lambda>G. G\<lparr>g_vote_nvoted := g_vote_nvoted G + 1\<rparr>) s1)"
  define s' where "s' = group_save g (device_save d (upd_dbgrp g (\<lambda>G. G\<lparr>dg_vote_results := x\<rparr>) s2))"
  have d: "d_group (dev s d) = Some g" "d_vote_v (dev s d) = Some v"
    using voter by (simp_all add: voter_def)
  obtain y where y: "g_vote_current (grp s g) = Some y" using w(5) by auto
  have "votectrl_result d (m # p # args) c s = Some (0, REP_OK c, s')"
    using d w(1-4) y s1 x(1,2) by (simp add: votectrl_result_def s'_def s2_def Let_def choices_def)
  moreover have "counting s' g v ?w n"
    using w s1 b by (simp add: counting_def s'_def s2_def count_frame_def)
  moreover have "voter s' g v e = voter s g v e" for e
    using s1(2) by (cases "e = d") (simp_all add: voter_def s'_def s2_def count_frame_def)
  moreover have "g_vote_nvoted (grp s' g) = g_vote_nvoted (grp s g) + 1"
    using s1(2) by (simp add: s'_def s2_def count_frame_def)
  moreover have "dg_vote_results (dbgrp s' g) = x" by (simp add: s'_def)
  ultimately show ?thesis using x(3) by blast
qed

text \<open>Ballots arriving one after the other as commands.\<close>

definition ballot_cmd :: "cmd \<Rightarrow> string \<Rightarrow> int \<times> string \<Rightarrow> cmd" where
  "ballot_cmd c m b = c\<lparr>c_dev := fst b, c_args := [''result'', m, snd b]\<rparr>"

definition run_ballots :: "cmd \<Rightarrow> string \<Rightarrow> (int \<times> string) list \<Rightarrow> srv \<Rightarrow> srv option" where
  "run_ballots c m bs s =
     foldM (\<lambda>b s. case cmd_votectrl (ballot_cmd c m b) s of
                    Some (r, c', s') \<Rightarrow> if r = 0 then Some s' else None | None \<Rightarrow> None) bs s"

fun all_choices :: "(int \<times> string) list \<Rightarrow> int list" where
  "all_choices [] = []"
| "all_choices (b # bs) = choices (snd b) @ all_choices bs"

text \<open>
  C21. Ballots are counted exactly. While a vote on options is open, any sequence of result commands
  from its voters, with option numbers that are not negative, is accepted; afterwards the counter
  of every option has grown by the number of times it was chosen, the number of ballots by their
  count, and the row of the group holds the counters as text.
\<close>

theorem ballots_counted_exactly:
  assumes "counting s g v w (length (all_choices bs))"
    and "\<forall>b \<in> set bs. voter s g v (fst b) \<and> (\<forall>i \<in> set (choices (snd b)). 0 \<le> i)"
  shows "\<exists>s' w'. run_ballots c m bs s = Some s' \<and> votem s' v = Some w'
    \<and> (\<forall>k < 40. v_results w' ! k
         = v_results w ! k + int (count_list (all_choices bs) (int k)))
    \<and> g_vote_nvoted (grp s' g) = g_vote_nvoted (grp s g) + int (length bs)
    \<and> (bs \<noteq> [] \<longrightarrow> dg_vote_results (dbgrp s' g)
         = array_num_list (take (nat (v_cn_options w)) (v_results w')))"
  using assms
proof (induction bs arbitrary: s w)
  case Nil
  then show ?case by (simp add: run_ballots_def counting_def)
next
  case (Cons b bs)
  let ?is = "choices (snd b)" and ?rest = "all_choices bs"
  let ?w1 = "w\<lparr>v_results := tally ?is (v_results w)\<rparr>"
  have voter: "voter s g v (fst b)" and nn: "\<forall>i \<in> set ?is. 0 \<le> i" using Cons.prems(2) by simp_all
  have ok: "counting s g v w (length ?is + length ?rest)"
    using Cons.prems(1) by simp
  from votectrl_result_counts [OF ok voter nn, of m "[]" "ballot_cmd c m b"] obtain s1 where
    s1: "votectrl_result (fst b) [m, snd b] (ballot_cmd c m b) s = Some (0, REP_OK (ballot_cmd c m b), s1)"
      "counting s1 g v (w\<lparr>v_results := tally ?is (v_results w)\<rparr>) (length ?rest)"
      "\<And>e. voter s1 g v e = voter s g v e" "g_vote_nvoted (grp s1 g) = g_vote_nvoted (grp s g) + 1"
      "dg_vote_results (dbgrp s1 g) = array_num_list (take (nat (v_cn_options w)) (tally ?is (v_results w)))"
    by blast
  have step: "run_ballots c m (b # bs) s = run_ballots c m bs s1"
    using s1(1) voter by (simp add: run_ballots_def cmd_votectrl_def ballot_cmd_def voter_def)
  have "\<forall>b \<in> set bs. voter s1 g v (fst b) \<and> (\<forall>i \<in> set (choices (snd b)). 0 \<le> i)"
    using Cons.prems(2) s1(3) by simp
  from Cons.IH [OF s1(2) this] obtain s' w' where
    s': "run_ballots c m bs s1 = Some s'" "votem s' v = Some w'"
      "\<forall>k < 40. v_results w' ! k = v_results ?w1 ! k + int (count_list ?rest (int k))"
      "g_vote_nvoted (grp s' g) = g_vote_nvoted (grp s1 g) + int (length bs)"
      "bs \<noteq> [] \<longrightarrow> dg_vote_results (dbgrp s' g) = array_num_list (take (nat (v_cn_options ?w1)) (v_results w'))"
    by blast
  have len: "length (v_results w) = 40" using ok by (simp add: counting_def)
  have "w' = w\<lparr>v_results := tally ?is (v_results w)\<rparr>" "s' = s1" if "bs = []"
    using s'(1,2) s1(2) that by (simp_all add: run_ballots_def counting_def)
  then show ?case
    using s' s1(4,5) step tally_nth [OF len nn] by (cases "bs = []") (auto simp: add.assoc)
qed

subsection \<open>Starting\<close>

lemma vote_member_ok:
  assumes dl: "dlist (hp s) (VoteHead v) (map DVote ms)" and w: "votem s v = Some w" and new: "i \<notin> set ms"
  shows "\<exists>s'. vote_member v i s = Some s'
    \<and> dlist (hp s') (VoteHead v) (map DVote (ms @ filter (\<lambda>i. i \<in> set (devs s)) [i]))
    \<and> votem s' v = Some (w\<lparr>v_n_members := v_n_members w + 1\<rparr>)
    \<and> devs s' = devs s \<and> grp s' = grp s \<and> dbgrp s' = dbgrp s
    \<and> dev s' = (\<lambda>e. if e = i \<and> i \<in> set (devs s) then (dev s e)\<lparr>d_vote_v := Some v, d_vote_choice := -1\<rparr>
                     else dev s e)
    \<and> (\<forall>e. dd_vote_choice (dbdev s' e) =
            (if e = i \<and> i \<in> set (devs s) then -1 else dd_vote_choice (dbdev s e)))"
proof (cases "i \<in> set (devs s)")
  case True
  have "DVote i \<notin> insert (VoteHead v) (set (map DVote ms))" using new by auto
  then obtain h where h: "list_add_tail (DVote i) (VoteHead v) (hp s) = Some h"
    "dlist h (VoteHead v) (map DVote (ms @ [i]))"
    using ll.snoc_ok [OF dl] by auto
  with True w show ?thesis
    by (auto simp: vote_member_def device_vote_start_def on_heap_def upd_vote_def fun_eq_iff)
next
  case False
  with dl w show ?thesis by (simp add: vote_member_def upd_vote_def)
qed

lemma vote_members_ok:
  assumes "dlist (hp s) (VoteHead v) (map DVote ms)" and "votem s v = Some w" and "distinct (ms @ ids)"
  shows "\<exists>s'. foldM (vote_member v) ids s = Some s'
    \<and> dlist (hp s') (VoteHead v) (map DVote (ms @ filter (\<lambda>i. i \<in> set (devs s)) ids))
    \<and> votem s' v = Some (w\<lparr>v_n_members := v_n_members w + int (length ids)\<rparr>)
    \<and> devs s' = devs s \<and> grp s' = grp s \<and> dbgrp s' = dbgrp s
    \<and> dev s' = (\<lambda>e. if e \<in> set ids \<inter> set (devs s) then (dev s e)\<lparr>d_vote_v := Some v, d_vote_choice := -1\<rparr>
                     else dev s e)
    \<and> (\<forall>e. dd_vote_choice (dbdev s' e) =
            (if e \<in> set ids \<inter> set (devs s) then -1 else dd_vote_choice (dbdev s e)))"
  using assms
proof (induction ids arbitrary: s ms w)
  case Nil
  then show ?case by simp
next
  case (Cons i ids)
  have new: "i \<notin> set ms" using Cons.prems(3) by auto
  let ?ms = "ms @ filter (\<lambda>i. i \<in> set (devs s)) [i]"
  from vote_member_ok [OF Cons.prems(1,2) new] obtain s1 where
    s1: "vote_member v i s = Some s1" "dlist (hp s1) (VoteHead v) (map DVote ?ms)"
    "votem s1 v = Some (w\<lparr>v_n_members := v_n_members w + 1\<rparr>)"
    "devs s1 = devs s" "grp s1 = grp s" "dbgrp s1 = dbgrp s"
    "dev s1 = (\<lambda>e. if e = i \<and> i \<in> set (devs s) then (dev s e)\<lparr>d_vote_v := Some v, d_vote_choice := -1\<rparr>
                     else dev s e)"
    "\<forall>e. dd_vote_choice (dbdev s1 e) =
            (if e = i \<and> i \<in> set (devs s) then -1 else dd_vote_choice (dbdev s e))" by blast
  have dist: "distinct (?ms @ ids)" using Cons.prems(3) by auto
  from Cons.IH [OF s1(2,3) dist] obtain s2 where
    s2: "foldM (vote_member v) ids s1 = Some s2"
    "dlist (hp s2) (VoteHead v) (map DVote (?ms @ filter (\<lambda>i. i \<in> set (devs s)) ids))"
    "votem s2 v = Some (w\<lparr>v_n_members := v_n_members w + int (length (i # ids))\<rparr>)"
    "devs s2 = devs s" "grp s2 = grp s" "dbgrp s2 = dbgrp s"
    "dev s2 = (\<lambda>e. if e \<in> set ids \<inter> set (devs s) then (dev s1 e)\<lparr>d_vote_v := Some v, d_vote_choice := -1\<rparr>
                     else dev s1 e)"
    "\<forall>e. dd_vote_choice (dbdev s2 e) =
            (if e \<in> set ids \<inter> set (devs s) then -1 else dd_vote_choice (dbdev s1 e))"
    by (auto simp: s1(4-6) add.assoc)
  show ?case
    using s1(1,7,8) s2 by (intro exI [of _ s2]) (auto simp: fun_eq_iff)
qed

text \<open>
  Starting a vote from a registered member, with no vote open and the members listed without
  repetition, succeeds: a new vote object with zero counters is the group's vote, exactly the
  registered members are on its list, in the order of the member list, and each of them points at
  it with no choice made; the object and the list do not depend on what votes there were before.
\<close>

theorem votectrl_start_opens:
  assumes "c_args c = ''start'' # p # args" and "c_dev c = d" and "d \<in> set (devs s)"
    and "d_group (dev s d) = Some g" and "g_vote_current (grp s g) = None"
    and "0 \<le> atoi p" and "atoi p < int (length (snap_vote s))"
    and "md_find_vote s (snap_vote s ! nat (atoi p)) = Some r" and "dv_members r \<noteq> ''all''"
    and "id_list (dv_members r) = ids" and "distinct ids" and "length ids \<le> 1024" and "d \<in> set ids"
  shows "\<exists>c' s' v. cmd_votectrl c s = Some (0, c', s')
    \<and> g_vote_current (grp s' g) = Some (dv_id r) \<and> g_vote_v (grp s' g) = Some v
    \<and> g_vote_nvoted (grp s' g) = 0 \<and> g_vote_members (grp s' g) = ids
    \<and> votem s' v = Some \<lparr>v_type = dv_type r, v_cn_options = dv_options_count r,
                          v_n_members = int (length ids), v_results = replicate 40 0\<rparr>
    \<and> list_devs (VoteHead v) s' = Some (filter (\<lambda>i. i \<in> set (devs s)) ids)
    \<and> (\<forall>m \<in> set ids \<inter> set (devs s). d_vote_v (dev s' m) = Some v \<and> d_vote_choice (dev s' m) = -1
          \<and> dd_vote_choice (dbdev s' m) = -1)
    \<and> dg_vote_id (dbgrp s' g) = dv_id r"
proof -
  let ?v = "vote_next s"
  define s1 where "s1 = upd_grp g (\<lambda>G. G\<lparr>g_vote_members := ids, g_vote_nvoted := 0,
                  g_vote_names := (if ids = [] then g_vote_names G
                                   else make_strlist (map (user_name_of s) ids))\<rparr>) s"
  have prep: "prepare_vote g r s = Some s1"
    using assms(9,10,12) by (simp add: prepare_vote_def s1_def Let_def)
  define s2 where "s2 = snd (vote_new (upd_grp g (\<lambda>G. G\<lparr>g_vote_current := Some (dv_id r), g_vote_num := atoi p,
                               g_vote_expect := dv_expect r\<rparr>) s1))"
  let ?w = "\<lparr>v_type = dv_type r, v_cn_options = dv_options_count r, v_n_members = 0, v_results = replicate 40 0\<rparr>"
  define s3 where "s3 = s2\<lparr>votem := (votem s2)(?v := Some ?w)\<rparr>"
  have new: "vote_new (upd_grp g (\<lambda>G. G\<lparr>g_vote_current := Some (dv_id r), g_vote_num := atoi p,
                               g_vote_expect := dv_expect r\<rparr>) s1) = (?v, s2)"
    by (simp add: s2_def vote_new_def Let_def s1_def upd_grp_def)
  have up: "upd_vote ?v (\<lambda>w. w\<lparr>v_type := dv_type r, v_cn_options := dv_options_count r,
                             v_n_members := 0\<rparr>) s2 = Some s3"
    by (simp add: s3_def s2_def s1_def upd_vote_def vote_new_def Let_def)
  define s4 where "s4 = upd_dev d (\<lambda>D. D\<lparr>d_vote_v := Some ?v\<rparr>) (upd_grp g (\<lambda>G. G\<lparr>g_vote_v := Some ?v\<rparr>) s3)"
  have dl: "dlist (hp s4) (VoteHead ?v) (map DVote [])"
    by (simp add: s4_def s3_def s2_def s1_def vote_new_def Let_def init_list_head_dlist)
  have w4: "votem s4 ?v = Some ?w" by (simp add: s4_def s3_def)
  have sel4: "devs s4 = devs s" "g_vote_members (grp s4 g) = ids" "g_vote_nvoted (grp s4 g) = 0"
    "g_vote_current (grp s4 g) = Some (dv_id r)" "g_vote_v (grp s4 g) = Some ?v"
    by (simp_all add: s4_def s3_def s2_def vote_new_def Let_def s1_def)
  have sel3: "g_vote_members (grp s3 g) = ids"
    by (simp add: s3_def s2_def vote_new_def Let_def s1_def)
  from vote_members_ok [OF dl w4, of ids] assms(11) obtain s5 where
    s5: "foldM (vote_member ?v) ids s4 = Some s5"
    "dlist (hp s5) (VoteHead ?v) (map DVote (filter (\<lambda>i. i \<in> set (devs s)) ids))"
    "votem s5 ?v = Some (?w\<lparr>v_n_members := int (length ids)\<rparr>)" "devs s5 = devs s" "grp s5 = grp s4"
    "\<forall>m \<in> set ids \<inter> set (devs s). d_vote_v (dev s5 m) = Some ?v \<and> d_vote_choice (dev s5 m) = -1"
    "\<forall>m \<in> set ids \<inter> set (devs s). dd_vote_choice (dbdev s5 m) = -1"
    by (auto simp: sel4)
  define s' where "s' = group_save g (upd_dbgrp g (\<lambda>G. G\<lparr>dg_vote_id := dv_id r\<rparr>)
    (device_save d (upd_dbdev d (\<lambda>D. D\<lparr>dd_vote_master := 1\<rparr>)
      (send_cmd_to_dev_id (start_reply r c) 1 (brcast_cmd_to_multi (start_reply r c) ids s5)))))"
  have started: "vote_begin g d (atoi p) r c s1 = Some (0, start_reply r c, s')"
    using new up s5(1) sel3
    by (simp add: vote_begin_def Let_def s'_def s4_def [symmetric])
  have member: "list_ex (\<lambda>i. get_device s1 i = Some d) (g_vote_members (grp s1 g))"
    using assms(3,13) by (auto simp: s1_def list_ex_iff)
  have "cmd_votectrl c s = Some (0, start_reply r c, s')"
    using assms(1-8) prep started member
    by (simp add: cmd_votectrl_def votectrl_start_def Let_def)
  moreover have "list_devs (VoteHead ?v) s' = Some (filter (\<lambda>i. i \<in> set (devs s)) ids)"
    using ll.walk_ok [OF s5(2)] by (simp add: list_devs_def s'_def del: map_map)
  moreover have "grp s' = grp s4" "votem s' = votem s5" "dev s' = dev s5" "dg_vote_id (dbgrp s' g) = dv_id r"
    "\<And>m. dd_vote_choice (dbdev s' m) = dd_vote_choice (dbdev s5 m)"
    using s5(5) by (simp_all add: s'_def)
  ultimately show ?thesis using s5(3,6,7) sel4 by auto
qed

subsection \<open>The end of a vote\<close>

lemma leave_votes:
  "dev (fold leave_vote ms s) = (\<lambda>e. if e \<in> set ms then (dev s e)\<lparr>d_vote_v := None\<rparr> else dev s e)"
  "votem (fold leave_vote ms s) = votem s" "grp (fold leave_vote ms s) = grp s"
  "dbgrp (fold leave_vote ms s) = dbgrp s"
  by (induction ms arbitrary: s) (auto simp: leave_vote_def fun_eq_iff)

text \<open>
  Showing the result reports, to the sender and the manager, the expected number of voters,
  then the average of the choices made (for a score vote) or the counters (otherwise), then each
  member's choice, in the order of the vote list. It then ends the vote: no member points at the
  vote object any more, the object is freed, and the group and its row have no vote.
\<close>

theorem votectrl_showresult_ends:
  assumes "c_args c = ''showresult'' # p # args" and "c_dev c = d" and "d \<in> set (devs s)"
    and "d_group (dev s d) = Some g" and "g_vote_current (grp s g) = Some cur"
    and "d_vote_v (dev s d) = Some v" and "votem s v = Some w" and "v_cn_options w \<le> 40"
    and "list_devs (VoteHead v) s = Some ms" and "int (length (choice_list ms s)) < CMD_MAX"
  shows "\<exists>s'. cmd_votectrl c s = Some (0,
      REP_END (REP_ADD (choice_list ms s)
        (REP_ADD (if v_type w = VOTE_SCORE then num_str (average_score ms s)
                  else array_num_list (take (nat (v_cn_options w)) (v_results w)))
          (REP_ADD_NUM (g_vote_expect (grp s g)) (REP_ADD ''OK'' c)))), s')
    \<and> votem s' v = None \<and> d_vote_v (dev s' d) = None \<and> (\<forall>m \<in> set ms. d_vote_v (dev s' m) = None)
    \<and> g_vote_current (grp s' g) = None \<and> g_vote_v (grp s' g) = None \<and> g_vote_members (grp s' g) = []
    \<and> dg_vote_id (dbgrp s' g) = 0 \<and> dg_vote_results (dbgrp s' g) = ''0''"
proof -
  let ?x = "if v_type w = VOTE_SCORE then num_str (average_score ms s)
            else array_num_list (take (nat (v_cn_options w)) (v_results w))"
  let ?c1 = "REP_ADD ?x (REP_ADD_NUM (g_vote_expect (grp s g)) (REP_ADD ''OK'' c))"
  define s1 where "s1 = brcast_cmd_to_multi (REP_END ?c1) (g_vote_members (grp s g)) s"
  define c3 where "c3 = REP_END (REP_ADD (choice_list ms s) ?c1)"
  have x: "(if v_type w = VOTE_SCORE then Some (num_str (average_score ms s)) else vote_results_to_str w) = Some ?x"
    using assms(8) by (simp add: vote_results_to_str_def)
  have same: "choice_list ms s1 = choice_list ms s" by (simp add: choice_list_def s1_def)
  have "cmd_votectrl c s = Some (0, c3, vote_finish g d v ms (send_cmd_to_dev_id c3 1 s1))"
    using assms(1-7,9,10) x same
    by (simp add: cmd_votectrl_def votectrl_showresult_def Let_def REP_UNEND_END s1_def [symmetric] c3_def)
  then show ?thesis
    by (intro exI [of _ "vote_finish g d v ms (send_cmd_to_dev_id c3 1 s1)"])
      (simp add: c3_def vote_finish_def Let_def leave_votes)
qed

subsection \<open>Witnesses\<close>

definition run_vote :: "cmd list \<Rightarrow> srv \<Rightarrow> srv option" where
  "run_vote cs s = foldM (\<lambda>c s. map_option (\<lambda>(r, c, s). s) (cmd_votectrl c s)) cs s"

text \<open>The demo server after the query, and with the vote 4 open.\<close>

definition vote_asked :: srv where
  "vote_asked = the (run_vote [demo_cmd 5 [''query'']] demo)"

definition vote_on :: srv where
  "vote_on = the (run_vote [demo_cmd 5 [''query''], demo_cmd 5 [''start'', ''0'']] demo)"

definition demo_vote :: vote where
  "demo_vote = \<lparr>v_type = 3, v_cn_options = 3, v_n_members = 3, v_results = replicate 40 0\<rparr>"

lemma vote_on_sel:
  "votem vote_on 0 = Some demo_vote" "g_vote_current (grp vote_on 1) = Some 4" "g_vote_nvoted (grp vote_on 1) = 0"
  "voter vote_on 1 0 5" "voter vote_on 1 0 7" "voter vote_on 1 0 8" "g_vote_expect (grp vote_on 1) = 3"
  "list_devs (VoteHead 0) vote_on = Some [5, 7, 8]"
  "choice_list [5, 7, 8] vote_on = ''5=-1,7=-1,8=-1''"
  by code_simp+

lemma demo_vote_sel: "v_type demo_vote = 3" "v_cn_options demo_vote = 3" "v_results demo_vote = replicate 40 0"
  by (simp_all add: demo_vote_def)

lemma demo_choices: "choices ''2'' = [2]" "choices ''0,2'' = [0, 2]" "choices ''1'' = [1]"
  by code_simp+

theorem ballots_counted_exactly_witness:
  "\<exists>s' w'. run_ballots (demo_cmd 0 []) ''0'' [(7, ''2''), (8, ''0,2''), (5, ''1'')] vote_on = Some s'
    \<and> votem s' 0 = Some w' \<and> v_results w' ! 2 = 2 \<and> v_results w' ! 3 = 0
    \<and> g_vote_nvoted (grp s' 1) = 3"
proof -
  have "counting vote_on 1 0 demo_vote (length (all_choices [(7, ''2''), (8, ''0,2''), (5, ''1'')]))"
    by (simp add: counting_def vote_on_sel demo_vote_sel type_defs demo_choices)
  from ballots_counted_exactly [OF this, of "demo_cmd 0 []" "''0''"]
  obtain s' w' where "run_ballots (demo_cmd 0 []) ''0'' [(7, ''2''), (8, ''0,2''), (5, ''1'')] vote_on = Some s'"
    "votem s' 0 = Some w'"
    "\<forall>k < 40. v_results w' ! k = v_results demo_vote ! k + int (count_list [2, 0, 2, 1] (int k))"
    "g_vote_nvoted (grp s' 1) = 3"
    by (auto simp: vote_on_sel demo_choices)
  moreover from this(3) have "v_results w' ! 2 = 2" "v_results w' ! 3 = 0"
    by (auto simp: demo_vote_sel)
  ultimately show ?thesis by blast
qed

definition demo_row :: db_vote where
  "demo_row = \<lparr>dv_id = 4, dv_name = ''v'', dv_type = 3, dv_options_count = 3, dv_max_select = 1,
                 dv_options = ''a,b,c'', dv_members = ''5,7,8'', dv_expect = 3\<rparr>"

lemma vote_asked_sel:
  "snap_vote vote_asked = [4]" "devs vote_asked = [9, 8, 7, 5]" "d_group (dev vote_asked 5) = Some 1"
  "g_vote_current (grp vote_asked 1) = None" "atoi ''0'' = 0" "id_list ''5,7,8'' = [5, 7, 8]"
  "md_find_vote vote_asked 4 = Some demo_row"
  by code_simp+

theorem votectrl_start_opens_witness:
  "\<exists>c' s' v. cmd_votectrl (demo_cmd 5 [''start'', ''0'']) vote_asked = Some (0, c', s')
    \<and> g_vote_current (grp s' 1) = Some 4 \<and> list_devs (VoteHead v) s' = Some [5, 7, 8]
    \<and> votem s' v = Some demo_vote"
proof -
  have "c_args (demo_cmd 5 [''start'', ''0'']) = [''start'', ''0'']" "c_dev (demo_cmd 5 [''start'', ''0'']) = 5"
    by (simp_all add: demo_cmd_def)
  from votectrl_start_opens [OF this, of vote_asked 1 demo_row "[5, 7, 8]"] show ?thesis
    by (auto simp: vote_asked_sel demo_vote_def demo_row_def)
qed

theorem votectrl_showresult_ends_witness:
  "\<exists>c' s'. cmd_votectrl (demo_cmd 7 [''showresult'', ''0'']) vote_on = Some (0, c', s')
    \<and> votem s' 0 = None \<and> d_vote_v (dev s' 5) = None \<and> g_vote_current (grp s' 1) = None"
  using votectrl_showresult_ends [of "demo_cmd 7 [''showresult'', ''0'']" "''0''" "[]" 7 vote_on 1 4 0 demo_vote "[5, 7, 8]"]
    vote_on_sel
  by (auto simp: demo_cmd_def voter_def demo_vote_sel CMD_MAX_def)

subsection \<open>Two faults\<close>

text \<open>
  The option numbers of a ballot are only checked from above: a result command with option -1
  from a voter of an open vote writes in front of the array of counters.
\<close>

theorem votectrl_negative_option_faults:
  "cmd_votectrl (demo_cmd 7 [''result'', ''0'', ''-1'']) vote_on = None"
  by code_simp

text \<open>The demo server with the manager device 0.\<close>

definition demo_manager :: srv where
  "demo_manager = demo\<lparr>devs := 0 # devs demo,
     dev := (dev demo)(0 := (demo_dev 7)\<lparr>d_type := DEVTYPE_NONE, d_ops := False\<rparr>)\<rparr>"

definition after_vote :: srv where
  "after_vote = the (run_vote
     [demo_cmd 0 [''query''], demo_cmd 0 [''start'', ''0''], demo_cmd 7 [''showresult'', ''0''],
      demo_cmd 7 [''start'', ''0'']] demo_manager)"

text \<open>
  The starter of a vote that is not one of its members keeps its pointer to the vote when a
  member shows the result and the object is freed: after the manager starts a vote, a member ends
  it and starts the next, a ballot of the manager uses the freed object.
\<close>

theorem votectrl_master_uses_freed_vote:
  "d_vote_v (dev after_vote 0) = Some 0 \<and> votem after_vote 0 = None
    \<and> cmd_votectrl (demo_cmd 0 [''result'', ''0'', ''1'']) after_vote = None"
  by code_simp

end
