(* ===== verification/Tags.thy ===== *)
theory Tags
  imports Outstanding
begin

text \<open>
  serv/tag.c: creating a tag on first request, the unicast device of a tag, and the list of
  broadcast addresses, kept sorted with qsort and searched with bsearch. An entry of that list is a
  pointer to the address of a device, so the list holds device ids here. The start of the casting
  thread is left out; the thread's body is in Mixing and Casting.
\<close>

subsection \<open>Creation\<close>

definition new_tag :: "int \<Rightarrow> mixer \<Rightarrow> int \<Rightarrow> int \<Rightarrow> tag" where
  "new_tag tid m mode maxuser =
     \<lparr>t_id = tid, t_mixer = m, t_mix_devs = replicate 8 None, t_mix_count = 0, t_mix_ref = 0,
      t_mix_silence = 0, t_rep_pack = replicate 16 None, t_rep_pos = 0,
      t_rep_reqs = cfifo_init (\<lambda>_. (0, 0)) 4 6, t_seq = 0, t_mode = mode, t_maxuser = maxuser,
      t_openuser = 0, t_interp_mode = INTERP_NO, t_interp_rep = None, t_bcasts = [], t_ucast = None\<rparr>"

text \<open>opt is the option opt_mixer. The group must exist when tag 1 is created.\<close>

definition tag_create :: "mixer \<Rightarrow> int \<Rightarrow> int \<Rightarrow> srv \<Rightarrow> (int \<times> srv) option" where
  "tag_create opt gid tid s =
     do { let u = TAGUID gid tid;
          t \<leftarrow> (if tid = 1
               then do { g \<leftarrow> get_group s gid;
                         let G = dbgrp s g;
                         Some (new_tag tid opt (dg_discuss_mode G)
                           (if dg_discuss_maxuser G = 0 then MAX_MIX else dg_discuss_maxuser G)) }
               else Some (new_tag tid Soft DISCMODE_AUTO 1));
          let h = init_list_head (OpenHead u) (init_list_head (SubHead u) (init_list_head (TagHead u) (hp s)));
          Some (u, s\<lparr>hp := h, tagm := (tagm s)(u := t), tags := u # tags s\<rparr>) }"

definition request_tag :: "mixer \<Rightarrow> int \<Rightarrow> int \<Rightarrow> srv \<Rightarrow> (int \<times> srv) option" where
  "request_tag opt gid tid s =
     (case get_tag s (TAGUID gid tid) of Some t \<Rightarrow> Some (t, s) | None \<Rightarrow> tag_create opt gid tid s)"

definition tag_check_ucast :: "int \<Rightarrow> int \<Rightarrow> srv \<Rightarrow> int \<times> srv" where
  "tag_check_ucast t d s =
     (if d_type (dev s d) \<noteq> DEVTYPE_UCAST_AUDIO then (0, s)
      else if d_tag (dev s d) \<noteq> Some t then (0, s)
      else if t_ucast (tagm s t) \<noteq> None then (0, s)
      else (1, upd_tag t (\<lambda>T. T\<lparr>t_ucast := Some d\<rparr>) s))"

subsection \<open>Broadcast addresses\<close>

text \<open>The difference of two unsigned addresses, converted to int.\<close>

definition sincmp :: "32 word \<Rightarrow> 32 word \<Rightarrow> int" where
  "sincmp a b = sint (a - b)"

text \<open>bsearch and qsort of the C library for a comparison function: halving, and insertion from
  the right (every sorting algorithm gives this result when the comparison is a total order).\<close>

function bsearch :: "('a \<Rightarrow> int) \<Rightarrow> 'a list \<Rightarrow> nat \<Rightarrow> nat \<Rightarrow> nat option" where
  "bsearch c xs l u =
     (if l < u
      then (let m = (l + u) div 2; r = c (xs ! m)
            in if r < 0 then bsearch c xs l m
               else if r > 0 then bsearch c xs (m + 1) u
               else Some m)
      else None)"
  by auto
termination by (relation "measure (\<lambda>(c, xs, l, u). u - l)") auto

declare bsearch.simps [simp del]

fun insort_cmp :: "('a \<Rightarrow> 'a \<Rightarrow> int) \<Rightarrow> 'a \<Rightarrow> 'a list \<Rightarrow> 'a list" where
  "insort_cmp c x [] = [x]"
| "insort_cmp c x (y # ys) = (if c x y \<le> 0 then x # y # ys else y # insort_cmp c x ys)"

definition qsort_cmp :: "('a \<Rightarrow> 'a \<Rightarrow> int) \<Rightarrow> 'a list \<Rightarrow> 'a list" where
  "qsort_cmp c xs = foldr (insort_cmp c) xs []"

definition tag_add_bcast :: "int \<Rightarrow> int \<Rightarrow> srv \<Rightarrow> srv" where
  "tag_add_bcast t d s =
     (let bs = t_bcasts (tagm s t); a = (\<lambda>e. d_bcast (dev s e))
      in if length bs \<ge> 64 then s
         else if bsearch (\<lambda>e. sincmp (a d) (a e)) bs 0 (length bs) \<noteq> None then s
         else upd_tag t (\<lambda>T. T\<lparr>t_bcasts := qsort_cmp (\<lambda>e f. sincmp (a e) (a f)) (bs @ [d])\<rparr>) s)"

subsection \<open>Searching and sorting by a key\<close>

text \<open>Addresses whose differences fit in an int are compared like numbers.\<close>

definition half_window :: "32 word set \<Rightarrow> bool" where
  "half_window A \<longleftrightarrow> (\<forall>a \<in> A. \<forall>b \<in> A. \<bar>uint a - uint b\<bar> < 2 ^ 31)"

lemma sincmp_sint_range: "- (2 ^ 31) \<le> x \<Longrightarrow> x < 2 ^ 31 \<Longrightarrow> sint (word_of_int x :: 32 word) = x"
  by (simp add: signed_of_int signed_take_bit_int_eq_self)

lemma sincmp_diff:
  assumes "half_window A" and "a \<in> A" and "b \<in> A"
  shows "sincmp a b = uint a - uint b"
proof -
  have "\<bar>uint a - uint b\<bar> < 2 ^ 31" using assms by (auto simp: half_window_def)
  then show ?thesis
    unfolding sincmp_def word_sub_wi [of a b] by (intro sincmp_sint_range) auto
qed

text \<open>The outcome of a search in a part of a range, for the whole range.\<close>

lemma found_left:
  assumes "(case r of None \<Rightarrow> \<forall>i. l \<le> i \<and> i < m \<longrightarrow> P i | Some i \<Rightarrow> l \<le> i \<and> i < m \<and> Q i)"
    and "\<And>i. m \<le> i \<Longrightarrow> i < u \<Longrightarrow> P i" and "m \<le> (u :: nat)"
  shows "(case r of None \<Rightarrow> \<forall>i. l \<le> i \<and> i < u \<longrightarrow> P i | Some i \<Rightarrow> l \<le> i \<and> i < u \<and> Q i)"
proof (cases r)
  case None
  have "P i" if "l \<le> i" "i < u" for i
    using assms(1) assms(2) [of i] None that by (cases "i < m") auto
  then show ?thesis using None by simp
qed (use assms in auto)

lemma found_right:
  assumes "(case r of None \<Rightarrow> \<forall>i. m \<le> i \<and> i < u \<longrightarrow> P i | Some i \<Rightarrow> m \<le> i \<and> i < u \<and> Q i)"
    and "\<And>i. l \<le> i \<Longrightarrow> i < m \<Longrightarrow> P i" and "l \<le> (m :: nat)"
  shows "(case r of None \<Rightarrow> \<forall>i. l \<le> i \<and> i < u \<longrightarrow> P i | Some i \<Rightarrow> l \<le> i \<and> i < u \<and> Q i)"
proof (cases r)
  case None
  have "P i" if "l \<le> i" "i < u" for i
    using assms(1) assms(2) [of i] None that by (cases "i < m") auto
  then show ?thesis using None by simp
qed (use assms in auto)

text \<open>A strictly increasing key over the list; the comparison is the difference to the key sought.\<close>

lemma bsearch_correct:
  assumes sorted: "sorted_wrt (\<lambda>x y. f x < f y) xs" and "u \<le> length xs"
    and c: "\<And>x. x \<in> set xs \<Longrightarrow> c x = (k :: int) - f x"
  shows "(case bsearch c xs l u of None \<Rightarrow> \<forall>i. l \<le> i \<and> i < u \<longrightarrow> f (xs ! i) \<noteq> k
          | Some i \<Rightarrow> l \<le> i \<and> i < u \<and> f (xs ! i) = k)"
  using assms(2)
proof (induction "u - l" arbitrary: l u rule: less_induct)
  case less
  let ?P = "\<lambda>l u r. (case r of None \<Rightarrow> \<forall>i. l \<le> i \<and> i < u \<longrightarrow> f (xs ! i) \<noteq> k
          | Some i \<Rightarrow> l \<le> i \<and> i < u \<and> f (xs ! i) = k)"
  show ?case
  proof (cases "l < u")
    case False
    then show ?thesis by (simp add: bsearch.simps)
  next
    case True
    define m where "m = (l + u) div 2"
    have m: "l \<le> m" "m < u" "m < length xs" using True less.prems by (auto simp: m_def)
    have r: "c (xs ! m) = k - f (xs ! m)" using c m(3) by simp
    have mono: "f (xs ! i) < f (xs ! j)" if "i < j" "j < length xs" for i j
      using sorted_wrt_nth_less [OF sorted that] .
    consider "k < f (xs ! m)" | "k > f (xs ! m)" | "k = f (xs ! m)" by linarith
    then show ?thesis
    proof cases
      case 1
      then have eq: "bsearch c xs l u = bsearch c xs l m"
        using True r by (simp add: bsearch.simps [of c xs l u] Let_def m_def [symmetric])
      have P: "?P l m (bsearch c xs l m)" using less.hyps [of m l] m by simp
      have N: "f (xs ! i) \<noteq> k" if "m \<le> i" "i < u" for i
        using 1 mono [of m i] that less.prems by (cases "i = m") auto
      show ?thesis unfolding eq by (rule found_left [OF P N]) (use m in auto)
    next
      case 2
      then have eq: "bsearch c xs l u = bsearch c xs (m + 1) u"
        using True r by (simp add: bsearch.simps [of c xs l u] Let_def m_def [symmetric])
      have P: "?P (m + 1) u (bsearch c xs (m + 1) u)" using less.hyps [of u "m + 1"] m less.prems by simp
      have N: "f (xs ! i) \<noteq> k" if "l \<le> i" "i < m + 1" for i
        using 2 mono [of i m] that m by (cases "i = m") auto
      show ?thesis unfolding eq by (rule found_right [OF P N]) (use m in auto)
    next
      case 3
      then show ?thesis using True r m by (simp add: bsearch.simps [of c xs l u] Let_def m_def [symmetric])
    qed
  qed
qed

lemma insort_cmp_set: "set (insort_cmp c x xs) = insert x (set xs)"
  by (induction xs) auto

lemma insort_cmp_length: "length (insort_cmp c x xs) = Suc (length xs)"
  by (induction xs) auto

lemma insort_cmp_sorted:
  assumes "\<And>y. y \<in> set xs \<Longrightarrow> c x y = (f x :: int) - f y" and "sorted_wrt (\<lambda>x y. f x < f y) xs"
    and "f x \<notin> f ` set xs"
  shows "sorted_wrt (\<lambda>x y. f x < f y) (insort_cmp c x xs)"
  using assms
proof (induction xs)
  case Nil
  then show ?case by simp
next
  case (Cons y ys)
  have "f y < f z" if "z \<in> set ys" for z using Cons.prems(2) that by simp
  moreover have "c x y = f x - f y" "f x \<noteq> f y" using Cons.prems(1,3) by auto
  moreover have "sorted_wrt (\<lambda>x y. f x < f y) (insort_cmp c x ys)"
    using Cons.IH Cons.prems by simp
  ultimately show ?case
    using Cons.prems(2) by (fastforce simp: insort_cmp_set)
qed

lemma qsort_cmp_snoc: "qsort_cmp c (xs @ [x]) = foldr (insort_cmp c) xs [x]"
  by (simp add: qsort_cmp_def)

lemma qsort_cmp_set: "set (qsort_cmp c xs) = set xs"
  by (induction xs) (auto simp: qsort_cmp_def insort_cmp_set)

lemma qsort_cmp_length: "length (qsort_cmp c xs) = length xs"
  by (induction xs) (auto simp: qsort_cmp_def insort_cmp_length)

lemma qsort_cmp_sorted:
  assumes "\<And>x y. x \<in> set xs \<Longrightarrow> y \<in> set xs \<Longrightarrow> c x y = (f x :: int) - f y" and "distinct (map f xs)"
  shows "sorted_wrt (\<lambda>x y. f x < f y) (qsort_cmp c xs)"
  using assms
proof (induction xs)
  case Nil
  then show ?case by (simp add: qsort_cmp_def)
next
  case (Cons x xs)
  have "sorted_wrt (\<lambda>x y. f x < f y) (qsort_cmp c xs)" using Cons by simp
  moreover have "f x \<notin> f ` set (qsort_cmp c xs)" using Cons.prems(2) by (simp add: qsort_cmp_set)
  moreover have "c x y = f x - f y" if "y \<in> set (qsort_cmp c xs)" for y
    using Cons.prems(1) that by (simp add: qsort_cmp_set)
  ultimately have "sorted_wrt (\<lambda>x y. f x < f y) (insort_cmp c x (qsort_cmp c xs))"
    by (intro insort_cmp_sorted)
  then show ?case by (simp add: qsort_cmp_def)
qed

subsection \<open>The address list\<close>

definition bcasts_ok :: "int \<Rightarrow> srv \<Rightarrow> bool" where
  "bcasts_ok t s \<longleftrightarrow>
     length (t_bcasts (tagm s t)) \<le> 64
     \<and> sorted_wrt (\<lambda>e f. uint (d_bcast (dev s e)) < uint (d_bcast (dev s f))) (t_bcasts (tagm s t))"

definition bcast_addrs :: "int \<Rightarrow> srv \<Rightarrow> 32 word set" where
  "bcast_addrs t s = (\<lambda>e. d_bcast (dev s e)) ` set (t_bcasts (tagm s t))"

lemma sorted_keys_distinct: "sorted_wrt (\<lambda>x y. f x < (f y :: int)) xs \<Longrightarrow> distinct (map f xs)"
  by (induction xs) auto

lemma tag_add_bcast_ok:
  assumes ok: "bcasts_ok t s" and win: "half_window (insert (d_bcast (dev s d)) (bcast_addrs t s))"
  shows "bcasts_ok t (tag_add_bcast t d s)"
    and "bcast_addrs t (tag_add_bcast t d s) =
      (if length (t_bcasts (tagm s t)) = 64 then bcast_addrs t s else insert (d_bcast (dev s d)) (bcast_addrs t s))"
proof -
  let ?bs = "t_bcasts (tagm s t)" and ?f = "\<lambda>e. uint (d_bcast (dev s e))"
  let ?c = "\<lambda>e. sincmp (d_bcast (dev s d)) (d_bcast (dev s e))"
  let ?q = "qsort_cmp (\<lambda>e f. sincmp (d_bcast (dev s e)) (d_bcast (dev s f))) (?bs @ [d])"
  have sorted: "sorted_wrt (\<lambda>e f. ?f e < ?f f) ?bs" "length ?bs \<le> 64" using ok by (simp_all add: bcasts_ok_def)
  have cmp: "sincmp (d_bcast (dev s e)) (d_bcast (dev s f)) = ?f e - ?f f"
    if "e \<in> insert d (set ?bs)" "f \<in> insert d (set ?bs)" for e f
    by (rule sincmp_diff [OF win]) (use that in \<open>auto simp: bcast_addrs_def\<close>)
  have found: "(case bsearch ?c ?bs 0 (length ?bs) of None \<Rightarrow> ?f d \<notin> ?f ` set ?bs | Some i \<Rightarrow> ?f d \<in> ?f ` set ?bs)"
    using bsearch_correct [OF sorted(1), of "length ?bs" ?c "?f d" 0] cmp
    by (auto split: option.splits simp: in_set_conv_nth) (metis image_eqI nth_mem)
  have dist: "distinct (map ?f ?bs)" by (rule sorted_keys_distinct [OF sorted(1)])
  have goal: "bcasts_ok t (tag_add_bcast t d s) \<and> bcast_addrs t (tag_add_bcast t d s) =
      (if length ?bs = 64 then bcast_addrs t s else insert (d_bcast (dev s d)) (bcast_addrs t s))"
  proof (cases "length ?bs = 64 \<or> bsearch ?c ?bs 0 (length ?bs) \<noteq> None")
    case True
    then have "tag_add_bcast t d s = s" by (auto simp: tag_add_bcast_def Let_def)
    moreover have "d_bcast (dev s d) \<in> bcast_addrs t s" if "bsearch ?c ?bs 0 (length ?bs) \<noteq> None"
      using found that by (auto simp: bcast_addrs_def image_iff word_uint_eq_iff)
    ultimately show ?thesis using True ok by (auto simp: insert_absorb)
  next
    case False
    then have upd: "tag_add_bcast t d s = upd_tag t (\<lambda>T. T\<lparr>t_bcasts := ?q\<rparr>) s"
      using sorted(2) by (simp add: tag_add_bcast_def Let_def)
    have "distinct (map ?f (?bs @ [d]))" using found False dist by (auto split: option.splits)
    moreover have "sincmp (d_bcast (dev s e)) (d_bcast (dev s f)) = ?f e - ?f f"
      if "e \<in> set (?bs @ [d])" "f \<in> set (?bs @ [d])" for e f
      by (rule cmp) (use that in auto)
    ultimately have "sorted_wrt (\<lambda>e f. ?f e < ?f f) ?q" by (intro qsort_cmp_sorted)
    then show ?thesis
      unfolding upd using False sorted(2)
      by (auto simp: bcasts_ok_def bcast_addrs_def qsort_cmp_length qsort_cmp_set)
  qed
  then show "bcasts_ok t (tag_add_bcast t d s)" by blast
  show "bcast_addrs t (tag_add_bcast t d s) =
      (if length ?bs = 64 then bcast_addrs t s else insert (d_bcast (dev s d)) (bcast_addrs t s))"
    using goal by blast
qed

end
