(* ===== verification/Mixing.thy ===== *)
theory Mixing
  imports Tags Pcm
begin

text \<open>
  Mixing the audio of a tag: the packet queues of the devices in its slots, the flushing of
  loaded queues, the three ways to wait for data and tag_mix_audio (serv/tag.c), reached through
  the software mixer (serv/soft_mixer.c); the net mixer of serv/net_mixer.c mixes nothing. A queue
  is the fifo of packet addresses of the device; a null pointer in it is None, and following it a
  fault. While the mixing thread sleeps other threads change the state: the parameter env gives
  the state after the k-th sleep, k counted from the start of the call.
\<close>

subsection \<open>Options of serv/opts.h\<close>

datatype sync_policy = SYNC_WAIT | SYNC_FIXED | SYNC_REF

record opts =
  opt_flush :: bool
  opt_sync_policy :: sync_policy
  opt_silence_drop :: bool
  opt_broadcast :: bool
  opt_tcp_audio :: bool

definition PACKET_AUDIO :: int where "PACKET_AUDIO = 1"
definition PACKET_AUDIO_ZERO :: int where "PACKET_AUDIO_ZERO = 5"
definition MAXPACK :: nat where "MAXPACK = 1800"

lemmas packet_defs = PACKET_AUDIO_def PACKET_AUDIO_ZERO_def MAXPACK_def

definition upd_pkt :: "nat \<Rightarrow> (packet \<Rightarrow> packet) \<Rightarrow> srv \<Rightarrow> srv" where
  "upd_pkt p f s = s\<lparr>pkts := (pkts s)(p := f (pkts s p))\<rparr>"

lemma upd_pkt_sel [simp, frame_simps]:
  "pkts (upd_pkt p f s) = (pkts s)(p := f (pkts s p))" "hp (upd_pkt p f s) = hp s"
  "dev (upd_pkt p f s) = dev s" "devs (upd_pkt p f s) = devs s" "tagm (upd_pkt p f s) = tagm s"
  "tags (upd_pkt p f s) = tags s" "grp (upd_pkt p f s) = grp s" "outs (upd_pkt p f s) = outs s"
  by (simp_all add: upd_pkt_def)

definition pack_free :: "nat \<Rightarrow> srv \<Rightarrow> srv" where
  "pack_free p s = emit (Freed p) s"

subsection \<open>The queue of a device\<close>

definition dev_in_packet :: "int \<Rightarrow> nat \<Rightarrow> srv \<Rightarrow> srv" where
  "dev_in_packet d p s =
     upd_dev d (\<lambda>D. D\<lparr>d_fifo := cfifo__in (cfifo_store (cfifo_get_in (d_fifo D)) (Some p) (d_fifo D))\<rparr>) s"

definition dev_out_packet :: "int \<Rightarrow> srv \<Rightarrow> nat option \<times> srv" where
  "dev_out_packet d s =
     (let q = d_fifo (dev s d); pp = cfifo_get_out q
      in (cfifo_fetch pp q, upd_dev d (\<lambda>D. D\<lparr>d_fifo := cfifo__out (cfifo_store pp None q)\<rparr>) s))"

definition tag_in_dev_packet :: "int \<Rightarrow> int \<Rightarrow> nat \<Rightarrow> srv \<Rightarrow> int \<times> srv" where
  "tag_in_dev_packet t d p s =
     (if d_mixbit (dev s d) = 0 then (0, s)
      else if cfifo_full (d_fifo (dev s d)) then (0, s)
      else (1, dev_in_packet d p s))"

definition tag_out_dev_packet :: "int \<Rightarrow> int \<Rightarrow> srv \<Rightarrow> nat option \<times> srv" where
  "tag_out_dev_packet t d s = dev_out_packet d s"

definition soft_put :: "int \<Rightarrow> nat \<Rightarrow> srv \<Rightarrow> (int \<times> srv) option" where
  "soft_put d p s =
     do { t \<leftarrow> d_tag (dev s d);
          let (r, s1) = tag_in_dev_packet t d p s;
          Some (if r = 0 then 1 else 0, s1) }"

definition netmx_put :: "int \<Rightarrow> nat \<Rightarrow> srv \<Rightarrow> (int \<times> srv) option" where
  "netmx_put d p s = Some (1, s)"

definition MIX_PUT :: "int \<Rightarrow> int \<Rightarrow> nat \<Rightarrow> srv \<Rightarrow> (int \<times> srv) option" where
  "MIX_PUT t d p s = (case t_mixer (tagm s t) of Soft \<Rightarrow> soft_put d p s | Net \<Rightarrow> netmx_put d p s)"

subsection \<open>Walking the slots\<close>

text \<open>The loop over mix_devs; the slot is read when the loop reaches it.\<close>

fun each_mix_dev :: "(int \<Rightarrow> 'a \<times> srv \<Rightarrow> ('a \<times> srv) option) \<Rightarrow> int \<Rightarrow> nat list \<Rightarrow> 'a \<times> srv \<Rightarrow> ('a \<times> srv) option" where
  "each_mix_dev f t [] a = Some a"
| "each_mix_dev f t (i # is) a =
     (case t_mix_devs (tagm (snd a) t) ! i of
        None \<Rightarrow> each_mix_dev f t is a
      | Some d \<Rightarrow> (case f d a of None \<Rightarrow> None | Some b \<Rightarrow> each_mix_dev f t is b))"

definition update_dev :: "int \<Rightarrow> int \<Rightarrow> unit \<times> srv \<Rightarrow> (unit \<times> srv) option" where
  "update_dev t d = (\<lambda>(u, s).
     if cfifo_empty (d_fifo (dev s d))
     then (let s1 = upd_dev d (\<lambda>D. D\<lparr>d_timeouts := d_timeouts D + 1\<rparr>) s
           in if d_timeouts (dev s1 d) > 300
              then do { s2 \<leftarrow> tag_rm_outstanding t d s1; Some (u, s2) }
              else Some (u, s1))
     else Some (u, upd_dev d (\<lambda>D. D\<lparr>d_timeouts := 0\<rparr>) s))"

definition tag_update_dev_timeouts :: "int \<Rightarrow> srv \<Rightarrow> srv option" where
  "tag_update_dev_timeouts t s = map_option snd (each_mix_dev (update_dev t) t [0..<8] ((), s))"

subsection \<open>Flushing\<close>

definition drop_queue_front :: "int \<Rightarrow> srv \<Rightarrow> srv option" where
  "drop_queue_front d s =
     (let (r, s1) = dev_out_packet d s in do { p \<leftarrow> r; Some (pack_free p s1) })"

fun drop_fronts :: "nat \<Rightarrow> int \<Rightarrow> srv \<Rightarrow> srv option" where
  "drop_fronts 0 d s = Some s"
| "drop_fronts (Suc n) d s = do { s1 \<leftarrow> drop_queue_front d s; drop_fronts n d s1 }"

definition flush_queue :: "int \<Rightarrow> srv \<Rightarrow> srv option" where
  "flush_queue d s =
     do { s1 \<leftarrow> drop_fronts (nat (cfifo_len (d_fifo (dev s d)) - 1)) d s;
          Some (upd_dev d (\<lambda>D. D\<lparr>d_flushed := d_flushed D + 1\<rparr>) s1) }"

definition flush_all_queues :: "int \<Rightarrow> srv \<Rightarrow> srv option" where
  "flush_all_queues t s =
     map_option snd (each_mix_dev (\<lambda>d (u, s). do { s1 \<leftarrow> flush_queue d s; Some (u, s1) }) t [0..<8] ((), s))"

fun drop_silent :: "nat \<Rightarrow> int \<Rightarrow> nat \<Rightarrow> srv \<Rightarrow> (nat \<times> srv) option" where
  "drop_silent 0 d n s = Some (n, s)"
| "drop_silent (Suc l) d n s =
     (let q = d_fifo (dev s d)
      in do { p \<leftarrow> cfifo_fetch (cfifo_get_out q) q;
              if pk_type (pkts s p) = PACKET_AUDIO_ZERO
              then do { s1 \<leftarrow> drop_queue_front d s; drop_silent l d (n + 1) s1 }
              else Some (n, s) })"

definition flush_queue_silence :: "int \<Rightarrow> srv \<Rightarrow> srv option" where
  "flush_queue_silence d s =
     do { (n, s1) \<leftarrow> drop_silent (nat (cfifo_len (d_fifo (dev s d)) - 1)) d 0 s;
          Some (if n > 0 then upd_dev d (\<lambda>D. D\<lparr>d_flushed := d_flushed D + 1\<rparr>) s1 else s1) }"

text \<open>One slot of flush_queues, counting the flushed queues.\<close>

definition flush_dev :: "int \<Rightarrow> nat \<times> srv \<Rightarrow> (nat \<times> srv) option" where
  "flush_dev d = (\<lambda>(c, s).
     let len = cfifo_len (d_fifo (dev s d))
     in if len > 6 then do { s1 \<leftarrow> flush_queue d s; Some (c + 1, s1) }
        else if len > 1
        then (let s1 = upd_dev d (\<lambda>D. D\<lparr>d_highload := d_highload D + 1\<rparr>) s
              in if d_highload (dev s1 d) > 180
                 then do { s2 \<leftarrow> flush_queue d s1; Some (c + 1, s2) }
                 else Some (c, s1))
        else Some (c, upd_dev d (\<lambda>D. D\<lparr>d_highload := 0\<rparr>) s))"

definition flush_queues :: "int \<Rightarrow> srv \<Rightarrow> (int \<times> srv) option" where
  "flush_queues t s =
     do { (c, s1) \<leftarrow> each_mix_dev flush_dev t [0..<8] (0, s);
          Some (if c > 0 then 1 else 0, s1) }"

subsection \<open>Waiting\<close>

definition queue_bell :: "int \<Rightarrow> srv \<Rightarrow> bool" where
  "queue_bell d s \<longleftrightarrow> \<not> cfifo_empty (d_fifo (dev s d))"

definition all_queues_bell :: "int \<Rightarrow> srv \<Rightarrow> bool" where
  "all_queues_bell t s \<longleftrightarrow>
     list_all (\<lambda>i. case t_mix_devs (tagm s t) ! i of None \<Rightarrow> True | Some d \<Rightarrow> queue_bell d s) [0..<8]"

function wait_all_from :: "(nat \<Rightarrow> srv \<Rightarrow> srv) \<Rightarrow> int \<Rightarrow> nat \<Rightarrow> srv \<Rightarrow> (int \<times> srv) option" where
  "wait_all_from env t waited s =
     (if all_queues_bell t s then Some (1, s)
      else (case tag_update_dev_timeouts t (env waited s) of
              None \<Rightarrow> None
            | Some s1 \<Rightarrow> if waited + 1 > 50 then Some (0, s1) else wait_all_from env t (waited + 1) s1))"
  by auto
termination by (relation "measure (\<lambda>(env, t, w, s). 51 - w)") auto

definition wait_all_queues :: "(nat \<Rightarrow> srv \<Rightarrow> srv) \<Rightarrow> int \<Rightarrow> srv \<Rightarrow> (int \<times> srv) option" where
  "wait_all_queues env t s = wait_all_from env t 0 s"

function wait_any_from :: "(nat \<Rightarrow> srv \<Rightarrow> srv) \<Rightarrow> int \<Rightarrow> nat \<Rightarrow> nat \<Rightarrow> srv \<Rightarrow> int \<times> srv" where
  "wait_any_from env t k usecs s =
     (if usecs = 0 then (1, s)
      else if all_queues_bell t s then (1, s)
      else if usecs \<ge> 1000 then wait_any_from env t (k + 1) (usecs - 1000) (env k s)
      else wait_any_from env t (k + 1) 0 (env k s))"
  by auto
termination by (relation "measure (\<lambda>(env, t, k, u, s). u)") auto

definition wait_any_queue :: "(nat \<Rightarrow> srv \<Rightarrow> srv) \<Rightarrow> int \<Rightarrow> srv \<Rightarrow> int \<times> srv" where
  "wait_any_queue env t s = wait_any_from env t 0 11610 s"

declare wait_all_from.simps [simp del] wait_any_from.simps [simp del]

text \<open>Not returning is None here, as a fault is.\<close>

partial_function (option) wait_ref_from ::
  "(nat \<Rightarrow> srv \<Rightarrow> srv) \<Rightarrow> int \<Rightarrow> int \<Rightarrow> nat \<Rightarrow> srv \<Rightarrow> (int \<times> srv) option" where
  "wait_ref_from env t d k s =
     (if queue_bell d s then Some (1, upd_dev d (\<lambda>D. D\<lparr>d_timeouts := 0\<rparr>) s)
      else if d_mixbit (dev s d) = 0 then Some (0, s)
      else (let s1 = upd_dev d (\<lambda>D. D\<lparr>d_timeouts := d_timeouts D + 1\<rparr>) (env k s)
            in if d_timeouts (dev s1 d) > 300
               then do { s2 \<leftarrow> tag_rm_outstanding t d s1; s3 \<leftarrow> flush_all_queues t s2; Some (0, s3) }
               else wait_ref_from env t d (k + 1) s1))"

definition wait_ref_queue :: "(nat \<Rightarrow> srv \<Rightarrow> srv) \<Rightarrow> int \<Rightarrow> srv \<Rightarrow> (int \<times> srv) option" where
  "wait_ref_queue env t s =
     (case t_mix_devs (tagm s t) ! t_mix_ref (tagm s t) of
        None \<Rightarrow> Some (0, s) | Some d \<Rightarrow> wait_ref_from env t d 0 s)"

subsection \<open>Mixing\<close>

text \<open>memset of the first l bytes of the samples, on a little-endian machine.\<close>

definition zero_bytes :: "nat \<Rightarrow> sample list \<Rightarrow> sample list" where
  "zero_bytes l xs =
     (let ys = replicate (l div 2) 0 @ drop (l div 2) xs
      in if odd l then ys[l div 2 := and (ys ! (l div 2)) 0xFF00] else ys)"

definition silent_pack :: "packet \<Rightarrow> packet" where
  "silent_pack P = P\<lparr>pk_data := zero_bytes (pk_datalen P) (pk_data P), pk_type := PACKET_AUDIO,
     pk_len := 12 + pk_datalen P\<rparr>"

text \<open>add_mix_pack on the packets collected so far and the length to mix.\<close>

definition add_mix_pack :: "nat \<Rightarrow> (nat list \<times> nat) \<times> srv \<Rightarrow> ((nat list \<times> nat) \<times> srv) option" where
  "add_mix_pack p = (\<lambda>((pp, mixlen), s).
     let l = pk_datalen (pkts s p)
     in if l > MAXPACK - 100 then Some ((pp, mixlen), pack_free p s)
        else do { s1 \<leftarrow> (if pk_type (pkts s p) = PACKET_AUDIO_ZERO
                       then do { ensure (l \<le> 2 * length (pk_data (pkts s p)));
                                 Some (upd_pkt p silent_pack s) }
                       else Some s);
                  Some ((pp @ [p], min mixlen l), s1) })"

text \<open>One slot of the blending pass.\<close>

definition pick_dev :: "int \<Rightarrow> int \<Rightarrow> (nat list \<times> nat) \<times> srv \<Rightarrow> ((nat list \<times> nat) \<times> srv) option" where
  "pick_dev t d = (\<lambda>(a, s).
     if cfifo_empty (d_fifo (dev s d)) then Some (a, s)
     else (let (r, s1) = tag_out_dev_packet t d (upd_dev d (\<lambda>D. D\<lparr>d_timeouts := 0\<rparr>) s)
           in do { p \<leftarrow> r; add_mix_pack p (a, s1) }))"

definition free_packs :: "nat list \<Rightarrow> srv \<Rightarrow> srv" where
  "free_packs ps s = fold pack_free ps s"

text \<open>What follows the pass, on the packets taken and the shortest length: the sum goes to the
  first packet and the others are freed; a long row of silent packets is dropped.\<close>

definition blend :: "nat list \<Rightarrow> nat \<Rightarrow> srv \<Rightarrow> srv option" where
  "blend pp mixlen s =
     (if length pp \<le> 1 then Some s
      else do { xs \<leftarrow> pcm_mix (map (\<lambda>q. pk_data (pkts s q)) pp) (mixlen div 2);
                Some (free_packs (tl pp) (upd_pkt (hd pp) (\<lambda>P. P\<lparr>pk_data := xs\<rparr>) s)) })"

definition drop_if_silent :: "int \<Rightarrow> nat \<Rightarrow> int \<Rightarrow> nat \<Rightarrow> srv \<Rightarrow> (nat option \<times> srv) option" where
  "drop_if_silent t p c mixlen s =
     do { b \<leftarrow> pcm_silent (pk_data (pkts s p)) mixlen (51200 * c);
          if b \<noteq> 0
          then (let s1 = upd_tag t (\<lambda>T. T\<lparr>t_mix_silence := t_mix_silence T + 1\<rparr>) s
                in if t_mix_silence (tagm s1 t) > 50
                   then Some (None, pack_free p s1) else Some (Some p, s1))
          else Some (Some p, upd_tag t (\<lambda>T. T\<lparr>t_mix_silence := 0\<rparr>) s) }"

definition mix_picked :: "opts \<Rightarrow> int \<Rightarrow> nat list \<Rightarrow> nat \<Rightarrow> srv \<Rightarrow> (nat option \<times> srv) option" where
  "mix_picked cfg t pp mixlen s =
     (if pp = [] then Some (None, s)
      else do { s1 \<leftarrow> blend pp mixlen s;
                if opt_silence_drop cfg then drop_if_silent t (hd pp) (int (length pp)) mixlen s1
                else Some (Some (hd pp), s1) })"

definition wait_queues :: "opts \<Rightarrow> (nat \<Rightarrow> srv \<Rightarrow> srv) \<Rightarrow> int \<Rightarrow> srv \<Rightarrow> (int \<times> srv) option" where
  "wait_queues cfg env t s =
     (case opt_sync_policy cfg of
        SYNC_WAIT \<Rightarrow> wait_all_queues env t s
      | SYNC_FIXED \<Rightarrow> Some (wait_any_queue env t s)
      | SYNC_REF \<Rightarrow> wait_ref_queue env t s)"

definition tag_mix_audio :: "opts \<Rightarrow> (nat \<Rightarrow> srv \<Rightarrow> srv) \<Rightarrow> int \<Rightarrow> srv \<Rightarrow> (nat option \<times> srv) option" where
  "tag_mix_audio cfg env t s =
     do { s1 \<leftarrow> (if t_mix_count (tagm s t) \<noteq> 1 \<and> opt_flush cfg
                then map_option snd (flush_queues t s) else Some s);
          (r, s2) \<leftarrow> wait_queues cfg env t s1;
          if r = 0 then Some (None, s2)
          else do { ((pp, mixlen), s3) \<leftarrow> each_mix_dev (pick_dev t) t [0..<8] (([], 2 ^ 18), s2);
                    mix_picked cfg t pp mixlen s3 } }"

text \<open>Waiting on cnd_nonempty for as long as no slot is in use, then mixing.\<close>

partial_function (option) wait_nonempty :: "(nat \<Rightarrow> srv \<Rightarrow> srv) \<Rightarrow> int \<Rightarrow> nat \<Rightarrow> srv \<Rightarrow> (nat \<times> srv) option" where
  "wait_nonempty env t k s =
     (if t_mix_count (tagm s t) > 0 then Some (k, s) else wait_nonempty env t (k + 1) (env k s))"

definition tag_out_dev_mixed :: "opts \<Rightarrow> (nat \<Rightarrow> srv \<Rightarrow> srv) \<Rightarrow> int \<Rightarrow> srv \<Rightarrow> (nat option \<times> srv) option" where
  "tag_out_dev_mixed cfg env t s =
     do { (k, s1) \<leftarrow> wait_nonempty env t 0 s; tag_mix_audio cfg (\<lambda>i. env (k + i)) t s1 }"

definition soft_get :: "opts \<Rightarrow> (nat \<Rightarrow> srv \<Rightarrow> srv) \<Rightarrow> int \<Rightarrow> srv \<Rightarrow> (nat option \<times> srv) option" where
  "soft_get cfg env t s = tag_out_dev_mixed cfg env t s"

text \<open>The net mixer sleeps for ever.\<close>

partial_function (option) netmx_get :: "(nat \<Rightarrow> srv \<Rightarrow> srv) \<Rightarrow> nat \<Rightarrow> int \<Rightarrow> srv \<Rightarrow> (nat option \<times> srv) option" where
  "netmx_get env k t s = netmx_get env (k + 1) t (env k s)"

definition MIX_GET :: "opts \<Rightarrow> (nat \<Rightarrow> srv \<Rightarrow> srv) \<Rightarrow> int \<Rightarrow> srv \<Rightarrow> (nat option \<times> srv) option" where
  "MIX_GET cfg env t s =
     (case t_mixer (tagm s t) of Soft \<Rightarrow> soft_get cfg env t s | Net \<Rightarrow> netmx_get env 0 t s)"

end
