(* ===== verification/Mixing_Inv.thy ===== *)
theory Mixing_Inv
  imports Mixing
begin

text \<open>
  The queues of the mixing devices as lists of packets, and what mixing does with them: the
  invariant audio_ok (slots and queues in order, every queued packet fitting its buffer) is kept
  by every step, no step faults, and every wait ends when the other threads keep audio_ok and do
  not reset the timeout counts (env_ok).
\<close>

subsection \<open>Queues as lists of packets\<close>

definition q_rep :: "srv \<Rightarrow> int \<Rightarrow> nat list \<Rightarrow> bool" where
  "q_rep s d ps \<longleftrightarrow> cf_rep 5 (d_fifo (dev s d)) (map Some ps)"

lemma q_rep_cong: "d_fifo (dev s' d) = d_fifo (dev s d) \<Longrightarrow> q_rep s' d ps = q_rep s d ps"
  by (simp add: q_rep_def)

lemma q_rep_bound: "q_rep s d ps \<Longrightarrow> length ps \<le> 31"
  using cf.rep_bound [of 5] by (fastforce simp: q_rep_def)

lemma q_rep_empty: "q_rep s d ps \<Longrightarrow> cfifo_empty (d_fifo (dev s d)) \<longleftrightarrow> ps = []"
  unfolding q_rep_def by (drule cfifo_empty_rep) simp

lemma q_rep_len: "q_rep s d ps \<Longrightarrow> cfifo_len (d_fifo (dev s d)) = int (length ps)"
  unfolding q_rep_def by (drule cfifo_len_rep) simp

lemma q_rep_full: "q_rep s d ps \<Longrightarrow> cfifo_full (d_fifo (dev s d)) \<longleftrightarrow> length ps = 31"
  unfolding q_rep_def by (drule cfifo_full_rep) simp

text \<open>Only the queue of one device changes.\<close>

definition fifo_only :: "int \<Rightarrow> srv \<Rightarrow> srv \<Rightarrow> bool" where
  "fifo_only d s s' \<longleftrightarrow> tagm s' = tagm s \<and> pkts s' = pkts s \<and> (\<forall>e. e \<noteq> d \<longrightarrow> dev s' e = dev s e)
     \<and> d_mixbit (dev s' d) = d_mixbit (dev s d) \<and> d_tag (dev s' d) = d_tag (dev s d)
     \<and> d_timeouts (dev s' d) = d_timeouts (dev s d)"

lemma fifo_only_trans: "fifo_only d s t \<Longrightarrow> fifo_only d t u \<Longrightarrow> fifo_only d s u"
  by (auto simp: fifo_only_def)

lemma dev_out_packet_rep:
  assumes "q_rep s d (p # ps)"
  obtains s' where "dev_out_packet d s = (Some p, s')" "q_rep s' d ps" "fifo_only d s s'" "outs s' = outs s"
proof
  let ?s = "snd (dev_out_packet d s)"
  have rep: "cf_rep 5 (d_fifo (dev s d)) (Some p # map Some ps)" using assms by (simp add: q_rep_def)
  show "dev_out_packet d s = (Some p, ?s)"
    using cfifo_get_rep(1) [OF rep] by (simp add: dev_out_packet_def Let_def)
  show "q_rep ?s d ps"
    using cfifo_get_clear_rep [OF rep] by (simp add: dev_out_packet_def Let_def q_rep_def)
  show "fifo_only d s ?s" "outs ?s = outs s" by (simp_all add: dev_out_packet_def Let_def fifo_only_def)
qed

lemma tag_in_dev_packet_rep:
  assumes "q_rep s d ps" and "d_mixbit (dev s d) \<noteq> 0" and "length ps < 31"
  shows "\<exists>s'. tag_in_dev_packet t d p s = (1, s') \<and> q_rep s' d (ps @ [p]) \<and> fifo_only d s s' \<and> outs s' = outs s"
proof -
  have "\<not> cfifo_full (d_fifo (dev s d))" using q_rep_full [OF assms(1)] assms(3) by simp
  with cfifo_put_rep [of 5 "d_fifo (dev s d)" "map Some ps" "Some p"] assms(1,2)
  show ?thesis by (simp add: tag_in_dev_packet_def dev_in_packet_def q_rep_def fifo_only_def)
qed

lemma drop_fronts_rep:
  assumes "q_rep s d ps" and "n \<le> length ps"
  shows "\<exists>s'. drop_fronts n d s = Some s' \<and> q_rep s' d (drop n ps) \<and> fifo_only d s s'
    \<and> outs s' = outs s @ map Freed (take n ps)"
  using assms
proof (induction n arbitrary: s ps)
  case 0
  then show ?case by (simp add: fifo_only_def)
next
  case (Suc n)
  then obtain p qs where ps: "ps = p # qs" by (cases ps) auto
  from Suc.prems(1) ps obtain s1 where s1: "dev_out_packet d s = (Some p, s1)" "q_rep s1 d qs"
    "fifo_only d s s1" "outs s1 = outs s" by (metis dev_out_packet_rep)
  define s2 where "s2 = pack_free p s1"
  have s2: "q_rep s2 d qs" "fifo_only d s s2" "outs s2 = outs s @ [Freed p]"
    using s1 by (simp_all add: s2_def pack_free_def q_rep_def fifo_only_def)
  have step: "drop_queue_front d s = Some s2" using s1(1) by (simp add: drop_queue_front_def s2_def)
  from Suc.IH [OF s2(1)] Suc.prems(2) ps obtain s3 where s3: "drop_fronts n d s2 = Some s3"
    "q_rep s3 d (drop n qs)" "fifo_only d s2 s3" "outs s3 = outs s2 @ map Freed (take n qs)" by auto
  show ?case using step s3 s2 ps fifo_only_trans [OF s2(2) s3(3)] by auto
qed

text \<open>Flushing keeps the newest packet alone.\<close>

lemma flush_queue_rep:
  assumes "q_rep s d ps"
  shows "\<exists>s'. flush_queue d s = Some s' \<and> q_rep s' d (drop (length ps - 1) ps) \<and> fifo_only d s s'
    \<and> outs s' = outs s @ map Freed (butlast ps)"
proof -
  have n: "nat (cfifo_len (d_fifo (dev s d)) - 1) = length ps - 1" using q_rep_len [OF assms] by simp
  obtain s1 where s1: "drop_fronts (length ps - 1) d s = Some s1" "q_rep s1 d (drop (length ps - 1) ps)"
    "fifo_only d s s1" "outs s1 = outs s @ map Freed (take (length ps - 1) ps)"
    using drop_fronts_rep [OF assms, of "length ps - 1"] by auto
  show ?thesis
    using s1 by (auto simp: flush_queue_def n q_rep_def fifo_only_def butlast_conv_take)
qed

text \<open>The devices in the slots of a tag, in slot order.\<close>

fun slot_devs :: "int option list \<Rightarrow> nat list \<Rightarrow> int list" where
  "slot_devs m [] = []"
| "slot_devs m (i # ns) = (case m ! i of None \<Rightarrow> slot_devs m ns | Some d \<Rightarrow> d # slot_devs m ns)"

definition mixed_devs :: "srv \<Rightarrow> int \<Rightarrow> int list" where
  "mixed_devs s t = slot_devs (t_mix_devs (tagm s t)) [0..<8]"

lemma slot_devs_set: "set (slot_devs m ns) = {d. \<exists>i \<in> set ns. m ! i = Some d}"
  by (induction ns) (auto split: option.splits)

lemma slot_devs_distinct:
  assumes "\<And>i j d. i \<in> set ns \<Longrightarrow> j \<in> set ns \<Longrightarrow> m ! i = Some d \<Longrightarrow> m ! j = Some d \<Longrightarrow> i = j"
    and "distinct ns"
  shows "distinct (slot_devs m ns)"
  using assms
proof (induction ns)
  case (Cons i ns)
  have "distinct (slot_devs m ns)" by (rule Cons.IH) (use Cons.prems in auto)
  moreover have "d \<notin> set (slot_devs m ns)" if "m ! i = Some d" for d
    using Cons.prems(1) [of i _ d] Cons.prems(2) that by (auto simp: slot_devs_set)
  ultimately show ?case by (auto split: option.splits)
qed simp

lemma mixed_devs_distinct: "mix_ok t s \<Longrightarrow> distinct (mixed_devs s t)"
  unfolding mixed_devs_def
  by (rule slot_devs_distinct) (auto dest: mix_ok_slots_distinct)

text \<open>A loop whose body leaves the slots alone is a fold over these devices.\<close>

lemma each_mix_dev_fold:
  assumes "\<And>d a b. f d a = Some b \<Longrightarrow> t_mix_devs (tagm (snd b) t) = t_mix_devs (tagm (snd a) t)"
  shows "each_mix_dev f t ns a = foldM f (slot_devs (t_mix_devs (tagm (snd a) t)) ns) a"
proof (induction ns arbitrary: a)
  case (Cons i ns)
  show ?case
    by (auto simp: Cons.IH assms split: option.splits)
qed simp

subsection \<open>The blending pass\<close>

definition pack_ok :: "packet \<Rightarrow> bool" where
  "pack_ok P \<longleftrightarrow> pk_datalen P \<le> 1700 \<and> pk_datalen P \<le> 2 * length (pk_data P)"

text \<open>What a packet sounds like: a compressed silence is zeros.\<close>

definition heard :: "packet \<Rightarrow> packet" where
  "heard P = (if pk_type P = PACKET_AUDIO_ZERO then silent_pack P else P)"

lemma heard_sel [simp]:
  "pk_datalen (heard P) = pk_datalen P" "pk_id (heard P) = pk_id P" "pk_seq (heard P) = pk_seq P"
  by (simp_all add: heard_def silent_pack_def)

lemma zero_bytes_length: "l \<le> 2 * length xs \<Longrightarrow> length (zero_bytes l xs) = length xs"
  by (auto simp: zero_bytes_def Let_def)

lemma zero_bytes_nth: "i < l div 2 \<Longrightarrow> l \<le> 2 * length xs \<Longrightarrow> zero_bytes l xs ! i = 0"
  by (auto simp: zero_bytes_def Let_def nth_append)

lemma heard_length: "pack_ok P \<Longrightarrow> length (pk_data (heard P)) = length (pk_data P)"
  by (simp add: heard_def silent_pack_def zero_bytes_length pack_ok_def)

lemma pick_dev_empty: "q_rep s d [] \<Longrightarrow> pick_dev t d (a, s) = Some (a, s)"
  by (simp add: pick_dev_def q_rep_empty)

lemma pick_dev_rep:
  assumes q: "q_rep s d (p # ps)" and ok: "pack_ok (pkts s p)"
  shows "\<exists>s'. pick_dev t d ((pp, ml), s) = Some ((pp @ [p], min ml (pk_datalen (pkts s p))), s')
    \<and> q_rep s' d ps \<and> (\<forall>e. e \<noteq> d \<longrightarrow> dev s' e = dev s e) \<and> tagm s' = tagm s
    \<and> pkts s' = (pkts s)(p := heard (pkts s p)) \<and> outs s' = outs s
    \<and> d_mixbit (dev s' d) = d_mixbit (dev s d) \<and> d_tag (dev s' d) = d_tag (dev s d)"
proof -
  define s0 where "s0 = upd_dev d (\<lambda>D. D\<lparr>d_timeouts := 0\<rparr>) s"
  have "q_rep s0 d (p # ps)" using q by (simp add: s0_def q_rep_def)
  then obtain s1 where s1: "dev_out_packet d s0 = (Some p, s1)" "q_rep s1 d ps" "fifo_only d s0 s1" "outs s1 = outs s0"
    by (rule dev_out_packet_rep)
  have pk: "pkts s1 = pkts s" using s1(3) by (simp add: fifo_only_def s0_def)
  have ne: "\<not> cfifo_empty (d_fifo (dev s d))" using q_rep_empty [OF q] by simp
  define s2 where "s2 = (if pk_type (pkts s p) = PACKET_AUDIO_ZERO then upd_pkt p silent_pack s1 else s1)"
  have "pick_dev t d ((pp, ml), s) = Some ((pp @ [p], min ml (pk_datalen (pkts s p))), s2)"
    using s1(1) ne ok by (simp add: pick_dev_def s0_def [symmetric] tag_out_dev_packet_def add_mix_pack_def
        pk s2_def pack_ok_def MAXPACK_def Let_def)
  moreover have "q_rep s2 d ps" using s1(2) by (simp add: s2_def q_rep_def)
  moreover have "dev s2 e = dev s e" if "e \<noteq> d" for e
    using s1(3) that by (simp add: s2_def fifo_only_def s0_def)
  moreover have "tagm s2 = tagm s" using s1(3) by (simp add: s2_def fifo_only_def s0_def)
  moreover have "pkts s2 = (pkts s)(p := heard (pkts s p))" by (simp add: s2_def pk heard_def)
  moreover have "outs s2 = outs s" using s1(4) by (simp add: s2_def s0_def)
  moreover have "d_mixbit (dev s2 d) = d_mixbit (dev s d) \<and> d_tag (dev s2 d) = d_tag (dev s d)"
    using s1(3) by (simp add: s2_def fifo_only_def s0_def)
  ultimately show ?thesis by blast
qed

lemma add_mix_pack_slots: "add_mix_pack p a = Some b \<Longrightarrow> tagm (snd b) = tagm (snd a)"
  by (cases a; cases "fst a") (auto simp: add_mix_pack_def pack_free_def Let_def split: if_splits)

lemma pick_dev_slots: "pick_dev t d a = Some b \<Longrightarrow> tagm (snd b) = tagm (snd a)"
  by (cases a) (auto simp: pick_dev_def tag_out_dev_packet_def dev_out_packet_def Let_def
      split: if_splits dest!: add_mix_pack_slots)

text \<open>The packets in front of the queues of the devices ds, in order.\<close>

fun fronts :: "(int \<Rightarrow> nat list) \<Rightarrow> int list \<Rightarrow> nat list" where
  "fronts q [] = []"
| "fronts q (d # ds) = (case q d of [] \<Rightarrow> fronts q ds | p # ps \<Rightarrow> p # fronts q ds)"

lemma fronts_cong: "(\<And>d. d \<in> set ds \<Longrightarrow> q d = r d) \<Longrightarrow> fronts q ds = fronts r ds"
  by (induction ds) (auto split: list.splits)

lemma fronts_length: "length (fronts q ds) \<le> length ds"
  by (induction ds) (auto split: list.splits)

definition shortest :: "srv \<Rightarrow> nat list \<Rightarrow> nat \<Rightarrow> nat" where
  "shortest s ps ml = foldl (\<lambda>m p. min m (pk_datalen (pkts s p))) ml ps"

lemma shortest_le: "shortest s ps ml \<le> ml \<and> (\<forall>p \<in> set ps. shortest s ps ml \<le> pk_datalen (pkts s p))"
proof (induction ps arbitrary: ml)
  case (Cons p ps)
  have step: "shortest s (p # ps) ml = shortest s ps (min ml (pk_datalen (pkts s p)))"
    by (simp add: shortest_def)
  show ?case using Cons.IH [of "min ml (pk_datalen (pkts s p))"] unfolding step by auto
qed (simp add: shortest_def)

lemma shortest_cong:
  "(\<And>p. p \<in> set ps \<Longrightarrow> pk_datalen (pkts s p) = pk_datalen (pkts s' p)) \<Longrightarrow> shortest s ps ml = shortest s' ps ml"
  unfolding shortest_def by (induction ps arbitrary: ml) auto

definition picked_pkts :: "srv \<Rightarrow> nat list \<Rightarrow> nat \<Rightarrow> packet" where
  "picked_pkts s ps = (\<lambda>p. if p \<in> set ps then heard (pkts s p) else pkts s p)"

lemma pick_loop:
  assumes "distinct ds" and "\<And>d. d \<in> set ds \<Longrightarrow> q_rep s d (q d)"
    and "distinct (fronts q ds)" and "\<And>p. p \<in> set (fronts q ds) \<Longrightarrow> pack_ok (pkts s p)"
  shows "\<exists>s'. foldM (pick_dev t) ds ((pp, ml), s)
      = Some ((pp @ fronts q ds, shortest s (fronts q ds) ml), s')
    \<and> (\<forall>d \<in> set ds. q_rep s' d (tl (q d))) \<and> (\<forall>e. e \<notin> set ds \<longrightarrow> dev s' e = dev s e)
    \<and> tagm s' = tagm s \<and> pkts s' = picked_pkts s (fronts q ds) \<and> outs s' = outs s"
  using assms
proof (induction ds arbitrary: pp ml s)
  case Nil
  then show ?case by (simp add: shortest_def picked_pkts_def)
next
  case (Cons d ds)
  have d: "d \<notin> set ds" "distinct ds" using Cons.prems(1) by auto
  have qd: "q_rep s d (q d)" using Cons.prems(2) by simp
  show ?case
  proof (cases "q d")
    case Nil
    with Cons.IH [of s pp ml] Cons.prems pick_dev_empty [of s d t "(pp, ml)"] qd d obtain s' where s':
      "foldM (pick_dev t) ds ((pp, ml), s) = Some ((pp @ fronts q ds, shortest s (fronts q ds) ml), s')"
      "\<forall>d \<in> set ds. q_rep s' d (tl (q d))" "\<forall>e. e \<notin> set ds \<longrightarrow> dev s' e = dev s e" "tagm s' = tagm s"
      "pkts s' = picked_pkts s (fronts q ds)" "outs s' = outs s" by auto
    have "q_rep s' d (tl (q d))" using qd Nil s'(3) d(1) by (simp add: q_rep_def)
    then show ?thesis using s' Nil pick_dev_empty [of s d t "(pp, ml)"] qd by auto
  next
    case (Cons p ps)
    have fr: "fronts q (d # ds) = p # fronts q ds" using Cons by simp
    have p: "p \<notin> set (fronts q ds)" "distinct (fronts q ds)" using Cons.prems(3) fr by auto
    obtain s1 where s1: "pick_dev t d ((pp, ml), s) = Some ((pp @ [p], min ml (pk_datalen (pkts s p))), s1)"
      "q_rep s1 d ps" "\<forall>e. e \<noteq> d \<longrightarrow> dev s1 e = dev s e" "tagm s1 = tagm s"
      "pkts s1 = (pkts s)(p := heard (pkts s p))" "outs s1 = outs s"
      using pick_dev_rep [of s d p ps t pp ml] qd Cons Cons.prems(4) [of p] by auto
    have q1: "q_rep s1 e (q e)" if "e \<in> set ds" for e
    proof -
      have "e \<noteq> d" using that d(1) by auto
      then show ?thesis using Cons.prems(2) [of e] that s1(3) by (simp add: q_rep_def)
    qed
    have ok1: "pack_ok (pkts s1 r)" if "r \<in> set (fronts q ds)" for r
      using Cons.prems(4) [of r] that p(1) s1(5) fr by auto
    obtain s' where s':
      "foldM (pick_dev t) ds ((pp @ [p], min ml (pk_datalen (pkts s p))), s1)
        = Some (((pp @ [p]) @ fronts q ds, shortest s1 (fronts q ds) (min ml (pk_datalen (pkts s p)))), s')"
      "\<forall>d \<in> set ds. q_rep s' d (tl (q d))" "\<forall>e. e \<notin> set ds \<longrightarrow> dev s' e = dev s1 e" "tagm s' = tagm s1"
      "pkts s' = picked_pkts s1 (fronts q ds)" "outs s' = outs s1"
      using Cons.IH [OF d(2) q1 p(2) ok1, of "pp @ [p]" "min ml (pk_datalen (pkts s p))"] by blast
    have "shortest s1 (fronts q ds) m = shortest s (fronts q ds) m" for m
      by (rule shortest_cong) (use p(1) s1(5) in auto)
    then have sh: "shortest s1 (fronts q ds) (min ml (pk_datalen (pkts s p))) = shortest s (fronts q (d # ds)) ml"
      unfolding fr by (simp add: shortest_def)
    have "pkts s' = picked_pkts s (fronts q (d # ds))"
      unfolding s'(5) fr using p(1) s1(5) by (auto simp: picked_pkts_def fun_eq_iff)
    moreover have "q_rep s' d (tl (q d))" using s'(3) d(1) s1(2) Cons by (simp add: q_rep_def)
    ultimately show ?thesis using s1 s' sh fr by auto
  qed
qed

subsection \<open>Mixing what is there\<close>

lemma free_packs_eq: "free_packs ps s = s\<lparr>outs := outs s @ map Freed ps\<rparr>"
  unfolding free_packs_def by (induction ps arbitrary: s) (simp_all add: pack_free_def emit_def)

definition nonempty_all :: "srv \<Rightarrow> int \<Rightarrow> (int \<Rightarrow> nat list) \<Rightarrow> bool" where
  "nonempty_all s t q \<longleftrightarrow> list_all (\<lambda>d. q d \<noteq> []) (mixed_devs s t)"

lemma all_queues_bell_iff:
  "all_queues_bell t s \<longleftrightarrow> (\<forall>d \<in> set (mixed_devs s t). queue_bell d s)"
  unfolding all_queues_bell_def mixed_devs_def slot_devs_set
  by (auto simp: list_all_iff split: option.splits)

lemma wait_queues_ready:
  assumes ok: "mix_ok t s" and some: "mixed_devs s t \<noteq> []"
    and bell: "\<forall>d \<in> set (mixed_devs s t). queue_bell d s"
  shows "\<exists>s'. wait_queues cfg env t s = Some (1, s')
    \<and> (\<forall>d. d_fifo (dev s' d) = d_fifo (dev s d)) \<and> tagm s' = tagm s \<and> pkts s' = pkts s \<and> outs s' = outs s
    \<and> (\<forall>d. d_mixbit (dev s' d) = d_mixbit (dev s d) \<and> d_tag (dev s' d) = d_tag (dev s d))"
proof (cases "opt_sync_policy cfg")
  case SYNC_WAIT
  then show ?thesis
    using bell by (simp add: wait_queues_def wait_all_queues_def wait_all_from.simps [of env t 0] all_queues_bell_iff)
next
  case SYNC_FIXED
  then show ?thesis
    using bell by (simp add: wait_queues_def wait_any_queue_def wait_any_from.simps [of env t 0] all_queues_bell_iff)
next
  case SYNC_REF
  obtain e where e: "e \<in> set (mixed_devs s t)" using some by (cases "mixed_devs s t") auto
  then obtain i where i: "i < 8" "t_mix_devs (tagm s t) ! i = Some e" by (auto simp: mixed_devs_def slot_devs_set)
  then have "used (t_mix_devs (tagm s t)) > 0" using ok by (auto simp: used_pos mix_ok_def Let_def)
  then obtain d where d: "t_mix_devs (tagm s t) ! t_mix_ref (tagm s t) = Some d" "t_mix_ref (tagm s t) < 8"
    using ok by (auto simp: mix_ok_def Let_def)
  then have "d \<in> set (mixed_devs s t)" by (auto simp: mixed_devs_def slot_devs_set intro!: bexI)
  then have "queue_bell d s" using bell by blast
  then show ?thesis
    using SYNC_REF d(1) by (simp add: wait_queues_def wait_ref_queue_def wait_ref_from.simps)
qed

lemma mixed_devs_cong: "tagm s' = tagm s \<Longrightarrow> mixed_devs s' t = mixed_devs s t"
  by (simp add: mixed_devs_def)

lemma slot_devs_length: "length (slot_devs m ns) \<le> length ns"
  by (induction ns) (auto split: option.splits)

lemma mixed_devs_length: "length (mixed_devs s t) \<le> 8"
  using slot_devs_length [of _ "[0..<8]"] by (simp add: mixed_devs_def)

lemma each_mix_dev_pick:
  "each_mix_dev (pick_dev t) t [0..<8] (a, s) = foldM (pick_dev t) (mixed_devs s t) (a, s)"
  unfolding mixed_devs_def using each_mix_dev_fold [of "pick_dev t" t "[0..<8]" "(a, s)"] pick_dev_slots by simp

text \<open>Flushing before the mix: a queue of more than six packets, or of more than one for 180
  mixes, keeps its newest packet alone.\<close>

definition loaded :: "srv \<Rightarrow> int \<Rightarrow> nat list \<Rightarrow> bool" where
  "loaded s d ps \<longleftrightarrow> 6 < length ps \<or> 1 < length ps \<and> 180 \<le> d_highload (dev s d)"

definition flushing :: "opts \<Rightarrow> int \<Rightarrow> srv \<Rightarrow> bool" where
  "flushing cfg t s \<longleftrightarrow> opt_flush cfg \<and> t_mix_count (tagm s t) \<noteq> 1"

text \<open>What is left of the queues q, and what is thrown away of them.\<close>

definition kept :: "opts \<Rightarrow> int \<Rightarrow> srv \<Rightarrow> (int \<Rightarrow> nat list) \<Rightarrow> int \<Rightarrow> nat list" where
  "kept cfg t s q d = (if flushing cfg t s \<and> loaded s d (q d) then [last (q d)] else q d)"

definition thrown :: "opts \<Rightarrow> int \<Rightarrow> srv \<Rightarrow> (int \<Rightarrow> nat list) \<Rightarrow> int \<Rightarrow> nat list" where
  "thrown cfg t s q d = (if flushing cfg t s \<and> loaded s d (q d) then butlast (q d) else [])"

lemma drop_fronts_slots: "drop_fronts n d s = Some s' \<Longrightarrow> tagm s' = tagm s"
proof (induction n arbitrary: s)
  case (Suc n)
  then obtain s1 where s1: "drop_queue_front d s = Some s1" "drop_fronts n d s1 = Some s'"
    by (auto split: bind_splits)
  have "tagm s1 = tagm s"
    using s1(1) by (auto simp: drop_queue_front_def dev_out_packet_def pack_free_def Let_def split: bind_splits)
  then show ?case using Suc.IH [OF s1(2)] by simp
qed simp

lemma flush_dev_slots: "flush_dev d a = Some b \<Longrightarrow> tagm (snd b) = tagm (snd a)"
  by (cases a) (auto simp: flush_dev_def flush_queue_def Let_def split: if_splits bind_splits
      dest!: drop_fronts_slots)

lemma flush_dev_rep:
  assumes q: "q_rep s d ps"
  shows "\<exists>c' s'. flush_dev d (c, s) = Some (c', s') \<and> q_rep s' d (if loaded s d ps then [last ps] else ps)
    \<and> fifo_only d s s' \<and> outs s' = outs s @ map Freed (if loaded s d ps then butlast ps else [])"
proof -
  define s1 where "s1 = upd_dev d (\<lambda>D. D\<lparr>d_highload := d_highload D + 1\<rparr>) s"
  have 1: "q_rep s1 d ps" "fifo_only d s s1" "outs s1 = outs s"
    using q by (simp_all add: s1_def q_rep_def fifo_only_def)
  have newest: "drop (length ps - 1) ps = [last ps]" if "1 < length ps"
    using that by (cases ps rule: rev_cases) auto
  note len = q_rep_len [OF q]
  consider "6 < length ps" | "1 < length ps" "length ps \<le> 6" "180 \<le> d_highload (dev s d)"
    | "1 < length ps" "length ps \<le> 6" "d_highload (dev s d) < 180" | "length ps \<le> 1" by linarith
  then show ?thesis
  proof cases
    case 1
    then show ?thesis using flush_queue_rep [OF q] newest len by (auto simp: flush_dev_def loaded_def)
  next
    case 2
    from flush_queue_rep [OF \<open>q_rep s1 d ps\<close>] obtain s2 where s2: "flush_queue d s1 = Some s2"
      "q_rep s2 d (drop (length ps - 1) ps)" "fifo_only d s1 s2" "outs s2 = outs s1 @ map Freed (butlast ps)" by blast
    show ?thesis using 2 s2 newest 1(3) len fifo_only_trans [OF 1(2) s2(3)]
      by (auto simp: flush_dev_def loaded_def s1_def [symmetric] Let_def) (auto simp: s1_def)
  next
    case 3
    then show ?thesis using 1 len
      by (auto simp: flush_dev_def loaded_def s1_def [symmetric] Let_def) (auto simp: s1_def)
  next
    case 4
    then show ?thesis using q len by (auto simp: flush_dev_def loaded_def q_rep_def fifo_only_def)
  qed
qed

lemma flush_loop:
  assumes "distinct ds" and "\<And>d. d \<in> set ds \<Longrightarrow> q_rep s d (q d)"
  shows "\<exists>c' s'. foldM flush_dev ds (c, s) = Some (c', s')
    \<and> (\<forall>d \<in> set ds. q_rep s' d (if loaded s d (q d) then [last (q d)] else q d))
    \<and> (\<forall>e. e \<notin> set ds \<longrightarrow> dev s' e = dev s e) \<and> tagm s' = tagm s \<and> pkts s' = pkts s
    \<and> (\<forall>e. d_mixbit (dev s' e) = d_mixbit (dev s e) \<and> d_tag (dev s' e) = d_tag (dev s e))
    \<and> outs s' = outs s @ map Freed (concat (map (\<lambda>d. if loaded s d (q d) then butlast (q d) else []) ds))"
  using assms
proof (induction ds arbitrary: c s)
  case (Cons d ds)
  have "q_rep s d (q d)" using Cons.prems(2) by simp
  from flush_dev_rep [OF this, of c] obtain c1 s1 where s1: "flush_dev d (c, s) = Some (c1, s1)"
    "q_rep s1 d (if loaded s d (q d) then [last (q d)] else q d)" "fifo_only d s s1"
    "outs s1 = outs s @ map Freed (if loaded s d (q d) then butlast (q d) else [])" by blast
  have d: "d \<notin> set ds" "distinct ds" using Cons.prems(1) by auto
  have other: "dev s1 e = dev s e" if "e \<in> set ds" for e
    using that s1(3) d(1) by (metis fifo_only_def)
  have "q_rep s1 e (q e)" if "e \<in> set ds" for e
    using Cons.prems(2) [of e] that other by (simp add: q_rep_def)
  from Cons.IH [OF d(2) this, of c1] obtain c2 s2 where s2: "foldM flush_dev ds (c1, s1) = Some (c2, s2)"
    "\<forall>e \<in> set ds. q_rep s2 e (if loaded s1 e (q e) then [last (q e)] else q e)"
    "\<forall>e. e \<notin> set ds \<longrightarrow> dev s2 e = dev s1 e" "tagm s2 = tagm s1" "pkts s2 = pkts s1"
    "\<forall>e. d_mixbit (dev s2 e) = d_mixbit (dev s1 e) \<and> d_tag (dev s2 e) = d_tag (dev s1 e)"
    "outs s2 = outs s1 @ map Freed (concat (map (\<lambda>d. if loaded s1 d (q d) then butlast (q d) else []) ds))"
    by blast
  have ld: "loaded s1 e x = loaded s e x" if "e \<in> set ds" for e x using other [OF that] by (simp add: loaded_def)
  have cc: "map (\<lambda>d. if loaded s1 d (q d) then butlast (q d) else []) ds
      = map (\<lambda>d. if loaded s d (q d) then butlast (q d) else []) ds"
    using ld by simp
  have qd: "q_rep s2 d (if loaded s d (q d) then [last (q d)] else q d)"
    using s1(2) s2(3) d(1) by (simp add: q_rep_def)
  have fr: "d_mixbit (dev s1 e) = d_mixbit (dev s e) \<and> d_tag (dev s1 e) = d_tag (dev s e)" for e
    using s1(3) by (cases "e = d") (auto simp: fifo_only_def)
  have "foldM flush_dev (d # ds) (c, s) = Some (c2, s2)" using s1(1) s2(1) by simp
  moreover have "\<forall>e \<in> set (d # ds). q_rep s2 e (if loaded s e (q e) then [last (q e)] else q e)"
    using qd s2(2) ld by simp
  moreover have "\<forall>e. e \<notin> set (d # ds) \<longrightarrow> dev s2 e = dev s e" using s2(3) s1(3) by (simp add: fifo_only_def)
  moreover have "tagm s2 = tagm s" "pkts s2 = pkts s" using s1(3) s2(4,5) by (simp_all add: fifo_only_def)
  moreover have "\<forall>e. d_mixbit (dev s2 e) = d_mixbit (dev s e) \<and> d_tag (dev s2 e) = d_tag (dev s e)"
    using s2(6) fr by simp
  moreover have "outs s2 = outs s @ map Freed (concat (map (\<lambda>d. if loaded s d (q d) then butlast (q d) else []) (d # ds)))"
    unfolding s2(7) s1(4) cc by simp
  ultimately show ?case by blast
qed simp

lemma each_mix_dev_flush:
  "each_mix_dev flush_dev t [0..<8] (c, s) = foldM flush_dev (mixed_devs s t) (c, s)"
  unfolding mixed_devs_def using each_mix_dev_fold [of flush_dev t "[0..<8]" "(c, s)"] flush_dev_slots by simp

lemma flush_first_rep:
  assumes ok: "mix_ok t s" and q: "\<And>d. d \<in> set (mixed_devs s t) \<Longrightarrow> q_rep s d (q d)"
  shows "\<exists>s'. (if t_mix_count (tagm s t) \<noteq> 1 \<and> opt_flush cfg
      then map_option snd (flush_queues t s) else Some s) = Some s'
    \<and> (\<forall>d \<in> set (mixed_devs s t). q_rep s' d (kept cfg t s q d)) \<and> mix_ok t s'
    \<and> tagm s' = tagm s \<and> pkts s' = pkts s
    \<and> outs s' = outs s @ map Freed (concat (map (thrown cfg t s q) (mixed_devs s t)))"
proof (cases "flushing cfg t s")
  case True
  from flush_loop [OF mixed_devs_distinct [OF ok] q, of 0] obtain c s' where s':
    "foldM flush_dev (mixed_devs s t) (0, s) = Some (c, s')"
    "\<forall>d \<in> set (mixed_devs s t). q_rep s' d (if loaded s d (q d) then [last (q d)] else q d)"
    "tagm s' = tagm s" "pkts s' = pkts s"
    "\<forall>e. d_mixbit (dev s' e) = d_mixbit (dev s e) \<and> d_tag (dev s' e) = d_tag (dev s e)"
    "outs s' = outs s @ map Freed (concat (map (\<lambda>d. if loaded s d (q d) then butlast (q d) else []) (mixed_devs s t)))"
    by blast
  have "mix_ok t s'" using ok s'(3,5) by (simp add: mix_ok_def Let_def)
  then show ?thesis
    using True s' by (simp add: flush_queues_def each_mix_dev_flush flushing_def kept_def thrown_def [abs_def])
next
  case False
  then show ?thesis using assms by (auto simp: kept_def thrown_def [abs_def] flushing_def)
qed

text \<open>The packets picked are blended into the first, which a long silence drops with -s.\<close>

definition hushed :: "opts \<Rightarrow> int \<Rightarrow> srv \<Rightarrow> int \<Rightarrow> sample list \<Rightarrow> bool" where
  "hushed cfg t s n xs \<longleftrightarrow> opt_silence_drop cfg \<and> energy xs \<le> 51200 * n \<and> 50 \<le> t_mix_silence (tagm s t)"

lemma mix_picked_rep:
  assumes len: "\<And>r. r \<in> set (p # ps) \<Longrightarrow> ml div 2 \<le> length (pk_data (pkts s r))" and n: "length (p # ps) \<le> 8"
  shows "\<exists>r s'. mix_picked cfg t (p # ps) ml s = Some (r, s')
    \<and> r = (if hushed cfg t s (int (length (p # ps))) (take (ml div 2) (pk_data (pkts s' p))) then None else Some p)
    \<and> (\<forall>d. d_fifo (dev s' d) = d_fifo (dev s d))
    \<and> outs s' = outs s @ map Freed (ps @ (if r = None then [p] else []))
    \<and> length (pk_data (pkts s' p)) = length (pk_data (pkts s p))
    \<and> (\<forall>i < length (pk_data (pkts s p)). pk_data (pkts s' p) ! i =
        (if ps \<noteq> [] \<and> i < ml div 2
         then word_of_int (saturate (sample_sum (map (\<lambda>r. pk_data (pkts s r)) (p # ps)) i))
         else pk_data (pkts s p) ! i))"
proof -
  obtain s1 where s1: "blend (p # ps) ml s = Some s1" "\<forall>d. d_fifo (dev s1 d) = d_fifo (dev s d)"
    "outs s1 = outs s @ map Freed ps" "tagm s1 = tagm s"
    "length (pk_data (pkts s1 p)) = length (pk_data (pkts s p))"
    "\<forall>i < length (pk_data (pkts s p)). pk_data (pkts s1 p) ! i =
        (if ps \<noteq> [] \<and> i < ml div 2
         then word_of_int (saturate (sample_sum (map (\<lambda>r. pk_data (pkts s r)) (p # ps)) i))
         else pk_data (pkts s p) ! i)"
  proof (cases "ps = []")
    case True
    then show ?thesis using that [of s] by (simp add: blend_def)
  next
    case False
    obtain xs where xs: "pcm_mix (map (\<lambda>r. pk_data (pkts s r)) (p # ps)) (ml div 2) = Some xs"
      "length xs = length (pk_data (pkts s p))"
      "\<forall>j < length (pk_data (pkts s p)). xs ! j = (if j < ml div 2 then word_of_int (saturate
          (sample_sum (map (\<lambda>r. pk_data (pkts s r)) (p # ps)) j)) else pk_data (pkts s p) ! j)"
      using pcm_mix_ok [of "map (\<lambda>r. pk_data (pkts s r)) (p # ps)" "pk_data (pkts s p)"
          "map (\<lambda>r. pk_data (pkts s r)) ps" "ml div 2"] len n by auto
    show ?thesis
      by (rule that [of "free_packs ps (upd_pkt p (\<lambda>P. P\<lparr>pk_data := xs\<rparr>) s)"])
        (use xs False in \<open>simp_all add: blend_def free_packs_eq del: list.map\<close>)
  qed
  have "ml div 2 \<le> length (pk_data (pkts s1 p))" using len s1(5) by simp
  note sil = pcm_silent_ok [OF this, of "51200 * int (length (p # ps))"]
  show ?thesis
  proof (cases "hushed cfg t s (int (length (p # ps))) (take (ml div 2) (pk_data (pkts s1 p)))")
    case True
    then have "mix_picked cfg t (p # ps) ml s
        = Some (None, pack_free p (upd_tag t (\<lambda>T. T\<lparr>t_mix_silence := t_mix_silence T + 1\<rparr>) s1))"
      using s1(1,4) sil by (simp add: mix_picked_def drop_if_silent_def hushed_def)
    then show ?thesis using True s1 by (simp add: pack_free_def emit_def)
  next
    case False
    let ?up = "\<lambda>f. upd_tag t (\<lambda>T. T\<lparr>t_mix_silence := f T\<rparr>) s1"
    have "mix_picked cfg t (p # ps) ml s = Some (Some p, ?up (\<lambda>T. t_mix_silence T + 1))
        \<or> mix_picked cfg t (p # ps) ml s = Some (Some p, ?up (\<lambda>T. 0))
        \<or> mix_picked cfg t (p # ps) ml s = Some (Some p, s1)"
      using False s1(1,4) sil by (simp add: mix_picked_def drop_if_silent_def hushed_def Let_def)
    then show ?thesis using False s1 by (elim disjE) simp_all
  qed
qed

text \<open>With every queue filled, the mixed packet is the sum of the packets in front, saturated.\<close>

lemma mix_filled:
  assumes ok: "mix_ok t s" and q: "\<And>d. d \<in> set (mixed_devs s t) \<Longrightarrow> q_rep s d (q d) \<and> q d \<noteq> []"
    and fs: "fronts (kept cfg t s q) (mixed_devs s t) = p # ps" "distinct (p # ps)"
      "\<And>r. r \<in> set (p # ps) \<Longrightarrow> pack_ok (pkts s r)"
  shows "\<exists>r s'. tag_mix_audio cfg env t s = Some (r, s')
    \<and> r = (if hushed cfg t s (int (length (p # ps)))
          (take (shortest s (p # ps) (2 ^ 18) div 2) (pk_data (pkts s' p))) then None else Some p)
    \<and> (\<forall>d \<in> set (mixed_devs s t). q_rep s' d (tl (kept cfg t s q d)))
    \<and> outs s' = outs s @ map Freed (concat (map (thrown cfg t s q) (mixed_devs s t))
        @ ps @ (if r = None then [p] else []))
    \<and> length (pk_data (pkts s' p)) = length (pk_data (pkts s p))
    \<and> (\<forall>i < length (pk_data (pkts s p)). pk_data (pkts s' p) ! i =
        (if ps \<noteq> [] \<and> i < shortest s (p # ps) (2 ^ 18) div 2
         then word_of_int (saturate (sample_sum (map (\<lambda>r. pk_data (heard (pkts s r))) (p # ps)) i))
         else pk_data (heard (pkts s p)) ! i))"
proof -
  let ?ds = "mixed_devs s t" and ?q = "kept cfg t s q" and ?ml = "shortest s (p # ps) (2 ^ 18)"
  have ne: "?ds \<noteq> []" using fs(1) by auto
  obtain s0 where s0: "(if t_mix_count (tagm s t) \<noteq> 1 \<and> opt_flush cfg
      then map_option snd (flush_queues t s) else Some s) = Some s0"
    "\<forall>d \<in> set ?ds. q_rep s0 d (?q d)" "mix_ok t s0" "tagm s0 = tagm s" "pkts s0 = pkts s"
    "outs s0 = outs s @ map Freed (concat (map (thrown cfg t s q) ?ds))"
    using flush_first_rep [OF ok, of q cfg] q by blast
  have ds0: "mixed_devs s0 t = ?ds" using s0(4) by (rule mixed_devs_cong)
  have "?q d \<noteq> []" if "d \<in> set ?ds" for d using q [OF that] by (simp add: kept_def)
  then have "\<forall>d \<in> set (mixed_devs s0 t). queue_bell d s0" using s0(2) q_rep_empty ds0 by (fastforce simp: queue_bell_def)
  from wait_queues_ready [OF s0(3) _ this, of cfg env] ne ds0 obtain s1 where s1: "wait_queues cfg env t s0 = Some (1, s1)"
    "\<forall>d. d_fifo (dev s1 d) = d_fifo (dev s0 d)" "tagm s1 = tagm s0" "pkts s1 = pkts s0" "outs s1 = outs s0" by auto
  have q1: "q_rep s1 d (?q d)" if "d \<in> set ?ds" for d using s0(2) that s1(2) by (simp add: q_rep_def)
  obtain s2 where s2: "foldM (pick_dev t) ?ds (([], 2 ^ 18), s1) = Some ((p # ps, shortest s1 (p # ps) (2 ^ 18)), s2)"
    "\<forall>d \<in> set ?ds. q_rep s2 d (tl (?q d))" "tagm s2 = tagm s1" "pkts s2 = picked_pkts s1 (p # ps)" "outs s2 = outs s1"
    using pick_loop [OF mixed_devs_distinct [OF ok] q1, where t = t and pp = "[]" and ml = "2 ^ 18"] fs s1(4) s0(5) by auto
  have sh: "shortest s1 (p # ps) (2 ^ 18) = ?ml" by (rule shortest_cong) (simp add: s1(4) s0(5))
  have ds1: "mixed_devs s1 t = ?ds" using mixed_devs_cong [of s1 s] s1(3) s0(4) by simp
  have run: "tag_mix_audio cfg env t s = mix_picked cfg t (p # ps) ?ml s2"
    unfolding tag_mix_audio_def s0(1) using s1(1) s2(1) sh by (simp add: each_mix_dev_pick ds1)
  have data: "pk_data (pkts s2 r) = pk_data (heard (pkts s r))" if "r \<in> set (p # ps)" for r
    using s2(4) s1(4) s0(5) that by (simp add: picked_pkts_def)
  have sel: "map (\<lambda>r. pk_data (pkts s2 r)) (p # ps) = map (\<lambda>r. pk_data (heard (pkts s r))) (p # ps)"
    using data by simp
  have hl: "length (pk_data (heard (pkts s r))) = length (pk_data (pkts s r))" if "r \<in> set (p # ps)" for r
    using fs(3) [OF that] by (rule heard_length)
  have len: "?ml div 2 \<le> length (pk_data (pkts s2 r))" if "r \<in> set (p # ps)" for r
  proof -
    have "?ml \<le> pk_datalen (pkts s r)" using shortest_le [of s "p # ps"] that by blast
    then show ?thesis using fs(3) [OF that] data [OF that] hl [OF that] by (fastforce simp: pack_ok_def)
  qed
  have "length (p # ps) \<le> 8" using fronts_length [of ?q ?ds] mixed_devs_length [of s t] fs(1) by simp
  from mix_picked_rep [OF len this, of cfg t] obtain r s' where s': "mix_picked cfg t (p # ps) ?ml s2 = Some (r, s')"
    "r = (if hushed cfg t s2 (int (length (p # ps))) (take (?ml div 2) (pk_data (pkts s' p))) then None else Some p)"
    "\<forall>d. d_fifo (dev s' d) = d_fifo (dev s2 d)"
    "outs s' = outs s2 @ map Freed (ps @ (if r = None then [p] else []))"
    "length (pk_data (pkts s' p)) = length (pk_data (pkts s2 p))"
    "\<forall>i < length (pk_data (pkts s2 p)). pk_data (pkts s' p) ! i =
        (if ps \<noteq> [] \<and> i < ?ml div 2
         then word_of_int (saturate (sample_sum (map (\<lambda>r. pk_data (pkts s2 r)) (p # ps)) i))
         else pk_data (pkts s2 p) ! i)" by blast
  have hs: "hushed cfg t s2 = hushed cfg t s"
    using s2(3) s1(3) s0(4) by (simp add: hushed_def fun_eq_iff)
  have "\<forall>d \<in> set ?ds. q_rep s' d (tl (?q d))" using s2(2) s'(3) by (simp add: q_rep_def)
  moreover have "outs s' = outs s @ map Freed (concat (map (thrown cfg t s q) ?ds) @ ps @ (if r = None then [p] else []))"
    unfolding s'(4) s2(5) s1(5) s0(6) by simp
  ultimately show ?thesis
    using s'(1,2,5,6) unfolding run hs sel using data [of p] hl [of p] by auto
qed

subsection \<open>Mixing ends\<close>

text \<open>Every queue is a fifo of packets that fit their buffers.\<close>

definition queues_ok :: "srv \<Rightarrow> bool" where
  "queues_ok s \<longleftrightarrow> (\<forall>d. \<exists>ps. q_rep s d ps \<and> (\<forall>p \<in> set ps. pack_ok (pkts s p)))"

definition audio_ok :: "int \<Rightarrow> srv \<Rightarrow> bool" where
  "audio_ok t s \<longleftrightarrow> mix_ok t s \<and> queues_ok s"

text \<open>The tag and mix bit of every device and the slots are the same.\<close>

definition same_slots :: "int \<Rightarrow> srv \<Rightarrow> srv \<Rightarrow> bool" where
  "same_slots t s s' \<longleftrightarrow> t_mix_devs (tagm s' t) = t_mix_devs (tagm s t)
     \<and> t_mix_ref (tagm s' t) = t_mix_ref (tagm s t) \<and> t_mix_count (tagm s' t) = t_mix_count (tagm s t)
     \<and> (\<forall>e. d_mixbit (dev s' e) = d_mixbit (dev s e) \<and> d_tag (dev s' e) = d_tag (dev s e))"

lemma same_slots_refl [simp]: "same_slots t s s"
  by (simp add: same_slots_def)

lemma same_slots_trans: "same_slots t s u \<Longrightarrow> same_slots t u v \<Longrightarrow> same_slots t s v"
  by (simp add: same_slots_def)

lemma same_slots_mix_ok: "same_slots t s s' \<Longrightarrow> mix_ok t s \<Longrightarrow> mix_ok t s'"
  by (simp add: same_slots_def mix_ok_def Let_def)

lemma fifo_only_same_slots:
  assumes "fifo_only d s s'"
  shows "same_slots t s s'"
proof -
  have "d_mixbit (dev s' e) = d_mixbit (dev s e) \<and> d_tag (dev s' e) = d_tag (dev s e)" for e
    using assms by (cases "e = d") (auto simp: fifo_only_def)
  then show ?thesis using assms by (simp add: same_slots_def fifo_only_def)
qed

lemma queues_ok_cong:
  "queues_ok s \<Longrightarrow> (\<And>e. d_fifo (dev s' e) = d_fifo (dev s e)) \<Longrightarrow> pkts s' = pkts s \<Longrightarrow> queues_ok s'"
  by (simp add: queues_ok_def q_rep_def)

lemma queues_ok_fifo_only:
  assumes "queues_ok s" and "fifo_only d s s'" and "q_rep s' d ps" and "\<forall>p \<in> set ps. pack_ok (pkts s p)"
  shows "queues_ok s'"
  unfolding queues_ok_def
proof
  fix e
  show "\<exists>ps. q_rep s' e ps \<and> (\<forall>p \<in> set ps. pack_ok (pkts s' p))"
  proof (cases "e = d")
    case True
    then show ?thesis using assms by (auto simp: fifo_only_def)
  next
    case False
    then show ?thesis using assms(1,2) unfolding queues_ok_def fifo_only_def q_rep_def by metis
  qed
qed

lemma flush_queue_ok:
  assumes "queues_ok s"
  shows "\<exists>s'. flush_queue d s = Some s' \<and> queues_ok s' \<and> same_slots t s s'"
proof -
  obtain ps where ps: "q_rep s d ps" "\<forall>p \<in> set ps. pack_ok (pkts s p)" using assms by (auto simp: queues_ok_def)
  from flush_queue_rep [OF ps(1)] obtain s' where s': "flush_queue d s = Some s'"
    "q_rep s' d (drop (length ps - 1) ps)" "fifo_only d s s'" by blast
  have "queues_ok s'"
    by (rule queues_ok_fifo_only [OF assms s'(3,2)]) (use ps(2) in_set_dropD in fast)
  then show ?thesis using s'(1,3) fifo_only_same_slots by blast
qed

text \<open>A walk over the slots whose body keeps an invariant and does not fault.\<close>

lemma each_mix_dev_defined:
  assumes "I a" and "\<And>d b. I b \<Longrightarrow> \<exists>c. f d b = Some c \<and> I c"
  shows "\<exists>c. each_mix_dev f t ns a = Some c \<and> I c"
  using assms(1)
proof (induction ns arbitrary: a)
  case (Cons i ns)
  show ?case
  proof (cases "t_mix_devs (tagm (snd a) t) ! i")
    case None
    then show ?thesis using Cons by simp
  next
    case (Some d)
    from assms(2) [OF Cons.prems, of d] obtain b where "f d a = Some b" "I b" by blast
    then show ?thesis using Cons.IH [of b] Some by simp
  qed
qed simp

lemma flush_all_queues_ok:
  assumes "queues_ok s"
  shows "\<exists>s'. flush_all_queues t s = Some s' \<and> queues_ok s' \<and> same_slots t s s'"
proof -
  have "\<exists>c. each_mix_dev (\<lambda>d (u, s). do { s1 \<leftarrow> flush_queue d s; Some (u, s1) }) t [0..<8] ((), s) = Some c
      \<and> queues_ok (snd c) \<and> same_slots t s (snd c)"
  proof (rule each_mix_dev_defined [where I = "\<lambda>c. queues_ok (snd c) \<and> same_slots t s (snd c)"])
    fix d and b :: "unit \<times> srv" assume "queues_ok (snd b) \<and> same_slots t s (snd b)"
    with flush_queue_ok [of "snd b" d t] same_slots_trans
    show "\<exists>c. (\<lambda>(u, s). do { s1 \<leftarrow> flush_queue d s; Some (u, s1) }) b = Some c
        \<and> queues_ok (snd c) \<and> same_slots t s (snd c)"
      by (cases b) fastforce
  qed (use assms in simp)
  then show ?thesis by (auto simp: flush_all_queues_def)
qed

lemma upd_dev_ok:
  assumes "\<And>D. d_fifo (f D) = d_fifo D" and "\<And>D. d_mixbit (f D) = d_mixbit D" and "\<And>D. d_tag (f D) = d_tag D"
  shows "queues_ok s \<Longrightarrow> queues_ok (upd_dev d f s)"
    and "same_slots t u (upd_dev d f s) \<longleftrightarrow> same_slots t u s"
  using assms by (auto intro: queues_ok_cong simp: same_slots_def)

lemma flush_dev_ok:
  assumes "queues_ok (snd b) \<and> same_slots t s (snd b)"
  shows "\<exists>c. flush_dev d b = Some c \<and> queues_ok (snd c) \<and> same_slots t s (snd c)"
proof -
  let ?h = "\<lambda>D. D\<lparr>d_highload := d_highload D + 1\<rparr>"
  have b: "queues_ok (upd_dev d ?h (snd b))" "same_slots t s (upd_dev d ?h (snd b))"
    using assms by (simp_all add: upd_dev_ok)
  have flush: "\<exists>s'. flush_queue d u = Some s' \<and> queues_ok s' \<and> same_slots t s s'"
    if "queues_ok u" "same_slots t s u" for u
    using flush_queue_ok [OF that(1), of d t] that(2) same_slots_trans by blast
  from flush [of "snd b"] flush [OF b] assms show ?thesis
    by (cases b) (auto simp: flush_dev_def Let_def upd_dev_ok)
qed

lemma flush_queues_ok:
  assumes "queues_ok s"
  shows "\<exists>r s'. flush_queues t s = Some (r, s') \<and> queues_ok s' \<and> same_slots t s s'"
proof -
  have "\<exists>c. each_mix_dev flush_dev t [0..<8] (0, s) = Some c \<and> queues_ok (snd c) \<and> same_slots t s (snd c)"
    by (rule each_mix_dev_defined) (use assms flush_dev_ok in auto)
  then obtain n u where "each_mix_dev flush_dev t [0..<8] (0, s) = Some (n, u)" "queues_ok u" "same_slots t s u"
    by auto
  then show ?thesis by (simp add: flush_queues_def)
qed

text \<open>A device in a slot can be given up; its queue stays.\<close>

lemma tag_rm_outstanding_pkts: "tag_rm_outstanding t d s = Some s' \<Longrightarrow> pkts s' = pkts s"
  by (auto simp: tag_rm_outstanding_alt MIX_CLOSE_DEV_def netmx_close_dev_def give_slot_def Let_def
      split: option.splits mixer.splits if_splits)

lemma tag_rm_outstanding_audio:
  assumes "audio_ok t s" and "d_tag (dev s d) = Some t"
  shows "\<exists>s'. tag_rm_outstanding t d s = Some s' \<and> audio_ok t s' \<and> d_mixbit (dev s' d) = 0
    \<and> (\<forall>e. d_tag (dev s' e) = d_tag (dev s e))"
proof -
  from tag_rm_outstanding_defined [of s d t] assms(2) obtain s' where s': "tag_rm_outstanding t d s = Some s'" by auto
  have k: "keeps s s'" by (rule keeps_tag_rm_outstanding [OF s'])
  have "queues_ok s'"
    by (rule queues_ok_cong [of s]) (use assms(1) k tag_rm_outstanding_pkts [OF s'] in \<open>auto simp: audio_ok_def keeps_def\<close>)
  then show ?thesis
    using s' assms(1) tag_rm_outstanding_mix_ok [OF _ s'] tag_rm_outstanding_gone [OF _ s'] k
    by (auto simp: audio_ok_def keeps_def)
qed

lemma audio_ok_slots: "same_slots t s s' \<Longrightarrow> queues_ok s' \<Longrightarrow> audio_ok t s \<Longrightarrow> audio_ok t s'"
  using same_slots_mix_ok by (auto simp: audio_ok_def)

lemma audio_ok_upd_dev:
  assumes "\<And>D. d_fifo (f D) = d_fifo D" and "\<And>D. d_mixbit (f D) = d_mixbit D" and "\<And>D. d_tag (f D) = d_tag D"
    and "audio_ok t s"
  shows "audio_ok t (upd_dev d f s)"
  by (rule audio_ok_slots [of t s])
    (use assms in \<open>auto simp: upd_dev_ok audio_ok_def\<close>)

text \<open>A walk whose body needs to know that its device is in a slot.\<close>

lemma each_mix_dev_in_slot:
  assumes "I a" and "\<And>d b. I b \<Longrightarrow> Some d \<in> set (t_mix_devs (tagm (snd b) t)) \<Longrightarrow> \<exists>c. f d b = Some c \<and> I c"
    and "\<And>b. I b \<Longrightarrow> length (t_mix_devs (tagm (snd b) t)) = 8" and "\<forall>i \<in> set ns. i < 8"
  shows "\<exists>c. each_mix_dev f t ns a = Some c \<and> I c"
  using assms(1,4)
proof (induction ns arbitrary: a)
  case (Cons i ns)
  show ?case
  proof (cases "t_mix_devs (tagm (snd a) t) ! i")
    case None
    then show ?thesis using Cons by simp
  next
    case (Some d)
    have "i < length (t_mix_devs (tagm (snd a) t))" using assms(3) [OF Cons.prems(1)] Cons.prems(2) by simp
    then have "Some d \<in> set (t_mix_devs (tagm (snd a) t))" using Some by (metis nth_mem)
    from assms(2) [OF Cons.prems(1) this] obtain b where "f d a = Some b" "I b" by blast
    then show ?thesis using Cons.IH [of b] Cons.prems(2) Some by simp
  qed
qed simp

lemma mix_ok_in_slot:
  assumes "mix_ok t s" and "Some d \<in> set (t_mix_devs (tagm s t))"
  shows "d_tag (dev s d) = Some t \<and> d_mixbit (dev s d) \<noteq> 0"
  using assms slot_bit_nonzero by (fastforce simp: mix_ok_def Let_def in_set_conv_nth)

lemma tag_update_dev_timeouts_ok:
  assumes "audio_ok t s"
  shows "\<exists>s'. tag_update_dev_timeouts t s = Some s' \<and> audio_ok t s'"
proof -
  have "\<exists>c. each_mix_dev (update_dev t) t [0..<8] ((), s) = Some c \<and> audio_ok t (snd c)"
  proof (rule each_mix_dev_in_slot)
    fix d and b :: "unit \<times> srv" assume b: "audio_ok t (snd b)" "Some d \<in> set (t_mix_devs (tagm (snd b) t))"
    let ?h = "\<lambda>D. D\<lparr>d_timeouts := d_timeouts D + 1\<rparr>"
    have 1: "audio_ok t (upd_dev d ?h (snd b))" "audio_ok t (upd_dev d (\<lambda>D. D\<lparr>d_timeouts := 0\<rparr>) (snd b))"
      using b(1) by (auto intro!: audio_ok_upd_dev)
    have "d_tag (dev (upd_dev d ?h (snd b)) d) = Some t"
      using mix_ok_in_slot [of t "snd b" d] b by (simp add: audio_ok_def)
    from tag_rm_outstanding_audio [OF 1(1) this] 1 show "\<exists>c. update_dev t d b = Some c \<and> audio_ok t (snd c)"
      by (cases b) (auto simp: update_dev_def Let_def)
  qed (use assms in \<open>auto simp: audio_ok_def mix_ok_def Let_def\<close>)
  then show ?thesis by (auto simp: tag_update_dev_timeouts_def)
qed

text \<open>What the other threads may do during a sleep: they keep the queues and slots in order, do
  not move a device to another tag and do not reset the timeout count of an empty queue.\<close>

definition env_ok :: "int \<Rightarrow> (nat \<Rightarrow> srv \<Rightarrow> srv) \<Rightarrow> bool" where
  "env_ok t env \<longleftrightarrow> (\<forall>k s. audio_ok t s \<longrightarrow> audio_ok t (env k s)
     \<and> (\<forall>d. d_tag (dev (env k s) d) = d_tag (dev s d) \<and> d_timeouts (dev s d) \<le> d_timeouts (dev (env k s) d)))"

lemma wait_all_ok:
  assumes "env_ok t env" and "audio_ok t s"
  shows "\<exists>r s'. wait_all_from env t w s = Some (r, s') \<and> audio_ok t s'
    \<and> (r = 1 \<and> all_queues_bell t s' \<or> r = 0)"
  using assms(2)
proof (induction "51 - w" arbitrary: w s rule: less_induct)
  case less
  have env: "audio_ok t (env w s)" using assms(1) less.prems by (auto simp: env_ok_def)
  from tag_update_dev_timeouts_ok [OF this] obtain s1 where
    s1: "tag_update_dev_timeouts t (env w s) = Some s1" "audio_ok t s1" by blast
  show ?case
  proof (cases "all_queues_bell t s \<or> w + 1 > 50")
    case True
    then show ?thesis using s1 less.prems by (auto simp: wait_all_from.simps [of env t w s])
  next
    case False
    then have lt: "51 - (w + 1) < 51 - w" by linarith
    show ?thesis using less.hyps [OF lt s1(2)] s1(1) False by (simp add: wait_all_from.simps [of env t w s])
  qed
qed

lemma wait_any_ok:
  assumes "env_ok t env" and "audio_ok t s"
  shows "fst (wait_any_from env t k u s) = 1 \<and> audio_ok t (snd (wait_any_from env t k u s))"
  using assms(2)
proof (induction u arbitrary: k s rule: less_induct)
  case (less u)
  have env: "audio_ok t (env k s)" using assms(1) less.prems by (auto simp: env_ok_def)
  show ?case
    using less.IH [of "u - 1000" "env k s" "k + 1"] less.IH [of 0 "env k s" "k + 1"] env less.prems
    by (simp add: wait_any_from.simps [of env t k u s])
qed

lemma wait_ref_ok:
  assumes "env_ok t env" and "audio_ok t s" and "d_tag (dev s d) = Some t"
  shows "\<exists>r s'. wait_ref_from env t d k s = Some (r, s') \<and> audio_ok t s'
    \<and> (r = 1 \<and> queue_bell d s' \<and> d_timeouts (dev s' d) = 0 \<or> r = 0 \<and> d_mixbit (dev s' d) = 0)"
  using assms(2,3)
proof (induction "nat (301 - d_timeouts (dev s d))" arbitrary: k s rule: less_induct)
  case less
  define s1 where "s1 = upd_dev d (\<lambda>D. D\<lparr>d_timeouts := d_timeouts D + 1\<rparr>) (env k s)"
  have env: "audio_ok t (env k s)" "d_tag (dev (env k s) d) = Some t"
    "d_timeouts (dev s d) \<le> d_timeouts (dev (env k s) d)"
    using assms(1) less.prems by (auto simp: env_ok_def)
  have s1: "audio_ok t s1" "d_tag (dev s1 d) = Some t" "d_timeouts (dev s d) < d_timeouts (dev s1 d)"
    using env by (auto simp: s1_def intro!: audio_ok_upd_dev)
  consider "queue_bell d s" | "\<not> queue_bell d s" "d_mixbit (dev s d) = 0"
    | "\<not> queue_bell d s" "d_mixbit (dev s d) \<noteq> 0" "d_timeouts (dev s1 d) > 300"
    | "\<not> queue_bell d s" "d_mixbit (dev s d) \<noteq> 0" "d_timeouts (dev s1 d) \<le> 300" by linarith
  then show ?case
  proof cases
    case 1
    then have "queue_bell d (upd_dev d (\<lambda>D. D\<lparr>d_timeouts := 0\<rparr>) s)" by (simp add: queue_bell_def)
    then show ?thesis using 1 less.prems(1) by (auto simp: wait_ref_from.simps [of env t d k s] intro!: audio_ok_upd_dev)
  next
    case 2
    then show ?thesis using less.prems by (auto simp: wait_ref_from.simps [of env t d k s])
  next
    case 3
    from tag_rm_outstanding_audio [OF s1(1,2)] obtain s2 where
      s2: "tag_rm_outstanding t d s1 = Some s2" "audio_ok t s2" "d_mixbit (dev s2 d) = 0" by blast
    from flush_all_queues_ok [of s2 t] s2(2) obtain s3 where
      s3: "flush_all_queues t s2 = Some s3" "queues_ok s3" "same_slots t s2 s3" by (auto simp: audio_ok_def)
    have "audio_ok t s3" "d_mixbit (dev s3 d) = 0"
      using audio_ok_slots [OF s3(3,2) s2(2)] s3(3) s2(3) by (auto simp: same_slots_def)
    then show ?thesis
      using 3 s2(1) s3(1) by (auto simp: wait_ref_from.simps [of env t d k s] s1_def [symmetric])
  next
    case 4
    have "nat (301 - d_timeouts (dev s1 d)) < nat (301 - d_timeouts (dev s d))" using s1(3) 4(3) by linarith
    from less.hyps [OF this s1(1,2), of "k + 1"] 4 show ?thesis
      by (simp add: wait_ref_from.simps [of env t d k s] s1_def [symmetric])
  qed
qed

lemma pack_ok_heard: "pack_ok P \<Longrightarrow> pack_ok (heard P)"
  using heard_length [of P] by (simp add: pack_ok_def)

lemma queues_ok_pkts:
  assumes "queues_ok s" and "\<And>e. d_fifo (dev s' e) = d_fifo (dev s e)" and "\<And>p. pack_ok (pkts s p) \<Longrightarrow> pack_ok (pkts s' p)"
  shows "queues_ok s'"
  using assms unfolding queues_ok_def q_rep_def by metis

lemma pick_dev_ok:
  assumes "audio_ok t s" and "\<forall>p \<in> set pp. pack_ok (pkts s p) \<and> ml \<le> pk_datalen (pkts s p)"
  shows "\<exists>pp' ml' s'. pick_dev t d ((pp, ml), s) = Some ((pp', ml'), s') \<and> audio_ok t s'
    \<and> length pp' \<le> Suc (length pp) \<and> (\<forall>p \<in> set pp'. pack_ok (pkts s' p) \<and> ml' \<le> pk_datalen (pkts s' p))"
proof -
  obtain qs where qs: "q_rep s d qs" "\<forall>p \<in> set qs. pack_ok (pkts s p)"
    using assms(1) by (auto simp: audio_ok_def queues_ok_def)
  show ?thesis
  proof (cases qs)
    case Nil
    then show ?thesis using pick_dev_empty [of s d t "(pp, ml)"] qs(1) assms by auto
  next
    case (Cons p ps)
    obtain s' where s': "pick_dev t d ((pp, ml), s) = Some ((pp @ [p], min ml (pk_datalen (pkts s p))), s')"
      "q_rep s' d ps" "\<forall>e. e \<noteq> d \<longrightarrow> dev s' e = dev s e" "tagm s' = tagm s"
      "pkts s' = (pkts s)(p := heard (pkts s p))"
      "d_mixbit (dev s' d) = d_mixbit (dev s d) \<and> d_tag (dev s' d) = d_tag (dev s d)"
      using pick_dev_rep [of s d p ps t pp ml] qs Cons by auto
    have pk: "pack_ok (pkts s' r)" if "pack_ok (pkts s r)" for r using that s'(5) pack_ok_heard [of "pkts s p"] by auto
    have len: "pk_datalen (pkts s' r) = pk_datalen (pkts s r)" for r using s'(5) by simp
    have q: "\<exists>rs. q_rep s' e rs \<and> (\<forall>p \<in> set rs. pack_ok (pkts s' p))" for e
    proof (cases "e = d")
      case True
      then show ?thesis using s'(2) qs(2) pk Cons by auto
    next
      case False
      obtain rs where "q_rep s e rs" "\<forall>p \<in> set rs. pack_ok (pkts s p)"
        using assms(1) by (auto simp: audio_ok_def queues_ok_def)
      then show ?thesis using pk s'(3) False by (intro exI [of _ rs]) (simp add: q_rep_def)
    qed
    have "d_mixbit (dev s' e) = d_mixbit (dev s e) \<and> d_tag (dev s' e) = d_tag (dev s e)" for e
      using s'(3,6) by (cases "e = d") auto
    then have "same_slots t s s'" using s'(4) by (simp add: same_slots_def)
    then have "audio_ok t s'" using audio_ok_slots assms(1) q by (simp add: queues_ok_def)
    then show ?thesis using s'(1) qs(2) assms(2) pk len Cons by (auto simp: min_def)
  qed
qed

lemma pick_all_ok:
  assumes "audio_ok t s" and "\<forall>p \<in> set pp. pack_ok (pkts s p) \<and> ml \<le> pk_datalen (pkts s p)"
  shows "\<exists>pp' ml' s'. foldM (pick_dev t) ds ((pp, ml), s) = Some ((pp', ml'), s') \<and> audio_ok t s'
    \<and> length pp' \<le> length pp + length ds \<and> (\<forall>p \<in> set pp'. pack_ok (pkts s' p) \<and> ml' \<le> pk_datalen (pkts s' p))"
  using assms
proof (induction ds arbitrary: pp ml s)
  case (Cons d ds)
  from pick_dev_ok [OF Cons.prems, of d] obtain pp1 ml1 s1 where 1: "pick_dev t d ((pp, ml), s) = Some ((pp1, ml1), s1)"
    "audio_ok t s1" "length pp1 \<le> Suc (length pp)"
    "\<forall>p \<in> set pp1. pack_ok (pkts s1 p) \<and> ml1 \<le> pk_datalen (pkts s1 p)" by blast
  from Cons.IH [OF 1(2,4)] 1(1,3) show ?case by fastforce
qed auto

lemma audio_ok_outs: "audio_ok t (s\<lparr>outs := x\<rparr>) = audio_ok t s"
  by (simp add: audio_ok_def mix_ok_def Let_def queues_ok_def q_rep_def)

lemma audio_ok_emit: "audio_ok t (emit x s) = audio_ok t s"
  by (simp add: emit_def audio_ok_outs)

lemma audio_ok_silence: "audio_ok t (upd_tag u (\<lambda>T. T\<lparr>t_mix_silence := f T\<rparr>) s) = audio_ok t s"
  by (simp add: audio_ok_def mix_ok_def Let_def queues_ok_def q_rep_def)

lemma audio_ok_upd_pkt:
  assumes "audio_ok t s" and "length xs = length (pk_data (pkts s p))"
  shows "audio_ok t (upd_pkt p (\<lambda>P. P\<lparr>pk_data := xs\<rparr>) s)"
proof (rule audio_ok_slots [OF _ _ assms(1)])
  show "queues_ok (upd_pkt p (\<lambda>P. P\<lparr>pk_data := xs\<rparr>) s)"
    by (rule queues_ok_pkts [of s]) (use assms in \<open>auto simp: audio_ok_def pack_ok_def\<close>)
qed (simp add: same_slots_def)

lemma blend_ok:
  assumes "audio_ok t s" and "length pp \<le> 8" and "\<forall>p \<in> set pp. ml div 2 \<le> length (pk_data (pkts s p))" and "pp \<noteq> []"
  shows "\<exists>s'. blend pp ml s = Some s' \<and> audio_ok t s'
    \<and> length (pk_data (pkts s' (hd pp))) = length (pk_data (pkts s (hd pp)))"
proof (cases "length pp \<le> 1")
  case False
  obtain p qs where pp: "pp = p # qs" using assms(4) by (cases pp) auto
  obtain xs where xs: "pcm_mix (map (\<lambda>q. pk_data (pkts s q)) pp) (ml div 2) = Some xs"
    "length xs = length (pk_data (pkts s p))"
    using pcm_mix_ok [of "map (\<lambda>q. pk_data (pkts s q)) pp" "pk_data (pkts s p)" "map (\<lambda>q. pk_data (pkts s q)) qs" "ml div 2"]
      pp assms(2,3) by auto
  then show ?thesis
    using False audio_ok_upd_pkt [OF assms(1) xs(2)] pp
    by (simp add: blend_def free_packs_eq audio_ok_outs del: list.map)
qed (use assms in \<open>simp add: blend_def\<close>)

lemma mix_picked_ok:
  assumes ok: "audio_ok t s" and pp: "length pp \<le> 8" "\<forall>p \<in> set pp. pack_ok (pkts s p) \<and> ml \<le> pk_datalen (pkts s p)"
  shows "\<exists>r s'. mix_picked cfg t pp ml s = Some (r, s') \<and> audio_ok t s'"
proof (cases "pp = []")
  case True
  then show ?thesis using ok by (simp add: mix_picked_def)
next
  case False
  have len: "\<forall>r \<in> set pp. ml div 2 \<le> length (pk_data (pkts s r))" using pp(2) by (fastforce simp: pack_ok_def)
  from blend_ok [OF ok pp(1) len False] obtain s1 where s1: "blend pp ml s = Some s1" "audio_ok t s1"
    "length (pk_data (pkts s1 (hd pp))) = length (pk_data (pkts s (hd pp)))" by blast
  have "ml div 2 \<le> length (pk_data (pkts s1 (hd pp)))" using len False s1(3) by simp
  note sil = pcm_silent_ok [OF this, of "51200 * int (length pp)"]
  show ?thesis
    using s1 sil False by (simp add: mix_picked_def drop_if_silent_def Let_def pack_free_def audio_ok_emit audio_ok_silence)
qed

lemma wait_queues_ok:
  assumes "env_ok t env" and "audio_ok t s"
  shows "\<exists>r s'. wait_queues cfg env t s = Some (r, s') \<and> audio_ok t s'"
proof (cases "opt_sync_policy cfg")
  case SYNC_WAIT
  then show ?thesis using wait_all_ok [OF assms, of 0] by (auto simp: wait_queues_def wait_all_queues_def)
next
  case SYNC_FIXED
  then show ?thesis
    using wait_any_ok [OF assms, of 0 11610] by (metis sync_policy.simps(8) surjective_pairing wait_any_queue_def wait_queues_def)
next
  case SYNC_REF
  show ?thesis
  proof (cases "t_mix_devs (tagm s t) ! t_mix_ref (tagm s t)")
    case None
    then show ?thesis using SYNC_REF assms(2) by (simp add: wait_queues_def wait_ref_queue_def)
  next
    case (Some d)
    have "Some d \<in> set (t_mix_devs (tagm s t))"
      using assms(2) Some nth_mem [of "t_mix_ref (tagm s t)" "t_mix_devs (tagm s t)"]
      by (simp add: audio_ok_def mix_ok_def Let_def)
    then have "d_tag (dev s d) = Some t" using mix_ok_in_slot assms(2) by (simp add: audio_ok_def)
    from wait_ref_ok [OF assms this, of 0] Some SYNC_REF show ?thesis
      by (auto simp: wait_queues_def wait_ref_queue_def)
  qed
qed

lemma flush_first_ok:
  assumes "audio_ok t s"
  shows "\<exists>s1. (if t_mix_count (tagm s t) \<noteq> 1 \<and> opt_flush cfg
      then map_option snd (flush_queues t s) else Some s) = Some s1 \<and> audio_ok t s1"
proof -
  from flush_queues_ok [of s t] assms obtain r s1 where s1: "flush_queues t s = Some (r, s1)" "queues_ok s1"
    "same_slots t s s1" by (auto simp: audio_ok_def)
  then show ?thesis using audio_ok_slots [OF s1(3,2) assms] assms by simp
qed

lemma tag_mix_audio_ok:
  assumes "env_ok t env" and "audio_ok t s"
  shows "\<exists>r s'. tag_mix_audio cfg env t s = Some (r, s') \<and> audio_ok t s'"
proof -
  obtain s1 where s1: "(if t_mix_count (tagm s t) \<noteq> 1 \<and> opt_flush cfg
      then map_option snd (flush_queues t s) else Some s) = Some s1" "audio_ok t s1"
    using flush_first_ok [OF assms(2)] by blast
  from wait_queues_ok [OF assms(1) s1(2), of cfg] obtain r s2 where
    s2: "wait_queues cfg env t s1 = Some (r, s2)" "audio_ok t s2" by blast
  from pick_all_ok [OF s2(2), of "[]" "2 ^ 18" "mixed_devs s2 t"] obtain pp ml s3 where
    s3: "foldM (pick_dev t) (mixed_devs s2 t) (([], 2 ^ 18), s2) = Some ((pp, ml), s3)" "audio_ok t s3"
    "length pp \<le> length (mixed_devs s2 t)" "\<forall>p \<in> set pp. pack_ok (pkts s3 p) \<and> ml \<le> pk_datalen (pkts s3 p)"
    by auto
  have "length pp \<le> 8" using s3(3) mixed_devs_length [of s2 t] by linarith
  from mix_picked_ok [OF s3(2) this s3(4), of cfg] s2 s3(1) show ?thesis
    unfolding tag_mix_audio_def s1(1) by (auto simp: each_mix_dev_pick)
qed

end
