(* ===== verification/Audio_Props.thy ===== *)
theory Audio_Props
  imports Mixing_Inv Demo
begin

text \<open>
  Properties of the mixing of audio (Mixing) and of the broadcast addresses of a tag (Tags),
  with their witnesses.
\<close>

subsection \<open>A concrete state with audio\<close>

text \<open>Devices 7 and 8 have slots and one packet each.\<close>

definition audio_demo :: srv where
  "audio_demo = snd (tag_in_dev_packet 65537 8 2 (snd (tag_in_dev_packet 65537 7 1
     (the (tag_add_outstanding 65537 8 (the (tag_add_outstanding 65537 7 demo)))))))"

lemma audio_demo_mix_ok: "mix_ok 65537 demo"
  by (simp add: mix_ok_def demo_def demo_tag_def demo_dev_def fresh_dev_def used_def)

lemma demo_queues: "q_rep demo d []"
  by (simp add: q_rep_def demo_def demo_dev_def fresh_dev_def cfifo_init_rep)

lemma audio_demo_ok:
  "mix_ok 65537 audio_demo" "q_rep audio_demo 7 [1]" "q_rep audio_demo 8 [2]"
  "d \<noteq> 7 \<Longrightarrow> d \<noteq> 8 \<Longrightarrow> q_rep audio_demo d []" "pkts audio_demo = pkts demo"
proof -
  obtain s1 where s1: "tag_add_outstanding 65537 7 demo = Some s1" "d_mixbit (dev s1 7) \<noteq> 0"
    using tag_add_outstanding_gets [OF audio_demo_mix_ok, of 7]
    by (auto simp: demo_def demo_tag_def demo_dev_def)
  note k1 = keeps_tag_add_outstanding [OF s1(1)]
  have m1: "mix_ok 65537 s1" by (rule tag_add_outstanding_mix_ok [OF audio_demo_mix_ok s1(1)]) (simp add: demo_sel demo_dev_sel)
  have tg: "d_tag (dev s1 8) = Some 65537" using k1 by (simp add: keeps_def demo_sel demo_dev_sel)
  have "t_mix_count (tagm (the (tag_add_outstanding 65537 7 demo)) 65537) < 8" by code_simp
  then have "t_mix_count (tagm s1 65537) < 8" using s1(1) by simp
  from tag_add_outstanding_gets [OF m1 this tg] obtain s2 where
    s2: "tag_add_outstanding 65537 8 s1 = Some s2" "d_mixbit (dev s2 8) \<noteq> 0" by blast
  note k2 = keeps_tag_add_outstanding [OF s2(1)]
  have m2: "mix_ok 65537 s2" by (rule tag_add_outstanding_mix_ok [OF m1 s2(1) tg])
  have q2: "q_rep s2 d []" for d
    using demo_queues [of d] k1 k2 by (simp add: q_rep_def keeps_def)
  have b7: "d_mixbit (dev s2 7) \<noteq> 0" using tag_add_outstanding_other(2) [OF s2(1), of 7] s1(2) by simp
  have p2: "pkts s2 = pkts demo"
    using s1(1) s2(1) by (auto simp: tag_add_outstanding_alt MIX_OPEN_DEV_def netmx_open_dev_def take_slot_def Let_def
        split: option.splits mixer.splits if_splits)
  from tag_in_dev_packet_rep [OF q2 b7, where t = 65537 and p = 1] obtain s3 where
    s3: "tag_in_dev_packet 65537 7 1 s2 = (1, s3)" "q_rep s3 7 [1]" "fifo_only 7 s2 s3" by auto
  have q3: "q_rep s3 d []" "d_mixbit (dev s3 8) \<noteq> 0" if "d \<noteq> 7" for d
    using s3(3) q2 [of d] that s2(2) by (simp_all add: fifo_only_def q_rep_def)
  have "q_rep s3 8 []" "d_mixbit (dev s3 8) \<noteq> 0" using q3 [of 8] by auto
  from tag_in_dev_packet_rep [OF this, where t = 65537 and p = 2] obtain s4 where
    s4: "tag_in_dev_packet 65537 8 2 s3 = (1, s4)" "q_rep s4 8 [2]" "fifo_only 8 s3 s4" by auto
  have eq: "audio_demo = s4" using s1(1) s2(1) s3(1) s4(1) by (simp add: audio_demo_def)
  show "mix_ok 65537 audio_demo"
    unfolding eq using m2 fifo_only_same_slots [OF s3(3)] fifo_only_same_slots [OF s4(3)] same_slots_mix_ok by blast
  show "q_rep audio_demo 7 [1]" "q_rep audio_demo 8 [2]" unfolding eq using s3(2) s4(2,3) by (simp_all add: fifo_only_def q_rep_def)
  show "q_rep audio_demo d []" if "d \<noteq> 7" "d \<noteq> 8"
    unfolding eq using q3(1) [OF that(1)] s4(3) that(2) by (simp add: fifo_only_def q_rep_def)
  show "pkts audio_demo = pkts demo" unfolding eq using s3(3) s4(3) p2 by (simp add: fifo_only_def)
qed

lemma audio_demo_devs: "mixed_devs audio_demo 65537 = [7, 8]"
  by code_simp

lemma demo_pack_ok: "pack_ok (pkts demo p)"
  by (simp add: demo_def pack_ok_def)

lemma audio_demo_audio_ok: "audio_ok 65537 audio_demo"
proof -
  have "\<exists>ps. q_rep audio_demo d ps" for d
    using audio_demo_ok(2,3) audio_demo_ok(4) [of d] by (cases "d = 7 \<or> d = 8") auto
  then show ?thesis using audio_demo_ok(1,5) demo_pack_ok by (simp add: audio_ok_def queues_ok_def)
qed

subsection \<open>Mixing\<close>

lemma sample_self: "word_of_int (saturate (sint x)) = (x :: sample)"
  using sint_greater_eq [of x] sint_less [of x] by (simp add: saturate_id)

text \<open>
  C30. Mixing with data in every queue, whatever the waiting policy and the options. With option
  -f and not exactly one slot in use, each loaded queue (more than six packets, or more than one
  for 180 mixes) first loses all but its newest packet, the others freed. Then exactly the packet
  in front of what is left of each queue is taken, in slot order, and all but the first of them
  are freed. The first one, up to the length of the shortest, has the sums of the samples clamped
  to 16 bits; a packet of compressed silence counts as zeros. It is the result, unless option -s
  is on, its samples are no louder than the limit and the 50 mixes before were silent too: then
  it is freed and nothing is returned. The packets taken are different ones, of at most 1700 bytes
  that lie in their buffers (pack_ok).
\<close>

theorem mixing_sums_fronts:
  assumes "mix_ok t s" and "\<And>d. d \<in> set (mixed_devs s t) \<Longrightarrow> q_rep s d (q d) \<and> q d \<noteq> []"
    and "fronts (kept cfg t s q) (mixed_devs s t) = p # ps" and "distinct (p # ps)"
    and "\<And>r. r \<in> set (p # ps) \<Longrightarrow> pack_ok (pkts s r)"
  shows "\<exists>r s'. tag_mix_audio cfg env t s = Some (r, s')
    \<and> r = (if hushed cfg t s (int (length (p # ps)))
          (take (shortest s (p # ps) (2 ^ 18) div 2) (pk_data (pkts s' p))) then None else Some p)
    \<and> (\<forall>d \<in> set (mixed_devs s t). q_rep s' d (tl (kept cfg t s q d)))
    \<and> outs s' = outs s @ map Freed (concat (map (thrown cfg t s q) (mixed_devs s t))
        @ ps @ (if r = None then [p] else []))
    \<and> length (pk_data (pkts s' p)) = length (pk_data (pkts s p))
    \<and> (\<forall>i < length (pk_data (pkts s p)). pk_data (pkts s' p) ! i =
        (if i < shortest s (p # ps) (2 ^ 18) div 2
         then word_of_int (saturate (sample_sum (map (\<lambda>r. pk_data (heard (pkts s r))) (p # ps)) i))
         else pk_data (heard (pkts s p)) ! i))"
  using mix_filled [OF assms, of env] sample_self by (cases "ps = []") (auto simp: sample_sum_def)

definition plain_cfg :: "sync_policy \<Rightarrow> opts" where
  "plain_cfg p = \<lparr>opt_flush = False, opt_sync_policy = p, opt_silence_drop = False, opt_broadcast = True, opt_tcp_audio = False\<rparr>"

text \<open>Mixing with option -f. The queue of 7 has had two packets for 180 mixes, now 1 and 3, and
  its older one goes first; packets 3 and 2 are taken. The mix is not loud and neither were the 50
  before, so with option -s (b) it is dropped.\<close>

definition late_demo :: srv where
  "late_demo = upd_dev 7 (\<lambda>D. D\<lparr>d_highload := 180\<rparr>) (upd_tag 65537 (\<lambda>T. T\<lparr>t_mix_silence := 50\<rparr>)
     (snd (tag_in_dev_packet 65537 7 3 audio_demo)))"

definition eager_cfg :: "bool \<Rightarrow> opts" where
  "eager_cfg b = (plain_cfg SYNC_REF)\<lparr>opt_flush := True, opt_silence_drop := b\<rparr>"

lemma late_demo_ok:
  "mix_ok 65537 late_demo" "q_rep late_demo 7 [1, 3]" "q_rep late_demo 8 [2]" "pkts late_demo = pkts demo"
proof -
  have "d_mixbit (dev audio_demo 7) \<noteq> 0" by code_simp
  from tag_in_dev_packet_rep [OF audio_demo_ok(2) this, of 65537 3] obtain s' where
    s': "tag_in_dev_packet 65537 7 3 audio_demo = (1, s')" "q_rep s' 7 [1, 3]" "fifo_only 7 audio_demo s'" by auto
  have l: "late_demo = upd_dev 7 (\<lambda>D. D\<lparr>d_highload := 180\<rparr>) (upd_tag 65537 (\<lambda>T. T\<lparr>t_mix_silence := 50\<rparr>) s')"
    by (simp add: late_demo_def s'(1))
  have "same_slots 65537 audio_demo late_demo"
    using fifo_only_same_slots [OF s'(3), of 65537] unfolding l by (simp add: same_slots_def)
  then show "mix_ok 65537 late_demo" using same_slots_mix_ok audio_demo_ok(1) by blast
  show "q_rep late_demo 7 [1, 3]" "q_rep late_demo 8 [2]" "pkts late_demo = pkts demo"
    unfolding l using s'(2,3) audio_demo_ok(3,5) by (simp_all add: q_rep_def fifo_only_def)
qed

lemma late_demo_kept:
  "kept (eager_cfg b) 65537 late_demo (\<lambda>d. if d = 7 then [1, 3] else [2]) = (\<lambda>d. if d = 7 then [3] else [2])"
  "thrown (eager_cfg b) 65537 late_demo (\<lambda>d. if d = 7 then [1, 3] else [2]) = (\<lambda>d. if d = 7 then [1] else [])"
proof -
  have "t_mix_count (tagm late_demo 65537) = 2" by code_simp
  moreover have "d_highload (dev late_demo 7) = 180" by (simp add: late_demo_def)
  ultimately show "kept (eager_cfg b) 65537 late_demo (\<lambda>d. if d = 7 then [1, 3] else [2]) = (\<lambda>d. if d = 7 then [3] else [2])"
    "thrown (eager_cfg b) 65537 late_demo (\<lambda>d. if d = 7 then [1, 3] else [2]) = (\<lambda>d. if d = 7 then [1] else [])"
    by (auto simp: kept_def thrown_def flushing_def loaded_def eager_cfg_def)
qed

lemma late_demo_devs: "mixed_devs late_demo 65537 = [7, 8]" "t_mix_silence (tagm late_demo 65537) = 50"
  by code_simp+

lemma mixing_sums_fronts_witness:
  "(\<exists>s'. tag_mix_audio (eager_cfg False) (\<lambda>_ s. s) 65537 late_demo = Some (Some 3, s')
     \<and> outs s' = outs late_demo @ [Freed 1, Freed 2] \<and> pk_data (pkts s' 3) = [200, 400])
   \<and> (\<exists>s'. tag_mix_audio (eager_cfg True) (\<lambda>_ s. s) 65537 late_demo = Some (None, s')
     \<and> outs s' = outs late_demo @ [Freed 1, Freed 2, Freed 3])"
proof -
  let ?q = "\<lambda>d :: int. if d = 7 then [1 :: nat, 3] else [2]" and ?c = eager_cfg
  have q: "q_rep late_demo d (?q d) \<and> ?q d \<noteq> []" if "d \<in> set (mixed_devs late_demo 65537)" for d
    using that late_demo_ok(2,3) by (auto simp: late_demo_devs)
  have fr: "fronts (kept (?c b) 65537 late_demo ?q) (mixed_devs late_demo 65537) = 3 # [2]" for b
    by (simp add: late_demo_devs late_demo_kept)
  have pk: "pack_ok (pkts late_demo r)" for r using demo_pack_ok by (simp add: late_demo_ok(4))
  have p: "pkts late_demo r = \<lparr>pk_id = 0, pk_seq = 0, pk_type = 1, pk_tag = 0, pk_datalen = 4,
      pk_data = [100, 200], pk_len = 16, pk_rep = 0\<rparr>" for r
    by (simp add: late_demo_ok(4) demo_def)
  have main: "\<exists>s'. tag_mix_audio (?c b) (\<lambda>_ s. s) 65537 late_demo = Some (if b then None else Some 3, s')
      \<and> outs s' = outs late_demo @ map Freed ([1, 2] @ (if b then [3] else [])) \<and> pk_data (pkts s' 3) = [200, 400]" for b
  proof -
    from mixing_sums_fronts [OF late_demo_ok(1) q fr [of b] _ pk, of "\<lambda>_ s. s"] obtain r s' where
      r: "tag_mix_audio (?c b) (\<lambda>_ s. s) 65537 late_demo = Some (r, s')"
      "r = (if hushed (?c b) 65537 late_demo 2 (take 2 (pk_data (pkts s' 3))) then None else Some 3)"
      "outs s' = outs late_demo @ map Freed ([1, 2] @ (if r = None then [3] else []))"
      "length (pk_data (pkts s' 3)) = 2"
      "\<forall>i < 2. pk_data (pkts s' 3) ! i = word_of_int (saturate (2 * sint ([100, 200 :: sample] ! i)))"
      by (auto simp: late_demo_kept late_demo_devs p heard_def shortest_def sample_sum_def PACKET_AUDIO_ZERO_def)
    have d: "pk_data (pkts s' 3) = [200, 400]"
      using r(4,5) by (auto simp: list_eq_iff_nth_eq less_2_cases_iff saturate_def)
    have "r = (if b then None else Some 3)"
      using r(2) by (simp add: d hushed_def eager_cfg_def plain_cfg_def energy_def late_demo_devs)
    then show ?thesis using r(1,3) d by auto
  qed
  from main [of False] main [of True] show ?thesis by auto
qed

text \<open>
  C31. Mixing always returns, whatever the options and the waiting policy, without a fault: its
  waits end as long as the other threads keep the queues and slots in order, move no device to
  another tag and do not reset the timeout counts, and the queues and slots are in order afterwards.
\<close>

theorem mixing_always_returns:
  assumes "env_ok t env" and "audio_ok t s"
  shows "\<exists>r s'. tag_mix_audio cfg env t s = Some (r, s') \<and> audio_ok t s'"
  by (rule tag_mix_audio_ok [OF assms])

lemma mixing_always_returns_witness:
  "\<exists>r s'. tag_mix_audio (plain_cfg SYNC_REF) (\<lambda>_ s. s) 65537 audio_demo = Some (r, s') \<and> audio_ok 65537 s'"
  by (rule mixing_always_returns [OF _ audio_demo_audio_ok]) (simp add: env_ok_def)

text \<open>
  Waiting for the reference device ends, and in one of two ways: its queue has data, its
  timeout count is zero and the answer is 1, or it has no slot any more and the answer is 0. A
  device that hangs is thus given up and cannot stop the tag's audio for ever.
\<close>

theorem reference_wait_progress:
  assumes "env_ok t env" and "audio_ok t s" and "t_mix_devs (tagm s t) ! t_mix_ref (tagm s t) = Some d"
  shows "\<exists>r s'. wait_ref_queue env t s = Some (r, s') \<and> audio_ok t s'
    \<and> (r = 1 \<and> queue_bell d s' \<and> d_timeouts (dev s' d) = 0
       \<or> r = 0 \<and> Some d \<notin> set (t_mix_devs (tagm s' t)))"
proof -
  have "Some d \<in> set (t_mix_devs (tagm s t))"
    using assms(2,3) nth_mem [of "t_mix_ref (tagm s t)" "t_mix_devs (tagm s t)"]
    by (simp add: audio_ok_def mix_ok_def Let_def)
  then have "d_tag (dev s d) = Some t" using mix_ok_in_slot assms(2) by (simp add: audio_ok_def)
  from wait_ref_ok [OF assms(1,2) this, of 0] assms(3) show ?thesis
    by (auto simp: wait_ref_queue_def audio_ok_def dest: mix_ok_in_slot)
qed

text \<open>The witness: the reference device 7 has lost its packet and never sends again.\<close>

definition hung_demo :: srv where
  "hung_demo = the (tag_add_outstanding 65537 7 demo)"

lemma hung_demo_eq: "tag_add_outstanding 65537 7 demo = Some hung_demo"
  using tag_add_outstanding_defined [of demo 7 65537] by (auto simp: hung_demo_def demo_sel demo_dev_sel)

lemma hung_demo_ok: "audio_ok 65537 hung_demo" "q_rep hung_demo 7 []"
proof -
  note k = keeps_tag_add_outstanding [OF hung_demo_eq]
  have q: "q_rep hung_demo d []" for d using demo_queues [of d] k by (simp add: q_rep_def keeps_def)
  moreover have "mix_ok 65537 hung_demo"
    by (rule tag_add_outstanding_mix_ok [OF audio_demo_mix_ok hung_demo_eq]) (simp add: demo_sel demo_dev_sel)
  ultimately show "audio_ok 65537 hung_demo" unfolding audio_ok_def queues_ok_def
    by (metis empty_iff list.set(1))
  show "q_rep hung_demo 7 []" by (rule q)
qed

lemma reference_wait_progress_witness:
  "\<exists>r s'. wait_ref_queue (\<lambda>_ s. s) 65537 hung_demo = Some (r, s') \<and> audio_ok 65537 s'
    \<and> (r = 1 \<and> queue_bell 7 s' \<and> d_timeouts (dev s' 7) = 0
       \<or> r = 0 \<and> Some 7 \<notin> set (t_mix_devs (tagm s' 65537)))"
  by (rule reference_wait_progress [OF _ hung_demo_ok(1)]) (simp add: env_ok_def, code_simp)

text \<open>
  A queue that is flushed keeps its newest packet alone, and the older ones are freed in the
  order they came.
\<close>

lemma flush_keeps_newest:
  assumes "q_rep s d ps"
  shows "\<exists>s'. flush_queue d s = Some s' \<and> q_rep s' d (if ps = [] then [] else [last ps])
    \<and> outs s' = outs s @ map Freed (butlast ps)"
proof -
  have "drop (length ps - 1) ps = (if ps = [] then [] else [last ps])"
    by (cases ps rule: rev_cases) auto
  with flush_queue_rep [OF assms] show ?thesis by metis
qed

subsection \<open>Broadcast addresses\<close>

text \<open>Adding the addresses of devices in a row.\<close>

definition tag_add_bcasts :: "int \<Rightarrow> int list \<Rightarrow> srv \<Rightarrow> srv" where
  "tag_add_bcasts t ds s = fold (tag_add_bcast t) ds s"

lemma tag_add_bcast_frame: "dev (tag_add_bcast t d s) = dev s"
  by (simp add: tag_add_bcast_def Let_def)

lemma tag_add_bcast_length: "length (t_bcasts (tagm (tag_add_bcast t d s) t)) \<le> Suc (length (t_bcasts (tagm s t)))"
  by (simp add: tag_add_bcast_def Let_def qsort_cmp_length)

lemma half_window_mono: "half_window B \<Longrightarrow> A \<subseteq> B \<Longrightarrow> half_window A"
  unfolding half_window_def by blast

text \<open>
  Adding the broadcast addresses of devices in a row to the list of a tag, as registrations
  do, keeps the list strictly sorted and thus free of duplicates, with exactly the addresses added,
  as long as they fit the 64 entries and no two of them are 2^31 or more apart.
\<close>

theorem bcast_list_collects_addresses:
  assumes "bcasts_ok t s" and "length (t_bcasts (tagm s t)) + length ds \<le> 64"
    and "half_window (bcast_addrs t s \<union> (\<lambda>d. d_bcast (dev s d)) ` set ds)"
  shows "bcasts_ok t (tag_add_bcasts t ds s)
    \<and> bcast_addrs t (tag_add_bcasts t ds s) = bcast_addrs t s \<union> (\<lambda>d. d_bcast (dev s d)) ` set ds"
  using assms
proof (induction ds arbitrary: s)
  case Nil
  then show ?case by (simp add: tag_add_bcasts_def)
next
  case (Cons d ds)
  let ?s = "tag_add_bcast t d s"
  have win: "half_window (insert (d_bcast (dev s d)) (bcast_addrs t s))"
    by (rule half_window_mono [OF Cons.prems(3)]) auto
  note step = tag_add_bcast_ok [OF Cons.prems(1) win]
  have ne: "length (t_bcasts (tagm s t)) \<noteq> 64" using Cons.prems(2) by simp
  have addrs: "bcast_addrs t ?s = insert (d_bcast (dev s d)) (bcast_addrs t s)" using step(2) ne by simp
  have "length (t_bcasts (tagm ?s t)) + length ds \<le> 64"
    using tag_add_bcast_length [of t d s] Cons.prems(2) by simp
  moreover have "half_window (bcast_addrs t ?s \<union> (\<lambda>d. d_bcast (dev ?s d)) ` set ds)"
    using Cons.prems(3) by (simp add: addrs tag_add_bcast_frame)
  ultimately have "bcasts_ok t (tag_add_bcasts t ds ?s)
      \<and> bcast_addrs t (tag_add_bcasts t ds ?s) = bcast_addrs t ?s \<union> (\<lambda>d. d_bcast (dev ?s d)) ` set ds"
    by (rule Cons.IH [OF step(1)])
  then show ?case by (simp add: tag_add_bcasts_def addrs tag_add_bcast_frame)
qed

definition bcast_demo :: "32 word \<Rightarrow> 32 word \<Rightarrow> 32 word \<Rightarrow> srv" where
  "bcast_demo a b c = upd_dev 7 (\<lambda>D. D\<lparr>d_bcast := a\<rparr>) (upd_dev 8 (\<lambda>D. D\<lparr>d_bcast := b\<rparr>)
     (upd_dev 9 (\<lambda>D. D\<lparr>d_bcast := c\<rparr>) demo))"

lemma bcast_list_collects_addresses_witness:
  "bcasts_ok 65537 (tag_add_bcasts 65537 [7, 8, 9] (bcast_demo 10 30 20))
    \<and> bcast_addrs 65537 (tag_add_bcasts 65537 [7, 8, 9] (bcast_demo 10 30 20)) = {10, 30, 20}"
  using bcast_list_collects_addresses [of 65537 "bcast_demo 10 30 20" "[7, 8, 9]"]
  by (simp add: bcasts_ok_def bcast_addrs_def half_window_def bcast_demo_def demo_sel demo_tag_def)

text \<open>
  Two addresses 2^31 apart are each smaller than the other for sincmp, which reads the
  unsigned difference as a signed int. With the addresses 0xf0000000, 0x10000000 and 0x90000000 in
  the list the search no longer finds the third, and adding it again lists it a second time.
\<close>

theorem bcast_list_duplicates_far_addresses:
  "t_bcasts (tagm (tag_add_bcasts 65537 [7, 8, 9, 9] (bcast_demo 0xF0000000 0x10000000 0x90000000)) 65537)
     = [7, 8, 9, 9]"
  by code_simp

end
