(* ===== verification/Casting.thy ===== *)
theory Casting
  imports Mixing_Inv Subscribe
begin

text \<open>
  Sending what was mixed (serv/cast.c, with broadcast and broadcast_local of serv/network.c): every
  packet gets the next sequence number of its tag and goes to the broadcast addresses or to each
  subscriber; the last 16 packets are kept so that a device can ask for one again.
  casting_round is one turn of the casting thread.
\<close>

subsection \<open>Sending\<close>

definition PACKET_SEQ_OUTDATE :: int where "PACKET_SEQ_OUTDATE = 4"

definition broadcast_local :: "packet \<Rightarrow> srv \<Rightarrow> srv" where
  "broadcast_local P s = emit (CastAddr 0xFFFFFFFF P) s"

definition broadcast :: "int \<Rightarrow> packet \<Rightarrow> srv \<Rightarrow> srv" where
  "broadcast t P s =
     (if t_bcasts (tagm s t) = [] then broadcast_local P s
      else fold (\<lambda>e. emit (CastAddr (d_bcast (dev s e)) P)) (t_bcasts (tagm s t)) s)"

definition dev_cast_packet :: "int \<Rightarrow> nat \<Rightarrow> srv \<Rightarrow> (int \<times> srv) option" where
  "dev_cast_packet d p s =
     do { t \<leftarrow> d_tag (dev s d); (r, s1) \<leftarrow> MIX_PUT t d p s; Some (if r \<noteq> 0 then 1 else 0, s1) }"

subsection \<open>Repeats\<close>

definition REP_CAST_SIZE :: nat where "REP_CAST_SIZE = 16"

definition outdate_reply :: "int \<Rightarrow> 32 word \<Rightarrow> srv \<Rightarrow> packet" where
  "outdate_reply t seq s =
     \<lparr>pk_id = 0, pk_seq = seq, pk_type = PACKET_SEQ_OUTDATE, pk_tag = t_id (tagm s t) mod 256,
      pk_datalen = 0, pk_data = [], pk_len = 12, pk_rep = 0\<rparr>"

definition rep_slot :: "tag \<Rightarrow> nat \<Rightarrow> nat option" where
  "rep_slot T i = t_rep_pack T ! ((t_rep_pos T + i) mod REP_CAST_SIZE)"

definition repeat_cast :: "int \<Rightarrow> int \<Rightarrow> 32 word \<Rightarrow> srv \<Rightarrow> srv" where
  "repeat_cast t d seq s =
     (case find (\<lambda>i. case rep_slot (tagm s t) i of None \<Rightarrow> False | Some r \<Rightarrow> pk_seq (pkts s r) = seq)
             (rev [0..<REP_CAST_SIZE]) of
        None \<Rightarrow> broadcast t (outdate_reply t seq s) s
      | Some i \<Rightarrow>
          (case rep_slot (tagm s t) i of
             None \<Rightarrow> s
           | Some r \<Rightarrow>
               if pk_rep (pkts s r) < 8
               then upd_pkt r (\<lambda>P. P\<lparr>pk_rep := pk_rep P + 1\<rparr>) (broadcast t (pkts s r) s)
               else s))"

definition outdate_pack :: "int \<Rightarrow> nat \<Rightarrow> srv \<Rightarrow> srv" where
  "outdate_pack t p s =
     (let pos = t_rep_pos (tagm s t);
          out = t_rep_pack (tagm s t) ! pos;
          s1 = upd_tag t (\<lambda>T. T\<lparr>t_rep_pack := (t_rep_pack T)[pos := Some p], t_rep_pos := (pos + 1) mod REP_CAST_SIZE\<rparr>)
                 (upd_pkt p (\<lambda>P. P\<lparr>pk_rep := 0\<rparr>) s)
      in case out of None \<Rightarrow> s1 | Some r \<Rightarrow> pack_free r s1)"

definition tag_req_repeat :: "opts \<Rightarrow> int \<Rightarrow> int \<Rightarrow> 32 word \<Rightarrow> srv \<Rightarrow> srv" where
  "tag_req_repeat cfg t d seq s =
     (if \<not> opt_broadcast cfg \<and> opt_tcp_audio cfg then s
      else if cfifo_full (t_rep_reqs (tagm s t)) then s
      else upd_tag t (\<lambda>T. T\<lparr>t_rep_reqs :=
             snd (cfifo_in (cfifo_store (cfifo_get_in (t_rep_reqs T)) (d, seq) (t_rep_reqs T)))\<rparr>) s)"

text \<open>The loop ends when the fifo is empty; None is a loop that does not.\<close>

partial_function (option) repeats_from :: "int \<Rightarrow> srv \<Rightarrow> srv option" where
  "repeats_from t s =
     (if cfifo_empty (t_rep_reqs (tagm s t)) then Some s
      else (let (d, seq) = cfifo_fetch (cfifo_get_out (t_rep_reqs (tagm s t))) (t_rep_reqs (tagm s t));
                s1 = repeat_cast t d seq s
            in repeats_from t (upd_tag t (\<lambda>T. T\<lparr>t_rep_reqs := snd (cfifo_out (t_rep_reqs T))\<rparr>) s1)))"

definition tag_repeats :: "opts \<Rightarrow> int \<Rightarrow> srv \<Rightarrow> srv option" where
  "tag_repeats cfg t s =
     (if \<not> opt_broadcast cfg \<and> opt_tcp_audio cfg then Some s else repeats_from t s)"

subsection \<open>Casting\<close>

definition dev_send_audio :: "int \<Rightarrow> packet \<Rightarrow> srv \<Rightarrow> srv" where
  "dev_send_audio d P s = emit (SendAudio d P) s"

definition sendto_dev_udp :: "int \<Rightarrow> packet \<Rightarrow> srv \<Rightarrow> srv" where
  "sendto_dev_udp d P s = emit (CastTo d P) s"

definition cast_to_dev :: "opts \<Rightarrow> packet \<Rightarrow> int \<Rightarrow> srv \<Rightarrow> srv" where
  "cast_to_dev cfg P d s =
     (if d = 0 then s
      else if opt_tcp_audio cfg then (if d_audio_sock (dev s d) > 0 then dev_send_audio d P s else s)
      else (if d_active (dev s d) \<noteq> 0 then sendto_dev_udp d P s else s))"

definition tag_cast_pack :: "opts \<Rightarrow> int \<Rightarrow> nat \<Rightarrow> srv \<Rightarrow> srv option" where
  "tag_cast_pack cfg t p s =
     (let s1 = upd_tag t (\<lambda>T. T\<lparr>t_seq := t_seq T + 1\<rparr>) s;
          s2 = upd_pkt p (\<lambda>P. P\<lparr>pk_seq := t_seq (tagm s1 t), pk_tag := t_id (tagm s1 t) mod 256\<rparr>) s1
      in if opt_broadcast cfg then Some (broadcast t (pkts s2 p) s2)
         else do { ds \<leftarrow> list_devs (SubHead t) s2; Some (fold (cast_to_dev cfg (pkts s2 p)) ds s2) })"

text \<open>What the thread does with a packet it got, and one turn of its loop.\<close>

definition cast_mixed :: "opts \<Rightarrow> int \<Rightarrow> nat \<Rightarrow> srv \<Rightarrow> srv option" where
  "cast_mixed cfg t p s = do { s1 \<leftarrow> tag_cast_pack cfg t p s; Some (outdate_pack t p s1) }"

definition casting_round :: "opts \<Rightarrow> (nat \<Rightarrow> srv \<Rightarrow> srv) \<Rightarrow> int \<Rightarrow> srv \<Rightarrow> srv option" where
  "casting_round cfg env t s =
     do { s1 \<leftarrow> tag_repeats cfg t s;
          (r, s2) \<leftarrow> MIX_GET cfg env t s1;
          case r of None \<Rightarrow> Some s2 | Some p \<Rightarrow> cast_mixed cfg t p s2 }"

subsection \<open>Frames\<close>

lemma fold_emit: "fold (\<lambda>e. emit (f e)) xs s = s\<lparr>outs := outs s @ map f xs\<rparr>"
  by (induction xs arbitrary: s) (simp_all add: emit_def)

definition bcast_dests :: "int \<Rightarrow> srv \<Rightarrow> 32 word list" where
  "bcast_dests t s = (if t_bcasts (tagm s t) = [] then [0xFFFFFFFF] else map (\<lambda>e. d_bcast (dev s e)) (t_bcasts (tagm s t)))"

lemma broadcast_eq: "broadcast t P s = s\<lparr>outs := outs s @ map (\<lambda>a. CastAddr a P) (bcast_dests t s)\<rparr>"
  by (simp add: broadcast_def broadcast_local_def bcast_dests_def fold_emit emit_def)

lemma broadcast_sel [simp]:
  "tagm (broadcast t P s) = tagm s" "dev (broadcast t P s) = dev s" "pkts (broadcast t P s) = pkts s"
  "hp (broadcast t P s) = hp s" "outs (broadcast t P s) = outs s @ map (\<lambda>a. CastAddr a P) (bcast_dests t s)"
  by (simp_all add: broadcast_eq)

lemma cast_to_dev_sel [simp]:
  "tagm (cast_to_dev cfg P d s) = tagm s" "dev (cast_to_dev cfg P d s) = dev s"
  "pkts (cast_to_dev cfg P d s) = pkts s" "hp (cast_to_dev cfg P d s) = hp s"
  by (simp_all add: cast_to_dev_def dev_send_audio_def sendto_dev_udp_def)

lemma fold_cast_sel [simp]:
  "tagm (fold (cast_to_dev cfg P) ds s) = tagm s" "dev (fold (cast_to_dev cfg P) ds s) = dev s"
  "pkts (fold (cast_to_dev cfg P) ds s) = pkts s"
  by (induction ds arbitrary: s) simp_all

text \<open>The devices a packet is sent to.\<close>

definition cast_dests :: "opts \<Rightarrow> srv \<Rightarrow> int list \<Rightarrow> int list" where
  "cast_dests cfg s ds = filter (\<lambda>d. d \<noteq> 0 \<and>
     (if opt_tcp_audio cfg then d_audio_sock (dev s d) > 0 else d_active (dev s d) \<noteq> 0)) ds"

lemma fold_cast_outs:
  "outs (fold (cast_to_dev cfg P) ds s)
     = outs s @ map (\<lambda>d. if opt_tcp_audio cfg then SendAudio d P else CastTo d P) (cast_dests cfg s ds)"
proof (induction ds arbitrary: s)
  case (Cons d ds)
  have "cast_dests cfg (cast_to_dev cfg P d s) ds = cast_dests cfg s ds" by (simp add: cast_dests_def)
  then show ?case
    using Cons.IH [of "cast_to_dev cfg P d s"]
    by (simp add: cast_dests_def cast_to_dev_def dev_send_audio_def sendto_dev_udp_def)
qed (simp add: cast_dests_def)

subsection \<open>The window of packets that can be repeated\<close>

text \<open>ps are the packets kept, oldest first; the newest has the tag's sequence number.\<close>

definition cast_window :: "int \<Rightarrow> srv \<Rightarrow> nat list \<Rightarrow> bool" where
  "cast_window t s ps \<longleftrightarrow>
     (let T = tagm s t
      in length (t_rep_pack T) = 16 \<and> t_rep_pos T < 16 \<and> length ps \<le> 16 \<and> distinct ps
         \<and> (\<forall>i < 16. rep_slot T i = (if i < 16 - length ps then None else Some (ps ! (i - (16 - length ps)))))
         \<and> (\<forall>i < length ps. pk_seq (pkts s (ps ! i)) = t_seq T - of_nat (length ps - 1 - i)))"

definition window_add :: "nat \<Rightarrow> nat list \<Rightarrow> nat list" where
  "window_add p ps = (if length ps = 16 then tl ps else ps) @ [p]"

lemma rep_slot_push:
  assumes "length (t_rep_pack T) = 16" and "t_rep_pos T < 16" and "i < 16"
  shows "rep_slot (T\<lparr>t_rep_pack := (t_rep_pack T)[t_rep_pos T := x], t_rep_pos := (t_rep_pos T + 1) mod 16\<rparr>) i
    = (if i = 15 then x else rep_slot T (Suc i))"
proof -
  have e: "(Suc (t_rep_pos T) mod 16 + j) mod 16 = Suc (t_rep_pos T + j) mod 16" for j
    by (simp add: mod_add_left_eq)
  have "Suc (t_rep_pos T + i) mod 16 = t_rep_pos T \<longleftrightarrow> i = 15"
    using assms(2,3) by (auto simp: mod_if)
  then show ?thesis
    using assms by (auto simp: rep_slot_def REP_CAST_SIZE_def e nth_list_update)
qed

lemma cast_window_push:
  assumes w: "cast_window t s ps" and p: "p \<notin> set ps"
    and T: "tagm s' t = (tagm s t)\<lparr>t_seq := t_seq (tagm s t) + 1,
      t_rep_pack := (t_rep_pack (tagm s t))[t_rep_pos (tagm s t) := Some p],
      t_rep_pos := (t_rep_pos (tagm s t) + 1) mod 16\<rparr>"
    and pk: "pk_seq (pkts s' p) = t_seq (tagm s t) + 1" "\<And>r. r \<noteq> p \<Longrightarrow> pk_seq (pkts s' r) = pk_seq (pkts s r)"
  shows "cast_window t s' (window_add p ps)"
proof -
  let ?T = "tagm s t" and ?n = "length ps" and ?m = "length (window_add p ps)"
  have w': "length (t_rep_pack ?T) = 16" "t_rep_pos ?T < 16" "?n \<le> 16" "distinct ps"
    "\<And>i. i < 16 \<Longrightarrow> rep_slot ?T i = (if i < 16 - ?n then None else Some (ps ! (i - (16 - ?n))))"
    "\<And>i. i < ?n \<Longrightarrow> pk_seq (pkts s (ps ! i)) = t_seq ?T - of_nat (?n - 1 - i)"
    using w by (auto simp: cast_window_def Let_def)
  have m: "?m = (if ?n = 16 then 16 else ?n + 1)" using w'(3) by (auto simp: window_add_def)
  have nth: "window_add p ps ! j = (if j = ?m - 1 then p else ps ! (j + (?n + 1 - ?m)))" if "j < ?m" for j
    using that m by (auto simp: window_add_def nth_append nth_tl)
  have slots: "rep_slot (tagm s' t) i = (if i < 16 - ?m then None else Some (window_add p ps ! (i - (16 - ?m))))"
    if "i < 16" for i
  proof -
    have push: "rep_slot (tagm s' t) i = (if i = 15 then Some p else rep_slot ?T (Suc i))"
      using rep_slot_push [OF w'(1,2) that, of "Some p"] unfolding T by (simp add: rep_slot_def)
    show ?thesis
    proof (cases "i = 15")
      case True
      have "\<not> i < 16 - ?m" "i - (16 - ?m) = ?m - 1" "?m - 1 < ?m" using True m w'(3) by auto
      then show ?thesis using push True nth [of "?m - 1"] by simp
    next
      case False
      then have i: "Suc i < 16" using that by simp
      show ?thesis
      proof (cases "i < 16 - ?m")
        case True
        then have "Suc i < 16 - ?n" using m w'(3) by (auto split: if_splits)
        then show ?thesis using push False w'(5) [OF i] True by simp
      next
        case out: False
        let ?j = "i - (16 - ?m)"
        have j: "?j < ?m" "?j \<noteq> ?m - 1" "?j + (?n + 1 - ?m) = Suc i - (16 - ?n)" "\<not> Suc i < 16 - ?n"
          using out False that m w'(3) by (auto split: if_splits)
        have "window_add p ps ! ?j = ps ! (Suc i - (16 - ?n))" using nth [OF j(1)] j(2,3) by simp
        then show ?thesis using push False w'(5) [OF i] j(4) out by simp
      qed
    qed
  qed
  have seqs: "pk_seq (pkts s' (window_add p ps ! i)) = t_seq (tagm s' t) - of_nat (?m - 1 - i)" if "i < ?m" for i
  proof (cases "i = ?m - 1")
    case True
    then show ?thesis using nth [OF that] pk(1) by (simp add: T)
  next
    case False
    let ?k = "i + (?n + 1 - ?m)"
    have k: "?k < ?n" "Suc (?n - 1 - ?k) = ?m - 1 - i" using False that m w'(3) by (auto split: if_splits)
    have ne: "ps ! ?k \<noteq> p" using nth_mem [OF k(1)] p by metis
    have at: "window_add p ps ! i = ps ! ?k" using nth [OF that] False by (simp only: if_False)
    have seq: "t_seq (tagm s' t) = t_seq ?T + 1" unfolding T by simp
    have "of_nat (?m - 1 - i) = (of_nat (?n - 1 - ?k) + 1 :: 32 word)" unfolding k(2) [symmetric] by simp
    then show ?thesis unfolding at pk(2) [OF ne] w'(6) [OF k(1)] seq by simp
  qed
  have dist: "distinct (window_add p ps)" using w'(4) p by (cases ps) (auto simp: window_add_def)
  show ?thesis
    unfolding cast_window_def Let_def
  proof (intro conjI)
    show "length (t_rep_pack (tagm s' t)) = 16" "t_rep_pos (tagm s' t) < 16" by (simp_all add: T w'(1))
    show "?m \<le> 16" using m w'(3) by auto
    show "distinct (window_add p ps)" by (rule dist)
    show "\<forall>i < 16. rep_slot (tagm s' t) i = (if i < 16 - ?m then None else Some (window_add p ps ! (i - (16 - ?m))))"
      using slots by blast
    show "\<forall>i < ?m. pk_seq (pkts s' (window_add p ps ! i)) = t_seq (tagm s' t) - of_nat (?m - 1 - i)"
      using seqs by blast
  qed
qed

lemma tag_cast_pack_sel:
  assumes "tag_cast_pack cfg t p s = Some s'"
  shows "tagm s' = (tagm s)(t := (tagm s t)\<lparr>t_seq := t_seq (tagm s t) + 1\<rparr>)"
    and "pkts s' = (pkts s)(p := (pkts s p)\<lparr>pk_seq := t_seq (tagm s t) + 1, pk_tag := t_id (tagm s t) mod 256\<rparr>)"
    and "dev s' = dev s"
  using assms by (auto simp: tag_cast_pack_def Let_def split: if_splits)

lemma outdate_pack_sel:
  "tagm (outdate_pack t p s) = (tagm s)(t := (tagm s t)\<lparr>
      t_rep_pack := (t_rep_pack (tagm s t))[t_rep_pos (tagm s t) := Some p],
      t_rep_pos := (t_rep_pos (tagm s t) + 1) mod REP_CAST_SIZE\<rparr>)"
  "pkts (outdate_pack t p s) = (pkts s)(p := (pkts s p)\<lparr>pk_rep := 0\<rparr>)" "dev (outdate_pack t p s) = dev s"
  by (auto simp: outdate_pack_def Let_def pack_free_def split: option.splits)

lemma outdate_pack_outs:
  assumes "cast_window t s ps"
  shows "outs (outdate_pack t p s) = outs s @ (if length ps = 16 then [Freed (hd ps)] else [])"
proof -
  have "t_rep_pack (tagm s t) ! t_rep_pos (tagm s t) = rep_slot (tagm s t) 0"
    using assms by (simp add: cast_window_def Let_def rep_slot_def REP_CAST_SIZE_def)
  also have "\<dots> = (if length ps = 16 then Some (hd ps) else None)"
    using assms by (cases ps) (auto simp: cast_window_def Let_def)
  finally show ?thesis by (simp add: outdate_pack_def Let_def pack_free_def)
qed

lemma cast_mixed_window:
  assumes w: "cast_window t s ps" and p: "p \<notin> set ps" and run: "cast_mixed cfg t p s = Some s'"
  shows "cast_window t s' (window_add p ps)" and "t_seq (tagm s' t) = t_seq (tagm s t) + 1"
proof -
  obtain s1 where s1: "tag_cast_pack cfg t p s = Some s1" "s' = outdate_pack t p s1"
    using run by (auto simp: cast_mixed_def)
  note sel = tag_cast_pack_sel [OF s1(1)]
  have T: "tagm s' t = (tagm s t)\<lparr>t_seq := t_seq (tagm s t) + 1,
      t_rep_pack := (t_rep_pack (tagm s t))[t_rep_pos (tagm s t) := Some p],
      t_rep_pos := (t_rep_pos (tagm s t) + 1) mod 16\<rparr>"
    unfolding s1(2) outdate_pack_sel sel by (simp add: REP_CAST_SIZE_def)
  then show "t_seq (tagm s' t) = t_seq (tagm s t) + 1" by simp
  show "cast_window t s' (window_add p ps)"
    by (rule cast_window_push [OF w p T]) (simp_all add: s1(2) outdate_pack_sel sel)
qed

subsection \<open>Answering a request\<close>

lemma find_unique:
  assumes "i \<in> set xs" and "P i" and "\<And>j. j \<in> set xs \<Longrightarrow> P j \<Longrightarrow> j = i"
  shows "find P xs = Some i"
  using assms
proof (induction xs)
  case (Cons x xs)
  show ?case
  proof (cases "P x")
    case True
    then show ?thesis using Cons.prems(3) [of x] by simp
  next
    case False
    then have "i \<in> set xs" using Cons.prems(1,2) by auto
    from Cons.IH [OF this Cons.prems(2)] Cons.prems(3) False show ?thesis by simp
  qed
qed simp

lemma seq_back_inj:
  assumes "q - of_nat a = (q - of_nat b :: 32 word)" and "a < 16" and "b < 16"
  shows "a = b"
proof -
  have "(of_nat a :: 32 word) = of_nat b" using assms(1) by simp
  then have "unat (of_nat a :: 32 word) = unat (of_nat b :: 32 word)" by simp
  then show ?thesis using assms(2,3) by (simp add: unat_of_nat)
qed

lemma window_slot:
  assumes "cast_window t s ps" and "i < 16"
  shows "(case rep_slot (tagm s t) i of None \<Rightarrow> False | Some r \<Rightarrow> pk_seq (pkts s r) = seq)
    \<longleftrightarrow> 16 - length ps \<le> i \<and> seq = t_seq (tagm s t) - of_nat (15 - i)"
proof -
  have slot: "rep_slot (tagm s t) i = (if i < 16 - length ps then None else Some (ps ! (i - (16 - length ps))))"
    using assms by (simp add: cast_window_def Let_def)
  show ?thesis
  proof (cases "i < 16 - length ps")
    case False
    have j: "i - (16 - length ps) < length ps" "length ps - 1 - (i - (16 - length ps)) = 15 - i"
      using False assms by (auto simp: cast_window_def Let_def)
    then have "pk_seq (pkts s (ps ! (i - (16 - length ps)))) = t_seq (tagm s t) - of_nat (15 - i)"
      using assms(1) by (simp add: cast_window_def Let_def)
    then show ?thesis using slot False by auto
  qed (simp add: slot)
qed

lemma repeat_cast_hit:
  assumes w: "cast_window t s ps" and k: "k < length ps"
  defines "r \<equiv> ps ! (length ps - 1 - k)"
  shows "repeat_cast t d (t_seq (tagm s t) - of_nat k) s =
    (if pk_rep (pkts s r) < 8 then upd_pkt r (\<lambda>P. P\<lparr>pk_rep := pk_rep P + 1\<rparr>) (broadcast t (pkts s r) s) else s)"
proof -
  have n: "length ps \<le> 16" using w by (simp add: cast_window_def Let_def)
  have i: "15 - k < 16" "15 - (15 - k) = k" "16 - length ps \<le> 15 - k" using k n by auto
  have "find (\<lambda>i. case rep_slot (tagm s t) i of None \<Rightarrow> False | Some r \<Rightarrow> pk_seq (pkts s r) = t_seq (tagm s t) - of_nat k)
      (rev [0..<16]) = Some (15 - k)"
  proof (rule find_unique)
    fix j assume j: "j \<in> set (rev [0..<16 :: nat])"
      "case rep_slot (tagm s t) j of None \<Rightarrow> False | Some r \<Rightarrow> pk_seq (pkts s r) = t_seq (tagm s t) - of_nat k"
    then have "j < 16" by simp
    from j(2) have "t_seq (tagm s t) - of_nat k = t_seq (tagm s t) - of_nat (15 - j)"
      unfolding window_slot [OF w \<open>j < 16\<close>] by simp
    from seq_back_inj [OF this] k n \<open>j < 16\<close> show "j = 15 - k" by simp
  qed (use i window_slot [OF w i(1)] in simp_all)
  moreover have "rep_slot (tagm s t) (15 - k) = Some r"
  proof -
    have "15 - k - (16 - length ps) = length ps - 1 - k" using k n by auto
    then show ?thesis using w i(1,3) by (simp add: cast_window_def Let_def r_def)
  qed
  ultimately show ?thesis unfolding repeat_cast_def REP_CAST_SIZE_def by (simp only: option.case)
qed

lemma repeat_cast_miss:
  assumes w: "cast_window t s ps" and "\<forall>k < length ps. seq \<noteq> t_seq (tagm s t) - of_nat k"
  shows "repeat_cast t d seq s = broadcast t (outdate_reply t seq s) s"
proof -
  have "find (\<lambda>i. case rep_slot (tagm s t) i of None \<Rightarrow> False | Some r \<Rightarrow> pk_seq (pkts s r) = seq) (rev [0..<16]) = None"
    unfolding find_None_iff
  proof
    assume "\<exists>x. x \<in> set (rev [0..<16 :: nat]) \<and> (case rep_slot (tagm s t) x of None \<Rightarrow> False | Some r \<Rightarrow> pk_seq (pkts s r) = seq)"
    then obtain i where i: "i < 16" "16 - length ps \<le> i" "seq = t_seq (tagm s t) - of_nat (15 - i)"
      using window_slot [OF w] by auto
    have "15 - i < length ps" using i w by (auto simp: cast_window_def Let_def)
    then show False using assms(2) i(3) by blast
  qed
  then show ?thesis unfolding repeat_cast_def REP_CAST_SIZE_def by (simp only: option.case)
qed

subsection \<open>Draining the requests\<close>

definition set_reqs :: "int \<Rightarrow> (int \<times> 32 word) cfifo \<Rightarrow> srv \<Rightarrow> srv" where
  "set_reqs t q = upd_tag t (\<lambda>T. T\<lparr>t_rep_reqs := q\<rparr>)"

lemma set_reqs_sel [simp]:
  "tagm (set_reqs t q s) = (tagm s)(t := (tagm s t)\<lparr>t_rep_reqs := q\<rparr>)" "pkts (set_reqs t q s) = pkts s"
  "outs (set_reqs t q s) = outs s" "dev (set_reqs t q s) = dev s"
  by (simp_all add: set_reqs_def)

lemma repeat_cast_tagm [simp]: "tagm (repeat_cast t d seq s) = tagm s" "dev (repeat_cast t d seq s) = dev s"
  by (simp_all add: repeat_cast_def split: option.splits)

lemma broadcast_set_reqs: "broadcast t P (set_reqs t q s) = set_reqs t q (broadcast t P s)"
  by (simp add: broadcast_eq bcast_dests_def set_reqs_def upd_tag_def)

lemma upd_pkt_set_reqs: "upd_pkt p f (set_reqs t q s) = set_reqs t q (upd_pkt p f s)"
  by (simp add: upd_pkt_def set_reqs_def upd_tag_def)

lemma repeat_cast_set_reqs: "repeat_cast t d seq (set_reqs t q s) = set_reqs t q (repeat_cast t d seq s)"
proof -
  have slots: "rep_slot (tagm (set_reqs t q s) t) = rep_slot (tagm s t)" by (simp add: rep_slot_def fun_eq_iff)
  have reply: "outdate_reply t seq (set_reqs t q s) = outdate_reply t seq s" by (simp add: outdate_reply_def)
  let ?f = "find (\<lambda>i. case rep_slot (tagm s t) i of None \<Rightarrow> False | Some r \<Rightarrow> pk_seq (pkts s r) = seq) (rev [0..<REP_CAST_SIZE])"
  have pk: "pkts (set_reqs t q s) = pkts s" by simp
  show ?thesis
    unfolding repeat_cast_def slots reply pk
    by (cases ?f; cases "rep_slot (tagm s t) (the ?f)") (simp_all add: broadcast_set_reqs upd_pkt_set_reqs)
qed

lemma set_reqs_set_reqs: "set_reqs t q (set_reqs t r s) = set_reqs t q s"
  by (simp add: set_reqs_def upd_tag_def)

text \<open>All requests queued are answered in order, and none is left.\<close>

lemma repeats_from_rep:
  assumes "cf_rep 4 (t_rep_reqs (tagm s t)) rs"
  shows "\<exists>q. repeats_from t s = Some (set_reqs t q (fold (\<lambda>(d, seq). repeat_cast t d seq) rs s)) \<and> cf_rep 4 q []"
  using assms
proof (induction rs arbitrary: s)
  case Nil
  have "set_reqs t (t_rep_reqs (tagm s t)) s = s" by (simp add: set_reqs_def upd_tag_def)
  with Nil show ?case using cfifo_empty_rep [OF Nil] by (subst repeats_from.simps) (auto intro!: exI)
next
  case (Cons r rs)
  let ?q = "t_rep_reqs (tagm s t)"
  obtain d seq where r: "r = (d, seq)" by (cases r)
  have ne: "\<not> cfifo_empty ?q" using cfifo_empty_rep [OF Cons.prems] by simp
  note get = cfifo_get_rep [OF Cons.prems]
  let ?s = "set_reqs t (cfifo__out ?q) (repeat_cast t d seq s)"
  have step: "repeats_from t s = repeats_from t ?s"
    using ne get(1) r by (subst repeats_from.simps) (simp add: cfifo_out_def set_reqs_def upd_tag_def)
  have "cf_rep 4 (t_rep_reqs (tagm ?s t)) rs" using get(2) by simp
  from Cons.IH [OF this] obtain q where q: "repeats_from t ?s = Some (set_reqs t q (fold (\<lambda>(d, seq). repeat_cast t d seq) rs ?s))"
    "cf_rep 4 q []" by blast
  have "fold (\<lambda>(d, seq). repeat_cast t d seq) rs (set_reqs t p u)
      = set_reqs t p (fold (\<lambda>(d, seq). repeat_cast t d seq) rs u)" for p u
    by (induction rs arbitrary: u) (auto simp: repeat_cast_set_reqs)
  then show ?case using step q r by (auto simp: set_reqs_set_reqs)
qed

end
