(* ===== verification/Casting_Props.thy ===== *)
theory Casting_Props
  imports Casting Demo
begin

text \<open>Properties of the casting of packets (Casting) with their witnesses.\<close>

subsection \<open>Sequence numbers and the window\<close>

text \<open>A packet may be cast again only after it has left the window.\<close>

fun fresh_casts :: "nat list \<Rightarrow> nat list \<Rightarrow> bool" where
  "fresh_casts ws [] \<longleftrightarrow> True"
| "fresh_casts ws (p # ps) \<longleftrightarrow> p \<notin> set ws \<and> fresh_casts (window_add p ws) ps"

lemma window_add_length: "length ws \<le> 16 \<Longrightarrow> length (window_add p ws) \<le> 16"
  by (simp add: window_add_def)

lemma fold_window_add:
  "length ws \<le> 16 \<Longrightarrow> fold window_add ps ws = drop (length ws + length ps - 16) (ws @ ps)"
proof (induction ps arbitrary: ws)
  case (Cons p ps)
  have w: "window_add p ws = drop (length ws + 1 - 16) (ws @ [p])"
    using Cons.prems by (cases ws) (auto simp: window_add_def)
  have "fold window_add (p # ps) ws = drop (length (window_add p ws) + length ps - 16) (window_add p ws @ ps)"
    using Cons.IH [OF window_add_length [OF Cons.prems]] by simp
  also have "\<dots> = drop (length ws + length (p # ps) - 16) (ws @ p # ps)"
    using Cons.prems by (cases "length ws = 16") (auto simp: w drop_Suc)
  finally show ?case .
qed simp

lemma cast_mixed_defined:
  assumes "opt_broadcast cfg \<or> (\<exists>ds. dlist (hp s) (SubHead t) (map DSub ds))"
  shows "\<exists>s'. cast_mixed cfg t p s = Some s' \<and> hp s' = hp s"
proof -
  have hp: "hp (fold (cast_to_dev cfg P) ds u) = hp u" for P ds u by (induction ds arbitrary: u) simp_all
  have o: "hp (outdate_pack t p u) = hp u" for u
    by (simp add: outdate_pack_def Let_def pack_free_def split: option.split)
  have "\<exists>ds. list_devs (SubHead t) u = Some ds" if "dlist (hp u) (SubHead t) (map DSub ds)" for u ds
    using list_for_each_dlist [OF that] by (simp add: list_devs_def del: map_map)
  note subs = this
  have "\<exists>s1. tag_cast_pack cfg t p s = Some s1 \<and> hp s1 = hp s"
  proof (cases "opt_broadcast cfg")
    case True
    then show ?thesis by (simp add: tag_cast_pack_def Let_def)
  next
    case False
    let ?u = "upd_pkt p (\<lambda>P. P\<lparr>pk_seq := t_seq (tagm (upd_tag t (\<lambda>T. T\<lparr>t_seq := t_seq T + 1\<rparr>) s) t),
      pk_tag := t_id (tagm (upd_tag t (\<lambda>T. T\<lparr>t_seq := t_seq T + 1\<rparr>) s) t) mod 256\<rparr>) (upd_tag t (\<lambda>T. T\<lparr>t_seq := t_seq T + 1\<rparr>) s)"
    have "hp ?u = hp s" by simp
    with subs [of ?u] False assms obtain ds where "list_devs (SubHead t) ?u = Some ds" by auto
    then show ?thesis unfolding tag_cast_pack_def Let_def using False by (simp add: hp)
  qed
  then show ?thesis by (auto simp: cast_mixed_def o)
qed

text \<open>
  C32. Casting packets one after another, to the broadcast addresses or to the subscribers, gives
  them consecutive sequence numbers of the tag, modulo 2^32, and keeps exactly the last 16 for
  repeating, oldest first, however the ring of slots has wrapped around.
\<close>

theorem casting_keeps_window:
  assumes "cast_window t s ws" and "fresh_casts ws ps"
    and "opt_broadcast cfg \<or> (\<exists>ds. dlist (hp s) (SubHead t) (map DSub ds))"
  shows "\<exists>s'. foldM (cast_mixed cfg t) ps s = Some s'
    \<and> cast_window t s' (drop (length ws + length ps - 16) (ws @ ps))
    \<and> t_seq (tagm s' t) = t_seq (tagm s t) + of_nat (length ps)"
proof -
  have "length ws \<le> 16" using assms(1) by (simp add: cast_window_def Let_def)
  then have eq: "drop (length ws + length ps - 16) (ws @ ps) = fold window_add ps ws" by (simp add: fold_window_add)
  show ?thesis
    unfolding eq using assms
  proof (induction ps arbitrary: ws s)
    case (Cons p ps)
    obtain s1 where s1: "cast_mixed cfg t p s = Some s1" "hp s1 = hp s"
      using cast_mixed_defined [OF Cons.prems(3)] by blast
    have p: "p \<notin> set ws" "fresh_casts (window_add p ws) ps" using Cons.prems(2) by simp_all
    note w1 = cast_mixed_window [OF Cons.prems(1) p(1) s1(1)]
    have "opt_broadcast cfg \<or> (\<exists>ds. dlist (hp s1) (SubHead t) (map DSub ds))" using Cons.prems(3) s1(2) by simp
    from Cons.IH [OF w1(1) p(2) this] s1(1) w1(2) show ?case by (auto simp: add.assoc)
  qed simp
qed

definition bcast_cfg :: opts where
  "bcast_cfg = \<lparr>opt_flush = False, opt_sync_policy = SYNC_WAIT, opt_silence_drop = False, opt_broadcast = True, opt_tcp_audio = False\<rparr>"

lemma demo_window: "cast_window 65537 demo []"
  by (simp add: cast_window_def Let_def demo_sel demo_tag_def rep_slot_def REP_CAST_SIZE_def)

lemma casting_keeps_window_witness:
  "\<exists>s'. foldM (cast_mixed bcast_cfg 65537) [3, 4, 5] demo = Some s'
    \<and> cast_window 65537 s' [3, 4, 5] \<and> t_seq (tagm s' 65537) = 3"
  using casting_keeps_window [OF demo_window, of "[3, 4, 5]" bcast_cfg]
  by (simp add: bcast_cfg_def window_add_def demo_sel demo_tag_def)

text \<open>The answer to a request, and the packet's count of repeats after it.\<close>

definition request_answer :: "nat list \<Rightarrow> int \<Rightarrow> srv \<Rightarrow> 32 word \<Rightarrow> packet list" where
  "request_answer ps t s seq =
     (case find (\<lambda>r. pk_seq (pkts s r) = seq) ps of
        None \<Rightarrow> [outdate_reply t seq s]
      | Some r \<Rightarrow> if pk_rep (pkts s r) < 8 then [pkts s r] else [])"

definition count_repeat :: "nat list \<Rightarrow> 32 word \<Rightarrow> srv \<Rightarrow> srv" where
  "count_repeat ps seq s =
     (case find (\<lambda>r. pk_seq (pkts s r) = seq) ps of
        None \<Rightarrow> s
      | Some r \<Rightarrow> if pk_rep (pkts s r) < 8 then upd_pkt r (\<lambda>P. P\<lparr>pk_rep := pk_rep P + 1\<rparr>) s else s)"

fun request_answers :: "nat list \<Rightarrow> int \<Rightarrow> srv \<Rightarrow> (int \<times> 32 word) list \<Rightarrow> packet list" where
  "request_answers ps t s [] = []"
| "request_answers ps t s ((d, seq) # rs) = request_answer ps t s seq @ request_answers ps t (count_repeat ps seq s) rs"

definition sent_to_all :: "int \<Rightarrow> srv \<Rightarrow> packet list \<Rightarrow> out list" where
  "sent_to_all t s Ps = concat (map (\<lambda>P. map (\<lambda>a. CastAddr a P) (bcast_dests t s)) Ps)"

lemma request_answered:
  assumes w: "cast_window t s ps"
  shows "repeat_cast t d seq s = (count_repeat ps seq s)\<lparr>outs := outs s @ sent_to_all t s (request_answer ps t s seq)\<rparr>"
proof (cases "\<exists>k < length ps. seq = t_seq (tagm s t) - of_nat k")
  case True
  then obtain k where k: "k < length ps" "seq = t_seq (tagm s t) - of_nat k" by blast
  let ?r = "ps ! (length ps - 1 - k)"
  have n: "length ps \<le> 16" "\<And>i. i < length ps \<Longrightarrow> pk_seq (pkts s (ps ! i)) = t_seq (tagm s t) - of_nat (length ps - 1 - i)"
    using w by (auto simp: cast_window_def Let_def)
  have "find (\<lambda>r. pk_seq (pkts s r) = seq) ps = Some ?r"
  proof (rule find_unique)
    show "?r \<in> set ps" using k(1) by simp
    show "pk_seq (pkts s ?r) = seq" using n(2) [of "length ps - 1 - k"] k by simp
    fix r assume "r \<in> set ps" and r: "pk_seq (pkts s r) = seq"
    then obtain i where i: "i < length ps" "r = ps ! i" by (auto simp: in_set_conv_nth)
    then have "t_seq (tagm s t) - of_nat (length ps - 1 - i) = t_seq (tagm s t) - of_nat k" using n(2) r k(2) by simp
    from seq_back_inj [OF this] n(1) k(1) i(1) have "length ps - 1 - i = k" by simp
    then have "i = length ps - 1 - k" using i(1) k(1) by linarith
    then show "r = ?r" using i(2) by simp
  qed
  then show ?thesis using repeat_cast_hit [OF w k(1), of d] k(2)
    by (simp add: request_answer_def count_repeat_def sent_to_all_def broadcast_eq upd_pkt_def)
next
  case False
  have "find (\<lambda>r. pk_seq (pkts s r) = seq) ps = None"
    unfolding find_None_iff
  proof
    assume "\<exists>r. r \<in> set ps \<and> pk_seq (pkts s r) = seq"
    then obtain i where "i < length ps" "pk_seq (pkts s (ps ! i)) = seq" by (auto simp: in_set_conv_nth)
    then have "seq = t_seq (tagm s t) - of_nat (length ps - 1 - i)" "length ps - 1 - i < length ps"
      using w by (auto simp: cast_window_def Let_def)
    then show False using False by blast
  qed
  moreover have "repeat_cast t d seq s = broadcast t (outdate_reply t seq s) s"
    by (rule repeat_cast_miss [OF w]) (use False in blast)
  ultimately show ?thesis by (simp add: request_answer_def count_repeat_def sent_to_all_def broadcast_eq)
qed

lemma count_repeat_window:
  "cast_window t ((count_repeat ps seq s)\<lparr>outs := x\<rparr>) qs = cast_window t s qs"
proof -
  have "pk_seq (pkts (count_repeat ps seq s) r) = pk_seq (pkts s r)" for r
    by (simp add: count_repeat_def split: option.split)
  moreover have "tagm (count_repeat ps seq s) = tagm s" by (simp add: count_repeat_def split: option.split)
  ultimately show ?thesis by (simp add: cast_window_def)
qed

lemma request_answers_outs: "request_answers ps t (s\<lparr>outs := x\<rparr>) rs = request_answers ps t s rs"
proof (induction rs arbitrary: s)
  case (Cons r rs)
  obtain d seq where r: "r = (d, seq)" by (cases r)
  have "count_repeat ps seq (s\<lparr>outs := x\<rparr>) = (count_repeat ps seq s)\<lparr>outs := x\<rparr>"
    by (simp add: count_repeat_def upd_pkt_def split: option.split)
  moreover have "request_answer ps t (s\<lparr>outs := x\<rparr>) seq = request_answer ps t s seq"
    by (simp add: request_answer_def outdate_reply_def split: option.split)
  ultimately show ?case using Cons.IH [of "count_repeat ps seq s"] by (simp add: r)
qed simp

lemma sent_to_all_cong: "tagm s' = tagm s \<Longrightarrow> dev s' = dev s \<Longrightarrow> sent_to_all t s' = sent_to_all t s"
  by (simp add: sent_to_all_def bcast_dests_def fun_eq_iff)

lemma count_repeat_sel: "tagm (count_repeat ps seq s) = tagm s" "dev (count_repeat ps seq s) = dev s" "outs (count_repeat ps seq s) = outs s"
  by (simp_all add: count_repeat_def split: option.split)

lemma requests_answered:
  "cast_window t s ps \<Longrightarrow> outs (fold (\<lambda>(d, seq). repeat_cast t d seq) rs s)
    = outs s @ sent_to_all t s (request_answers ps t s rs)"
proof (induction rs arbitrary: s)
  case Nil
  then show ?case by (simp add: sent_to_all_def)
next
  case (Cons r rs)
  obtain d seq where r: "r = (d, seq)" by (cases r)
  note step = request_answered [OF Cons.prems, of d seq]
  let ?s = "repeat_cast t d seq s"
  have w: "cast_window t ?s ps" unfolding step using Cons.prems by (simp add: count_repeat_window)
  have "outs (fold (\<lambda>(d, seq). repeat_cast t d seq) rs ?s) = outs ?s @ sent_to_all t ?s (request_answers ps t ?s rs)"
    by (rule Cons.IH [OF w])
  moreover have "request_answers ps t ?s rs = request_answers ps t (count_repeat ps seq s) rs"
    unfolding step by (rule request_answers_outs)
  moreover have "sent_to_all t ?s = sent_to_all t s" by (rule sent_to_all_cong) simp_all
  moreover have "outs ?s = outs s @ sent_to_all t s (request_answer ps t s seq)" by (simp add: step)
  ultimately show ?case by (simp add: r sent_to_all_def)
qed

text \<open>
  The requests for repeats that are queued are answered in order and none is left: a request
  for one of the packets kept makes the server broadcast that packet, which has the sequence number
  asked for, unless it was repeated 8 times already, and a request for any other number is answered
  with a notice that it is outdated.
\<close>

theorem repeat_requests_answered:
  assumes "cast_window t s ps" and "cf_rep 4 (t_rep_reqs (tagm s t)) rs"
    and "opt_broadcast cfg \<or> \<not> opt_tcp_audio cfg"
  shows "\<exists>s'. tag_repeats cfg t s = Some s' \<and> cf_rep 4 (t_rep_reqs (tagm s' t)) []
    \<and> outs s' = outs s @ sent_to_all t s (request_answers ps t s rs)"
  using repeats_from_rep [OF assms(2)] assms(3) requests_answered [OF assms(1)]
  by (auto simp: tag_repeats_def)

definition request_demo :: srv where
  "request_demo = tag_req_repeat bcast_cfg 65537 8 9 (tag_req_repeat bcast_cfg 65537 7 0 demo)"

lemma repeat_requests_answered_witness:
  "\<exists>s'. tag_repeats bcast_cfg 65537 request_demo = Some s' \<and> cf_rep 4 (t_rep_reqs (tagm s' 65537)) []
    \<and> outs s' = [CastAddr 0xFFFFFFFF (outdate_reply 65537 0 demo), CastAddr 0xFFFFFFFF (outdate_reply 65537 9 demo)]"
proof -
  let ?put = "\<lambda>x q. snd (cfifo_in (cfifo_store (cfifo_get_in q) x q)) :: (int \<times> 32 word) cfifo"
  let ?q = "t_rep_reqs (demo_tag 65537)"
  have 0: "cf_rep 4 ?q []" by (simp add: demo_tag_def cfifo_init_rep)
  have 1: "cf_rep 4 (?put (7, 0) ?q) [(7, 0)]" "\<not> cfifo_full ?q"
    using cfifo_put_rep [OF 0] cfifo_full_rep [OF 0] by (simp_all add: cfifo_in_def)
  have 2: "cf_rep 4 (?put (8, 9) (?put (7, 0) ?q)) [(7, 0), (8, 9)]" "\<not> cfifo_full (?put (7, 0) ?q)"
    using cfifo_put_rep [OF 1(1)] cfifo_full_rep [OF 1(1)] by (simp_all add: cfifo_in_def)
  have q: "t_rep_reqs (tagm request_demo 65537) = ?put (8, 9) (?put (7, 0) ?q)"
    using 1(2) 2(2) by (simp add: request_demo_def tag_req_repeat_def bcast_cfg_def demo_sel)
  have w: "cast_window 65537 request_demo []"
    using demo_window by (simp add: request_demo_def tag_req_repeat_def cast_window_def Let_def rep_slot_def)
  have o: "outs request_demo = []" "bcast_dests 65537 request_demo = [0xFFFFFFFF]"
    "outdate_reply 65537 seq request_demo = outdate_reply 65537 seq demo" for seq
    by (simp_all add: request_demo_def tag_req_repeat_def demo_def demo_tag_def bcast_dests_def outdate_reply_def)
  have "cf_rep 4 (t_rep_reqs (tagm request_demo 65537)) [(7, 0), (8, 9)]" using 2(1) q by simp
  from repeat_requests_answered [OF w this, of bcast_cfg] show ?thesis
    by (simp add: o sent_to_all_def request_answer_def count_repeat_def bcast_cfg_def)
qed

end
