(* ===== verification/Devices.thy ===== *)
theory Devices
  imports Tags Votectrl
begin

text \<open>
  The life of a device: creation, registration and activation (serv/devctl.c), the group it joins
  and the cache of its entries (serv/group.c), the chairmen (serv/manage.c), heartbeats
  (serv/hbeat.c) and the recovery at startup (serv/recover.c). Database writes are taken to
  succeed and appear in the trace; the option opt_mixer of tag creation is the parameter opt.
\<close>

subsection \<open>Addresses as text\<close>

text \<open>inet_ntoa on the address as a number, and inet_addr on four decimal parts; every other text
  is INADDR_NONE. Octal, hexadecimal and shortened forms, which inet_addr also accepts, are not
  modelled. The result of inet_addr is in network byte order, the first part in the low byte.\<close>

definition inet_ntoa :: "int \<Rightarrow> string" where
  "inet_ntoa a =
     num_str (a div 2 ^ 24 mod 256) @ ''.'' @ num_str (a div 2 ^ 16 mod 256) @ ''.''
       @ num_str (a div 2 ^ 8 mod 256) @ ''.'' @ num_str (a mod 256)"

fun split_dots :: "string \<Rightarrow> string \<Rightarrow> string list" where
  "split_dots acc [] = [acc]"
| "split_dots acc (c # cs) = (if c = CHR ''.'' then acc # split_dots [] cs else split_dots (acc @ [c]) cs)"

definition octet :: "string \<Rightarrow> bool" where
  "octet p \<longleftrightarrow> p \<noteq> [] \<and> list_all is_digit p \<and> read_digits 0 p < 256"

definition inet_addr :: "string \<Rightarrow> 32 word" where
  "inet_addr x =
     (case split_dots [] x of
        [a, b, c, d] \<Rightarrow>
          if octet a \<and> octet b \<and> octet c \<and> octet d
          then of_nat (read_digits 0 a + 256 * read_digits 0 b + 256 ^ 2 * read_digits 0 c + 256 ^ 3 * read_digits 0 d)
          else 0xFFFFFFFF
      | _ \<Rightarrow> 0xFFFFFFFF)"

subsection \<open>Creation and data\<close>

definition new_dev :: device where
  "new_dev =
     \<lparr>d_ops = True, d_addr = (0, 0), d_bcast = 0, d_type = 0, d_active = 0, d_audio_sock = 0,
      d_hbeat = 0, d_group = None, d_tag = None, d_sub = None,
      d_fifo = \<lparr>cf_in = 0, cf_out = 0, cf_mask = 0, cf_eord = 0, cf_data = \<lambda>_. None\<rparr>,
      d_mixbit = 0, d_timeouts = 0, d_highload = 0, d_mixer_res = 0, d_mixer_info = None, d_flushed = 0,
      d_vote_v = None, d_vote_choice = 0, d_vote_forbidden = 0, d_open = 0, d_forbidden = 0, d_reg = 0\<rparr>"

definition dev_nodes :: "int \<Rightarrow> node list" where
  "dev_nodes d = [DGrp d, DTag d, DSub d, DOpen d, DVote d, DPtc d, DVideo d]"

definition null_links :: "node list \<Rightarrow> node lheap \<Rightarrow> node lheap" where
  "null_links ns h = fold (\<lambda>n h. h(n := \<lparr>lh_next = None, lh_prev = None\<rparr>)) ns h"

definition dev_create :: "int \<Rightarrow> srv \<Rightarrow> srv" where
  "dev_create d s = upd_dev d (\<lambda>_. new_dev) (s\<lparr>hp := null_links (dev_nodes d) (hp s)\<rparr>)"

definition new_row :: "int \<Rightarrow> int \<Rightarrow> string \<Rightarrow> int \<Rightarrow> db_device" where
  "new_row d type ip port =
     \<lparr>dd_type = type, dd_ip = ip, dd_port = port, dd_tagid = 1, dd_user_id = num_str d, dd_user_card = 0,
      dd_user_name = ''?'', dd_user_gender = 1, dd_enabled = 1, dd_online = 1, dd_sub1 = 0, dd_sub2 = 0,
      dd_discuss_chair = 0, dd_discuss_open = 0, dd_regist_master = 0, dd_regist_reg = 0,
      dd_vote_master = 0, dd_vote_choice = -1, dd_ptc_id = -1, dd_ptc_cmd = []\<rparr>"

definition dev_update_data :: "int \<Rightarrow> srv \<Rightarrow> srv" where
  "dev_update_data d s =
     (let ip = inet_ntoa (fst (d_addr (dev s d))); port = snd (d_addr (dev s d))
      in case md_find_device s d of
           Some r \<Rightarrow>
             (let s1 = upd_dbdev d (\<lambda>D. D\<lparr>dd_online := 1\<rparr>) s
              in if dd_ip (dbdev s1 d) \<noteq> ip \<or> dd_port (dbdev s1 d) \<noteq> port
                 then emit (SaveDev d) (upd_dbdev d (\<lambda>D. D\<lparr>dd_ip := ip, dd_port := port\<rparr>) s1)
                 else s1)
         | None \<Rightarrow>
             emit (AddDev d) (upd_dbdev d (\<lambda>_. new_row d (d_type (dev s d)) ip port) (s\<lparr>dbdevs := dbdevs s @ [d]\<rparr>)))"

subsection \<open>Groups\<close>

definition new_group :: group where
  "new_group =
     \<lparr>g_cyctl = None, g_chairman = None, g_dev_count = replicate 8 0, g_active_count = replicate 8 0,
      g_disc_current = None, g_disc_num = 0, g_disc_members = [], g_disc_names = [], g_disc_disabled = 0,
      g_reg_mode = 0, g_reg_members = [], g_reg_expect = 0, g_reg_arrive = 0, g_reg_ids = replicate 1024 0,
      g_reg_idstr = None, g_vote_current = None, g_vote_num = 0, g_vote_expect = 0, g_vote_nvoted = 0,
      g_vote_members = [], g_vote_names = [], g_vote_v = None, g_dev_ents = None, g_dev_dirty = 0\<rparr>"

definition restore_group_vote :: "int \<Rightarrow> db_vote \<Rightarrow> srv \<Rightarrow> srv option" where
  "restore_group_vote g r s =
     do { s1 \<leftarrow> group_setup_vote g r s;
          let (v, s2) = vote_new s1;
          upd_vote v (\<lambda>w. w\<lparr>v_type := dv_type r, v_cn_options := dv_options_count r\<rparr>)
            (upd_grp g (\<lambda>G. G\<lparr>g_vote_v := Some v\<rparr>) s2) }"

text \<open>The first component is the null pointer when the database has no row for the group.\<close>

definition group_create :: "int \<Rightarrow> srv \<Rightarrow> (int option \<times> srv) option" where
  "group_create g s =
     (case md_find_group s g of
        None \<Rightarrow> Some (None, s)
      | Some r \<Rightarrow>
          (let s1 = upd_grp g (\<lambda>_. new_group) (s\<lparr>hp := init_list_head (GrpHead g) (hp s), grps := g # grps s\<rparr>);
               dg = dbgrp s1 g
           in do { s2 \<leftarrow> (if dg_discuss_id dg \<noteq> 0
                         then (case md_find_discuss s1 (dg_discuss_id dg) of
                                 None \<Rightarrow> Some s1 | Some r \<Rightarrow> group_setup_discuss g r s1)
                         else Some s1);
                   let s3 = (if dg_regist_start dg \<noteq> 0
                             then upd_grp g (\<lambda>G. G\<lparr>g_reg_expect := dg_regist_expect dg, g_reg_arrive := dg_regist_arrive dg\<rparr>) s2
                             else s2);
                   s4 \<leftarrow> (if dg_vote_id dg \<noteq> 0
                         then (case md_find_vote s3 (dg_vote_id dg) of
                                 None \<Rightarrow> Some s3 | Some r \<Rightarrow> restore_group_vote g r s3)
                         else Some s3);
                   Some (Some g, s4) }))"

definition dev_entry :: "int \<Rightarrow> srv \<Rightarrow> string" where
  "dev_entry d s =
     num_str d @ '':'' @ num_str (d_type (dev s d)) @ '':'' @ dd_user_id (dbdev s d) @ '':'' @ num_str (d_active (dev s d))"

definition append_dev_ents_cache :: "int \<Rightarrow> int \<Rightarrow> srv \<Rightarrow> srv" where
  "append_dev_ents_cache g d s =
     upd_grp g (\<lambda>G. G\<lparr>g_dev_ents := Some (list_add_str (case g_dev_ents G of None \<Rightarrow> [] | Some x \<Rightarrow> x) (dev_entry d s))\<rparr>) s"

definition refresh_dev_ents_cache :: "int \<Rightarrow> srv \<Rightarrow> srv option" where
  "refresh_dev_ents_cache g s =
     do { ensure (g_dev_ents (grp s g) \<noteq> None);
          ds \<leftarrow> list_devs (GrpHead g) (upd_grp g (\<lambda>G. G\<lparr>g_dev_ents := Some []\<rparr>) s);
          Some (upd_grp g (\<lambda>G. G\<lparr>g_dev_dirty := 0\<rparr>)
                 (fold (append_dev_ents_cache g) ds (upd_grp g (\<lambda>G. G\<lparr>g_dev_ents := Some []\<rparr>) s))) }"

definition dirty_dev_ents_cache :: "int \<Rightarrow> srv \<Rightarrow> srv" where
  "dirty_dev_ents_cache g s = upd_grp g (\<lambda>G. G\<lparr>g_dev_dirty := 1\<rparr>) s"

subsection \<open>Chairmen\<close>

text \<open>chairs[32] is filled from the front.\<close>

definition manage_add_chair :: "int \<Rightarrow> srv \<Rightarrow> srv" where
  "manage_add_chair d s =
     (if d \<in> set (chairs s) \<or> length (chairs s) \<ge> 32 then s else s\<lparr>chairs := chairs s @ [d]\<rparr>)"

definition manage_set_active :: "int \<Rightarrow> srv \<Rightarrow> srv" where
  "manage_set_active a s = s\<lparr>man_active := a\<rparr>"

definition manage_set_allow_chair :: "int \<Rightarrow> srv \<Rightarrow> srv" where
  "manage_set_allow_chair a s = s\<lparr>man_allow := a\<rparr>"

definition notify_chair :: "int \<Rightarrow> int \<Rightarrow> srv \<Rightarrow> srv" where
  "notify_chair d allow s =
     device_cmd d (''0 allow_chair_ctl '' @ num_str d @ '' '' @ num_str allow @ newline) s"

definition chair_allowed :: "srv \<Rightarrow> int" where
  "chair_allowed s = (if man_active s = 0 \<or> man_allow s \<noteq> 0 then 1 else 0)"

definition manage_notify_chair :: "int \<Rightarrow> srv \<Rightarrow> srv" where
  "manage_notify_chair d s = notify_chair d (chair_allowed s) s"

definition manage_notify_all_chairs :: "srv \<Rightarrow> srv" where
  "manage_notify_all_chairs s = fold (\<lambda>d. notify_chair d (chair_allowed s)) (chairs s) s"

subsection \<open>Registration\<close>

text \<open>array_size is an int, so a negative type passes the comparison and indexes in front of the
  array.\<close>

definition count_type :: "int \<Rightarrow> int \<Rightarrow> int list \<Rightarrow> int list option" where
  "count_type ty delta ns =
     (if ty < int (length ns)
      then (if ty < 0 then None else Some (ns[nat ty := ns ! nat ty + delta]))
      else Some ns)"

definition first_subscription :: "mixer \<Rightarrow> int \<Rightarrow> int \<Rightarrow> srv \<Rightarrow> srv option" where
  "first_subscription opt gid d s =
     (if d_type (dev s d) > DEVTYPE_NONE \<and> d_type (dev s d) < DEVTYPE_OTHER
         \<and> dd_sub1 (dbdev s d) = 0 \<and> dd_sub2 (dbdev s d) = 0
      then do { (t, s1) \<leftarrow> request_tag opt gid 1 s; dev_subscribe d t s1 }
      else Some s)"

definition join_stats :: "int \<Rightarrow> int \<Rightarrow> srv \<Rightarrow> srv option" where
  "join_stats g d s =
     do { ns \<leftarrow> count_type (d_type (dev s d)) 1 (g_dev_count (grp s g));
          let s1 = append_dev_ents_cache g d (upd_grp g (\<lambda>G. G\<lparr>g_dev_count := ns\<rparr>) s);
          Some (if d_type (dev s d) = DEVTYPE_CHAIR then manage_add_chair d s1 else s1) }"

definition dev_register :: "mixer \<Rightarrow> int \<Rightarrow> srv \<Rightarrow> (int \<times> srv) option" where
  "dev_register opt d s =
     (if get_device s d \<noteq> None
      then Some (1, case d_tag (dev s d) of
                      None \<Rightarrow> s
                    | Some t \<Rightarrow> if d_bcast (dev s d) \<noteq> 0 then tag_add_bcast t d s else s)
      else do {
        let gid = 1;
        let tid = dd_tagid (dbdev s d);
        (go, s1) \<leftarrow> (case get_group s gid of Some g \<Rightarrow> Some (Some g, s) | None \<Rightarrow> group_create gid s);
        g \<leftarrow> go;
        s2 \<leftarrow> on_heap (list_add_tail (DGrp d) (GrpHead g)) s1;
        (t, s3) \<leftarrow> request_tag opt gid tid s2;
        s4 \<leftarrow> on_heap (list_add_tail (DTag d) (TagHead t)) s3;
        let s5 = (if d_bcast (dev s4 d) \<noteq> 0 then tag_add_bcast t d s4 else s4);
        let s6 = upd_dev d (\<lambda>D. D\<lparr>d_group := Some g, d_tag := Some t\<rparr>) s5;
        let s7 = snd (tag_check_ucast t d s6);
        let s8 = upd_dev d (\<lambda>D. D\<lparr>d_sub := None, d_fifo := cfifo_init (\<lambda>_. None) 5 2\<rparr>)
                   (s7\<lparr>hp := init_list_head (DSub d) (hp s7)\<rparr>);
        let s9 = s8\<lparr>devs := d # devs s8\<rparr>;
        s10 \<leftarrow> first_subscription opt gid d s9;
        s11 \<leftarrow> join_stats g d s10;
        Some (0, s11) })"

definition dev_unregister :: "int \<Rightarrow> srv \<Rightarrow> (int \<times> srv) option" where
  "dev_unregister d s =
     do { s1 \<leftarrow> (if d_sub (dev s d) \<noteq> None
                then do { s1 \<leftarrow> on_heap (list_del (DSub d)) s; Some (upd_dev d (\<lambda>D. D\<lparr>d_sub := None\<rparr>) s1) }
                else Some s);
          s2 \<leftarrow> (if d_tag (dev s1 d) \<noteq> None then on_heap (list_del (DTag d)) s1 else Some s1);
          s3 \<leftarrow> (if d_group (dev s2 d) \<noteq> None then on_heap (list_del (DGrp d)) s2 else Some s2);
          Some (0, s3) }"

text \<open>The manager device has id 0, no operations and a row outside the database.\<close>

definition add_manager_dev :: "mixer \<Rightarrow> srv \<Rightarrow> srv option" where
  "add_manager_dev opt s =
     (let s1 = upd_dbdev 0 (\<lambda>_. \<lparr>dd_type = 0, dd_ip = [], dd_port = 0, dd_tagid = 1, dd_user_id = [], dd_user_card = 0,
                 dd_user_name = [], dd_user_gender = 0, dd_enabled = 0, dd_online = 0, dd_sub1 = 0, dd_sub2 = 0,
                 dd_discuss_chair = 0, dd_discuss_open = 0, dd_regist_master = 0, dd_regist_reg = 0,
                 dd_vote_master = 0, dd_vote_choice = 0, dd_ptc_id = 0, dd_ptc_cmd = []\<rparr>) s;
          s2 = upd_dev 0 (\<lambda>_. new_dev\<lparr>d_ops := False, d_type := DEVTYPE_NONE\<rparr>)
                 (s1\<lparr>hp := null_links (dev_nodes 0) (hp s1)\<rparr>)
      in map_option snd (dev_register opt 0 s2))"

subsection \<open>Activation and heartbeats\<close>

definition do_dev_activate :: "int \<Rightarrow> int \<Rightarrow> srv \<Rightarrow> srv option" where
  "do_dev_activate d a s =
     do { g \<leftarrow> d_group (dev s d);
          if d_active (dev s d) = a then Some s
          else do { let s1 = upd_dev d (\<lambda>D. D\<lparr>d_active := a\<rparr>) s;
                    ns \<leftarrow> count_type (d_type (dev s1 d)) (if a \<noteq> 0 then 1 else -1) (g_active_count (grp s1 g));
                    let s2 = dirty_dev_ents_cache g (upd_grp g (\<lambda>G. G\<lparr>g_active_count := ns\<rparr>) s1);
                    Some (upd_dbdev d (\<lambda>D. D\<lparr>dd_online := a\<rparr>) s2) } }"

definition dev_activate :: "int \<Rightarrow> srv \<Rightarrow> srv option" where
  "dev_activate d s = do_dev_activate d 1 s"

definition dev_deactivate :: "int \<Rightarrow> srv \<Rightarrow> srv option" where
  "dev_deactivate d s = do_dev_activate d 0 s"

definition heartbeat_id :: "int \<Rightarrow> srv \<Rightarrow> srv" where
  "heartbeat_id d s =
     (case md_find_device s d of None \<Rightarrow> s | Some r \<Rightarrow> upd_dbdev r (\<lambda>D. D\<lparr>dd_online := 1\<rparr>) s)"

definition dev_heartbeat :: "int \<Rightarrow> srv \<Rightarrow> srv option" where
  "dev_heartbeat d s =
     (let s1 = upd_dev d (\<lambda>D. D\<lparr>d_hbeat := 0\<rparr>) s
      in if d_active (dev s1 d) = 0 then dev_activate d s1 else Some s1)"

text \<open>ping says whether a device answers.\<close>

definition check_net :: "(int \<Rightarrow> bool) \<Rightarrow> int \<Rightarrow> srv \<Rightarrow> srv option" where
  "check_net ping d s =
     (if \<not> ping d
      then do { g \<leftarrow> d_group (dev s d);
                Some (case g_cyctl (grp s g) of
                        None \<Rightarrow> s
                      | Some c \<Rightarrow> device_cmd c (''0 cyc_ctl '' @ num_str d @ newline) s) }
      else Some s)"

definition heartbeat_dev :: "(int \<Rightarrow> bool) \<Rightarrow> int \<Rightarrow> srv \<Rightarrow> srv option" where
  "heartbeat_dev ping d s =
     (let s1 = upd_dev d (\<lambda>D. D\<lparr>d_hbeat := d_hbeat D + 1\<rparr>) s
      in if d_hbeat (dev s1 d) > 3 \<and> d_active (dev s1 d) \<noteq> 0
         then do { s2 \<leftarrow> dev_deactivate d s1;
                   s3 \<leftarrow> (if d_open (dev s2 d) \<noteq> 0
                         then do { t \<leftarrow> d_tag (dev s2 d); del_open t d s2 } else Some s2);
                   check_net ping d s3 }
         else Some s1)"

text \<open>One turn of the loop of run_heartbeat_god, after its sleep.\<close>

definition heartbeat_god :: "(int \<Rightarrow> bool) \<Rightarrow> srv \<Rightarrow> srv option" where
  "heartbeat_god ping s =
     (case get_group s 1 of
        None \<Rightarrow> Some s
      | Some g \<Rightarrow> do { ds \<leftarrow> list_devs (GrpHead g) s; foldM (heartbeat_dev ping) ds s })"

subsection \<open>Recovery\<close>

definition set_dev_from_data :: "int \<Rightarrow> db_device \<Rightarrow> srv \<Rightarrow> srv" where
  "set_dev_from_data d r s =
     upd_dev d (\<lambda>D. D\<lparr>d_type := dd_type r,
       d_addr := (uint (inet_addr (dd_ip r)) mod 256 * 2 ^ 24 + uint (inet_addr (dd_ip r)) div 2 ^ 8 mod 256 * 2 ^ 16
                  + uint (inet_addr (dd_ip r)) div 2 ^ 16 mod 256 * 2 ^ 8 + uint (inet_addr (dd_ip r)) div 2 ^ 24,
                  dd_port r mod 2 ^ 16),
       d_bcast := 0\<rparr>) s"

definition restore_sub :: "mixer \<Rightarrow> int \<Rightarrow> srv \<Rightarrow> srv option" where
  "restore_sub opt d s =
     do { gid \<leftarrow> d_group (dev s d);
          foldM (\<lambda>tid s. if tid \<noteq> 0
                   then do { (t, s1) \<leftarrow> request_tag opt gid tid s; dev_subscribe d t s1 } else Some s)
            [dd_sub1 (dbdev s d), dd_sub2 (dbdev s d)] s }"

definition restore_discuss :: "int \<Rightarrow> srv \<Rightarrow> srv option" where
  "restore_discuss d s =
     (let s1 = (if is_ptc d s then add_ptc d s else s)
      in if dd_discuss_open (dbdev s1 d) \<noteq> 0
         then do { t \<leftarrow> d_tag (dev s1 d); s2 \<leftarrow> add_open t d s1; ptc_put d s2 }
         else Some s1)"

definition restore_regist :: "int \<Rightarrow> srv \<Rightarrow> srv" where
  "restore_regist d s = upd_dev d (\<lambda>D. D\<lparr>d_reg := dd_regist_reg (dbdev s d)\<rparr>) s"

definition restore_vote :: "int \<Rightarrow> srv \<Rightarrow> srv option" where
  "restore_vote d s =
     do { g \<leftarrow> d_group (dev s d);
          case g_vote_current (grp s g) of
            None \<Rightarrow> Some s
          | Some vid \<Rightarrow>
              do { r \<leftarrow> md_find_vote s vid;
                   let s1 = (if dd_vote_master (dbdev s d) \<noteq> 0
                             then upd_dev d (\<lambda>D. D\<lparr>d_vote_v := g_vote_v (grp s g)\<rparr>) s else s);
                   if dv_members r = ''all'' \<or> d \<in> set (id_list (dv_members r))
                   then do { v \<leftarrow> g_vote_v (grp s g);
                             s2 \<leftarrow> on_heap (list_add_tail (DVote d) (VoteHead v)) s1;
                             upd_vote v (\<lambda>w. w\<lparr>v_n_members := v_n_members w + 1\<rparr>)
                               (upd_dev d (\<lambda>D. D\<lparr>d_vote_v := Some v, d_vote_choice := dd_vote_choice (dbdev s d)\<rparr>) s2) }
                   else Some s1 } }"

definition recover_dev :: "mixer \<Rightarrow> int \<Rightarrow> srv \<Rightarrow> srv option" where
  "recover_dev opt d s =
     (if dd_enabled (dbdev s d) = 0 then Some s
      else do { let s1 = set_dev_from_data d (dbdev s d) (dev_create d s);
                let s2 = upd_dbdev d (\<lambda>D. D\<lparr>dd_online := 0\<rparr>) s1;
                (r, s3) \<leftarrow> dev_register opt d s2;
                s4 \<leftarrow> restore_sub opt d s3;
                s5 \<leftarrow> restore_discuss d s4;
                restore_vote d (restore_regist d s5) })"

definition recover_server :: "mixer \<Rightarrow> srv \<Rightarrow> srv option" where
  "recover_server opt s =
     do { s1 \<leftarrow> add_manager_dev opt s;
          s2 \<leftarrow> foldM (recover_dev opt) (dbdevs s1) s1;
          ptc_go_current s2 }"

end
