(* ===== verification/Devices_Inv.thy ===== *)
theory Devices_Inv
  imports Devices Discuss_Inv
begin

text \<open>
  What activation and heartbeats keep: the counters of active devices by type (activity), the
  group's list, and the invariant of the discussion (room_inv). One pass of the heartbeat thread
  counts every device of the group up and takes out exactly the active ones that have been silent.
\<close>

subsection \<open>The counters of active devices\<close>

definition active_of :: "srv \<Rightarrow> int list \<Rightarrow> int \<Rightarrow> int" where
  "active_of s L k = int (length (filter (\<lambda>d. d_type (dev s d) = k \<and> d_active (dev s d) \<noteq> 0) L))"

definition activity :: "srv \<Rightarrow> int list \<Rightarrow> bool" where
  "activity s L \<longleftrightarrow>
     distinct L \<and> length (g_active_count (grp s 1)) = 8
     \<and> (\<forall>k < 8. g_active_count (grp s 1) ! k = active_of s L (int k))
     \<and> (\<forall>d \<in> set L. d_group (dev s d) = Some 1 \<and> d_type (dev s d) \<ge> 0 \<and> d_active (dev s d) \<in> {0, 1})"

lemma count_upd:
  assumes "distinct L" and "d \<in> set L" and "\<And>e. e \<noteq> d \<Longrightarrow> P' e = P e"
  shows "int (length (filter P' L)) = int (length (filter P L)) + of_bool (P' d) - of_bool (P d)"
  using assms(1,2)
proof (induction L)
  case (Cons x L)
  show ?case
  proof (cases "x = d")
    case True
    have "P' e = P e" if "e \<in> set L" for e using that True Cons.prems(1) assms(3) [of e] by auto
    then have "filter P' L = filter P L" by (intro filter_cong) simp_all
    then show ?thesis using True by simp
  next
    case False
    then show ?thesis using Cons assms(3) [of x] by simp
  qed
qed simp

lemma count_type_8:
  assumes "length ns = 8" and "0 \<le> ty"
  shows "\<exists>ns'. count_type ty delta ns = Some ns' \<and> length ns' = 8
    \<and> (\<forall>k < 8. ns' ! k = ns ! k + (if int k = ty then delta else 0))"
  using assms by (auto simp: count_type_def nth_list_update)

text \<open>What activation leaves alone.\<close>

definition off_activity :: "srv \<Rightarrow> srv \<Rightarrow> bool" where
  "off_activity s s' \<longleftrightarrow> hp s' = hp s \<and> devs s' = devs s \<and> grps s' = grps s \<and> tags s' = tags s \<and> tagm s' = tagm s
     \<and> ptc_curr s' = ptc_curr s \<and> ptcs s' = ptcs s \<and> outs s' = outs s
     \<and> (\<forall>e. d_open (dev s' e) = d_open (dev s e) \<and> d_tag (dev s' e) = d_tag (dev s e)
          \<and> d_mixbit (dev s' e) = d_mixbit (dev s e) \<and> d_type (dev s' e) = d_type (dev s e)
          \<and> d_group (dev s' e) = d_group (dev s e))"

lemma off_activity_room: "off_activity s s' \<Longrightarrow> room_inv s X P \<Longrightarrow> room_inv s' X P"
  by (simp add: off_activity_def room_inv_def disc_inv_def mix_ok_def ptc_inv_def Let_def)

lemma do_dev_activate_ok:
  assumes act: "activity s L" and d: "d \<in> set L" and a: "a = 0 \<or> a = 1"
  shows "\<exists>s'. do_dev_activate d a s = Some s' \<and> activity s' L \<and> off_activity s s' \<and> d_active (dev s' d) = a
    \<and> (\<forall>e. e \<noteq> d \<longrightarrow> d_active (dev s' e) = d_active (dev s e)) \<and> (\<forall>e. d_hbeat (dev s' e) = d_hbeat (dev s e))"
proof -
  have D: "d_group (dev s d) = Some 1" "0 \<le> d_type (dev s d)" "d_active (dev s d) \<in> {0, 1}" "distinct L"
    "length (g_active_count (grp s 1)) = 8"
    using act d by (auto simp: activity_def)
  show ?thesis
  proof (cases "d_active (dev s d) = a")
    case True
    then show ?thesis using act D(1) by (auto simp: do_dev_activate_def off_activity_def)
  next
    case False
    let ?delta = "if a \<noteq> 0 then 1 else - 1 :: int"
    from count_type_8 [OF D(5,2), of ?delta] obtain ns where ns:
      "count_type (d_type (dev s d)) ?delta (g_active_count (grp s 1)) = Some ns" "length ns = 8"
      "\<forall>k < 8. ns ! k = g_active_count (grp s 1) ! k + (if int k = d_type (dev s d) then ?delta else 0)" by blast
    define s' where "s' = upd_dbdev d (\<lambda>D. D\<lparr>dd_online := a\<rparr>) (dirty_dev_ents_cache 1
      (upd_grp 1 (\<lambda>G. G\<lparr>g_active_count := ns\<rparr>) (upd_dev d (\<lambda>D. D\<lparr>d_active := a\<rparr>) s)))"
    have run: "do_dev_activate d a s = Some s'"
      using False D(1) ns(1) by (auto simp: do_dev_activate_def s'_def)
    have dev: "dev s' = (dev s)(d := (dev s d)\<lparr>d_active := a\<rparr>)"
      and grp: "g_active_count (grp s' 1) = ns"
      by (simp_all add: s'_def dirty_dev_ents_cache_def)
    have cnt: "active_of s' L k = active_of s L k + (if k = d_type (dev s d) then ?delta else 0)" for k
    proof -
      have "active_of s' L k = active_of s L k
          + of_bool (d_type (dev s' d) = k \<and> d_active (dev s' d) \<noteq> 0) - of_bool (d_type (dev s d) = k \<and> d_active (dev s d) \<noteq> 0)"
        unfolding active_of_def by (rule count_upd [OF D(4) d]) (simp add: dev)
      then show ?thesis using False D(3) a by (auto simp: dev)
    qed
    have "activity s' L"
      unfolding activity_def grp using act ns(2,3) a by (auto simp: cnt dev activity_def)
    moreover have "off_activity s s'" by (simp add: off_activity_def s'_def dirty_dev_ents_cache_def)
    ultimately show ?thesis using run by (auto simp: dev)
  qed
qed

subsection \<open>One device in a heartbeat pass\<close>

definition listed :: "srv \<Rightarrow> int list \<Rightarrow> bool" where
  "listed s L \<longleftrightarrow> (\<forall>d \<in> set L. \<exists>t \<in> set (tags s). d_tag (dev s d) = Some t)"

definition beat_inv :: "srv \<Rightarrow> int list \<Rightarrow> (int \<Rightarrow> int list) \<Rightarrow> int list \<Rightarrow> bool" where
  "beat_inv s L X P \<longleftrightarrow> activity s L \<and> listed s L \<and> room_inv s X P"

lemma check_net_ok:
  assumes "d_group (dev s d) \<noteq> None"
  shows "\<exists>s'. check_net ping d s = Some s' \<and> dev s' = dev s \<and> hp s' = hp s \<and> tags s' = tags s \<and> tagm s' = tagm s
    \<and> grp s' = grp s \<and> grps s' = grps s \<and> ptc_curr s' = ptc_curr s \<and> ptcs s' = ptcs s \<and> devs s' = devs s"
proof -
  obtain g where "d_group (dev s d) = Some g" using assms by auto
  then show ?thesis by (cases "ping d"; cases "g_cyctl (grp s g)") (simp_all add: check_net_def)
qed

lemma beat_inv_cong:
  assumes "beat_inv s L X P" and "dev s' = dev s" "hp s' = hp s" "tags s' = tags s" "tagm s' = tagm s"
    "grp s' = grp s" "ptc_curr s' = ptc_curr s" "ptcs s' = ptcs s" "devs s' = devs s"
  shows "beat_inv s' L X P"
  using assms by (simp add: beat_inv_def activity_def active_of_def listed_def room_inv_def disc_inv_def
      mix_ok_def ptc_inv_def Let_def)

lemma activity_same_conf: "activity s L \<Longrightarrow> same_conf s s' \<Longrightarrow> activity s' L"
  by (simp add: activity_def active_of_def same_conf_def)

lemma listed_same_conf: "listed s L \<Longrightarrow> same_conf s s' \<Longrightarrow> listed s' L"
  by (simp add: listed_def same_conf_def)

lemma hbeat_only:
  "room_inv (upd_dev d (\<lambda>D. D\<lparr>d_hbeat := f D\<rparr>) s) X P = room_inv s X P"
  "activity (upd_dev d (\<lambda>D. D\<lparr>d_hbeat := f D\<rparr>) s) L = activity s L"
  "listed (upd_dev d (\<lambda>D. D\<lparr>d_hbeat := f D\<rparr>) s) L = listed s L"
proof -
  let ?s = "upd_dev d (\<lambda>D. D\<lparr>d_hbeat := f D\<rparr>) s"
  have D: "d_open (dev ?s e) = d_open (dev s e)" "d_tag (dev ?s e) = d_tag (dev s e)" "d_mixbit (dev ?s e) = d_mixbit (dev s e)"
    "d_type (dev ?s e) = d_type (dev s e)" "d_active (dev ?s e) = d_active (dev s e)" "d_group (dev ?s e) = d_group (dev s e)" for e
    by simp_all
  show "room_inv ?s X P = room_inv s X P" "activity ?s L = activity s L" "listed ?s L = listed s L"
    unfolding room_inv_def disc_inv_def mix_ok_def ptc_inv_def activity_def active_of_def listed_def Let_def D
    by simp_all
qed

lemma del_open_hp: "del_open t d s = Some s' \<Longrightarrow> list_del (DOpen d) (hp s) = Some (hp s')"
  using keeps_tag_rm_outstanding by (fastforce simp: del_open_def on_heap_Some keeps_def keeps_save)

lemma tag_rm_outstanding_hbeat: "tag_rm_outstanding t d s = Some s' \<Longrightarrow> d_hbeat (dev s' e) = d_hbeat (dev s e)"
  by (auto simp: tag_rm_outstanding_alt MIX_CLOSE_DEV_def netmx_close_dev_def give_slot_def Let_def
      split: option.splits mixer.splits if_splits)

lemma del_open_hbeat:
  assumes "del_open t d s = Some s'"
  shows "d_hbeat (dev s' e) = d_hbeat (dev s e)"
proof -
  obtain h s2 where s2: "tag_rm_outstanding t d (upd_dev d (\<lambda>D. D\<lparr>d_open := 0\<rparr>)
      (upd_tag t (\<lambda>T. T\<lparr>t_openuser := t_openuser T - 1\<rparr>) (s\<lparr>hp := h\<rparr>))) = Some s2"
    "s' = device_save d (upd_dbdev d (\<lambda>D. D\<lparr>dd_discuss_open := 0\<rparr>) s2)"
    using assms by (auto simp: del_open_def on_heap_Some)
  show ?thesis using tag_rm_outstanding_hbeat [OF s2(1), of e] s2(2) by (simp add: keeps_save)
qed

text \<open>The list of the group is not touched.\<close>

definition grp_list :: "srv \<Rightarrow> int list \<Rightarrow> bool" where
  "grp_list s L \<longleftrightarrow> dlist (hp s) (GrpHead 1) (map DGrp L)"

lemma grp_list_cong: "grp_list s L \<Longrightarrow> (\<And>n. n \<notin> range OpenHead \<union> range DOpen \<Longrightarrow> hp s' n = hp s n) \<Longrightarrow> grp_list s' L"
  unfolding grp_list_def by (erule dlist_frame) auto

definition silent :: "srv \<Rightarrow> int \<Rightarrow> bool" where
  "silent s d \<longleftrightarrow> d_hbeat (dev s d) \<ge> 3 \<and> d_active (dev s d) \<noteq> 0"

lemma heartbeat_dev_ok:
  assumes inv: "beat_inv s L X P" and gl: "grp_list s L" and d: "d \<in> set L"
  shows "\<exists>s' X'. heartbeat_dev ping d s = Some s' \<and> beat_inv s' L X' P \<and> grp_list s' L \<and> grps s' = grps s
    \<and> d_hbeat (dev s' d) = d_hbeat (dev s d) + 1
    \<and> (silent s d \<longrightarrow> d_active (dev s' d) = 0 \<and> d_open (dev s' d) = 0)
    \<and> (\<not> silent s d \<longrightarrow> d_active (dev s' d) = d_active (dev s d) \<and> d_open (dev s' d) = d_open (dev s d))
    \<and> (\<forall>e. e \<noteq> d \<longrightarrow> d_hbeat (dev s' e) = d_hbeat (dev s e) \<and> d_active (dev s' e) = d_active (dev s e)
         \<and> d_open (dev s' e) = d_open (dev s e))"
proof -
  define s1 where "s1 = upd_dev d (\<lambda>D. D\<lparr>d_hbeat := d_hbeat D + 1\<rparr>) s"
  have i1: "beat_inv s1 L X P" using inv by (simp add: beat_inv_def s1_def hbeat_only)
  have g1: "grp_list s1 L" using gl by (simp add: grp_list_def s1_def)
  have hb: "d_hbeat (dev s1 e) = (if e = d then d_hbeat (dev s d) + 1 else d_hbeat (dev s e))"
    "d_active (dev s1 e) = d_active (dev s e)" "d_open (dev s1 e) = d_open (dev s e)" "grps s1 = grps s" for e
    by (simp_all add: s1_def)
  show ?thesis
  proof (cases "silent s d")
    case False
    have "heartbeat_dev ping d s = Some s1"
      using False hb by (auto simp: heartbeat_dev_def s1_def [symmetric] silent_def)
    then show ?thesis using i1 g1 hb False by (intro exI [of _ s1] exI [of _ X]) simp
  next
    case True
    have "activity s1 L" using i1 by (simp add: beat_inv_def)
    from do_dev_activate_ok [OF this d, of 0] obtain s2 where s2: "do_dev_activate d 0 s1 = Some s2" "activity s2 L"
      "off_activity s1 s2" "d_active (dev s2 d) = 0" "\<forall>e. e \<noteq> d \<longrightarrow> d_active (dev s2 e) = d_active (dev s1 e)"
      "\<forall>e. d_hbeat (dev s2 e) = d_hbeat (dev s1 e)" by blast
    have i2: "room_inv s2 X P" "listed s2 L" "grp_list s2 L" "grps s2 = grps s"
      using i1 g1 s2(3) off_activity_room [OF s2(3)] hb(4)
      by (auto simp: beat_inv_def listed_def off_activity_def grp_list_def)
    have o2: "d_open (dev s2 e) = d_open (dev s e)" for e using s2(3) hb(3) by (simp add: off_activity_def)
    obtain t where t: "t \<in> set (tags s2)" "d_tag (dev s2 d) = Some t" using i2(2) d by (auto simp: listed_def)
    have "\<exists>s3 X'. (if d_open (dev s2 d) \<noteq> 0 then do { t \<leftarrow> d_tag (dev s2 d); del_open t d s2 } else Some s2) = Some s3
        \<and> room_inv s3 X' P \<and> activity s3 L \<and> listed s3 L \<and> grp_list s3 L \<and> grps s3 = grps s
        \<and> d_open (dev s3 d) = 0 \<and> (\<forall>e. e \<noteq> d \<longrightarrow> d_open (dev s3 e) = d_open (dev s2 e))
        \<and> (\<forall>e. d_active (dev s3 e) = d_active (dev s2 e) \<and> d_hbeat (dev s3 e) = d_hbeat (dev s2 e)) \<and> same_conf s2 s3"
    proof (cases "d_open (dev s2 d) \<noteq> 0")
      case False
      then show ?thesis using i2 s2(2) by auto
    next
      case op: True
      have disc: "disc_inv s2 X" using i2(1) by (simp add: room_inv_def)
      then have "d_open (dev s2 d) = 1" using op by (auto simp: disc_inv_def)
      then have dX: "d \<in> set (X t)" using disc t(2) by (simp add: disc_inv_def)
      from del_open_room [OF i2(1) t(1) dX] obtain s3 where s3: "del_open t d s2 = Some s3"
        "room_inv s3 (X(t := remove1 d (X t))) P" "same_conf s2 s3" "d_open (dev s3 d) = 0"
        "\<forall>e. e \<noteq> d \<longrightarrow> d_open (dev s3 e) = d_open (dev s2 e)" by blast
      from close_heap [OF disc t(1) dX] obtain h where h: "list_del (DOpen d) (hp s2) = Some h"
        "\<forall>n. n \<notin> range OpenHead \<union> range DOpen \<longrightarrow> h n = hp s2 n" by auto
      have "grp_list s3 L"
        by (rule grp_list_cong [OF i2(3)]) (use h del_open_hp [OF s3(1)] in auto)
      then show ?thesis
        using op t(2) s3 activity_same_conf [OF s2(2) s3(3)] listed_same_conf [OF i2(2) s3(3)] i2(4)
          del_open_hbeat [OF s3(1)]
        by (intro exI [of _ s3] exI [of _ "X(t := remove1 d (X t))"]) (auto simp: same_conf_def)
    qed
    then obtain s3 X' where s3: "(if d_open (dev s2 d) \<noteq> 0 then do { t \<leftarrow> d_tag (dev s2 d); del_open t d s2 } else Some s2) = Some s3"
      "room_inv s3 X' P" "activity s3 L" "listed s3 L" "grp_list s3 L" "grps s3 = grps s" "d_open (dev s3 d) = 0"
      "\<forall>e. e \<noteq> d \<longrightarrow> d_open (dev s3 e) = d_open (dev s2 e)"
      "\<forall>e. d_active (dev s3 e) = d_active (dev s2 e) \<and> d_hbeat (dev s3 e) = d_hbeat (dev s2 e)" by blast
    have "d_group (dev s3 d) \<noteq> None" using s3(3) d by (auto simp: activity_def)
    from check_net_ok [OF this, of ping] obtain s4 where s4: "check_net ping d s3 = Some s4" "dev s4 = dev s3" "hp s4 = hp s3"
      "tags s4 = tags s3" "tagm s4 = tagm s3" "grp s4 = grp s3" "grps s4 = grps s3" "ptc_curr s4 = ptc_curr s3"
      "ptcs s4 = ptcs s3" "devs s4 = devs s3" by blast
    have "beat_inv s3 L X' P" using s3(2-4) by (simp add: beat_inv_def)
    from beat_inv_cong [OF this s4(2-6,8-10)] have "beat_inv s4 L X' P" .
    moreover have "heartbeat_dev ping d s = Some s4"
      using True hb s2(1) s3(1) s4(1) by (simp add: heartbeat_dev_def s1_def [symmetric] silent_def dev_deactivate_def)
    moreover have "grp_list s4 L" "grps s4 = grps s" using s3(5,6) s4(3,7) by (simp_all add: grp_list_def)
    ultimately show ?thesis
      using True s3(7-9) s2(4-6) o2 hb s4(2) by (intro exI [of _ s4] exI [of _ X']) simp
  qed
qed

text \<open>A pass over the whole list.\<close>

lemma heartbeat_pass:
  assumes "beat_inv s L X P" and "grp_list s L" and "set M \<subseteq> set L" and "distinct M"
  shows "\<exists>s' X'. foldM (heartbeat_dev ping) M s = Some s' \<and> beat_inv s' L X' P \<and> grp_list s' L \<and> grps s' = grps s
    \<and> (\<forall>d \<in> set M. d_hbeat (dev s' d) = d_hbeat (dev s d) + 1
        \<and> (silent s d \<longrightarrow> d_active (dev s' d) = 0 \<and> d_open (dev s' d) = 0)
        \<and> (\<not> silent s d \<longrightarrow> d_active (dev s' d) = d_active (dev s d) \<and> d_open (dev s' d) = d_open (dev s d)))
    \<and> (\<forall>e. e \<notin> set M \<longrightarrow> d_hbeat (dev s' e) = d_hbeat (dev s e) \<and> d_active (dev s' e) = d_active (dev s e)
         \<and> d_open (dev s' e) = d_open (dev s e))"
  using assms
proof (induction M arbitrary: s X)
  case Nil
  then show ?case by auto
next
  case (Cons d M)
  have d: "d \<in> set L" "d \<notin> set M" using Cons.prems(3,4) by auto
  from heartbeat_dev_ok [OF Cons.prems(1,2) d(1), of ping] obtain s1 X1 where s1: "heartbeat_dev ping d s = Some s1"
    "beat_inv s1 L X1 P" "grp_list s1 L" "grps s1 = grps s" "d_hbeat (dev s1 d) = d_hbeat (dev s d) + 1"
    "silent s d \<longrightarrow> d_active (dev s1 d) = 0 \<and> d_open (dev s1 d) = 0"
    "\<not> silent s d \<longrightarrow> d_active (dev s1 d) = d_active (dev s d) \<and> d_open (dev s1 d) = d_open (dev s d)"
    "\<forall>e. e \<noteq> d \<longrightarrow> d_hbeat (dev s1 e) = d_hbeat (dev s e) \<and> d_active (dev s1 e) = d_active (dev s e)
         \<and> d_open (dev s1 e) = d_open (dev s e)" by blast
  have M: "set M \<subseteq> set L" "distinct M" using Cons.prems(3,4) by auto
  from Cons.IH [OF s1(2,3) M] obtain s2 X2 where s2: "foldM (heartbeat_dev ping) M s1 = Some s2" "beat_inv s2 L X2 P"
    "grp_list s2 L" "grps s2 = grps s1"
    "\<forall>d \<in> set M. d_hbeat (dev s2 d) = d_hbeat (dev s1 d) + 1
        \<and> (silent s1 d \<longrightarrow> d_active (dev s2 d) = 0 \<and> d_open (dev s2 d) = 0)
        \<and> (\<not> silent s1 d \<longrightarrow> d_active (dev s2 d) = d_active (dev s1 d) \<and> d_open (dev s2 d) = d_open (dev s1 d))"
    "\<forall>e. e \<notin> set M \<longrightarrow> d_hbeat (dev s2 e) = d_hbeat (dev s1 e) \<and> d_active (dev s2 e) = d_active (dev s1 e)
         \<and> d_open (dev s2 e) = d_open (dev s1 e)" by blast
  have sil: "silent s1 e = silent s e" if "e \<in> set M" for e
    using s1(8) that d(2) by (metis silent_def)
  have ne: "e \<noteq> d" if "e \<in> set M" for e using that d(2) by blast
  show ?case
  proof (intro exI conjI)
    show "foldM (heartbeat_dev ping) (d # M) s = Some s2" using s1(1) s2(1) by simp
    show "beat_inv s2 L X2 P" "grp_list s2 L" using s2 by simp_all
    show "grps s2 = grps s" using s1(4) s2(4) by simp
    show "\<forall>e. e \<notin> set (d # M) \<longrightarrow> d_hbeat (dev s2 e) = d_hbeat (dev s e) \<and> d_active (dev s2 e) = d_active (dev s e)
         \<and> d_open (dev s2 e) = d_open (dev s e)"
      using s1(8) s2(6) by simp
    show "\<forall>e \<in> set (d # M). d_hbeat (dev s2 e) = d_hbeat (dev s e) + 1
        \<and> (silent s e \<longrightarrow> d_active (dev s2 e) = 0 \<and> d_open (dev s2 e) = 0)
        \<and> (\<not> silent s e \<longrightarrow> d_active (dev s2 e) = d_active (dev s e) \<and> d_open (dev s2 e) = d_open (dev s e))"
    proof
      fix e assume "e \<in> set (d # M)"
      then consider "e = d" | "e \<in> set M" by auto
      then show "d_hbeat (dev s2 e) = d_hbeat (dev s e) + 1
        \<and> (silent s e \<longrightarrow> d_active (dev s2 e) = 0 \<and> d_open (dev s2 e) = 0)
        \<and> (\<not> silent s e \<longrightarrow> d_active (dev s2 e) = d_active (dev s e) \<and> d_open (dev s2 e) = d_open (dev s e))"
      proof cases
        case 1
        then show ?thesis using s1(5-7) s2(6) d(2) by simp
      next
        case 2
        then show ?thesis using s2(5) s1(8) ne [OF 2] sil [OF 2] by simp
      qed
    qed
  qed
qed

lemma heartbeat_god_ok:
  assumes inv: "beat_inv s L X P" and gl: "grp_list s L" and g: "1 \<in> set (grps s)"
  shows "\<exists>s' X'. heartbeat_god ping s = Some s' \<and> beat_inv s' L X' P \<and> grp_list s' L \<and> grps s' = grps s
    \<and> (\<forall>d \<in> set L. d_hbeat (dev s' d) = d_hbeat (dev s d) + 1
        \<and> (silent s d \<longrightarrow> d_active (dev s' d) = 0 \<and> d_open (dev s' d) = 0)
        \<and> (\<not> silent s d \<longrightarrow> d_active (dev s' d) = d_active (dev s d) \<and> d_open (dev s' d) = d_open (dev s d)))"
proof -
  have "list_devs (GrpHead 1) s = Some L"
    using list_for_each_dlist [OF gl [unfolded grp_list_def]] by (simp add: list_devs_def del: map_map)
  moreover have "distinct L" using inv by (simp add: beat_inv_def activity_def)
  ultimately show ?thesis
    using heartbeat_pass [OF inv gl subset_refl, of ping] g by (auto simp: heartbeat_god_def)
qed

end
