(* ===== verification/Register.thy ===== *)
theory Register
  imports Devices Encode
begin

text \<open>
  serv/cmd_reg.c: the command a device sends first. It proves that it knows the checksum of its id
  and type, is created or found again, registered and activated, and gets the state it should
  show. ver is the client version that serv/upgrade.c keeps. The file address of a device is not
  modelled.
\<close>

definition arg_list :: "string list \<Rightarrow> string" where
  "arg_list xs = foldl (sep_add '':'') [] xs"

definition num_arg :: "string \<Rightarrow> int \<Rightarrow> string" where
  "num_arg k n = k @ ''='' @ num_str n"

definition str_arg :: "string \<Rightarrow> string \<Rightarrow> string" where
  "str_arg k x = k @ ''='' @ x"

text \<open>The current discussion of the group and, for a device in a vote, the current vote: rows of
  the database that must still be there.\<close>

definition current_discuss :: "int \<Rightarrow> srv \<Rightarrow> db_discuss option option" where
  "current_discuss g s =
     (case g_disc_current (grp s g) of None \<Rightarrow> Some None | Some i \<Rightarrow> map_option Some (md_find_discuss s i))"

definition current_vote :: "int \<Rightarrow> int \<Rightarrow> srv \<Rightarrow> db_vote option option" where
  "current_vote g d s =
     (if d_vote_v (dev s d) = None then Some None
      else (case g_vote_current (grp s g) of None \<Rightarrow> Some None | Some i \<Rightarrow> map_option Some (md_find_vote s i)))"

definition vote_total :: "int \<Rightarrow> srv \<Rightarrow> int option" where
  "vote_total d s = (case d_vote_v (dev s d) of None \<Rightarrow> Some 0 | Some v \<Rightarrow> map_option v_n_members (votem s v))"

definition client_args :: "string \<Rightarrow> device \<Rightarrow> db_device \<Rightarrow> group \<Rightarrow> db_group \<Rightarrow>
    db_discuss option \<Rightarrow> db_vote option \<Rightarrow> int \<Rightarrow> string list" where
  "client_args ver D dd G dg dsc dvt members =
        [str_arg ''client_version'' (if ver = [] then ''0'' else ver),
         str_arg ''user_id'' (dd_user_id dd),
         str_arg ''user_name'' (dd_user_name dd),
         num_arg ''user_gender'' (dd_user_gender dd),
         num_arg ''tag'' (dd_tagid dd),
         str_arg ''sub'' (num_str (dd_sub1 dd) @ '','' @ num_str (dd_sub2 dd)),
         num_arg ''discuss_mode'' (dg_discuss_mode dg),
         num_arg ''discuss_num'' (if dsc = None then -1 else g_disc_num G),
         str_arg ''discuss_name'' (case dsc of None \<Rightarrow> ''0'' | Some r \<Rightarrow> ds_name r),
         num_arg ''discuss_nmembers'' (int (length (g_disc_members G))),
         str_arg ''discuss_idlist'' (case dsc of None \<Rightarrow> ''0'' | Some r \<Rightarrow> ds_members r),
         str_arg ''discuss_userlist'' (if dsc = None then ''0'' else g_disc_names G),
         num_arg ''discuss_chair'' (dd_discuss_chair dd),
         num_arg ''discuss_open'' (dd_discuss_open dd),
         num_arg ''regist_start'' (dg_regist_start dg),
         num_arg ''regist_master'' (dd_regist_master dd),
         num_arg ''regist_mode'' (dg_regist_mode dg),
         num_arg ''regist_reg'' (d_reg D),
         num_arg ''vote_num'' (if dvt = None then -1 else g_vote_num G),
         num_arg ''vote_nmembers'' (int (length (g_vote_members G))),
         str_arg ''vote_idlist'' (case dvt of None \<Rightarrow> ''0'' | Some r \<Rightarrow> dv_members r),
         str_arg ''vote_userlist'' (if dvt = None then ''0'' else g_vote_names G),
         num_arg ''vote_master'' (if dvt = None then 0 else dd_vote_master dd),
         str_arg ''vote_name'' (case dvt of None \<Rightarrow> ''0'' | Some r \<Rightarrow> dv_name r),
         num_arg ''vote_type'' (case dvt of None \<Rightarrow> 0 | Some r \<Rightarrow> dv_type r),
         str_arg ''vote_options'' (case dvt of None \<Rightarrow> ''0'' | Some r \<Rightarrow> dv_options r),
         num_arg ''vote_total'' members,
         str_arg ''vote_results'' (dg_vote_results dg),
         num_arg ''vote_choice'' (dd_vote_choice dd)]"

definition get_client_info :: "string \<Rightarrow> int \<Rightarrow> srv \<Rightarrow> string option" where
  "get_client_info ver d s =
     do { g \<leftarrow> d_group (dev s d);
          dsc \<leftarrow> current_discuss g s;
          dvt \<leftarrow> current_vote g d s;
          members \<leftarrow> vote_total d s;
          Some (arg_list (client_args ver (dev s d) (dbdev s d) (grp s g) (dbgrp s g) dsc dvt members)) }"

text \<open>The checksum of the id xor the type, as four bytes of a little-endian machine.\<close>

definition reg_sum :: "int \<Rightarrow> int \<Rightarrow> string option" where
  "reg_sum i ty =
     map_option (\<lambda>sm. map (\<lambda>b. char_of (unat b)) (take 32 sm))
       (cksum (le4_bytes (word_of_int i XOR word_of_int ty)) (replicate 64 0))"

definition reg_addresses :: "int \<Rightarrow> int \<Rightarrow> string \<Rightarrow> cmd \<Rightarrow> srv \<Rightarrow> srv" where
  "reg_addresses ty port bcast c s =
     upd_dev (c_dev c) (\<lambda>D. D\<lparr>d_type := ty, d_addr := (fst (c_addr c), port mod 2 ^ 16),
       d_bcast := (if bcast = ''none'' then 0 else inet_addr bcast)\<rparr>) s"

definition reg_finish :: "mixer \<Rightarrow> string \<Rightarrow> cmd \<Rightarrow> srv \<Rightarrow> handled" where
  "reg_finish opt ver c s =
     (let d = c_dev c
      in do { (r, s1) \<leftarrow> dev_register opt d (dev_update_data d s);
              s2 \<leftarrow> dev_activate d s1;
              s3 \<leftarrow> (if is_ptc d s2 then ptc_go_current s2 else Some s2);
              let s4 = (if d_type (dev s3 d) = DEVTYPE_CHAIR then manage_notify_chair d s3 else s3);
              buf \<leftarrow> get_client_info ver d s4;
              Some (0, REP_END (REP_ADD buf (REP_ADD ''OK'' c)), s4) })"

definition cmd_reg :: "mixer \<Rightarrow> string \<Rightarrow> cmd \<Rightarrow> srv \<Rightarrow> handled" where
  "cmd_reg opt ver c s =
     (case c_args c of
        p1 # pass # p3 # bcast # _ \<Rightarrow>
          (let did = c_dev c; ty = atoi p1; port = atoi p3
           in do { sm \<leftarrow> reg_sum did ty;
                   if pass \<noteq> sm then Some (1, c, s)
                   else if port \<le> 0 then Some (1, c, s)
                   else (let known = md_find_device s did \<noteq> None;
                             s1 = (if known then upd_dbdev did (\<lambda>D. D\<lparr>dd_online := 1\<rparr>) s else s)
                         in if known \<and> dd_enabled (dbdev s1 did) = 0 then Some (ERR_DEV_DISABLED, c, s1)
                            else (let s2 = (if get_device s1 did = None then dev_create did s1 else s1)
                                  in reg_finish opt ver c (reg_addresses ty port bcast c s2))) })
      | _ \<Rightarrow> Some (1, c, s))"

end
