(* ===== verification/Device_Props.thy ===== *)
theory Device_Props
  imports Devices_Inv Register Discuss_Props
begin

text \<open>Properties of registration, activation and heartbeats (Devices, Register) with their witnesses.\<close>

subsection \<open>Heartbeats\<close>

text \<open>Passes of the heartbeat thread with no heartbeat in between.\<close>

fun passes :: "(int \<Rightarrow> bool) \<Rightarrow> nat \<Rightarrow> srv \<Rightarrow> srv option" where
  "passes ping 0 s = Some s"
| "passes ping (Suc n) s = do { s1 \<leftarrow> heartbeat_god ping s; passes ping n s1 }"

definition taken_out :: "srv \<Rightarrow> int \<Rightarrow> bool" where
  "taken_out s d \<longleftrightarrow> d_active (dev s d) = 0 \<and> d_open (dev s d) = 0"

lemma passes_ok:
  assumes "beat_inv s L X P" and "grp_list s L" and "1 \<in> set (grps s)"
  shows "\<exists>s' X'. passes ping n s = Some s' \<and> beat_inv s' L X' P \<and> grp_list s' L \<and> grps s' = grps s
    \<and> (\<forall>d \<in> set L. taken_out s d \<or> (d_active (dev s d) \<noteq> 0 \<and> d_hbeat (dev s d) + int n \<ge> 4 \<and> n > 0) \<longrightarrow> taken_out s' d)"
  using assms
proof (induction n arbitrary: s X)
  case 0
  then show ?case by auto
next
  case (Suc n)
  from heartbeat_god_ok [OF Suc.prems, of ping] obtain s1 X1 where s1: "heartbeat_god ping s = Some s1"
    "beat_inv s1 L X1 P" "grp_list s1 L" "grps s1 = grps s"
    "\<forall>d \<in> set L. d_hbeat (dev s1 d) = d_hbeat (dev s d) + 1
        \<and> (silent s d \<longrightarrow> d_active (dev s1 d) = 0 \<and> d_open (dev s1 d) = 0)
        \<and> (\<not> silent s d \<longrightarrow> d_active (dev s1 d) = d_active (dev s d) \<and> d_open (dev s1 d) = d_open (dev s d))" by blast
  have "1 \<in> set (grps s1)" using s1(4) Suc.prems(3) by simp
  from Suc.IH [OF s1(2,3) this] obtain s2 X2 where s2: "passes ping n s1 = Some s2" "beat_inv s2 L X2 P" "grp_list s2 L"
    "grps s2 = grps s1"
    "\<forall>d \<in> set L. taken_out s1 d \<or> (d_active (dev s1 d) \<noteq> 0 \<and> d_hbeat (dev s1 d) + int n \<ge> 4 \<and> n > 0) \<longrightarrow> taken_out s2 d"
    by blast
  have "taken_out s1 d \<or> (d_active (dev s1 d) \<noteq> 0 \<and> d_hbeat (dev s1 d) + int n \<ge> 4 \<and> n > 0)"
    if "d \<in> set L" "taken_out s d \<or> (d_active (dev s d) \<noteq> 0 \<and> d_hbeat (dev s d) + int (Suc n) \<ge> 4)" for d
    using that s1(5) by (cases "silent s d") (auto simp: taken_out_def silent_def)
  then show ?case using s1(1,4) s2 by auto
qed

text \<open>
  C35. Four passes of the heartbeat thread in a row never fault, keep the invariants of the
  discussion and the counters of active devices, and take out every active device of the group
  from which no heartbeat came meanwhile: it is inactive and its microphone is closed.
\<close>

theorem silent_devices_taken_out:
  assumes "beat_inv s L X P" and "grp_list s L" and "1 \<in> set (grps s)"
    and "\<forall>d \<in> set L. d_hbeat (dev s d) \<ge> 0"
  shows "\<exists>s' X'. passes ping 4 s = Some s' \<and> beat_inv s' L X' P \<and> grp_list s' L
    \<and> (\<forall>d \<in> set L. d_active (dev s d) \<noteq> 0 \<longrightarrow> d_active (dev s' d) = 0 \<and> d_open (dev s' d) = 0)"
  using passes_ok [OF assms(1-3), of ping 4] assms(4) unfolding taken_out_def by fastforce

text \<open>Group 1 with the devices 7 and 8 listed and counted as active.\<close>

definition beat_demo :: srv where
  "beat_demo = demo\<lparr>hp := the (list_add_tail (DGrp 8) (GrpHead 1) (the (list_add_tail (DGrp 7) (GrpHead 1) (hp demo)))),
     grp := \<lambda>g. (demo_grp g)\<lparr>g_active_count := [0, 2, 0, 0, 0, 0, 0, 0]\<rparr>\<rparr>"

lemma beat_heap:
  "hp beat_demo (OpenHead t) = self_head (OpenHead t)" "hp beat_demo PtcHead = self_head PtcHead"
  "hp beat_demo (DPtc d) = \<lparr>lh_next = None, lh_prev = None\<rparr>"
  "hp beat_demo (GrpHead 1) = \<lparr>lh_next = Some (DGrp 7), lh_prev = Some (DGrp 8)\<rparr>"
  "hp beat_demo (DGrp 7) = \<lparr>lh_next = Some (DGrp 8), lh_prev = Some (GrpHead 1)\<rparr>"
  "hp beat_demo (DGrp 8) = \<lparr>lh_next = Some (GrpHead 1), lh_prev = Some (DGrp 7)\<rparr>"
  by (simp_all add: beat_demo_def demo_def list_add_tail_def ll_add_def self_head_def)

lemma beat_demo_sel:
  "dev beat_demo = demo_dev" "tags beat_demo = [65537]" "tagm beat_demo = demo_tag" "grps beat_demo = [1]"
  "ptc_curr beat_demo = None" "g_active_count (grp beat_demo 1) = [0, 2, 0, 0, 0, 0, 0, 0]"
  by (simp_all add: beat_demo_def demo_sel)

lemma beat_demo_list: "grp_list beat_demo [7, 8]"
  by (simp add: grp_list_def dlist_def beat_heap)

lemma beat_demo_inv: "beat_inv beat_demo [7, 8] (\<lambda>_. []) []"
proof -
  have k8: "k < 8 \<longleftrightarrow> k \<in> {0, 1, 2, 3, 4, 5, 6, 7}" for k :: nat by auto
  have "activity beat_demo [7, 8]"
    unfolding activity_def k8 by (simp add: beat_demo_sel active_of_def demo_dev_sel type_defs)
  moreover have "listed beat_demo [7, 8]" by (simp add: listed_def beat_demo_sel demo_dev_sel)
  moreover have "disc_inv beat_demo (\<lambda>_. [])"
    by (simp add: disc_inv_def dlist_def beat_heap self_head_def beat_demo_sel demo_dev_sel demo_tag_def)
  moreover have "ptc_inv beat_demo []"
    by (simp add: ptc_inv_def dlist_def beat_heap self_head_def beat_demo_sel)
  moreover have "mix_ok 65537 beat_demo"
    using demo_room by (simp add: room_inv_def demo_sel mix_ok_def Let_def beat_demo_sel)
  ultimately show ?thesis by (simp add: beat_inv_def room_inv_def beat_demo_sel)
qed

lemma silent_devices_taken_out_witness:
  "\<exists>s'. passes (\<lambda>_. True) 4 beat_demo = Some s' \<and> d_active (dev s' 7) = 0 \<and> d_active (dev s' 8) = 0"
  using silent_devices_taken_out [OF beat_demo_inv beat_demo_list, of "\<lambda>_. True"]
  by (auto simp: beat_demo_sel demo_dev_sel demo_dev_def fresh_dev_def simp del: passes.simps)

text \<open>
  The heartbeat thread closes the microphone of a dead device but does not take it off the
  camera stack, as the request command does: with device 7 speaking and then silent for four
  passes, its microphone is closed and the camera still points at it.
\<close>

definition speaking_demo :: srv where
  "speaking_demo = (case cmd_discctrl (demo_cmd 7 [''request'', ''1'']) beat_demo of Some (_, _, s) \<Rightarrow> s | None \<Rightarrow> beat_demo)"

theorem heartbeat_leaves_camera:
  "case passes (\<lambda>_. True) 4 speaking_demo of None \<Rightarrow> False
   | Some s \<Rightarrow> d_active (dev s 7) = 0 \<and> d_open (dev s 7) = 0 \<and> ptc_curr s = Some 7 \<and> is_pushed 7 s"
  by code_simp

subsection \<open>Registration\<close>

lemma reg_sum_defined: "\<exists>sm. reg_sum i ty = Some sm"
  by (simp add: reg_sum_def cksum_def Let_def)

text \<open>
  C36. Nobody gets registered without the checksum of id and type: when the command succeeds, or
  changes which devices are known to the server, its second argument is that checksum, and the
  device is one that the database does not list as disabled.
\<close>

theorem registration_needs_checksum:
  assumes "cmd_reg opt ver c s = Some (r, c', s')" and "r = 0 \<or> devs s' \<noteq> devs s"
  shows "length (c_args c) \<ge> 4 \<and> reg_sum (c_dev c) (atoi (c_args c ! 0)) = Some (c_args c ! 1)
    \<and> (c_dev c \<in> set (dbdevs s) \<longrightarrow> dd_enabled (dbdev s (c_dev c)) \<noteq> 0)"
proof -
  obtain p1 pass p3 bcast rest where args: "c_args c = p1 # pass # p3 # bcast # rest"
    using assms by (auto simp: cmd_reg_def split: list.splits)
  obtain sm where sm: "reg_sum (c_dev c) (atoi p1) = Some sm" using reg_sum_defined by blast
  have "pass = sm" using assms args sm by (auto simp: cmd_reg_def Let_def split: if_splits)
  moreover have "dd_enabled (dbdev s (c_dev c)) \<noteq> 0" if "c_dev c \<in> set (dbdevs s)"
    using assms args sm that by (auto simp: cmd_reg_def Let_def md_find_device_def find_eq ERR_DEV_DISABLED_def split: if_splits)
  ultimately show ?thesis using args sm by simp
qed

text \<open>A command of device d that carries the right checksum.\<close>

definition reg_cmd :: "int \<Rightarrow> int \<Rightarrow> cmd" where
  "reg_cmd d ty = demo_cmd d [num_str ty, the (reg_sum d ty), ''8000'', ''none'']"

definition reg_after :: "string list \<Rightarrow> int \<Rightarrow> int \<Rightarrow> srv \<Rightarrow> handled" where
  "reg_after as d ty s =
     reg_finish Soft [] (demo_cmd d as) (reg_addresses ty 8000 ''none'' (demo_cmd d as)
       (upd_dbdev d (\<lambda>D. D\<lparr>dd_online := 1\<rparr>) s))"

lemma atoi_8000: "atoi ''8000'' = 8000"
  by code_simp

lemma cmd_reg_known:
  assumes "d \<in> set (dbdevs s)" and "d \<in> set (devs s)" and "dd_enabled (dbdev s d) \<noteq> 0"
  shows "cmd_reg Soft [] (reg_cmd d ty) s = reg_after (c_args (reg_cmd d ty)) d ty s"
proof -
  obtain sm where "reg_sum d ty = Some sm" using reg_sum_defined by blast
  then show ?thesis
    using assms by (simp add: cmd_reg_def reg_cmd_def demo_cmd_def atoi_num_str atoi_8000 md_find_device_def find_eq
        reg_after_def Let_def)
qed

lemma reg_again:
  "case reg_after as 7 2 beat_demo of None \<Rightarrow> False
   | Some (r, c, s) \<Rightarrow> r = 0 \<and> devs s = [9, 8, 7, 5] \<and> g_active_count (grp s 1) = [0, 2, 0, 0, 0, 0, 0, 0]
       \<and> (case dev_deactivate 7 s of None \<Rightarrow> False
          | Some s' \<Rightarrow> g_active_count (grp s' 1) = [0, 2, -1, 0, 0, 0, 0, 0] \<and> active_of s' [7, 8] 1 = 1)"
  by code_simp

lemma beat_demo_known: "7 \<in> set (dbdevs beat_demo)" "7 \<in> set (devs beat_demo)" "dd_enabled (dbdev beat_demo 7) \<noteq> 0"
  by (simp_all add: beat_demo_def demo_def demo_dbdev_def)

text \<open>Device 7 registers as type 2 with the checksum, and with no other text.\<close>

lemma registration_needs_checksum_witness:
  "\<exists>pass c' s'. cmd_reg Soft [] (demo_cmd 7 [num_str 2, pass, ''8000'', ''none'']) beat_demo = Some (0, c', s')
    \<and> reg_sum 7 2 = Some pass \<and> dd_enabled (dbdev beat_demo 7) \<noteq> 0
    \<and> (\<forall>x c1 s1. x \<noteq> pass \<longrightarrow> cmd_reg Soft [] (demo_cmd 7 [num_str 2, x, ''8000'', ''none'']) beat_demo \<noteq> Some (0, c1, s1))"
proof -
  obtain pass where pass: "reg_sum 7 2 = Some pass" using reg_sum_defined by blast
  obtain c' s' where run: "cmd_reg Soft [] (reg_cmd 7 2) beat_demo = Some (0, c', s')"
    using reg_again [of "c_args (reg_cmd 7 2)"] cmd_reg_known [OF beat_demo_known, of 2]
    by (auto split: option.splits)
  have cmd: "reg_cmd 7 2 = demo_cmd 7 [num_str 2, pass, ''8000'', ''none'']" by (simp add: reg_cmd_def pass)
  from registration_needs_checksum [OF run] have on: "dd_enabled (dbdev beat_demo 7) \<noteq> 0"
    using beat_demo_known(1) by (simp add: cmd demo_cmd_def)
  have "x = pass" if r: "cmd_reg Soft [] (demo_cmd 7 [num_str 2, x, ''8000'', ''none'']) beat_demo = Some (0, c1, s1)" for x c1 s1
    using registration_needs_checksum [OF r] pass by (simp add: demo_cmd_def atoi_num_str)
  then show ?thesis using run [unfolded cmd] pass on by blast
qed

text \<open>
  A device that registers again with another type overwrites its type without moving it
  between the counters: device 7, counted as active under type 1, registers again as type 2, and when
  it then falls silent the counter of type 2 becomes -1 while the one of type 1 still says 2.
\<close>

theorem reregistration_breaks_counters:
  "case cmd_reg Soft [] (reg_cmd 7 2) beat_demo of None \<Rightarrow> False
   | Some (r, c, s) \<Rightarrow> r = 0 \<and> (case dev_deactivate 7 s of None \<Rightarrow> False
       | Some s' \<Rightarrow> g_active_count (grp s' 1) = [0, 2, -1, 0, 0, 0, 0, 0] \<and> active_of s' [7, 8] 1 = 1)"
  unfolding cmd_reg_known [OF beat_demo_known]
  using reg_again [of "c_args (reg_cmd 7 2)"] by (auto split: option.splits)

end
