(* ===== verification/Video.thy ===== *)
theory Video
  imports Discuss
begin

text \<open>
  serv/cmd_video.c: the devices that broadcast their video form a stack, video_head, and only the
  last one that started, bcast_dev, may send. The socket is taken to open.
\<close>

definition broadcast_video :: "packet \<Rightarrow> srv \<Rightarrow> int \<times> srv" where
  "broadcast_video P s = (1, emit (CastAddr 0xFFFFFFFF P) s)"

definition cast_video :: "int \<Rightarrow> packet \<Rightarrow> srv \<Rightarrow> int \<times> srv" where
  "cast_video d P s = (if bcast_dev s = Some d then (0, snd (broadcast_video P s)) else (-1, s))"

text \<open>The effect of the two subcommands.\<close>

definition video_start :: "int \<Rightarrow> srv \<Rightarrow> srv option" where
  "video_start d s = do { s1 \<leftarrow> on_heap (list_add (DVideo d) VideoHead) s; Some (s1\<lparr>bcast_dev := Some d\<rparr>) }"

definition video_stop :: "int \<Rightarrow> srv \<Rightarrow> srv option" where
  "video_stop d s =
     do { s1 \<leftarrow> on_heap (list_del (DVideo d)) s;
          if list_empty VideoHead (hp s1) then Some (s1\<lparr>bcast_dev := None\<rparr>)
          else if bcast_dev s1 = Some d
          then do { n \<leftarrow> lh_next (hp s1 VideoHead); e \<leftarrow> dev_of n; Some (s1\<lparr>bcast_dev := Some e\<rparr>) }
          else Some s1 }"

text \<open>An unknown subcommand is answered with OK.\<close>

definition cmd_video :: "cmd \<Rightarrow> srv \<Rightarrow> handled" where
  "cmd_video c s =
     (case get_device s (c_dev c) of None \<Rightarrow> Some (ERR_NOT_REG, c, s)
      | Some d \<Rightarrow>
          (case c_args c of [] \<Rightarrow> Some (1, c, s)
           | sub # args \<Rightarrow>
               if sub = ''start''
               then (case args of [] \<Rightarrow> Some (1, c, s)
                     | p # _ \<Rightarrow>
                         if atoi p = 0 then do { s1 \<leftarrow> video_start d s; Some (0, REP_OK c, s1) }
                         else Some (ERR_INVL_ARG, c, s))
               else if sub = ''stop''
               then (if bcast_dev s = None then Some (ERR_OTHER, c, s)
                     else do { s1 \<leftarrow> video_stop d s; Some (0, REP_OK c, s1) })
               else Some (0, REP_OK c, s)))"

subsection \<open>The stack\<close>

definition video_inv :: "srv \<Rightarrow> int list \<Rightarrow> bool" where
  "video_inv s ds \<longleftrightarrow> dlist (hp s) VideoHead (map DVideo ds)
     \<and> bcast_dev s = (case ds of [] \<Rightarrow> None | d # _ \<Rightarrow> Some d)"

lemma map_DVideo_remove1: "map DVideo (remove1 d ds) = remove1 (DVideo d) (map DVideo ds)"
  by (induction ds) auto

lemma video_start_inv:
  assumes "video_inv s ds" and "d \<notin> set ds"
  shows "\<exists>s'. video_start d s = Some s' \<and> video_inv s' (d # ds) \<and> devs s' = devs s"
proof -
  have "DVideo d \<notin> insert VideoHead (set (map DVideo ds))" using assms(2) by auto
  from list_add_dlist [OF _ this] assms(1) show ?thesis
    by (fastforce simp: video_inv_def video_start_def on_heap_def)
qed

lemma video_stop_inv:
  assumes "video_inv s ds" and "d \<in> set ds"
  shows "\<exists>s'. video_stop d s = Some s' \<and> video_inv s' (remove1 d ds) \<and> devs s' = devs s"
proof -
  have l: "dlist (hp s) VideoHead (map DVideo ds)" and b: "bcast_dev s = Some (hd ds)"
    using assms by (cases ds; simp add: video_inv_def)+
  have "DVideo d \<in> set (map DVideo ds)" using assms(2) by simp
  from list_del_remove1 [OF l this] obtain h where h: "list_del (DVideo d) (hp s) = Some h"
    "dlist h VideoHead (map DVideo (remove1 d ds))" by (auto simp: map_DVideo_remove1)
  note next1 = dlist_first [OF h(2)]
  show ?thesis
  proof (cases "remove1 d ds")
    case Nil
    then show ?thesis using h by (auto simp: video_stop_def on_heap_def video_inv_def)
  next
    case (Cons e es)
    have ne: "\<not> list_empty VideoHead h" and first: "lh_next (h VideoHead) = Some (DVideo e)"
      using h(2) next1 Cons by simp_all
    have "hd ds \<noteq> d \<Longrightarrow> hd ds = e" using Cons assms(2) by (cases ds) auto
    then show ?thesis
      using h ne first b Cons by (auto simp: video_stop_def on_heap_def video_inv_def)
  qed
qed

lemma video_stop_unlinked:
  assumes "lh_next (hp s (DVideo d)) = None"
  shows "video_stop d s = None"
  using list_del_unlinked [of "hp s" "DVideo d"] assms by (simp add: video_stop_def on_heap_def)

end
