(* ===== verification/Pools.thy ===== *)
theory Pools
  imports List_Head
begin

text \<open>
  Where packets and connections come from: the pool of equal blocks of serv/block.c, a list of
  free blocks, and the packet cache of serv/packet.c, an array of use flags searched round from
  the last position. The locale buffer_pool is what both promise: a block handed out was not in
  use, none is handed out only when all are in use, and a freed block can be had again.
\<close>

subsection \<open>The contract\<close>

locale buffer_pool =
  fixes ok :: "'s \<Rightarrow> bool" and all :: "'s \<Rightarrow> nat set" and in_use :: "'s \<Rightarrow> nat set"
    and alloc :: "'s \<Rightarrow> nat option \<times> 's" and free :: "nat \<Rightarrow> 's \<Rightarrow> 's"
  assumes bounded: "ok s \<Longrightarrow> finite (all s) \<and> in_use s \<subseteq> all s"
    and alloc_None: "ok s \<Longrightarrow> fst (alloc s) = None \<longleftrightarrow> in_use s = all s"
    and alloc_same: "ok s \<Longrightarrow> fst (alloc s) = None \<Longrightarrow> snd (alloc s) = s"
    and alloc_Some: "ok s \<Longrightarrow> fst (alloc s) = Some b \<Longrightarrow>
      ok (snd (alloc s)) \<and> all (snd (alloc s)) = all s \<and> b \<in> all s \<and> b \<notin> in_use s
      \<and> in_use (snd (alloc s)) = insert b (in_use s)"
    and free_ok: "ok s \<Longrightarrow> b \<in> in_use s \<Longrightarrow> ok (free b s) \<and> all (free b s) = all s \<and> in_use (free b s) = in_use s - {b}"
begin

text \<open>n allocations in a row.\<close>

fun alloc_many :: "nat \<Rightarrow> 's \<Rightarrow> nat option list \<times> 's" where
  "alloc_many 0 s = ([], s)"
| "alloc_many (Suc n) s = (let (r, s1) = alloc s; (rs, s2) = alloc_many n s1 in (r # rs, s2))"

lemma card_free: "ok s \<Longrightarrow> card (all s - in_use s) = card (all s) - card (in_use s)"
  using bounded by (meson card_Diff_subset finite_subset)

lemma alloc_many_distinct:
  assumes "ok s" and "n \<le> card (all s - in_use s)"
  shows "\<exists>bs. fst (alloc_many n s) = map Some bs \<and> distinct bs \<and> set bs \<inter> in_use s = {} \<and> length bs = n
    \<and> ok (snd (alloc_many n s)) \<and> all (snd (alloc_many n s)) = all s \<and> in_use (snd (alloc_many n s)) = in_use s \<union> set bs"
  using assms
proof (induction n arbitrary: s)
  case (Suc n)
  have fin: "finite (all s)" "in_use s \<subseteq> all s" using bounded [OF Suc.prems(1)] by auto
  have "in_use s \<noteq> all s" using Suc.prems(2) by auto
  then obtain b where b: "fst (alloc s) = Some b" using alloc_None [OF Suc.prems(1)] by auto
  note step = alloc_Some [OF Suc.prems(1) b]
  have "all s - in_use (snd (alloc s)) = (all s - in_use s) - {b}" using step by auto
  then have "n \<le> card (all (snd (alloc s)) - in_use (snd (alloc s)))"
    using Suc.prems(2) step by (simp add: card_Diff_singleton)
  from Suc.IH [OF _ this] step obtain bs where bs: "fst (alloc_many n (snd (alloc s))) = map Some bs" "distinct bs"
    "set bs \<inter> in_use (snd (alloc s)) = {}" "length bs = n" "ok (snd (alloc_many n (snd (alloc s))))"
    "all (snd (alloc_many n (snd (alloc s)))) = all s"
    "in_use (snd (alloc_many n (snd (alloc s)))) = in_use (snd (alloc s)) \<union> set bs" by auto
  show ?case
    by (rule exI [of _ "b # bs"]) (use b bs step in \<open>auto simp: Let_def split_beta\<close>)
qed simp

text \<open>After all free blocks are taken the next allocation fails.\<close>

lemma alloc_many_exhausts:
  assumes "ok s"
  shows "fst (alloc (snd (alloc_many (card (all s - in_use s)) s))) = None"
proof -
  define n where "n = card (all s - in_use s)"
  from alloc_many_distinct [OF assms, of n] obtain bs where bs: "distinct bs" "set bs \<inter> in_use s = {}" "length bs = n"
    "ok (snd (alloc_many n s))" "all (snd (alloc_many n s)) = all s" "in_use (snd (alloc_many n s)) = in_use s \<union> set bs"
    by (auto simp: n_def)
  have fin: "finite (all s)" "in_use s \<subseteq> all s" using bounded [OF assms] by auto
  have sub: "in_use s \<union> set bs \<subseteq> all s" using bounded [OF bs(4)] bs(5,6) by simp
  have "card (in_use s \<union> set bs) = card (in_use s) + n"
    using bs(1-3) fin by (subst card_Un_disjoint) (auto simp: distinct_card finite_subset)
  also have "\<dots> = card (all s)"
    using card_free [OF assms] card_mono [OF fin] by (simp add: n_def)
  finally have "in_use s \<union> set bs = all s" using sub fin(1) by (metis card_subset_eq)
  then show ?thesis using alloc_None [OF bs(4)] bs(5,6) by (simp add: n_def)
qed

lemma free_then_alloc:
  assumes "ok s" and "b \<in> in_use s"
  shows "fst (alloc (free b s)) \<noteq> None"
proof
  assume "fst (alloc (free b s)) = None"
  then have "in_use (free b s) = all (free b s)" using alloc_None free_ok [OF assms] by blast
  then show False using free_ok [OF assms] bounded [OF assms(1)] assms(2) by auto
qed

end

subsection \<open>Blocks of serv/block.c\<close>

text \<open>A block is named by its number; blocks beyond the initial ones come from malloc.\<close>

datatype bnode = FreeHead | Blk nat

fun blk_of :: "bnode \<Rightarrow> nat option" where
  "blk_of (Blk b) = Some b"
| "blk_of FreeHead = None"

record block_pool =
  bp_heap :: "bnode lheap"
  bp_bsize :: nat
  bp_count :: nat
  bp_limited :: bool

fun free_blocks :: "nat list \<Rightarrow> bnode lheap \<Rightarrow> bnode lheap option" where
  "free_blocks [] h = Some h"
| "free_blocks (i # ns) h = do { h1 \<leftarrow> list_add_tail (Blk i) FreeHead h; free_blocks ns h1 }"

definition init_block_pool :: "nat \<Rightarrow> nat \<Rightarrow> bool \<Rightarrow> block_pool option" where
  "init_block_pool block_size init_count limited =
     do { h \<leftarrow> free_blocks [0..<init_count] (init_list_head FreeHead (\<lambda>_. \<lparr>lh_next = None, lh_prev = None\<rparr>));
          Some \<lparr>bp_heap = h, bp_bsize = block_size, bp_count = init_count, bp_limited = limited\<rparr> }"

definition alloc_block :: "block_pool \<Rightarrow> (nat option \<times> block_pool) option" where
  "alloc_block bp =
     (if list_empty FreeHead (bp_heap bp)
      then (if bp_limited bp then Some (None, bp)
            else Some (Some (bp_count bp), bp\<lparr>bp_count := bp_count bp + 1\<rparr>))
      else do { l \<leftarrow> lh_next (bp_heap bp FreeHead);
                b \<leftarrow> blk_of l;
                h \<leftarrow> list_del l (bp_heap bp);
                Some (Some b, bp\<lparr>bp_heap := h\<rparr>) })"

definition free_block :: "nat \<Rightarrow> block_pool \<Rightarrow> block_pool option" where
  "free_block b bp = do { h \<leftarrow> list_add (Blk b) FreeHead (bp_heap bp); Some (bp\<lparr>bp_heap := h\<rparr>) }"

text \<open>The blocks on the free list.\<close>

definition pool_rep :: "block_pool \<Rightarrow> nat list \<Rightarrow> bool" where
  "pool_rep bp fs \<longleftrightarrow> dlist (bp_heap bp) FreeHead (map Blk fs) \<and> set fs \<subseteq> {..<bp_count bp}"

lemma Blk_inj: "distinct (map Blk fs) = distinct fs"
  by (induction fs) auto

lemma pool_rep_distinct: "pool_rep bp fs \<Longrightarrow> distinct fs"
  using dlist_distinct [of "bp_heap bp" FreeHead "map Blk fs"] Blk_inj by (simp add: pool_rep_def)

definition free_list :: "block_pool \<Rightarrow> nat list" where
  "free_list bp = (case list_for_each (bp_heap bp) FreeHead of None \<Rightarrow> [] | Some ns \<Rightarrow> List.map_filter blk_of ns)"

lemma map_filter_blk: "List.map_filter blk_of (map Blk fs) = fs"
  by (induction fs) (simp_all add: List.map_filter_simps)

lemma free_list_rep: "pool_rep bp fs \<Longrightarrow> free_list bp = fs"
  using list_for_each_dlist [of "bp_heap bp" FreeHead "map Blk fs"]
  by (simp add: free_list_def pool_rep_def map_filter_blk)

lemma init_block_pool_rep:
  "\<exists>bp. init_block_pool z n lim = Some bp \<and> pool_rep bp [0..<n] \<and> bp_count bp = n \<and> bp_limited bp = lim"
proof -
  let ?h = "init_list_head FreeHead (\<lambda>_. \<lparr>lh_next = None, lh_prev = None\<rparr>) :: bnode lheap"
  have "\<exists>h'. free_blocks ns h = Some h' \<and> dlist h' FreeHead (map Blk (ms @ ns))"
    if "dlist h FreeHead (map Blk ms)" "distinct (ms @ ns)" for ns ms h
    using that
  proof (induction ns arbitrary: ms h)
    case (Cons i ns)
    have "Blk i \<notin> set (map Blk ms)" "Blk i \<noteq> FreeHead" using Cons.prems(2) by auto
    from list_add_tail_dlist [OF Cons.prems(1)] this obtain h1 where
      h1: "list_add_tail (Blk i) FreeHead h = Some h1" "dlist h1 FreeHead (map Blk ms @ [Blk i])" by blast
    from Cons.IH [of h1 "ms @ [i]"] h1 Cons.prems(2) show ?case by simp
  qed simp
  from this [of ?h "[]" "[0..<n]"] init_list_head_dlist [of FreeHead]
  show ?thesis by (auto simp: init_block_pool_def pool_rep_def)
qed

lemma alloc_block_rep:
  assumes "pool_rep bp (b # fs)"
  shows "\<exists>bp'. alloc_block bp = Some (Some b, bp') \<and> pool_rep bp' fs \<and> bp_count bp' = bp_count bp
    \<and> bp_limited bp' = bp_limited bp"
proof -
  let ?h = "bp_heap bp"
  have d: "dlist ?h FreeHead (Blk b # map Blk fs)" using assms by (simp add: pool_rep_def)
  have "\<not> list_empty FreeHead ?h" "lh_next (?h FreeHead) = Some (Blk b)"
    using d dlist_first [OF d] by simp_all
  moreover obtain h where "list_del (Blk b) ?h = Some h" "dlist h FreeHead (map Blk fs)"
    using list_del_remove1 [OF d, of "Blk b"] by auto
  ultimately show ?thesis using assms by (simp add: alloc_block_def pool_rep_def)
qed

lemma alloc_block_empty:
  "pool_rep bp [] \<Longrightarrow> bp_limited bp \<Longrightarrow> alloc_block bp = Some (None, bp)"
  by (simp add: alloc_block_def pool_rep_def)

lemma free_block_rep:
  assumes "pool_rep bp fs" and "b \<notin> set fs" and "b < bp_count bp"
  shows "\<exists>bp'. free_block b bp = Some bp' \<and> pool_rep bp' (b # fs) \<and> bp_count bp' = bp_count bp
    \<and> bp_limited bp' = bp_limited bp"
proof -
  have "dlist (bp_heap bp) FreeHead (map Blk fs)" "Blk b \<notin> set (map Blk fs)" "Blk b \<noteq> FreeHead"
    using assms by (auto simp: pool_rep_def)
  from list_add_dlist [OF this(1)] this(2,3) obtain h where
    "list_add (Blk b) FreeHead (bp_heap bp) = Some h" "dlist h FreeHead (Blk b # map Blk fs)" by blast
  then show ?thesis using assms by (simp add: free_block_def pool_rep_def)
qed

text \<open>The pool with its faults taken away, as an instance of the contract.\<close>

definition block_pool_ok :: "block_pool \<Rightarrow> bool" where
  "block_pool_ok bp \<longleftrightarrow> pool_rep bp (free_list bp) \<and> bp_limited bp"

definition blocks_in_use :: "block_pool \<Rightarrow> nat set" where
  "blocks_in_use bp = {..<bp_count bp} - set (free_list bp)"

definition take_block :: "block_pool \<Rightarrow> nat option \<times> block_pool" where
  "take_block bp = (case alloc_block bp of None \<Rightarrow> (None, bp) | Some r \<Rightarrow> r)"

definition give_block :: "nat \<Rightarrow> block_pool \<Rightarrow> block_pool" where
  "give_block b bp = (case free_block b bp of None \<Rightarrow> bp | Some bp' \<Rightarrow> bp')"

lemma take_block_rep:
  assumes "block_pool_ok bp"
  shows "(case free_list bp of [] \<Rightarrow> take_block bp = (None, bp)
    | b # fs \<Rightarrow> \<exists>bp'. take_block bp = (Some b, bp') \<and> block_pool_ok bp' \<and> free_list bp' = fs \<and> bp_count bp' = bp_count bp)"
proof (cases "free_list bp")
  case Nil
  then show ?thesis using assms alloc_block_empty [of bp] by (simp add: take_block_def block_pool_ok_def)
next
  case (Cons b fs)
  then obtain bp' where bp': "alloc_block bp = Some (Some b, bp')" "pool_rep bp' fs" "bp_count bp' = bp_count bp"
    "bp_limited bp' = bp_limited bp" using assms alloc_block_rep [of bp b fs] by (auto simp: block_pool_ok_def)
  then show ?thesis
    using Cons assms free_list_rep [OF bp'(2)] by (simp add: take_block_def block_pool_ok_def)
qed

lemma give_block_rep:
  assumes "block_pool_ok bp" and "b \<in> blocks_in_use bp"
  shows "block_pool_ok (give_block b bp) \<and> free_list (give_block b bp) = b # free_list bp
    \<and> bp_count (give_block b bp) = bp_count bp"
proof -
  have "b \<notin> set (free_list bp)" "b < bp_count bp" using assms(2) by (auto simp: blocks_in_use_def)
  from free_block_rep [OF _ this] assms(1) obtain bp' where
    bp': "free_block b bp = Some bp'" "pool_rep bp' (b # free_list bp)" "bp_count bp' = bp_count bp"
    "bp_limited bp' = bp_limited bp" by (auto simp: block_pool_ok_def)
  then show ?thesis
    using assms(1) free_list_rep [OF bp'(2)] by (simp add: give_block_def block_pool_ok_def)
qed

interpretation blk: buffer_pool block_pool_ok "\<lambda>bp. {..<bp_count bp}" blocks_in_use take_block give_block
proof unfold_locales
  fix s :: block_pool and b assume ok: "block_pool_ok s"
  note fl = pool_rep_distinct [of s "free_list s"]
  have sub: "set (free_list s) \<subseteq> {..<bp_count s}" using ok by (simp add: block_pool_ok_def pool_rep_def)
  have dist: "distinct (free_list s)" using ok fl by (simp add: block_pool_ok_def)
  show "finite {..<bp_count s} \<and> blocks_in_use s \<subseteq> {..<bp_count s}" by (auto simp: blocks_in_use_def)
  show "fst (take_block s) = None \<longleftrightarrow> blocks_in_use s = {..<bp_count s}"
    using take_block_rep [OF ok] sub by (cases "free_list s") (auto simp: blocks_in_use_def)
  show "fst (take_block s) = None \<Longrightarrow> snd (take_block s) = s"
    using take_block_rep [OF ok] by (cases "free_list s") auto
  show "block_pool_ok (snd (take_block s)) \<and> {..<bp_count (snd (take_block s))} = {..<bp_count s}
      \<and> b \<in> {..<bp_count s} \<and> b \<notin> blocks_in_use s \<and> blocks_in_use (snd (take_block s)) = insert b (blocks_in_use s)"
    if "fst (take_block s) = Some b"
    using take_block_rep [OF ok] that sub dist by (cases "free_list s") (auto simp: blocks_in_use_def)
  show "block_pool_ok (give_block b s) \<and> {..<bp_count (give_block b s)} = {..<bp_count s}
      \<and> blocks_in_use (give_block b s) = blocks_in_use s - {b}" if "b \<in> blocks_in_use s"
    using give_block_rep [OF ok that] by (auto simp: blocks_in_use_def)
qed

subsection \<open>The packet cache of serv/packet.c\<close>

definition PACK_COUNT :: nat where "PACK_COUNT = 1024"
definition COUNT_MASK :: nat where "COUNT_MASK = PACK_COUNT - 1"

record pack_cache =
  cache_use :: "bool list"
  cache_pos :: nat

definition cache_init :: pack_cache where
  "cache_init = \<lparr>cache_use = replicate PACK_COUNT False, cache_pos = 0\<rparr>"

definition pack_free_cache :: "nat \<Rightarrow> pack_cache \<Rightarrow> pack_cache" where
  "pack_free_cache i c = c\<lparr>cache_use := (cache_use c)[i := False], cache_pos := i\<rparr>"

text \<open>The search from i round to pos, and how far it has to go.\<close>

definition round :: "nat \<Rightarrow> nat \<Rightarrow> nat" where
  "round pos i = (if i \<le> pos then pos - i else pos + PACK_COUNT - i)"

lemma round_step:
  assumes "i \<noteq> pos" and "i < PACK_COUNT" and "pos < PACK_COUNT"
  shows "Suc (round pos ((i + 1) mod PACK_COUNT)) = round pos i"
  using assms by (cases "i + 1 = PACK_COUNT") (auto simp: round_def)

function find_free :: "bool list \<Rightarrow> nat \<Rightarrow> nat \<Rightarrow> nat option" where
  "find_free us pos i =
     (if i = pos \<or> i \<ge> PACK_COUNT \<or> pos \<ge> PACK_COUNT then None
      else if \<not> us ! i then Some i
      else find_free us pos ((i + 1) mod PACK_COUNT))"
  by auto
termination
  by (relation "measure (\<lambda>(us, pos, i). round pos i)") (use round_step in \<open>fastforce simp: not_le\<close>)+

declare find_free.simps [simp del]

definition pack_get_cache :: "pack_cache \<Rightarrow> nat option \<times> pack_cache" where
  "pack_get_cache c =
     (let pos = cache_pos c
      in if \<not> cache_use c ! pos
         then (Some pos, c\<lparr>cache_pos := and (pos + 1) COUNT_MASK, cache_use := (cache_use c)[pos := True]\<rparr>)
         else (case find_free (cache_use c) pos (and (pos + 1) COUNT_MASK) of
                 None \<Rightarrow> (None, c)
               | Some i \<Rightarrow> (Some i, c\<lparr>cache_pos := and (i + 1) COUNT_MASK, cache_use := (cache_use c)[i := True]\<rparr>)))"

definition cache_ok :: "pack_cache \<Rightarrow> bool" where
  "cache_ok c \<longleftrightarrow> length (cache_use c) = PACK_COUNT \<and> cache_pos c < PACK_COUNT"

definition cached :: "pack_cache \<Rightarrow> nat set" where
  "cached c = {i. i < PACK_COUNT \<and> cache_use c ! i}"

lemma and_COUNT_MASK: "and n COUNT_MASK = n mod PACK_COUNT"
  using take_bit_eq_mask [of 10 n] take_bit_eq_mod [of 10 n]
  by (simp add: COUNT_MASK_def PACK_COUNT_def mask_eq_exp_minus_1)

lemma find_free_Some: "find_free us pos i = Some j \<Longrightarrow> j < PACK_COUNT \<and> \<not> us ! j"
proof (induction us pos i rule: find_free.induct)
  case (1 us pos i)
  from 1(2) show ?case
    using 1(1) by (simp add: find_free.simps [of us pos i] split: if_splits)
qed

lemma find_free_None:
  "find_free us pos i = None \<Longrightarrow> i < PACK_COUNT \<Longrightarrow> pos < PACK_COUNT \<Longrightarrow> d < round pos i \<Longrightarrow> us ! ((i + d) mod PACK_COUNT)"
proof (induction us pos i arbitrary: d rule: find_free.induct)
  case (1 us pos i)
  have ne: "i \<noteq> pos" using 1(5) by (auto simp: round_def)
  then have used: "us ! i" and rest: "find_free us pos ((i + 1) mod PACK_COUNT) = None"
    using 1(2-4) by (simp_all add: find_free.simps [of us pos i] split: if_splits)
  show ?case
  proof (cases d)
    case 0
    then show ?thesis using used 1(3) by simp
  next
    case (Suc e)
    have "e < round pos ((i + 1) mod PACK_COUNT)" using round_step [OF ne 1(3,4)] 1(5) Suc by linarith
    then have "us ! (((i + 1) mod PACK_COUNT + e) mod PACK_COUNT)"
      using 1(1) [of e] ne 1(3,4) used rest by (simp add: PACK_COUNT_def)
    then show ?thesis using Suc by (simp add: mod_add_left_eq)
  qed
qed

lemma find_free_round:
  assumes "find_free us pos ((pos + 1) mod PACK_COUNT) = None" and "pos < PACK_COUNT" and "j < PACK_COUNT" and "j \<noteq> pos"
  shows "us ! j"
proof -
  define d where "d = (if pos < j then j - pos - 1 else j + PACK_COUNT - pos - 1)"
  have eq: "((pos + 1) mod PACK_COUNT + d) mod PACK_COUNT = j"
    using assms(2-4) by (auto simp: d_def mod_add_left_eq)
  have "d < round pos ((pos + 1) mod PACK_COUNT)"
    using assms(2-4) by (cases "pos + 1 = PACK_COUNT") (auto simp: d_def round_def)
  with find_free_None [OF assms(1) _ assms(2), of d] eq show ?thesis by (simp add: PACK_COUNT_def)
qed

lemma pack_get_cache_ok:
  assumes "cache_ok c"
  shows "(case pack_get_cache c of
      (None, c') \<Rightarrow> c' = c \<and> cached c = {..<PACK_COUNT}
    | (Some i, c') \<Rightarrow> cache_ok c' \<and> i < PACK_COUNT \<and> i \<notin> cached c \<and> cached c' = insert i (cached c))"
proof -
  have take: "cache_ok (c\<lparr>cache_pos := and (i + 1) COUNT_MASK, cache_use := (cache_use c)[i := True]\<rparr>)
      \<and> cached (c\<lparr>cache_pos := and (i + 1) COUNT_MASK, cache_use := (cache_use c)[i := True]\<rparr>) = insert i (cached c)"
    if "i < PACK_COUNT" for i
    using assms that by (auto simp: cache_ok_def cached_def and_COUNT_MASK nth_list_update PACK_COUNT_def split: if_splits)
  show ?thesis
  proof (cases "cache_use c ! cache_pos c")
    case False
    then show ?thesis
      using take [of "cache_pos c"] assms by (simp add: pack_get_cache_def Let_def cache_ok_def cached_def)
  next
    case True
    show ?thesis
    proof (cases "find_free (cache_use c) (cache_pos c) ((cache_pos c + 1) mod PACK_COUNT)")
      case None
      then have "cache_use c ! j" if "j < PACK_COUNT" for j
        using find_free_round [OF None _ that] True assms by (cases "j = cache_pos c") (auto simp: cache_ok_def)
      then show ?thesis using None True by (auto simp: pack_get_cache_def Let_def cached_def and_COUNT_MASK)
    next
      case (Some i)
      then show ?thesis
        using True take [of i] find_free_Some [OF Some] by (simp add: pack_get_cache_def Let_def cached_def and_COUNT_MASK)
    qed
  qed
qed

lemma pack_free_cache_ok:
  assumes "cache_ok c" and "i \<in> cached c"
  shows "cache_ok (pack_free_cache i c) \<and> cached (pack_free_cache i c) = cached c - {i}"
  using assms by (auto simp: cache_ok_def cached_def pack_free_cache_def nth_list_update split: if_splits)

interpretation pc: buffer_pool cache_ok "\<lambda>_. {..<PACK_COUNT}" cached pack_get_cache pack_free_cache
proof unfold_locales
  fix s :: pack_cache and b assume ok: "cache_ok s"
  note get = pack_get_cache_ok [OF ok]
  show "finite {..<PACK_COUNT} \<and> cached s \<subseteq> {..<PACK_COUNT}" by (auto simp: cached_def)
  show "fst (pack_get_cache s) = None \<longleftrightarrow> cached s = {..<PACK_COUNT}"
    using get by (auto split: prod.splits option.splits)
  show "fst (pack_get_cache s) = None \<Longrightarrow> snd (pack_get_cache s) = s"
    using get by (auto split: prod.splits)
  show "fst (pack_get_cache s) = Some b \<Longrightarrow> cache_ok (snd (pack_get_cache s)) \<and> {..<PACK_COUNT} = {..<PACK_COUNT}
      \<and> b \<in> {..<PACK_COUNT} \<and> b \<notin> cached s \<and> cached (snd (pack_get_cache s)) = insert b (cached s)"
    using get by (auto split: prod.splits)
  show "b \<in> cached s \<Longrightarrow> cache_ok (pack_free_cache b s) \<and> {..<PACK_COUNT} = {..<PACK_COUNT}
      \<and> cached (pack_free_cache b s) = cached s - {b}"
    using pack_free_cache_ok [OF ok] by simp
qed

text \<open>pack_get_fast waits until a packet is freed; env are the frees of the other threads.\<close>

partial_function (option) pack_get_fast :: "(nat \<Rightarrow> pack_cache \<Rightarrow> pack_cache) \<Rightarrow> nat \<Rightarrow> pack_cache \<Rightarrow> (nat \<times> pack_cache) option" where
  "pack_get_fast env k c =
     (case fst (pack_get_cache c) of
        Some p \<Rightarrow> Some (p, snd (pack_get_cache c))
      | None \<Rightarrow> pack_get_fast env (k + 1) (env k (snd (pack_get_cache c))))"

text \<open>pack_get_new is the same over the pool of blocks.\<close>

partial_function (option) pack_get_new :: "(nat \<Rightarrow> block_pool \<Rightarrow> block_pool) \<Rightarrow> nat \<Rightarrow> block_pool \<Rightarrow> (nat \<times> block_pool) option" where
  "pack_get_new env k bp =
     (case alloc_block bp of
        None \<Rightarrow> None
      | Some (Some p, bp') \<Rightarrow> Some (p, bp')
      | Some (None, bp') \<Rightarrow> pack_get_new env (k + 1) (env k bp'))"

text \<open>If nobody frees a packet, waiting on a full cache never ends.\<close>

lemma pack_get_fast_stuck:
  assumes "fst (pack_get_cache c) = None" and "cache_ok c"
  shows "pack_get_fast (\<lambda>_ c. c) k c = None"
proof (cases "pack_get_fast (\<lambda>_ c. c) k c")
  case (Some r)
  have "snd (pack_get_cache c) = c" using pc.alloc_same assms by blast
  with assms(1) have "\<not> (env = (\<lambda>_ c. c) \<and> c' = c)" if run: "pack_get_fast env k c' = Some r" for env k c' r
    by (intro pack_get_fast.raw_induct [OF _ run, where P = "\<lambda>env k c' r. \<not> (env = (\<lambda>_ c. c) \<and> c' = c)"])
      (auto split: option.splits)
  then show ?thesis using Some by blast
qed simp

end
