(* ===== verification/Receiving.thy ===== *)
theory Receiving
  imports Casting Devices Video Pools
begin

text \<open>
  Datagrams that reach the server (serv/network.c): pack_recv sorts them by type, run_listener_udp
  reads them into packets of the cache. A packet that pack_recv keeps is in the queue of its
  device until the mixer frees it, and the listener takes a fresh one for the next datagram.
  Devices that use a connection for audio send chunks of 524 bytes, which run_recv_audio cuts out
  of the stream. Addresses below PACK_COUNT are the packets of the cache.
\<close>

subsection \<open>One packet\<close>

definition PACKET_HBEAT :: int where "PACKET_HBEAT = 0"
definition PACKET_REPEAT_REQ :: int where "PACKET_REPEAT_REQ = 3"
definition PACKET_VIDEO :: int where "PACKET_VIDEO = 6"

lemmas packet_types = packet_defs PACKET_HBEAT_def PACKET_REPEAT_REQ_def PACKET_VIDEO_def

text \<open>The result is 1 when the caller may use the packet again. An id is read as a C int.\<close>

definition recv_audio :: "int \<Rightarrow> nat \<Rightarrow> srv \<Rightarrow> (int \<times> srv) option" where
  "recv_audio d p s =
     do { g \<leftarrow> d_group (dev s d);
          if g_disc_disabled (grp s g) \<noteq> 0 \<and> g_chairman (grp s g) \<noteq> Some d then Some (1, s)
          else if d_forbidden (dev s d) \<noteq> 0 \<or> d_open (dev s d) = 0 then Some (1, s)
          else do { (r, s1) \<leftarrow> dev_cast_packet d p s; Some (if r \<noteq> 0 then 1 else 0, s1) } }"

definition recv_repeat_req :: "opts \<Rightarrow> int \<Rightarrow> nat \<Rightarrow> srv \<Rightarrow> (int \<times> srv) option" where
  "recv_repeat_req cfg d p s =
     do { g \<leftarrow> d_group (dev s d);
          Some (1, case get_tag s (TAGUID g (pk_tag (pkts s p))) of
                     None \<Rightarrow> s | Some t \<Rightarrow> tag_req_repeat cfg t d (pk_seq (pkts s p)) s) }"

definition pack_recv :: "opts \<Rightarrow> nat \<Rightarrow> srv \<Rightarrow> (int \<times> srv) option" where
  "pack_recv cfg p s =
     (let P = pkts s p; did = sint (pk_id P)
      in case get_device s did of
           None \<Rightarrow> Some (1, if pk_type P = PACKET_HBEAT then heartbeat_id did s else s)
         | Some d \<Rightarrow>
             if pk_type P = PACKET_HBEAT then do { s1 \<leftarrow> dev_heartbeat d s; Some (1, s1) }
             else if pk_type P = PACKET_AUDIO \<or> pk_type P = PACKET_AUDIO_ZERO then recv_audio d p s
             else if pk_type P = PACKET_REPEAT_REQ then recv_repeat_req cfg d p s
             else if pk_type P = PACKET_VIDEO then Some (1, snd (cast_video d P s))
             else Some (0, s))"

subsection \<open>The listener\<close>

record listener =
  ls_srv :: srv
  ls_cache :: pack_cache
  ls_pack :: nat

definition listen_start :: "srv \<Rightarrow> listener option" where
  "listen_start s =
     do { (p, c) \<leftarrow> pack_get_fast (\<lambda>_ c. c) 0 cache_init;
          Some \<lparr>ls_srv = s, ls_cache = c, ls_pack = p\<rparr> }"

text \<open>One datagram; env are the frees of the other threads while the listener waits for a packet.\<close>

definition listen_step :: "opts \<Rightarrow> (nat \<Rightarrow> pack_cache \<Rightarrow> pack_cache) \<Rightarrow> packet \<Rightarrow> listener \<Rightarrow> listener option" where
  "listen_step cfg env dg L =
     (let p = ls_pack L; s1 = upd_pkt p (\<lambda>P. dg\<lparr>pk_rep := pk_rep P\<rparr>) (ls_srv L)
      in if pk_len dg < 12 then Some (L\<lparr>ls_srv := s1\<rparr>)
         else do { (r, s2) \<leftarrow> pack_recv cfg p s1;
                   if r \<noteq> 0 then Some (L\<lparr>ls_srv := s2\<rparr>)
                   else do { (q, c) \<leftarrow> pack_get_fast env 0 (ls_cache L);
                             Some \<lparr>ls_srv = s2, ls_cache = c, ls_pack = q\<rparr> } })"

definition run_listener_udp :: "opts \<Rightarrow> (nat \<Rightarrow> pack_cache \<Rightarrow> pack_cache) \<Rightarrow> packet list \<Rightarrow> listener \<Rightarrow> listener option" where
  "run_listener_udp cfg env dgs L = foldM (listen_step cfg env) dgs L"

subsection \<open>What a packet changes\<close>

text \<open>The ports of the devices are the same, but for the queues of the devices in A.\<close>

definition same_ports :: "int set \<Rightarrow> srv \<Rightarrow> srv \<Rightarrow> bool" where
  "same_ports A s s' \<longleftrightarrow> devs s' = devs s
     \<and> (\<forall>d. d_group (dev s' d) = d_group (dev s d) \<and> d_tag (dev s' d) = d_tag (dev s d) \<and> d_type (dev s' d) = d_type (dev s d)
          \<and> d_open (dev s' d) = d_open (dev s d) \<and> d_forbidden (dev s' d) = d_forbidden (dev s d)
          \<and> (d \<notin> A \<longrightarrow> d_fifo (dev s' d) = d_fifo (dev s d)))"

definition ports_ok :: "srv \<Rightarrow> (int \<Rightarrow> nat list) \<Rightarrow> bool" where
  "ports_ok s Q \<longleftrightarrow> (\<forall>d \<in> set (devs s). q_rep s d (Q d) \<and> d_group (dev s d) \<noteq> None \<and> d_tag (dev s d) \<noteq> None
     \<and> d_type (dev s d) \<ge> 0)"

lemma same_ports_refl [simp]: "same_ports A s s"
  by (simp add: same_ports_def)

lemma same_ports_trans: "same_ports A s t \<Longrightarrow> same_ports A t u \<Longrightarrow> same_ports A s u"
  by (simp add: same_ports_def)

lemma same_ports_mono: "same_ports A s t \<Longrightarrow> A \<subseteq> B \<Longrightarrow> same_ports B s t"
  by (auto simp: same_ports_def)

lemma same_ports_ok:
  assumes "ports_ok s Q" and "same_ports {} s s'"
  shows "ports_ok s' Q"
  using assms by (simp add: ports_ok_def same_ports_def q_rep_def)

lemma same_ports_upd:
  "same_ports A s (upd_pkt p f s)" "same_ports A s (upd_dbdev d f1 s)" "same_ports A s (emit x s)"
  "same_ports A s (upd_tag t f2 s)" "same_ports A s (upd_grp g f3 s)"
  by (simp_all add: same_ports_def)

lemma dev_heartbeat_same:
  assumes "d_group (dev s d) \<noteq> None" and "d_type (dev s d) \<ge> 0"
  shows "\<exists>s'. dev_heartbeat d s = Some s' \<and> same_ports {} s s'"
proof -
  obtain g where g: "d_group (dev s d) = Some g" using assms(1) by blast
  have "\<exists>ns. count_type (d_type (dev s d)) x ms = Some ns" for x ms using assms(2) by (simp add: count_type_def)
  then obtain ns where "count_type (d_type (dev s d)) 1 (g_active_count (grp s g)) = Some ns" by blast
  then show ?thesis
    using g by (simp add: dev_heartbeat_def Let_def dev_activate_def do_dev_activate_def dirty_dev_ents_cache_def same_ports_def)
qed

text \<open>An audio packet is refused, or it goes to the end of the queue of a device that may speak.\<close>

lemma recv_audio_same:
  assumes "q_rep s d ps" and "d_group (dev s d) \<noteq> None" and "d_tag (dev s d) \<noteq> None"
  shows "recv_audio d p s = Some (1, s) \<or>
    (\<exists>s'. recv_audio d p s = Some (0, s') \<and> d_open (dev s d) \<noteq> 0 \<and> d_forbidden (dev s d) = 0
       \<and> q_rep s' d (ps @ [p]) \<and> same_ports {d} s s')"
proof -
  obtain g t where gt: "d_group (dev s d) = Some g" "d_tag (dev s d) = Some t" using assms(2,3) by blast
  show ?thesis
  proof (cases "t_mixer (tagm s t) = Soft \<and> d_mixbit (dev s d) \<noteq> 0 \<and> length ps < 31")
    case True
    from tag_in_dev_packet_rep [OF assms(1), of t p] True obtain s' where
      "tag_in_dev_packet t d p s = (1, s')" "q_rep s' d (ps @ [p])" by blast
    then have in_dev: "tag_in_dev_packet t d p s = (1, dev_in_packet d p s)" "q_rep (dev_in_packet d p s) d (ps @ [p])"
      by (auto simp: tag_in_dev_packet_def split: if_splits)
    moreover have "same_ports {d} s (dev_in_packet d p s)" by (simp add: same_ports_def dev_in_packet_def)
    ultimately show ?thesis
      using gt True by (simp add: recv_audio_def dev_cast_packet_def MIX_PUT_def soft_put_def)
  next
    case False
    have "length ps = 31 \<longleftrightarrow> \<not> length ps < 31" using q_rep_bound [OF assms(1)] by simp
    then show ?thesis
      using gt False q_rep_full [OF assms(1)]
      by (cases "t_mixer (tagm s t)"; cases "d_mixbit (dev s d) = 0")
        (simp_all add: recv_audio_def dev_cast_packet_def MIX_PUT_def soft_put_def netmx_put_def tag_in_dev_packet_def)
  qed
qed

lemma tag_req_repeat_same: "same_ports A s (tag_req_repeat cfg t d q s)"
  by (simp add: tag_req_repeat_def same_ports_upd)

lemma cast_video_same: "same_ports A s (snd (cast_video d P s))"
  by (simp add: cast_video_def broadcast_video_def same_ports_upd)

text \<open>The types of packet a registered device is expected to send.\<close>

definition sorted_type :: "int \<Rightarrow> bool" where
  "sorted_type ty \<longleftrightarrow> ty \<in> {PACKET_HBEAT, PACKET_AUDIO, PACKET_REPEAT_REQ, PACKET_AUDIO_ZERO, PACKET_VIDEO}"

lemma pack_recv_cases:
  assumes ok: "ports_ok s Q" and ty: "sint (pk_id (pkts s p)) \<in> set (devs s) \<longrightarrow> sorted_type (pk_type (pkts s p))"
  shows "(\<exists>r s'. pack_recv cfg p s = Some (r, s') \<and> r \<noteq> 0 \<and> same_ports {} s s')
    \<or> (\<exists>d s'. pack_recv cfg p s = Some (0, s') \<and> d \<in> set (devs s) \<and> d_open (dev s d) \<noteq> 0 \<and> d_forbidden (dev s d) = 0
         \<and> q_rep s' d (Q d @ [p]) \<and> same_ports {d} s s')"
proof (cases "sint (pk_id (pkts s p)) \<in> set (devs s)")
  case False
  then have "pack_recv cfg p s = Some (1, if pk_type (pkts s p) = PACKET_HBEAT then heartbeat_id (sint (pk_id (pkts s p))) s else s)"
    by (simp add: pack_recv_def Let_def)
  moreover have "same_ports {} s (heartbeat_id i s)" for i by (simp add: heartbeat_id_def same_ports_upd split: option.splits)
  ultimately show ?thesis by simp
next
  case reg: True
  define d where "d = sint (pk_id (pkts s p))"
  have d: "d \<in> set (devs s)" "q_rep s d (Q d)" "d_group (dev s d) \<noteq> None" "d_tag (dev s d) \<noteq> None" "d_type (dev s d) \<ge> 0"
    using reg ok by (auto simp: ports_ok_def d_def)
  have "sorted_type (pk_type (pkts s p))" using reg ty by simp
  then consider "pk_type (pkts s p) = PACKET_HBEAT" | "pk_type (pkts s p) = PACKET_AUDIO \<or> pk_type (pkts s p) = PACKET_AUDIO_ZERO"
    | "pk_type (pkts s p) = PACKET_REPEAT_REQ" | "pk_type (pkts s p) = PACKET_VIDEO" by (auto simp: sorted_type_def)
  then show ?thesis
  proof cases
    case 1
    then show ?thesis using dev_heartbeat_same [OF d(3,5)] d(1) by (auto simp: pack_recv_def d_def [symmetric])
  next
    case 2
    then have "pack_recv cfg p s = recv_audio d p s" using d(1) by (auto simp: pack_recv_def d_def [symmetric] packet_types)
    then show ?thesis using recv_audio_same [OF d(2-4), of p] d(1) by fastforce
  next
    case 3
    then have "pack_recv cfg p s = recv_repeat_req cfg d p s"
      using d(1) by (auto simp: pack_recv_def d_def [symmetric] packet_types)
    moreover obtain s' where "recv_repeat_req cfg d p s = Some (1, s')" "same_ports {} s s'"
      using d(3) tag_req_repeat_same [of "{}" s cfg] by (auto simp: recv_repeat_req_def split: option.splits)
    ultimately show ?thesis by simp
  next
    case 4
    then have "pack_recv cfg p s = Some (1, snd (cast_video d (pkts s p) s))"
      using d(1) by (auto simp: pack_recv_def d_def [symmetric] packet_types)
    then show ?thesis using cast_video_same [of "{}"] by auto
  qed
qed

subsection \<open>Where the packets are\<close>

text \<open>Every packet of the cache that is in use is the one the listener reads into, or in exactly
  one queue, or one of K, in use elsewhere.\<close>

definition queued :: "srv \<Rightarrow> (int \<Rightarrow> nat list) \<Rightarrow> nat set" where
  "queued s Q = (\<Union>d \<in> set (devs s). set (Q d))"

definition accounts :: "listener \<Rightarrow> nat set \<Rightarrow> (int \<Rightarrow> nat list) \<Rightarrow> bool" where
  "accounts L K Q \<longleftrightarrow> cache_ok (ls_cache L) \<and> ports_ok (ls_srv L) Q
     \<and> cached (ls_cache L) = insert (ls_pack L) (K \<union> queued (ls_srv L) Q)
     \<and> ls_pack L \<notin> K \<union> queued (ls_srv L) Q \<and> K \<inter> queued (ls_srv L) Q = {}
     \<and> (\<forall>d \<in> set (devs (ls_srv L)). distinct (Q d)
          \<and> (\<forall>e \<in> set (devs (ls_srv L)). e \<noteq> d \<longrightarrow> set (Q d) \<inter> set (Q e) = {}))"

definition free_packets :: "listener \<Rightarrow> nat" where
  "free_packets L = card ({..<PACK_COUNT} - cached (ls_cache L))"

lemma pack_get_fast_free:
  assumes "cache_ok c" and "{..<PACK_COUNT} - cached c \<noteq> {}"
  shows "\<exists>q c'. pack_get_fast env k c = Some (q, c') \<and> cache_ok c' \<and> q < PACK_COUNT \<and> q \<notin> cached c
    \<and> cached c' = insert q (cached c)"
proof -
  obtain q where q: "fst (pack_get_cache c) = Some q"
    using pc.alloc_None [OF assms(1)] assms(2) by (cases "fst (pack_get_cache c)") auto
  note get = pc.alloc_Some [OF assms(1) q]
  show ?thesis using get q by (subst pack_get_fast.simps) auto
qed

lemma free_packets_insert:
  "q < PACK_COUNT \<Longrightarrow> q \<notin> C \<Longrightarrow> card ({..<PACK_COUNT} - insert q C) + 1 = card ({..<PACK_COUNT} - C)"
  by (metis Diff_insert Suc_eq_plus1 card_Suc_Diff1 finite_Diff finite_lessThan lessThan_iff Diff_iff)

text \<open>The queue of d is grown by the packet just read, and the listener takes the packet q.\<close>

lemma accounts_grow:
  assumes acc: "accounts L K Q" and d: "d \<in> set (devs (ls_srv L))"
    and ports: "same_ports {d} (ls_srv L) s'" "q_rep s' d (Q d @ [ls_pack L])"
    and c: "cache_ok c" "q \<notin> cached (ls_cache L)" "cached c = insert q (cached (ls_cache L))"
  shows "accounts \<lparr>ls_srv = s', ls_cache = c, ls_pack = q\<rparr> K (Q(d := Q d @ [ls_pack L]))"
proof -
  let ?Q = "Q(d := Q d @ [ls_pack L])"
  have devs: "devs s' = devs (ls_srv L)" using ports(1) by (simp add: same_ports_def)
  have qd: "queued s' ?Q = insert (ls_pack L) (queued (ls_srv L) Q)"
    using d by (auto simp: queued_def devs split: if_splits)
  have "q_rep s' e (?Q e)" if "e \<in> set (devs s')" for e
    using that acc ports by (auto simp: accounts_def ports_ok_def same_ports_def q_rep_def)
  then have "ports_ok s' ?Q" using acc ports(1) by (auto simp: accounts_def ports_ok_def same_ports_def)
  moreover have "ls_pack L \<notin> set (Q e)" if "e \<in> set (devs (ls_srv L))" for e
    using acc that by (auto simp: accounts_def queued_def)
  ultimately show ?thesis using acc c d by (auto simp: accounts_def qd devs)
qed

lemma accounts_same:
  assumes "accounts L K Q" and "same_ports {} (ls_srv L) s'"
  shows "accounts (L\<lparr>ls_srv := s'\<rparr>) K Q"
  using assms same_ports_ok [OF _ assms(2)]
  by (simp add: accounts_def queued_def same_ports_def)

definition grown :: "srv \<Rightarrow> (int \<Rightarrow> nat list) \<Rightarrow> (int \<Rightarrow> nat list) \<Rightarrow> bool" where
  "grown s Q Q' \<longleftrightarrow> (\<forall>d. take (length (Q d)) (Q' d) = Q d
     \<and> (d_open (dev s d) = 0 \<or> d_forbidden (dev s d) \<noteq> 0 \<longrightarrow> Q' d = Q d))"

lemma listen_step_accounts:
  assumes acc: "accounts L K Q" and free: "0 < free_packets L"
    and ty: "sint (pk_id dg) \<in> set (devs (ls_srv L)) \<longrightarrow> sorted_type (pk_type dg)"
  shows "\<exists>L' Q'. listen_step cfg env dg L = Some L' \<and> accounts L' K Q' \<and> grown (ls_srv L) Q Q'
    \<and> same_ports UNIV (ls_srv L) (ls_srv L') \<and> free_packets L \<le> free_packets L' + 1"
proof -
  define s1 where "s1 = upd_pkt (ls_pack L) (\<lambda>P. dg\<lparr>pk_rep := pk_rep P\<rparr>) (ls_srv L)"
  have s1: "same_ports {} (ls_srv L) s1" by (simp add: s1_def same_ports_upd)
  note acc1 = accounts_same [OF acc s1]
  have keep: "grown (ls_srv L) Q Q" by (simp add: grown_def)
  show ?thesis
  proof (cases "pk_len dg < 12")
    case True
    then show ?thesis
      using acc1 keep same_ports_mono [OF s1] by (auto simp: listen_step_def s1_def [symmetric] Let_def free_packets_def)
  next
    case False
    have ok: "ports_ok s1 Q" using acc1 by (simp add: accounts_def)
    have ty1: "sint (pk_id (pkts s1 (ls_pack L))) \<in> set (devs s1) \<longrightarrow> sorted_type (pk_type (pkts s1 (ls_pack L)))"
      using ty by (simp add: s1_def)
    from pack_recv_cases [OF ok ty1, of cfg] show ?thesis
    proof (elim disjE exE conjE)
      fix r s2 assume r: "pack_recv cfg (ls_pack L) s1 = Some (r, s2)" "r \<noteq> 0" "same_ports {} s1 s2"
      have s2: "same_ports {} (ls_srv L) s2" using same_ports_trans [OF s1 r(3)] .
      show ?thesis
        using False r accounts_same [OF acc s2] keep same_ports_mono [OF s2]
        by (auto simp: listen_step_def s1_def [symmetric] Let_def free_packets_def)
    next
      fix d s2 assume r: "pack_recv cfg (ls_pack L) s1 = Some (0, s2)" "d \<in> set (devs s1)" "d_open (dev s1 d) \<noteq> 0"
        "d_forbidden (dev s1 d) = 0" "q_rep s2 d (Q d @ [ls_pack L])" "same_ports {d} s1 s2"
      have s2: "same_ports {d} (ls_srv L) s2" using same_ports_trans [OF same_ports_mono [OF s1] r(6)] by simp
      have ok_c: "cache_ok (ls_cache L)" using acc by (simp add: accounts_def)
      moreover have "{..<PACK_COUNT} - cached (ls_cache L) \<noteq> {}" using free unfolding free_packets_def card_gt_0_iff by blast
      ultimately obtain q c where q: "pack_get_fast env 0 (ls_cache L) = Some (q, c)" "cache_ok c" "q < PACK_COUNT"
        "q \<notin> cached (ls_cache L)" "cached c = insert q (cached (ls_cache L))"
        using pack_get_fast_free by blast
      have "d \<in> set (devs (ls_srv L))" "d_open (dev (ls_srv L) d) \<noteq> 0" "d_forbidden (dev (ls_srv L) d) = 0"
        using r(2-4) s1 by (simp_all add: same_ports_def)
      then have "accounts \<lparr>ls_srv = s2, ls_cache = c, ls_pack = q\<rparr> K (Q(d := Q d @ [ls_pack L]))"
        "grown (ls_srv L) Q (Q(d := Q d @ [ls_pack L]))"
        using accounts_grow [OF acc _ s2 r(5) q(2,4,5)] by (auto simp: grown_def)
      moreover have "listen_step cfg env dg L = Some \<lparr>ls_srv = s2, ls_cache = c, ls_pack = q\<rparr>"
        using False r(1) q(1) by (simp add: listen_step_def s1_def [symmetric] Let_def)
      moreover have "free_packets L \<le> free_packets \<lparr>ls_srv = s2, ls_cache = c, ls_pack = q\<rparr> + 1"
        using free_packets_insert [OF q(3,4)] q(5) by (simp add: free_packets_def)
      ultimately show ?thesis using same_ports_mono [OF s2] by (intro exI) auto
    qed
  qed
qed

end
