(* ===== verification/Audio_Stream.thy ===== *)
theory Audio_Stream
  imports Receiving Encode
begin

text \<open>
  Audio over a connection (serv/network.c): a device that says Hi gets its socket noted, and
  run_recv_audio cuts what it sends into chunks of 524 bytes, the packets, whatever pieces recv
  returns. The packets come from the pool of blocks; the address of block b is PACK_COUNT + b. The
  parameter env stands for the blocks that other threads free while this one waits.
\<close>

subsection \<open>Bytes of a packet\<close>

definition ntohl :: "byte list \<Rightarrow> 32 word" where
  "ntohl bs = word_rcat (take 4 bs)"

fun samples :: "byte list \<Rightarrow> 16 word list" where
  "samples (a # b # bs) = word_rcat [b, a] # samples bs"
| "samples _ = []"

text \<open>struct pack of include/pack.h in 524 bytes.\<close>

definition bytes_pack :: "byte list \<Rightarrow> packet" where
  "bytes_pack bs =
     \<lparr>pk_id = ntohl bs, pk_seq = ntohl (drop 4 bs), pk_type = uint (bs ! 8), pk_tag = uint (bs ! 9),
      pk_datalen = 256 * unat (bs ! 10) + unat (bs ! 11), pk_data = samples (drop 12 bs),
      pk_len = length bs, pk_rep = 0\<rparr>"

subsection \<open>Connecting\<close>

text \<open>The first message; the second component says whether the socket is kept.\<close>

definition audio_connect :: "int \<Rightarrow> byte list \<Rightarrow> srv \<Rightarrow> srv \<times> bool" where
  "audio_connect sock bs s =
     (if length bs \<ge> 6 \<and> bs ! 4 = 0x48 \<and> bs ! 5 = 0x69
      then (case get_device s (sint (ntohl bs)) of
              None \<Rightarrow> (s, False)
            | Some d \<Rightarrow> (upd_dev d (\<lambda>D. D\<lparr>d_audio_sock := sock\<rparr>) s, True))
      else (s, False))"

subsection \<open>The stream\<close>

definition pksize :: nat where "pksize = 524"

record audio_conn =
  ac_srv :: srv
  ac_pool :: block_pool
  ac_pack :: nat \<comment> \<open>the block the packet is read into\<close>
  ac_got :: "byte list" \<comment> \<open>what is in it\<close>

text \<open>A full packet is handled, and replaced when it was kept.\<close>

definition full_pack :: "opts \<Rightarrow> (nat \<Rightarrow> block_pool \<Rightarrow> block_pool) \<Rightarrow> audio_conn \<Rightarrow> audio_conn option" where
  "full_pack cfg env A =
     (let p = PACK_COUNT + ac_pack A;
          s1 = upd_pkt p (\<lambda>P. (bytes_pack (ac_got A))\<lparr>pk_rep := pk_rep P\<rparr>) (ac_srv A)
      in do { (r, s2) \<leftarrow> pack_recv cfg p s1;
              if r = 0
              then do { (b, bp) \<leftarrow> pack_get_new env 0 (ac_pool A);
                        Some \<lparr>ac_srv = s2, ac_pool = bp, ac_pack = b, ac_got = []\<rparr> }
              else Some (A\<lparr>ac_srv := s2, ac_got := []\<rparr>) })"

text \<open>The loop over what one recv returned. The buffer is never full at its head.\<close>

function repack :: "opts \<Rightarrow> (nat \<Rightarrow> block_pool \<Rightarrow> block_pool) \<Rightarrow> byte list \<Rightarrow> audio_conn \<Rightarrow> audio_conn option" where
  "repack cfg env bs A =
     (if bs = [] then Some A
      else if length (ac_got A) \<ge> pksize then None
      else (let l = min (length bs) (pksize - length (ac_got A));
                A1 = A\<lparr>ac_got := ac_got A @ take l bs\<rparr>
            in if length (ac_got A1) = pksize
               then (case full_pack cfg env A1 of None \<Rightarrow> None | Some A2 \<Rightarrow> repack cfg env (drop l bs) A2)
               else repack cfg env (drop l bs) A1))"
  by auto
termination by (relation "measure (\<lambda>(cfg, env, bs, A). length bs)") (auto simp: min_def)

declare repack.simps [simp del]

text \<open>The thread of a connection on what recv returns until it fails. The packet in hand is not
  freed at the end.\<close>

definition recv_audio_start :: "(nat \<Rightarrow> block_pool \<Rightarrow> block_pool) \<Rightarrow> srv \<Rightarrow> block_pool \<Rightarrow> audio_conn option" where
  "recv_audio_start env s bp =
     do { (b, bp1) \<leftarrow> pack_get_new env 0 bp;
          Some \<lparr>ac_srv = s, ac_pool = bp1, ac_pack = b, ac_got = []\<rparr> }"

definition run_recv_audio :: "opts \<Rightarrow> (nat \<Rightarrow> block_pool \<Rightarrow> block_pool) \<Rightarrow> int \<Rightarrow> byte list list \<Rightarrow> srv \<times> block_pool \<Rightarrow> (srv \<times> block_pool) option" where
  "run_recv_audio cfg env d reads st =
     do { A \<leftarrow> recv_audio_start env (fst st) (snd st);
          A1 \<leftarrow> foldM (repack cfg env) reads A;
          Some (upd_dev d (\<lambda>D. D\<lparr>d_audio_sock := -1\<rparr>) (ac_srv A1), ac_pool A1) }"

subsection \<open>The pieces do not matter\<close>

lemma full_pack_got: "full_pack cfg env A = Some A' \<Longrightarrow> ac_got A' = []"
  by (auto simp: full_pack_def Let_def split: if_splits)

lemma repack_short:
  "length (ac_got A) + length bs < pksize \<Longrightarrow> repack cfg env bs A = Some (A\<lparr>ac_got := ac_got A @ bs\<rparr>)"
  by (subst repack.simps; cases "bs = []") (auto simp: Let_def repack.simps [of _ _ "[]"])

lemma repack_full:
  assumes "length (ac_got A) < pksize" and "length (ac_got A) + length bs = pksize"
  shows "repack cfg env (bs @ cs) A
    = (case full_pack cfg env (A\<lparr>ac_got := ac_got A @ bs\<rparr>) of None \<Rightarrow> None | Some A1 \<Rightarrow> repack cfg env cs A1)"
proof -
  have mn: "min (length (bs @ cs)) (pksize - length (ac_got A)) = length bs" and ne: "bs @ cs \<noteq> []" and tk: "take (length bs) (bs @ cs) = bs" "drop (length bs) (bs @ cs) = cs"
    using assms by auto
  have full: "length (ac_got (A\<lparr>ac_got := ac_got A @ bs\<rparr>)) = pksize" using assms(2) by simp
  show ?thesis using assms(1) ne by (subst repack.simps) (simp only: Let_def mn tk full if_False if_True not_le [symmetric] refl)
qed

lemma repack_append:
  "length (ac_got A) < pksize \<Longrightarrow>
    repack cfg env (bs @ cs) A = (case repack cfg env bs A of None \<Rightarrow> None | Some A1 \<Rightarrow> repack cfg env cs A1)"
proof (induction "length bs" arbitrary: bs A rule: less_induct)
  case less
  let ?n = "pksize - length (ac_got A)"
  show ?case
  proof (cases "length bs < ?n")
    case True
    then have short: "repack cfg env bs A = Some (A\<lparr>ac_got := ac_got A @ bs\<rparr>)" by (intro repack_short) simp
    show ?thesis
    proof (cases "length (bs @ cs) < ?n")
      case True
      then show ?thesis using short by (simp add: repack_short)
    next
      case False
      let ?k = "?n - length bs"
      have k: "length (ac_got A) + length (bs @ take ?k cs) = pksize" using True False less.prems by simp
      have "repack cfg env (bs @ cs) A = repack cfg env ((bs @ take ?k cs) @ drop ?k cs) A" by simp
      also have "\<dots> = (case full_pack cfg env (A\<lparr>ac_got := ac_got A @ bs @ take ?k cs\<rparr>) of
          None \<Rightarrow> None | Some A1 \<Rightarrow> repack cfg env (drop ?k cs) A1)"
        by (rule repack_full [OF less.prems k])
      also have "\<dots> = repack cfg env (take ?k cs @ drop ?k cs) (A\<lparr>ac_got := ac_got A @ bs\<rparr>)"
        using k True by (subst repack_full) auto
      finally show ?thesis using short by simp
    qed
  next
    case False
    then have k: "length (ac_got A) + length (take ?n bs) = pksize" using less.prems by simp
    have lt: "length (drop ?n bs) < length bs" using False less.prems by auto
    have split: "repack cfg env (bs @ ds) A = (case full_pack cfg env (A\<lparr>ac_got := ac_got A @ take ?n bs\<rparr>) of
        None \<Rightarrow> None | Some A1 \<Rightarrow> repack cfg env (drop ?n bs @ ds) A1)" for ds
      using repack_full [OF less.prems k, of cfg env "drop ?n bs @ ds"] by (simp flip: append_assoc)
    show ?thesis
    proof (cases "full_pack cfg env (A\<lparr>ac_got := ac_got A @ take ?n bs\<rparr>)")
      case None
      then show ?thesis using split [of cs] split [of "[]"] by simp
    next
      case (Some A1)
      then show ?thesis
        using split [of cs] split [of "[]"] less.hyps [OF lt, of A1] full_pack_got [OF Some] by (simp add: pksize_def)
    qed
  qed
qed

lemma repack_got:
  "length (ac_got A) < pksize \<Longrightarrow> repack cfg env bs A = Some A' \<Longrightarrow> length (ac_got A') < pksize"
proof (induction cfg env bs A rule: repack.induct)
  case (1 cfg env bs A)
  let ?A = "A\<lparr>ac_got := ac_got A @ take (min (length bs) (pksize - length (ac_got A))) bs\<rparr>"
  show ?case
  proof (cases "bs = []")
    case True
    then show ?thesis using 1(3,4) by (simp add: repack.simps [of cfg env "[]"])
  next
    case ne: False
    show ?thesis
    proof (cases "length (ac_got ?A) = pksize")
      case True
      then obtain A2 where A2: "full_pack cfg env ?A = Some A2"
        "repack cfg env (drop (min (length bs) (pksize - length (ac_got A))) bs) A2 = Some A'"
        using 1(3,4) ne by (subst (asm) repack.simps) (auto simp: Let_def split: option.splits)
      have "length (ac_got A2) < pksize" using full_pack_got [OF A2(1)] by (simp add: pksize_def)
      from 1(1) [OF ne _ refl refl True A2(1) this A2(2)] 1(3) show ?thesis by simp
    next
      case False
      then have "length (ac_got A) + length bs < pksize" using 1(3) by auto
      from repack_short [OF this] 1(4) this show ?thesis by auto
    qed
  qed
qed

end
