(* ===== verification/Receiving_Props.thy ===== *)
theory Receiving_Props
  imports Audio_Stream Demo
begin

text \<open>Properties of the listeners and of the video command (Receiving, Audio_Stream, Video).\<close>

subsection \<open>Datagrams\<close>

text \<open>
  C37. The listener accounts for its packets: over any datagrams, of any length and from anybody,
  whose registered senders use the types the program sorts, and as long as the cache has a free
  packet for each, the listener returns; every packet of the cache in use is the one it reads into,
  or in the queue of exactly one device, or in use elsewhere; queues only grow at their end, and
  the queue of a device whose microphone is closed or forbidden does not grow.
\<close>

theorem listener_accounts_for_packets:
  assumes "accounts L K Q" and "length dgs \<le> free_packets L"
    and "\<forall>dg \<in> set dgs. sint (pk_id dg) \<in> set (devs (ls_srv L)) \<longrightarrow> sorted_type (pk_type dg)"
  shows "\<exists>L' Q'. run_listener_udp cfg env dgs L = Some L' \<and> accounts L' K Q' \<and> grown (ls_srv L) Q Q'"
  using assms
proof (induction dgs arbitrary: L Q)
  case Nil
  then show ?case by (auto simp: run_listener_udp_def grown_def)
next
  case (Cons dg dgs)
  have "0 < free_packets L" and ty: "sint (pk_id dg) \<in> set (devs (ls_srv L)) \<longrightarrow> sorted_type (pk_type dg)"
    using Cons.prems(2,3) by auto
  from listen_step_accounts [OF Cons.prems(1) this] obtain L1 Q1 where L1:
    "listen_step cfg env dg L = Some L1" "accounts L1 K Q1" "grown (ls_srv L) Q Q1"
    "same_ports UNIV (ls_srv L) (ls_srv L1)" "free_packets L \<le> free_packets L1 + 1" by blast
  have "length dgs \<le> free_packets L1" using Cons.prems(2) L1(5) by simp
  moreover have "\<forall>dg \<in> set dgs. sint (pk_id dg) \<in> set (devs (ls_srv L1)) \<longrightarrow> sorted_type (pk_type dg)"
    using Cons.prems(3) L1(4) by (simp add: same_ports_def)
  ultimately obtain L2 Q2 where L2: "run_listener_udp cfg env dgs L1 = Some L2" "accounts L2 K Q2"
    "grown (ls_srv L1) Q1 Q2" using Cons.IH [OF L1(2)] by blast
  have "grown (ls_srv L) Q Q2"
    unfolding grown_def
  proof (intro allI conjI impI)
    fix d
    have "take (length (Q1 d)) (Q2 d) = Q1 d" "take (length (Q d)) (Q1 d) = Q d"
      using L1(3) L2(3) by (auto simp: grown_def)
    then show "take (length (Q d)) (Q2 d) = Q d" by (metis take_take min.absorb1 length_take min.cobounded2)
    assume "d_open (dev (ls_srv L) d) = 0 \<or> d_forbidden (dev (ls_srv L) d) \<noteq> 0"
    then show "Q2 d = Q d" using L1(3,4) L2(3) by (auto simp: grown_def same_ports_def)
  qed
  then show ?case using L1(1) L2(1,2) by (auto simp: run_listener_udp_def)
qed

text \<open>The demo server with device 7 speaking and the listener's first packet.\<close>

definition heard_demo :: srv where
  "heard_demo = demo\<lparr>dev := (demo_dev)(7 := (demo_dev 7)\<lparr>d_open := 1, d_mixbit := 1\<rparr>)\<rparr>"

definition ear :: listener where
  "ear = \<lparr>ls_srv = heard_demo, ls_cache = \<lparr>cache_use = (replicate PACK_COUNT False)[0 := True], cache_pos = 1\<rparr>, ls_pack = 0\<rparr>"

definition dgram :: "32 word \<Rightarrow> int \<Rightarrow> packet" where
  "dgram i ty = \<lparr>pk_id = i, pk_seq = 1, pk_type = ty, pk_tag = 1, pk_datalen = 4, pk_data = [100, 200], pk_len = 16, pk_rep = 0\<rparr>"

lemma ear_cached: "cached (ls_cache ear) = {0}" "cache_ok (ls_cache ear)"
  by (auto simp: ear_def cached_def cache_ok_def nth_list_update PACK_COUNT_def)

lemma ear_free: "free_packets ear = 1023"
proof -
  have "{..<PACK_COUNT} - {0} = {1..<PACK_COUNT}" by auto
  then show ?thesis by (simp add: free_packets_def ear_cached PACK_COUNT_def)
qed

lemma ear_devs: "devs (ls_srv ear) = [9, 8, 7, 5]"
  by (simp add: ear_def heard_demo_def demo_sel)

lemma ear_accounts: "accounts ear {} (\<lambda>_. [])"
proof -
  have "cf_rep 5 (cfifo_init (\<lambda>_. None) 5 2) []" by (rule cfifo_init_rep) simp_all
  then have "ports_ok (ls_srv ear) (\<lambda>_. [])"
    unfolding ports_ok_def ear_devs
    by (simp add: ear_def heard_demo_def q_rep_def demo_dev_sel type_defs) (simp add: demo_dev_def fresh_dev_def)
  then show ?thesis by (simp add: accounts_def ear_cached queued_def) (simp add: ear_def)
qed

lemma listener_accounts_for_packets_witness:
  "\<exists>L' Q'. run_listener_udp (\<lparr>opt_flush = False, opt_sync_policy = SYNC_WAIT, opt_silence_drop = False,
      opt_broadcast = True, opt_tcp_audio = False\<rparr>) (\<lambda>_ c. c) [dgram 7 1, dgram 8 1, dgram 99 2, dgram 7 0] ear = Some L'
    \<and> accounts L' {} Q' \<and> Q' 8 = []"
proof -
  have "\<forall>dg \<in> set [dgram 7 1, dgram 8 1, dgram 99 2, dgram 7 0].
      sint (pk_id dg) \<in> set (devs (ls_srv ear)) \<longrightarrow> sorted_type (pk_type dg)"
    by (simp add: dgram_def ear_devs sorted_type_def packet_types)
  moreover have "d_open (dev (ls_srv ear) 8) = 0" by (simp add: ear_def heard_demo_def demo_dev_sel)
  ultimately show ?thesis
    using listener_accounts_for_packets [OF ear_accounts, of "[dgram 7 1, dgram 8 1, dgram 99 2, dgram 7 0]"]
    by (fastforce simp: ear_free grown_def)
qed

subsection \<open>Packets that are lost\<close>

definition demo_cfg :: opts where
  "demo_cfg = \<lparr>opt_flush = False, opt_sync_policy = SYNC_WAIT, opt_silence_drop = False,
     opt_broadcast = True, opt_tcp_audio = False\<rparr>"

lemma pack_recv_unsorted:
  "sint (pk_id (pkts s p)) \<in> set (devs s) \<Longrightarrow> \<not> sorted_type (pk_type (pkts s p)) \<Longrightarrow> pack_recv cfg p s = Some (0, s)"
  by (simp add: pack_recv_def Let_def sorted_type_def)

lemma listen_step_unsorted:
  assumes "sint (pk_id dg) \<in> set (devs (ls_srv L))" and "\<not> sorted_type (pk_type dg)" and "pk_len dg \<ge> 12"
  shows "listen_step cfg env dg L = (case pack_get_fast env 0 (ls_cache L) of None \<Rightarrow> None | Some (q, c) \<Rightarrow>
    Some \<lparr>ls_srv = upd_pkt (ls_pack L) (\<lambda>P. dg\<lparr>pk_rep := pk_rep P\<rparr>) (ls_srv L), ls_cache = c, ls_pack = q\<rparr>)"
proof -
  let ?s = "upd_pkt (ls_pack L) (\<lambda>P. dg\<lparr>pk_rep := pk_rep P\<rparr>) (ls_srv L)"
  have "pack_recv cfg (ls_pack L) ?s = Some (0, ?s)" by (rule pack_recv_unsorted) (use assms in simp_all)
  then show ?thesis using assms(3) by (simp add: listen_step_def Let_def split: option.splits)
qed

text \<open>
  A datagram of a registered device whose type pack_recv does not sort is neither queued nor
  given back: as many of them as the cache has free packets leave every packet in use and no queue
  longer, and on the next one the listener waits for ever if nobody else frees a packet.
\<close>

theorem unsorted_packets_starve_listener:
  assumes "cache_ok (ls_cache L)" and "sint (pk_id dg) \<in> set (devs (ls_srv L))"
    and "\<not> sorted_type (pk_type dg)" and "pk_len dg \<ge> 12"
  shows "\<exists>L'. run_listener_udp cfg (\<lambda>_ c. c) (replicate (free_packets L) dg) L = Some L'
    \<and> cached (ls_cache L') = {..<PACK_COUNT} \<and> same_ports {} (ls_srv L) (ls_srv L')
    \<and> listen_step cfg (\<lambda>_ c. c) dg L' = None"
  using assms(1,2)
proof (induction "free_packets L" arbitrary: L)
  case 0
  have full: "cached (ls_cache L) = {..<PACK_COUNT}"
    using 0(1) pc.bounded [OF 0(2)] by (auto simp: free_packets_def)
  then have "pack_get_fast (\<lambda>_ c. c) 0 (ls_cache L) = None"
    using pack_get_fast_stuck pc.alloc_None [OF 0(2)] 0(2) by simp
  then show ?case using 0(1) full listen_step_unsorted [OF 0(3) assms(3,4)] by (simp add: run_listener_udp_def)
next
  case (Suc n)
  have "{..<PACK_COUNT} - cached (ls_cache L) \<noteq> {}" using Suc(2) by (metis card.empty free_packets_def nat.distinct(1))
  from pack_get_fast_free [OF Suc(3) this] obtain q c where q: "pack_get_fast (\<lambda>_ c. c) 0 (ls_cache L) = Some (q, c)"
    "cache_ok c" "q < PACK_COUNT" "q \<notin> cached (ls_cache L)" "cached c = insert q (cached (ls_cache L))" by blast
  define L1 where "L1 = \<lparr>ls_srv = upd_pkt (ls_pack L) (\<lambda>P. dg\<lparr>pk_rep := pk_rep P\<rparr>) (ls_srv L), ls_cache = c, ls_pack = q\<rparr>"
  have step: "listen_step cfg (\<lambda>_ c. c) dg L = Some L1"
    using listen_step_unsorted [OF Suc(4) assms(3,4)] q(1) by (simp add: L1_def)
  have "n = free_packets L1" using free_packets_insert [OF q(3,4)] q(5) Suc(2) by (simp add: free_packets_def L1_def)
  moreover have "cache_ok (ls_cache L1)" "sint (pk_id dg) \<in> set (devs (ls_srv L1))" "same_ports {} (ls_srv L) (ls_srv L1)"
    using q(2) Suc(4) by (simp_all add: L1_def same_ports_upd)
  ultimately show ?case
    using Suc(1) [of L1] step Suc(2) [symmetric] same_ports_trans [of "{}" "ls_srv L" "ls_srv L1"]
    by (auto simp: run_listener_udp_def)
qed

lemma unsorted_packets_starve_listener_witness:
  "\<exists>L'. run_listener_udp demo_cfg (\<lambda>_ c. c) (replicate 1023 (dgram 7 2)) ear = Some L'
    \<and> cached (ls_cache L') = {..<1024}"
  using unsorted_packets_starve_listener [OF ear_cached(2), of "dgram 7 2"]
  by (fastforce simp: dgram_def ear_devs sorted_type_def packet_types ear_free PACK_COUNT_def)

subsection \<open>Audio over a connection\<close>

text \<open>
  How the network cuts the audio stream of a connection does not matter: reading it in any
  pieces handles the same packets in the same order, ends in the same state, and faults or waits
  for a packet in the same cases, as reading it all at once.
\<close>

theorem audio_stream_pieces:
  assumes "length (ac_got A) < pksize"
  shows "foldM (repack cfg env) reads A = repack cfg env (concat reads) A"
  using assms
proof (induction reads arbitrary: A)
  case Nil
  then show ?case by (simp add: repack.simps [of cfg env "[]"])
next
  case (Cons bs reads)
  show ?case
    using repack_append [OF Cons.prems, of cfg env bs "concat reads"] Cons.IH repack_got [OF Cons.prems]
    by (simp split: option.splits)
qed

lemma audio_stream_pieces_witness:
  "foldM (repack demo_cfg (\<lambda>_ c. c)) [[1, 2], [], [3]]
      \<lparr>ac_srv = demo, ac_pool = the (init_block_pool 2048 2 True), ac_pack = 0, ac_got = []\<rparr>
    = repack demo_cfg (\<lambda>_ c. c) [1, 2, 3]
      \<lparr>ac_srv = demo, ac_pool = the (init_block_pool 2048 2 True), ac_pack = 0, ac_got = []\<rparr>"
  by (subst audio_stream_pieces) (simp_all add: pksize_def)

lemma pack_get_new_free:
  "alloc_block bp = Some (Some b, bp') \<Longrightarrow> pack_get_new env k bp = Some (b, bp')"
  by (subst pack_get_new.simps) simp

lemma pack_get_new_stuck:
  assumes "alloc_block bp = Some (None, bp)"
  shows "pack_get_new (\<lambda>_ c. c) k bp = None"
proof (cases "pack_get_new (\<lambda>_ c. c) k bp")
  case (Some r)
  have "\<not> (env = (\<lambda>_ c. c) \<and> bp' = bp)" if run: "pack_get_new env k bp' = Some r" for env k bp' r
    using assms
    by (intro pack_get_new.raw_induct [OF _ run, where P = "\<lambda>env k bp' r. \<not> (env = (\<lambda>_ c. c) \<and> bp' = bp)"])
      (auto split: option.splits, blast)
  then show ?thesis using Some by blast
qed simp

text \<open>
  A connection for audio that ends keeps the packet it reads into: with n free blocks in the
  pool, n devices that connect and disconnect without sending anything take them all, and the
  thread of the next connection waits for ever if nobody else frees one.
\<close>

theorem audio_disconnects_exhaust_pool:
  assumes "pool_rep bp fs" and "bp_limited bp"
  shows "\<exists>s' bp'. foldM (\<lambda>d. run_recv_audio cfg (\<lambda>_ c. c) d []) (replicate (length fs) d) (s, bp) = Some (s', bp')
    \<and> pool_rep bp' [] \<and> bp_count bp' = bp_count bp \<and> run_recv_audio cfg (\<lambda>_ c. c) d [] (s', bp') = None"
  using assms
proof (induction fs arbitrary: s bp)
  case Nil
  then show ?case
    using pack_get_new_stuck [OF alloc_block_empty [OF Nil]] by (simp add: run_recv_audio_def recv_audio_start_def)
next
  case (Cons b fs)
  from alloc_block_rep [OF Cons.prems(1)] Cons.prems(2) obtain bp1 where
    bp1: "alloc_block bp = Some (Some b, bp1)" "pool_rep bp1 fs" "bp_count bp1 = bp_count bp" "bp_limited bp1" by auto
  have "run_recv_audio cfg (\<lambda>_ c. c) d [] (s, bp) = Some (upd_dev d (\<lambda>D. D\<lparr>d_audio_sock := -1\<rparr>) s, bp1)"
    using pack_get_new_free [OF bp1(1)] by (simp add: run_recv_audio_def recv_audio_start_def)
  then show ?case using Cons.IH [OF bp1(2,4)] bp1(3) by auto
qed

lemma audio_disconnects_exhaust_pool_witness:
  "\<exists>bp s' bp'. init_block_pool 2048 2 True = Some bp \<and> pool_rep bp' []
    \<and> foldM (\<lambda>d. run_recv_audio demo_cfg (\<lambda>_ c. c) d []) [7, 7] (demo, bp) = Some (s', bp')"
proof -
  obtain bp where bp: "init_block_pool 2048 2 True = Some bp" "pool_rep bp [0..<2]" "bp_limited bp"
    using init_block_pool_rep by blast
  from audio_disconnects_exhaust_pool [OF bp(2,3), of demo_cfg 7 demo] bp(1) show ?thesis
    by (auto simp: numeral_2_eq_2)
qed

subsection \<open>Video\<close>

datatype video_op = VideoStart int | VideoStop int

fun video_cmd :: "video_op \<Rightarrow> cmd" where
  "video_cmd (VideoStart d) = demo_cmd d [''start'', ''0'']"
| "video_cmd (VideoStop d) = demo_cmd d [''stop'']"

fun video_ok :: "int list \<Rightarrow> video_op list \<Rightarrow> bool" where
  "video_ok ds [] \<longleftrightarrow> True"
| "video_ok ds (VideoStart d # ops) \<longleftrightarrow> d \<notin> set ds \<and> video_ok (d # ds) ops"
| "video_ok ds (VideoStop d # ops) \<longleftrightarrow> d \<in> set ds \<and> video_ok (remove1 d ds) ops"

fun video_stack :: "int list \<Rightarrow> video_op list \<Rightarrow> int list" where
  "video_stack ds [] = ds"
| "video_stack ds (VideoStart d # ops) = video_stack (d # ds) ops"
| "video_stack ds (VideoStop d # ops) = video_stack (remove1 d ds) ops"

fun video_run :: "video_op list \<Rightarrow> srv \<Rightarrow> srv option" where
  "video_run [] s = Some s"
| "video_run (op # ops) s =
     (case cmd_video (video_cmd op) s of Some (r, c, s1) \<Rightarrow> (if r = 0 then video_run ops s1 else None) | None \<Rightarrow> None)"

fun video_dev :: "video_op \<Rightarrow> int" where
  "video_dev (VideoStart d) = d"
| "video_dev (VideoStop d) = d"

lemma atoi_0: "atoi ''0'' = 0"
  by code_simp

lemma video_start_sel: "video_start d s = Some s' \<Longrightarrow> devs s' = devs s"
  by (auto simp: video_start_def on_heap_Some)

text \<open>
  The devices that broadcast video form a stack: over any sequence of start commands of
  devices that are not broadcasting and stop commands of devices that are, every command succeeds,
  the list holds exactly the abstract stack, and a video packet is broadcast exactly when it comes
  from the device on top, the one that started last of those that still broadcast.
\<close>

theorem video_broadcasters_form_stack:
  assumes "video_inv s ds" and "video_ok ds ops" and "video_dev ` set ops \<subseteq> set (devs s)"
  shows "\<exists>s'. video_run ops s = Some s' \<and> video_inv s' (video_stack ds ops)
    \<and> (\<forall>d P. fst (cast_video d P s') = 0 \<longleftrightarrow> (\<exists>ds'. video_stack ds ops = d # ds'))"
  using assms
proof (induction ops arbitrary: s ds)
  case Nil
  have "fst (cast_video d P s) = 0 \<longleftrightarrow> (\<exists>ds'. ds = d # ds')" for d P
    using Nil(1) by (cases ds) (auto simp: video_inv_def cast_video_def)
  with Nil show ?case by simp
next
  case (Cons op ops)
  show ?case
  proof (cases op)
    case (VideoStart d)
    from video_start_inv [OF Cons.prems(1), of d] Cons.prems(2) VideoStart obtain s1 where
      s1: "video_start d s = Some s1" "video_inv s1 (d # ds)" "devs s1 = devs s" by auto
    have "cmd_video (video_cmd op) s = Some (0, REP_OK (video_cmd op), s1)"
      using s1(1) Cons.prems(3) VideoStart by (simp add: cmd_video_def demo_cmd_def atoi_0)
    then show ?thesis
      using Cons.IH [OF s1(2)] s1(3) Cons.prems(2,3) VideoStart by (auto simp del: bind_Some_iff)
  next
    case (VideoStop d)
    from video_stop_inv [OF Cons.prems(1), of d] Cons.prems(2) VideoStop obtain s1 where
      s1: "video_stop d s = Some s1" "video_inv s1 (remove1 d ds)" "devs s1 = devs s" by auto
    obtain b where "bcast_dev s = Some b" using Cons.prems(1,2) VideoStop by (cases ds) (auto simp: video_inv_def)
    then have "cmd_video (video_cmd op) s = Some (0, REP_OK (video_cmd op), s1)"
      using s1(1) Cons.prems(3) VideoStop by (simp add: cmd_video_def demo_cmd_def)
    then show ?thesis
      using Cons.IH [OF s1(2)] s1(3) Cons.prems(2,3) VideoStop by (auto simp del: bind_Some_iff)
  qed
qed

lemma video_broadcasters_form_stack_witness:
  "\<exists>s'. video_run [VideoStart 7, VideoStart 8, VideoStart 9, VideoStop 8, VideoStop 9] demo = Some s'
    \<and> video_inv s' [7] \<and> (\<forall>P. fst (cast_video 7 P s') = 0 \<and> fst (cast_video 8 P s') = -1)"
proof -
  have "video_inv demo []" using demo_heads by (simp add: video_inv_def) (simp add: demo_def)
  from video_broadcasters_form_stack [OF this, of "[VideoStart 7, VideoStart 8, VideoStart 9, VideoStop 8, VideoStop 9]"]
  obtain s' where s': "video_run [VideoStart 7, VideoStart 8, VideoStart 9, VideoStop 8, VideoStop 9] demo = Some s'"
    "video_inv s' [7]" "\<forall>d P. fst (cast_video d P s') = 0 \<longleftrightarrow> (\<exists>ds'. [7] = d # ds')"
    by (auto simp: demo_sel simp del: video_run.simps)
  have "fst (cast_video 8 P s') = -1" for P using s'(2) by (simp add: cast_video_def video_inv_def)
  then show ?thesis using s' by (intro exI [of _ s'] conjI) auto
qed

text \<open>
  The video command does not check who starts or stops. While device 7 broadcasts, a stop of
  device 8, which does not, follows its null links; and after device 7 has started twice its link
  points at itself, so that after it stops it is still the one that broadcasts, and stopping it
  again faults.
\<close>

theorem video_command_unchecked:
  "cmd_video (demo_cmd 8 [''stop'']) (the (video_run [VideoStart 7] demo)) = None
   \<and> (case video_run [VideoStart 7, VideoStart 7, VideoStop 7] demo of None \<Rightarrow> False
      | Some s \<Rightarrow> bcast_dev s = Some 7 \<and> cmd_video (demo_cmd 7 [''stop'']) s = None)"
  by code_simp

end
