(* ===== verification/Commands.thy ===== *)
theory Commands
  imports Register Video
begin

text \<open>
  The smaller command handlers: registration of people (serv/cmd_regist.c, serv/cmd_auth.c),
  subscribing and switching tags (serv/cmd_sub.c, serv/cmd_tag.c), interpretation
  (serv/cmd_interp.c), messages and service calls, cameras, files, videos, system commands
  (serv/cmd_msgctrl.c, cmd_service.c, cmd_ptc.c, cmd_filectrl.c, cmd_videoctrl.c, cmd_misc.c,
  cmd_sysconfig.c, cmd_debug.c) and the accounts of the managers (serv/cmd_manage.c). opt is the
  option opt_mixer, which decides the mixer of a tag that a command creates.
\<close>

subsection \<open>serv/cmd_regist.c\<close>

definition regist_setup :: "int \<Rightarrow> db_regist \<Rightarrow> srv \<Rightarrow> srv option" where
  "regist_setup g r s =
     do { let ids = id_list (dr_members r);
          ensure (length ids \<le> 1024);
          Some (upd_grp g (\<lambda>G. G\<lparr>g_reg_members := ids\<rparr>) s) }"

definition regist_reset_all :: "int \<Rightarrow> srv \<Rightarrow> srv" where
  "regist_reset_all g s =
     fold (\<lambda>i s. case get_device s i of
                   None \<Rightarrow> s
                 | Some d \<Rightarrow> upd_dbdev d (\<lambda>D. D\<lparr>dd_regist_reg := 0\<rparr>) (upd_dev d (\<lambda>D. D\<lparr>d_reg := 0\<rparr>) s))
       (g_reg_members (grp s g)) s"

definition regist_start :: "int \<Rightarrow> int \<Rightarrow> string list \<Rightarrow> cmd \<Rightarrow> srv \<Rightarrow> handled" where
  "regist_start d g args c s =
     (if dg_regist_start (dbgrp s g) \<noteq> 0 then Some (ERR_OTHER, c, s)
      else case dbregist s of
        [] \<Rightarrow> Some (ERR_OTHER, c, s)
      | r # _ \<Rightarrow>
          do { s1 \<leftarrow> regist_setup g r s;
               let s2 = regist_reset_all g s1;
               case args of
                 [] \<Rightarrow> Some (1, c, s2)
               | p # _ \<Rightarrow>
                   (let mode = atoi p;
                        s3 = upd_grp g (\<lambda>G. G\<lparr>g_reg_mode := mode, g_reg_expect := dr_expect r, g_reg_arrive := 0,
                               g_reg_idstr := Some []\<rparr>) s2;
                        s4 = group_save g (upd_dbgrp g (\<lambda>G. G\<lparr>dg_regist_expect := dr_expect r, dg_regist_arrive := 0,
                               dg_regist_start := 1, dg_regist_mode := mode\<rparr>) s3);
                        s5 = device_save d (upd_dbdev d (\<lambda>D. D\<lparr>dd_regist_master := 1\<rparr>) s4);
                        c1 = REP_OK c;
                        s6 = send_cmd_to_dev_id c1 1 s5
                    in Some (0, c1, brcast_cmd_to_multi c1 (g_reg_members (grp s6 g)) s6)) })"

text \<open>After a stop the text of ids stays, to be emptied by the next start.\<close>

definition regist_stop :: "int \<Rightarrow> int \<Rightarrow> cmd \<Rightarrow> srv \<Rightarrow> handled" where
  "regist_stop d g c s =
     (if dg_regist_start (dbgrp s g) = 0 then Some (ERR_OTHER, c, s)
      else do { let c1 = REP_END (REP_ADD_NUM (g_reg_arrive (grp s g)) (REP_ADD_NUM (g_reg_expect (grp s g)) (REP_ADD ''OK'' c)));
                let s1 = brcast_cmd_to_all c1 s;
                ids \<leftarrow> g_reg_idstr (grp s1 g);
                let c2 = REP_END (REP_ADD ids (REP_UNEND c1));
                let s2 = regist_reset_all g (send_cmd_to_dev_id c2 1 s1);
                let s3 = upd_grp g (\<lambda>G. G\<lparr>g_reg_members := [], g_reg_expect := 0, g_reg_arrive := 0\<rparr>) s2;
                let s4 = group_save g (upd_dbgrp g (\<lambda>G. G\<lparr>dg_regist_expect := 0, dg_regist_arrive := 0,
                           dg_regist_start := 0\<rparr>) s3);
                Some (0, c2, device_save d (upd_dbdev d (\<lambda>D. D\<lparr>dd_regist_master := 0\<rparr>) s4)) })"

definition regist_status :: "int \<Rightarrow> int \<Rightarrow> cmd \<Rightarrow> srv \<Rightarrow> handled" where
  "regist_status d g c s =
     (let c1 = REP_ADD_NUM (g_reg_arrive (grp s g)) (REP_ADD_NUM (g_reg_expect (grp s g)) (REP_ADD ''OK'' c))
      in if d = 0 then do { ids \<leftarrow> g_reg_idstr (grp s g); Some (0, REP_END (REP_ADD ids c1), s) }
         else Some (0, REP_END c1, s))"

text \<open>The arrival of a device that was not counted yet.\<close>

definition regist_arrive :: "int \<Rightarrow> int \<Rightarrow> srv \<Rightarrow> srv option" where
  "regist_arrive d g s =
     do { let n = g_reg_arrive (grp s g);
          ensure (0 \<le> n \<and> n < 1024);
          ids \<leftarrow> g_reg_idstr (grp s g);
          let s1 = upd_grp g (\<lambda>G. G\<lparr>g_reg_ids := (g_reg_ids G)[nat n := d], g_reg_arrive := n + 1,
                     g_reg_idstr := Some (list_add_num ids d)\<rparr>) s;
          let s2 = upd_dbgrp g (\<lambda>G. G\<lparr>dg_regist_arrive := n + 1\<rparr>) s1;
          Some (upd_dbdev d (\<lambda>D. D\<lparr>dd_regist_reg := 1\<rparr>) (upd_dev d (\<lambda>D. D\<lparr>d_reg := 1\<rparr>) s2)) }"

definition shown_name :: "string \<Rightarrow> string" where
  "shown_name n = (let u = dropWhile (\<lambda>x. x = CHR '' '') n in if u = [] then ''.'' else u)"

definition regist_reg :: "int \<Rightarrow> int \<Rightarrow> string list \<Rightarrow> cmd \<Rightarrow> srv \<Rightarrow> handled" where
  "regist_reg d g args c s =
     (case args of
        p # q # _ \<Rightarrow>
          (let mode = atoi p; cid = atoi q; dd = dbdev s d
           in if dg_regist_start (dbgrp s g) = 0 \<or> dg_regist_mode (dbgrp s g) \<noteq> mode then Some (ERR_OTHER, c, s)
              else if mode = REGIST_CARD_ID \<and> cid \<noteq> dd_user_card dd then Some (ERR_OTHER, c, s)
              else (let c1 = REP_END (REP_ADD_NUM (dd_user_gender dd) (REP_ADD (shown_name (dd_user_name dd))
                               (REP_ADD_NUM (dd_user_card dd) (REP_ADD ''OK'' c))))
                    in if d_reg (dev s d) \<noteq> 0 then Some (0, c1, s)
                       else do { s1 \<leftarrow> regist_arrive d g s; Some (0, c1, s1) }))
      | _ \<Rightarrow> Some (1, c, s))"

definition cmd_regist :: "cmd \<Rightarrow> srv \<Rightarrow> handled" where
  "cmd_regist c s =
     (case get_device s (c_dev c) of None \<Rightarrow> Some (ERR_NOT_REG, c, s)
      | Some d \<Rightarrow>
          do { g \<leftarrow> d_group (dev s d);
               case c_args c of
                 [] \<Rightarrow> Some (1, c, s)
               | sub # args \<Rightarrow>
                   if sub = ''start'' then regist_start d g args c s
                   else if sub = ''stop'' then regist_stop d g c s
                   else if sub = ''status'' then regist_status d g c s
                   else if sub = ''reg'' then regist_reg d g args c s
                   else Some (2, c, s) })"

subsection \<open>serv/cmd_auth.c\<close>

text \<open>query is the generated lookup db_get_auth_card_by_card_id: the information, the extra text
  and the device of a card. The card id is copied into 256 bytes first.\<close>

definition authenticate :: "(string \<Rightarrow> (string \<times> string \<times> int) option) \<Rightarrow> string \<Rightarrow> string \<Rightarrow> (string \<times> int) option option" where
  "authenticate query cno info =
     do { ensure (length cno < 256);
          Some (case query cno of
                  None \<Rightarrow> None
                | Some (i, extra, did) \<Rightarrow> if info = i then Some (extra, did) else None) }"

definition cmd_auth :: "(string \<Rightarrow> (string \<times> string \<times> int) option) \<Rightarrow> cmd \<Rightarrow> srv \<Rightarrow> handled" where
  "cmd_auth query c s =
     (case get_device s (c_dev c) of None \<Rightarrow> Some (ERR_NOT_REG, c, s)
      | Some d \<Rightarrow>
          (case c_args c of
             cno # info # _ \<Rightarrow>
               do { a \<leftarrow> authenticate query cno info;
                    case a of
                      None \<Rightarrow> Some (ERR_REJECTED, c, s)
                    | Some (extra, did) \<Rightarrow>
                        do { g \<leftarrow> d_group (dev s d);
                             if g_reg_mode (grp s g) = REGIST_CARD_ID \<and> did \<noteq> d then Some (ERR_REJECTED, c, s)
                             else (let n = g_reg_arrive (grp s g) + 1;
                                       s1 = upd_grp g (\<lambda>G. G\<lparr>g_reg_arrive := n\<rparr>) s;
                                       s2 = group_save g (upd_dbgrp g (\<lambda>G. G\<lparr>dg_regist_arrive := n\<rparr>) s1);
                                       s3 = upd_dbdev d (\<lambda>D. D\<lparr>dd_regist_reg := 1\<rparr>) (upd_dev d (\<lambda>D. D\<lparr>d_reg := 1\<rparr>) s2)
                                   in Some (0, REP_END (REP_ADD extra (REP_ADD ''OK'' c)), device_save d s3)) } }
           | _ \<Rightarrow> Some (1, c, s)))"

subsection \<open>serv/cmd_sub.c and serv/cmd_tag.c\<close>

text \<open>The type 2 command that tells the unicast device of a tag who subscribes.\<close>

definition notify_ucast :: "int \<Rightarrow> int \<Rightarrow> bool \<Rightarrow> int \<Rightarrow> srv \<Rightarrow> srv" where
  "notify_ucast t d sub tid s =
     (case t_ucast (tagm s t) of
        None \<Rightarrow> s
      | Some u \<Rightarrow>
          if d_ops (dev s u)
          then emit (SubTo u d (d_addr (dev s d)) (d_active (dev s d) \<noteq> 0) sub (tid mod 256)) s
          else s)"

definition sub_interp :: "int \<Rightarrow> bool \<Rightarrow> srv \<Rightarrow> srv option" where
  "sub_interp d unsub s =
     (if d_type (dev s d) = DEVTYPE_INTERP
      then do { t \<leftarrow> d_tag (dev s d);
                if t_interp_mode (tagm s t) = INTERP_RE \<and> d_open (dev s d) = 0
                then (if unsub then Some (interp_del_rep t s) else apply_interp_mode t d s)
                else Some s }
      else Some s)"

definition cmd_sub :: "mixer \<Rightarrow> cmd \<Rightarrow> srv \<Rightarrow> handled" where
  "cmd_sub opt c s =
     (case c_args c of [] \<Rightarrow> Some (1, c, s)
      | p # _ \<Rightarrow>
          (case get_device s (c_dev c) of None \<Rightarrow> Some (ERR_NOT_REG, c, s)
           | Some d \<Rightarrow>
               do { gid \<leftarrow> d_group (dev s d);
                    if atoi p = 0 then Some (ERR_OTHER, c, s)
                    else do { let unsub = atoi p < 0;
                              let tid = \<bar>atoi p\<bar>;
                              (t, s1) \<leftarrow> request_tag opt gid tid s;
                              s2 \<leftarrow> (if unsub then dev_unsubscribe d t s1 else dev_subscribe d t s1);
                              let repid = (if unsub then 0
                                           else case t_interp_rep (tagm s2 t) of None \<Rightarrow> 0 | Some r \<Rightarrow> t_id (tagm s2 r));
                              s3 \<leftarrow> sub_interp d unsub (notify_ucast t d (\<not> unsub) tid s2);
                              Some (0, REP_END (REP_ADD_NUM repid (REP_ADD ''OK'' c)), device_save d s3) } }))"

text \<open>The list is built in 1024 bytes.\<close>

definition cmd_get_tags :: "cmd \<Rightarrow> srv \<Rightarrow> handled" where
  "cmd_get_tags c s =
     do { let buf = make_strlist (map (\<lambda>t. num_str (dt_id t) @ '':'' @ dt_name t) (dbtags s));
          ensure (length buf < 1024);
          Some (0, REP_END (REP_ADD buf (REP_ADD ''OK'' c)), s) }"

definition tag_add_device :: "int \<Rightarrow> int \<Rightarrow> srv \<Rightarrow> srv option" where
  "tag_add_device t d s = on_heap (list_add_tail (DTag d) (TagHead t)) s"

definition tag_del_device :: "int \<Rightarrow> srv \<Rightarrow> srv option" where
  "tag_del_device d s = on_heap (list_del (DTag d)) s"

definition leave_interp :: "int \<Rightarrow> int \<Rightarrow> srv \<Rightarrow> srv option" where
  "leave_interp t d s =
     (if d_type (dev s d) = DEVTYPE_INTERP
      then apply_interp_mode t d (upd_tag t (\<lambda>T. T\<lparr>t_interp_mode := INTERP_NO\<rparr>) s)
      else Some s)"

definition move_to_tag :: "mixer \<Rightarrow> int \<Rightarrow> int \<Rightarrow> int \<Rightarrow> srv \<Rightarrow> srv option" where
  "move_to_tag opt gid tid d s =
     do { (t, s1) \<leftarrow> request_tag opt gid tid s;
          s2 \<leftarrow> tag_del_device d s1;
          s3 \<leftarrow> tag_add_device t d s2;
          let s4 = snd (tag_check_ucast t d (upd_dev d (\<lambda>D. D\<lparr>d_tag := Some t\<rparr>) s3));
          if d_type (dev s4 d) = DEVTYPE_INTERP then apply_interp_mode t d s4 else Some s4 }"

definition cmd_switch_tag :: "mixer \<Rightarrow> cmd \<Rightarrow> srv \<Rightarrow> handled" where
  "cmd_switch_tag opt c s =
     (case get_device s (c_dev c) of None \<Rightarrow> Some (ERR_NOT_REG, c, s)
      | Some d \<Rightarrow>
          (case c_args c of [] \<Rightarrow> Some (1, c, s)
           | p # _ \<Rightarrow>
               (let tid = atoi p; c1 = REP_OK c
                in if tid \<le> 0 then Some (ERR_OTHER, c, s)
                   else do { t \<leftarrow> d_tag (dev s d);
                             if tid = t_id (tagm s t) then Some (0, c1, s)
                             else do { s1 \<leftarrow> leave_interp t d s;
                                       gid \<leftarrow> d_group (dev s1 d);
                                       s2 \<leftarrow> move_to_tag opt gid tid d s1;
                                       Some (0, c1, device_save d (upd_dbdev d (\<lambda>D. D\<lparr>dd_tagid := tid\<rparr>) s2)) } })))"

text \<open>The reply to get_subs is a type 2 command in place of the text (cmd/t2cmd.h): the tag, the
  number of subscribers, and 12 bytes for each of them, on a little-endian machine; addresses and
  ports are in network byte order.\<close>

definition le_chars :: "nat \<Rightarrow> int \<Rightarrow> string" where
  "le_chars k n = map (\<lambda>i. char_of (nat (n div 256 ^ i mod 256))) [0..<k]"

definition subs_entry :: "srv \<Rightarrow> int \<Rightarrow> string" where
  "subs_entry s e =
     le_chars 4 e @ rev (le_chars 4 (fst (d_addr (dev s e)))) @ rev (le_chars 2 (snd (d_addr (dev s e))))
       @ le_chars 2 (if d_active (dev s e) \<noteq> 0 then 1 else 0)"

definition subs_list :: "int \<Rightarrow> int list \<Rightarrow> srv \<Rightarrow> string" where
  "subs_list tid es s =
     le_chars 1 2 @ le_chars 1 65 @ le_chars 2 (4 + 12 * int (length es)) @ le_chars 2 tid
       @ le_chars 2 (int (length es)) @ concat (map (subs_entry s) es)"

definition cmd_get_subs :: "cmd \<Rightarrow> srv \<Rightarrow> handled" where
  "cmd_get_subs c s =
     (case get_device s (c_dev c) of None \<Rightarrow> Some (ERR_NOT_REG, c, s)
      | Some d \<Rightarrow>
          (case c_args c of [] \<Rightarrow> Some (1, c, s)
           | p # _ \<Rightarrow>
               if atoi p \<le> 0 \<or> d_type (dev s d) \<noteq> DEVTYPE_UCAST_AUDIO then Some (ERR_OTHER, c, s)
               else do { t \<leftarrow> d_tag (dev s d);
                         if t_id (tagm s t) \<noteq> atoi p then Some (ERR_OTHER, c, s)
                         else do { es \<leftarrow> list_devs (SubHead t) s;
                                   Some (0, c\<lparr>c_rep := subs_list (atoi p) es s\<rparr>, s) } }))"

subsection \<open>serv/cmd_interp.c\<close>

definition cmd_interp :: "cmd \<Rightarrow> srv \<Rightarrow> handled" where
  "cmd_interp c s =
     (case get_device s (c_dev c) of None \<Rightarrow> Some (ERR_NOT_REG, c, s)
      | Some d \<Rightarrow>
          (case c_args c of
             [] \<Rightarrow> Some (1, c, s)
           | sub # args \<Rightarrow>
               if sub = ''set_mode''
               then (case args of [] \<Rightarrow> Some (1, c, s)
                     | p # _ \<Rightarrow>
                         do { t \<leftarrow> d_tag (dev s d);
                              s1 \<leftarrow> apply_interp_mode t d (upd_tag t (\<lambda>T. T\<lparr>t_interp_mode := atoi p\<rparr>) s);
                              Some (0, REP_OK c, s1) })
               else Some (2, c, s)))"

subsection \<open>serv/cmd_msgctrl.c, cmd_service.c, cmd_ptc.c and cmd_sysconfig.c\<close>

definition send_to_idlist :: "cmd \<Rightarrow> string \<Rightarrow> srv \<Rightarrow> srv" where
  "send_to_idlist c x s = fold (send_cmd_to_dev_id c) (id_list x) s"

definition cmd_msgctrl :: "cmd \<Rightarrow> srv \<Rightarrow> handled" where
  "cmd_msgctrl c s =
     (case get_device s (c_dev c) of None \<Rightarrow> Some (ERR_NOT_REG, c, s)
      | Some d \<Rightarrow>
          (case c_args c of
             [] \<Rightarrow> Some (1, c, s)
           | sub # args \<Rightarrow>
               if sub = ''query''
               then do { g \<leftarrow> d_group (dev s d);
                         ds \<leftarrow> list_devs (GrpHead g) s;
                         ensure (length (num_list ds) < 10240);
                         Some (0, REP_END (REP_ADD (num_list ds) (REP_ADD ''OK'' c)), s) }
               else if sub = ''send''
               then (case args of [] \<Rightarrow> Some (1, c, s)
                     | p # _ \<Rightarrow> (let c1 = REP_OK c
                                 in Some (0, c1, if p = ''all'' then brcast_cmd_to_all c1 s else send_to_idlist c1 p s)))
               else Some (2, c, s)))"

definition cmd_servicecall :: "cmd \<Rightarrow> srv \<Rightarrow> handled" where
  "cmd_servicecall c s =
     (case get_device s (c_dev c) of None \<Rightarrow> Some (ERR_NOT_REG, c, s)
      | Some d \<Rightarrow>
          (case c_args c of [] \<Rightarrow> Some (1, c, s)
           | p # _ \<Rightarrow> Some (0, REP_OK c, send_cmd_to_dev_id c 1 s)))"

definition cmd_ptc :: "cmd \<Rightarrow> srv \<Rightarrow> handled" where
  "cmd_ptc c s =
     (case get_device s (c_dev c) of None \<Rightarrow> Some (ERR_NOT_REG, c, s)
      | Some d \<Rightarrow>
          (case c_args c of
             p # q # _ \<Rightarrow>
               (let c1 = REP_OK c
                in Some (0, c1, if atoi p \<noteq> 0 then send_cmd_to_dev_id c1 (atoi p) s else s))
           | _ \<Rightarrow> Some (1, c, s)))"

definition cmd_sysconfig :: "cmd \<Rightarrow> srv \<Rightarrow> handled" where
  "cmd_sysconfig c s =
     (case get_device s (c_dev c) of None \<Rightarrow> Some (ERR_NOT_REG, c, s)
      | Some d \<Rightarrow>
          (case c_args c of
             p # q # _ \<Rightarrow>
               (let c1 = REP_OK c
                in Some (0, c1, if atoi p \<noteq> 0 then send_cmd_to_dev_id c1 (atoi p) s else brcast_cmd_to_all c1 s))
           | _ \<Rightarrow> Some (1, c, s)))"

subsection \<open>serv/cmd_videoctrl.c and serv/cmd_filectrl.c\<close>

definition md_find_video :: "srv \<Rightarrow> int \<Rightarrow> db_video option" where
  "md_find_video s i = find (\<lambda>r. dm_id r = i) (dbvideo s)"

definition md_find_file :: "srv \<Rightarrow> int \<Rightarrow> db_file option" where
  "md_find_file s i = find (\<lambda>r. df_id r = i) (dbfile s)"

text \<open>The table of 1024 rows keeps what the last query saw; the list is built in 4096 bytes.\<close>

definition cmd_videoctrl :: "cmd \<Rightarrow> srv \<Rightarrow> handled" where
  "cmd_videoctrl c s =
     (case get_device s (c_dev c) of None \<Rightarrow> Some (ERR_NOT_REG, c, s)
      | Some d \<Rightarrow>
          (case c_args c of
             [] \<Rightarrow> Some (1, c, s)
           | sub # args \<Rightarrow>
               if sub = ''query''
               then do { ensure (length (dbvideo s) < 1024);
                         let buf = make_strlist (map dm_name (dbvideo s));
                         ensure (length buf < 4096);
                         Some (0, REP_END (REP_ADD buf (REP_ADD ''OK'' c)), s\<lparr>snap_video := map dm_id (dbvideo s)\<rparr>) }
               else if sub = ''select''
               then (case args of [] \<Rightarrow> Some (1, c, s)
                     | p # _ \<Rightarrow>
                         if atoi p \<ge> int (length (snap_video s)) then Some (ERR_OTHER, c, s)
                         else do { ensure (atoi p \<ge> 0);
                                   r \<leftarrow> md_find_video s (snap_video s ! nat (atoi p));
                                   Some (0, REP_END (REP_ADD (dm_path r) (REP_ADD ''OK'' c)), s) })
               else Some (2, c, s)))"

definition cmd_filectrl :: "cmd \<Rightarrow> srv \<Rightarrow> handled" where
  "cmd_filectrl c s =
     (case get_device s (c_dev c) of None \<Rightarrow> Some (ERR_NOT_REG, c, s)
      | Some d \<Rightarrow>
          (case c_args c of
             [] \<Rightarrow> Some (1, c, s)
           | sub # args \<Rightarrow>
               if sub = ''query''
               then do { ensure (length (dbfile s) < 1024);
                         let buf = make_strlist (map df_path (dbfile s));
                         ensure (length buf < 4096);
                         Some (0, REP_END (REP_ADD buf (REP_ADD ''OK'' c)), s\<lparr>snap_file := map df_id (dbfile s)\<rparr>) }
               else if sub = ''select''
               then (case args of [] \<Rightarrow> Some (1, c, s)
                     | p # _ \<Rightarrow>
                         if atoi p \<ge> int (length (snap_file s)) then Some (ERR_OTHER, c, s)
                         else do { ensure (atoi p \<ge> 0);
                                   r \<leftarrow> md_find_file s (snap_file s ! nat (atoi p));
                                   Some (0, REP_END (REP_ADD (df_path r) (REP_ADD ''OK'' c)), s) })
               else Some (2, c, s)))"

subsection \<open>serv/cmd_misc.c\<close>

text \<open>now is what the clock says, in seconds and nanoseconds.\<close>

definition cmd_synctime :: "int \<times> int \<Rightarrow> cmd \<Rightarrow> srv \<Rightarrow> handled" where
  "cmd_synctime now c s = Some (0, REP_END (REP_ADD_NUM (snd now) (REP_ADD_NUM (fst now) (REP_ADD ''OK'' c))), s)"

text \<open>Nothing is added to the reply.\<close>

definition cmd_report_cyc_ctl :: "cmd \<Rightarrow> srv \<Rightarrow> handled" where
  "cmd_report_cyc_ctl c s =
     (case get_device s (c_dev c) of None \<Rightarrow> Some (ERR_NOT_REG, c, s)
      | Some d \<Rightarrow> do { g \<leftarrow> d_group (dev s d); Some (0, c, upd_grp g (\<lambda>G. G\<lparr>g_cyctl := Some d\<rparr>) s) })"

text \<open>The text of the camera command is copied into 256 bytes, the user id into 64.\<close>

definition cmd_set_ptc :: "cmd \<Rightarrow> srv \<Rightarrow> handled" where
  "cmd_set_ptc c s =
     (case get_device s (c_dev c) of None \<Rightarrow> Some (ERR_NOT_REG, c, s)
      | Some d \<Rightarrow>
          (case c_args c of
             p # q # ptcmd # _ \<Rightarrow>
               (case get_device s (atoi p) of
                  None \<Rightarrow> Some (0, REP_OK c, s)
                | Some e \<Rightarrow>
                    do { ensure (length ptcmd < 256);
                         Some (0, REP_OK c, device_save e (upd_dbdev e (\<lambda>D. D\<lparr>dd_ptc_id := atoi q, dd_ptc_cmd := ptcmd\<rparr>) s)) })
           | _ \<Rightarrow> Some (1, c, s)))"

definition cmd_sys_stats :: "cmd \<Rightarrow> srv \<Rightarrow> handled" where
  "cmd_sys_stats c s =
     (case get_device s (c_dev c) of None \<Rightarrow> Some (ERR_NOT_REG, c, s)
      | Some d \<Rightarrow>
          do { g \<leftarrow> d_group (dev s d);
               let ns = g_active_count (grp s g);
               Some (0, REP_END (REP_ADD_NUM (ns ! nat DEVTYPE_INTERP) (REP_ADD_NUM (ns ! nat DEVTYPE_CHAIR)
                          (REP_ADD_NUM (ns ! nat DEVTYPE_NORMAL) (REP_ADD ''OK'' c)))), s) })"

definition cmd_set_user_id :: "cmd \<Rightarrow> srv \<Rightarrow> handled" where
  "cmd_set_user_id c s =
     (case c_args c of
        p # uid # _ \<Rightarrow>
          (case get_device s (atoi p) of
             None \<Rightarrow> Some (ERR_INVL_ARG, c, s)
           | Some e \<Rightarrow>
               do { ensure (length uid < 64);
                    g \<leftarrow> d_group (dev s e);
                    let s1 = dirty_dev_ents_cache g (device_save e (upd_dbdev e (\<lambda>D. D\<lparr>dd_user_id := uid\<rparr>) s));
                    Some (0, REP_OK c, send_cmd_to_dev (REP_OK c) e s1) })
      | _ \<Rightarrow> Some (1, c, s))"

definition cmd_get_all_devs :: "cmd \<Rightarrow> srv \<Rightarrow> handled" where
  "cmd_get_all_devs c s =
     (case get_device s (c_dev c) of None \<Rightarrow> Some (ERR_NOT_REG, c, s)
      | Some d \<Rightarrow>
          do { g \<leftarrow> d_group (dev s d);
               s1 \<leftarrow> (if g_dev_dirty (grp s g) \<noteq> 0 then refresh_dev_ents_cache g s else Some s);
               x \<leftarrow> g_dev_ents (grp s1 g);
               Some (0, REP_END (REP_ADD x (REP_ADD ''OK'' c)), s1) })"

definition cmd_test :: "cmd \<Rightarrow> srv \<Rightarrow> handled" where
  "cmd_test c s = Some (0, REP_OK c, s)"

subsection \<open>serv/cmd_debug.c\<close>

text \<open>Printing the devices reads subscription[1], which does not exist (MAX_SUB is 1); the text of
  the broadcast addresses is built in 2048 bytes. The address of an entry is in network byte
  order.\<close>

definition REP_PRF :: "string \<Rightarrow> cmd \<Rightarrow> cmd" where
  "REP_PRF x c = c\<lparr>c_rep := c_rep c @ '' '' @ x\<rparr>"

definition bcast_ntoa :: "32 word \<Rightarrow> string" where
  "bcast_ntoa a =
     num_str (uint a mod 256) @ ''.'' @ num_str (uint a div 2 ^ 8 mod 256) @ ''.''
       @ num_str (uint a div 2 ^ 16 mod 256) @ ''.'' @ num_str (uint a div 2 ^ 24)"

definition debug_print :: "int \<Rightarrow> string list \<Rightarrow> cmd \<Rightarrow> srv \<Rightarrow> handled" where
  "debug_print d args c s =
     (let c1 = REP_ADD ''OK'' c
      in case args of [] \<Rightarrow> Some (1, c1, s)
         | obj # rest \<Rightarrow>
             if obj = ''tag''
             then (case rest of [] \<Rightarrow> Some (1, c1, s)
                   | p # _ \<Rightarrow>
                       do { g \<leftarrow> d_group (dev s d);
                            case get_tag s (TAGUID g (atoi p)) of
                              None \<Rightarrow> Some (0, REP_END (REP_PRF (newline @ num_str (atoi p) @ '' not found'') c1), s)
                            | Some t \<Rightarrow>
                                do { let buf = make_strlist (map (\<lambda>e. bcast_ntoa (d_bcast (dev s e))) (t_bcasts (tagm s t)));
                                     ensure (length buf < 2048);
                                     Some (0, REP_END (REP_ADD buf c1), s) } })
             else if obj = ''dev''
             then do { g \<leftarrow> d_group (dev s d);
                       ds \<leftarrow> list_devs (GrpHead g) s;
                       ensure (ds = []);
                       Some (0, REP_END c1, s) }
             else Some (0, REP_END (REP_PRF (newline @ [CHR 0x27] @ obj @ [CHR 0x27] @ '' unknown'') c1), s))"

definition cmd_debug :: "cmd \<Rightarrow> srv \<Rightarrow> handled" where
  "cmd_debug c s =
     (case get_device s (c_dev c) of None \<Rightarrow> Some (ERR_NOT_REG, c, s)
      | Some d \<Rightarrow>
          (case c_args c of
             [] \<Rightarrow> Some (1, c, s)
           | sub # args \<Rightarrow> if sub = ''print'' then debug_print d args c s else Some (2, c, s)))"

subsection \<open>The accounts of serv/cmd_manage.c\<close>

definition validate_user :: "string \<Rightarrow> string \<Rightarrow> srv \<Rightarrow> bool" where
  "validate_user user pswd s \<longleftrightarrow> list_ex (\<lambda>u. du_name u = user \<and> du_password u = pswd) (dbusers s)"

text \<open>The first account of the name gets the password, in 64 bytes.\<close>

fun set_password :: "string \<Rightarrow> string \<Rightarrow> db_user list \<Rightarrow> (int \<times> db_user list) option" where
  "set_password user pswd [] = None"
| "set_password user pswd (u # us) =
     (if du_name u = user then Some (du_id u, u\<lparr>du_password := pswd\<rparr> # us)
      else map_option (\<lambda>(i, vs). (i, u # vs)) (set_password user pswd us))"

definition change_passwd :: "string \<Rightarrow> string \<Rightarrow> srv \<Rightarrow> (bool \<times> srv) option" where
  "change_passwd user pswd s =
     (case set_password user pswd (dbusers s) of
        None \<Rightarrow> Some (False, s)
      | Some (i, us) \<Rightarrow> do { ensure (length pswd < 64); Some (True, emit (SaveUser i) (s\<lparr>dbusers := us\<rparr>)) })"

definition cmd_server_user :: "cmd \<Rightarrow> srv \<Rightarrow> handled" where
  "cmd_server_user c s =
     (case c_args c of
        [] \<Rightarrow> Some (1, c, s)
      | sub # args \<Rightarrow>
          if sub = ''login''
          then (case args of
                  u # p # _ \<Rightarrow> if validate_user u p s then Some (0, REP_OK c, s) else Some (ERR_REJECTED, c, s)
                | _ \<Rightarrow> Some (1, c, s))
          else if sub = ''passwd''
          then (case args of
                  u # p # _ \<Rightarrow> do { (ok, s1) \<leftarrow> change_passwd u p s;
                                   Some (if ok then (0, REP_OK c, s1) else (ERR_OTHER, c, s1)) }
                | _ \<Rightarrow> Some (1, c, s))
          else Some (2, c, s))"

text \<open>A manager that logs in keeps the connection: the handler answers on the socket itself and
  starts the thread serv_manage.\<close>

definition cmd_manage :: "cmd \<Rightarrow> srv \<Rightarrow> handled" where
  "cmd_manage c s =
     (let c1 = c\<lparr>c_rep := [], c_sock := 0\<rparr>
      in case c_args c of
           [] \<Rightarrow> Some (1, c1, s)
         | sub # args \<Rightarrow>
             if sub = ''login''
             then (case args of
                     u # p # _ \<Rightarrow>
                       if validate_user u p s
                       then (let s1 = emit (Sent (c_sock c) (num_str (c_dev c) @ '' OK'' @ newline)) s;
                                 s2 = manage_notify_all_chairs (manage_set_active 1 s1)
                             in Some (0, c1, emit (ServManage (c_sock c)) s2))
                       else Some (ERR_REJECTED, c1, s)
                   | _ \<Rightarrow> Some (1, c1, s))
             else Some (2, c1, s))"

end
