(* ===== verification/Command_Props.thy ===== *)
theory Command_Props
  imports Commands Demo
begin

text \<open>Properties of the smaller command handlers (Commands).\<close>

subsection \<open>Counting arrivals\<close>

text \<open>The registration of group g is open in mode m, and the devices A have arrived, in that order.\<close>

definition arrivals :: "srv \<Rightarrow> int \<Rightarrow> int \<Rightarrow> int list \<Rightarrow> bool" where
  "arrivals s g m A \<longleftrightarrow> dg_regist_start (dbgrp s g) \<noteq> 0 \<and> dg_regist_mode (dbgrp s g) = m \<and> distinct A
     \<and> g_reg_arrive (grp s g) = int (length A) \<and> dg_regist_arrive (dbgrp s g) = int (length A)
     \<and> length (g_reg_ids (grp s g)) = 1024 \<and> take (length A) (g_reg_ids (grp s g)) = A \<and> length A \<le> 1024
     \<and> g_reg_idstr (grp s g) = Some (num_list A)
     \<and> (\<forall>d \<in> set (devs s). d_group (dev s d) = Some g \<longrightarrow> (d_reg (dev s d) \<noteq> 0 \<longleftrightarrow> d \<in> set A))
     \<and> (\<forall>d \<in> set A. d \<in> set (devs s))"

text \<open>The command of a device that registers with its card.\<close>

definition arrive_cmd :: "srv \<Rightarrow> int \<Rightarrow> int \<Rightarrow> cmd" where
  "arrive_cmd s m d = demo_cmd d [''reg'', num_str m, num_str (dd_user_card (dbdev s d))]"

definition add_new :: "int \<Rightarrow> int list \<Rightarrow> int list" where
  "add_new d A = (if d \<in> set A then A else A @ [d])"

lemma regist_arrive_ok:
  assumes "arrivals s g m A" and "d \<in> set (devs s)" and "d_group (dev s d) = Some g" and "d \<notin> set A" and "length A < 1024"
  shows "\<exists>s'. regist_arrive d g s = Some s' \<and> arrivals s' g m (A @ [d]) \<and> devs s' = devs s
    \<and> (\<forall>e. d_group (dev s' e) = d_group (dev s e) \<and> dd_user_card (dbdev s' e) = dd_user_card (dbdev s e))"
proof -
  have "take (length A + 1) ((g_reg_ids (grp s g))[length A := d]) = A @ [d]"
    using assms(1,5) by (simp add: arrivals_def take_Suc_conv_app_nth)
  moreover have "list_add_num (num_list A) d = num_list (A @ [d])" by (simp add: num_list_def)
  ultimately show ?thesis
    using assms by (simp add: regist_arrive_def arrivals_def Let_def)
qed

definition arrive :: "int \<Rightarrow> int \<Rightarrow> srv \<Rightarrow> srv option" where
  "arrive m d s = (case cmd_regist (arrive_cmd s m d) s of Some (r, c, s') \<Rightarrow> (if r = 0 then Some s' else None) | None \<Rightarrow> None)"

lemma arrive_ok:
  assumes a: "arrivals s g m A" and d: "d \<in> set (devs s)" "d_group (dev s d) = Some g"
    and room: "length A < 1024 \<or> d \<in> set A"
  shows "\<exists>s'. arrive m d s = Some s' \<and> arrivals s' g m (add_new d A) \<and> devs s' = devs s
    \<and> (\<forall>e. d_group (dev s' e) = d_group (dev s e) \<and> dd_user_card (dbdev s' e) = dd_user_card (dbdev s e))"
proof -
  let ?c = "arrive_cmd s m d"
  define c1 where "c1 = REP_END (REP_ADD_NUM (dd_user_gender (dbdev s d)) (REP_ADD (shown_name (dd_user_name (dbdev s d)))
      (REP_ADD_NUM (dd_user_card (dbdev s d)) (REP_ADD ''OK'' ?c))))"
  have "cmd_regist ?c s = regist_reg d g [num_str m, num_str (dd_user_card (dbdev s d))] ?c s"
    using d by (simp add: cmd_regist_def arrive_cmd_def demo_cmd_def)
  also have "\<dots> = (if d_reg (dev s d) \<noteq> 0 then Some (0, c1, s)
      else do { s1 \<leftarrow> regist_arrive d g s; Some (0, c1, s1) })"
    using a by (simp add: regist_reg_def arrivals_def atoi_num_str Let_def c1_def)
  finally have run: "cmd_regist ?c s = (if d_reg (dev s d) \<noteq> 0 then Some (0, c1, s)
      else do { s1 \<leftarrow> regist_arrive d g s; Some (0, c1, s1) })" .
  show ?thesis
  proof (cases "d \<in> set A")
    case True
    then have "d_reg (dev s d) \<noteq> 0" using a d by (auto simp: arrivals_def)
    then show ?thesis using run a True by (simp add: arrive_def add_new_def)
  next
    case False
    then have "d_reg (dev s d) = 0" using a d by (auto simp: arrivals_def)
    moreover obtain s' where "regist_arrive d g s = Some s'" "arrivals s' g m (A @ [d])" "devs s' = devs s"
      "\<forall>e. d_group (dev s' e) = d_group (dev s e) \<and> dd_user_card (dbdev s' e) = dd_user_card (dbdev s e)"
      using regist_arrive_ok [OF a d False] room False by blast
    ultimately show ?thesis using run False by (auto simp: arrive_def add_new_def)
  qed
qed

lemma add_new_length: "length (add_new d A) \<le> length A + 1"
  by (simp add: add_new_def)

text \<open>
  While a registration is open every device that registers with its card is counted once,
  however often it sends the command: over any sequence of such commands of devices of the group
  all succeed, the counter of the group and of its row, the array and the text of ids hold exactly
  the devices, in the order in which they first came, and a status command reports them.
\<close>

theorem registrations_counted_once:
  assumes "arrivals s g m A" and "\<forall>d \<in> set ds. d \<in> set (devs s) \<and> d_group (dev s d) = Some g"
    and "length A + length ds \<le> 1024"
  shows "\<exists>s'. foldM (arrive m) ds s = Some s' \<and> arrivals s' g m (fold add_new ds A)
    \<and> (0 \<in> set (devs s) \<and> d_group (dev s 0) = Some g \<longrightarrow>
        (\<exists>c. cmd_regist (demo_cmd 0 [''status'']) s' = Some (0, c, s')
          \<and> c_rep c = '' OK '' @ num_str (g_reg_expect (grp s' g)) @ '' '' @ num_str (int (length (fold add_new ds A)))
              @ '' '' @ num_list (fold add_new ds A) @ newline))"
proof -
  have run: "\<exists>s'. foldM (arrive m) ds s = Some s' \<and> arrivals s' g m (fold add_new ds A) \<and> devs s' = devs s
      \<and> (\<forall>e. d_group (dev s' e) = d_group (dev s e))"
    using assms
  proof (induction ds arbitrary: s A)
    case (Cons d ds)
    have "length A < 1024 \<or> d \<in> set A" using Cons.prems(3) by simp
    from arrive_ok [OF Cons.prems(1) _ _ this] Cons.prems(2) obtain s1 where
      s1: "arrive m d s = Some s1" "arrivals s1 g m (add_new d A)" "devs s1 = devs s"
      "\<forall>e. d_group (dev s1 e) = d_group (dev s e)" by auto
    have "length (add_new d A) + length ds \<le> 1024" using add_new_length [of d A] Cons.prems(3) by simp
    from Cons.IH [OF s1(2) _ this] s1 Cons.prems(2) show ?case by auto
  qed simp
  then obtain s' where s': "foldM (arrive m) ds s = Some s'" "arrivals s' g m (fold add_new ds A)" "devs s' = devs s"
    "\<forall>e. d_group (dev s' e) = d_group (dev s e)" by blast
  have "cmd_regist (demo_cmd 0 [''status'']) s'
      = Some (0, REP_END (REP_ADD (num_list (fold add_new ds A)) (REP_ADD_NUM (int (length (fold add_new ds A)))
          (REP_ADD_NUM (g_reg_expect (grp s' g)) (REP_ADD ''OK'' (demo_cmd 0 [''status'']))))), s')"
    if "0 \<in> set (devs s)" "d_group (dev s 0) = Some g"
    using that s' by (simp add: cmd_regist_def regist_status_def arrivals_def demo_cmd_def Let_def)
  then show ?thesis using s' by (auto simp: rep_defs demo_cmd_def)
qed

text \<open>The demo server after device 5 has started a registration in mode 1.\<close>

definition regist_demo :: srv where
  "regist_demo = (case cmd_regist (demo_cmd 5 [''start'', ''1'']) demo of Some (r, c, s) \<Rightarrow> s | None \<Rightarrow> demo)"

lemma regist_demo_arrivals: "arrivals regist_demo 1 1 []"
  unfolding arrivals_def by code_simp

lemma registrations_counted_once_witness:
  "\<exists>s'. foldM (arrive 1) [7, 8, 7, 7, 5] regist_demo = Some s' \<and> arrivals s' 1 1 [7, 8, 5]"
proof -
  have "\<forall>d \<in> set [7, 8, 7, 7, 5]. d \<in> set (devs regist_demo) \<and> d_group (dev regist_demo d) = Some 1" by code_simp
  from registrations_counted_once [OF regist_demo_arrivals this] show ?thesis by (auto simp: add_new_def)
qed

subsection \<open>Where the handlers go wrong\<close>

definition auth_query :: "string \<Rightarrow> (string \<times> string \<times> int) option" where
  "auth_query i = (if i = ''c7'' then Some (''i7'', ''x'', 7) else None)"

text \<open>
  Authenticating with a card does not look whether the device has registered: device 7 counts
  three times when it authenticates three times, and its id never reaches the list of arrivals.
\<close>

theorem auth_counts_again:
  "case foldM (\<lambda>a s. case cmd_auth auth_query (demo_cmd 7 [''c7'', ''i7'']) s of None \<Rightarrow> None | Some (r, c, s') \<Rightarrow> Some s')
      [1 :: nat, 2, 3] regist_demo of None \<Rightarrow> False
   | Some s \<Rightarrow> g_reg_arrive (grp s 1) = 3 \<and> g_reg_idstr (grp s 1) = Some []
       \<and> (case cmd_regist (demo_cmd 7 [''reg'', ''1'', ''107'']) s of None \<Rightarrow> False
          | Some (r, c, s') \<Rightarrow> r = 0 \<and> g_reg_arrive (grp s' 1) = 3 \<and> g_reg_idstr (grp s' 1) = Some [])"
  by code_simp

text \<open>
  A registration that was open when the server went down is restored without its text of ids:
  group_create takes the two counters from the row of the group and leaves the text a null pointer,
  so the first device that arrives afterwards and a stop command follow it.
\<close>

theorem restored_registration_faults:
  assumes "group_create g s = Some (r, s1)" and "g \<in> set (dbgrps s)" and "dg_regist_start (dbgrp s g) \<noteq> 0"
  shows "g_reg_arrive (grp s1 g) = dg_regist_arrive (dbgrp s g) \<and> regist_arrive d g s1 = None \<and> regist_stop d g c s1 = None"
proof -
  have disc: "g_reg_idstr (grp s' g) = g_reg_idstr (grp s g) \<and> g_reg_arrive (grp s' g) = g_reg_arrive (grp s g) \<and> dbgrp s' = dbgrp s"
    if "group_setup_discuss g r s = Some s'" for r s s' using that by (auto simp: group_setup_discuss_def Let_def)
  have vote: "g_reg_idstr (grp s' g) = g_reg_idstr (grp s g) \<and> g_reg_arrive (grp s' g) = g_reg_arrive (grp s g) \<and> dbgrp s' = dbgrp s"
    if "restore_group_vote g r s = Some s'" for r s s'
    using that
    by (auto simp: restore_group_vote_def group_setup_vote_def prepare_vote_def vote_new_def Let_def upd_vote_def split: option.splits if_splits)
  have "g_reg_idstr (grp s1 g) = None \<and> g_reg_arrive (grp s1 g) = dg_regist_arrive (dbgrp s g) \<and> dbgrp s1 = dbgrp s"
    using assms
    by (auto simp: group_create_def md_find_group_def find_eq Let_def new_group_def dest!: disc vote split: if_splits option.splits)
  then show ?thesis
    using assms(3) by (cases "0 \<le> g_reg_arrive (grp s1 g) \<and> g_reg_arrive (grp s1 g) < 1024")
      (auto simp: regist_arrive_def regist_stop_def Let_def brcast_cmd_to_all_def brcast_data_to_all_def async_brcast_def ensure_def)
qed

definition restarted :: srv where
  "restarted = upd_dbgrp 1 (\<lambda>G. G\<lparr>dg_regist_start := 1, dg_regist_mode := 1, dg_regist_expect := 3, dg_regist_arrive := 2\<rparr>)
     (demo\<lparr>grps := []\<rparr>)"

lemma restored_registration_faults_witness:
  "\<exists>r s1. group_create 1 restarted = Some (r, s1) \<and> g_reg_arrive (grp s1 1) = 2 \<and> regist_arrive 7 1 s1 = None
    \<and> regist_stop 5 1 (demo_cmd 5 [''stop'']) s1 = None"
proof -
  have row: "1 \<in> set (dbgrps restarted)" "dg_regist_start (dbgrp restarted 1) = 1" "dg_regist_arrive (dbgrp restarted 1) = 2"
    by (simp_all add: restarted_def demo_def)
  have "\<exists>r s1. group_create 1 restarted = Some (r, s1)"
    using row by (simp add: group_create_def md_find_group_def find_eq Let_def restarted_def demo_sel demo_dbgrp_def)
  then obtain r s1 where run: "group_create 1 restarted = Some (r, s1)" by blast
  from restored_registration_faults [OF run row(1)] row run show ?thesis by fastforce
qed

text \<open>
  Switching the tag with the microphone open leaves the device on the list of open devices
  and in the mixing slot of the old tag; closing then counts the new tag down to -1 open devices,
  while the old tag still counts one and keeps mixing the device.
\<close>

definition tagged_demo :: srv where
  "tagged_demo = (case on_heap (list_add_tail (DTag 7) (TagHead 65537)) demo of Some s \<Rightarrow> s | None \<Rightarrow> demo)"

theorem switch_tag_leaves_microphone:
  "case cmd_discctrl (demo_cmd 7 [''request'', ''1'']) tagged_demo of None \<Rightarrow> False
   | Some (_, _, s1) \<Rightarrow>
       (case cmd_switch_tag Soft (demo_cmd 7 [''2'']) s1 of None \<Rightarrow> False
        | Some (_, _, s2) \<Rightarrow>
            (case cmd_discctrl (demo_cmd 7 [''request'', ''0'']) s2 of None \<Rightarrow> False
             | Some (r, _, s3) \<Rightarrow> r = 0 \<and> t_openuser (tagm s3 (TAGUID 1 2)) = -1 \<and> t_openuser (tagm s3 65537) = 1
                 \<and> list_devs (OpenHead 65537) s3 = Some [] \<and> t_mix_devs (tagm s3 65537) ! 0 = Some 7))"
  by code_simp

end
