(* ===== verification/Requests.thy ===== *)
theory Requests
  imports Commands Encode
begin

text \<open>
  From the bytes of a connection to the bytes of the answer: the dispatch table of
  serv/cmd_handler.c with every handler of the server, and run_proceed_connection with do_recv and
  do_send (serv/network.c). A request is read with one recv and decoded, its text is the start of
  the reply, and an error is answered with a FAIL line. rand() is the salt, the socket is a
  number, the first component of a result is what is sent.
\<close>

subsection \<open>serv/cmd_handler.c\<close>

type_synonym handler = "cmd \<Rightarrow> srv \<Rightarrow> handled"

text \<open>The table is the list of its entries, newest first (see Hash). A name is registered once.\<close>

definition register_cmd_handler :: "string \<times> handler \<Rightarrow> (string \<times> handler) list \<Rightarrow> (string \<times> handler) list" where
  "register_cmd_handler e tbl = (if map_of tbl (fst e) \<noteq> None then tbl else e # tbl)"

definition handle_cmd :: "(string \<times> handler) list \<Rightarrow> cmd \<Rightarrow> srv \<Rightarrow> handled" where
  "handle_cmd tbl c s = (case map_of tbl (c_cmd c) of None \<Rightarrow> Some (-1, c, s) | Some h \<Rightarrow> h c s)"

text \<open>The handlers, as the initcalls register them: opt is the option opt_mixer, ver the client
  version, query the lookup of authentication cards and now the clock.\<close>

definition server_handlers ::
  "mixer \<Rightarrow> string \<Rightarrow> (string \<Rightarrow> (string \<times> string \<times> int) option) \<Rightarrow> int \<times> int \<Rightarrow> (string \<times> handler) list" where
  "server_handlers opt ver query now =
     fold register_cmd_handler
       [(''auth'', cmd_auth query), (''debug'', cmd_debug), (''discctrl'', cmd_discctrl), (''filectrl'', cmd_filectrl),
        (''interp'', cmd_interp), (''manage'', cmd_manage), (''server_user'', cmd_server_user),
        (''synctime'', cmd_synctime now), (''report_cyc_ctl'', cmd_report_cyc_ctl), (''set_ptc'', cmd_set_ptc),
        (''sys_stats'', cmd_sys_stats), (''set_user_id'', cmd_set_user_id), (''get_all_devs'', cmd_get_all_devs),
        (''test'', cmd_test), (''msgctrl'', cmd_msgctrl), (''ptc'', cmd_ptc), (''reg'', cmd_reg opt ver),
        (''regist'', cmd_regist), (''servicecall'', cmd_servicecall), (''sub'', cmd_sub opt),
        (''sysconfig'', cmd_sysconfig), (''get_tags'', cmd_get_tags), (''switch_tag'', cmd_switch_tag opt),
        (''get_subs'', cmd_get_subs), (''video'', cmd_video), (''videoctrl'', cmd_videoctrl), (''votectrl'', cmd_votectrl)]
       []"

subsection \<open>Bytes and text\<close>

definition BUFLEN :: nat where "BUFLEN = 10240"

definition to_bytes :: "string \<Rightarrow> byte list" where
  "to_bytes x = map of_char x"

definition to_text :: "byte list \<Rightarrow> string" where
  "to_text bs = map (\<lambda>b. char_of (unat b)) bs"

text \<open>do_recv on what the connection holds; the result is empty when there is nothing to handle.\<close>

definition do_recv :: "byte list \<Rightarrow> string option" where
  "do_recv bs = (if bs = [] then Some [] else map_option to_text (decode (take BUFLEN bs)))"

text \<open>The coded reply is built in a buffer of BUFLEN bytes.\<close>

definition do_send :: "byte \<Rightarrow> string \<Rightarrow> byte list option" where
  "do_send salt x = do { ensure (length x < BUFLEN); encode salt (to_bytes x) }"

subsection \<open>One request\<close>

text \<open>The line up to its first zero, and the start of the reply: the copy of the line, whose last
  character is read at the position before the end of what was received.\<close>

definition request_text :: "string \<Rightarrow> (string \<times> string) option" where
  "request_text cs =
     (let line = takeWhile (\<lambda>x. x \<noteq> CHR 0x00) cs; n = length cs
      in if length line = n
         then Some (line, if last cs = CHR 0x0A then butlast cs else cs)
         else if length line = n - 1 then Some (line, cs)
         else None)"

definition fail_line :: "int \<Rightarrow> string \<Rightarrow> string" where
  "fail_line i x = ''FAIL '' @ num_str i @ x @ newline"

text \<open>The answer to a text, whether the connection is closed, and the state. The command record
  is not initialised: a line FAIL 0 leaves it without a name.\<close>

definition answer :: "(string \<times> handler) list \<Rightarrow> int \<times> int \<Rightarrow> int \<Rightarrow> string \<Rightarrow> srv \<Rightarrow> (string \<times> bool \<times> srv) option" where
  "answer tbl addr sock cs s =
     do { (line, rep) \<leftarrow> request_text cs;
          (r, c) \<leftarrow> parse_cmd line \<lparr>c_dev = 0, c_cmd = [], c_args = [], c_addr = addr, c_rep = rep, c_sock = sock\<rparr>;
          if r \<noteq> 0 then Some (fail_line ERR_PARSE '' parse error'', True, s)
          else do { ensure (c_cmd c \<noteq> []);
                    (i, c1, s1) \<leftarrow> handle_cmd tbl c s;
                    Some (if i < 0 then (fail_line ERR_BAD_CMD '' invalid cmd'', True, s1)
                          else if i > 0 then (fail_line i '' handling cmd error'', True, s1)
                          else (c_rep c1, c_sock c1 \<noteq> 0, s1)) } }"

text \<open>One connection: nothing is sent for an empty request or an empty reply.\<close>

definition proceed_connection ::
  "(string \<times> handler) list \<Rightarrow> byte \<Rightarrow> int \<times> int \<Rightarrow> int \<Rightarrow> byte list \<Rightarrow> srv \<Rightarrow> (byte list \<times> bool \<times> srv) option" where
  "proceed_connection tbl salt addr sock bs s =
     do { cs \<leftarrow> do_recv bs;
          if cs = [] then Some ([], True, s)
          else do { (rep, closed, s1) \<leftarrow> answer tbl addr sock cs s;
                    out \<leftarrow> (if rep = [] then Some [] else do_send salt rep);
                    Some (out, closed, s1) } }"

subsection \<open>Texts survive the coding\<close>

lemma to_text_bytes [simp]: "to_text (to_bytes x) = x"
proof -
  have "char_of (unat (of_char c :: 8 word)) = c" for c
  proof -
    have "of_char c = (of_nat (of_char c) :: 8 word)" by (simp add: of_nat_of_char)
    then have "unat (of_char c :: 8 word) = of_char c mod 256" by (simp add: unat_of_nat)
    then show ?thesis by simp
  qed
  then show ?thesis by (induction x) (simp_all add: to_text_def to_bytes_def)
qed

lemma length_to_bytes [simp]: "length (to_bytes x) = length x"
  by (simp add: to_bytes_def)

lemma do_send_coded:
  assumes "length x < BUFLEN"
  shows "\<exists>out. do_send salt x = Some out \<and> decode out = Some (to_bytes x) \<and> length out = length x + 1"
  using decode_encode [of salt "to_bytes x"] assms by (auto simp: do_send_def)

lemma do_recv_coded:
  assumes "decode bs = Some (to_bytes x)" and "length bs \<le> BUFLEN"
  shows "do_recv bs = Some x"
  using assms by (auto simp: do_recv_def decode_def)

subsection \<open>Lines of words\<close>

lemma takeWhile_no_zero: "CHR 0x00 \<notin> set cs \<Longrightarrow> takeWhile (\<lambda>x. x \<noteq> CHR 0x00) cs = cs"
  by (auto simp: takeWhile_eq_all_conv)

lemma request_text_line:
  assumes "CHR 0x00 \<notin> set x"
  shows "request_text (x @ newline) = Some (x @ newline, x)"
proof -
  have "takeWhile (\<lambda>x. x \<noteq> CHR 0x00) (x @ newline) = x @ newline"
    by (rule takeWhile_no_zero) (use assms in \<open>simp add: newline_def\<close>)
  then show ?thesis by (simp add: request_text_def newline_def)
qed

text \<open>The words of a line and a single space between them.\<close>

definition words_text :: "string list \<Rightarrow> string" where
  "words_text ws = concat (map (\<lambda>w. w @ '' '') (butlast ws)) @ last ws"

lemma cmd_line_words: "cmd_line ws = words_text ws @ newline"
  by (simp add: cmd_line_def words_text_def)

lemma words_text_no_zero:
  assumes "ws \<noteq> []" and "\<forall>w \<in> set ws. CHR 0x00 \<notin> set w"
  shows "CHR 0x00 \<notin> set (words_text ws)"
  using assms by (auto simp: words_text_def dest: in_set_butlastD)

end
