(* ===== verification/Request_Props.thy ===== *)
theory Request_Props
  imports Requests Demo
begin

text \<open>Properties of the path from the bytes of a request to the bytes of its answer (Requests).\<close>

subsection \<open>The request as the client writes it\<close>

text \<open>The record the server makes of a request, and its coded bytes.\<close>

definition request_cmd :: "int \<Rightarrow> string \<Rightarrow> string list \<Rightarrow> int \<times> int \<Rightarrow> int \<Rightarrow> cmd" where
  "request_cmd i name args addr sock =
     \<lparr>c_dev = i, c_cmd = name, c_args = args, c_addr = addr, c_rep = words_text (num_str i # name # args), c_sock = sock\<rparr>"

definition request_ok :: "int \<Rightarrow> string \<Rightarrow> string list \<Rightarrow> bool" where
  "request_ok i name args \<longleftrightarrow> (\<forall>w \<in> set (name # args). is_word w \<and> CHR 0x00 \<notin> set w) \<and> length args < 32
     \<and> length (cmd_line (num_str i # name # args)) < BUFLEN"

lemma num_str_no_zero: "CHR 0x00 \<notin> set (num_str i)"
proof -
  have "\<not> is_digit (CHR 0x00)" by (simp add: is_digit_def)
  then show ?thesis using digits_all by (auto simp: num_str_def)
qed

lemma answer_request:
  assumes ok: "request_ok i name args" and h: "handle_cmd tbl (request_cmd i name args addr sock) s = Some (r, c1, s1)"
  shows "answer tbl addr sock (cmd_line (num_str i # name # args)) s
    = Some (if r < 0 then (fail_line ERR_BAD_CMD '' invalid cmd'', True, s1)
            else if r > 0 then (fail_line r '' handling cmd error'', True, s1) else (c_rep c1, c_sock c1 \<noteq> 0, s1))"
proof -
  let ?ws = "num_str i # name # args"
  have "CHR 0x00 \<notin> set (words_text ?ws)"
    by (rule words_text_no_zero) (use ok num_str_no_zero in \<open>auto simp: request_ok_def\<close>)
  then have "request_text (cmd_line ?ws) = Some (cmd_line ?ws, words_text ?ws)"
    unfolding cmd_line_words by (rule request_text_line)
  moreover have "parse_cmd (cmd_line ?ws) c = Some (0, c\<lparr>c_dev := i, c_cmd := name, c_args := args\<rparr>)" for c
    using ok by (intro parse_cmd_line) (auto simp: request_ok_def)
  moreover have "name \<noteq> []" using ok by (simp add: request_ok_def is_word_def)
  ultimately show ?thesis using h by (simp add: answer_def request_cmd_def)
qed

lemma proceed_request:
  assumes ok: "request_ok i name args" and h: "handle_cmd tbl (request_cmd i name args addr sock) s = Some (r, c1, s1)"
    and enc: "encode salt0 (to_bytes (cmd_line (num_str i # name # args))) = Some req"
  shows "proceed_connection tbl salt addr sock req s
    = (let (rep, closed, s2) = (if r < 0 then (fail_line ERR_BAD_CMD '' invalid cmd'', True, s1)
            else if r > 0 then (fail_line r '' handling cmd error'', True, s1) else (c_rep c1, c_sock c1 \<noteq> 0, s1))
       in do { out \<leftarrow> (if rep = [] then Some [] else do_send salt rep); Some (out, closed, s2) })"
proof -
  let ?line = "cmd_line (num_str i # name # args)"
  obtain out where "encode salt0 (to_bytes ?line) = Some out" "length out = length ?line + 1" "decode out = Some (to_bytes ?line)"
    using decode_encode [of salt0 "to_bytes ?line"] by auto
  then have "decode req = Some (to_bytes ?line)" "length req \<le> BUFLEN" using enc ok by (auto simp: request_ok_def)
  then have "do_recv req = Some ?line" by (rule do_recv_coded)
  moreover have "?line \<noteq> []" by (simp add: cmd_line_def newline_def)
  ultimately show ?thesis
    using answer_request [OF ok h] by (simp add: proceed_connection_def Let_def split_beta)
qed

text \<open>
  C38. A request that its handler serves is answered in kind: for every device id, command name
  and words, whatever the salts on both sides, the server hands exactly that id, name and words to
  the handler of that name, with the request as the start of the reply, and what it sends decodes
  to the reply the handler left; the state is the one the handler left.
\<close>

theorem request_reaches_handler:
  assumes "request_ok i name args" and "map_of tbl name = Some h"
    and "h (request_cmd i name args addr sock) s = Some (0, c1, s1)"
    and "encode salt0 (to_bytes (cmd_line (num_str i # name # args))) = Some req"
    and "c_rep c1 \<noteq> []" and "length (c_rep c1) < BUFLEN"
  shows "\<exists>out. proceed_connection tbl salt addr sock req s = Some (out, c_sock c1 \<noteq> 0, s1)
    \<and> decode out = Some (to_bytes (c_rep c1))"
proof -
  have "handle_cmd tbl (request_cmd i name args addr sock) s = Some (0, c1, s1)"
    using assms(2,3) by (simp add: handle_cmd_def request_cmd_def)
  from proceed_request [OF assms(1) this assms(4), of salt] do_send_coded [OF assms(6), of salt] assms(5)
  show ?thesis by auto
qed

text \<open>Device 7 asks for the microphone of the demo server.\<close>

definition demo_tbl :: "(string \<times> handler) list" where
  "demo_tbl = server_handlers Soft [] (\<lambda>_. None) (0, 0)"

lemma demo_tbl_names:
  "map_of demo_tbl ''discctrl'' = Some cmd_discctrl" "map_of demo_tbl ''nothing'' = None"
  by (simp_all add: demo_tbl_def server_handlers_def register_cmd_handler_def)

lemma demo_request_ok: "request_ok 7 ''discctrl'' [''request'', ''1'']" "request_ok 7 ''nothing'' []"
  by code_simp+

lemma demo_request_served:
  "case cmd_discctrl (request_cmd 7 ''discctrl'' [''request'', ''1''] (0, 0) 4) demo of None \<Rightarrow> False
   | Some (r, c1, s1) \<Rightarrow> r = 0 \<and> c_rep c1 = ''7 discctrl request 1 OK'' @ newline \<and> c_sock c1 = 4 \<and> d_open (dev s1 7) = 1"
  by code_simp

lemma request_reaches_handler_witness:
  "\<exists>req out s1. encode 0x5A (to_bytes (cmd_line [num_str 7, ''discctrl'', ''request'', ''1''])) = Some req
    \<and> proceed_connection demo_tbl 0x33 (0, 0) 4 req demo = Some (out, True, s1) \<and> d_open (dev s1 7) = 1
    \<and> decode out = Some (to_bytes (''7 discctrl request 1 OK'' @ newline))"
proof -
  obtain req where req: "encode 0x5A (to_bytes (cmd_line (num_str 7 # ''discctrl'' # [''request'', ''1'']))) = Some req"
    using decode_encode by blast
  obtain c1 s1 where h: "cmd_discctrl (request_cmd 7 ''discctrl'' [''request'', ''1''] (0, 0) 4) demo = Some (0, c1, s1)"
    "c_rep c1 = ''7 discctrl request 1 OK'' @ newline" "c_sock c1 = 4" "d_open (dev s1 7) = 1"
    using demo_request_served by (auto split: option.splits)
  have "c_rep c1 \<noteq> []" "length (c_rep c1) < BUFLEN" using h(2) by (simp_all add: newline_def BUFLEN_def)
  from request_reaches_handler [OF demo_request_ok(1) demo_tbl_names(1) h(1) req this, of "0x33"] req h show ?thesis
    by auto
qed

text \<open>
  Failures reach the client: when the name is not registered, or the handler returns a code,
  the bytes the server sends parse on the other side as a failure with that code, ERR_BAD_CMD for
  the unknown name; the connection is closed and the state is the one the handler left.
\<close>

theorem failure_codes_reach_client:
  assumes "request_ok i name args" and "handle_cmd tbl (request_cmd i name args addr sock) s = Some (r, c1, s1)"
    and "encode salt0 (to_bytes (cmd_line (num_str i # name # args))) = Some req" and "r \<noteq> 0" and "r < 10000"
  shows "\<exists>out x. proceed_connection tbl salt addr sock req s = Some (out, True, s1)
    \<and> do_recv out = Some x \<and> parse_cmd x c = Some (if r < 0 then ERR_BAD_CMD else r, c)"
proof -
  let ?m = "if r < 0 then '' invalid cmd'' else '' handling cmd error''"
  let ?k = "if r < 0 then ERR_BAD_CMD else r" and ?ws = "if r < 0 then [''invalid'', ''cmd''] else [''handling'', ''cmd'', ''error'']"
  have k: "0 \<le> ?k" "?k < 10000" using assms(5) by (auto simp: ERR_BAD_CMD_def)
  have "length (num_str ?k) \<le> 4" using length_num_str_small [OF k] .
  then have short: "length (fail_line ?k ?m) < BUFLEN" "length (fail_line ?k ?m) + 1 \<le> BUFLEN"
    by (auto simp: fail_line_def newline_def BUFLEN_def)
  obtain out where out: "do_send salt (fail_line ?k ?m) = Some out" "decode out = Some (to_bytes (fail_line ?k ?m))"
    "length out = length (fail_line ?k ?m) + 1" using do_send_coded [OF short(1), of salt] by (elim exE conjE)
  have recv: "do_recv out = Some (fail_line ?k ?m)" using do_recv_coded [OF out(2)] out(3) short(2) by simp
  have line: "fail_line ?k ?m = cmd_line ([''FAIL'', num_str ?k] @ ?ws)" by (simp add: fail_line_def cmd_line_def)
  have "\<forall>w \<in> set ([''FAIL'', num_str ?k] @ ?ws). is_word w"
    using is_word_num_str by (auto simp: is_word_def cmd_sep_def)
  then have "tokens cmd_sep (fail_line ?k ?m) = [''FAIL'', num_str ?k] @ ?ws"
    unfolding line by (intro tokens_cmd_line) simp_all
  then have "parse_cmd (fail_line ?k ?m) c = Some (?k, c)" by (simp add: parse_cmd_def atoi_num_str)
  moreover have "proceed_connection tbl salt addr sock req s = Some (out, True, s1)"
    using proceed_request [OF assms(1-3), of salt] assms(4) out(1) by (auto simp: fail_line_def split: if_splits)
  ultimately show ?thesis using recv by blast
qed

lemma failure_codes_reach_client_witness:
  "\<exists>req out x. encode 0x5A (to_bytes (cmd_line [num_str 7, ''nothing''])) = Some req
    \<and> proceed_connection demo_tbl 0x33 (0, 0) 4 req demo = Some (out, True, demo)
    \<and> do_recv out = Some x \<and> parse_cmd x (demo_cmd 7 []) = Some (2, demo_cmd 7 [])"
proof -
  obtain req where req: "encode 0x5A (to_bytes (cmd_line (num_str 7 # ''nothing'' # []))) = Some req"
    using decode_encode by blast
  have "handle_cmd demo_tbl (request_cmd 7 ''nothing'' [] (0, 0) 4) demo
      = Some (-1, request_cmd 7 ''nothing'' [] (0, 0) 4, demo)"
    using demo_tbl_names(2) by (simp add: handle_cmd_def request_cmd_def)
  from failure_codes_reach_client [OF demo_request_ok(2) this req, of "0x33" "demo_cmd 7 []"] req show ?thesis
    by (auto simp: ERR_BAD_CMD_def)
qed

text \<open>
  Four texts that every client can send make the server do something undefined, whatever its
  state: an empty line (it compares a null pointer), a FAIL line with code 0 (it looks up a name that
  was never set), a command with 32 arguments (it writes behind the array of arguments) and a line
  with a zero inside (it reads a part of the reply that was never written).
\<close>

theorem malformed_requests_fault:
  "answer tbl addr sock newline s = None \<and> answer tbl addr sock ''FAIL 0'' s = None
   \<and> answer tbl addr sock (concat (replicate 34 ''7 '')) s = None \<and> answer tbl addr sock (''7 test'' @ CHR 0x00 # ''me'') s = None"
proof -
  have "request_text newline = Some (newline, [])" "request_text ''FAIL 0'' = Some (''FAIL 0'', ''FAIL 0'')"
    "request_text (concat (replicate 34 ''7 '')) = Some (concat (replicate 34 ''7 ''), concat (replicate 34 ''7 ''))"
    "request_text (''7 test'' @ CHR 0x00 # ''me'') = None" by code_simp+
  moreover have "tokens cmd_sep newline = []" "tokens cmd_sep ''FAIL 0'' = [''FAIL'', ''0'']"
    "tokens cmd_sep (concat (replicate 34 ''7 '')) = ''7'' # ''7'' # replicate 32 ''7''" by code_simp+
  moreover have "atoi ''0'' = 0" by code_simp
  ultimately show ?thesis by (simp add: answer_def parse_cmd_def)
qed

end
