(* ===== verification/Tables.thy ===== *)
theory Tables
  imports State
begin

text \<open>
  The tables kept in memory (serv/db/md.c), the same code for every type of row: each row is an
  allocated object on a list, in the order of loading and adding, and in a hash table by its id. A
  row is named by its address; the list and the hash table are the lists of addresses they hold
  (see List_Head and Hash), the hash table newest first. What the generated database function
  returns is the argument rc of the operation.
\<close>

subsection \<open>The code\<close>

text \<open>A row and the copy of its id for the hash table; None is memory that is not allocated.\<close>

record 'r md_table =
  md_mem :: "nat \<Rightarrow> (int \<times> 'r) option"
  md_list :: "nat list"
  md_hash :: "nat list"
  md_n :: int

definition md_empty :: "'r md_table" where
  "md_empty = \<lparr>md_mem = (\<lambda>_. None), md_list = [], md_hash = [], md_n = 0\<rparr>"

text \<open>a is the address that malloc returns.\<close>

definition add_row :: "('r \<Rightarrow> int) \<Rightarrow> nat \<Rightarrow> 'r \<Rightarrow> 'r md_table \<Rightarrow> 'r md_table" where
  "add_row rid a r T =
     T\<lparr>md_mem := (md_mem T)(a \<mapsto> (rid r, r)), md_list := md_list T @ [a], md_hash := a # md_hash T, md_n := md_n T + 1\<rparr>"

definition find_row :: "int \<Rightarrow> 'r md_table \<Rightarrow> nat option" where
  "find_row i T = find (\<lambda>a. map_option fst (md_mem T a) = Some i) (md_hash T)"

definition del_row :: "int \<Rightarrow> 'r md_table \<Rightarrow> 'r md_table" where
  "del_row i T =
     (case find_row i T of
        None \<Rightarrow> T
      | Some a \<Rightarrow> T\<lparr>md_mem := (md_mem T)(a := None), md_list := remove1 a (md_list T), md_hash := remove1 a (md_hash T),
                     md_n := md_n T - 1\<rparr>)"

definition clear_rows :: "'r md_table \<Rightarrow> 'r md_table" where
  "clear_rows T =
     T\<lparr>md_mem := fold (\<lambda>a m. m(a := None)) (md_list T) (md_mem T), md_list := [], md_hash := [], md_n := 0\<rparr>"

definition md_get_count :: "'r md_table \<Rightarrow> int" where
  "md_get_count T = md_n T"

text \<open>The array of pointers gets one entry more, the null pointer, than there are rows.\<close>

definition md_get_array :: "nat \<Rightarrow> 'r md_table \<Rightarrow> nat list option" where
  "md_get_array cap T = do { ensure (length (md_list T) < cap); Some (md_list T) }"

text \<open>The row after the one the iterator is at, and the iterator there; None at the end.\<close>

definition md_iterate_next :: "nat option \<Rightarrow> 'r md_table \<Rightarrow> nat option" where
  "md_iterate_next it T =
     (case (case it of None \<Rightarrow> md_list T | Some a \<Rightarrow> tl (dropWhile (\<lambda>b. b \<noteq> a) (md_list T))) of
        [] \<Rightarrow> None | b # _ \<Rightarrow> Some b)"

definition md_find :: "int \<Rightarrow> 'r md_table \<Rightarrow> nat option" where
  "md_find i T = find_row i T"

definition md_add :: "('r \<Rightarrow> int) \<Rightarrow> int \<Rightarrow> nat \<Rightarrow> 'r \<Rightarrow> 'r md_table \<Rightarrow> int \<times> 'r md_table" where
  "md_add rid rc a r T = (if rc \<noteq> 0 then (rc, T) else (0, add_row rid a r T))"

definition md_del :: "int \<Rightarrow> int \<Rightarrow> 'r md_table \<Rightarrow> int \<times> 'r md_table" where
  "md_del rc i T = (if rc \<noteq> 0 then (rc, T) else (0, del_row i T))"

definition md_update :: "int \<Rightarrow> 'r md_table \<Rightarrow> int \<times> 'r md_table" where
  "md_update rc T = (if rc \<noteq> 0 then (rc, T) else (0, T))"

definition md_clear :: "int \<Rightarrow> 'r md_table \<Rightarrow> int \<times> 'r md_table" where
  "md_clear rc T = (if rc \<noteq> 0 then (rc, T) else (0, clear_rows T))"

text \<open>LOAD: the rows the database returns, in order, at the addresses as.\<close>

definition md_load :: "('r \<Rightarrow> int) \<Rightarrow> (nat \<times> 'r) list \<Rightarrow> 'r md_table \<Rightarrow> 'r md_table" where
  "md_load rid rows T = fold (\<lambda>(a, r). add_row rid a r) rows (T\<lparr>md_hash := []\<rparr>)"

text \<open>Writing through the pointer that md_find returned.\<close>

definition md_write :: "nat \<Rightarrow> ('r \<Rightarrow> 'r) \<Rightarrow> 'r md_table \<Rightarrow> 'r md_table option" where
  "md_write a f T = do { (i, r) \<leftarrow> md_mem T a; Some (T\<lparr>md_mem := (md_mem T)(a \<mapsto> (i, f r))\<rparr>) }"

subsection \<open>The rows a table holds\<close>

text \<open>The rows in list order, with their addresses.\<close>

definition md_rep :: "('r \<Rightarrow> int) \<Rightarrow> 'r md_table \<Rightarrow> (nat \<times> 'r) list \<Rightarrow> bool" where
  "md_rep rid T rows \<longleftrightarrow> md_list T = map fst rows \<and> md_hash T = rev (map fst rows) \<and> md_n T = int (length rows)
     \<and> distinct (map fst rows) \<and> distinct (map (rid \<circ> snd) rows)
     \<and> (\<forall>a. md_mem T a = map_option (\<lambda>r. (rid r, r)) (map_of rows a))"

lemma md_empty_rep: "md_rep rid md_empty []"
  by (simp add: md_rep_def md_empty_def)

lemma map_of_last: "a \<notin> fst ` set rows \<Longrightarrow> map_of (rows @ [(a, r)]) b = (if b = a then Some r else map_of rows b)"
  by (induction rows) auto

lemma add_row_rep:
  assumes "md_rep rid T rows" and "a \<notin> fst ` set rows" and "rid r \<notin> (rid \<circ> snd) ` set rows"
  shows "md_rep rid (add_row rid a r T) (rows @ [(a, r)])"
  using assms by (auto simp: md_rep_def add_row_def map_of_last simp del: map_of_append)

lemma find_row_rep:
  assumes "md_rep rid T rows"
  shows "find_row i T = map_option fst (find (\<lambda>(a, r). rid r = i) rows)"
proof -
  have dist: "distinct (map fst rows)" "distinct (map (rid \<circ> snd) rows)"
    and mem: "\<And>a. md_mem T a = map_option (\<lambda>r. (rid r, r)) (map_of rows a)" and hash: "md_hash T = rev (map fst rows)"
    using assms by (auto simp: md_rep_def)
  have key: "map_option fst (md_mem T a) = Some i \<longleftrightarrow> (\<exists>r. (a, r) \<in> set rows \<and> rid r = i)" for a
    using dist(1) by (auto simp: mem map_of_eq_Some_iff)
  show ?thesis
  proof (cases "find (\<lambda>(a, r). rid r = i) rows")
    case None
    then have "find (\<lambda>a. map_option fst (md_mem T a) = Some i) (rev (map fst rows)) = None"
      unfolding find_None_iff using key by auto
    then show ?thesis using None by (simp add: find_row_def hash)
  next
    case (Some p)
    obtain b r where p: "p = (b, r)" by (cases p)
    then have in_rows: "(b, r) \<in> set rows" "rid r = i" using Some by (auto simp: find_Some_iff in_set_conv_nth)
    have uniq: "map_option fst (md_mem T a) = Some i \<longleftrightarrow> a = b" for a
    proof
      assume "map_option fst (md_mem T a) = Some i"
      then obtain q where q: "(a, q) \<in> set rows" "rid q = i" using key by blast
      have "inj_on (rid \<circ> snd) (set rows)" using dist(2) by (simp add: distinct_map)
      then show "a = b" using q in_rows by (auto dest: inj_onD [of _ _ "(a, q)" "(b, r)"])
    next
      assume "a = b"
      then show "map_option fst (md_mem T a) = Some i" using key in_rows by blast
    qed
    have "b \<in> set (md_hash T)" unfolding hash using in_rows(1) by force
    then have "find_row i T = Some b" unfolding find_row_def uniq by (simp add: find_eq)
    then show ?thesis using Some p by simp
  qed
qed

lemma map_of_filter_other:
  "distinct (map fst rows) \<Longrightarrow> map_of (filter (\<lambda>(b, r). b \<noteq> a) rows) c = (if c = a then None else map_of rows c)"
  by (induction rows) auto

lemma del_row_rep:
  assumes "md_rep rid T rows"
  shows "md_rep rid (del_row i T) (filter (\<lambda>(a, r). rid r \<noteq> i) rows)"
proof (cases "find (\<lambda>(a, r). rid r = i) rows")
  case None
  then have "filter (\<lambda>(a, r). rid r \<noteq> i) rows = rows" by (auto simp: find_None_iff filter_id_conv)
  then show ?thesis using None find_row_rep [OF assms, of i] assms by (simp add: del_row_def)
next
  case (Some p)
  obtain b q where p: "p = (b, q)" by (cases p)
  have in_rows: "(b, q) \<in> set rows" "rid q = i" using Some p by (auto simp: find_Some_iff in_set_conv_nth)
  have dist: "distinct (map fst rows)" "distinct (map (rid \<circ> snd) rows)" using assms by (auto simp: md_rep_def)
  have same: "filter (\<lambda>(a, r). rid r \<noteq> i) rows = filter (\<lambda>(a, r). a \<noteq> b) rows"
  proof (rule filter_cong [OF refl])
    fix x assume x: "x \<in> set rows"
    have "inj_on (rid \<circ> snd) (set rows)" "inj_on fst (set rows)" using dist by (simp_all add: distinct_map)
    then have "x = (b, q)" if "rid (snd x) = i \<or> fst x = b"
      using that x in_rows by (auto dest: inj_onD [of _ _ x "(b, q)"])
    then show "(case x of (a, r) \<Rightarrow> rid r \<noteq> i) = (case x of (a, r) \<Rightarrow> a \<noteq> b)"
      using in_rows(2) by (cases x) auto
  qed
  have rm: "remove1 b (map fst rows) = map fst (filter (\<lambda>(a, r). a \<noteq> b) rows)"
    using dist(1) by (simp add: distinct_remove1_removeAll removeAll_filter_not_eq filter_map comp_def split_def eq_commute [of b])
  have rev: "remove1 b (rev (map fst rows)) = rev (map fst (filter (\<lambda>(a, r). a \<noteq> b) rows))"
    using dist(1) rm by (simp add: distinct_remove1_removeAll removeAll_filter_not_eq rev_filter [symmetric])
  have "length (map fst (filter (\<lambda>(a, r). a \<noteq> b) rows)) + 1 = length rows"
    unfolding rm [symmetric] using distinct_remove1_length [of b "map fst rows"] in_rows(1) by force
  then have n: "int (length (filter (\<lambda>(a, r). a \<noteq> b) rows)) = int (length rows) - 1" by simp
  have "find_row i T = Some b" using find_row_rep [OF assms, of i] Some p by simp
  then show ?thesis
    using assms dist n rm rev unfolding same md_rep_def
    by (auto simp: del_row_def map_of_filter_other distinct_map_filter)
qed

lemma clear_mem: "fold (\<lambda>a m. m(a := None)) as m b = (if b \<in> set as then None else m b)"
  by (induction as arbitrary: m) auto

lemma clear_rows_rep: "md_rep rid T rows \<Longrightarrow> md_rep rid (clear_rows T) []"
  by (auto simp: md_rep_def clear_rows_def clear_mem map_of_eq_None_iff)

subsection \<open>Walking a table\<close>

text \<open>The loop while( (r = md_iterate_next(&it)) ), with fuel for the calls.\<close>

fun md_walk :: "nat \<Rightarrow> nat option \<Rightarrow> 'r md_table \<Rightarrow> nat list option" where
  "md_walk 0 it T = None"
| "md_walk (Suc k) it T =
     (case md_iterate_next it T of
        None \<Rightarrow> Some []
      | Some a \<Rightarrow> map_option (\<lambda>as. a # as) (md_walk k (Some a) T))"

lemma md_walk_from:
  assumes "distinct (md_list T)" and "md_list T = as @ bs" and "k > length bs"
  shows "md_walk k (if as = [] then None else Some (last as)) T = Some bs"
  using assms(2,3)
proof (induction bs arbitrary: as k)
  case Nil
  then obtain k' where k: "k = Suc k'" by (cases k) auto
  show ?case
  proof (cases as rule: rev_cases)
    case Nil
    then show ?thesis using Nil.prems k by (simp add: md_iterate_next_def)
  next
    case (snoc xs x)
    then have "dropWhile (\<lambda>b. b \<noteq> x) (md_list T) = [x]"
      using Nil.prems assms(1) by (auto simp: dropWhile_append)
    then show ?thesis using snoc k by (simp add: md_iterate_next_def)
  qed
next
  case (Cons b bs)
  then obtain k' where k: "k = Suc k'" "k' > length bs" by (cases k) auto
  have "md_iterate_next (if as = [] then None else Some (last as)) T = Some b"
  proof (cases as rule: rev_cases)
    case Nil
    then show ?thesis using Cons.prems by (simp add: md_iterate_next_def)
  next
    case (snoc xs x)
    then have "dropWhile (\<lambda>c. c \<noteq> x) (md_list T) = x # b # bs"
      using Cons.prems assms(1) by (auto simp: dropWhile_append)
    then show ?thesis using snoc by (simp add: md_iterate_next_def)
  qed
  moreover have "md_walk k' (Some b) T = Some bs" using Cons.IH [of "as @ [b]" k'] Cons.prems(1) k(2) by simp
  ultimately show ?case using k(1) by simp
qed

lemma md_walk_rep: "md_rep rid T rows \<Longrightarrow> md_walk (Suc (length rows)) None T = Some (map fst rows)"
  using md_walk_from [of T "[]" "map fst rows" "Suc (length rows)"] by (simp add: md_rep_def del: md_walk.simps)

end
