(* ===== verification/Manager.thy ===== *)
theory Manager
  imports Requests Tables
begin

text \<open>
  The manager's connection (serv/cmd_manage.c, serv/upgrade.c): recv_line cuts what arrives into
  lines, through one buffer that all connections share, and serv_manage answers each line. A line
  of the form cmd ... is passed on to the handlers of the server with the manager device as the
  sender, or is a command of the manager itself; the others get, add, update and delete rows of the
  tables. The answer of a line is the text sent.
\<close>

subsection \<open>Lines\<close>

definition MBUFLEN :: nat where "MBUFLEN = 10340"

text \<open>The bytes at recvbuf[start], ..., recvbuf[start + len - 1].\<close>

record line_buf =
  lb_start :: nat
  lb_bytes :: string

text \<open>The pieces that recv would return given room enough; none are left when the client has closed
  the connection. A recv with no room returns 0, as if it was closed.\<close>

lemma rest_shorter:
  "room \<noteq> 0 \<Longrightarrow> p \<noteq> [] \<Longrightarrow>
   length (concat ((if length p \<le> room then [] else [drop room p]) @ qs)) < length (concat (p # qs))"
  by auto

function recv_line :: "string list \<Rightarrow> line_buf \<Rightarrow> string \<times> string list \<times> line_buf" where
  "recv_line ps B =
     (case dropWhile (\<lambda>x. x \<noteq> CHR 0x0A) (lb_bytes B) of
        nl # rest \<Rightarrow>
          (let line = takeWhile (\<lambda>x. x \<noteq> CHR 0x0A) (lb_bytes B) @ [nl]
           in (line, ps, \<lparr>lb_start = (if rest = [] then 0 else lb_start B + length line), lb_bytes = rest\<rparr>))
      | [] \<Rightarrow>
          (let room = MBUFLEN - (lb_start B + length (lb_bytes B)) - 100
           in case ps of
                [] \<Rightarrow> ([], ps, B)
              | p # qs \<Rightarrow>
                  if room = 0 \<or> p = [] then ([], ps, B)
                  else recv_line ((if length p \<le> room then [] else [drop room p]) @ qs)
                         (B\<lparr>lb_bytes := lb_bytes B @ take room p\<rparr>)))"
  by pat_completeness auto
termination
  by (relation "measure (\<lambda>(ps, B). length (concat ps))", rule wf_measure,
      simp only: in_measure prod.case de_Morgan_disj, elim conjE, hypsubst, rule rest_shorter, assumption+)

declare recv_line.simps [simp del]

subsection \<open>serv/upgrade.c\<close>

text \<open>The files and scripts of the upgrade directory: what the scripts return, the first line of
  the new server's version file and the listing of the directory, each file with its first line.\<close>

record upgrade_env =
  ue_prepare :: int
  ue_new_version :: "string option"
  ue_build :: string
  ue_move :: int
  ue_files :: "(string \<times> string option) list"
  ue_script :: int

text \<open>strrchr on the name of a file: the part before its last dot, and the dot with what follows.\<close>

definition split_suffix :: "string \<Rightarrow> (string \<times> string) option" where
  "split_suffix name =
     (let suf = takeWhile (\<lambda>x. x \<noteq> CHR ''.'') (rev name)
      in if length suf = length name then None
         else Some (take (length name - length suf - 1) name, CHR ''.'' # rev suf))"

text \<open>An empty file leaves the buffer as it was, which is not modelled; the versions go to 1024
  bytes.\<close>

fun client_versions :: "(string \<times> string option) list \<Rightarrow> string \<Rightarrow> string option" where
  "client_versions [] ver = Some ver"
| "client_versions ((name, line) # fs) ver =
     (case split_suffix name of
        Some (base, suf) \<Rightarrow>
          if suf = ''.version'' \<and> name \<noteq> ''server.version''
          then (case line of
                  None \<Rightarrow> None
                | Some x \<Rightarrow>
                    (let ver' = ver @ base @ ''@'' @ x @ '';''
                     in if length ver' < 1024 then client_versions fs ver' else None))
          else client_versions fs ver
      | None \<Rightarrow> client_versions fs ver)"

definition load_client_version :: "upgrade_env \<Rightarrow> string option" where
  "load_client_version E = client_versions (ue_files E) []"

definition check_server_version :: "upgrade_env \<Rightarrow> bool" where
  "check_server_version E = (case ue_new_version E of None \<Rightarrow> False | Some v \<Rightarrow> v \<noteq> ue_build E)"

definition notify_client_upgrade :: "string \<Rightarrow> srv \<Rightarrow> srv" where
  "notify_client_upgrade ver s =
     brcast_cmd_to_all \<lparr>c_dev = 0, c_cmd = [], c_args = [], c_addr = (0, 0),
       c_rep = ''0 upgrade '' @ ver @ newline, c_sock = 0\<rparr> s"

text \<open>The result says whether the upgrade worked, and the version that is current afterwards.\<close>

definition upgrade :: "upgrade_env \<Rightarrow> string \<Rightarrow> srv \<Rightarrow> (bool \<times> string \<times> srv) option" where
  "upgrade E ver s =
     (if ue_prepare E \<noteq> 0 \<or> ue_move E \<noteq> 0 then Some (False, ver, s)
      else do { v \<leftarrow> load_client_version E;
                let s1 = notify_client_upgrade v s;
                Some (\<not> (check_server_version E \<and> ue_script E \<noteq> 0), v, s1) })"

subsection \<open>Commands\<close>

definition manager_passes :: "string \<Rightarrow> bool" where
  "manager_passes name \<longleftrightarrow>
     name \<in> {''discctrl'', ''votectrl'', ''regist'', ''ptc'', ''sysconfig''}"

text \<open>response: the number of the line in front of a short text.\<close>

definition respond :: "int \<Rightarrow> string \<Rightarrow> string" where
  "respond q x = num_str q @ '' '' @ x"

text \<open>The command passed on: its reply starts with its own text, a blank after each word.\<close>

definition passed_cmd :: "string \<Rightarrow> string list \<Rightarrow> cmd" where
  "passed_cmd name args =
     \<lparr>c_dev = 0, c_cmd = name, c_args = args, c_addr = (0, 0),
      c_rep = concat (map (\<lambda>w. w @ '' '') (''0'' # name # args)), c_sock = 0\<rparr>"

definition pass_on :: "(string \<times> handler) list \<Rightarrow> int \<Rightarrow> string \<Rightarrow> string list \<Rightarrow> srv \<Rightarrow> (string \<times> srv) option" where
  "pass_on tbl q name args s =
     do { (i, c, s1) \<leftarrow> handle_cmd tbl (passed_cmd name args) s;
          Some (if i \<noteq> 0 then respond q (''FAIL '' @ num_str i @ newline)
                else num_str q @ '' cmd ''
                       @ (if take 2 (c_rep c) = ''0 '' then drop 2 (c_rep c) else c_rep c), s1) }"

definition chair_ctl :: "string list \<Rightarrow> int \<Rightarrow> srv \<Rightarrow> string \<times> srv" where
  "chair_ctl args q s =
     (case args of
        [] \<Rightarrow> (respond q (''FAIL 1'' @ newline), s)
      | p # _ \<Rightarrow> (respond q (''OK'' @ newline), manage_notify_all_chairs (manage_set_allow_chair (atoi p) s)))"

definition manager_cmd ::
  "(string \<times> handler) list \<Rightarrow> upgrade_env \<Rightarrow> string \<Rightarrow> int \<Rightarrow> string list \<Rightarrow> srv \<Rightarrow> (string \<times> string \<times> srv) option" where
  "manager_cmd tbl E ver q ws s =
     (case ws of
        [] \<Rightarrow> Some (respond q (''FAIL 1'' @ newline), ver, s)
      | name # args \<Rightarrow>
          if name = ''chair_ctl'' then (let (x, s1) = chair_ctl args q s in Some (x, ver, s1))
          else if name = ''upgrade''
          then do { (ok, v, s1) \<leftarrow> upgrade E ver s;
                    Some (respond q ((if ok then ''OK'' else ''FAIL 1'') @ newline), v, s1) }
          else if manager_passes name
          then do { (x, s1) \<leftarrow> pass_on tbl q name args s; Some (x, ver, s1) }
          else Some (respond q (''FAIL 1'' @ newline), ver, s))"

subsection \<open>Rows\<close>

text \<open>What the generated code and the system give: the id of a row, read_ (the fields named by the
  arguments after the first) and write_, what the database returns, the row that m_add leaves
  uninitialised, and the address malloc returns. All tables have the same type of rows here; they
  are not connected with the rows that srv keeps for the handlers.\<close>

record 'r row_env =
  re_id :: "'r \<Rightarrow> int"
  re_read :: "string \<Rightarrow> string list \<Rightarrow> 'r \<Rightarrow> 'r"
  re_write :: "string \<Rightarrow> 'r \<Rightarrow> string"
  re_rc :: int
  re_junk :: 'r
  re_addr :: nat

text \<open>append and flush: the buffer, and what has been sent.\<close>

definition put :: "string \<Rightarrow> string \<times> string list \<Rightarrow> (string \<times> string list) option" where
  "put x bo = do { ensure (length (fst bo @ x) < MBUFLEN); Some (fst bo @ x, snd bo) }"

definition flush_buf :: "string \<times> string list \<Rightarrow> string \<times> string list" where
  "flush_buf bo = ([], snd bo @ [fst bo])"

definition put_row :: "'r row_env \<Rightarrow> string \<Rightarrow> 'r md_table \<Rightarrow> nat \<Rightarrow> string \<times> string list \<Rightarrow> (string \<times> string list) option" where
  "put_row G t T a bo =
     do { (i, r) \<leftarrow> md_mem T a;
          bo1 \<leftarrow> put (re_write G t r) bo;
          Some (if length (fst bo1) \<ge> MBUFLEN - 1024 then ([], snd bo1 @ [fst bo1]) else bo1) }"

definition m_get :: "'r row_env \<Rightarrow> string \<Rightarrow> 'r md_table \<Rightarrow> string \<times> string list \<Rightarrow> (string \<times> string list) option" where
  "m_get G t T bo =
     do { bo1 \<leftarrow> put (''table '' @ t @ newline) bo;
          as \<leftarrow> md_walk (Suc (length (md_list T))) None T;
          bo2 \<leftarrow> foldM (put_row G t T) as bo1;
          put newline bo2 }"

definition result_text :: "int \<Rightarrow> int \<Rightarrow> string" where
  "result_text q i = respond q ((if i = 0 then ''OK'' else ''FAIL '' @ num_str i) @ newline)"

definition m_add :: "'r row_env \<Rightarrow> string \<Rightarrow> int \<Rightarrow> string list \<Rightarrow> 'r md_table \<Rightarrow> string \<times> 'r md_table" where
  "m_add G t q args T =
     (let (i, T1) = md_add (re_id G) (re_rc G) (re_addr G) (re_read G t args (re_junk G)) T
      in (result_text q i, T1))"

definition m_update :: "'r row_env \<Rightarrow> string \<Rightarrow> int \<Rightarrow> string list \<Rightarrow> 'r md_table \<Rightarrow> (string \<times> 'r md_table) option" where
  "m_update G t q args T =
     (if length args < 2 then Some (respond q (''FAIL '' @ num_str ERR_INVL_ARG @ newline), T)
      else do { a \<leftarrow> md_find (atoi (args ! 1)) T;
                T1 \<leftarrow> md_write a (re_read G t args) T;
                (let (i, T2) = md_update (re_rc G) T1 in Some (result_text q i, T2)) })"

definition m_delete :: "'r row_env \<Rightarrow> int \<Rightarrow> string list \<Rightarrow> 'r md_table \<Rightarrow> string \<times> 'r md_table" where
  "m_delete G q args T =
     (if length args < 2 then (respond q (''FAIL '' @ num_str ERR_INVL_ARG @ newline), T)
      else (let (i, T1) = (if args ! 1 = ''all'' then md_clear (re_rc G) T else md_del (re_rc G) (atoi (args ! 1)) T)
            in (result_text q i, T1)))"

definition table_names :: "string list" where
  "table_names = [''group'', ''user'', ''device'', ''tag'', ''auth_card'', ''regist'', ''discuss'', ''vote'',
     ''video'', ''file'']"

definition m_get_all :: "'r row_env \<Rightarrow> (string \<Rightarrow> 'r md_table) \<Rightarrow> string \<times> string list \<Rightarrow> (string \<times> string list) option" where
  "m_get_all G D = foldM (\<lambda>t. m_get G t (D t)) [''device'', ''tag'', ''regist'', ''discuss'', ''vote'']"

definition get_text :: "(string \<times> string list \<Rightarrow> (string \<times> string list) option) \<Rightarrow> int \<Rightarrow> string list option" where
  "get_text get q =
     do { bo1 \<leftarrow> put (respond q (''OK'' @ newline)) ([], []);
          bo2 \<leftarrow> get bo1;
          bo3 \<leftarrow> put (''EOF'' @ newline) bo2;
          Some (snd (flush_buf bo3)) }"

text \<open>The result is the texts sent.\<close>

definition table_cmd ::
  "'r row_env \<Rightarrow> int \<Rightarrow> string \<Rightarrow> string \<Rightarrow> string list \<Rightarrow> 'r md_table \<Rightarrow> (string list \<times> 'r md_table) option" where
  "table_cmd G q op t args T =
     (if op = ''get'' then do { out \<leftarrow> get_text (m_get G t T) q; Some (out, T) }
      else if op = ''add'' then (let (x, T1) = m_add G t q args T in Some ([x], T1))
      else if op = ''update'' then do { (x, T1) \<leftarrow> m_update G t q args T; Some ([x], T1) }
      else if op = ''delete'' then (let (x, T1) = m_delete G q args T in Some ([x], T1))
      else Some ([respond q (''FAIL 1'' @ newline)], T))"

definition data_cmd ::
  "'r row_env \<Rightarrow> int \<Rightarrow> string \<Rightarrow> string list \<Rightarrow> (string \<Rightarrow> 'r md_table) \<Rightarrow> (string list \<times> (string \<Rightarrow> 'r md_table)) option" where
  "data_cmd G q op args D =
     (case args of
        [] \<Rightarrow> Some ([respond q (''FAIL 1'' @ newline)], D)
      | t # _ \<Rightarrow>
          if t \<in> set table_names
          then do { (out, T) \<leftarrow> table_cmd G q op t args (D t); Some (out, D(t := T)) }
          else if t = ''all''
          then (if op = ''get'' then do { out \<leftarrow> get_text (m_get_all G D) q; Some (out, D) } else Some ([], D))
          else Some ([respond q (''FAIL 1'' @ newline)], D))"

subsection \<open>The connection\<close>

record 'r manager =
  mg_srv :: srv
  mg_ver :: string
  mg_data :: "string \<Rightarrow> 'r md_table"

text \<open>One turn of the loop of serv_manage: the line as received, and the texts sent.\<close>

definition manager_line ::
  "(string \<times> handler) list \<Rightarrow> upgrade_env \<Rightarrow> 'r row_env \<Rightarrow> string \<Rightarrow> 'r manager \<Rightarrow> (string list \<times> 'r manager) option" where
  "manager_line tbl E G line M =
     do { (r, c) \<leftarrow> parse_cmd line \<lparr>c_dev = 0, c_cmd = [], c_args = [], c_addr = (0, 0), c_rep = [], c_sock = 0\<rparr>;
          if r \<noteq> 0 then Some ([respond (c_dev c) (''FAIL '' @ num_str r @ newline)], M)
          else if c_cmd c = ''cmd''
          then do { (x, v, s1) \<leftarrow> manager_cmd tbl E (mg_ver M) (c_dev c) (c_args c) (mg_srv M);
                    Some ([x], M\<lparr>mg_srv := s1, mg_ver := v\<rparr>) }
          else do { (out, D) \<leftarrow> data_cmd G (c_dev c) (c_cmd c) (c_args c) (mg_data M);
                    Some (out, M\<lparr>mg_data := D\<rparr>) } }"

text \<open>When the connection is closed the chairmen may control again.\<close>

definition manager_closed :: "srv \<Rightarrow> srv" where
  "manager_closed s = manage_notify_all_chairs (manage_set_active 0 s)"

text \<open>The thread of a connection, for at most k lines; sys gives the surroundings of each line.\<close>

fun serv_manage ::
  "nat \<Rightarrow> (string \<times> handler) list \<Rightarrow> (nat \<Rightarrow> upgrade_env \<times> 'r row_env) \<Rightarrow> string list \<Rightarrow> line_buf \<Rightarrow> 'r manager \<Rightarrow>
   (string list \<times> line_buf \<times> 'r manager) option" where
  "serv_manage 0 tbl sys ps B M = None"
| "serv_manage (Suc k) tbl sys ps B M =
     (let (line, qs, B1) = recv_line ps B
      in if line = [] then Some ([], B1, M\<lparr>mg_srv := manager_closed (mg_srv M)\<rparr>)
         else do { (out, M1) \<leftarrow> manager_line tbl (fst (sys k)) (snd (sys k)) line M;
                   (outs, B2, M2) \<leftarrow> serv_manage k tbl sys qs B1 M1;
                   Some (out @ outs, B2, M2) })"

end
