(* ===== verification/Manager_Props.thy ===== *)
theory Manager_Props
  imports Manager Demo
begin

text \<open>
  Properties of the manager's connection and of the tables: the lines that recv_line delivers are
  those of the stream, the rows of a table are those the operations put there, and what the
  commands print and change.
\<close>

subsection \<open>Lines\<close>

definition nl :: char where "nl = CHR 0x0A"

text \<open>The complete lines of a text, and what comes after the last of them.\<close>

function split_lines :: "string \<Rightarrow> string list \<times> string" where
  "split_lines x =
     (if nl \<in> set x
      then (let (ls, r) = split_lines (tl (dropWhile (\<lambda>c. c \<noteq> nl) x)) in ((takeWhile (\<lambda>c. c \<noteq> nl) x @ [nl]) # ls, r))
      else ([], x))"
  by pat_completeness auto
termination
proof (relation "measure length")
  fix x :: string
  assume "nl \<in> set x"
  then have "dropWhile (\<lambda>c. c \<noteq> nl) x \<noteq> []" by (auto simp: dropWhile_eq_Nil_conv)
  then have "length (tl (dropWhile (\<lambda>c. c \<noteq> nl) x)) < length (dropWhile (\<lambda>c. c \<noteq> nl) x)" by simp
  also have "\<dots> \<le> length x" by (rule length_dropWhile_le)
  finally show "(tl (dropWhile (\<lambda>c. c \<noteq> nl) x), x) \<in> measure length" by simp
qed simp

declare split_lines.simps [simp del]

lemma split_lines_end: "nl \<notin> set x \<Longrightarrow> split_lines x = ([], x)"
  by (subst split_lines.simps) simp

lemma split_lines_step:
  assumes "nl \<notin> set x"
  shows "split_lines (x @ nl # y) = ((x @ [nl]) # fst (split_lines y), snd (split_lines y))"
proof -
  have "takeWhile (\<lambda>c. c \<noteq> nl) (x @ nl # y) = x" "dropWhile (\<lambda>c. c \<noteq> nl) (x @ nl # y) = nl # y"
    using assms by (auto simp: takeWhile_append takeWhile_eq_all_conv dropWhile_append)
  then show ?thesis by (subst split_lines.simps) (simp add: split_beta)
qed

text \<open>The lines a connection gets, at most k of them.\<close>

fun recv_lines :: "nat \<Rightarrow> string list \<Rightarrow> line_buf \<Rightarrow> string list \<times> line_buf" where
  "recv_lines 0 ps B = ([], B)"
| "recv_lines (Suc k) ps B =
     (let (line, qs, B1) = recv_line ps B
      in if line = [] then ([], B1) else (let (ls, B2) = recv_lines k qs B1 in (line # ls, B2)))"

definition stream :: "string list \<Rightarrow> line_buf \<Rightarrow> string" where
  "stream ps B = lb_bytes B @ concat ps"

text \<open>Everything still to come has room behind the start of the buffer.\<close>

definition lines_fit :: "string list \<Rightarrow> line_buf \<Rightarrow> bool" where
  "lines_fit ps B \<longleftrightarrow> [] \<notin> set ps \<and> lb_start B + length (stream ps B) \<le> MBUFLEN - 100"

lemma MBUFLEN_room: "MBUFLEN - 100 = 10240" "a \<le> MBUFLEN - 100 \<Longrightarrow> MBUFLEN - a - 100 = MBUFLEN - 100 - a"
  by (simp_all add: MBUFLEN_def)

lemma recv_line_has:
  assumes "lb_bytes B = x @ nl # y" and "nl \<notin> set x"
  shows "recv_line ps B = (x @ [nl], ps, \<lparr>lb_start = (if y = [] then 0 else lb_start B + length x + 1), lb_bytes = y\<rparr>)"
proof -
  have "takeWhile (\<lambda>c. c \<noteq> CHR 0x0A) (lb_bytes B) = x" "dropWhile (\<lambda>c. c \<noteq> CHR 0x0A) (lb_bytes B) = CHR 0x0A # y"
    using assms by (auto simp: nl_def takeWhile_append takeWhile_eq_all_conv dropWhile_append)
  then show ?thesis by (subst recv_line.simps) (simp add: nl_def)
qed

lemma recv_line_more:
  assumes "nl \<notin> set (lb_bytes B)"
  shows "recv_line ps B =
    (let room = MBUFLEN - (lb_start B + length (lb_bytes B)) - 100
     in case ps of
          [] \<Rightarrow> ([], ps, B)
        | p # qs \<Rightarrow>
            if room = 0 \<or> p = [] then ([], ps, B)
            else recv_line ((if length p \<le> room then [] else [drop room p]) @ qs) (B\<lparr>lb_bytes := lb_bytes B @ take room p\<rparr>))"
proof -
  have "dropWhile (\<lambda>c. c \<noteq> CHR 0x0A) (lb_bytes B) = []"
    using assms by (simp add: nl_def dropWhile_eq_Nil_conv) metis
  then show ?thesis by (subst recv_line.simps) (simp only: list.case)
qed

lemma recv_line_fit:
  assumes "lines_fit ps B"
  shows "if nl \<in> set (stream ps B)
         then (\<exists>x y qs B1. nl \<notin> set x \<and> stream ps B = x @ nl # y \<and> recv_line ps B = (x @ [nl], qs, B1)
                \<and> stream qs B1 = y \<and> lines_fit qs B1)
         else (\<exists>B1. recv_line ps B = ([], [], B1) \<and> lb_bytes B1 = stream ps B)"
  using assms
proof (induction ps arbitrary: B)
  case Nil
  show ?case
  proof (cases "nl \<in> set (lb_bytes B)")
    case True
    then obtain x y where split: "lb_bytes B = x @ nl # y" "nl \<notin> set x" by (meson split_list_first)
    show ?thesis using Nil split recv_line_has [OF split, of "[]"] by (auto simp: stream_def lines_fit_def)
  next
    case False
    then show ?thesis using recv_line_more [OF False, of "[]"] by (simp add: stream_def)
  qed
next
  case (Cons p ps)
  show ?case
  proof (cases "nl \<in> set (lb_bytes B)")
    case True
    then obtain x y where split: "lb_bytes B = x @ nl # y" "nl \<notin> set x" by (meson split_list_first)
    show ?thesis using Cons.prems split recv_line_has [OF split, of "p # ps"]
      by (auto simp: stream_def lines_fit_def)
  next
    case False
    define B1 where "B1 = B\<lparr>lb_bytes := lb_bytes B @ p\<rparr>"
    have p: "p \<noteq> []" "lb_start B + length (lb_bytes B) + length p \<le> MBUFLEN - 100"
      using Cons.prems by (auto simp: lines_fit_def stream_def)
    define room where "room = MBUFLEN - (lb_start B + length (lb_bytes B)) - 100"
    have pos: "0 < length p" using p(1) by simp
    have room: "room \<noteq> 0" "length p \<le> room"
      using p(2) pos unfolding room_def MBUFLEN_def by linarith+
    have same: "stream ps B1 = stream (p # ps) B" "lines_fit ps B1"
      using Cons.prems by (auto simp: B1_def stream_def lines_fit_def)
    have eq: "recv_line (p # ps) B = recv_line ps B1"
      using recv_line_more [OF False, of "p # ps"] room p(1) unfolding room_def [symmetric] by (simp add: Let_def B1_def)
    show ?thesis using Cons.IH [OF same(2)] unfolding eq same(1) .
  qed
qed

lemma recv_lines_split:
  assumes "lines_fit ps B" and "length (stream ps B) < k"
  shows "fst (recv_lines k ps B) = fst (split_lines (stream ps B))
    \<and> lb_bytes (snd (recv_lines k ps B)) = snd (split_lines (stream ps B))"
  using assms
proof (induction k arbitrary: ps B)
  case (Suc k)
  show ?case
  proof (cases "nl \<in> set (stream ps B)")
    case True
    then obtain x y qs B1 where step: "nl \<notin> set x" "stream ps B = x @ nl # y" "recv_line ps B = (x @ [nl], qs, B1)"
      "stream qs B1 = y" "lines_fit qs B1"
      using recv_line_fit [OF Suc.prems(1)] by auto
    have "fst (recv_lines k qs B1) = fst (split_lines y) \<and> lb_bytes (snd (recv_lines k qs B1)) = snd (split_lines y)"
      using Suc.IH [OF step(5)] Suc.prems(2) step(2,4) by simp
    then show ?thesis by (simp add: step(2,3) split_lines_step [OF step(1)] split_beta)
  next
    case False
    then obtain B1 where "recv_line ps B = ([], [], B1)" "lb_bytes B1 = stream ps B"
      using recv_line_fit [OF Suc.prems(1)] by auto
    then show ?thesis using split_lines_end [OF False] by simp
  qed
qed simp

text \<open>C39. As long as everything that arrives has room behind the start of the buffer, the lines of a
  connection are the complete lines of the stream, however it is cut into pieces, and what follows
  the last line stays in the buffer, for the next connection.\<close>

theorem manager_lines_are_those_of_the_stream:
  assumes "[] \<notin> set ps" and "lb_start B + length (lb_bytes B) + length (concat ps) \<le> 10240"
    and "length (lb_bytes B) + length (concat ps) < k"
  shows "fst (recv_lines k ps B) = fst (split_lines (lb_bytes B @ concat ps))
    \<and> lb_bytes (snd (recv_lines k ps B)) = snd (split_lines (lb_bytes B @ concat ps))"
proof -
  have "lines_fit ps B" using assms(1,2) by (simp add: lines_fit_def stream_def MBUFLEN_room)
  from recv_lines_split [OF this, of k] assms(3) show ?thesis by (simp add: stream_def)
qed

theorem manager_lines_are_those_of_the_stream_witness:
  "fst (recv_lines 9 [''a'' @ [nl, CHR ''b''], ''c'' @ [nl], ''d''] \<lparr>lb_start = 0, lb_bytes = []\<rparr>) = [''a'' @ [nl], ''bc'' @ [nl]]"
  using manager_lines_are_those_of_the_stream [of "[''a'' @ [nl, CHR ''b''], ''c'' @ [nl], ''d'']" "\<lparr>lb_start = 0, lb_bytes = []\<rparr>" 9]
    split_lines_step [of "''a''" "''bc'' @ [nl] @ ''d''"] split_lines_step [of "''bc''" "''d''"] split_lines_end [of "''d''"]
  by (simp add: nl_def)

text \<open>A line of 10240 bytes or more closes the connection, and as the buffer is shared and is only
  emptied by a line, it closes every later connection of a manager as soon as it is opened.\<close>

theorem manager_long_line_closes_all_connections:
  assumes "nl \<notin> set p" and "10240 \<le> length p"
  shows "\<exists>qs B. recv_line [p] \<lparr>lb_start = 0, lb_bytes = []\<rparr> = ([], qs, B) \<and> (\<forall>ps. recv_line ps B = ([], ps, B))"
proof -
  define B where "B = \<lparr>lb_start = 0, lb_bytes = take 10240 p\<rparr>"
  have no_nl: "nl \<notin> set (lb_bytes B)" using assms(1) by (auto simp: B_def dest: in_set_takeD)
  have full: "recv_line ps B = ([], ps, B)" for ps
    using recv_line_more [OF no_nl, of ps] assms(2) by (simp add: B_def MBUFLEN_def split: list.split)
  have p: "p \<noteq> []" using assms(2) by auto
  have "\<exists>qs. recv_line [p] \<lparr>lb_start = 0, lb_bytes = []\<rparr> = recv_line qs B"
    using recv_line_more [of "\<lparr>lb_start = 0, lb_bytes = []\<rparr>" "[p]"] p by (simp add: B_def MBUFLEN_def Let_def) blast
  then show ?thesis using full by metis
qed

theorem manager_long_line_closes_all_connections_witness:
  "\<exists>qs B. recv_line [replicate 10240 (CHR ''x'')] \<lparr>lb_start = 0, lb_bytes = []\<rparr> = ([], qs, B) \<and> (\<forall>ps. recv_line ps B = ([], ps, B))"
  by (rule manager_long_line_closes_all_connections) (simp_all add: nl_def)

subsection \<open>Tables\<close>

text \<open>The operations of a table, with the address that malloc returns for a new row.\<close>

datatype 'r row_op = Add nat 'r | Del int | Clear

fun do_row_op :: "('r \<Rightarrow> int) \<Rightarrow> 'r row_op \<Rightarrow> 'r md_table \<Rightarrow> 'r md_table" where
  "do_row_op rid (Add a r) T = snd (md_add rid 0 a r T)"
| "do_row_op rid (Del i) T = snd (md_del 0 i T)"
| "do_row_op rid Clear T = snd (md_clear 0 T)"

fun spec_row_op :: "('r \<Rightarrow> int) \<Rightarrow> 'r row_op \<Rightarrow> (nat \<times> 'r) list \<Rightarrow> (nat \<times> 'r) list" where
  "spec_row_op rid (Add a r) rows = rows @ [(a, r)]"
| "spec_row_op rid (Del i) rows = filter (\<lambda>(a, r). rid r \<noteq> i) rows"
| "spec_row_op rid Clear rows = []"

text \<open>malloc returns memory that is not in use, and ids are the primary keys of the database.\<close>

fun row_op_ok :: "('r \<Rightarrow> int) \<Rightarrow> (nat \<times> 'r) list \<Rightarrow> 'r row_op \<Rightarrow> bool" where
  "row_op_ok rid rows (Add a r) = (a \<notin> fst ` set rows \<and> rid r \<notin> (rid \<circ> snd) ` set rows)"
| "row_op_ok rid rows _ = True"

fun row_ops_ok :: "('r \<Rightarrow> int) \<Rightarrow> (nat \<times> 'r) list \<Rightarrow> 'r row_op list \<Rightarrow> bool" where
  "row_ops_ok rid rows [] = True"
| "row_ops_ok rid rows (op # ops) = (row_op_ok rid rows op \<and> row_ops_ok rid (spec_row_op rid op rows) ops)"

lemma do_row_op_rep:
  "md_rep rid T rows \<Longrightarrow> row_op_ok rid rows op \<Longrightarrow> md_rep rid (do_row_op rid op T) (spec_row_op rid op rows)"
  by (cases op) (simp_all add: md_add_def md_del_def md_clear_def add_row_rep del_row_rep clear_rows_rep)

lemma do_row_ops_rep:
  "md_rep rid T rows \<Longrightarrow> row_ops_ok rid rows ops \<Longrightarrow>
   md_rep rid (fold (do_row_op rid) ops T) (fold (spec_row_op rid) ops rows)"
  by (induction ops arbitrary: T rows) (simp_all add: do_row_op_rep)

lemma md_mem_alloc: "md_rep rid T rows \<Longrightarrow> md_mem T a \<noteq> None \<longleftrightarrow> a \<in> fst ` set rows"
  by (auto simp: md_rep_def map_of_eq_None_iff)

text \<open>C40. A table after any sequence of additions, deletions and clearings: walking it gives the rows
  in the order they were added, looking an id up gives its row, the count is the number of rows,
  and exactly the rows of the table are allocated.\<close>

theorem tables_refine_rows:
  assumes "row_ops_ok rid [] ops"
  defines "T \<equiv> fold (do_row_op rid) ops md_empty" and "rows \<equiv> fold (spec_row_op rid) ops []"
  shows "md_walk (Suc (length rows)) None T = Some (map fst rows)
    \<and> md_find i T = map_option fst (find (\<lambda>(a, r). rid r = i) rows)
    \<and> md_get_count T = int (length rows)
    \<and> (\<forall>a. md_mem T a = map_option (\<lambda>r. (rid r, r)) (map_of rows a))"
proof -
  have rep: "md_rep rid T rows" unfolding T_def rows_def by (rule do_row_ops_rep [OF md_empty_rep assms(1)])
  show ?thesis
    using md_walk_rep [OF rep] find_row_rep [OF rep] rep by (simp add: md_find_def md_get_count_def md_rep_def)
qed

text \<open>Rows as lists of numbers, the first of them the id.\<close>

definition demo_ops :: "int list row_op list" where
  "demo_ops = [Add 100 [7, 1], Add 200 [9, 2], Del 7, Add 100 [5, 3]]"

theorem tables_refine_rows_witness:
  "md_walk 3 None (fold (do_row_op hd) demo_ops md_empty) = Some [200, 100]
    \<and> md_find 5 (fold (do_row_op hd) demo_ops md_empty) = Some 100"
proof -
  have ok: "row_ops_ok hd [] demo_ops" by (simp add: demo_ops_def)
  have rows: "fold (spec_row_op hd) demo_ops [] = [(200, [9, 2]), (100, [5, 3])]" by (simp add: demo_ops_def)
  show ?thesis using tables_refine_rows [OF ok, of 5] unfolding rows by (simp add: numeral_3_eq_3)
qed

subsection \<open>Commands on rows\<close>

text \<open>Reading a table prints its name and every row, in order, in as many pieces as it takes,
  provided a row is printed in less than 1000 characters.\<close>

lemma put_rows:
  assumes "md_rep rid T rows" and "set as \<subseteq> set rows" and "\<forall>(a, r)\<in>set rows. length (re_write G t r) < 1000"
    and "length buf < MBUFLEN - 1024"
  shows "\<exists>buf' out'. foldM (put_row G t T) (map fst as) (buf, out) = Some (buf', out') \<and> length buf' < MBUFLEN - 1024
    \<and> concat out' @ buf' = concat out @ buf @ concat (map (\<lambda>x. re_write G t (snd x)) as)"
  using assms(2,4)
proof (induction as arbitrary: buf out)
  case (Cons x as)
  obtain a r where x: "x = (a, r)" by (cases x)
  have row: "(a, r) \<in> set rows" using Cons.prems(1) x by simp
  then have mem: "md_mem T a = Some (rid r, r)" using assms(1) by (simp add: md_rep_def map_of_eq_Some_iff)
  have len: "length (re_write G t r) < 1000" using assms(3) row by blast
  define w where "w = buf @ re_write G t r"
  have fits: "length w < MBUFLEN" using Cons.prems(2) len by (simp add: w_def MBUFLEN_def)
  define next_bo where "next_bo = (if length w \<ge> MBUFLEN - 1024 then ([], out @ [w]) else (w, out))"
  have step: "put_row G t T a (buf, out) = Some next_bo"
    using fits by (simp add: put_row_def mem put_def w_def next_bo_def ensure_def)
  have small: "length (fst next_bo) < MBUFLEN - 1024" by (auto simp: next_bo_def MBUFLEN_def)
  have cat: "concat (snd next_bo) @ fst next_bo = concat out @ w" by (simp add: next_bo_def)
  obtain buf' out' where rest: "foldM (put_row G t T) (map fst as) (fst next_bo, snd next_bo) = Some (buf', out')"
    "length buf' < MBUFLEN - 1024"
    "concat out' @ buf' = concat (snd next_bo) @ fst next_bo @ concat (map (\<lambda>x. re_write G t (snd x)) as)"
    using Cons.IH [of "fst next_bo" "snd next_bo"] Cons.prems(1) small by fastforce
  show ?case using rest step cat x by (simp add: w_def)
qed simp

lemma put_small: "length (fst bo @ x) < MBUFLEN \<Longrightarrow> put x bo = Some (fst bo @ x, snd bo)"
  by (simp add: put_def)

lemma md_list_rep: "md_rep rid T rows \<Longrightarrow> md_list T = map fst rows"
  by (simp add: md_rep_def)

theorem manager_get_prints_table:
  assumes "md_rep rid T rows" and "\<forall>(a, r)\<in>set rows. length (re_write G t r) < 1000"
    and "t \<in> set table_names" and "abs q < 2 ^ 31"
  shows "\<exists>out. table_cmd G q ''get'' t args T = Some (out, T)
    \<and> concat out = num_str q @ '' OK'' @ newline @ ''table '' @ t @ newline
         @ concat (map (\<lambda>x. re_write G t (snd x)) rows) @ newline @ ''EOF'' @ newline"
proof -
  define h where "h = respond q (''OK'' @ newline)"
  define b where "b = h @ ''table '' @ t @ newline"
  have q: "length (num_str q) \<le> 11" using length_num_str_int [of q] assms(4) by simp
  have t: "length t \<le> 9" using assms(3) by (auto simp: table_names_def)
  have h: "length h < 100" using q by (simp add: h_def respond_def newline_def)
  have b: "length b < MBUFLEN - 1024" using h t by (simp add: b_def MBUFLEN_def newline_def)
  have rows: "set rows \<subseteq> set rows" by simp
  obtain buf out where run: "foldM (put_row G t T) (map fst rows) (b, []) = Some (buf, out)"
      "length buf < MBUFLEN - 1024" "out = out" "concat out @ buf = b @ concat (map (\<lambda>x. re_write G t (snd x)) rows)"
    using put_rows [OF assms(1) rows assms(2) b, of "[]"] by auto
  have p1: "put h ([], []) = Some (h, [])" using h by (subst put_small) (simp_all add: MBUFLEN_def)
  have p2: "put (''table '' @ t @ newline) (h, []) = Some (b, [])"
    using b by (subst put_small) (simp_all add: MBUFLEN_def b_def)
  have p3: "put newline (buf, out) = Some (buf @ newline, out)"
    using run(2) by (subst put_small) (simp_all add: MBUFLEN_def newline_def)
  have p4: "put (''EOF'' @ newline) (buf @ newline, out) = Some (buf @ newline @ ''EOF'' @ newline, out)"
    using run(2) by (subst put_small) (simp_all add: MBUFLEN_def newline_def)
  have get: "m_get G t T (h, []) = Some (buf @ newline, out)"
    by (simp only: m_get_def p2 p3 md_list_rep [OF assms(1)] length_map md_walk_rep [OF assms(1)] run(1) Option.bind.bind_lunit)
  have "get_text (m_get G t T) q = Some (out @ [buf @ newline @ ''EOF'' @ newline])"
    by (simp only: get_text_def h_def [symmetric] p1 get p4 flush_buf_def Option.bind.bind_lunit fst_conv snd_conv)
  moreover have "concat out @ buf @ newline @ ''EOF'' @ newline = h @ ''table '' @ t @ newline
      @ concat (map (\<lambda>x. re_write G t (snd x)) rows) @ newline @ ''EOF'' @ newline"
    using run(4) unfolding b_def append_assoc [symmetric] by simp
  ultimately show ?thesis by (auto simp: table_cmd_def h_def respond_def)
qed

text \<open>What read and write do in these examples.\<close>

definition demo_rows :: "int list row_env" where
  "demo_rows = \<lparr>re_id = hd, re_read = (\<lambda>t args r. map atoi (tl args)), re_write = (\<lambda>t r. num_str (hd r) @ newline),
     re_rc = 0, re_junk = [], re_addr = 500\<rparr>"

definition demo_table :: "int list md_table" where
  "demo_table = add_row hd 200 [9, 2] md_empty"

lemma demo_table_rep: "md_rep hd demo_table [(200, [9, 2])]"
  using add_row_rep [OF md_empty_rep, where a = 200 and r = "[9, 2]" and rid = hd] by (simp add: demo_table_def)

theorem manager_get_prints_table_witness:
  "\<exists>out. table_cmd demo_rows 4 ''get'' ''vote'' [''vote''] demo_table = Some (out, demo_table)
    \<and> concat out = ''4 OK'' @ newline @ ''table vote'' @ newline @ ''9'' @ newline @ newline @ ''EOF'' @ newline"
proof -
  have n: "num_str 9 = ''9''" "num_str 4 = ''4''" by code_simp+
  have "\<exists>out. table_cmd demo_rows 4 ''get'' ''vote'' [''vote''] demo_table = Some (out, demo_table)
    \<and> concat out = num_str 4 @ '' OK'' @ newline @ ''table '' @ ''vote'' @ newline
         @ concat (map (\<lambda>x. re_write demo_rows ''vote'' (snd x)) [(200 :: nat, [9, 2])]) @ newline @ ''EOF'' @ newline"
    by (rule manager_get_prints_table [OF demo_table_rep])
      (simp_all add: demo_rows_def table_names_def newline_def n)
  then show ?thesis by (simp add: demo_rows_def n)
qed

text \<open>m_update writes through what md_find returns without looking at it: an id that is not in the
  table is a null pointer.\<close>

theorem manager_update_unknown_row_faults:
  assumes "md_rep rid T rows" and "\<forall>(a, r)\<in>set rows. rid r \<noteq> atoi i"
  shows "table_cmd G q ''update'' t (t # i # vals) T = None"
proof -
  have "find (\<lambda>(a, r). rid r = atoi i) rows = None" using assms(2) by (auto simp: find_None_iff)
  then have "md_find (atoi i) T = None" using find_row_rep [OF assms(1)] by (simp add: md_find_def)
  then show ?thesis by (simp add: table_cmd_def m_update_def)
qed

theorem manager_update_unknown_row_faults_witness:
  "table_cmd demo_rows 4 ''update'' ''vote'' (''vote'' # ''8'' # [''1'']) demo_table = None"
proof -
  have "atoi ''8'' = 8" by code_simp
  then show ?thesis by (intro manager_update_unknown_row_faults [OF demo_table_rep]) simp
qed

subsection \<open>Commands passed on\<close>

lemma map_of_filter_key: "P k \<Longrightarrow> map_of (filter (P \<circ> fst) tbl) k = map_of tbl k"
  by (induction tbl) auto

lemma pass_on_filter:
  "manager_passes name \<Longrightarrow> pass_on (filter (manager_passes \<circ> fst) tbl) q name args s = pass_on tbl q name args s"
  by (simp add: pass_on_def handle_cmd_def passed_cmd_def map_of_filter_key)

text \<open>Whatever a manager sends, the server does as if the five handlers that the manager may use
  were the only ones.\<close>

theorem manager_reaches_five_handlers:
  "manager_line tbl E G line M = manager_line (filter (manager_passes \<circ> fst) tbl) E G line M"
proof -
  have same: "manager_cmd (filter (manager_passes \<circ> fst) tbl) E ver q ws s = manager_cmd tbl E ver q ws s" for ver q ws s
    by (cases ws) (simp_all add: manager_cmd_def pass_on_filter)
  show ?thesis unfolding manager_line_def same ..
qed

end
