(* ===== verification/Client_Text.thy ===== *)
theory Client_Text
  imports Cmd
begin

text \<open>
  The client library's reading of replies (client/client.c): splitting at a delimiter, lists of
  numbers, entries of a table, the key=value pairs that answer a registration, and access to the
  arguments of a parsed line. A null pointer is None; an argument that is not there faults when its
  text is used. Buffers of the caller are taken to be large enough, arrays of the library are not.
\<close>

subsection \<open>Arguments of a line\<close>

text \<open>The text of args[i], for a use that follows the pointer.\<close>

definition arg :: "cmd \<Rightarrow> nat \<Rightarrow> string option" where
  "arg c i = (if i < length (c_args c) then Some (c_args c ! i) else None)"

definition int_arg :: "cmd \<Rightarrow> nat \<Rightarrow> int option" where
  "int_arg c i = map_option atoi (arg c i)"

text \<open>The pointer args[i] after parse_cmd filled an array that was not initialised: the entry behind
  the last argument is null, the others are not to be read.\<close>

definition arg_ptr :: "cmd \<Rightarrow> nat \<Rightarrow> string option option" where
  "arg_ptr c i = (if i \<le> length (c_args c) then Some (arg c i) else None)"

text \<open>FIND_OK: the position of the first OK, or of the end.\<close>

definition find_ok :: "cmd \<Rightarrow> nat" where
  "find_ok c = length (takeWhile (\<lambda>w. w \<noteq> ''OK'') (c_args c))"

definition null_safe :: "string option \<Rightarrow> string" where
  "null_safe p = (case p of None \<Rightarrow> [] | Some s \<Rightarrow> s)"

subsection \<open>Lists\<close>

text \<open>str_split into an array with room for n pointers.\<close>

definition str_split :: "nat \<Rightarrow> string \<Rightarrow> char \<Rightarrow> string list option" where
  "str_split n s d = (let ws = tokens (\<lambda>c. c = d) s in if length ws \<le> n then Some ws else None)"

definition str_to_ints :: "string option \<Rightarrow> int list" where
  "str_to_ints p = (case p of None \<Rightarrow> [] | Some s \<Rightarrow> map atoi (tokens (\<lambda>c. c = CHR '','') s))"

text \<open>str_to_int_list writes a zero behind the numbers; a reader takes what is in front of the first
  zero. The result is the array as written.\<close>

definition str_to_int_list :: "string option \<Rightarrow> int list" where
  "str_to_int_list p = str_to_ints p @ [0]"

definition until_zero :: "int list \<Rightarrow> int list" where
  "until_zero xs = takeWhile (\<lambda>x. x \<noteq> 0) xs"

text \<open>The list passed ends with a zero, which is not given here. Without numbers the result is the
  empty string.\<close>

definition int_list_to_str :: "int list \<Rightarrow> string" where
  "int_list_to_str xs = butlast (concat (map (\<lambda>x. num_str x @ '','') (until_zero xs)))"

text \<open>int_in_str reads the first number before it looks whether there is one.\<close>

definition int_in_str :: "int \<Rightarrow> string option \<Rightarrow> bool option" where
  "int_in_str i p =
     (case p of
        None \<Rightarrow> Some False
      | Some s \<Rightarrow> (let ws = tokens (\<lambda>c. c = CHR '','') s in if ws = [] then None else Some (i \<in> atoi ` set ws)))"

subsection \<open>Tables\<close>

text \<open>A field of an entry as the configuration of parse_entries describes it, a string with the room it
  has in the caller's structure, and its value.\<close>

datatype field_kind = FInt | FStr nat

datatype field_val = VInt int | VStr string

definition read_field :: "field_kind \<Rightarrow> string \<Rightarrow> field_val option" where
  "read_field k x =
     (case k of FInt \<Rightarrow> Some (VInt (atoi x)) | FStr n \<Rightarrow> if length x < n then Some (VStr x) else None)"

fun read_fields :: "field_kind list \<Rightarrow> string list \<Rightarrow> field_val list option" where
  "read_fields (k # ks) (x # xs) = do { v \<leftarrow> read_field k x; vs \<leftarrow> read_fields ks xs; Some (v # vs) }"
| "read_fields _ _ = Some []"

text \<open>Fields that are missing at the end of an entry keep what the caller's array held: the entry has
  fewer values.\<close>

definition parse_entry :: "field_kind list \<Rightarrow> string \<Rightarrow> field_val list option" where
  "parse_entry cfg s = do { em \<leftarrow> str_split 128 s (CHR '':''); read_fields cfg em }"

fun parse_each :: "field_kind list \<Rightarrow> string list \<Rightarrow> field_val list list option" where
  "parse_each cfg [] = Some []"
| "parse_each cfg (x # xs) = do { e \<leftarrow> parse_entry cfg x; es \<leftarrow> parse_each cfg xs; Some (e # es) }"

text \<open>The string is an argument of a line that strtok has taken apart to its end: of a null pointer it
  finds nothing more.\<close>

definition parse_entries :: "field_kind list \<Rightarrow> string option \<Rightarrow> field_val list list option" where
  "parse_entries cfg p = do { sp \<leftarrow> str_split 1024 (null_safe p) (CHR '',''); parse_each cfg sp }"

subsection \<open>Votes\<close>

record vote_info =
  vi_type :: int
  vi_name :: string
  vi_opt_count :: int
  vi_max_select :: int
  vi_options :: string

text \<open>strcpy into name[256] and options[1024].\<close>

definition get_vote_info_from_cmd :: "cmd \<Rightarrow> nat \<Rightarrow> vote_info option" where
  "get_vote_info_from_cmd c i =
     do { ty \<leftarrow> int_arg c i;
          name \<leftarrow> arg c (i + 1);
          ensure (length name < 256);
          n \<leftarrow> int_arg c (i + 2);
          m \<leftarrow> int_arg c (i + 3);
          opts \<leftarrow> arg c (i + 4);
          ensure (length opts < 1024);
          Some \<lparr>vi_type = ty, vi_name = name, vi_opt_count = n, vi_max_select = m, vi_options = opts\<rparr> }"

subsection \<open>The state of a device\<close>

record dev_info =
  di_id :: int
  di_client_version :: string
  di_user_id :: string
  di_user_name :: string
  di_user_gender :: int
  di_tag :: int
  di_sub :: int
  di_discuss_mode :: int
  di_discuss_num :: int
  di_discuss_name :: string
  di_discuss_nmembers :: int
  di_discuss_idlist :: "int list"
  di_discuss_userlist :: string
  di_discuss_chair :: int
  di_discuss_open :: int
  di_regist_start :: int
  di_regist_master :: int
  di_regist_mode :: int
  di_regist_reg :: int
  di_vote_num :: int
  di_vote_nmembers :: int
  di_vote_idlist :: "int list"
  di_vote_userlist :: string
  di_vote_master :: int
  di_vote_name :: string
  di_vote_type :: int
  di_vote_options :: string
  di_vote_total :: int
  di_vote_results :: "int list"
  di_vote_choice :: int

text \<open>strncpy into a field of n bytes, with a zero at its end.\<close>

definition info_str :: "nat \<Rightarrow> string \<Rightarrow> string" where
  "info_str n x = take (n - 1) x"

text \<open>The numbers written over the start of an array of n.\<close>

definition info_ints :: "nat \<Rightarrow> int list \<Rightarrow> int list \<Rightarrow> int list option" where
  "info_ints n xs old = (if length xs \<le> n then Some (xs @ drop (length xs) old) else None)"

text \<open>sub has room for one number; the ones that follow it in the struct are written by a longer list.\<close>

definition info_sub :: "int list \<Rightarrow> dev_info \<Rightarrow> dev_info option" where
  "info_sub xs d =
     (case xs of
        [] \<Rightarrow> Some d
      | [a] \<Rightarrow> Some (d\<lparr>di_sub := a\<rparr>)
      | [a, b] \<Rightarrow> Some (d\<lparr>di_sub := a, di_discuss_mode := b\<rparr>)
      | [a, b, e] \<Rightarrow> Some (d\<lparr>di_sub := a, di_discuss_mode := b, di_discuss_num := e\<rparr>)
      | _ \<Rightarrow> None)"

definition set_info :: "string \<Rightarrow> string \<Rightarrow> dev_info \<Rightarrow> dev_info option" where
  "set_info k v d =
     (if k = ''client_version'' then Some (d\<lparr>di_client_version := info_str 64 v\<rparr>)
      else if k = ''user_id'' then Some (d\<lparr>di_user_id := info_str 64 v\<rparr>)
      else if k = ''user_name'' then Some (d\<lparr>di_user_name := info_str 64 v\<rparr>)
      else if k = ''user_gender'' then Some (d\<lparr>di_user_gender := atoi v\<rparr>)
      else if k = ''tag'' then Some (d\<lparr>di_tag := atoi v\<rparr>)
      else if k = ''sub'' then info_sub (str_to_ints (Some v)) d
      else if k = ''discuss_mode'' then Some (d\<lparr>di_discuss_mode := atoi v\<rparr>)
      else if k = ''discuss_chair'' then Some (d\<lparr>di_discuss_chair := atoi v\<rparr>)
      else if k = ''discuss_num'' then Some (d\<lparr>di_discuss_num := atoi v\<rparr>)
      else if k = ''discuss_name'' then Some (d\<lparr>di_discuss_name := info_str 64 v\<rparr>)
      else if k = ''discuss_nmembers'' then Some (d\<lparr>di_discuss_nmembers := atoi v\<rparr>)
      else if k = ''discuss_idlist''
      then map_option (\<lambda>xs. d\<lparr>di_discuss_idlist := xs\<rparr>) (info_ints 1024 (str_to_ints (Some v)) (di_discuss_idlist d))
      else if k = ''discuss_userlist'' then Some (d\<lparr>di_discuss_userlist := info_str 10240 v\<rparr>)
      else if k = ''discuss_open'' then Some (d\<lparr>di_discuss_open := atoi v\<rparr>)
      else if k = ''regist_start'' then Some (d\<lparr>di_regist_start := atoi v\<rparr>)
      else if k = ''regist_master'' then Some (d\<lparr>di_regist_master := atoi v\<rparr>)
      else if k = ''regist_mode'' then Some (d\<lparr>di_regist_mode := atoi v\<rparr>)
      else if k = ''regist_reg'' then Some (d\<lparr>di_regist_reg := atoi v\<rparr>)
      else if k = ''vote_num'' then Some (d\<lparr>di_vote_num := atoi v\<rparr>)
      else if k = ''vote_nmembers'' then Some (d\<lparr>di_vote_nmembers := atoi v\<rparr>)
      else if k = ''vote_idlist''
      then map_option (\<lambda>xs. d\<lparr>di_vote_idlist := xs\<rparr>) (info_ints 1024 (str_to_ints (Some v)) (di_vote_idlist d))
      else if k = ''vote_userlist'' then Some (d\<lparr>di_vote_userlist := info_str 10240 v\<rparr>)
      else if k = ''vote_master'' then Some (d\<lparr>di_vote_master := atoi v\<rparr>)
      else if k = ''vote_name'' then Some (d\<lparr>di_vote_name := info_str 256 v\<rparr>)
      else if k = ''vote_type'' then Some (d\<lparr>di_vote_type := atoi v\<rparr>)
      else if k = ''vote_options'' then Some (d\<lparr>di_vote_options := info_str 1024 v\<rparr>)
      else if k = ''vote_total'' then Some (d\<lparr>di_vote_total := atoi v\<rparr>)
      else if k = ''vote_results''
      then map_option (\<lambda>xs. d\<lparr>di_vote_results := xs\<rparr>) (info_ints 40 (str_to_ints (Some v)) (di_vote_results d))
      else if k = ''vote_choice'' then Some (d\<lparr>di_vote_choice := atoi v\<rparr>)
      else Some d)"

definition info_keys :: "string list" where
  "info_keys = [''client_version'', ''user_id'', ''user_name'', ''user_gender'', ''tag'', ''sub'', ''discuss_mode'',
     ''discuss_chair'', ''discuss_num'', ''discuss_name'', ''discuss_nmembers'', ''discuss_idlist'', ''discuss_userlist'',
     ''discuss_open'', ''regist_start'', ''regist_master'', ''regist_mode'', ''regist_reg'', ''vote_num'',
     ''vote_nmembers'', ''vote_idlist'', ''vote_userlist'', ''vote_master'', ''vote_name'', ''vote_type'',
     ''vote_options'', ''vote_total'', ''vote_results'', ''vote_choice'']"

text \<open>The pointers in keyval survive from one entry to the next: an entry without a value takes the
  value of the one before, and one without anything its key too.\<close>

fun parse_infos :: "string list \<Rightarrow> string option \<times> string option \<Rightarrow> dev_info \<Rightarrow> dev_info option" where
  "parse_infos [] kv d = Some d"
| "parse_infos (x # xs) kv d =
     do { ws \<leftarrow> str_split 4 x (CHR ''='');
          let kv1 = (if ws = [] then fst kv else Some (ws ! 0), if length ws < 2 then snd kv else Some (ws ! 1));
          k \<leftarrow> fst kv1;
          d1 \<leftarrow> (case snd kv1 of Some v \<Rightarrow> set_info k v d | None \<Rightarrow> if k \<in> set info_keys then None else Some d);
          parse_infos xs kv1 d1 }"

definition parse_dev_info :: "int \<Rightarrow> string option \<Rightarrow> dev_info \<Rightarrow> dev_info option" where
  "parse_dev_info cid p d =
     do { es \<leftarrow> str_split 1000 (null_safe p) (CHR '':''); parse_infos es (None, None) (d\<lparr>di_id := cid\<rparr>) }"

subsection \<open>Lists of numbers survive\<close>

lemma comma_not_digit: "c \<in> set (num_str i) \<Longrightarrow> c \<noteq> CHR '',''"
  using num_str_no_comma by blast

lemma tokens_one: "w \<noteq> [] \<Longrightarrow> \<forall>c \<in> set w. \<not> sep c \<Longrightarrow> tokens sep w = [w]"
proof -
  have "strtok sep acc w = [rev acc @ w]" if "acc \<noteq> [] \<or> w \<noteq> []" "\<forall>c \<in> set w. \<not> sep c" for acc
    using that by (induction w arbitrary: acc) auto
  then show "w \<noteq> [] \<Longrightarrow> \<forall>c \<in> set w. \<not> sep c \<Longrightarrow> tokens sep w = [w]" by (simp add: tokens_def)
qed

lemma tokens_num_list: "tokens (\<lambda>c. c = CHR '','') (num_list ns) = map num_str ns"
proof (induction ns)
  case Nil
  then show ?case by (simp add: num_list_Nil_iff [THEN iffD2] tokens_Nil)
next
  case (Cons n ns)
  show ?case
  proof (cases "ns = []")
    case True
    then show ?thesis
      using tokens_one [of "num_str n" "\<lambda>c. c = CHR '',''"] comma_not_digit
      by (auto simp: num_list_Cons num_str_nonempty)
  next
    case False
    then obtain m ms where ns: "ns = m # ms" by (cases ns) auto
    have "num_list (n # ns) = num_str n @ CHR '','' # num_list ns" by (simp add: ns num_list_Cons)
    moreover have "\<forall>c \<in> set (num_str n). c \<noteq> CHR '',''" using comma_not_digit by blast
    ultimately show ?thesis
      using tokens_piece [of "num_str n" "\<lambda>c. c = CHR '',''" "CHR '',''" "num_list ns"] Cons
      by (simp add: num_str_nonempty)
  qed
qed

lemma str_to_ints_num_list: "str_to_ints (Some (num_list ns)) = ns"
  by (simp add: str_to_ints_def tokens_num_list comp_def atoi_num_str)

end
