(* ===== verification/Client.thy ===== *)
theory Client
  imports Client_Text Receiving Cfifo Sha
begin

text \<open>
  The state of the client library (client/client.c): its static variables, the options, the start-up
  and the switches that only set them. What the library sends and the events it raises are appended
  to a trace. A packet is a struct pack of include/pack.h with the values in host order; up_data is
  the memory from data on, at least as long as the packet says.
\<close>

subsection \<open>Packets\<close>

record upack =
  up_id :: "32 word"
  up_seq :: "32 word"
  up_type :: int
  up_tag :: int
  up_datalen :: nat
  up_data :: "byte list"

definition PACK_HEAD_LEN :: nat where "PACK_HEAD_LEN = 12"

definition pack_size :: "upack \<Rightarrow> nat" where
  "pack_size p = PACK_HEAD_LEN + up_datalen p"

text \<open>memcpy of pack_size bytes of p over the packet that is in the memory q.\<close>

definition copy_pack :: "upack \<Rightarrow> upack \<Rightarrow> upack" where
  "copy_pack p q = p\<lparr>up_data := take (up_datalen p) (up_data p) @ drop (up_datalen p) (up_data q)\<rparr>"

definition pack_bytes :: "upack \<Rightarrow> byte list" where
  "pack_bytes p = take (up_datalen p) (up_data p)"

definition PACKET_MIC_OP :: int where "PACKET_MIC_OP = 8"

subsection \<open>Events and what is sent\<close>

datatype event =
    EvAudio int int "byte list" \<comment> \<open>tag, type, data\<close>
  | EvRegOk int "dev_info option"
  | EvNeedReg
  | EvRegistStart int
  | EvRegistStop int int
  | EvDiscSetmode int
  | EvDiscOpen int "string option"
  | EvDiscClose
  | EvDiscStop
  | EvDiscForbid int
  | EvDiscForbidall int
  | EvDiscKick
  | EvDiscDemand int
  | EvInterpMode int
  | EvVoteStart int vote_info
  | EvVoteShowresult int "int list"
  | EvVoteStop
  | EvVoteRemind int int
  | EvMsg int string
  | EvBroadcastMsg int string
  | EvFile "byte list"
  | EvPtc "string option"
  | EvSysconfig int "string option"
  | EvSetUid "string option"
  | EvChairCtl int
  | EvVideo "byte list"
  | EvUpgrade "string option"
  | EvType2 "byte list"
  | EvAudioRaw upack

type_synonym sock_addr = "32 word \<times> int"

datatype cl_out =
    Event event
  | UdpTo sock_addr upack nat \<comment> \<open>address, packet, length sent\<close>
  | UdpMcast int upack nat
  | UdpBroadcast upack nat
  | AudioConn upack nat
  | RbBroadcast int "byte list" int
  | RbRecvTag int
  | RbInitSend
  | RbInitRecv
  | JoinTag int
  | QuitTag int
  | StartTcp int bool
  | StartUdp int bool bool
  | StartHeartbeat
  | ConnectAudio sock_addr int
  | CyclicControl int
  | SetClock int int

subsection \<open>Recently seen numbers\<close>

record recent =
  rc_seqs :: "32 word list"
  rc_pos :: nat

definition recent_init :: "nat \<Rightarrow> recent" where
  "recent_init n = \<lparr>rc_seqs = replicate n 0, rc_pos = 0\<rparr>"

text \<open>The loop visits every entry once, and the size is a power of two, so that the mask is mod.\<close>

definition recent_test :: "32 word \<Rightarrow> recent \<Rightarrow> bool \<times> recent" where
  "recent_test q R =
     (let n = length (rc_seqs R)
      in if list_ex (\<lambda>i. q = rc_seqs R ! ((rc_pos R + n - i) mod n)) [0..<n] then (True, R)
         else (let p = (rc_pos R + 1) mod n in (False, \<lparr>rc_seqs = (rc_seqs R)[p := q], rc_pos = p\<rparr>)))"

subsection \<open>The state\<close>

record client_opts =
  co_use_udp :: int
  co_retransmit :: int
  co_zero_compr :: int
  co_direct_mix :: int
  co_rbudp_send :: int
  co_rbudp_recv :: int
  co_send_ucast :: int
  co_mcast_send :: int
  co_mcast_recv :: int
  co_raw_pack :: int
  co_slave_send :: int

definition default_opts :: client_opts where
  "default_opts = \<lparr>co_use_udp = 1, co_retransmit = 0, co_zero_compr = 0, co_direct_mix = 0, co_rbudp_send = 0,
     co_rbudp_recv = 0, co_send_ucast = 0, co_mcast_send = 0, co_mcast_recv = 0, co_raw_pack = 0, co_slave_send = 0\<rparr>"

text \<open>The queue of one device that is mixed here (struct pack_queue of client/mix.c).\<close>

record mix_queue =
  mq_dev :: int
  mq_recent :: recent
  mq_fifo :: "upack cfifo"

record client =
  cl_id :: int
  cl_devtype :: int
  cl_reged :: bool
  cl_serv :: "32 word"
  cl_listen :: int
  cl_net_mixer :: "sock_addr option" \<comment> \<open>None while sin_family is 0\<close>
  cl_ucast :: "sock_addr option"
  cl_mcast :: "int option" \<comment> \<open>the tag whose multicast address is sent to\<close>
  cl_opts :: client_opts
  cl_tag :: int
  cl_sub0 :: int
  cl_sub1 :: int
  cl_rep0 :: int
  cl_rep1 :: int
  cl_br_addr :: string
  cl_bcast_audio :: bool
  cl_ucast_audio :: bool
  cl_mix_cast :: bool
  cl_send_repeat :: int
  cl_audio_type :: int
  cl_id_and_atype :: "32 word"
  cl_mic_open :: bool
  cl_master_seq :: "32 word"
  cl_qseq :: "32 word"
  cl_recent :: recent
  cl_recent_ucmd :: recent
  cl_wait :: "upack cfifo"
  cl_rcv :: "upack cfifo"
  cl_expect :: "32 word"
  cl_prev :: "32 word"
  cl_fseq :: int \<comment> \<open>number of the frame sent last\<close>
  cl_frame :: "byte list" \<comment> \<open>the frame being received, as long as its memory\<close>
  cl_frame_len :: int
  cl_frame_seq :: int
  cl_file :: "byte list"
  cl_conn :: int \<comment> \<open>the socket of the connection being read\<close>
  cl_queues :: "mix_queue list"
  cl_dev_count :: int
  cl_auto_close :: int
  cl_fast_fwd :: bool
  cl_out :: "cl_out list"

definition client_emit :: "cl_out \<Rightarrow> client \<Rightarrow> client" where
  "client_emit e c = c\<lparr>cl_out := cl_out c @ [e]\<rparr>"

definition raise :: "event \<Rightarrow> client \<Rightarrow> client" where
  "raise e c = client_emit (Event e) c"

lemma client_emit_out [simp]: "cl_out (client_emit e c) = cl_out c @ [e]" "cl_out (raise ev c) = cl_out c @ [Event ev]"
  by (simp_all add: client_emit_def raise_def)

lemma client_emit_frame [simp]:
  "cl_id (client_emit e c) = cl_id c" "cl_reged (client_emit e c) = cl_reged c" "cl_opts (client_emit e c) = cl_opts c"
  "cl_tag (client_emit e c) = cl_tag c" "cl_sub0 (client_emit e c) = cl_sub0 c" "cl_sub1 (client_emit e c) = cl_sub1 c"
  "cl_rep0 (client_emit e c) = cl_rep0 c" "cl_rep1 (client_emit e c) = cl_rep1 c"
  "cl_mic_open (client_emit e c) = cl_mic_open c" "cl_recent_ucmd (client_emit e c) = cl_recent_ucmd c"
  "cl_net_mixer (client_emit e c) = cl_net_mixer c" "cl_frame (client_emit e c) = cl_frame c"
  "cl_frame_len (client_emit e c) = cl_frame_len c" "cl_frame_seq (client_emit e c) = cl_frame_seq c"
  "cl_conn (client_emit e c) = cl_conn c" "cl_file (client_emit e c) = cl_file c"
  "cl_expect (client_emit e c) = cl_expect c" "cl_wait (client_emit e c) = cl_wait c"
  "cl_rcv (client_emit e c) = cl_rcv c" "cl_prev (client_emit e c) = cl_prev c"
  "cl_recent (client_emit e c) = cl_recent c" "cl_fseq (client_emit e c) = cl_fseq c"
  "cl_serv (client_emit e c) = cl_serv c"
  by (simp_all add: client_emit_def)

lemma raise_frame [simp]:
  "cl_id (raise e c) = cl_id c" "cl_reged (raise e c) = cl_reged c" "cl_opts (raise e c) = cl_opts c"
  "cl_tag (raise e c) = cl_tag c" "cl_sub0 (raise e c) = cl_sub0 c" "cl_sub1 (raise e c) = cl_sub1 c"
  "cl_rep0 (raise e c) = cl_rep0 c" "cl_rep1 (raise e c) = cl_rep1 c"
  "cl_mic_open (raise e c) = cl_mic_open c" "cl_recent_ucmd (raise e c) = cl_recent_ucmd c"
  "cl_net_mixer (raise e c) = cl_net_mixer c" "cl_frame (raise e c) = cl_frame c"
  "cl_frame_len (raise e c) = cl_frame_len c" "cl_frame_seq (raise e c) = cl_frame_seq c"
  "cl_conn (raise e c) = cl_conn c" "cl_file (raise e c) = cl_file c"
  by (simp_all add: raise_def)

subsection \<open>Options and start\<close>

text \<open>The case of OPT_AUDIO_SEND_UCAST goes on into the next one.\<close>

definition set_option :: "int \<Rightarrow> int \<Rightarrow> client_opts \<Rightarrow> client_opts" where
  "set_option opt v Op =
     (if opt = 0 then Op\<lparr>co_use_udp := v\<rparr>
      else if opt = 1 then Op\<lparr>co_retransmit := v\<rparr>
      else if opt = 2 then Op\<lparr>co_zero_compr := v\<rparr>
      else if opt = 3 then Op\<lparr>co_direct_mix := v\<rparr>
      else if opt = 4 then Op\<lparr>co_rbudp_send := v\<rparr>
      else if opt = 5 then Op\<lparr>co_rbudp_recv := v\<rparr>
      else if opt = 6 then Op\<lparr>co_send_ucast := v, co_mcast_send := v\<rparr>
      else if opt = 7 then Op\<lparr>co_mcast_send := v\<rparr>
      else if opt = 8 then Op\<lparr>co_mcast_recv := v\<rparr>
      else if opt = 9 then Op\<lparr>co_raw_pack := v\<rparr>
      else if opt = 10 then Op\<lparr>co_slave_send := v\<rparr>
      else Op)"

definition set_send_repeat :: "int \<Rightarrow> client \<Rightarrow> client" where
  "set_send_repeat v c = c\<lparr>cl_send_repeat := v\<rparr>"

definition SERVER_PORT :: int where "SERVER_PORT = 7650"
definition AUDIO_PORT :: int where "AUDIO_PORT = 7670"

text \<open>parse_sockaddr_in of client/net.c: the address up to the first colon and the port behind it.\<close>

definition parse_sockaddr :: "string \<Rightarrow> sock_addr" where
  "parse_sockaddr x =
     (case dropWhile (\<lambda>ch. ch \<noteq> CHR '':'') x of
        [] \<Rightarrow> (inet_addr x, 0)
      | _ # p \<Rightarrow> (inet_addr (takeWhile (\<lambda>ch. ch \<noteq> CHR '':'') x), atoi p mod 65536))"

definition set_ucast_dest :: "string \<Rightarrow> client \<Rightarrow> client" where
  "set_ucast_dest x c =
     (let (a, p) = parse_sockaddr x in c\<lparr>cl_ucast := Some (a, if p = 0 then AUDIO_PORT else p)\<rparr>)"

definition set_send_audio_type :: "int \<Rightarrow> client \<Rightarrow> client" where
  "set_send_audio_type ty c =
     c\<lparr>cl_audio_type := ty, cl_id_and_atype := word_of_int (cl_id c) OR push_bit 24 (word_of_int ty)\<rparr>"

definition DEVTYPE_NETPLAY :: int where "DEVTYPE_NETPLAY = 222"
definition DEVTYPE_BCAST_AUDIO :: int where "DEVTYPE_BCAST_AUDIO = 223"
definition DEVTYPE_MIX_CAST :: int where "DEVTYPE_MIX_CAST = 225"

text \<open>A tag byte of a device id.\<close>

definition id_byte :: "nat \<Rightarrow> int \<Rightarrow> int" where
  "id_byte n i = uint (drop_bit n (word_of_int i :: 32 word) AND 255)"

definition init_mode :: "int \<Rightarrow> int \<Rightarrow> client \<Rightarrow> client" where
  "init_mode ty did c =
     (if ty = DEVTYPE_NETPLAY then c\<lparr>cl_sub0 := id_byte 16 did\<rparr>
      else if ty = DEVTYPE_BCAST_AUDIO
      then c\<lparr>cl_bcast_audio := True, cl_tag := (if id_byte 0 did = 0 then 1 else id_byte 0 did)\<rparr>
      else if ty = DEVTYPE_UCAST_AUDIO then c\<lparr>cl_ucast_audio := True\<rparr>
      else if ty = DEVTYPE_MIX_CAST then c\<lparr>cl_mix_cast := True, cl_tag := id_byte 0 did\<rparr>
      else c)"

text \<open>mem stands for what malloc and the static memory hold, br for the network's broadcast address.\<close>

definition mix_audio_init :: "(32 word \<Rightarrow> upack) \<Rightarrow> client \<Rightarrow> client" where
  "mix_audio_init mem c =
     c\<lparr>cl_queues := map (\<lambda>q. q\<lparr>mq_dev := 0, mq_fifo := cfifo_init mem 5 11\<rparr>) (cl_queues c), cl_dev_count := 0\<rparr>"

definition emit_if :: "bool \<Rightarrow> cl_out \<Rightarrow> client \<Rightarrow> client" where
  "emit_if b e c = (if b then client_emit e c else c)"

definition init_listen :: "bool \<Rightarrow> client \<Rightarrow> client" where
  "init_listen netplay c =
     (let recv_br = \<not> (netplay \<or> cl_ucast_audio c \<or> cl_mix_cast c);
          recv_file = \<not> (cl_ucast_audio c \<or> cl_mix_cast c)
      in emit_if (\<not> cl_bcast_audio c) (StartUdp (cl_listen c) recv_br (co_mcast_recv (cl_opts c) \<noteq> 0))
           (emit_if (\<not> (netplay \<or> cl_bcast_audio c \<or> cl_mix_cast c)) (StartTcp (cl_listen c) recv_file) c))"

definition init_audio :: "client \<Rightarrow> client" where
  "init_audio c =
     (let Op = cl_opts c;
          c1 = (if co_send_ucast Op \<noteq> 0 \<and> cl_ucast c = None
                then c\<lparr>cl_ucast := Some (inet_addr ''192.168.1.82'', uint (0x8200 OR (word_of_int (cl_tag c) :: 16 word)))\<rparr> else c);
          c2 = emit_if (co_rbudp_send Op \<noteq> 0) RbInitSend c1;
          c3 = (if co_rbudp_recv Op \<noteq> 0 \<and> \<not> cl_bcast_audio c
                then client_emit (RbRecvTag 0) (client_emit RbInitRecv c2) else c2)
      in if co_mcast_send Op \<noteq> 0 then c3\<lparr>cl_mcast := Some (cl_tag c)\<rparr> else c3)"

definition client_init ::
  "(32 word \<Rightarrow> upack) \<Rightarrow> string option \<Rightarrow> int \<Rightarrow> int \<Rightarrow> string \<Rightarrow> int \<Rightarrow> client \<Rightarrow> client" where
  "client_init mem br did ty serv port c =
     (let c1 = c\<lparr>cl_id := did, cl_devtype := ty, cl_br_addr := (case br of None \<Rightarrow> ''none'' | Some b \<Rightarrow> b),
                 cl_serv := inet_addr serv, cl_listen := port, cl_net_mixer := None\<rparr>
      in if ty = DEVTYPE_NONE then c1
         else (let netplay = (ty = DEVTYPE_NETPLAY);
                   c2 = init_audio (init_listen netplay (init_mode ty did c1));
                   c3 = c2\<lparr>cl_rcv := cfifo_init mem 8 11\<rparr>;
                   c4 = emit_if (\<not> (netplay \<or> cl_bcast_audio c3)) StartHeartbeat c3;
                   c5 = (if co_direct_mix (cl_opts c4) \<noteq> 0 then mix_audio_init mem c4 else c4)
               in set_send_audio_type (cl_audio_type c5) c5))"

text \<open>The static variables before client_init.\<close>

definition client_start :: "(32 word \<Rightarrow> upack) \<Rightarrow> client" where
  "client_start mem =
     \<lparr>cl_id = 0, cl_devtype = 0, cl_reged = False, cl_serv = 0, cl_listen = 0, cl_net_mixer = None, cl_ucast = None,
      cl_mcast = None, cl_opts = default_opts, cl_tag = 0, cl_sub0 = 0, cl_sub1 = 0, cl_rep0 = 0, cl_rep1 = 0,
      cl_br_addr = [], cl_bcast_audio = False, cl_ucast_audio = False, cl_mix_cast = False, cl_send_repeat = 1,
      cl_audio_type = 0, cl_id_and_atype = 0, cl_mic_open = False, cl_master_seq = 0, cl_qseq = 0,
      cl_recent = recent_init 8, cl_recent_ucmd = recent_init 8, cl_wait = cfifo_init mem 2 11,
      cl_rcv = \<lparr>cf_in = 0, cf_out = 0, cf_mask = 0, cf_eord = 0, cf_data = mem\<rparr>, cl_expect = 0, cl_prev = 0,
      cl_fseq = 0, cl_frame = [], cl_frame_len = 0, cl_frame_seq = -1, cl_file = [], cl_conn = 0,
      cl_queues = replicate 8 \<lparr>mq_dev = 0, mq_recent = recent_init 4, mq_fifo = cfifo_init mem 5 11\<rparr>,
      cl_dev_count = 0, cl_auto_close = 0, cl_fast_fwd = False, cl_out = []\<rparr>"

subsection \<open>The microphone\<close>

definition do_open_mic :: "client \<Rightarrow> client" where
  "do_open_mic c = c\<lparr>cl_mic_open := True\<rparr>"

definition mic_op_pack :: "client \<Rightarrow> upack" where
  "mic_op_pack c =
     \<lparr>up_id = word_of_int (cl_id c), up_seq = 0, up_type = PACKET_MIC_OP, up_tag = cl_tag c mod 256, up_datalen = 0, up_data = []\<rparr>"

definition do_close_mic :: "client \<Rightarrow> client" where
  "do_close_mic c =
     emit_if (co_direct_mix (cl_opts c) \<noteq> 0) (UdpBroadcast (mic_op_pack c) PACK_HEAD_LEN) (c\<lparr>cl_mic_open := False\<rparr>)"

text \<open>The tag of a heartbeat is not set: j is what the memory holds.\<close>

definition hbeat_pack :: "int \<Rightarrow> client \<Rightarrow> upack" where
  "hbeat_pack j c =
     \<lparr>up_id = word_of_int (cl_id c), up_seq = 0, up_type = PACKET_HBEAT, up_tag = j, up_datalen = 0, up_data = []\<rparr>"

text \<open>One turn of run_heartbeat.\<close>

definition send_heartbeat :: "int \<Rightarrow> client \<Rightarrow> client" where
  "send_heartbeat j c = client_emit (UdpTo (cl_serv c, SERVER_PORT) (hbeat_pack j c) PACK_HEAD_LEN) c"

end
