(* ===== verification/Client_Mix.thy ===== *)
theory Client_Mix
  imports Client Audio_Stream Pcm
begin

text \<open>
  Mixing at the client (client/mix.c), when audio is broadcast directly: the packets of each device
  go into one of eight queues, and a packet is mixed from the fronts when every queue in use has
  one. The memory of a slot of a queue is 2048 bytes.
\<close>

definition first_index :: "('a \<Rightarrow> bool) \<Rightarrow> 'a list \<Rightarrow> nat option" where
  "first_index P xs = (let n = length (takeWhile (\<lambda>x. \<not> P x) xs) in if n < length xs then Some n else None)"

definition upd_queue :: "nat \<Rightarrow> (mix_queue \<Rightarrow> mix_queue) \<Rightarrow> client \<Rightarrow> client" where
  "upd_queue i f c = c\<lparr>cl_queues := (cl_queues c)[i := f (cl_queues c ! i)]\<rparr>"

definition get_queue_index :: "int \<Rightarrow> bool \<Rightarrow> client \<Rightarrow> nat option \<times> client" where
  "get_queue_index d new c =
     (if d = 0 then (None, c)
      else (case first_index (\<lambda>q. mq_dev q = d) (cl_queues c) of
              Some i \<Rightarrow> (Some i, c)
            | None \<Rightarrow>
                (case first_index (\<lambda>q. mq_dev q = 0) (cl_queues c) of
                   None \<Rightarrow> (None, c)
                 | Some i \<Rightarrow>
                     if \<not> new then (None, c)
                     else (Some i, (upd_queue i (\<lambda>q. q\<lparr>mq_dev := d\<rparr>) c)\<lparr>cl_dev_count := cl_dev_count c + 1\<rparr>))))"

definition remove_queue :: "nat \<Rightarrow> client \<Rightarrow> client" where
  "remove_queue i c =
     (upd_queue i (\<lambda>q. q\<lparr>mq_dev := 0, mq_fifo := cfifo_clear (mq_fifo q)\<rparr>) c)\<lparr>cl_dev_count := cl_dev_count c - 1\<rparr>"

definition mix_audio_auto_close :: "int \<Rightarrow> client \<Rightarrow> client" where
  "mix_audio_auto_close n c = c\<lparr>cl_auto_close := n\<rparr>"

definition mix_audio_open :: "int \<Rightarrow> client \<Rightarrow> client" where
  "mix_audio_open d c = snd (get_queue_index d True c)"

definition mix_audio_close :: "int \<Rightarrow> client \<Rightarrow> client" where
  "mix_audio_close d c = (case get_queue_index d False c of (None, c1) \<Rightarrow> c1 | (Some i, c1) \<Rightarrow> remove_queue i c1)"

text \<open>All packets but the last are dropped.\<close>

definition flush_queue :: "mix_queue \<Rightarrow> mix_queue" where
  "flush_queue q = q\<lparr>mq_fifo := (cfifo__out ^^ nat (cfifo_len (mq_fifo q) - 1)) (mq_fifo q)\<rparr>"

definition cleanup_queue :: "nat \<Rightarrow> client \<Rightarrow> client" where
  "cleanup_queue i c =
     (let q = cl_queues c ! i
      in if mq_dev q = 0 then c
         else if cfifo_empty (mq_fifo q) then remove_queue i c
         else upd_queue i (\<lambda>q. q\<lparr>mq_fifo := cfifo_clear (mq_fifo q)\<rparr>) c)"

definition cleanup_queues :: "client \<Rightarrow> client" where
  "cleanup_queues c = fold cleanup_queue [0..<8] c"

definition mix_is_recved :: "nat \<Rightarrow> 32 word \<Rightarrow> client \<Rightarrow> bool \<times> client" where
  "mix_is_recved i sq c =
     (let (seen, R) = recent_test sq (mq_recent (cl_queues c ! i)) in (seen, upd_queue i (\<lambda>q. q\<lparr>mq_recent := R\<rparr>) c))"

definition SLOT_SIZE :: nat where "SLOT_SIZE = 2048"

definition put_slot :: "upack \<Rightarrow> upack cfifo \<Rightarrow> upack cfifo option" where
  "put_slot p f =
     do { ensure (pack_size p \<le> SLOT_SIZE);
          Some (cfifo__in (cfifo_store (cfifo_get_in f) (copy_pack p (cfifo_fetch (cfifo_get_in f) f)) f)) }"

text \<open>The result -1, 0 or 1: an error, no need to mix, put into the queue.\<close>

definition put_mix_audio :: "upack \<Rightarrow> client \<Rightarrow> (int \<times> client) option" where
  "put_mix_audio p c =
     (case get_queue_index (uint (up_id p AND 0xFFFFFF)) True c of
        (None, c1) \<Rightarrow> Some (-1, c1)
      | (Some i, c1) \<Rightarrow>
          (let (seen, c2) = mix_is_recved i (up_seq p) c1
           in if seen then Some (-1, c2)
              else if cl_dev_count c2 \<le> 1 then Some (0, c2)
              else if cfifo_full (mq_fifo (cl_queues c2 ! i)) then Some (-1, cleanup_queues c2)
              else do { f \<leftarrow> put_slot p (mq_fifo (cl_queues c2 ! i));
                        let c3 = upd_queue i (\<lambda>q. q\<lparr>mq_fifo := f\<rparr>) c2;
                        Some (1, if cl_auto_close c3 > 0 \<and> cfifo_len f \<ge> cl_auto_close c3
                                 then (cleanup_queues c3)\<lparr>cl_fast_fwd := True\<rparr> else c3) }))"

text \<open>Taking the front of each queue in use; the list is of the queues and the slots taken.\<close>

fun take_fronts :: "nat list \<Rightarrow> client \<Rightarrow> (nat \<times> 32 word) list \<times> client" where
  "take_fronts [] c = ([], c)"
| "take_fronts (i # is') c =
     (if mq_dev (cl_queues c ! i) = 0 then take_fronts is' c
      else (let c1 = (if \<not> cl_fast_fwd c \<and> cfifo_len (mq_fifo (cl_queues c ! i)) > 4 then upd_queue i flush_queue c else c);
                f = mq_fifo (cl_queues c1 ! i);
                (ps, c2) = take_fronts is' (upd_queue i (\<lambda>q. q\<lparr>mq_fifo := cfifo__out f\<rparr>) c1)
            in ((i, cfifo_get_out f) # ps, c2)))"

definition slot_pack :: "client \<Rightarrow> nat \<times> 32 word \<Rightarrow> upack" where
  "slot_pack c s = cfifo_fetch (snd s) (mq_fifo (cl_queues c ! fst s))"

definition sample_bytes :: "16 word list \<Rightarrow> byte list" where
  "sample_bytes xs = concat (map (\<lambda>x. [ucast x, ucast (drop_bit 8 x)]) xs)"

text \<open>The mixed samples replace the start of the first packet, in its slot.\<close>

definition mix_slots :: "(nat \<times> 32 word) list \<Rightarrow> client \<Rightarrow> (upack \<times> client) option" where
  "mix_slots ps c =
     (let s0 = hd ps; p0 = slot_pack c s0; n = up_datalen p0 div 2
      in do { xs \<leftarrow> pcm_mix (map (\<lambda>s. samples (up_data (slot_pack c s))) ps) n;
              let p1 = p0\<lparr>up_data := sample_bytes (take n xs) @ drop (2 * n) (up_data p0)\<rparr>;
              Some (p1, upd_queue (fst s0) (\<lambda>q. q\<lparr>mq_fifo := cfifo_store (snd s0) p1 (mq_fifo q)\<rparr>) c) })"

definition get_mix_audio :: "client \<Rightarrow> (upack option \<times> client) option" where
  "get_mix_audio c =
     (if cl_dev_count c = 0 then Some (None, c)
      else if \<exists>q \<in> set (cl_queues c). mq_dev q \<noteq> 0 \<and> cfifo_empty (mq_fifo q)
      then Some (None, c\<lparr>cl_fast_fwd := False\<rparr>)
      else (case take_fronts [0..<8] c of
              ([], c1) \<Rightarrow> Some (None, c1)
            | ([s], c1) \<Rightarrow> Some (Some (slot_pack c1 s), c1)
            | (ps, c1) \<Rightarrow> do { (p, c2) \<leftarrow> mix_slots ps c1; Some (Some p, c2) }))"

end
