(* ===== verification/Client_Cmds.thy ===== *)
theory Client_Cmds
  imports Client Requests
begin

text \<open>
  The commands of the client library (client/client.c): each writes a line, sends it to the server
  and reads the reply. The network is a function from the line to what send_tcp returns and the
  reply it leaves in the buffer (see Client_Net). A function that returns an error code e is Inl e;
  one that returns 0 and fills in its results is Inr of them.
\<close>

subsection \<open>Sending a line\<close>

type_synonym tcp = "string \<Rightarrow> int \<times> string"

type_synonym 'a result = "((int + 'a) \<times> client) option"

definition no_cmd :: cmd where
  "no_cmd = \<lparr>c_dev = 0, c_cmd = [], c_args = [], c_addr = (0, 0), c_rep = [], c_sock = 0\<rparr>"

definition c_string :: "string \<Rightarrow> string" where
  "c_string x = takeWhile (\<lambda>ch. ch \<noteq> CHR 0x00) x"

text \<open>__SEND_CMD. A reply FAIL 0 counts as success and leaves the command as it was on the stack.\<close>

definition send_line :: "tcp \<Rightarrow> string \<Rightarrow> client \<Rightarrow> cmd result" where
  "send_line net buf c =
     (let (l, rep) = net buf
      in if l > 0
         then (if rep \<noteq> [] \<and> hd rep = CHR 0x02 then Some (Inl 0, raise (EvType2 (to_bytes rep)) c)
               else do { (e, m) \<leftarrow> parse_cmd (c_string rep) no_cmd;
                         if e \<noteq> 0 then Some (Inl e, if e = ERR_NOT_REG then raise EvNeedReg c else c)
                         else do { ensure (c_cmd m \<noteq> []); Some (Inr m, c) } })
         else if l = -2 then Some (Inl (-2), raise EvNeedReg c)
         else Some (Inl (-1), c))"

definition call :: "tcp \<Rightarrow> string \<Rightarrow> (cmd \<Rightarrow> client \<Rightarrow> ('a \<times> client) option) \<Rightarrow> client \<Rightarrow> 'a result" where
  "call net buf k c =
     do { ensure (length buf < BUFLEN);
          (r, c1) \<leftarrow> send_line net buf c;
          (case r of Inl e \<Rightarrow> Some (Inl e, c1) | Inr m \<Rightarrow> do { (a, c2) \<leftarrow> k m c1; Some (Inr a, c2) }) }"

definition line_of :: "client \<Rightarrow> string list \<Rightarrow> string" where
  "line_of c ws = cmd_line (num_str (cl_id c) # ws)"

definition simple_call :: "tcp \<Rightarrow> string list \<Rightarrow> client \<Rightarrow> unit result" where
  "simple_call net ws c = call net (line_of c ws) (\<lambda>m c. Some ((), c)) c"

text \<open>The buffer of send_cmd is the caller's. The result is the place of OK and the reply.\<close>

definition client_send_cmd :: "tcp \<Rightarrow> string \<Rightarrow> client \<Rightarrow> (nat \<times> cmd) result" where
  "client_send_cmd net buf c = call net buf (\<lambda>m c. Some ((find_ok m, m), c)) c"

text \<open>The argument n places behind OK: its text, its number, or the pointer.\<close>

definition ok_arg :: "cmd \<Rightarrow> nat \<Rightarrow> string option" where
  "ok_arg m n = arg m (find_ok m + n)"

definition ok_int :: "cmd \<Rightarrow> nat \<Rightarrow> int option" where
  "ok_int m n = int_arg m (find_ok m + n)"

definition ok_ptr :: "cmd \<Rightarrow> nat \<Rightarrow> string option option" where
  "ok_ptr m n = arg_ptr m (find_ok m + n)"

subsection \<open>Commands without results\<close>

definition client_report_cyc_ctl :: "tcp \<Rightarrow> client \<Rightarrow> unit result" where
  "client_report_cyc_ctl net c = simple_call net [''report_cyc_ctl''] c"

definition client_regist_start :: "tcp \<Rightarrow> int \<Rightarrow> client \<Rightarrow> unit result" where
  "client_regist_start net mode c = simple_call net [''regist'', ''start'', num_str mode] c"

definition client_discctrl_set_mode :: "tcp \<Rightarrow> int \<Rightarrow> client \<Rightarrow> unit result" where
  "client_discctrl_set_mode net mode c = simple_call net [''discctrl'', ''setmode'', num_str mode] c"

definition client_discctrl_set_maxuser :: "tcp \<Rightarrow> int \<Rightarrow> client \<Rightarrow> unit result" where
  "client_discctrl_set_maxuser net mx c = simple_call net [''discctrl'', ''set_maxuser'', num_str mx] c"

definition client_discctrl_close :: "tcp \<Rightarrow> client \<Rightarrow> unit result" where
  "client_discctrl_close net c = simple_call net [''discctrl'', ''close''] c"

definition client_discctrl_stop :: "tcp \<Rightarrow> client \<Rightarrow> unit result" where
  "client_discctrl_stop net c = simple_call net [''discctrl'', ''stop''] c"

definition client_discctrl_forbid :: "tcp \<Rightarrow> int \<Rightarrow> client \<Rightarrow> unit result" where
  "client_discctrl_forbid net did c = simple_call net [''discctrl'', ''forbid'', num_str did] c"

definition client_discctrl_disable_all :: "tcp \<Rightarrow> int \<Rightarrow> client \<Rightarrow> unit result" where
  "client_discctrl_disable_all net flag c = simple_call net [''discctrl'', ''disableall'', num_str flag] c"

definition client_interp_set_mode :: "tcp \<Rightarrow> int \<Rightarrow> client \<Rightarrow> unit result" where
  "client_interp_set_mode net mode c = simple_call net [''interp'', ''set_mode'', num_str mode] c"

definition client_votectrl_result :: "tcp \<Rightarrow> int \<Rightarrow> string \<Rightarrow> client \<Rightarrow> unit result" where
  "client_votectrl_result net vn results c = simple_call net [''votectrl'', ''result'', num_str vn, results] c"

definition client_votectrl_stop :: "tcp \<Rightarrow> client \<Rightarrow> unit result" where
  "client_votectrl_stop net c = simple_call net [''votectrl'', ''stop''] c"

definition client_votectrl_remind :: "tcp \<Rightarrow> int \<Rightarrow> client \<Rightarrow> unit result" where
  "client_votectrl_remind net did c = simple_call net [''votectrl'', ''remind'', num_str did] c"

definition client_votectrl_forbid :: "tcp \<Rightarrow> int \<Rightarrow> int \<Rightarrow> client \<Rightarrow> unit result" where
  "client_votectrl_forbid net did flag c = simple_call net [''votectrl'', ''forbid'', num_str did, num_str flag] c"

definition client_servicecall :: "tcp \<Rightarrow> int \<Rightarrow> client \<Rightarrow> unit result" where
  "client_servicecall net request c = simple_call net [''servicecall'', num_str request] c"

definition client_server_user_login :: "tcp \<Rightarrow> string \<Rightarrow> string \<Rightarrow> client \<Rightarrow> unit result" where
  "client_server_user_login net user pswd c = simple_call net [''server_user'', ''login'', user, pswd] c"

definition client_server_user_change_passwd :: "tcp \<Rightarrow> string \<Rightarrow> string \<Rightarrow> client \<Rightarrow> unit result" where
  "client_server_user_change_passwd net user pswd c = simple_call net [''server_user'', ''passwd'', user, pswd] c"

definition client_sysconfig :: "tcp \<Rightarrow> int \<Rightarrow> string \<Rightarrow> client \<Rightarrow> unit result" where
  "client_sysconfig net cid x c = simple_call net [''sysconfig'', num_str cid, x] c"

definition client_set_ptc :: "tcp \<Rightarrow> int \<Rightarrow> int \<Rightarrow> string \<Rightarrow> client \<Rightarrow> unit result" where
  "client_set_ptc net cid ptcid x c = simple_call net [''set_ptc'', num_str cid, num_str ptcid, x] c"

definition client_set_user_id :: "tcp \<Rightarrow> int \<Rightarrow> string \<Rightarrow> client \<Rightarrow> unit result" where
  "client_set_user_id net cid x c = simple_call net [''set_user_id'', num_str cid, x] c"

definition client_video_start :: "tcp \<Rightarrow> client \<Rightarrow> unit result" where
  "client_video_start net c = simple_call net [''video'', ''start'', ''0''] c"

definition client_video_stop :: "tcp \<Rightarrow> client \<Rightarrow> unit result" where
  "client_video_stop net c = simple_call net [''video'', ''stop''] c"

definition client_test :: "tcp \<Rightarrow> client \<Rightarrow> unit result" where
  "client_test net c = simple_call net [''test''] c"

definition client_get_subs :: "tcp \<Rightarrow> int \<Rightarrow> client \<Rightarrow> unit result" where
  "client_get_subs net tag c = simple_call net [''get_subs'', num_str tag] c"

subsection \<open>Registering the device\<close>

definition post_reg :: "dev_info \<Rightarrow> client \<Rightarrow> client" where
  "post_reg info c =
     (let c1 = c\<lparr>cl_reged := True, cl_tag := di_tag info,
                 cl_sub0 := (if di_sub info = 0 \<and> cl_sub1 c = 0 then 1 else di_sub info)\<rparr>
      in emit_if (co_use_udp (cl_opts c1) = 0) (ConnectAudio (cl_serv c1, SERVER_PORT + 2) (cl_id c1))
           (emit_if (co_mcast_recv (cl_opts c1) \<noteq> 0) (JoinTag (cl_sub0 c1))
             (emit_if (co_rbudp_recv (cl_opts c1) \<noteq> 0) (RbRecvTag (cl_sub0 c1)) c1)))"

definition reg_line :: "string \<Rightarrow> client \<Rightarrow> string" where
  "reg_line pass c = line_of c [''reg'', num_str (cl_devtype c), pass, num_str (cl_listen c), cl_br_addr c]"

text \<open>info is what the caller's structure holds before.\<close>

definition reg_end :: "dev_info \<Rightarrow> cmd \<Rightarrow> client \<Rightarrow> (dev_info \<times> client) option" where
  "reg_end info m c =
     do { p \<leftarrow> ok_ptr m 1; d \<leftarrow> parse_dev_info (cl_id c) p info; Some (d, post_reg d c) }"

definition client_reg :: "tcp \<Rightarrow> string \<Rightarrow> dev_info \<Rightarrow> client \<Rightarrow> dev_info result" where
  "client_reg net pass info c = call net (reg_line pass c) (reg_end info) c"

definition start_try_reg :: "string \<Rightarrow> client \<Rightarrow> string option" where
  "start_try_reg pass c = do { ensure (length (reg_line pass c) < 2048); Some (reg_line pass c) }"

definition try_reg_end :: "dev_info \<Rightarrow> string \<Rightarrow> client \<Rightarrow> client option" where
  "try_reg_end junk rep c =
     do { (e, m) \<leftarrow> parse_cmd (c_string rep) no_cmd;
          if e \<noteq> 0 then Some (raise (EvRegOk e None) c)
          else do { ensure (c_cmd m \<noteq> []); (d, c1) \<leftarrow> reg_end junk m c; Some (raise (EvRegOk 0 (Some d)) c1) } }"

subsection \<open>Tags\<close>

definition client_get_tags :: "tcp \<Rightarrow> client \<Rightarrow> field_val list list result" where
  "client_get_tags net c =
     call net (line_of c [''get_tags'']) (\<lambda>m c. do { p \<leftarrow> ok_ptr m 1; es \<leftarrow> parse_entries [FInt, FStr 32] p; Some (es, c) }) c"

text \<open>The multicast groups when the tag is replaced by rep, or by none.\<close>

definition mcast_switch :: "int \<Rightarrow> int \<Rightarrow> int \<Rightarrow> client \<Rightarrow> client" where
  "mcast_switch tag rep oldrep c =
     (if co_mcast_recv (cl_opts c) = 0 then c
      else (let c1 = emit_if (oldrep \<noteq> 0) (QuitTag oldrep) (emit_if (rep \<noteq> 0) (QuitTag tag) c)
            in client_emit (JoinTag (if rep \<noteq> 0 then rep else tag)) c1))"

definition sub_end :: "int \<Rightarrow> cmd \<Rightarrow> client \<Rightarrow> (unit \<times> client) option" where
  "sub_end tag m c =
     do { rep \<leftarrow> ok_int m 1;
          (let oldrep = cl_rep0 c;
               c1 = c\<lparr>cl_sub0 := tag, cl_rep0 := (if rep > 0 then rep else 0), cl_expect := 0\<rparr>;
               c2 = emit_if (co_rbudp_recv (cl_opts c1) \<noteq> 0) (RbRecvTag (if cl_rep0 c1 \<noteq> 0 then cl_rep0 c1 else cl_sub0 c1)) c1
           in Some ((), mcast_switch tag rep oldrep c2)) }"

definition client_sub :: "tcp \<Rightarrow> int \<Rightarrow> client \<Rightarrow> unit result" where
  "client_sub net tag c =
     (if cl_sub0 c = tag \<or> cl_sub1 c = tag then Some (Inl 1, c)
      else call net (line_of c [''sub'', num_str tag]) (sub_end tag) c)"

definition unsub_end :: "int \<Rightarrow> cmd \<Rightarrow> client \<Rightarrow> (unit \<times> client) option" where
  "unsub_end tag m c =
     (let oldrep = cl_rep0 c;
          c1 = emit_if (co_rbudp_recv (cl_opts c) \<noteq> 0) (RbRecvTag 0) (c\<lparr>cl_sub0 := 0, cl_rep0 := 0\<rparr>)
      in Some ((), if co_mcast_recv (cl_opts c) \<noteq> 0
                   then emit_if (oldrep \<noteq> 0) (QuitTag oldrep) (client_emit (QuitTag tag) c1) else c1))"

definition client_unsub :: "tcp \<Rightarrow> int \<Rightarrow> client \<Rightarrow> unit result" where
  "client_unsub net tag c =
     (if cl_sub0 c = tag then call net (line_of c [''sub'', ''-'' @ num_str tag]) (unsub_end tag) c else Some (Inl 1, c))"

definition client_switch_tag :: "tcp \<Rightarrow> int \<Rightarrow> client \<Rightarrow> unit result" where
  "client_switch_tag net tag c =
     call net (line_of c [''switch_tag'', num_str tag]) (\<lambda>m c. Some ((), c\<lparr>cl_tag := tag\<rparr>)) c"

subsection \<open>Registration of people\<close>

definition two_ints :: "cmd \<Rightarrow> client \<Rightarrow> ((int \<times> int) \<times> client) option" where
  "two_ints m c = do { a \<leftarrow> ok_int m 1; b \<leftarrow> ok_int m 2; Some ((a, b), c) }"

definition client_regist_stop :: "tcp \<Rightarrow> client \<Rightarrow> (int \<times> int) result" where
  "client_regist_stop net c = call net (line_of c [''regist'', ''stop'']) two_ints c"

definition client_regist_status :: "tcp \<Rightarrow> client \<Rightarrow> (int \<times> int) result" where
  "client_regist_status net c = call net (line_of c [''regist'', ''status'']) two_ints c"

definition client_regist_reg :: "tcp \<Rightarrow> int \<Rightarrow> int \<Rightarrow> client \<Rightarrow> (int \<times> string \<times> int) result" where
  "client_regist_reg net mode cardid c =
     call net (line_of c [''regist'', ''reg'', num_str mode, num_str cardid])
       (\<lambda>m c. do { card \<leftarrow> ok_int m 1; name \<leftarrow> ok_arg m 2; gender \<leftarrow> ok_int m 3; Some ((card, name, gender), c) }) c"

subsection \<open>Discussion\<close>

text \<open>The text behind OK, empty when there is none.\<close>

definition ok_text :: "cmd \<Rightarrow> client \<Rightarrow> (string \<times> client) option" where
  "ok_text m c = do { p \<leftarrow> ok_ptr m 1; Some (null_safe p, c) }"

definition client_discctrl_query :: "tcp \<Rightarrow> client \<Rightarrow> string result" where
  "client_discctrl_query net c = call net (line_of c [''discctrl'', ''query'']) ok_text c"

definition client_discctrl_select :: "tcp \<Rightarrow> int \<Rightarrow> client \<Rightarrow> (int list \<times> string) result" where
  "client_discctrl_select net n c =
     call net (line_of c [''discctrl'', ''select'', num_str n])
       (\<lambda>m c. do { p \<leftarrow> ok_ptr m 2; users \<leftarrow> ok_arg m 3; Some ((str_to_int_list p, users), c) }) c"

definition request_end :: "int \<Rightarrow> cmd \<Rightarrow> client \<Rightarrow> (unit \<times> client) option" where
  "request_end open m c =
     (if open \<noteq> 0
      then do { p \<leftarrow> ok_ptr m 1;
                Some ((), do_open_mic (case p of None \<Rightarrow> c | Some x \<Rightarrow> c\<lparr>cl_net_mixer := Some (inet_addr x, AUDIO_PORT)\<rparr>)) }
      else Some ((), do_close_mic (c\<lparr>cl_net_mixer := None\<rparr>)))"

definition client_discctrl_request :: "tcp \<Rightarrow> int \<Rightarrow> client \<Rightarrow> unit result" where
  "client_discctrl_request net open c = call net (line_of c [''discctrl'', ''request'', num_str open]) (request_end open) c"

text \<open>The list of numbers n places behind OK.\<close>

definition ok_ints :: "nat \<Rightarrow> cmd \<Rightarrow> client \<Rightarrow> (int list \<times> client) option" where
  "ok_ints n m c = do { p \<leftarrow> ok_ptr m n; Some (str_to_int_list p, c) }"

definition client_discctrl_status :: "tcp \<Rightarrow> client \<Rightarrow> int list result" where
  "client_discctrl_status net c = call net (line_of c [''discctrl'', ''status'']) (ok_ints 1) c"

subsection \<open>Votes\<close>

definition client_votectrl_query :: "tcp \<Rightarrow> client \<Rightarrow> string result" where
  "client_votectrl_query net c = call net (line_of c [''votectrl'', ''query'']) ok_text c"

definition client_votectrl_select :: "tcp \<Rightarrow> int \<Rightarrow> client \<Rightarrow> int list result" where
  "client_votectrl_select net n c = call net (line_of c [''votectrl'', ''select'', num_str n]) (ok_ints 1) c"

definition client_votectrl_start :: "tcp \<Rightarrow> int \<Rightarrow> client \<Rightarrow> vote_info result" where
  "client_votectrl_start net n c =
     call net (line_of c [''votectrl'', ''start'', num_str n])
       (\<lambda>m c. do { v \<leftarrow> get_vote_info_from_cmd m (find_ok m + 1); Some (v, c) }) c"

definition client_votectrl_status :: "tcp \<Rightarrow> int \<Rightarrow> client \<Rightarrow> (int \<times> int) result" where
  "client_votectrl_status net n c = call net (line_of c [''votectrl'', ''status'', num_str n]) two_ints c"

definition client_votectrl_showresult :: "tcp \<Rightarrow> int \<Rightarrow> client \<Rightarrow> (int \<times> int list) result" where
  "client_votectrl_showresult net n c =
     call net (line_of c [''votectrl'', ''showresult'', num_str n])
       (\<lambda>m c. do { total \<leftarrow> ok_int m 1; p \<leftarrow> ok_ptr m 2; Some ((total, str_to_int_list p), c) }) c"

subsection \<open>Messages, videos and files\<close>

definition client_msgctrl_query :: "tcp \<Rightarrow> client \<Rightarrow> int list result" where
  "client_msgctrl_query net c = call net (line_of c [''msgctrl'', ''query'']) (ok_ints 1) c"

definition client_msgctrl_send :: "tcp \<Rightarrow> int list option \<Rightarrow> string \<Rightarrow> client \<Rightarrow> unit result" where
  "client_msgctrl_send net ids msg c =
     (let tmp = (case ids of None \<Rightarrow> ''all'' | Some xs \<Rightarrow> int_list_to_str xs)
      in do { ensure (length tmp < 1024); simple_call net [''msgctrl'', ''send'', tmp, msg] c })"

definition client_videoctrl_query :: "tcp \<Rightarrow> client \<Rightarrow> string result" where
  "client_videoctrl_query net c = call net (line_of c [''videoctrl'', ''query'']) ok_text c"

definition ok_path :: "cmd \<Rightarrow> client \<Rightarrow> (string \<times> client) option" where
  "ok_path m c = do { x \<leftarrow> ok_arg m 1; Some (x, c) }"

definition client_videoctrl_select :: "tcp \<Rightarrow> int \<Rightarrow> client \<Rightarrow> string result" where
  "client_videoctrl_select net n c = call net (line_of c [''videoctrl'', ''select'', num_str n]) ok_path c"

definition client_filectrl_query :: "tcp \<Rightarrow> client \<Rightarrow> string result" where
  "client_filectrl_query net c = call net (line_of c [''filectrl'', ''query'']) ok_text c"

definition client_filectrl_select :: "tcp \<Rightarrow> int \<Rightarrow> client \<Rightarrow> string result" where
  "client_filectrl_select net n c = call net (line_of c [''filectrl'', ''select'', num_str n]) ok_path c"

subsection \<open>The system\<close>

definition client_sys_stats :: "tcp \<Rightarrow> client \<Rightarrow> int list result" where
  "client_sys_stats net c =
     call net (line_of c [''sys_stats''])
       (\<lambda>m c. do { a \<leftarrow> ok_int m 1; b \<leftarrow> ok_int m 2; i \<leftarrow> ok_int m 3; Some ([0, a, b, i], c) }) c"

definition client_get_all_devs :: "tcp \<Rightarrow> client \<Rightarrow> field_val list list result" where
  "client_get_all_devs net c =
     call net (line_of c [''get_all_devs''])
       (\<lambda>m c. do { p \<leftarrow> ok_ptr m 1; es \<leftarrow> parse_entries [FInt, FInt, FStr 64, FInt] p; Some (es, c) }) c"

definition client_auth :: "tcp \<Rightarrow> string \<Rightarrow> string \<Rightarrow> client \<Rightarrow> string result" where
  "client_auth net cid info c = call net (line_of c [''auth'', cid, info]) ok_path c"

definition client_synctime :: "tcp \<Rightarrow> client \<Rightarrow> unit result" where
  "client_synctime net c =
     call net (line_of c [''synctime''])
       (\<lambda>m c. do { a \<leftarrow> ok_int m 1; b \<leftarrow> ok_int m 2; Some ((), client_emit (SetClock a b) c) }) c"

end
