(* ===== verification/Client_Events.thy ===== *)
theory Client_Events
  imports Client_Cmds
begin

text \<open>
  What the client library does with a command of the server (client/client.c, __handle_cmd and its
  callers): the arguments become an event, a message is kept only when it is for this client, and a
  broadcast that was seen before is dropped. The record of the parsed line starts as zeros here, so
  an argument that is not there is a null pointer, which may be handed on but not followed.
\<close>

subsection \<open>Lines\<close>

text \<open>CHECKOK(args[i]): nothing happens unless the argument is OK.\<close>

definition checkok :: "cmd \<Rightarrow> nat \<Rightarrow> client \<Rightarrow> client option \<Rightarrow> client option" where
  "checkok m i c k = do { x \<leftarrow> arg m i; if x = ''OK'' then k else Some c }"

definition ev_votectrl :: "cmd \<Rightarrow> client \<Rightarrow> client option" where
  "ev_votectrl m c =
     do { sb \<leftarrow> arg m 0;
          if sb = ''start''
          then do { vn \<leftarrow> int_arg m 1;
                    checkok m 2 c (do { info \<leftarrow> get_vote_info_from_cmd m 3; Some (raise (EvVoteStart vn info) c) }) }
          else if sb = ''showresult''
          then do { vn \<leftarrow> int_arg m 1;
                    checkok m 2 c (do { n \<leftarrow> int_arg m 3;
                                        let xs = str_to_int_list (arg m 4);
                                        ensure (length xs \<le> 256);
                                        Some (raise (EvVoteShowresult n xs) c) }) }
          else if sb = ''stop'' then checkok m 1 c (Some (raise EvVoteStop c))
          else if sb = ''remind''
          then do { d \<leftarrow> int_arg m 1; checkok m 2 c (Some (raise (EvVoteRemind d 0) c)) }
          else if sb = ''forbid''
          then do { d \<leftarrow> int_arg m 1; f \<leftarrow> int_arg m 2; checkok m 3 c (Some (raise (EvVoteRemind d f) c)) }
          else Some c }"

definition ev_discctrl :: "cmd \<Rightarrow> client \<Rightarrow> client option" where
  "ev_discctrl m c =
     do { sb \<leftarrow> arg m 0;
          if sb = ''setmode''
          then do { mode \<leftarrow> int_arg m 1; checkok m 2 c (Some (raise (EvDiscSetmode mode) c)) }
          else if sb = ''select''
          then do { dn \<leftarrow> int_arg m 1; checkok m 2 c (Some (raise (EvDiscOpen dn (arg m 3)) c)) }
          else if sb = ''close'' then checkok m 1 c (Some (raise EvDiscClose c))
          else if sb = ''stop'' then checkok m 1 c (Some (raise EvDiscStop c))
          else if sb = ''forbid''
          then do { d \<leftarrow> int_arg m 1; checkok m 2 c (Some (raise (EvDiscForbid d) c)) }
          else if sb = ''disableall''
          then do { f \<leftarrow> int_arg m 1; checkok m 2 c (Some (raise (EvDiscForbidall f) c)) }
          else if sb = ''kick''
          then do { k \<leftarrow> int_arg m 1; Some (if cl_id c = k then raise EvDiscKick c else c) }
          else if sb = ''demand''
          then do { d \<leftarrow> int_arg m 1; open \<leftarrow> int_arg m 2; Some (if cl_id c = d then raise (EvDiscDemand open) c else c) }
          else Some c }"

definition ev_interp :: "cmd \<Rightarrow> client \<Rightarrow> client option" where
  "ev_interp m c =
     do { sb \<leftarrow> arg m 0;
          if sb = ''set_mode''
          then do { mode \<leftarrow> int_arg m 1; checkok m 2 c (Some (raise (EvInterpMode mode) c)) }
          else Some c }"

definition ev_regist :: "cmd \<Rightarrow> client \<Rightarrow> client option" where
  "ev_regist m c =
     do { sb \<leftarrow> arg m 0;
          if sb = ''start''
          then do { mode \<leftarrow> int_arg m 1; checkok m 2 c (Some (raise (EvRegistStart mode) c)) }
          else if sb = ''stop''
          then checkok m 1 c (do { e \<leftarrow> int_arg m 2; g \<leftarrow> int_arg m 3; Some (raise (EvRegistStop e g) c) })
          else Some c }"

text \<open>The words of a message go up to an OK that is the last argument, each with a blank in front,
  into a buffer of 256.\<close>

definition message_words :: "string list \<Rightarrow> string list option" where
  "message_words ws = (if ws \<noteq> [] \<and> last ws = ''OK'' then Some (butlast ws) else None)"

definition ev_msgctrl :: "cmd \<Rightarrow> client \<Rightarrow> client option" where
  "ev_msgctrl m c =
     do { sb \<leftarrow> arg m 0;
          if sb = ''send''
          then do { ws \<leftarrow> message_words (drop 2 (c_args m));
                    let msg = concat (map (\<lambda>w. '' '' @ w) ws);
                    ensure (length msg < 256);
                    ids \<leftarrow> arg m 1;
                    if ids = ''all'' then Some (raise (EvBroadcastMsg (c_dev m) msg) c)
                    else do { me \<leftarrow> int_in_str (cl_id c) (Some ids);
                              Some (if me then raise (EvMsg (c_dev m) msg) c else c) } }
          else Some c }"

definition ev_other :: "cmd \<Rightarrow> client \<Rightarrow> client option" where
  "ev_other m c =
     (if c_cmd m = ''file'' then Some (c\<lparr>cl_file := []\<rparr>)
      else if c_cmd m = ''ptc'' then Some (raise (EvPtc (arg m 1)) c)
      else if c_cmd m = ''sysconfig'' then checkok m 2 c (Some (raise (EvSysconfig (c_dev m) (arg m 1)) c))
      else if c_cmd m = ''cyc_ctl'' then Some (client_emit (CyclicControl 1) c)
      else if c_cmd m = ''set_user_id'' then checkok m 2 c (Some (raise (EvSetUid (arg m 1)) c))
      else if c_cmd m = ''allow_chair_ctl'' then do { a \<leftarrow> int_arg m 1; Some (raise (EvChairCtl a) c) }
      else if c_cmd m = ''upgrade'' then Some (raise (EvUpgrade (arg m 0)) c)
      else Some c)"

definition ev_cmd :: "cmd \<Rightarrow> client \<Rightarrow> client option" where
  "ev_cmd m c =
     (if c_cmd m = ''votectrl'' then ev_votectrl m c
      else if c_cmd m = ''discctrl'' then ev_discctrl m c
      else if c_cmd m = ''interp'' then ev_interp m c
      else if c_cmd m = ''regist'' then ev_regist m c
      else if c_cmd m = ''msgctrl'' then ev_msgctrl m c
      else ev_other m c)"

subsection \<open>Binary commands\<close>

definition handle_interp_rep_cmd :: "int \<Rightarrow> int \<Rightarrow> client \<Rightarrow> client" where
  "handle_interp_rep_cmd tag rep c =
     (if cl_sub0 c = tag \<or> cl_sub1 c = tag
      then (let oldrep = (if cl_sub0 c = tag then cl_rep0 c else cl_rep1 c);
                c1 = (if cl_sub0 c = tag then c\<lparr>cl_rep0 := rep\<rparr> else c\<lparr>cl_rep1 := rep\<rparr>)
            in mcast_switch tag rep oldrep
                 (emit_if (co_rbudp_recv (cl_opts c) \<noteq> 0) (RbRecvTag (if rep \<noteq> 0 then rep else tag)) c1))
      else c)"

text \<open>struct type2_cmd: type, command, length of the data in two bytes, data.\<close>

definition handle_type2_cmd :: "byte list \<Rightarrow> nat \<Rightarrow> client \<Rightarrow> client option" where
  "handle_type2_cmd bs l c =
     do { ensure (length bs \<ge> 4);
          if l \<noteq> 4 + (unat (bs ! 2) + 256 * unat (bs ! 3)) then Some c
          else if bs ! 1 = 1
          then do { ensure (length bs \<ge> 6); Some (handle_interp_rep_cmd (uint (bs ! 4)) (uint (bs ! 5)) c) }
          else Some (raise (EvType2 (take l bs)) c) }"

subsection \<open>Commands\<close>

text \<open>The text in front of the first zero; memory without one is not to be read as a string.\<close>

definition bytes_string :: "byte list \<Rightarrow> string option" where
  "bytes_string bs = (if 0 \<in> set bs then Some (to_text (takeWhile (\<lambda>b. b \<noteq> 0) bs)) else None)"

text \<open>The memory from buf on, and l. The result of parse_cmd is not looked at: without a command
  name there is a null pointer in c.cmd.\<close>

definition handle_line :: "byte list \<Rightarrow> nat \<Rightarrow> client \<Rightarrow> client option" where
  "handle_line bs l c =
     (if \<not> cl_reged c then Some c
      else do { ensure (bs \<noteq> []);
                if hd bs = 2 then handle_type2_cmd bs l c
                else do { x \<leftarrow> bytes_string bs;
                          (e, m) \<leftarrow> parse_cmd x no_cmd;
                          ensure (c_cmd m \<noteq> []);
                          ev_cmd m c } })"

subsection \<open>Broadcasts\<close>

record ucmd =
  uc_cmd :: int
  uc_seq :: int
  uc_mode :: int
  uc_tag :: int
  uc_datalen :: nat
  uc_data :: "byte list"

definition UCMD_BRCAST_CMD :: int where "UCMD_BRCAST_CMD = 1"

definition is_ucmd_recved :: "int \<Rightarrow> client \<Rightarrow> bool \<times> client" where
  "is_ucmd_recved q c =
     (let (seen, R) = recent_test (word_of_int q) (cl_recent_ucmd c) in (seen, c\<lparr>cl_recent_ucmd := R\<rparr>))"

definition le_int :: "byte list \<Rightarrow> int" where
  "le_int bs = sint (word_rcat (rev (take 4 bs)) :: 32 word)"

text \<open>The loop over n ids.\<close>

fun search_id :: "int \<Rightarrow> nat \<Rightarrow> byte list \<Rightarrow> bool option" where
  "search_id i 0 bs = Some False"
| "search_id i (Suc n) bs =
     (if length bs < 4 then None else if le_int bs = i then Some True else search_id i n (drop 4 bs))"

definition handle_brcast_cmd :: "ucmd \<Rightarrow> client \<Rightarrow> client option" where
  "handle_brcast_cmd u c =
     (let (seen, c1) = is_ucmd_recved (uc_seq u) c
      in if seen then Some c1
         else if uc_mode u = 0 then handle_line (uc_data u) (uc_datalen u) c1
         else if uc_mode u = 1
         then (if uc_tag u = cl_tag c1 then handle_line (uc_data u) (uc_datalen u) c1 else Some c1)
         else if uc_mode u = 2
         then do { ensure (length (uc_data u) \<ge> 4);
                   let n = nat (le_int (uc_data u));
                   me \<leftarrow> search_id (cl_id c1) n (drop 4 (uc_data u));
                   if me
                   then (let l = (1 + n) * 4 in handle_line (drop l (uc_data u)) (uc_datalen u - l) c1)
                   else Some c1 }
         else Some c1)"

definition handle_ucmd :: "ucmd \<Rightarrow> client \<Rightarrow> client option" where
  "handle_ucmd u c = (if uc_cmd u = UCMD_BRCAST_CMD then handle_brcast_cmd u c else Some c)"

subsection \<open>Files\<close>

definition handle_file :: "int \<Rightarrow> byte list \<Rightarrow> client \<Rightarrow> client" where
  "handle_file sock bs c =
     (if sock \<noteq> 0
      then (if length (cl_file c) + length bs \<ge> 1024 * 100 then c else c\<lparr>cl_file := cl_file c @ bs\<rparr>)
      else (raise (EvFile (cl_file c)) c)\<lparr>cl_file := []\<rparr>)"

end
