(* ===== verification/Client_Audio.thy ===== *)
theory Client_Audio
  imports Client_Mix Client_Events
begin

text \<open>
  Audio and video at the client (client/client.c): what is sent and where to, the datagrams that
  arrive, the queue with repeat requests, and video frames cut into fragments and put together
  again. Packets are in host order; the conversions at both ends of a datagram cancel out.
\<close>

subsection \<open>Sending audio\<close>

definition repeat_emit :: "int \<Rightarrow> cl_out \<Rightarrow> client \<Rightarrow> client" where
  "repeat_emit n e c = ((client_emit e) ^^ nat n) c"

text \<open>An address that was never set is refused by sendto.\<close>

definition send_udp :: "sock_addr option \<Rightarrow> upack \<Rightarrow> nat \<Rightarrow> client \<Rightarrow> client" where
  "send_udp a p len c = (case a of None \<Rightarrow> c | Some x \<Rightarrow> client_emit (UdpTo x p len) c)"

definition send_pack_len :: "upack \<Rightarrow> nat \<Rightarrow> client \<Rightarrow> client" where
  "send_pack_len p len c =
     (let Op = cl_opts c
      in if co_send_ucast Op \<noteq> 0 \<or> co_slave_send Op \<noteq> 0 then send_udp (cl_ucast c) p len c
         else if co_mcast_send Op \<noteq> 0
         then (case cl_mcast c of None \<Rightarrow> c | Some t \<Rightarrow> repeat_emit (cl_send_repeat c) (UdpMcast t p len) c)
         else if co_direct_mix Op \<noteq> 0 \<or> cl_bcast_audio c then repeat_emit (cl_send_repeat c) (UdpBroadcast p len) c
         else if co_use_udp Op \<noteq> 0
         then (case cl_net_mixer c of
                 Some a \<Rightarrow> client_emit (UdpTo a p len) c
               | None \<Rightarrow> client_emit (UdpTo (cl_serv c, SERVER_PORT) p len) c)
         else client_emit (AudioConn p len) c)"

definition send_pack :: "upack \<Rightarrow> client \<Rightarrow> client" where
  "send_pack p c = send_pack_len p (pack_size p) c"

text \<open>hb is what wait_master_heart returns. The buffer handed out is the same slot every time.\<close>

definition send_audio_start :: "int \<Rightarrow> client \<Rightarrow> client" where
  "send_audio_start hb c = (if co_slave_send (cl_opts c) \<noteq> 0 then c\<lparr>cl_master_seq := word_of_int hb\<rparr> else c)"

text \<open>bs is what the caller left in the buffer.\<close>

definition send_audio_end :: "byte list \<Rightarrow> int \<Rightarrow> client \<Rightarrow> int \<times> client" where
  "send_audio_end bs len c =
     (if len \<le> 0 then (-1, c)
      else if \<not> (cl_mic_open c \<or> cl_bcast_audio c \<or> cl_mix_cast c) then (-2, c)
      else if co_rbudp_send (cl_opts c) \<noteq> 0
      then (0, client_emit (RbBroadcast (cl_tag c) (take (nat len) bs) (cl_audio_type c)) c)
      else (let slave = (co_slave_send (cl_opts c) \<noteq> 0);
                c1 = (if slave then c else c\<lparr>cl_qseq := cl_qseq c + 1\<rparr>);
                p = \<lparr>up_id = cl_id_and_atype c1, up_seq = (if slave then cl_master_seq c1 else cl_qseq c1),
                     up_type = PACKET_AUDIO, up_tag = cl_tag c1 mod 256, up_datalen = nat (len mod 65536), up_data = bs\<rparr>
            in (0, send_pack p c1)))"

subsection \<open>Packets that are played\<close>

definition pack_atype :: "upack \<Rightarrow> int" where
  "pack_atype p = uint (drop_bit 24 (up_id p) AND 255)"

definition write_audio :: "upack \<Rightarrow> client \<Rightarrow> client" where
  "write_audio p c =
     (let c1 = c\<lparr>cl_prev := up_seq p\<rparr>
      in if up_type p = PACKET_AUDIO
         then (if co_raw_pack (cl_opts c1) \<noteq> 0 then raise (EvAudioRaw p) c1
               else raise (EvAudio (up_tag p) (pack_atype p) (pack_bytes p)) c1)
         else c1)"

definition client_recved :: "32 word \<Rightarrow> client \<Rightarrow> bool \<times> client" where
  "client_recved q c = (let (seen, R) = recent_test q (cl_recent c) in (seen, c\<lparr>cl_recent := R\<rparr>))"

text \<open>A packet of a tag that this client listens to: the tags that replace others count alone.\<close>

definition wants_tag :: "int \<Rightarrow> client \<Rightarrow> bool" where
  "wants_tag t c =
     (if cl_rep0 c \<noteq> 0 \<or> cl_rep1 c \<noteq> 0 then t = cl_rep0 c \<or> t = cl_rep1 c else t = cl_sub0 c \<or> t = cl_sub1 c)"

text \<open>The loop over what can be mixed, with fuel: a queue has 32 slots.\<close>

fun play_mixed :: "nat \<Rightarrow> client \<Rightarrow> client option" where
  "play_mixed 0 c = None"
| "play_mixed (Suc k) c =
     do { (p, c1) \<leftarrow> get_mix_audio c;
          (case p of None \<Rightarrow> Some c1 | Some x \<Rightarrow> play_mixed k (write_audio x c1)) }"

definition audio_recved :: "upack \<Rightarrow> nat \<Rightarrow> client \<Rightarrow> client option" where
  "audio_recved p len c =
     (if cl_ucast_audio c \<or> cl_mix_cast c then Some (if up_tag p = cl_tag c then raise (EvAudioRaw p) c else c)
      else if cl_sub0 c = 0 \<and> cl_sub1 c = 0 then Some c
      else if \<not> wants_tag (up_tag p) c then Some c
      else if pack_size p > len then Some c
      else if co_direct_mix (cl_opts c) \<noteq> 0
      then do { (r, c1) \<leftarrow> put_mix_audio p c;
                if r < 0 then Some c1 else if r = 0 then Some (write_audio p c1) else play_mixed 33 c1 }
      else (let (seen, c1) = client_recved (up_seq p) c in Some (if seen then c1 else write_audio p c1)))"

definition audio_mic_op :: "upack \<Rightarrow> client \<Rightarrow> client" where
  "audio_mic_op p c =
     (if co_direct_mix (cl_opts c) = 0 then c
      else if \<not> wants_tag (up_tag p) c then c
      else if up_seq p \<noteq> 0 then c
      else mix_audio_close (uint (up_id p AND 0xFFFFFF)) c)"

subsection \<open>The queue with repeat requests\<close>

definition req_repeat :: "int \<Rightarrow> 32 word \<Rightarrow> client \<Rightarrow> client" where
  "req_repeat tag q c =
     client_emit (UdpTo (cl_serv c, SERVER_PORT)
       \<lparr>up_id = word_of_int (cl_id c), up_seq = q, up_type = PACKET_REPEAT_REQ, up_tag = tag mod 256, up_datalen = 0, up_data = []\<rparr>
       PACK_HEAD_LEN) c"

definition put_wait :: "upack \<Rightarrow> client \<Rightarrow> client option" where
  "put_wait p c = do { f \<leftarrow> put_slot p (cl_wait c); Some (c\<lparr>cl_wait := f\<rparr>) }"

definition get_wait :: "client \<Rightarrow> upack \<times> client" where
  "get_wait c = (cfifo_fetch (cfifo_get_out (cl_wait c)) (cl_wait c), c\<lparr>cl_wait := snd (cfifo_out (cl_wait c))\<rparr>)"

definition get_wait_seq :: "client \<Rightarrow> 32 word" where
  "get_wait_seq c =
     (if cfifo_empty (cl_wait c) then 0 else up_seq (cfifo_fetch (cfifo_get_out (cl_wait c)) (cl_wait c)))"

definition enque_pack :: "upack \<Rightarrow> client \<Rightarrow> client option" where
  "enque_pack p c = do { f \<leftarrow> put_slot p (cl_rcv c); Some (c\<lparr>cl_rcv := f\<rparr>) }"

definition MAX_LOST :: "32 word" where "MAX_LOST = 4"

definition queue_next :: "upack \<Rightarrow> client \<Rightarrow> client option" where
  "queue_next p c = do { c1 \<leftarrow> enque_pack p c; Some (c1\<lparr>cl_expect := up_seq p + 1\<rparr>) }"

text \<open>The loop from queue_wait on: the wait queue has three places, so fuel for four turns is enough.\<close>

fun queue_wait :: "nat \<Rightarrow> int \<Rightarrow> client \<Rightarrow> client option" where
  "queue_wait 0 tag c = None"
| "queue_wait (Suc k) tag c =
     (let s = get_wait_seq c
      in if s = 0 then Some c
         else if s \<noteq> cl_expect c \<and> s - cl_expect c \<le> MAX_LOST then Some (req_repeat tag (cl_expect c) c)
         else (let (p, c1) = get_wait c in do { c2 \<leftarrow> queue_next p c1; queue_wait k tag c2 }))"

definition queue_from :: "int \<Rightarrow> upack \<Rightarrow> client \<Rightarrow> client option" where
  "queue_from tag p c = do { c1 \<leftarrow> queue_next p c; queue_wait 4 tag c1 }"

definition queue_audio_pack :: "upack \<Rightarrow> client \<Rightarrow> client option" where
  "queue_audio_pack p c =
     (if up_type p = PACKET_SEQ_OUTDATE then queue_wait 4 (up_tag p) (c\<lparr>cl_expect := cl_expect c + 1\<rparr>)
      else if up_seq p < cl_expect c \<and> cl_expect c - up_seq p < 100 then Some c
      else (let c1 = (if up_seq p < cl_expect c then c\<lparr>cl_expect := 0\<rparr> else c)
            in if co_retransmit (cl_opts c1) = 0 then enque_pack p c1
               else if up_seq p = cl_expect c1 \<or> cl_expect c1 = 0 then queue_from (up_tag p) p c1
               else if cfifo_full (cl_wait c1)
               then (let (q, c2) = get_wait c1 in do { c3 \<leftarrow> put_wait p c2; queue_from (up_tag p) q c3 })
               else put_wait p (req_repeat (up_tag p) (cl_expect c1) c1)))"

definition outdate_seq :: "upack \<Rightarrow> client \<Rightarrow> client option" where
  "outdate_seq p c = (if cl_expect c = up_seq p then queue_audio_pack p c else Some c)"

subsection \<open>Video\<close>

definition FRAGSIZE :: nat where "FRAGSIZE = 1400"

definition be4_bytes :: "32 word \<Rightarrow> byte list" where
  "be4_bytes w = [ucast (drop_bit 24 w), ucast (drop_bit 16 w), ucast (drop_bit 8 w), ucast w]"

text \<open>The fragment of a frame of n bytes that starts at off.\<close>

definition frag_pack :: "client \<Rightarrow> nat \<Rightarrow> nat \<Rightarrow> byte list \<Rightarrow> upack" where
  "frag_pack c n off bs =
     \<lparr>up_id = word_of_int (cl_id c), up_seq = word_of_int (int n), up_type = PACKET_VIDEO, up_tag = cl_fseq c,
      up_datalen = (4 + length bs) mod 65536, up_data = be4_bytes (word_of_int (int off)) @ bs\<rparr>"

definition do_send_video :: "upack \<Rightarrow> nat \<Rightarrow> client \<Rightarrow> client" where
  "do_send_video p len c = client_emit (UdpTo (cl_serv c, SERVER_PORT) p len) c"

text \<open>The loop over the full fragments i, ..., i + k - 1.\<close>

fun send_frags :: "nat \<Rightarrow> nat \<Rightarrow> byte list \<Rightarrow> client \<Rightarrow> client" where
  "send_frags i 0 buf c = c"
| "send_frags i (Suc k) buf c =
     send_frags (Suc i) k buf
       (do_send_video (frag_pack c (length buf) (i * FRAGSIZE) (take FRAGSIZE (drop (i * FRAGSIZE) buf)))
         (PACK_HEAD_LEN + 4 + FRAGSIZE) c)"

definition send_video :: "byte list \<Rightarrow> client \<Rightarrow> client" where
  "send_video buf c =
     (let n = length buf div FRAGSIZE; m = length buf mod FRAGSIZE;
          c1 = send_frags 0 n buf (c\<lparr>cl_fseq := (cl_fseq c + 1) mod 256\<rparr>)
      in if m \<noteq> 0
         then do_send_video (frag_pack c1 (length buf) (n * FRAGSIZE) (take m (drop (n * FRAGSIZE) buf))) (PACK_HEAD_LEN + 4 + m) c1
         else c1)"

text \<open>mem is what realloc finds in the memory it adds. Offset and length are not checked against the
  frame: what lies outside is a fault.\<close>

definition video_recved :: "(nat \<Rightarrow> byte) \<Rightarrow> upack \<Rightarrow> nat \<Rightarrow> client \<Rightarrow> client option" where
  "video_recved mem p len c =
     (if pack_size p \<noteq> len then Some c
      else (let c1 = (if cl_frame_seq c \<noteq> up_tag p then c\<lparr>cl_frame_seq := up_tag p, cl_frame_len := 0\<rparr> else c);
                size = sint (up_seq p);
                off = sint (ntohl (up_data p));
                frame = (if int (length (cl_frame c1)) < size
                         then cl_frame c1 @ map mem [length (cl_frame c1)..<nat size] else cl_frame c1)
            in do { ensure (up_datalen p \<ge> 4);
                    let bs = drop 4 (pack_bytes p);
                    ensure (bs = [] \<or> 0 \<le> off \<and> nat off + length bs \<le> length frame);
                    let frame1 = (if bs = [] then frame else take (nat off) frame @ bs @ drop (nat off + length bs) frame);
                    let n = cl_frame_len c1 + int (length bs);
                    let c2 = c1\<lparr>cl_frame := frame1, cl_frame_len := n\<rparr>;
                    Some (if n = size then (raise (EvVideo (take (nat n) frame1)) c2)\<lparr>cl_frame_seq := -1, cl_frame_len := 0\<rparr>
                          else c2) }))"

subsection \<open>Datagrams\<close>

datatype client_dgram = DPack upack | DUcmd ucmd

definition udp_recved :: "(nat \<Rightarrow> byte) \<Rightarrow> client_dgram \<Rightarrow> nat \<Rightarrow> client \<Rightarrow> client option" where
  "udp_recved mem dg len c =
     (case dg of
        DUcmd u \<Rightarrow> handle_ucmd u c
      | DPack p \<Rightarrow>
          if up_type p = PACKET_AUDIO then audio_recved p len c
          else if up_type p = PACKET_SEQ_OUTDATE then outdate_seq p c
          else if up_type p = PACKET_VIDEO then video_recved mem p len c
          else if up_type p = PACKET_MIC_OP then Some (audio_mic_op p c)
          else Some c)"

end
