(* ===== verification/Client_Net.thy ===== *)
theory Client_Net
  imports Client_Audio
begin

text \<open>
  The client's connections (client/net.c) on what the system calls return: sending a command and
  reading its reply, the stream of audio, and the listener for commands and files, with handle_cmd
  of client/client.c, which it calls.
\<close>

subsection \<open>Receiving\<close>

datatype recv_result = Data "byte list" | Closed | Again | Failed

text \<open>recv_all with room for n bytes. After 600 tries in vain it gives up. When nothing more is
  given the connection is closed.\<close>

fun recv_all :: "nat \<Rightarrow> nat \<Rightarrow> byte list \<Rightarrow> recv_result list \<Rightarrow> int \<times> byte list" where
  "recv_all n tries got [] = (int (length got), got)"
| "recv_all n tries got (Closed # rs) = (int (length got), got)"
| "recv_all n tries got (Failed # rs) = (-1, got)"
| "recv_all n tries got (Again # rs) = (if tries + 1 > 600 then (-1, got) else recv_all n (tries + 1) got rs)"
| "recv_all n tries got (Data bs # rs) =
     (if bs = [] then (int (length got), got)
      else (let got1 = got @ take (n - length got) bs
            in if length got1 \<ge> n then (int (length got1), got1) else recv_all n tries got1 rs))"

subsection \<open>Commands\<close>

text \<open>What becomes of a connection to the server: no connection or no answer in time, or a reply.\<close>

datatype tcp_world = NoAnswer | Answer "recv_result list"

text \<open>What send_tcp returns, and the text in the buffer.\<close>

definition send_tcp :: "byte \<Rightarrow> tcp_world \<Rightarrow> string \<Rightarrow> (int \<times> string) option" where
  "send_tcp salt w x =
     do { ensure (length x < BUFLEN);
          req \<leftarrow> encode salt (to_bytes x);
          (case w of
             NoAnswer \<Rightarrow> Some (-2, x)
           | Answer rs \<Rightarrow>
               (let (l, got) = recv_all BUFLEN 0 [] rs
                in if l > 0 then map_option (\<lambda>bs. (int (length bs), to_text bs)) (decode got) else Some (l, x))) }"

text \<open>try_send_tcp: one attempt after the other until there is a reply, which is the result; None when
  the attempts given are used up.\<close>

fun try_send_tcp :: "(int \<times> string) list \<Rightarrow> string option" where
  "try_send_tcp [] = None"
| "try_send_tcp ((l, rep) # rs) = (if l > 0 then Some rep else try_send_tcp rs)"

subsection \<open>Datagrams\<close>

definition le2 :: "byte \<Rightarrow> byte \<Rightarrow> nat" where
  "le2 a b = unat a + 256 * unat b"

definition bytes_upack :: "byte list \<Rightarrow> upack" where
  "bytes_upack bs =
     \<lparr>up_id = ntohl bs, up_seq = ntohl (drop 4 bs), up_type = uint (bs ! 8), up_tag = uint (bs ! 9),
      up_datalen = le2 (bs ! 11) (bs ! 10), up_data = drop 12 bs\<rparr>"

definition bytes_ucmd :: "byte list \<Rightarrow> ucmd" where
  "bytes_ucmd bs =
     \<lparr>uc_cmd = int (le2 (bs ! 0) (bs ! 1)), uc_seq = int (le2 (bs ! 2) (bs ! 3)), uc_mode = uint (bs ! 4),
      uc_tag = uint (bs ! 5), uc_datalen = le2 (bs ! 10) (bs ! 11), uc_data = drop 12 bs\<rparr>"

definition PACKET_UCMD :: int where "PACKET_UCMD = 7"

text \<open>_recv_udp; a datagram shorter than the head of a packet leaves part of it undefined.\<close>

definition recv_udp :: "(nat \<Rightarrow> byte) \<Rightarrow> byte list \<Rightarrow> client \<Rightarrow> client option" where
  "recv_udp mem bs c =
     do { ensure (length bs \<ge> PACK_HEAD_LEN);
          udp_recved mem (if uint (bs ! 8) = PACKET_UCMD then DUcmd (bytes_ucmd bs) else DPack (bytes_upack bs)) (length bs) c }"

subsection \<open>The listener for commands\<close>

definition TCP_CMD :: int where "TCP_CMD = 0"
definition TCP_FILE :: int where "TCP_FILE = 1"
definition TCP_AUDIO :: int where "TCP_AUDIO = 2"

text \<open>buf is the memory, None a null pointer, and l the number of bytes received. No job is ever set.\<close>

definition client_handle_cmd :: "(nat \<Rightarrow> byte) \<Rightarrow> int \<Rightarrow> int \<Rightarrow> byte list option \<Rightarrow> nat \<Rightarrow> client \<Rightarrow> client option" where
  "client_handle_cmd mem sock ty buf l c =
     (let line = (\<lambda>c. case buf of None \<Rightarrow> if cl_reged c then None else Some c | Some bs \<Rightarrow> handle_line bs l c)
      in if ty = TCP_AUDIO then do { bs \<leftarrow> buf; recv_udp mem (take l bs) c }
         else if ty \<noteq> TCP_CMD then Some (handle_file sock (case buf of None \<Rightarrow> [] | Some bs \<Rightarrow> take l bs) c)
         else if cl_conn c = 0 then line (c\<lparr>cl_conn := sock\<rparr>)
         else if cl_conn c = sock then Some c
         else if sock = 0 then Some (c\<lparr>cl_conn := 0\<rparr>)
         else line c)"

text \<open>One connection to the listener, sock being its number: what recv_all got is handled, then the end
  of the connection is.\<close>

definition tcp_connection :: "(nat \<Rightarrow> byte) \<Rightarrow> int \<Rightarrow> bool \<Rightarrow> recv_result list \<Rightarrow> client \<Rightarrow> client option" where
  "tcp_connection mem sock isfile rs c =
     (let (l, got) = recv_all BUFLEN 0 [] rs; ty = (if isfile then TCP_FILE else TCP_CMD)
      in do { c1 \<leftarrow> (if l > 0
                    then (if isfile then client_handle_cmd mem sock ty (Some got) (length got) c
                          else do { bs \<leftarrow> decode got; client_handle_cmd mem sock ty (Some (bs @ [0])) (length bs) c })
                    else Some c);
              client_handle_cmd mem 0 ty None 0 c1 })"

subsection \<open>The stream of audio\<close>

text \<open>What a connection for audio starts with.\<close>

definition hello_bytes :: "int \<Rightarrow> byte list" where
  "hello_bytes did = be4_bytes (word_of_int did) @ [0x48, 0x69]"

text \<open>repack_audio: the packets of 524 bytes that are complete, and what is left.\<close>

function repack_audio :: "(nat \<Rightarrow> byte) \<Rightarrow> int \<Rightarrow> byte list \<Rightarrow> byte list \<Rightarrow> client \<Rightarrow> (byte list \<times> client) option" where
  "repack_audio mem sock got bs c =
     (if bs = [] then Some (got, c)
      else if length got \<ge> pksize then None
      else (let l = min (length bs) (pksize - length got); got1 = got @ take l bs
            in if length got1 = pksize
               then do { c1 \<leftarrow> client_handle_cmd mem sock TCP_AUDIO (Some got1) pksize c; repack_audio mem sock [] (drop l bs) c1 }
               else repack_audio mem sock got1 (drop l bs) c))"
  by auto
termination by (relation "measure (\<lambda>(mem, sock, got, bs, c). length bs)") (auto simp: min_def)

declare repack_audio.simps [simp del]

text \<open>send_audio: up to 15 tries while the socket is busy; the result, and whether the connection is shut
  down. The list says how each try ends, the tries left come first.\<close>

datatype send_result = SendOk | SendBusy | SendFails

fun send_audio :: "nat \<Rightarrow> send_result list \<Rightarrow> int \<times> bool" where
  "send_audio 0 rs = (-1, True)"
| "send_audio (Suc k) (SendOk # rs) = (0, False)"
| "send_audio (Suc k) (SendBusy # rs) = send_audio k rs"
| "send_audio (Suc k) _ = (-1, False)"

end
