(* ===== verification/Client_Server.thy ===== *)
theory Client_Server
  imports Client_Net Request_Props Discuss_Props
begin

text \<open>
  A client and the server together: talk is what becomes of a line between send_tcp of the client
  and the server's side of the connection. A client command ends as the handler of the server
  decides: with its code, or with the words of its reply.
\<close>

subsection \<open>A line to the server and back\<close>

text \<open>salt and salt' are the random bytes of the client and of the server.\<close>

definition talk ::
  "(string \<times> handler) list \<Rightarrow> byte \<Rightarrow> byte \<Rightarrow> int \<times> int \<Rightarrow> int \<Rightarrow> srv \<Rightarrow> string \<Rightarrow> ((int \<times> string) \<times> srv) option" where
  "talk tbl salt salt' addr sock s x =
     do { req \<leftarrow> encode salt (to_bytes x);
          (out, closed, s1) \<leftarrow> proceed_connection tbl salt' addr sock req s;
          r \<leftarrow> send_tcp salt (Answer [Data out, Closed]) x;
          Some (r, s1) }"

text \<open>What a function of the client sends: it depends on what the network does with the line x, and on nothing
  else of it. So x is the line it sends, and it is the only one.\<close>

definition sends_line :: "(tcp \<Rightarrow> 'a) \<Rightarrow> string \<Rightarrow> bool" where
  "sends_line f x \<longleftrightarrow> (\<forall>net net'. net x = net' x \<longrightarrow> f net = f net') \<and> (\<exists>net net'. f net \<noteq> f net')"

lemma call_sends: "length x < BUFLEN \<Longrightarrow> sends_line (\<lambda>net. call net x k c) x"
proof -
  assume "length x < BUFLEN"
  then have "call (\<lambda>_. (-1, [])) x k c \<noteq> call (\<lambda>_. (-2, [])) x k c" by (simp add: call_def send_line_def)
  moreover have "call net x k c = call net' x k c" if "net x = net' x" for net net'
    by (simp add: call_def send_line_def that)
  ultimately show ?thesis unfolding sends_line_def by blast
qed

text \<open>No function sends two different lines.\<close>

lemma sends_lineD: "sends_line f x \<Longrightarrow> net x = net' x \<Longrightarrow> f net = f net'"
  unfolding sends_line_def by blast

lemma sends_line_unique: "sends_line f x \<Longrightarrow> sends_line f y \<Longrightarrow> x = y"
proof (rule ccontr)
  assume x: "sends_line f x" and y: "sends_line f y" and "x \<noteq> y"
  have "f net = f net'" for net net'
  proof -
    let ?m = "\<lambda>z. if z = x then net z else net' z"
    have "f net = f ?m" by (rule sends_lineD [OF x]) simp
    also have "\<dots> = f net'" by (rule sends_lineD [OF y]) (use \<open>x \<noteq> y\<close> in simp)
    finally show ?thesis .
  qed
  then show False using x unfolding sends_line_def by blast
qed

lemma line_of_short: "request_ok (cl_id c) name args \<Longrightarrow> length (line_of c (name # args)) < BUFLEN"
  by (simp add: request_ok_def line_of_def)

lemma recv_all_once: "out \<noteq> [] \<Longrightarrow> length out \<le> n \<Longrightarrow> recv_all n 0 [] [Data out, Closed] = (int (length out), out)"
  by simp

definition reply_text :: "int \<Rightarrow> cmd \<Rightarrow> string" where
  "reply_text r m =
     (if r < 0 then fail_line ERR_BAD_CMD '' invalid cmd'' else if r > 0 then fail_line r '' handling cmd error'' else c_rep m)"

lemma fail_line_length: "abs r < 2 ^ 31 \<Longrightarrow> length x < 100 \<Longrightarrow> length (fail_line r x) < BUFLEN"
  using length_num_str_int [of r] by (simp add: fail_line_def newline_def BUFLEN_def)

lemma reply_text_length:
  assumes "r = 0 \<Longrightarrow> length (c_rep m) < BUFLEN" and "r < 2 ^ 31"
  shows "length (reply_text r m) < BUFLEN"
proof -
  have "length (fail_line ERR_BAD_CMD '' invalid cmd'') < BUFLEN" by (rule fail_line_length) (simp_all add: ERR_BAD_CMD_def)
  moreover have "length (fail_line r '' handling cmd error'') < BUFLEN" if "r > 0"
    by (rule fail_line_length) (use that assms(2) in simp_all)
  ultimately show ?thesis using assms(1) by (auto simp: reply_text_def)
qed

lemma talk_request:
  assumes ok: "request_ok i name args" and h: "handle_cmd tbl (request_cmd i name args addr sock) s = Some (r, m, s1)"
    and rep: "r = 0 \<Longrightarrow> c_rep m \<noteq> [] \<and> length (c_rep m) < BUFLEN" and r: "r < 2 ^ 31"
  shows "talk tbl salt salt' addr sock s (cmd_line (num_str i # name # args))
    = Some ((int (length (reply_text r m)), reply_text r m), s1)"
proof -
  let ?line = "cmd_line (num_str i # name # args)"
  have len: "length (reply_text r m) < BUFLEN" by (rule reply_text_length) (use rep r in auto)
  have ne: "reply_text r m \<noteq> []" using rep by (auto simp: reply_text_def fail_line_def)
  obtain req where req: "encode salt (to_bytes ?line) = Some req" using decode_encode by blast
  obtain out where out: "do_send salt' (reply_text r m) = Some out" "decode out = Some (to_bytes (reply_text r m))"
    "length out = length (reply_text r m) + 1" using do_send_coded [OF len, of salt'] by (elim exE conjE)
  have served: "\<exists>closed. proceed_connection tbl salt' addr sock req s = Some (out, closed, s1)"
    using proceed_request [OF ok h req, of salt'] out(1) ne by (auto simp: reply_text_def split: if_splits)
  have got: "recv_all BUFLEN 0 [] [Data out, Closed] = (int (length out), out)"
    by (rule recv_all_once) (use out(3) len in auto)
  have line: "length ?line < BUFLEN" using ok by (simp add: request_ok_def)
  have pos: "0 < int (length out)" using out(3) by simp
  have "send_tcp salt (Answer [Data out, Closed]) ?line = Some (int (length (reply_text r m)), reply_text r m)"
    using line req pos out(2) by (simp add: send_tcp_def got del: recv_all.simps)
  then show ?thesis using served req by (auto simp: talk_def)
qed

text \<open>What the client makes of a reply in words, and of a failure.\<close>

definition is_reply :: "int \<Rightarrow> string \<Rightarrow> string list \<Rightarrow> string \<Rightarrow> bool" where
  "is_reply i name args x \<longleftrightarrow>
     x = cmd_line (num_str i # name # args) \<and> (\<forall>w \<in> set (name # args). is_word w \<and> CHR 0x00 \<notin> set w) \<and> length args < 32"

lemma cmd_line_no_zero:
  assumes "\<forall>w \<in> set (name # args). CHR 0x00 \<notin> set w"
  shows "CHR 0x00 \<notin> set (cmd_line (num_str i # name # args))"
proof -
  have "CHR 0x00 \<notin> set (words_text (num_str i # name # args))"
    by (rule words_text_no_zero) (use assms num_str_no_zero in auto)
  then show ?thesis by (simp add: cmd_line_words newline_def)
qed

lemma num_str_first: "hd (cmd_line (num_str i # ws)) \<noteq> CHR 0x02"
proof -
  obtain d ds where d: "num_str i = d # ds" using num_str_nonempty by (cases "num_str i") auto
  have "\<not> is_digit (CHR 0x02)" by (simp add: is_digit_def)
  then have "CHR 0x02 \<notin> set (num_str i)" using digits_all by (auto simp: num_str_def)
  then show ?thesis by (cases ws) (auto simp: cmd_line_def d)
qed

lemma send_line_reply:
  assumes "is_reply i name args x" and "net buf = (int (length x), x)"
  shows "send_line net buf c = Some (Inr (no_cmd\<lparr>c_dev := i, c_cmd := name, c_args := args\<rparr>), c)"
proof -
  have x: "x = cmd_line (num_str i # name # args)" and w: "\<forall>w \<in> set (name # args). is_word w" "length args < 32"
    and z: "\<forall>w \<in> set (name # args). CHR 0x00 \<notin> set w" using assms(1) by (auto simp: is_reply_def)
  have "c_string x = x" unfolding c_string_def x by (rule takeWhile_no_zero) (rule cmd_line_no_zero [OF z])
  moreover have "parse_cmd x no_cmd = Some (0, no_cmd\<lparr>c_dev := i, c_cmd := name, c_args := args\<rparr>)"
    unfolding x by (rule parse_cmd_line) (use w in auto)
  moreover have "x \<noteq> []" unfolding x by (simp add: cmd_line_def newline_def)
  moreover have "hd x \<noteq> CHR 0x02" unfolding x by (rule num_str_first)
  moreover have "name \<noteq> []" using w(1) by (simp add: is_word_def)
  ultimately show ?thesis using assms(2) by (simp add: send_line_def)
qed

lemma send_line_fails:
  assumes "r \<noteq> 0" and "net buf = (int (length (reply_text r m)), reply_text r m)"
  shows "send_line net buf c
    = (let e = (if r < 0 then ERR_BAD_CMD else r) in Some (Inl e, if e = ERR_NOT_REG then raise EvNeedReg c else c))"
proof -
  define k where "k = (if r < 0 then ERR_BAD_CMD else r)"
  define ws where "ws = (if r < 0 then [''invalid'', ''cmd''] else [''handling'', ''cmd'', ''error''])"
  have k: "k \<noteq> 0" using assms(1) by (auto simp: k_def ERR_BAD_CMD_def)
  have line: "reply_text r m = cmd_line ([''FAIL'', num_str k] @ ws)"
    using assms(1) by (auto simp: reply_text_def k_def ws_def fail_line_def cmd_line_def)
  have words: "\<forall>w \<in> set ([''FAIL'', num_str k] @ ws). is_word w"
    using is_word_num_str by (auto simp: is_word_def cmd_sep_def ws_def)
  have toks: "tokens cmd_sep (reply_text r m) = [''FAIL'', num_str k] @ ws"
    unfolding line by (rule tokens_cmd_line) (use words in simp_all)
  have zero: "CHR 0x00 \<notin> set (reply_text r m)"
    unfolding line using num_str_no_zero by (auto simp: cmd_line_def newline_def ws_def)
  have "parse_cmd (reply_text r m) no_cmd = Some (k, no_cmd)" by (simp add: parse_cmd_def toks atoi_num_str)
  moreover have "c_string (reply_text r m) = reply_text r m" unfolding c_string_def by (rule takeWhile_no_zero) (rule zero)
  moreover have "reply_text r m \<noteq> []" "hd (reply_text r m) \<noteq> CHR 0x02" by (simp_all add: line cmd_line_def)
  ultimately show ?thesis using assms(2) k by (simp add: send_line_def k_def [symmetric] Let_def)
qed

text \<open>A command whose reply is in words goes on with them; one that fails returns the code and leaves
  the client as it was.\<close>

lemma call_reply:
  assumes "is_reply i name args x" and "net buf = (int (length x), x)" and "length buf < BUFLEN"
  shows "call net buf k c
    = (case k (no_cmd\<lparr>c_dev := i, c_cmd := name, c_args := args\<rparr>) c of None \<Rightarrow> None | Some (a, c1) \<Rightarrow> Some (Inr a, c1))"
  using send_line_reply [where net = net and buf = buf and c = c, OF assms(1,2)] assms(3) by (simp add: call_def split: option.split)

lemma call_fails:
  assumes "r \<noteq> 0" and "net buf = (int (length (reply_text r m)), reply_text r m)" and "length buf < BUFLEN"
  shows "call net buf k c
    = (let e = (if r < 0 then ERR_BAD_CMD else r) in Some (Inl e, if e = ERR_NOT_REG then raise EvNeedReg c else c))"
  using send_line_fails [where net = net and buf = buf and c = c, OF assms(1,2)] assms(3) by (simp add: call_def Let_def)

lemma exchange_reply:
  assumes ok: "request_ok (cl_id c) name args"
    and h: "handle_cmd tbl (request_cmd (cl_id c) name args addr sock) s = Some (0, m, s1)"
    and rep: "c_rep m = cmd_line (num_str (cl_id c) # name # ws)" "length (c_rep m) < BUFLEN"
    and ws: "\<forall>w \<in> set ws. is_word w \<and> CHR 0x00 \<notin> set w" "length ws < 32"
  shows "\<exists>rep. talk tbl salt salt' addr sock s (line_of c (name # args)) = Some (rep, s1)
    \<and> call (\<lambda>_. rep) (line_of c (name # args)) k c
        = (case k (no_cmd\<lparr>c_dev := cl_id c, c_cmd := name, c_args := ws\<rparr>) c of
                None \<Rightarrow> None | Some (a, c1) \<Rightarrow> Some (Inr a, c1))"
proof -
  let ?rep = "(int (length (c_rep m)), c_rep m)"
  have ne: "c_rep m \<noteq> []" unfolding rep(1) by (simp add: cmd_line_def newline_def)
  have same: "reply_text 0 m = c_rep m" by (simp add: reply_text_def)
  have tk: "talk tbl salt salt' addr sock s (line_of c (name # args)) = Some (?rep, s1)"
    using talk_request [OF ok h, of salt salt'] ne rep(2) same by (simp add: line_of_def)
  have name: "is_word name \<and> CHR 0x00 \<notin> set name" using ok by (simp add: request_ok_def)
  have reply: "is_reply (cl_id c) name ws (c_rep m)" using name ws rep(1) by (simp add: is_reply_def)
  have len: "length (line_of c (name # args)) < BUFLEN" using ok by (simp add: request_ok_def line_of_def)
  have "call (\<lambda>_. ?rep) (line_of c (name # args)) k c
      = (case k (no_cmd\<lparr>c_dev := cl_id c, c_cmd := name, c_args := ws\<rparr>) c of
           None \<Rightarrow> None | Some (a, c1) \<Rightarrow> Some (Inr a, c1))"
    by (rule call_reply [OF reply]) (use len in simp_all)
  then show ?thesis using tk by blast
qed

lemma exchange_fails:
  assumes ok: "request_ok (cl_id c) name args"
    and h: "handle_cmd tbl (request_cmd (cl_id c) name args addr sock) s = Some (r, m, s1)"
    and r: "r \<noteq> 0" "r < 2 ^ 31"
  shows "\<exists>rep. talk tbl salt salt' addr sock s (line_of c (name # args)) = Some (rep, s1)
    \<and> call (\<lambda>_. rep) (line_of c (name # args)) k c
        = (let e = (if r < 0 then ERR_BAD_CMD else r)
           in Some (Inl e, if e = ERR_NOT_REG then raise EvNeedReg c else c))"
proof -
  let ?rep = "(int (length (reply_text r m)), reply_text r m)"
  have tk: "talk tbl salt salt' addr sock s (line_of c (name # args)) = Some (?rep, s1)"
    unfolding line_of_def by (rule talk_request [OF ok h]) (use r in simp_all)
  have len: "length (line_of c (name # args)) < BUFLEN" using ok by (simp add: request_ok_def line_of_def)
  have "call (\<lambda>_. ?rep) (line_of c (name # args)) k c
      = (let e = (if r < 0 then ERR_BAD_CMD else r) in Some (Inl e, if e = ERR_NOT_REG then raise EvNeedReg c else c))"
    by (rule call_fails [where r = r and m = m]) (use r len in simp_all)
  then show ?thesis using tk by blast
qed

lemma find_ok_at: "''OK'' \<notin> set ws \<Longrightarrow> find_ok (no_cmd\<lparr>c_dev := i, c_cmd := name, c_args := ws @ ''OK'' # vs\<rparr>) = length ws"
proof -
  assume "''OK'' \<notin> set ws"
  then have "takeWhile (\<lambda>w. w \<noteq> ''OK'') (ws @ ''OK'' # vs) = ws" by (auto simp: takeWhile_append takeWhile_eq_all_conv)
  then show ?thesis by (simp add: find_ok_def)
qed

subsection \<open>The addresses of the mixing devices\<close>

definition addr_ok :: "srv \<Rightarrow> bool" where
  "addr_ok s \<longleftrightarrow> (\<forall>e x. d_mixer_info (dev s e) = Some x \<longrightarrow> x \<in> set net_addrs)"

lemma addr_ok_dev: "addr_ok s \<Longrightarrow> dev s' = dev s \<Longrightarrow> addr_ok s'"
  by (simp add: addr_ok_def)

lemma addr_ok_upd: "addr_ok s \<Longrightarrow> (\<And>D. d_mixer_info (f D) = d_mixer_info D) \<Longrightarrow> addr_ok (upd_dev d f s)"
  by (auto simp: addr_ok_def upd_dev_def)

lemma addr_ok_mix:
  assumes "addr_ok s"
  shows "MIX_OPEN_DEV d s = Some s' \<Longrightarrow> addr_ok s'" and "MIX_CLOSE_DEV d s = Some s' \<Longrightarrow> addr_ok s'"
proof -
  have at: "net_addrs ! i \<in> set net_addrs" if "i < 8" for i by (rule nth_mem) (use that in \<open>simp add: net_addrs_def\<close>)
  show "MIX_OPEN_DEV d s = Some s' \<Longrightarrow> addr_ok s'"
    using assms at find_upt
    by (fastforce simp: MIX_OPEN_DEV_def netmx_open_dev_def addr_ok_def upd_dev_def split: option.splits mixer.splits if_splits)
  show "MIX_CLOSE_DEV d s = Some s' \<Longrightarrow> addr_ok s'"
    using assms by (auto simp: MIX_CLOSE_DEV_def netmx_close_dev_def addr_ok_def upd_dev_def Let_def
        split: option.splits mixer.splits if_splits)
qed

lemma addr_ok_tags:
  assumes "addr_ok s"
  shows "tag_add_outstanding t d s = Some s' \<Longrightarrow> addr_ok s'" and "tag_rm_outstanding t d s = Some s' \<Longrightarrow> addr_ok s'"
proof -
  have up: "addr_ok u \<Longrightarrow> addr_ok (upd_tag t f u)" for f u by (erule addr_ok_dev) simp
  show "tag_add_outstanding t d s = Some s' \<Longrightarrow> addr_ok s'"
    unfolding tag_add_outstanding_def Let_def using assms
    by (auto split: option.splits if_splits intro!: up addr_ok_upd elim!: addr_ok_mix(1) [rotated])
  show "tag_rm_outstanding t d s = Some s' \<Longrightarrow> addr_ok s'"
    unfolding tag_rm_outstanding_def Let_def using assms
    by (auto split: option.splits if_splits intro!: up addr_ok_upd elim!: addr_ok_mix(2) [rotated])
qed

lemma addr_ok_ptc:
  assumes "addr_ok s"
  shows "ptc_push d s = Some s' \<Longrightarrow> addr_ok s'" and "ptc_remove d s = Some s' \<Longrightarrow> addr_ok s'"
proof -
  have send: "addr_ok u'" if "ptc_send k u = Some u'" "addr_ok u" for k u u'
    by (rule addr_ok_dev [OF that(2)]) (rule ptc_same_frame(2) [OF ptc_send_same [OF that(1)]])
  have dflt: "addr_ok u'" if "ptc_default u = Some u'" "addr_ok u" for u u'
    by (rule addr_ok_dev [OF that(2)]) (use that(1) in \<open>auto simp: ptc_default_def dest: ptc_default_from_same ptc_same_frame(2)\<close>)
  have hp: "addr_ok u'" if "on_heap f u = Some u'" "addr_ok u" for f u u'
    by (rule addr_ok_dev [OF that(2)]) (use that(1) in \<open>auto simp: on_heap_def\<close>)
  have cur: "addr_ok (u\<lparr>ptc_curr := k\<rparr>)" if "addr_ok u" for u k by (rule addr_ok_dev [OF that]) simp
  show "ptc_push d s = Some s' \<Longrightarrow> addr_ok s'"
    using assms by (auto simp: ptc_push_def ptc_put_def intro: send cur hp split: if_splits)
  show "ptc_remove d s = Some s' \<Longrightarrow> addr_ok s'"
    using assms by (auto simp: ptc_remove_def intro: send dflt cur hp split: if_splits)
qed

lemma addr_ok_open:
  assumes "addr_ok s"
  shows "add_open t d s = Some s' \<Longrightarrow> addr_ok s'" and "del_open t d s = Some s' \<Longrightarrow> addr_ok s'"
proof -
  have hp: "addr_ok u'" if "on_heap f u = Some u'" "addr_ok u" for f u u'
    by (rule addr_ok_dev [OF that(2)]) (use that(1) in \<open>auto simp: on_heap_def\<close>)
  have up: "addr_ok u \<Longrightarrow> addr_ok (upd_tag t f u)" for f u by (erule addr_ok_dev) simp
  have sv: "addr_ok u \<Longrightarrow> addr_ok (device_save d (upd_dbdev d f u))" for f u by (erule addr_ok_dev) simp
  have dv: "addr_ok (upd_dev d (\<lambda>D. D\<lparr>d_open := v\<rparr>) u)" if "addr_ok u" for v u by (rule addr_ok_upd [OF that]) simp
  show "add_open t d s = Some s' \<Longrightarrow> addr_ok s'"
    using assms by (auto simp: add_open_def intro!: sv elim!: addr_ok_tags(1) [rotated] intro: dv up hp)
  show "del_open t d s = Some s' \<Longrightarrow> addr_ok s'"
    using assms by (auto simp: del_open_def intro!: sv elim!: addr_ok_tags(2) [rotated] intro: dv up hp)
qed

lemma addr_ok_open_it: "addr_ok s \<Longrightarrow> open_it t d s = Some (r, s') \<Longrightarrow> addr_ok s'"
  by (auto simp: open_it_def intro: addr_ok_open addr_ok_ptc)

lemma addr_ok_kick: "addr_ok s \<Longrightarrow> addr_ok (kick_user d k s)"
  by (erule addr_ok_dev) (simp add: kick_user_def)

lemma request_open_ways:
  assumes "request_open t d s = Some (q, s1)"
  obtains "open_it t d s = Some (q, s1)" | "q = ERR_REJECTED" "s1 = s"
  | k u v where "del_open t k s = Some u" "ptc_remove k u = Some v" "open_it t d (kick_user d k v) = Some (q, s1)"
proof (cases "d_type (dev s d) = DEVTYPE_CHAIR \<and> t_openuser (tagm s t) < MAX_MIX \<or> t_openuser (tagm s t) < t_maxuser (tagm s t)")
  case True
  then show ?thesis using assms that(1) by (auto simp: request_open_def Let_def split: if_splits)
next
  case False
  then obtain ks where ks: "list_devs (OpenHead t) s = Some ks" using assms by (auto simp: request_open_def Let_def)
  show ?thesis
  proof (cases "scan_open s (t_maxuser (tagm s t)) ks (t_openuser (tagm s t)) None")
    case OpenIt
    then show ?thesis using assms ks False that(1) by (auto simp: request_open_def Let_def)
  next
    case (Kick k)
    then show ?thesis
      using assms ks False that(2,3) by (cases k) (auto simp: request_open_def Let_def split: if_splits)
  qed
qed

lemma addr_ok_request_open:
  assumes "request_open t d s = Some (r, s')" and "addr_ok s"
  shows "addr_ok s'"
  using assms(1)
proof (cases rule: request_open_ways)
  case (3 k u v)
  then show ?thesis using assms(2) addr_ok_open(2) addr_ok_ptc(2) addr_ok_kick addr_ok_open_it by blast
qed (use assms(2) addr_ok_open_it in auto)

lemma addr_ok_step: "addr_ok s \<Longrightarrow> request_step op t d s = Some (r, s') \<Longrightarrow> addr_ok s'"
  by (auto simp: request_step_def request_same_def request_close_def split: if_splits
      intro: addr_ok_request_open addr_ok_open addr_ok_ptc addr_ok_tags)

lemma addr_ok_post: "addr_ok s \<Longrightarrow> request_post op t d s = Some s' \<Longrightarrow> addr_ok s'"
  by (erule addr_ok_dev) (auto simp: brcast_data_to_all_def request_post_def apply_interp_mode_def Let_def interp_del_rep_def interp_set_rep_tag_def
      notify_interp_rep_def split: if_splits option.splits)

subsection \<open>The reply to a request for the microphone\<close>

lemma open_it_code: "open_it t d s = Some (q, s1) \<Longrightarrow> q = 0"
  by (auto simp: open_it_def)

lemma request_open_codes: "request_open t d s = Some (q, s1) \<Longrightarrow> q = 0 \<or> (q = ERR_REJECTED \<and> s1 = s)"
  by (erule request_open_ways) (auto dest: open_it_code)

lemma request_codes: "request_step op t d s = Some (q, s1) \<Longrightarrow> q = 0 \<or> (q = ERR_REJECTED \<and> s1 = s)"
  using request_open_codes by (auto simp: request_step_def request_same_def request_close_def split: if_splits)

lemma discctrl_request_reply:
  assumes "discctrl_request d (p # args) c s = Some (r, c', s')" and "addr_ok s"
  shows "(r = ERR_REJECTED \<and> s' = s)
    \<or> (r = 0 \<and> addr_ok s' \<and> c_rep c' = c_rep c @ '' OK'' @ (case d_mixer_info (dev s' d) of None \<Rightarrow> [] | Some x \<Rightarrow> '' '' @ x) @ newline)"
proof -
  obtain t where t: "d_tag (dev s d) = Some t" using assms(1) by (auto simp: discctrl_request_def split: option.splits)
  obtain q s1 where step: "request_step (atoi p) t d s = Some (q, s1)"
    using assms(1) t by (auto simp: discctrl_request_def Let_def bind_eq_Some_conv)
  show ?thesis
  proof (cases "q = 0")
    case True
    obtain s2 where post: "request_post (atoi p) t d s1 = Some s2"
      using assms(1) t step True by (auto simp: discctrl_request_def Let_def bind_eq_Some_conv)
    have "addr_ok s2" using addr_ok_post [OF addr_ok_step [OF assms(2) step] post] .
    then show ?thesis using assms(1) t step True post
      by (auto simp: discctrl_request_def Let_def rep_defs split: option.splits)
  next
    case False
    then show ?thesis using assms(1) t step request_codes [OF step] by (auto simp: discctrl_request_def Let_def)
  qed
qed

subsection \<open>The microphone\<close>

lemma num_str_not_OK: "num_str i \<noteq> ''OK''"
proof
  assume "num_str i = ''OK''"
  then have "digits (nat i) = ''OK''" by (auto simp: num_str_def split: if_splits)
  then have "is_digit (CHR ''K'')" using digits_all [of "CHR ''K''" "nat i"] by simp
  then show False by (simp add: is_digit_def)
qed

text \<open>
  C4. When a registered client asks for the microphone, or gives it back, over a connection that works,
  client and server end in agreement: the client sends one line, the request with what is asked for, the
  server answers it and keeps the invariant of the discussion, and with that answer the client's call
  returns success or ERR_REJECTED, and its flag for an open microphone is what the server has on record
  for it. Success means that the device is as asked for; a refusal has changed nothing at the server. The
  messages for cameras must fit their buffers, and an interpreter must be subscribed to a tag, without which
  the server faults.
\<close>

theorem client_request_agrees:
  assumes "room_inv s X P" and "registered s (cl_id c)" and "ptc_fits s" and "addr_ok s"
    and "d_type (dev s (cl_id c)) = DEVTYPE_INTERP \<longrightarrow> d_sub (dev s (cl_id c)) \<noteq> None"
    and "map_of tbl ''discctrl'' = Some cmd_discctrl" and "abs (cl_id c) < 2 ^ 31" and "op = 0 \<or> op = 1"
    and "cl_mic_open c \<longleftrightarrow> d_open (dev s (cl_id c)) = 1"
  shows "\<exists>x rep s1 X' P' r c1. sends_line (\<lambda>net. client_discctrl_request net op c) x
    \<and> talk tbl salt salt' addr sock s x = Some (rep, s1)
    \<and> client_discctrl_request (\<lambda>_. rep) op c = Some (r, c1)
    \<and> room_inv s1 X' P' \<and> (cl_mic_open c1 \<longleftrightarrow> d_open (dev s1 (cl_id c)) = 1)
    \<and> (r = Inl ERR_REJECTED \<and> s1 = s \<or> r = Inr () \<and> d_open (dev s1 (cl_id c)) = op)"
proof -
  let ?d = "cl_id c" and ?args = "[''request'', num_str op]"
  have op: "atoi (num_str op) = op" by (rule atoi_num_str)
  have opl: "length (num_str op) \<le> 11" using assms(8) length_num_str_int [of op] by auto
  have idl: "length (num_str ?d) \<le> 11" using length_num_str_int assms(7) by blast
  have words: "\<forall>w \<in> set (''discctrl'' # ?args). is_word w \<and> CHR 0x00 \<notin> set w"
    using is_word_num_str num_str_no_zero by (auto simp: is_word_def cmd_sep_def)
  have ok: "request_ok ?d ''discctrl'' ?args"
    using words opl idl by (simp add: request_ok_def cmd_line_def newline_def BUFLEN_def)
  have sends: "sends_line (\<lambda>net. client_discctrl_request net op c) (line_of c (''discctrl'' # ?args))"
    unfolding client_discctrl_request_def by (rule call_sends [OF line_of_short [OF ok]])
  obtain t where t: "d_tag (dev s ?d) = Some t" using assms(2) by (auto simp: registered_def)
  let ?m = "request_cmd ?d ''discctrl'' ?args addr sock"
  obtain r m s1 X' P' where run: "discctrl_request ?d [num_str op] ?m s = Some (r, m, s1)" and
    inv: "room_inv s1 X' P'" and opened: "r = 0 \<longrightarrow> d_open (dev s1 ?d) = op"
    using discctrl_request_room [OF assms(1,2) t assms(3,5), of "num_str op" "[]" ?m] assms(8) op by fastforce
  have h: "handle_cmd tbl ?m s = Some (r, m, s1)"
    using discctrl_request_eq [of s ?m "num_str op" "[]"] assms(2,6) run by (simp add: handle_cmd_def request_cmd_def)
  consider "r = ERR_REJECTED" "s1 = s" | "r = 0" "addr_ok s1"
    "c_rep m = c_rep ?m @ '' OK'' @ (case d_mixer_info (dev s1 ?d) of None \<Rightarrow> [] | Some x \<Rightarrow> '' '' @ x) @ newline"
    using discctrl_request_reply [OF run assms(4)] by blast
  then show ?thesis
  proof cases
    case 1
    then show ?thesis
      using exchange_fails [OF ok h, of salt salt' "request_end op"] inv assms(9) sends
      by (fastforce simp: client_discctrl_request_def ERR_REJECTED_def ERR_NOT_REG_def)
  next
    case 2
    define vs where "vs = (case d_mixer_info (dev s1 ?d) of None \<Rightarrow> [] | Some x \<Rightarrow> [x])"
    let ?ws = "?args @ ''OK'' # vs"
    have vs: "\<forall>w \<in> set vs. w \<in> set net_addrs" "length vs \<le> 1"
      using 2(2) by (auto simp: vs_def addr_ok_def split: option.splits)
    have addrs: "\<forall>w \<in> set net_addrs. is_word w \<and> CHR 0x00 \<notin> set w \<and> length w = 12"
      by (simp add: net_addrs_def is_word_def cmd_sep_def)
    have ws: "\<forall>w \<in> set ?ws. is_word w \<and> CHR 0x00 \<notin> set w" "length ?ws < 32"
      using words vs addrs by (auto simp: is_word_def cmd_sep_def)
    have rep: "c_rep m = cmd_line (num_str ?d # ''discctrl'' # ?ws)"
      using 2(3) by (auto simp: vs_def request_cmd_def words_text_def cmd_line_def split: option.splits)
    have short: "length (c_rep m) < BUFLEN"
      using vs addrs opl idl unfolding rep by (cases vs) (auto simp: cmd_line_def newline_def BUFLEN_def)
    let ?n = "no_cmd\<lparr>c_dev := ?d, c_cmd := ''discctrl'', c_args := ?ws\<rparr>"
    have fo: "find_ok ?n = 2" using find_ok_at [of ?args vs "''discctrl''" ?d] num_str_not_OK [of op] by auto
    have "\<exists>p. ok_ptr ?n 1 = Some p" unfolding ok_ptr_def fo by (simp add: arg_ptr_def)
    then have "\<exists>c1. request_end op ?n c = Some ((), c1) \<and> (cl_mic_open c1 \<longleftrightarrow> op = 1)"
      using assms(8) by (auto simp: request_end_def do_open_mic_def do_close_mic_def emit_if_def)
    then show ?thesis
      using exchange_reply [OF ok h [unfolded 2(1)] rep short ws, of salt salt' "request_end op"] inv assms(8) opened 2(1) sends
      by (fastforce simp: client_discctrl_request_def)
  qed
qed

text \<open>Device 7 of the demo server, which has registered.\<close>

definition demo_client :: "int \<Rightarrow> client" where
  "demo_client i = (client_start (\<lambda>_. \<lparr>up_id = 0, up_seq = 0, up_type = 0, up_tag = 0, up_datalen = 0, up_data = []\<rparr>))
     \<lparr>cl_id := i, cl_reged := True\<rparr>"

lemma demo_addr_ok: "addr_ok demo"
  by (simp add: addr_ok_def demo_sel demo_dev_def fresh_dev_def)

lemma demo_client_sel [simp]: "cl_id (demo_client i) = i" "cl_mic_open (demo_client i) = False"
  by (simp_all add: demo_client_def client_start_def)

theorem client_request_agrees_witness:
  "\<exists>x rep s1 X' P' r c1. sends_line (\<lambda>net. client_discctrl_request net 1 (demo_client 7)) x
    \<and> talk demo_tbl 0x5A 0x33 (0, 0) 4 demo x = Some (rep, s1)
    \<and> client_discctrl_request (\<lambda>_. rep) 1 (demo_client 7) = Some (r, c1)
    \<and> room_inv s1 X' P' \<and> (cl_mic_open c1 \<longleftrightarrow> d_open (dev s1 7) = 1)
    \<and> (r = Inl ERR_REJECTED \<and> s1 = demo \<or> r = Inr () \<and> d_open (dev s1 7) = 1)"
  using client_request_agrees [of demo "\<lambda>_. []" "[]" "demo_client 7" demo_tbl 1 "0x5A" "0x33" "(0, 0)" 4]
    demo_room demo_registered [of 7] demo_fits demo_addr_ok demo_tbl_names(1)
  by (simp add: demo_sel demo_dev_sel type_defs)

subsection \<open>The open devices\<close>

lemma num_list_word:
  assumes "ns \<noteq> []"
  shows "is_word (num_list ns) \<and> CHR 0x00 \<notin> set (num_list ns) \<and> CHR ''O'' \<notin> set (num_list ns)"
proof -
  have O: "CHR ''O'' \<notin> set (num_str i)" for i
  proof -
    have "\<not> is_digit (CHR ''O'')" by (simp add: is_digit_def)
    then show ?thesis using digits_all by (auto simp: num_str_def)
  qed
  have "\<forall>c \<in> set (num_str i). \<not> cmd_sep c" for i using is_word_num_str by (simp add: is_word_def)
  moreover have "\<not> cmd_sep (CHR '','')" by (simp add: cmd_sep_def)
  ultimately show ?thesis
    using assms num_str_no_zero O by (cases ns) (auto simp: num_list_Cons is_word_def num_str_nonempty)
qed

text \<open>
  A client that asks which microphones are open gets back exactly the devices on the open list
  of its tag, in the order in which they were opened, up to the zero that ends the list.
\<close>

theorem client_status_is_open_list:
  assumes "room_inv s X P" and "registered s (cl_id c)" and "d_tag (dev s (cl_id c)) = Some t"
    and "d_group (dev s (cl_id c)) = Some g" and "g_disc_current (grp s g) \<noteq> None"
    and "length (num_list (X t)) < 1024" and "X t \<noteq> []" and "0 \<notin> set (X t)"
    and "map_of tbl ''discctrl'' = Some cmd_discctrl" and "abs (cl_id c) < 2 ^ 31"
  shows "\<exists>rep xs. talk tbl salt salt' addr sock s (line_of c [''discctrl'', ''status'']) = Some (rep, s)
    \<and> client_discctrl_status (\<lambda>_. rep) c = Some (Inr xs, c) \<and> until_zero xs = X t"
proof -
  let ?d = "cl_id c" and ?ws = "[''status'', ''OK'', num_list (X t)]"
  let ?m = "request_cmd ?d ''discctrl'' [''status''] addr sock"
  have idl: "length (num_str ?d) \<le> 11" using length_num_str_int assms(10) by blast
  have ok: "request_ok ?d ''discctrl'' [''status'']"
    using idl by (simp add: request_ok_def is_word_def cmd_sep_def cmd_line_def newline_def BUFLEN_def)
  define m where "m = REP_END (REP_ADD (num_list (X t)) (REP_ADD ''OK'' ?m))"
  have "cmd_discctrl ?m s = discctrl_status ?d [] ?m s"
    using assms(2) by (simp add: cmd_discctrl_def registered_def request_cmd_def)
  moreover have "disc_inv s X" using assms(1) by (simp add: room_inv_def)
  ultimately have h: "handle_cmd tbl ?m s = Some (0, m, s)"
    using discctrl_status_reply [where s = s and X = X and d = ?d and t = t and g = g] assms
    by (simp add: handle_cmd_def request_cmd_def m_def)
  have rep: "c_rep m = cmd_line (num_str ?d # ''discctrl'' # ?ws)"
    by (simp add: m_def rep_defs request_cmd_def words_text_def cmd_line_def)
  have short: "length (c_rep m) < BUFLEN"
    using idl assms(6) unfolding rep by (simp add: cmd_line_def newline_def BUFLEN_def)
  have ws: "\<forall>w \<in> set ?ws. is_word w \<and> CHR 0x00 \<notin> set w" "length ?ws < 32"
    using num_list_word [OF assms(7)] by (auto simp: is_word_def cmd_sep_def)
  let ?n = "no_cmd\<lparr>c_dev := ?d, c_cmd := ''discctrl'', c_args := ?ws\<rparr>"
  have "ok_ints 1 ?n c = Some (X t @ [0], c)"
    by (simp add: ok_ints_def ok_ptr_def find_ok_def arg_ptr_def arg_def str_to_int_list_def str_to_ints_num_list)
  moreover have "until_zero (X t @ [0]) = X t" using assms(8) by (auto simp: until_zero_def takeWhile_append takeWhile_eq_all_conv)
  ultimately show ?thesis
    using exchange_reply [OF ok h rep short ws, of salt salt' "ok_ints 1"] by (auto simp: client_discctrl_status_def)
qed

theorem client_status_is_open_list_witness:
  "\<exists>rep xs. talk demo_tbl 0x5A 0x33 (0, 0) 4 demo78d (line_of (demo_client 9) [''discctrl'', ''status'']) = Some (rep, demo78d)
    \<and> client_discctrl_status (\<lambda>_. rep) (demo_client 9) = Some (Inr xs, demo_client 9) \<and> until_zero xs = [7, 8]"
proof -
  have "registered demo78d 9" "d_tag (dev demo78d 9) = Some 65537" "d_group (dev demo78d 9) = Some 1"
    using demo78_sel(1) demo78_room(2)
    by (simp_all add: demo78d_def registered_def demo78_sel demo_dev_sel same_conf_def demo_sel)
  then show ?thesis
    using client_status_is_open_list [OF demo78d_room, of "demo_client 9" 65537 1 demo_tbl "0x5A" "0x33" "(0, 0)" 4]
      num_list_78 demo_tbl_names(1)
    by (simp add: demo78d_def)
qed

subsection \<open>Failures\<close>

text \<open>
  C28. Whatever command a client sends, when its handler at the server returns a code, or the name is
  not known, the client's function returns that code (ERR_BAD_CMD for the unknown name); what would
  have been done with a reply is not done, and only ERR_NOT_REG raises an event.
\<close>

theorem client_sees_failure:
  assumes "request_ok (cl_id c) name args"
    and "handle_cmd tbl (request_cmd (cl_id c) name args addr sock) s = Some (r, m, s1)" and "r \<noteq> 0" and "r < 2 ^ 31"
  shows "\<exists>rep. talk tbl salt salt' addr sock s (line_of c (name # args)) = Some (rep, s1)
    \<and> call (\<lambda>_. rep) (line_of c (name # args)) k c
        = (let e = (if r < 0 then ERR_BAD_CMD else r) in Some (Inl e, if e = ERR_NOT_REG then raise EvNeedReg c else c))"
  by (rule exchange_fails [OF assms])

theorem client_sees_failure_witness:
  "\<exists>rep. talk demo_tbl 0x5A 0x33 (0, 0) 4 demo (line_of (demo_client 99) [''discctrl'', ''status'']) = Some (rep, demo)
    \<and> client_discctrl_status (\<lambda>_. rep) (demo_client 99) = Some (Inl ERR_NOT_REG, raise EvNeedReg (demo_client 99))"
proof -
  have "request_ok 99 ''discctrl'' [''status'']" by code_simp
  moreover have "handle_cmd demo_tbl (request_cmd 99 ''discctrl'' [''status''] (0, 0) 4) demo
      = Some (ERR_NOT_REG, request_cmd 99 ''discctrl'' [''status''] (0, 0) 4, demo)"
    by (simp add: handle_cmd_def request_cmd_def demo_tbl_names cmd_discctrl_def demo_sel)
  ultimately show ?thesis
    using client_sees_failure [of "demo_client 99" "''discctrl''" "[''status'']" demo_tbl "(0, 0)" 4 demo ERR_NOT_REG _ demo
        "0x5A" "0x33" "ok_ints 1"]
    by (simp add: client_discctrl_status_def ERR_NOT_REG_def)
qed

end
