(* ===== verification/Client_Wire.thy ===== *)
theory Client_Wire
  imports Client_Props
begin

text \<open>
  The datagrams between server and client, byte by byte: the broadcasts as serv/brcmd.c lays them
  out, read by _recv_udp of client/net.c, and the fragments of video, read by video_recved of
  client/client.c. A number written into bytes and read at the other end is the same number.
\<close>

subsection \<open>Numbers in bytes\<close>

definition id_bytes :: "int \<Rightarrow> byte list" where
  "id_bytes i = le4_bytes (word_of_int i)"

definition le2_bytes :: "nat \<Rightarrow> byte list" where
  "le2_bytes n = [of_nat n, of_nat (n div 256)]"

lemma uint_byte_of: "uint (ucast (w :: 32 word) :: byte) = uint w mod 256"
  by (simp add: unsigned_ucast_eq take_bit_eq_mod)

lemma uint_shift: "uint (drop_bit n (w :: 32 word)) = uint w div 2 ^ n"
  using uint_lt2p [of w] by (subst unsigned_drop_bit_eq) (simp add: drop_bit_eq_div take_bit_int_eq_self)

lemma digits_4:
  fixes x :: int
  assumes "x = 256 * y + a" and "y = 256 * z + b" and "z = 256 * u + k"
  shows "a + 256 * (b + 256 * (k + 256 * u)) = x"
  using assms by simp

lemma digits_256:
  fixes x :: int
  assumes "0 \<le> x" and "x < 4294967296"
  shows "x mod 256 + 256 * (x div 256 mod 256 + 256 * (x div 65536 mod 256 + 256 * (x div 16777216 mod 256))) = x"
proof -
  have "0 \<le> x div 16777216" "x div 16777216 < 256" using assms by simp_all
  then have t: "x div 16777216 mod 256 = x div 16777216" by (rule mod_pos_pos_trivial)
  have d: "x div 65536 = x div 256 div 256" "x div 16777216 = x div 65536 div 256"
    using zdiv_zmult2_eq [of 256 x 256] zdiv_zmult2_eq [of 256 x 65536] by simp_all
  have e: "y = 256 * (y div 256) + y mod 256" for y :: int by simp
  show ?thesis
    unfolding t
    by (rule digits_4 [of _ "x div 256" _ "x div 65536"]) (rule e, unfold d, rule e, rule e)
qed

lemma rcat_bytes:
  "word_rcat [ucast (drop_bit 24 w), ucast (drop_bit 16 w), ucast (drop_bit 8 w), ucast w :: byte] = (w :: 32 word)"
proof -
  let ?x = "uint w"
  have x: "0 \<le> ?x" "?x < 4294967296" using uint_lt2p [of w] by simp_all
  have p: "2 ^ 8 = (256 :: int)" "2 ^ 16 = (65536 :: int)" "2 ^ 24 = (16777216 :: int)" by simp_all
  have h: "horner_sum uint 256 [a, b, c, d :: byte] = uint a + 256 * (uint b + 256 * (uint c + 256 * uint d))" for a b c d
    by simp
  have "horner_sum uint 256 [ucast w, ucast (drop_bit 8 w), ucast (drop_bit 16 w), ucast (drop_bit 24 w) :: byte] = ?x"
    unfolding h uint_byte_of uint_shift p by (rule digits_256 [OF x])
  moreover have "rev [ucast (drop_bit 24 w), ucast (drop_bit 16 w), ucast (drop_bit 8 w), ucast w :: byte]
      = [ucast w, ucast (drop_bit 8 w), ucast (drop_bit 16 w), ucast (drop_bit 24 w)]" by simp
  moreover have "(2 :: int) ^ LENGTH(8) = 256" by simp
  ultimately show ?thesis unfolding word_rcat_def comp_def by (simp only: word_of_int_uint)
qed

lemma ntohl_be4 [simp]: "ntohl (be4_bytes w @ xs) = w"
  by (simp add: ntohl_def be4_bytes_def rcat_bytes)

lemma le_int_le4:
  assumes "- (2 ^ 31) \<le> i" and "i < 2 ^ 31"
  shows "le_int (id_bytes i @ xs) = i"
  using assms by (simp add: le_int_def id_bytes_def le4_bytes_def rcat_bytes signed_of_int signed_take_bit_int_eq_self)

lemma length_le4 [simp]: "length (id_bytes i) = 4"
  by (simp add: id_bytes_def le4_bytes_def)

lemma le2_le2: "n < 65536 \<Longrightarrow> le2 (of_nat n) (of_nat (n div 256)) = n"
  by (simp add: le2_def unat_of_nat)

subsection \<open>Broadcasts\<close>

text \<open>A datagram of serv/brcmd.c as it lies in memory: what is sent of a command (its text with the zero),
  and the packet in front of it. The bytes that are never set are j.\<close>

definition payload_bytes :: "payload \<Rightarrow> byte list" where
  "payload_bytes p =
     (case p of Text x \<Rightarrow> to_bytes x @ [0] | InterpRep t r \<Rightarrow> [2, 1] @ le2_bytes 2 @ [word_of_int t, word_of_int r])"

definition brcast_data :: "bmode \<Rightarrow> payload \<Rightarrow> byte list" where
  "brcast_data mode p =
     (case mode of ModeMulti ids \<Rightarrow> id_bytes (int (length ids)) @ concat (map id_bytes ids) @ payload_bytes p
      | _ \<Rightarrow> payload_bytes p)"

definition brcast_bytes :: "(nat \<Rightarrow> byte) \<Rightarrow> int \<Rightarrow> bmode \<Rightarrow> payload \<Rightarrow> byte list" where
  "brcast_bytes j q mode p =
     le2_bytes (nat UCMD_BRCAST_CMD) @ le2_bytes (nat q)
     @ (case mode of ModeAll \<Rightarrow> [0, j 5] | ModeTag t \<Rightarrow> [1, word_of_int t] | ModeMulti ids \<Rightarrow> [2, j 5])
     @ [j 6, j 7, word_of_int PACKET_UCMD, j 9] @ le2_bytes (length (brcast_data mode p)) @ brcast_data mode p"

definition addressed_to :: "bmode \<Rightarrow> client \<Rightarrow> bool" where
  "addressed_to mode c = (case mode of ModeAll \<Rightarrow> True | ModeTag t \<Rightarrow> t = cl_tag c | ModeMulti ids \<Rightarrow> cl_id c \<in> set ids)"

lemma brcast_head:
  assumes "0 \<le> q" and "q < 65536" and "length (brcast_data mode p) < 65536"
  shows "bytes_ucmd (brcast_bytes j q mode p) =
      \<lparr>uc_cmd = UCMD_BRCAST_CMD, uc_seq = q,
       uc_mode = (case mode of ModeAll \<Rightarrow> 0 | ModeTag t \<Rightarrow> 1 | ModeMulti ids \<Rightarrow> 2),
       uc_tag = (case mode of ModeTag t \<Rightarrow> t mod 256 | _ \<Rightarrow> uint (j 5)),
       uc_datalen = length (brcast_data mode p), uc_data = brcast_data mode p\<rparr>"
    and "uint (brcast_bytes j q mode p ! 8) = PACKET_UCMD" and "length (brcast_bytes j q mode p) = 12 + length (brcast_data mode p)"
proof -
  obtain k where k: "q = int k" "k < 65536" using assms(1,2) by (cases q) auto
  have q: "le2 (of_nat k) (of_nat (k div 256)) = k" by (rule le2_le2 [OF k(2)])
  have n: "le2 (of_nat (length (brcast_data mode p))) (of_nat (length (brcast_data mode p) div 256)) = length (brcast_data mode p)"
    by (rule le2_le2 [OF assms(3)])
  have one: "le2 1 0 = 1" by (simp add: le2_def)
  show "bytes_ucmd (brcast_bytes j q mode p) =
      \<lparr>uc_cmd = UCMD_BRCAST_CMD, uc_seq = q,
       uc_mode = (case mode of ModeAll \<Rightarrow> 0 | ModeTag t \<Rightarrow> 1 | ModeMulti ids \<Rightarrow> 2),
       uc_tag = (case mode of ModeTag t \<Rightarrow> t mod 256 | _ \<Rightarrow> uint (j 5)),
       uc_datalen = length (brcast_data mode p), uc_data = brcast_data mode p\<rparr>"
    using q n one k(1)
    by (cases mode) (simp_all add: bytes_ucmd_def brcast_bytes_def le2_bytes_def UCMD_BRCAST_CMD_def uint_word_of_int)
  show "uint (brcast_bytes j q mode p ! 8) = PACKET_UCMD" "length (brcast_bytes j q mode p) = 12 + length (brcast_data mode p)"
    by (cases mode; simp add: brcast_bytes_def le2_bytes_def PACKET_UCMD_def)+
qed

lemma search_ids:
  assumes "\<forall>i \<in> set ids. - (2 ^ 31) \<le> i \<and> i < 2 ^ 31"
  shows "search_id me (length ids) (concat (map id_bytes ids) @ bs) = Some (me \<in> set ids)"
  using assms by (induction ids) (auto simp: le_int_le4)

lemma length_ids: "length (concat (map id_bytes ids)) = 4 * length ids"
  by (induction ids) simp_all

lemma handle_line_text:
  assumes "CHR 0x00 \<notin> set x" and "x \<noteq> []" and "hd x \<noteq> CHR 0x02" and "cl_reged c"
  shows "handle_line (to_bytes x @ [0]) l c = do { (e, m) \<leftarrow> parse_cmd x no_cmd; ensure (c_cmd m \<noteq> []); ev_cmd m c }"
proof -
  have inj: "of_char a = (of_char b :: byte) \<longleftrightarrow> a = b" for a b
  proof
    assume "of_char a = (of_char b :: byte)"
    then have "to_text (to_bytes [a]) = to_text (to_bytes [b])" by (simp add: to_bytes_def)
    then show "a = b" by simp
  qed simp
  have two: "of_char (CHR 0x02) = (2 :: byte)" and zero: "of_char (CHR 0x00) = (0 :: byte)" by simp_all
  have z: "of_char a = (0 :: byte) \<longleftrightarrow> a = CHR 0x00" for a using inj [of a "CHR 0x00"] unfolding zero .
  have t: "of_char a = (2 :: byte) \<longleftrightarrow> a = CHR 0x02" for a using inj [of a "CHR 0x02"] unfolding two .
  have "0 \<notin> set (to_bytes x)"
  proof
    assume "0 \<in> set (to_bytes x)"
    then obtain a where a: "a \<in> set x" "(0 :: byte) = of_char a" unfolding to_bytes_def set_map by blast
    have "a = CHR 0x00" using z [of a] a(2) [symmetric] by (rule iffD1)
    then show False using assms(1) a(1) by blast
  qed
  then have nz: "b \<noteq> 0" if "b \<in> set (to_bytes x)" for b using that by blast
  have tw: "takeWhile (\<lambda>b. b \<noteq> 0) (to_bytes x @ [0]) = to_bytes x" by (subst takeWhile_append2 [OF nz]) simp_all
  have "hd (to_bytes x @ [0]) \<noteq> 2" using assms(2,3) t by (cases x) (auto simp: to_bytes_def)
  then show ?thesis using tw assms(4) by (simp add: handle_line_def bytes_string_def)
qed

text \<open>
  C23. A broadcast of the server, byte by byte as it is sent, is taken by a registered client that has
  not seen its number exactly when it is addressed to it, as everybody, as a device of its tag or by
  its id; then the client does what the text of the command says. Other clients only note the number.
\<close>

theorem broadcast_reaches_addressed:
  assumes "0 \<le> q" and "q < 65536" and "length (brcast_bytes j q mode (Text x)) \<le> nat (CMD_MAX - 100)"
    and "case mode of ModeTag t \<Rightarrow> 0 \<le> t \<and> t < 256 | ModeMulti ids \<Rightarrow> \<forall>i \<in> set ids. - (2 ^ 31) \<le> i \<and> i < 2 ^ 31 | ModeAll \<Rightarrow> True"
    and "CHR 0x00 \<notin> set x" and "x \<noteq> []" and "hd x \<noteq> CHR 0x02"
    and "cl_reged c" and "recent_window (cl_recent_ucmd c) w" and "word_of_int q \<notin> set w"
  shows "\<exists>c1. keeps_ring (c\<lparr>cl_recent_ucmd := cl_recent_ucmd c1\<rparr>) c1
    \<and> recent_window (cl_recent_ucmd c1) (word_of_int q # butlast w)
    \<and> recv_udp mem (brcast_bytes j q mode (Text x)) c
      = (if addressed_to mode c
         then do { (e, m) \<leftarrow> parse_cmd x no_cmd; ensure (c_cmd m \<noteq> []); ev_cmd m c1 } else Some c1)"
proof -
  let ?bs = "brcast_bytes j q mode (Text x)" and ?r = "recent_test (word_of_int q) (cl_recent_ucmd c)"
  define c1 where "c1 = c\<lparr>cl_recent_ucmd := snd ?r\<rparr>"
  have len: "length (brcast_data mode (Text x)) < 65536"
    using assms(3) brcast_head(3) [OF assms(1,2)] by (cases mode) (auto simp: CMD_MAX_def brcast_bytes_def le2_bytes_def)
  note head = brcast_head [OF assms(1,2) len]
  have new: "\<not> fst ?r" using recent_seen [OF assms(9)] assms(10) by simp
  have c1: "cl_id c1 = cl_id c" "cl_tag c1 = cl_tag c" "cl_reged c1" using assms(8) by (simp_all add: c1_def)
  note line = handle_line_text [OF assms(5-7) c1(3)]
  have "recv_udp mem ?bs c = handle_ucmd (bytes_ucmd ?bs) c"
    using head(2,3) by (simp add: recv_udp_def PACK_HEAD_LEN_def udp_recved_def)
  also have "\<dots> = (if addressed_to mode c
         then do { (e, m) \<leftarrow> parse_cmd x no_cmd; ensure (c_cmd m \<noteq> []); ev_cmd m c1 } else Some c1)"
  proof (cases mode)
    case (ModeMulti ids)
    have ids: "\<forall>i \<in> set ids. - (2 ^ 31) \<le> i \<and> i < 2 ^ 31" using assms(4) ModeMulti by simp
    have n: "int (length ids) < 2 ^ 31" using len ModeMulti by (simp add: brcast_data_def length_ids)
    define D where "D = brcast_data mode (Text x)"
    have D: "D = id_bytes (int (length ids)) @ concat (map id_bytes ids) @ to_bytes x @ [0]"
      using ModeMulti by (simp add: D_def brcast_data_def payload_bytes_def)
    have first: "le_int D = int (length ids)" unfolding D by (rule le_int_le4) (use n in simp_all)
    have drop4: "drop 4 D = concat (map id_bytes ids) @ to_bytes x @ [0]" by (simp add: D)
    have found: "search_id (cl_id c) (length ids) (drop 4 D) = Some (cl_id c \<in> set ids)"
      unfolding drop4 by (rule search_ids [OF ids])
    have rest: "drop ((1 + length ids) * 4) D = to_bytes x @ [0]"
    proof -
      have "drop ((1 + length ids) * 4) D = drop (4 * length ids) (drop 4 D)" by (simp add: ac_simps)
      then show ?thesis unfolding drop4 using length_ids [of ids] by simp
    qed
    have "length D \<ge> 4" by (simp add: D)
    then show ?thesis
      using new c1 found first line rest ModeMulti unfolding head(1) D_def [symmetric]
      by (simp add: handle_ucmd_def handle_brcast_cmd_def is_ucmd_recved_def split_beta c1_def [symmetric] addressed_to_def)
  qed (use new c1 line assms(4) in \<open>unfold head(1), simp_all add: handle_ucmd_def handle_brcast_cmd_def is_ucmd_recved_def
        split_beta c1_def [symmetric] addressed_to_def brcast_data_def payload_bytes_def\<close>)
  finally have run: "recv_udp mem ?bs c = (if addressed_to mode c
         then do { (e, m) \<leftarrow> parse_cmd x no_cmd; ensure (c_cmd m \<noteq> []); ev_cmd m c1 } else Some c1)" .
  have "recent_window (cl_recent_ucmd c1) (word_of_int q # butlast w)" using recent_new [OF assms(9,10)] by (simp add: c1_def)
  moreover have "keeps_ring (c\<lparr>cl_recent_ucmd := cl_recent_ucmd c1\<rparr>) c1" by (simp add: c1_def)
  ultimately show ?thesis using run by blast
qed

text \<open>Everything is stopped for the devices 7 and 8.\<close>

lemma demo_client_ring: "recent_window (cl_recent_ucmd (demo_client i)) (replicate 8 0)" "cl_reged (demo_client i)"
  using recent_window_init [of 8] by (simp_all add: demo_client_def client_start_def)

theorem broadcast_reaches_addressed_witness:
  "let x = cmd_line [num_str 0, ''discctrl'', ''stop'', ''OK'']
   in \<exists>c1. recv_udp (\<lambda>_. 0) (brcast_bytes (\<lambda>_. 0) 1 (ModeMulti [7, 8]) (Text x)) (demo_client 7) = Some (raise EvDiscStop c1)"
proof -
  define x where "x = cmd_line (num_str 0 # ''discctrl'' # [''stop'', ''OK''])"
  have m: "parse_cmd x no_cmd = Some (0, no_cmd\<lparr>c_dev := 0, c_cmd := ''discctrl'', c_args := [''stop'', ''OK'']\<rparr>)"
    unfolding x_def by (rule parse_cmd_line) (simp_all add: is_word_def cmd_sep_def)
  have x: "x = ''0 discctrl stop OK'' @ newline" unfolding x_def by code_simp
  have fits: "length (brcast_bytes (\<lambda>_. 0) 1 (ModeMulti [7, 8]) (Text x)) \<le> nat (CMD_MAX - 100)" unfolding x by code_simp
  have ev: "ev_cmd (no_cmd\<lparr>c_dev := 0, c_cmd := ''discctrl'', c_args := [''stop'', ''OK'']\<rparr>) c1 = Some (raise EvDiscStop c1)" for c1
    by (simp add: ev_cmd_def ev_discctrl_def arg_def checkok_def)
  have t: "CHR 0x00 \<notin> set x" "x \<noteq> []" "hd x \<noteq> CHR 0x02" unfolding x by (simp_all add: newline_def)
  have "\<exists>c1. keeps_ring ((demo_client 7)\<lparr>cl_recent_ucmd := cl_recent_ucmd c1\<rparr>) c1
    \<and> recent_window (cl_recent_ucmd c1) (word_of_int 1 # butlast (replicate 8 0))
    \<and> recv_udp (\<lambda>_. 0) (brcast_bytes (\<lambda>_. 0) 1 (ModeMulti [7, 8]) (Text x)) (demo_client 7)
      = (if addressed_to (ModeMulti [7, 8]) (demo_client 7)
         then do { (e, m) \<leftarrow> parse_cmd x no_cmd; ensure (c_cmd m \<noteq> []); ev_cmd m c1 } else Some c1)"
    by (rule broadcast_reaches_addressed [OF _ _ fits _ t demo_client_ring(2,1)]) simp_all
  then show ?thesis unfolding x_def [symmetric] Let_def using ev by (auto simp: m addressed_to_def)
qed

end
