(* ===== verification/Client_Video.thy ===== *)
theory Client_Video
  imports Client_Wire "HOL-Library.Multiset"
begin

text \<open>
  A video frame is cut into fragments by send_video and put together by video_recved
  (client/client.c): the fragments of a frame make it up again whatever their order.
\<close>

subsection \<open>The fragments that are sent\<close>

text \<open>Offset and bytes of each fragment.\<close>

definition pieces :: "byte list \<Rightarrow> (nat \<times> byte list) list" where
  "pieces buf =
     (let n = length buf div FRAGSIZE; m = length buf mod FRAGSIZE
      in map (\<lambda>i. (i * FRAGSIZE, take FRAGSIZE (drop (i * FRAGSIZE) buf))) [0..<n]
         @ (if m \<noteq> 0 then [(n * FRAGSIZE, take m (drop (n * FRAGSIZE) buf))] else []))"

definition frag_dgram :: "client \<Rightarrow> nat \<Rightarrow> nat \<times> byte list \<Rightarrow> upack \<times> nat" where
  "frag_dgram c n x = (frag_pack c n (fst x) (snd x), PACK_HEAD_LEN + 4 + length (snd x))"

text \<open>The client whose frame number is the next one.\<close>

definition next_frame :: "client \<Rightarrow> client" where
  "next_frame c = c\<lparr>cl_fseq := (cl_fseq c + 1) mod 256\<rparr>"

definition frags_of :: "byte list \<Rightarrow> client \<Rightarrow> (upack \<times> nat) list" where
  "frags_of buf c = map (frag_dgram (next_frame c) (length buf)) (pieces buf)"

lemma do_send_video_sel [simp]:
  "cl_out (do_send_video p l c) = cl_out c @ [UdpTo (cl_serv c, SERVER_PORT) p l]"
  "cl_serv (do_send_video p l c) = cl_serv c" "cl_id (do_send_video p l c) = cl_id c"
  "cl_fseq (do_send_video p l c) = cl_fseq c"
  by (simp_all add: do_send_video_def)

lemma frag_pack_cong: "cl_id c = cl_id d \<Longrightarrow> cl_fseq c = cl_fseq d \<Longrightarrow> frag_pack c n off bs = frag_pack d n off bs"
  by (simp add: frag_pack_def)

lemma frag_dgram_sent [simp]: "frag_dgram (do_send_video p l c) = frag_dgram c"
  by (intro ext) (simp add: frag_dgram_def frag_pack_def)

lemma send_frags_out:
  assumes "(i + k) * FRAGSIZE \<le> length buf"
  shows "cl_out (send_frags i k buf c) = cl_out c
      @ map (\<lambda>j. case frag_dgram c (length buf) (j * FRAGSIZE, take FRAGSIZE (drop (j * FRAGSIZE) buf)) of
               (p, l) \<Rightarrow> UdpTo (cl_serv c, SERVER_PORT) p l) [i..<i + k]
    \<and> cl_serv (send_frags i k buf c) = cl_serv c \<and> cl_id (send_frags i k buf c) = cl_id c
    \<and> cl_fseq (send_frags i k buf c) = cl_fseq c"
  using assms
proof (induction k arbitrary: i c)
  case (Suc k)
  let ?p = "frag_pack c (length buf) (i * FRAGSIZE) (take FRAGSIZE (drop (i * FRAGSIZE) buf))"
  let ?c = "do_send_video ?p (PACK_HEAD_LEN + 4 + FRAGSIZE) c"
  have le: "i * FRAGSIZE + FRAGSIZE \<le> length buf" "(Suc i + k) * FRAGSIZE \<le> length buf"
    using Suc.prems by (simp_all add: algebra_simps)
  have "[i..<i + Suc k] = i # [Suc i..<Suc i + k]" by (simp add: upt_rec)
  moreover have "min (length buf - i * FRAGSIZE) FRAGSIZE = FRAGSIZE" using le(1) by linarith
  ultimately show ?case using Suc.IH [OF le(2), of ?c] by (simp add: frag_dgram_def min.commute)
qed simp

lemma send_video_out:
  "cl_out (send_video buf c) = cl_out c @ map (\<lambda>(p, l). UdpTo (cl_serv c, SERVER_PORT) p l) (frags_of buf c)"
proof -
  let ?n = "length buf div FRAGSIZE" and ?m = "length buf mod FRAGSIZE"
  have F: "FRAGSIZE > 0" by (simp add: FRAGSIZE_def)
  have nm: "?n * FRAGSIZE + ?m = length buf" by simp
  have "(0 + ?n) * FRAGSIZE \<le> length buf" by simp
  from send_frags_out [OF this, of "next_frame c"]
  have s: "cl_out (send_frags 0 ?n buf (next_frame c)) = cl_out c
      @ map (\<lambda>j. case frag_dgram (next_frame c) (length buf) (j * FRAGSIZE, take FRAGSIZE (drop (j * FRAGSIZE) buf)) of
               (p, l) \<Rightarrow> UdpTo (cl_serv c, SERVER_PORT) p l) [0..<?n]"
    "cl_serv (send_frags 0 ?n buf (next_frame c)) = cl_serv c" "cl_id (send_frags 0 ?n buf (next_frame c)) = cl_id (next_frame c)"
    "cl_fseq (send_frags 0 ?n buf (next_frame c)) = cl_fseq (next_frame c)"
    by (simp_all add: next_frame_def)
  have len: "length (take ?m (drop (?n * FRAGSIZE) buf)) = ?m" by (simp add: minus_div_mult_eq_mod)
  have f: "frag_pack (send_frags 0 ?n buf (next_frame c)) k off bs = frag_pack (next_frame c) k off bs" for k off bs
    by (rule frag_pack_cong) (simp_all add: s)
  show ?thesis
    unfolding send_video_def Let_def next_frame_def [symmetric] frags_of_def pieces_def
    by (simp add: s(1,2) f comp_def frag_dgram_def len minus_div_mult_eq_mod del: take_drop)
qed

subsection \<open>What the fragments cover\<close>

definition span :: "nat \<times> byte list \<Rightarrow> nat set" where
  "span x = {fst x..<fst x + length (snd x)}"

definition frags_ok :: "byte list \<Rightarrow> (nat \<times> byte list) list \<Rightarrow> bool" where
  "frags_ok buf xs \<longleftrightarrow>
     distinct xs \<and> (\<forall>x \<in> set xs. snd x \<noteq> [] \<and> length (snd x) \<le> FRAGSIZE \<and> fst x + length (snd x) \<le> length buf
       \<and> (\<forall>j < length (snd x). snd x ! j = buf ! (fst x + j)))
     \<and> (\<forall>x \<in> set xs. \<forall>y \<in> set xs. x \<noteq> y \<longrightarrow> span x \<inter> span y = {})
     \<and> (\<Union>x \<in> set xs. span x) = {..<length buf}"

lemma pieces_mem:
  "x \<in> set (pieces buf) \<longleftrightarrow>
     (\<exists>i. i * FRAGSIZE < length buf \<and> x = (i * FRAGSIZE, take FRAGSIZE (drop (i * FRAGSIZE) buf)))"
proof -
  let ?n = "length buf div FRAGSIZE" and ?m = "length buf mod FRAGSIZE"
  have F: "FRAGSIZE > 0" by (simp add: FRAGSIZE_def)
  have nm: "length buf = ?n * FRAGSIZE + ?m" "?m < FRAGSIZE" using F by simp_all
  have last: "take ?m (drop (?n * FRAGSIZE) buf) = take FRAGSIZE (drop (?n * FRAGSIZE) buf)"
    using nm(2) by (simp add: minus_div_mult_eq_mod)
  have lt: "i * FRAGSIZE < length buf \<longleftrightarrow> i < ?n \<or> i = ?n \<and> ?m \<noteq> 0" for i
  proof (cases i ?n rule: linorder_cases)
    case less
    then have "Suc i * FRAGSIZE \<le> ?n * FRAGSIZE" by (intro mult_le_mono1) simp
    then have "i * FRAGSIZE + FRAGSIZE \<le> ?n * FRAGSIZE" by simp
    then have "i * FRAGSIZE < length buf" using nm(1) F by linarith
    then show ?thesis using less by simp
  next
    case equal
    have "a = b + k \<Longrightarrow> b < a \<longleftrightarrow> k \<noteq> 0" for a b k :: nat by auto
    from this [OF nm(1)] show ?thesis using equal by simp
  next
    case greater
    then have "Suc ?n * FRAGSIZE \<le> i * FRAGSIZE" by (intro mult_le_mono1) simp
    then have "?n * FRAGSIZE + FRAGSIZE \<le> i * FRAGSIZE" by simp
    then show ?thesis using nm greater by linarith
  qed
  have "x \<in> set (pieces buf) \<longleftrightarrow> (\<exists>i. (i < ?n \<or> i = ?n \<and> ?m \<noteq> 0) \<and> x = (i * FRAGSIZE, take FRAGSIZE (drop (i * FRAGSIZE) buf)))"
    unfolding pieces_def Let_def last by auto
  then show ?thesis unfolding lt .
qed

lemma frags_ok_pieces: "frags_ok buf (pieces buf)"
  unfolding frags_ok_def
proof (intro conjI ballI impI)
  have F: "FRAGSIZE > 0" by (simp add: FRAGSIZE_def)
  have inj: "i * FRAGSIZE = j * FRAGSIZE \<longleftrightarrow> i = j" for i j using F by simp
  show "distinct (pieces buf)"
    unfolding pieces_def Let_def by (auto simp: distinct_map inj_on_def inj)
  show "(\<Union>x \<in> set (pieces buf). span x) = {..<length buf}"
  proof (intro set_eqI iffI)
    fix j assume "j \<in> (\<Union>x \<in> set (pieces buf). span x)"
    then show "j \<in> {..<length buf}" by (auto simp: pieces_mem span_def)
  next
    fix j assume j: "j \<in> {..<length buf}"
    have e: "j = j div FRAGSIZE * FRAGSIZE + j mod FRAGSIZE" "j mod FRAGSIZE < FRAGSIZE" using F by simp_all
    let ?x = "(j div FRAGSIZE * FRAGSIZE, take FRAGSIZE (drop (j div FRAGSIZE * FRAGSIZE) buf))"
    have lt: "j div FRAGSIZE * FRAGSIZE < length buf" using j le_less_trans [OF div_times_less_eq_dividend [of j FRAGSIZE]] by simp
    then have "?x \<in> set (pieces buf)" unfolding pieces_mem by blast
    moreover have "j \<in> span ?x"
    proof -
      obtain b where b: "b = j div FRAGSIZE * FRAGSIZE" by blast
      have "j = b + j mod FRAGSIZE" using e(1) unfolding b .
      then have "b \<le> j" "j < b + min (length buf - b) FRAGSIZE" using e(2) j by (simp_all add: min_def)
      then show ?thesis unfolding span_def b by simp
    qed
    ultimately show "j \<in> (\<Union>x \<in> set (pieces buf). span x)" by blast
  qed
next
  fix x assume "x \<in> set (pieces buf)"
  then obtain i where x: "i * FRAGSIZE < length buf" "x = (i * FRAGSIZE, take FRAGSIZE (drop (i * FRAGSIZE) buf))"
    unfolding pieces_mem by blast
  show "snd x \<noteq> []" "length (snd x) \<le> FRAGSIZE" "fst x + length (snd x) \<le> length buf"
    using x by (auto simp: FRAGSIZE_def)
  show "\<forall>j < length (snd x). snd x ! j = buf ! (fst x + j)" using x by simp
next
  fix x y assume "x \<in> set (pieces buf)" "y \<in> set (pieces buf)" and ne: "x \<noteq> y"
  then obtain i j where xy: "x = (i * FRAGSIZE, take FRAGSIZE (drop (i * FRAGSIZE) buf))"
    "y = (j * FRAGSIZE, take FRAGSIZE (drop (j * FRAGSIZE) buf))" unfolding pieces_mem by blast
  have "i * FRAGSIZE + FRAGSIZE \<le> j * FRAGSIZE \<or> j * FRAGSIZE + FRAGSIZE \<le> i * FRAGSIZE"
  proof (cases i j rule: linorder_cases)
    case less
    then have "Suc i * FRAGSIZE \<le> j * FRAGSIZE" by (intro mult_le_mono1) simp
    then show ?thesis by simp
  next
    case greater
    then have "Suc j * FRAGSIZE \<le> i * FRAGSIZE" by (intro mult_le_mono1) simp
    then show ?thesis by simp
  qed (use ne xy in simp)
  then show "span x \<inter> span y = {}" unfolding xy by (auto simp: span_def)
qed

subsection \<open>The frame that is received\<close>

text \<open>What a client has of the frame buf with the tag t, when the places of C have come.\<close>

definition frame_part :: "byte list \<Rightarrow> int \<Rightarrow> nat set \<Rightarrow> client \<Rightarrow> bool" where
  "frame_part buf t C r \<longleftrightarrow>
     (if C = {} then cl_frame_seq r \<noteq> t
      else cl_frame_seq r = t \<and> cl_frame_len r = int (card C) \<and> length buf \<le> length (cl_frame r)
        \<and> (\<forall>j \<in> C. cl_frame r ! j = buf ! j))"

lemma overwrite_nth:
  assumes "off + length bs \<le> length xs" and "j < length xs"
  shows "(take off xs @ bs @ drop (off + length bs) xs) ! j = (if off \<le> j \<and> j < off + length bs then bs ! (j - off) else xs ! j)"
  using assms by (auto simp: nth_append min_def)

lemma length_be4 [simp]: "length (be4_bytes w) = 4"
  by (simp add: be4_bytes_def)

lemma sint_small: "n < 2 ^ 31 \<Longrightarrow> sint (word_of_nat n :: 32 word) = int n"
proof -
  assume n: "n < 2 ^ 31"
  have "sint (word_of_int (int n) :: 32 word) = int n"
    unfolding signed_of_int using n by (simp add: signed_take_bit_int_eq_self)
  then show "sint (word_of_nat n :: 32 word) = int n" by simp
qed

lemma video_recved_piece:
  assumes part: "frame_part buf (cl_fseq c) C r" and C: "C \<subseteq> {..<length buf}" "C \<inter> span x = {}"
    and x: "snd x \<noteq> []" "length (snd x) \<le> FRAGSIZE" "fst x + length (snd x) \<le> length buf"
      "\<forall>j < length (snd x). snd x ! j = buf ! (fst x + j)"
    and len: "length buf < 2 ^ 31" and t: "cl_fseq c \<noteq> -1"
  shows "\<exists>r1. (case frag_dgram c (length buf) x of (p, l) \<Rightarrow> video_recved mem p l r) = Some r1
    \<and> (if C \<union> span x = {..<length buf}
       then cl_out r1 = cl_out r @ [Event (EvVideo buf)] \<and> cl_frame_seq r1 = -1
       else cl_out r1 = cl_out r \<and> frame_part buf (cl_fseq c) (C \<union> span x) r1)"
proof -
  obtain off bs where xx: "x = (off, bs)" by (cases x)
  let ?N = "length buf" and ?D = "C \<union> span x"
  define p where "p = frag_pack c ?N off bs"
  have dl: "(4 + length bs) mod 65536 = 4 + length bs" using x(2) xx by (simp add: FRAGSIZE_def)
  have p: "up_tag p = cl_fseq c" "up_datalen p = 4 + length bs" "sint (up_seq p) = int ?N" "sint (ntohl (up_data p)) = int off"
    "drop 4 (pack_bytes p) = bs" "pack_size p = PACK_HEAD_LEN + 4 + length bs"
  proof -
    have "off < 2 ^ 31" using len x(3) xx by simp
    then show "sint (ntohl (up_data p)) = int off" by (simp add: p_def frag_pack_def sint_small)
    show "sint (up_seq p) = int ?N" using len by (simp add: p_def frag_pack_def sint_small)
    show "drop 4 (pack_bytes p) = bs" by (simp add: p_def frag_pack_def pack_bytes_def dl)
  qed (simp_all add: p_def frag_pack_def pack_size_def dl)
  define r0 where "r0 = (if cl_frame_seq r \<noteq> up_tag p then r\<lparr>cl_frame_seq := up_tag p, cl_frame_len := 0\<rparr> else r)"
  define frame where "frame = (if length (cl_frame r0) < ?N then cl_frame r0 @ map mem [length (cl_frame r0)..<?N] else cl_frame r0)"
  define frame1 where "frame1 = take off frame @ bs @ drop (off + length bs) frame"
  have r0: "cl_frame_seq r0 = cl_fseq c" "cl_frame_len r0 = int (card C)" "cl_frame r0 = cl_frame r" "cl_out r0 = cl_out r"
    using part p(1) by (auto simp: r0_def frame_part_def split: if_splits)
  have fl: "?N \<le> length frame" by (simp add: frame_def)
  have old: "frame ! j = buf ! j" if "j \<in> C" for j
    using that part C(1) by (auto simp: frame_def frame_part_def r0(3) split: if_splits)
  have new: "frame1 ! j = buf ! j" if "j \<in> ?D" for j
  proof -
    have "j < length frame" using that C(1) x(3) fl by (auto simp: span_def)
    then show ?thesis
      unfolding frame1_def using that old x xx fl by (subst overwrite_nth) (auto simp: span_def)
  qed
  have fl1: "length frame1 = length frame" using fl x(3) xx by (simp add: frame1_def)
  have fin: "finite C" "finite (span x)" using C(1) finite_subset by (auto simp: span_def)
  have card: "card ?D = card C + length bs" using card_Un_disjoint [OF fin C(2)] xx by (simp add: span_def)
  have full: "card ?D = ?N \<longleftrightarrow> ?D = {..<?N}"
  proof
    assume "card ?D = ?N"
    moreover have "?D \<subseteq> {..<?N}" using C(1) x(3) by (auto simp: span_def)
    ultimately show "?D = {..<?N}" by (intro card_subset_eq) simp_all
  qed simp
  have run: "video_recved mem p (PACK_HEAD_LEN + 4 + length bs) r
    = Some (if card ?D = ?N
            then (raise (EvVideo (take ?N frame1)) (r0\<lparr>cl_frame := frame1, cl_frame_len := int (card ?D)\<rparr>))
              \<lparr>cl_frame_seq := -1, cl_frame_len := 0\<rparr>
            else r0\<lparr>cl_frame := frame1, cl_frame_len := int (card ?D)\<rparr>)"
  proof -
    have eqf: "(if int (length (cl_frame r0)) < int ?N then cl_frame r0 @ map mem [length (cl_frame r0)..<nat (int ?N)] else cl_frame r0)
        = frame" by (simp add: frame_def)
    have bnd: "bs \<noteq> []" "off + length bs \<le> length frame" using x(1,3) xx fl by simp_all
    show ?thesis
      unfolding video_recved_def p(6) r0_def [symmetric] Let_def p(3) p(4) p(5) p(2) eqf r0(2)
      by (simp add: bnd card frame1_def [symmetric] of_nat_add [symmetric] del: of_nat_add)
  qed
  have dg: "frag_dgram c ?N x = (p, PACK_HEAD_LEN + 4 + length bs)" by (simp add: frag_dgram_def p_def xx)
  show ?thesis
  proof (cases "?D = {..<?N}")
    case True
    have "take ?N frame1 = buf" by (rule nth_equalityI) (use fl fl1 new True in auto)
    then show ?thesis using run full True dg r0(4) by simp
  next
    case False
    have "span x \<noteq> {}" using x(1) xx by (simp add: span_def)
    then show ?thesis using run full False dg r0 new fl fl1 by (simp add: frame_part_def)
  qed
qed

lemma video_recved_pieces:
  assumes "frame_part buf (cl_fseq c) C r" and "xs \<noteq> []" and "C \<union> (\<Union>x \<in> set xs. span x) = {..<length buf}"
    and "\<forall>x \<in> set xs. C \<inter> span x = {}" and "distinct xs" and "\<forall>x \<in> set xs. \<forall>y \<in> set xs. x \<noteq> y \<longrightarrow> span x \<inter> span y = {}"
    and "\<forall>x \<in> set xs. snd x \<noteq> [] \<and> length (snd x) \<le> FRAGSIZE \<and> fst x + length (snd x) \<le> length buf
       \<and> (\<forall>j < length (snd x). snd x ! j = buf ! (fst x + j))"
    and "length buf < 2 ^ 31" and "cl_fseq c \<noteq> -1"
  shows "\<exists>r1. foldM (\<lambda>(p, l). video_recved mem p l) (map (frag_dgram c (length buf)) xs) r = Some r1
    \<and> cl_out r1 = cl_out r @ [Event (EvVideo buf)] \<and> cl_frame_seq r1 = -1"
  using assms
proof (induction xs arbitrary: C r)
  case (Cons x xs)
  let ?D = "C \<union> span x"
  have x: "snd x \<noteq> []" "length (snd x) \<le> FRAGSIZE" "fst x + length (snd x) \<le> length buf"
      "\<forall>j < length (snd x). snd x ! j = buf ! (fst x + j)" using Cons.prems(7) by auto
  have C: "C \<subseteq> {..<length buf}" "C \<inter> span x = {}" using Cons.prems(3,4) by auto
  obtain r1 where r1: "(case frag_dgram c (length buf) x of (p, l) \<Rightarrow> video_recved mem p l r) = Some r1"
    "if ?D = {..<length buf} then cl_out r1 = cl_out r @ [Event (EvVideo buf)] \<and> cl_frame_seq r1 = -1
     else cl_out r1 = cl_out r \<and> frame_part buf (cl_fseq c) ?D r1"
    using video_recved_piece [OF Cons.prems(1) C x Cons.prems(8,9), of mem] by blast
  show ?case
  proof (cases xs)
    case Nil
    then show ?thesis using r1 Cons.prems(3) by (simp add: split_beta)
  next
    case (Cons y ys)
    then have y: "y \<in> set xs" "x \<noteq> y" using Cons.prems(5) by auto
    have "span y \<noteq> {}" using Cons.prems(7) y(1) by (auto simp: span_def)
    moreover have "?D \<inter> span y = {}" using Cons.prems(4,6) y by auto
    moreover have "span y \<subseteq> {..<length buf}" using Cons.prems(3) y(1) by auto
    ultimately have "?D \<noteq> {..<length buf}" by blast
    then have part: "frame_part buf (cl_fseq c) ?D r1" and out: "cl_out r1 = cl_out r" using r1(2) by simp_all
    have "\<exists>r2. foldM (\<lambda>(p, l). video_recved mem p l) (map (frag_dgram c (length buf)) xs) r1 = Some r2
        \<and> cl_out r2 = cl_out r1 @ [Event (EvVideo buf)] \<and> cl_frame_seq r2 = -1"
    proof (rule Cons.IH [OF part])
      show "?D \<union> (\<Union>x \<in> set xs. span x) = {..<length buf}" using Cons.prems(3) by auto
      show "\<forall>z \<in> set xs. ?D \<inter> span z = {}" using Cons.prems(4,5,6) by auto
    qed (use Cons.prems Cons in auto)
    then show ?thesis using r1(1) out by (cases "frag_dgram c (length buf) x") simp
  qed
qed simp

lemma mset_map_perm:
  assumes "mset ys = image_mset f (mset zs)"
  shows "\<exists>xs. ys = map f xs \<and> mset xs = mset zs"
  using assms
proof (induction ys arbitrary: zs)
  case (Cons y ys)
  have "y \<in># image_mset f (mset zs)" unfolding Cons.prems [symmetric] by simp
  then obtain z where z: "z \<in> set zs" "y = f z" by auto
  have "mset zs = add_mset z (mset (remove1 z zs))" using z(1) by simp
  then have "image_mset f (mset zs) = add_mset (f z) (image_mset f (mset (remove1 z zs)))" by (metis image_mset_add_mset)
  then have "mset ys = image_mset f (mset (remove1 z zs))" using Cons.prems z(2) by (metis add_mset_add_mset_same_iff mset.simps(2))
  from Cons.IH [OF this] obtain xs where "ys = map f xs" "mset xs = mset (remove1 z zs)" by blast
  then have "y # ys = map f (z # xs)" "mset (z # xs) = mset zs" using z by simp_all
  then show ?case by (intro exI [of _ "z # xs"] conjI)
qed simp

text \<open>
  C24. A video frame survives being cut up: whatever the order in which the datagrams that send_video
  hands to the network arrive, a client that is not in the middle of a frame with the same number
  reports exactly the frame that was sent, once, and is ready for the next one.
\<close>

theorem video_roundtrip:
  assumes "buf \<noteq> []" and "length buf < 2 ^ 31" and "mset dgrams = mset (frags_of buf c)"
    and "0 \<le> cl_fseq c" and "cl_frame_seq r \<noteq> (cl_fseq c + 1) mod 256"
  shows "cl_out (send_video buf c) = cl_out c @ map (\<lambda>(p, l). UdpTo (cl_serv c, SERVER_PORT) p l) (frags_of buf c)
    \<and> (\<exists>r1. foldM (\<lambda>(p, l). video_recved mem p l) dgrams r = Some r1
         \<and> cl_out r1 = cl_out r @ [Event (EvVideo buf)] \<and> cl_frame_seq r1 = -1)"
proof -
  let ?n = "next_frame c"
  obtain xs where xs: "dgrams = map (frag_dgram ?n (length buf)) xs" "mset xs = mset (pieces buf)"
    using mset_map_perm [of dgrams "frag_dgram ?n (length buf)" "pieces buf"] assms(3) by (auto simp: frags_of_def)
  have set: "set xs = set (pieces buf)" "distinct xs"
    using mset_eq_setD [OF xs(2)] mset_eq_imp_distinct_iff [OF xs(2)] frags_ok_pieces [of buf] by (simp_all add: frags_ok_def)
  have ok: "frags_ok buf xs" using frags_ok_pieces [of buf] set by (simp add: frags_ok_def)
  have ne: "xs \<noteq> []" using ok assms(1) by (auto simp: frags_ok_def)
  have "frame_part buf (cl_fseq ?n) {} r" using assms(5) by (simp add: frame_part_def next_frame_def)
  moreover have "cl_fseq ?n \<noteq> -1" using assms(4) by (simp add: next_frame_def)
  ultimately have "\<exists>r1. foldM (\<lambda>(p, l). video_recved mem p l) (map (frag_dgram ?n (length buf)) xs) r = Some r1
    \<and> cl_out r1 = cl_out r @ [Event (EvVideo buf)] \<and> cl_frame_seq r1 = -1"
    using ne ok assms(2) by (intro video_recved_pieces [where C = "{}"]) (auto simp: frags_ok_def)
  then show ?thesis using xs(1) send_video_out by simp
qed

theorem video_roundtrip_witness:
  "\<exists>r1. foldM (\<lambda>(p, l). video_recved (\<lambda>_. 0) p l) (rev (frags_of (replicate 3000 0x41) (demo_client 7))) (demo_client 8) = Some r1
    \<and> cl_out r1 = cl_out (demo_client 8) @ [Event (EvVideo (replicate 3000 0x41))] \<and> cl_frame_seq r1 = -1"
proof -
  have b: "replicate 3000 (0x41 :: byte) \<noteq> []" "length (replicate 3000 (0x41 :: byte)) < 2 ^ 31" by simp_all
  have s: "0 \<le> cl_fseq (demo_client 7)" "cl_frame_seq (demo_client 8) \<noteq> (cl_fseq (demo_client 7) + 1) mod 256"
    by (simp_all add: demo_client_def client_start_def)
  show ?thesis
    using video_roundtrip [OF b mset_rev s, of "\<lambda>_. 0"] by (elim conjE)
qed

end
