(* ===== verification/Client_Reg.thy ===== *)
theory Client_Reg
  imports Client_Server
begin

text \<open>
  Registration end to end: the state that serv/cmd_reg.c prints for a device, key by key, is the
  state that parse_dev_info of client/client.c gives to the application.
\<close>

subsection \<open>The keys and values of the reply\<close>

definition client_pairs :: "string \<Rightarrow> device \<Rightarrow> db_device \<Rightarrow> group \<Rightarrow> db_group \<Rightarrow>
    db_discuss option \<Rightarrow> db_vote option \<Rightarrow> int \<Rightarrow> (string \<times> string) list" where
  "client_pairs ver D dd G dg dsc dvt members =
     [(''client_version'', if ver = [] then ''0'' else ver), (''user_id'', dd_user_id dd), (''user_name'', dd_user_name dd),
      (''user_gender'', num_str (dd_user_gender dd)), (''tag'', num_str (dd_tagid dd)),
      (''sub'', num_list [dd_sub1 dd, dd_sub2 dd]), (''discuss_mode'', num_str (dg_discuss_mode dg)),
      (''discuss_num'', num_str (if dsc = None then -1 else g_disc_num G)),
      (''discuss_name'', case dsc of None \<Rightarrow> ''0'' | Some r \<Rightarrow> ds_name r),
      (''discuss_nmembers'', num_str (int (length (g_disc_members G)))),
      (''discuss_idlist'', case dsc of None \<Rightarrow> ''0'' | Some r \<Rightarrow> ds_members r),
      (''discuss_userlist'', if dsc = None then ''0'' else g_disc_names G),
      (''discuss_chair'', num_str (dd_discuss_chair dd)), (''discuss_open'', num_str (dd_discuss_open dd)),
      (''regist_start'', num_str (dg_regist_start dg)), (''regist_master'', num_str (dd_regist_master dd)),
      (''regist_mode'', num_str (dg_regist_mode dg)), (''regist_reg'', num_str (d_reg D)),
      (''vote_num'', num_str (if dvt = None then -1 else g_vote_num G)),
      (''vote_nmembers'', num_str (int (length (g_vote_members G)))),
      (''vote_idlist'', case dvt of None \<Rightarrow> ''0'' | Some r \<Rightarrow> dv_members r),
      (''vote_userlist'', if dvt = None then ''0'' else g_vote_names G),
      (''vote_master'', num_str (if dvt = None then 0 else dd_vote_master dd)),
      (''vote_name'', case dvt of None \<Rightarrow> ''0'' | Some r \<Rightarrow> dv_name r),
      (''vote_type'', num_str (case dvt of None \<Rightarrow> 0 | Some r \<Rightarrow> dv_type r)),
      (''vote_options'', case dvt of None \<Rightarrow> ''0'' | Some r \<Rightarrow> dv_options r),
      (''vote_total'', num_str members), (''vote_results'', dg_vote_results dg), (''vote_choice'', num_str (dd_vote_choice dd))]"

lemma client_args_pairs:
  "client_args ver D dd G dg dsc dvt members = map (\<lambda>(k, v). str_arg k v) (client_pairs ver D dd G dg dsc dvt members)"
  by (simp add: client_args_def client_pairs_def num_arg_def str_arg_def num_list_Cons)

text \<open>A text that the separators do not take apart.\<close>

definition value_ok :: "string \<Rightarrow> bool" where
  "value_ok v \<longleftrightarrow> is_word v \<and> (\<forall>ch \<in> set v. ch \<noteq> CHR '':'' \<and> ch \<noteq> CHR ''='' \<and> ch \<noteq> CHR 0x00)"

definition pairs_ok :: "(string \<times> string) list \<Rightarrow> bool" where
  "pairs_ok ps \<longleftrightarrow> (\<forall>(k, v) \<in> set ps. value_ok k \<and> value_ok v)"

lemma foldl_sep_add: "s \<noteq> [] \<Longrightarrow> foldl (sep_add '':'') s xs = s @ concat (map (\<lambda>x. CHR '':'' # x) xs)"
  by (induction xs arbitrary: s) (simp_all add: sep_add_def)

lemma arg_list_Cons: "x \<noteq> [] \<Longrightarrow> arg_list (x # xs) = x @ concat (map (\<lambda>x. CHR '':'' # x) xs)"
  using foldl_sep_add [of x xs] by (simp add: arg_list_def sep_add_def)

lemma tokens_arg_list:
  assumes "\<forall>x \<in> set xs. x \<noteq> [] \<and> CHR '':'' \<notin> set x"
  shows "tokens (\<lambda>c. c = CHR '':'') (arg_list xs) = xs"
  using assms
proof (induction xs)
  case Nil
  then show ?case by (simp add: arg_list_def tokens_Nil)
next
  case (Cons x xs)
  have x: "x \<noteq> []" "\<forall>c \<in> set x. c \<noteq> CHR '':''" using Cons.prems by auto
  show ?case
  proof (cases xs)
    case Nil
    then show ?thesis using tokens_one [OF x] x(1) by (simp add: arg_list_Cons)
  next
    case (Cons y ys)
    have "arg_list (x # xs) = x @ CHR '':'' # arg_list xs" using Cons Cons.prems x by (simp add: arg_list_Cons)
    then show ?thesis
      using tokens_piece [OF x, of "CHR '':''" "arg_list xs"] Cons.IH Cons.prems by simp
  qed
qed

lemma arg_list_chars: "c \<in> set (arg_list xs) \<Longrightarrow> \<forall>x \<in> set xs. x \<noteq> [] \<Longrightarrow> c = CHR '':'' \<or> (\<exists>x \<in> set xs. c \<in> set x)"
proof (cases xs)
  case (Cons y ys)
  assume "c \<in> set (arg_list xs)" "\<forall>x \<in> set xs. x \<noteq> []"
  then show ?thesis unfolding Cons using arg_list_Cons [of y ys] by (auto split: if_splits)
qed (simp add: arg_list_def)

lemma pair_split:
  assumes "value_ok k" and "value_ok v"
  shows "str_split 4 (str_arg k v) (CHR ''='') = Some [k, v]"
proof -
  have k: "k \<noteq> []" "\<forall>c \<in> set k. c \<noteq> CHR ''=''" and v: "v \<noteq> []" "\<forall>c \<in> set v. c \<noteq> CHR ''=''"
    using assms by (auto simp: value_ok_def is_word_def)
  have "str_arg k v = k @ CHR ''='' # v" by (simp add: str_arg_def)
  then have "tokens (\<lambda>c. c = CHR ''='') (str_arg k v) = [k, v]"
    using tokens_piece [OF k, of "CHR ''=''" v] tokens_one [OF v] by simp
  then show ?thesis by (simp add: str_split_def)
qed

lemma parse_infos_pairs:
  assumes "pairs_ok ps"
  shows "parse_infos (map (\<lambda>(k, v). str_arg k v) ps) kv d = foldM (\<lambda>(k, v). set_info k v) ps d"
  using assms
proof (induction ps arbitrary: kv d)
  case (Cons p ps)
  obtain k v where p: "p = (k, v)" by (cases p)
  have kv: "value_ok k" "value_ok v" "pairs_ok ps" using Cons.prems p by (auto simp: pairs_ok_def)
  show ?case using pair_split [OF kv(1,2)] Cons.IH [OF kv(3)] p by (simp add: Let_def split: option.split)
qed simp

subsection \<open>What the application gets\<close>

definition client_view :: "string \<Rightarrow> device \<Rightarrow> db_device \<Rightarrow> group \<Rightarrow> db_group \<Rightarrow>
    db_discuss option \<Rightarrow> db_vote option \<Rightarrow> int \<Rightarrow> int \<Rightarrow> dev_info \<Rightarrow> dev_info" where
  "client_view ver D dd G dg dsc dvt members i junk =
     (let numbers = (\<lambda>v old. str_to_ints (Some v) @ drop (length (str_to_ints (Some v))) old)
      in \<lparr>di_id = i, di_client_version = info_str 64 (if ver = [] then ''0'' else ver),
          di_user_id = info_str 64 (dd_user_id dd), di_user_name = info_str 64 (dd_user_name dd),
          di_user_gender = dd_user_gender dd, di_tag = dd_tagid dd, di_sub = dd_sub1 dd,
          di_discuss_mode = dg_discuss_mode dg, di_discuss_num = (if dsc = None then -1 else g_disc_num G),
          di_discuss_name = info_str 64 (case dsc of None \<Rightarrow> ''0'' | Some r \<Rightarrow> ds_name r),
          di_discuss_nmembers = int (length (g_disc_members G)),
          di_discuss_idlist = numbers (case dsc of None \<Rightarrow> ''0'' | Some r \<Rightarrow> ds_members r) (di_discuss_idlist junk),
          di_discuss_userlist = info_str 10240 (if dsc = None then ''0'' else g_disc_names G),
          di_discuss_chair = dd_discuss_chair dd, di_discuss_open = dd_discuss_open dd,
          di_regist_start = dg_regist_start dg, di_regist_master = dd_regist_master dd,
          di_regist_mode = dg_regist_mode dg, di_regist_reg = d_reg D,
          di_vote_num = (if dvt = None then -1 else g_vote_num G), di_vote_nmembers = int (length (g_vote_members G)),
          di_vote_idlist = numbers (case dvt of None \<Rightarrow> ''0'' | Some r \<Rightarrow> dv_members r) (di_vote_idlist junk),
          di_vote_userlist = info_str 10240 (if dvt = None then ''0'' else g_vote_names G),
          di_vote_master = (if dvt = None then 0 else dd_vote_master dd),
          di_vote_name = info_str 256 (case dvt of None \<Rightarrow> ''0'' | Some r \<Rightarrow> dv_name r),
          di_vote_type = (case dvt of None \<Rightarrow> 0 | Some r \<Rightarrow> dv_type r),
          di_vote_options = info_str 1024 (case dvt of None \<Rightarrow> ''0'' | Some r \<Rightarrow> dv_options r),
          di_vote_total = members, di_vote_results = numbers (dg_vote_results dg) (di_vote_results junk),
          di_vote_choice = dd_vote_choice dd\<rparr>)"

text \<open>The lists fit into the arrays of the structure.\<close>

definition lists_fit :: "db_group \<Rightarrow> db_discuss option \<Rightarrow> db_vote option \<Rightarrow> bool" where
  "lists_fit dg dsc dvt \<longleftrightarrow>
     length (str_to_ints (Some (case dsc of None \<Rightarrow> ''0'' | Some r \<Rightarrow> ds_members r))) \<le> 1024
     \<and> length (str_to_ints (Some (case dvt of None \<Rightarrow> ''0'' | Some r \<Rightarrow> dv_members r))) \<le> 1024
     \<and> length (str_to_ints (Some (dg_vote_results dg))) \<le> 40"

lemma set_info_keys:
  "set_info ''client_version'' v d = Some (d\<lparr>di_client_version := info_str 64 v\<rparr>)"
  "set_info ''user_id'' v d = Some (d\<lparr>di_user_id := info_str 64 v\<rparr>)"
  "set_info ''user_name'' v d = Some (d\<lparr>di_user_name := info_str 64 v\<rparr>)"
  "set_info ''user_gender'' v d = Some (d\<lparr>di_user_gender := atoi v\<rparr>)"
  "set_info ''tag'' v d = Some (d\<lparr>di_tag := atoi v\<rparr>)"
  "set_info ''sub'' v d = info_sub (str_to_ints (Some v)) d"
  "set_info ''discuss_mode'' v d = Some (d\<lparr>di_discuss_mode := atoi v\<rparr>)"
  "set_info ''discuss_num'' v d = Some (d\<lparr>di_discuss_num := atoi v\<rparr>)"
  "set_info ''discuss_name'' v d = Some (d\<lparr>di_discuss_name := info_str 64 v\<rparr>)"
  "set_info ''discuss_nmembers'' v d = Some (d\<lparr>di_discuss_nmembers := atoi v\<rparr>)"
  "set_info ''discuss_idlist'' v d
    = map_option (\<lambda>xs. d\<lparr>di_discuss_idlist := xs\<rparr>) (info_ints 1024 (str_to_ints (Some v)) (di_discuss_idlist d))"
  "set_info ''discuss_userlist'' v d = Some (d\<lparr>di_discuss_userlist := info_str 10240 v\<rparr>)"
  "set_info ''discuss_chair'' v d = Some (d\<lparr>di_discuss_chair := atoi v\<rparr>)"
  "set_info ''discuss_open'' v d = Some (d\<lparr>di_discuss_open := atoi v\<rparr>)"
  by (simp_all add: set_info_def)

lemma set_info_keys2:
  "set_info ''regist_start'' v d = Some (d\<lparr>di_regist_start := atoi v\<rparr>)"
  "set_info ''regist_master'' v d = Some (d\<lparr>di_regist_master := atoi v\<rparr>)"
  "set_info ''regist_mode'' v d = Some (d\<lparr>di_regist_mode := atoi v\<rparr>)"
  "set_info ''regist_reg'' v d = Some (d\<lparr>di_regist_reg := atoi v\<rparr>)"
  "set_info ''vote_num'' v d = Some (d\<lparr>di_vote_num := atoi v\<rparr>)"
  "set_info ''vote_nmembers'' v d = Some (d\<lparr>di_vote_nmembers := atoi v\<rparr>)"
  "set_info ''vote_idlist'' v d
    = map_option (\<lambda>xs. d\<lparr>di_vote_idlist := xs\<rparr>) (info_ints 1024 (str_to_ints (Some v)) (di_vote_idlist d))"
  "set_info ''vote_userlist'' v d = Some (d\<lparr>di_vote_userlist := info_str 10240 v\<rparr>)"
  "set_info ''vote_master'' v d = Some (d\<lparr>di_vote_master := atoi v\<rparr>)"
  "set_info ''vote_name'' v d = Some (d\<lparr>di_vote_name := info_str 256 v\<rparr>)"
  "set_info ''vote_type'' v d = Some (d\<lparr>di_vote_type := atoi v\<rparr>)"
  "set_info ''vote_options'' v d = Some (d\<lparr>di_vote_options := info_str 1024 v\<rparr>)"
  "set_info ''vote_total'' v d = Some (d\<lparr>di_vote_total := atoi v\<rparr>)"
  "set_info ''vote_results'' v d
    = map_option (\<lambda>xs. d\<lparr>di_vote_results := xs\<rparr>) (info_ints 40 (str_to_ints (Some v)) (di_vote_results d))"
  "set_info ''vote_choice'' v d = Some (d\<lparr>di_vote_choice := atoi v\<rparr>)"
  by (simp_all add: set_info_def)

lemma info_sub_two: "info_sub (str_to_ints (Some (num_list [a, b]))) d = Some (d\<lparr>di_sub := a, di_discuss_mode := b\<rparr>)"
  by (simp add: str_to_ints_num_list info_sub_def)

lemma set_infos_view:
  assumes "lists_fit dg dsc dvt"
  shows "foldM (\<lambda>(k, v). set_info k v) (client_pairs ver D dd G dg dsc dvt members) (junk\<lparr>di_id := i\<rparr>)
    = Some (client_view ver D dd G dg dsc dvt members i junk)"
proof -
  have fit: "info_ints 1024 (str_to_ints (Some (case dsc of None \<Rightarrow> ''0'' | Some r \<Rightarrow> ds_members r))) old
      = Some (str_to_ints (Some (case dsc of None \<Rightarrow> ''0'' | Some r \<Rightarrow> ds_members r))
          @ drop (length (str_to_ints (Some (case dsc of None \<Rightarrow> ''0'' | Some r \<Rightarrow> ds_members r)))) old)"
    "info_ints 1024 (str_to_ints (Some (case dvt of None \<Rightarrow> ''0'' | Some r \<Rightarrow> dv_members r))) old
      = Some (str_to_ints (Some (case dvt of None \<Rightarrow> ''0'' | Some r \<Rightarrow> dv_members r))
          @ drop (length (str_to_ints (Some (case dvt of None \<Rightarrow> ''0'' | Some r \<Rightarrow> dv_members r)))) old)"
    "info_ints 40 (str_to_ints (Some (dg_vote_results dg))) old
      = Some (str_to_ints (Some (dg_vote_results dg)) @ drop (length (str_to_ints (Some (dg_vote_results dg)))) old)" for old
    using assms unfolding info_ints_def lists_fit_def by simp_all
  show ?thesis
    unfolding client_pairs_def client_view_def Let_def
    by (cases junk) (simp only: foldM.simps prod.case option.case set_info_keys set_info_keys2 info_sub_two fit option.map
        atoi_num_str dev_info.simps cong: option.case_cong)
qed

lemma pair_text:
  assumes "pairs_ok ps" and "x \<in> set (map (\<lambda>(k, v). str_arg k v) ps)"
  shows "x \<noteq> [] \<and> CHR '':'' \<notin> set x \<and> (\<forall>ch \<in> set x. \<not> cmd_sep ch \<and> ch \<noteq> CHR 0x00)"
proof -
  obtain k v where kv: "(k, v) \<in> set ps" "x = k @ ''='' @ v" using assms(2) by (auto simp: str_arg_def)
  have ok: "value_ok k" "value_ok v" using assms(1) kv(1) by (auto simp: pairs_ok_def)
  have one: "w \<noteq> []" "\<forall>ch \<in> set w. \<not> cmd_sep ch \<and> ch \<noteq> CHR '':'' \<and> ch \<noteq> CHR 0x00" if "value_ok w" for w
    using that by (simp_all add: value_ok_def is_word_def)
  have chars: "\<forall>ch \<in> set k \<union> set v. \<not> cmd_sep ch \<and> ch \<noteq> CHR '':'' \<and> ch \<noteq> CHR 0x00" "k \<noteq> []"
    using one(2) [OF ok(1)] one(2) [OF ok(2)] one(1) [OF ok(1)] by auto
  have eq: "\<not> cmd_sep (CHR ''='')" by (simp add: cmd_sep_def)
  show ?thesis unfolding kv(2) using chars eq by auto
qed

lemma parse_client_args:
  assumes "pairs_ok (client_pairs ver D dd G dg dsc dvt members)" and "lists_fit dg dsc dvt"
  shows "parse_dev_info i (Some (arg_list (client_args ver D dd G dg dsc dvt members))) junk
    = Some (client_view ver D dd G dg dsc dvt members i junk)"
proof -
  let ?ps = "client_pairs ver D dd G dg dsc dvt members"
  have "\<forall>x \<in> set (client_args ver D dd G dg dsc dvt members). x \<noteq> [] \<and> CHR '':'' \<notin> set x"
    unfolding client_args_pairs using pair_text [OF assms(1)] by blast
  from tokens_arg_list [OF this]
  have toks: "tokens (\<lambda>c. c = CHR '':'') (arg_list (client_args ver D dd G dg dsc dvt members)) = map (\<lambda>(k, v). str_arg k v) ?ps"
    unfolding client_args_pairs .
  have len: "length ?ps = 29" by (simp add: client_pairs_def)
  have "str_split 1000 (null_safe (Some (arg_list (client_args ver D dd G dg dsc dvt members)))) (CHR '':'')
      = Some (map (\<lambda>(k, v). str_arg k v) ?ps)"
    unfolding str_split_def null_safe_def option.case toks Let_def using len by simp
  then show ?thesis
    unfolding parse_dev_info_def
    by (simp only: Option.bind.bind_lunit parse_infos_pairs [OF assms(1)] set_infos_view [OF assms(2)])
qed

subsection \<open>Registration\<close>

lemma cmd_reg_reply:
  assumes "cmd_reg opt ver c s = Some (0, m, s1)" and "d_group (dev s1 (c_dev c)) = Some g"
    and "current_discuss g s1 = Some dsc" and "current_vote g (c_dev c) s1 = Some dvt" and "vote_total (c_dev c) s1 = Some members"
  shows "m = REP_END (REP_ADD (arg_list (client_args ver (dev s1 (c_dev c)) (dbdev s1 (c_dev c)) (grp s1 g) (dbgrp s1 g)
      dsc dvt members)) (REP_ADD ''OK'' c))"
proof -
  have "\<exists>buf. get_client_info ver (c_dev c) s1 = Some buf \<and> m = REP_END (REP_ADD buf (REP_ADD ''OK'' c))"
    using assms(1)
    by (auto simp: cmd_reg_def reg_finish_def Let_def ERR_DEV_DISABLED_def bind_eq_Some_conv split: list.splits if_splits)
  then show ?thesis using assms(2-) by (auto simp: get_client_info_def)
qed

lemma arg_list_word:
  assumes "pairs_ok ps" and "ps \<noteq> []"
  shows "is_word (arg_list (map (\<lambda>(k, v). str_arg k v) ps)) \<and> CHR 0x00 \<notin> set (arg_list (map (\<lambda>(k, v). str_arg k v) ps))"
proof -
  let ?xs = "map (\<lambda>(k, v). str_arg k v) ps"
  have xs: "x \<noteq> []" "\<forall>ch \<in> set x. \<not> cmd_sep ch \<and> ch \<noteq> CHR 0x00" if "x \<in> set ?xs" for x
    using pair_text [OF assms(1) that] by simp_all
  have ne: "\<forall>x \<in> set ?xs. x \<noteq> []" using xs(1) by blast
  have ch: "\<not> cmd_sep ch \<and> ch \<noteq> CHR 0x00" if "ch \<in> set (arg_list ?xs)" for ch
    using arg_list_chars [OF that ne]
  proof
    assume "ch = CHR '':''"
    then show ?thesis by (simp add: cmd_sep_def)
  qed (use xs(2) in blast)
  obtain y ys where y: "?xs = y # ys" using assms(2) by (cases ?xs) auto
  have "arg_list ?xs \<noteq> []" using ne unfolding y by (simp add: arg_list_Cons)
  then show ?thesis using ch unfolding is_word_def by blast
qed

text \<open>
  C22. A client that registers sees the state that the server has on record: it sends its one line, and
  when the server accepts the command and no text in that state is empty or has a separator in it (a colon,
  an equals sign, a space or the end of a line), the client's function returns the structure whose fields are
  those of its device and its group and of the discussion and vote they are in, as client_view lists them:
  numbers as they are, lists of numbers in front of what the arrays held, texts cut to the size of their
  fields, and of the two subscriptions the first, as there is one field for them. The client takes its tag
  from it. The lists must fit their arrays and the reply its buffer.
\<close>

theorem client_reg_restores_state:
  assumes "cmd_reg opt ver (request_cmd (cl_id c) ''reg'' [num_str (cl_devtype c), pass, num_str (cl_listen c), cl_br_addr c] addr sock) s
      = Some (0, m, s1)"
    and "map_of tbl ''reg'' = Some (cmd_reg opt ver)"
    and "request_ok (cl_id c) ''reg'' [num_str (cl_devtype c), pass, num_str (cl_listen c), cl_br_addr c]"
    and "d_group (dev s1 (cl_id c)) = Some g" and "current_discuss g s1 = Some dsc"
    and "current_vote g (cl_id c) s1 = Some dvt" and "vote_total (cl_id c) s1 = Some members"
    and "pairs_ok (client_pairs ver (dev s1 (cl_id c)) (dbdev s1 (cl_id c)) (grp s1 g) (dbgrp s1 g) dsc dvt members)"
    and "lists_fit (dbgrp s1 g) dsc dvt" and "length (c_rep m) < BUFLEN" and "pass \<noteq> ''OK''" and "cl_br_addr c \<noteq> ''OK''"
  shows "\<exists>x rep c1. sends_line (\<lambda>net. client_reg net pass junk c) x
    \<and> talk tbl salt salt' addr sock s x = Some (rep, s1)
    \<and> client_reg (\<lambda>_. rep) pass junk c = Some (Inr (client_view ver (dev s1 (cl_id c)) (dbdev s1 (cl_id c)) (grp s1 g)
          (dbgrp s1 g) dsc dvt members (cl_id c) junk), c1)
    \<and> cl_reged c1 \<and> cl_tag c1 = dd_tagid (dbdev s1 (cl_id c))"
proof -
  let ?d = "cl_id c" and ?as = "[num_str (cl_devtype c), pass, num_str (cl_listen c), cl_br_addr c]"
  let ?ps = "client_pairs ver (dev s1 ?d) (dbdev s1 ?d) (grp s1 g) (dbgrp s1 g) dsc dvt members"
  let ?view = "client_view ver (dev s1 ?d) (dbdev s1 ?d) (grp s1 g) (dbgrp s1 g) dsc dvt members ?d junk"
  define buf where "buf = arg_list (client_args ver (dev s1 ?d) (dbdev s1 ?d) (grp s1 g) (dbgrp s1 g) dsc dvt members)"
  let ?ws = "?as @ ''OK'' # [buf]"
  have "length (reg_line pass c) < BUFLEN" using line_of_short [OF assms(3)] by (simp add: reg_line_def)
  then have sends: "sends_line (\<lambda>net. client_reg net pass junk c) (reg_line pass c)"
    unfolding client_reg_def by (rule call_sends)
  have dev: "c_dev (request_cmd ?d ''reg'' ?as addr sock) = ?d" by (simp add: request_cmd_def)
  have m: "m = REP_END (REP_ADD buf (REP_ADD ''OK'' (request_cmd ?d ''reg'' ?as addr sock)))"
    using cmd_reg_reply [OF assms(1)] assms(4-7) unfolding dev buf_def by blast
  have rep: "c_rep m = cmd_line (num_str ?d # ''reg'' # ?ws)"
    unfolding m by (simp add: rep_defs request_cmd_def words_text_def cmd_line_def)
  have ne: "?ps \<noteq> []" by (simp add: client_pairs_def)
  have buf: "is_word buf \<and> CHR 0x00 \<notin> set buf" unfolding buf_def client_args_pairs by (rule arg_list_word [OF assms(8) ne])
  have ws: "\<forall>w \<in> set ?ws. is_word w \<and> CHR 0x00 \<notin> set w" "length ?ws < 32"
    using assms(3) buf by (auto simp: request_ok_def is_word_def cmd_sep_def)
  have h: "handle_cmd tbl (request_cmd ?d ''reg'' ?as addr sock) s = Some (0, m, s1)"
    using assms(1,2) by (simp add: handle_cmd_def request_cmd_def)
  let ?n = "no_cmd\<lparr>c_dev := ?d, c_cmd := ''reg'', c_args := ?ws\<rparr>"
  have fo: "find_ok ?n = 4"
    using find_ok_at [of ?as "[buf]" "''reg''" ?d] num_str_not_OK assms(11,12) by fastforce
  have "ok_ptr ?n 1 = Some (Some buf)" unfolding ok_ptr_def fo by (simp add: arg_ptr_def arg_def)
  moreover have "parse_dev_info ?d (Some buf) junk = Some ?view"
    unfolding buf_def by (rule parse_client_args [OF assms(8,9)])
  ultimately have "reg_end junk ?n c = Some (?view, post_reg ?view c)" by (simp add: reg_end_def)
  moreover have "cl_reged (post_reg v c) \<and> cl_tag (post_reg v c) = di_tag v" for v
    by (simp add: post_reg_def emit_if_def Let_def)
  moreover have "di_tag ?view = dd_tagid (dbdev s1 ?d)" by (simp add: client_view_def Let_def)
  ultimately show ?thesis
    using exchange_reply [OF assms(3) h rep assms(10) ws, of salt salt' "reg_end junk"] sends
    by (auto simp: client_reg_def reg_line_def)
qed

text \<open>Device 7 registers with the demo server.\<close>

lemma i2a_text:
  assumes "b \<in> set (concat (map i2a bs))"
  shows "\<not> cmd_sep (char_of (unat b)) \<and> char_of (unat b) \<noteq> CHR 0x00"
proof -
  have r: "35 \<le> unat b" "unat b \<le> 63" using assms i2a_range by auto
  then have v: "(of_char (char_of (unat b) :: char) :: nat) = unat b" by simp
  have ne: "char_of (unat b) \<noteq> x" if "(of_char x :: nat) < 35" for x using v r(1) that by auto
  have "(of_char (CHR '' '') :: nat) < 35" "(of_char (CHR 0x0D) :: nat) < 35" "(of_char (CHR 0x0A) :: nat) < 35"
    "(of_char (CHR 0x00) :: nat) < 35" by simp_all
  from this [THEN ne] show ?thesis unfolding cmd_sep_def by blast
qed

lemma reg_sum_word: "\<exists>sm. reg_sum i ty = Some sm \<and> is_word sm \<and> CHR 0x00 \<notin> set sm \<and> length sm = 32"
proof -
  let ?data = "le4_bytes (word_of_int i XOR word_of_int ty)"
  let ?b = "concat (map i2a (salted_digest ?data))"
  have len: "length ?b = 32"
    by (simp add: salted_digest_def length_shaHashData cksum_salt_def length_concat o_def sum_list_triv i2a_def)
  have "cksum ?data (replicate 64 0) = Some (?b @ 0 # drop 33 (replicate 64 0))" by (rule cksum_spec) simp
  then have sm: "reg_sum i ty = Some (map (\<lambda>b. char_of (unat b)) ?b)" using len by (simp add: reg_sum_def)
  have w: "is_word (map (\<lambda>b. char_of (unat b)) ?b)" "CHR 0x00 \<notin> set (map (\<lambda>b. char_of (unat b)) ?b)"
    using i2a_text len unfolding is_word_def by fastforce+
  show ?thesis using sm w len by simp
qed

lemma reg_demo:
  "case reg_finish Soft [] (request_cmd 7 ''reg'' as (0, 0) 4) (reg_addresses 0 8000 ''none'' (request_cmd 7 ''reg'' as (0, 0) 4)
      (upd_dbdev 7 (\<lambda>D. D\<lparr>dd_online := 1\<rparr>) demo)) of None \<Rightarrow> False
   | Some (r, m, s) \<Rightarrow> r = 0 \<and> d_group (dev s 7) = Some 1 \<and> current_discuss 1 s = Some None \<and> current_vote 1 7 s = Some None
       \<and> vote_total 7 s = Some 0 \<and> pairs_ok (client_pairs [] (dev s 7) (dbdev s 7) (grp s 1) (dbgrp s 1) None None 0)
       \<and> lists_fit (dbgrp s 1) None None \<and> dd_tagid (dbdev s 7) = 1
       \<and> length (arg_list (client_args [] (dev s 7) (dbdev s 7) (grp s 1) (dbgrp s 1) None None 0)) < 1000"
  by code_simp

definition new_client :: client where
  "new_client = (demo_client 7)\<lparr>cl_reged := False, cl_listen := 8000, cl_br_addr := ''none''\<rparr>"

theorem client_reg_restores_state_witness:
  "\<forall>junk. \<exists>pass x rep s1 v c1. sends_line (\<lambda>net. client_reg net pass junk new_client) x
    \<and> talk demo_tbl 0x5A 0x33 (0, 0) 4 demo x = Some (rep, s1)
    \<and> client_reg (\<lambda>_. rep) pass junk new_client = Some (Inr v, c1) \<and> cl_reged c1 \<and> cl_tag c1 = 1"
proof
  fix junk
  have new: "cl_id new_client = 7" "cl_devtype new_client = 0" "cl_listen new_client = 8000" "cl_br_addr new_client = ''none''"
    by (simp_all add: new_client_def demo_client_def client_start_def)
  obtain sm where sm: "reg_sum 7 0 = Some sm" "is_word sm" "CHR 0x00 \<notin> set sm" "length sm = 32" using reg_sum_word by blast
  let ?as = "[num_str 0, sm, num_str 8000, ''none'']"
  let ?c = "request_cmd 7 ''reg'' ?as (0, 0) 4"
  have l: "length (num_str 7) \<le> 4" "length (num_str 0) \<le> 4" "length (num_str 8000) \<le> 4" using length_num_str_small by simp_all
  have ok: "request_ok 7 ''reg'' ?as"
    using sm l is_word_num_str num_str_no_zero
    by (auto simp: request_ok_def cmd_line_def newline_def BUFLEN_def is_word_def cmd_sep_def)
  have "cmd_reg Soft [] ?c demo
      = reg_finish Soft [] ?c (reg_addresses 0 8000 ''none'' ?c (upd_dbdev 7 (\<lambda>D. D\<lparr>dd_online := 1\<rparr>) demo))"
    using sm(1) by (simp add: cmd_reg_def request_cmd_def atoi_num_str md_find_device_def find_eq Let_def demo_def demo_dbdev_def)
  with reg_demo [of ?as] obtain m s1 where run: "cmd_reg Soft [] ?c demo = Some (0, m, s1)" and
    st: "d_group (dev s1 7) = Some 1" "current_discuss 1 s1 = Some None" "current_vote 1 7 s1 = Some None" "vote_total 7 s1 = Some 0"
      "pairs_ok (client_pairs [] (dev s1 7) (dbdev s1 7) (grp s1 1) (dbgrp s1 1) None None 0)" "lists_fit (dbgrp s1 1) None None"
      "dd_tagid (dbdev s1 7) = 1"
      "length (arg_list (client_args [] (dev s1 7) (dbdev s1 7) (grp s1 1) (dbgrp s1 1) None None 0)) < 1000"
    by (auto split: option.splits)
  have dev: "c_dev ?c = 7" by (simp add: request_cmd_def)
  have m: "m = REP_END (REP_ADD (arg_list (client_args [] (dev s1 7) (dbdev s1 7) (grp s1 1) (dbgrp s1 1) None None 0)) (REP_ADD ''OK'' ?c))"
    using cmd_reg_reply [OF run] st(1-4) unfolding dev by blast
  have short: "length (c_rep m) < BUFLEN"
    unfolding m using st(8) l sm(4) by (simp add: rep_defs request_cmd_def words_text_def BUFLEN_def)
  have tbl: "map_of demo_tbl ''reg'' = Some (cmd_reg Soft [])"
    by (simp add: demo_tbl_def server_handlers_def register_cmd_handler_def)
  have no: "sm \<noteq> ''OK''" using sm(4) by auto
  obtain x rep c1 where r: "sends_line (\<lambda>net. client_reg net sm junk new_client) x"
    "talk demo_tbl 0x5A 0x33 (0, 0) 4 demo x = Some (rep, s1)"
    "client_reg (\<lambda>_. rep) sm junk new_client
      = Some (Inr (client_view [] (dev s1 7) (dbdev s1 7) (grp s1 1) (dbgrp s1 1) None None 0 7 junk), c1)"
    "cl_reged c1" "cl_tag c1 = 1"
    using client_reg_restores_state [of Soft "[]" new_client sm "(0, 0)" 4 demo m s1 demo_tbl 1 None None 0 junk "0x5A" "0x33"]
      run tbl ok st short no unfolding new by auto
  show "\<exists>pass x rep s1 v c1. sends_line (\<lambda>net. client_reg net pass junk new_client) x
    \<and> talk demo_tbl 0x5A 0x33 (0, 0) 4 demo x = Some (rep, s1)
    \<and> client_reg (\<lambda>_. rep) pass junk new_client = Some (Inr v, c1) \<and> cl_reged c1 \<and> cl_tag c1 = 1"
    by (intro exI conjI) (rule r)+
qed

text \<open>A key without a value takes the value of the key in front of it.\<close>

theorem empty_value_repeats_last:
  assumes "value_ok k" and "value_ok v" and "value_ok k2"
  shows "parse_infos [str_arg k v, str_arg k2 []] kv d = do { d1 \<leftarrow> set_info k v d; set_info k2 v d1 }"
proof -
  have one: "tokens (\<lambda>c. c = CHR ''='') (k2 @ ''='') = [k2]"
  proof -
    have "k2 \<noteq> []" "\<forall>c \<in> set k2. c \<noteq> CHR ''=''" using assms(3) by (auto simp: value_ok_def is_word_def)
    from tokens_piece [OF this, of "CHR ''=''" "[]"] show ?thesis by (simp add: tokens_Nil)
  qed
  have "str_split 4 (str_arg k2 []) (CHR ''='') = Some [k2]" by (simp add: str_split_def str_arg_def one)
  with pair_split [OF assms(1,2)] show ?thesis
    by (cases "set_info k v d"; cases "set_info k2 v (the (set_info k v d))") (simp_all add: Let_def)
qed

end
