(* ===== verification/Client_Msg.thy ===== *)
theory Client_Msg
  imports Client_Wire Command_Props
begin

text \<open>
  Messages from client to client (client/client.c and serv/cmd_msgctrl.c): the list of ids that the
  sender writes is the list that the server goes through and the one in which a receiver looks for
  itself.
\<close>

lemma int_list_to_str_num_list:
  assumes "0 \<notin> set ids"
  shows "int_list_to_str ids = num_list ids"
proof -
  have snoc: "butlast (concat (map (\<lambda>x. num_str x @ '','') xs)) = num_list xs" for xs
  proof (induction xs rule: rev_induct)
    case (snoc x xs)
    show ?case
    proof (cases "xs = []")
      case True
      then show ?thesis by (simp add: num_list_Cons butlast_append)
    next
      case False
      obtain y ys where y: "xs = y # ys" using False by (cases xs) auto
      have "concat (map (\<lambda>x. num_str x @ '','') xs) \<noteq> []" unfolding y by simp
      then have "concat (map (\<lambda>x. num_str x @ '','') xs) = num_list xs @ '',''"
        using snoc append_butlast_last_id [of "concat (map (\<lambda>x. num_str x @ '','') xs)"]
        by (cases xs rule: rev_cases) (auto simp: last_append)
      then show ?thesis using False
        by (simp add: butlast_append num_list_snoc list_add_num_def list_add_str_def sep_add_def num_list_Nil_iff)
    qed
  qed (simp add: num_list_def)
  have "until_zero ids = ids" using assms by (auto simp: until_zero_def takeWhile_eq_all_conv)
  then show ?thesis using snoc [of ids] by (simp add: int_list_to_str_def)
qed

lemma int_in_num_list:
  assumes "ids \<noteq> []"
  shows "int_in_str i (Some (num_list ids)) = Some (i \<in> set ids)"
  using assms by (simp add: int_in_str_def tokens_num_list image_image atoi_num_str)

lemma id_list_num_list: "ids \<noteq> [] \<Longrightarrow> id_list (num_list ids) = ids"
  using id_list_num_list_Cons by (cases ids) auto

lemma num_list_not_all: "num_list ids \<noteq> ''all''"
proof (cases ids)
  case (Cons n ns)
  obtain d ds where d: "num_str n = d # ds" using num_str_nonempty by (cases "num_str n") auto
  have a: "\<not> is_digit (CHR ''a'')" by (simp add: is_digit_def)
  have "CHR ''a'' \<notin> set (num_str n)" using a digits_all by (auto simp: num_str_def)
  then show ?thesis unfolding Cons by (auto simp: num_list_Cons d)
qed (simp add: num_list_def)

text \<open>The devices of a list that the server can reach.\<close>

definition reached :: "srv \<Rightarrow> int list \<Rightarrow> int list" where
  "reached s ids = filter (\<lambda>i. i \<in> set (devs s) \<and> d_ops (dev s i)) ids"

lemma send_all_outs:
  "outs (fold (send_cmd_to_dev_id c) ids s) = outs s @ map (\<lambda>i. CmdTo i (c_rep c)) (reached s ids)"
proof (induction ids arbitrary: s)
  case (Cons i ids)
  have "reached (send_cmd_to_dev_id c i s) ids = reached s ids"
    by (simp add: reached_def)
  then show ?case using Cons
    by (simp add: reached_def send_cmd_to_dev_id_def send_cmd_to_dev_def device_cmd_def emit_def get_device_def find_eq)
qed (simp add: reached_def)

text \<open>A coded line that a device receives is handled, and then the end of the connection is.\<close>

lemma tcp_connection_line:
  assumes x: "CHR 0x00 \<notin> set x" "x \<noteq> []" "hd x \<noteq> CHR 0x02" "length x < BUFLEN" and o: "do_send salt x = Some out"
    and b: "cl_reged b" "cl_conn b = 0" and sock: "sock \<noteq> 0"
  shows "tcp_connection mem sock False [Data out, Closed] b
    = do { (e, m) \<leftarrow> parse_cmd x no_cmd; ensure (c_cmd m \<noteq> []); b1 \<leftarrow> ev_cmd m (b\<lparr>cl_conn := sock\<rparr>);
           client_handle_cmd mem 0 TCP_CMD None 0 b1 }"
proof -
  obtain out' where "do_send salt x = Some out'" "decode out' = Some (to_bytes x)" "length out' = length x + 1"
    using do_send_coded [OF x(4), of salt] by (elim exE conjE)
  then have d: "decode out = Some (to_bytes x)" "length out = length x + 1" using o by simp_all
  have got: "recv_all BUFLEN 0 [] [Data out, Closed] = (int (length out), out)"
    by (rule recv_all_once) (use d(2) x(4) in auto)
  have line: "handle_line (to_bytes x @ [0]) (length (to_bytes x)) (b\<lparr>cl_conn := sock\<rparr>)
      = do { (e, m) \<leftarrow> parse_cmd x no_cmd; ensure (c_cmd m \<noteq> []); ev_cmd m (b\<lparr>cl_conn := sock\<rparr>) }"
    by (rule handle_line_text [OF x(1-3)]) (use b(1) in simp)
  have hd: "client_handle_cmd mem sock TCP_CMD (Some (to_bytes x @ [0])) (length (to_bytes x)) b
      = do { (e, m) \<leftarrow> parse_cmd x no_cmd; ensure (c_cmd m \<noteq> []); ev_cmd m (b\<lparr>cl_conn := sock\<rparr>) }"
    using line b by (simp add: client_handle_cmd_def TCP_AUDIO_def TCP_CMD_def)
  have pos: "0 < int (length out)" using d(2) by simp
  show ?thesis
    unfolding tcp_connection_def got Let_def using pos d(1) hd by (cases "parse_cmd x no_cmd") (simp_all add: split_beta)
qed

definition spaced :: "string list \<Rightarrow> string" where
  "spaced ws = concat (map (\<lambda>w. '' '' @ w) ws)"

text \<open>
  C16. A message goes from the client that sends it to exactly the clients it is for: whatever the line is
  that the client's function sends for a list of ids and a text, it is only one, the server takes it and the
  function returns success with its answer; the server hands the same line to every device of the list
  that it can reach, once for each time its id is in the list, and a client that gets the line over a
  connection tells its application the words of the message and its sender when its id is in the list,
  and nothing otherwise. The list is not empty and has no zero, which would end it; the text is of at most 28
  words with single spaces between them, and the lines fit their buffers.
\<close>

theorem message_reaches_listed:
  assumes "ids \<noteq> []" and "0 \<notin> set ids" and "length (num_list ids) < 1024"
    and "ws \<noteq> []" and "length ws \<le> 28" and "length (spaced ws) < 256"
    and "request_ok (cl_id a) ''msgctrl'' (''send'' # num_list ids # ws)"
    and "length (cmd_line (num_str (cl_id a) # ''msgctrl'' # ''send'' # num_list ids # ws @ [''OK''])) < BUFLEN"
    and "map_of tbl ''msgctrl'' = Some cmd_msgctrl" and "cl_id a \<in> set (devs s)"
  shows "\<exists>y rep s1 x. sends_line (\<lambda>net. client_msgctrl_send net (Some ids) (words_text ws) a) y
    \<and> talk tbl salt salt' addr sock s y = Some (rep, s1)
    \<and> client_msgctrl_send (\<lambda>_. rep) (Some ids) (words_text ws) a = Some (Inr (), a)
    \<and> outs s1 = outs s @ map (\<lambda>i. CmdTo i x) (reached s ids)
    \<and> (\<forall>b out. cl_reged b \<longrightarrow> cl_conn b = 0 \<longrightarrow> do_send salt' x = Some out
         \<longrightarrow> tcp_connection mem 9 False [Data out, Closed] b
              = Some (if cl_id b \<in> set ids then raise (EvMsg (cl_id a) (spaced ws)) b else b))"
proof -
  let ?d = "cl_id a" and ?args = "''send'' # num_list ids # ws"
  let ?ws = "''send'' # num_list ids # ws @ [''OK'']"
  let ?m = "request_cmd ?d ''msgctrl'' ?args addr sock"
  define x where "x = cmd_line (num_str ?d # ''msgctrl'' # ?ws)"
  have words: "\<forall>w \<in> set (''msgctrl'' # ?args). is_word w \<and> CHR 0x00 \<notin> set w" using assms(7) by (simp add: request_ok_def)
  have OK: "is_word ''OK'' \<and> CHR 0x00 \<notin> set ''OK''" by (simp add: is_word_def cmd_sep_def)
  have ws: "\<forall>w \<in> set ?ws. is_word w \<and> CHR 0x00 \<notin> set w" "length ?ws < 32" using words OK assms(5) by auto
  have rep: "c_rep (REP_OK ?m) = x"
    using assms(4) by (cases ws rule: rev_cases)
      (simp_all add: x_def rep_defs request_cmd_def words_text_def cmd_line_def butlast_append)
  have "cmd_msgctrl ?m s = Some (0, REP_OK ?m, fold (send_cmd_to_dev_id (REP_OK ?m)) ids s)"
    using assms(10) num_list_not_all [of ids] id_list_num_list [OF assms(1)]
    by (simp add: cmd_msgctrl_def request_cmd_def get_device_def find_eq Let_def send_to_idlist_def)
  then have h: "handle_cmd tbl ?m s = Some (0, REP_OK ?m, fold (send_cmd_to_dev_id (REP_OK ?m)) ids s)"
    using assms(9) by (simp add: handle_cmd_def request_cmd_def)
  define s1 where "s1 = fold (send_cmd_to_dev_id (REP_OK ?m)) ids s"
  have line: "line_of a [''msgctrl'', ''send'', num_list ids, words_text ws] = line_of a (''msgctrl'' # ?args)"
    using assms(4) by (cases ws rule: rev_cases) (simp_all add: line_of_def cmd_line_words words_text_def)
  obtain rp where ex: "talk tbl salt salt' addr sock s (line_of a (''msgctrl'' # ?args)) = Some (rp, s1)"
    "call (\<lambda>_. rp) (line_of a (''msgctrl'' # ?args)) (\<lambda>m c. Some ((), c)) a = Some (Inr (), a)"
    using exchange_reply [OF assms(7) h [folded s1_def] rep [unfolded x_def], of salt salt' "\<lambda>m c. Some ((), c)"]
      assms(8) ws rep x_def by auto
  have sent: "client_msgctrl_send (\<lambda>_. rp) (Some ids) (words_text ws) a = Some (Inr (), a)"
    using ex(2) line int_list_to_str_num_list [OF assms(2)] assms(3) by (simp add: client_msgctrl_send_def simple_call_def)
  have call: "client_msgctrl_send net (Some ids) (words_text ws) a = call net (line_of a (''msgctrl'' # ?args)) (\<lambda>m c. Some ((), c)) a" for net
    using line int_list_to_str_num_list [OF assms(2)] assms(3) by (simp add: client_msgctrl_send_def simple_call_def)
  have sends: "sends_line (\<lambda>net. client_msgctrl_send net (Some ids) (words_text ws) a) (line_of a (''msgctrl'' # ?args))"
    unfolding call by (rule call_sends [OF line_of_short [OF assms(7)]])
  have outs: "outs s1 = outs s @ map (\<lambda>i. CmdTo i x) (reached s ids)"
    unfolding s1_def using send_all_outs [of "REP_OK ?m" ids s] rep by simp
  have got: "tcp_connection mem 9 False [Data out, Closed] b
      = Some (if cl_id b \<in> set ids then raise (EvMsg ?d (spaced ws)) b else b)"
    if b: "cl_reged b" "cl_conn b = 0" and out: "do_send salt' x = Some out" for b out
  proof -
    have z: "CHR 0x00 \<notin> set x" unfolding x_def by (rule cmd_line_no_zero) (use words ws in auto)
    have p: "parse_cmd x no_cmd = Some (0, no_cmd\<lparr>c_dev := ?d, c_cmd := ''msgctrl'', c_args := ?ws\<rparr>)"
      unfolding x_def by (rule parse_cmd_line) (use words ws in auto)
    have ne: "x \<noteq> []" "hd x \<noteq> CHR 0x02" "length x < BUFLEN"
      unfolding x_def by (simp add: cmd_line_def newline_def, rule num_str_first, use assms(8) in simp)
    let ?n = "no_cmd\<lparr>c_dev := ?d, c_cmd := ''msgctrl'', c_args := ?ws\<rparr>"
    have sp: "concat (map ((@) '' '') ws) = spaced ws" by (simp only: spaced_def)
    have "ev_cmd ?n (b\<lparr>cl_conn := 9\<rparr>) = Some (if cl_id b \<in> set ids
        then raise (EvMsg ?d (spaced ws)) (b\<lparr>cl_conn := 9\<rparr>) else b\<lparr>cl_conn := 9\<rparr>)"
      using int_in_num_list [OF assms(1)] num_list_not_all [of ids] assms(6)
      by (simp add: sp ev_cmd_def ev_msgctrl_def arg_def message_words_def Let_def)
    moreover have "client_handle_cmd mem 0 TCP_CMD None 0 (raise e (b\<lparr>cl_conn := 9\<rparr>)) = Some (raise e b)" for e
      using b(2) by (cases b) (simp add: client_handle_cmd_def TCP_AUDIO_def TCP_CMD_def raise_def client_emit_def)
    moreover have "client_handle_cmd mem 0 TCP_CMD None 0 (b\<lparr>cl_conn := 9\<rparr>) = Some b"
      using b(2) by (cases b) (simp add: client_handle_cmd_def TCP_AUDIO_def TCP_CMD_def)
    ultimately show ?thesis
      unfolding tcp_connection_line [OF z ne out b, of 9, simplified] using p by simp
  qed
  show ?thesis using sends ex(1) sent outs got by blast
qed

text \<open>Device 5 writes to the devices 7 and 9.\<close>

theorem message_reaches_listed_witness:
  "\<exists>y rep s1 x. sends_line (\<lambda>net. client_msgctrl_send net (Some [7, 9]) ''please wait'' (demo_client 5)) y
    \<and> talk demo_tbl 0x5A 0x33 (0, 0) 4 demo y = Some (rep, s1)
    \<and> client_msgctrl_send (\<lambda>_. rep) (Some [7, 9]) ''please wait'' (demo_client 5) = Some (Inr (), demo_client 5)
    \<and> outs s1 = [CmdTo 7 x, CmdTo 9 x]
    \<and> (\<forall>out. do_send 0x33 x = Some out
         \<longrightarrow> tcp_connection (\<lambda>_. 0) 9 False [Data out, Closed] (demo_client 7)
              = Some (raise (EvMsg 5 '' please wait'') (demo_client 7)))"
proof -
  have c: "cl_reged (demo_client 7)" "cl_conn (demo_client 7) = 0" by (simp_all add: demo_client_def client_start_def)
  have r: "reached demo [7, 9] = [7, 9]" "outs demo = []" by (simp_all add: reached_def demo_def demo_dev_def fresh_dev_def)
  have msg: "words_text [''please'', ''wait''] = ''please wait''" "spaced [''please'', ''wait''] = '' please wait''"
    by (simp_all add: words_text_def spaced_def)
  have "\<exists>y rep s1 x. sends_line (\<lambda>net. client_msgctrl_send net (Some [7, 9]) (words_text [''please'', ''wait'']) (demo_client 5)) y
    \<and> talk demo_tbl 0x5A 0x33 (0, 0) 4 demo y = Some (rep, s1)
    \<and> client_msgctrl_send (\<lambda>_. rep) (Some [7, 9]) (words_text [''please'', ''wait'']) (demo_client 5) = Some (Inr (), demo_client 5)
    \<and> outs s1 = outs demo @ map (\<lambda>i. CmdTo i x) (reached demo [7, 9])
    \<and> (\<forall>b out. cl_reged b \<longrightarrow> cl_conn b = 0 \<longrightarrow> do_send 0x33 x = Some out
         \<longrightarrow> tcp_connection (\<lambda>_. 0) 9 False [Data out, Closed] b
              = Some (if cl_id b \<in> set [7, 9] then raise (EvMsg (cl_id (demo_client 5)) (spaced [''please'', ''wait''])) b else b))"
  proof (rule message_reaches_listed)
    show "request_ok (cl_id (demo_client 5)) ''msgctrl'' (''send'' # num_list [7, 9] # [''please'', ''wait''])"
      unfolding demo_client_sel by code_simp
    show "length (num_list [7, 9]) < 1024" by code_simp
    show "length (cmd_line (num_str (cl_id (demo_client 5)) # ''msgctrl'' # ''send'' # num_list [7, 9] # [''please'', ''wait''] @ [''OK''])) < BUFLEN"
      unfolding demo_client_sel by code_simp
    show "map_of demo_tbl ''msgctrl'' = Some cmd_msgctrl"
      by (simp add: demo_tbl_def server_handlers_def register_cmd_handler_def)
    show "cl_id (demo_client 5) \<in> set (devs demo)" by (simp add: demo_sel)
  qed (simp_all add: spaced_def)
  then obtain y rep s1 x where t0: "sends_line (\<lambda>net. client_msgctrl_send net (Some [7, 9]) ''please wait'' (demo_client 5)) y" and t:
    "talk demo_tbl 0x5A 0x33 (0, 0) 4 demo y = Some (rep, s1)"
    "client_msgctrl_send (\<lambda>_. rep) (Some [7, 9]) ''please wait'' (demo_client 5) = Some (Inr (), demo_client 5)"
    "outs s1 = [] @ map (\<lambda>i. CmdTo i x) [7, 9]"
    "\<forall>b out. cl_reged b \<longrightarrow> cl_conn b = 0 \<longrightarrow> do_send 0x33 x = Some out
         \<longrightarrow> tcp_connection (\<lambda>_. 0) 9 False [Data out, Closed] b
              = Some (if cl_id b \<in> set [7, 9] then raise (EvMsg 5 '' please wait'') b else b)"
    unfolding msg r demo_client_sel by (elim exE conjE) (rule that)
  have "tcp_connection (\<lambda>_. 0) 9 False [Data out, Closed] (demo_client 7) = Some (raise (EvMsg 5 '' please wait'') (demo_client 7))"
    if "do_send 0x33 x = Some out" for out
    using t(4) c that by simp
  then show ?thesis using t0 t(1,2,3) by (intro exI [of _ y] exI [of _ rep] exI [of _ s1] exI [of _ x]) simp
qed

end
