(* ===== verification/Client_Ucast.thy ===== *)
theory Client_Ucast
  imports Client Client_Events Hash Commands Server_Props "HOL-Library.Multiset"
begin

text \<open>
  The unicast caster (client/ucast.c): the device that sends the audio of a tag to each subscriber. Its
  table follows the type 2 commands of the server (serv/cmd_sub.c, serv/cmd_tag.c), whose bytes are
  encoded and decoded here. The table is an array of 4096 entries with a hash table over it; an entry
  beyond it is a fault. An address is an address and a port as in the server's model.
\<close>

subsection \<open>The table\<close>

record dev_ent =
  de_id :: int
  de_addr :: "int \<times> int"
  de_active :: bool
  de_sub :: bool

record ucaster =
  us_tag :: int
  us_subs :: "dev_ent list" \<comment> \<open>the first subs_count entries\<close>
  us_hash :: "nat htab"
  us_seq :: "32 word"


definition sub_key :: "dev_ent list \<Rightarrow> nat \<Rightarrow> int" where
  "sub_key es i = de_id (es ! i)"

definition add_sub :: "int \<Rightarrow> int \<times> int \<Rightarrow> int \<Rightarrow> ucaster \<Rightarrow> ucaster option" where
  "add_sub i a flag u =
     do { ensure (length (us_subs u) < 4096);
          let es = us_subs u @ [\<lparr>de_id = i, de_addr = a, de_active = (flag AND 1 \<noteq> 0), de_sub = True\<rparr>];
          Some (u\<lparr>us_subs := es, us_hash := hash_memb hashfn (sub_key es) (length (us_subs u)) (us_hash u)\<rparr>) }"



subsection \<open>Type 2 commands\<close>










subsection \<open>Audio\<close>

text \<open>The datagrams sent: the address and the packet with its new number.\<close>

definition handle_audio_pack :: "upack \<Rightarrow> ucaster \<Rightarrow> ((int \<times> int) \<times> upack) list \<times> ucaster" where
  "handle_audio_pack p u =
     (let q = us_seq u + 1
      in (map (\<lambda>e. (de_addr e, p\<lparr>up_seq := q\<rparr>)) (filter (\<lambda>e. de_active e \<and> de_sub e) (us_subs u)), u\<lparr>us_seq := q\<rparr>))"

subsection \<open>What the server sends\<close>

definition le_bytes :: "nat \<Rightarrow> int \<Rightarrow> byte list" where
  "le_bytes k n = map (\<lambda>i. word_of_int (n div 256 ^ i mod 256)) [0..<k]"


lemma length_le_num_bytes [simp]: "length (le_bytes k n) = k"
  by (simp add: le_bytes_def)




subsection \<open>The command at the caster\<close>

definition dev_ok :: "int \<Rightarrow> int \<times> int \<Rightarrow> bool" where
  "dev_ok d a \<longleftrightarrow> 0 \<le> d \<and> d < 2 ^ 31 \<and> 0 \<le> fst a \<and> fst a < 2 ^ 32 \<and> 0 \<le> snd a \<and> snd a < 2 ^ 16"




subsection \<open>The table as a map\<close>














subsection \<open>Caster and server\<close>

definition is_sub_cmd :: "out \<Rightarrow> bool" where
  "is_sub_cmd x = (case x of SubTo v d a act sub tag \<Rightarrow> True | _ \<Rightarrow> False)"

definition sub_cmds :: "srv \<Rightarrow> out list" where
  "sub_cmds s = filter is_sub_cmd (outs s)"

text \<open>The handler of sub on the server, for commands in a row.\<close>

definition run_sub :: "mixer \<Rightarrow> cmd \<Rightarrow> srv \<Rightarrow> srv option" where
  "run_sub opt c s = map_option (\<lambda>(r, c, s1). s1) (cmd_sub opt c s)"

text \<open>A device that is registered, at an address, and asks for tags that there are. A command that the
  handler rejects may be anything.\<close>

definition sub_cmd_ok :: "srv \<Rightarrow> cmd \<Rightarrow> bool" where
  "sub_cmd_ok s c \<longleftrightarrow> (let d = c_dev c
     in d \<in> set (devs s) \<longrightarrow> d_tag (dev s d) \<noteq> None \<and> dev_ok d (d_addr (dev s d))
       \<and> (\<exists>g. d_group (dev s d) = Some g
           \<and> (\<forall>p as. c_args c = p # as \<longrightarrow> atoi p \<noteq> 0 \<longrightarrow> TAGUID g \<bar>atoi p\<bar> \<in> set (tags s))))"




text \<open>What subscribing leaves alone: the devices but for their subscriptions, the casters, and what was sent
  to them.\<close>

definition sub_frame :: "srv \<Rightarrow> srv \<Rightarrow> bool" where
  "sub_frame s s1 \<longleftrightarrow> devs s1 = devs s \<and> tags s1 = tags s \<and> (\<forall>e. \<exists>x. dev s1 e = (dev s e)\<lparr>d_sub := x\<rparr>)
     \<and> (\<forall>t. t_ucast (tagm s1 t) = t_ucast (tagm s t))"

lemma sub_frame_trans: "sub_frame s s1 \<Longrightarrow> sub_frame s1 s2 \<Longrightarrow> sub_frame s s2"
proof -
  assume a: "sub_frame s s1" "sub_frame s1 s2"
  have "\<exists>x. dev s2 e = (dev s e)\<lparr>d_sub := x\<rparr>" for e
  proof -
    obtain x y where "dev s1 e = (dev s e)\<lparr>d_sub := x\<rparr>" "dev s2 e = (dev s1 e)\<lparr>d_sub := y\<rparr>"
      using a unfolding sub_frame_def by blast
    then show ?thesis by (intro exI [of _ y]) simp
  qed
  then show ?thesis using a by (simp add: sub_frame_def)
qed

lemma sub_frame_sel:
  assumes "sub_frame s s1"
  shows "d_addr (dev s1 e) = d_addr (dev s e)" "d_active (dev s1 e) = d_active (dev s e)" "d_ops (dev s1 e) = d_ops (dev s e)"
    "d_tag (dev s1 e) = d_tag (dev s e)" "d_group (dev s1 e) = d_group (dev s e)" "d_type (dev s1 e) = d_type (dev s e)"
    "d_open (dev s1 e) = d_open (dev s e)" "devs s1 = devs s" "tags s1 = tags s" "t_ucast (tagm s1 t) = t_ucast (tagm s t)"
proof -
  obtain x where "dev s1 e = (dev s e)\<lparr>d_sub := x\<rparr>" using assms unfolding sub_frame_def by blast
  then show "d_addr (dev s1 e) = d_addr (dev s e)" "d_active (dev s1 e) = d_active (dev s e)" "d_ops (dev s1 e) = d_ops (dev s e)"
    "d_tag (dev s1 e) = d_tag (dev s e)" "d_group (dev s1 e) = d_group (dev s e)" "d_type (dev s1 e) = d_type (dev s e)"
    "d_open (dev s1 e) = d_open (dev s e)" by simp_all
qed (use assms in \<open>simp_all add: sub_frame_def\<close>)

lemma sub_frame_dev: "dev s1 = dev s \<Longrightarrow> devs s1 = devs s \<Longrightarrow> tags s1 = tags s
    \<Longrightarrow> (\<And>t. t_ucast (tagm s1 t) = t_ucast (tagm s t)) \<Longrightarrow> sub_frame s s1"
proof -
  have "\<exists>x. D = D\<lparr>d_sub := x\<rparr>" for D :: device by (intro exI [of _ "d_sub D"]) simp
  moreover assume "dev s1 = dev s" "devs s1 = devs s" "tags s1 = tags s" "\<And>t. t_ucast (tagm s1 t) = t_ucast (tagm s t)"
  ultimately show ?thesis by (simp add: sub_frame_def)
qed

lemma sub_cmds_simps [simp]:
  "sub_cmds (s\<lparr>hp := h\<rparr>) = sub_cmds s" "sub_cmds (upd_dev d f s) = sub_cmds s" "sub_cmds (upd_dbdev d g s) = sub_cmds s"
  "sub_cmds (upd_tag t k s) = sub_cmds s" "sub_cmds (device_save d s) = sub_cmds s"
  "sub_cmds (notify_interp_rep t s) = sub_cmds s" "sub_cmds (interp_set_rep_tag t r s) = sub_cmds s"
  by (simp_all add: sub_cmds_def upd_dev_def upd_dbdev_def upd_tag_def device_save_def emit_def is_sub_cmd_def
      notify_interp_rep_def brcast_data_to_all_def async_brcast_def Let_def interp_set_rep_tag_def)

lemma sub_run_frame:
  assumes "sub_run p s = Some s1"
  shows "sub_frame s s1 \<and> sub_cmds s1 = sub_cmds s"
proof -
  have id: "\<exists>x. D = D\<lparr>d_sub := x\<rparr>" for D :: device by (intro exI [of _ "d_sub D"]) simp
  show ?thesis
  proof (cases p)
    case (SubTag d t)
    with assms id show ?thesis
      by (auto simp: dev_subscribe_def on_heap_def sub_frame_def bind_eq_Some_conv Let_def split: if_splits)
  next
    case (UnsubTag d t)
    with assms id show ?thesis
      by (auto simp: dev_unsubscribe_def on_heap_def sub_frame_def bind_eq_Some_conv Let_def split: if_splits)
  qed
qed

lemma notify_ucast_sel [simp]:
  "hp (notify_ucast t d b i s) = hp s" "dev (notify_ucast t d b i s) = dev s" "tags (notify_ucast t d b i s) = tags s"
  "tagm (notify_ucast t d b i s) = tagm s" "devs (notify_ucast t d b i s) = devs s"
  by (simp_all add: notify_ucast_def split: option.split)

lemma interp_del_cmds [simp]: "sub_cmds (interp_del_rep t s) = sub_cmds s"
  by (simp add: interp_del_rep_def)

lemma sub_interp_frame:
  assumes "sub_interp d unsub s = Some s1"
  shows "hp s1 = hp s" "dev s1 = dev s" "sub_frame s s1" "sub_cmds s1 = sub_cmds s"
proof -
  have "hp s1 = hp s \<and> dev s1 = dev s \<and> devs s1 = devs s \<and> tags s1 = tags s \<and> sub_cmds s1 = sub_cmds s
      \<and> (\<forall>t. t_ucast (tagm s1 t) = t_ucast (tagm s t))"
    using assms unfolding sub_interp_def
    by (auto simp: bind_eq_Some_conv apply_interp_mode_def Let_def split: if_splits option.splits)
  then show "hp s1 = hp s" "dev s1 = dev s" "sub_frame s s1" "sub_cmds s1 = sub_cmds s" by (auto intro: sub_frame_dev)
qed

lemma sub_interp_defined:
  assumes "d_tag (dev s d) \<noteq> None" and "unsub \<or> d_sub (dev s d) \<noteq> None"
  shows "\<exists>s1. sub_interp d unsub s = Some s1"
proof -
  obtain t where "d_tag (dev s d) = Some t" using assms(1) by auto
  then show ?thesis
    using assms(2) by (cases "t_interp_mode (tagm s t) = INTERP_RE")
      (auto simp: sub_interp_def apply_interp_mode_def Let_def INTERP_NO_def INTERP_OR_def INTERP_RE_def)
qed

text \<open>What the handler does: nothing, or the subscription with the command to the caster of its tag.\<close>

definition sub_op_of :: "int \<Rightarrow> int \<Rightarrow> int \<Rightarrow> sub_op" where
  "sub_op_of d g n = (if n < 0 then UnsubTag d (TAGUID g \<bar>n\<bar>) else SubTag d (TAGUID g \<bar>n\<bar>))"

lemma run_sub_cases:
  assumes inv: "sub_inv s M" and ok: "sub_cmd_ok s c"
  obtains (same) "run_sub opt c s = Some s" "\<not> (c_dev c \<in> set (devs s) \<and> (\<exists>p as. c_args c = p # as \<and> atoi p \<noteq> 0))"
  | (sub) d g n s0 s1 M1 where "c_dev c = d" "d \<in> set (devs s)" "dev_ok d (d_addr (dev s d))" "n \<noteq> 0" "TAGUID g \<bar>n\<bar> \<in> set (tags s)"
      "sub_run (sub_op_of d g n) s = Some s0" "run_sub opt c s = Some s1" "sub_inv s1 M1" "sub_frame s s1" "dev s1 = dev s0"
      "sub_cmds s1 = sub_cmds (notify_ucast (TAGUID g \<bar>n\<bar>) d (0 < n) \<bar>n\<bar> s0)" "sub_frame s s0" "sub_cmds s0 = sub_cmds s"
      "(\<lambda>e. d_sub (dev s1 e)) = sub_abs (sub_op_of d g n) (\<lambda>e. d_sub (dev s e))"
      "d_group (dev s d) = Some g" "\<exists>p as. c_args c = p # as \<and> n = atoi p"
proof (cases "c_dev c \<in> set (devs s) \<and> (\<exists>p as. c_args c = p # as \<and> atoi p \<noteq> 0)")
  case False
  then have "run_sub opt c s = Some s"
    using ok by (cases "c_args c") (auto simp: run_sub_def cmd_sub_def sub_cmd_ok_def Let_def)
  then show ?thesis using False by (rule same)
next
  case True
  then obtain p as where c: "c_dev c \<in> set (devs s)" "c_args c = p # as" "atoi p \<noteq> 0" by blast
  define d n where "d = c_dev c" and "n = atoi p"
  obtain g where g: "d_group (dev s d) = Some g" "TAGUID g \<bar>n\<bar> \<in> set (tags s)" "d_tag (dev s d) \<noteq> None" "dev_ok d (d_addr (dev s d))"
    using ok c by (auto simp: sub_cmd_ok_def Let_def d_def n_def)
  let ?t = "TAGUID g \<bar>n\<bar>" and ?p = "sub_op_of d g n"
  have "sub_op_ok s ?p" using g unfolding sub_op_of_def by (cases "n < 0") (simp_all only: if_True if_False sub_op_ok.simps, simp)
  from sub_run_step [OF inv this] obtain s0 M0 where
    s0: "sub_run ?p s = Some s0" "sub_inv s0 M0" "(\<lambda>e. d_sub (dev s0 e)) = sub_abs ?p (\<lambda>e. d_sub (dev s e))" by blast
  note fr = sub_run_frame [OF s0(1)]
  let ?s2 = "notify_ucast ?t d (\<not> n < 0) \<bar>n\<bar> s0"
  have "d_tag (dev ?s2 d) \<noteq> None" using g(3) sub_frame_sel(4) [OF conjunct1 [OF fr]] by simp
  moreover have "n < 0 \<or> d_sub (dev ?s2 d) \<noteq> None" using fun_cong [OF s0(3), of d] by (simp add: sub_op_of_def)
  ultimately obtain s3 where s3: "sub_interp d (n < 0) ?s2 = Some s3" using sub_interp_defined by blast
  note f3 = sub_interp_frame [OF s3]
  let ?s1 = "device_save d s3"
  have "(if n < 0 then dev_unsubscribe d ?t s else dev_subscribe d ?t s) = Some s0"
    using s0(1) by (cases "n < 0") (simp_all add: sub_op_of_def)
  moreover have "c_dev c = d" "d \<in> set (devs s)" "c_args c = p # as" "atoi p = n" "n \<noteq> 0" using c by (simp_all add: d_def n_def)
  ultimately have run: "run_sub opt c s = Some ?s1"
    using g s3 by (cases "n < 0") (simp_all add: run_sub_def cmd_sub_def Let_def request_tag_def)
  have sel: "hp ?s1 = hp s0" "dev ?s1 = dev s0" "tags ?s1 = tags s0" using f3 sub_frame_sel(9) [OF f3(3)] by simp_all
  have inv1: "sub_inv ?s1 M0" using s0(2) sel by (simp add: sub_inv_def)
  have "sub_frame s0 ?s2" by (rule sub_frame_dev) simp_all
  moreover have "sub_frame s3 ?s1" by (rule sub_frame_dev) simp_all
  ultimately have "sub_frame s ?s1" using fr f3(3) sub_frame_trans by blast
  moreover have "sub_cmds ?s1 = sub_cmds (notify_ucast ?t d (0 < n) \<bar>n\<bar> s0)"
    using f3(4) c(3) by (simp add: n_def linorder_not_less le_less)
  ultimately show ?thesis
    using sub [OF d_def [symmetric] _ g(4) _ g(2) s0(1) run inv1] c g(1) fr sel(2) s0(3) by (auto simp: d_def n_def)
qed








text \<open>
  Moving to another tag is not told to the caster of the old one: only the caster of the tag subscribed to
  gets a command, and the old one goes on sending.
\<close>

lemma ucast_not_told_of_move:
  assumes "sub_inv s M" and "sub_cmd_ok s c" and "c_dev c \<in> set (devs s)" and "c_args c = p # as" and "0 < atoi p"
    and "d_group (dev s (c_dev c)) = Some g" and "t_ucast (tagm s (TAGUID g (atoi p))) = None"
  shows "\<exists>s1. run_sub opt c s = Some s1 \<and> sub_cmds s1 = sub_cmds s \<and> d_sub (dev s1 (c_dev c)) = Some (TAGUID g (atoi p))"
  using assms(1,2)
proof (cases rule: run_sub_cases [where opt = opt])
  case same
  then show ?thesis using assms(3,4,5) by fastforce
next
  case (sub d h n s0 s1 M1)
  have h: "h = g" "n = atoi p" using sub(1,15,16) assms(4,6) by auto
  have "t_ucast (tagm s0 (TAGUID g (atoi p))) = None" using sub_frame_sel(10) [OF sub(12)] assms(7) by simp
  then have "sub_cmds s1 = sub_cmds s" using sub(11,13) assms(5) by (simp add: notify_ucast_def h)
  moreover have "d_sub (dev s1 d) = Some (TAGUID g (atoi p))"
    using fun_cong [OF sub(14), of d] assms(5) by (simp add: sub_op_of_def h)
  ultimately show ?thesis using sub(1,7) by blast
qed


subsection \<open>The list of subscribers\<close>



definition entry_bytes :: "srv \<Rightarrow> int \<Rightarrow> byte list" where
  "entry_bytes s e =
     le_bytes 4 e @ rev (le_bytes 4 (fst (d_addr (dev s e)))) @ rev (le_bytes 2 (snd (d_addr (dev s e))))
       @ le_bytes 2 (if d_active (dev s e) \<noteq> 0 then 1 else 0)"


lemma length_entry [simp]: "length (entry_bytes s e) = 12"
  by (simp add: entry_bytes_def)

lemma length_entries [simp]: "length (concat (map (entry_bytes s) es)) = 12 * length es"
  by (induction es) simp_all






text \<open>A device announced before the list arrives is in the table twice, and gets every packet twice.\<close>

lemma ucast_listed_twice:
  assumes "add_sub d a 1 u = Some u1" and "add_sub d a 1 u1 = Some u2"
  shows "length (filter (\<lambda>x. fst x = a) (fst (handle_audio_pack p u2))) = length (filter (\<lambda>x. fst x = a) (fst (handle_audio_pack p u))) + 2"
  using assms by (auto simp: add_sub_def handle_audio_pack_def Let_def comp_def)

subsection \<open>Who gets the audio\<close>




end
