(* ===== verification/Client_Pcm.thy ===== *)
theory Client_Pcm
  imports Pcm
begin

text \<open>
  client/pcm.c beyond the mixing it shares with the server (Pcm): one channel from two and back, in
  place, and the interpolation from 8 kHz to 32 kHz. A buffer is its list of 16-bit samples; lengths
  are in bytes as in the code. Indices outside the buffer are faults.
\<close>

subsection \<open>Operations\<close>

text \<open>The loop writes ps[i] for i from 0.\<close>

definition mono_step :: "nat \<Rightarrow> 16 word list \<Rightarrow> 16 word list option" where
  "mono_step i ps = do { ensure (2 * i < length ps); Some (ps[i := ps ! (2 * i)]) }"

definition pcm_stereo_to_mono :: "16 word list \<Rightarrow> nat \<Rightarrow> (nat \<times> 16 word list) option" where
  "pcm_stereo_to_mono ps len = do { ps1 \<leftarrow> foldM mono_step [0..<len div 4] ps; Some (len div 2, ps1) }"

text \<open>The loop runs down from n - 2 in steps of two.\<close>

definition stereo_step :: "nat \<Rightarrow> 16 word list \<Rightarrow> 16 word list option" where
  "stereo_step i ps = do { ensure (i + 1 < length ps); Some (ps[i := ps ! (i div 2), i + 1 := ps ! (i div 2)]) }"

fun stereo_loop :: "nat \<Rightarrow> 16 word list \<Rightarrow> 16 word list option" where
  "stereo_loop (Suc (Suc n)) ps = do { ps1 \<leftarrow> stereo_step n ps; stereo_loop n ps1 }"
| "stereo_loop _ ps = Some ps"

definition pcm_mono_to_stereo :: "16 word list \<Rightarrow> nat \<Rightarrow> (nat \<times> 16 word list) option" where
  "pcm_mono_to_stereo ps len = do { ps1 \<leftarrow> stereo_loop len ps; Some (len * 2, ps1) }"

text \<open>One frame: the four values of a channel between the sample before and this one. The shift of the
  difference rounds down.\<close>

definition between :: "int \<Rightarrow> int \<Rightarrow> int list" where
  "between prev x = (let step = drop_bit 2 (x - prev) in map (\<lambda>k. prev + k * step) [1, 2, 3, 4])"

definition frame :: "int list \<Rightarrow> int list \<Rightarrow> 16 word list" where
  "frame xs ys = concat (map (\<lambda>(x, y). [word_of_int x, word_of_int y]) (zip xs ys))"

text \<open>The static prev_sample is the pair; n frames of two samples each are read.\<close>

fun resample_from :: "nat \<Rightarrow> 16 word list \<Rightarrow> int \<times> int \<Rightarrow> (16 word list \<times> int \<times> int) option" where
  "resample_from 0 src prev = Some ([], prev)"
| "resample_from (Suc n) (a # b # src) prev =
     do { (out, p) \<leftarrow> resample_from n src (sint a, sint b);
          Some (frame (between (fst prev) (sint a)) (between (snd prev) (sint b)) @ out, p) }"
| "resample_from (Suc n) _ prev = None"

definition pcm_resample_8k_32k :: "16 word list \<Rightarrow> nat \<Rightarrow> int \<times> int \<Rightarrow> (nat \<times> 16 word list \<times> int \<times> int) option" where
  "pcm_resample_8k_32k src n prev = do { (out, p) \<leftarrow> resample_from n src prev; Some (4 * n, out, p) }"

definition pcm_resample :: "16 word list \<Rightarrow> nat \<Rightarrow> int \<Rightarrow> int \<Rightarrow> int \<times> int \<Rightarrow> (nat \<times> 16 word list \<times> int \<times> int) option" where
  "pcm_resample src n from_hz to_hz prev = (if from_hz < to_hz then pcm_resample_8k_32k src n prev else Some (0, [], prev))"

subsection \<open>One channel and two\<close>

lemma mono_steps:
  assumes "m \<le> n" and "2 * n \<le> length ps"
  shows "\<exists>ps1. foldM mono_step [0..<m] ps = Some ps1 \<and> length ps1 = length ps
    \<and> (\<forall>i < length ps. ps1 ! i = (if i < m then ps ! (2 * i) else ps ! i))"
  using assms(1)
proof (induction m)
  case 0
  then show ?case by simp
next
  case (Suc m)
  then obtain ps1 where ps1: "foldM mono_step [0..<m] ps = Some ps1" "length ps1 = length ps"
    "\<forall>i < length ps. ps1 ! i = (if i < m then ps ! (2 * i) else ps ! i)" by auto
  have lt: "2 * m < length ps" using Suc.prems assms(2) by linarith
  have read: "ps1 ! (2 * m) = ps ! (2 * m)" using ps1(3) lt by (cases m) auto
  have "foldM mono_step [0..<Suc m] ps = Some (ps1[m := ps ! (2 * m)])"
    using ps1(1,2) lt read by (simp add: foldM_append mono_step_def)
  then show ?case using ps1(2,3) lt by (auto simp: nth_list_update less_Suc_eq)
qed

text \<open>stereo doubles every sample.\<close>

definition doubled :: "'a list \<Rightarrow> 'a list" where
  "doubled xs = concat (map (\<lambda>x. [x, x]) xs)"

lemma length_doubled [simp]: "length (doubled xs) = 2 * length xs"
  by (induction xs) (simp_all add: doubled_def)

lemma doubled_nth: "i < 2 * length xs \<Longrightarrow> doubled xs ! i = xs ! (i div 2)"
proof (induction xs arbitrary: i)
  case Nil
  then show ?case by simp
next
  case (Cons x xs)
  have d: "doubled (x # xs) = x # x # doubled xs" by (simp add: doubled_def)
  show ?case
  proof (cases "i < 2")
    case True
    then have "i = 0 \<or> i = 1" by auto
    then show ?thesis by (auto simp: d)
  next
    case False
    then obtain j where j: "i = Suc (Suc j)" by (metis add_2_eq_Suc le_Suc_ex not_less)
    then show ?thesis using Cons by (simp add: d)
  qed
qed

lemma stereo_loop_ok:
  assumes "2 * n \<le> length ps"
  shows "\<exists>ps1. stereo_loop (2 * n) ps = Some ps1 \<and> length ps1 = length ps
    \<and> (\<forall>i < length ps. ps1 ! i = (if i < 2 * n then ps ! (i div 2) else ps ! i))"
  using assms
proof (induction n arbitrary: ps)
  case 0
  then show ?case by simp
next
  case (Suc n)
  define ps0 where "ps0 = ps[2 * n := ps ! n, Suc (2 * n) := ps ! n]"
  have s: "stereo_step (2 * n) ps = Some ps0" using Suc.prems by (simp add: stereo_step_def ps0_def)
  obtain ps1 where ps1: "stereo_loop (2 * n) ps0 = Some ps1" "length ps1 = length ps0"
    "\<forall>i < length ps0. ps1 ! i = (if i < 2 * n then ps0 ! (i div 2) else ps0 ! i)"
    using Suc.IH [of ps0] Suc.prems by (auto simp: ps0_def)
  have nth: "ps1 ! i = (if i < 2 * Suc n then ps ! (i div 2) else ps ! i)" if "i < length ps" for i
  proof -
    have "i < 2 * n \<Longrightarrow> i div 2 < n" by linarith
    moreover have "i = 2 * n \<or> i = Suc (2 * n) \<or> i < 2 * n \<or> 2 * Suc n \<le> i" by auto
    ultimately show ?thesis using ps1(3) that Suc.prems by (auto simp: ps0_def nth_list_update)
  qed
  show ?case using ps1(1,2) nth by (auto simp: s ps0_def)
qed

lemma pcm_mono_to_stereo_ok:
  assumes "length ps = 2 * length xs" and "take (length xs) ps = xs"
  shows "pcm_mono_to_stereo ps (2 * length xs) = Some (4 * length xs, doubled xs)"
proof -
  obtain ps1 where ps1: "stereo_loop (2 * length xs) ps = Some ps1" "length ps1 = length ps"
    "\<forall>i < length ps. ps1 ! i = (if i < 2 * length xs then ps ! (i div 2) else ps ! i)"
    using stereo_loop_ok [of "length xs" ps] assms(1) by auto
  have "ps1 = doubled xs"
  proof (rule nth_equalityI)
    show "length ps1 = length (doubled xs)" using ps1(2) assms(1) by simp
    fix i assume i: "i < length ps1"
    then have lt: "i div 2 < length xs" using ps1(2) assms(1) by linarith
    have "ps1 ! i = ps ! (i div 2)" using ps1(2,3) i assms(1) by simp
    also have "\<dots> = xs ! (i div 2)" using assms(2) lt by (metis nth_take)
    also have "\<dots> = doubled xs ! i" using i ps1(2) assms(1) by (simp add: doubled_nth)
    finally show "ps1 ! i = doubled xs ! i" .
  qed
  then show ?thesis using ps1(1) by (simp add: pcm_mono_to_stereo_def)
qed

lemma pcm_stereo_to_mono_ok:
  assumes "length ps = 2 * n"
  shows "\<exists>ps1. pcm_stereo_to_mono ps (4 * n) = Some (2 * n, ps1) \<and> length ps1 = length ps
    \<and> take n ps1 = map (\<lambda>i. ps ! (2 * i)) [0..<n]"
proof -
  obtain ps1 where ps1: "foldM mono_step [0..<n] ps = Some ps1" "length ps1 = length ps"
    "\<forall>i < length ps. ps1 ! i = (if i < n then ps ! (2 * i) else ps ! i)"
    using mono_steps [of n n ps] assms by auto
  have "take n ps1 = map (\<lambda>i. ps ! (2 * i)) [0..<n]"
    by (rule nth_equalityI) (use ps1(2,3) assms in auto)
  then show ?thesis using ps1(1,2) by (simp add: pcm_stereo_to_mono_def)
qed

subsection \<open>Interpolation\<close>

lemma between_near:
  "between prev x = [prev + s, prev + 2 * s, prev + 3 * s, prev + 4 * s] \<Longrightarrow> s = (x - prev) div 4"
  by (simp add: between_def Let_def drop_bit_eq_div)

lemma between_bounds:
  assumes "v \<in> set (between prev x)"
  shows "min prev x - 3 \<le> v" and "v \<le> max prev x"
proof -
  define s where "s = (x - prev) div 4"
  have s: "4 * s \<le> x - prev" "x - prev \<le> 4 * s + 3" unfolding s_def by linarith+
  have "v = prev + s \<or> v = prev + 2 * s \<or> v = prev + 3 * s \<or> v = prev + 4 * s"
    using assms by (simp add: between_def Let_def drop_bit_eq_div s_def)
  with s show "min prev x - 3 \<le> v" "v \<le> max prev x" by (auto simp: min_def max_def)
qed

lemma between_last: "x - 3 \<le> between prev x ! 3" "between prev x ! 3 \<le> x"
  unfolding between_def Let_def by (simp_all add: drop_bit_eq_div)

lemma length_between [simp]: "length (between prev x) = 4"
  by (simp add: between_def Let_def)

lemma resample_from_ok:
  assumes "2 * n \<le> length src"
  shows "\<exists>out. resample_from n src prev
      = Some (out, if n = 0 then prev else (sint (src ! (2 * n - 2)), sint (src ! (2 * n - 1)))) \<and> length out = 8 * n"
  using assms
proof (induction n arbitrary: src prev)
  case 0
  then show ?case by simp
next
  case (Suc n)
  obtain a b src1 where src: "src = a # b # src1" using Suc.prems by (cases src; cases "tl src") auto
  obtain out where out: "resample_from n src1 (sint a, sint b)
      = Some (out, if n = 0 then (sint a, sint b) else (sint (src1 ! (2 * n - 2)), sint (src1 ! (2 * n - 1))))" "length out = 8 * n"
    using Suc.IH [of src1 "(sint a, sint b)"] Suc.prems by (auto simp: src)
  have l: "length (frame (between p x) (between q y)) = 8" for p q x y
    by (simp add: frame_def between_def Let_def)
  have last: "(if n = 0 then (sint a, sint b) else (sint (src1 ! (2 * n - 2)), sint (src1 ! (2 * n - 1))))
      = (sint (src ! (2 * Suc n - 2)), sint (src ! (2 * Suc n - 1)))"
    by (cases n) (simp_all add: src)
  show ?case using out l by (simp add: src last [unfolded src])
qed

subsection \<open>There and back\<close>

lemma doubled_even: "map (\<lambda>i. doubled xs ! (2 * i)) [0..<length xs] = xs"
  by (rule nth_equalityI) (simp_all add: doubled_nth)

text \<open>
  One channel made two in place, then two made one: in a buffer of twice their size, the samples come
  back, in order, with the length they had; between the two calls every sample stands twice. Both loops
  work in the buffer they read, one from its end and one from its start.
\<close>

theorem stereo_and_back:
  assumes "length ps = 2 * length xs" and "take (length xs) ps = xs"
  shows "pcm_mono_to_stereo ps (2 * length xs) = Some (4 * length xs, doubled xs)
    \<and> (\<exists>ps1. pcm_stereo_to_mono (doubled xs) (4 * length xs) = Some (2 * length xs, ps1) \<and> take (length xs) ps1 = xs)"
  using pcm_mono_to_stereo_ok [OF assms] pcm_stereo_to_mono_ok [of "doubled xs" "length xs"] doubled_even [of xs] by auto

theorem stereo_and_back_witness:
  "pcm_mono_to_stereo [1, 2, 3, 0, 0, 0] 6 = Some (12, doubled [1, 2, 3])"
  using stereo_and_back [of "[1, 2, 3, 0, 0, 0]" "[1, 2, 3]"] by simp

text \<open>The rounding of the step: values below both samples, and a sample that wraps at the bottom.\<close>

lemma interpolation_wraps:
  "between (-32767) (-32768) = [-32768, -32769, -32770, -32771]"
  "(word_of_int (-32771) :: 16 word) = 32765"
  by (simp_all add: between_def Let_def)

end
