(* ===== verification/Adpcm.thy ===== *)
theory Adpcm
  imports Pcm
begin

unbundle bit_operations_syntax

text \<open>
  client/adpcm.c: the coder that turns each 16-bit sample into four bits, and its decoder. Both keep a
  prediction and an index into the table of step sizes, and move them alike. The computations are on C
  ints, which differences of two samples do not overflow. An index outside the table is a fault, and so
  is reading beyond a buffer; what the buffer written to holds behind the result is left out.
\<close>

subsection \<open>Tables\<close>

definition indexTable :: "int list" where
  "indexTable = [-1, -1, -1, -1, 2, 4, 6, 8, -1, -1, -1, -1, 2, 4, 6, 8]"

definition stepsizeTable :: "int list" where
  "stepsizeTable =
    [7, 8, 9, 10, 11, 12, 13, 14, 16, 17,
     19, 21, 23, 25, 28, 31, 34, 37, 41, 45,
     50, 55, 60, 66, 73, 80, 88, 97, 107, 118,
     130, 143, 157, 173, 190, 209, 230, 253, 279, 307,
     337, 371, 408, 449, 494, 544, 598, 658, 724, 796,
     876, 963, 1060, 1166, 1282, 1411, 1552, 1707, 1878, 2066,
     2272, 2499, 2749, 3024, 3327, 3660, 4026, 4428, 4871, 5358,
     5894, 6484, 7132, 7845, 8630, 9493, 10442, 11487, 12635, 13899,
     15289, 16818, 18500, 20350, 22385, 24623, 27086, 29794, 32767]"

record adpcm_state =
  ad_valprev :: int
  ad_index :: int

text \<open>The variables of a run: valpred, index and step.\<close>

record adpcm_run =
  ar_valpred :: int
  ar_index :: int
  ar_step :: int

definition start_run :: "adpcm_state \<Rightarrow> adpcm_run option" where
  "start_run st =
     (if 0 \<le> ad_index st \<and> ad_index st < 89
      then Some \<lparr>ar_valpred = ad_valprev st, ar_index = ad_index st, ar_step = stepsizeTable ! nat (ad_index st)\<rparr>
      else None)"

definition end_run :: "adpcm_run \<Rightarrow> adpcm_state" where
  "end_run r = \<lparr>ad_valprev = ar_valpred r, ad_index = ar_index r\<rparr>"

definition clamp_val :: "int \<Rightarrow> int" where
  "clamp_val v = (if v > 32767 then 32767 else if v < -32768 then -32768 else v)"

definition clamp_index :: "int \<Rightarrow> int" where
  "clamp_index i = (let i1 = (if i < 0 then 0 else i) in if i1 > 88 then 88 else i1)"

subsection \<open>One sample\<close>

text \<open>Step 2 of the coder: the magnitude of the difference as three bits, and what they stand for.\<close>

definition quantise :: "int \<Rightarrow> int \<Rightarrow> int \<times> int" where
  "quantise diff step =
     (let v = drop_bit 3 step;
          (d1, diff1, v1) = (if diff \<ge> step then (4, diff - step, v + step) else (0, diff, v));
          step1 = drop_bit 1 step;
          (d2, diff2, v2) = (if diff1 \<ge> step1 then (d1 OR 2, diff1 - step1, v1 + step1) else (d1, diff1, v1));
          step2 = drop_bit 1 step1
      in if diff2 \<ge> step2 then (d2 OR 1, v2 + step2) else (d2, v2))"

definition code_sample :: "int \<Rightarrow> adpcm_run \<Rightarrow> int \<times> adpcm_run" where
  "code_sample val r =
     (let diff0 = val - ar_valpred r;
          sign = (if diff0 < 0 then 8 else 0);
          diff = (if sign \<noteq> 0 then - diff0 else diff0);
          (delta0, vpdiff) = quantise diff (ar_step r);
          valpred = clamp_val (if sign \<noteq> 0 then ar_valpred r - vpdiff else ar_valpred r + vpdiff);
          delta = delta0 OR sign;
          index = clamp_index (ar_index r + indexTable ! nat delta)
      in (delta, \<lparr>ar_valpred = valpred, ar_index = index, ar_step = stepsizeTable ! nat index\<rparr>))"

definition decode_sample :: "int \<Rightarrow> adpcm_run \<Rightarrow> adpcm_run" where
  "decode_sample delta0 r =
     (let index = clamp_index (ar_index r + indexTable ! nat delta0);
          sign = delta0 AND 8;
          delta = delta0 AND 7;
          v0 = drop_bit 3 (ar_step r);
          v1 = (if delta AND 4 \<noteq> 0 then v0 + ar_step r else v0);
          v2 = (if delta AND 2 \<noteq> 0 then v1 + drop_bit 1 (ar_step r) else v1);
          vpdiff = (if delta AND 1 \<noteq> 0 then v2 + drop_bit 2 (ar_step r) else v2)
      in \<lparr>ar_valpred = clamp_val (if sign \<noteq> 0 then ar_valpred r - vpdiff else ar_valpred r + vpdiff),
          ar_index = index, ar_step = stepsizeTable ! nat index\<rparr>)"

subsection \<open>The loops\<close>

text \<open>The flag bufferstep and the four bits kept in outputbuffer.\<close>

fun code_loop :: "int list \<Rightarrow> bool \<Rightarrow> int \<Rightarrow> adpcm_run \<Rightarrow> 8 word list \<times> adpcm_run" where
  "code_loop [] bufferstep ob r = (if bufferstep then [] else [word_of_int ob], r)"
| "code_loop (v # vs) True ob r = (let (delta, r1) = code_sample v r in code_loop vs False (push_bit 4 delta AND 0xf0) r1)"
| "code_loop (v # vs) False ob r =
     (let (delta, r1) = code_sample v r; (out, r2) = code_loop vs True ob r1
      in (word_of_int ((delta AND 0x0f) OR ob) # out, r2))"

definition adpcm_coder :: "16 word list \<Rightarrow> int \<Rightarrow> adpcm_state \<Rightarrow> (8 word list \<times> adpcm_state) option" where
  "adpcm_coder indata len st =
     (let n = nat (len div 2)
      in do { r \<leftarrow> start_run st;
              ensure (n \<le> length indata);
              let (out, r1) = code_loop (map sint (take n indata)) True 0 r;
              Some (out, end_run r1) })"

text \<open>The loop over n samples; ib is inputbuffer, a signed char.\<close>

fun decode_loop :: "nat \<Rightarrow> bool \<Rightarrow> int \<Rightarrow> 8 word list \<Rightarrow> adpcm_run \<Rightarrow> (16 word list \<times> adpcm_run) option" where
  "decode_loop 0 bufferstep ib inp r = Some ([], r)"
| "decode_loop (Suc n) True ib inp r =
     (let r1 = decode_sample (ib AND 0xf) r
      in do { (out, r2) \<leftarrow> decode_loop n False ib inp r1; Some (word_of_int (ar_valpred r1) # out, r2) })"
| "decode_loop (Suc n) False ib [] r = None"
| "decode_loop (Suc n) False ib (b # inp) r =
     (let ib1 = sint b; r1 = decode_sample (drop_bit 4 ib1 AND 0xf) r
      in do { (out, r2) \<leftarrow> decode_loop n True ib1 inp r1; Some (word_of_int (ar_valpred r1) # out, r2) })"

definition adpcm_decoder :: "8 word list \<Rightarrow> int \<Rightarrow> adpcm_state \<Rightarrow> (16 word list \<times> adpcm_state) option" where
  "adpcm_decoder indata len st =
     do { r \<leftarrow> start_run st; (out, r1) \<leftarrow> decode_loop (nat (len * 2)) False 0 indata r; Some (out, end_run r1) }"

subsection \<open>The state stays in range\<close>

definition adpcm_ok :: "adpcm_state \<Rightarrow> bool" where
  "adpcm_ok st \<longleftrightarrow> - 32768 \<le> ad_valprev st \<and> ad_valprev st \<le> 32767 \<and> 0 \<le> ad_index st \<and> ad_index st \<le> 88"

definition run_ok :: "adpcm_run \<Rightarrow> bool" where
  "run_ok r \<longleftrightarrow> adpcm_ok (end_run r) \<and> ar_step r = stepsizeTable ! nat (ar_index r)"

lemma clamp_val_range [simp]: "- 32768 \<le> clamp_val v" "clamp_val v \<le> 32767"
  by (simp_all add: clamp_val_def)

lemma clamp_index_range [simp]: "0 \<le> clamp_index i" "clamp_index i \<le> 88"
  by (simp_all add: clamp_index_def Let_def)

lemma start_run_ok: "adpcm_ok st \<Longrightarrow> \<exists>r. start_run st = Some r \<and> run_ok r \<and> end_run r = st"
  by (simp add: start_run_def adpcm_ok_def run_ok_def end_run_def)

lemma code_sample_ok: "run_ok (snd (code_sample v r))"
  by (simp add: code_sample_def run_ok_def adpcm_ok_def end_run_def Let_def split_beta)

lemma decode_sample_ok: "run_ok (decode_sample d r)"
  by (simp add: decode_sample_def run_ok_def adpcm_ok_def end_run_def Let_def)

lemma stepsize_range: "0 \<le> i \<Longrightarrow> i \<le> 88 \<Longrightarrow> 7 \<le> stepsizeTable ! nat i \<and> stepsizeTable ! nat i \<le> 32767"
proof -
  have "\<forall>x \<in> set stepsizeTable. 7 \<le> x \<and> x \<le> 32767" by (simp add: stepsizeTable_def)
  moreover have "length stepsizeTable = 89" by (simp add: stepsizeTable_def)
  moreover assume "0 \<le> i" "i \<le> 88"
  ultimately show ?thesis by (simp add: nat_less_iff)
qed

lemma run_step_range: "run_ok r \<Longrightarrow> 7 \<le> ar_step r \<and> ar_step r \<le> 32767"
  using stepsize_range by (simp add: run_ok_def adpcm_ok_def end_run_def)

subsection \<open>The decoder follows the coder\<close>

lemma quantise_bits:
  assumes "quantise diff step = (d, v)"
  shows "d \<in> {0..7} \<and> v = drop_bit 3 step + (if d AND 4 \<noteq> 0 then step else 0)
    + (if d AND 2 \<noteq> 0 then drop_bit 1 step else 0) + (if d AND 1 \<noteq> 0 then drop_bit 2 step else 0)"
proof -
  have two: "drop_bit (Suc 0) (drop_bit (Suc 0) step) = drop_bit 2 step" by (simp add: drop_bit_drop_bit numeral_2_eq_2)
  show ?thesis
    using assms two by (auto simp: quantise_def Let_def split: if_splits)
qed

lemma nibble_cases: "d \<in> {0..7::int} \<Longrightarrow> d = 0 \<or> d = 1 \<or> d = 2 \<or> d = 3 \<or> d = 4 \<or> d = 5 \<or> d = 6 \<or> d = 7"
  by auto

lemma sign_bits:
  assumes "d \<in> {0..7::int}" and "s = 0 \<or> s = 8"
  shows "(d OR s) AND 8 = s" and "(d OR s) AND 7 = d" and "0 \<le> d OR s" and "d OR s \<le> 15"
  using nibble_cases [OF assms(1)] assms(2) by auto

lemma decode_code_sample:
  assumes "code_sample v r = (delta, r1)"
  shows "decode_sample delta r = r1" and "0 \<le> delta" and "delta \<le> 15"
proof -
  define s :: int where "s = (if v - ar_valpred r < 0 then 8 else 0)"
  define dd where "dd = (if s \<noteq> 0 then - (v - ar_valpred r) else v - ar_valpred r)"
  obtain d vp where q: "quantise dd (ar_step r) = (d, vp)" by (cases "quantise dd (ar_step r)")
  note bits = quantise_bits [OF q]
  have s: "s = 0 \<or> s = 8" by (simp add: s_def)
  have d: "d \<in> {0..7}" using bits by blast
  have delta: "delta = d OR s"
    and r1: "r1 = \<lparr>ar_valpred = clamp_val (if s \<noteq> 0 then ar_valpred r - vp else ar_valpred r + vp),
      ar_index = clamp_index (ar_index r + indexTable ! nat delta),
      ar_step = stepsizeTable ! nat (clamp_index (ar_index r + indexTable ! nat delta))\<rparr>"
    using assms q unfolding code_sample_def s_def [symmetric] dd_def [symmetric] Let_def by auto
  show "0 \<le> delta" "delta \<le> 15" using sign_bits(3,4) [OF d s] by (simp_all add: delta)
  show "decode_sample delta r = r1"
    using bits unfolding decode_sample_def Let_def r1 delta sign_bits(1,2) [OF d s] by auto
qed

text \<open>The predictions the coder makes, one for each sample: what there is to hear.\<close>

fun predictions :: "int list \<Rightarrow> adpcm_run \<Rightarrow> 16 word list \<times> adpcm_run" where
  "predictions [] r = ([], r)"
| "predictions (v # vs) r =
     (let r1 = snd (code_sample v r); (ps, r2) = predictions vs r1 in (word_of_int (ar_valpred r1) # ps, r2))"

lemma predictions_append:
  "predictions (vs @ ws) r = (let (ps, r1) = predictions vs r; (qs, r2) = predictions ws r1 in (ps @ qs, r2))"
  by (induction vs arbitrary: r) (simp_all add: Let_def split_beta)

lemma predictions_ok: "run_ok r \<Longrightarrow> run_ok (snd (predictions vs r)) \<and> length (fst (predictions vs r)) = length vs"
  by (induction vs arbitrary: r) (simp_all add: Let_def split_beta code_sample_ok)

lemma nibbles_all:
  "list_all (\<lambda>d1. list_all (\<lambda>d2.
     drop_bit 4 (sint (word_of_int ((d2 AND 0x0f) OR (push_bit 4 d1 AND 0xf0)) :: 8 word)) AND 0xf = d1
     \<and> sint (word_of_int ((d2 AND 0x0f) OR (push_bit 4 d1 AND 0xf0)) :: 8 word) AND 0xf = d2) [0..15]) [0..15 :: int]"
  by code_simp

lemma nibbles:
  assumes "0 \<le> d1" "d1 \<le> 15" "0 \<le> d2" "d2 \<le> 15"
  shows "drop_bit 4 (sint (word_of_int ((d2 AND 0x0f) OR (push_bit 4 d1 AND 0xf0)) :: 8 word)) AND 0xf = d1"
    and "sint (word_of_int ((d2 AND 0x0f) OR (push_bit 4 d1 AND 0xf0)) :: 8 word) AND 0xf = d2"
  using nibbles_all assms by (auto simp: list_all_iff)

lemma nibble_alone: "0 \<le> d \<Longrightarrow> d \<le> 15 \<Longrightarrow> drop_bit 4 (sint (word_of_int (push_bit 4 d AND 0xf0) :: 8 word)) AND 0xf = d"
  using nibbles(1) [of d 0] by simp

lemma decode_code_loop:
  "decode_loop (length vs) False ib (fst (code_loop vs True ob r) @ rest) r = Some (predictions vs r)
   \<and> snd (code_loop vs True ob r) = snd (predictions vs r) \<and> length (fst (code_loop vs True ob r)) = (length vs + 1) div 2"
proof (induction vs arbitrary: ib ob r rule: induct_list012)
  case 1
  then show ?case by simp
next
  case (2 v)
  obtain d r1 where c: "code_sample v r = (d, r1)" by (cases "code_sample v r")
  from decode_code_sample [OF c] nibble_alone [of d] show ?case by (simp add: c Let_def)
next
  case (3 v w vs)
  obtain d1 r1 where c1: "code_sample v r = (d1, r1)" by (cases "code_sample v r")
  obtain d2 r2 where c2: "code_sample w r1 = (d2, r2)" by (cases "code_sample w r1")
  note d = decode_code_sample [OF c1] decode_code_sample [OF c2]
  obtain out r3 where o: "code_loop vs True (push_bit 4 d1 AND 0xf0) r2 = (out, r3)"
    by (cases "code_loop vs True (push_bit 4 d1 AND 0xf0) r2")
  have "decode_loop (length vs) False (sint (word_of_int ((d2 AND 0x0f) OR (push_bit 4 d1 AND 0xf0)) :: 8 word)) (out @ rest) r2
      = Some (predictions vs r2) \<and> r3 = snd (predictions vs r2) \<and> length out = (length vs + 1) div 2"
    using "3.IH"(1) [of _ "push_bit 4 d1 AND 0xf0" r2] by (simp add: o)
  then show ?case
    using d nibbles [of d1 d2] by (simp add: c1 c2 o Let_def split_beta)
qed

subsection \<open>Blocks\<close>

lemma adpcm_coder_block:
  assumes "adpcm_ok st" and "len = 2 * int (length xs)"
  obtains r out where "start_run st = Some r" "run_ok r"
    "adpcm_coder xs len st = Some (out, end_run (snd (predictions (map sint xs) r)))" "length out = (length xs + 1) div 2"
    "\<And>ib rest. decode_loop (length xs) False ib (out @ rest) r = Some (predictions (map sint xs) r)"
proof -
  obtain r where r: "start_run st = Some r" "run_ok r" using start_run_ok [OF assms(1)] by blast
  obtain out r1 where o: "code_loop (map sint xs) True 0 r = (out, r1)" by (cases "code_loop (map sint xs) True 0 r")
  note loop = decode_code_loop [of "map sint xs" _ 0 r, unfolded o]
  show thesis
    by (rule that [OF r, of out]) (use loop in \<open>simp_all add: adpcm_coder_def assms(2) r(1) o\<close>)
qed

lemma adpcm_decoder_block:
  assumes "adpcm_ok st" and "even (length xs)" and "adpcm_coder xs (2 * int (length xs)) st = Some (out, st1)"
  shows "adpcm_decoder out (int (length out)) st
      = Some (fst (predictions (map sint xs) (the (start_run st))), st1) \<and> adpcm_ok st1 \<and> length out = length xs div 2"
proof -
  obtain r out' where b: "start_run st = Some r" "run_ok r"
    "adpcm_coder xs (2 * int (length xs)) st = Some (out', end_run (snd (predictions (map sint xs) r)))"
    "length out' = (length xs + 1) div 2"
    "\<And>ib rest. decode_loop (length xs) False ib (out' @ rest) r = Some (predictions (map sint xs) r)"
    using adpcm_coder_block [OF assms(1) refl] by blast
  have eq: "out' = out" "st1 = end_run (snd (predictions (map sint xs) r))" using b(3) assms(3) by simp_all
  have n: "nat (int (length out) * 2) = length xs" using b(4) assms(2) by (simp add: eq(1) nat_mult_distrib)
  show ?thesis
    using b(1,4) b(5) [of 0 "[]"] predictions_ok [OF b(2), of "map sint xs"] assms(2)
    unfolding adpcm_decoder_def n by (simp add: eq split_beta run_ok_def)
qed

text \<open>A stream of blocks, each coded with the state the one before left.\<close>

fun code_blocks :: "16 word list list \<Rightarrow> adpcm_state \<Rightarrow> (8 word list list \<times> adpcm_state) option" where
  "code_blocks [] st = Some ([], st)"
| "code_blocks (xs # bs) st =
     do { (out, st1) \<leftarrow> adpcm_coder xs (2 * int (length xs)) st; (outs, st2) \<leftarrow> code_blocks bs st1; Some (out # outs, st2) }"

fun decode_blocks :: "8 word list list \<Rightarrow> adpcm_state \<Rightarrow> (16 word list list \<times> adpcm_state) option" where
  "decode_blocks [] st = Some ([], st)"
| "decode_blocks (b # bs) st =
     do { (out, st1) \<leftarrow> adpcm_decoder b (int (length b)) st; (outs, st2) \<leftarrow> decode_blocks bs st1; Some (out # outs, st2) }"

lemma decode_code_blocks:
  assumes "adpcm_ok st" and "\<forall>xs \<in> set bs. even (length xs)"
  shows "\<exists>outs st1. code_blocks bs st = Some (outs, st1) \<and> adpcm_ok st1 \<and> map length outs = map (\<lambda>xs. length xs div 2) bs
    \<and> (\<exists>heard. decode_blocks outs st = Some (heard, st1)
        \<and> concat heard = fst (predictions (map sint (concat bs)) (the (start_run st)))
        \<and> the (start_run st1) = snd (predictions (map sint (concat bs)) (the (start_run st))))"
  using assms
proof (induction bs arbitrary: st)
  case Nil
  then show ?case by simp
next
  case (Cons xs bs)
  let ?r = "the (start_run st)"
  obtain r out st1 where c: "start_run st = Some r" "run_ok r" "adpcm_coder xs (2 * int (length xs)) st = Some (out, st1)"
    "st1 = end_run (snd (predictions (map sint xs) r))"
    using adpcm_coder_block [OF Cons.prems(1) refl, of xs] by metis
  have d: "adpcm_decoder out (int (length out)) st = Some (fst (predictions (map sint xs) r), st1)" "adpcm_ok st1"
    "length out = length xs div 2"
    using adpcm_decoder_block [OF Cons.prems(1) _ c(3)] Cons.prems(2) c(1) by (metis list.set_intros(1) option.sel)+
  have r1: "the (start_run st1) = snd (predictions (map sint xs) r)"
    using predictions_ok [OF c(2), of "map sint xs"] d(2) by (simp add: c(4) start_run_def end_run_def run_ok_def adpcm_ok_def)
  obtain outs st2 heard where i: "code_blocks bs st1 = Some (outs, st2)" "adpcm_ok st2"
    "map length outs = map (\<lambda>xs. length xs div 2) bs" "decode_blocks outs st1 = Some (heard, st2)"
    "concat heard = fst (predictions (map sint (concat bs)) (the (start_run st1)))"
    "the (start_run st2) = snd (predictions (map sint (concat bs)) (the (start_run st1)))"
    using Cons.IH [OF d(2)] Cons.prems(2) by auto
  show ?case
    using i c(1,3) d(1,3) by (simp add: predictions_append r1 Let_def split_beta)
qed

subsection \<open>How far the prediction is from the sample\<close>

lemma halves:
  fixes s :: int
  shows "2 * (s div 2) \<le> s \<and> s \<le> 2 * (s div 2) + 1"
  by linarith

lemma quantise_error:
  assumes "quantise diff step = (d, v)" and "0 \<le> diff" and "0 \<le> step"
  shows "\<bar>diff - v\<bar> \<le> step div 8 + 3 \<or> \<bar>diff - v\<bar> = diff - (step + step div 2 + step div 4 + step div 8)"
proof -
  define h q e where "h = step div 2" and "q = h div 2" and "e = q div 2"
  have div: "step div 2 = h" "step div 4 = q" "step div 8 = e"
    by (simp_all add: h_def q_def e_def div_mult2_eq [symmetric] zdiv_zmult2_eq [symmetric])
  have s: "drop_bit 3 step = e" "drop_bit 1 step = h" "drop_bit 1 h = q"
    by (simp_all add: drop_bit_eq_div h_def q_def e_def zdiv_zmult2_eq [symmetric])
  have b: "2 * h \<le> step" "step \<le> 2 * h + 1" "2 * q \<le> h" "h \<le> 2 * q + 1" "2 * e \<le> q" "q \<le> 2 * e + 1" "0 \<le> e"
    using halves [of step] halves [of h] halves [of q] assms(3) by (simp_all add: h_def q_def e_def)
  show ?thesis
    using assms(1,2) b unfolding quantise_def Let_def s div by (simp split: if_splits; linarith)
qed

lemma clamp_val_nearer: "- 32768 \<le> x \<Longrightarrow> x \<le> 32767 \<Longrightarrow> \<bar>x - clamp_val p\<bar> \<le> \<bar>x - p\<bar>"
  by (auto simp: clamp_val_def)

lemma code_sample_error:
  assumes "run_ok r" and "- 32768 \<le> v" and "v \<le> 32767"
  shows "\<bar>v - ar_valpred (snd (code_sample v r))\<bar> \<le> ar_step r div 8 + 3
    \<or> \<bar>v - ar_valpred (snd (code_sample v r))\<bar>
        \<le> \<bar>v - ar_valpred r\<bar> - (ar_step r + ar_step r div 2 + ar_step r div 4 + ar_step r div 8)"
proof -
  define p where "p = ar_valpred r"
  obtain d vp where q: "quantise \<bar>v - p\<bar> (ar_step r) = (d, vp)" by (cases "quantise \<bar>v - p\<bar> (ar_step r)")
  have e: "\<bar>\<bar>v - p\<bar> - vp\<bar> \<le> ar_step r div 8 + 3
      \<or> \<bar>\<bar>v - p\<bar> - vp\<bar> = \<bar>v - p\<bar> - (ar_step r + ar_step r div 2 + ar_step r div 4 + ar_step r div 8)"
    using quantise_error [OF q] run_step_range [OF assms(1)] by simp
  have val: "ar_valpred (snd (code_sample v r)) = clamp_val (if v < p then p - vp else p + vp)"
  proof (cases "v < p")
    case True
    with q show ?thesis by (simp add: code_sample_def Let_def split_beta p_def)
  next
    case False
    with q show ?thesis by (simp add: code_sample_def Let_def split_beta p_def)
  qed
  have "\<bar>v - ar_valpred (snd (code_sample v r))\<bar> \<le> \<bar>v - (if v < p then p - vp else p + vp)\<bar>"
    unfolding val by (rule clamp_val_nearer [OF assms(2,3)])
  also have "\<dots> = \<bar>\<bar>v - p\<bar> - vp\<bar>" by auto
  finally show ?thesis using e unfolding p_def by linarith
qed

subsection \<open>What there is to hear\<close>

text \<open>
  C26. Coder and decoder follow each other: samples coded in blocks of even sizes, the state carried from
  block to block, give outputs of half as many bytes; a decoder that starts with the same state and gets
  these blocks hears, block by block, exactly the predictions the coder made for the whole stream, and it
  ends in the coder's state, which is in range again.
\<close>

theorem adpcm_decoder_follows_coder:
  assumes "adpcm_ok st" and "\<forall>xs \<in> set bs. even (length xs)"
  shows "\<exists>outs heard st1. code_blocks bs st = Some (outs, st1) \<and> decode_blocks outs st = Some (heard, st1)
    \<and> map length outs = map (\<lambda>xs. length xs div 2) bs
    \<and> concat heard = fst (predictions (map sint (concat bs)) (the (start_run st))) \<and> adpcm_ok st1"
  using decode_code_blocks [OF assms] by blast

theorem adpcm_decoder_follows_coder_witness:
  "\<exists>outs heard st1. code_blocks [[1, 2], [300, 65000, 7, 8]] \<lparr>ad_valprev = 0, ad_index = 0\<rparr> = Some (outs, st1)
    \<and> decode_blocks outs \<lparr>ad_valprev = 0, ad_index = 0\<rparr> = Some (heard, st1) \<and> map length outs = [1, 2]"
  using adpcm_decoder_follows_coder [of "\<lparr>ad_valprev = 0, ad_index = 0\<rparr>" "[[1, 2], [300, 65000, 7, 8]]"]
  by (auto simp: adpcm_ok_def)

text \<open>
  C33. Each prediction is near its sample: after a sample is coded, the prediction the decoder will play is
  within an eighth of the step size and three of the sample; or the sample was out of reach of one step,
  and then the distance has shrunk by the whole reach, more than one and a half step sizes.
\<close>

theorem adpcm_prediction_error_bounded:
  assumes "run_ok r" and "- 32768 \<le> v" and "v \<le> 32767"
  shows "run_ok (snd (code_sample v r))
    \<and> (\<bar>v - ar_valpred (snd (code_sample v r))\<bar> \<le> ar_step r div 8 + 3
      \<or> \<bar>v - ar_valpred (snd (code_sample v r))\<bar>
          \<le> \<bar>v - ar_valpred r\<bar> - (ar_step r + ar_step r div 2 + ar_step r div 4 + ar_step r div 8))"
  using code_sample_error [OF assms] code_sample_ok by blast

theorem adpcm_prediction_error_bounded_witness:
  "\<bar>100 - ar_valpred (snd (code_sample 100 \<lparr>ar_valpred = 96, ar_index = 0, ar_step = 7\<rparr>))\<bar> \<le> 3"
  using adpcm_prediction_error_bounded [of "\<lparr>ar_valpred = 96, ar_index = 0, ar_step = 7\<rparr>" 100]
  by (auto simp: run_ok_def adpcm_ok_def end_run_def stepsizeTable_def)

lemma decode_loop_total:
  assumes "run_ok r" and "(n + (if b then 0 else 1)) div 2 \<le> length inp"
  shows "\<exists>out r1. decode_loop n b ib inp r = Some (out, r1) \<and> run_ok r1 \<and> length out = n"
  using assms
proof (induction n b ib inp r rule: decode_loop.induct)
  case (2 n ib inp r)
  then show ?case using decode_sample_ok [of "ib AND 0xf" r] by (fastforce simp: Let_def)
next
  case (4 n ib b inp r)
  then show ?case using decode_sample_ok [of "drop_bit 4 (sint b) AND 0xf" r] by (fastforce simp: Let_def)
qed simp_all

text \<open>
  C34. The coder and the decoder are defined on everything that has the type of their input: from a state
  in range (a 16-bit prediction and an index into the table of 89 step sizes), any bytes are decoded, two
  samples for each, any samples are coded, two in a byte and one more byte for a last odd one; neither
  reads outside a table or a buffer, and the state left is in range.
\<close>

theorem adpcm_keeps_type:
  assumes "adpcm_ok st"
  shows "\<exists>out st1 pcm st2. adpcm_coder xs (2 * int (length xs)) st = Some (out, st1) \<and> adpcm_ok st1
    \<and> length out = (length xs + 1) div 2
    \<and> adpcm_decoder bytes (int (length bytes)) st = Some (pcm, st2) \<and> adpcm_ok st2 \<and> length pcm = 2 * length bytes"
proof -
  obtain r out where c: "start_run st = Some r" "run_ok r"
    "adpcm_coder xs (2 * int (length xs)) st = Some (out, end_run (snd (predictions (map sint xs) r)))"
    "length out = (length xs + 1) div 2"
    using adpcm_coder_block [OF assms refl, of xs] by metis
  have n: "nat (int (length bytes) * 2) = 2 * length bytes" by (simp add: nat_mult_distrib)
  obtain pcm r1 where d: "decode_loop (2 * length bytes) False 0 bytes r = Some (pcm, r1)" "run_ok r1" "length pcm = 2 * length bytes"
    using decode_loop_total [OF c(2), of "2 * length bytes" False bytes 0] by auto
  have "adpcm_ok (end_run (snd (predictions (map sint xs) r)))" using predictions_ok [OF c(2)] by (simp add: run_ok_def)
  moreover have "adpcm_ok (end_run r1)" using d(2) by (simp add: run_ok_def)
  ultimately show ?thesis using c(1,3,4) d(1,3) n by (simp add: adpcm_decoder_def)
qed

theorem adpcm_keeps_type_witness:
  "\<exists>pcm st2. adpcm_decoder [0x7f, 0x80, 0xff] 3 \<lparr>ad_valprev = 32767, ad_index = 88\<rparr> = Some (pcm, st2)
    \<and> adpcm_ok st2 \<and> length pcm = 6"
  using adpcm_keeps_type [of "\<lparr>ad_valprev = 32767, ad_index = 88\<rparr>" "[]" "[0x7f, 0x80, 0xff]"]
  by (auto simp: adpcm_ok_def)

end
