(* ===== verification/Rbudp.thy ===== *)
theory Rbudp
  imports Cfifo Encode
begin

unbundle bit_operations_syntax

text \<open>
  client/rbudp.c: broadcasting audio with retransmission. The sender numbers its packets, keeps the last
  32 of them and answers requests for one; the receiver hands packets on in order, asks for one that is
  missing and keeps up to seven that follow it waiting. Sequence numbers are 16 bits wide and leave out
  0. An address has any type; what sendto does not report is that a packet is lost.
\<close>

subsection \<open>Packets\<close>

record rb_packet =
  rp_tag :: int
  rp_type :: int
  rp_seq :: "16 word"
  rp_len :: nat
  rp_extra :: int
  rp_data :: "byte list"

definition RBUDP_PACKET :: int where "RBUDP_PACKET = 0"
definition RBUDP_RETRAN :: int where "RBUDP_RETRAN = 1"
definition RBUDP_REPAIR :: int where "RBUDP_REPAIR = 2"

definition RB_SIZE :: nat where "RB_SIZE = 2048"
definition REP_SIZE :: nat where "REP_SIZE = 32"

definition rb_pack_size :: "rb_packet \<Rightarrow> nat" where
  "rb_pack_size p = 8 + rp_len p"

datatype 'a rb_sent = ToAll rb_packet | To 'a rb_packet

subsection \<open>The sender\<close>

record rb_sender =
  rs_seq :: "16 word"
  rs_bufs :: "rb_packet list"
  rs_rep_seq :: "int list"
  rs_rep_count :: "int list"

definition no_packet :: rb_packet where
  "no_packet = \<lparr>rp_tag = 0, rp_type = 0, rp_seq = 0, rp_len = 0, rp_extra = 0, rp_data = []\<rparr>"

definition rb_sender_init :: rb_sender where
  "rb_sender_init =
     \<lparr>rs_seq = 0, rs_bufs = replicate REP_SIZE no_packet, rs_rep_seq = replicate REP_SIZE 0, rs_rep_count = replicate REP_SIZE 0\<rparr>"

definition rb_slot :: "16 word \<Rightarrow> nat" where
  "rb_slot q = unat (q AND 31)"

text \<open>bs is the data. The second result is the packet that goes out; when sendto fails the copy is not
  marked as a repair.\<close>

definition rbudp_broadcast :: "bool \<Rightarrow> int \<Rightarrow> byte list \<Rightarrow> int \<Rightarrow> rb_sender \<Rightarrow> (int \<times> 'a rb_sent list \<times> rb_sender) option" where
  "rbudp_broadcast ok tag bs extra s =
     (let q = (if rs_seq s + 1 = 0 then 1 else rs_seq s + 1);
          p = \<lparr>rp_tag = tag mod 256, rp_type = RBUDP_PACKET, rp_seq = q, rp_len = length bs, rp_extra = extra mod 65536, rp_data = bs\<rparr>
      in do { ensure (rb_pack_size p \<le> RB_SIZE);
              let s1 = s\<lparr>rs_seq := q\<rparr>;
              Some (if ok then (0, [ToAll p], s1\<lparr>rs_bufs := (rs_bufs s)[rb_slot q := p\<lparr>rp_type := RBUDP_REPAIR\<rparr>]\<rparr>)
                    else (-1, [], s1\<lparr>rs_bufs := (rs_bufs s)[rb_slot q := p]\<rparr>)) })"

text \<open>run_retransmit, one datagram from other.\<close>

definition run_retransmit :: "'a \<Rightarrow> rb_packet \<Rightarrow> rb_sender \<Rightarrow> 'a rb_sent list \<times> rb_sender" where
  "run_retransmit other req s =
     (let i = rb_slot (rp_seq req); p = rs_bufs s ! i
      in if rp_type req = RBUDP_RETRAN \<and> rp_seq p = rp_seq req
         then (let n = (if rs_rep_seq s ! i \<noteq> uint (rp_seq req) then 0 else rs_rep_count s ! i)
               in (if n < 8 then [To other p] else if n < 20 then [ToAll p] else [],
                   s\<lparr>rs_rep_seq := (rs_rep_seq s)[i := uint (rp_seq req)], rs_rep_count := (rs_rep_count s)[i := n + 1]\<rparr>))
         else ([], s))"

subsection \<open>The receiver\<close>

datatype 'a rb_event =
    Deliver int "byte list" int \<comment> \<open>the callback: tag, data, extra\<close>
  | Ask 'a int "16 word" \<comment> \<open>a request sent to a source, with the tag and the number\<close>

record 'a rb_receiver =
  rr_tag :: int
  rr_expect :: "16 word"
  rr_wait :: "rb_packet cfifo"
  rr_src :: "'a option" \<comment> \<open>None while it is not initialised\<close>
  rr_out :: "'a rb_event list"

definition rb_receiver_init :: "(32 word \<Rightarrow> rb_packet) \<Rightarrow> 'a rb_receiver" where
  "rb_receiver_init mem = \<lparr>rr_tag = 0, rr_expect = 0, rr_wait = cfifo_init mem 3 11, rr_src = None, rr_out = []\<rparr>"

definition rbudp_set_recv_tag :: "int \<Rightarrow> 'a rb_receiver \<Rightarrow> 'a rb_receiver" where
  "rbudp_set_recv_tag tag r = r\<lparr>rr_tag := tag, rr_expect := 0\<rparr>"

definition is_wait_full :: "'a rb_receiver \<Rightarrow> bool" where
  "is_wait_full r = cfifo_full (rr_wait r)"

definition is_wait_empty :: "'a rb_receiver \<Rightarrow> bool" where
  "is_wait_empty r = cfifo_empty (rr_wait r)"

text \<open>Of a slot only what the packet put there covers is read.\<close>

definition put_wait_rb :: "rb_packet \<Rightarrow> 'a rb_receiver \<Rightarrow> 'a rb_receiver option" where
  "put_wait_rb p r =
     do { ensure (rb_pack_size p \<le> RB_SIZE);
          ensure (rp_len p \<le> length (rp_data p));
          Some (r\<lparr>rr_wait := cf_put (p\<lparr>rp_data := take (rp_len p) (rp_data p)\<rparr>) (rr_wait r)\<rparr>) }"

definition get_wait_rb :: "'a rb_receiver \<Rightarrow> rb_packet option \<times> 'a rb_receiver" where
  "get_wait_rb r =
     (if is_wait_empty r then (None, r)
      else (Some (fst (cf_get (rr_wait r))), r\<lparr>rr_wait := snd (cf_get (rr_wait r))\<rparr>))"

definition clear_wait :: "'a rb_receiver \<Rightarrow> 'a rb_receiver" where
  "clear_wait r = r\<lparr>rr_wait := cfifo_clear (rr_wait r)\<rparr>"

text \<open>The field extra of a request is not set and not read.\<close>

definition req_repeat_rb :: "16 word \<Rightarrow> 'a rb_receiver \<Rightarrow> 'a rb_receiver option" where
  "req_repeat_rb q r = do { a \<leftarrow> rr_src r; Some (r\<lparr>rr_out := rr_out r @ [Ask a (rr_tag r) q]\<rparr>) }"

definition ask_packet :: "int \<Rightarrow> 16 word \<Rightarrow> rb_packet" where
  "ask_packet tag q = \<lparr>rp_tag = tag mod 256, rp_type = RBUDP_RETRAN, rp_seq = q, rp_len = 0, rp_extra = 0, rp_data = []\<rparr>"

definition deliver :: "rb_packet \<Rightarrow> 'a rb_receiver \<Rightarrow> 'a rb_receiver option" where
  "deliver p r =
     do { ensure (rp_len p \<le> length (rp_data p));
          Some (r\<lparr>rr_out := rr_out r @ [Deliver (rr_tag r) (take (rp_len p) (rp_data p)) (rp_extra p)],
                  rr_expect := rp_seq p + 1\<rparr>) }"

text \<open>The loop that commits packets, with fuel: at most seven are waiting.\<close>

fun commit :: "nat \<Rightarrow> rb_packet \<Rightarrow> 'a rb_receiver \<Rightarrow> 'a rb_receiver option" where
  "commit 0 p r = None"
| "commit (Suc k) p r =
     do { r1 \<leftarrow> deliver p r;
          (case get_wait_rb r1 of (None, r2) \<Rightarrow> Some r2 | (Some q, r2) \<Rightarrow> commit k q r2) }"

text \<open>expect_seq before a packet is compared with it.\<close>

definition adjust_expect :: "rb_packet \<Rightarrow> 'a rb_receiver \<Rightarrow> 'a rb_receiver option" where
  "adjust_expect p r =
     (let q = uint (rp_seq p); e = uint (rr_expect r)
      in if q < e then (if e - q < 100 then None else Some ((clear_wait r)\<lparr>rr_expect := 0\<rparr>))
         else if q > e \<and> is_wait_empty r \<and> q - e > 1 then Some (r\<lparr>rr_expect := rp_seq p\<rparr>)
         else Some r)"

text \<open>rbudp_run_recv, one datagram from other.\<close>

definition rb_recv :: "'a \<Rightarrow> rb_packet \<Rightarrow> 'a rb_receiver \<Rightarrow> 'a rb_receiver option" where
  "rb_recv other p r =
     (if rp_tag p \<noteq> rr_tag r then Some r
      else (let r0 = (if rp_type p = RBUDP_PACKET then r\<lparr>rr_src := Some other\<rparr> else r)
            in case adjust_expect p r0 of
                 None \<Rightarrow> Some r0
               | Some r1 \<Rightarrow>
                   if rp_seq p = rr_expect r1 \<or> rr_expect r1 = 0 then commit 9 p r1
                   else if is_wait_full r1
                   then (case get_wait_rb r1 of
                           (None, r2) \<Rightarrow> None
                         | (Some q, r2) \<Rightarrow> do { r3 \<leftarrow> put_wait_rb p r2; commit 9 q r3 })
                   else do { r2 \<leftarrow> (if is_wait_empty r1 then req_repeat_rb (rr_expect r1) r1 else Some r1); put_wait_rb p r2 }))"

end
