(* ===== verification/Rbudp_Props.thy ===== *)
theory Rbudp_Props
  imports Rbudp
begin

text \<open>
  What retransmission achieves (client/rbudp.c): a packet that is lost alone is asked for once, answered
  from the sender's cache and handed on in its place; answers are limited; what happens to a second
  loss and to a packet that comes twice while another is missing.
\<close>

subsection \<open>The queue of waiting packets\<close>

definition waits :: "'a rb_receiver \<Rightarrow> rb_packet list \<Rightarrow> bool" where
  "waits r ws \<longleftrightarrow> cf_rep 3 (rr_wait r) ws"

definition rb_ok :: "rb_packet \<Rightarrow> bool" where
  "rb_ok p \<longleftrightarrow> rp_len p = length (rp_data p) \<and> rb_pack_size p \<le> RB_SIZE"

definition deliver_event :: "int \<Rightarrow> rb_packet \<Rightarrow> 'a rb_event" where
  "deliver_event tag p = Deliver tag (rp_data p) (rp_extra p)"

lemma waits_frame [simp]:
  "waits (r\<lparr>rr_src := a\<rparr>) = waits r" "waits (r\<lparr>rr_expect := q\<rparr>) = waits r" "waits (r\<lparr>rr_out := out\<rparr>) = waits r"
  by (simp_all add: waits_def fun_eq_iff)

lemma wait_empty: "waits r ws \<Longrightarrow> is_wait_empty r \<longleftrightarrow> ws = []"
  by (simp add: waits_def is_wait_empty_def cfifo_empty_rep)

lemma wait_full: "waits r ws \<Longrightarrow> is_wait_full r \<longleftrightarrow> length ws = 7"
  using cfifo_full_rep [of 3 "rr_wait r" ws] by (simp add: waits_def is_wait_full_def)

lemma wait_put:
  assumes "waits r ws" and "length ws < 7" and "rb_ok p"
  shows "\<exists>r1. put_wait_rb p r = Some r1 \<and> waits r1 (ws @ [p]) \<and> r1 = r\<lparr>rr_wait := rr_wait r1\<rparr>"
proof -
  have "\<not> cfifo_full (rr_wait r)" using wait_full [OF assms(1)] assms(2) by (simp add: is_wait_full_def)
  then have "cf_rep 3 (cf_put p (rr_wait r)) (ws @ [p])"
    using cf.put_ok [of 3 "rr_wait r" ws p] assms(1) by (simp add: waits_def)
  then show ?thesis using assms(3) by (simp add: put_wait_rb_def rb_ok_def waits_def)
qed

lemma wait_get_none: "waits r [] \<Longrightarrow> get_wait_rb r = (None, r)"
  by (simp add: get_wait_rb_def wait_empty)

lemma wait_get:
  assumes "waits r (w # ws)"
  shows "\<exists>r1. get_wait_rb r = (Some w, r1) \<and> waits r1 ws \<and> r1 = r\<lparr>rr_wait := rr_wait r1\<rparr>"
  using cf.get_ok [of 3 "rr_wait r" w ws] assms wait_empty [OF assms]
  by (simp add: get_wait_rb_def waits_def)

lemma commit_all:
  assumes "waits r ws" and "\<forall>w \<in> set (p # ws). rb_ok w" and "length ws < k"
  shows "\<exists>r1. commit k p r = Some r1 \<and> waits r1 [] \<and> rr_out r1 = rr_out r @ map (deliver_event (rr_tag r)) (p # ws)
    \<and> rr_expect r1 = rp_seq (last (p # ws)) + 1 \<and> rr_tag r1 = rr_tag r \<and> rr_src r1 = rr_src r"
  using assms
proof (induction ws arbitrary: p r k)
  case Nil
  then obtain j where k: "k = Suc j" by (cases k) auto
  define r0 where "r0 = r\<lparr>rr_out := rr_out r @ [Deliver (rr_tag r) (rp_data p) (rp_extra p)], rr_expect := rp_seq p + 1\<rparr>"
  have d: "deliver p r = Some r0" using Nil.prems by (simp add: deliver_def rb_ok_def r0_def)
  have "waits r0 []" using Nil.prems(1) by (simp add: r0_def)
  then show ?case using wait_get_none [of r0] by (simp add: k d) (simp add: r0_def deliver_event_def)
next
  case (Cons w ws)
  then obtain j where k: "k = Suc j" by (cases k) auto
  define r0 where "r0 = r\<lparr>rr_out := rr_out r @ [Deliver (rr_tag r) (rp_data p) (rp_extra p)], rr_expect := rp_seq p + 1\<rparr>"
  have d: "deliver p r = Some r0" using Cons.prems by (simp add: deliver_def rb_ok_def r0_def)
  have "waits r0 (w # ws)" using Cons.prems(1) by (simp add: r0_def)
  then obtain r1 where r1: "get_wait_rb r0 = (Some w, r1)" "waits r1 ws" "r1 = r0\<lparr>rr_wait := rr_wait r1\<rparr>"
    using wait_get by blast
  have f: "rr_tag r1 = rr_tag r" "rr_src r1 = rr_src r" "rr_out r1 = rr_out r @ [deliver_event (rr_tag r) p]"
    by (subst r1(3), simp add: r0_def deliver_event_def)+
  have ok: "\<forall>x \<in> set (w # ws). rb_ok x" "length ws < j" using Cons.prems(2,3) k by auto
  from Cons.IH [OF r1(2) ok] show ?case by (auto simp: k d r1(1) f)
qed

text \<open>Whatever arrives, once a source is known the receiver returns and stays in order.\<close>

lemma recv_returns:
  assumes "waits r ws" and "\<forall>w \<in> set (p # ws). rb_ok w" and "rr_src r \<noteq> None \<or> rp_type p = RBUDP_PACKET"
  shows "\<exists>r1 ws1. rb_recv a p r = Some r1 \<and> waits r1 ws1 \<and> (\<forall>w \<in> set ws1. rb_ok w) \<and> (rr_src r \<noteq> None \<longrightarrow> rr_src r1 \<noteq> None)"
proof (cases "rp_tag p = rr_tag r")
  case False
  then show ?thesis using assms by (auto simp: rb_recv_def)
next
  case True
  define r0 where "r0 = (if rp_type p = RBUDP_PACKET then r\<lparr>rr_src := Some a\<rparr> else r)"
  have r0: "waits r0 ws" "rr_src r0 \<noteq> None" "rr_tag r0 = rr_tag r" using assms by (auto simp: r0_def)
  show ?thesis
  proof (cases "adjust_expect p r0")
    case None
    then show ?thesis using True r0 assms(2) by (auto simp: rb_recv_def r0_def [symmetric])
  next
    case (Some r1)
    have "waits r1 ws \<or> waits r1 []" and src: "rr_src r1 \<noteq> None"
      using Some r0 cfifo_clear_rep [of 3 "rr_wait r0" ws]
      by (auto simp: adjust_expect_def Let_def clear_wait_def waits_def split: if_splits)
    then obtain vs where vs: "waits r1 vs" "\<forall>w \<in> set (p # vs). rb_ok w" using assms(2) by auto
    have len: "length vs \<le> 7" using cf.rep_bound [of 3 "rr_wait r1" vs] vs(1) by (simp add: waits_def)
    show ?thesis
    proof (cases "rp_seq p = rr_expect r1 \<or> rr_expect r1 = 0")
      case True
      with commit_all [OF vs, of 9] len show ?thesis
        using \<open>rp_tag p = rr_tag r\<close> Some src by (fastforce simp: rb_recv_def r0_def [symmetric])
    next
      case out: False
      show ?thesis
      proof (cases "is_wait_full r1")
        case True
        then obtain v vs' where v: "vs = v # vs'" "length vs' = 6" using wait_full [OF vs(1)] by (cases vs) auto
        obtain r2 where r2: "get_wait_rb r1 = (Some v, r2)" "waits r2 vs'" "r2 = r1\<lparr>rr_wait := rr_wait r2\<rparr>"
          using wait_get vs(1) v(1) by blast
        obtain r3 where r3: "put_wait_rb p r2 = Some r3" "waits r3 (vs' @ [p])" "r3 = r2\<lparr>rr_wait := rr_wait r3\<rparr>"
          using wait_put [OF r2(2)] v(2) vs(2) by auto
        have ok: "\<forall>w \<in> set (v # vs' @ [p]). rb_ok w" using vs(2) v(1) by auto
        have "rr_src r3 = rr_src r1" by (subst r3(3), subst r2(3)) simp
        with commit_all [OF r3(2) ok, of 9] v(2) show ?thesis
          using \<open>rp_tag p = rr_tag r\<close> Some src out True r2(1) r3(1)
          by (fastforce simp: rb_recv_def r0_def [symmetric])
      next
        case False
        then have lt: "length vs < 7" using wait_full [OF vs(1)] len by simp
        define r2 where "r2 = (if is_wait_empty r1 then r1\<lparr>rr_out := rr_out r1 @ [Ask (the (rr_src r1)) (rr_tag r1) (rr_expect r1)]\<rparr> else r1)"
        have r2: "(if is_wait_empty r1 then req_repeat_rb (rr_expect r1) r1 else Some r1) = Some r2" "waits r2 vs"
          using src vs(1) by (auto simp: req_repeat_rb_def r2_def)
        obtain r3 where r3: "put_wait_rb p r2 = Some r3" "waits r3 (vs @ [p])" "r3 = r2\<lparr>rr_wait := rr_wait r3\<rparr>"
          using wait_put [OF r2(2) lt] vs(2) by auto
        have "rr_src r3 = rr_src r1" by (subst r3(3)) (simp add: r2_def)
        then show ?thesis
          using \<open>rp_tag p = rr_tag r\<close> Some src out False r2(1) r3(1,2) vs(2)
          by (auto simp: rb_recv_def r0_def [symmetric] intro!: exI [of _ "vs @ [p]"])
      qed
    qed
  qed
qed

subsection \<open>Packets that follow a missing one\<close>

text \<open>The packets as the sender makes them, numbered from q.\<close>

definition rb_make :: "int \<Rightarrow> 16 word \<Rightarrow> byte list \<times> int \<Rightarrow> rb_packet" where
  "rb_make tag q d =
     \<lparr>rp_tag = tag mod 256, rp_type = RBUDP_PACKET, rp_seq = q, rp_len = length (fst d), rp_extra = snd d mod 65536, rp_data = fst d\<rparr>"

fun rb_makes :: "int \<Rightarrow> 16 word \<Rightarrow> (byte list \<times> int) list \<Rightarrow> rb_packet list" where
  "rb_makes tag q [] = []"
| "rb_makes tag q (d # ds) = rb_make tag q d # rb_makes tag (q + 1) ds"

definition rb_fits :: "byte list \<times> int \<Rightarrow> bool" where
  "rb_fits d \<longleftrightarrow> length (fst d) \<le> 2040"

lemma rb_make_sel [simp]:
  "rp_tag (rb_make tag q d) = tag mod 256" "rp_type (rb_make tag q d) = RBUDP_PACKET" "rp_seq (rb_make tag q d) = q"
  by (simp_all add: rb_make_def)

lemma rb_make_ok: "rb_fits d \<Longrightarrow> rb_ok (rb_make tag q d) \<and> rb_ok ((rb_make tag q d)\<lparr>rp_type := ty\<rparr>)"
  by (simp add: rb_make_def rb_ok_def rb_fits_def rb_pack_size_def RB_SIZE_def)

lemma rb_makes_ok: "\<forall>d \<in> set ds. rb_fits d \<Longrightarrow> \<forall>p \<in> set (rb_makes tag q ds). rb_ok p"
  by (induction ds arbitrary: q) (auto simp: rb_make_ok)

lemma length_rb_makes [simp]: "length (rb_makes tag q ds) = length ds"
  by (induction ds arbitrary: q) simp_all

lemma deliver_makes:
  "map (deliver_event tag) (rb_makes t q ds) = map (\<lambda>d. Deliver tag (fst d) (snd d mod 65536)) ds"
  by (induction ds arbitrary: q) (simp_all add: deliver_event_def rb_make_def)

lemma last_rb_makes: "ds \<noteq> [] \<Longrightarrow> rp_seq (last (rb_makes tag q ds)) = q + of_nat (length ds) - 1"
proof (induction ds arbitrary: q)
  case Nil
  then show ?case by simp
next
  case (Cons d ds)
  show ?case
  proof (cases "ds = []")
    case False
    then have "rb_makes tag (q + 1) ds \<noteq> []" by (cases ds) simp_all
    then show ?thesis using Cons.IH [OF False, of "q + 1"] by (simp add: algebra_simps)
  qed simp
qed

lemma next_seq: "uint q + 1 < 65536 \<Longrightarrow> uint (q + 1 :: 16 word) = uint q + 1"
  by (simp add: uint_word_ariths)

lemma next_seq_ne: "uint q + 1 < 65536 \<Longrightarrow> (q + 1 :: 16 word) \<noteq> 0"
proof
  assume "uint q + 1 < 65536" "q + 1 = 0"
  then have "uint q + 1 = 0" using next_seq [of q] by simp
  then show False using uint_ge_0 [of q] by linarith
qed

text \<open>While the number expected is missing, what follows is kept, and it is asked for once.\<close>

lemma waiting_run:
  assumes "waits r ws" and "rr_expect r = e" and "uint q = uint e + 1 + int (length ws)" and "length ws + length ds \<le> 7"
    and "\<forall>d \<in> set ds. rb_fits d" and "uint q + int (length ds) \<le> 65536" and "rr_tag r = tag mod 256" and "e \<noteq> 0"
  shows "\<exists>r1. foldM (rb_recv a) (rb_makes tag q ds) r = Some r1 \<and> waits r1 (ws @ rb_makes tag q ds)
    \<and> rr_out r1 = rr_out r @ (if ws = [] \<and> ds \<noteq> [] then [Ask a (rr_tag r) e] else [])
    \<and> rr_expect r1 = e \<and> rr_tag r1 = rr_tag r"
  using assms
proof (induction ds arbitrary: r ws q)
  case Nil
  then show ?case by auto
next
  case (Cons d ds)
  define p where "p = rb_make tag q d"
  define r0 where "r0 = r\<lparr>rr_src := Some a\<rparr>"
  have gt: "uint e < uint q" using Cons.prems(3) by simp
  have adj: "adjust_expect p r0 = Some r0"
    using gt Cons.prems(2,3) wait_empty [of r0 ws] Cons.prems(1) by (auto simp: adjust_expect_def Let_def p_def r0_def)
  have ne: "q \<noteq> e" using gt by auto
  have nf: "\<not> is_wait_full r0" using wait_full [of r0 ws] Cons.prems(1,4) by (simp add: r0_def)
  define r1 where "r1 = (if ws = [] then r0\<lparr>rr_out := rr_out r @ [Ask a (rr_tag r) e]\<rparr> else r0)"
  have r1: "(if is_wait_empty r0 then req_repeat_rb e r0 else Some r0) = Some r1" "waits r1 ws"
    using Cons.prems(1) wait_empty [of r0 ws] by (auto simp: req_repeat_rb_def r1_def r0_def)
  have ok: "rb_ok p" using Cons.prems(5) rb_make_ok by (simp add: p_def)
  obtain r2 where r2: "put_wait_rb p r1 = Some r2" "waits r2 (ws @ [p])" "r2 = r1\<lparr>rr_wait := rr_wait r2\<rparr>"
    using wait_put [OF r1(2) _ ok] Cons.prems(4) by auto
  have e0: "rr_expect r0 = e" using Cons.prems(2) by (simp add: r0_def)
  have f: "rr_expect r2 = e" "rr_tag r2 = rr_tag r" "rr_out r2 = rr_out r @ (if ws = [] then [Ask a (rr_tag r) e] else [])"
    using Cons.prems(2) by (subst r2(3), simp add: r1_def r0_def)+
  have e1: "rr_expect r1 = e" using e0 by (simp add: r1_def)
  have step: "rb_recv a p r = Some r2"
    using e1 Cons.prems(7,8) adj ne nf r1(1) r2(1) e0
    by (cases "is_wait_empty r0") (simp_all add: rb_recv_def p_def r0_def)
  show ?case
  proof (cases "ds = []")
    case True
    then show ?thesis using step r2(2) f by (simp add: p_def)
  next
    case False
    have lt: "uint q + 1 < 65536" using Cons.prems(6) False by (cases ds) auto
    have n: "uint (q + 1) = uint e + 1 + int (length (ws @ [p]))" using Cons.prems(3) next_seq [OF lt] by simp
    have "length (ws @ [p]) + length ds \<le> 7" "\<forall>d \<in> set ds. rb_fits d" "uint (q + 1) + int (length ds) \<le> 65536" "rr_tag r2 = tag mod 256"
      using Cons.prems(4-7) next_seq [OF lt] f(2) by simp_all
    from Cons.IH [OF r2(2) f(1) n this Cons.prems(8)] show ?thesis
      using step f by (auto simp: p_def)
  qed
qed

text \<open>When it comes, everything waiting follows it.\<close>

lemma repair_run:
  assumes "waits r ws" and "rp_seq p = rr_expect r" and "rp_tag p = rr_tag r" and "rp_type p \<noteq> RBUDP_PACKET"
    and "\<forall>w \<in> set (p # ws). rb_ok w"
  shows "\<exists>r1. rb_recv a p r = Some r1 \<and> waits r1 [] \<and> rr_out r1 = rr_out r @ map (deliver_event (rr_tag r)) (p # ws)
    \<and> rr_expect r1 = rp_seq (last (p # ws)) + 1 \<and> rr_tag r1 = rr_tag r"
proof -
  have "length ws \<le> 7" using cf.rep_bound [of 3 "rr_wait r" ws] assms(1) by (simp add: waits_def)
  then obtain r1 where "commit 9 p r = Some r1" "waits r1 []" "rr_out r1 = rr_out r @ map (deliver_event (rr_tag r)) (p # ws)"
    "rr_expect r1 = rp_seq (last (p # ws)) + 1" "rr_tag r1 = rr_tag r"
    using commit_all [OF assms(1,5), of 9] by auto
  moreover have "adjust_expect p r = Some r" using assms(2) by (simp add: adjust_expect_def Let_def)
  ultimately show ?thesis using assms(2-4) by (simp add: rb_recv_def)
qed

subsection \<open>The sender's cache\<close>

definition sent_packet :: "'a rb_sent \<Rightarrow> rb_packet" where
  "sent_packet x = (case x of ToAll p \<Rightarrow> p | To a p \<Rightarrow> p)"

text \<open>Broadcasting one after the other.\<close>

fun rb_sends :: "int \<Rightarrow> (byte list \<times> int) list \<Rightarrow> rb_sender \<Rightarrow> (rb_packet list \<times> rb_sender) option" where
  "rb_sends tag [] s = Some ([], s)"
| "rb_sends tag (d # ds) s =
     do { (e, out, s1) \<leftarrow> rbudp_broadcast True tag (fst d) (snd d) s;
          (ps, s2) \<leftarrow> rb_sends tag ds s1;
          Some (map (sent_packet :: unit rb_sent \<Rightarrow> rb_packet) out @ ps, s2) }"

lemma rb_slot_mod: "int (rb_slot q) = uint q mod 32"
proof -
  have "rb_slot q = unat (q AND mask 5)" by (simp add: rb_slot_def mask_eq_decr_exp)
  also have "\<dots> = take_bit 5 (unat q)" by (simp only: take_bit_eq_mask [symmetric] unsigned_take_bit_eq)
  also have "\<dots> = unat q mod 32" by (simp add: take_bit_eq_mod)
  finally have "rb_slot q = unat q mod 32" .
  then show ?thesis by (simp add: zmod_int)
qed

lemma rb_slot_less: "rb_slot q < 32"
  using rb_slot_mod [of q] by (metis of_nat_less_iff of_nat_numeral pos_mod_bound zero_less_numeral)

lemma broadcast_new:
  assumes "rb_fits d" and "uint (rs_seq s) + 1 < 65536"
  shows "rbudp_broadcast True tag (fst d) (snd d) s
    = Some (0, [ToAll (rb_make tag (rs_seq s + 1) d)], s\<lparr>rs_seq := rs_seq s + 1,
        rs_bufs := (rs_bufs s)[rb_slot (rs_seq s + 1) := (rb_make tag (rs_seq s + 1) d)\<lparr>rp_type := RBUDP_REPAIR\<rparr>]\<rparr>)"
  using assms next_seq_ne [OF assms(2)]
  by (simp add: rbudp_broadcast_def Let_def rb_make_def rb_fits_def rb_pack_size_def RB_SIZE_def)

lemma rb_sends_ok:
  assumes "\<forall>d \<in> set ds. rb_fits d" and "uint (rs_seq s) + int (length ds) < 65536"
  shows "\<exists>s1. rb_sends tag ds s = Some (rb_makes tag (rs_seq s + 1) ds, s1)
    \<and> uint (rs_seq s1) = uint (rs_seq s) + int (length ds) \<and> length (rs_bufs s1) = length (rs_bufs s)
    \<and> rs_rep_seq s1 = rs_rep_seq s \<and> rs_rep_count s1 = rs_rep_count s
    \<and> (\<forall>i < 32. (\<forall>n. uint (rs_seq s) < n \<longrightarrow> n \<le> uint (rs_seq s) + int (length ds) \<longrightarrow> n mod 32 \<noteq> int i) \<longrightarrow> rs_bufs s1 ! i = rs_bufs s ! i)"
  using assms
proof (induction ds arbitrary: s)
  case Nil
  then show ?case by simp
next
  case (Cons d ds)
  let ?q = "rs_seq s + 1"
  have lt: "uint (rs_seq s) + 1 < 65536" using Cons.prems(2) by simp
  define s0 where "s0 = s\<lparr>rs_seq := ?q, rs_bufs := (rs_bufs s)[rb_slot ?q := (rb_make tag ?q d)\<lparr>rp_type := RBUDP_REPAIR\<rparr>]\<rparr>"
  have b: "rbudp_broadcast True tag (fst d) (snd d) s = Some (0, [ToAll (rb_make tag ?q d) :: unit rb_sent], s0)"
    using broadcast_new [OF _ lt, of d tag] Cons.prems(1) by (simp add: s0_def)
  have q: "uint (rs_seq s0) = uint (rs_seq s) + 1" using next_seq [OF lt] by (simp add: s0_def)
  obtain s1 where s1: "rb_sends tag ds s0 = Some (rb_makes tag (rs_seq s0 + 1) ds, s1)"
    "uint (rs_seq s1) = uint (rs_seq s0) + int (length ds)" "length (rs_bufs s1) = length (rs_bufs s0)"
    "rs_rep_seq s1 = rs_rep_seq s0" "rs_rep_count s1 = rs_rep_count s0"
    "\<forall>i < 32. (\<forall>n. uint (rs_seq s0) < n \<longrightarrow> n \<le> uint (rs_seq s0) + int (length ds) \<longrightarrow> n mod 32 \<noteq> int i) \<longrightarrow> rs_bufs s1 ! i = rs_bufs s0 ! i"
    using Cons.IH [of s0] Cons.prems q by auto
  have kept: "rs_bufs s1 ! i = rs_bufs s ! i"
    if i: "i < 32" and n: "\<forall>n. uint (rs_seq s) < n \<longrightarrow> n \<le> uint (rs_seq s) + int (length (d # ds)) \<longrightarrow> n mod 32 \<noteq> int i" for i
  proof -
    have "rs_bufs s1 ! i = rs_bufs s0 ! i" using s1(6) i n q by auto
    moreover have "(uint (rs_seq s) + 1) mod 32 \<noteq> int i" using n by auto
    then have "rb_slot ?q \<noteq> i" using next_seq [OF lt] rb_slot_mod [of ?q] by auto
    ultimately show ?thesis by (simp add: s0_def)
  qed
  show ?case
    using s1(1-5) kept q b by (simp add: sent_packet_def s0_def)
qed

lemma kept_after_sends:
  assumes "\<forall>x \<in> set (d # ds). rb_fits x" and "uint (rs_seq s) + 1 + int (length ds) < 65536" and "length ds < 32"
    and "length (rs_bufs s) = 32"
  shows "\<exists>s1. rb_sends tag (d # ds) s = Some (rb_make tag (rs_seq s + 1) d # rb_makes tag (rs_seq s + 2) ds, s1)
    \<and> rs_bufs s1 ! rb_slot (rs_seq s + 1) = (rb_make tag (rs_seq s + 1) d)\<lparr>rp_type := RBUDP_REPAIR\<rparr>
    \<and> rs_rep_seq s1 = rs_rep_seq s \<and> rs_rep_count s1 = rs_rep_count s \<and> uint (rs_seq s1) = uint (rs_seq s) + 1 + int (length ds)"
proof -
  let ?q = "rs_seq s + 1"
  have lt: "uint (rs_seq s) + 1 < 65536" using assms(2) by simp
  define s0 where "s0 = s\<lparr>rs_seq := ?q, rs_bufs := (rs_bufs s)[rb_slot ?q := (rb_make tag ?q d)\<lparr>rp_type := RBUDP_REPAIR\<rparr>]\<rparr>"
  have b: "rbudp_broadcast True tag (fst d) (snd d) s = Some (0, [ToAll (rb_make tag ?q d) :: unit rb_sent], s0)"
    using broadcast_new [OF _ lt, of d tag] assms(1) by (simp add: s0_def)
  have q: "uint (rs_seq s0) = uint (rs_seq s) + 1" "rs_seq s0 + 1 = rs_seq s + 2" using next_seq [OF lt] by (simp_all add: s0_def)
  obtain s1 where s1: "rb_sends tag ds s0 = Some (rb_makes tag (rs_seq s0 + 1) ds, s1)"
    "uint (rs_seq s1) = uint (rs_seq s0) + int (length ds)" "rs_rep_seq s1 = rs_rep_seq s0" "rs_rep_count s1 = rs_rep_count s0"
    "\<forall>i < 32. (\<forall>n. uint (rs_seq s0) < n \<longrightarrow> n \<le> uint (rs_seq s0) + int (length ds) \<longrightarrow> n mod 32 \<noteq> int i) \<longrightarrow> rs_bufs s1 ! i = rs_bufs s0 ! i"
    using rb_sends_ok [of ds s0 tag] assms(1,2) q by auto
  have slot: "int (rb_slot ?q) = uint (rs_seq s0) mod 32" by (simp add: rb_slot_mod s0_def)
  have "n mod 32 \<noteq> uint (rs_seq s0) mod 32" if "uint (rs_seq s0) < n" "n \<le> uint (rs_seq s0) + int (length ds)" for n
  proof
    assume "n mod 32 = uint (rs_seq s0) mod 32"
    then have "32 dvd n - uint (rs_seq s0)" by (simp add: mod_eq_dvd_iff)
    moreover have "0 < n - uint (rs_seq s0)" "n - uint (rs_seq s0) < 32" using that assms(3) by linarith+
    ultimately show False using zdvd_not_zless by blast
  qed
  then have "rs_bufs s1 ! rb_slot ?q = rs_bufs s0 ! rb_slot ?q" using s1(5) rb_slot_less [of ?q] slot by auto
  moreover have "rs_bufs s0 ! rb_slot ?q = (rb_make tag ?q d)\<lparr>rp_type := RBUDP_REPAIR\<rparr>"
    using rb_slot_less [of ?q] assms(4) by (simp add: s0_def)
  ultimately show ?thesis using b s1(1-4) q by (simp add: sent_packet_def) (simp add: s0_def)
qed

lemma answer_first:
  assumes "rs_bufs s ! rb_slot q = p" and "rp_seq p = q" and "length (rs_rep_seq s) = 32" and "length (rs_rep_count s) = 32"
    and "rs_rep_seq s ! rb_slot q \<noteq> uint q \<or> rs_rep_count s ! rb_slot q < 8"
  shows "fst (run_retransmit b (ask_packet tag q) s) = [To b p]"
  using assms by (auto simp: run_retransmit_def ask_packet_def Let_def)

subsection \<open>Nothing lost\<close>

text \<open>The receiver expects the sender's next number, or has not got one yet.\<close>

definition in_step :: "rb_sender \<Rightarrow> 'a rb_receiver \<Rightarrow> bool" where
  "in_step s r \<longleftrightarrow> waits r [] \<and> (rr_expect r = rs_seq s + 1 \<or> rr_expect r = 0)"

definition seq_after :: "16 word \<Rightarrow> 16 word" where
  "seq_after q = (if q + 1 = 0 then 1 else q + 1)"

lemma broadcast_any:
  assumes "rb_fits d"
  shows "rbudp_broadcast True tag (fst d) (snd d) s
    = Some (0, [ToAll (rb_make tag (seq_after (rs_seq s)) d)], s\<lparr>rs_seq := seq_after (rs_seq s),
        rs_bufs := (rs_bufs s)[rb_slot (seq_after (rs_seq s)) := (rb_make tag (seq_after (rs_seq s)) d)\<lparr>rp_type := RBUDP_REPAIR\<rparr>]\<rparr>)"
  using assms by (simp add: rbudp_broadcast_def Let_def rb_make_def rb_fits_def rb_pack_size_def RB_SIZE_def seq_after_def)

lemma adjust_in_step:
  assumes "in_step s r" and "rp_seq p = seq_after (rs_seq s)"
  obtains r1 where "adjust_expect p r = Some r1" "waits r1 []" "rp_seq p = rr_expect r1 \<or> rr_expect r1 = 0"
    "rr_out r1 = rr_out r" "rr_tag r1 = rr_tag r"
proof (cases "rr_expect r = rp_seq p")
  case True
  then have "adjust_expect p r = Some r" by (simp add: adjust_expect_def Let_def)
  then show thesis using assms(1) True by (intro that [of r]) (auto simp: in_step_def)
next
  case False
  then have z: "rr_expect r = 0" using assms by (auto simp: in_step_def seq_after_def split: if_splits)
  have e: "is_wait_empty r" using wait_empty [of r "[]"] assms(1) by (simp add: in_step_def)
  have "\<not> uint (rp_seq p) < 0" by simp
  then have "adjust_expect p r = Some (if uint (rp_seq p) > 1 then r\<lparr>rr_expect := rp_seq p\<rparr> else r)"
    using z e by (auto simp: adjust_expect_def Let_def)
  then show thesis using assms(1) z
    by (intro that [of "if uint (rp_seq p) > 1 then r\<lparr>rr_expect := rp_seq p\<rparr> else r"]) (auto simp: in_step_def)
qed

lemma recv_in_step:
  assumes "in_step s r" and "rp_seq p = seq_after (rs_seq s)" and "rp_tag p = rr_tag r" and "rp_type p = RBUDP_PACKET" and "rb_ok p"
  shows "\<exists>r1. rb_recv a p r = Some r1 \<and> waits r1 [] \<and> rr_out r1 = rr_out r @ [deliver_event (rr_tag r) p]
    \<and> rr_expect r1 = rp_seq p + 1 \<and> rr_tag r1 = rr_tag r"
proof -
  have "in_step s (r\<lparr>rr_src := Some a\<rparr>)" using assms(1) by (simp add: in_step_def)
  then obtain r1 where r1: "adjust_expect p (r\<lparr>rr_src := Some a\<rparr>) = Some r1" "waits r1 []"
    "rp_seq p = rr_expect r1 \<or> rr_expect r1 = 0" "rr_out r1 = rr_out r" "rr_tag r1 = rr_tag r"
    by (rule adjust_in_step [OF _ assms(2)]) simp_all
  obtain r2 where "commit 9 p r1 = Some r2" "waits r2 []" "rr_out r2 = rr_out r1 @ [deliver_event (rr_tag r1) p]"
    "rr_expect r2 = rp_seq p + 1" "rr_tag r2 = rr_tag r1"
    using commit_all [OF r1(2), of p 9] assms(5) by auto
  then show ?thesis using r1 assms(3,4) by (simp add: rb_recv_def)
qed

lemma in_order_run:
  assumes "in_step s r" and "rr_tag r = tag mod 256" and "\<forall>d \<in> set ds. rb_fits d"
  shows "\<exists>ps s1 r1. rb_sends tag ds s = Some (ps, s1) \<and> foldM (rb_recv a) ps r = Some r1
    \<and> rr_out r1 = rr_out r @ map (\<lambda>d. Deliver (rr_tag r) (fst d) (snd d mod 65536)) ds \<and> in_step s1 r1 \<and> rr_tag r1 = rr_tag r"
  using assms
proof (induction ds arbitrary: s r)
  case Nil
  then show ?case by simp
next
  case (Cons d ds)
  let ?q = "seq_after (rs_seq s)"
  define s0 where "s0 = s\<lparr>rs_seq := ?q, rs_bufs := (rs_bufs s)[rb_slot ?q := (rb_make tag ?q d)\<lparr>rp_type := RBUDP_REPAIR\<rparr>]\<rparr>"
  have b: "rbudp_broadcast True tag (fst d) (snd d) s = Some (0, [ToAll (rb_make tag ?q d) :: unit rb_sent], s0)"
    using broadcast_any [of d tag s] Cons.prems(3) by (simp add: s0_def)
  have ok: "rb_ok (rb_make tag ?q d)" using rb_make_ok [of d tag ?q] Cons.prems(3) by simp
  obtain r0 where r0: "rb_recv a (rb_make tag ?q d) r = Some r0" "waits r0 []"
    "rr_out r0 = rr_out r @ [deliver_event (rr_tag r) (rb_make tag ?q d)]" "rr_expect r0 = ?q + 1" "rr_tag r0 = rr_tag r"
    using recv_in_step [OF Cons.prems(1) _ _ _ ok, of a] Cons.prems(2) by auto
  have "in_step s0 r0" using r0(2,4) by (simp add: in_step_def s0_def)
  from Cons.IH [OF this] r0(5) Cons.prems(2,3) obtain ps s1 r1 where i: "rb_sends tag ds s0 = Some (ps, s1)"
    "foldM (rb_recv a) ps r0 = Some r1" "in_step s1 r1" "rr_tag r1 = rr_tag r"
    "rr_out r1 = rr_out r0 @ map (\<lambda>d. Deliver (rr_tag r) (fst d) (snd d mod 65536)) ds" by auto
  show ?case
    using i b r0(1,3) by (simp add: sent_packet_def deliver_event_def rb_make_def)
qed

subsection \<open>A packet lost alone\<close>

text \<open>
  C8. A sender broadcasts a packet and up to seven more. The first one is lost. A receiver that expects it
  asks for it once, when the next one comes; the sender, asked by b, answers to b with the packet from
  its cache; and then the receiver hands on all of them, in order, and expects the number after the
  last. The sender may have answered earlier requests for other packets, and this one up to 7 times.
\<close>

theorem rbudp_recovers_lost_packet:
  assumes "ds \<noteq> []" and "length ds \<le> 7" and "\<forall>x \<in> set (d # ds). length (fst x) \<le> 2040"
    and "uint (rs_seq s) + 1 + int (length ds) < 65536" and "e = rs_seq s + 1"
    and "length (rs_bufs s) = 32" and "length (rs_rep_seq s) = 32" and "length (rs_rep_count s) = 32"
    and "rs_rep_seq s ! rb_slot e \<noteq> uint e \<or> rs_rep_count s ! rb_slot e < 8"
    and "waits r []" and "rr_expect r = e" and "rr_tag r = tag mod 256"
  shows "\<exists>p ps s1 r1 fix r2. rb_sends tag (d # ds) s = Some (p # ps, s1)
    \<and> foldM (rb_recv a) ps r = Some r1 \<and> rr_out r1 = rr_out r @ [Ask a (rr_tag r) e]
    \<and> fst (run_retransmit b (ask_packet (rr_tag r) e) s1) = [To b fix]
    \<and> rb_recv a' fix r1 = Some r2
    \<and> rr_out r2 = rr_out r1 @ map (\<lambda>x. Deliver (rr_tag r) (fst x) (snd x mod 65536)) (d # ds)
    \<and> rr_expect r2 = rs_seq s1 + 1 \<and> waits r2 []"
proof -
  let ?p = "rb_make tag e d" and ?ps = "rb_makes tag (e + 1) ds"
  have fits: "\<forall>x \<in> set (d # ds). rb_fits x" using assms(3) by (simp add: rb_fits_def)
  have lt: "uint (rs_seq s) + 1 < 65536" using assms(4) by simp
  have e: "uint e = uint (rs_seq s) + 1" "e \<noteq> 0" using next_seq [OF lt] next_seq_ne [OF lt] by (simp_all add: assms(5))
  have e1: "uint (e + 1) = uint e + 1" using next_seq [of e] e(1) assms(1,4) by (cases ds) simp_all
  have two: "rs_seq s + 2 = e + 1" by (simp add: assms(5))
  obtain s1 where s1: "rb_sends tag (d # ds) s = Some (?p # ?ps, s1)"
    "rs_bufs s1 ! rb_slot e = ?p\<lparr>rp_type := RBUDP_REPAIR\<rparr>"
    "rs_rep_seq s1 = rs_rep_seq s" "rs_rep_count s1 = rs_rep_count s" "uint (rs_seq s1) = uint (rs_seq s) + 1 + int (length ds)"
    using kept_after_sends [OF fits assms(4) _ assms(6), of tag] assms(2,5) two by auto
  have ask: "fst (run_retransmit b (ask_packet (rr_tag r) e) s1) = [To b (?p\<lparr>rp_type := RBUDP_REPAIR\<rparr>)]"
    using answer_first [OF s1(2)] s1(3,4) assms(7-9) by simp
  obtain r1 where r1: "foldM (rb_recv a) ?ps r = Some r1" "waits r1 ?ps" "rr_out r1 = rr_out r @ [Ask a (rr_tag r) e]"
    "rr_expect r1 = e" "rr_tag r1 = rr_tag r"
    using waiting_run [OF assms(10,11) _ _ _ _ assms(12) e(2), of "e + 1" ds a] e e1 fits assms(1,2,4) by auto
  have ok: "\<forall>w \<in> set (?p\<lparr>rp_type := RBUDP_REPAIR\<rparr> # ?ps). rb_ok w"
    using rb_makes_ok [of ds tag "e + 1"] rb_make_ok [of d tag e] fits by auto
  obtain r2 where r2: "rb_recv a' (?p\<lparr>rp_type := RBUDP_REPAIR\<rparr>) r1 = Some r2" "waits r2 []"
    "rr_out r2 = rr_out r1 @ map (deliver_event (rr_tag r1)) (?p\<lparr>rp_type := RBUDP_REPAIR\<rparr> # ?ps)"
    "rr_expect r2 = rp_seq (last (?p\<lparr>rp_type := RBUDP_REPAIR\<rparr> # ?ps)) + 1"
    using repair_run [OF r1(2) _ _ _ ok] r1(4,5) assms(12) by (auto simp: RBUDP_REPAIR_def RBUDP_PACKET_def)
  have "uint (e + of_nat (length ds)) = uint e + int (length ds)"
    using e(1) assms(4) by (simp add: uint_word_ariths unsigned_of_nat take_bit_eq_mod mod_simps zmod_int)
  then have "rs_seq s1 = e + of_nat (length ds)" using s1(5) e(1) by (intro word_uint_eqI) simp
  moreover have "rr_expect r2 = e + of_nat (length ds) + 1"
    using r2(4) last_rb_makes [OF assms(1), of tag "e + 1"] assms(1) by (cases ds) simp_all
  ultimately show ?thesis
    using s1(1) r1(1,3,5) ask r2(1-3) deliver_makes [of "rr_tag r" tag "e + 1" ds]
    by (auto simp: deliver_event_def rb_make_def)
qed

theorem rbudp_recovers_lost_packet_witness:
  "let r = (rb_receiver_init (\<lambda>_. no_packet))\<lparr>rr_tag := 3, rr_expect := 1\<rparr>
   in \<exists>p ps s1 r1 fix r2. rb_sends 3 [([1], 0), ([2], 0), ([3], 0)] rb_sender_init = Some (p # ps, s1)
    \<and> foldM (rb_recv ''sender'') ps r = Some r1 \<and> rr_out r1 = [Ask ''sender'' 3 1]
    \<and> fst (run_retransmit ''receiver'' (ask_packet 3 1) s1) = [To ''receiver'' fix]
    \<and> rb_recv ''repair'' fix r1 = Some r2
    \<and> rr_out r2 = [Ask ''sender'' 3 1, Deliver 3 [1] 0, Deliver 3 [2] 0, Deliver 3 [3] 0]"
proof -
  define r :: "string rb_receiver" where "r = (rb_receiver_init (\<lambda>_. no_packet))\<lparr>rr_tag := 3, rr_expect := 1\<rparr>"
  have r: "waits r []" "rr_expect r = 1" "rr_tag r = 3 mod 256" "rr_out r = []"
    using cfifo_init_rep [of 3 "\<lambda>_. no_packet" 11] by (simp_all add: r_def rb_receiver_init_def waits_def)
  have s: "length (rs_bufs rb_sender_init) = 32" "length (rs_rep_seq rb_sender_init) = 32" "length (rs_rep_count rb_sender_init) = 32"
    "rs_seq rb_sender_init = 0" "rs_rep_seq rb_sender_init ! rb_slot 1 \<noteq> uint (1 :: 16 word)"
    using rb_slot_less [of 1] by (simp_all add: rb_sender_init_def REP_SIZE_def)
  show ?thesis
    unfolding r_def [symmetric] Let_def
    using rbudp_recovers_lost_packet [of "[([2], 0), ([3], 0)]" "([1], 0)" rb_sender_init 1 r 3 "''sender''" "''receiver''" "''repair''"] r s
    by auto
qed

end
