(* ===== verification/Client_Cast.thy ===== *)
theory Client_Cast
  imports Client_Audio Client_Pcm Adpcm Rbudp_Props
begin

text \<open>
  Casting (client/cast.c): compression before sending; and the end where it is heard, the callbacks of
  client/client.c and client/apitest.c. The AAC library is a parameter. With ADPCM a stream that is cast
  over the retransmitting transport without a loss is heard as the coder's predictions.
\<close>

subsection \<open>Sending\<close>

record caster =
  ca_client :: client
  ca_compr :: int
  ca_state :: adpcm_state

definition MODE_BROADCAST :: int where "MODE_BROADCAST = 0"
definition MODE_UNICAST :: int where "MODE_UNICAST = 1"
definition MODE_MULTICAST :: int where "MODE_MULTICAST = 2"

definition COMPR_NONE :: int where "COMPR_NONE = 0"
definition COMPR_STEREO_TO_MONO :: int where "COMPR_STEREO_TO_MONO = 1"
definition COMPR_ADPCM :: int where "COMPR_ADPCM = 2"
definition COMPR_AAC :: int where "COMPR_AAC = 3"

definition caster_start :: "client \<Rightarrow> caster" where
  "caster_start c = \<lparr>ca_client = c, ca_compr = 0, ca_state = \<lparr>ad_valprev = 0, ad_index = 0\<rparr>\<rparr>"

definition set_cast_mode :: "int \<Rightarrow> caster \<Rightarrow> caster" where
  "set_cast_mode mode k =
     (let Op = cl_opts (ca_client k);
          Op1 = (if mode = MODE_BROADCAST then set_option 4 1 Op
                 else if mode = MODE_UNICAST then set_option 6 1 Op
                 else if mode = MODE_MULTICAST then set_option 7 1 Op
                 else Op)
      in k\<lparr>ca_client := (ca_client k)\<lparr>cl_opts := Op1\<rparr>\<rparr>)"

text \<open>The first result is the length of a frame in bytes.\<close>

definition set_compression :: "int \<Rightarrow> caster \<Rightarrow> nat \<times> caster" where
  "set_compression compr k =
     (if compr = COMPR_AAC then 4096 else 1024,
      k\<lparr>ca_compr := compr, ca_client := set_send_audio_type compr (ca_client k)\<rparr>)"

text \<open>The buffer the caller fills: the one that is sent, the temporary one, or none.\<close>

datatype cast_buf = SendBuf | TmpBuf

definition get_cast_buffer :: "int \<Rightarrow> caster \<Rightarrow> cast_buf option \<times> caster" where
  "get_cast_buffer hb k =
     (if ca_compr k = COMPR_NONE \<or> ca_compr k = COMPR_STEREO_TO_MONO then Some SendBuf
      else if ca_compr k = COMPR_ADPCM \<or> ca_compr k = COMPR_AAC then Some TmpBuf
      else None,
      k\<lparr>ca_client := send_audio_start hb (ca_client k)\<rparr>)"

definition cast_send :: "byte list \<Rightarrow> int \<Rightarrow> caster \<Rightarrow> caster" where
  "cast_send bs len k = k\<lparr>ca_client := snd (send_audio_end bs len (ca_client k))\<rparr>"

text \<open>bs is what the caller left in its buffer; aac gives the bytes the encoder writes and its result.\<close>

definition cast_filled :: "(byte list \<Rightarrow> int \<Rightarrow> byte list \<times> int) \<Rightarrow> byte list \<Rightarrow> int \<Rightarrow> caster \<Rightarrow> (int \<times> caster) option" where
  "cast_filled aac bs len k =
     (if ca_compr k = COMPR_STEREO_TO_MONO
      then do { (n, ps) \<leftarrow> pcm_stereo_to_mono (samples bs) (nat len); Some (0, cast_send (sample_bytes ps) (int n) k) }
      else if ca_compr k = COMPR_ADPCM
      then do { (out, st) \<leftarrow> adpcm_coder (samples bs) len (ca_state k);
                Some (0, cast_send out (len div 4) (k\<lparr>ca_state := st\<rparr>)) }
      else if ca_compr k = COMPR_AAC
      then (let (out, n) = aac bs len in Some (if n < 0 then (-1, k) else (0, cast_send out n k)))
      else Some (0, cast_send bs len k))"

text \<open>One turn of the loop of client/bcast.c, when a whole frame was read.\<close>

definition cast_frame :: "(byte list \<Rightarrow> int \<Rightarrow> byte list \<times> int) \<Rightarrow> int \<Rightarrow> byte list \<Rightarrow> caster \<Rightarrow> caster option" where
  "cast_frame aac hb bs k =
     (case get_cast_buffer hb k of
        (None, k1) \<Rightarrow> None
      | (Some b, k1) \<Rightarrow> do { (r, k2) \<leftarrow> cast_filled aac bs (int (length bs)) k1; Some k2 })"

subsection \<open>Hearing\<close>

definition audio_rbudp_recved :: "int \<Rightarrow> byte list \<Rightarrow> int \<Rightarrow> client \<Rightarrow> client" where
  "audio_rbudp_recved tag bs extra c = raise (EvAudio tag extra bs) c"

definition ATYPE_RAW :: int where "ATYPE_RAW = 0"
definition ATYPE_MONO :: int where "ATYPE_MONO = 1"
definition ATYPE_ADPCM :: int where "ATYPE_ADPCM = 2"
definition ATYPE_AAC :: int where "ATYPE_AAC = 3"

record player =
  pl_state :: adpcm_state
  pl_sound :: "byte list" \<comment> \<open>what is written to the sound device\<close>

text \<open>
  The case EVENT_AUDIO of client/apitest.c with the sound device open and without upsampling. pad is
  what the memory holds behind the data; aac gives the bytes the decoder leaves in sbuf and its result.
\<close>

definition play_audio :: "(byte list \<Rightarrow> byte list \<times> int) \<Rightarrow> byte list \<Rightarrow> int \<Rightarrow> byte list \<Rightarrow> player \<Rightarrow> player option" where
  "play_audio aac pad ty bs pl =
     (let write = (\<lambda>out pl. pl\<lparr>pl_sound := pl_sound pl @ out\<rparr>)
      in if ty = ATYPE_MONO
         then do { (n, ps) \<leftarrow> pcm_mono_to_stereo (samples (bs @ pad)) (length bs);
                   ensure (n \<le> 2 * length ps);
                   Some (write (take n (sample_bytes ps)) pl) }
         else if ty = ATYPE_ADPCM
         then do { (pcm, st) \<leftarrow> adpcm_decoder bs (int (length bs)) (pl_state pl);
                   ensure (length pcm \<le> 4096);
                   Some (write (sample_bytes pcm) (pl\<lparr>pl_state := st\<rparr>)) }
         else if ty = ATYPE_AAC
         then (let (out, n) = aac bs in Some (if n \<le> 0 then pl else write (take (nat n) out) pl))
         else Some (write bs pl))"

subsection \<open>Samples and bytes\<close>

lemma word_bytes: "word_rcat [ucast (drop_bit 8 x) :: byte, ucast x] = (x :: 16 word)"
proof -
  have "uint x < 65536" using uint_lt2p [of x] by simp
  then have "0 \<le> uint x div 256" "uint x div 256 < 256" using uint_ge_0 [of x] by linarith+
  then have d: "uint x div 256 mod 256 = uint x div 256" by (rule mod_pos_pos_trivial)
  have "horner_sum uint 256 [ucast x, ucast (drop_bit 8 x) :: byte] = uint x mod 256 + 256 * (uint x div 256 mod 256)"
    by (simp add: unsigned_ucast_eq unsigned_drop_bit_eq take_bit_eq_mod drop_bit_eq_div uint_div)
  also have "\<dots> = uint x" unfolding d by simp
  finally have "horner_sum uint 256 [ucast x, ucast (drop_bit 8 x) :: byte] = uint x" .
  then show ?thesis unfolding word_rcat_def comp_def by (simp add: word_of_int_uint)
qed

lemma sample_bytes_simps [simp]:
  "sample_bytes [] = []" "sample_bytes (x # xs) = ucast x # ucast (drop_bit 8 x) # sample_bytes xs"
  by (simp_all add: sample_bytes_def)

lemma samples_sample_bytes [simp]: "samples (sample_bytes xs) = xs"
  by (induction xs) (simp_all add: word_bytes)

lemma length_sample_bytes [simp]: "length (sample_bytes xs) = 2 * length xs"
  by (induction xs) simp_all

lemma sample_bytes_append: "sample_bytes (xs @ ys) = sample_bytes xs @ sample_bytes ys"
  by (induction xs) simp_all

lemma length_samples: "length (samples bs) = length bs div 2"
  by (induction bs rule: samples.induct) simp_all

subsection \<open>A stream of ADPCM\<close>

definition adpcm_ready :: "caster \<Rightarrow> bool" where
  "adpcm_ready k \<longleftrightarrow> ca_compr k = COMPR_ADPCM \<and> adpcm_ok (ca_state k) \<and> cl_bcast_audio (ca_client k)
     \<and> co_rbudp_send (cl_opts (ca_client k)) \<noteq> 0 \<and> cl_audio_type (ca_client k) = ATYPE_ADPCM"

definition whole_frame :: "byte list \<Rightarrow> bool" where
  "whole_frame bs \<longleftrightarrow> bs \<noteq> [] \<and> 4 dvd length bs \<and> length bs \<le> 8160"

lemma whole_frame_length: "whole_frame bs \<Longrightarrow> \<exists>n. length bs = 4 * n \<and> 0 < n \<and> n \<le> 2040"
  by (auto simp: whole_frame_def simp flip: length_greater_0_conv elim!: dvdE)

lemma cast_adpcm_frame:
  assumes "adpcm_ready k" and "whole_frame bs"
  shows "\<exists>out k1. cast_frame aac hb bs k = Some k1 \<and> adpcm_ready k1 \<and> cl_tag (ca_client k1) = cl_tag (ca_client k)
    \<and> cl_out (ca_client k1) = cl_out (ca_client k) @ [RbBroadcast (cl_tag (ca_client k)) out ATYPE_ADPCM]
    \<and> adpcm_coder (samples bs) (2 * int (length (samples bs))) (ca_state k) = Some (out, ca_state k1)
    \<and> length out = length bs div 4"
proof -
  obtain n where n: "length bs = 4 * n" "0 < n" using whole_frame_length [OF assms(2)] by blast
  have len: "int (length bs) = 2 * int (length (samples bs))" "length (samples bs) = 2 * n" by (simp_all add: length_samples n)
  obtain r out st where c: "adpcm_coder (samples bs) (2 * int (length (samples bs))) (ca_state k) = Some (out, st)"
    using adpcm_coder_block [of "ca_state k" _ "samples bs"] assms(1) unfolding adpcm_ready_def by metis
  have st: "adpcm_ok st" "length out = n"
    using adpcm_decoder_block [OF _ _ c] assms(1) by (simp_all add: adpcm_ready_def len(2))
  define c0 where "c0 = send_audio_start hb (ca_client k)"
  have f: "cl_bcast_audio c0 = cl_bcast_audio (ca_client k)" "cl_opts c0 = cl_opts (ca_client k)" "cl_tag c0 = cl_tag (ca_client k)"
    "cl_audio_type c0 = cl_audio_type (ca_client k)" "cl_out c0 = cl_out (ca_client k)"
    by (simp_all add: c0_def send_audio_start_def)
  define k1 where "k1 = k\<lparr>ca_client := client_emit (RbBroadcast (cl_tag (ca_client k)) out ATYPE_ADPCM) c0, ca_state := st\<rparr>"
  have div: "2 * int (length (samples bs)) div 4 = int n" by (simp add: len(2))
  have "send_audio_end out (int n) c0 = (0, client_emit (RbBroadcast (cl_tag (ca_client k)) out ATYPE_ADPCM) c0)"
    using n(2) st(2) assms(1) by (simp add: send_audio_end_def f adpcm_ready_def)
  then have "cast_frame aac hb bs k = Some k1"
    using c assms(1) unfolding cast_frame_def get_cast_buffer_def len(1) c0_def [symmetric]
    by (simp add: cast_filled_def cast_send_def adpcm_ready_def COMPR_ADPCM_def COMPR_NONE_def COMPR_STEREO_TO_MONO_def div k1_def)
  moreover have "adpcm_ready k1" using assms(1) st(1) f by (simp add: adpcm_ready_def k1_def client_emit_def)
  moreover have "cl_tag (ca_client k1) = cl_tag (ca_client k)" "ca_state k1 = st"
    "cl_out (ca_client k1) = cl_out (ca_client k) @ [RbBroadcast (cl_tag (ca_client k)) out ATYPE_ADPCM]"
    using f by (simp_all add: k1_def)
  ultimately show ?thesis using c st(2) n(1) by (intro exI [of _ out] exI [of _ k1]) simp
qed

lemma cast_adpcm_frames:
  assumes "adpcm_ready k" and "\<forall>bs \<in> set bss. whole_frame bs"
  shows "\<exists>blks k1. foldM (cast_frame aac hb) bss k = Some k1
    \<and> cl_out (ca_client k1) = cl_out (ca_client k) @ map (\<lambda>out. RbBroadcast (cl_tag (ca_client k)) out ATYPE_ADPCM) blks
    \<and> code_blocks (map samples bss) (ca_state k) = Some (blks, ca_state k1) \<and> (\<forall>out \<in> set blks. length out \<le> 2040)"
  using assms
proof (induction bss arbitrary: k)
  case Nil
  then show ?case by simp
next
  case (Cons bs bss)
  obtain out k0 where f: "cast_frame aac hb bs k = Some k0" "adpcm_ready k0" "cl_tag (ca_client k0) = cl_tag (ca_client k)"
    "cl_out (ca_client k0) = cl_out (ca_client k) @ [RbBroadcast (cl_tag (ca_client k)) out ATYPE_ADPCM]"
    "adpcm_coder (samples bs) (2 * int (length (samples bs))) (ca_state k) = Some (out, ca_state k0)" "length out = length bs div 4"
    using cast_adpcm_frame [OF Cons.prems(1), of bs aac hb] Cons.prems(2) by auto
  obtain blks k1 where i: "foldM (cast_frame aac hb) bss k0 = Some k1"
    "cl_out (ca_client k1) = cl_out (ca_client k0) @ map (\<lambda>out. RbBroadcast (cl_tag (ca_client k0)) out ATYPE_ADPCM) blks"
    "code_blocks (map samples bss) (ca_state k0) = Some (blks, ca_state k1)" "\<forall>out \<in> set blks. length out \<le> 2040"
    using Cons.IH [OF f(2)] Cons.prems(2) by auto
  have "length out \<le> 2040" using f(6) whole_frame_length [of bs] Cons.prems(2) by auto
  then show ?case using f i by (intro exI [of _ "out # blks"] exI [of _ k1]) simp
qed

text \<open>What the receiver's callback hands to the player.\<close>

definition play_event :: "(byte list \<Rightarrow> byte list \<times> int) \<Rightarrow> byte list \<Rightarrow> 'a rb_event \<Rightarrow> player \<Rightarrow> player option" where
  "play_event aac pad ev pl = (case ev of Deliver tag bs extra \<Rightarrow> play_audio aac pad extra bs pl | Ask a tag q \<Rightarrow> Some pl)"

lemma play_adpcm_blocks:
  assumes "decode_blocks blks (pl_state pl) = Some (pcms, st)" and "\<forall>out \<in> set blks. length out \<le> 2040"
    and "adpcm_ok (pl_state pl)"
  shows "foldM (play_event aac pad) (map (\<lambda>out. Deliver tag out ATYPE_ADPCM :: 'b rb_event) blks) pl
    = Some (pl\<lparr>pl_state := st, pl_sound := pl_sound pl @ sample_bytes (concat pcms)\<rparr>)"
  using assms
proof (induction blks arbitrary: pl pcms)
  case Nil
  then show ?case by simp
next
  case (Cons out blks)
  obtain pcm st1 hs where d: "adpcm_decoder out (int (length out)) (pl_state pl) = Some (pcm, st1)"
    "decode_blocks blks st1 = Some (hs, st)" "pcms = pcm # hs"
    using Cons.prems(1) by (auto simp: bind_eq_Some_conv split: prod.splits)
  obtain r r1 where r: "start_run (pl_state pl) = Some r" "run_ok r" "decode_loop (nat (int (length out) * 2)) False 0 out r = Some (pcm, r1)"
    "st1 = end_run r1"
    using d(1) start_run_ok [OF Cons.prems(3)] by (auto simp: adpcm_decoder_def bind_eq_Some_conv split: prod.splits)
  have n: "nat (int (length out) * 2) = 2 * length out" by (simp add: nat_mult_distrib)
  have ok: "adpcm_ok st1" "length pcm = 2 * length out"
    using decode_loop_total [OF r(2), of "2 * length out" False out 0] r(3,4) by (auto simp: n run_ok_def)
  have "play_event aac pad (Deliver tag out ATYPE_ADPCM :: 'b rb_event) pl = Some (pl\<lparr>pl_state := st1, pl_sound := pl_sound pl @ sample_bytes pcm\<rparr>)"
    using d(1) ok(2) Cons.prems(2) by (simp add: play_event_def play_audio_def Let_def ATYPE_ADPCM_def ATYPE_MONO_def)
  then show ?case
    using Cons.IH [of "pl\<lparr>pl_state := st1, pl_sound := pl_sound pl @ sample_bytes pcm\<rparr>" hs] d ok Cons.prems(2)
    by (simp add: sample_bytes_append)
qed

text \<open>The data the client gives to the transport.\<close>

definition cast_data :: "cl_out list \<Rightarrow> (byte list \<times> int) list" where
  "cast_data xs = concat (map (\<lambda>x. case x of RbBroadcast tag bs extra \<Rightarrow> [(bs, extra)] | _ \<Rightarrow> []) xs)"

lemma cast_data_broadcasts: "cast_data (map (\<lambda>out. RbBroadcast tag out ty) blks) = map (\<lambda>out. (out, ty)) blks"
  by (induction blks) (simp_all add: cast_data_def)

text \<open>
  C7. Casting and hearing, end to end: a program that broadcasts with ADPCM casts frames of whole groups of
  four bytes, up to 8160; the transport numbers and sends the blocks and none is lost; a receiver in step
  with the sender hands them on, and a player whose decoder is in the coder's state writes to the sound
  device exactly the coder's predictions for the samples of all the frames, in order. Coder and decoder
  are in the same state again, and receiver and sender in step. The number of frames is not bounded:
  sequence numbers may wrap on the way.
\<close>

theorem adpcm_cast_is_heard:
  assumes "adpcm_ready k" and "\<forall>bs \<in> set bss. whole_frame bs"
    and "in_step s r" and "rr_tag r = cl_tag (ca_client k) mod 256" and "pl_state pl = ca_state k"
  shows "\<exists>k1 sent ps s1 r1 got pl1. foldM (cast_frame aac hb) bss k = Some k1
    \<and> cl_out (ca_client k1) = cl_out (ca_client k) @ sent
    \<and> rb_sends (cl_tag (ca_client k)) (cast_data sent) s = Some (ps, s1)
    \<and> foldM (rb_recv a) ps r = Some r1 \<and> rr_out r1 = rr_out r @ got \<and> in_step s1 r1
    \<and> foldM (play_event aad pad) got pl = Some pl1 \<and> pl_state pl1 = ca_state k1
    \<and> pl_sound pl1 = pl_sound pl @ sample_bytes (fst (predictions (map sint (concat (map samples bss))) (the (start_run (ca_state k)))))"
proof -
  obtain blks k1 where c: "foldM (cast_frame aac hb) bss k = Some k1"
    "cl_out (ca_client k1) = cl_out (ca_client k) @ map (\<lambda>out. RbBroadcast (cl_tag (ca_client k)) out ATYPE_ADPCM) blks"
    "code_blocks (map samples bss) (ca_state k) = Some (blks, ca_state k1)" "\<forall>out \<in> set blks. length out \<le> 2040"
    using cast_adpcm_frames [OF assms(1,2)] by blast
  have ok: "adpcm_ok (ca_state k)" using assms(1) by (simp add: adpcm_ready_def)
  have even: "\<forall>xs \<in> set (map samples bss). even (length xs)"
    using assms(2) by (auto simp: length_samples dest!: bspec whole_frame_length)
  obtain pcms where h: "decode_blocks blks (ca_state k) = Some (pcms, ca_state k1)"
    "concat pcms = fst (predictions (map sint (concat (map samples bss))) (the (start_run (ca_state k))))"
    using decode_code_blocks [OF ok even] c(3) by auto
  have fits: "\<forall>d \<in> set (map (\<lambda>out. (out, ATYPE_ADPCM)) blks). rb_fits d" using c(4) by (simp add: rb_fits_def)
  obtain ps s1 r1 where t: "rb_sends (cl_tag (ca_client k)) (map (\<lambda>out. (out, ATYPE_ADPCM)) blks) s = Some (ps, s1)"
    "foldM (rb_recv a) ps r = Some r1" "in_step s1 r1"
    "rr_out r1 = rr_out r @ map (\<lambda>d. Deliver (rr_tag r) (fst d) (snd d mod 65536)) (map (\<lambda>out. (out, ATYPE_ADPCM)) blks)"
    using in_order_run [OF assms(3,4) fits] by blast
  have got: "map (\<lambda>d. Deliver (rr_tag r) (fst d) (snd d mod 65536)) (map (\<lambda>out. (out, ATYPE_ADPCM)) blks)
      = map (\<lambda>out. Deliver (rr_tag r) out ATYPE_ADPCM) blks" by (simp add: ATYPE_ADPCM_def)
  have "foldM (play_event aad pad) (map (\<lambda>out. Deliver (rr_tag r) out ATYPE_ADPCM) blks) pl
      = Some (pl\<lparr>pl_state := ca_state k1, pl_sound := pl_sound pl @ sample_bytes (concat pcms)\<rparr>)"
    by (rule play_adpcm_blocks [OF _ c(4)]) (use h(1) ok assms(5) in simp_all)
  then show ?thesis
    using c(1,2) t h(2) unfolding got by (intro exI conjI) (auto simp: cast_data_broadcasts)
qed

theorem adpcm_cast_is_heard_witness:
  "let k = snd (set_compression COMPR_ADPCM (set_cast_mode MODE_BROADCAST (caster_start ((client_start (\<lambda>_. undefined))\<lparr>cl_bcast_audio := True, cl_tag := 1\<rparr>))));
       r = (rb_receiver_init (\<lambda>_. no_packet))\<lparr>rr_tag := 1\<rparr>; pl = \<lparr>pl_state = \<lparr>ad_valprev = 0, ad_index = 0\<rparr>, pl_sound = []\<rparr>
   in \<exists>k1 ps s1 r1 pl1. foldM (cast_frame (\<lambda>bs n. ([], -1)) 0) [replicate 1024 7, replicate 1024 3] k = Some k1
     \<and> rb_sends 1 (cast_data (cl_out (ca_client k1))) rb_sender_init = Some (ps, s1)
     \<and> foldM (rb_recv ''caster'') ps r = Some r1 \<and> foldM (play_event (\<lambda>bs. ([], -1)) []) (rr_out r1) pl = Some pl1
     \<and> pl_state pl1 = ca_state k1"
proof -
  define k where "k = snd (set_compression COMPR_ADPCM (set_cast_mode MODE_BROADCAST (caster_start ((client_start (\<lambda>_. undefined))\<lparr>cl_bcast_audio := True, cl_tag := 1\<rparr>))))"
  define r :: "string rb_receiver" where "r = (rb_receiver_init (\<lambda>_. no_packet))\<lparr>rr_tag := 1\<rparr>"
  define pl where "pl = \<lparr>pl_state = \<lparr>ad_valprev = 0, ad_index = 0\<rparr>, pl_sound = []\<rparr>"
  have k: "adpcm_ready k" "cl_tag (ca_client k) = 1" "cl_out (ca_client k) = []" "ca_state k = \<lparr>ad_valprev = 0, ad_index = 0\<rparr>"
    by (simp_all add: k_def adpcm_ready_def set_compression_def set_cast_mode_def caster_start_def set_send_audio_type_def
        client_start_def set_option_def MODE_BROADCAST_def COMPR_ADPCM_def ATYPE_ADPCM_def adpcm_ok_def Let_def)
  have r: "in_step rb_sender_init r" "rr_tag r = 1" "rr_out r = []"
    using cfifo_init_rep [of 3 "\<lambda>_. no_packet" 11] by (simp_all add: r_def rb_receiver_init_def waits_def in_step_def)
  have w: "whole_frame (replicate 1024 7)" "whole_frame (replicate 1024 3)" by (simp_all add: whole_frame_def)
  have p: "pl_state pl = ca_state k" by (simp add: pl_def k)
  show ?thesis
    unfolding Let_def k_def [symmetric] r_def [symmetric] pl_def [symmetric]
    using adpcm_cast_is_heard [OF k(1) _ r(1) _ p, of "[replicate 1024 7, replicate 1024 3]" "\<lambda>bs n. ([], -1)" 0 "''caster''" "\<lambda>bs. ([], -1)" "[]"]
      w k r by (simp; metis)
qed

end
