(* ===== verification/Client_Relay.thy ===== *)
theory Client_Relay
  imports Client_Cast
begin

text \<open>
  The programs that pass audio on: client/xcast.c mixes what it receives and casts it in frames of its
  own, and copies each packet to other ports; client/netplay.c holds the first packets back, plays what
  comes, and forwards it. The buffer of a frame is the bytes put into it, with the size of its memory.
\<close>

subsection \<open>xcast\<close>

record xcaster =
  xc_caster :: caster
  xc_frame_len :: nat
  xc_frame :: "byte list" \<comment> \<open>the first curr_len bytes of the frame\<close>
  xc_dests :: "int list" \<comment> \<open>the ports of the copies\<close>
  xc_copies :: "(int \<times> upack \<times> nat) list" \<comment> \<open>the copies sent\<close>

definition XCAST_BUF :: nat where "XCAST_BUF = 4096"

text \<open>cast_audio: a frame is cast when its length is met exactly; snd_room is the memory behind the data
  of the packet that is sent, 2048 bytes less its head.\<close>

definition frame_room :: "cast_buf \<Rightarrow> nat" where
  "frame_room b = (case b of TmpBuf \<Rightarrow> XCAST_BUF | SendBuf \<Rightarrow> 2048 - PACK_HEAD_LEN)"

definition cast_audio :: "(byte list \<Rightarrow> int \<Rightarrow> byte list \<times> int) \<Rightarrow> int \<Rightarrow> byte list \<Rightarrow> xcaster \<Rightarrow> xcaster option" where
  "cast_audio aac hb bs x =
     (let (b, k) = (if xc_frame x = [] then get_cast_buffer hb (xc_caster x)
                    else (fst (get_cast_buffer hb (xc_caster x)), xc_caster x));
          fr = xc_frame x @ bs
      in do { buf \<leftarrow> b;
              ensure (length fr \<le> frame_room buf);
              if length fr = xc_frame_len x
              then do { (r, k1) \<leftarrow> cast_filled aac fr (int (length fr)) k; Some (x\<lparr>xc_caster := k1, xc_frame := []\<rparr>) }
              else Some (x\<lparr>xc_caster := k, xc_frame := fr\<rparr>) })"

definition on_client :: "(client \<Rightarrow> ('a \<times> client) option) \<Rightarrow> xcaster \<Rightarrow> ('a \<times> xcaster) option" where
  "on_client f x =
     do { (r, c) \<leftarrow> f (ca_client (xc_caster x)); Some (r, x\<lparr>xc_caster := (xc_caster x)\<lparr>ca_client := c\<rparr>\<rparr>) }"

text \<open>The loop over what can be mixed, with fuel: a queue has 32 slots.\<close>

fun cast_mixed :: "nat \<Rightarrow> (byte list \<Rightarrow> int \<Rightarrow> byte list \<times> int) \<Rightarrow> int \<Rightarrow> xcaster \<Rightarrow> xcaster option" where
  "cast_mixed 0 aac hb x = None"
| "cast_mixed (Suc n) aac hb x =
     do { (p, x1) \<leftarrow> on_client get_mix_audio x;
          (case p of None \<Rightarrow> Some x1
           | Some q \<Rightarrow> do { x2 \<leftarrow> cast_audio aac hb (pack_bytes q) x1; cast_mixed n aac hb x2 }) }"

definition mix_audio_pack :: "(byte list \<Rightarrow> int \<Rightarrow> byte list \<times> int) \<Rightarrow> int \<Rightarrow> upack \<Rightarrow> xcaster \<Rightarrow> (int \<times> xcaster) option" where
  "mix_audio_pack aac hb p x =
     do { (r, x1) \<leftarrow> on_client (put_mix_audio p) x;
          if r < 0 then Some (-1, x1)
          else if r = 0 then do { x2 \<leftarrow> cast_audio aac hb (pack_bytes p) x1; Some (0, x2) }
          else do { x2 \<leftarrow> cast_mixed 33 aac hb x1; Some (0, x2) } }"

text \<open>The event of a raw packet p of len bytes.\<close>

definition xcast_event :: "(byte list \<Rightarrow> int \<Rightarrow> byte list \<times> int) \<Rightarrow> int \<Rightarrow> upack \<Rightarrow> nat \<Rightarrow> xcaster \<Rightarrow> xcaster option" where
  "xcast_event aac hb p len x =
     do { (r, x1) \<leftarrow> mix_audio_pack aac hb p x;
          Some (x1\<lparr>xc_copies := xc_copies x1 @ map (\<lambda>d. (d, p, len)) (xc_dests x1)\<rparr>) }"

text \<open>The ports of one word between commas: one, or those from the first to the last. tmp has 512 bytes.\<close>

definition port_range :: "string \<Rightarrow> int list" where
  "port_range p =
     (case dropWhile (\<lambda>ch. ch \<noteq> CHR ''-'') p of
        [] \<Rightarrow> [atoi p]
      | _ # q \<Rightarrow> [atoi p..atoi q])"

definition parse_copy_dests :: "string \<Rightarrow> xcaster \<Rightarrow> xcaster option" where
  "parse_copy_dests str x =
     do { ensure (length str < 512);
          let ds = xc_dests x @ map (\<lambda>i. i mod 65536) (concat (map port_range (tokens (\<lambda>ch. ch = CHR '','') str)));
          ensure (length ds \<le> 100);
          Some (x\<lparr>xc_dests := ds\<rparr>) }"

subsection \<open>netplay\<close>

record netplayer =
  np_hold :: int
  np_count :: int
  np_room :: "nat option" \<comment> \<open>the size of the memory held, None before it is allocated\<close>
  np_held :: "byte list"
  np_sound :: "byte list" \<comment> \<open>what is written to the sound device, which is open\<close>
  np_dest :: bool \<comment> \<open>a destination is set\<close>
  np_seq :: "32 word"
  np_sent :: "(upack \<times> nat) list"

definition forward_audio_pack :: "upack \<Rightarrow> nat \<Rightarrow> netplayer \<Rightarrow> netplayer" where
  "forward_audio_pack p len n =
     (let q = np_seq n + 1 in n\<lparr>np_seq := q, np_sent := np_sent n @ [(p\<lparr>up_seq := q\<rparr>, len)]\<rparr>)"

definition netplay_event :: "upack \<Rightarrow> nat \<Rightarrow> netplayer \<Rightarrow> netplayer option" where
  "netplay_event p len n =
     (let n1 = n\<lparr>np_count := np_count n + 1\<rparr>
      in if np_count n1 < np_hold n1
         then (let room = (case np_room n1 of None \<Rightarrow> nat (int (up_datalen p) * np_hold n1 * 2) | Some r \<Rightarrow> r);
                   held = np_held n1 @ pack_bytes p
               in do { ensure (length held \<le> room); Some (n1\<lparr>np_room := Some room, np_held := held\<rparr>) })
         else (let n2 = (if np_count n1 = np_hold n1 then n1\<lparr>np_sound := np_sound n1 @ np_held n1\<rparr> else n1);
                   n3 = n2\<lparr>np_sound := np_sound n2 @ pack_bytes p\<rparr>
               in Some (if np_dest n3 then forward_audio_pack p len n3 else n3)))"

subsection \<open>Frames\<close>

lemma cast_audio_fill:
  assumes "length (xc_frame x) + length bs < xc_frame_len x" and "xc_frame_len x \<le> frame_room b"
    and "fst (get_cast_buffer hb (xc_caster x)) = Some b" and "bs \<noteq> []"
  shows "cast_audio aac hb bs x
    = Some (x\<lparr>xc_caster := (if xc_frame x = [] then snd (get_cast_buffer hb (xc_caster x)) else xc_caster x), xc_frame := xc_frame x @ bs\<rparr>)"
  using assms by (auto simp: cast_audio_def Let_def split_beta)

lemma cast_audio_full:
  assumes "length (xc_frame x) + length bs = xc_frame_len x" and "xc_frame_len x \<le> frame_room b"
    and "fst (get_cast_buffer hb (xc_caster x)) = Some b"
  shows "cast_audio aac hb bs x
    = (let k = (if xc_frame x = [] then snd (get_cast_buffer hb (xc_caster x)) else xc_caster x)
       in map_option (\<lambda>(r, k1). x\<lparr>xc_caster := k1, xc_frame := []\<rparr>) (cast_filled aac (xc_frame x @ bs) (int (xc_frame_len x)) k))"
  using assms
  by (auto simp: cast_audio_def Let_def split_beta split: bind_splits)

lemma get_cast_buffer_again: "fst (get_cast_buffer hb (snd (get_cast_buffer hb' k))) = fst (get_cast_buffer hb k)"
  by (simp add: get_cast_buffer_def)

lemma cast_rest:
  assumes "g \<noteq> []" and "\<forall>bs \<in> set g. bs \<noteq> []" and "xc_frame x \<noteq> []" and "length (xc_frame x) + length (concat g) = xc_frame_len x"
    and "xc_frame_len x \<le> frame_room b" and "fst (get_cast_buffer hb (xc_caster x)) = Some b"
  shows "foldM (cast_audio aac hb) g x
    = map_option (\<lambda>(r, k1). x\<lparr>xc_caster := k1, xc_frame := []\<rparr>)
        (cast_filled aac (xc_frame x @ concat g) (int (xc_frame_len x)) (xc_caster x))"
  using assms
proof (induction g arbitrary: x)
  case Nil
  then show ?case by simp
next
  case (Cons bs g)
  show ?case
  proof (cases "g = []")
    case True
    then show ?thesis using cast_audio_full [of x bs b hb aac] Cons.prems by (simp add: Let_def option.case_eq_if)
  next
    case False
    then have "concat g \<noteq> []" using Cons.prems(2) by (cases g) auto
    then have lt: "length (xc_frame x) + length bs < xc_frame_len x" using Cons.prems(4) by (cases "concat g") auto
    let ?x = "x\<lparr>xc_frame := xc_frame x @ bs\<rparr>"
    have "cast_audio aac hb bs x = Some ?x"
      using cast_audio_fill [OF lt Cons.prems(5,6)] Cons.prems(2,3) by (simp add: option.case_eq_if)
    moreover have "foldM (cast_audio aac hb) g ?x = map_option (\<lambda>(r, k1). ?x\<lparr>xc_caster := k1, xc_frame := []\<rparr>)
        (cast_filled aac (xc_frame ?x @ concat g) (int (xc_frame_len ?x)) (xc_caster ?x))"
      by (rule Cons.IH) (use Cons.prems False in simp_all)
    ultimately show ?thesis by simp
  qed
qed

lemma cast_group:
  assumes "g \<noteq> []" and "\<forall>bs \<in> set g. bs \<noteq> []" and "xc_frame x = []" and "length (concat g) = xc_frame_len x"
    and "xc_frame_len x \<le> frame_room b" and "fst (get_cast_buffer hb (xc_caster x)) = Some b"
  shows "foldM (cast_audio aac hb) g x = map_option (\<lambda>k1. x\<lparr>xc_caster := k1\<rparr>) (cast_frame aac hb (concat g) (xc_caster x))"
proof -
  obtain bs g' where g: "g = bs # g'" using assms(1) by (cases g) auto
  let ?k = "snd (get_cast_buffer hb (xc_caster x))"
  have frame: "cast_frame aac hb (concat g) (xc_caster x)
      = map_option snd (cast_filled aac (concat g) (int (xc_frame_len x)) ?k)"
    using assms(4,6) by (auto simp: cast_frame_def split: prod.splits bind_splits)
  have same: "x\<lparr>xc_caster := k1, xc_frame := []\<rparr> = x\<lparr>xc_caster := k1\<rparr>" for k1 using assms(3) by simp
  show ?thesis
  proof (cases "g' = []")
    case True
    then show ?thesis
      using cast_audio_full [of x bs b hb aac] assms g same unfolding frame
      by (auto simp: Let_def option.map_comp comp_def split_beta split: option.split)
  next
    case False
    then have "concat g' \<noteq> []" using assms(2) g by (cases g') auto
    then have lt: "length (xc_frame x) + length bs < xc_frame_len x" using assms(3,4) g by (cases "concat g'") auto
    let ?x = "x\<lparr>xc_caster := ?k, xc_frame := bs\<rparr>"
    have c: "cast_audio aac hb bs x = Some ?x" using cast_audio_fill [OF lt assms(5,6)] assms(2,3) g by simp
    have "foldM (cast_audio aac hb) g' ?x = map_option (\<lambda>(r, k1). ?x\<lparr>xc_caster := k1, xc_frame := []\<rparr>)
        (cast_filled aac (xc_frame ?x @ concat g') (int (xc_frame_len ?x)) (xc_caster ?x))"
      by (rule cast_rest [where b = b]) (use assms g False get_cast_buffer_again in auto)
    then show ?thesis
      using c g same unfolding frame by (cases "cast_filled aac (bs @ concat g') (int (xc_frame_len x)) ?k") (simp_all add: case_prod_beta)
  qed
qed

lemma cast_frame_compr: "cast_frame aac hb bs k = Some k1 \<Longrightarrow> ca_compr k1 = ca_compr k"
  by (auto simp: cast_frame_def get_cast_buffer_def cast_filled_def cast_send_def Let_def bind_eq_Some_conv
      split: if_splits prod.splits option.splits)

text \<open>
  xcast cuts the stream into frames: when the packets it casts come in groups whose lengths add up to
  the frame length, each group is cast as one frame, the bytes of its packets one after the other,
  exactly as a program that reads whole frames would cast them; the frame is empty again afterwards.
\<close>

theorem xcast_casts_frames:
  assumes "\<forall>g \<in> set gs. g \<noteq> [] \<and> (\<forall>bs \<in> set g. bs \<noteq> []) \<and> length (concat g) = xc_frame_len x"
    and "xc_frame x = []" and "xc_frame_len x \<le> frame_room b" and "fst (get_cast_buffer hb (xc_caster x)) = Some b"
  shows "foldM (cast_audio aac hb) (concat gs) x
    = map_option (\<lambda>k. x\<lparr>xc_caster := k\<rparr>) (foldM (cast_frame aac hb) (map concat gs) (xc_caster x))"
  using assms
proof (induction gs arbitrary: x)
  case Nil
  then show ?case by simp
next
  case (Cons g gs)
  have c: "foldM (cast_audio aac hb) g x = map_option (\<lambda>k1. x\<lparr>xc_caster := k1\<rparr>) (cast_frame aac hb (concat g) (xc_caster x))"
    by (rule cast_group [OF _ _ Cons.prems(2) _ Cons.prems(3,4)]) (use Cons.prems(1) in simp_all)
  show ?case
  proof (cases "cast_frame aac hb (concat g) (xc_caster x)")
    case None
    then show ?thesis using c by (simp add: foldM_append)
  next
    case (Some k1)
    have "fst (get_cast_buffer hb k1) = Some b"
      using Cons.prems(4) unfolding get_cast_buffer_def cast_frame_compr [OF Some] by simp
    then have "foldM (cast_audio aac hb) (concat gs) (x\<lparr>xc_caster := k1\<rparr>)
        = map_option (\<lambda>k. x\<lparr>xc_caster := k\<rparr>) (foldM (cast_frame aac hb) (map concat gs) k1)"
      using Cons.IH [of "x\<lparr>xc_caster := k1\<rparr>"] Cons.prems by simp
    then show ?thesis using c Some by (simp add: foldM_append)
  qed
qed

lemma concat_replicate_snoc: "concat (replicate j bs) @ bs = bs @ concat (replicate j bs)"
  by (induction j) simp_all

text \<open>
  Packets whose length does not divide the frame length never meet it, and run over the buffer.
\<close>

lemma cast_audio_overruns:
  assumes "\<not> length bs dvd xc_frame_len x" and "xc_frame x = concat (replicate j bs)" and "bs \<noteq> []"
    and "fst (get_cast_buffer hb (xc_caster x)) = Some b" and "frame_room b < (j + m) * length bs"
    and "m \<noteq> 0"
  shows "foldM (cast_audio aac hb) (replicate m bs) x = None"
  using assms
proof (induction m arbitrary: j x)
  case 0
  then show ?case by simp
next
  case (Suc m)
  have len: "length (concat (replicate i bs)) = i * length bs" for i by (induction i) simp_all
  have l: "length (xc_frame x @ bs) = Suc j * length bs" using Suc.prems(2) len [of j] by simp
  have ne: "Suc j * length bs \<noteq> xc_frame_len x" using Suc.prems(1) by (metis dvd_triv_right)
  have fr: "xc_frame x @ bs = concat (replicate (Suc j) bs)"
    using Suc.prems(2) by (simp add: concat_replicate_snoc)
  show ?case
  proof (cases "cast_audio aac hb bs x")
    case (Some x1)
    then have x1: "length (xc_frame x @ bs) \<le> frame_room b" "xc_frame x1 = xc_frame x @ bs" "xc_frame_len x1 = xc_frame_len x"
      "xc_caster x1 = xc_caster x \<or> xc_caster x1 = snd (get_cast_buffer hb (xc_caster x))"
      using Suc.prems(4) ne l by (auto simp: cast_audio_def Let_def split_beta split: if_splits)
    have "m \<noteq> 0" using x1(1) l Suc.prems(5) by (cases m) auto
    moreover have "fst (get_cast_buffer hb (xc_caster x1)) = Some b"
      using x1(4) Suc.prems(4) get_cast_buffer_again by auto
    ultimately have "foldM (cast_audio aac hb) (replicate m bs) x1 = None"
      using Suc.IH [of x1 "Suc j"] Suc.prems x1 fr by simp
    then show ?thesis using Some by simp
  qed simp
qed

subsection \<open>What netplay plays\<close>

definition np_start :: "int \<Rightarrow> netplayer" where
  "np_start hold = \<lparr>np_hold = hold, np_count = 0, np_room = None, np_held = [], np_sound = [], np_dest = True, np_seq = 0, np_sent = []\<rparr>"

fun numbered :: "32 word \<Rightarrow> upack list \<Rightarrow> upack list" where
  "numbered q [] = []"
| "numbered q (p # ps) = p\<lparr>up_seq := q\<rparr> # numbered (q + 1) ps"

lemma netplay_holds:
  assumes "\<forall>p \<in> set ps. up_datalen p = d \<and> d \<le> length (up_data p)" and "np_count n + int (length ps) < np_hold n"
    and "np_room n = (if np_count n = 0 then None else Some (nat (int d * np_hold n * 2)))" and "0 \<le> np_count n"
    and "length (np_held n) = nat (np_count n) * d"
  shows "\<exists>room. foldM (\<lambda>p. netplay_event p (pack_size p)) ps n
    = Some (n\<lparr>np_count := np_count n + int (length ps), np_room := room, np_held := np_held n @ concat (map pack_bytes ps)\<rparr>)"
  using assms
proof (induction ps arbitrary: n)
  case Nil
  then show ?case by (intro exI [of _ "np_room n"]) simp
next
  case (Cons p ps)
  let ?r = "nat (int d * np_hold n * 2)"
  let ?n = "n\<lparr>np_count := np_count n + 1, np_room := Some ?r, np_held := np_held n @ pack_bytes p\<rparr>"
  have lp: "length (pack_bytes p) = d" using Cons.prems(1) by (simp add: pack_bytes_def)
  have "length (np_held n @ pack_bytes p) = nat (np_count n + 1) * d"
    using Cons.prems(4,5) lp by (simp add: nat_add_distrib)
  moreover have "nat (np_count n + 1) * d \<le> ?r"
  proof -
    have "(np_count n + 1) * int d \<le> np_hold n * int d" using Cons.prems(2) by (intro mult_right_mono) simp_all
    also have "\<dots> \<le> int d * np_hold n * 2" using Cons.prems(2,4) by (simp add: mult.commute)
    finally have "nat ((np_count n + 1) * int d) \<le> ?r" by (rule nat_mono)
    then show ?thesis using Cons.prems(4) by (simp add: nat_mult_distrib)
  qed
  ultimately have room: "length (np_held n) + length (pack_bytes p) \<le> ?r" by simp
  have "netplay_event p (pack_size p) n = Some ?n"
    using Cons.prems(1,2,3) room by (auto simp: netplay_event_def Let_def)
  moreover have "\<exists>room. foldM (\<lambda>p. netplay_event p (pack_size p)) ps ?n
    = Some (?n\<lparr>np_count := np_count ?n + int (length ps), np_room := room, np_held := np_held ?n @ concat (map pack_bytes ps)\<rparr>)"
    by (rule Cons.IH) (use Cons.prems lp in \<open>simp_all add: nat_add_distrib\<close>)
  ultimately show ?case by (auto simp: algebra_simps)
qed

lemma netplay_plays:
  assumes "np_hold n \<le> np_count n" and "np_dest n"
  shows "\<exists>n1. foldM (\<lambda>p. netplay_event p (pack_size p)) ps n = Some n1
    \<and> np_sound n1 = np_sound n @ concat (map pack_bytes ps)
    \<and> np_sent n1 = np_sent n @ map (\<lambda>p. (p, pack_size p)) (numbered (np_seq n + 1) ps)"
  using assms
proof (induction ps arbitrary: n)
  case (Cons p ps)
  let ?n = "forward_audio_pack p (pack_size p) (n\<lparr>np_count := np_count n + 1, np_sound := np_sound n @ pack_bytes p\<rparr>)"
  have "netplay_event p (pack_size p) n = Some ?n" using Cons.prems by (simp add: netplay_event_def Let_def)
  moreover have "np_hold ?n \<le> np_count ?n" "np_dest ?n" using Cons.prems by (simp_all add: forward_audio_pack_def Let_def)
  ultimately show ?case
    using Cons.IH [of ?n] by (simp add: forward_audio_pack_def Let_def pack_size_def)
qed simp

text \<open>
  netplay delays and loses nothing it plays: with packets of one size and at least hold of them,
  everything that came is written to the sound device, in order. But what is forwarded starts with packet
  hold, numbered from 1: the packets held back are not forwarded.
\<close>

theorem netplay_plays_everything:
  assumes "0 < hold" and "length ps + 1 = nat hold" and "\<forall>p \<in> set (ps @ q # qs). up_datalen p = d \<and> d \<le> length (up_data p)"
  shows "\<exists>n. foldM (\<lambda>p. netplay_event p (pack_size p)) (ps @ q # qs) (np_start hold) = Some n
    \<and> np_sound n = concat (map pack_bytes (ps @ q # qs))
    \<and> np_sent n = map (\<lambda>p. (p, pack_size p)) (numbered 1 (q # qs))"
proof -
  have c: "int (length ps) + 1 = hold" using assms(1,2) by linarith
  obtain room where h: "foldM (\<lambda>p. netplay_event p (pack_size p)) ps (np_start hold)
    = Some ((np_start hold)\<lparr>np_count := int (length ps), np_room := room, np_held := concat (map pack_bytes ps)\<rparr>)"
    using netplay_holds [of ps d "np_start hold"] assms(3) c by (auto simp: np_start_def)
  define n0 where "n0 = (np_start hold)\<lparr>np_count := int (length ps), np_room := room, np_held := concat (map pack_bytes ps)\<rparr>"
  define n1 where "n1 = forward_audio_pack q (pack_size q)
    (n0\<lparr>np_count := hold, np_sound := concat (map pack_bytes ps) @ pack_bytes q\<rparr>)"
  have "netplay_event q (pack_size q) n0 = Some n1"
    using c by (simp add: netplay_event_def Let_def n0_def n1_def np_start_def)
  moreover have n1: "np_hold n1 \<le> np_count n1" "np_dest n1" "np_sound n1 = concat (map pack_bytes ps) @ pack_bytes q"
    "np_seq n1 = 1" "np_sent n1 = [(q\<lparr>up_seq := 1\<rparr>, pack_size q)]"
    by (simp_all add: n1_def n0_def np_start_def forward_audio_pack_def Let_def)
  moreover obtain n2 where "foldM (\<lambda>p. netplay_event p (pack_size p)) qs n1 = Some n2"
    "np_sound n2 = np_sound n1 @ concat (map pack_bytes qs)"
    "np_sent n2 = np_sent n1 @ map (\<lambda>p. (p, pack_size p)) (numbered (np_seq n1 + 1) qs)"
    using netplay_plays [OF n1(1,2), of qs] by blast
  ultimately show ?thesis using h by (simp add: foldM_append n0_def pack_size_def)
qed

definition small_pack :: "byte \<Rightarrow> upack" where
  "small_pack b = \<lparr>up_id = 5, up_seq = 40, up_type = 1, up_tag = 1, up_datalen = 2, up_data = [b, b]\<rparr>"

theorem netplay_plays_everything_witness:
  "\<exists>n. foldM (\<lambda>p. netplay_event p (pack_size p)) [small_pack 1, small_pack 2, small_pack 3] (np_start 2) = Some n
    \<and> np_sound n = [1, 1, 2, 2, 3, 3]"
  using netplay_plays_everything [of 2 "[small_pack 1]" "small_pack 2" "[small_pack 3]" 2]
  by (auto simp: small_pack_def pack_bytes_def)

theorem xcast_casts_frames_witness:
  "let k = caster_start ((client_start (\<lambda>_. undefined))\<lparr>cl_mix_cast := True\<rparr>);
       x = \<lparr>xc_caster = k, xc_frame_len = 4, xc_frame = [], xc_dests = [], xc_copies = []\<rparr>
   in foldM (cast_audio (\<lambda>bs n. ([], -1)) 0) [[1, 2], [3, 4], [5, 6, 7, 8]] x
      = map_option (\<lambda>k. x\<lparr>xc_caster := k\<rparr>) (foldM (cast_frame (\<lambda>bs n. ([], -1)) 0) [[1, 2, 3, 4], [5, 6, 7, 8]] k)"
proof -
  define k where "k = caster_start ((client_start (\<lambda>_. undefined))\<lparr>cl_mix_cast := True\<rparr>)"
  have "fst (get_cast_buffer 0 k) = Some SendBuf" by (simp add: k_def caster_start_def get_cast_buffer_def COMPR_NONE_def)
  then show ?thesis
    using xcast_casts_frames [of "[[[1, 2], [3, 4]], [[5, 6, 7, 8]]]"
        "\<lparr>xc_caster = k, xc_frame_len = 4, xc_frame = [], xc_dests = [], xc_copies = []\<rparr>" SendBuf 0 "\<lambda>bs n. ([], -1)"]
    by (simp add: k_def [symmetric] frame_room_def PACK_HEAD_LEN_def)
qed

end
