(* ===== verification/Inifile.thy ===== *)
theory Inifile
  imports Cstr "HOL-Library.Sublist"
begin

text \<open>
  client/inifile.c: reading and writing values of an initialization file. A file is its text, None when it
  cannot be opened; the buffers have 16384 bytes, and behind the text they hold zeros. The loops that
  scan over characters are takeWhile; the loops over lines and sections are functions on the index.
\<close>

definition MAX_FILE_SIZE :: nat where "MAX_FILE_SIZE = 1024 * 16"

definition NUL :: char where "NUL = CHR 0x00"

definition char_at :: "string \<Rightarrow> nat \<Rightarrow> char" where
  "char_at p i = (if i < length p then p ! i else NUL)"

definition cstring :: "string \<Rightarrow> string" where
  "cstring x = takeWhile (\<lambda>c. c \<noteq> NUL) x"

definition strncmp_eq :: "string \<Rightarrow> string \<Rightarrow> nat \<Rightarrow> bool" where
  "strncmp_eq a b n \<longleftrightarrow> take n (cstring a) = take n (cstring b)"

definition newline :: "char \<Rightarrow> bool" where
  "newline c \<longleftrightarrow> c = CHR 0x0A \<or> c = CHR 0x0D"

definition space :: "char \<Rightarrow> bool" where
  "space c \<longleftrightarrow> c = CHR '' '' \<or> c = CHR 0x09 \<or> c = CHR 0x0A \<or> c = CHR 0x0B \<or> c = CHR 0x0C \<or> c = CHR 0x0D"

text \<open>The end of the file is compared as a char: a byte 255 ends the text as well. None is the failure
  of an assertion; the second case of the result tells whether the file could be opened.\<close>

definition load_ini_file :: "string option \<Rightarrow> (bool \<times> string) option" where
  "load_ini_file f =
     (case f of
        None \<Rightarrow> Some (False, [])
      | Some x \<Rightarrow> (let t = takeWhile (\<lambda>c. c \<noteq> CHR 0xFF) x in if length t < MAX_FILE_SIZE then Some (True, t) else None))"

subsection \<open>Searching\<close>

definition find_brace :: "string \<Rightarrow> nat \<Rightarrow> nat" where
  "find_brace p i = i + 1 + length (takeWhile (\<lambda>c. c \<noteq> CHR '']'' \<and> c \<noteq> NUL) (drop (i + 1) p))"

definition skip_space :: "string \<Rightarrow> nat \<Rightarrow> nat" where
  "skip_space p i = i + length (takeWhile space (drop i p))"

definition line_end :: "string \<Rightarrow> nat \<Rightarrow> nat" where
  "line_end p i = i + length (takeWhile (\<lambda>c. \<not> newline c \<and> c \<noteq> NUL) (drop i p))"

text \<open>The position of the first = of the line from i to e, when what is before it compares equal to the key.\<close>

definition key_in_line :: "string \<Rightarrow> string \<Rightarrow> nat \<Rightarrow> nat \<Rightarrow> nat option" where
  "key_in_line p key i e =
     (let ln = take (e - i) (drop i p); n = length (takeWhile (\<lambda>c. c \<noteq> CHR ''='') ln)
      in if char_at p i = CHR '';'' then None
         else if 0 < n \<and> n < length ln \<and> strncmp_eq key (drop i p) n then Some (i + n)
         else None)"

text \<open>The lines of a section: the line's start, the place of = and its end, or where the section ends.\<close>

function sec_lines :: "string \<Rightarrow> string \<Rightarrow> nat \<Rightarrow> nat + nat \<times> nat \<times> nat" where
  "sec_lines p key i =
     (if newline (char_at p (i - 1)) \<and> char_at p i = CHR ''['' \<or> char_at p i = NUL then Inl i
      else (let e = line_end p i
            in case key_in_line p key i e of
                 Some j \<Rightarrow> Inr (i, j, e)
               | None \<Rightarrow> sec_lines p key (e + 1)))"
  by auto
termination
  by (relation "measure (\<lambda>(p, key, i). length p - i)") (auto simp: char_at_def line_end_def split: if_splits)

declare sec_lines.simps [simp del]

record ini_pos =
  ip_sec_s :: int
  ip_sec_e :: int
  ip_key_s :: int
  ip_key_e :: int
  ip_value_s :: int
  ip_value_e :: int

definition no_pos :: ini_pos where
  "no_pos = \<lparr>ip_sec_s = -1, ip_sec_e = -1, ip_key_s = -1, ip_key_e = -1, ip_value_s = -1, ip_value_e = -1\<rparr>"

lemma sec_lines_ge: "sec_lines p key i = Inl j \<Longrightarrow> i \<le> j"
proof (induction p key i rule: sec_lines.induct)
  case (1 p key i)
  show ?case
  proof (cases "newline (char_at p (i - 1)) \<and> char_at p i = CHR ''['' \<or> char_at p i = NUL")
    case True
    then show ?thesis using "1.prems" by (simp add: sec_lines.simps [of p key i])
  next
    case False
    have "i \<le> line_end p i" by (simp add: line_end_def)
    with False 1 show ?thesis
      by (auto simp: sec_lines.simps [of p key i] Let_def split: if_splits option.splits)
  qed
qed

function parse_from :: "string \<Rightarrow> string \<Rightarrow> string \<Rightarrow> nat \<Rightarrow> ini_pos \<Rightarrow> bool \<times> ini_pos" where
  "parse_from p sec key i r =
     (if char_at p i = NUL then (False, r)
      else if (i = 0 \<or> newline (char_at p (i - 1))) \<and> char_at p i = CHR ''[''
      then (let b = find_brace p i
            in if strncmp_eq (drop (i + 1) p) sec (b - (i + 1))
               then (let s = skip_space p (b + 1); r1 = r\<lparr>ip_sec_s := int (i + 1), ip_sec_e := int s\<rparr>
                     in case sec_lines p key s of
                          Inr (k, j, e) \<Rightarrow> (True, r1\<lparr>ip_key_s := int k, ip_key_e := int j - 1, ip_value_s := int j + 1, ip_value_e := int e\<rparr>)
                        | Inl j \<Rightarrow> parse_from p sec key j r1)
               else parse_from p sec key b r)
      else parse_from p sec key (i + 1) r)"
  by auto
termination
  by (relation "measure (\<lambda>(p, sec, key, i, r). length p - i)")
    (auto simp: char_at_def find_brace_def skip_space_def dest!: sec_lines_ge split: if_splits)

declare parse_from.simps [simp del]

definition parse_file :: "string \<Rightarrow> string \<Rightarrow> string \<Rightarrow> bool \<times> ini_pos" where
  "parse_file sec key buf = parse_from buf sec key 0 no_pos"

subsection \<open>Reading\<close>

text \<open>The result and what is left in the buffer: None when it is not written. An empty section or key, or
  no room for the value, fails an assertion.\<close>

definition read_profile_string :: "string \<Rightarrow> string \<Rightarrow> nat \<Rightarrow> string option \<Rightarrow> string option \<Rightarrow> (int \<times> string option) option" where
  "read_profile_string sec key n dflt f =
     do { ensure (sec \<noteq> [] \<and> key \<noteq> [] \<and> 0 < n);
          (opened, buf) \<leftarrow> load_ini_file f;
          let (found, r) = parse_file sec key buf;
          let dv = map_option (take n) dflt;
          Some (if \<not> opened \<or> \<not> found then (0, dv)
                else (1, Some (take (min (n - 1) (nat (ip_value_e r - ip_value_s r))) (drop (nat (ip_value_s r)) buf)))) }"

definition read_profile_int :: "string \<Rightarrow> string \<Rightarrow> int \<Rightarrow> string option \<Rightarrow> int option" where
  "read_profile_int sec key dflt f =
     do { (ret, v) \<leftarrow> read_profile_string sec key 32 None f;
          Some (if ret = 0 then dflt else case v of None \<Rightarrow> 0 | Some x \<Rightarrow> atoi x) }"

subsection \<open>Writing\<close>

text \<open>The text with the new value. The rest of a section that gets a new key is the format of a sprintf,
  whose only argument is a number: a text with a percent sign is left out, as None.\<close>

definition new_text :: "string \<Rightarrow> string \<Rightarrow> string \<Rightarrow> string \<Rightarrow> ini_pos \<Rightarrow> string option" where
  "new_text sec key val buf r =
     (let entry = key @ ''='' @ val @ [CHR 0x0A]
      in if ip_sec_s r = -1
         then Some ((if buf = [] then [] else buf @ [CHR 0x0A]) @ ''['' @ sec @ '']'' @ [CHR 0x0A] @ entry)
         else if ip_key_s r = -1
         then (let rest = cstring (drop (nat (ip_sec_e r)) buf)
               in if CHR ''%'' \<in> set rest then None else Some (take (nat (ip_sec_e r)) buf @ entry @ rest))
         else Some (take (nat (ip_value_s r)) buf @ val @ drop (nat (ip_value_e r)) buf))"

text \<open>The text is written up to its first zero. ok: the file can be opened for writing.\<close>

definition write_profile_string :: "bool \<Rightarrow> string \<Rightarrow> string \<Rightarrow> string \<Rightarrow> string option \<Rightarrow> (int \<times> string option) option" where
  "write_profile_string ok sec key val f =
     do { ensure (sec \<noteq> [] \<and> key \<noteq> []);
          (opened, buf) \<leftarrow> load_ini_file f;
          w \<leftarrow> new_text sec key val buf (if opened then snd (parse_file sec key buf) else no_pos);
          ensure (length w < MAX_FILE_SIZE);
          Some (if ok then (1, Some (cstring w)) else (0, f)) }"

end
