(* ===== verification/Inifile_Props.thy ===== *)
theory Inifile_Props
  imports Inifile
begin

text \<open>
  What the functions of client/inifile.c do on files of sections with entries, as they write them
  themselves: reading is looking up, writing is updating, and the value written is the one read. Names
  are compared as far as the file's go, so this is said of names that no name in the file is a proper
  prefix of.
\<close>

subsection \<open>Files\<close>

type_synonym ini = "(string \<times> (string \<times> string) list) list"

definition print_entry :: "string \<times> string \<Rightarrow> string" where
  "print_entry kv = fst kv @ ''='' @ snd kv @ [CHR 0x0A]"

definition print_entries :: "(string \<times> string) list \<Rightarrow> string" where
  "print_entries kvs = concat (map print_entry kvs)"

definition print_sec :: "string \<times> (string \<times> string) list \<Rightarrow> string" where
  "print_sec s = ''['' @ fst s @ '']'' @ [CHR 0x0A] @ print_entries (snd s)"

text \<open>An empty line before each section but the first.\<close>

fun print_ini :: "ini \<Rightarrow> string" where
  "print_ini [] = []"
| "print_ini [s] = print_sec s"
| "print_ini (s # t # ss) = print_sec s @ [CHR 0x0A] @ print_ini (t # ss)"

definition ini_get :: "ini \<Rightarrow> string \<Rightarrow> string \<Rightarrow> string option" where
  "ini_get ss sec key = (case map_of ss sec of None \<Rightarrow> None | Some kvs \<Rightarrow> map_of kvs key)"



subsection \<open>Well-formed names\<close>

definition name_ok :: "string \<Rightarrow> bool" where
  "name_ok s \<longleftrightarrow> s \<noteq> [] \<and> NUL \<notin> set s \<and> CHR '']'' \<notin> set s"

definition key_ok :: "string \<Rightarrow> bool" where
  "key_ok k \<longleftrightarrow> k \<noteq> [] \<and> NUL \<notin> set k \<and> CHR ''='' \<notin> set k \<and> list_all (\<lambda>c. \<not> newline c) k
     \<and> \<not> space (hd k) \<and> hd k \<noteq> CHR '';'' \<and> hd k \<noteq> CHR ''[''"

definition value_ok :: "string \<Rightarrow> bool" where
  "value_ok v \<longleftrightarrow> NUL \<notin> set v \<and> list_all (\<lambda>c. \<not> newline c) v"

definition entries_ok :: "string \<Rightarrow> (string \<times> string) list \<Rightarrow> bool" where
  "entries_ok key kvs \<longleftrightarrow> (\<forall>(k, v) \<in> set kvs. key_ok k \<and> value_ok v \<and> (prefix k key \<longrightarrow> k = key))"

definition ini_ok :: "string \<Rightarrow> string \<Rightarrow> ini \<Rightarrow> bool" where
  "ini_ok sec key ss \<longleftrightarrow> distinct (map fst ss)
     \<and> (\<forall>(s, kvs) \<in> set ss. name_ok s \<and> kvs \<noteq> [] \<and> entries_ok key kvs \<and> (prefix s sec \<longrightarrow> s = sec))"

subsection \<open>Scanning\<close>

lemma char_at_append [simp]: "char_at (pre @ rest) (length pre) = (case rest of [] \<Rightarrow> NUL | c # _ \<Rightarrow> c)"
  by (cases rest) (simp_all add: char_at_def)

lemma char_at_here: "i = length pre \<Longrightarrow> char_at (pre @ rest) i = (case rest of [] \<Rightarrow> NUL | c # _ \<Rightarrow> c)"
  by simp

lemma char_at_prev: "pre \<noteq> [] \<Longrightarrow> char_at (pre @ rest) (length pre - 1) = last pre"
  by (cases pre rule: rev_cases) (simp_all add: char_at_def nth_append)

lemma takeWhile_stop: "\<forall>c \<in> set xs. P c \<Longrightarrow> \<not> P y \<Longrightarrow> takeWhile P (xs @ y # ys) = xs"
  by (induction xs) simp_all

lemma cstring_id: "NUL \<notin> set x \<Longrightarrow> cstring x = x"
  by (simp add: cstring_def) (metis takeWhile_eq_all_conv)

text \<open>A name of the file, up to its end, compares equal to a string that it is a prefix of.\<close>

lemma strncmp_name:
  assumes "NUL \<notin> set a" and "NUL \<notin> set b"
  shows "strncmp_eq (a @ rest) b (length a) \<longleftrightarrow> prefix a b"
proof -
  have "take (length a) (cstring (a @ rest)) = a"
    using assms(1) unfolding cstring_def by (induction a) auto
  moreover have "cstring b = b" by (rule cstring_id [OF assms(2)])
  ultimately have "strncmp_eq (a @ rest) b (length a) \<longleftrightarrow> take (length a) b = a" by (auto simp: strncmp_eq_def)
  also have "\<dots> \<longleftrightarrow> prefix a b" by (metis append_eq_conv_conj append_take_drop_id prefix_def)
  finally show ?thesis .
qed

lemma strncmp_name': "NUL \<notin> set a \<Longrightarrow> NUL \<notin> set b \<Longrightarrow> strncmp_eq b (a @ rest) (length a) \<longleftrightarrow> prefix a b"
  using strncmp_name [of a b rest] by (auto simp: strncmp_eq_def)

subsection \<open>The entries of a section\<close>

lemma entry_line:
  assumes "key_ok k" and "value_ok v"
  shows "line_end (pre @ print_entry (k, v) @ rest) (length pre) = length pre + length k + 1 + length v"
    and "NUL \<notin> set key \<Longrightarrow> key_in_line (pre @ print_entry (k, v) @ rest) key (length pre) (length pre + length k + 1 + length v)
      = (if prefix k key then Some (length pre + length k) else None)"
proof -
  have nl: "\<forall>c \<in> set (k @ ''='' @ v). \<not> newline c \<and> c \<noteq> NUL"
    using assms by (auto simp: key_ok_def value_ok_def list_all_iff newline_def NUL_def)
  have "takeWhile (\<lambda>c. \<not> newline c \<and> c \<noteq> NUL) ((k @ ''='' @ v) @ CHR 0x0A # rest) = k @ ''='' @ v"
    by (rule takeWhile_stop [OF nl]) (simp add: newline_def)
  then show "line_end (pre @ print_entry (k, v) @ rest) (length pre) = length pre + length k + 1 + length v"
    by (simp add: line_end_def print_entry_def)
  assume key: "NUL \<notin> set key"
  let ?p = "pre @ print_entry (k, v) @ rest"
  have n: "takeWhile (\<lambda>c. c \<noteq> CHR ''='') (k @ CHR ''='' # v) = k"
    by (rule takeWhile_stop) (use assms(1) in \<open>auto simp: key_ok_def\<close>)
  have k: "k \<noteq> []" "hd k \<noteq> CHR '';''" "NUL \<notin> set k" using assms(1) by (simp_all add: key_ok_def)
  have hd: "char_at ?p (length pre) = hd k"
    using k(1) by (cases k) (simp_all add: print_entry_def)
  have d: "drop (length pre) ?p = k @ ''='' @ v @ [CHR 0x0A] @ rest" by (simp add: print_entry_def)
  have ln: "take (length pre + length k + 1 + length v - length pre) (k @ ''='' @ v @ [CHR 0x0A] @ rest) = k @ CHR ''='' # v" by simp
  have cmp: "strncmp_eq key (k @ ''='' @ v @ [CHR 0x0A] @ rest) (length k) \<longleftrightarrow> prefix k key"
    by (rule strncmp_name' [OF k(3) key])
  show "key_in_line ?p key (length pre) (length pre + length k + 1 + length v)
      = (if prefix k key then Some (length pre + length k) else None)"
    using k(1,2) unfolding key_in_line_def Let_def d ln n hd cmp by simp
qed

lemma print_entries_simps [simp]:
  "print_entries [] = []" "print_entries (kv # kvs) = print_entry kv @ print_entries kvs"
  "print_entries (kvs @ kvs') = print_entries kvs @ print_entries kvs'"
  by (simp_all add: print_entries_def)

lemma sec_lines_entry:
  assumes "key_ok k" and "value_ok v" and "NUL \<notin> set key"
  shows "sec_lines (pre @ print_entry (k, v) @ rest) key (length pre)
    = (if prefix k key then Inr (length pre, length pre + length k, length pre + length k + 1 + length v)
       else sec_lines (pre @ print_entry (k, v) @ rest) key (length (pre @ print_entry (k, v))))"
proof -
  have "char_at (pre @ print_entry (k, v) @ rest) (length pre) = hd k" "hd k \<noteq> CHR ''[''" "hd k \<noteq> NUL"
    using assms(1) by (cases k; auto simp: print_entry_def key_ok_def)+
  moreover have len: "length (pre @ print_entry (k, v)) = length pre + length k + 1 + length v + 1" by (simp add: print_entry_def)
  ultimately show ?thesis
    unfolding len
    using entry_line(1) [OF assms(1,2), of pre rest] entry_line(2) [OF assms, of pre rest]
    by (subst sec_lines.simps) (simp add: Let_def)
qed

lemma sec_lines_skip:
  assumes "\<forall>(k, v) \<in> set kvs. key_ok k \<and> value_ok v \<and> \<not> prefix k key" and "NUL \<notin> set key"
  shows "sec_lines (pre @ print_entries kvs @ rest) key (length pre)
    = sec_lines (pre @ print_entries kvs @ rest) key (length (pre @ print_entries kvs))"
  using assms
proof (induction kvs arbitrary: pre)
  case (Cons kv kvs)
  obtain k v where kv: "kv = (k, v)" by (cases kv)
  show ?case
    using sec_lines_entry [of k v key pre "print_entries kvs @ rest"] Cons.IH [of "pre @ print_entry kv"] Cons.prems
    by (simp add: kv)
qed simp

lemma sec_lines_end: "sec_lines p key (length p) = Inl (length p)"
  by (simp add: sec_lines.simps [of p] char_at_def)

lemma sec_lines_next:
  "sec_lines (pre @ CHR 0x0A # CHR ''['' # rest) key (length pre) = Inl (length pre + 1)"
proof -
  let ?p = "pre @ CHR 0x0A # CHR ''['' # rest"
  have c: "char_at ?p (length pre) = CHR 0x0A" by simp
  have e: "line_end ?p (length pre) = length pre" by (simp add: line_end_def newline_def)
  have k: "key_in_line ?p key (length pre) (length pre) = None" by (simp add: key_in_line_def Let_def)
  have "sec_lines ?p key (length pre + 1) = Inl (length pre + 1)"
    by (subst sec_lines.simps) (simp add: newline_def char_at_def nth_append)
  then show ?thesis using c e k by (subst sec_lines.simps) (simp add: Let_def NUL_def)
qed

subsection \<open>Sections\<close>

text \<open>Text behind the character c in which no line starts with a bracket.\<close>

fun plain :: "char \<Rightarrow> string \<Rightarrow> bool" where
  "plain c [] \<longleftrightarrow> True"
| "plain c (x # xs) \<longleftrightarrow> x \<noteq> NUL \<and> \<not> (newline c \<and> x = CHR ''['') \<and> plain x xs"

lemma parse_plain:
  assumes "plain c seg" and "pre \<noteq> []" and "c = last pre"
  shows "parse_from (pre @ seg @ rest) sec key (length pre) r = parse_from (pre @ seg @ rest) sec key (length (pre @ seg)) r"
  using assms
proof (induction seg arbitrary: pre c)
  case (Cons x xs)
  have "char_at (pre @ (x # xs) @ rest) (length pre) = x" "char_at (pre @ (x # xs) @ rest) (length pre - 1) = c"
    using Cons.prems(2,3) char_at_prev [of pre "(x # xs) @ rest"] by simp_all
  then have "parse_from (pre @ (x # xs) @ rest) sec key (length pre) r = parse_from (pre @ (x # xs) @ rest) sec key (length pre + 1) r"
    using Cons.prems(1,2) by (subst parse_from.simps) auto
  then show ?case using Cons.IH [of x "pre @ [x]"] Cons.prems by simp
qed simp

lemma plain_append: "plain c (xs @ ys) \<longleftrightarrow> plain c xs \<and> plain (if xs = [] then c else last xs) ys"
  by (induction xs arbitrary: c) auto

lemma plain_line: "NUL \<notin> set xs \<Longrightarrow> list_all (\<lambda>c. \<not> newline c) xs \<Longrightarrow> \<not> newline c \<Longrightarrow> plain c xs"
  by (induction xs arbitrary: c) auto

lemma plain_entry: "key_ok k \<Longrightarrow> value_ok v \<Longrightarrow> plain c (print_entry (k, v))"
proof -
  assume k: "key_ok k" and v: "value_ok v"
  then obtain x xs where x: "k = x # xs" by (cases k) (auto simp: key_ok_def)
  have "plain x (xs @ ''='' @ v @ [CHR 0x0A])"
    using k v by (auto simp: x plain_append key_ok_def value_ok_def newline_def NUL_def intro!: plain_line)
  then show ?thesis using k by (auto simp: x print_entry_def key_ok_def)
qed

lemma plain_entries: "\<forall>(k, v) \<in> set kvs. key_ok k \<and> value_ok v \<Longrightarrow> plain c (print_entries kvs)"
  by (induction kvs arbitrary: c) (auto simp: plain_append plain_entry)

definition at_line :: "string \<Rightarrow> bool" where
  "at_line pre \<longleftrightarrow> pre = [] \<or> newline (last pre)"

lemma bracket_at_line:
  assumes "at_line pre" and "name_ok s"
  shows "char_at (pre @ ''['' @ s @ rest) (length pre) = CHR ''[''"
    and "length pre = 0 \<or> newline (char_at (pre @ ''['' @ s @ rest) (length pre - 1))"
    and "find_brace (pre @ ''['' @ s @ '']'' @ rest) (length pre) = length (pre @ ''['' @ s)"
proof -
  show "char_at (pre @ ''['' @ s @ rest) (length pre) = CHR ''[''" by simp
  show "length pre = 0 \<or> newline (char_at (pre @ ''['' @ s @ rest) (length pre - 1))"
    using assms(1) char_at_prev [of pre "''['' @ s @ rest"] by (cases "pre = []") (simp_all add: at_line_def)
  have "takeWhile (\<lambda>c. c \<noteq> CHR '']'' \<and> c \<noteq> NUL) (s @ CHR '']'' # rest) = s"
    by (rule takeWhile_stop) (use assms(2) in \<open>auto simp: name_ok_def\<close>)
  then show "find_brace (pre @ ''['' @ s @ '']'' @ rest) (length pre) = length (pre @ ''['' @ s)"
    by (simp add: find_brace_def)
qed

lemma parse_head:
  assumes "at_line pre" and "name_ok s" and "NUL \<notin> set sec"
  shows "parse_from (pre @ ''['' @ s @ '']'' @ rest) sec key (length pre) r
    = (if prefix s sec
       then (let p = pre @ ''['' @ s @ '']'' @ rest; b = length (pre @ ''['' @ s); k = skip_space p (b + 1);
                 r1 = r\<lparr>ip_sec_s := int (length pre + 1), ip_sec_e := int k\<rparr>
             in case sec_lines p key k of
                  Inr (l, j, e) \<Rightarrow> (True, r1\<lparr>ip_key_s := int l, ip_key_e := int j - 1, ip_value_s := int j + 1, ip_value_e := int e\<rparr>)
                | Inl j \<Rightarrow> parse_from p sec key j r1)
       else parse_from (pre @ ''['' @ s @ '']'' @ rest) sec key (length (pre @ ''['' @ s)) r)"
proof -
  let ?p = "pre @ ''['' @ s @ '']'' @ rest"
  have c: "char_at ?p (length pre) = CHR ''[''" "length pre = 0 \<or> newline (char_at ?p (length pre - 1))"
    "find_brace ?p (length pre) = length (pre @ ''['' @ s)"
    using bracket_at_line [OF assms(1,2), of "'']'' @ rest"] bracket_at_line(3) [OF assms(1,2), of rest] by simp_all
  have n: "length (pre @ ''['' @ s) - (length pre + 1) = length s" by simp
  have d: "drop (length pre + 1) ?p = s @ '']'' @ rest" by simp
  have m: "strncmp_eq (s @ '']'' @ rest) sec (length s) \<longleftrightarrow> prefix s sec"
    by (rule strncmp_name) (use assms(2,3) in \<open>simp_all add: name_ok_def\<close>)
  have N: "CHR ''['' \<noteq> NUL" by (simp add: NUL_def)
  show ?thesis
    by (subst parse_from.simps) (simp only: c n d m N Let_def simp_thms if_False if_True split: if_split)
qed

lemma print_sec_split: "pre @ print_sec (s, kvs) @ rest = (pre @ ''['' @ s) @ ('']'' @ [CHR 0x0A] @ print_entries kvs) @ rest"
  by (simp add: print_sec_def)

lemma plain_body:
  "\<forall>(k, v) \<in> set kvs. key_ok k \<and> value_ok v \<Longrightarrow> plain c ('']'' @ [CHR 0x0A] @ print_entries kvs)"
  using plain_entries [of kvs "CHR 0x0A"] by (simp add: NUL_def)

lemma parse_skip_section:
  assumes "at_line pre" and "name_ok s" and "NUL \<notin> set sec" and "\<not> prefix s sec" and "\<forall>(k, v) \<in> set kvs. key_ok k \<and> value_ok v"
  shows "parse_from (pre @ print_sec (s, kvs) @ rest) sec key (length pre) r
    = parse_from (pre @ print_sec (s, kvs) @ rest) sec key (length (pre @ print_sec (s, kvs))) r"
proof -
  let ?seg = "'']'' @ [CHR 0x0A] @ print_entries kvs"
  have "parse_from (pre @ print_sec (s, kvs) @ rest) sec key (length pre) r
      = parse_from (pre @ print_sec (s, kvs) @ rest) sec key (length (pre @ ''['' @ s)) r"
    using parse_head [OF assms(1-3), of "[CHR 0x0A] @ print_entries kvs @ rest"] assms(4) by (simp add: print_sec_def)
  also have "\<dots> = parse_from ((pre @ ''['' @ s) @ ?seg @ rest) sec key (length (pre @ ''['' @ s)) r"
    unfolding print_sec_split ..
  also have "\<dots> = parse_from ((pre @ ''['' @ s) @ ?seg @ rest) sec key (length ((pre @ ''['' @ s) @ ?seg)) r"
    by (rule parse_plain [OF plain_body [OF assms(5)]]) simp_all
  also have "\<dots> = parse_from (pre @ print_sec (s, kvs) @ rest) sec key (length (pre @ print_sec (s, kvs))) r"
    by (simp add: print_sec_def)
  finally show ?thesis .
qed

text \<open>A section that is not the one looked for, by name.\<close>

definition other_sec :: "string \<Rightarrow> string \<times> (string \<times> string) list \<Rightarrow> bool" where
  "other_sec sec s \<longleftrightarrow> name_ok (fst s) \<and> (\<forall>(k, v) \<in> set (snd s). key_ok k \<and> value_ok v) \<and> \<not> prefix (fst s) sec"

definition heads :: "ini \<Rightarrow> string" where
  "heads ss = concat (map (\<lambda>s. print_sec s @ [CHR 0x0A]) ss)"

definition tails :: "ini \<Rightarrow> string" where
  "tails ss = concat (map (\<lambda>s. CHR 0x0A # print_sec s) ss)"

lemma print_ini_Cons: "print_ini (s # ss) = print_sec s @ tails ss"
  by (induction ss arbitrary: s) (simp_all add: tails_def)

lemma print_ini_next: "ss \<noteq> [] \<Longrightarrow> print_ini (s # ss) = print_sec s @ [CHR 0x0A] @ print_ini ss"
  by (cases ss) simp_all

lemma print_ini_split: "print_ini (ss1 @ s # ss2) = heads ss1 @ print_sec s @ tails ss2"
  by (induction ss1) (simp_all add: heads_def print_ini_Cons [of s ss2] print_ini_next)

lemma parse_newline:
  "pre \<noteq> [] \<Longrightarrow> parse_from (pre @ CHR 0x0A # rest) sec key (length pre) r = parse_from (pre @ CHR 0x0A # rest) sec key (length (pre @ [CHR 0x0A])) r"
  using parse_plain [of "last pre" "[CHR 0x0A]" pre rest sec key r] by (simp add: NUL_def)

lemma parse_end: "parse_from p sec key (length p) r = (False, r)"
  by (subst parse_from.simps) (simp add: char_at_def)

lemma print_sec_ne [simp]: "print_sec s \<noteq> []"
  by (simp add: print_sec_def)

lemma at_line_heads: "at_line (heads ss)"
  by (cases ss rule: rev_cases) (simp_all add: at_line_def heads_def newline_def)

lemma parse_heads:
  assumes "\<forall>s \<in> set ss. other_sec sec s" and "NUL \<notin> set sec"
  shows "parse_from (heads ss @ rest) sec key 0 r = parse_from (heads ss @ rest) sec key (length (heads ss)) r"
  using assms(1)
proof (induction ss arbitrary: rest rule: rev_induct)
  case Nil
  then show ?case by (simp add: heads_def)
next
  case (snoc s ss)
  have h: "heads (ss @ [s]) = heads ss @ print_sec s @ [CHR 0x0A]" by (simp add: heads_def)
  have "parse_from (heads ss @ print_sec s @ CHR 0x0A # rest) sec key 0 r
      = parse_from (heads ss @ print_sec s @ CHR 0x0A # rest) sec key (length (heads ss)) r"
    using snoc.IH [of "print_sec s @ CHR 0x0A # rest"] snoc.prems by simp
  also have "\<dots> = parse_from (heads ss @ print_sec s @ CHR 0x0A # rest) sec key (length (heads ss @ print_sec s)) r"
    using parse_skip_section [OF at_line_heads _ assms(2), of "fst s" "snd s"] snoc.prems by (simp add: other_sec_def)
  also have "\<dots> = parse_from (heads ss @ print_sec s @ CHR 0x0A # rest) sec key (length (heads (ss @ [s]))) r"
    using parse_newline [of "heads ss @ print_sec s" rest sec key r] by (simp add: h)
  finally show ?case by (simp add: h)
qed

lemma parse_rest:
  assumes "\<forall>s \<in> set (s # ss). other_sec sec s" and "NUL \<notin> set sec" and "at_line pre"
  shows "parse_from (pre @ print_sec s @ tails ss) sec key (length pre) r = (False, r)"
  using assms(1,3)
proof (induction ss arbitrary: s pre)
  case Nil
  then show ?case
    using parse_skip_section [OF Nil(2) _ assms(2), of "fst s" "snd s" "[]" key r] parse_end [of "pre @ print_sec s"]
    by (simp add: other_sec_def tails_def)
next
  case (Cons t ss)
  have "parse_from (pre @ print_sec s @ tails (t # ss)) sec key (length pre) r
      = parse_from (pre @ print_sec s @ tails (t # ss)) sec key (length (pre @ print_sec s)) r"
    using parse_skip_section [OF Cons.prems(2) _ assms(2), of "fst s" "snd s"] Cons.prems(1) by (simp add: other_sec_def)
  also have "\<dots> = parse_from ((pre @ print_sec s @ [CHR 0x0A]) @ print_sec t @ tails ss) sec key (length (pre @ print_sec s @ [CHR 0x0A])) r"
    using parse_newline [of "pre @ print_sec s" "print_sec t @ tails ss" sec key r] by (simp add: tails_def)
  also have "\<dots> = (False, r)"
    by (rule Cons.IH) (use Cons.prems(1) in \<open>simp_all add: at_line_def newline_def\<close>)
  finally show ?case .
qed

subsection \<open>Where a value is\<close>

lemma parse_no_section:
  assumes "\<forall>s \<in> set ss. other_sec sec s" and "NUL \<notin> set sec"
  shows "parse_file sec key (print_ini ss) = (False, no_pos)"
proof (cases ss)
  case Nil
  then show ?thesis using parse_end [of "[]"] by (simp add: parse_file_def)
next
  case (Cons s ss')
  then show ?thesis
    using parse_rest [of s ss' sec "[]" key no_pos] assms by (simp add: parse_file_def print_ini_Cons at_line_def)
qed

definition sec_head :: "ini \<Rightarrow> string \<Rightarrow> string" where
  "sec_head ss sec = heads ss @ ''['' @ sec @ '']'' @ [CHR 0x0A]"

definition sec_pos :: "ini \<Rightarrow> string \<Rightarrow> ini_pos" where
  "sec_pos ss sec = no_pos\<lparr>ip_sec_s := int (length (heads ss) + 1), ip_sec_e := int (length (sec_head ss sec))\<rparr>"

lemma parse_at_section:
  assumes "\<forall>s \<in> set ss1. other_sec sec s" and "name_ok sec" and "kvs \<noteq> []" and "key_ok (fst (hd kvs))"
  shows "parse_file sec key (heads ss1 @ print_sec (sec, kvs) @ rest)
    = (let p = sec_head ss1 sec @ print_entries kvs @ rest; r1 = sec_pos ss1 sec
       in case sec_lines p key (length (sec_head ss1 sec)) of
            Inr (l, j, e) \<Rightarrow> (True, r1\<lparr>ip_key_s := int l, ip_key_e := int j - 1, ip_value_s := int j + 1, ip_value_e := int e\<rparr>)
          | Inl j \<Rightarrow> parse_from p sec key j r1)"
proof -
  let ?h = "heads ss1" and ?p = "sec_head ss1 sec @ print_entries kvs @ rest"
  have sec: "NUL \<notin> set sec" using assms(2) by (simp add: name_ok_def)
  have p: "?h @ print_sec (sec, kvs) @ rest = ?p" "?h @ ''['' @ sec @ '']'' @ [CHR 0x0A] @ print_entries kvs @ rest = ?p"
    by (simp_all add: print_sec_def sec_head_def)
  obtain kv kvs' where kvs: "kvs = kv # kvs'" using assms(3) by (cases kvs) auto
  obtain x xs where x: "fst kv = x # xs" "\<not> space x"
    using assms(4) by (cases "fst kv") (auto simp: kvs key_ok_def)
  have sk: "skip_space ?p (length (?h @ ''['' @ sec) + 1) = length (sec_head ss1 sec)"
    using x by (simp add: skip_space_def sec_head_def kvs print_entry_def space_def)
  have "parse_file sec key (?h @ print_sec (sec, kvs) @ rest) = parse_from ?p sec key (length ?h) no_pos"
    unfolding parse_file_def p(1) [symmetric] by (rule parse_heads [OF assms(1) sec])
  then show ?thesis
    using parse_head [OF at_line_heads assms(2) sec, of ss1 "[CHR 0x0A] @ print_entries kvs @ rest" key no_pos]
    unfolding p Let_def sk sec_pos_def by simp
qed

lemma parse_finds_value:
  assumes "\<forall>s \<in> set ss1. other_sec sec s" and "name_ok sec" and "key_ok key" and "value_ok v"
    and "\<forall>(k, v) \<in> set kvs1. key_ok k \<and> value_ok v \<and> \<not> prefix k key"
  shows "parse_file sec key (heads ss1 @ print_sec (sec, kvs1 @ (key, v) # kvs2) @ rest)
    = (let q = length (sec_head ss1 sec @ print_entries kvs1)
       in (True, (sec_pos ss1 sec)\<lparr>ip_key_s := int q, ip_key_e := int (q + length key) - 1,
             ip_value_s := int (q + length key) + 1, ip_value_e := int (q + length key + 1 + length v)\<rparr>))"
proof -
  have key: "NUL \<notin> set key" using assms(3) by (simp add: key_ok_def)
  have hd: "key_ok (fst (hd (kvs1 @ (key, v) # kvs2)))" using assms(3,5) by (cases kvs1) auto
  have "sec_lines (sec_head ss1 sec @ print_entries (kvs1 @ (key, v) # kvs2) @ rest) key (length (sec_head ss1 sec))
      = sec_lines ((sec_head ss1 sec @ print_entries kvs1) @ print_entry (key, v) @ print_entries kvs2 @ rest) key (length (sec_head ss1 sec @ print_entries kvs1))"
    using sec_lines_skip [OF assms(5) key, of "sec_head ss1 sec" "print_entry (key, v) @ print_entries kvs2 @ rest"] by simp
  then show ?thesis
    using parse_at_section [OF assms(1,2) _ hd, of key rest] sec_lines_entry [OF assms(3,4) key, of "sec_head ss1 sec @ print_entries kvs1" "print_entries kvs2 @ rest"]
    by (simp add: Let_def)
qed

lemma parse_no_key:
  assumes "\<forall>s \<in> set (ss1 @ ss2). other_sec sec s" and "name_ok sec" and "NUL \<notin> set key" and "kvs \<noteq> []"
    and "\<forall>(k, v) \<in> set kvs. key_ok k \<and> value_ok v \<and> \<not> prefix k key"
  shows "parse_file sec key (heads ss1 @ print_sec (sec, kvs) @ tails ss2) = (False, sec_pos ss1 sec)"
proof -
  let ?p = "sec_head ss1 sec @ print_entries kvs"
  have hd: "key_ok (fst (hd kvs))" using assms(4,5) by (cases kvs) auto
  have sec: "NUL \<notin> set sec" using assms(2) by (simp add: name_ok_def)
  have pos: "parse_file sec key (heads ss1 @ print_sec (sec, kvs) @ tails ss2)
    = (case sec_lines (?p @ tails ss2) key (length ?p) of
            Inr (l, j, e) \<Rightarrow> (True, (sec_pos ss1 sec)\<lparr>ip_key_s := int l, ip_key_e := int j - 1, ip_value_s := int j + 1, ip_value_e := int e\<rparr>)
          | Inl j \<Rightarrow> parse_from (sec_head ss1 sec @ print_entries kvs @ tails ss2) sec key j (sec_pos ss1 sec))"
    using parse_at_section [OF _ assms(2,4) hd, of ss1 key "tails ss2"] assms(1)
      sec_lines_skip [OF assms(5,3), of "sec_head ss1 sec" "tails ss2"] by (simp add: Let_def)
  show ?thesis
  proof (cases ss2)
    case Nil
    then show ?thesis using pos sec_lines_end [of ?p key] parse_end [of ?p] by (simp add: tails_def)
  next
    case (Cons s ss)
    have t: "tails ss2 = CHR 0x0A # print_sec s @ tails ss" by (simp add: Cons tails_def)
    obtain rest where b: "print_sec s = CHR ''['' # rest" by (simp add: print_sec_def)
    have "sec_lines (?p @ tails ss2) key (length ?p) = Inl (length ?p + 1)"
      using sec_lines_next [of ?p "rest @ tails ss" key] by (simp add: t b)
    moreover have "parse_from ((?p @ [CHR 0x0A]) @ print_sec s @ tails ss) sec key (length (?p @ [CHR 0x0A])) r = (False, r)" for r
      by (rule parse_rest) (use assms(1) Cons sec in \<open>simp_all add: at_line_def newline_def\<close>)
    ultimately show ?thesis using pos by (simp add: t)
  qed
qed

subsection \<open>Reading is looking up, writing is updating\<close>

lemma map_of_split: "map_of xs k = Some v \<Longrightarrow> \<exists>ys zs. xs = ys @ (k, v) # zs \<and> k \<notin> fst ` set ys"
proof (induction xs)
  case (Cons x xs)
  show ?case
  proof (cases "fst x = k")
    case True
    then show ?thesis using Cons.prems by (intro exI [of _ "[]"] exI [of _ xs]) (cases x, simp)
  next
    case False
    then have "map_of xs k = Some v" using Cons.prems by (cases x) simp
    then obtain ys zs where "xs = ys @ (k, v) # zs" "k \<notin> fst ` set ys" using Cons.IH by blast
    then show ?thesis using False by (intro exI [of _ "x # ys"] exI [of _ zs]) auto
  qed
qed simp

lemma other_secs:
  assumes "ini_ok sec key ss" and "sec \<notin> fst ` set ss'" and "set ss' \<subseteq> set ss"
  shows "\<forall>s \<in> set ss'. other_sec sec s"
proof
  fix s assume s: "s \<in> set ss'"
  obtain n kvs where n: "s = (n, kvs)" by (cases s)
  have "(n, kvs) \<in> set ss" "n \<noteq> sec" using s n assms(2,3) by force+
  then show "other_sec sec s" using assms(1) by (fastforce simp: ini_ok_def other_sec_def entries_ok_def n)
qed

lemma section_split:
  assumes "ini_ok sec key ss" and "map_of ss sec = Some kvs"
  obtains ss1 ss2 where "ss = ss1 @ (sec, kvs) # ss2" "\<forall>s \<in> set (ss1 @ ss2). other_sec sec s" "name_ok sec" "kvs \<noteq> []"
    "entries_ok key kvs" "sec \<notin> fst ` set ss1"
proof -
  obtain ss1 ss2 where ss: "ss = ss1 @ (sec, kvs) # ss2" "sec \<notin> fst ` set ss1" using map_of_split [OF assms(2)] by blast
  have "distinct (map fst ss)" using assms(1) by (simp add: ini_ok_def)
  then have "sec \<notin> fst ` set (ss1 @ ss2)" by (auto simp: ss(1))
  then have "\<forall>s \<in> set (ss1 @ ss2). other_sec sec s" by (rule other_secs [OF assms(1)]) (auto simp: ss(1))
  moreover have "name_ok sec" "kvs \<noteq> []" "entries_ok key kvs" using assms(1) by (auto simp: ini_ok_def ss(1))
  ultimately show thesis by (rule that [OF ss(1) _ _ _ _ ss(2)])
qed

lemma entries_before:
  assumes "entries_ok key kvs" and "key \<notin> fst ` set kvs1" and "set kvs1 \<subseteq> set kvs"
  shows "\<forall>(k, v) \<in> set kvs1. key_ok k \<and> value_ok v \<and> \<not> prefix k key"
proof clarify
  fix k v assume kv: "(k, v) \<in> set kvs1"
  then have "(k, v) \<in> set kvs" "k \<noteq> key" using assms(2,3) by force+
  then show "key_ok k \<and> value_ok v \<and> \<not> prefix k key" using assms(1) by (auto simp: entries_ok_def)
qed

lemma load_ini: "CHR 0xFF \<notin> set x \<Longrightarrow> length x < MAX_FILE_SIZE \<Longrightarrow> load_ini_file (Some x) = Some (True, x)"
proof -
  assume "CHR 0xFF \<notin> set x" "length x < MAX_FILE_SIZE"
  then have "takeWhile (\<lambda>c. c \<noteq> CHR 0xFF) x = x" by (auto simp: takeWhile_eq_all_conv)
  then show ?thesis using \<open>length x < MAX_FILE_SIZE\<close> by (simp only: load_ini_file_def option.case Let_def if_True)
qed

definition file_ok :: "string \<Rightarrow> bool" where
  "file_ok x \<longleftrightarrow> CHR 0xFF \<notin> set x \<and> length x < MAX_FILE_SIZE"

lemma name_ne: "name_ok s \<Longrightarrow> s \<noteq> []" "key_ok k \<Longrightarrow> k \<noteq> []"
  by (simp_all add: name_ok_def key_ok_def)

lemma read_ini:
  assumes "ini_ok sec key ss" and "name_ok sec" and "key_ok key" and "0 < n" and "file_ok (print_ini ss)"
  shows "read_profile_string sec key n dflt (Some (print_ini ss))
    = Some (case ini_get ss sec key of None \<Rightarrow> (0, map_option (take n) dflt) | Some v \<Rightarrow> (1, Some (take (n - 1) v)))"
proof -
  note ne = name_ne(1) [OF assms(2)] name_ne(2) [OF assms(3)]
  have load: "load_ini_file (Some (print_ini ss)) = Some (True, print_ini ss)" using assms(5) by (simp add: load_ini file_ok_def)
  have nul: "NUL \<notin> set sec" "NUL \<notin> set key" using assms(2,3) by (simp_all add: name_ok_def key_ok_def)
  show ?thesis
  proof (cases "map_of ss sec")
    case None
    then have "sec \<notin> fst ` set ss" by (simp add: map_of_eq_None_iff)
    then have "parse_file sec key (print_ini ss) = (False, no_pos)"
      using parse_no_section [OF other_secs [OF assms(1)] nul(1)] by simp
    then show ?thesis using ne assms(4) None by (simp add: read_profile_string_def load ini_get_def)
  next
    case (Some kvs)
    then obtain ss1 ss2 where s: "ss = ss1 @ (sec, kvs) # ss2" "\<forall>s \<in> set (ss1 @ ss2). other_sec sec s" "kvs \<noteq> []" "entries_ok key kvs"
      using section_split [OF assms(1)] by metis
    have p: "print_ini ss = heads ss1 @ print_sec (sec, kvs) @ tails ss2" by (simp add: s(1) print_ini_split)
    show ?thesis
    proof (cases "map_of kvs key")
      case None
      then have "key \<notin> fst ` set kvs" by (simp add: map_of_eq_None_iff)
      then have "parse_file sec key (print_ini ss) = (False, sec_pos ss1 sec)"
        unfolding p by (intro parse_no_key [OF s(2) assms(2) nul(2) s(3)] entries_before [OF s(4)]) simp_all
      then show ?thesis using ne assms(4) Some None by (simp add: read_profile_string_def load ini_get_def)
    next
      case (Some v)
      then obtain kvs1 kvs2 where k: "kvs = kvs1 @ (key, v) # kvs2" "key \<notin> fst ` set kvs1" using map_of_split by metis
      have v: "value_ok v" using s(4) by (auto simp: entries_ok_def k(1))
      have b: "\<forall>(k, v) \<in> set kvs1. key_ok k \<and> value_ok v \<and> \<not> prefix k key"
        by (rule entries_before [OF s(4) k(2)]) (auto simp: k(1))
      have s1: "\<forall>s \<in> set ss1. other_sec sec s" using s(2) by simp
      define A where "A = sec_head ss1 sec @ print_entries kvs1 @ key @ ''=''"
      define B where "B = [CHR 0x0A] @ print_entries kvs2 @ tails ss2"
      have pA: "print_ini ss = A @ v @ B" unfolding p by (simp add: k(1) A_def B_def print_sec_def sec_head_def print_entry_def)
      have f: "parse_file sec key (print_ini ss) = (True, (sec_pos ss1 sec)\<lparr>ip_key_s := int (length A) - int (length key) - 1,
             ip_key_e := int (length A) - 2, ip_value_s := int (length A), ip_value_e := int (length A + length v)\<rparr>)"
        unfolding p k(1) using parse_finds_value [OF s1 assms(2,3) v b] by (simp add: Let_def A_def)
      have "take (min (n - 1) (length v)) (v @ B) = take (n - 1) v" by (simp add: min_def)
      moreover have "drop (length A) (print_ini ss) = v @ B" by (simp add: pA)
      ultimately show ?thesis
        using ne assms(4) Some \<open>map_of ss sec = Some kvs\<close>
        by (simp add: read_profile_string_def load f ini_get_def)
    qed
  qed
qed

















text \<open>
  Reading is looking up: of a file of sections and entries as the program writes them, reading a value
  gives the entry of that key in that section, cut to the room for it, or the default when there is
  none, when no name in the file is a proper prefix of the one looked for.
\<close>

theorem reading_looks_up:
  assumes "ini_ok sec key ss" and "name_ok sec" and "key_ok key" and "0 < n" and "file_ok (print_ini ss)"
  shows "read_profile_string sec key n dflt (Some (print_ini ss))
    = Some (case ini_get ss sec key of None \<Rightarrow> (0, map_option (take n) dflt) | Some v \<Rightarrow> (1, Some (take (n - 1) v)))"
  by (rule read_ini [OF assms])

theorem reading_looks_up_witness:
  "read_profile_string ''net'' ''port'' 8 None (Some (print_ini [(''net'', [(''addr'', ''10.0.0.1''), (''port'', ''80'')])])) = Some (1, Some ''80'')"
proof -
  have "ini_ok ''net'' ''port'' [(''net'', [(''addr'', ''10.0.0.1''), (''port'', ''80'')])]" "name_ok ''net''" "key_ok ''port''"
    by (simp_all add: ini_ok_def entries_ok_def name_ok_def key_ok_def value_ok_def NUL_def newline_def space_def)
  moreover have "file_ok (print_ini [(''net'', [(''addr'', ''10.0.0.1''), (''port'', ''80'')])])"
    by (simp add: file_ok_def print_sec_def print_entry_def MAX_FILE_SIZE_def)
  ultimately show ?thesis
    using reading_looks_up [of "''net''" "''port''" "[(''net'', [(''addr'', ''10.0.0.1''), (''port'', ''80'')])]" 8 None]
    by (simp add: ini_get_def)
qed



text \<open>Names that are prefixes match: an empty section name, and a key that another one starts with.\<close>

lemma prefix_is_read:
  "read_profile_string ''net'' ''port2'' 8 None (Some (''[n]'' @ [CHR 0x0A] @ ''port=80'' @ [CHR 0x0A])) = Some (1, Some ''80'')"
  by code_simp

text \<open>A percent sign behind the section that gets a new key is taken for a conversion.\<close>

lemma percent_faults:
  "write_profile_string True ''net'' ''port'' ''80'' (Some (''[net]'' @ [CHR 0x0A] @ ''load=5%'' @ [CHR 0x0A])) = None"
  by code_simp

end
