(* ===== verification/Threadpool.thy ===== *)
theory Threadpool
  imports Prelude "HOL-Library.Multiset"
begin

text \<open>
  threadpool/threadpool.c: the pool whose threads run the jobs of the server (serv/async.c). The threads
  and the callers of dispatch_threadpool take steps in any order; a step is what one of them does
  between two points at which another can interfere. A thread's own mutex is held by it while it is Saving
  or Saved and by nobody else for longer than a step; the mutex of the pool is held by a caller that
  Holds or Signals, and by a thread within a step. A job is any value. destroy_threadpool, which the
  program does not call, is left out, and with it tp_stop, tp_full and tp_empty.
\<close>

subsection \<open>The state\<close>

text \<open>Where a thread is in wrapper_fn: in the job, before its mutex, before the pool's mutex in save_thread,
  back from it, in the wait for its condition, called back from there, and out of the loop.\<close>

datatype wpc = Running | Locking | Saving | Saved | Waiting | Woken | Leaving

text \<open>Where a caller is in dispatch_threadpool: outside with what it returned, before the mutex, holding
  it, waiting for tp_idle, and before the mutex of the thread it hands the job to.\<close>

datatype 'j dpc = Away int | Wants 'j | Holds 'j | WaitsIdle 'j | Signals nat 'j

record 'j tpool =
  tp_max :: nat
  tp_total :: nat
  tp_idle :: "nat list" \<comment> \<open>tp_list, the entry at tp_index - 1 first\<close>
  tp_mutex :: "nat option" \<comment> \<open>the caller that holds it\<close>
  tp_thr :: "nat \<Rightarrow> wpc option"
  tp_job :: "nat \<Rightarrow> 'j" \<comment> \<open>the fields fn and arg of a thread\<close>
  tp_disp :: "nat \<Rightarrow> 'j dpc"
  tp_given :: "'j multiset" \<comment> \<open>the jobs taken in\<close>
  tp_done :: "'j multiset" \<comment> \<open>the jobs that were run\<close>

definition MAXT_IN_POOL :: int where "MAXT_IN_POOL = 200"

definition create_threadpool :: "int \<Rightarrow> 'j tpool option" where
  "create_threadpool n =
     (if n \<le> 0 \<or> n > MAXT_IN_POOL then None
      else Some \<lparr>tp_max = nat n, tp_total = 0, tp_idle = [], tp_mutex = None, tp_thr = (\<lambda>_. None), tp_job = (\<lambda>_. undefined),
                 tp_disp = (\<lambda>_. Away 0), tp_given = {#}, tp_done = {#}\<rparr>)"

definition set_thr :: "nat \<Rightarrow> wpc \<Rightarrow> 'j tpool \<Rightarrow> 'j tpool" where
  "set_thr t w s = s\<lparr>tp_thr := (tp_thr s)(t := Some w)\<rparr>"

definition set_disp :: "nat \<Rightarrow> 'j dpc \<Rightarrow> 'j tpool \<Rightarrow> 'j tpool" where
  "set_disp d x s = s\<lparr>tp_disp := (tp_disp s)(d := x)\<rparr>"

definition give :: "nat \<Rightarrow> 'j \<Rightarrow> 'j tpool \<Rightarrow> 'j tpool" where
  "give t j s = s\<lparr>tp_job := (tp_job s)(t := j), tp_given := add_mset j (tp_given s)\<rparr>"

definition waits_idle :: "'j tpool \<Rightarrow> nat \<Rightarrow> bool" where
  "waits_idle s d \<longleftrightarrow> (\<exists>j. tp_disp s d = WaitsIdle j)"

text \<open>save_thread under the mutex; the signal of tp_idle wakes one caller that waits, when there is one.\<close>

inductive wake_idle :: "'j tpool \<Rightarrow> 'j tpool \<Rightarrow> bool" where
  nobody: "\<forall>d. \<not> waits_idle s d \<Longrightarrow> wake_idle s s"
| one: "tp_disp s d = WaitsIdle j \<Longrightarrow> wake_idle s (set_disp d (Wants j) s)"

subsection \<open>Steps\<close>

inductive call_step :: "'j tpool \<Rightarrow> 'j tpool \<Rightarrow> bool" where
  "tp_disp s d = Away r \<Longrightarrow> call_step s (set_disp d (Wants j) s)"

text \<open>A wait for a condition may end by itself. That for tp_idle stands in a loop; that of a thread for its own
  condition does not, so the thread goes on as if it had been called.\<close>

inductive spurious_step :: "'j tpool \<Rightarrow> 'j tpool \<Rightarrow> bool" where
  "tp_disp s d = WaitsIdle j \<Longrightarrow> spurious_step s (set_disp d (Wants j) s)"

inductive stray_step :: "'j tpool \<Rightarrow> 'j tpool \<Rightarrow> bool" where
  "tp_thr s t = Some Waiting \<Longrightarrow> stray_step s (set_thr t Woken s)"

text \<open>The steps of dispatch_threadpool.\<close>

inductive disp_step :: "'j tpool \<Rightarrow> 'j tpool \<Rightarrow> bool" where
  lock: "tp_disp s d = Wants j \<Longrightarrow> tp_mutex s = None \<Longrightarrow> disp_step s (set_disp d (Holds j) (s\<lparr>tp_mutex := Some d\<rparr>))"
| block: "tp_disp s d = Holds j \<Longrightarrow> tp_idle s = [] \<Longrightarrow> tp_max s \<le> tp_total s \<Longrightarrow>
    disp_step s (set_disp d (WaitsIdle j) (s\<lparr>tp_mutex := None\<rparr>))"
| create: "tp_disp s d = Holds j \<Longrightarrow> tp_idle s = [] \<Longrightarrow> tp_total s < tp_max s \<Longrightarrow> tp_thr s t = None \<Longrightarrow>
    disp_step s (set_disp d (Away 0) (set_thr t Running (give t j (s\<lparr>tp_mutex := None, tp_total := tp_total s + 1\<rparr>))))"
| no_thread: "tp_disp s d = Holds j \<Longrightarrow> tp_idle s = [] \<Longrightarrow> tp_total s < tp_max s \<Longrightarrow>
    disp_step s (set_disp d (Away (-1)) (s\<lparr>tp_mutex := None\<rparr>))"
| pop: "tp_disp s d = Holds j \<Longrightarrow> tp_idle s = t # ts \<Longrightarrow>
    disp_step s (set_disp d (Signals t j) (give t j (s\<lparr>tp_idle := ts\<rparr>)))"
| signal: "tp_disp s d = Signals t j \<Longrightarrow> tp_thr s t = Some w \<Longrightarrow> w \<noteq> Saving \<Longrightarrow> w \<noteq> Saved \<Longrightarrow>
    disp_step s (set_disp d (Away 0) ((if w = Waiting then set_thr t Woken s else s)\<lparr>tp_mutex := None\<rparr>))"

text \<open>The steps of wrapper_fn, but for a wait that ends by itself, which is stray_step.\<close>

inductive work_step :: "'j tpool \<Rightarrow> 'j tpool \<Rightarrow> bool" where
  run: "tp_thr s t = Some Running \<Longrightarrow> work_step s (set_thr t Locking (s\<lparr>tp_done := add_mset (tp_job s t) (tp_done s)\<rparr>))"
| own: "tp_thr s t = Some Locking \<Longrightarrow> work_step s (set_thr t Saving s)"
| save: "tp_thr s t = Some Saving \<Longrightarrow> tp_mutex s = None \<Longrightarrow> length (tp_idle s) < tp_max s \<Longrightarrow>
    wake_idle (set_thr t Saved (s\<lparr>tp_idle := t # tp_idle s\<rparr>)) s' \<Longrightarrow> work_step s s'"
| full: "tp_thr s t = Some Saving \<Longrightarrow> tp_mutex s = None \<Longrightarrow> tp_max s \<le> length (tp_idle s) \<Longrightarrow>
    work_step s (set_thr t Leaving s)"
| leave: "tp_thr s t = Some Leaving \<Longrightarrow> tp_mutex s = None \<Longrightarrow>
    work_step s (s\<lparr>tp_thr := (tp_thr s)(t := None), tp_total := tp_total s - 1\<rparr>)"
| wait: "tp_thr s t = Some Saved \<Longrightarrow> work_step s (set_thr t Waiting s)"
| go: "tp_thr s t = Some Woken \<Longrightarrow> work_step s (set_thr t Running s)"

text \<open>A step of the pool other than stray_step, which tp_reach counts.\<close>

definition tp_step :: "'j tpool \<Rightarrow> 'j tpool \<Rightarrow> bool" where
  "tp_step s s' \<longleftrightarrow> call_step s s' \<or> spurious_step s s' \<or> disp_step s s' \<or> work_step s s'"

text \<open>The states of a pool of n threads after k waits of threads that ended by themselves.\<close>

inductive tp_reach :: "nat \<Rightarrow> nat \<Rightarrow> 'j tpool \<Rightarrow> bool" for n where
  init: "create_threadpool (int n) = Some s \<Longrightarrow> tp_reach n 0 s"
| step: "tp_reach n k s \<Longrightarrow> tp_step s s' \<Longrightarrow> tp_reach n k s'"
| stray: "tp_reach n k s \<Longrightarrow> stray_step s s' \<Longrightarrow> tp_reach n (Suc k) s'"

inductive_cases call_stepE: "call_step s s'"
inductive_cases spurious_stepE: "spurious_step s s'"
inductive_cases stray_stepE: "stray_step s s'"
inductive_cases wake_idleE: "wake_idle s s'"

subsection \<open>Simplification\<close>

lemma set_simps [simp]:
  "tp_max (set_thr t w s) = tp_max s" "tp_total (set_thr t w s) = tp_total s" "tp_idle (set_thr t w s) = tp_idle s"
  "tp_mutex (set_thr t w s) = tp_mutex s" "tp_thr (set_thr t w s) = (tp_thr s)(t := Some w)" "tp_job (set_thr t w s) = tp_job s"
  "tp_disp (set_thr t w s) = tp_disp s" "tp_given (set_thr t w s) = tp_given s" "tp_done (set_thr t w s) = tp_done s"
  "tp_max (set_disp d x s) = tp_max s" "tp_total (set_disp d x s) = tp_total s" "tp_idle (set_disp d x s) = tp_idle s"
  "tp_mutex (set_disp d x s) = tp_mutex s" "tp_thr (set_disp d x s) = tp_thr s" "tp_job (set_disp d x s) = tp_job s"
  "tp_disp (set_disp d x s) = (tp_disp s)(d := x)" "tp_given (set_disp d x s) = tp_given s" "tp_done (set_disp d x s) = tp_done s"
  "tp_max (give t j s) = tp_max s" "tp_total (give t j s) = tp_total s" "tp_idle (give t j s) = tp_idle s"
  "tp_mutex (give t j s) = tp_mutex s" "tp_thr (give t j s) = tp_thr s" "tp_job (give t j s) = (tp_job s)(t := j)"
  "tp_disp (give t j s) = tp_disp s" "tp_given (give t j s) = add_mset j (tp_given s)" "tp_done (give t j s) = tp_done s"
  by (simp_all add: set_thr_def set_disp_def give_def)

end
