(* ===== verification/Threadpool_Props.thy ===== *)
theory Threadpool_Props
  imports Threadpool
begin

text \<open>
  What the pool of threadpool/threadpool.c guarantees, whatever the order of the steps, as long as no
  thread's wait for its condition ends by itself: every job taken in is run exactly once, no wake-up of a
  thread is lost, no thread leaves, there are never more threads than the pool has room for, and the two
  kinds of mutex never block each other for good. A wait that ends by itself, which no loop catches, costs
  at most one run of a job too many, and one is enough for that.
\<close>

subsection \<open>The invariant\<close>

definition threads :: "'j tpool \<Rightarrow> nat set" where
  "threads s = {t. tp_thr s t \<noteq> None}"

definition parked :: "'j tpool \<Rightarrow> nat \<Rightarrow> bool" where
  "parked s t \<longleftrightarrow> tp_thr s t = Some Saved \<or> tp_thr s t = Some Waiting"

text \<open>The callers that hold the mutex, and the thread that is being handed a job.\<close>

fun holding :: "'j dpc \<Rightarrow> bool" where
  "holding (Holds j) = True" | "holding (Signals t j) = True" | "holding _ = False"

fun handed :: "'j dpc \<Rightarrow> nat option" where
  "handed (Signals t j) = Some t" | "handed _ = None"

definition handed_thr :: "'j tpool \<Rightarrow> nat option" where
  "handed_thr s = (case tp_mutex s of None \<Rightarrow> None | Some d \<Rightarrow> handed (tp_disp s d))"

lemma handed_thr_cong: "tp_mutex s' = tp_mutex s \<Longrightarrow> tp_disp s' = tp_disp s \<Longrightarrow> handed_thr s' = handed_thr s"
  by (simp add: handed_thr_def split: option.split)

definition pool_inv :: "'j tpool \<Rightarrow> bool" where
  "pool_inv s \<longleftrightarrow> finite (threads s) \<and> tp_total s = card (threads s) \<and> tp_total s \<le> tp_max s
     \<and> distinct (tp_idle s) \<and> (\<forall>d. tp_mutex s = Some d \<longleftrightarrow> holding (tp_disp s d))
     \<and> (\<forall>t. parked s t \<longleftrightarrow> t \<in> set (tp_idle s) \<or> handed_thr s = Some t)
     \<and> (\<forall>t. handed_thr s = Some t \<longrightarrow> t \<notin> set (tp_idle s))
     \<and> (\<forall>t. tp_thr s t \<noteq> Some Leaving)"

lemma pool_invD:
  assumes "pool_inv s"
  shows "finite (threads s)" "tp_total s = card (threads s)" "tp_total s \<le> tp_max s" "distinct (tp_idle s)"
    "tp_mutex s = Some d \<longleftrightarrow> holding (tp_disp s d)"
    "parked s t \<longleftrightarrow> t \<in> set (tp_idle s) \<or> handed_thr s = Some t"
    "handed_thr s = Some t \<Longrightarrow> t \<notin> set (tp_idle s)" "tp_thr s t \<noteq> Some Leaving"
  using assms by (simp_all add: pool_inv_def)

text \<open>A thread before save_thread is not idle, so there is room.\<close>

lemma room_to_save:
  assumes "pool_inv s" and "tp_thr s t = Some Saving"
  shows "length (tp_idle s) < tp_max s"
proof -
  note inv = pool_invD [OF assms(1)]
  have "t \<notin> set (tp_idle s)" using inv(6) [of t] assms(2) by (auto simp: parked_def)
  moreover have "set (tp_idle s) \<subseteq> threads s" using inv(6) by (auto simp: parked_def threads_def)
  moreover have "t \<in> threads s" using assms(2) by (simp add: threads_def)
  ultimately have "card (set (tp_idle s)) < card (threads s)" using inv(1) by (intro psubset_card_mono) auto
  then show ?thesis using inv(2-4) by (simp add: distinct_card)
qed

lemma pool_inv_init: "create_threadpool n = Some s \<Longrightarrow> pool_inv s"
  by (auto simp: create_threadpool_def pool_inv_def threads_def parked_def handed_thr_def split: if_splits)

text \<open>A caller that does not hold the mutex may change where it is, as long as it does not hold it then.\<close>

lemma outside_keeps:
  assumes "pool_inv s" and "\<not> holding (tp_disp s d)" and "\<not> holding x"
  shows "pool_inv (set_disp d x s)"
proof -
  have "tp_mutex s \<noteq> Some d" using pool_invD(5) [OF assms(1), of d] assms(2) by simp
  then have "handed_thr (set_disp d x s) = handed_thr s" by (auto simp: handed_thr_def split: option.split)
  moreover have "threads (set_disp d x s) = threads s" "parked (set_disp d x s) = parked s"
    by (simp_all add: threads_def parked_def fun_eq_iff)
  ultimately show ?thesis using assms by (simp add: pool_inv_def)
qed

text \<open>A caller that leaves the mutex without handing out a job.\<close>

lemma leaves_keeps:
  assumes "pool_inv s" and "tp_disp s d = Holds j" and "\<not> holding x"
  shows "pool_inv (set_disp d x (s\<lparr>tp_mutex := None\<rparr>))"
proof -
  have m: "tp_mutex s = Some d" using pool_invD(5) [OF assms(1), of d] assms(2) by simp
  then have "handed_thr s = None" "handed_thr (set_disp d x (s\<lparr>tp_mutex := None\<rparr>)) = None"
    using assms(2) by (simp_all add: handed_thr_def)
  moreover have "threads (set_disp d x (s\<lparr>tp_mutex := None\<rparr>)) = threads s" "parked (set_disp d x (s\<lparr>tp_mutex := None\<rparr>)) = parked s"
    by (simp_all add: threads_def parked_def fun_eq_iff)
  moreover have "\<forall>e. e \<noteq> d \<longrightarrow> \<not> holding (tp_disp s e)" using pool_invD(5) [OF assms(1)] m by (metis option.inject)
  ultimately show ?thesis using assms by (simp add: pool_inv_def)
qed

text \<open>A thread that is not parked may change where it is, as long as it is not parked then.\<close>

lemma thread_keeps:
  assumes "pool_inv s" and "tp_thr s t \<noteq> None" and "\<not> parked s t" and "w \<noteq> Saved" and "w \<noteq> Waiting" "w \<noteq> Leaving"
  shows "pool_inv (set_thr t w s)"
proof -
  have "threads (set_thr t w s) = threads s" using assms(2) by (auto simp: threads_def)
  moreover have "parked (set_thr t w s) = parked s" using assms(3-5) by (auto simp: parked_def fun_eq_iff)
  moreover have "handed_thr (set_thr t w s) = handed_thr s" by (rule handed_thr_cong) simp_all
  ultimately show ?thesis using assms(1,6) by (simp add: pool_inv_def)
qed

text \<open>The jobs and what is counted of them do not matter.\<close>

lemma frame_keeps:
  assumes "pool_inv s" and "tp_max s' = tp_max s" "tp_total s' = tp_total s" "tp_idle s' = tp_idle s" "tp_mutex s' = tp_mutex s"
    "tp_thr s' = tp_thr s" "tp_disp s' = tp_disp s"
  shows "pool_inv s'"
proof -
  have "handed_thr s' = handed_thr s" by (rule handed_thr_cong) (use assms in simp_all)
  then show ?thesis using assms by (simp add: pool_inv_def threads_def parked_def)
qed

lemma new_thread_keeps:
  assumes "pool_inv s" and "tp_total s < tp_max s" and "tp_thr s t = None"
  shows "pool_inv (set_thr t Running (s\<lparr>tp_total := tp_total s + 1\<rparr>))"
proof -
  let ?s = "set_thr t Running (s\<lparr>tp_total := tp_total s + 1\<rparr>)"
  have "threads ?s = insert t (threads s)" "t \<notin> threads s" using assms(3) by (auto simp: threads_def)
  moreover have "parked ?s = parked s" using assms(3) by (auto simp: parked_def fun_eq_iff)
  moreover have "handed_thr ?s = handed_thr s" by (rule handed_thr_cong) simp_all
  ultimately show ?thesis using assms(1,2) by (simp add: pool_inv_def)
qed

lemma call_keeps: "call_step s s' \<Longrightarrow> pool_inv s \<Longrightarrow> pool_inv s'"
  by (erule call_stepE) (auto intro: outside_keeps)

lemma spurious_keeps: "spurious_step s s' \<Longrightarrow> pool_inv s \<Longrightarrow> pool_inv s'"
  by (erule spurious_stepE) (auto intro: outside_keeps)

lemma disp_keeps:
  assumes "disp_step s s'" and inv: "pool_inv s"
  shows "pool_inv s'"
  using assms(1)
proof cases
  case (lock d j)
  have "threads s' = threads s" "parked s' = parked s" "handed_thr s' = None" "handed_thr s = None"
    using lock by (simp_all add: threads_def parked_def handed_thr_def fun_eq_iff)
  moreover have "\<forall>e. \<not> holding (tp_disp s e)" using pool_invD(5) [OF inv] lock by auto
  ultimately show ?thesis using inv lock by (simp add: pool_inv_def)
next
  case (block d j)
  then show ?thesis using leaves_keeps [OF inv, of d j "WaitsIdle j"] by simp
next
  case (create d j t)
  have "pool_inv (set_disp d (Away 0) (s\<lparr>tp_mutex := None\<rparr>))" using leaves_keeps [OF inv create(2), of "Away 0"] by simp
  from new_thread_keeps [OF this, of t] create(4,5)
  have "pool_inv (set_thr t Running ((set_disp d (Away 0) (s\<lparr>tp_mutex := None\<rparr>))\<lparr>tp_total := tp_total s + 1\<rparr>))" by simp
  then show ?thesis by (rule frame_keeps) (simp_all add: create(1))
next
  case (no_thread d j)
  then show ?thesis using leaves_keeps [OF inv, of d j "Away (-1)"] by simp
next
  case (pop d j t ts)
  have m: "tp_mutex s = Some d" using pool_invD(5) [OF inv, of d] pop by simp
  have "threads s' = threads s" "parked s' = parked s" "handed_thr s' = Some t" "handed_thr s = None"
    using pop m by (simp_all add: threads_def parked_def handed_thr_def fun_eq_iff)
  then show ?thesis using inv pop by (auto simp: pool_inv_def)
next
  case (signal d t j w)
  have m: "tp_mutex s = Some d" using pool_invD(5) [OF inv, of d] signal by simp
  have h: "handed_thr s = Some t" using m signal by (simp add: handed_thr_def)
  then have "parked s t" using pool_invD(6) [OF inv, of t] by simp
  then have w: "w = Waiting" using signal by (simp add: parked_def)
  have "threads s' = threads s" "handed_thr s' = None" "\<forall>u. parked s' u \<longleftrightarrow> parked s u \<and> u \<noteq> t"
    using signal w by (auto simp: threads_def handed_thr_def parked_def)
  moreover have "\<forall>e. e \<noteq> d \<longrightarrow> \<not> holding (tp_disp s e)" using pool_invD(5) [OF inv] m by (metis option.inject)
  ultimately show ?thesis using inv signal w h by (auto simp: pool_inv_def)
qed

lemma wake_keeps: "wake_idle s s' \<Longrightarrow> pool_inv s \<Longrightarrow> pool_inv s'"
  by (erule wake_idleE) (auto intro: outside_keeps)

lemma work_keeps:
  assumes "work_step s s'" and inv: "pool_inv s"
  shows "pool_inv s'"
  using assms(1)
proof cases
  case (run t)
  then have "pool_inv (set_thr t Locking s)" using thread_keeps [OF inv, of t Locking] by (simp add: parked_def)
  then show ?thesis by (rule frame_keeps) (simp_all add: run(1))
next
  case (own t)
  then show ?thesis using thread_keeps [OF inv, of t Saving] by (simp add: parked_def)
next
  case (save t)
  let ?s = "set_thr t Saved (s\<lparr>tp_idle := t # tp_idle s\<rparr>)"
  have "threads ?s = threads s" "handed_thr ?s = None" "handed_thr s = None" "\<forall>u. parked ?s u \<longleftrightarrow> parked s u \<or> u = t" "\<not> parked s t"
    using save by (auto simp: threads_def handed_thr_def parked_def)
  then have "pool_inv ?s" using inv by (auto simp: pool_inv_def)
  then show ?thesis using wake_keeps save by blast
next
  case (full t)
  then show ?thesis using room_to_save [OF inv] by fastforce
next
  case (leave t)
  then show ?thesis using pool_invD(8) [OF inv] by blast
next
  case (wait t)
  have "threads s' = threads s" "parked s' = parked s" "handed_thr s' = handed_thr s"
    using wait by (auto simp: threads_def handed_thr_def parked_def fun_eq_iff split: option.split)
  then show ?thesis using inv wait by (simp add: pool_inv_def)
next
  case (go t)
  then show ?thesis using thread_keeps [OF inv, of t Running] by (simp add: parked_def)
qed

lemma step_keeps: "tp_step s s' \<Longrightarrow> pool_inv s \<Longrightarrow> pool_inv s'"
  using call_keeps spurious_keeps disp_keeps work_keeps by (auto simp: tp_step_def)

subsection \<open>Every job once\<close>

text \<open>The threads that have a job before them: in it, called back for it, or being handed it.\<close>

definition pending :: "'j tpool \<Rightarrow> nat set" where
  "pending s = {t. tp_thr s t = Some Running \<or> tp_thr s t = Some Woken \<or> handed_thr s = Some t}"

definition pending_jobs :: "'j tpool \<Rightarrow> 'j multiset" where
  "pending_jobs s = image_mset (tp_job s) (mset_set (pending s))"

definition jobs_inv :: "'j tpool \<Rightarrow> bool" where
  "jobs_inv s \<longleftrightarrow> tp_given s = tp_done s + pending_jobs s"

lemma pending_finite: "pool_inv s \<Longrightarrow> finite (pending s)"
proof -
  assume inv: "pool_inv s"
  have "pending s \<subseteq> threads s"
    using pool_invD(6) [OF inv] by (auto simp: pending_def threads_def parked_def)
  then show ?thesis using pool_invD(1) [OF inv] finite_subset by blast
qed

lemma pending_same:
  "pending s' = pending s \<Longrightarrow> (\<And>t. t \<in> pending s \<Longrightarrow> tp_job s' t = tp_job s t) \<Longrightarrow> pool_inv s \<Longrightarrow> pending_jobs s' = pending_jobs s"
  using pending_finite [of s] by (auto simp: pending_jobs_def intro!: image_mset_cong)

lemma pending_more:
  assumes "pending s' = insert t (pending s)" and "t \<notin> pending s" and "tp_job s' = (tp_job s)(t := j)" and "pool_inv s"
  shows "pending_jobs s' = add_mset j (pending_jobs s)"
proof -
  have "image_mset ((tp_job s)(t := j)) (mset_set (pending s)) = image_mset (tp_job s) (mset_set (pending s))"
    using assms(2) pending_finite [OF assms(4)] by (intro image_mset_cong) auto
  then show ?thesis using assms pending_finite [OF assms(4)] by (simp add: pending_jobs_def)
qed

lemma pending_less:
  assumes "pending s = insert t (pending s')" and "t \<notin> pending s'" and "tp_job s' = tp_job s" and "pool_inv s"
  shows "pending_jobs s = add_mset (tp_job s t) (pending_jobs s')"
proof -
  have "finite (pending s')" using pending_finite [OF assms(4)] assms(1) by simp
  then show ?thesis using assms(1-3) by (simp add: pending_jobs_def)
qed

lemma handed_outside:
  assumes "pool_inv s" and "\<not> holding (tp_disp s d)"
  shows "handed_thr (set_disp d x s) = handed_thr s"
proof -
  have "tp_mutex s \<noteq> Some d" using pool_invD(5) [OF assms(1), of d] assms(2) by simp
  then show ?thesis by (auto simp: handed_thr_def split: option.split)
qed

lemma pending_outside: "pool_inv s \<Longrightarrow> \<not> holding (tp_disp s d) \<Longrightarrow> pending_jobs (set_disp d x s) = pending_jobs s"
  by (rule pending_same) (simp_all add: pending_def handed_outside)

lemma call_jobs: "call_step s s' \<Longrightarrow> pool_inv s \<Longrightarrow> jobs_inv s \<Longrightarrow> jobs_inv s'"
  by (erule call_stepE) (simp add: jobs_inv_def pending_outside)

lemma spurious_jobs: "spurious_step s s' \<Longrightarrow> pool_inv s \<Longrightarrow> jobs_inv s \<Longrightarrow> jobs_inv s'"
  by (erule spurious_stepE) (simp add: jobs_inv_def pending_outside)

lemma disp_jobs:
  assumes "disp_step s s'" and inv: "pool_inv s" and jobs: "jobs_inv s"
  shows "jobs_inv s'"
proof -
  have held: "tp_mutex s = Some d" if "holding (tp_disp s d)" for d using pool_invD(5) [OF inv] that by simp
  show ?thesis
    using assms(1)
  proof cases
    case (lock d j)
    have "pending_jobs s' = pending_jobs s" by (rule pending_same [OF _ _ inv]) (simp_all add: lock pending_def handed_thr_def)
    then show ?thesis using jobs lock by (simp add: jobs_inv_def)
  next
    case (block d j)
    have "pending_jobs s' = pending_jobs s"
      by (rule pending_same [OF _ _ inv]) (use block held [of d] in \<open>auto simp: pending_def handed_thr_def\<close>)
    then show ?thesis using jobs block by (simp add: jobs_inv_def)
  next
    case (create d j t)
    have "pending s' = insert t (pending s)" "t \<notin> pending s"
      using create held [of d] pool_invD(6) [OF inv, of t] by (auto simp: pending_def handed_thr_def parked_def)
    from pending_more [OF this _ inv, of j] have "pending_jobs s' = add_mset j (pending_jobs s)" by (simp add: create(1))
    then show ?thesis using jobs create by (simp add: jobs_inv_def)
  next
    case (no_thread d j)
    have "pending_jobs s' = pending_jobs s"
      by (rule pending_same [OF _ _ inv]) (use no_thread held [of d] in \<open>auto simp: pending_def handed_thr_def\<close>)
    then show ?thesis using jobs no_thread by (simp add: jobs_inv_def)
  next
    case (pop d j t ts)
    have "parked s t" using pool_invD(6) [OF inv, of t] pop by simp
    then have "pending s' = insert t (pending s)" "t \<notin> pending s"
      using pop held [of d] by (auto simp: pending_def handed_thr_def parked_def)
    from pending_more [OF this _ inv, of j] have "pending_jobs s' = add_mset j (pending_jobs s)" by (simp add: pop(1))
    then show ?thesis using jobs pop by (simp add: jobs_inv_def)
  next
    case (signal d t j w)
    have h: "handed_thr s = Some t" using signal held [of d] by (simp add: handed_thr_def)
    then have "w = Waiting" using pool_invD(6) [OF inv, of t] signal by (simp add: parked_def)
    then have "pending_jobs s' = pending_jobs s"
      using h signal by (intro pending_same [OF _ _ inv]) (auto simp: pending_def handed_thr_def)
    then show ?thesis using jobs signal by (simp add: jobs_inv_def)
  qed
qed

lemma wake_jobs: "wake_idle s s' \<Longrightarrow> pool_inv s \<Longrightarrow> jobs_inv s \<Longrightarrow> jobs_inv s'"
  by (erule wake_idleE) (simp_all add: jobs_inv_def pending_outside)

lemma handed_thread [simp]: "handed_thr (set_thr t w s) = handed_thr s"
  by (rule handed_thr_cong) simp_all

lemma work_jobs:
  assumes "work_step s s'" and inv: "pool_inv s" and jobs: "jobs_inv s"
  shows "jobs_inv s'"
  using assms(1)
proof cases
  case (run t)
  have h: "handed_thr s \<noteq> Some t" using pool_invD(6) [OF inv, of t] run by (auto simp: parked_def)
  have "handed_thr s' = handed_thr s" by (rule handed_thr_cong) (simp_all add: run(1))
  then have "pending s = insert t (pending s')" "t \<notin> pending s'" using run h by (auto simp: pending_def)
  from pending_less [OF this _ inv] have "pending_jobs s = add_mset (tp_job s t) (pending_jobs s')" by (simp add: run(1))
  then show ?thesis using jobs run(1) by (simp add: jobs_inv_def)
next
  case (own t)
  have "pending_jobs s' = pending_jobs s" using own by (intro pending_same [OF _ _ inv]) (auto simp: pending_def)
  then show ?thesis using jobs own by (simp add: jobs_inv_def)
next
  case (save t)
  let ?s = "set_thr t Saved (s\<lparr>tp_idle := t # tp_idle s\<rparr>)"
  have "handed_thr ?s = handed_thr s" by (rule handed_thr_cong) simp_all
  then have "pending_jobs ?s = pending_jobs s" using save by (intro pending_same [OF _ _ inv]) (auto simp: pending_def)
  then have "jobs_inv ?s" using jobs by (simp add: jobs_inv_def)
  moreover have "pool_inv ?s"
  proof -
    have "threads ?s = threads s" "handed_thr ?s = None" "handed_thr s = None" "\<forall>u. parked ?s u \<longleftrightarrow> parked s u \<or> u = t" "\<not> parked s t"
      using save by (auto simp: threads_def handed_thr_def parked_def)
    then show ?thesis using inv save by (auto simp: pool_inv_def)
  qed
  ultimately show ?thesis using wake_jobs save by blast
next
  case (full t)
  then show ?thesis using room_to_save [OF inv] by fastforce
next
  case (leave t)
  then show ?thesis using pool_invD(8) [OF inv] by blast
next
  case (wait t)
  have "pending_jobs s' = pending_jobs s" using wait by (intro pending_same [OF _ _ inv]) (auto simp: pending_def)
  then show ?thesis using jobs wait by (simp add: jobs_inv_def)
next
  case (go t)
  have "pending_jobs s' = pending_jobs s" using go by (intro pending_same [OF _ _ inv]) (auto simp: pending_def)
  then show ?thesis using jobs go by (simp add: jobs_inv_def)
qed

lemma reach_inv: "tp_reach n k s \<Longrightarrow> k = 0 \<Longrightarrow> pool_inv s \<and> jobs_inv s"
proof (induction rule: tp_reach.induct)
  case (init s)
  then show ?case
    using pool_inv_init [OF init(1)]
    by (auto simp: create_threadpool_def jobs_inv_def pending_jobs_def pending_def handed_thr_def split: if_splits)
next
  case (step k s s')
  then show ?case using step_keeps call_jobs spurious_jobs disp_jobs work_jobs by (auto simp: tp_step_def)
qed simp

subsection \<open>Waits that end by themselves\<close>

text \<open>The threads in a job or called back for one. A run of a job was paid for by a job taken in, or by a
  wait that ended by itself.\<close>

definition runners :: "'j tpool \<Rightarrow> nat set" where
  "runners s = {t. tp_thr s t = Some Running \<or> tp_thr s t = Some Woken}"

definition runs_inv :: "nat \<Rightarrow> 'j tpool \<Rightarrow> bool" where
  "runs_inv k s \<longleftrightarrow> finite (runners s) \<and> (\<forall>d. tp_mutex s = Some d \<longleftrightarrow> holding (tp_disp s d))
     \<and> size (tp_done s) + card (runners s) + (if handed_thr s = None then 0 else 1) \<le> size (tp_given s) + k"

lemma runs_invD:
  assumes "runs_inv k s"
  shows "finite (runners s)" "tp_mutex s = Some d \<longleftrightarrow> holding (tp_disp s d)"
    "size (tp_done s) + card (runners s) + (if handed_thr s = None then 0 else 1) \<le> size (tp_given s) + k"
  using assms by (simp_all add: runs_inv_def)

lemma runners_set:
  "runners (set_thr t w s) = (if w = Running \<or> w = Woken then insert t (runners s) else runners s - {t})"
  by (auto simp: runners_def)

lemma runners_cong: "tp_thr s' = tp_thr s \<Longrightarrow> runners s' = runners s"
  by (simp add: runners_def)

text \<open>A caller that does not hold the mutex moves outside it.\<close>

lemma outside_runs:
  assumes "runs_inv k s" and "\<not> holding (tp_disp s d)" and "\<not> holding x"
  shows "runs_inv k (set_disp d x s)"
proof -
  have "tp_mutex s \<noteq> Some d" using runs_invD(2) [OF assms(1), of d] assms(2) by simp
  then have "handed_thr (set_disp d x s) = handed_thr s" by (auto simp: handed_thr_def split: option.split)
  moreover have "runners (set_disp d x s) = runners s" by (rule runners_cong) simp
  ultimately show ?thesis using assms by (simp add: runs_inv_def)
qed

text \<open>A thread moves without a job, or a count grows for it.\<close>

lemma thread_runs:
  assumes "runs_inv k s" and "w \<noteq> Running" and "w \<noteq> Woken"
  shows "runs_inv k (set_thr t w s)"
proof -
  have "card (runners s - {t}) \<le> card (runners s)" using runs_invD(1) [OF assms(1)] by (intro card_mono) auto
  then show ?thesis using assms by (auto simp: runs_inv_def runners_set)
qed

lemma frame_runs:
  assumes "runs_inv k s" and "tp_thr s' = tp_thr s" "tp_mutex s' = tp_mutex s" "tp_disp s' = tp_disp s" "tp_given s' = tp_given s"
    "tp_done s' = tp_done s"
  shows "runs_inv k s'"
  using assms runners_cong [of s' s] handed_thr_cong [of s' s] by (simp add: runs_inv_def)

lemma disp_runs:
  assumes "disp_step s s'" and inv: "runs_inv k s"
  shows "runs_inv k s'"
proof -
  have held: "tp_mutex s = Some d" "\<forall>e. e \<noteq> d \<longrightarrow> \<not> holding (tp_disp s e)" if "holding (tp_disp s d)" for d
    using runs_invD(2) [OF inv] that by (simp, metis option.inject)
  note bound = runs_invD(3) [OF inv]
  show ?thesis
    using assms(1)
  proof cases
    case (lock d j)
    have "\<forall>e. \<not> holding (tp_disp s e)" using runs_invD(2) [OF inv] lock(3) by auto
    moreover have "handed_thr s' = None" "handed_thr s = None" "runners s' = runners s"
      using lock by (simp_all add: handed_thr_def runners_def)
    ultimately show ?thesis using inv lock by (auto simp: runs_inv_def)
  next
    case (block d j)
    then have "handed_thr s' = None" "runners s' = runners s" by (simp_all add: handed_thr_def runners_def)
    then show ?thesis using inv block held [of d] by (auto simp: runs_inv_def split: if_splits)
  next
    case (create d j t)
    have "handed_thr s' = None" "handed_thr s = None" using create held(1) [of d] by (simp_all add: handed_thr_def)
    moreover have "runners s' = insert t (runners s)" "t \<notin> runners s" using create by (auto simp: runners_def)
    ultimately show ?thesis using inv create held [of d] by (auto simp: runs_inv_def)
  next
    case (no_thread d j)
    then have "handed_thr s' = None" "runners s' = runners s" by (simp_all add: handed_thr_def runners_def)
    then show ?thesis using inv no_thread held [of d] by (auto simp: runs_inv_def split: if_splits)
  next
    case (pop d j t ts)
    have "handed_thr s = None" using pop held(1) [of d] by (simp add: handed_thr_def)
    moreover have "runners s' = runners s" by (rule runners_cong) (simp add: pop(1))
    ultimately show ?thesis using inv pop held [of d] by (auto simp: runs_inv_def split: if_splits)
  next
    case (signal d t j w)
    have h: "handed_thr s = Some t" using signal held(1) [of d] by (simp add: handed_thr_def)
    have "handed_thr s' = None" by (simp add: signal(1) handed_thr_def)
    moreover have "runners s' = (if w = Waiting then insert t (runners s) else runners s)"
      using signal by (auto simp: runners_def)
    moreover have "card (insert t (runners s)) \<le> Suc (card (runners s))" by (rule card_insert_le_m1) simp_all
    ultimately show ?thesis using inv signal held [of d] h by (auto simp: runs_inv_def split: if_splits)
  qed
qed

lemma work_runs:
  assumes "work_step s s'" and inv: "runs_inv k s"
  shows "runs_inv k s'"
  using assms(1)
proof cases
  case (run t)
  have h: "handed_thr s' = handed_thr s" by (rule handed_thr_cong) (simp_all add: run(1))
  have r: "runners s = insert t (runners s')" "t \<notin> runners s'" using run by (auto simp: runners_def)
  have "finite (runners s')" using runs_invD(1) [OF inv] r(1) by simp
  then have "card (runners s) = Suc (card (runners s'))" using r by simp
  then show ?thesis using inv run h \<open>finite (runners s')\<close> by (simp add: runs_inv_def)
next
  case (save t)
  have "runs_inv k (set_thr t Saved (s\<lparr>tp_idle := t # tp_idle s\<rparr>))"
    by (rule thread_runs [OF frame_runs [OF inv]]) simp_all
  then show ?thesis using save(4) by (auto elim!: wake_idleE intro: outside_runs)
next
  case (leave t)
  have "runs_inv k (set_thr t Leaving s)" by (rule thread_runs [OF inv]) simp_all
  moreover have "runners s' = runners (set_thr t Leaving s)" using leave by (auto simp: runners_def)
  moreover have "handed_thr s' = handed_thr (set_thr t Leaving s)" by (rule handed_thr_cong) (simp_all add: leave(1))
  ultimately show ?thesis using leave(1) by (simp add: runs_inv_def)
next
  case (go t)
  have "runners s' = runners s" using go by (auto simp: runners_def)
  moreover have "handed_thr s' = handed_thr s" by (rule handed_thr_cong) (simp_all add: go(1))
  ultimately show ?thesis using inv go(1) by (simp add: runs_inv_def)
qed (use thread_runs [OF inv] in simp_all)

lemma stray_runs:
  assumes "stray_step s s'" and inv: "runs_inv k s"
  shows "runs_inv (Suc k) s'"
proof -
  obtain t where t: "tp_thr s t = Some Waiting" "s' = set_thr t Woken s" using assms(1) by (auto elim: stray_stepE)
  have "handed_thr s' = handed_thr s" by (rule handed_thr_cong) (simp_all add: t(2))
  moreover have "card (insert t (runners s)) \<le> Suc (card (runners s))" by (rule card_insert_le_m1) simp_all
  ultimately show ?thesis using inv t(2) by (auto simp: runs_inv_def runners_set)
qed

lemma reach_runs: "tp_reach n k s \<Longrightarrow> runs_inv k s"
proof (induction rule: tp_reach.induct)
  case (init s)
  then show ?case by (auto simp: create_threadpool_def runs_inv_def runners_def handed_thr_def split: if_splits)
next
  case (step k s s')
  have "runs_inv k s'" if "call_step s s' \<or> spurious_step s s'"
    using that step.IH by (auto elim!: call_stepE spurious_stepE intro: outside_runs)
  then show ?case using step disp_runs work_runs by (auto simp: tp_step_def)
next
  case (stray k s s')
  then show ?case using stray_runs by blast
qed

text \<open>
  C10. Every job is run once as long as no thread's wait ends by itself: in every state the pool can then reach,
  the jobs taken in are those that were run and those that a thread still has before it, each counted as
  often as it was given; so when no thread has one left, exactly the jobs taken in were run. After k waits of
  threads that ended by themselves, which the code does not catch, there were at most k runs more than jobs.
\<close>

theorem pool_runs_each_job_once:
  assumes "tp_reach n k s"
  shows "(k = 0 \<longrightarrow> tp_given s = tp_done s + pending_jobs s \<and> (pending s = {} \<longrightarrow> tp_done s = tp_given s))
    \<and> size (tp_done s) \<le> size (tp_given s) + k"
  using reach_inv [OF assms] reach_runs [OF assms] by (auto simp: jobs_inv_def pending_jobs_def runs_inv_def)

text \<open>A run of a pool of two: caller 7 brings the job 5 and starts thread 0 with it, which runs it.\<close>

lemma demo_run:
  obtains s s' s'' :: "nat tpool" where "tp_reach 2 0 s" "tp_disp s 7 = Wants 5" "tp_step s s'" "tp_step s' s''"
    "tp_given s'' = {#5#}" "tp_thr s'' 0 = Some Running" "\<forall>t. t \<noteq> 0 \<longrightarrow> tp_thr s'' t = None"
    "tp_mutex s'' = None" "tp_idle s'' = []" "tp_max s'' = 2" "tp_disp s'' 7 = Away 0" "tp_done s'' = {#}"
proof -
  obtain s0 :: "nat tpool" where s0: "create_threadpool 2 = Some s0"
      and z: "tp_idle s0 = []" "tp_mutex s0 = None" "tp_max s0 = 2" "tp_total s0 = 0" "\<forall>t. tp_thr s0 t = None"
        "tp_disp s0 7 = Away 0" "tp_given s0 = {#}" "tp_done s0 = {#}"
    by (auto simp: create_threadpool_def MAXT_IN_POOL_def)
  let ?s = "set_disp 7 (Wants 5) s0"
  have r: "tp_reach 2 0 ?s"
    using tp_reach.step [OF tp_reach.init [of 2 s0]] call_step.intros [OF z(6)] s0 by (simp add: tp_step_def)
  let ?l = "set_disp 7 (Holds 5) (?s\<lparr>tp_mutex := Some 7\<rparr>)"
  have l: "tp_step ?s ?l" using disp_step.lock [of ?s 7 5] z by (simp add: tp_step_def)
  have c: "tp_step ?l (set_disp 7 (Away 0) (set_thr 0 Running (give 0 5 (?l\<lparr>tp_mutex := None, tp_total := tp_total ?l + 1\<rparr>))))"
    using disp_step.create [of ?l 7 5 0] z by (simp add: tp_step_def)
  show thesis by (rule that [OF r _ l c]) (use z in simp_all)
qed

theorem pool_runs_each_job_once_witness:
  "\<exists>s :: nat tpool. tp_reach 2 0 s \<and> tp_given s = {#5#} \<and> tp_done s = {#5#} \<and> pending s = {}"
proof -
  obtain s s' s'' :: "nat tpool" where r0: "tp_reach 2 0 s" "tp_disp s 7 = Wants 5" "tp_step s s'" "tp_step s' s''"
    "tp_given s'' = {#5#}" "tp_thr s'' 0 = Some Running" "\<forall>t. t \<noteq> 0 \<longrightarrow> tp_thr s'' t = None"
    "tp_mutex s'' = None" "tp_idle s'' = []" "tp_max s'' = 2" "tp_disp s'' 7 = Away 0" "tp_done s'' = {#}"
    by (rule demo_run)
  note r = r0(1,3-)
  have r2: "tp_reach 2 0 s''" by (rule tp_reach.step [OF tp_reach.step [OF r(1,2)] r(3)])
  define u where "u = set_thr 0 Locking (s''\<lparr>tp_done := add_mset (tp_job s'' 0) (tp_done s'')\<rparr>)"
  have u: "tp_reach 2 0 u"
    unfolding u_def by (rule tp_reach.step [OF r2]) (simp add: tp_step_def work_step.run [OF r(5)])
  have thr: "tp_thr u t = Some w \<Longrightarrow> w = Locking" for t w using r(6) by (auto simp: u_def split: if_splits)
  have inv: "pool_inv u" using reach_inv [OF u] by simp
  have none: "handed_thr u \<noteq> Some t" for t
  proof
    assume "handed_thr u = Some t"
    then have "tp_thr u t = Some Saved \<or> tp_thr u t = Some Waiting" using pool_invD(6) [OF inv] unfolding parked_def by blast
    then show False using thr [of t] by auto
  qed
  have "t \<notin> pending u" for t unfolding pending_def using thr [of t Running] thr [of t Woken] none [of t] by auto
  then have p: "pending u = {}" by blast
  then have "tp_done u = tp_given u" using pool_runs_each_job_once [OF u] by blast
  moreover have "tp_given u = {#5#}" by (simp add: u_def r(4))
  ultimately show ?thesis using u p by metis
qed

text \<open>The same run further: thread 0 has run the job, is idle and waits.\<close>

lemma parked_run:
  obtains s :: "nat tpool" where "tp_reach 2 0 s" "tp_thr s = (\<lambda>_. None)(0 := Some Waiting)" "tp_idle s = [0]" "tp_mutex s = None"
    "tp_max s = 2" "tp_disp s = (\<lambda>_. Away 0)" "tp_given s = {#5#}" "tp_done s = {#5#}" "tp_job s 0 = 5"
proof -
  obtain s0 :: "nat tpool" where s0: "create_threadpool 2 = Some s0"
      and z: "tp_idle s0 = []" "tp_mutex s0 = None" "tp_max s0 = 2" "tp_total s0 = 0" "tp_thr s0 = (\<lambda>_. None)"
        "tp_disp s0 = (\<lambda>_. Away 0)" "tp_given s0 = {#}" "tp_done s0 = {#}"
    by (simp add: create_threadpool_def MAXT_IN_POOL_def)
  have go: "tp_reach 2 0 y" if "tp_reach 2 0 x" "call_step x y \<or> disp_step x y \<or> work_step x y" for x y :: "nat tpool"
    using tp_reach.step [OF that(1)] that(2) by (auto simp: tp_step_def)
  define a where "a = set_disp 7 (Holds 5) ((set_disp 7 (Wants 5) s0)\<lparr>tp_mutex := Some 7\<rparr>)"
  define b where "b = set_disp 7 (Away 0) (set_thr 0 Running (give 0 5 (a\<lparr>tp_mutex := None, tp_total := tp_total a + 1\<rparr>)))"
  define c where "c = set_thr 0 Saving (set_thr 0 Locking (b\<lparr>tp_done := add_mset (tp_job b 0) (tp_done b)\<rparr>))"
  define e where "e = set_thr 0 Waiting (set_thr 0 Saved (c\<lparr>tp_idle := 0 # tp_idle c\<rparr>))"
  note defs = a_def b_def c_def e_def
  have "tp_reach 2 0 s0" using s0 by (intro tp_reach.init) simp
  then have "tp_reach 2 0 (set_disp 7 (Wants 5) s0)" by (rule go) (use call_step.intros [of s0 7 0 5] z in simp)
  then have "tp_reach 2 0 a" unfolding a_def by (rule go) (use disp_step.lock [of "set_disp 7 (Wants 5) s0" 7 5] z in simp)
  then have rb: "tp_reach 2 0 b" unfolding b_def by (rule go) (use disp_step.create [of a 7 5 0] z in \<open>simp add: a_def\<close>)
  then have "tp_reach 2 0 (set_thr 0 Locking (b\<lparr>tp_done := add_mset (tp_job b 0) (tp_done b)\<rparr>))"
    by (rule go) (use work_step.run [of b 0] in \<open>simp add: b_def\<close>)
  then have "tp_reach 2 0 c" unfolding c_def
    by (rule go) (use work_step.own [of "set_thr 0 Locking (b\<lparr>tp_done := add_mset (tp_job b 0) (tp_done b)\<rparr>)" 0] in simp)
  moreover have "work_step c (set_thr 0 Saved (c\<lparr>tp_idle := 0 # tp_idle c\<rparr>))"
    by (rule work_step.save [of _ 0]) (auto simp: defs z waits_idle_def intro!: wake_idle.nobody)
  ultimately have "tp_reach 2 0 (set_thr 0 Saved (c\<lparr>tp_idle := 0 # tp_idle c\<rparr>))" by (blast intro: go)
  then have "tp_reach 2 0 e" unfolding e_def by (rule go) (use work_step.wait [of "set_thr 0 Saved (c\<lparr>tp_idle := 0 # tp_idle c\<rparr>)" 0] in simp)
  then show thesis by (rule that) (auto simp: defs z fun_eq_iff)
qed

text \<open>One wait that ends by itself is enough: thread 0 runs its job again.\<close>

lemma stray_wakeup_repeats_job:
  "\<exists>s :: nat tpool. tp_reach 2 1 s \<and> tp_given s = {#5#} \<and> size (tp_done s) = 2"
proof -
  obtain e :: "nat tpool" where e: "tp_reach 2 0 e" "tp_thr e = (\<lambda>_. None)(0 := Some Waiting)" "tp_idle e = [0]" "tp_mutex e = None"
    "tp_max e = 2" "tp_disp e = (\<lambda>_. Away 0)" "tp_given e = {#5#}" "tp_done e = {#5#}" "tp_job e 0 = 5" by (rule parked_run)
  have go: "tp_reach 2 1 y" if "tp_reach 2 1 x" "work_step x y" for x y :: "nat tpool"
    using tp_reach.step [OF that(1)] that(2) by (simp add: tp_step_def)
  have "tp_reach 2 1 (set_thr 0 Woken e)" using tp_reach.stray [OF e(1) stray_step.intros, of 0] e(2) by simp
  then have rg: "tp_reach 2 1 (set_thr 0 Running (set_thr 0 Woken e))" by (rule go) (rule work_step.go, simp)
  let ?g = "set_thr 0 Running (set_thr 0 Woken e)"
  have "tp_reach 2 1 (set_thr 0 Locking (?g\<lparr>tp_done := add_mset (tp_job ?g 0) (tp_done ?g)\<rparr>))"
    by (rule go [OF rg]) (rule work_step.run, simp)
  then show ?thesis by (intro exI conjI) (assumption, simp_all add: e)
qed

text \<open>Or the pool stops for ever: thread 0, called by nobody, has run its job again and holds its mutex before
  that of the pool, while caller 7, who holds the pool's, hands it a job and asks for the thread's.\<close>

lemma stray_wakeup_deadlocks:
  "\<exists>s :: nat tpool. tp_reach 2 1 s \<and> tp_disp s 7 = Signals 0 6 \<and> \<not> (\<exists>s'. disp_step s s' \<or> work_step s s')"
proof -
  obtain e :: "nat tpool" where e: "tp_reach 2 0 e" "tp_thr e = (\<lambda>_. None)(0 := Some Waiting)" "tp_idle e = [0]" "tp_mutex e = None"
    "tp_max e = 2" "tp_disp e = (\<lambda>_. Away 0)" "tp_given e = {#5#}" "tp_done e = {#5#}" "tp_job e 0 = 5" by (rule parked_run)
  have go: "tp_reach 2 1 y" if "tp_reach 2 1 x" "call_step x y \<or> disp_step x y \<or> work_step x y" for x y :: "nat tpool"
    using tp_reach.step [OF that(1)] that(2) by (auto simp: tp_step_def)
  define w where "w = set_thr 0 Woken e"
  define l where "l = set_thr 0 Locking ((set_thr 0 Running w)\<lparr>tp_done := add_mset (tp_job w 0) (tp_done w)\<rparr>)"
  define m where "m = set_thr 0 Saving l"
  define h where "h = set_disp 7 (Holds 6) ((set_disp 7 (Wants 6) m)\<lparr>tp_mutex := Some 7\<rparr>)"
  define s where "s = set_disp 7 (Signals 0 6) (give 0 6 (h\<lparr>tp_idle := []\<rparr>))"
  note defs = w_def l_def m_def h_def s_def
  have "tp_reach 2 1 w" using tp_reach.stray [OF e(1) stray_step.intros, of 0] e(2) by (simp add: w_def)
  then have "tp_reach 2 1 (set_thr 0 Running w)" by (rule go) (use work_step.go [of w 0] in \<open>simp add: w_def\<close>)
  then have "tp_reach 2 1 l" unfolding l_def by (rule go) (use work_step.run [of "set_thr 0 Running w" 0] in simp)
  then have "tp_reach 2 1 m" unfolding m_def by (rule go) (use work_step.own [of l 0] in \<open>simp add: l_def\<close>)
  then have "tp_reach 2 1 (set_disp 7 (Wants 6) m)"
    by (rule go) (use call_step.intros [of m 7 0 6] e in \<open>simp add: defs\<close>)
  then have "tp_reach 2 1 h" unfolding h_def
    by (rule go) (use disp_step.lock [of "set_disp 7 (Wants 6) m" 7 6] e in \<open>simp add: w_def l_def m_def\<close>)
  then have r: "tp_reach 2 1 s" unfolding s_def
    by (rule go) (use disp_step.pop [of h 7 6 0 "[]"] e in \<open>simp add: w_def l_def m_def h_def\<close>)
  have s: "tp_thr s = (\<lambda>_. None)(0 := Some Saving)" "tp_mutex s = Some 7" "tp_disp s = (\<lambda>_. Away 0)(7 := Signals 0 6)"
    by (simp_all add: defs e fun_eq_iff)
  have "\<not> disp_step s s'" for s' by (auto elim!: disp_step.cases simp: s split: if_splits)
  moreover have "\<not> work_step s s'" for s' by (auto elim!: work_step.cases simp: s split: if_splits)
  ultimately show ?thesis using r s(3) by auto
qed

subsection \<open>Nobody is stuck\<close>

definition wanting :: "'j tpool \<Rightarrow> nat set" where
  "wanting s = {d. (\<exists>j. tp_disp s d = Wants j) \<or> (\<exists>j. tp_disp s d = Holds j)}"

text \<open>While somebody waits for an idle thread all threads there may be are there, and no more of them are
  idle than callers on their way to them.\<close>

definition wait_inv :: "'j tpool \<Rightarrow> bool" where
  "wait_inv s \<longleftrightarrow> finite (wanting s)
     \<and> ((\<exists>d. waits_idle s d) \<longrightarrow> tp_max s \<le> tp_total s \<and> length (tp_idle s) \<le> card (wanting s))"

lemma wait_inv_same:
  assumes "wait_inv s" and "wanting s' = wanting s" and "\<And>d. waits_idle s' d \<Longrightarrow> waits_idle s d"
    and "tp_max s' = tp_max s" and "tp_total s' = tp_total s" and "length (tp_idle s') \<le> length (tp_idle s)"
  shows "wait_inv s'"
  using assms by (auto simp: wait_inv_def)

lemma wait_inv_more:
  assumes "wait_inv s" and "wanting s' = insert d (wanting s)" and "\<And>e. waits_idle s' e \<Longrightarrow> waits_idle s e"
    and "tp_max s' = tp_max s" and "tp_total s' = tp_total s" and "tp_idle s' = tp_idle s"
  shows "wait_inv s'"
  using assms card_insert_le [of "wanting s" d] by (auto simp: wait_inv_def intro: order_trans)

lemma call_wait: "call_step s s' \<Longrightarrow> wait_inv s \<Longrightarrow> wait_inv s'"
  by (erule call_stepE) (rule wait_inv_more; auto simp: wanting_def waits_idle_def split: if_splits)

lemma spurious_wait: "spurious_step s s' \<Longrightarrow> wait_inv s \<Longrightarrow> wait_inv s'"
  by (erule spurious_stepE) (rule wait_inv_more; auto simp: wanting_def waits_idle_def split: if_splits)

lemma disp_wait:
  assumes "disp_step s s'" and inv: "wait_inv s"
  shows "wait_inv s'"
  using assms(1)
proof cases
  case (lock d j)
  then show ?thesis by (intro wait_inv_same [OF inv]) (auto simp: wanting_def waits_idle_def split: if_splits)
next
  case (block d j)
  have "wanting s' = wanting s - {d}" using block by (auto simp: wanting_def)
  then show ?thesis using inv block by (auto simp: wait_inv_def)
next
  case (create d j t)
  have "wanting s' = wanting s - {d}" using create by (auto simp: wanting_def)
  moreover have "\<not> waits_idle s' e" for e using inv create by (auto simp: wait_inv_def waits_idle_def split: if_splits)
  ultimately show ?thesis using inv by (auto simp: wait_inv_def)
next
  case (no_thread d j)
  have "wanting s' = wanting s - {d}" using no_thread by (auto simp: wanting_def)
  moreover have "\<not> waits_idle s' e" for e using inv no_thread by (auto simp: wait_inv_def waits_idle_def split: if_splits)
  ultimately show ?thesis using inv by (auto simp: wait_inv_def)
next
  case (pop d j t ts)
  have w: "wanting s = insert d (wanting s')" "d \<notin> wanting s'" using pop by (auto simp: wanting_def)
  have "finite (wanting s')" using inv w(1) by (simp add: wait_inv_def)
  moreover have "waits_idle s' e \<Longrightarrow> waits_idle s e" for e using pop by (auto simp: waits_idle_def split: if_splits)
  ultimately show ?thesis using inv w pop by (fastforce simp: wait_inv_def)
next
  case (signal d t j w)
  then show ?thesis by (intro wait_inv_same [OF inv]) (auto simp: wanting_def waits_idle_def split: if_splits)
qed

lemma work_wait:
  assumes "work_step s s'" and inv: "wait_inv s" and pool: "pool_inv s"
  shows "wait_inv s'"
  using assms(1)
proof cases
  case (save t)
  let ?s = "set_thr t Saved (s\<lparr>tp_idle := t # tp_idle s\<rparr>)"
  from save(4) show ?thesis
  proof cases
    case nobody
    then show ?thesis using inv by (auto simp: wait_inv_def wanting_def)
  next
    case (one d j)
    have "wanting s' = insert d (wanting s)" "d \<notin> wanting s" using one by (auto simp: wanting_def)
    moreover have "waits_idle s d" using one by (simp add: waits_idle_def)
    ultimately show ?thesis using inv one by (auto simp: wait_inv_def)
  qed
next
  case (full t)
  then show ?thesis using room_to_save [OF pool] by fastforce
next
  case (leave t)
  then show ?thesis using pool_invD(8) [OF pool] by blast
qed (rule wait_inv_same [OF inv]; simp add: wanting_def waits_idle_def)+

lemma reach_wait: "tp_reach n k s \<Longrightarrow> k = 0 \<Longrightarrow> wait_inv s"
proof (induction rule: tp_reach.induct)
  case (init s)
  then show ?case by (auto simp: create_threadpool_def wait_inv_def wanting_def waits_idle_def split: if_splits)
next
  case (step k s s')
  have "pool_inv s" using reach_inv [OF step.hyps(1)] step.prems by simp
  with step show ?case using call_wait spurious_wait disp_wait work_wait by (auto simp: tp_step_def)
qed simp

lemma reach_max: "tp_reach n k s \<Longrightarrow> tp_max s = n \<and> 0 < n"
proof (induction rule: tp_reach.induct)
  case (init s)
  then show ?case by (auto simp: create_threadpool_def split: if_splits)
next
  case (step k s s')
  then show ?case
    by (auto simp: tp_step_def elim!: call_step.cases spurious_step.cases disp_step.cases work_step.cases wake_idle.cases)
qed (auto elim: stray_stepE)

text \<open>A thread that is not parked takes a step, when nobody holds the mutex of the pool.\<close>

lemma thread_moves:
  assumes "pool_inv s" and "t \<in> threads s" and "tp_mutex s = None \<or> tp_thr s t \<noteq> Some Saving" and "tp_thr s t \<noteq> Some Waiting"
  shows "\<exists>s'. work_step s s'"
proof -
  obtain w where w: "tp_thr s t = Some w" using assms(2) by (auto simp: threads_def)
  show ?thesis
  proof (cases w)
    case Saving
    have "\<exists>s'. wake_idle (set_thr t Saved (s\<lparr>tp_idle := t # tp_idle s\<rparr>)) s'"
      using wake_idle.intros by (metis waits_idle_def)
    then show ?thesis using work_step.save room_to_save [OF assms(1)] w Saving assms(3) by blast
  qed (use w assms(4) pool_invD(8) [OF assms(1)] work_step.intros in \<open>blast+\<close>)
qed

lemma holder_moves:
  assumes "pool_inv s" and "tp_mutex s = Some d"
  shows "\<exists>s'. disp_step s s' \<or> work_step s s'"
proof -
  have "holding (tp_disp s d)" using pool_invD(5) [OF assms(1), of d] assms(2) by simp
  then consider j where "tp_disp s d = Holds j" | t j where "tp_disp s d = Signals t j" by (cases "tp_disp s d") auto
  then show ?thesis
  proof cases
    case 1
    then show ?thesis using disp_step.block disp_step.no_thread disp_step.pop by (metis linorder_not_le list.exhaust)
  next
    case 2
    then have h: "handed_thr s = Some t" using assms(2) by (simp add: handed_thr_def)
    then have p: "parked s t" using pool_invD(6) [OF assms(1)] by simp
    show ?thesis
    proof (cases "tp_thr s t = Some Saved")
      case True
      then show ?thesis using work_step.wait by blast
    next
      case False
      then have "tp_thr s t = Some Waiting" using p by (simp add: parked_def)
      then show ?thesis using disp_step.signal [OF 2] by blast
    qed
  qed
qed

text \<open>
  C9. The pool never stands still with work to do as long as no thread's wait ends by itself, a condition it
  needs (stray_wakeup_deadlocks). In every state it can then reach in which a caller is inside
  dispatch_threadpool or a thread has a job before it, some caller that is not waiting for an idle thread or
  some thread can take a step, without a wake-up from nowhere. So the two kinds of mutex, taken in different
  orders by callers and threads, do not block each other, and no wake-up gets lost.
\<close>

theorem pool_never_stuck:
  assumes "tp_reach n 0 s" and "pending s \<noteq> {} \<or> (\<exists>d. \<forall>r. tp_disp s d \<noteq> Away r)"
  shows "\<exists>s'. disp_step s s' \<or> work_step s s'"
proof (cases "tp_mutex s")
  case (Some d)
  then show ?thesis using holder_moves reach_inv [OF assms(1)] by blast
next
  case None
  have inv: "pool_inv s" using reach_inv [OF assms(1)] by simp
  have h: "handed_thr s = None" using None by (simp add: handed_thr_def)
  have moves: ?thesis if "t \<in> threads s" "t \<notin> set (tp_idle s)" for t
  proof -
    have "\<not> parked s t" using pool_invD(6) [OF inv] h that(2) by simp
    then show ?thesis using thread_moves [OF inv that(1)] None by (auto simp: parked_def)
  qed
  show ?thesis
  proof (cases "pending s = {}")
    case False
    then obtain t where t: "tp_thr s t = Some Running \<or> tp_thr s t = Some Woken" using h by (auto simp: pending_def)
    then have "t \<notin> set (tp_idle s)" using pool_invD(6) [OF inv, of t] by (auto simp: parked_def)
    then show ?thesis using moves t by (auto simp: threads_def)
  next
    case True
    then obtain d where d: "\<forall>r. tp_disp s d \<noteq> Away r" using assms(2) by blast
    have nh: "\<not> holding (tp_disp s e)" for e using pool_invD(5) [OF inv] None by simp
    show ?thesis
    proof (cases "wanting s = {}")
      case False
      then obtain e j where "tp_disp s e = Wants j" using nh by (auto simp: wanting_def) (metis holding.simps(1))
      then show ?thesis using disp_step.lock [of s e j] None by blast
    next
      case True
      then have "waits_idle s d" using d nh [of d] by (cases "tp_disp s d") (auto simp: wanting_def waits_idle_def)
      then have "tp_idle s = []" "tp_max s \<le> tp_total s" using reach_wait [OF assms(1)] True by (auto simp: wait_inv_def)
      then have "threads s \<noteq> {}" using reach_max [OF assms(1)] pool_invD(2) [OF inv] by auto
      then show ?thesis using moves \<open>tp_idle s = []\<close> by auto
    qed
  qed
qed

theorem pool_never_stuck_witness:
  "\<exists>s s' :: nat tpool. tp_reach 2 0 s \<and> tp_disp s 7 = Wants 5 \<and> (disp_step s s' \<or> work_step s s')"
proof -
  obtain s :: "nat tpool" where r: "tp_reach 2 0 s" "tp_disp s 7 = Wants 5" by (rule demo_run)
  then have "\<exists>d. \<forall>r. tp_disp s d \<noteq> Away r" by (metis dpc.distinct(1))
  then show ?thesis using pool_never_stuck [OF r(1)] r by blast
qed

end
