(* ===== verification/Intake.thy ===== *)
theory Intake
  imports Requests Pools Queue
begin

text \<open>
  The two threads that take in connections (serv/network.c): run_listener_tcp accepts, takes a block
  for the connection and puts it in a queue; run_proceed_connection takes it out, answers its one
  request and frees the block. They work in any order on the blocks of serv/block.c and the blocking
  queue of include/queue.h, while other threads change the server. A step is what one of them does
  between two points at which the other can interfere. What a connection brings is its socket, its
  address, the bytes the one recv gives and the salt of the answer.
\<close>

subsection \<open>The state\<close>

record conn =
  cn_sock :: int
  cn_addr :: "int \<times> int"
  cn_bytes :: "byte list"
  cn_salt :: byte

datatype qnode = QHead | QConn nat

text \<open>The listener before accept, with a connection it has no block for, and before the queue.\<close>

datatype lpc = Accepting | Accepted conn | Filled nat

text \<open>The worker at the queue, with a connection, and before it frees the block.\<close>

datatype ppc = Dequeuing | Taken nat | Answered nat

record intake =
  ik_pool :: block_pool
  ik_queue :: "qnode blocking_queue"
  ik_mem :: "nat \<Rightarrow> conn"
  ik_listener :: lpc
  ik_worker :: ppc
  ik_srv :: srv
  ik_out :: "(int \<times> byte list \<times> bool) list" \<comment> \<open>socket, what was sent on it, and whether it was closed\<close>
  ik_accepted :: "conn list" \<comment> \<open>the connections accepted and those answered, in order\<close>
  ik_done :: "conn list"

definition no_conn :: conn where
  "no_conn = \<lparr>cn_sock = 0, cn_addr = (0, 0), cn_bytes = [], cn_salt = 0\<rparr>"

definition intake_init :: "srv \<Rightarrow> intake option" where
  "intake_init s =
     do { bp \<leftarrow> init_block_pool 64 256 True;
          Some \<lparr>ik_pool = bp, ik_queue = blocking_queue_init QHead (\<lambda>_. \<lparr>lh_next = None, lh_prev = None\<rparr>),
                ik_mem = (\<lambda>_. no_conn), ik_listener = Accepting, ik_worker = Dequeuing, ik_srv = s, ik_out = [],
                ik_accepted = [], ik_done = []\<rparr> }"

definition enque_connection :: "nat \<Rightarrow> qnode blocking_queue \<Rightarrow> qnode blocking_queue option" where
  "enque_connection b q = blocking_enque QHead (QConn b) q"

definition deque_connection :: "qnode blocking_queue \<Rightarrow> (nat \<times> qnode blocking_queue) blocking option" where
  "deque_connection q =
     do { r \<leftarrow> blocking_deque QHead q;
          (case r of Blocked \<Rightarrow> Some Blocked
           | Done (n, q1) \<Rightarrow> (case n of Some (QConn b) \<Rightarrow> Some (Done (b, q1)) | _ \<Rightarrow> None)) }"

definition proceed :: "(string \<times> handler) list \<Rightarrow> conn \<Rightarrow> srv \<Rightarrow> ((int \<times> byte list \<times> bool) \<times> srv) option" where
  "proceed tbl c s =
     do { (out, closed, s1) \<leftarrow> proceed_connection tbl (cn_salt c) (cn_addr c) (cn_sock c) (cn_bytes c) s;
          Some ((cn_sock c, out, closed), s1) }"

subsection \<open>Steps\<close>

text \<open>A connection comes in. While there is no block the listener sleeps and tries again.\<close>

inductive intake_accept :: "intake \<Rightarrow> intake \<Rightarrow> bool" where
  "ik_listener s = Accepting \<Longrightarrow> intake_accept s (s\<lparr>ik_listener := Accepted c, ik_accepted := ik_accepted s @ [c]\<rparr>)"

text \<open>What the other threads do to the server is env.\<close>

inductive intake_other :: "(srv \<Rightarrow> srv \<Rightarrow> bool) \<Rightarrow> intake \<Rightarrow> intake \<Rightarrow> bool" for env where
  "env (ik_srv s) s1 \<Longrightarrow> intake_other env s (s\<lparr>ik_srv := s1\<rparr>)"

inductive intake_work :: "(string \<times> handler) list \<Rightarrow> intake \<Rightarrow> intake \<Rightarrow> bool" for tbl where
  fill: "ik_listener s = Accepted c \<Longrightarrow> alloc_block (ik_pool s) = Some (Some b, bp) \<Longrightarrow>
    intake_work tbl s (s\<lparr>ik_pool := bp, ik_mem := (ik_mem s)(b := c), ik_listener := Filled b\<rparr>)"
| enque: "ik_listener s = Filled b \<Longrightarrow> enque_connection b (ik_queue s) = Some q \<Longrightarrow>
    intake_work tbl s (s\<lparr>ik_queue := q, ik_listener := Accepting\<rparr>)"
| deque: "ik_worker s = Dequeuing \<Longrightarrow> deque_connection (ik_queue s) = Some (Done (b, q)) \<Longrightarrow>
    intake_work tbl s (s\<lparr>ik_queue := q, ik_worker := Taken b\<rparr>)"
| answer: "ik_worker s = Taken b \<Longrightarrow> proceed tbl (ik_mem s b) (ik_srv s) = Some (out, s1) \<Longrightarrow>
    intake_work tbl s (s\<lparr>ik_worker := Answered b, ik_srv := s1, ik_out := ik_out s @ [out], ik_done := ik_done s @ [ik_mem s b]\<rparr>)"
| free: "ik_worker s = Answered b \<Longrightarrow> free_block b (ik_pool s) = Some bp \<Longrightarrow>
    intake_work tbl s (s\<lparr>ik_pool := bp, ik_worker := Dequeuing\<rparr>)"

definition intake_step :: "(string \<times> handler) list \<Rightarrow> (srv \<Rightarrow> srv \<Rightarrow> bool) \<Rightarrow> intake \<Rightarrow> intake \<Rightarrow> bool" where
  "intake_step tbl env s s' \<longleftrightarrow> intake_accept s s' \<or> intake_other env s s' \<or> intake_work tbl s s'"

inductive intake_reach :: "(string \<times> handler) list \<Rightarrow> (srv \<Rightarrow> srv \<Rightarrow> bool) \<Rightarrow> srv \<Rightarrow> intake \<Rightarrow> bool" for tbl env s0 where
  init: "intake_init s0 = Some s \<Longrightarrow> intake_reach tbl env s0 s"
| step: "intake_reach tbl env s0 s \<Longrightarrow> intake_step tbl env s s' \<Longrightarrow> intake_reach tbl env s0 s'"

inductive_cases intake_acceptE: "intake_accept s s'"
inductive_cases intake_otherE: "intake_other env s s'"

subsection \<open>One after another\<close>

text \<open>A server that answers connections one after another.\<close>

fun serve_all :: "(string \<times> handler) list \<Rightarrow> conn list \<Rightarrow> srv \<Rightarrow> ((int \<times> byte list \<times> bool) list \<times> srv) option" where
  "serve_all tbl [] s = Some ([], s)"
| "serve_all tbl (c # cs) s = do { (x, s1) \<leftarrow> proceed tbl c s; (xs, s2) \<leftarrow> serve_all tbl cs s1; Some (x # xs, s2) }"

text \<open>The same server while other threads change it before, between and after the connections. The lists
  are the connections and the answers, in order.\<close>

inductive serve_among :: "(string \<times> handler) list \<Rightarrow> (srv \<Rightarrow> srv \<Rightarrow> bool) \<Rightarrow> srv \<Rightarrow> conn list \<Rightarrow> (int \<times> byte list \<times> bool) list \<Rightarrow> srv \<Rightarrow> bool"
  for tbl env s0 where
  start: "serve_among tbl env s0 [] [] s0"
| changed: "serve_among tbl env s0 cs xs s \<Longrightarrow> env s s1 \<Longrightarrow> serve_among tbl env s0 cs xs s1"
| served: "serve_among tbl env s0 cs xs s \<Longrightarrow> proceed tbl c s = Some (x, s1) \<Longrightarrow> serve_among tbl env s0 (cs @ [c]) (xs @ [x]) s1"

lemma serve_among_all:
  "serve_among tbl env s0 cs xs s \<Longrightarrow> serve_all tbl ds s = Some (ys, s1) \<Longrightarrow> serve_among tbl env s0 (cs @ ds) (xs @ ys) s1"
proof (induction ds arbitrary: cs xs s ys)
  case (Cons d ds)
  then obtain x s2 zs where x: "proceed tbl d s = Some (x, s2)" "serve_all tbl ds s2 = Some (zs, s1)" "ys = x # zs"
    by (auto simp: bind_Some_iff)
  from Cons.IH [OF serve_among.served [OF Cons.prems(1) x(1)] x(2)] show ?case by (simp add: x(3))
qed simp

lemma serve_all_append:
  "serve_all tbl (as @ bs) s = do { (xs, s1) \<leftarrow> serve_all tbl as s; (ys, s2) \<leftarrow> serve_all tbl bs s1; Some (xs @ ys, s2) }"
  by (induction as arbitrary: s) (auto split: option.splits bind_split simp: bind_Some_iff Option.bind_assoc split_beta)

end
