(* ===== verification/Intake_Props.thy ===== *)
theory Intake_Props
  imports Intake Request_Props
begin

text \<open>
  Taking in connections (serv/network.c) is answering them one after another: in the order they were
  accepted, each once, and every block of the pool is back when all are answered.
\<close>

subsection \<open>Blocks and connections\<close>

text \<open>The block of the worker, with its connection still to be answered, and that of the listener.\<close>

fun busy :: "ppc \<Rightarrow> nat list" where
  "busy Dequeuing = []" | "busy (Taken b) = [b]" | "busy (Answered b) = [b]"

fun in_hand :: "ppc \<Rightarrow> nat list" where
  "in_hand (Taken b) = [b]" | "in_hand _ = []"

fun filled :: "lpc \<Rightarrow> nat list" where
  "filled (Filled b) = [b]" | "filled _ = []"

fun waiting :: "lpc \<Rightarrow> conn list" where
  "waiting (Accepted c) = [c]" | "waiting _ = []"

text \<open>fs are the free blocks, xs those in the queue.\<close>

definition intake_rep :: "intake \<Rightarrow> nat list \<Rightarrow> nat list \<Rightarrow> bool" where
  "intake_rep s fs xs \<longleftrightarrow> pool_rep (ik_pool s) fs \<and> bp_limited (ik_pool s) \<and> bp_count (ik_pool s) = 256
     \<and> bq_rep QHead (ik_queue s) (map QConn xs)
     \<and> distinct (fs @ busy (ik_worker s) @ xs @ filled (ik_listener s))
     \<and> set (fs @ busy (ik_worker s) @ xs @ filled (ik_listener s)) = {..<256}"

text \<open>The connections not answered yet, in order.\<close>

definition unanswered :: "intake \<Rightarrow> nat list \<Rightarrow> conn list" where
  "unanswered s xs = map (ik_mem s) (in_hand (ik_worker s) @ xs @ filled (ik_listener s)) @ waiting (ik_listener s)"

definition intake_inv :: "intake \<Rightarrow> nat list \<Rightarrow> nat list \<Rightarrow> bool" where
  "intake_inv s fs xs \<longleftrightarrow> intake_rep s fs xs \<and> ik_accepted s = ik_done s @ unanswered s xs"

lemma init_inv: "intake_init s0 = Some s \<Longrightarrow> intake_inv s [0..<256] []"
proof -
  assume "intake_init s0 = Some s"
  moreover obtain bp where "init_block_pool 64 256 True = Some bp" "pool_rep bp [0..<256]" "bp_count bp = 256" "bp_limited bp"
    using init_block_pool_rep [of 64 256 True] by auto
  ultimately show ?thesis
    by (auto simp: intake_init_def intake_inv_def intake_rep_def unanswered_def blocking_queue_init_def bq_rep_def init_list_head_dlist)
qed

lemma deque_connection_rep:
  assumes "bq_rep QHead q (map QConn (b # xs))"
  shows "\<exists>q1. deque_connection q = Some (Done (b, q1)) \<and> bq_rep QHead q1 (map QConn xs)"
  using blocking_deque_min_takes [of QHead q "QConn b" "map QConn xs" 0] assms
  by (auto simp: deque_connection_def blocking_deque_def)

lemma deque_connection_empty: "bq_rep QHead q [] \<Longrightarrow> deque_connection q = Some Blocked"
  using blocking_deque_min_blocks [of QHead q "[]" 0] by (simp add: deque_connection_def blocking_deque_def)

lemma enque_connection_rep:
  assumes "bq_rep QHead q (map QConn xs)" and "b \<notin> set xs"
  shows "\<exists>q1. enque_connection b q = Some q1 \<and> bq_rep QHead q1 (map QConn (xs @ [b]))"
  using blocking_enque_rep [OF assms(1), of "QConn b"] assms(2) by (auto simp: enque_connection_def)

text \<open>What each step of the two threads does to blocks and connections.\<close>

lemma fill_inv:
  assumes inv: "intake_inv s fs xs" and "ik_listener s = Accepted c" and "alloc_block (ik_pool s) = Some (Some b, bp)"
  shows "\<exists>fs'. fs = b # fs' \<and> intake_inv (s\<lparr>ik_pool := bp, ik_mem := (ik_mem s)(b := c), ik_listener := Filled b\<rparr>) fs' xs"
proof -
  have rep: "pool_rep (ik_pool s) fs" "bp_limited (ik_pool s)" using inv by (simp_all add: intake_inv_def intake_rep_def)
  then obtain fs' where fs: "fs = b # fs'" using assms(3) alloc_block_empty alloc_block_rep by (cases fs) fastforce+
  moreover have "pool_rep bp fs' \<and> bp_count bp = bp_count (ik_pool s) \<and> bp_limited bp"
    using alloc_block_rep [of "ik_pool s" b fs'] rep fs assms(3) by auto
  moreover have "b \<notin> set (in_hand (ik_worker s) @ xs)"
    using inv fs by (cases "ik_worker s") (auto simp: intake_inv_def intake_rep_def)
  then have "map ((ik_mem s)(b := c)) (in_hand (ik_worker s) @ xs) = map (ik_mem s) (in_hand (ik_worker s) @ xs)" by auto
  ultimately show ?thesis
    using inv assms(2) by (auto simp: intake_inv_def intake_rep_def unanswered_def)
qed

lemma enque_inv:
  assumes inv: "intake_inv s fs xs" and "ik_listener s = Filled b" and "enque_connection b (ik_queue s) = Some q"
  shows "intake_inv (s\<lparr>ik_queue := q, ik_listener := Accepting\<rparr>) fs (xs @ [b])"
  using enque_connection_rep [of "ik_queue s" xs b] assms by (auto simp: intake_inv_def intake_rep_def unanswered_def)

lemma deque_inv:
  assumes inv: "intake_inv s fs xs" and "ik_worker s = Dequeuing" and "deque_connection (ik_queue s) = Some (Done (b, q))"
  shows "\<exists>xs'. xs = b # xs' \<and> intake_inv (s\<lparr>ik_queue := q, ik_worker := Taken b\<rparr>) fs xs'"
proof -
  have q: "bq_rep QHead (ik_queue s) (map QConn xs)" using inv by (simp add: intake_inv_def intake_rep_def)
  then obtain c xs' where xs: "xs = c # xs'" using assms(3) deque_connection_empty by (cases xs) auto
  then have "c = b" "bq_rep QHead q (map QConn xs')" using deque_connection_rep [of "ik_queue s" c xs'] q assms(3) by auto
  then show ?thesis using inv assms(2) xs by (auto simp: intake_inv_def intake_rep_def unanswered_def)
qed

lemma answer_inv:
  assumes "intake_inv s fs xs" and "ik_worker s = Taken b"
  shows "intake_inv (s\<lparr>ik_worker := Answered b, ik_srv := s1, ik_out := ys, ik_done := ik_done s @ [ik_mem s b]\<rparr>) fs xs"
  using assms by (auto simp: intake_inv_def intake_rep_def unanswered_def)

lemma free_inv:
  assumes inv: "intake_inv s fs xs" and "ik_worker s = Answered b"
  shows "\<exists>bp. free_block b (ik_pool s) = Some bp \<and> intake_inv (s\<lparr>ik_pool := bp, ik_worker := Dequeuing\<rparr>) (b # fs) xs"
proof -
  have rep: "pool_rep (ik_pool s) fs" "bp_count (ik_pool s) = 256" "b \<notin> set fs" "b \<in> {..<256}"
    using inv assms(2) by (auto simp: intake_inv_def intake_rep_def)
  then obtain bp where "free_block b (ik_pool s) = Some bp" "pool_rep bp (b # fs)" "bp_count bp = 256" "bp_limited bp = bp_limited (ik_pool s)"
    using free_block_rep [of "ik_pool s" fs b] by auto
  then show ?thesis using inv assms(2) by (auto simp: intake_inv_def intake_rep_def unanswered_def)
qed

subsection \<open>Steps of the two threads\<close>

fun lweight :: "lpc \<Rightarrow> nat" where
  "lweight Accepting = 0" | "lweight (Accepted c) = 5" | "lweight (Filled b) = 4"

fun pweight :: "ppc \<Rightarrow> nat" where
  "pweight Dequeuing = 0" | "pweight (Taken b) = 2" | "pweight (Answered b) = 1"

definition left_to_do :: "intake \<Rightarrow> nat list \<Rightarrow> nat" where
  "left_to_do s xs = lweight (ik_listener s) + 3 * length xs + pweight (ik_worker s)"

text \<open>A step answers nothing or the first connection not answered, and leaves less to do.\<close>

definition serves :: "(string \<times> handler) list \<Rightarrow> intake \<Rightarrow> intake \<Rightarrow> bool" where
  "serves tbl s s' \<longleftrightarrow> (\<exists>cs ys. serve_all tbl cs (ik_srv s) = Some (ys, ik_srv s') \<and> ik_out s' = ik_out s @ ys \<and> ik_done s' = ik_done s @ cs)
     \<and> ik_accepted s' = ik_accepted s"

lemma serves_same: "ik_srv s' = ik_srv s \<Longrightarrow> ik_out s' = ik_out s \<Longrightarrow> ik_done s' = ik_done s \<Longrightarrow> ik_accepted s' = ik_accepted s \<Longrightarrow> serves tbl s s'"
  by (auto simp: serves_def intro: exI [of _ "[]"])

lemma serves_trans:
  assumes "serves tbl s s1" and "serves tbl s1 s2"
  shows "serves tbl s s2"
proof -
  obtain cs ys where "serve_all tbl cs (ik_srv s) = Some (ys, ik_srv s1)" "ik_out s1 = ik_out s @ ys" "ik_done s1 = ik_done s @ cs"
    using assms(1) by (auto simp: serves_def)
  moreover obtain ds zs where "serve_all tbl ds (ik_srv s1) = Some (zs, ik_srv s2)" "ik_out s2 = ik_out s1 @ zs" "ik_done s2 = ik_done s1 @ ds"
    using assms(2) by (auto simp: serves_def)
  ultimately have "serve_all tbl (cs @ ds) (ik_srv s) = Some (ys @ zs, ik_srv s2)" "ik_out s2 = ik_out s @ ys @ zs" "ik_done s2 = ik_done s @ cs @ ds"
    by (simp_all add: serve_all_append)
  then show ?thesis using assms by (auto simp: serves_def)
qed

lemma work_inv:
  assumes "intake_work tbl s s'" and inv: "intake_inv s fs xs"
  shows "\<exists>fs' xs'. intake_inv s' fs' xs' \<and> serves tbl s s' \<and> left_to_do s' xs' < left_to_do s xs"
  using assms(1)
proof cases
  case (fill c b bp)
  then show ?thesis using fill_inv [OF inv fill(2,3)] serves_same [of s' s] by (auto simp: left_to_do_def)
next
  case (enque b q)
  have "left_to_do s' (xs @ [b]) < left_to_do s xs" using enque by (simp add: left_to_do_def)
  moreover have "intake_inv s' fs (xs @ [b])" using enque_inv [OF inv enque(2,3)] enque(1) by simp
  ultimately show ?thesis using serves_same [of s' s] enque(1) by fastforce
next
  case (deque b q)
  obtain xs' where xs: "xs = b # xs'" "intake_inv s' fs xs'" using deque_inv [OF inv deque(2,3)] deque(1) by blast
  then have "left_to_do s' xs' < left_to_do s xs" using deque by (simp add: left_to_do_def)
  then show ?thesis using xs(2) serves_same [of s' s] deque(1) by fastforce
next
  case (answer b out s1)
  have "serves tbl s s'" using answer by (auto simp: serves_def intro!: exI [of _ "[ik_mem s b]"] exI [of _ "[out]"])
  moreover have "intake_inv s' fs xs" unfolding answer(1) by (rule answer_inv [OF inv answer(2)])
  ultimately show ?thesis using answer by (auto simp: left_to_do_def)
next
  case (free b bp)
  obtain bp' where "free_block b (ik_pool s) = Some bp'" "intake_inv (s\<lparr>ik_pool := bp', ik_worker := Dequeuing\<rparr>) (b # fs) xs"
    using free_inv [OF inv free(2)] by blast
  then have "intake_inv s' (b # fs) xs" using free by simp
  moreover have "left_to_do s' xs < left_to_do s xs" using free by (simp add: left_to_do_def)
  ultimately show ?thesis using serves_same [of s' s] free(1) by fastforce
qed

text \<open>While a connection is not answered or a block not freed, one of the threads takes a step, unless
  the handler faults.\<close>

lemma work_progress:
  assumes inv: "intake_inv s fs xs" and "serve_all tbl (unanswered s xs) (ik_srv s) \<noteq> None"
    and "unanswered s xs \<noteq> [] \<or> ik_worker s \<noteq> Dequeuing"
  shows "\<exists>s'. intake_work tbl s s'"
proof (cases "ik_worker s")
  case (Taken b)
  then have "proceed tbl (ik_mem s b) (ik_srv s) \<noteq> None" using assms(2) by (auto simp: unanswered_def)
  then obtain out s1 where "proceed tbl (ik_mem s b) (ik_srv s) = Some (out, s1)" by auto
  then show ?thesis using intake_work.answer [OF Taken] by blast
next
  case (Answered b)
  then show ?thesis using free_inv [OF inv Answered] intake_work.free [OF Answered] by blast
next
  case Dequeuing
  show ?thesis
  proof (cases xs)
    case (Cons b ys)
    then have "\<exists>q. deque_connection (ik_queue s) = Some (Done (b, q))"
      using deque_connection_rep [of "ik_queue s" b ys] inv by (auto simp: intake_inv_def intake_rep_def)
    then show ?thesis using intake_work.deque [OF Dequeuing] by blast
  next
    case Nil
    show ?thesis
    proof (cases "ik_listener s")
      case Accepting
      then show ?thesis using assms(3) Dequeuing Nil by (simp add: unanswered_def)
    next
      case (Accepted c)
      then have "pool_rep (ik_pool s) fs" "set fs = {..<256}" using inv Dequeuing Nil by (simp_all add: intake_inv_def intake_rep_def)
      then have "0 \<in> set fs" by simp
      then obtain b fs' where "fs = b # fs'" by (cases fs) auto
      then obtain bp where "alloc_block (ik_pool s) = Some (Some b, bp)"
        using alloc_block_rep [of "ik_pool s" b fs'] \<open>pool_rep (ik_pool s) fs\<close> by auto
      then show ?thesis using intake_work.fill [OF Accepted] by blast
    next
      case (Filled b)
      then have "\<exists>q. enque_connection b (ik_queue s) = Some q"
        using enque_connection_rep [of "ik_queue s" xs b] inv Nil by (auto simp: intake_inv_def intake_rep_def)
      then show ?thesis using intake_work.enque [OF Filled] by blast
    qed
  qed
qed

lemma reach_intake: "intake_reach tbl env s0 s \<Longrightarrow> \<exists>fs xs. intake_inv s fs xs"
proof (induction rule: intake_reach.induct)
  case (init s)
  then show ?case using init_inv by blast
next
  case (step s s')
  then obtain fs xs where inv: "intake_inv s fs xs" by blast
  have "intake_inv s' fs xs" if "intake_accept s s'"
    using that inv by (auto elim!: intake_acceptE simp: intake_inv_def intake_rep_def unanswered_def)
  moreover have "intake_inv s' fs xs" if "intake_other env s s'"
    using that inv by (auto elim!: intake_otherE simp: intake_inv_def intake_rep_def unanswered_def)
  moreover have "\<exists>fs' xs'. intake_inv s' fs' xs'" if "intake_work tbl s s'" using work_inv [OF that inv] by blast
  ultimately show ?case using step.hyps(2) by (auto simp: intake_step_def)
qed


lemma unanswered_length: "intake_inv s fs xs \<Longrightarrow> length (unanswered s xs) \<le> 257 \<and> left_to_do s xs \<le> 5 * length (unanswered s xs) + 1"
proof -
  assume "intake_inv s fs xs"
  then have "distinct (in_hand (ik_worker s) @ xs @ filled (ik_listener s))" "set (in_hand (ik_worker s) @ xs @ filled (ik_listener s)) \<subseteq> {..<256}"
    by (cases "ik_worker s"; auto simp: intake_inv_def intake_rep_def)+
  then have "length (in_hand (ik_worker s) @ xs @ filled (ik_listener s)) \<le> 256"
    by (metis card_lessThan card_mono distinct_card finite_lessThan)
  then show ?thesis by (cases "ik_worker s"; cases "ik_listener s") (auto simp: unanswered_def left_to_do_def)
qed


subsection \<open>All are answered\<close>

lemma work_run:
  assumes "(intake_work tbl ^^ k) s s'" and "intake_inv s fs xs" and "serve_all tbl (unanswered s xs) (ik_srv s) = Some (ys, s1)"
  shows "\<exists>fs' xs' zs. intake_inv s' fs' xs' \<and> k + left_to_do s' xs' \<le> left_to_do s xs \<and> ik_accepted s' = ik_accepted s
    \<and> serve_all tbl (unanswered s' xs') (ik_srv s') = Some (zs, s1) \<and> ik_out s' @ zs = ik_out s @ ys"
  using assms
proof (induction k arbitrary: s')
  case 0
  then show ?case by auto
next
  case (Suc k)
  then obtain s2 where s2: "(intake_work tbl ^^ k) s s2" "intake_work tbl s2 s'" by auto
  obtain fs2 xs2 zs where h: "intake_inv s2 fs2 xs2" "k + left_to_do s2 xs2 \<le> left_to_do s xs" "ik_accepted s2 = ik_accepted s"
    "serve_all tbl (unanswered s2 xs2) (ik_srv s2) = Some (zs, s1)" "ik_out s2 @ zs = ik_out s @ ys"
    using Suc.IH [OF s2(1) Suc.prems(2,3)] by auto
  obtain fs' xs' where w: "intake_inv s' fs' xs'" "serves tbl s2 s'" "left_to_do s' xs' < left_to_do s2 xs2"
    using work_inv [OF s2(2) h(1)] by blast
  obtain cs us where c: "serve_all tbl cs (ik_srv s2) = Some (us, ik_srv s')" "ik_out s' = ik_out s2 @ us" "ik_done s' = ik_done s2 @ cs"
    using w(2) by (auto simp: serves_def)
  have "ik_accepted s' = ik_accepted s2" using w(2) by (simp add: serves_def)
  then have "unanswered s2 xs2 = cs @ unanswered s' xs'" using w(1) h(1) c(3) by (simp add: intake_inv_def)
  then obtain vs where "serve_all tbl (unanswered s' xs') (ik_srv s') = Some (vs, s1)" "zs = us @ vs"
    using h(4) c(1) by (auto simp: serve_all_append bind_Some_iff)
  then show ?case using w h c \<open>ik_accepted s' = ik_accepted s2\<close> by (intro exI [of _ fs'] exI [of _ xs'] exI [of _ vs]) auto
qed

text \<open>
  C13. Every connection accepted is answered: from any state the threads can reach, when no further connection
  comes in and no handler faults on those waiting, the two threads take at most five steps for each and
  one more; where they can take no step, all are answered, in order, as by a server that handles one
  after another, and all 256 blocks are free again.
\<close>

theorem connections_all_answered:
  assumes "intake_reach tbl env s0 s" and "ik_accepted s = ik_done s @ rest"
    and "serve_all tbl rest (ik_srv s) = Some (ys, s1)" and "(intake_work tbl ^^ k) s s'"
  shows "k \<le> 5 * length rest + 1
    \<and> ((\<exists>s2. intake_work tbl s' s2)
      \<or> ik_done s' = ik_accepted s \<and> ik_out s' = ik_out s @ ys \<and> ik_srv s' = s1 \<and> set (free_list (ik_pool s')) = {..<256})"
proof -
  obtain fs xs where inv: "intake_inv s fs xs" using reach_intake [OF assms(1)] by blast
  then have rest: "rest = unanswered s xs" using assms(2) by (simp add: intake_inv_def)
  obtain fs' xs' zs where r: "intake_inv s' fs' xs'" "k + left_to_do s' xs' \<le> left_to_do s xs" "ik_accepted s' = ik_accepted s"
    "serve_all tbl (unanswered s' xs') (ik_srv s') = Some (zs, s1)" "ik_out s' @ zs = ik_out s @ ys"
    using work_run [OF assms(4) inv] assms(3) rest by auto
  have "ik_done s' = ik_accepted s \<and> ik_out s' = ik_out s @ ys \<and> ik_srv s' = s1 \<and> set (free_list (ik_pool s')) = {..<256}"
    if "\<not> (\<exists>s2. intake_work tbl s' s2)"
  proof -
    have u: "unanswered s' xs' = []" "ik_worker s' = Dequeuing" using work_progress [OF r(1)] r(4) that by auto
    then have "set fs' = {..<256}" "pool_rep (ik_pool s') fs'"
      using r(1) by (cases "ik_listener s'"; auto simp: intake_inv_def intake_rep_def unanswered_def)+
    then show ?thesis using u r free_list_rep by (auto simp: intake_inv_def)
  qed
  then show ?thesis using r(2) unanswered_length [OF inv] rest by auto
qed

text \<open>Device 7 asks for the microphone of the demo server, and the threads run to the end.\<close>

lemma run_to_end:
  assumes "intake_inv s fs xs"
  shows "\<exists>k s'. (intake_work tbl ^^ k) s s' \<and> \<not> (\<exists>s2. intake_work tbl s' s2)"
  using assms
proof (induction "left_to_do s xs" arbitrary: s fs xs rule: less_induct)
  case less
  show ?case
  proof (cases "\<exists>s2. intake_work tbl s s2")
    case True
    then obtain s2 fs2 xs2 where w: "intake_work tbl s s2" "intake_inv s2 fs2 xs2" "left_to_do s2 xs2 < left_to_do s xs"
      using work_inv [OF _ less.prems] by blast
    then obtain k s' where "(intake_work tbl ^^ k) s2 s'" "\<not> (\<exists>s2. intake_work tbl s' s2)" using less.hyps by blast
    then show ?thesis using relpowp_Suc_I2 [of "intake_work tbl" s s2 k s'] w(1) by blast
  next
    case False
    then show ?thesis by (intro exI [of _ 0] exI [of _ s]) simp
  qed
qed


lemma demo_conn_served:
  obtains req out s1 where
    "serve_all demo_tbl [\<lparr>cn_sock = 4, cn_addr = (0, 0), cn_bytes = req, cn_salt = 0x33\<rparr>] demo = Some ([(4, out, True)], s1)"
    "d_open (dev s1 7) = 1"
proof -
  obtain req where req: "encode 0x5A (to_bytes (cmd_line (num_str 7 # ''discctrl'' # [''request'', ''1'']))) = Some req"
    using decode_encode by blast
  obtain c1 s1 where h: "cmd_discctrl (request_cmd 7 ''discctrl'' [''request'', ''1''] (0, 0) 4) demo = Some (0, c1, s1)"
    "c_rep c1 = ''7 discctrl request 1 OK'' @ newline" "c_sock c1 = 4" "d_open (dev s1 7) = 1"
    using demo_request_served by (auto split: option.splits)
  have "length (c_rep c1) < BUFLEN" using h(2) by (simp add: newline_def BUFLEN_def)
  then obtain out where "do_send 0x33 (c_rep c1) = Some out" using do_send_coded by blast
  moreover have "handle_cmd demo_tbl (request_cmd 7 ''discctrl'' [''request'', ''1''] (0, 0) 4) demo = Some (0, c1, s1)"
    using h(1) demo_tbl_names(1) by (simp add: handle_cmd_def request_cmd_def)
  ultimately have "proceed_connection demo_tbl 0x33 (0, 0) 4 req demo = Some (out, True, s1)"
    using proceed_request [OF demo_request_ok(1) _ req] h(2,3) by simp
  then show thesis using that [of req out s1] h(4) by (simp add: proceed_def)
qed

lemma demo_intake:
  obtains s where "intake_reach tbl env demo s" "ik_accepted s = [c]" "ik_done s = []" "ik_out s = []" "ik_srv s = demo"
proof -
  obtain s0 where s0: "intake_init demo = Some s0" "ik_listener s0 = Accepting" "ik_accepted s0 = []" "ik_done s0 = []" "ik_out s0 = []" "ik_srv s0 = demo"
    using init_block_pool_rep [of 64 256 True] by (auto simp: intake_init_def)
  from intake_accept.intros [OF s0(2), of c]
  have "intake_reach tbl env demo (s0\<lparr>ik_listener := Accepted c, ik_accepted := ik_accepted s0 @ [c]\<rparr>)"
    using intake_reach.step [OF intake_reach.init [OF s0(1)]] by (simp add: intake_step_def)
  then show thesis using that s0 by simp
qed

theorem connections_all_answered_witness:
  "\<exists>s rest ys s1 k s'. intake_reach demo_tbl (\<lambda>_ _. True) demo s \<and> ik_accepted s = ik_done s @ rest \<and> length rest = 1
    \<and> serve_all demo_tbl rest (ik_srv s) = Some (ys, s1) \<and> (intake_work demo_tbl ^^ k) s s' \<and> k \<le> 6
    \<and> ik_done s' = ik_accepted s \<and> ik_out s' = ik_out s @ ys \<and> ik_srv s' = s1 \<and> d_open (dev s1 7) = 1
    \<and> set (free_list (ik_pool s')) = {..<256}"
proof -
  obtain req out s1 where d: "d_open (dev s1 7) = 1"
    "serve_all demo_tbl [\<lparr>cn_sock = 4, cn_addr = (0, 0), cn_bytes = req, cn_salt = 0x33\<rparr>] demo = Some ([(4, out, True)], s1)"
    (is "serve_all _ [?c] _ = _") by (rule demo_conn_served)
  obtain s where s: "intake_reach demo_tbl (\<lambda>_ _. True) demo s" "ik_accepted s = [?c]" "ik_done s = []" "ik_out s = []" "ik_srv s = demo"
    by (rule demo_intake)
  obtain k s' where k: "(intake_work demo_tbl ^^ k) s s'" "\<not> (\<exists>s2. intake_work demo_tbl s' s2)"
    using reach_intake [OF s(1)] run_to_end by blast
  have "ik_accepted s = ik_done s @ [?c]" "serve_all demo_tbl [?c] (ik_srv s) = Some ([(4, out, True)], s1)" using s d by simp_all
  from connections_all_answered [OF s(1) this k(1)] k(2)
  show ?thesis using s k(1) d
    by (intro exI [of _ s] exI [of _ "[?c]"] exI [of _ "[(4, out, True)]"] exI [of _ s1] exI [of _ k] exI [of _ s']) auto
qed



end
