(* ===== verification/Sending.thy ===== *)
theory Sending
  imports Brcmd Pools Requests
begin

text \<open>
  What the threads of the pool do for the server: commands to a device (serv/async.c, sendto_dev_tcp of
  serv/network.c), each in a block of its own, and broadcasts (serv/brcmd.c), each repeated. The pool
  runs the jobs in any order (Threadpool); here a job is the block of a command, or the data of a
  broadcast. rand() is the salt.
\<close>

subsection \<open>Commands to a device\<close>

definition THREADS :: nat where "THREADS = 128"
definition BLKSZ :: nat where "BLKSZ = 10240"

text \<open>The blocks, what is in them (the device and the command), and the jobs handed to the pool.\<close>

record async =
  as_pool :: block_pool
  as_args :: "nat \<Rightarrow> int \<times> string"
  as_jobs :: "nat list"

definition async_init :: "async option" where
  "async_init =
     do { bp \<leftarrow> init_block_pool BLKSZ THREADS True; Some \<lparr>as_pool = bp, as_args = (\<lambda>_. (0, [])), as_jobs = []\<rparr> }"

text \<open>Nothing is sent, the caller sleeps and tries again, or the job is handed over.\<close>

datatype async_result = Dropped | Sleeps | Handed nat

definition async_sendto_dev :: "string \<Rightarrow> int \<Rightarrow> srv \<Rightarrow> async \<Rightarrow> (async_result \<times> async) option" where
  "async_sendto_dev x d s q =
     (if d_active (dev s d) = 0 \<and> d \<noteq> 1 then Some (Dropped, q)
      else if length x > BLKSZ - 100 then Some (Dropped, q)
      else do { (b, bp) \<leftarrow> alloc_block (as_pool q);
                (case b of None \<Rightarrow> Some (Sleeps, q)
                 | Some n \<Rightarrow> Some (Handed n, q\<lparr>as_pool := bp, as_args := (as_args q)(n := (d, x)), as_jobs := as_jobs q @ [n]\<rparr>)) })"

text \<open>What goes over the connection; conn says whether it was made.\<close>

definition sendto_dev_tcp :: "bool \<Rightarrow> byte \<Rightarrow> string \<Rightarrow> byte list option" where
  "sendto_dev_tcp conn salt x = (if conn then do_send salt x else Some [])"

text \<open>The job of a block: the device, what was sent to it, and the block freed.\<close>

definition sendto_dev_job :: "bool \<Rightarrow> byte \<Rightarrow> nat \<Rightarrow> async \<Rightarrow> ((int \<times> byte list) \<times> async) option" where
  "sendto_dev_job conn salt n q =
     (let (d, x) = as_args q n
      in do { out \<leftarrow> sendto_dev_tcp conn salt x;
              bp \<leftarrow> free_block n (as_pool q);
              Some ((d, out), q\<lparr>as_pool := bp, as_jobs := remove1 n (as_jobs q)\<rparr>) })"

subsection \<open>Broadcasts\<close>

definition REPEAT :: nat where "REPEAT = 10"

text \<open>The datagrams of run_brcast with the seconds it sleeps after each.\<close>

definition run_brcast :: "byte list \<Rightarrow> (byte list \<times> nat) list" where
  "run_brcast bs = map (\<lambda>i. (bs, if i = REPEAT - 1 then 0 else if i < 2 then 1 else 2)) [0..<REPEAT]"

text \<open>run_brcast_loop, by what it finds in the flag stop each time: the datagrams, and whether it ended.\<close>

fun run_brcast_loop :: "bool list \<Rightarrow> byte list \<Rightarrow> (byte list \<times> nat) list \<times> bool" where
  "run_brcast_loop [] bs = ([], False)"
| "run_brcast_loop (stop # fs) bs =
     (if stop then ([], True) else (let (ds, e) = run_brcast_loop fs bs in ((bs, 1) # ds, e)))"

text \<open>The broadcasts that go on until they are stopped: the datagram in the trace stands for the loop; the
  result says whether there is one to stop.\<close>

definition async_brcast_loop :: "int \<Rightarrow> bmode \<Rightarrow> payload \<Rightarrow> srv \<Rightarrow> bool \<times> srv" where
  "async_brcast_loop len mode p s = (len \<le> CMD_MAX - 100, async_brcast len mode p s)"

definition brcast_cmd_to_all_loop :: "cmd \<Rightarrow> srv \<Rightarrow> bool \<times> srv" where
  "brcast_cmd_to_all_loop c s = async_brcast_loop (UCMD_HEAD + (int (length (c_rep c)) + 1)) ModeAll (Text (c_rep c)) s"

definition brcast_cmd_to_multi_loop :: "cmd \<Rightarrow> int list \<Rightarrow> srv \<Rightarrow> bool \<times> srv" where
  "brcast_cmd_to_multi_loop c ids s =
     async_brcast_loop (UCMD_HEAD + (4 + 4 * int (length ids) + int (length (c_rep c)) + 1)) (ModeMulti ids) (Text (c_rep c)) s"

text \<open>A broadcast takes ten datagrams and sixteen seconds.\<close>

lemma run_brcast_time: "map fst (run_brcast bs) = replicate 10 bs \<and> sum_list (map snd (run_brcast bs)) = 16"
by (simp add: run_brcast_def REPEAT_def numeral_eq_Suc)

lemma run_brcast_loop_stops: "run_brcast_loop (replicate n False @ True # fs) bs = (replicate n (bs, 1), True)"
  by (induction n) auto

subsection \<open>The callers and the threads\<close>

text \<open>A command is handed over by some caller, or some thread does a job. The commands taken in, as the callers
  gave them, and what went out are kept: to which device, whether the connection was made, and the bytes. A
  caller that is told to sleep, or whose command is dropped, changes nothing.\<close>

record sending =
  sn_async :: async
  sn_taken :: "(int \<times> string) list"
  sn_sent :: "(int \<times> bool \<times> byte list) list"

inductive send_step :: "sending \<Rightarrow> sending \<Rightarrow> bool" where
  hand: "async_sendto_dev x d s (sn_async q) = Some (Handed n, a) \<Longrightarrow>
    send_step q (q\<lparr>sn_async := a, sn_taken := sn_taken q @ [(d, x)]\<rparr>)"
| job: "n \<in> set (as_jobs (sn_async q)) \<Longrightarrow> sendto_dev_job conn salt n (sn_async q) = Some ((d, out), a) \<Longrightarrow>
    send_step q (q\<lparr>sn_async := a, sn_sent := sn_sent q @ [(d, conn, out)]\<rparr>)"

text \<open>What went out is a command: to its device, and over a connection its text, coded.\<close>

fun carries :: "int \<times> string \<Rightarrow> int \<times> bool \<times> byte list \<Rightarrow> bool" where
  "carries (d, x) (e, conn, out) \<longleftrightarrow> e = d \<and> (if conn then decode out = Some (to_bytes x) else out = [])"

inductive send_reach :: "sending \<Rightarrow> bool" where
  init: "async_init = Some a \<Longrightarrow> send_reach \<lparr>sn_async = a, sn_taken = [], sn_sent = []\<rparr>"
| step: "send_reach q \<Longrightarrow> send_step q q' \<Longrightarrow> send_reach q'"

end
