(* ===== verification/Sending_Props.thy ===== *)
theory Sending_Props
  imports Sending Client_Msg "HOL-Library.Multiset"
begin

text \<open>
  What the threads guarantee: a block is never overrun, commands taken in are sent once each, a caller
  waits only while all blocks are out, and what is sent is what a client handles. Broadcasts are handled
  once by every client that gets at least one of the copies.
\<close>

subsection \<open>Blocks and jobs\<close>

definition async_inv :: "async \<Rightarrow> bool" where
  "async_inv q \<longleftrightarrow> (\<exists>fs. pool_rep (as_pool q) fs \<and> bp_limited (as_pool q) \<and> bp_count (as_pool q) = THREADS
     \<and> distinct (fs @ as_jobs q) \<and> set (fs @ as_jobs q) = {..<THREADS})
     \<and> (\<forall>n \<in> set (as_jobs q). length (snd (as_args q n)) \<le> BLKSZ - 100)"

lemma async_init_inv: "\<exists>q :: async. async_init = Some q \<and> async_inv q \<and> as_jobs q = []"
proof -
  obtain bp where "init_block_pool BLKSZ THREADS True = Some bp" "pool_rep bp [0..<THREADS]" "bp_count bp = THREADS" "bp_limited bp"
    using init_block_pool_rep [of BLKSZ THREADS True] by auto
  then show ?thesis by (auto simp: async_init_def async_inv_def intro!: exI [of _ "[0..<THREADS]"])
qed

text \<open>A command for an active device gets a block unless all are out.\<close>

lemma async_hands:
  assumes "async_inv q" and "d_active (dev s d) \<noteq> 0 \<or> d = 1" and "length x \<le> BLKSZ - 100" and "length (as_jobs q) < THREADS"
  shows "\<exists>n a. async_sendto_dev x d s q = Some (Handed n, a) \<and> async_inv a \<and> n \<notin> set (as_jobs q)
    \<and> as_jobs a = as_jobs q @ [n] \<and> as_args a = (as_args q)(n := (d, x))"
proof -
  obtain fs where fs: "pool_rep (as_pool q) fs" "bp_limited (as_pool q)" "bp_count (as_pool q) = THREADS"
    "distinct (fs @ as_jobs q)" "set (fs @ as_jobs q) = {..<THREADS}" using assms(1) by (auto simp: async_inv_def)
  have "length (fs @ as_jobs q) = THREADS" using distinct_card [OF fs(4)] fs(5) by simp
  then obtain n fs' where n: "fs = n # fs'" using assms(4) by (cases fs) auto
  then obtain bp where "alloc_block (as_pool q) = Some (Some n, bp)" "pool_rep bp fs'" "bp_count bp = THREADS" "bp_limited bp"
    using alloc_block_rep [of "as_pool q" n fs'] fs by auto
  then show ?thesis using assms fs n
    by (auto simp: async_sendto_dev_def async_inv_def intro!: exI [of _ fs'])
qed

lemma async_handed:
  assumes "async_sendto_dev x d s q = Some (Handed n, a)" and "async_inv q"
  shows "async_inv a \<and> n \<notin> set (as_jobs q) \<and> as_jobs a = as_jobs q @ [n] \<and> as_args a = (as_args q)(n := (d, x))"
proof -
  obtain fs where fs: "pool_rep (as_pool q) fs" "bp_limited (as_pool q)" "distinct (fs @ as_jobs q)" "set (fs @ as_jobs q) = {..<THREADS}"
    using assms(2) by (auto simp: async_inv_def)
  have ok: "d_active (dev s d) \<noteq> 0 \<or> d = 1" "length x \<le> BLKSZ - 100" and "\<exists>bp. alloc_block (as_pool q) = Some (Some n, bp)"
    using assms(1) by (auto simp: async_sendto_dev_def bind_Some_iff split: if_splits option.splits)
  then have "fs \<noteq> []" using alloc_block_empty fs(1,2) by fastforce
  moreover have "length (fs @ as_jobs q) = THREADS" using distinct_card [OF fs(3)] fs(4) by simp
  ultimately have "length (as_jobs q) < THREADS" by (cases fs) auto
  from async_hands [OF assms(2) ok this] assms(1) show ?thesis by auto
qed

lemma job_done:
  assumes "async_inv q" and "n \<in> set (as_jobs q)"
  shows "\<exists>out a. sendto_dev_job conn salt n q = Some ((fst (as_args q n), out), a) \<and> async_inv a \<and> as_jobs a = remove1 n (as_jobs q)
    \<and> as_args a = as_args q \<and> (conn \<longrightarrow> do_send salt (snd (as_args q n)) = Some out) \<and> (\<not> conn \<longrightarrow> out = [])"
proof -
  obtain fs where fs: "pool_rep (as_pool q) fs" "bp_limited (as_pool q)" "bp_count (as_pool q) = THREADS"
    "distinct (fs @ as_jobs q)" "set (fs @ as_jobs q) = {..<THREADS}" using assms(1) by (auto simp: async_inv_def)
  have n: "n \<notin> set fs" "n < THREADS" using fs(4,5) assms(2) by auto
  obtain bp where bp: "free_block n (as_pool q) = Some bp" "pool_rep bp (n # fs)" "bp_count bp = THREADS" "bp_limited bp"
    using free_block_rep [OF fs(1) n(1)] n(2) fs(2,3) by auto
  have "length (snd (as_args q n)) \<le> BLKSZ - 100" using assms by (auto simp: async_inv_def)
  then have "length (snd (as_args q n)) < BUFLEN" by (simp add: BLKSZ_def BUFLEN_def)
  then obtain out where out: "do_send salt (snd (as_args q n)) = Some out" using do_send_coded by blast
  have "set (n # fs @ remove1 n (as_jobs q)) = {..<THREADS}" "distinct (n # fs @ remove1 n (as_jobs q))"
    using fs(4,5) assms(2) n by (auto simp: distinct_remove1)
  moreover have "\<forall>m \<in> set (remove1 n (as_jobs q)). length (snd (as_args q m)) \<le> BLKSZ - 100"
    using assms(1) by (auto simp: async_inv_def dest: notin_set_remove1 [THEN contrapos_nn] set_remove1_subset [THEN subsetD])
  ultimately have "async_inv (q\<lparr>as_pool := bp, as_jobs := remove1 n (as_jobs q)\<rparr>)"
    using bp by (auto simp: async_inv_def intro!: exI [of _ "n # fs"])
  then show ?thesis using bp(1) out by (auto simp: sendto_dev_job_def sendto_dev_tcp_def split_beta)
qed

text \<open>The commands cs have been sent, each as the entry of sn_sent in its place.\<close>

lemma reach_sending:
  assumes "send_reach q"
  shows "async_inv (sn_async q) \<and> (\<exists>cs. list_all2 carries cs (sn_sent q)
    \<and> mset (sn_taken q) = mset cs + image_mset (as_args (sn_async q)) (mset (as_jobs (sn_async q))))"
  using assms
proof (induction rule: send_reach.induct)
  case (init a)
  obtain q :: async where "async_init = Some q" "async_inv q" "as_jobs q = []" using async_init_inv by blast
  moreover from this have "a = q" using init by (metis option.inject)
  ultimately show ?case by simp
next
  case (step q q')
  then obtain cs where cs: "list_all2 carries cs (sn_sent q)"
    "mset (sn_taken q) = mset cs + image_mset (as_args (sn_async q)) (mset (as_jobs (sn_async q)))" by blast
  from step.hyps(2) show ?case
  proof cases
    case (hand x d s n a)
    from async_handed [OF hand(2)] step.IH
    have a: "async_inv a" "n \<notin> set (as_jobs (sn_async q))" "as_jobs a = as_jobs (sn_async q) @ [n]" "as_args a = (as_args (sn_async q))(n := (d, x))"
      by auto
    have "image_mset (as_args a) (mset (as_jobs (sn_async q))) = image_mset (as_args (sn_async q)) (mset (as_jobs (sn_async q)))"
      using a(2,4) by (intro image_mset_cong) auto
    moreover have "as_args a n = (d, x)" using a(4) by simp
    ultimately have "image_mset (as_args a) (mset (as_jobs a)) = add_mset (d, x) (image_mset (as_args (sn_async q)) (mset (as_jobs (sn_async q))))"
      by (simp add: a(3))
    then show ?thesis using a(1) hand(1) cs by (auto intro!: exI [of _ cs])
  next
    case (job n conn salt d out a)
    from job_done [of "sn_async q" n conn salt] job step.IH
    have a: "async_inv a" "as_jobs a = remove1 n (as_jobs (sn_async q))" "as_args a = as_args (sn_async q)"
      "d = fst (as_args (sn_async q) n)" "conn \<longrightarrow> do_send salt (snd (as_args (sn_async q) n)) = Some out" "\<not> conn \<longrightarrow> out = []" by auto
    have "conn \<longrightarrow> decode out = Some (to_bytes (snd (as_args (sn_async q) n)))"
    proof
      assume conn
      then have s: "do_send salt (snd (as_args (sn_async q) n)) = Some out" using a(5) by simp
      then have "length (snd (as_args (sn_async q) n)) < BUFLEN" by (simp add: do_send_def bind_eq_Some_conv split: if_splits)
      from do_send_coded [OF this, of salt] s show "decode out = Some (to_bytes (snd (as_args (sn_async q) n)))" by auto
    qed
    then have "carries (as_args (sn_async q) n) (d, conn, out)" using a(4,6) by (cases "as_args (sn_async q) n") simp
    then have l: "list_all2 carries (cs @ [as_args (sn_async q) n]) (sn_sent q')" using cs(1) job(1) by (simp add: list_all2_appendI)
    have "mset (as_jobs (sn_async q)) = add_mset n (mset (as_jobs a))" using job(2) a(2) by simp
    then have "image_mset (as_args (sn_async q)) (mset (as_jobs (sn_async q)))
        = add_mset (as_args (sn_async q) n) (image_mset (as_args (sn_async q)) (mset (as_jobs a)))" by (metis image_mset_add_mset)
    then show ?thesis using a(1,3) job(1) cs(2) l by (auto intro!: exI [of _ "cs @ [as_args (sn_async q) n]"])
  qed
qed

text \<open>
  C11. Commands to devices are sent once each: whatever callers and threads do in whatever order, the commands
  taken in, each a device and a text, are those that went out and those whose block waits for a thread,
  each as often as it was taken in. Each that went out went to its device, and where the connection was
  made the bytes decode to its text; where it was not, nothing was sent. No two of those that wait share a
  block, and a caller is told to sleep only while all 128 blocks are out.
\<close>

theorem commands_sent_once:
  assumes "send_reach q"
  shows "(\<exists>cs. list_all2 carries cs (sn_sent q)
      \<and> mset (sn_taken q) = mset cs + image_mset (as_args (sn_async q)) (mset (as_jobs (sn_async q))))
    \<and> distinct (as_jobs (sn_async q))
    \<and> (async_sendto_dev x d s (sn_async q) = Some (Sleeps, a) \<longrightarrow> length (as_jobs (sn_async q)) = THREADS)"
proof -
  have inv: "async_inv (sn_async q)" using reach_sending [OF assms] by simp
  then obtain fs where fs: "distinct (fs @ as_jobs (sn_async q))" "set (fs @ as_jobs (sn_async q)) = {..<THREADS}" by (auto simp: async_inv_def)
  have le: "length (as_jobs (sn_async q)) \<le> THREADS" using distinct_card [OF fs(1)] fs(2) by simp
  have "length (as_jobs (sn_async q)) = THREADS" if sl: "async_sendto_dev x d s (sn_async q) = Some (Sleeps, a)"
  proof (rule ccontr)
    assume "length (as_jobs (sn_async q)) \<noteq> THREADS"
    then have "length (as_jobs (sn_async q)) < THREADS" using le by simp
    moreover have "d_active (dev s d) \<noteq> 0 \<or> d = 1" "length x \<le> BLKSZ - 100"
      using sl by (auto simp: async_sendto_dev_def split: if_splits)
    ultimately show False using async_hands [OF inv, of s d x] sl by auto
  qed
  then show ?thesis using reach_sending [OF assms] fs(1) by simp
qed

text \<open>A command for device 7 is handed over, and a thread sends it.\<close>

theorem commands_sent_once_witness:
  "\<exists>q out. send_reach q \<and> sn_taken q = [(7, ''hello'')] \<and> as_jobs (sn_async q) = [] \<and> sn_sent q = [(7, True, out)]
    \<and> decode out = Some (to_bytes ''hello'')"
proof -
  obtain a where a: "async_init = Some a" "async_inv a" "as_jobs a = []" using async_init_inv by auto
  have "d_active (dev demo 7) \<noteq> 0 \<or> (7 :: int) = 1" "length ''hello'' \<le> BLKSZ - 100" "length (as_jobs a) < THREADS"
    using a(3) by (simp_all add: demo_def demo_dev_def fresh_dev_def BLKSZ_def THREADS_def)
  from async_hands [OF a(2) this] obtain n b where b: "async_sendto_dev ''hello'' 7 demo a = Some (Handed n, b)" "as_jobs b = [n]"
    "async_inv b" "as_args b = (as_args a)(n := (7, ''hello''))" using a(3) by auto
  let ?q = "\<lparr>sn_async = b, sn_taken = [(7, ''hello'')], sn_sent = []\<rparr>"
  have q: "send_reach ?q"
    using send_reach.step [OF send_reach.init [OF a(1)] send_step.hand, of "''hello''" 7 demo n b] b(1) by simp
  obtain out c where c: "sendto_dev_job True 0x33 n b = Some ((7, out), c)" "as_jobs c = []"
    using job_done [OF b(3), of n True "0x33"] b(2,4) by auto
  let ?r = "\<lparr>sn_async = c, sn_taken = [(7, ''hello'')], sn_sent = [(7, True, out)]\<rparr>"
  have r: "send_reach ?r"
    using send_reach.step [OF q send_step.job, of n True "0x33" 7 out c] b(2) c(1) by simp
  have "\<exists>cs. list_all2 carries cs (sn_sent ?r) \<and> mset (sn_taken ?r) = mset cs + image_mset (as_args (sn_async ?r)) (mset (as_jobs (sn_async ?r)))"
    using commands_sent_once [OF r, of "''hello''" 7 demo c] by blast
  then have "carries (7, ''hello'') (7, True, out)" using c(2) by (auto simp: list_all2_Cons2)
  then show ?thesis using r c(2) by (intro exI [of _ ?r] exI [of _ out]) simp
qed

subsection \<open>From the server to the client\<close>

text \<open>
  C14. A command the server has for a device gets there: when the device is active and a block is free, the
  command is handed to the pool; when the connection is made, the device's client gets bytes from which it
  does what the text says, from decoding to the events of its application, and the block is free
  again. For a device that is not active, but for the one of the manager, nothing is sent.
\<close>

theorem command_gets_to_active_device:
  assumes "async_inv q" and "length (as_jobs q) < THREADS" and "d \<noteq> 1"
    and "CHR 0x00 \<notin> set x" and "x \<noteq> []" and "hd x \<noteq> CHR 0x02" and "length x \<le> BLKSZ - 100"
    and "cl_reged b" and "cl_conn b = 0" and "sock \<noteq> 0"
  shows "if d_active (dev s d) = 0 then async_sendto_dev x d s q = Some (Dropped, q)
    else \<exists>n q1 out q2. async_sendto_dev x d s q = Some (Handed n, q1) \<and> sendto_dev_job True salt n q1 = Some ((d, out), q2)
      \<and> as_jobs q2 = as_jobs q \<and> async_inv q2
      \<and> tcp_connection mem sock False [Data out, Closed] b
        = do { (e, m) \<leftarrow> parse_cmd x no_cmd; ensure (c_cmd m \<noteq> []); b1 \<leftarrow> ev_cmd m (b\<lparr>cl_conn := sock\<rparr>);
               client_handle_cmd mem 0 TCP_CMD None 0 b1 }"
proof (cases "d_active (dev s d) = 0")
  case True
  then show ?thesis using assms(3) by (simp add: async_sendto_dev_def)
next
  case False
  then obtain n q1 where h: "async_sendto_dev x d s q = Some (Handed n, q1)" "async_inv q1" "n \<notin> set (as_jobs q)"
    "as_jobs q1 = as_jobs q @ [n]" "as_args q1 = (as_args q)(n := (d, x))"
    using async_hands [OF assms(1) _ assms(7,2)] by blast
  then obtain out q2 where j: "sendto_dev_job True salt n q1 = Some ((d, out), q2)" "as_jobs q2 = remove1 n (as_jobs q @ [n])"
    "do_send salt x = Some out" "async_inv q2" using job_done [OF h(2), of n True salt] by auto
  have "remove1 n (as_jobs q @ [n]) = as_jobs q" using h(3) by (simp add: remove1_append)
  moreover have "length x < BUFLEN" using assms(7) by (simp add: BLKSZ_def BUFLEN_def)
  ultimately show ?thesis
    using tcp_connection_line [OF assms(4-6) _ j(3) assms(8,9) assms(10), of mem] False h(1) j by auto
qed

theorem command_gets_to_active_device_witness:
  "\<exists>q n q1 out q2. async_sendto_dev (''5 discctrl stop OK'' @ newline) 7 demo q = Some (Handed n, q1)
    \<and> sendto_dev_job True 0x33 n q1 = Some ((7, out), q2)
    \<and> tcp_connection (\<lambda>_. 0) 9 False [Data out, Closed] (demo_client 7) = Some (raise EvDiscStop (demo_client 7))"
proof -
  define x where "x = cmd_line (num_str 5 # ''discctrl'' # [''stop'', ''OK''])"
  have x: "x = ''5 discctrl stop OK'' @ newline" unfolding x_def by code_simp
  have m: "parse_cmd x no_cmd = Some (0, no_cmd\<lparr>c_dev := 5, c_cmd := ''discctrl'', c_args := [''stop'', ''OK'']\<rparr>)"
    unfolding x_def by (rule parse_cmd_line) (simp_all add: is_word_def cmd_sep_def)
  obtain q where q: "async_inv q" "as_jobs q = []" using async_init_inv by auto
  have c: "cl_reged (demo_client 7)" "cl_conn (demo_client 7) = 0" by (simp_all add: demo_client_def client_start_def)
  have t: "CHR 0x00 \<notin> set x" "x \<noteq> []" "hd x \<noteq> CHR 0x02" "length x \<le> BLKSZ - 100" unfolding x by (simp_all add: newline_def BLKSZ_def)
  have ev: "ev_cmd (no_cmd\<lparr>c_dev := 5, c_cmd := ''discctrl'', c_args := [''stop'', ''OK'']\<rparr>) c1 = Some (raise EvDiscStop c1)" for c1
    by (simp add: ev_cmd_def ev_discctrl_def arg_def checkok_def)
  have e: "client_handle_cmd mem 0 TCP_CMD None 0 (raise EvDiscStop ((demo_client 7)\<lparr>cl_conn := 9\<rparr>)) = Some (raise EvDiscStop (demo_client 7))" for mem
    using c(2) by (cases "demo_client 7") (simp add: client_handle_cmd_def TCP_AUDIO_def TCP_CMD_def raise_def client_emit_def)
  have "d_active (dev demo 7) \<noteq> 0" "length (as_jobs q) < THREADS" using q(2) by (simp_all add: demo_def demo_dev_def fresh_dev_def THREADS_def)
  then show ?thesis
    using command_gets_to_active_device [OF q(1) _ _ t c, of 7 9 demo "0x33" "\<lambda>_. 0"] m ev e unfolding x by fastforce
qed

subsection \<open>Broadcasts survive loss\<close>

lemma once_set: "set (once ds us) = set us - set ds"
  by (induction ds us rule: once.induct) auto

lemma once_distinct: "distinct (once ds us)"
  by (induction ds us rule: once.induct) (auto simp: once_set)

lemma once_map: "inj_on f (set ds \<union> set us) \<Longrightarrow> once (map f ds) (map f us) = map f (once ds us)"
proof (induction us arbitrary: ds)
  case (Cons u us)
  have "f u \<in> f ` set ds \<longleftrightarrow> u \<in> set ds" using Cons.prems by (auto simp: inj_on_def)
  moreover have "inj_on f (set (u # ds) \<union> set us)" "inj_on f (set ds \<union> set us)" using Cons.prems by (auto simp: inj_on_def)
  ultimately show ?case using Cons.IH [of "u # ds"] Cons.IH [of ds] by simp
qed simp

text \<open>A broadcast of the server: its number, its mode, and its text; j are the bytes that are not set.\<close>

type_synonym brcast = "int \<times> bmode \<times> string"

definition datagram :: "(int \<Rightarrow> nat \<Rightarrow> byte) \<Rightarrow> brcast \<Rightarrow> byte list" where
  "datagram j = (\<lambda>(q, mode, x). brcast_bytes (j q) q mode (Text x))"

definition brcast_ok :: "(int \<Rightarrow> nat \<Rightarrow> byte) \<Rightarrow> brcast \<Rightarrow> bool" where
  "brcast_ok j u \<longleftrightarrow> 0 \<le> fst u \<and> fst u < 65536 \<and> length (datagram j u) \<le> nat (CMD_MAX - 100)"

lemma datagram_ucmd:
  assumes "brcast_ok j u"
  shows "uc_cmd (bytes_ucmd (datagram j u)) = UCMD_BRCAST_CMD" "ucmd_seq (bytes_ucmd (datagram j u)) = word_of_int (fst u)"
    "recv_udp mem (datagram j u) c = handle_ucmd (bytes_ucmd (datagram j u)) c"
proof -
  obtain q mode x where u: "u = (q, mode, x)" by (cases u)
  have q: "0 \<le> q" "q < 65536" using assms by (simp_all add: brcast_ok_def u)
  have "length (brcast_data mode (Text x)) < 65536"
    using assms by (cases mode) (auto simp: brcast_ok_def u datagram_def CMD_MAX_def brcast_bytes_def le2_bytes_def)
  note head = brcast_head [OF q this, of "j q"]
  show "uc_cmd (bytes_ucmd (datagram j u)) = UCMD_BRCAST_CMD" "ucmd_seq (bytes_ucmd (datagram j u)) = word_of_int (fst u)"
    using head(1) by (simp_all add: u datagram_def ucmd_seq_def)
  show "recv_udp mem (datagram j u) c = handle_ucmd (bytes_ucmd (datagram j u)) c"
    using head(2,3) by (simp add: u datagram_def recv_udp_def PACK_HEAD_LEN_def udp_recved_def)
qed

lemma foldM_cong: "(\<And>x s. x \<in> set xs \<Longrightarrow> f x s = g x s) \<Longrightarrow> foldM f xs s = foldM g xs s"
  by (induction xs arbitrary: s) (auto split: option.split)

lemma foldM_map: "foldM f (map g xs) s = foldM (\<lambda>x. f (g x)) xs s"
  by (induction xs arbitrary: s) (auto split: option.split)

text \<open>
  C15. A broadcast is heard and is heard once: the server sends each of up to eight broadcasts ten times over
  sixteen seconds; the network may lose copies, as long as one of each arrives, and deliver the others in
  any order. A client whose window of numbers does not hold theirs then does exactly what it would if each
  broadcast had come once.
\<close>

theorem broadcasts_survive_loss:
  assumes "recent_window (cl_recent_ucmd c) w" and "length w = 8" and "length us \<le> 8"
    and "\<forall>u \<in> set us. brcast_ok j u \<and> word_of_int (fst u) \<notin> set w" and "distinct (map (\<lambda>u. word_of_int (fst u) :: 32 word) us)"
    and "mset ys \<subseteq># mset (concat (map (\<lambda>u. map fst (run_brcast (datagram j u))) us))" and "\<forall>u \<in> set us. datagram j u \<in> set ys"
  shows "\<exists>zs. mset zs = mset (map (datagram j) us) \<and> foldM (recv_udp mem) ys c = foldM (recv_udp mem) zs c"
proof -
  let ?f = "\<lambda>b. bytes_ucmd b" and ?D = "datagram j ` set us"
  have sub: "set ys = ?D"
  proof
    show "set ys \<subseteq> ?D" using set_mset_mono [OF assms(6)] by (auto simp: run_brcast_time)
  qed (use assms(7) in auto)
  have seq: "ucmd_seq (?f (datagram j u)) = word_of_int (fst u)" "uc_cmd (?f (datagram j u)) = UCMD_BRCAST_CMD"
    "recv_udp mem (datagram j u) c = handle_ucmd (?f (datagram j u)) c" if "u \<in> set us" for u c
    using datagram_ucmd assms(4) that by blast+
  have inj_u: "inj_on (\<lambda>u. word_of_int (fst u) :: 32 word) (set us)" using assms(5) by (simp add: distinct_map)
  then have inj: "inj_on (ucmd_seq \<circ> ?f) ?D" by (auto simp: inj_on_def seq(1))
  then have inj_f: "inj_on ?f ?D" by (rule inj_on_imageI2)
  then have inj_q: "inj_on ucmd_seq (?f ` ?D)" using inj comp_inj_on_iff by blast
  have "inj_on (datagram j) (set us)"
  proof (rule inj_onI)
    fix u v assume u: "u \<in> set us" "v \<in> set us" "datagram j u = datagram j v"
    then have "word_of_int (fst u) = (word_of_int (fst v) :: 32 word)" using seq(1) by metis
    then show "u = v" using inj_u u(1,2) by (simp add: inj_on_def)
  qed
  then have d: "distinct (map (datagram j) us)" using assms(5) by (simp add: distinct_map)
  let ?U = "set (map ?f ys)"
  have U: "?U = ?f ` ?D" by (simp add: sub)
  have card: "card ?U \<le> 8"
    using card_image_le [OF finite_set, of "\<lambda>u. ?f (datagram j u)" us] card_length [of us] assms(3) unfolding U image_image by linarith
  have new: "ucmd_seq ` ?U \<inter> set w = {}" "\<forall>u \<in> ?U. uc_cmd u = UCMD_BRCAST_CMD" unfolding U using assms(4) seq(1,2) by auto
  have w: "recent_window (cl_recent_ucmd c) (map ucmd_seq [] @ take (8 - length []) w)" using assms(1,2) by simp
  have "foldM handle_ucmd (map ?f ys) c = foldM handle_ucmd (once [] (map ?f ys)) c"
    by (rule broadcasts_once [OF w assms(2) _ _ _ card _ new]) (simp_all only: U inj_q, simp_all)
  also have "once [] (map ?f ys) = map ?f (once [] ys)" using once_map [of ?f "[]" ys] inj_f sub by simp
  finally have "foldM (\<lambda>b. handle_ucmd (?f b)) ys c = foldM (\<lambda>b. handle_ucmd (?f b)) (once [] ys) c" by (simp add: foldM_map)
  moreover have same: "foldM (recv_udp mem) xs c = foldM (\<lambda>b. handle_ucmd (?f b)) xs c" if "set xs = ?D" for xs
    using that seq(3) by (intro foldM_cong) auto
  ultimately have "foldM (recv_udp mem) ys c = foldM (recv_udp mem) (once [] ys) c" by (simp add: same sub once_set)
  moreover have "mset (once [] ys) = mset (map (datagram j) us)"
    using set_eq_iff_mset_eq_distinct [OF once_distinct d, of "[]" ys] sub by (simp only: once_set set_map list.set(1) Diff_empty simp_thms)
  ultimately show ?thesis by blast
qed

text \<open>Two broadcasts of which one copy and two copies get through, the second one first.\<close>

theorem broadcasts_survive_loss_witness:
  "\<exists>a b zs. a \<noteq> b \<and> mset zs = {#a, b#} \<and> foldM (recv_udp (\<lambda>_. 0)) [b, a, b] (demo_client 7) = foldM (recv_udp (\<lambda>_. 0)) zs (demo_client 7)
    \<and> run_brcast a = replicate 2 (a, 1) @ replicate 7 (a, 2) @ [(a, 0)]"
proof -
  define u v where "u = (1 :: int, ModeAll, ''0 discctrl stop OK'')" and "v = (2 :: int, ModeTag 1, ''0 votectrl stop OK'')"
  define j where "j = (\<lambda>(q :: int) (n :: nat). 0 :: byte)"
  have ok: "brcast_ok j u" "brcast_ok j v" unfolding brcast_ok_def datagram_def u_def v_def j_def by code_simp+
  have ne: "datagram j u \<noteq> datagram j v" unfolding datagram_def u_def v_def j_def by code_simp
  have "mset [datagram j v, datagram j u, datagram j v] \<subseteq># mset (concat (map (\<lambda>u. map fst (run_brcast (datagram j u))) [u, v]))"
    using ne by (simp add: run_brcast_time numeral_eq_Suc)
  moreover have "\<forall>x \<in> set [u, v]. brcast_ok j x \<and> word_of_int (fst x) \<notin> set (replicate 8 (0 :: 32 word))" using ok by (auto simp: u_def v_def)
  moreover have "distinct (map (\<lambda>u. word_of_int (fst u) :: 32 word) [u, v])" by (simp add: u_def v_def)
  ultimately obtain zs where "mset zs = mset (map (datagram j) [u, v])"
    "foldM (recv_udp (\<lambda>_. 0)) [datagram j v, datagram j u, datagram j v] (demo_client 7) = foldM (recv_udp (\<lambda>_. 0)) zs (demo_client 7)"
    using broadcasts_survive_loss [OF demo_client_ring(1) length_replicate, of "[u, v]" j "[datagram j v, datagram j u, datagram j v]" "\<lambda>_. 0"]
    by auto
  moreover have "run_brcast a = replicate 2 (a, 1) @ replicate 7 (a, 2) @ [(a, 0)]" for a
    by (simp add: run_brcast_def REPEAT_def numeral_eq_Suc)
  ultimately show ?thesis using ne by (intro exI [of _ "datagram j u"] exI [of _ "datagram j v"] exI [of _ zs]) simp
qed

end
