(* ===== verification/Aacdec.thy ===== *)
theory Aacdec
  imports Encode
begin

unbundle bit_operations_syntax

text \<open>
  client/aacdec.c: decoding AAC as it arrives. Packets are collected in a buffer from which the library
  decodes frame after frame; what it has used is skipped, and the rest moved to the front when more than
  1024 bytes were used. The library is a parameter: configuring and decoding get the bytes between
  inputBufferUsedLength and inputBufferCurrentLength and the library's memory, and give a status, how many
  bytes were used, the length of the frame, the samples and the memory.
\<close>

subsection \<open>The decoder\<close>

definition AAC_BUF :: nat where "AAC_BUF = 1536 * 4"

type_synonym 'm aac_call = "byte list \<Rightarrow> 'm \<Rightarrow> int \<times> nat \<times> int \<times> byte list \<times> 'm"

record 'm aacdec =
  aa_inbuf :: "byte list"
  aa_used :: nat
  aa_cur :: nat
  aa_frame :: int
  aa_sync :: bool
  aa_configed :: bool
  aa_mem :: 'm

text \<open>The status of the library and its memory after initialising.\<close>

definition aacdec_init :: "int \<times> 'm \<Rightarrow> int \<times> 'm aacdec" where
  "aacdec_init ini =
     (if fst ini \<noteq> 0 then -1 else 0,
      \<lparr>aa_inbuf = replicate AAC_BUF 0, aa_used = 0, aa_cur = 0, aa_frame = 0, aa_sync = False, aa_configed = False, aa_mem = snd ini\<rparr>)"

text \<open>Writing bs at i.\<close>

definition blit :: "nat \<Rightarrow> byte list \<Rightarrow> byte list \<Rightarrow> byte list" where
  "blit i bs xs = take i xs @ bs @ drop (i + length bs) xs"

definition append_inbuf :: "byte list \<Rightarrow> 'm aacdec \<Rightarrow> 'm aacdec option" where
  "append_inbuf bs d =
     (let off = aa_used d; n = int (aa_cur d) - int (aa_used d);
          (off1, n1, d1) = (if n \<le> 0 then (0, 0, d\<lparr>aa_used := 0, aa_cur := 0\<rparr>) else (off, nat n, d));
          d2 = (if off1 > 1024
                then d1\<lparr>aa_inbuf := blit 0 (take n1 (drop off1 (aa_inbuf d1))) (aa_inbuf d1), aa_used := 0, aa_cur := n1\<rparr>
                else d1)
      in do { ensure (aa_cur d2 + length bs \<le> AAC_BUF);
              Some (d2\<lparr>aa_inbuf := blit (aa_cur d2) bs (aa_inbuf d2), aa_cur := aa_cur d2 + length bs\<rparr>) })"

definition aac_unread :: "'m aacdec \<Rightarrow> byte list" where
  "aac_unread d = take (aa_cur d - aa_used d) (drop (aa_used d) (aa_inbuf d))"

definition aac_library :: "'m aac_call \<Rightarrow> 'm aacdec \<Rightarrow> int \<times> byte list \<times> 'm aacdec" where
  "aac_library f d =
     (let (st, n, fl, pcm, m) = f (aac_unread d) (aa_mem d)
      in (st, pcm, d\<lparr>aa_used := aa_used d + n, aa_frame := fl, aa_mem := m\<rparr>))"

text \<open>The first bytes of a packet that starts with the synchronisation of ADTS.\<close>

definition adts_sync :: "byte list \<Rightarrow> bool option" where
  "adts_sync bs =
     do { ensure (bs \<noteq> []);
          if bs ! 0 \<noteq> 0xFF then Some False
          else do { ensure (2 \<le> length bs); Some (bs ! 1 AND 0xF6 = 0xF0) } }"

text \<open>Decoding one frame: the result, the samples, and the decoder; conf and dec are the calls of the
  library, rst its new start.\<close>

definition aac_frame :: "'m aac_call \<Rightarrow> 'm aac_call \<Rightarrow> ('m \<Rightarrow> 'm) \<Rightarrow> 'm aacdec \<Rightarrow> int \<times> byte list \<times> 'm aacdec" where
  "aac_frame conf dec rst d =
     (let d1 = (if aa_configed d then d else snd (snd (aac_library conf d)));
          (st, pcm, d2) = aac_library dec d1
      in if st = 0 then (aa_frame d2 * 4, pcm, if aa_frame d2 > 0 then d2\<lparr>aa_configed := True\<rparr> else d2)
         else (-1, pcm,
               if aa_used d2 > aa_cur d2
               then d2\<lparr>aa_sync := False, aa_configed := False, aa_used := 0, aa_cur := 0, aa_mem := rst (aa_mem d2)\<rparr>
               else d2))"

definition aac_decode :: "'m aac_call \<Rightarrow> 'm aac_call \<Rightarrow> ('m \<Rightarrow> 'm) \<Rightarrow> byte list \<Rightarrow> 'm aacdec \<Rightarrow> (int \<times> byte list \<times> 'm aacdec) option" where
  "aac_decode conf dec rst bs d =
     do { sync \<leftarrow> (if aa_sync d then Some True else adts_sync bs);
          if \<not> sync then Some (0, [], d)
          else do { d1 \<leftarrow> append_inbuf bs (d\<lparr>aa_sync := True\<rparr>);
                    Some (if int (aa_cur d1) - int (aa_used d1) < 256 then (0, [], d1) else aac_frame conf dec rst d1) } }"

subsection \<open>A stream of bytes\<close>

text \<open>What the decoder is for: the bytes not used yet, to which packets are appended, with room for 5120.\<close>

record 'm aac_stream =
  as_bytes :: "byte list"
  as_frame :: int
  as_sync :: bool
  as_configed :: bool
  as_mem :: 'm

definition stream_library :: "'m aac_call \<Rightarrow> 'm aac_stream \<Rightarrow> int \<times> byte list \<times> bool \<times> 'm aac_stream" where
  "stream_library f a =
     (let (st, n, fl, pcm, m) = f (as_bytes a) (as_mem a)
      in (st, pcm, n > length (as_bytes a), a\<lparr>as_bytes := drop n (as_bytes a), as_frame := fl, as_mem := m\<rparr>))"

definition stream_frame :: "'m aac_call \<Rightarrow> 'm aac_call \<Rightarrow> ('m \<Rightarrow> 'm) \<Rightarrow> 'm aac_stream \<Rightarrow> int \<times> byte list \<times> 'm aac_stream" where
  "stream_frame conf dec rst a =
     (let (over, a1) = (if as_configed a then (False, a) else snd (snd (stream_library conf a)));
          (st, pcm, over1, a2) = stream_library dec a1
      in if st = 0 then (as_frame a2 * 4, pcm, if as_frame a2 > 0 then a2\<lparr>as_configed := True\<rparr> else a2)
         else (-1, pcm,
               if over \<or> over1 then a2\<lparr>as_sync := False, as_configed := False, as_bytes := [], as_mem := rst (as_mem a2)\<rparr> else a2))"

definition stream_decode :: "'m aac_call \<Rightarrow> 'm aac_call \<Rightarrow> ('m \<Rightarrow> 'm) \<Rightarrow> byte list \<Rightarrow> 'm aac_stream \<Rightarrow> (int \<times> byte list \<times> 'm aac_stream) option" where
  "stream_decode conf dec rst bs a =
     do { sync \<leftarrow> (if as_sync a then Some True else adts_sync bs);
          if \<not> sync then Some (0, [], a)
          else (let a1 = a\<lparr>as_sync := True, as_bytes := as_bytes a @ bs\<rparr>
                in do { ensure (length (as_bytes a1) \<le> AAC_BUF - 1024);
                        Some (if length (as_bytes a1) < 256 then (0, [], a1) else stream_frame conf dec rst a1) }) }"

definition aac_rep :: "'m aacdec \<Rightarrow> 'm aac_stream \<Rightarrow> bool" where
  "aac_rep d a \<longleftrightarrow> length (aa_inbuf d) = AAC_BUF \<and> aa_cur d \<le> AAC_BUF \<and> aac_unread d = as_bytes a \<and> aa_frame d = as_frame a
     \<and> aa_sync d = as_sync a \<and> aa_configed d = as_configed a \<and> aa_mem d = as_mem a"

lemma length_blit [simp]: "i + length bs \<le> length xs \<Longrightarrow> length (blit i bs xs) = length xs"
  by (simp add: blit_def)

lemma length_unread:
  assumes "length (aa_inbuf d) = AAC_BUF" and "aa_cur d \<le> AAC_BUF"
  shows "length (aac_unread d) = aa_cur d - aa_used d"
proof -
  have "aa_cur d - aa_used d \<le> length (aa_inbuf d) - aa_used d" using assms by (simp add: diff_le_mono)
  then show ?thesis by (simp add: aac_unread_def)
qed

lemma blit_unread:
  assumes "u \<le> c" and "c + length bs \<le> length xs"
  shows "take (c + length bs - u) (drop u (blit c bs xs)) = take (c - u) (drop u xs) @ bs"
proof -
  have "drop u (blit c bs xs) = take (c - u) (drop u xs) @ bs @ drop (c + length bs) xs"
    using assms by (simp add: blit_def drop_take)
  moreover have "length (take (c - u) (drop u xs)) = c - u" using assms by simp
  ultimately show ?thesis using assms by simp
qed

text \<open>append_inbuf makes room and writes: nothing is left, much was used, or little.\<close>

definition compact :: "'m aacdec \<Rightarrow> 'm aacdec" where
  "compact d =
     (if aa_cur d \<le> aa_used d then d\<lparr>aa_used := 0, aa_cur := 0\<rparr>
      else if aa_used d > 1024
      then d\<lparr>aa_inbuf := blit 0 (aac_unread d) (aa_inbuf d), aa_used := 0, aa_cur := aa_cur d - aa_used d\<rparr>
      else d)"

lemma append_inbuf_compact:
  "append_inbuf bs d = do { ensure (aa_cur (compact d) + length bs \<le> AAC_BUF);
     Some ((compact d)\<lparr>aa_inbuf := blit (aa_cur (compact d)) bs (aa_inbuf (compact d)), aa_cur := aa_cur (compact d) + length bs\<rparr>) }"
proof (cases "aa_cur d \<le> aa_used d")
  case False
  then have e: "nat (int (aa_cur d) - int (aa_used d)) = aa_cur d - aa_used d" "\<not> int (aa_cur d) - int (aa_used d) \<le> 0" by simp_all
  have "append_inbuf bs d =
     (let d2 = (if aa_used d > 1024
            then d\<lparr>aa_inbuf := blit 0 (aac_unread d) (aa_inbuf d), aa_used := 0, aa_cur := aa_cur d - aa_used d\<rparr> else d)
      in do { ensure (aa_cur d2 + length bs \<le> AAC_BUF);
              Some (d2\<lparr>aa_inbuf := blit (aa_cur d2) bs (aa_inbuf d2), aa_cur := aa_cur d2 + length bs\<rparr>) })"
    unfolding append_inbuf_def Let_def using e by (simp only: if_False split_conv aac_unread_def) 
  then show ?thesis using False by (simp only: compact_def Let_def if_False)
qed (simp add: append_inbuf_def compact_def)

lemma compact_rep:
  assumes "aac_rep d a" and "length (as_bytes a) \<le> AAC_BUF - 1024"
  shows "aac_rep (compact d) a \<and> aa_cur (compact d) = aa_used (compact d) + length (as_bytes a) \<and> aa_used (compact d) \<le> 1024"
proof -
  have d: "length (aa_inbuf d) = AAC_BUF" "aa_cur d \<le> AAC_BUF" "aac_unread d = as_bytes a" using assms by (simp_all add: aac_rep_def)
  have len: "length (as_bytes a) = aa_cur d - aa_used d" using length_unread [OF d(1,2)] d(3) by simp
  consider (none) "aa_cur d \<le> aa_used d" | (far) "aa_used d < aa_cur d" "1024 < aa_used d" | (near) "aa_used d < aa_cur d" "aa_used d \<le> 1024"
    by linarith
  then show ?thesis
  proof cases
    case none
    then show ?thesis using assms(1) len by (simp add: compact_def aac_rep_def aac_unread_def)
  next
    case far
    then have c: "compact d = d\<lparr>aa_inbuf := blit 0 (as_bytes a) (aa_inbuf d), aa_used := 0, aa_cur := aa_cur d - aa_used d\<rparr>"
      by (simp add: compact_def d(3))
    have "aac_unread (compact d) = as_bytes a" using len by (simp add: c aac_unread_def blit_def)
    then show ?thesis using assms len d(1,2) by (simp add: c aac_rep_def)
  next
    case near
    then show ?thesis using assms(1) len by (simp add: compact_def)
  qed
qed

lemma append_rep:
  assumes rep: "aac_rep d a" and fits: "length (as_bytes a @ bs) \<le> AAC_BUF - 1024"
  shows "\<exists>d1. append_inbuf bs d = Some d1 \<and> aac_rep d1 (a\<lparr>as_bytes := as_bytes a @ bs\<rparr>)
    \<and> int (aa_cur d1) - int (aa_used d1) = int (length (as_bytes a @ bs))"
proof -
  let ?c = "compact d"
  let ?d1 = "?c\<lparr>aa_inbuf := blit (aa_cur ?c) bs (aa_inbuf ?c), aa_cur := aa_cur ?c + length bs\<rparr>"
  have "length (as_bytes a) \<le> AAC_BUF - 1024" using fits by simp
  from compact_rep [OF rep this]
  have c: "aac_rep ?c a" "aa_cur ?c = aa_used ?c + length (as_bytes a)" "aa_used ?c \<le> 1024" by simp_all
  have room: "aa_cur ?c + length bs \<le> AAC_BUF" using c(2,3) fits by (simp add: AAC_BUF_def)
  have "aac_unread ?d1 = aac_unread ?c @ bs"
    using blit_unread [of "aa_used ?c" "aa_cur ?c" bs "aa_inbuf ?c"] c room by (simp add: aac_unread_def aac_rep_def)
  then have "aac_rep ?d1 (a\<lparr>as_bytes := as_bytes a @ bs\<rparr>)" using c(1) room by (simp add: aac_rep_def)
  then show ?thesis using room c(2) by (simp add: append_inbuf_compact)
qed

text \<open>A call of the library.\<close>

lemma library_rep:
  assumes "aac_rep d a" and "aac_library f d = (st, pcm, d1)"
  shows "\<exists>a1. stream_library f a = (st, pcm, aa_used d1 > aa_used d + length (as_bytes a), a1) \<and> aac_rep d1 a1 \<and> aa_cur d1 = aa_cur d"
proof -
  obtain n fl m where f: "f (as_bytes a) (as_mem a) = (st, n, fl, pcm, m)" "d1 = d\<lparr>aa_used := aa_used d + n, aa_frame := fl, aa_mem := m\<rparr>"
    using assms by (auto simp: aac_library_def aac_rep_def split_beta prod_eq_iff)
  have "aac_unread d1 = drop n (aac_unread d)" by (simp add: f(2) aac_unread_def drop_take add.commute)
  then have "aac_unread d1 = drop n (as_bytes a)" using assms(1) by (simp add: aac_rep_def)
  then show ?thesis using assms(1) f by (auto simp: stream_library_def aac_rep_def)
qed

subsection \<open>The buffer is a stream\<close>

text \<open>What is left after configuring.\<close>

lemma config_rep:
  assumes "aac_rep d a" and "aa_used d \<le> aa_cur d" and "aac_library f d = (st, pcm, d1)" and "stream_library f a = (st1, pcm1, over, a1)"
  shows "aac_rep d1 a1 \<and> aa_cur d1 = aa_cur d \<and> (over \<longleftrightarrow> aa_used d1 > aa_cur d) \<and> length (as_bytes a1) = aa_cur d1 - aa_used d1"
proof -
  have len: "length (as_bytes a) = aa_cur d - aa_used d" using length_unread [of d] assms(1) by (simp add: aac_rep_def)
  have "aac_rep d1 a1" "aa_cur d1 = aa_cur d" "over \<longleftrightarrow> aa_used d1 > aa_used d + length (as_bytes a)"
    using library_rep [OF assms(1,3)] assms(4) by auto
  then show ?thesis using len assms(2) length_unread [of d1] by (simp add: aac_rep_def)
qed

lemma frame_rep:
  assumes rep: "aac_rep d a" and used: "aa_used d \<le> aa_cur d" and "stream_frame conf dec rst a = (r, pcm, a')"
  shows "\<exists>d'. aac_frame conf dec rst d = (r, pcm, d') \<and> aac_rep d' a'"
proof -
  define d1 where "d1 = (if aa_configed d then d else snd (snd (aac_library conf d)))"
  define k where "k = (if as_configed a then (False, a) else snd (snd (stream_library conf a)))"
  obtain over a1 where k1: "k = (over, a1)" by (cases k)
  have c: "aac_rep d1 a1" "aa_cur d1 = aa_cur d" "over \<longleftrightarrow> aa_used d1 > aa_cur d" "length (as_bytes a1) = aa_cur d1 - aa_used d1"
  proof -
    have same: "aa_configed d = as_configed a" using rep by (simp add: aac_rep_def)
    have len: "length (as_bytes a) = aa_cur d - aa_used d" using length_unread [of d] rep by (simp add: aac_rep_def)
    obtain st pcm d2 st1 pcm1 b a2 where l: "aac_library conf d = (st, pcm, d2)" "stream_library conf a = (st1, pcm1, b, a2)"
      by (metis prod_cases3 prod_cases4)
    show "aac_rep d1 a1" "aa_cur d1 = aa_cur d" "over \<longleftrightarrow> aa_used d1 > aa_cur d" "length (as_bytes a1) = aa_cur d1 - aa_used d1"
      using config_rep [OF rep used l] same len rep used l k1 by (auto simp: d1_def k_def split: if_splits)
  qed
  obtain st pcm' d2 where l: "aac_library dec d1 = (st, pcm', d2)" by (metis prod_cases3)
  from library_rep [OF c(1) l] obtain a2 where s: "stream_library dec a1 = (st, pcm', aa_used d2 > aa_used d1 + length (as_bytes a1), a2)"
    "aac_rep d2 a2" "aa_cur d2 = aa_cur d1" by blast
  have "aa_used d2 \<ge> aa_used d1" using l by (auto simp: aac_library_def split: prod.splits)
  then have over: "over \<or> aa_used d2 > aa_used d1 + length (as_bytes a1) \<longleftrightarrow> aa_used d2 > aa_cur d2" using c s(3) by auto
  have code: "aac_frame conf dec rst d = (if st = 0 then (aa_frame d2 * 4, pcm', if aa_frame d2 > 0 then d2\<lparr>aa_configed := True\<rparr> else d2)
      else (-1, pcm', if aa_used d2 > aa_cur d2
        then d2\<lparr>aa_sync := False, aa_configed := False, aa_used := 0, aa_cur := 0, aa_mem := rst (aa_mem d2)\<rparr> else d2))"
    unfolding aac_frame_def d1_def [symmetric] by (simp add: l)
  have spec: "stream_frame conf dec rst a = (if st = 0 then (as_frame a2 * 4, pcm', if as_frame a2 > 0 then a2\<lparr>as_configed := True\<rparr> else a2)
      else (-1, pcm', if aa_used d2 > aa_cur d2
        then a2\<lparr>as_sync := False, as_configed := False, as_bytes := [], as_mem := rst (as_mem a2)\<rparr> else a2))"
    unfolding stream_frame_def k_def [symmetric] k1 by (simp add: s(1) over)
  show ?thesis using assms(3) s(2) unfolding code spec by (auto simp: aac_rep_def aac_unread_def split: if_splits)
qed

lemma decode_rep:
  assumes rep: "aac_rep d a" and "stream_decode conf dec rst bs a = Some (r, pcm, a1)"
  shows "\<exists>d1. aac_decode conf dec rst bs d = Some (r, pcm, d1) \<and> aac_rep d1 a1"
proof -
  obtain sync where sync: "(if as_sync a then Some True else adts_sync bs) = Some sync"
    using assms(2) by (auto simp: stream_decode_def bind_Some_iff)
  then have sync_d: "(if aa_sync d then Some True else adts_sync bs) = Some sync" using rep by (simp add: aac_rep_def)
  show ?thesis
  proof (cases sync)
    case False
    then show ?thesis using assms sync sync_d by (simp add: stream_decode_def aac_decode_def)
  next
    case True
    let ?a = "a\<lparr>as_sync := True, as_bytes := as_bytes a @ bs\<rparr>"
    have fits: "length (as_bytes a @ bs) \<le> AAC_BUF - 1024"
      and spec: "(r, pcm, a1) = (if length (as_bytes a @ bs) < 256 then (0, [], ?a) else stream_frame conf dec rst ?a)"
      using assms(2) sync True by (simp_all add: stream_decode_def Let_def bind_Some_iff)
    have "aac_rep (d\<lparr>aa_sync := True\<rparr>) (a\<lparr>as_sync := True\<rparr>)" using rep by (simp add: aac_rep_def aac_unread_def)
    from append_rep [OF this, of bs] fits obtain d1 where
      d1: "append_inbuf bs (d\<lparr>aa_sync := True\<rparr>) = Some d1" "aac_rep d1 ?a" "int (aa_cur d1) - int (aa_used d1) = int (length (as_bytes a @ bs))"
      by auto
    have code: "aac_decode conf dec rst bs d = Some (if length (as_bytes a @ bs) < 256 then (0, [], d1) else aac_frame conf dec rst d1)"
      using sync_d True d1(1,3) by (simp add: aac_decode_def)
    have "aa_used d1 \<le> aa_cur d1" using d1(3) by linarith
    then show ?thesis using spec d1(2) frame_rep [OF d1(2), of conf dec rst r pcm a1] unfolding code by (auto split: if_splits)
  qed
qed

text \<open>A run over packets: the results and samples, one after the other.\<close>

fun aac_run :: "'m aac_call \<Rightarrow> 'm aac_call \<Rightarrow> ('m \<Rightarrow> 'm) \<Rightarrow> byte list list \<Rightarrow> 'm aacdec \<Rightarrow> ((int \<times> byte list) list \<times> 'm aacdec) option" where
  "aac_run conf dec rst [] d = Some ([], d)"
| "aac_run conf dec rst (bs # ps) d =
     do { (r, pcm, d1) \<leftarrow> aac_decode conf dec rst bs d; (rs, d2) \<leftarrow> aac_run conf dec rst ps d1; Some ((r, pcm) # rs, d2) }"

fun stream_run :: "'m aac_call \<Rightarrow> 'm aac_call \<Rightarrow> ('m \<Rightarrow> 'm) \<Rightarrow> byte list list \<Rightarrow> 'm aac_stream \<Rightarrow> ((int \<times> byte list) list \<times> 'm aac_stream) option" where
  "stream_run conf dec rst [] a = Some ([], a)"
| "stream_run conf dec rst (bs # ps) a =
     do { (r, pcm, a1) \<leftarrow> stream_decode conf dec rst bs a; (rs, a2) \<leftarrow> stream_run conf dec rst ps a1; Some ((r, pcm) # rs, a2) }"

text \<open>
  C27. The buffer with its two lengths is a stream: for any library, a decoder that starts with an empty
  buffer gives, packet after packet, the results and samples of one that appends each packet to the bytes
  not used yet and drops what the library used, and writes nowhere outside the buffer, as long as there
  are never more than 5120 bytes not used yet. Resynchronising, when the library used more than there
  was, empties the stream.
\<close>

theorem aac_buffer_is_stream:
  assumes "stream_run conf dec rst ps \<lparr>as_bytes = [], as_frame = 0, as_sync = False, as_configed = False, as_mem = snd ini\<rparr> = Some (rs, a)"
  shows "\<exists>d. aac_run conf dec rst ps (snd (aacdec_init ini)) = Some (rs, d) \<and> aac_rep d a"
proof -
  have "aac_rep d a \<Longrightarrow> stream_run conf dec rst ps a = Some (rs, a') \<Longrightarrow> \<exists>d'. aac_run conf dec rst ps d = Some (rs, d') \<and> aac_rep d' a'"
    for d a a'
  proof (induction ps arbitrary: d a rs)
    case (Cons bs ps)
    obtain r pcm a1 rs1 where s: "stream_decode conf dec rst bs a = Some (r, pcm, a1)" "stream_run conf dec rst ps a1 = Some (rs1, a')" "rs = (r, pcm) # rs1"
      using Cons.prems(2) by (auto simp: bind_Some_iff)
    then obtain d1 where "aac_decode conf dec rst bs d = Some (r, pcm, d1)" "aac_rep d1 a1" using decode_rep [OF Cons.prems(1)] by blast
    then show ?case using Cons.IH s(2,3) by fastforce
  qed simp
  moreover have "aac_rep (snd (aacdec_init ini)) \<lparr>as_bytes = [], as_frame = 0, as_sync = False, as_configed = False, as_mem = snd ini\<rparr>"
    by (simp add: aac_rep_def aacdec_init_def aac_unread_def)
  ultimately show ?thesis using assms by blast
qed

text \<open>A library that uses 200 bytes at a time and gives frames of four bytes.\<close>

definition demo_aac :: "nat aac_call" where
  "demo_aac bs m = (if length bs < 200 then (1, 0, 0, [], m) else (0, 200, 1024, take 4 bs, m + 1))"

definition demo_packet :: "byte list" where
  "demo_packet = [0xFF, 0xF1] @ replicate 298 7"

theorem aac_buffer_is_stream_witness:
  "\<exists>d rs. aac_run (\<lambda>bs m. (0, 0, 0, [], m)) demo_aac id [[1, 2], demo_packet, demo_packet, demo_packet] (snd (aacdec_init (0, 0))) = Some (rs, d)
    \<and> map fst rs = [0, 4096, 4096, 4096] \<and> aa_mem d = 3 \<and> length (aac_unread d) = 300"
proof -
  let ?ps = "[[1, 2], demo_packet, demo_packet, demo_packet]"
  have "case stream_run (\<lambda>bs m. (0, 0, 0, [], m)) demo_aac id ?ps \<lparr>as_bytes = [], as_frame = 0, as_sync = False, as_configed = False, as_mem = 0\<rparr> of
      None \<Rightarrow> False | Some (rs, a) \<Rightarrow> map fst rs = [0, 4096, 4096, 4096] \<and> as_mem a = 3 \<and> length (as_bytes a) = 300"
    by code_simp
  then obtain rs a where "stream_run (\<lambda>bs m. (0, 0, 0, [], m)) demo_aac id ?ps \<lparr>as_bytes = [], as_frame = 0, as_sync = False, as_configed = False, as_mem = snd (0, 0)\<rparr> = Some (rs, a)"
    "map fst rs = [0, 4096, 4096, 4096]" "as_mem a = 3" "length (as_bytes a) = 300" by (auto split: option.splits)
  then show ?thesis using aac_buffer_is_stream [of _ demo_aac id ?ps "(0, 0)" rs a] by (fastforce simp: aac_rep_def)
qed

text \<open>Nothing limits what is appended: with little used and the buffer full, memory behind it is written.\<close>

lemma append_overruns:
  "aa_used d < aa_cur d \<Longrightarrow> aa_used d \<le> 1024 \<Longrightarrow> AAC_BUF < aa_cur d + length bs \<Longrightarrow> append_inbuf bs d = None"
  by (simp add: append_inbuf_compact compact_def)

end
