(* ===== verification/Startup.thy ===== *)
theory Startup
  imports Devices_Inv Receiving Manager Sending
begin

text \<open>
  The start of the server (serv/main.c): the options, basic_setup, and recover_server with what follows.
  The options are those getopt gives, with their arguments; a question mark is one that is not known. The
  tables md_load_all reads are those of db, and the client versions come from the directory of upgrades.
  Printing and starting threads are left out, and the table the initcalls fill is server_handlers of
  Requests; the loop of the listener is Receiving, from its start.
\<close>

subsection \<open>The options\<close>

record main_opts =
  mo_opts :: opts
  mo_queue_max :: int
  mo_mixer :: mixer

definition main_defaults :: main_opts where
  "main_defaults =
     \<lparr>mo_opts = \<lparr>opt_flush = False, opt_sync_policy = SYNC_WAIT, opt_silence_drop = False, opt_broadcast = True,
                opt_tcp_audio = False\<rparr>,
      mo_queue_max = 100, mo_mixer = Net\<rparr>"

text \<open>One option: the program goes on, or ends with an exit code.\<close>

definition main_opt :: "char \<Rightarrow> string \<Rightarrow> main_opts \<Rightarrow> int + main_opts" where
  "main_opt c a w =
     (let f = (\<lambda>g. Inr (w\<lparr>mo_opts := g (mo_opts w)\<rparr>))
      in if c = CHR ''h'' then Inl 0
         else if c = CHR ''q'' then Inr (w\<lparr>mo_queue_max := atoi a\<rparr>)
         else if c = CHR ''B'' then f (\<lambda>p. p\<lparr>opt_broadcast := False\<rparr>)
         else if c = CHR ''u'' then f (\<lambda>p. p\<lparr>opt_tcp_audio := False\<rparr>)
         else if c = CHR ''t'' then f (\<lambda>p. p\<lparr>opt_tcp_audio := True\<rparr>)
         else if c = CHR ''f'' then f (\<lambda>p. p\<lparr>opt_flush := True\<rparr>)
         else if c = CHR ''p''
         then (if a = ''wait'' then f (\<lambda>p. p\<lparr>opt_sync_policy := SYNC_WAIT\<rparr>)
               else if a = ''fixed'' then f (\<lambda>p. p\<lparr>opt_sync_policy := SYNC_FIXED\<rparr>)
               else if a = ''ref'' then f (\<lambda>p. p\<lparr>opt_sync_policy := SYNC_REF\<rparr>)
               else Inl 1)
         else if c = CHR ''s'' then f (\<lambda>p. p\<lparr>opt_silence_drop := True\<rparr>)
         else if c = CHR ''m''
         then (if a = ''soft'' \<or> a = ''simple'' then Inr (w\<lparr>mo_mixer := Soft\<rparr>)
               else if a = ''net'' then Inr (w\<lparr>mo_mixer := Net\<rparr>)
               else Inl 1)
         else if c = CHR ''?'' then Inl 1
         else Inr w)"

fun main_options :: "(char \<times> string) list \<Rightarrow> main_opts \<Rightarrow> int + main_opts" where
  "main_options [] w = Inr w"
| "main_options ((c, a) # as) w = (case main_opt c a w of Inl r \<Rightarrow> Inl r | Inr w1 \<Rightarrow> main_options as w1)"

subsection \<open>The state at the start\<close>

text \<open>The static variables as the program begins: no links but those of the two static list heads.\<close>

definition static_heap :: "node lheap" where
  "static_heap = init_list_head PtcHead (init_list_head VideoHead (\<lambda>_. \<lparr>lh_next = None, lh_prev = None\<rparr>))"

definition init_groups :: "srv \<Rightarrow> srv" where
  "init_groups s = s\<lparr>grps := [], tags := [], devs := []\<rparr>"

text \<open>Of db only the tables count.\<close>

definition static_srv :: "srv \<Rightarrow> srv" where
  "static_srv db =
     db\<lparr>hp := static_heap, dev := (\<lambda>_. new_dev), devs := [], tags := [], grps := [], snap_disc := [], snap_vote := [],
        snap_video := [], snap_file := [], votem := (\<lambda>_. None), vote_next := 0, ptcs := [], ptc_curr := None,
        bcast_dev := None, chairs := [], man_active := 0, man_allow := 0, net_avail := replicate 8 True, br_seq := 0,
        outs := []\<rparr>"

definition PACK_SIZE :: nat where "PACK_SIZE = 2 ^ 11"

definition init_pack_pool :: "block_pool option" where
  "init_pack_pool = init_block_pool PACK_SIZE PACK_COUNT True"

record server =
  sv_srv :: srv
  sv_packs :: block_pool
  sv_async :: async
  sv_version :: string
  sv_opts :: main_opts

definition basic_setup :: "upgrade_env \<Rightarrow> main_opts \<Rightarrow> srv \<Rightarrow> server option" where
  "basic_setup E w db =
     do { let s = init_groups (static_srv db);
          bp \<leftarrow> init_pack_pool;
          q \<leftarrow> async_init;
          v \<leftarrow> load_client_version E;
          Some \<lparr>sv_srv = s, sv_packs = bp, sv_async = q, sv_version = v, sv_opts = w\<rparr> }"

text \<open>Up to the loop of the listener: an exit code, or the server with the state its listener starts in.\<close>

definition server_start :: "(char \<times> string) list \<Rightarrow> upgrade_env \<Rightarrow> srv \<Rightarrow> (int + server \<times> listener) option" where
  "server_start args E db =
     (case main_options args main_defaults of
        Inl r \<Rightarrow> Some (Inl r)
      | Inr w \<Rightarrow> do { v \<leftarrow> basic_setup E w db;
                     s \<leftarrow> recover_server (mo_mixer w) (sv_srv v);
                     l \<leftarrow> listen_start s;
                     Some (Inr (v\<lparr>sv_srv := s\<rparr>, l)) })"

subsection \<open>What recovery is for\<close>

text \<open>The tables are fit for a start: there is the row of group 1, ids are distinct and none is the manager's,
  types do not index in front of an array, the members of the current discussion and vote have room, and so
  have the messages for cameras.\<close>

definition db_ok :: "srv \<Rightarrow> bool" where
  "db_ok db \<longleftrightarrow> 1 \<in> set (dbgrps db) \<and> distinct (dbdevs db) \<and> 0 \<notin> set (dbdevs db)
     \<and> (\<forall>d \<in> set (dbdevs db). 0 \<le> dd_type (dbdev db d))
     \<and> (case md_find_discuss db (dg_discuss_id (dbgrp db 1)) of None \<Rightarrow> True | Some r \<Rightarrow> length (id_list (ds_members r)) \<le> 1024)
     \<and> (case md_find_vote db (dg_vote_id (dbgrp db 1)) of None \<Rightarrow> True
        | Some r \<Rightarrow> dv_members r = ''all'' \<or> length (id_list (dv_members r)) \<le> 1024)
     \<and> ptc_fits db"

text \<open>The devices with an enabled row, those of them that spoke, and in a tag.\<close>

definition enabled_devs :: "srv \<Rightarrow> int list" where
  "enabled_devs db = filter (\<lambda>d. dd_enabled (dbdev db d) \<noteq> 0) (dbdevs db)"

definition open_devs :: "srv \<Rightarrow> int list" where
  "open_devs db = filter (\<lambda>d. dd_discuss_open (dbdev db d) \<noteq> 0) (enabled_devs db)"

definition row_tag :: "srv \<Rightarrow> int \<Rightarrow> int" where
  "row_tag db d = TAGUID 1 (dd_tagid (dbdev db d))"

text \<open>The subscription of a row: there is one, so the second of two wins; a device of a client without any
  gets tag 1.\<close>

definition row_sub :: "db_device \<Rightarrow> int option" where
  "row_sub r =
     (if dd_sub2 r \<noteq> 0 then Some (TAGUID 1 (dd_sub2 r))
      else if dd_sub1 r \<noteq> 0 then Some (TAGUID 1 (dd_sub1 r))
      else if DEVTYPE_NONE < dd_type r \<and> dd_type r < DEVTYPE_OTHER then Some (TAGUID 1 1)
      else None)"

text \<open>A device as its row says, and not active.\<close>

definition as_row :: "db_device \<Rightarrow> device \<Rightarrow> bool" where
  "as_row r D \<longleftrightarrow> d_group D = Some 1 \<and> d_tag D = Some (TAGUID 1 (dd_tagid r)) \<and> d_type D = dd_type r \<and> d_active D = 0
     \<and> d_sub D = row_sub r \<and> d_reg D = dd_regist_reg r \<and> d_open D = (if dd_discuss_open r \<noteq> 0 then 1 else 0)"

end
