(* ===== verification/Startup_Inv.thy ===== *)
theory Startup_Inv
  imports Startup
begin

text \<open>
  What recovery keeps as it creates device after device. up ties the server to the list L of devices
  created: the group's list, the lists of the tags, subscriptions, open microphones, cameras and the
  members of a vote.
\<close>

subsection \<open>Families of nodes\<close>

text \<open>The nodes of the lists of one kind; no list operation leads out of its kind.\<close>

fun fam :: "node \<Rightarrow> nat" where
  "fam (GrpHead g) = 0" | "fam (DGrp d) = 0"
| "fam (TagHead t) = 1" | "fam (DTag d) = 1"
| "fam (SubHead t) = 2" | "fam (DSub d) = 2"
| "fam (OpenHead t) = 3" | "fam (DOpen d) = 3"
| "fam (VoteHead v) = 4" | "fam (DVote d) = 4"
| "fam PtcHead = 5" | "fam (DPtc d) = 5"
| "fam VideoHead = 6" | "fam (DVideo d) = 6"

definition closed :: "node lheap \<Rightarrow> bool" where
  "closed h \<longleftrightarrow> (\<forall>n m. lh_next (h n) = Some m \<or> lh_prev (h n) = Some m \<longrightarrow> fam m = fam n)"

definition off_fam :: "nat \<Rightarrow> node lheap \<Rightarrow> node lheap \<Rightarrow> bool" where
  "off_fam k h h' \<longleftrightarrow> closed h' \<and> (\<forall>n. fam n \<noteq> k \<longrightarrow> h' n = h n)"

lemma closedD: "closed h \<Longrightarrow> lh_next (h n) = Some m \<Longrightarrow> fam m = fam n" "closed h \<Longrightarrow> lh_prev (h n) = Some m \<Longrightarrow> fam m = fam n"
  unfolding closed_def by blast+

lemma off_fam_upd:
  assumes "off_fam k h h1" and n: "fam n = k" and r: "\<And>m. lh_next r = Some m \<or> lh_prev r = Some m \<Longrightarrow> fam m = k"
  shows "off_fam k h (h1(n := r))"
proof -
  have "fam m = fam i" if "lh_next ((h1(n := r)) i) = Some m \<or> lh_prev ((h1(n := r)) i) = Some m" for i m
  proof (cases "i = n")
    case True
    then show ?thesis using that r [of m] n by simp
  next
    case False
    then show ?thesis using that assms(1) closedD [of h1 i m] by (auto simp: off_fam_def)
  qed
  then have "closed (h1(n := r))" unfolding closed_def by blast
  then show ?thesis using assms(1) n by (simp add: off_fam_def)
qed

lemma off_fam_refl: "closed h \<Longrightarrow> off_fam k h h"
  by (simp add: off_fam_def)

lemma off_fam_set_next:
  "off_fam k h h1 \<Longrightarrow> fam n = k \<Longrightarrow> fam m = k \<Longrightarrow> off_fam k h (set_next n (Some m) h1)"
  by (rule off_fam_upd, assumption, assumption) (auto simp: off_fam_def dest: closedD)

lemma off_fam_set_prev:
  "off_fam k h h1 \<Longrightarrow> fam n = k \<Longrightarrow> fam m = k \<Longrightarrow> off_fam k h (set_prev n (Some m) h1)"
  by (rule off_fam_upd, assumption, assumption) (auto simp: off_fam_def dest: closedD)

lemma off_fam_init: "closed h \<Longrightarrow> off_fam (fam p) h (init_list_head p h)"
  unfolding init_list_head_def by (intro off_fam_set_prev off_fam_set_next off_fam_refl) simp_all

lemma off_fam_ll_add:
  "closed h \<Longrightarrow> fam p = k \<Longrightarrow> fam q = k \<Longrightarrow> fam n = k \<Longrightarrow> off_fam k h (ll_add n p q h)"
  unfolding ll_add_def by (intro off_fam_set_prev off_fam_set_next off_fam_refl) simp_all

lemma off_fam_list_add: "closed h \<Longrightarrow> list_add n l h = Some h' \<Longrightarrow> fam n = fam l \<Longrightarrow> off_fam (fam l) h h'"
  by (auto simp: list_add_def split: option.splits intro!: off_fam_ll_add dest: closedD)

lemma off_fam_list_add_tail: "closed h \<Longrightarrow> list_add_tail n l h = Some h' \<Longrightarrow> fam n = fam l \<Longrightarrow> off_fam (fam l) h h'"
  by (auto simp: list_add_tail_def split: option.splits intro!: off_fam_ll_add dest: closedD)

lemma off_fam_ll_del:
  assumes "closed h" and "ll_del (lh_prev (h e)) (lh_next (h e)) h = Some h'"
  shows "off_fam (fam e) h h'"
proof -
  obtain p n where e: "lh_prev (h e) = Some p" "lh_next (h e) = Some n" "h' = set_next p (Some n) (set_prev n (Some p) h)"
    using assms(2) by (auto simp: ll_del_def split: option.splits)
  have "fam p = fam e" "fam n = fam e" using assms(1) e(1,2) closedD by blast+
  then show ?thesis unfolding e(3) by (intro off_fam_set_prev off_fam_set_next off_fam_refl assms(1))
qed

lemma off_fam_trans: "off_fam k h h1 \<Longrightarrow> off_fam k h1 h2 \<Longrightarrow> off_fam k h h2"
  by (simp add: off_fam_def)

lemma off_fam_list_move: "closed h \<Longrightarrow> list_move n l h = Some h' \<Longrightarrow> fam n = fam l \<Longrightarrow> off_fam (fam l) h h'"
proof -
  assume a: "closed h" "list_move n l h = Some h'" "fam n = fam l"
  then obtain h1 where h1: "ll_del (lh_prev (h n)) (lh_next (h n)) h = Some h1" "list_add n l h1 = Some h'"
    by (auto simp: list_move_def)
  have "off_fam (fam l) h h1" using off_fam_ll_del [OF a(1) h1(1)] a(3) by simp
  moreover from this have "off_fam (fam l) h1 h'" using off_fam_list_add [OF _ h1(2) a(3)] by (simp add: off_fam_def)
  ultimately show ?thesis by (rule off_fam_trans)
qed

text \<open>A list of another family stays.\<close>

lemma off_fam_dlist:
  assumes "dlist h l ns" and "off_fam k h h'" and "\<forall>n \<in> insert l (set ns). fam n \<noteq> k"
  shows "dlist h' l ns"
  by (rule dlist_frame [OF assms(1)]) (use assms(2,3) in \<open>auto simp: off_fam_def\<close>)

text \<open>A list of one family stays when its family does.\<close>

lemma fam_dlist:
  assumes "dlist h l ns" and "\<And>n. fam n = k \<Longrightarrow> h' n = h n" and "\<forall>n \<in> insert l (set ns). fam n = k"
  shows "dlist h' l ns"
  by (rule dlist_frame [OF assms(1)]) (use assms(2,3) in auto)

subsection \<open>The invariant\<close>

definition tag_ids :: "srv \<Rightarrow> bool" where
  "tag_ids s \<longleftrightarrow> (\<forall>t \<in> set (tags s). t = TAGUID 1 (t_id (tagm s t)))"

text \<open>A device that was not created.\<close>

definition unborn :: "device \<Rightarrow> bool" where
  "unborn D \<longleftrightarrow> d_tag D = None \<and> d_open D = 0 \<and> d_mixbit D = 0 \<and> d_sub D = None"

definition vote_up :: "srv \<Rightarrow> int list \<Rightarrow> bool" where
  "vote_up s V \<longleftrightarrow> (case g_vote_current (grp s 1) of None \<Rightarrow> V = []
     | Some i \<Rightarrow> md_find_vote s i \<noteq> None \<and> (\<exists>v. g_vote_v (grp s 1) = Some v \<and> votem s v \<noteq> None
         \<and> dlist (hp s) (VoteHead v) (map DVote V)))"

definition in_tag :: "srv \<Rightarrow> int list \<Rightarrow> int \<Rightarrow> int list" where
  "in_tag s L t = filter (\<lambda>d. d_tag (dev s d) = Some t) L"

definition up :: "srv \<Rightarrow> int list \<Rightarrow> (int \<Rightarrow> int list) \<Rightarrow> int list \<Rightarrow> (int \<Rightarrow> int list) \<Rightarrow> int list \<Rightarrow> bool" where
  "up s L X P M V \<longleftrightarrow> closed (hp s) \<and> distinct L \<and> set (grps s) = {1}
     \<and> dlist (hp s) (GrpHead 1) (map DGrp L)
     \<and> (\<forall>t \<in> set (tags s). dlist (hp s) (TagHead t) (map DTag (in_tag s L t)))
     \<and> (\<forall>d \<in> set L. \<forall>t. d_tag (dev s d) = Some t \<longrightarrow> t \<in> set (tags s)) \<and> tag_ids s
     \<and> room_inv s X P \<and> set P \<subseteq> set L \<and> sub_inv s M \<and> vote_up s V \<and> set V \<subseteq> set L
     \<and> (\<forall>d. d \<notin> set L \<longrightarrow> unborn (dev s d)) \<and> placed s X"

text \<open>What the parts of the invariant are about stays the same.\<close>

definition steady :: "srv \<Rightarrow> srv \<Rightarrow> bool" where
  "steady s s' \<longleftrightarrow> tags s' = tags s \<and> grps s' = grps s \<and> ptc_curr s' = ptc_curr s
     \<and> (\<forall>e. d_tag (dev s' e) = d_tag (dev s e) \<and> d_open (dev s' e) = d_open (dev s e)
          \<and> d_mixbit (dev s' e) = d_mixbit (dev s e) \<and> d_sub (dev s' e) = d_sub (dev s e))
     \<and> (\<forall>u. t_openuser (tagm s' u) = t_openuser (tagm s u) \<and> t_mix_devs (tagm s' u) = t_mix_devs (tagm s u)
          \<and> t_mix_ref (tagm s' u) = t_mix_ref (tagm s u) \<and> t_mix_count (tagm s' u) = t_mix_count (tagm s u)
          \<and> t_id (tagm s' u) = t_id (tagm s u))
     \<and> g_vote_current (grp s' 1) = g_vote_current (grp s 1) \<and> g_vote_v (grp s' 1) = g_vote_v (grp s 1)
     \<and> (\<forall>v. votem s' v = None \<longleftrightarrow> votem s v = None) \<and> dbvote s' = dbvote s"

lemma steady_refl [simp]: "steady s s"
  by (simp add: steady_def)

lemma room_inv_steady:
  assumes "room_inv s X P" and "steady s s'"
    and hp: "\<And>n. fam n = 3 \<or> fam n = 5 \<Longrightarrow> hp s' n = hp s n"
  shows "room_inv s' X P"
proof -
  have "disc_inv s' X"
  proof (rule disc_inv_cong)
    show "disc_inv s X" using assms(1) by (simp add: room_inv_def)
    show "dlist (hp s') (OpenHead u) (map DOpen xs)" if "dlist (hp s) (OpenHead u) (map DOpen xs)" for u xs
      by (rule fam_dlist [OF that, of 3]) (auto simp: hp)
  qed (use assms(2) in \<open>simp_all add: steady_def\<close>)
  moreover have "\<forall>t \<in> set (tags s'). mix_ok t s'"
    using assms(1,2) mix_ok_cong_slots [of s' _ s] by (simp add: room_inv_def steady_def)
  moreover have "ptc_inv s' P"
  proof (rule ptc_inv_cong)
    show "ptc_inv s P" "ptc_curr s' = ptc_curr s" using assms(1,2) by (simp_all add: room_inv_def steady_def)
  qed (auto simp: hp)
  ultimately show ?thesis by (simp add: room_inv_def)
qed

lemma sub_inv_steady:
  assumes "sub_inv s M" and "steady s s'" and hp: "\<And>n. fam n = 2 \<Longrightarrow> hp s' n = hp s n"
  shows "sub_inv s' M"
proof -
  have "dlist (hp s') (SubHead t) (map DSub (M t))" if "t \<in> set (tags s)" for t
  proof (rule fam_dlist [where k = 2])
    show "dlist (hp s) (SubHead t) (map DSub (M t))" using assms(1) that by (simp add: sub_inv_def)
  qed (auto simp: hp)
  then show ?thesis using assms(1,2) by (simp add: sub_inv_def steady_def)
qed

lemma vote_up_cong:
  assumes "vote_up s V" and "g_vote_current (grp s' 1) = g_vote_current (grp s 1)" and "g_vote_v (grp s' 1) = g_vote_v (grp s 1)"
    and "\<And>v. votem s' v = None \<longleftrightarrow> votem s v = None" and "dbvote s' = dbvote s" and hp: "\<And>n. fam n = 4 \<Longrightarrow> hp s' n = hp s n"
  shows "vote_up s' V"
proof (cases "g_vote_current (grp s 1)")
  case (Some i)
  then obtain v where v: "md_find_vote s i \<noteq> None" "g_vote_v (grp s 1) = Some v" "votem s v \<noteq> None"
    "dlist (hp s) (VoteHead v) (map DVote V)" using assms(1) by (auto simp: vote_up_def)
  have "dlist (hp s') (VoteHead v) (map DVote V)" by (rule fam_dlist [OF v(4), of 4]) (auto simp: hp)
  then show ?thesis using v(1-3) Some assms(2-5) by (simp add: vote_up_def md_find_vote_def)
qed (use assms(1,2) in \<open>simp add: vote_up_def\<close>)

lemma vote_up_steady: "vote_up s V \<Longrightarrow> steady s s' \<Longrightarrow> (\<And>n. fam n = 4 \<Longrightarrow> hp s' n = hp s n) \<Longrightarrow> vote_up s' V"
  by (erule vote_up_cong) (simp_all add: steady_def)

lemma placed_steady: "placed s X \<Longrightarrow> steady s s' \<Longrightarrow> placed s' X"
  by (erule placed_cong) (simp_all add: steady_def)

text \<open>The parts over the lists of the group and of the tags.\<close>

lemma up_steady:
  assumes "up s L X P M V" and "steady s s'" and "hp s' = hp s"
  shows "up s' L X P M V"
proof -
  have "in_tag s' L t = in_tag s L t" for t using assms(2) by (simp add: in_tag_def steady_def)
  moreover have "room_inv s' X P" "sub_inv s' M" "vote_up s' V" "placed s' X"
    using room_inv_steady [OF _ assms(2)] sub_inv_steady [OF _ assms(2)] vote_up_steady [OF _ assms(2)]
      placed_steady [OF _ assms(2)] assms(1,3)
    by (simp_all add: up_def)
  ultimately show ?thesis using assms by (simp add: up_def steady_def tag_ids_def unborn_def)
qed

text \<open>The parts a step in one family leaves alone.\<close>

lemma up_parts:
  assumes up: "up s L X P M V" and st: "steady s s'" and off: "off_fam k (hp s) (hp s')"
  shows "k \<noteq> 3 \<Longrightarrow> k \<noteq> 5 \<Longrightarrow> room_inv s' X P" "k \<noteq> 2 \<Longrightarrow> sub_inv s' M" "k \<noteq> 4 \<Longrightarrow> vote_up s' V"
    "k \<noteq> 0 \<Longrightarrow> dlist (hp s') (GrpHead 1) (map DGrp L)"
    "k \<noteq> 1 \<Longrightarrow> t \<in> set (tags s) \<Longrightarrow> dlist (hp s') (TagHead t) (map DTag (in_tag s L t))"    "placed s' X"
proof -
  have hp: "hp s' n = hp s n" if "fam n \<noteq> k" for n using off that by (simp add: off_fam_def)
  show "room_inv s' X P" if "k \<noteq> 3" "k \<noteq> 5" using up by (intro room_inv_steady [OF _ st]) (use that hp in \<open>auto simp: up_def\<close>)
  show "sub_inv s' M" if "k \<noteq> 2" using up by (intro sub_inv_steady [OF _ st]) (use that hp in \<open>auto simp: up_def\<close>)
  show "vote_up s' V" if "k \<noteq> 4" using up by (intro vote_up_steady [OF _ st]) (use that hp in \<open>auto simp: up_def\<close>)
  show "dlist (hp s') (GrpHead 1) (map DGrp L)" if "k \<noteq> 0"
    using up by (intro off_fam_dlist [OF _ off]) (use that in \<open>auto simp: up_def\<close>)
  show "dlist (hp s') (TagHead t) (map DTag (in_tag s L t))" if "k \<noteq> 1" "t \<in> set (tags s)"
    using up by (intro off_fam_dlist [OF _ off]) (use that in \<open>auto simp: up_def\<close>)
  show "placed s' X" using up placed_steady [OF _ st] by (simp add: up_def)
qed

subsection \<open>A device is made and joins\<close>

lemma null_links_sel: "null_links ns h n = (if n \<in> set ns then \<lparr>lh_next = None, lh_prev = None\<rparr> else h n)"
proof -
  have "fold (\<lambda>n h. h(n := \<lparr>lh_next = None, lh_prev = None\<rparr>)) ns h n = (if n \<in> set ns then \<lparr>lh_next = None, lh_prev = None\<rparr> else h n)"
    by (induction ns arbitrary: h) auto
  then show ?thesis by (simp add: null_links_def)
qed

lemma closed_null_links: "closed h \<Longrightarrow> closed (null_links ns h)"
  unfolding closed_def null_links_sel by (metis list_head.select_convs(1,2) option.distinct(1))

lemma dlist_null_links: "dlist h l xs \<Longrightarrow> set ns \<inter> insert l (set xs) = {} \<Longrightarrow> dlist (null_links ns h) l xs"
  by (rule dlist_frame, assumption) (auto simp: null_links_sel)

lemma disc_inv_heap:
  assumes "disc_inv s X" and "\<And>t. t \<in> set (tags s) \<Longrightarrow> dlist (hp s) (OpenHead t) (map DOpen (X t)) \<Longrightarrow> dlist (hp s') (OpenHead t) (map DOpen (X t))"
    and "steady s s'"
  shows "disc_inv s' X"
  using assms by (simp add: disc_inv_def steady_def)

lemma steady_create: "unborn (dev s d) \<Longrightarrow> steady s (dev_create d s)"
  by (simp add: steady_def dev_create_def unborn_def new_dev_def)

lemma up_create:
  assumes up: "up s L X P M V" and d: "d \<notin> set L"
  shows "up (dev_create d s) L X P M V"
proof -
  let ?s = "dev_create d s"
  have ub: "unborn (dev s d)" using up d by (simp add: up_def)
  note st = steady_create [OF ub]
  have hp: "hp ?s = null_links (dev_nodes d) (hp s)" by (simp add: dev_create_def)
  have keep: "dlist (hp ?s) l xs" if "dlist (hp s) l xs" "set (dev_nodes d) \<inter> insert l (set xs) = {}" for l xs
    unfolding hp using that by (rule dlist_null_links)
  have disc: "disc_inv s X" and sub: "sub_inv s M" and ptc: "ptc_inv s P" and mix: "\<forall>t \<in> set (tags s). mix_ok t s"
    using up by (simp_all add: up_def room_inv_def)
  have "d \<notin> set (X t)" "d \<notin> set (M t)" for t using disc sub ub by (auto simp: disc_inv_def sub_inv_def unborn_def)
  then have n: "set (dev_nodes d) \<inter> insert (OpenHead t) (set (map DOpen (X t))) = {}"
    "set (dev_nodes d) \<inter> insert (SubHead t) (set (map DSub (M t))) = {}" for t by (auto simp: dev_nodes_def)
  have "d \<notin> set P" "d \<notin> set V" "d \<notin> set (in_tag s L t)" for t using up d by (auto simp: up_def in_tag_def)
  then have n2: "set (dev_nodes d) \<inter> insert PtcHead (set (map DPtc P)) = {}"
    "set (dev_nodes d) \<inter> insert (VoteHead v) (set (map DVote V)) = {}"
    "set (dev_nodes d) \<inter> insert (TagHead t) (set (map DTag (in_tag s L t))) = {}"
    "set (dev_nodes d) \<inter> insert (GrpHead 1) (set (map DGrp L)) = {}" for v t using d by (auto simp: dev_nodes_def)
  have "disc_inv ?s X" by (rule disc_inv_heap [OF disc keep [OF _ n(1)] st])
  moreover have "sub_inv ?s M" using sub st keep [OF _ n(2)] by (simp add: sub_inv_def steady_def)
  ultimately have lists: "disc_inv ?s X" "sub_inv ?s M" by blast+
  have "ptc_inv ?s P"
    using ptc keep [OF _ n2(1)] st by (simp add: ptc_inv_def steady_def) (simp add: hp null_links_sel)
  moreover have "\<forall>t \<in> set (tags ?s). mix_ok t ?s" using mix st mix_ok_cong_slots [of ?s _ s] by (simp add: steady_def)
  moreover have "vote_up ?s V"
  proof -
    have "vote_up s V" using up by (simp add: up_def)
    then show ?thesis
      using st keep [OF _ n2(2)] by (cases "g_vote_current (grp s 1)") (auto simp: vote_up_def steady_def md_find_vote_def)
  qed
  moreover have "dlist (hp ?s) (GrpHead 1) (map DGrp L)" using up keep [OF _ n2(4)] by (simp add: up_def)
  moreover have "in_tag ?s L t = in_tag s L t" for t using st by (simp add: in_tag_def steady_def)
  moreover have "dlist (hp ?s) (TagHead t) (map DTag (in_tag s L t))" if "t \<in> set (tags s)" for t
    using up that keep [OF _ n2(3)] by (simp add: up_def)
  moreover have "placed ?s X" using up placed_steady [OF _ st] by (simp add: up_def)
  ultimately show ?thesis
    using up st lists closed_null_links [of "hp s"] by (simp add: up_def room_inv_def steady_def tag_ids_def unborn_def hp)
qed

lemma up_group:
  assumes up: "up s L X P M V" and d: "d \<notin> set L"
  shows "\<exists>h. on_heap (list_add_tail (DGrp d) (GrpHead 1)) s = Some (s\<lparr>hp := h\<rparr>) \<and> up (s\<lparr>hp := h\<rparr>) (L @ [d]) X P M V"
proof -
  have c: "closed (hp s)" and l: "dlist (hp s) (GrpHead 1) (map DGrp L)" using up by (simp_all add: up_def)
  have "DGrp d \<notin> insert (GrpHead 1) (set (map DGrp L))" using d by auto
  from list_add_tail_dlist [OF l this] obtain h where h: "list_add_tail (DGrp d) (GrpHead 1) (hp s) = Some h"
    "dlist h (GrpHead 1) (map DGrp (L @ [d]))" by auto
  have off: "off_fam 0 (hp s) h" using off_fam_list_add_tail [OF c h(1)] by simp
  let ?s = "s\<lparr>hp := h\<rparr>"
  have st: "steady s ?s" by (simp add: steady_def)
  have ub: "d_tag (dev s d) = None" using up d by (simp add: up_def unborn_def)
  have "room_inv ?s X P" "sub_inv ?s M" "vote_up ?s V" "placed ?s X"
    using up_parts [OF up st] off by simp_all
  moreover have "dlist h (TagHead t) (map DTag (in_tag ?s (L @ [d]) t))" if "t \<in> set (tags s)" for t
  proof (rule off_fam_dlist [OF _ off])
    show "dlist (hp s) (TagHead t) (map DTag (in_tag ?s (L @ [d]) t))" using up that ub by (simp add: up_def in_tag_def)
  qed auto
  ultimately have "up ?s (L @ [d]) X P M V" using up d h(2) off ub by (auto simp: up_def off_fam_def tag_ids_def)
  then show ?thesis using h(1) by (auto simp: on_heap_def)
qed

text \<open>Joining a tag: its list and the fields of the device.\<close>

lemma up_tag:
  assumes up: "up s L X P M V" and d: "d \<in> set L" "unborn (dev s d)" and t: "t \<in> set (tags s)" and last: "last L = d"
  shows "\<exists>h. on_heap (list_add_tail (DTag d) (TagHead t)) s = Some (s\<lparr>hp := h\<rparr>)
    \<and> up (upd_dev d (\<lambda>D. D\<lparr>d_group := Some g, d_tag := Some t\<rparr>) (s\<lparr>hp := h\<rparr>)) L X P M V"
proof -
  have c: "closed (hp s)" and l: "dlist (hp s) (TagHead t) (map DTag (in_tag s L t))" using up t by (simp_all add: up_def)
  have nd: "d \<notin> set (in_tag s L u)" for u using d(2) by (simp add: in_tag_def unborn_def)
  then have "DTag d \<notin> insert (TagHead t) (set (map DTag (in_tag s L t)))" by auto
  from list_add_tail_dlist [OF l this] obtain h where h: "list_add_tail (DTag d) (TagHead t) (hp s) = Some h"
    "dlist h (TagHead t) (map DTag (in_tag s L t @ [d]))" by auto
  have off: "off_fam 1 (hp s) h" using off_fam_list_add_tail [OF c h(1)] by simp
  let ?r = "s\<lparr>hp := h\<rparr>" and ?f = "upd_dev d (\<lambda>D. D\<lparr>d_group := Some g, d_tag := Some t\<rparr>)"
  have st: "steady s ?r" by (simp add: steady_def)
  have r: "room_inv ?r X P" "sub_inv ?r M" "vote_up ?r V" and pl: "placed ?r X"
    using up_parts [OF up st] off by simp_all
  have "disc_inv (?f ?r) X" using r(1) d(2) by (auto simp: room_inv_def disc_inv_def unborn_def)
  moreover have "mix_ok u (?f ?r)" if "u \<in> set (tags s)" for u
  proof -
    have m: "mix_ok u ?r" using r(1) that by (simp add: room_inv_def)
    have "Some d \<notin> set (t_mix_devs (tagm s u))"
      using m d(2) slot_bit_nonzero by (auto simp: mix_ok_def Let_def in_set_conv_nth unborn_def)
    then have "t_mix_devs (tagm s u) ! i \<noteq> Some d" if "i < 8" for i
      using m that by (auto simp: mix_ok_def Let_def in_set_conv_nth)
    then show ?thesis using m d(2) by (auto simp: mix_ok_def Let_def unborn_def)
  qed
  moreover have "ptc_inv (?f ?r) P" using r(1) by (simp add: room_inv_def ptc_inv_def)
  ultimately have "room_inv (?f ?r) X P" by (simp add: room_inv_def)
  moreover have "placed (?f ?r) X" by (rule placed_cong [OF pl]) simp_all
  moreover have "sub_inv (?f ?r) M" using r(2) by (simp add: sub_inv_def)
  moreover have "vote_up (?f ?r) V" by (rule vote_up_cong [OF r(3)]) simp_all
  moreover have "dlist h (GrpHead 1) (map DGrp L)"
  proof (rule off_fam_dlist [OF _ off])
    show "dlist (hp s) (GrpHead 1) (map DGrp L)" using up by (simp add: up_def)
  qed auto
  moreover have "dlist h (TagHead u) (map DTag (in_tag (?f ?r) L u))" if u: "u \<in> set (tags s)" for u
  proof -
    obtain K where L: "L = K @ [d]" using d(1) last by (metis append_butlast_last_id empty_iff empty_set)
    then have K: "d \<notin> set K" using up by (simp add: up_def)
    have f: "filter (\<lambda>e. d_tag (dev (?f ?r) e) = Some u) K = filter (\<lambda>e. d_tag (dev s e) = Some u) K"
      by (rule filter_cong) (use K in auto)
    show ?thesis
    proof (cases "u = t")
      case True
      then show ?thesis using h(2) f d(2) by (simp add: in_tag_def L unborn_def)
    next
      case False
      have e: "in_tag (?f ?r) L u = in_tag s L u" using f False d(2) by (simp add: in_tag_def L unborn_def)
      have "dlist (hp s) (TagHead u) (map DTag (in_tag s L u))" using up u by (simp add: up_def)
      then show ?thesis
        unfolding e by (rule ll.snoc_other [OF l h(1)]) (use nd [of u] False in \<open>auto simp: in_tag_def\<close>)
    qed
  qed
  ultimately have "up (?f ?r) L X P M V" using up d t off by (auto simp: up_def off_fam_def tag_ids_def)
  then show ?thesis using h(1) by (auto simp: on_heap_def)
qed

subsection \<open>Tags and subscriptions\<close>

lemma TAGUID_inject: "TAGUID 1 a = TAGUID 1 b \<longleftrightarrow> a = b"
  by (metis TAGUID_def bit.xor_left_self)

text \<open>A tag is found, or made with empty lists and free slots.\<close>

lemma new_tag_sel:
  "t_openuser (new_tag tid m mode mx) = 0" "t_mix_devs (new_tag tid m mode mx) = replicate 8 None"
  "t_mix_ref (new_tag tid m mode mx) = 0" "t_mix_count (new_tag tid m mode mx) = 0" "t_id (new_tag tid m mode mx) = tid"
  by (simp_all add: new_tag_def)

lemma mix_ok_new:
  assumes "\<And>d. d_tag (dev s d) \<noteq> Some u" and "t_mix_devs (tagm s u) = replicate 8 None" "t_mix_ref (tagm s u) = 0" "t_mix_count (tagm s u) = 0"
  shows "mix_ok u s"
  using assms by (simp add: mix_ok_def used_def)

lemma up_new_tag:
  assumes up: "up s L X P M V" and u: "u \<notin> set (tags s)" "u = TAGUID 1 (t_id T)"
    and T: "t_openuser T = 0" "t_mix_devs T = replicate 8 None" "t_mix_ref T = 0" "t_mix_count T = 0"
  shows "up (s\<lparr>hp := init_list_head (OpenHead u) (init_list_head (SubHead u) (init_list_head (TagHead u) (hp s))),
    tagm := (tagm s)(u := T), tags := u # tags s\<rparr>) L X P M V"
proof -
  let ?h = "init_list_head (OpenHead u) (init_list_head (SubHead u) (init_list_head (TagHead u) (hp s)))"
  let ?s = "s\<lparr>hp := ?h, tagm := (tagm s)(u := T), tags := u # tags s\<rparr>"
  have h: "?h n = hp s n" if "n \<notin> {OpenHead u, SubHead u, TagHead u}" for n using that by (simp add: init_list_head_frame)
  have keep: "dlist ?h l xs" if "dlist (hp s) l xs" "insert l (set xs) \<inter> {OpenHead u, SubHead u, TagHead u} = {}" for l xs
    by (rule dlist_frame [OF that(1)]) (rule h, use that(2) in auto)
  have new: "dlist ?h (OpenHead u) []" "dlist ?h (SubHead u) []" "dlist ?h (TagHead u) []"
    by (simp_all add: dlist_def init_list_head_def)
  have "closed (hp s)" using up by (simp add: up_def)
  then have cl: "closed ?h" using off_fam_init unfolding off_fam_def by blast
  have none: "d_tag (dev s d) \<noteq> Some u" for d using up u(1) by (cases "d \<in> set L") (auto simp: up_def unborn_def)
  have X: "X u = []" and M: "M u = []" using up u(1) by (simp_all add: up_def room_inv_def disc_inv_def sub_inv_def)
  have ne: "t \<noteq> u" if "t \<in> set (tags s)" for t using that u(1) by auto
  have old: "dlist ?h (OpenHead t) (map DOpen (X t))" "dlist ?h (SubHead t) (map DSub (M t))"
    "dlist ?h (TagHead t) (map DTag (in_tag s L t))" if "t \<in> set (tags s)" for t
  proof -
    have l: "dlist (hp s) (OpenHead t) (map DOpen (X t))" "dlist (hp s) (SubHead t) (map DSub (M t))"
      "dlist (hp s) (TagHead t) (map DTag (in_tag s L t))"
      using up that by (simp_all add: up_def room_inv_def disc_inv_def sub_inv_def)
    show "dlist ?h (OpenHead t) (map DOpen (X t))" "dlist ?h (SubHead t) (map DSub (M t))"
      "dlist ?h (TagHead t) (map DTag (in_tag s L t))"
      using keep [OF l(1)] keep [OF l(2)] keep [OF l(3)] ne [OF that] by auto
  qed
  have "disc_inv ?s X" using up X T(1) new(1) old(1) ne by (auto simp: up_def room_inv_def disc_inv_def)
  moreover have "\<forall>t \<in> set (tags ?s). mix_ok t ?s"
    using up ne mix_ok_cong [of ?s _ s] mix_ok_new [of ?s u] none T by (simp add: up_def room_inv_def)
  moreover have "ptc_inv ?s P" using up by (intro ptc_inv_cong [of s P ?s]) (auto simp: up_def room_inv_def init_list_head_frame)
  moreover have "sub_inv ?s M" using up M new(2) old(2) by (auto simp: up_def sub_inv_def)
  moreover have "vote_up ?s V"
  proof (rule vote_up_cong)
    show "vote_up s V" using up by (simp add: up_def)
    show "hp ?s n = hp s n" if "fam n = 4" for n using h [of n] that by (cases n) auto
  qed simp_all
  moreover have "dlist ?h (GrpHead 1) (map DGrp L)" by (rule keep) (use up in \<open>auto simp: up_def\<close>)
  moreover have "dlist ?h (TagHead t) (map DTag (in_tag ?s L t))" if "t \<in> set (tags ?s)" for t
  proof (cases "t = u")
    case True
    then show ?thesis using none new(3) by (simp add: in_tag_def)
  next
    case False
    then show ?thesis using old(3) [of t] that by (simp add: in_tag_def)
  qed
  moreover have "placed ?s X" using up X by (intro placed_cong [of s X ?s]) (auto simp: up_def)
  ultimately show ?thesis using up cl u by (auto simp: up_def room_inv_def tag_ids_def)
qed

text \<open>What requesting a tag changes.\<close>

lemma request_tag_up:
  assumes up: "up s L X P M V"
  shows "\<exists>h T ts. request_tag opt 1 tid s = Some (TAGUID 1 tid, s\<lparr>hp := h, tagm := T, tags := ts\<rparr>)
    \<and> up (s\<lparr>hp := h, tagm := T, tags := ts\<rparr>) L X P M V \<and> TAGUID 1 tid \<in> set ts \<and> t_id (T (TAGUID 1 tid)) = tid \<and> set (tags s) \<subseteq> set ts"
proof (cases "TAGUID 1 tid \<in> set (tags s)")
  case True
  then have "t_id (tagm s (TAGUID 1 tid)) = tid" using up TAGUID_inject by (metis tag_ids_def up_def)
  then have "request_tag opt 1 tid s = Some (TAGUID 1 tid, s\<lparr>hp := hp s, tagm := tagm s, tags := tags s\<rparr>)"
    "up (s\<lparr>hp := hp s, tagm := tagm s, tags := tags s\<rparr>) L X P M V" "t_id (tagm s (TAGUID 1 tid)) = tid"
    using True up by (simp_all add: request_tag_def)
  then show ?thesis using True by blast
next
  case False
  have "get_group s 1 = Some 1" using up by (simp add: up_def)
  then obtain m mode mx where "(if tid = 1 then do { g \<leftarrow> get_group s 1; let G = dbgrp s g;
      Some (new_tag tid opt (dg_discuss_mode G) (if dg_discuss_maxuser G = 0 then MAX_MIX else dg_discuss_maxuser G)) }
      else Some (new_tag tid Soft DISCMODE_AUTO 1)) = Some (new_tag tid m mode mx)"
    by (cases "tid = 1") (auto simp: Let_def simp del: get_group_iff)
  then have c: "tag_create opt 1 tid s = Some (TAGUID 1 tid, s\<lparr>hp := init_list_head (OpenHead (TAGUID 1 tid))
      (init_list_head (SubHead (TAGUID 1 tid)) (init_list_head (TagHead (TAGUID 1 tid)) (hp s))),
      tagm := (tagm s)(TAGUID 1 tid := new_tag tid m mode mx), tags := TAGUID 1 tid # tags s\<rparr>)"
    unfolding tag_create_def Let_def by (simp del: get_group_iff)
  have "request_tag opt 1 tid s = tag_create opt 1 tid s" using False by (simp add: request_tag_def)
  moreover have "up (s\<lparr>hp := init_list_head (OpenHead (TAGUID 1 tid))
      (init_list_head (SubHead (TAGUID 1 tid)) (init_list_head (TagHead (TAGUID 1 tid)) (hp s))),
      tagm := (tagm s)(TAGUID 1 tid := new_tag tid m mode mx), tags := TAGUID 1 tid # tags s\<rparr>) L X P M V"
    by (rule up_new_tag [OF up False]) (simp_all add: new_tag_sel)
  ultimately show ?thesis using c by (fastforce simp: new_tag_sel)
qed

text \<open>What concerns one device only.\<close>

definition same_row :: "db_device \<Rightarrow> db_device \<Rightarrow> bool" where
  "same_row r r' \<longleftrightarrow> r'\<lparr>dd_online := 0, dd_sub1 := 0, dd_discuss_open := 0\<rparr> = r\<lparr>dd_online := 0, dd_sub1 := 0, dd_discuss_open := 0\<rparr>"

definition only :: "int \<Rightarrow> srv \<Rightarrow> srv \<Rightarrow> bool" where
  "only d s s' \<longleftrightarrow> (\<forall>e. e \<noteq> d \<longrightarrow> dev s' e = dev s e \<and> dbdev s' e = dbdev s e) \<and> same_row (dbdev s d) (dbdev s' d)
     \<and> dbdevs s' = dbdevs s \<and> g_active_count (grp s' 1) = g_active_count (grp s 1)"

lemma only_trans: "only d s t \<Longrightarrow> only d t u \<Longrightarrow> only d s u"
  by (simp add: only_def same_row_def)

lemma only_refl [simp]: "only d s s"
  by (simp add: only_def same_row_def)

lemma same_row_sel:
  assumes "same_row r r'"
  shows "dd_type r' = dd_type r" "dd_tagid r' = dd_tagid r" "dd_sub2 r' = dd_sub2 r" "dd_ptc_id r' = dd_ptc_id r"
    "dd_ptc_cmd r' = dd_ptc_cmd r" "dd_regist_reg r' = dd_regist_reg r" "dd_enabled r' = dd_enabled r"
  using arg_cong [OF assms [unfolded same_row_def], of dd_type] arg_cong [OF assms [unfolded same_row_def], of dd_tagid]
    arg_cong [OF assms [unfolded same_row_def], of dd_sub2] arg_cong [OF assms [unfolded same_row_def], of dd_ptc_id]
    arg_cong [OF assms [unfolded same_row_def], of dd_ptc_cmd] arg_cong [OF assms [unfolded same_row_def], of dd_regist_reg]
    arg_cong [OF assms [unfolded same_row_def], of dd_enabled]
  by simp_all

text \<open>A subscription.\<close>

lemma interp_set_more: "dbvote (interp_set_rep_tag t r s) = dbvote s" "dbdevs (interp_set_rep_tag t r s) = dbdevs s"
  by (simp_all add: interp_set_rep_tag_def notify_interp_rep_def brcast_data_to_all_def async_brcast_def Let_def)

lemma subscribe_off:
  assumes "closed h"
    and "(if b then list_move (DSub d) (SubHead t) h else list_add (DSub d) (SubHead t) h) = Some h'"
  shows "off_fam 2 h h'"
  using assms off_fam_list_move [of h "DSub d" "SubHead t" h'] off_fam_list_add [of h "DSub d" "SubHead t" h'] by (simp split: if_splits)

lemma up_subscribe:
  assumes up: "up s L X P M V" and t: "t \<in> set (tags s)" and d: "d \<in> set L" "d_tag (dev s d) \<noteq> None"
  shows "\<exists>s' M'. dev_subscribe d t s = Some s' \<and> up s' L X P M' V \<and> only d s s' \<and> tags s' = tags s \<and> devs s' = devs s
    \<and> dev s' = (dev s)(d := (dev s d)\<lparr>d_sub := Some t\<rparr>)
    \<and> (d_sub (dev s d) \<noteq> Some t \<longrightarrow> dd_sub1 (dbdev s' d) = t_id (tagm s t)) \<and> dd_discuss_open (dbdev s' d) = dd_discuss_open (dbdev s d)"
proof (cases "d_sub (dev s d) = Some t")
  case True
  have "(dev s)(d := (dev s d)\<lparr>d_sub := Some t\<rparr>) = dev s" using True by (intro fun_upd_idem) simp
  then show ?thesis using up True by (auto simp: dev_subscribe_def)
next
  case False
  have inv: "sub_inv s M" using up by (simp add: up_def)
  obtain s' where s': "dev_subscribe d t s = Some s'" "sub_inv s' (sub_to d t M)"
    using dev_subscribe_inv [OF inv t d(2)] False by auto
  obtain h u where h: "(if d_sub (dev s d) \<noteq> None then list_move (DSub d) (SubHead t) (hp s)
      else list_add (DSub d) (SubHead t) (hp s)) = Some h" and u: "d_tag (dev s d) = Some u"
    using subscribe_heap [OF inv t False] d(2) by blast
  define s2 where "s2 = upd_dbdev d (\<lambda>D. D\<lparr>dd_sub1 := t_id (tagm s t)\<rparr>) (upd_dev d (\<lambda>D. D\<lparr>d_sub := Some t\<rparr>) (s\<lparr>hp := h\<rparr>))"
  have "dev_subscribe d t s = Some (if t_interp_mode (tagm s2 u) = INTERP_RE then interp_set_rep_tag u (Some t) s2 else s2)"
    using False h u by (cases "d_sub (dev s d)") (simp_all add: dev_subscribe_def on_heap_def s2_def Let_def)
  then have s3: "s' = (if t_interp_mode (tagm s2 u) = INTERP_RE then interp_set_rep_tag u (Some t) s2 else s2)" using s'(1) by simp
  have off: "off_fam 2 (hp s) h" by (rule subscribe_off [OF _ h]) (use up in \<open>simp add: up_def\<close>)
  let ?r = "s\<lparr>hp := h\<rparr>"
  have st: "steady s ?r" by (simp add: steady_def)
  note parts = up_parts [OF up st, of 2]
  have pl: "placed ?r X" using parts off by simp
  have r: "room_inv ?r X P" "vote_up ?r V" "dlist h (GrpHead 1) (map DGrp L)"
    "t \<in> set (tags s) \<Longrightarrow> dlist h (TagHead t) (map DTag (in_tag s L t))" for t
    using parts off by simp_all
  have sel: "hp s' = h" "tags s' = tags s" "dev s' = (dev s)(d := (dev s d)\<lparr>d_sub := Some t\<rparr>)" "grp s' = grp s" "grps s' = grps s"
    "votem s' = votem s" "dbvote s' = dbvote s" "ptc_curr s' = ptc_curr s" "dbdevs s' = dbdevs s" "devs s' = devs s"
    "dbdev s' = (dbdev s)(d := (dbdev s d)\<lparr>dd_sub1 := t_id (tagm s t)\<rparr>)"
    "\<And>k. t_openuser (tagm s' k) = t_openuser (tagm s k)" "\<And>k. t_mix_devs (tagm s' k) = t_mix_devs (tagm s k)"
    "\<And>k. t_mix_ref (tagm s' k) = t_mix_ref (tagm s k)" "\<And>k. t_mix_count (tagm s' k) = t_mix_count (tagm s k)"
    "\<And>k. t_id (tagm s' k) = t_id (tagm s k)"
    unfolding s3 s2_def by (simp_all add: interp_set_more)
  have "disc_inv s' X" using r(1) by (simp add: room_inv_def disc_inv_def sel)
  moreover have "\<forall>k \<in> set (tags s'). mix_ok k s'" using r(1) mix_ok_cong_slots [of s' _ ?r] by (simp add: room_inv_def sel)
  moreover have "ptc_inv s' P" using r(1) by (simp add: room_inv_def ptc_inv_def sel)
  moreover have "vote_up s' V" by (rule vote_up_cong [OF r(2)]) (simp_all add: sel)
  moreover have "in_tag s' L k = in_tag s L k" for k unfolding in_tag_def by (rule filter_cong) (auto simp: sel)
  moreover have "placed s' X" by (rule placed_cong [OF pl]) (simp_all add: sel)
  ultimately have "up s' L X P (sub_to d t M) V"
    using up s'(2) off d(1) r(3,4) by (auto simp: up_def room_inv_def sel off_fam_def tag_ids_def)
  moreover have "only d s s'" by (simp add: only_def sel same_row_def)
  ultimately show ?thesis using s'(1) sel False by auto
qed

end
