(* ===== verification/Startup_Steps.thy ===== *)
theory Startup_Steps
  imports Startup_Inv
begin

text \<open>
  The steps of recovery over the invariant up: opening a microphone, the camera stack, the members of a
  vote, and from them dev_register and recover_dev for a device that is not there yet.
\<close>

subsection \<open>Microphones and cameras\<close>

lemma tag_add_outstanding_more:
  assumes "tag_add_outstanding t d s = Some s'"
  shows "dbvote s' = dbvote s" "dbdevs s' = dbdevs s" "e \<noteq> d \<Longrightarrow> dev s' e = dev s e"
  using assms
  by (auto simp: tag_add_outstanding_alt take_slot_def MIX_OPEN_DEV_def netmx_open_dev_def split: if_splits option.splits mixer.splits)

lemma device_save_more [simp]: "dbvote (device_save d s) = dbvote s" "dbdevs (device_save d s) = dbdevs s"
  by (simp_all add: device_save_def)

lemma up_open:
  assumes up: "up s L X P M V" and d: "d \<in> set L" "d_tag (dev s d) = Some t" "d_open (dev s d) = 0"
  shows "\<exists>s'. add_open t d s = Some s' \<and> up s' L (X(t := X t @ [d])) P M V \<and> only d s s' \<and> same_conf s s' \<and> d_open (dev s' d) = 1"
proof -
  have t: "t \<in> set (tags s)" and room: "room_inv s X P" and c: "closed (hp s)" using up d by (simp_all add: up_def)
  obtain s' where s': "add_open t d s = Some s'" "room_inv s' (X(t := X t @ [d])) P" "same_conf s s'" "d_open (dev s' d) = 1"
    using add_open_room [OF room t d(2,3)] by blast
  then obtain h s2 where h: "list_add_tail (DOpen d) (OpenHead t) (hp s) = Some h"
    and s2: "tag_add_outstanding t d (upd_dev d (\<lambda>D. D\<lparr>d_open := 1\<rparr>) (upd_tag t (\<lambda>T. T\<lparr>t_openuser := t_openuser T + 1\<rparr>) (s\<lparr>hp := h\<rparr>))) = Some s2"
    and e: "s' = device_save d (upd_dbdev d (\<lambda>D. D\<lparr>dd_discuss_open := 1\<rparr>) s2)"
    by (auto simp: add_open_def on_heap_def)
  have off: "off_fam 3 (hp s) h" using off_fam_list_add_tail [OF c h] by simp
  have st: "steady s (s\<lparr>hp := h\<rparr>)" by (simp add: steady_def)
  note parts = up_parts [OF up st, of 3]
  note k = keeps_tag_add_outstanding [OF s2] and more = tag_add_outstanding_more [OF s2]
  have sel: "hp s' = h" "tags s' = tags s" "grp s' = grp s" "grps s' = grps s" "votem s' = votem s" "dbvote s' = dbvote s" "dbdevs s' = dbdevs s"
    "\<And>u. t_id (tagm s' u) = t_id (tagm s u)" "\<And>e. d_tag (dev s' e) = d_tag (dev s e)" "\<And>e. d_sub (dev s' e) = d_sub (dev s e)"
    "dbdev s' = (dbdev s)(d := (dbdev s d)\<lparr>dd_discuss_open := 1\<rparr>)" "\<And>e. e \<noteq> d \<Longrightarrow> dev s' e = dev s e"
    using k more unfolding e keeps_def by simp_all
  have "sub_inv s' M" using parts off by (simp add: sub_inv_def sel)
  moreover have "vote_up (s\<lparr>hp := h\<rparr>) V" using parts off by simp
  then have "vote_up s' V" by (rule vote_up_cong) (simp_all add: sel)
  moreover have "in_tag s' L u = in_tag s L u" for u by (simp add: in_tag_def sel)
  moreover have "unborn (dev s' e)" if "e \<notin> set L" for e
  proof -
    have "dev s' e = dev s e" using sel(12) [of e] that d(1) by auto
    then show ?thesis using up that by (simp add: up_def)
  qed
  moreover have "placed s' (X(t := X t @ [d]))"
    by (rule add_open_placed [OF room t d(2,3) _ s'(1)]) (use up in \<open>simp add: up_def\<close>)
  ultimately have "up s' L (X(t := X t @ [d])) P M V"
    using up s'(2) parts off by (simp add: up_def sel tag_ids_def off_fam_def)
  moreover have "only d s s'" by (simp add: only_def sel same_row_def)
  ultimately show ?thesis using s'(1,3,4) by blast
qed

lemma up_put:
  assumes up: "up s L X P M V" and d: "d \<in> set L" "d \<notin> set P"
  shows "\<exists>h. ptc_put d s = Some (s\<lparr>hp := h, ptc_curr := Some d\<rparr>) \<and> up (s\<lparr>hp := h, ptc_curr := Some d\<rparr>) L X (d # P) M V"
proof -
  have ptc: "ptc_inv s P" and room: "room_inv s X P" and c: "closed (hp s)" using up by (simp_all add: up_def room_inv_def)
  obtain s' where s': "ptc_put d s = Some s'" "ptc_inv s' (d # remove1 d P)" "ptc_frame s s'"
    using ptc_put_inv [OF ptc] by blast
  then obtain h where h: "(if \<not> is_pushed d s then list_add (DPtc d) PtcHead (hp s) else list_move (DPtc d) PtcHead (hp s)) = Some h"
    and e: "s' = s\<lparr>hp := h, ptc_curr := Some d\<rparr>" by (auto simp: ptc_put_def on_heap_def split: if_splits)
  have off: "off_fam 5 (hp s) h"
    using h off_fam_list_add [OF c, of "DPtc d" PtcHead h] off_fam_list_move [OF c, of "DPtc d" PtcHead h] by (simp split: if_splits)
  have st: "steady s (s\<lparr>hp := h\<rparr>)" by (simp add: steady_def)
  note parts = up_parts [OF up st, of 5]
  have "room_inv s' X (d # P)"
    using room s'(2) d(2) disc_inv_ptc [OF _ s'(3)] mix_all_ptc [OF _ s'(3)] by (simp add: room_inv_def remove1_idem)
  moreover have "sub_inv s' M" using parts off by (simp add: sub_inv_def e)
  moreover have "vote_up (s\<lparr>hp := h\<rparr>) V" using parts off by simp
  then have "vote_up s' V" by (rule vote_up_cong) (simp_all add: e)
  moreover have "in_tag s' L u = in_tag s L u" for u by (simp add: in_tag_def e)
  moreover have "placed s' X" by (rule placed_cong [of s]) (use up in \<open>simp_all add: up_def e\<close>)
  ultimately have "up s' L X (d # P) M V" using up parts off d(1) by (simp add: up_def e tag_ids_def off_fam_def)
  then show ?thesis using s'(1) e by auto
qed

text \<open>What is seen of a device.\<close>

definition view :: "device \<Rightarrow> int option \<times> int option \<times> int \<times> int \<times> int option" where
  "view D = (d_group D, d_tag D, d_type D, d_active D, d_sub D)"

lemma restore_discuss_up:
  assumes up: "up s L X P M V" and d: "d \<in> set L" "d \<notin> set P" "d_tag (dev s d) = Some t" "d_open (dev s d) = 0"
  shows "\<exists>s'. restore_discuss d s = Some s' \<and> only d s s' \<and> devs s' = devs s \<and> view (dev s' d) = view (dev s d)
    \<and> (if dd_discuss_open (dbdev s d) \<noteq> 0 then up s' L (X(t := X t @ [d])) (d # P) M V \<and> d_open (dev s' d) = 1
       else up s' L X P M V \<and> d_open (dev s' d) = 0)"
proof -
  define s1 where "s1 = (if is_ptc d s then add_ptc d s else s)"
  have sel: "hp s1 = hp s" "dev s1 = dev s" "dbdev s1 = dbdev s" "steady s s1" "only d s s1" "devs s1 = devs s"
    by (simp_all add: s1_def add_ptc_def steady_def only_def same_row_def)
  have up1: "up s1 L X P M V" by (rule up_steady [OF up sel(4,1)])
  have run: "restore_discuss d s = (if dd_discuss_open (dbdev s d) \<noteq> 0 then do { t \<leftarrow> d_tag (dev s d); s2 \<leftarrow> add_open t d s1; ptc_put d s2 } else Some s1)"
    by (simp add: restore_discuss_def s1_def [symmetric] sel)
  show ?thesis
  proof (cases "dd_discuss_open (dbdev s d) = 0")
    case True
    then show ?thesis using run up1 sel d(4) by simp
  next
    case False
    obtain s2 where s2: "add_open t d s1 = Some s2" "up s2 L (X(t := X t @ [d])) P M V" "only d s1 s2" "same_conf s1 s2" "d_open (dev s2 d) = 1"
      using up_open [OF up1 d(1)] d(3,4) sel(2) by auto
    obtain h where h: "ptc_put d s2 = Some (s2\<lparr>hp := h, ptc_curr := Some d\<rparr>)"
      "up (s2\<lparr>hp := h, ptc_curr := Some d\<rparr>) L (X(t := X t @ [d])) (d # P) M V" using up_put [OF s2(2) d(1,2)] by blast
    let ?s = "s2\<lparr>hp := h, ptc_curr := Some d\<rparr>"
    have "only d s ?s" using only_trans [OF sel(5) s2(3)] by (simp add: only_def)
    moreover have "view (dev ?s d) = view (dev s d)" "devs ?s = devs s"
      using s2(4) sel by (simp_all add: view_def same_conf_def)
    ultimately show ?thesis using run False d(3) s2(1,5) h by simp
  qed
qed

subsection \<open>Members of a vote\<close>

lemma restore_vote_up:
  assumes up: "up s L X P M V" and d: "d \<in> set L" "d \<notin> set V" "d_group (dev s d) = Some 1"
  shows "\<exists>s' W. restore_vote d s = Some s' \<and> up s' L X P M W \<and> set W \<subseteq> insert d (set V) \<and> only d s s' \<and> devs s' = devs s
    \<and> view (dev s' d) = view (dev s d) \<and> d_open (dev s' d) = d_open (dev s d) \<and> d_reg (dev s' d) = d_reg (dev s d)"
proof (cases "g_vote_current (grp s 1)")
  case None
  then show ?thesis using up d(3) by (intro exI [of _ s] exI [of _ V]) (auto simp: restore_vote_def)
next
  case (Some i)
  then obtain r v w where r: "md_find_vote s i = Some r" and v: "g_vote_v (grp s 1) = Some v" "votem s v = Some w"
    "dlist (hp s) (VoteHead v) (map DVote V)" using up by (auto simp: up_def vote_up_def)
  define s1 where "s1 = (if dd_vote_master (dbdev s d) \<noteq> 0 then upd_dev d (\<lambda>D. D\<lparr>d_vote_v := g_vote_v (grp s 1)\<rparr>) s else s)"
  have sel: "hp s1 = hp s" "grp s1 = grp s" "dbdev s1 = dbdev s" "steady s s1" "only d s s1" "devs s1 = devs s"
    "view (dev s1 d) = view (dev s d)" "d_open (dev s1 d) = d_open (dev s d)" "d_reg (dev s1 d) = d_reg (dev s d)" "votem s1 = votem s"
    by (simp_all add: s1_def steady_def only_def same_row_def view_def)
  have up1: "up s1 L X P M V" by (rule up_steady [OF up sel(4,1)])
  show ?thesis
  proof (cases "dv_members r = ''all'' \<or> d \<in> set (id_list (dv_members r))")
    case False
    then have "restore_vote d s = Some s1" using d(3) Some r by (simp add: restore_vote_def s1_def)
    then show ?thesis using up1 sel by (intro exI [of _ s1] exI [of _ V]) auto
  next
    case True
    have "DVote d \<notin> insert (VoteHead v) (set (map DVote V))" using d(2) by auto
    from list_add_tail_dlist [OF v(3) this] obtain h where h: "list_add_tail (DVote d) (VoteHead v) (hp s) = Some h"
      "dlist h (VoteHead v) (map DVote (V @ [d]))" by auto
    define s2 where "s2 = s1\<lparr>hp := h\<rparr>"
    define s3 where "s3 = (upd_dev d (\<lambda>D. D\<lparr>d_vote_v := Some v, d_vote_choice := dd_vote_choice (dbdev s d)\<rparr>) s2)
      \<lparr>votem := (votem s)(v := Some (w\<lparr>v_n_members := v_n_members w + 1\<rparr>))\<rparr>"
    have run: "restore_vote d s = Some s3"
      using d(3) Some r True v(1,2) h(1) sel
      by (simp add: restore_vote_def s1_def [symmetric] on_heap_def upd_vote_def s3_def s2_def)
    have "closed (hp s1)" using up1 by (simp add: up_def)
    then have off: "off_fam 4 (hp s1) (hp s2)" using off_fam_list_add_tail [of "hp s1" "DVote d" "VoteHead v" h] h(1) by (simp add: s2_def sel)
    have st2: "steady s1 s2" by (simp add: s2_def steady_def)
    have st3: "steady s1 s3" using v(2) sel by (simp add: s3_def s2_def steady_def)
    have hp3: "hp s3 = h" "hp s2 = h" by (simp_all add: s3_def s2_def)
    note parts = up_parts [OF up1 st3, of 4]
    have off3: "off_fam 4 (hp s1) (hp s3)" using off by (simp add: hp3)
    have "md_find_vote s3 i = Some r" using r st3 sel(4) by (simp add: steady_def md_find_vote_def)
    moreover have "grp s3 = grp s" "votem s3 v \<noteq> None" using sel by (simp_all add: s3_def s2_def)
    ultimately have "vote_up s3 (V @ [d])" using Some v(1) h(2) hp3(1) by (simp add: vote_up_def)
    moreover have "in_tag s3 L u = in_tag s1 L u" for u using st3 by (simp add: in_tag_def steady_def)
    moreover have "placed s3 X" using up1 placed_steady [OF _ st3] by (simp add: up_def)
    ultimately have "up s3 L X P M (V @ [d])"
      using up1 st3 parts off3 d(1) by (simp add: up_def steady_def tag_ids_def unborn_def off_fam_def)
    moreover have "only d s s3" using sel(5) sel(2) by (simp add: s3_def s2_def only_def)
    ultimately show ?thesis
      using run sel by (intro exI [of _ s3] exI [of _ "V @ [d]"]) (auto simp: s3_def s2_def view_def)
  qed
qed

subsection \<open>Registering a new device\<close>

text \<open>The links of its subscription, and the fifo.\<close>

lemma up_dsub:
  assumes up: "up s L X P M V" and d: "d \<in> set L" "d_sub (dev s d) = None"
  shows "up (upd_dev d (\<lambda>D. D\<lparr>d_sub := None, d_fifo := f\<rparr>) (s\<lparr>hp := init_list_head (DSub d) (hp s)\<rparr>)) L X P M V"
proof -
  let ?r = "s\<lparr>hp := init_list_head (DSub d) (hp s)\<rparr>" and ?f = "upd_dev d (\<lambda>D. D\<lparr>d_sub := None, d_fifo := f\<rparr>)"
  have "closed (hp s)" and sub: "sub_inv s M" using up by (simp_all add: up_def)
  then have off: "off_fam 2 (hp s) (hp ?r)" using off_fam_init [of "hp s" "DSub d"] by simp
  have st: "steady s ?r" "steady ?r (?f ?r)" using d(2) by (simp_all add: steady_def)
  note parts = up_parts [OF up st(1) off]
  have nd: "DSub d \<notin> insert (SubHead t) (set (map DSub (M t)))" for t using sub d(2) by (auto simp: sub_inv_def)
  have "dlist (hp ?r) (SubHead t) (map DSub (M t))" if "t \<in> set (tags s)" for t
  proof (rule dlist_frame)
    show "dlist (hp s) (SubHead t) (map DSub (M t))" using sub that by (simp add: sub_inv_def)
    show "hp ?r n = hp s n" if "n \<in> insert (SubHead t) (set (map DSub (M t)))" for n
    proof -
      have "n \<noteq> DSub d" using that nd [of t] by blast
      then show ?thesis by (simp add: init_list_head_frame)
    qed
  qed
  then have "sub_inv ?r M" using sub by (simp add: sub_inv_def)
  moreover have "in_tag ?r L u = in_tag s L u" for u by (simp add: in_tag_def)
  moreover have "room_inv ?r X P" "vote_up ?r V" "dlist (hp ?r) (GrpHead 1) (map DGrp L)"
    "t \<in> set (tags s) \<Longrightarrow> dlist (hp ?r) (TagHead t) (map DTag (in_tag s L t))" for t using parts by simp_all
  moreover have "closed (hp ?r)" "placed ?r X" using off parts by (simp_all add: off_fam_def)
  ultimately have "up ?r L X P M V" using up unfolding up_def tag_ids_def by simp
  then show ?thesis by (rule up_steady [OF _ st(2)]) simp
qed

lemma steady_ucast: "steady s (snd (tag_check_ucast t d s))" "hp (snd (tag_check_ucast t d s)) = hp s"
  "dev (snd (tag_check_ucast t d s)) = dev s" "dbdev (snd (tag_check_ucast t d s)) = dbdev s" "devs (snd (tag_check_ucast t d s)) = devs s"
  "dbdevs (snd (tag_check_ucast t d s)) = dbdevs s" "grp (snd (tag_check_ucast t d s)) = grp s" "tags (snd (tag_check_ucast t d s)) = tags s"
  by (simp_all add: tag_check_ucast_def steady_def)

text \<open>The tag subscribed to first.\<close>

definition client_type :: "int \<Rightarrow> bool" where
  "client_type ty \<longleftrightarrow> DEVTYPE_NONE < ty \<and> ty < DEVTYPE_OTHER"

definition needs_sub :: "device \<Rightarrow> db_device \<Rightarrow> bool" where
  "needs_sub D r \<longleftrightarrow> client_type (d_type D) \<and> dd_sub1 r = 0 \<and> dd_sub2 r = 0"

lemma request_subscribe_up:
  assumes up: "up s L X P M V" and d: "d \<in> set L" "d_tag (dev s d) \<noteq> None"
  shows "\<exists>s' M'. do { (t, s1) \<leftarrow> request_tag opt 1 tid s; dev_subscribe d t s1 } = Some s' \<and> up s' L X P M' V \<and> only d s s' \<and> devs s' = devs s
    \<and> dev s' = (dev s)(d := (dev s d)\<lparr>d_sub := Some (TAGUID 1 tid)\<rparr>)
    \<and> (d_sub (dev s d) \<noteq> Some (TAGUID 1 tid) \<longrightarrow> dd_sub1 (dbdev s' d) = tid) \<and> dd_discuss_open (dbdev s' d) = dd_discuss_open (dbdev s d)"
proof -
  obtain h T ts where r: "request_tag opt 1 tid s = Some (TAGUID 1 tid, s\<lparr>hp := h, tagm := T, tags := ts\<rparr>)"
    "up (s\<lparr>hp := h, tagm := T, tags := ts\<rparr>) L X P M V" "TAGUID 1 tid \<in> set ts" "t_id (T (TAGUID 1 tid)) = tid"
    using request_tag_up [OF up] by blast
  let ?s = "s\<lparr>hp := h, tagm := T, tags := ts\<rparr>"
  obtain s' M' where s': "dev_subscribe d (TAGUID 1 tid) ?s = Some s'" "up s' L X P M' V" "only d ?s s'" "devs s' = devs ?s"
    "dev s' = (dev ?s)(d := (dev ?s d)\<lparr>d_sub := Some (TAGUID 1 tid)\<rparr>)"
    "d_sub (dev ?s d) \<noteq> Some (TAGUID 1 tid) \<longrightarrow> dd_sub1 (dbdev s' d) = t_id (tagm ?s (TAGUID 1 tid))"
    "dd_discuss_open (dbdev s' d) = dd_discuss_open (dbdev ?s d)"
    using up_subscribe [OF r(2), of "TAGUID 1 tid" d] r(3) d by auto
  have "only d s s'" using s'(3) by (simp add: only_def)
  then show ?thesis using s' r(1,4) by (intro exI [of _ s'] exI [of _ M']) simp
qed

lemma first_subscription_up:
  assumes up: "up s L X P M V" and d: "d \<in> set L" "d_tag (dev s d) \<noteq> None" "d_sub (dev s d) = None"
  shows "\<exists>s' M'. first_subscription opt 1 d s = Some s' \<and> up s' L X P M' V \<and> only d s s' \<and> devs s' = devs s
    \<and> dev s' = (dev s)(d := (dev s d)\<lparr>d_sub := if needs_sub (dev s d) (dbdev s d) then Some (TAGUID 1 1) else None\<rparr>)
    \<and> dd_sub1 (dbdev s' d) = (if needs_sub (dev s d) (dbdev s d) then 1 else dd_sub1 (dbdev s d))
    \<and> dd_discuss_open (dbdev s' d) = dd_discuss_open (dbdev s d)"
proof (cases "needs_sub (dev s d) (dbdev s d)")
  case True
  then have "first_subscription opt 1 d s = do { (t, s1) \<leftarrow> request_tag opt 1 1 s; dev_subscribe d t s1 }"
    by (simp add: first_subscription_def needs_sub_def client_type_def)
  then show ?thesis using request_subscribe_up [OF up d(1,2), of opt 1] True d(3) by auto
next
  case False
  then have "first_subscription opt 1 d s = Some s" by (auto simp: first_subscription_def needs_sub_def client_type_def)
  moreover have "dev s = (dev s)(d := (dev s d)\<lparr>d_sub := None\<rparr>)" using d(3) by (intro fun_upd_idem [symmetric]) simp
  ultimately show ?thesis using up False by (intro exI [of _ s] exI [of _ M]) auto
qed

lemma join_stats_up:
  assumes up: "up s L X P M V" and ty: "0 \<le> d_type (dev s d)"
  shows "\<exists>s'. join_stats 1 d s = Some s' \<and> up s' L X P M V \<and> only d s s' \<and> devs s' = devs s \<and> dev s' = dev s \<and> dbdev s' = dbdev s"
proof -
  obtain ns where ns: "count_type (d_type (dev s d)) 1 (g_dev_count (grp s 1)) = Some ns"
    using ty by (cases "d_type (dev s d) < int (length (g_dev_count (grp s 1)))") (auto simp: count_type_def)
  define s1 where "s1 = append_dev_ents_cache 1 d (upd_grp 1 (\<lambda>G. G\<lparr>g_dev_count := ns\<rparr>) s)"
  define s' where "s' = (if d_type (dev s d) = DEVTYPE_CHAIR then manage_add_chair d s1 else s1)"
  have "join_stats 1 d s = Some s'" using ns by (simp add: join_stats_def s'_def s1_def Let_def)
  moreover have "steady s s'" "hp s' = hp s" "only d s s'" "devs s' = devs s" "dev s' = dev s" "dbdev s' = dbdev s"
    by (simp_all add: s'_def s1_def manage_add_chair_def append_dev_ents_cache_def steady_def only_def same_row_def)
  ultimately show ?thesis using up_steady [OF up] by blast
qed

lemma dev_register_up:
  assumes up: "up s L X P M V" and d: "d \<notin> set L" "d \<notin> set (devs s)" and ty: "0 \<le> d_type (dev s d)" and bc: "d_bcast (dev s d) = 0"
  shows "\<exists>s' M'. dev_register opt d s = Some (0, s') \<and> up s' (L @ [d]) X P M' V \<and> only d s s' \<and> devs s' = d # devs s
    \<and> view (dev s' d) = (Some 1, Some (TAGUID 1 (dd_tagid (dbdev s d))), d_type (dev s d), d_active (dev s d),
        if needs_sub (dev s d) (dbdev s d) then Some (TAGUID 1 1) else None)
    \<and> d_open (dev s' d) = 0 \<and> dd_sub1 (dbdev s' d) = (if needs_sub (dev s d) (dbdev s d) then 1 else dd_sub1 (dbdev s d))
    \<and> dd_discuss_open (dbdev s' d) = dd_discuss_open (dbdev s d)"
proof -
  let ?t = "TAGUID 1 (dd_tagid (dbdev s d))"
  have ub: "unborn (dev s d)" and g: "get_group s 1 = Some 1" using up d by (simp_all add: up_def)
  obtain h where h: "on_heap (list_add_tail (DGrp d) (GrpHead 1)) s = Some (s\<lparr>hp := h\<rparr>)" "up (s\<lparr>hp := h\<rparr>) (L @ [d]) X P M V"
    using up_group [OF up d(1)] by blast
  obtain h3 T ts where r: "request_tag opt 1 (dd_tagid (dbdev s d)) (s\<lparr>hp := h\<rparr>) = Some (?t, s\<lparr>hp := h3, tagm := T, tags := ts\<rparr>)"
    "up (s\<lparr>hp := h3, tagm := T, tags := ts\<rparr>) (L @ [d]) X P M V" "?t \<in> set ts"
    using request_tag_up [OF h(2), of opt "dd_tagid (dbdev s d)"] by auto
  let ?s3 = "s\<lparr>hp := h3, tagm := T, tags := ts\<rparr>"
  obtain h4 where j: "on_heap (list_add_tail (DTag d) (TagHead ?t)) ?s3 = Some (?s3\<lparr>hp := h4\<rparr>)"
    "up (upd_dev d (\<lambda>D. D\<lparr>d_group := Some 1, d_tag := Some ?t\<rparr>) (?s3\<lparr>hp := h4\<rparr>)) (L @ [d]) X P M V"
    using up_tag [OF r(2), of d ?t 1] ub r(3) by auto
  define s6 where "s6 = upd_dev d (\<lambda>D. D\<lparr>d_group := Some 1, d_tag := Some ?t\<rparr>) (?s3\<lparr>hp := h4\<rparr>)"
  define s7 where "s7 = snd (tag_check_ucast ?t d s6)"
  define s8 where "s8 = upd_dev d (\<lambda>D. D\<lparr>d_sub := None, d_fifo := cfifo_init (\<lambda>_. None) 5 2\<rparr>) (s7\<lparr>hp := init_list_head (DSub d) (hp s7)\<rparr>)"
  define s9 where "s9 = s8\<lparr>devs := d # devs s8\<rparr>"
  note uc = steady_ucast [where s = s6 and t = ?t and d = d, folded s7_def]
  have up6: "up s6 (L @ [d]) X P M V" using j(2) by (simp add: s6_def)
  have up7: "up s7 (L @ [d]) X P M V" by (rule up_steady [OF up6 uc(1,2)])
  have "d_sub (dev s7 d) = None" using ub uc by (simp add: s6_def unborn_def)
  then have "up s8 (L @ [d]) X P M V" unfolding s8_def by (intro up_dsub [OF up7]) simp_all
  then have up9: "up s9 (L @ [d]) X P M V" unfolding s9_def by (rule up_steady) (simp_all add: steady_def)
  have D9: "dev s9 d = (dev s d)\<lparr>d_group := Some 1, d_tag := Some ?t, d_sub := None, d_fifo := cfifo_init (\<lambda>_. None) 5 2\<rparr>"
    "dbdev s9 = dbdev s" "devs s9 = d # devs s" "only d s s9"
    using uc by (simp_all add: s9_def s8_def s6_def only_def same_row_def)
  have n9: "needs_sub (dev s9 d) (dbdev s9 d) = needs_sub (dev s d) (dbdev s d)" by (simp add: D9 needs_sub_def)
  obtain s10 M' where s10: "first_subscription opt 1 d s9 = Some s10" "up s10 (L @ [d]) X P M' V" "only d s9 s10" "devs s10 = devs s9"
    "dev s10 = (dev s9)(d := (dev s9 d)\<lparr>d_sub := if needs_sub (dev s d) (dbdev s d) then Some (TAGUID 1 1) else None\<rparr>)"
    "dd_sub1 (dbdev s10 d) = (if needs_sub (dev s d) (dbdev s d) then 1 else dd_sub1 (dbdev s9 d))"
    "dd_discuss_open (dbdev s10 d) = dd_discuss_open (dbdev s9 d)"
    using first_subscription_up [OF up9, of d opt] n9 D9(1) by auto
  have "0 \<le> d_type (dev s10 d)" using ty s10(5) D9(1) by simp
  from join_stats_up [OF s10(2) this] obtain s11 where s11: "join_stats 1 d s10 = Some s11" "up s11 (L @ [d]) X P M' V" "only d s10 s11"
    "devs s11 = devs s10" "dev s11 = dev s10" "dbdev s11 = dbdev s10" by blast
  have bc4: "d_bcast (dev (?s3\<lparr>hp := h4\<rparr>) d) = 0" using bc by simp
  have "dev_register opt d s = Some (0, s11)"
    using d(2) g h(1) r(1) j(1) bc4 s10(1) [unfolded s9_def s8_def s7_def s6_def] s11(1)
    by (simp add: dev_register_def Let_def del: get_group_iff)
  moreover have "only d s s11" using D9(4) s10(3) s11(3) only_trans by blast
  ultimately show ?thesis
    using s11 s10 D9 ub by (intro exI [of _ s11] exI [of _ M']) (simp add: view_def unborn_def)
qed

end
