(* ===== verification/Startup_Props.thy ===== *)
theory Startup_Props
  imports Startup_Steps Sending_Props
begin

text \<open>
  The server comes up as the database says: recovery of one device, of all of them, the group with its
  discussion and vote, and the property of server_start.
\<close>

subsection \<open>Recovering a device\<close>

lemma sub_step_up:
  assumes up: "up s L X P M V" and d: "d \<in> set L" "d_tag (dev s d) \<noteq> None"
  shows "\<exists>s' M'. (if tid \<noteq> 0 then do { (t, s1) \<leftarrow> request_tag opt 1 tid s; dev_subscribe d t s1 } else Some s) = Some s'
    \<and> up s' L X P M' V \<and> only d s s' \<and> devs s' = devs s
    \<and> dev s' = (dev s)(d := (dev s d)\<lparr>d_sub := if tid \<noteq> 0 then Some (TAGUID 1 tid) else d_sub (dev s d)\<rparr>)
    \<and> dd_discuss_open (dbdev s' d) = dd_discuss_open (dbdev s d)"
proof (cases "tid = 0")
  case True
  have "dev s = (dev s)(d := (dev s d)\<lparr>d_sub := d_sub (dev s d)\<rparr>)" by (intro fun_upd_idem [symmetric]) simp
  then show ?thesis using up True by auto
next
  case False
  then show ?thesis using request_subscribe_up [OF up d, of opt tid] by auto
qed

lemma restore_sub_up:
  assumes up: "up s L X P M V" and d: "d \<in> set L" "d_tag (dev s d) \<noteq> None" "d_group (dev s d) = Some 1"
  shows "\<exists>s' M'. restore_sub opt d s = Some s' \<and> up s' L X P M' V \<and> only d s s' \<and> devs s' = devs s
    \<and> dev s' = (dev s)(d := (dev s d)\<lparr>d_sub := if dd_sub2 (dbdev s d) \<noteq> 0 then Some (TAGUID 1 (dd_sub2 (dbdev s d)))
        else if dd_sub1 (dbdev s d) \<noteq> 0 then Some (TAGUID 1 (dd_sub1 (dbdev s d))) else d_sub (dev s d)\<rparr>)
    \<and> dd_discuss_open (dbdev s' d) = dd_discuss_open (dbdev s d)"
proof -
  let ?i = "dd_sub1 (dbdev s d)" and ?j = "dd_sub2 (dbdev s d)"
  obtain s1 M1 where s1: "(if ?i \<noteq> 0 then do { (t, s1) \<leftarrow> request_tag opt 1 ?i s; dev_subscribe d t s1 } else Some s) = Some s1"
    "up s1 L X P M1 V" "only d s s1" "devs s1 = devs s"
    "dev s1 = (dev s)(d := (dev s d)\<lparr>d_sub := if ?i \<noteq> 0 then Some (TAGUID 1 ?i) else d_sub (dev s d)\<rparr>)"
    "dd_discuss_open (dbdev s1 d) = dd_discuss_open (dbdev s d)"
    using sub_step_up [OF up d(1,2), of ?i opt] by blast
  have "d_tag (dev s1 d) \<noteq> None" using s1(5) d(2) by simp
  from sub_step_up [OF s1(2) d(1) this, of ?j opt] obtain s2 M2 where
    s2: "(if ?j \<noteq> 0 then do { (t, s1) \<leftarrow> request_tag opt 1 ?j s1; dev_subscribe d t s1 } else Some s1) = Some s2"
    "up s2 L X P M2 V" "only d s1 s2" "devs s2 = devs s1"
    "dev s2 = (dev s1)(d := (dev s1 d)\<lparr>d_sub := if ?j \<noteq> 0 then Some (TAGUID 1 ?j) else d_sub (dev s1 d)\<rparr>)"
    "dd_discuss_open (dbdev s2 d) = dd_discuss_open (dbdev s1 d)" by blast
  have "restore_sub opt d s = Some s2" using s1(1) s2(1) d(3) by (simp add: restore_sub_def)
  moreover have "only d s s2" using s1(3) s2(3) only_trans by blast
  ultimately show ?thesis using s2 s1(4-6) by (intro exI [of _ s2] exI [of _ M2]) simp
qed

lemma restore_regist_up:
  assumes "up s L X P M V"
  shows "up (restore_regist d s) L X P M V" "only d s (restore_regist d s)" "devs (restore_regist d s) = devs s"
    "dev (restore_regist d s) d = (dev s d)\<lparr>d_reg := dd_regist_reg (dbdev s d)\<rparr>"
proof -
  show "up (restore_regist d s) L X P M V" by (rule up_steady [OF assms]) (simp_all add: restore_regist_def steady_def)
qed (simp_all add: restore_regist_def only_def same_row_def)

lemma recover_dev_up:
  assumes up: "up s L X P M V" and d: "d \<notin> set L" "d \<notin> set (devs s)" and r: "dbdev s d = r" "dd_enabled r \<noteq> 0" "0 \<le> dd_type r"
  shows "\<exists>s' M' W. recover_dev opt d s = Some s' \<and> only d s s' \<and> devs s' = d # devs s \<and> as_row r (dev s' d)
    \<and> up s' (L @ [d]) (if dd_discuss_open r \<noteq> 0 then X(TAGUID 1 (dd_tagid r) := X (TAGUID 1 (dd_tagid r)) @ [d]) else X)
         (if dd_discuss_open r \<noteq> 0 then d # P else P) M' W"
proof -
  define s2 where "s2 = upd_dbdev d (\<lambda>D. D\<lparr>dd_online := 0\<rparr>) (set_dev_from_data d r (dev_create d s))"
  let ?X = "if dd_discuss_open r \<noteq> 0 then X(TAGUID 1 (dd_tagid r) := X (TAGUID 1 (dd_tagid r)) @ [d]) else X"
  let ?P = "if dd_discuss_open r \<noteq> 0 then d # P else P"
  have up2: "up s2 L X P M V"
    unfolding s2_def by (rule up_steady [OF up_create [OF up d(1)]]) (simp_all add: steady_def set_dev_from_data_def)
  have D2: "d_type (dev s2 d) = dd_type r" "d_bcast (dev s2 d) = 0" "d_active (dev s2 d) = 0" "devs s2 = devs s" "only d s s2"
    "dbdev s2 d = r\<lparr>dd_online := 0\<rparr>"
    using r(1) by (simp_all add: s2_def set_dev_from_data_def dev_create_def new_dev_def only_def same_row_def)
  have n2: "needs_sub (dev s2 d) (dbdev s2 d) \<longleftrightarrow> client_type (dd_type r) \<and> dd_sub1 r = 0 \<and> dd_sub2 r = 0"
    by (simp add: needs_sub_def D2)
  obtain s3 M3 where s3: "dev_register opt d s2 = Some (0, s3)" "up s3 (L @ [d]) X P M3 V" "only d s2 s3" "devs s3 = d # devs s"
    "view (dev s3 d) = (Some 1, Some (TAGUID 1 (dd_tagid r)), dd_type r, 0, if needs_sub (dev s2 d) (dbdev s2 d) then Some (TAGUID 1 1) else None)"
    "d_open (dev s3 d) = 0" "dd_sub1 (dbdev s3 d) = (if needs_sub (dev s2 d) (dbdev s2 d) then 1 else dd_sub1 r)"
    "dd_discuss_open (dbdev s3 d) = dd_discuss_open r"
    using dev_register_up [OF up2 d(1), of opt] d(2) r(3) D2 by auto
  have row3: "dd_sub2 (dbdev s3 d) = dd_sub2 r" using s3(3) D2(6) same_row_sel(3) by (fastforce simp: only_def)
  have d3: "d \<in> set (L @ [d])" "d_tag (dev s3 d) \<noteq> None" "d_group (dev s3 d) = Some 1" using s3(5) by (simp_all add: view_def)
  obtain s4 M4 where s4: "restore_sub opt d s3 = Some s4" "up s4 (L @ [d]) X P M4 V" "only d s3 s4" "devs s4 = devs s3"
    "dev s4 = (dev s3)(d := (dev s3 d)\<lparr>d_sub := if dd_sub2 (dbdev s3 d) \<noteq> 0 then Some (TAGUID 1 (dd_sub2 (dbdev s3 d)))
        else if dd_sub1 (dbdev s3 d) \<noteq> 0 then Some (TAGUID 1 (dd_sub1 (dbdev s3 d))) else d_sub (dev s3 d)\<rparr>)"
    "dd_discuss_open (dbdev s4 d) = dd_discuss_open (dbdev s3 d)"
    using restore_sub_up [OF s3(2) d3, of opt] by blast
  have v4: "view (dev s4 d) = (Some 1, Some (TAGUID 1 (dd_tagid r)), dd_type r, 0, row_sub r)" "d_open (dev s4 d) = 0"
    using s3(5-7) s4(5) row3 n2 by (auto simp: view_def row_sub_def client_type_def)
  have "d \<notin> set P" "d \<notin> set V" using up d(1) by (auto simp: up_def)
  moreover have "d_tag (dev s4 d) = Some (TAGUID 1 (dd_tagid r))" using v4(1) by (simp add: view_def)
  ultimately obtain s5 where s5: "restore_discuss d s4 = Some s5" "only d s4 s5" "devs s5 = devs s4" "view (dev s5 d) = view (dev s4 d)"
    "up s5 (L @ [d]) ?X ?P M4 V" "d_open (dev s5 d) = (if dd_discuss_open r \<noteq> 0 then 1 else 0)"
    using restore_discuss_up [OF s4(2) d3(1) _ _ v4(2)] s4(6) s3(8) by (cases "dd_discuss_open r = 0") auto
  define s6 where "s6 = restore_regist d s5"
  note reg = restore_regist_up [OF s5(5), of d, folded s6_def]
  have v6: "view (dev s6 d) = view (dev s5 d)" "d_open (dev s6 d) = d_open (dev s5 d)" by (simp_all add: reg(4) view_def)
  have "d_group (dev s6 d) = Some 1" using v6 s5(4) v4(1) by (simp add: view_def)
  then obtain s7 W where s7: "restore_vote d s6 = Some s7" "up s7 (L @ [d]) ?X ?P M4 W" "only d s6 s7" "devs s7 = devs s6"
    "view (dev s7 d) = view (dev s6 d)" "d_open (dev s7 d) = d_open (dev s6 d)" "d_reg (dev s7 d) = d_reg (dev s6 d)"
    using restore_vote_up [OF reg(1) d3(1) \<open>d \<notin> set V\<close>] by blast
  have "recover_dev opt d s = Some s7"
    using r(1,2) s3(1) [unfolded s2_def] s4(1) s5(1) s7(1) [unfolded s6_def] by (simp add: recover_dev_def dev_create_def Let_def)
  moreover have o5: "only d s s5" using D2(5) s3(3) s4(3) s5(2) only_trans by blast
  then have "only d s s7" using reg(2) s7(3) only_trans by blast
  moreover have "dd_regist_reg (dbdev s5 d) = dd_regist_reg r" using o5 r(1) same_row_sel(6) by (fastforce simp: only_def)
  then have "as_row r (dev s7 d)" using s7(5-7) v6 s5(4,6) v4(1) reg(4) by (simp add: as_row_def view_def)
  ultimately show ?thesis
    using s7(2,4) reg(3) s5(3) s4(4) s3(4) by (intro exI [of _ s7] exI [of _ M4] exI [of _ W]) simp
qed

subsection \<open>All devices\<close>

definition enabled_of :: "srv \<Rightarrow> int list \<Rightarrow> int list" where
  "enabled_of db ds = filter (\<lambda>d. dd_enabled (dbdev db d) \<noteq> 0) ds"

definition open_of :: "srv \<Rightarrow> int list \<Rightarrow> int list" where
  "open_of db ds = filter (\<lambda>d. dd_discuss_open (dbdev db d) \<noteq> 0) (enabled_of db ds)"

definition ptc_rows :: "srv \<Rightarrow> srv \<Rightarrow> bool" where
  "ptc_rows s s' \<longleftrightarrow> (\<forall>e. dd_ptc_cmd (dbdev s' e) = dd_ptc_cmd (dbdev s e) \<and> dd_ptc_id (dbdev s' e) = dd_ptc_id (dbdev s e))"

lemma only_ptc_rows: "only d s s' \<Longrightarrow> ptc_rows s s'"
  using same_row_sel(4,5) unfolding only_def ptc_rows_def by metis

lemma recover_all:
  assumes "up s L X P M V" and "set (devs s) = set L" and "distinct ds" and "set ds \<inter> set L = {}"
    and "\<forall>d \<in> set ds. dbdev s d = dbdev db d \<and> 0 \<le> dd_type (dbdev db d)"
  shows "\<exists>s' M' W. foldM (recover_dev opt) ds s = Some s'
    \<and> up s' (L @ enabled_of db ds) (\<lambda>t. X t @ filter (\<lambda>d. row_tag db d = t) (open_of db ds)) (rev (open_of db ds) @ P) M' W
    \<and> devs s' = rev (enabled_of db ds) @ devs s \<and> (\<forall>d \<in> set (enabled_of db ds). as_row (dbdev db d) (dev s' d))
    \<and> (\<forall>e. e \<notin> set ds \<longrightarrow> dev s' e = dev s e) \<and> g_active_count (grp s' 1) = g_active_count (grp s 1) \<and> ptc_rows s s'"
  using assms
proof (induction ds arbitrary: s L X P M V)
  case Nil
  then show ?case by (auto simp: enabled_of_def open_of_def ptc_rows_def)
next
  case (Cons d ds)
  let ?r = "dbdev db d"
  show ?case
  proof (cases "dd_enabled ?r = 0")
    case True
    have step: "recover_dev opt d s = Some s" using Cons.prems(5) True by (simp add: recover_dev_def)
    have e: "enabled_of db (d # ds) = enabled_of db ds" "open_of db (d # ds) = open_of db ds"
      using True by (simp_all add: enabled_of_def open_of_def)
    have "distinct ds" "set ds \<inter> set L = {}" "\<forall>d \<in> set ds. dbdev s d = dbdev db d \<and> 0 \<le> dd_type (dbdev db d)"
      using Cons.prems(3-5) by auto
    from Cons.IH [OF Cons.prems(1,2) this] show ?thesis unfolding e by (simp add: step) blast
  next
    case False
    have d: "d \<notin> set L" "d \<notin> set (devs s)" "dbdev s d = ?r" "0 \<le> dd_type ?r" using Cons.prems by auto
    obtain s1 M1 W where s1: "recover_dev opt d s = Some s1" "only d s s1" "devs s1 = d # devs s" "as_row ?r (dev s1 d)"
      "up s1 (L @ [d]) (if dd_discuss_open ?r \<noteq> 0 then X(TAGUID 1 (dd_tagid ?r) := X (TAGUID 1 (dd_tagid ?r)) @ [d]) else X)
         (if dd_discuss_open ?r \<noteq> 0 then d # P else P) M1 W"
      using recover_dev_up [OF Cons.prems(1) d(1,2,3) False d(4), of opt] by blast
    have "distinct ds" "set (devs s1) = set (L @ [d])" "set ds \<inter> set (L @ [d]) = {}"
      "\<forall>e \<in> set ds. dbdev s1 e = dbdev db e \<and> 0 \<le> dd_type (dbdev db e)"
      using Cons.prems(2-5) s1(2,3) by (auto simp: only_def)
    from Cons.IH [OF s1(5) this(2,1,3,4)] obtain s2 M2 W2 where
      s2: "foldM (recover_dev opt) ds s1 = Some s2"
      "up s2 ((L @ [d]) @ enabled_of db ds)
        (\<lambda>t. (if dd_discuss_open ?r \<noteq> 0 then X(TAGUID 1 (dd_tagid ?r) := X (TAGUID 1 (dd_tagid ?r)) @ [d]) else X) t
          @ filter (\<lambda>d. row_tag db d = t) (open_of db ds))
        (rev (open_of db ds) @ (if dd_discuss_open ?r \<noteq> 0 then d # P else P)) M2 W2"
      "devs s2 = rev (enabled_of db ds) @ devs s1" "\<forall>d \<in> set (enabled_of db ds). as_row (dbdev db d) (dev s2 d)"
      "\<forall>e. e \<notin> set ds \<longrightarrow> dev s2 e = dev s1 e" "g_active_count (grp s2 1) = g_active_count (grp s1 1)" "ptc_rows s1 s2"
      by blast
    have e: "enabled_of db (d # ds) = d # enabled_of db ds"
      "open_of db (d # ds) = (if dd_discuss_open ?r \<noteq> 0 then d # open_of db ds else open_of db ds)"
      using False by (simp_all add: enabled_of_def open_of_def)
    have X: "(\<lambda>t. (if dd_discuss_open ?r \<noteq> 0 then X(TAGUID 1 (dd_tagid ?r) := X (TAGUID 1 (dd_tagid ?r)) @ [d]) else X) t
          @ filter (\<lambda>d. row_tag db d = t) (open_of db ds)) = (\<lambda>t. X t @ filter (\<lambda>d. row_tag db d = t) (open_of db (d # ds)))"
      by (rule ext) (simp add: e(2) row_tag_def)
    have P: "rev (open_of db ds) @ (if dd_discuss_open ?r \<noteq> 0 then d # P else P) = rev (open_of db (d # ds)) @ P" by (simp add: e(2))
    have up2: "up s2 (L @ enabled_of db (d # ds)) (\<lambda>t. X t @ filter (\<lambda>d. row_tag db d = t) (open_of db (d # ds)))
        (rev (open_of db (d # ds)) @ P) M2 W2" using s2(2) unfolding X P by (simp add: e(1))
    have "d \<notin> set ds" using Cons.prems(3) by simp
    then have "as_row ?r (dev s2 d)" using s2(5) s1(4) by simp
    then have rows: "\<forall>e \<in> set (enabled_of db (d # ds)). as_row (dbdev db e) (dev s2 e)" using s2(4) by (simp add: e(1))
    have others: "\<forall>e. e \<notin> set (d # ds) \<longrightarrow> dev s2 e = dev s e" using s2(5) s1(2) by (simp add: only_def)
    have "ptc_rows s s2" using only_ptc_rows [OF s1(2)] s2(7) by (simp add: ptc_rows_def)
    moreover have "g_active_count (grp s2 1) = g_active_count (grp s 1)" using s2(6) s1(2) by (simp add: only_def)
    moreover have "devs s2 = rev (enabled_of db (d # ds)) @ devs s" using s2(3) s1(3) by (simp add: e(1))
    moreover have "foldM (recover_dev opt) (d # ds) s = Some s2" using s1(1) s2(1) by simp
    ultimately show ?thesis using up2 rows others by blast
  qed
qed

subsection \<open>The group\<close>

text \<open>Before there is a group: nothing is linked.\<close>

definition blank :: "srv \<Rightarrow> bool" where
  "blank s \<longleftrightarrow> closed (hp s) \<and> tags s = [] \<and> grps s = [] \<and> ptc_curr s = None \<and> dlist (hp s) PtcHead []
     \<and> (\<forall>d. lh_next (hp s (DPtc d)) = None) \<and> (\<forall>d. unborn (dev s d))"

lemma up_new_group:
  assumes b: "blank s"
  shows "up (upd_grp 1 (\<lambda>_. new_group) (s\<lparr>hp := init_list_head (GrpHead 1) (hp s), grps := 1 # grps s\<rparr>))
    [] (\<lambda>_. []) [] (\<lambda>_. []) []"
proof -
  let ?h = "init_list_head (GrpHead 1) (hp s)"
  let ?s = "upd_grp 1 (\<lambda>_. new_group) (s\<lparr>hp := ?h, grps := 1 # grps s\<rparr>)"
  have off: "off_fam 0 (hp s) ?h" using off_fam_init [of "hp s" "GrpHead 1"] b by (simp add: blank_def)
  have "dlist ?h PtcHead []" by (rule off_fam_dlist [OF _ off]) (use b in \<open>simp_all add: blank_def\<close>)
  then have "ptc_inv ?s []" using b by (simp add: ptc_inv_def blank_def init_list_head_frame)
  moreover have "disc_inv ?s (\<lambda>_. [])" using b by (simp add: disc_inv_def blank_def unborn_def)
  ultimately have "room_inv ?s (\<lambda>_. []) []" using b by (simp add: room_inv_def blank_def)
  moreover have "sub_inv ?s (\<lambda>_. [])" using b by (simp add: sub_inv_def blank_def unborn_def)
  moreover have "vote_up ?s []" by (simp add: vote_up_def new_group_def)
  moreover have "placed ?s (\<lambda>_. [])" using b by (simp add: placed_def blank_def unborn_def)
  ultimately show ?thesis
    using b off init_list_head_dlist [of "GrpHead 1" "hp s"] by (simp add: up_def blank_def tag_ids_def off_fam_def)
qed

text \<open>The current vote gets a new object.\<close>

lemma restore_group_vote_up:
  assumes up: "up s [] X P M []" and r: "md_find_vote s i = Some r" and fit: "dv_members r = ''all'' \<or> length (id_list (dv_members r)) \<le> 1024"
  shows "\<exists>s'. restore_group_vote 1 r s = Some s' \<and> up s' [] X P M [] \<and> dev s' = dev s \<and> dbdev s' = dbdev s \<and> devs s' = devs s
    \<and> dbdevs s' = dbdevs s \<and> grps s' = grps s \<and> g_active_count (grp s' 1) = g_active_count (grp s 1)"
proof -
  have l: "dlist (hp s) (GrpHead 1) []" and c: "closed (hp s)" using up by (simp_all add: up_def)
  have "list_devs (GrpHead 1) s = Some []" using list_for_each_dlist [OF l] by (simp add: list_devs_def)
  then obtain ids where ids: "(if dv_members r = ''all'' then list_devs (GrpHead 1) s else Some (id_list (dv_members r))) = Some ids"
    "length ids \<le> 1024" using fit by (cases "dv_members r = ''all''") auto
  define s1 where "s1 = upd_grp 1 (\<lambda>G. G\<lparr>g_vote_current := Some (dv_id r)\<rparr>)
    (upd_grp 1 (\<lambda>G. G\<lparr>g_vote_members := ids, g_vote_nvoted := 0,
       g_vote_names := (if ids = [] then g_vote_names G else make_strlist (map (user_name_of s) ids))\<rparr>) s)"
  define v where "v = vote_next s1"
  define s2 where "s2 = snd (vote_new s1)"
  define s3 where "s3 = upd_grp 1 (\<lambda>G. G\<lparr>g_vote_v := Some v\<rparr>) s2"
  have "group_setup_vote 1 r s = Some s1" using ids by (simp add: group_setup_vote_def prepare_vote_def s1_def)
  moreover have "vote_new s1 = (v, s2)" by (simp add: s2_def v_def vote_new_def Let_def)
  moreover obtain w where w: "votem s3 v = Some w" by (simp add: s3_def s2_def v_def vote_new_def Let_def)
  ultimately have run: "restore_group_vote 1 r s = Some (s3\<lparr>votem := (votem s3)(v := Some (w\<lparr>v_type := dv_type r, v_cn_options := dv_options_count r\<rparr>))\<rparr>)"
    by (simp add: restore_group_vote_def s3_def upd_vote_def)
  let ?s = "s3\<lparr>votem := (votem s3)(v := Some (w\<lparr>v_type := dv_type r, v_cn_options := dv_options_count r\<rparr>))\<rparr>"
  let ?h = "init_list_head (VoteHead v) (hp s)"
  let ?r = "s\<lparr>hp := ?h\<rparr>"
  have off: "off_fam 4 (hp s) ?h" using off_fam_init [OF c, of "VoteHead v"] by simp
  have st: "steady s ?r" by (simp add: steady_def)
  have offr: "off_fam 4 (hp s) (hp ?r)" using off by simp
  have p: "room_inv ?r X P" "sub_inv ?r M" "dlist ?h (GrpHead 1) []" "closed ?h"
    using up_parts(1,2,4) [OF up st offr] off by (simp_all add: off_fam_def)
  have sel: "hp ?s = ?h" "tags ?s = tags s" "grps ?s = grps s" "dev ?s = dev s" "tagm ?s = tagm s" "ptc_curr ?s = ptc_curr s" "dbvote ?s = dbvote s"
    "dbdev ?s = dbdev s" "devs ?s = devs s" "dbdevs ?s = dbdevs s" "g_vote_current (grp ?s 1) = Some (dv_id r)" "g_vote_v (grp ?s 1) = Some v"
    "votem ?s v \<noteq> None" "g_active_count (grp ?s 1) = g_active_count (grp s 1)"
    by (simp_all add: s3_def s2_def vote_new_def Let_def s1_def v_def)
  have "dv_id r = i" using r by (auto simp: md_find_vote_def find_Some_iff)
  then have "md_find_vote ?s (dv_id r) \<noteq> None" using r sel(7) by (simp add: md_find_vote_def)
  then have "vote_up ?s []" using sel init_list_head_dlist [of "VoteHead v" "hp s"] by (simp add: vote_up_def)
  moreover have "room_inv ?s X P" using p(1) by (simp add: room_inv_def disc_inv_def ptc_inv_def mix_ok_def Let_def sel)
  moreover have "sub_inv ?s M" using p(2) by (simp add: sub_inv_def sel)
  moreover have "dlist ?h (TagHead t) (map DTag (in_tag s [] t))" if "t \<in> set (tags s)" for t
    using up_parts(5) [OF up st offr _ that] by simp
  moreover have "placed ?s X" by (rule placed_cong [of s]) (use up in \<open>simp_all add: up_def sel\<close>)
  ultimately have "up ?s [] X P M []" using up p(3,4) by (simp add: up_def sel tag_ids_def in_tag_def)
  then show ?thesis using run sel by blast
qed

lemma group_create_up:
  assumes b: "blank s" and g: "1 \<in> set (dbgrps s)"
    and disc: "\<And>r. md_find_discuss s (dg_discuss_id (dbgrp s 1)) = Some r \<Longrightarrow> length (id_list (ds_members r)) \<le> 1024"
    and vote: "\<And>r. md_find_vote s (dg_vote_id (dbgrp s 1)) = Some r \<Longrightarrow> dv_members r = ''all'' \<or> length (id_list (dv_members r)) \<le> 1024"
  shows "\<exists>s'. group_create 1 s = Some (Some 1, s') \<and> up s' [] (\<lambda>_. []) [] (\<lambda>_. []) [] \<and> dev s' = dev s \<and> dbdev s' = dbdev s
    \<and> devs s' = devs s \<and> dbdevs s' = dbdevs s \<and> g_active_count (grp s' 1) = replicate 8 0"
proof -
  define s1 where "s1 = upd_grp 1 (\<lambda>_. new_group) (s\<lparr>hp := init_list_head (GrpHead 1) (hp s), grps := 1 # grps s\<rparr>)"
  have up1: "up s1 [] (\<lambda>_. []) [] (\<lambda>_. []) []" unfolding s1_def by (rule up_new_group [OF b])
  have sel1: "dbgrp s1 = dbgrp s" "dbdisc s1 = dbdisc s" "dbvote s1 = dbvote s" "dev s1 = dev s" "dbdev s1 = dbdev s" "devs s1 = devs s"
    "dbdevs s1 = dbdevs s" "g_active_count (grp s1 1) = replicate 8 0" by (simp_all add: s1_def new_group_def)
  let ?dg = "dbgrp s 1"
  have same: "steady s1 (upd_grp 1 f s1)" if "\<And>G. g_vote_current (f G) = g_vote_current G \<and> g_vote_v (f G) = g_vote_v G" for f
    using that by (simp add: steady_def)
  obtain f2 where f2: "(if dg_discuss_id ?dg \<noteq> 0 then (case md_find_discuss s1 (dg_discuss_id ?dg) of None \<Rightarrow> Some s1
        | Some r \<Rightarrow> group_setup_discuss 1 r s1) else Some s1) = Some (upd_grp 1 f2 s1)"
    "\<And>G. g_vote_current (f2 G) = g_vote_current G \<and> g_vote_v (f2 G) = g_vote_v G \<and> g_active_count (f2 G) = g_active_count G"
  proof (cases "dg_discuss_id ?dg \<noteq> 0 \<and> md_find_discuss s1 (dg_discuss_id ?dg) \<noteq> None")
    case True
    then obtain r where r: "md_find_discuss s1 (dg_discuss_id ?dg) = Some r" by auto
    then have "length (id_list (ds_members r)) \<le> 1024" using disc sel1(2) by (simp add: md_find_discuss_def)
    then show ?thesis
      using r True that [of "\<lambda>G. G\<lparr>g_disc_members := id_list (ds_members r),
          g_disc_names := make_strlist (map (user_name_of s1) (id_list (ds_members r))), g_disc_current := Some (ds_id r)\<rparr>"]
      by (simp add: group_setup_discuss_def Let_def)
  next
    case False
    have "s1 = upd_grp 1 id s1" by (simp add: upd_grp_def)
    then show ?thesis using that [of id] False by (auto split: option.splits)
  qed
  define s2 where "s2 = upd_grp 1 f2 s1"
  define s3 where "s3 = (if dg_regist_start ?dg \<noteq> 0
    then upd_grp 1 (\<lambda>G. G\<lparr>g_reg_expect := dg_regist_expect ?dg, g_reg_arrive := dg_regist_arrive ?dg\<rparr>) s2 else s2)"
  have st3: "steady s1 s3" "hp s3 = hp s1" using f2(2) by (simp_all add: s3_def s2_def steady_def)
  have up3: "up s3 [] (\<lambda>_. []) [] (\<lambda>_. []) []" by (rule up_steady [OF up1 st3])
  have sel3: "dev s3 = dev s" "dbdev s3 = dbdev s" "devs s3 = devs s" "dbdevs s3 = dbdevs s" "g_active_count (grp s3 1) = replicate 8 0" "dbvote s3 = dbvote s"
    using sel1 f2(2) by (simp_all add: s3_def s2_def)
  obtain s4 where s4: "(if dg_vote_id ?dg \<noteq> 0 then (case md_find_vote s3 (dg_vote_id ?dg) of None \<Rightarrow> Some s3
        | Some r \<Rightarrow> restore_group_vote 1 r s3) else Some s3) = Some s4" "up s4 [] (\<lambda>_. []) [] (\<lambda>_. []) []" "dev s4 = dev s3" "dbdev s4 = dbdev s3"
    "devs s4 = devs s3" "dbdevs s4 = dbdevs s3" "g_active_count (grp s4 1) = g_active_count (grp s3 1)"
  proof (cases "dg_vote_id ?dg \<noteq> 0 \<and> md_find_vote s3 (dg_vote_id ?dg) \<noteq> None")
    case True
    then obtain r where r: "md_find_vote s3 (dg_vote_id ?dg) = Some r" by auto
    then have "dv_members r = ''all'' \<or> length (id_list (dv_members r)) \<le> 1024" using vote sel3(6) by (simp add: md_find_vote_def)
    from restore_group_vote_up [OF up3 r this] show ?thesis using that r True by auto
  next
    case False
    then show ?thesis using that [of s3] up3 by (auto split: option.splits)
  qed
  have mf: "md_find_group s 1 = Some 1" using g by (simp add: md_find_group_def find_eq)
  have e3: "(if dg_regist_start ?dg \<noteq> 0
    then upd_grp 1 (\<lambda>G. G\<lparr>g_reg_expect := dg_regist_expect ?dg, g_reg_arrive := dg_regist_arrive ?dg\<rparr>) (upd_grp 1 f2 s1) else upd_grp 1 f2 s1) = s3"
    by (simp add: s3_def s2_def)
  have "group_create 1 s = Some (Some 1, s4)"
    unfolding group_create_def
    by (simp only: mf option.case Let_def s1_def [symmetric] sel1(1) f2(1) bind.bind_lunit e3 s4(1))
  then show ?thesis using s4 sel3 by auto
qed

subsection \<open>The whole server\<close>

lemma blank_static: "blank (init_groups (static_srv db))"
proof -
  have "closed (\<lambda>_. \<lparr>lh_next = None, lh_prev = None\<rparr>)" by (simp add: closed_def)
  then have "closed static_heap" unfolding static_heap_def using off_fam_init by (metis off_fam_def)
  moreover have "dlist static_heap PtcHead []" "lh_next (static_heap (DPtc d)) = None" for d
    by (simp_all add: static_heap_def init_list_head_dlist init_list_head_frame)
  ultimately show ?thesis by (simp add: blank_def init_groups_def static_srv_def unborn_def new_dev_def)
qed

lemma blank_steady: "blank s \<Longrightarrow> (\<And>e. unborn (dev s' e)) \<Longrightarrow> hp s' = null_links ns (hp s) \<Longrightarrow> PtcHead \<notin> set ns \<Longrightarrow>
    tags s' = tags s \<Longrightarrow> grps s' = grps s \<Longrightarrow> ptc_curr s' = ptc_curr s \<Longrightarrow> blank s'"
  by (auto simp: blank_def closed_null_links null_links_sel intro!: dlist_null_links)

lemma dev_register_group:
  assumes "group_create 1 s = Some (Some 1, s1)" and "get_group s 1 = None" "get_group s1 1 = Some 1"
    and "get_device s d = None" "get_device s1 d = None" and "dbdev s1 = dbdev s"
  shows "dev_register opt d s = dev_register opt d s1"
  using assms by (simp add: dev_register_def Let_def del: get_group_iff get_device_iff)

definition manager_row :: db_device where
  "manager_row = \<lparr>dd_type = 0, dd_ip = [], dd_port = 0, dd_tagid = 1, dd_user_id = [], dd_user_card = 0,
     dd_user_name = [], dd_user_gender = 0, dd_enabled = 0, dd_online = 0, dd_sub1 = 0, dd_sub2 = 0,
     dd_discuss_chair = 0, dd_discuss_open = 0, dd_regist_master = 0, dd_regist_reg = 0,
     dd_vote_master = 0, dd_vote_choice = 0, dd_ptc_id = 0, dd_ptc_cmd = []\<rparr>"

text \<open>The manager's device is the first one.\<close>

lemma add_manager_up:
  assumes ok: "db_ok db"
  shows "\<exists>s M. add_manager_dev opt (init_groups (static_srv db)) = Some s \<and> up s [0] (\<lambda>_. []) [] M [] \<and> devs s = [0]
    \<and> dbdevs s = dbdevs db \<and> (\<forall>e. e \<noteq> 0 \<longrightarrow> dbdev s e = dbdev db e) \<and> dd_ptc_cmd (dbdev s 0) = []
    \<and> view (dev s 0) = (Some 1, Some (TAGUID 1 1), 0, 0, None) \<and> g_active_count (grp s 1) = replicate 8 0"
proof -
  let ?s0 = "init_groups (static_srv db)"
  define s2 where "s2 = upd_dev 0 (\<lambda>_. new_dev\<lparr>d_ops := False, d_type := DEVTYPE_NONE\<rparr>)
    ((upd_dbdev 0 (\<lambda>_. manager_row) ?s0)\<lparr>hp := null_links (dev_nodes 0) (hp ?s0)\<rparr>)"
  have sel2: "dbgrps s2 = dbgrps db" "dbgrp s2 = dbgrp db" "dbdisc s2 = dbdisc db" "dbvote s2 = dbvote db" "dbdevs s2 = dbdevs db"
    "devs s2 = []" "grps s2 = []" "dbdev s2 = (dbdev db)(0 := manager_row)" "dev s2 0 = new_dev\<lparr>d_ops := False, d_type := DEVTYPE_NONE\<rparr>"
    by (simp_all add: s2_def init_groups_def static_srv_def)
  have "unborn (dev s2 e)" for e by (simp add: s2_def init_groups_def static_srv_def unborn_def new_dev_def)
  then have b: "blank s2"
    by (rule blank_steady [OF blank_static [of db], where ns = "dev_nodes 0"]) (simp_all add: s2_def init_groups_def static_srv_def dev_nodes_def)
  obtain s3 where s3: "group_create 1 s2 = Some (Some 1, s3)" "up s3 [] (\<lambda>_. []) [] (\<lambda>_. []) []" "dev s3 = dev s2" "dbdev s3 = dbdev s2"
    "devs s3 = devs s2" "dbdevs s3 = dbdevs s2" "g_active_count (grp s3 1) = replicate 8 0"
    using group_create_up [OF b] ok sel2(1-4) by (auto simp: db_ok_def md_find_discuss_def md_find_vote_def split: option.splits)
  have g3: "get_group s3 1 = Some 1" using s3(2) by (simp add: up_def)
  have n3: "\<not> needs_sub (dev s3 0) (dbdev s3 0)" by (simp add: s3 sel2 needs_sub_def client_type_def DEVTYPE_NONE_def)
  obtain s4 M where s4: "dev_register opt 0 s3 = Some (0, s4)" "up s4 [0] (\<lambda>_. []) [] M []" "only 0 s3 s4" "devs s4 = 0 # devs s3"
    "view (dev s4 0) = (Some 1, Some (TAGUID 1 (dd_tagid (dbdev s3 0))), d_type (dev s3 0), d_active (dev s3 0), None)"
    using dev_register_up [OF s3(2), of 0 opt] n3 s3(3,5) sel2(6,9) by (auto simp: new_dev_def DEVTYPE_NONE_def)
  have "dev_register opt 0 s2 = dev_register opt 0 s3"
    by (rule dev_register_group [OF s3(1) _ g3]) (simp_all add: sel2 s3)
  then have run: "add_manager_dev opt ?s0 = Some s4"
    using s4(1) by (simp add: add_manager_dev_def s2_def manager_row_def Let_def)
  have "dbdevs s4 = dbdevs db" "\<forall>e. e \<noteq> 0 \<longrightarrow> dbdev s4 e = dbdev db e" "g_active_count (grp s4 1) = replicate 8 0"
    using s4(3) s3 sel2 by (simp_all add: only_def)
  moreover have "dd_ptc_cmd (dbdev s4 0) = []" using s4(3) s3(4) sel2(8) same_row_sel(5) by (fastforce simp: only_def manager_row_def)
  moreover have "view (dev s4 0) = (Some 1, Some (TAGUID 1 1), 0, 0, None)"
    using s4(5) s3(3,4) sel2(8,9) by (simp add: manager_row_def new_dev_def DEVTYPE_NONE_def)
  ultimately show ?thesis using run s4(2,4) s3(5) sel2(6) by auto
qed

lemma ptc_same_steady:
  assumes "ptc_same s s'"
  shows "steady s s'"
  using ptc_same_frame [OF assms] arg_cong [OF assms [unfolded ptc_same_def], of dbvote] by (simp add: steady_def)

lemma go_current_up:
  assumes up: "up s L X P M V" and fits: "ptc_fits s"
  shows "\<exists>s'. ptc_go_current s = Some s' \<and> up s' L X P M V \<and> ptc_same s s'"
proof -
  obtain s' where s': "ptc_go_current s = Some s'"
    using ptc_send_defined [OF fits, of "the (ptc_curr s)"] ptc_default_from_defined [OF fits, of 0 32]
    by (cases "ptc_curr s") (auto simp: ptc_go_current_def ptc_default_def)
  then have "ptc_same s s'"
    using ptc_send_same ptc_default_from_same by (auto simp: ptc_go_current_def ptc_default_def split: option.splits)
  then show ?thesis using s' up_steady [OF up ptc_same_steady] ptc_same_frame(1) by blast
qed

lemma recover_server_up:
  assumes ok: "db_ok db"
  shows "\<exists>s M W. recover_server opt (init_groups (static_srv db)) = Some s
    \<and> up s (0 # enabled_devs db) (\<lambda>t. filter (\<lambda>d. row_tag db d = t) (open_devs db)) (rev (open_devs db)) M W
    \<and> devs s = rev (0 # enabled_devs db) \<and> (\<forall>d \<in> set (enabled_devs db). as_row (dbdev db d) (dev s d))
    \<and> view (dev s 0) = (Some 1, Some (TAGUID 1 1), 0, 0, None) \<and> g_active_count (grp s 1) = replicate 8 0 \<and> ptc_fits s"
proof -
  have e: "enabled_of db (dbdevs db) = enabled_devs db" "open_of db (dbdevs db) = open_devs db"
    by (simp_all add: enabled_of_def enabled_devs_def open_of_def open_devs_def)
  obtain s1 M where s1: "add_manager_dev opt (init_groups (static_srv db)) = Some s1" "up s1 [0] (\<lambda>_. []) [] M []" "devs s1 = [0]"
    "dbdevs s1 = dbdevs db" "\<forall>e. e \<noteq> 0 \<longrightarrow> dbdev s1 e = dbdev db e" "dd_ptc_cmd (dbdev s1 0) = []"
    "view (dev s1 0) = (Some 1, Some (TAGUID 1 1), 0, 0, None)" "g_active_count (grp s1 1) = replicate 8 0"
    using add_manager_up [OF ok] by blast
  have "set (devs s1) = set [0]" "distinct (dbdevs db)" "set (dbdevs db) \<inter> set [0] = {}"
    using ok s1(3) by (auto simp: db_ok_def)
  moreover have "\<forall>d \<in> set (dbdevs db). dbdev s1 d = dbdev db d \<and> 0 \<le> dd_type (dbdev db d)"
  proof
    fix d assume d: "d \<in> set (dbdevs db)"
    then have "d \<noteq> 0" using ok by (auto simp: db_ok_def)
    then show "dbdev s1 d = dbdev db d \<and> 0 \<le> dd_type (dbdev db d)" using ok d s1(5) by (simp add: db_ok_def)
  qed
  ultimately obtain s2 M2 W where s2: "foldM (recover_dev opt) (dbdevs db) s1 = Some s2"
    "up s2 (0 # enabled_devs db) (\<lambda>t. filter (\<lambda>d. row_tag db d = t) (open_devs db)) (rev (open_devs db)) M2 W"
    "devs s2 = rev (enabled_devs db) @ [0]" "\<forall>d \<in> set (enabled_devs db). as_row (dbdev db d) (dev s2 d)"
    "\<forall>e. e \<notin> set (dbdevs db) \<longrightarrow> dev s2 e = dev s1 e" "g_active_count (grp s2 1) = g_active_count (grp s1 1)" "ptc_rows s1 s2"
    using recover_all [OF s1(2), of "dbdevs db" db opt] s1(3) unfolding e by auto
  have "ptc_fits db" using ok by (simp add: db_ok_def)
  then have "ptc_fits s1" using s1(5,6) unfolding ptc_fits_def by metis
  then have f2: "ptc_fits s2" using s2(7) by (intro ptc_fits_cong [THEN iffD2, of s2 s1]) (auto simp: ptc_rows_def)
  from go_current_up [OF s2(2) this] obtain s3 where s3: "ptc_go_current s2 = Some s3" "ptc_same s2 s3"
    "up s3 (0 # enabled_devs db) (\<lambda>t. filter (\<lambda>d. row_tag db d = t) (open_devs db)) (rev (open_devs db)) M2 W" by blast
  have "recover_server opt (init_groups (static_srv db)) = Some s3" using s1(1,4) s2(1) s3(1) by (simp add: recover_server_def)
  moreover have "dev s2 0 = dev s1 0" using s2(5) ok by (simp add: db_ok_def)
  moreover have "ptc_fits s3" using ptc_fits_same [OF s3(2)] f2 by simp
  ultimately show ?thesis
    using s3(3) ptc_same_frame [OF s3(2)] s2(3,4,6) s1(7,8) by (intro exI [of _ s3] exI [of _ M2] exI [of _ W]) simp
qed

lemma up_beat:
  assumes up: "up s (0 # L) X P M V" and L: "\<forall>d \<in> set L. as_row (dbdev db d) (dev s d) \<and> 0 \<le> dd_type (dbdev db d)"
    and man: "view (dev s 0) = (Some 1, Some t, 0, 0, None)" and cnt: "g_active_count (grp s 1) = replicate 8 0"
  shows "beat_inv s (0 # L) X P"
proof -
  have d: "d_group (dev s d) = Some 1 \<and> 0 \<le> d_type (dev s d) \<and> d_active (dev s d) = 0 \<and> d_tag (dev s d) \<noteq> None" if "d \<in> set (0 # L)" for d
    using that L man by (cases "d = 0") (auto simp: as_row_def view_def)
  then have "active_of s (0 # L) k = 0" for k unfolding active_of_def by (simp add: filter_empty_conv)
  moreover have "distinct (0 # L)" using up by (simp add: up_def)
  ultimately have "activity s (0 # L)" using d cnt unfolding activity_def by (simp del: set_simps distinct.simps)
  moreover have "listed s (0 # L)"
    unfolding listed_def
  proof
    fix e assume e: "e \<in> set (0 # L)"
    then obtain u where "d_tag (dev s e) = Some u" using d by blast
    then show "\<exists>t \<in> set (tags s). d_tag (dev s e) = Some t" using up e unfolding up_def by blast
  qed
  ultimately show ?thesis using up by (simp add: beat_inv_def up_def)
qed

lemma up_staged:
  assumes up: "up s (0 # enabled_devs db) (\<lambda>t. filter (\<lambda>d. row_tag db d = t) (open_devs db)) (rev (open_devs db)) M V"
    and rows: "\<forall>d \<in> set (enabled_devs db). as_row (dbdev db d) (dev s d)" and man: "view (dev s 0) = (Some 1, Some t, 0, 0, None)"
  shows "staged s (rev (open_devs db))"
proof -
  have "d \<in> set (open_devs db)" if "d_open (dev s d) = 1" for d
  proof -
    have "d \<in> set (0 # enabled_devs db)" using up that by (auto simp: up_def unborn_def)
    then obtain u where "d_tag (dev s d) = Some u" using rows man by (cases "d = 0") (auto simp: as_row_def view_def)
    moreover have "disc_inv s (\<lambda>t. filter (\<lambda>d. row_tag db d = t) (open_devs db))" using up by (simp add: up_def room_inv_def)
    ultimately have "d \<in> set (filter (\<lambda>d. row_tag db d = u) (open_devs db))" using that unfolding disc_inv_def by blast
    then show ?thesis by simp
  qed
  then have "speakers s \<subseteq> set (rev (open_devs db))" by (auto simp: speakers_def)
  moreover have "{d. d_mixbit (dev s d) \<noteq> 0} \<subseteq> speakers s" using up by (simp add: up_def placed_def)
  ultimately show ?thesis by (simp add: staged_def)
qed

text \<open>
  C5. The server comes up as the database says. From tables fit for a start, and options and client
  versions that are in order, server_start neither faults nor exits. Afterwards exactly the manager's device
  and the devices with an enabled row are known, in the group in the order of the rows, each as its row says
  and none active. The open lists of the tags are those that were open, in the order of the rows, with their
  counters and the counters of activity in order (beat_inv); each of these devices is seated, that is it has
  a mixing slot unless all eight of its tag are taken, and no other device has one; the cameras are stacked
  with the last one on top (staged), and their messages fit (ptc_fits). The subscriptions agree with the
  lists of the tags (sub_inv), no job waits in the pool (async_inv), and the listener holds a packet of its
  cache (cache_ok).
\<close>

theorem server_comes_up_as_saved:
  assumes "db_ok db" and "main_options args main_defaults = Inr w" and "load_client_version E = Some v"
  shows "\<exists>sv l M. server_start args E db = Some (Inr (sv, l)) \<and> sv_opts sv = w \<and> sv_version sv = v
    \<and> set (devs (sv_srv sv)) = set (0 # enabled_devs db) \<and> list_devs (GrpHead 1) (sv_srv sv) = Some (0 # enabled_devs db)
    \<and> (\<forall>d \<in> set (enabled_devs db). as_row (dbdev db d) (dev (sv_srv sv) d))
    \<and> beat_inv (sv_srv sv) (0 # enabled_devs db) (\<lambda>t. filter (\<lambda>d. row_tag db d = t) (open_devs db)) (rev (open_devs db))
    \<and> staged (sv_srv sv) (rev (open_devs db)) \<and> (\<forall>d \<in> set (open_devs db). seated (row_tag db d) d (sv_srv sv))
    \<and> ptc_fits (sv_srv sv) \<and> sub_inv (sv_srv sv) M \<and> async_inv (sv_async sv) \<and> as_jobs (sv_async sv) = []
    \<and> ls_srv l = sv_srv sv \<and> cache_ok (ls_cache l) \<and> cached (ls_cache l) = {ls_pack l}"
proof -
  obtain bp where bp: "init_pack_pool = Some bp" using init_block_pool_rep [of PACK_SIZE PACK_COUNT True] by (auto simp: init_pack_pool_def)
  obtain q :: async where q: "async_init = Some q" "async_inv q" "as_jobs q = []" using async_init_inv by blast
  obtain s M W where s: "recover_server (mo_mixer w) (init_groups (static_srv db)) = Some s"
    "up s (0 # enabled_devs db) (\<lambda>t. filter (\<lambda>d. row_tag db d = t) (open_devs db)) (rev (open_devs db)) M W"
    "devs s = rev (0 # enabled_devs db)" "\<forall>d \<in> set (enabled_devs db). as_row (dbdev db d) (dev s d)"
    "view (dev s 0) = (Some 1, Some (TAGUID 1 1), 0, 0, None)" "g_active_count (grp s 1) = replicate 8 0" "ptc_fits s"
    using recover_server_up [OF assms(1)] by blast
  have init: "cache_ok cache_init" "cached cache_init = {}" by (simp_all add: cache_init_def cache_ok_def cached_def PACK_COUNT_def)
  have "0 \<in> {..<PACK_COUNT} - cached cache_init" by (simp add: init(2) PACK_COUNT_def)
  then have "{..<PACK_COUNT} - cached cache_init \<noteq> {}" by blast
  from pack_get_fast_free [OF init(1) this, of "\<lambda>_ c. c" 0] obtain p c where
    p: "pack_get_fast (\<lambda>_ c. c) 0 cache_init = Some (p, c)" "cache_ok c" "cached c = {p}" using init(2) by auto
  have run: "server_start args E db = Some (Inr (\<lparr>sv_srv = s, sv_packs = bp, sv_async = q, sv_version = v, sv_opts = w\<rparr>,
      \<lparr>ls_srv = s, ls_cache = c, ls_pack = p\<rparr>))"
    using assms(2,3) bp q(1) s(1) p(1) by (simp add: server_start_def basic_setup_def listen_start_def)
  have "\<forall>d \<in> set (enabled_devs db). as_row (dbdev db d) (dev s d) \<and> 0 \<le> dd_type (dbdev db d)"
    using s(4) assms(1) by (auto simp: db_ok_def enabled_devs_def)
  from up_beat [OF s(2) this s(5,6)]
  have beat: "beat_inv s (0 # enabled_devs db) (\<lambda>t. filter (\<lambda>d. row_tag db d = t) (open_devs db)) (rev (open_devs db))" .
  have l: "dlist (hp s) (GrpHead 1) (map DGrp (0 # enabled_devs db))" and sub: "sub_inv s M" using s(2) by (simp_all add: up_def)
  have "list_devs (GrpHead 1) s = Some (0 # enabled_devs db)"
    using list_for_each_dlist [OF l] by (simp only: list_devs_def bind.bind_lunit those_dev_of)
  moreover have "staged s (rev (open_devs db))" by (rule up_staged [OF s(2,4,5)])
  moreover have "seated (row_tag db d) d s" if "d \<in> set (open_devs db)" for d using s(2) that by (simp add: up_def placed_def)
  moreover have "set (devs s) = set (0 # enabled_devs db)" using s(3) by (simp only: set_rev)
  ultimately show ?thesis
    using run beat sub s(4,7) q(2,3) p(2,3)
    by (intro exI [of _ "\<lparr>sv_srv = s, sv_packs = bp, sv_async = q, sv_version = v, sv_opts = w\<rparr>"]
        exI [of _ "\<lparr>ls_srv = s, ls_cache = c, ls_pack = p\<rparr>"] exI [of _ M]) simp
qed

text \<open>A database in which device 8 was speaking, with the software mixer.\<close>

definition saved :: srv where
  "saved = demo\<lparr>dbdev := (dbdev demo)(8 := (dbdev demo 8)\<lparr>dd_discuss_open := 1\<rparr>, 9 := (dbdev demo 9)\<lparr>dd_enabled := 0\<rparr>)\<rparr>"

definition no_upgrades :: upgrade_env where
  "no_upgrades = \<lparr>ue_prepare = 0, ue_new_version = None, ue_build = [], ue_move = 0, ue_files = [], ue_script = 0\<rparr>"

theorem server_comes_up_as_saved_witness:
  "\<exists>sv l. server_start [(CHR ''m'', ''soft''), (CHR ''B'', [])] no_upgrades saved = Some (Inr (sv, l)) \<and> mo_mixer (sv_opts sv) = Soft
    \<and> list_devs (GrpHead 1) (sv_srv sv) = Some [0, 8, 7, 5] \<and> d_open (dev (sv_srv sv) 8) = 1 \<and> d_open (dev (sv_srv sv) 7) = 0
    \<and> seated (row_tag saved 8) 8 (sv_srv sv) \<and> staged (sv_srv sv) [8]"
proof -
  have "ptc_fits saved" by (simp add: ptc_fits_def saved_def demo_def demo_dbdev_def)
  moreover have "0 \<le> dd_type (dbdev saved d)" for d by (simp add: saved_def demo_def demo_dbdev_def)
  ultimately have ok: "db_ok saved"
    by (simp add: db_ok_def) (simp add: saved_def demo_def demo_dbgrp_def md_find_discuss_def md_find_vote_def)
  have e: "enabled_devs saved = [8, 7, 5]" by (simp add: enabled_devs_def saved_def demo_def demo_dbdev_def)
  then have o: "open_devs saved = [8]" by (simp add: open_devs_def) (simp add: saved_def demo_def demo_dbdev_def)
  have "main_options [(CHR ''m'', ''soft''), (CHR ''B'', [])] main_defaults
    = Inr (main_defaults\<lparr>mo_mixer := Soft, mo_opts := (mo_opts main_defaults)\<lparr>opt_broadcast := False\<rparr>\<rparr>)"
    by (simp add: main_opt_def default_opts_def Let_def)
  moreover have "load_client_version no_upgrades = Some []" by (simp add: load_client_version_def no_upgrades_def)
  ultimately obtain sv l where "server_start [(CHR ''m'', ''soft''), (CHR ''B'', [])] no_upgrades saved = Some (Inr (sv, l))"
    "sv_opts sv = main_defaults\<lparr>mo_mixer := Soft, mo_opts := (mo_opts main_defaults)\<lparr>opt_broadcast := False\<rparr>\<rparr>"
    "list_devs (GrpHead 1) (sv_srv sv) = Some [0, 8, 7, 5]" "\<forall>d \<in> set [8, 7, 5]. as_row (dbdev saved d) (dev (sv_srv sv) d)"
    "staged (sv_srv sv) (rev [8])" "\<forall>d \<in> set [8]. seated (row_tag saved d) d (sv_srv sv)"
    using server_comes_up_as_saved [OF ok, of "[(CHR ''m'', ''soft''), (CHR ''B'', [])]" _ no_upgrades "[]"] unfolding e o by blast
  then show ?thesis by (auto simp: as_row_def saved_def demo_def demo_dbdev_def)
qed

end
