(* ===== verification/Spec2Isabelle.thy ===== *)
theory Spec2Isabelle
  imports Foundation_Props Server_Props Discuss_Props Votectrl_Props Audio_Props
    Casting_Props Device_Props Receiving_Props Command_Props Request_Props Manager_Props
    Client_Video Client_Reg Client_Msg Client_Ucast Client_Relay Inifile_Props Threadpool_Props
    Intake_Props Sending_Props Aacdec Startup_Props
begin

text \<open>
  A verification library for the daya conferencing system: its server (serv/), the client library that
  devices link to with the programs around it (client/), the pool of threads (threadpool/), and the
  headers they share (include/, cmd/, sha/).

  THE PROGRAM. Conference devices talk to the server over TCP and UDP. A device registers, proves
  that it knows the checksum of its id and type, and joins the one group. Its audio, in datagrams or
  over a connection, is queued per device; a casting thread per tag (a room and channel) takes the
  packets in front of the queues of the devices that hold one of the eight mixing slots, adds the
  samples up, numbers the result and broadcasts it, keeping the last packets for devices that ask for
  one again. Commands, one per connection, are decoded, parsed, dispatched by name to a handler and
  answered; handlers run the discussion (who may speak), the votes, registration of people, cameras,
  subscriptions and interpretation, and save what they change as rows of a database of which a copy is
  in memory. A heartbeat thread takes out silent devices, and a manager's connection reads lines, of
  which some are commands passed on to the same handlers and the others read and change rows. The client
  library writes the commands, reads the replies into the caller's structures, turns commands and
  broadcasts of the server into events of the application, and sends and receives audio and video.
  Around it stand programs that cast: a recorder that compresses sound and broadcasts it with
  retransmission, a caster that sends each packet to the subscribers of a tag one by one, a relay that
  mixes and casts again, and a player. Broadcasts and commands to devices run in a pool of threads.

  CONVENTIONS. Every operation is a HOL function of the same name. State is passed explicitly: the
  record srv of State holds all of the server's globals, the links of all lists are in its heap hp, and
  what leaves the server (datagrams, saved rows, commands to a device, answers) is appended to its
  trace. A result of type option is None when the C code has a fault: it follows a null or freed
  pointer, leaves an array, or hands strtok's null result to strcmp; for a partial_function None also
  stands for a loop that does not end. Error codes are ordinary values. char and int are HOL characters
  and int where the code only counts or compares; the digest, the circular fifo, sequence numbers, the
  differences of addresses and the samples are kept at their width. The code runs on a little-endian
  machine. What other threads do while a thread sleeps is the parameter env of the waits; the clock,
  rand(), ping replies, the card lookup and the result of the generated database functions are
  parameters too.

  THEORIES AND CODE, in the order of the imports:
   Prelude: collections, the option monad, foldM, generic lemmas.
   List_Head (include/list.h), Queue (include/queue.h), Cfifo (include/cfifo.h), Hash (include/hash.h,
    serv/strhash.h), Sha (sha/), Encode (include/encode.h, cksum.h), Pcm (serv/pcm.c), Pools
    (serv/block.c, packet.c), Cstr (serv/strutil.h, cmd_handler.h and the C functions they use), Cmd
    (cmd/): the building blocks, with locales linked_list, fifo_queue, bounded_fifo, keyed_table and
    buffer_pool for their contracts, interpreted on the code's model.
   State (dev.h, tag.h, group.h, vote.h, sys.c): the state, its lookups and outputs.
   Outstanding, Tags, Mixing, Casting (tag.c, net_mixer.c, soft_mixer.c, cast.c): slots, tags, mixing
    and casting; Mixing_Inv: the queues as lists of packets.
   Ptc (ptc.c), Brcmd (brcmd.c), Subscribe (cast.c, interp.c), Discuss (cmd_discctrl.c) with
    Discuss_Inv, Votectrl (cmd_votectrl.c), Devices (devctl.c, group.c, manage.c, hbeat.c, recover.c)
    with Devices_Inv, Register (cmd_reg.c), Video (cmd_video.c), Commands (the other cmd_ files).
   Receiving, Audio_Stream (network.c): the listeners. Requests (cmd_handler.c, network.c): a request
    from its coded bytes to the coded bytes of the answer, with the table of all handlers.
   Client (client/client.c): the state, options and start of the client library; Client_Text,
    Client_Cmds: its commands and the reading of replies; Client_Events: what arrives becomes events;
    Client_Mix (client/mix.c), Client_Audio: audio and video; Client_Net (client/net.c): connections.
    Client_Server composes the calls of a client with the requests at the server, Client_Wire has the
    layout of the server's broadcasts, and Client_Props, Client_Video, Client_Reg, Client_Msg the
    properties. The record client holds the library's static variables and a trace of what it sends
    and raises; a function of client.h with the name of a server operation has client_ in front.
   Adpcm (client/adpcm.c), Client_Pcm (client/pcm.c), Rbudp (client/rbudp.c) with Rbudp_Props:
    compression, channels and rates, broadcasting with retransmission. Client_Cast (client/cast.c,
    bcast.c, apitest.c) puts them together, from the frame recorded to the sound device. Client_Ucast
    (client/ucast.c, cmd_sub.c): the caster by unicast beside the server that tells it of subscribers;
    Client_Relay (client/xcast.c, netplay.c): relay and player; Inifile (client/inifile.c).
   Threadpool (threadpool/threadpool.c): the pool as steps of its threads and callers, in any order.
    Sending (async.c, brcmd.c, network.c): what the server hands to it, commands in blocks and repeated
    broadcasts. Intake (network.c): the thread that accepts connections and the one that answers them,
    as steps over the blocks and the queue. Aacdec (client/aacdec.c): the buffer in front of the AAC
    library.
   Tables (db/md.c), Manager (cmd_manage.c, upgrade.c): the tables and the manager's connection.
   Startup (main.c, opts.c, sys.c): options, set-up and recovery; Startup_Inv and Startup_Steps: what recovery
    keeps as it creates device after device.
   Demo: a small server for the witnesses. The theories named _Props hold the properties.

  WHAT THE LEMMAS SHOW. The building blocks refine lists, maps and the one-shot digest, over any
  sequence of operations. The server comes up as its database says: the devices of the rows, the open
  lists with their mixing slots and the camera stack, and the subscriptions. room_inv (Discuss_Inv) says
  that the open list of every tag, its counter and the open flags agree and that the mixing slots and the
  camera stack are in order; the request command, heartbeats and activation keep it. staged ties them
  together, every open device on the camera stack and slots in the hands of open devices only, which the
  request command keeps too; no more than maxuser devices open, and what opens and closes is determined.
  Votes count each ballot once and clean up. Mixing never faults, always returns and sums the packets in
  front, with every option; casting numbers packets and keeps the window of 16. Listeners lose no
  packet they sort, a stream of audio is cut alike whatever pieces arrive, requests reach their handler
  and its answer or failure code the client, tables behave like lists of rows, and a manager's lines are those of the
  stream. A client and the server are put together over the coded bytes: the microphone flags stay in
  agreement, what a client reads is the server's state, messages and broadcasts raise their events at
  the clients they are for and once, failures are seen, and frames of video arrive whole. A coder and a
  decoder of sound stay in step, whatever the blocks, and the error of a sample is bounded; a lost packet
  of the retransmitting broadcast is asked for, repeated and handed on in order; put together, sound that
  is cast is heard as the coder predicted it. The unicast caster and the server agree on who is
  subscribed while no device moves straight from tag to tag, the relay casts whole frames, a
  configuration file is a map from names to values. The pool
  runs each job once and never gets stuck as long as no thread's wait ends by itself, which its code does
  not catch; of the server's jobs every command goes once to its device, with its text, and a broadcast
  of which one of ten copies arrives is heard once. Connections are answered in order, whatever the other
  threads do, and all of them while handlers return. The buffer of the AAC decoder is a stream. The
  rest are the inputs on which the code faults, hangs or loses its invariant, each on the exact condition.

  BOUNDS AND FUEL. mix_audio waits at most 51 times for all queues and 301 times for any (the fuel of
  the waits is one more than the code's timeouts, and mixing_always_returns shows that it is enough); a
  tag has 8 slots and a window of 16 packets, the packet cache 1024 entries, a device queue 31 packets,
  a chunk of audio 524 bytes; recv_line terminates because it consumes pieces, md_walk gets one step
  more than there are rows, serv_manage one line per step. mix_bcast lists 64 addresses. A
  sender of rbudp keeps 32 packets and a receiver 7 that wait, so that handing them on has fuel 9; the
  relay mixes at most 32 packets of a queue before it is empty (fuel 33); a configuration file has less
  than 16384 bytes, and parsing it terminates because every turn moves forward in the text. The pool is
  shown for any number of callers and up to 200 threads.

  ASSUMPTIONS. malloc does not fail and the writes to the database that handlers make succeed; reply
  buffers of handlers are large enough (the buffer of do_send, the manager's buffer for tables and the
  datagrams of brcmd are modelled), and so are the buffers an application hands to the client library;
  the network of a client is a function from the line to what send_tcp returns; the conversions of
  byte order at both ends of a client's datagram cancel out; the AAC library is a function from what it
  gets to what it writes; a datagram of rbudp is lost or arrives as it was sent; atoi is unbounded;
  inet_addr reads four decimal parts; C strings hold no zero byte. Mutexes make the operations they enclose atomic. A command handed to the send
  operation of a device is the output CmdTo.

  NOT MODELLED. The vendored sqlite and AAC codecs; the row functions and the read_ and write_ macros
  that db/gen-db.sh and db/gen-mng.sh generate (parameters); init.c and sigsegv.c, sockets and the
  starting of threads, and the sockets and listening loops of client/net.c; destroying the pool and
  sending files, which nothing does; enounce.c, whose datagram nothing receives; in client/ the test
  programs but for the playing of sound, the setting up of sound devices and command lines, the sequence
  numbers slaves take from a master (slave.c, master_heart.c), and the two audio queue threads that are
  compiled out. The handlers and the pool are not one transition system: for a handler a command or a
  broadcast handed over is an entry of the trace. The data commands of a manager work on tables of their
  own, not on the rows that srv keeps for the handlers.
\<close>

end
